(* ===== verification/Prelude.thy ===== *)
theory Prelude
  imports Main "HOL-Library.Word" "HOL-Library.Monad_Syntax"
begin

text \<open>
  Shared vocabulary of the development: names of the machine integer types, the two ways a Rust
  function can fail (a \<^verbatim>\<open>Result::Err\<close> value and a panic), slices, \<^verbatim>\<open>usize\<close> arithmetic,
  big-endian byte strings, \<^verbatim>\<open>partition_point\<close>, and the lemmas on words and sorted lists that the
  component theories use.

  Conventions. A function that can panic returns an \<open>option\<close>, \<open>None\<close> being the panic; a
  \<^verbatim>\<open>Result\<close> is a sum with \<open>Inl\<close> for the error. Integer arithmetic is that of a release build:
  \<open>+\<close>, \<open>-\<close> and \<open>*\<close> wrap around. Integer division by zero panics.
\<close>

section \<open>Types\<close>

type_synonym u8 = "8 word"
type_synonym u16 = "16 word"
type_synonym u32 = "32 word"
type_synonym u64 = "64 word"
type_synonym bytes = "u8 list"

type_synonym 'a panics = "'a option"
type_synonym ('e, 'a) result = "'e + 'a"

named_theorems u64_simps \<open>unsigned values of u64 expressions that do not wrap\<close>

text \<open>Sequencing of computations that can panic or return an error, as by the operator \<^verbatim>\<open>?\<close>.\<close>

definition rbind :: "('e, 'a) result panics \<Rightarrow> ('a \<Rightarrow> ('e, 'b) result panics) \<Rightarrow> ('e, 'b) result panics" where
  "rbind m f = do { r \<leftarrow> m; case r of Inl e \<Rightarrow> Some (Inl e) | Inr x \<Rightarrow> f x }"

lemma rbind_simps [simp]:
  "rbind None f = None" "rbind (Some (Inl e)) f = Some (Inl e)" "rbind (Some (Inr x)) f = f x"
  by (simp_all add: rbind_def)

section \<open>Division and usize arithmetic\<close>

definition u64_div :: "u64 \<Rightarrow> u64 \<Rightarrow> u64 panics" where
  "u64_div a b = (if b = 0 then None else Some (a div b))"

definition usize_add :: "nat \<Rightarrow> nat \<Rightarrow> nat" where
  "usize_add a b = (a + b) mod 2 ^ 64"

definition usize_sub :: "nat \<Rightarrow> nat \<Rightarrow> nat" where
  "usize_sub a b = (if b \<le> a then a - b else (2 ^ 64 - (b - a) mod 2 ^ 64) mod 2 ^ 64)"

lemma usize_sub_le [simp]: "b \<le> a \<Longrightarrow> usize_sub a b = a - b"
  by (simp add: usize_sub_def)

lemma usize_add_small [simp]: "a + b < 2 ^ 64 \<Longrightarrow> usize_add a b = a + b"
  by (simp add: usize_add_def)

lemma u64_div_nonzero [simp]: "b \<noteq> 0 \<Longrightarrow> u64_div a b = Some (a div b)"
  by (simp add: u64_div_def)

lemma u64_div_zero [simp]: "u64_div a 0 = None"
  by (simp add: u64_div_def)

section \<open>Words as numbers\<close>

lemma unat_u64_lt [simp]: "unat (a :: u64) < 18446744073709551616"
  using unsigned_less [of a] by simp

lemma unat_u32_lt [simp]: "unat (a :: u32) < 4294967296"
  using unsigned_less [of a] by simp

lemma unat_ucast_u32: "unat (ucast (n :: u32) :: u64) = unat n"
  using unat_u32_lt [of n] by (simp add: unsigned_ucast_eq take_bit_nat_eq_self_iff del: unat_u32_lt)

lemma unat_add_u64 [u64_simps]:
  "unat (a :: u64) + unat b < 2 ^ 64 \<Longrightarrow> unat (a + b) = unat a + unat b"
  using unat_add_lem [of a b] by simp

lemma unat_mult_u64 [u64_simps]:
  "unat (a :: u64) * unat b < 2 ^ 64 \<Longrightarrow> unat (a * b) = unat a * unat b"
  using unat_mult_lem [of a b] by simp

lemma unat_sub_u64 [u64_simps]: "b \<le> (a :: u64) \<Longrightarrow> unat (a - b) = unat a - unat b"
  by (rule unat_sub)

lemma unat_div_u64 [u64_simps]: "unat ((a :: u64) div b) = unat a div unat b"
  by (rule unat_div_distrib)

lemma unat_mod_u64 [u64_simps]: "unat ((a :: u64) mod b) = unat a mod unat b"
  by (rule unat_mod_distrib)

lemma unat_pos_iff: "(0 < unat (a :: u64)) = (a \<noteq> 0)"
  by (simp add: unat_gt_0)

lemma floor_to_grid:
  fixes t g :: nat
  assumes "0 < g"
  shows "t div g * g \<le> t" "t < t div g * g + g" "t - t div g * g = t mod g"
  using assms by (simp_all add: minus_div_mult_eq_mod dividend_less_div_times
      flip: modulo_nat_def) (metis add.commute div_mult_mod_eq mod_less_divisor nat_add_left_cancel_less)

section \<open>Slices\<close>

text \<open>
  \<^verbatim>\<open>&xs[a..b]\<close>, \<^verbatim>\<open>xs[i]\<close>, \<^verbatim>\<open>xs.copy_within(a..b, 0)\<close> and
  \<^verbatim>\<open>xs[i..i + n].copy_from_slice(ys)\<close>: all of them panic out of range.
\<close>

definition slice :: "'a list \<Rightarrow> nat \<Rightarrow> nat \<Rightarrow> 'a list panics" where
  "slice xs a b = (if a \<le> b \<and> b \<le> length xs then Some (take (b - a) (drop a xs)) else None)"

definition index :: "'a list \<Rightarrow> nat \<Rightarrow> 'a panics" where
  "index xs i = (if i < length xs then Some (xs ! i) else None)"

definition copy_within0 :: "'a list \<Rightarrow> nat \<Rightarrow> nat \<Rightarrow> 'a list panics" where
  "copy_within0 xs a b = do { d \<leftarrow> slice xs a b; Some (d @ drop (length d) xs) }"

definition copy_from_slice :: "'a list \<Rightarrow> nat \<Rightarrow> 'a list \<Rightarrow> 'a list panics" where
  "copy_from_slice xs i ys =
     (if i + length ys \<le> length xs then Some (take i xs @ ys @ drop (i + length ys) xs) else None)"

lemma slice_Some [simp]:
  "a \<le> b \<Longrightarrow> b \<le> length xs \<Longrightarrow> slice xs a b = Some (take (b - a) (drop a xs))"
  by (simp add: slice_def)

lemma index_Some [simp]: "i < length xs \<Longrightarrow> index xs i = Some (xs ! i)"
  by (simp add: index_def)

lemma copy_within0_Some [simp]:
  "a \<le> b \<Longrightarrow> b \<le> length xs \<Longrightarrow>
     copy_within0 xs a b = Some (take (b - a) (drop a xs) @ drop (b - a) xs)"
  by (simp add: copy_within0_def min_absorb1)

lemma copy_from_slice_Some [simp]:
  "i + length ys \<le> length xs \<Longrightarrow>
     copy_from_slice xs i ys = Some (take i xs @ ys @ drop (i + length ys) xs)"
  by (simp add: copy_from_slice_def)

text \<open>Records of equal length one after the other.\<close>

lemma length_concat_const:
  "\<forall>x \<in> set xs. length x = k \<Longrightarrow> length (concat xs) = k * length xs"
  by (induction xs) auto

lemma those_map_Some: "\<forall>x \<in> set xs. f x = Some (g x) \<Longrightarrow> those (map f xs) = Some (map g xs)"
  by (induction xs) auto

lemma take_drop_concat:
  "\<forall>x \<in> set xs. length x = k \<Longrightarrow> i < length xs \<Longrightarrow> take k (drop (k * i) (concat xs)) = xs ! i"
proof (induction xs arbitrary: i)
  case Nil
  then show ?case by simp
next
  case (Cons x xs)
  then show ?case by (cases i) (simp_all add: algebra_simps)
qed

text \<open>
  \<^verbatim>\<open>slice::partition_point\<close>: the index of the first element that fails the predicate. Its result is
  specified for slices in which all elements that satisfy it come first, which every use in the
  code guarantees by sortedness.
\<close>

definition partition_point :: "('a \<Rightarrow> bool) \<Rightarrow> 'a list \<Rightarrow> nat" where
  "partition_point p xs = length (takeWhile p xs)"

lemma partition_point_le: "partition_point p xs \<le> length xs"
  by (simp add: partition_point_def length_takeWhile_le)

lemma partition_point_before: "i < partition_point p xs \<Longrightarrow> p (xs ! i)"
  unfolding partition_point_def
  by (metis nth_mem set_takeWhileD takeWhile_nth)

lemma partition_point_at: "partition_point p xs < length xs \<Longrightarrow> \<not> p (xs ! partition_point p xs)"
  unfolding partition_point_def by (rule nth_length_takeWhile)

section \<open>Big-endian integers\<close>

text \<open>
  \<^verbatim>\<open>to_be_bytes\<close> and \<^verbatim>\<open>from_be_bytes\<close> of an integer of \<open>n\<close> bytes. Floating point values are
  carried as their bit patterns, as \<^verbatim>\<open>f32::from_be_bytes\<close> does.
\<close>

primrec nat_to_be :: "nat \<Rightarrow> nat \<Rightarrow> bytes" where
  "nat_to_be 0 x = []"
| "nat_to_be (Suc n) x = nat_to_be n (x div 256) @ [of_nat x]"

definition nat_from_be :: "bytes \<Rightarrow> nat" where
  "nat_from_be bs = foldl (\<lambda>a b. a * 256 + unat b) 0 bs"

definition to_be :: "nat \<Rightarrow> 'a::len word \<Rightarrow> bytes" where
  "to_be n w = nat_to_be n (unat w)"

definition from_be :: "bytes \<Rightarrow> 'a::len word" where
  "from_be bs = of_nat (nat_from_be bs)"

lemma length_nat_to_be [simp]: "length (nat_to_be n x) = n"
  by (induction n arbitrary: x) simp_all

lemma length_to_be [simp]: "length (to_be n w) = n"
  by (simp add: to_be_def)

lemma nat_from_be_snoc: "nat_from_be (bs @ [b]) = nat_from_be bs * 256 + unat b"
  by (simp add: nat_from_be_def)

lemma unat_of_nat_u8: "unat (of_nat x :: u8) = x mod 256"
  by (simp add: unsigned_of_nat take_bit_eq_mod)

lemma nat_from_to_be: "nat_from_be (nat_to_be n x) = x mod 256 ^ n"
proof (induction n arbitrary: x)
  case 0
  then show ?case by (simp add: nat_from_be_def)
next
  case (Suc n)
  have "x mod 256 ^ Suc n = (x div 256) mod 256 ^ n * 256 + x mod 256"
    using mod_mult2_eq [of x 256 "256 ^ n"] by (simp add: algebra_simps)
  then show ?case by (simp add: nat_from_be_snoc Suc.IH unat_of_nat_u8)
qed

lemma from_to_be:
  assumes "LENGTH('a) \<le> 8 * n"
  shows "from_be (to_be n w) = (w :: 'a::len word)"
proof -
  have "(256 :: nat) ^ n = 2 ^ (8 * n)"
    by (simp add: power_mult)
  moreover have "(2 :: nat) ^ LENGTH('a) \<le> 2 ^ (8 * n)"
    using assms by (intro power_increasing) simp_all
  moreover have "unat w < 2 ^ LENGTH('a)"
    by (rule unsigned_less)
  ultimately have "unat w < 256 ^ n" by linarith
  then have "unat w mod 256 ^ n = unat w" by simp
  then show ?thesis
    by (simp add: from_be_def to_be_def nat_from_to_be)
qed

lemma nat_to_from_be: "length bs = n \<Longrightarrow> nat_to_be n (nat_from_be bs) = bs"
proof (induction bs arbitrary: n rule: rev_induct)
  case Nil
  then show ?case by simp
next
  case (snoc b bs)
  have "unat b < 256" using unsigned_less [of b] by simp
  then have "(nat_from_be bs * 256 + unat b) div 256 = nat_from_be bs" by simp
  moreover have "unat (of_nat (nat_from_be bs * 256 + unat b) :: u8) = unat b"
    using \<open>unat b < 256\<close> by (simp only: unat_of_nat_u8) simp
  then have "(of_nat (nat_from_be bs * 256 + unat b) :: u8) = b"
    by (rule unsigned_word_eqI)
  ultimately show ?case
    using snoc by (auto simp: nat_from_be_snoc simp del: of_nat_add of_nat_mult)
qed

lemma nat_from_be_less: "nat_from_be bs < 256 ^ length bs"
proof (induction bs rule: rev_induct)
  case Nil
  then show ?case by (simp add: nat_from_be_def)
next
  case (snoc b bs)
  have "unat b < 256" using unsigned_less [of b] by simp
  with snoc show ?case by (simp add: nat_from_be_snoc)
qed

lemma unat_from_be: "256 ^ length bs \<le> (2 :: nat) ^ LENGTH('a) \<Longrightarrow> unat (from_be bs :: 'a::len word) = nat_from_be bs"
  using nat_from_be_less [of bs] by (simp add: from_be_def unsigned_of_nat take_bit_nat_eq_self)

text \<open>Little-endian order.\<close>

definition to_le :: "nat \<Rightarrow> 'a::len word \<Rightarrow> bytes" where
  "to_le n w = rev (to_be n w)"

definition from_le :: "bytes \<Rightarrow> 'a::len word" where
  "from_le bs = from_be (rev bs)"

lemma length_to_le [simp]: "length (to_le n w) = n"
  by (simp add: to_le_def)

lemma from_to_le: "LENGTH('a) \<le> 8 * n \<Longrightarrow> from_le (to_le n w) = (w :: 'a::len word)"
  by (simp add: from_le_def to_le_def from_to_be)

section \<open>Codes\<close>

text \<open>
  The contract of the many pairs of a total function to a code (a database integer, a string, a
  protocol number) and a partial function back: what was encoded is decoded, and where a value has
  only one code (\<open>codec\<close>) nothing but that code decodes to it.
\<close>

locale code_left =
  fixes enc :: "'a \<Rightarrow> 'b"
    and dec :: "'b \<Rightarrow> ('e, 'a) result"
  assumes dec_enc: "dec (enc x) = Inr x"
begin

lemma enc_inj: "enc x = enc x' \<longleftrightarrow> x = x'"
  by (metis dec_enc sum.inject(2))

end

locale codec = code_left +
  assumes enc_dec: "dec y = Inr x \<Longrightarrow> enc x = y"
begin

lemma dec_iff: "dec y = Inr x \<longleftrightarrow> y = enc x"
  using dec_enc enc_dec by blast

lemma dec_rejects: "(\<exists>e. dec y = Inl e) \<longleftrightarrow> (\<forall>x. y \<noteq> enc x)"
proof (cases "dec y")
  case (Inl e)
  then show ?thesis by (metis dec_enc sum.distinct(1))
next
  case (Inr x)
  then show ?thesis using enc_dec [OF Inr] by auto
qed

end

end
