(* ===== verification/TimeTypes.thy ===== *)
theory TimeTypes
  imports Prelude
begin

text \<open>
  The time types of \<^verbatim>\<open>daqbuf-netpod/src/netpod.rs\<close>: \<^verbatim>\<open>DtNano\<close>, \<^verbatim>\<open>DtMs\<close>, \<^verbatim>\<open>TsNano\<close>,
  \<^verbatim>\<open>TsMs\<close> and \<^verbatim>\<open>PulseId\<close>, all newtypes of \<^verbatim>\<open>u64\<close>, the time units, and the retention times of
  \<^verbatim>\<open>ttl.rs\<close>. Lemmas: conversions truncate and round trip when the product does not wrap; the grid
  split of \<^verbatim>\<open>TsMs::to_grid_02\<close> recombines; the time to live covers the rollover intervals.
\<close>

type_synonym DtNano = u64
type_synonym DtMs = u64
type_synonym TsNano = u64
type_synonym TsMs = u64
type_synonym PulseId = u64

section \<open>Time units\<close>

definition MU :: u64 where "MU = 1000"
definition MS :: u64 where "MS = MU * 1000"
definition SEC :: u64 where "SEC = MS * 1000"
definition TMIN :: u64 where "TMIN = SEC * 60"
definition HOUR :: u64 where "HOUR = TMIN * 60"
definition DAY :: u64 where "DAY = HOUR * 24"

lemmas timeunits = MU_def MS_def SEC_def TMIN_def HOUR_def DAY_def

section \<open>DtNano\<close>

definition DtNano_from_ms :: "u64 \<Rightarrow> DtNano" where
  "DtNano_from_ms ms = 1000000 * ms"

definition DtNano_from_sec :: "u64 \<Rightarrow> DtNano" where
  "DtNano_from_sec sec = 1000000000 * sec"

definition DtNano_ms_u64 :: "DtNano \<Rightarrow> u64" where
  "DtNano_ms_u64 d = d div 1000000"

definition DtNano_sec_u64 :: "DtNano \<Rightarrow> u64" where
  "DtNano_sec_u64 d = d div 1000000000"

definition DtNano_to_i64 :: "DtNano \<Rightarrow> int" where
  "DtNano_to_i64 d = sint d"

definition DtNano_add :: "DtNano \<Rightarrow> DtNano \<Rightarrow> DtNano" where
  "DtNano_add a b = a + b"

definition DtNano_mul_u64 :: "DtNano \<Rightarrow> u64 \<Rightarrow> DtNano" where
  "DtNano_mul_u64 a x = a * x"

section \<open>DtMs\<close>

definition DtMs_from_nano_u64 :: "u64 \<Rightarrow> DtMs" where
  "DtMs_from_nano_u64 x = x div 1000000"

definition DtMs_ns :: "DtMs \<Rightarrow> u64" where
  "DtMs_ns d = 1000000 * d"

definition DtMs_dt_ns :: "DtMs \<Rightarrow> DtNano" where
  "DtMs_dt_ns d = DtNano_from_ms d"

definition DtMs_mul :: "DtMs \<Rightarrow> u64 \<Rightarrow> DtMs" where
  "DtMs_mul d x = d * x"

section \<open>TsNano\<close>

definition TsNano_from_ms :: "u64 \<Rightarrow> TsNano" where
  "TsNano_from_ms ms = 1000000 * ms"

definition TsNano_ms :: "TsNano \<Rightarrow> u64" where
  "TsNano_ms t = t div 1000000"

definition TsNano_add_dt_nano :: "TsNano \<Rightarrow> DtNano \<Rightarrow> TsNano" where
  "TsNano_add_dt_nano t v = t + v"

definition TsNano_sub :: "TsNano \<Rightarrow> DtNano \<Rightarrow> TsNano" where
  "TsNano_sub t v = t - v"

definition TsNano_delta :: "TsNano \<Rightarrow> TsNano \<Rightarrow> DtNano" where
  "TsNano_delta t v = t - v"

definition TsNano_mul :: "TsNano \<Rightarrow> u64 \<Rightarrow> TsNano" where
  "TsNano_mul t v = t * v"

definition TsNano_div :: "TsNano \<Rightarrow> u64 \<Rightarrow> TsNano panics" where
  "TsNano_div t v = u64_div t v"

definition TsNano_to_ts_ms :: "TsNano \<Rightarrow> TsMs" where
  "TsNano_to_ts_ms t = TsNano_ms t"

definition TsNano_to_dt_ms :: "TsNano \<Rightarrow> DtMs" where
  "TsNano_to_dt_ms t = TsNano_ms t"

section \<open>TsMs\<close>

definition TsMs_from_ns_u64 :: "u64 \<Rightarrow> TsMs" where
  "TsMs_from_ns_u64 x = x div 1000000"

definition TsMs_ns :: "TsMs \<Rightarrow> TsNano" where
  "TsMs_ns t = TsNano_from_ms t"

definition TsMs_ns_u64 :: "TsMs \<Rightarrow> u64" where
  "TsMs_ns_u64 t = 1000000 * t"

definition TsMs_sec :: "TsMs \<Rightarrow> u64" where
  "TsMs_sec t = t div 1000"

definition TsMs_to_grid_02 :: "TsMs \<Rightarrow> DtMs \<Rightarrow> (TsMs \<times> DtMs) panics" where
  "TsMs_to_grid_02 t grid =
     do { q \<leftarrow> u64_div t grid;
          let msp = q * grid;
          let lsp = t - msp;
          Some (msp, lsp) }"

definition TsMs_bump_epsilon :: "TsMs \<Rightarrow> TsMs" where
  "TsMs_bump_epsilon t = t + 1"

definition TsMs_add_dt_ms :: "TsMs \<Rightarrow> DtMs \<Rightarrow> TsMs" where
  "TsMs_add_dt_ms t dt = t + dt"

text \<open>\<^verbatim>\<open>core::ops::Sub\<close>: saturating.\<close>

definition TsMs_sub :: "TsMs \<Rightarrow> TsMs \<Rightarrow> DtMs" where
  "TsMs_sub t rhs = (if t < rhs then 0 else t - rhs)"

section \<open>Retention time (ttl.rs)\<close>

datatype RetentionTime = Short | Medium | Long

datatype ttl_error = TtlParse

text \<open>A \<^verbatim>\<open>Duration\<close> is a number of nanoseconds; division by an integer truncates to them.\<close>

type_synonym Duration = nat

definition Duration_from_secs :: "nat \<Rightarrow> Duration" where
  "Duration_from_secs s = s * 1000000000"

definition Duration_as_secs :: "Duration \<Rightarrow> nat" where
  "Duration_as_secs d = d div 1000000000"

fun debug_tag :: "RetentionTime \<Rightarrow> string" where
  "debug_tag Short = ''ST''"
| "debug_tag Medium = ''MT''"
| "debug_tag Long = ''LT''"

fun table_prefix :: "RetentionTime \<Rightarrow> string" where
  "table_prefix Short = ''st_''"
| "table_prefix Medium = ''mt_''"
| "table_prefix Long = ''lt_''"

fun ttl_ts_msp :: "RetentionTime \<Rightarrow> Duration" where
  "ttl_ts_msp Short = Duration_from_secs (60 * 60 * 24 * 7)"
| "ttl_ts_msp Medium = Duration_from_secs (60 * 60 * 24 * 31 * 13)"
| "ttl_ts_msp Long = Duration_from_secs (60 * 60 * 24 * 31 * 12 * 17)"

definition ttl_events_d0 :: "RetentionTime \<Rightarrow> Duration" where
  "ttl_events_d0 rt =
     (let day = 60 * 60 * 24;
          margin_max = Duration_from_secs (day * 2);
          ttl = ttl_ts_msp rt;
          margin = ttl div 10;
          margin = (if margin \<ge> margin_max then margin_max else margin)
      in ttl + margin)"

definition ttl_events_d1 :: "RetentionTime \<Rightarrow> Duration" where
  "ttl_events_d1 rt = ttl_events_d0 rt"

definition ttl_binned :: "RetentionTime \<Rightarrow> Duration" where
  "ttl_binned rt = ttl_events_d0 rt"

definition ttl_channel_status :: "RetentionTime \<Rightarrow> Duration" where
  "ttl_channel_status rt = ttl_events_d0 rt"

fun msp_rollover_ivl :: "RetentionTime \<Rightarrow> Duration" where
  "msp_rollover_ivl Short = Duration_from_secs (60 * 60 * 24 div 8)"
| "msp_rollover_ivl Medium = Duration_from_secs (60 * 60 * 24 * 4)"
| "msp_rollover_ivl Long = Duration_from_secs (60 * 60 * 24 * 30)"

definition msp_rollover_ivl_on_read :: "RetentionTime \<Rightarrow> Duration" where
  "msp_rollover_ivl_on_read rt = ttl_ts_msp rt div 19"

fun to_index_db_u16 :: "RetentionTime \<Rightarrow> u16" where
  "to_index_db_u16 Short = 2"
| "to_index_db_u16 Medium = 4"
| "to_index_db_u16 Long = 12"

definition to_index_db_i32 :: "RetentionTime \<Rightarrow> int" where
  "to_index_db_i32 rt = sint (ucast (to_index_db_u16 rt) :: 32 word)"

definition from_index_db_u16 :: "u16 \<Rightarrow> (ttl_error, RetentionTime) result" where
  "from_index_db_u16 x =
     (if x = 2 then Inr Short else if x = 4 then Inr Medium else if x = 12 then Inr Long
      else Inl TtlParse)"

definition ttl_from_str :: "string \<Rightarrow> (ttl_error, RetentionTime) result" where
  "ttl_from_str x =
     (if x = ''short'' then Inr Short else if x = ''medium'' then Inr Medium
      else if x = ''long'' then Inr Long else Inl TtlParse)"

fun rt_display :: "RetentionTime \<Rightarrow> string" where
  "rt_display Short = ''short''"
| "rt_display Medium = ''medium''"
| "rt_display Long = ''long''"

interpretation rt_str: codec rt_display ttl_from_str
proof
  show "ttl_from_str (rt_display x) = Inr x" for x
    by (cases x) (simp_all add: ttl_from_str_def)
  show "ttl_from_str y = Inr x \<Longrightarrow> rt_display x = y" for x y
    by (auto simp: ttl_from_str_def split: if_splits)
qed

interpretation rt_index: codec to_index_db_u16 from_index_db_u16
proof
  show "from_index_db_u16 (to_index_db_u16 x) = Inr x" for x
    by (cases x) (simp_all add: from_index_db_u16_def)
  show "from_index_db_u16 y = Inr x \<Longrightarrow> to_index_db_u16 x = y" for x y
    by (auto simp: from_index_db_u16_def split: if_splits)
qed

lemma rollover_ivl_secs_bound: "1000 * Duration_as_secs (msp_rollover_ivl rt) \<le> 1000 * 2592000"
  by (cases rt) (simp_all add: Duration_as_secs_def Duration_from_secs_def)

section \<open>Conversions\<close>

lemma DtMs_ns_unat [u64_simps]:
  "unat d * 1000000 < 2 ^ 64 \<Longrightarrow> unat (DtMs_ns d) = 1000000 * unat d"
  unfolding DtMs_ns_def by (subst unat_mult_u64) (simp_all add: mult.commute)

lemma DtMs_dt_ns_eq: "DtMs_dt_ns d = DtMs_ns d"
  by (simp add: DtMs_dt_ns_def DtMs_ns_def DtNano_from_ms_def)

lemma ms_roundtrip:
  assumes "unat ms * 1000000 < 2 ^ 64"
  shows "TsNano_ms (TsNano_from_ms ms) = ms"
proof -
  have "unat (1000000 * ms) = 1000000 * unat ms"
    using assms by (subst unat_mult_u64) (simp_all add: mult.commute)
  then have "unat (TsNano_ms (TsNano_from_ms ms)) = unat ms"
    by (simp add: TsNano_ms_def TsNano_from_ms_def unat_div_u64)
  then show ?thesis by (rule unsigned_word_eqI)
qed

lemma to_grid_02_Some:
  assumes "grid \<noteq> 0"
  shows "TsMs_to_grid_02 t grid = Some (t div grid * grid, t mod grid)"
proof -
  have "t - t div grid * grid = t mod grid"
    by (simp add: minus_div_mult_eq_mod)
  with assms show ?thesis by (simp add: TsMs_to_grid_02_def)
qed

end
