(* ===== verification/BinRange.thy ===== *)
theory BinRange
  imports TimeTypes
begin

text \<open>
  Ranges and binning grids: \<^verbatim>\<open>NanoRange\<close>, \<^verbatim>\<open>PulseRange\<close> and \<^verbatim>\<open>SeriesRange\<close> of
  \<^verbatim>\<open>daqbuf-netpod/src/range/evrange.rs\<close>; \<^verbatim>\<open>PreBinnedPatchCoord\<close>, \<^verbatim>\<open>BinnedRange\<close> and
  \<^verbatim>\<open>BinnedRangeEnum\<close> of \<^verbatim>\<open>daqbuf-netpod/src/netpod.rs\<close>. The trait \<^verbatim>\<open>Dim0Index\<close> has the two
  implementations \<^verbatim>\<open>TsNano\<close> and \<^verbatim>\<open>PulseId\<close>, both newtypes of \<^verbatim>\<open>u64\<close> with the same
  arithmetic; a generic function over it takes the \<open>Dim0Kind\<close> that selects the implementation.

  Lemmas: the grid chosen for a requested bin count covers the requested range, is aligned, and
  has at least the requested number of bins; the list of edges has one entry more than there are
  bins and its loop ends; the bins at successive indices tile the range.
\<close>

section \<open>Event ranges (evrange.rs)\<close>

record NanoRange =
  nr_beg :: u64
  nr_end :: u64

record PulseRange =
  pr_beg :: u64
  pr_end :: u64

datatype SeriesRange = TimeRange NanoRange | PulseRangeV PulseRange

datatype Dim0Kind = Time | Pulse

datatype netpod_error =
    BinCountTooSmall
  | BinCountTooLarge
  | BinnedNoGridMatch
  | TimelikeBinWidthImpossibleForPulseRange
  | NotTimerange

definition NanoRange_from_ms_u64 :: "u64 \<Rightarrow> u64 \<Rightarrow> NanoRange" where
  "NanoRange_from_ms_u64 b e = \<lparr>nr_beg = MS * b, nr_end = MS * e\<rparr>"

definition NanoRange_from_ns_u64 :: "u64 \<Rightarrow> u64 \<Rightarrow> NanoRange" where
  "NanoRange_from_ns_u64 b e = \<lparr>nr_beg = b, nr_end = e\<rparr>"

definition NanoRange_delta :: "NanoRange \<Rightarrow> u64" where
  "NanoRange_delta r = nr_end r - nr_beg r"

fun NanoRange_try_from :: "SeriesRange \<Rightarrow> (netpod_error, NanoRange) result" where
  "NanoRange_try_from (TimeRange x) = Inr x"
| "NanoRange_try_from (PulseRangeV _) = Inl NotTimerange"

fun SeriesRange_dim0kind :: "SeriesRange \<Rightarrow> Dim0Kind" where
  "SeriesRange_dim0kind (TimeRange _) = Time"
| "SeriesRange_dim0kind (PulseRangeV _) = Pulse"

fun SeriesRange_is_time :: "SeriesRange \<Rightarrow> bool" where
  "SeriesRange_is_time (TimeRange _) = True"
| "SeriesRange_is_time (PulseRangeV _) = False"

fun SeriesRange_is_pulse :: "SeriesRange \<Rightarrow> bool" where
  "SeriesRange_is_pulse (TimeRange _) = False"
| "SeriesRange_is_pulse (PulseRangeV _) = True"

fun SeriesRange_beg_u64 :: "SeriesRange \<Rightarrow> u64" where
  "SeriesRange_beg_u64 (TimeRange x) = nr_beg x"
| "SeriesRange_beg_u64 (PulseRangeV x) = pr_beg x"

fun SeriesRange_end_u64 :: "SeriesRange \<Rightarrow> u64" where
  "SeriesRange_end_u64 (TimeRange x) = nr_end x"
| "SeriesRange_end_u64 (PulseRangeV x) = pr_end x"

fun SeriesRange_delta_u64 :: "SeriesRange \<Rightarrow> u64" where
  "SeriesRange_delta_u64 (TimeRange x) = nr_end x - nr_beg x"
| "SeriesRange_delta_u64 (PulseRangeV x) = pr_end x - pr_beg x"

fun SeriesRange_to_time :: "SeriesRange \<Rightarrow> NanoRange option" where
  "SeriesRange_to_time (TimeRange x) = Some x"
| "SeriesRange_to_time (PulseRangeV _) = None"

section \<open>Bin lengths (Dim0Index)\<close>

definition TIME_BIN_THRESHOLDS :: "u64 list" where
  "TIME_BIN_THRESHOLDS =
    [MS * 20, MS * 50, MS * 100, MS * 200, MS * 500,
     SEC, SEC * 2, SEC * 5, SEC * 10, SEC * 20,
     TMIN, TMIN * 2, TMIN * 5, TMIN * 10, TMIN * 20,
     HOUR, HOUR * 2, HOUR * 4, HOUR * 12,
     DAY, DAY * 2, DAY * 4, DAY * 8, DAY * 16, DAY * 32, DAY * 64]"

definition PULSE_BIN_THRESHOLDS :: "u64 list" where
  "PULSE_BIN_THRESHOLDS =
    [10, 20, 40, 80, 100, 200, 400, 800, 1000, 2000, 4000, 8000, 10000, 20000, 40000, 80000,
     100000, 200000, 400000, 800000, 1000000, 2000000, 4000000, 8000000, 10000000]"

definition PREBIN_TIME_BIN_LEN_VAR0 :: "u64 list" where
  "PREBIN_TIME_BIN_LEN_VAR0 = [TMIN * 1, HOUR * 1, DAY]"

definition PREBIN_PULSE_BIN_LEN_VAR0 :: "u64 list" where
  "PREBIN_PULSE_BIN_LEN_VAR0 = [100, 10000, 1000000, 100000000]"

fun binned_bin_len_opts :: "Dim0Kind \<Rightarrow> u64 list" where
  "binned_bin_len_opts Time = TIME_BIN_THRESHOLDS"
| "binned_bin_len_opts Pulse = PULSE_BIN_THRESHOLDS"

fun prebin_bin_len_opts :: "Dim0Kind \<Rightarrow> u64 list" where
  "prebin_bin_len_opts Time = PREBIN_TIME_BIN_LEN_VAR0"
| "prebin_bin_len_opts Pulse = PREBIN_PULSE_BIN_LEN_VAR0"

fun Dim0_series_range :: "Dim0Kind \<Rightarrow> u64 \<Rightarrow> u64 \<Rightarrow> SeriesRange" where
  "Dim0_series_range Time a b = TimeRange \<lparr>nr_beg = a, nr_end = b\<rparr>"
| "Dim0_series_range Pulse a b = PulseRangeV \<lparr>pr_beg = a, pr_end = b\<rparr>"

section \<open>Patches\<close>

record PreBinnedPatchCoord =
  pc_bin_len :: u64
  pc_bin_count :: u64
  pc_patch_offset :: u64

definition PatchCoord_patch_len :: "PreBinnedPatchCoord \<Rightarrow> u64" where
  "PatchCoord_patch_len c = pc_bin_len c * pc_bin_count c"

definition PatchCoord_patch_beg :: "PreBinnedPatchCoord \<Rightarrow> u64" where
  "PatchCoord_patch_beg c = pc_bin_len c * pc_bin_count c * pc_patch_offset c"

definition PatchCoord_patch_end :: "PreBinnedPatchCoord \<Rightarrow> u64" where
  "PatchCoord_patch_end c = pc_bin_len c * pc_bin_count c * (1 + pc_patch_offset c)"

definition PatchCoord_series_range :: "Dim0Kind \<Rightarrow> PreBinnedPatchCoord \<Rightarrow> SeriesRange" where
  "PatchCoord_series_range k c =
     Dim0_series_range k (PatchCoord_patch_beg c) (PatchCoord_patch_end c)"

text \<open>The loop of \<^verbatim>\<open>edges\<close>: \<open>n\<close> more edges after the one at \<open>t\<close>.\<close>

fun patch_edges_loop :: "u64 \<Rightarrow> nat \<Rightarrow> u64 \<Rightarrow> u64 list" where
  "patch_edges_loop bl 0 t = []"
| "patch_edges_loop bl (Suc n) t = (t + bl) # patch_edges_loop bl n (t + bl)"

definition PatchCoord_edges :: "PreBinnedPatchCoord \<Rightarrow> u64 list" where
  "PatchCoord_edges c =
     (let t = PatchCoord_patch_beg c
      in t # patch_edges_loop (pc_bin_len c) (unat (pc_bin_count c)) t)"

definition PatchCoord_next :: "PreBinnedPatchCoord \<Rightarrow> PreBinnedPatchCoord" where
  "PatchCoord_next c =
     \<lparr>pc_bin_len = pc_bin_len c, pc_bin_count = pc_bin_count c,
      pc_patch_offset = 1 + pc_patch_offset c\<rparr>"

section \<open>BinnedRange\<close>

record BinnedRange =
  bin_len :: u64
  bin_off :: u64
  bin_cnt :: u64

definition nano_beg :: "BinnedRange \<Rightarrow> TsNano" where
  "nano_beg r = bin_len r * bin_off r"

definition nano_end :: "BinnedRange \<Rightarrow> TsNano" where
  "nano_end r = bin_len r * (bin_off r + bin_cnt r)"

definition full_range :: "BinnedRange \<Rightarrow> NanoRange" where
  "full_range r =
     \<lparr>nr_beg = bin_len r * bin_off r, nr_end = bin_len r * (bin_off r + bin_cnt r)\<rparr>"

definition to_nano_range :: "BinnedRange \<Rightarrow> NanoRange" where
  "to_nano_range r =
     \<lparr>nr_beg = bin_len r * bin_off r, nr_end = bin_len r * (bin_off r + bin_cnt r)\<rparr>"

definition from_nano_range :: "NanoRange \<Rightarrow> DtMs \<Rightarrow> BinnedRange panics" where
  "from_nano_range rng bl =
     do { off1 \<leftarrow> u64_div (nr_beg rng) (DtMs_ns bl);
          off2 \<leftarrow> u64_div (DtMs_ns bl - 1 + nr_end rng) (DtMs_ns bl);
          Some \<lparr>bin_len = DtMs_ns bl, bin_off = off1, bin_cnt = off2 - off1\<rparr> }"

definition from_beg_to_inf :: "TsNano \<Rightarrow> DtMs \<Rightarrow> BinnedRange panics" where
  "from_beg_to_inf beg bl =
     do { let margin = 1000 * 1000 * 1000 * 60 * 60 * 24 * 40;
          q \<leftarrow> u64_div (- 1 - margin) (DtMs_ns bl);
          let e = q * DtMs_ns bl;
          from_nano_range (NanoRange_from_ns_u64 beg e) bl }"

definition one_before_bin :: "BinnedRange \<Rightarrow> BinnedRange" where
  "one_before_bin r =
     \<lparr>bin_len = bin_len r, bin_off = bin_off r - 1, bin_cnt = bin_cnt r + 1\<rparr>"

definition bin_len_dt_ms :: "BinnedRange \<Rightarrow> DtMs" where
  "bin_len_dt_ms r = TsNano_to_dt_ms (bin_len r)"

text \<open>
  The loop \<^verbatim>\<open>while t <= end { ret.push(t); t = t.add(bin_len) }\<close>. It does not end when the bin
  length is zero or when \<open>t\<close> wraps around past \<open>end\<close>: \<open>None\<close> is not returning.
\<close>

partial_function (option) edges_loop :: "u64 \<Rightarrow> u64 \<Rightarrow> u64 \<Rightarrow> u64 list option" where
  "edges_loop bl e t =
     (if t \<le> e then do { r \<leftarrow> edges_loop bl e (t + bl); Some (t # r) } else Some [])"

definition edges :: "BinnedRange \<Rightarrow> u64 list option" where
  "edges r =
     (let t = bin_len r * bin_off r;
          e = bin_len r * (bin_off r + bin_cnt r)
      in edges_loop (bin_len r) e t)"

text \<open>
  \<^verbatim>\<open>BinnedRange::covering_range_time\<close>. The panic "logic covering_range_time" and the divisions are
  branches; \<^verbatim>\<open>opts\<close> is not empty. The fractions \<open>f1\<close> and \<open>f2\<close> are integer divisions, as
  in the code.
\<close>

definition covering_bin_len_req :: "DtMs \<Rightarrow> DtMs" where
  "covering_bin_len_req req =
     (let opts = TIME_BIN_THRESHOLDS;
          r1 = (if req < TsNano_ms (hd opts) then TsNano_ms (hd opts) else req)
      in if r1 > TsNano_ms (last opts) then TsNano_ms (last opts) else r1)"

definition covering_bin_len :: "DtMs \<Rightarrow> DtMs panics" where
  "covering_bin_len req =
     (let opts = TIME_BIN_THRESHOLDS;
          pv = DtMs_ns req;
          pi = partition_point (\<lambda>x. x < pv) opts
      in if pi = 0 then Some (TsNano_ms (hd opts))
         else let v1 = TsNano_ms (opts ! (pi - 1))
              in if pi < length opts then
                   (let v2 = TsNano_ms (opts ! pi)
                    in if v1 \<ge> req \<or> v2 < req then None
                       else do { f1 \<leftarrow> u64_div (req - v1) req;
                                 f2 \<leftarrow> u64_div (v2 - req) req;
                                 Some (if f1 < f2 then v1 else v2) })
                 else Some v1)"

definition BinnedRange_covering_range_time ::
  "NanoRange \<Rightarrow> DtMs \<Rightarrow> (netpod_error, BinnedRange) result panics" where
  "BinnedRange_covering_range_time rng req0 =
     do { bl \<leftarrow> covering_bin_len (covering_bin_len_req req0);
          off1 \<leftarrow> u64_div (nr_beg rng) (DtMs_ns bl);
          off2 \<leftarrow> u64_div (nr_end rng + DtMs_ns bl - 1) (DtMs_ns bl);
          Some (Inr \<lparr>bin_len = DtMs_ns bl, bin_off = off1, bin_cnt = off2 - off1\<rparr>) }"

section \<open>BinnedRangeEnum\<close>

datatype BinnedRangeEnum = BRTime BinnedRange | BRPulse BinnedRange

fun to_binned_range_enum :: "Dim0Kind \<Rightarrow> u64 \<Rightarrow> u64 \<Rightarrow> u64 \<Rightarrow> BinnedRangeEnum" where
  "to_binned_range_enum Time bl off cnt = BRTime \<lparr>bin_len = bl, bin_off = off, bin_cnt = cnt\<rparr>"
| "to_binned_range_enum Pulse bl off cnt = BRPulse \<lparr>bin_len = bl, bin_off = off, bin_cnt = cnt\<rparr>"

definition found_bin_len :: "u64 list \<Rightarrow> u64 \<Rightarrow> u64 option" where
  "found_bin_len opts max_bin_len = List.find (\<lambda>bl. bl \<le> max_bin_len) (rev opts)"

definition covering_range_ty ::
  "Dim0Kind \<Rightarrow> u64 \<Rightarrow> u64 \<Rightarrow> u32 \<Rightarrow> (netpod_error, BinnedRangeEnum) result panics" where
  "covering_range_ty k a b min_bin_count =
     (let opts = binned_bin_len_opts k in
      if min_bin_count < 1 then Some (Inl BinCountTooSmall)
      else if min_bin_count > 2147483647 then Some (Inl BinCountTooLarge)
      else do {
        let du = b - a;
        max_bin_len \<leftarrow> u64_div du (ucast min_bin_count);
        let bl = (case found_bin_len opts max_bin_len of Some x \<Rightarrow> x | None \<Rightarrow> max_bin_len);
        off_1 \<leftarrow> u64_div a bl;
        off_2 \<leftarrow> u64_div (b + bl - 1) bl;
        let cnt = off_2 - off_1;
        Some (Inr (to_binned_range_enum k bl off_1 cnt)) })"

fun BinnedRangeEnum_covering_range_time ::
  "SeriesRange \<Rightarrow> DtMs \<Rightarrow> (netpod_error, BinnedRangeEnum) result panics" where
  "BinnedRangeEnum_covering_range_time (TimeRange k) req =
     map_option (map_sum id BRTime) (BinnedRange_covering_range_time k req)"
| "BinnedRangeEnum_covering_range_time (PulseRangeV _) req =
     Some (Inl TimelikeBinWidthImpossibleForPulseRange)"

fun covering_range :: "SeriesRange \<Rightarrow> u32 \<Rightarrow> (netpod_error, BinnedRangeEnum) result panics" where
  "covering_range (TimeRange k) n = covering_range_ty Time (nr_beg k) (nr_end k) n"
| "covering_range (PulseRangeV k) n = covering_range_ty Pulse (pr_beg k) (pr_end k) n"

fun BinnedRangeEnum_bin_count :: "BinnedRangeEnum \<Rightarrow> u64" where
  "BinnedRangeEnum_bin_count (BRTime k) = bin_cnt k"
| "BinnedRangeEnum_bin_count (BRPulse k) = bin_cnt k"

fun range_at :: "BinnedRangeEnum \<Rightarrow> u64 \<Rightarrow> SeriesRange option" where
  "range_at (BRTime k) i =
     (if i < bin_cnt k then
        (let b = bin_len k * (bin_off k + i)
         in Some (TimeRange \<lparr>nr_beg = b, nr_end = b + bin_len k\<rparr>))
      else None)"
| "range_at (BRPulse k) i =
     (if i < bin_cnt k then
        (let b = bin_len k * (bin_off k + i)
         in Some (PulseRangeV \<lparr>pr_beg = b, pr_end = b + bin_len k\<rparr>))
      else None)"

fun BinnedRangeEnum_dim0kind :: "BinnedRangeEnum \<Rightarrow> Dim0Kind" where
  "BinnedRangeEnum_dim0kind (BRTime _) = Time"
| "BinnedRangeEnum_dim0kind (BRPulse _) = Pulse"

fun binned_range_time :: "BinnedRangeEnum \<Rightarrow> BinnedRange option" where
  "binned_range_time (BRTime x) = Some x"
| "binned_range_time (BRPulse _) = None"

section \<open>Grid arithmetic\<close>

lemma grid_cover:
  fixes a b l n :: nat
  assumes "0 < l" "a \<le> b"
  shows "l * (a div l) \<le> a" "a < l * (a div l) + l"
    "b \<le> l * ((b + l - 1) div l)" "l * ((b + l - 1) div l) < b + l"
    "a div l \<le> (b + l - 1) div l"
    "n * l \<le> b - a \<Longrightarrow> n \<le> (b + l - 1) div l - a div l"
proof -
  let ?q = "(b + l - 1) div l"
  show 1: "l * (a div l) \<le> a" and "a < l * (a div l) + l"
    using floor_to_grid [OF assms(1), of a] by (simp_all add: mult.commute)
  have "?q * l \<le> b + l - 1" and "b + l - 1 < ?q * l + l"
    using floor_to_grid(1,2) [OF assms(1)] .
  then have "b \<le> ?q * l" and "?q * l < b + l"
    using assms(1) by linarith+
  then show 3: "b \<le> l * ?q" and "l * ?q < b + l"
    by (simp_all only: mult.commute)
  show 5: "a div l \<le> ?q"
    using assms by (intro div_le_mono) simp
  assume "n * l \<le> b - a"
  also have "\<dots> \<le> l * ?q - l * (a div l)"
    using 1 3 by linarith
  also have "\<dots> = (?q - a div l) * l"
    by (simp add: diff_mult_distrib2 mult.commute)
  finally show "n \<le> ?q - a div l"
    using assms(1) by simp
qed

definition br_of :: "BinnedRangeEnum \<Rightarrow> BinnedRange" where
  "br_of r = (case r of BRTime k \<Rightarrow> k | BRPulse k \<Rightarrow> k)"

text \<open>The grid does not reach the end of the 64 bit line.\<close>

definition br_fits :: "BinnedRange \<Rightarrow> bool" where
  "br_fits r \<longleftrightarrow> bin_len r \<noteq> 0 \<and>
     unat (bin_len r) * (unat (bin_off r) + unat (bin_cnt r) + 1) < 2 ^ 64"

lemma br_fits_off:
  assumes "br_fits r" "i \<le> unat (bin_cnt r)"
  shows "unat (bin_len r) * (unat (bin_off r) + i) < 2 ^ 64" "unat (bin_off r) + i < 2 ^ 64"
proof -
  have pos: "0 < unat (bin_len r)"
    using assms(1) by (simp add: br_fits_def unat_gt_0)
  have "unat (bin_len r) * (unat (bin_off r) + i)
      \<le> unat (bin_len r) * (unat (bin_off r) + unat (bin_cnt r) + 1)"
    using assms(2) by (intro mult_le_mono2) simp
  with assms(1) show 1: "unat (bin_len r) * (unat (bin_off r) + i) < 2 ^ 64"
    unfolding br_fits_def by linarith
  have "unat (bin_off r) + i \<le> unat (bin_len r) * (unat (bin_off r) + i)"
    using pos by (cases "unat (bin_len r)") simp_all
  from this 1 show "unat (bin_off r) + i < 2 ^ 64" by (rule le_less_trans)
qed

lemma unat_grid_point:
  assumes "br_fits r" "i \<le> bin_cnt r"
  shows "unat (bin_len r * (bin_off r + i)) = unat (bin_len r) * (unat (bin_off r) + unat i)"
proof -
  have i: "unat i \<le> unat (bin_cnt r)"
    using assms(2) by (simp add: word_le_nat_alt)
  have "unat (bin_off r + i) = unat (bin_off r) + unat i"
    by (rule unat_add_u64) (rule br_fits_off(2) [OF assms(1) i])
  then show ?thesis
    using br_fits_off(1) [OF assms(1) i] by (simp add: unat_mult_u64)
qed

lemma nano_beg_unat: "br_fits r \<Longrightarrow> unat (nano_beg r) = unat (bin_len r) * unat (bin_off r)"
  using unat_grid_point [of r 0] by (simp add: nano_beg_def)

lemma nano_end_unat:
  "br_fits r \<Longrightarrow> unat (nano_end r) = unat (bin_len r) * (unat (bin_off r) + unat (bin_cnt r))"
  using unat_grid_point [of r "bin_cnt r"] by (simp add: nano_end_def)

section \<open>Edges\<close>

lemma edges_loop_enough:
  assumes "0 < unat bl" "unat t + n * unat bl = unat e" "unat e + unat bl < 2 ^ 64"
  shows "edges_loop bl e t = Some (map (\<lambda>i. t + of_nat i * bl) [0..<Suc n])"
  using assms
proof (induction n arbitrary: t)
  case 0
  then have "t = e" by (simp add: unsigned_word_eqI)
  moreover have "\<not> e + bl \<le> e"
    using 0 by (simp add: word_le_nat_alt unat_add_u64)
  ultimately show ?case
    by (simp add: edges_loop.simps [of bl e e] edges_loop.simps [of bl e "e + bl"])
next
  case (Suc n)
  have le: "t \<le> e"
    using Suc.prems by (simp add: word_le_nat_alt)
  have "unat (t + bl) = unat t + unat bl"
    using Suc.prems by (intro unat_add_u64) simp
  then have "edges_loop bl e (t + bl) = Some (map (\<lambda>i. (t + bl) + of_nat i * bl) [0..<Suc n])"
    using Suc.prems by (intro Suc.IH) simp_all
  moreover have "map (\<lambda>i. t + of_nat i * bl) [0..<Suc (Suc n)]
      = t # map (\<lambda>i. (t + bl) + of_nat i * bl) [0..<Suc n]"
    by (simp add: upt_conv_Cons map_Suc_upt [symmetric] algebra_simps del: upt_Suc)
  ultimately show ?case
    using le by (simp add: edges_loop.simps [of bl e t])
qed

lemma edges_eq:
  assumes "br_fits r"
  shows "edges r = Some (map (\<lambda>i. bin_len r * (bin_off r + of_nat i)) [0..<Suc (unat (bin_cnt r))])"
proof -
  have "edges r = Some (map (\<lambda>i. nano_beg r + of_nat i * bin_len r) [0..<Suc (unat (bin_cnt r))])"
    unfolding edges_def Let_def nano_beg_def [symmetric] nano_end_def [symmetric]
  proof (rule edges_loop_enough)
    show "0 < unat (bin_len r)"
      using assms by (simp add: br_fits_def unat_gt_0)
    show "unat (nano_beg r) + unat (bin_cnt r) * unat (bin_len r) = unat (nano_end r)"
      using assms by (simp add: nano_beg_unat nano_end_unat algebra_simps)
    show "unat (nano_end r) + unat (bin_len r) < 2 ^ 64"
      using assms by (simp add: nano_end_unat br_fits_def algebra_simps)
  qed
  then show ?thesis
    by (simp add: nano_beg_def algebra_simps)
qed

section \<open>Covering a range with a requested number of bins\<close>

lemma found_bin_len_le: "found_bin_len opts m = Some bl \<Longrightarrow> bl \<le> m \<and> bl \<in> set opts"
  by (auto simp: found_bin_len_def find_Some_iff) (metis length_rev nth_mem set_rev)

lemma found_bin_len_zero: "0 \<notin> set opts \<Longrightarrow> found_bin_len opts 0 = None"
  by (auto simp: found_bin_len_def find_None_iff)

lemma opts_nonzero: "0 \<notin> set (binned_bin_len_opts k)"
  by (cases k) (simp_all add: TIME_BIN_THRESHOLDS_def PULSE_BIN_THRESHOLDS_def timeunits)

lemma br_of_to_enum:
  "br_of (to_binned_range_enum k bl off cnt) = \<lparr>bin_len = bl, bin_off = off, bin_cnt = cnt\<rparr>"
  "BinnedRangeEnum_dim0kind (to_binned_range_enum k bl off cnt) = k"
  by (cases k; simp add: br_of_def)+

text \<open>What a grid of bins of length \<open>bl\<close> from the bin of \<open>a\<close> to the bin of \<open>b\<close> covers.\<close>

lemma grid_covers:
  fixes a b bl :: u64
  assumes "bl \<noteq> 0" "a \<le> b" "unat b + 2 * unat bl < 2 ^ 64"
  defines "r \<equiv> \<lparr>bin_len = bl, bin_off = a div bl, bin_cnt = (b + bl - 1) div bl - a div bl\<rparr>"
  shows "br_fits r" "nano_beg r \<le> a" "b \<le> nano_end r"
    "unat a < unat (nano_beg r) + unat bl" "unat (nano_end r) < unat b + unat bl"
    "n * unat bl \<le> unat b - unat a \<Longrightarrow> n \<le> unat (bin_cnt r)"
proof -
  have pos: "0 < unat bl" using assms(1) by (simp add: unat_gt_0)
  have ab: "unat a \<le> unat b" using assms(2) by (simp add: word_le_nat_alt)
  have "unat (b + bl) = unat b + unat bl"
    using assms(3) by (intro unat_add_u64) simp
  moreover have "1 \<le> b + bl"
    using calculation pos by (simp add: word_le_nat_alt)
  ultimately have e: "unat (b + bl - 1) = unat b + unat bl - 1"
    by (simp add: unat_sub_u64)
  note g = grid_cover [OF pos ab]
  have off: "unat (bin_off r) = unat a div unat bl"
    by (simp add: r_def unat_div_u64)
  have "a div bl \<le> (b + bl - 1) div bl"
    using g(5) by (simp add: word_le_nat_alt unat_div_u64 e)
  then have cnt: "unat (bin_cnt r) = (unat b + unat bl - 1) div unat bl - unat a div unat bl"
    by (simp add: r_def unat_sub_u64 unat_div_u64 e)
  have sum: "unat (bin_off r) + unat (bin_cnt r) = (unat b + unat bl - 1) div unat bl"
    using g(5) off cnt by simp
  have "unat bl * (unat (bin_off r) + unat (bin_cnt r) + 1) < 2 ^ 64"
    unfolding sum using g(4) assms(3) by (simp only: distrib_left)
  with assms(1) show fits: "br_fits r" by (simp add: br_fits_def r_def)
  have bl: "bin_len r = bl" by (simp add: r_def)
  show "nano_beg r \<le> a" and "unat a < unat (nano_beg r) + unat bl"
    using g(1,2) by (simp_all add: word_le_nat_alt nano_beg_unat [OF fits] off bl)
  show "b \<le> nano_end r" and "unat (nano_end r) < unat b + unat bl"
    using g(3,4) by (simp_all add: word_le_nat_alt nano_end_unat [OF fits] sum bl)
  show "n * unat bl \<le> unat b - unat a \<Longrightarrow> n \<le> unat (bin_cnt r)"
    using g(6) cnt by simp
qed

definition chosen_bin_len :: "Dim0Kind \<Rightarrow> u64 \<Rightarrow> u64" where
  "chosen_bin_len k m =
     (case found_bin_len (binned_bin_len_opts k) m of Some x \<Rightarrow> x | None \<Rightarrow> m)"

lemma chosen_bin_len_le: "chosen_bin_len k m \<le> m"
  using found_bin_len_le by (auto simp: chosen_bin_len_def split: option.split)

lemma chosen_bin_len_nonzero: "m \<noteq> 0 \<Longrightarrow> chosen_bin_len k m \<noteq> 0"
  using found_bin_len_le [of "binned_bin_len_opts k" m] opts_nonzero [of k]
  by (auto simp: chosen_bin_len_def split: option.split)

lemma covering_range_ty_unfold:
  assumes "1 \<le> n" "n \<le> 2147483647"
  shows "covering_range_ty k a b n =
    (let bl = chosen_bin_len k ((b - a) div ucast n)
     in if bl = 0 then None
        else Some (Inr (to_binned_range_enum k bl (a div bl) ((b + bl - 1) div bl - a div bl))))"
proof -
  have "(ucast n :: u64) \<noteq> 0"
    using assms(1) unat_ucast_u32 [of n] by (auto simp: word_le_nat_alt)
  moreover have "\<not> n < 1" "\<not> 2147483647 < n"
    using assms by auto
  ultimately show ?thesis
    by (simp add: covering_range_ty_def chosen_bin_len_def Let_def)
qed

lemma max_bin_len_unat:
  "a \<le> b \<Longrightarrow> unat ((b - a) div (ucast (n :: u32) :: u64)) = (unat b - unat a) div unat n"
  by (simp add: unat_div_u64 unat_sub_u64 unat_ucast_u32)

text \<open>All a client of \<^verbatim>\<open>covering_range_ty\<close> relies on.\<close>

definition covers_with :: "u64 \<Rightarrow> u64 \<Rightarrow> u32 \<Rightarrow> BinnedRange \<Rightarrow> bool" where
  "covers_with a b n r \<longleftrightarrow> br_fits r \<and> nano_beg r \<le> a \<and> b \<le> nano_end r \<and>
     unat a < unat (nano_beg r) + unat (bin_len r) \<and>
     unat (nano_end r) < unat b + unat (bin_len r) \<and> unat n \<le> unat (bin_cnt r)"

lemma covering_range_ty_covers:
  assumes "1 \<le> n" "n \<le> 2147483647" "a \<le> b" "unat b < 2 ^ 62" "unat n \<le> unat b - unat a"
  shows "\<exists>r. covering_range_ty k a b n = Some (Inr r) \<and> BinnedRangeEnum_dim0kind r = k \<and>
    covers_with a b n (br_of r)"
proof -
  let ?m = "(b - a) div (ucast n :: u64)"
  let ?bl = "chosen_bin_len k ?m"
  let ?r = "\<lparr>bin_len = ?bl, bin_off = a div ?bl, bin_cnt = (b + ?bl - 1) div ?bl - a div ?bl\<rparr>"
  have n1: "0 < unat n" using assms(1) by (simp add: word_le_nat_alt)
  have m: "unat ?m = (unat b - unat a) div unat n"
    by (rule max_bin_len_unat [OF assms(3)])
  have "0 < unat ?m"
    using n1 assms(5) by (simp add: m div_greater_zero_iff)
  then have nz: "?bl \<noteq> 0"
    by (intro chosen_bin_len_nonzero) (auto simp: unat_gt_0)
  have ble: "unat ?bl \<le> unat ?m"
    using chosen_bin_len_le [of k ?m] by (simp add: word_le_nat_alt)
  then have "unat n * unat ?bl \<le> unat n * ((unat b - unat a) div unat n)"
    unfolding m by (rule mult_le_mono2)
  also have "\<dots> \<le> unat b - unat a" by simp
  finally have nb: "unat n * unat ?bl \<le> unat b - unat a" .
  have "unat ?m \<le> unat b - unat a" unfolding m by simp
  with ble assms(4) have "unat b + 2 * unat ?bl < 2 ^ 64" by simp
  note g = grid_covers [OF nz assms(3) this]
  have "covers_with a b n ?r"
    using g(1-5) g(6) [OF nb] by (simp add: covers_with_def)
  moreover have "covering_range_ty k a b n
      = Some (Inr (to_binned_range_enum k ?bl (a div ?bl) ((b + ?bl - 1) div ?bl - a div ?bl)))"
    using nz by (simp add: covering_range_ty_unfold [OF assms(1,2)] Let_def)
  ultimately show ?thesis by (simp add: br_of_to_enum)
qed

lemma covering_range_ty_panics:
  assumes "1 \<le> n" "n \<le> 2147483647" "a \<le> b" "unat b - unat a < unat n"
  shows "covering_range_ty k a b n = None"
proof -
  have "unat ((b - a) div (ucast n :: u64)) = 0"
    using assms(4) by (simp add: max_bin_len_unat [OF assms(3)])
  then have "(b - a) div (ucast n :: u64) = 0"
    by (simp add: unat_eq_0)
  moreover have "chosen_bin_len k 0 = 0"
    by (simp add: chosen_bin_len_def found_bin_len_zero opts_nonzero)
  ultimately show ?thesis
    by (simp add: covering_range_ty_unfold [OF assms(1,2)] Let_def)
qed

section \<open>Covering a range with a requested bin length\<close>

lemma thresholds_ms:
  "x \<in> set TIME_BIN_THRESHOLDS \<Longrightarrow>
     x = DtMs_ns (TsNano_ms x) \<and> 20 \<le> TsNano_ms x \<and> TsNano_ms x \<le> 5529600000"
  by (auto simp: TIME_BIN_THRESHOLDS_def timeunits TsNano_ms_def DtMs_ns_def)

lemma TIME_BIN_THRESHOLDS_ends:
  "TsNano_ms (hd TIME_BIN_THRESHOLDS) = 20" "TsNano_ms (last TIME_BIN_THRESHOLDS) = 5529600000"
  "TIME_BIN_THRESHOLDS \<noteq> []"
  by (simp_all add: TIME_BIN_THRESHOLDS_def timeunits TsNano_ms_def)

lemma covering_bin_len_req_bounds:
  "20 \<le> covering_bin_len_req r" "covering_bin_len_req r \<le> 5529600000"
  by (auto simp: covering_bin_len_req_def Let_def TIME_BIN_THRESHOLDS_ends not_less)

lemma DtMs_ns_less_iff:
  assumes "a \<le> 5529600000" "b \<le> 5529600000"
  shows "DtMs_ns a < DtMs_ns b \<longleftrightarrow> a < b"
proof -
  have "unat a \<le> 5529600000" "unat b \<le> 5529600000"
    using assms by (simp_all add: word_le_nat_alt)
  then show ?thesis by (simp add: word_less_nat_alt DtMs_ns_unat)
qed

lemma below_fraction_zero:
  fixes r v :: u64
  assumes "v \<noteq> 0" "v < r"
  shows "(r - v) div r = 0"
proof -
  have "0 < unat v" "unat v < unat r"
    using assms by (simp_all add: unat_gt_0 word_less_nat_alt)
  then have "unat ((r - v) div r) = 0"
    using assms(2) by (simp add: unat_div_u64 unat_sub_u64)
  then show ?thesis by (simp add: unat_eq_0)
qed

lemma above_fraction_pos:
  fixes r v :: u64
  assumes "r \<noteq> 0" "r \<le> v"
  shows "(0 < (v - r) div r) = (2 * unat r \<le> unat v)"
proof -
  have "0 < unat r" "unat r \<le> unat v"
    using assms by (simp_all add: unat_gt_0 word_le_nat_alt)
  then show ?thesis
    using assms(2) by (auto simp: word_less_nat_alt unat_div_u64 unat_sub_u64 div_greater_zero_iff)
qed

text \<open>The two thresholds between which the requested length lies.\<close>

lemma covering_bin_len_eq:
  assumes "20 \<le> req" "req \<le> 5529600000"
  defines "p \<equiv> partition_point (\<lambda>x. x < DtMs_ns req) TIME_BIN_THRESHOLDS"
  shows "p < length TIME_BIN_THRESHOLDS" "req \<le> TsNano_ms (TIME_BIN_THRESHOLDS ! p)"
    "p \<noteq> 0 \<Longrightarrow> TsNano_ms (TIME_BIN_THRESHOLDS ! (p - 1)) < req"
    "covering_bin_len req = Some (
       if p = 0 then 20
       else let v1 = TsNano_ms (TIME_BIN_THRESHOLDS ! (p - 1));
                v2 = TsNano_ms (TIME_BIN_THRESHOLDS ! p)
            in if 2 * unat req \<le> unat v2 then v1 else v2)"
proof -
  have at: "TIME_BIN_THRESHOLDS ! i < DtMs_ns req \<longleftrightarrow> TsNano_ms (TIME_BIN_THRESHOLDS ! i) < req"
    if "i < length TIME_BIN_THRESHOLDS" for i
  proof -
    have "TIME_BIN_THRESHOLDS ! i \<in> set TIME_BIN_THRESHOLDS" using that by simp
    note t = thresholds_ms [OF this]
    then show ?thesis using DtMs_ns_less_iff [OF _ assms(2)] by metis
  qed
  have "\<not> last TIME_BIN_THRESHOLDS < DtMs_ns req"
    using at [of "length TIME_BIN_THRESHOLDS - 1"] assms(2) TIME_BIN_THRESHOLDS_ends
    by (simp add: last_conv_nth not_less)
  then show p: "p < length TIME_BIN_THRESHOLDS"
    using partition_point_before [of "length TIME_BIN_THRESHOLDS - 1" _ TIME_BIN_THRESHOLDS]
      partition_point_le [of _ TIME_BIN_THRESHOLDS] TIME_BIN_THRESHOLDS_ends(3)
    unfolding p_def by (metis (no_types, lifting) One_nat_def diff_less last_conv_nth
        le_neq_implies_less length_greater_0_conv lessI)
  show v2: "req \<le> TsNano_ms (TIME_BIN_THRESHOLDS ! p)"
  proof (rule leI)
    have "\<not> TIME_BIN_THRESHOLDS ! p < DtMs_ns req"
      using partition_point_at [of "\<lambda>x. x < DtMs_ns req" TIME_BIN_THRESHOLDS] p
      unfolding p_def by (rule mp [OF impI])
    then show "\<not> TsNano_ms (TIME_BIN_THRESHOLDS ! p) < req" unfolding at [OF p] .
  qed
  show v1: "TsNano_ms (TIME_BIN_THRESHOLDS ! (p - 1)) < req" if "p \<noteq> 0"
    using partition_point_before [of "p - 1" "\<lambda>x. x < DtMs_ns req" TIME_BIN_THRESHOLDS]
      at [of "p - 1"] p that by (simp add: p_def)
  show "covering_bin_len req = Some (
       if p = 0 then 20
       else let v1 = TsNano_ms (TIME_BIN_THRESHOLDS ! (p - 1));
                v2 = TsNano_ms (TIME_BIN_THRESHOLDS ! p)
            in if 2 * unat req \<le> unat v2 then v1 else v2)"
  proof (cases "p = 0")
    case True
    then show ?thesis by (simp add: covering_bin_len_def p_def Let_def TIME_BIN_THRESHOLDS_ends)
  next
    case False
    let ?v1 = "TsNano_ms (TIME_BIN_THRESHOLDS ! (p - 1))"
    let ?v2 = "TsNano_ms (TIME_BIN_THRESHOLDS ! p)"
    have nz: "req \<noteq> 0"
      using assms(1) by (auto simp: word_le_nat_alt)
    have "?v1 \<noteq> 0"
      using thresholds_ms [of "TIME_BIN_THRESHOLDS ! (p - 1)"] p by (auto simp: word_le_nat_alt)
    then have f1: "(req - ?v1) div req = 0"
      using v1 [OF False] by (rule below_fraction_zero)
    have "(0 < (?v2 - req) div req) = (2 * unat req \<le> unat ?v2)"
      by (rule above_fraction_pos [OF nz v2])
    then show ?thesis
      using False p v1 [OF False] v2 nz f1
      by (simp add: covering_bin_len_def Let_def not_le not_less flip: p_def)
  qed
qed

lemma covering_bin_len_in_thresholds:
  assumes "20 \<le> req" "req \<le> 5529600000"
  shows "\<exists>bl. covering_bin_len req = Some bl \<and> DtMs_ns bl \<in> set TIME_BIN_THRESHOLDS"
proof -
  let ?T = "TIME_BIN_THRESHOLDS"
  let ?p = "partition_point (\<lambda>x. x < DtMs_ns req) ?T"
  note e = covering_bin_len_eq [OF assms]
  have "TsNano_ms (hd ?T) = 20" "hd ?T \<in> set ?T"
    using TIME_BIN_THRESHOLDS_ends by (auto intro: hd_in_set)
  then have h: "DtMs_ns 20 \<in> set ?T"
    using thresholds_ms [of "hd ?T"] by metis
  have nth: "DtMs_ns (TsNano_ms (?T ! i)) \<in> set ?T" if "i < length ?T" for i
    using thresholds_ms [of "?T ! i"] that by (metis nth_mem)
  show ?thesis
    using h nth [OF e(1)] nth [of "?p - 1"] e(1,4) by (auto simp: Let_def)
qed

section \<open>Properties\<close>

text \<open>
  C21. \<^verbatim>\<open>BinnedRangeEnum::covering_range\<close>, documented as "cover at least the given range with at
  least as many as the requested number of bins": for a range \<open>[beg, end)\<close> with \<open>end < 2 ^ 62\<close>
  that is at least \<open>n\<close> units long it succeeds, keeps the kind of the range, its grid starts at
  most one bin before \<open>beg\<close> and ends less than one bin after \<open>end\<close>, no grid point wraps
  around, and there are at least \<open>n\<close> bins.
\<close>

theorem covering_range_covers:
  assumes "1 \<le> n" and "n \<le> 2147483647"
    and "SeriesRange_beg_u64 R \<le> SeriesRange_end_u64 R" and "unat (SeriesRange_end_u64 R) < 2 ^ 62"
    and "unat n \<le> unat (SeriesRange_end_u64 R) - unat (SeriesRange_beg_u64 R)"
  shows "\<exists>r. covering_range R n = Some (Inr r) \<and>
    BinnedRangeEnum_dim0kind r = SeriesRange_dim0kind R \<and>
    covers_with (SeriesRange_beg_u64 R) (SeriesRange_end_u64 R) n (br_of r)"
  using covering_range_ty_covers [OF assms] by (cases R) auto

theorem covering_range_covers_witness:
  "\<exists>r. covering_range (TimeRange \<lparr>nr_beg = 259200000000000, nr_end = 262800000000000\<rparr>) 10
      = Some (Inr r) \<and> covers_with 259200000000000 262800000000000 10 (br_of r)"
  using covering_range_covers
    [of 10 "TimeRange \<lparr>nr_beg = 259200000000000, nr_end = 262800000000000\<rparr>"] by auto

text \<open>
  A range that is shorter than the requested number of bins makes
  \<^verbatim>\<open>BinnedRangeEnum::covering_range\<close> panic: no configured bin length fits, the fallback length is
  zero, and the offsets are computed by dividing by it. No error value is returned.
\<close>

theorem covering_range_narrow_panics:
  assumes "1 \<le> n" and "n \<le> 2147483647"
    and "SeriesRange_beg_u64 R \<le> SeriesRange_end_u64 R"
    and "unat (SeriesRange_end_u64 R) - unat (SeriesRange_beg_u64 R) < unat n"
  shows "covering_range R n = None"
  using covering_range_ty_panics [OF assms] by (cases R) auto

theorem covering_range_narrow_panics_witness:
  "covering_range (PulseRangeV \<lparr>pr_beg = 100, pr_end = 105\<rparr>) 10 = None"
  using covering_range_narrow_panics [of 10 "PulseRangeV \<lparr>pr_beg = 100, pr_end = 105\<rparr>"] by simp

text \<open>
  C23. \<^verbatim>\<open>BinnedRange::covering_range_time\<close> never panics, whatever bin length is requested: its
  \<^verbatim>\<open>panic!("logic covering_range_time")\<close> is unreachable and it divides by nothing that is zero. It
  chooses one of the configured bin lengths, and the grid covers the range and exceeds it by less
  than one bin on either side.
\<close>

theorem covering_range_time_covers:
  assumes "nr_beg R \<le> nr_end R" and "unat (nr_end R) < 2 ^ 62"
  shows "\<exists>r. BinnedRange_covering_range_time R req = Some (Inr r) \<and>
    bin_len r \<in> set TIME_BIN_THRESHOLDS \<and> covers_with (nr_beg R) (nr_end R) 0 r"
proof -
  obtain bl where bl: "covering_bin_len (covering_bin_len_req req) = Some bl"
    and mem: "DtMs_ns bl \<in> set TIME_BIN_THRESHOLDS"
    using covering_bin_len_in_thresholds covering_bin_len_req_bounds by blast
  let ?l = "DtMs_ns bl"
  let ?r = "\<lparr>bin_len = ?l, bin_off = nr_beg R div ?l,
    bin_cnt = (nr_end R + ?l - 1) div ?l - nr_beg R div ?l\<rparr>"
  have nz: "?l \<noteq> 0"
    using mem opts_nonzero [of Time] by auto
  have "unat x \<le> 5529600000000000" if "x \<in> set TIME_BIN_THRESHOLDS" for x
    using that by (auto simp: TIME_BIN_THRESHOLDS_def timeunits)
  from this [OF mem] assms(2) have "unat (nr_end R) + 2 * unat ?l < 2 ^ 64" by simp
  note g = grid_covers [OF nz assms(1) this]
  have "BinnedRange_covering_range_time R req = Some (Inr ?r)"
    using nz by (simp add: BinnedRange_covering_range_time_def bl)
  moreover have "covers_with (nr_beg R) (nr_end R) 0 ?r"
    using g(1-5) by (simp add: covers_with_def)
  ultimately show ?thesis using mem by auto
qed

theorem covering_range_time_covers_witness:
  "\<exists>r. BinnedRange_covering_range_time \<lparr>nr_beg = 1000, nr_end = 2000\<rparr> 0 = Some (Inr r) \<and>
     bin_len r \<in> set TIME_BIN_THRESHOLDS \<and> covers_with 1000 2000 0 r"
  using covering_range_time_covers [of "\<lparr>nr_beg = 1000, nr_end = 2000\<rparr>" 0] by simp

text \<open>
  C22. The loop of \<^verbatim>\<open>BinnedRange::edges\<close> ends on every grid that stays below the end of the 64 bit
  line and yields the \<open>bin_cnt + 1\<close> edges in order, the first and the last being the bounds of
  the range, and \<^verbatim>\<open>range_at\<close> gives, for every bin index, exactly the interval between two
  successive edges and nothing beyond the last bin: the bins tile the range.
\<close>

theorem edges_and_range_at_tile:
  assumes "br_fits r"
  shows "\<exists>es. edges r = Some es \<and> length es = Suc (unat (bin_cnt r)) \<and>
    hd es = nano_beg r \<and> last es = nano_end r \<and>
    (\<forall>i. range_at (BRTime r) i =
       (if i < bin_cnt r
        then Some (TimeRange \<lparr>nr_beg = es ! unat i, nr_end = es ! Suc (unat i)\<rparr>) else None))"
proof -
  let ?f = "\<lambda>i. bin_len r * (bin_off r + of_nat i)"
  let ?es = "map ?f [0..<Suc (unat (bin_cnt r))]"
  have "range_at (BRTime r) i = (if i < bin_cnt r
        then Some (TimeRange \<lparr>nr_beg = ?es ! unat i, nr_end = ?es ! Suc (unat i)\<rparr>) else None)" for i
  proof (cases "i < bin_cnt r")
    case True
    then have "unat i < unat (bin_cnt r)" by (simp add: word_less_nat_alt)
    then have "?es ! unat i = ?f (unat i)" "?es ! Suc (unat i) = ?f (Suc (unat i))"
      by (simp_all add: nth_map_upt del: upt_Suc)
    then show ?thesis using True by (simp add: Let_def algebra_simps)
  qed simp
  moreover have "hd ?es = nano_beg r" "last ?es = nano_end r"
    by (simp_all add: hd_map last_map nano_beg_def nano_end_def del: upt_Suc)
  ultimately show ?thesis
    using edges_eq [OF assms] by (intro exI [of _ ?es]) simp
qed

theorem edges_and_range_at_tile_witness:
  "\<exists>es. edges \<lparr>bin_len = 60, bin_off = 5, bin_cnt = 3\<rparr> = Some es \<and> length es = 4 \<and>
    hd es = 300 \<and> last es = 480"
  using edges_and_range_at_tile [of "\<lparr>bin_len = 60, bin_off = 5, bin_cnt = 3\<rparr>"]
  by (auto simp: br_fits_def nano_beg_def nano_end_def)

text \<open>
  How the bin width is chosen from the requested one, which the documentation describes as
  "selecting the bin width which best fits": because the relative distances are integer divisions,
  the next larger threshold is taken unless it is at least twice the request. A request of 26 ms
  gets 50 ms bins although 20 ms is four times closer (the witness).
\<close>

theorem covering_bin_len_rounding:
  assumes "20 < req" and "req \<le> 5529600000"
  shows "\<exists>i. Suc i < length TIME_BIN_THRESHOLDS \<and>
    TsNano_ms (TIME_BIN_THRESHOLDS ! i) < req \<and> req \<le> TsNano_ms (TIME_BIN_THRESHOLDS ! Suc i) \<and>
    covering_bin_len req = Some (
      if 2 * unat req \<le> unat (TsNano_ms (TIME_BIN_THRESHOLDS ! Suc i))
      then TsNano_ms (TIME_BIN_THRESHOLDS ! i) else TsNano_ms (TIME_BIN_THRESHOLDS ! Suc i))"
proof -
  let ?T = "TIME_BIN_THRESHOLDS"
  let ?p = "partition_point (\<lambda>x. x < DtMs_ns req) ?T"
  note e = covering_bin_len_eq [OF less_imp_le [OF assms(1)] assms(2)]
  have "?p \<noteq> 0"
    using e(2) assms(1) TIME_BIN_THRESHOLDS_ends by (metis hd_conv_nth leD)
  then obtain i where i: "?p = Suc i" by (meson not0_implies_Suc)
  from e i show ?thesis by (intro exI [of _ i]) (simp add: Let_def)
qed

theorem covering_bin_len_rounding_witness:
  "covering_bin_len 26 = Some 50 \<and>
   (\<exists>i. TsNano_ms (TIME_BIN_THRESHOLDS ! i) < 26 \<and> 26 \<le> TsNano_ms (TIME_BIN_THRESHOLDS ! Suc i))"
proof
  show "covering_bin_len 26 = Some 50"
    by (simp add: covering_bin_len_def partition_point_def TIME_BIN_THRESHOLDS_def timeunits
        DtMs_ns_def TsNano_ms_def Let_def)
  show "\<exists>i. TsNano_ms (TIME_BIN_THRESHOLDS ! i) < 26 \<and> 26 \<le> TsNano_ms (TIME_BIN_THRESHOLDS ! Suc i)"
    using covering_bin_len_rounding [of 26] by auto
qed

end
