(* ===== verification/ByteFifo.thy ===== *)
theory ByteFifo
  imports Prelude
begin

text \<open>
  The contract the two network buffers of the program promise: \<^verbatim>\<open>SlideBuf\<close>
  (\<^verbatim>\<open>daqbuf-streams/src/slidebuf.rs\<close>) and \<^verbatim>\<open>NetBuf\<close> (\<^verbatim>\<open>daqbuf-netfetch/src/netbuf.rs\<close>) are
  byte queues of bounded capacity. The locale \<open>byte_fifo\<close> states what every such buffer keeps,
  \<open>byte_fifo_full\<close> adds that a write succeeds whenever the bytes fit. Clients are sequences of
  writes and reads; their results are proved once here, for any buffer that keeps the contract.
\<close>

datatype fifo_op = FPut bytes | FGet nat

datatype fifo_res = RPut bool | RGet "bytes option"

text \<open>Running a sequence of operations on a buffer; \<open>None\<close> is a panic.\<close>

fun fifo_run ::
  "(bytes \<Rightarrow> 's \<Rightarrow> (('e, unit) result \<times> 's) panics) \<Rightarrow> (nat \<Rightarrow> 's \<Rightarrow> (('e, bytes) result \<times> 's) panics) \<Rightarrow>
   fifo_op list \<Rightarrow> 's \<Rightarrow> (fifo_res list \<times> 's) panics" where
  "fifo_run put get [] s = Some ([], s)"
| "fifo_run put get (FPut bs # ops) s =
     do { (r, s1) \<leftarrow> put bs s;
          (rs, s2) \<leftarrow> fifo_run put get ops s1;
          Some (RPut (case r of Inl _ \<Rightarrow> False | Inr _ \<Rightarrow> True) # rs, s2) }"
| "fifo_run put get (FGet n # ops) s =
     do { (r, s1) \<leftarrow> get n s;
          (rs, s2) \<leftarrow> fifo_run put get ops s1;
          Some (RGet (case r of Inl _ \<Rightarrow> None | Inr b \<Rightarrow> Some b) # rs, s2) }"

text \<open>The queue a client may assume: a write may be refused, and then nothing changes.\<close>

inductive fifo_trace :: "bytes \<Rightarrow> fifo_op list \<Rightarrow> fifo_res list \<Rightarrow> bytes \<Rightarrow> bool" where
  finished: "fifo_trace q [] [] q"
| put_ok: "fifo_trace (q @ bs) ops rs q' \<Longrightarrow> fifo_trace q (FPut bs # ops) (RPut True # rs) q'"
| put_full: "fifo_trace q ops rs q' \<Longrightarrow> fifo_trace q (FPut bs # ops) (RPut False # rs) q'"
| get_ok: "n \<le> length q \<Longrightarrow> fifo_trace (drop n q) ops rs q' \<Longrightarrow>
    fifo_trace q (FGet n # ops) (RGet (Some (take n q)) # rs) q'"
| get_short: "length q < n \<Longrightarrow> fifo_trace q ops rs q' \<Longrightarrow>
    fifo_trace q (FGet n # ops) (RGet None # rs) q'"

text \<open>The bounded queue: a write succeeds exactly when it fits.\<close>

fun fifo_spec :: "nat \<Rightarrow> fifo_op list \<Rightarrow> bytes \<Rightarrow> fifo_res list \<times> bytes" where
  "fifo_spec c [] q = ([], q)"
| "fifo_spec c (FPut bs # ops) q =
     (let ok = length q + length bs \<le> c;
          (rs, q') = fifo_spec c ops (if ok then q @ bs else q)
      in (RPut ok # rs, q'))"
| "fifo_spec c (FGet n # ops) q =
     (let ok = n \<le> length q;
          (rs, q') = fifo_spec c ops (if ok then drop n q else q)
      in (RGet (if ok then Some (take n q) else None) # rs, q'))"

inductive_cases fifo_trace_PutE: "fifo_trace q (FPut bs # ops) rs q'"
inductive_cases fifo_trace_GetE: "fifo_trace q (FGet n # ops) rs q'"
inductive_cases fifo_trace_NilE: "fifo_trace q [] rs q'"

text \<open>Bytes accepted by the writes and bytes delivered by the reads of a run.\<close>

fun accepted :: "fifo_op list \<Rightarrow> fifo_res list \<Rightarrow> bytes" where
  "accepted (FPut bs # ops) (RPut True # rs) = bs @ accepted ops rs"
| "accepted (_ # ops) (_ # rs) = accepted ops rs"
| "accepted _ _ = []"

fun delivered :: "fifo_res list \<Rightarrow> bytes" where
  "delivered (RGet (Some b) # rs) = b @ delivered rs"
| "delivered (_ # rs) = delivered rs"
| "delivered [] = []"

lemma fifo_trace_order: "fifo_trace q ops rs q' \<Longrightarrow> q @ accepted ops rs = delivered rs @ q'"
proof (induction rule: fifo_trace.induct)
  case (get_ok n q ops rs q')
  have "q @ accepted ops rs = take n q @ (drop n q @ accepted ops rs)" by simp
  then show ?case by (simp add: get_ok.IH del: append_take_drop_id)
qed simp_all

locale byte_fifo =
  fixes inv :: "'s \<Rightarrow> bool"
    and data :: "'s \<Rightarrow> bytes"
    and cap :: "'s \<Rightarrow> nat"
    and put :: "bytes \<Rightarrow> 's \<Rightarrow> (('e, unit) result \<times> 's) panics"
    and get :: "nat \<Rightarrow> 's \<Rightarrow> (('e, bytes) result \<times> 's) panics"
  assumes put_total: "inv s \<Longrightarrow> \<exists>r s'. put bs s = Some (r, s')"
    and put_Ok: "inv s \<Longrightarrow> put bs s = Some (Inr u, s') \<Longrightarrow>
      inv s' \<and> data s' = data s @ bs \<and> cap s' = cap s"
    and put_Err: "inv s \<Longrightarrow> put bs s = Some (Inl e, s') \<Longrightarrow>
      inv s' \<and> data s' = data s \<and> cap s' = cap s"
    and get_Ok: "inv s \<Longrightarrow> n \<le> length (data s) \<Longrightarrow>
      \<exists>s'. get n s = Some (Inr (take n (data s)), s') \<and> inv s' \<and> data s' = drop n (data s) \<and>
        cap s' = cap s"
    and get_Err: "inv s \<Longrightarrow> length (data s) < n \<Longrightarrow> \<exists>e. get n s = Some (Inl e, s)"
begin

lemma run_trace:
  "inv s \<Longrightarrow> \<exists>rs s'. fifo_run put get ops s = Some (rs, s') \<and> inv s' \<and>
     fifo_trace (data s) ops rs (data s')"
proof (induction ops arbitrary: s)
  case Nil
  then show ?case by (auto intro: fifo_trace.finished)
next
  case (Cons x ops)
  show ?case
  proof (cases x)
    case (FPut bs)
    obtain r s1 where r: "put bs s = Some (r, s1)" using put_total [OF Cons.prems] by blast
    show ?thesis
    proof (cases r)
      case (Inl e)
      with r Cons.prems have "inv s1" "data s1 = data s" using put_Err by blast+
      with Cons.IH [of s1] FPut Inl r show ?thesis by (auto intro: fifo_trace.put_full)
    next
      case (Inr u)
      with r Cons.prems have "inv s1" "data s1 = data s @ bs" using put_Ok by blast+
      with Cons.IH [of s1] FPut Inr r show ?thesis by (auto intro: fifo_trace.put_ok)
    qed
  next
    case (FGet n)
    show ?thesis
    proof (cases "n \<le> length (data s)")
      case True
      then obtain s1 where "get n s = Some (Inr (take n (data s)), s1)" "inv s1"
        "data s1 = drop n (data s)" using get_Ok [OF Cons.prems] by blast
      with Cons.IH [of s1] FGet True show ?thesis by (auto intro: fifo_trace.get_ok)
    next
      case False
      then obtain e where "get n s = Some (Inl e, s)" using get_Err [OF Cons.prems] by fastforce
      with Cons.IH [OF Cons.prems] FGet False show ?thesis by (auto simp: not_le intro: fifo_trace.get_short)
    qed
  qed
qed

text \<open>What is read is what was accepted, in order, and the rest is still buffered.\<close>

lemma run_order:
  assumes "inv s" "data s = []"
  shows "\<exists>rs s'. fifo_run put get ops s = Some (rs, s') \<and> accepted ops rs = delivered rs @ data s'"
  using run_trace [OF assms(1)] fifo_trace_order assms(2) by fastforce

end

locale byte_fifo_full = byte_fifo +
  assumes put_fits: "inv s \<Longrightarrow> length (data s) + length bs \<le> cap s \<Longrightarrow>
      \<exists>u s'. put bs s = Some (Inr u, s')"
    and put_bound: "inv s \<Longrightarrow> length (data s) \<le> cap s"
begin

lemma put_iff:
  assumes "inv s" "put bs s = Some (r, s')"
  shows "(case r of Inl _ \<Rightarrow> False | Inr _ \<Rightarrow> True) = (length (data s) + length bs \<le> cap s)"
proof (cases r)
  case (Inl e)
  with put_fits [OF assms(1), of bs] assms(2) show ?thesis by auto
next
  case (Inr u)
  with put_Ok [OF assms(1)] assms(2) have "inv s'" "data s' = data s @ bs" "cap s' = cap s" by auto
  with put_bound [of s'] Inr show ?thesis by simp
qed

lemma put_step:
  assumes "inv s" "put bs s = Some (r, s')"
  shows "inv s' \<and> cap s' = cap s \<and>
    data s' = (if length (data s) + length bs \<le> cap s then data s @ bs else data s)"
proof (cases r)
  case (Inl e)
  then show ?thesis using put_Err [OF assms(1)] put_iff [OF assms] assms(2) by simp
next
  case (Inr u)
  then show ?thesis using put_Ok [OF assms(1)] put_iff [OF assms] assms(2) by simp
qed

lemma get_step:
  assumes "inv s"
  shows "\<exists>r s'. get n s = Some (r, s') \<and> inv s' \<and> cap s' = cap s \<and>
    data s' = (if n \<le> length (data s) then drop n (data s) else data s) \<and>
    (case r of Inl _ \<Rightarrow> None | Inr b \<Rightarrow> Some b)
      = (if n \<le> length (data s) then Some (take n (data s)) else None)"
proof (cases "n \<le> length (data s)")
  case True
  then show ?thesis using get_Ok [OF assms] by fastforce
next
  case False
  then show ?thesis using get_Err [OF assms, of n] assms by (fastforce simp: not_le)
qed

lemma run_spec:
  "inv s \<Longrightarrow> \<exists>s'. fifo_run put get ops s = Some (fst (fifo_spec (cap s) ops (data s)), s') \<and>
     inv s' \<and> data s' = snd (fifo_spec (cap s) ops (data s)) \<and> cap s' = cap s"
proof (induction ops arbitrary: s)
  case Nil
  then show ?case by simp
next
  case (Cons x ops)
  show ?case
  proof (cases x)
    case (FPut bs)
    obtain r s1 where r: "put bs s = Some (r, s1)" using put_total [OF Cons.prems] by blast
    note s1 = put_step [OF Cons.prems r] put_iff [OF Cons.prems r]
    then have "inv s1" by simp
    from Cons.IH [OF this] s1 show ?thesis
      by (auto simp: FPut r Let_def split: prod.split)
  next
    case (FGet n)
    obtain r s1 where r: "get n s = Some (r, s1)" "inv s1" "cap s1 = cap s"
      "data s1 = (if n \<le> length (data s) then drop n (data s) else data s)"
      "(case r of Inl _ \<Rightarrow> None | Inr b \<Rightarrow> Some b)
         = (if n \<le> length (data s) then Some (take n (data s)) else None)"
      using get_step [OF Cons.prems] by blast
    show ?thesis
      using Cons.IH [OF r(2)] r by (auto simp: FGet Let_def split: prod.split)
  qed
qed

end

end
