(* ===== verification/SlideBuf.thy ===== *)
theory SlideBuf
  imports ByteFifo
begin

text \<open>
  \<^verbatim>\<open>daqbuf-streams/src/slidebuf.rs\<close>: a vector with a read and a write position, compacted when
  space is needed. Every public operation is modelled; the invariant is the one of the (disabled)
  \<^verbatim>\<open>check_invariants\<close>. The repeated bodies of the typed reads and writes are \<open>sb_read_fixed\<close> and
  \<open>sb_put_bytes\<close>. Lemmas: no operation panics, all keep the invariant and the capacity, and the
  buffer is a bounded byte queue (interpretation of \<open>byte_fifo_full\<close>).
\<close>

datatype sb_error = NotEnoughBytes | NotEnoughSpace nat nat nat | TryFromSliceError

record SlideBuf =
  sb_buf :: bytes
  sb_wp :: nat
  sb_rp :: nat

type_synonym 'a sb_op = "SlideBuf \<Rightarrow> ((sb_error, 'a) result \<times> SlideBuf) panics"

definition sb_new :: "nat \<Rightarrow> SlideBuf" where
  "sb_new c = \<lparr>sb_buf = replicate c 0, sb_wp = 0, sb_rp = 0\<rparr>"

definition sb_state :: "SlideBuf \<Rightarrow> nat \<times> nat" where
  "sb_state s = (sb_rp s, sb_wp s)"

definition sb_len :: "SlideBuf \<Rightarrow> nat" where
  "sb_len s = usize_sub (sb_wp s) (sb_rp s)"

definition sb_cap :: "SlideBuf \<Rightarrow> nat" where
  "sb_cap s = length (sb_buf s)"

definition sb_wcap :: "SlideBuf \<Rightarrow> nat" where
  "sb_wcap s = usize_sub (length (sb_buf s)) (sb_wp s)"

definition sb_data :: "SlideBuf \<Rightarrow> bytes panics" where
  "sb_data s = slice (sb_buf s) (sb_rp s) (sb_wp s)"

definition sb_reset :: "SlideBuf \<Rightarrow> SlideBuf" where
  "sb_reset s = s\<lparr>sb_rp := 0, sb_wp := 0\<rparr>"

definition sb_adv :: "nat \<Rightarrow> unit sb_op" where
  "sb_adv x s =
     Some (if sb_len s < x then (Inl NotEnoughBytes, s)
           else (Inr (), s\<lparr>sb_rp := usize_add (sb_rp s) x\<rparr>))"

definition sb_rewind :: "SlideBuf \<Rightarrow> SlideBuf panics" where
  "sb_rewind s =
     do { b \<leftarrow> copy_within0 (sb_buf s) (sb_rp s) (sb_wp s);
          Some (s\<lparr>sb_buf := b, sb_wp := usize_sub (sb_wp s) (sb_rp s), sb_rp := 0\<rparr>) }"

definition sb_wadv :: "nat \<Rightarrow> unit sb_op" where
  "sb_wadv x s0 =
     do { s \<leftarrow> (if sb_wcap s0 < x then sb_rewind s0 else Some s0);
          Some (if sb_wcap s < x then (Inl (NotEnoughSpace (sb_cap s) (sb_wcap s) x), s)
                else (Inr (), s\<lparr>sb_wp := usize_add (sb_wp s) x\<rparr>)) }"

definition sb_set_rp :: "nat \<Rightarrow> unit sb_op" where
  "sb_set_rp rp s =
     Some (if rp > sb_wp s then (Inl NotEnoughBytes, s) else (Inr (), s\<lparr>sb_rp := rp\<rparr>))"

definition sb_rewind_rp :: "nat \<Rightarrow> unit sb_op" where
  "sb_rewind_rp n s =
     Some (if sb_rp s < n then (Inl NotEnoughBytes, s)
           else (Inr (), s\<lparr>sb_rp := usize_sub (sb_rp s) n\<rparr>))"

section \<open>Reads\<close>

definition sb_read_u8 :: "u8 sb_op" where
  "sb_read_u8 s =
     (if sb_len s < 1 then Some (Inl NotEnoughBytes, s)
      else do { v \<leftarrow> index (sb_buf s) (sb_rp s);
                Some (Inr v, s\<lparr>sb_rp := usize_add (sb_rp s) 1\<rparr>) })"

definition sb_read_fixed :: "nat \<Rightarrow> bytes sb_op" where
  "sb_read_fixed n s =
     (if sb_len s < n then Some (Inl NotEnoughBytes, s)
      else do { v \<leftarrow> slice (sb_buf s) (sb_rp s) (usize_add (sb_rp s) n);
                Some (Inr v, s\<lparr>sb_rp := usize_add (sb_rp s) n\<rparr>) })"

definition sb_map_res :: "('a \<Rightarrow> 'b) \<Rightarrow> 'a sb_op \<Rightarrow> 'b sb_op" where
  "sb_map_res f m s = map_option (map_prod (map_sum id f) id) (m s)"

definition sb_read_u16_be :: "u16 sb_op" where
  "sb_read_u16_be = sb_map_res from_be (sb_read_fixed 2)"

definition sb_read_u32_be :: "u32 sb_op" where
  "sb_read_u32_be = sb_map_res from_be (sb_read_fixed 4)"

definition sb_read_u64_be :: "u64 sb_op" where
  "sb_read_u64_be = sb_map_res from_be (sb_read_fixed 8)"

definition sb_read_i32_be :: "int sb_op" where
  "sb_read_i32_be = sb_map_res (\<lambda>b. sint (from_be b :: 32 word)) (sb_read_fixed 4)"

definition sb_read_i64_be :: "int sb_op" where
  "sb_read_i64_be = sb_map_res (\<lambda>b. sint (from_be b :: 64 word)) (sb_read_fixed 8)"

definition sb_read_f32_be :: "u32 sb_op" where
  "sb_read_f32_be = sb_map_res from_be (sb_read_fixed 4)"

definition sb_read_f64_be :: "u64 sb_op" where
  "sb_read_f64_be = sb_map_res from_be (sb_read_fixed 8)"

definition sb_read_bytes :: "nat \<Rightarrow> bytes sb_op" where
  "sb_read_bytes n = sb_read_fixed n"

section \<open>Writes\<close>

definition sb_rewind_if_needed :: "nat \<Rightarrow> SlideBuf \<Rightarrow> SlideBuf panics" where
  "sb_rewind_if_needed need_min s =
     (if sb_rp s \<noteq> 0 \<and> sb_rp s = sb_wp s then Some (s\<lparr>sb_rp := 0, sb_wp := 0\<rparr>)
      else if sb_cap s < usize_add (sb_rp s) need_min then sb_rewind s
      else Some s)"

text \<open>The first two statements of every write.\<close>

definition sb_make_space :: "nat \<Rightarrow> SlideBuf \<Rightarrow> SlideBuf panics" where
  "sb_make_space n s0 =
     do { s \<leftarrow> sb_rewind_if_needed n s0;
          if sb_wcap s < n then sb_rewind s else Some s }"

definition sb_write_buf :: "nat \<Rightarrow> bytes sb_op" where
  "sb_write_buf n s0 =
     do { s \<leftarrow> sb_make_space n s0;
          if sb_wcap s < n then Some (Inl (NotEnoughSpace (sb_cap s) (sb_wcap s) n), s)
          else do { r \<leftarrow> slice (sb_buf s) (sb_wp s) (usize_add (sb_wp s) n);
                    Some (Inr r, s\<lparr>sb_wp := usize_add (sb_wp s) n\<rparr>) } }"

definition sb_available_writable_area :: "nat \<Rightarrow> bytes sb_op" where
  "sb_available_writable_area need_min s0 =
     do { s \<leftarrow> sb_make_space need_min s0;
          if sb_wcap s < need_min
          then Some (Inl (NotEnoughSpace (sb_cap s) (sb_wcap s) need_min), s)
          else do { r \<leftarrow> slice (sb_buf s) (sb_wp s) (length (sb_buf s)); Some (Inr r, s) } }"

definition sb_put_bytes :: "bytes \<Rightarrow> unit sb_op" where
  "sb_put_bytes bs s0 =
     do { s \<leftarrow> sb_make_space (length bs) s0;
          if sb_wcap s < length bs
          then Some (Inl (NotEnoughSpace (sb_cap s) (sb_wcap s) (length bs)), s)
          else do { b \<leftarrow> copy_from_slice (sb_buf s) (sb_wp s) bs;
                    Some (Inr (), s\<lparr>sb_buf := b, sb_wp := usize_add (sb_wp s) (length bs)\<rparr>) } }"

definition sb_put_slice :: "bytes \<Rightarrow> unit sb_op" where
  "sb_put_slice bs = sb_put_bytes bs"

definition sb_put_u8 :: "u8 \<Rightarrow> unit sb_op" where
  "sb_put_u8 v = sb_put_bytes (to_be 1 v)"

definition sb_put_u16_be :: "u16 \<Rightarrow> unit sb_op" where
  "sb_put_u16_be v = sb_put_bytes (to_be 2 v)"

definition sb_put_u32_be :: "u32 \<Rightarrow> unit sb_op" where
  "sb_put_u32_be v = sb_put_bytes (to_be 4 v)"

definition sb_put_u64_be :: "u64 \<Rightarrow> unit sb_op" where
  "sb_put_u64_be v = sb_put_bytes (to_be 8 v)"

definition sb_put_f32_be :: "u32 \<Rightarrow> unit sb_op" where
  "sb_put_f32_be v = sb_put_bytes (to_be 4 v)"

definition sb_put_f64_be :: "u64 \<Rightarrow> unit sb_op" where
  "sb_put_f64_be v = sb_put_bytes (to_be 8 v)"

section \<open>Invariant\<close>

text \<open>
  \<^verbatim>\<open>check_invariants\<close>, together with the bound of the language on the length of a vector
  (\<^verbatim>\<open>isize::MAX\<close> bytes).
\<close>

definition sb_inv :: "SlideBuf \<Rightarrow> bool" where
  "sb_inv s \<longleftrightarrow> sb_wp s \<le> length (sb_buf s) \<and> sb_rp s \<le> sb_wp s \<and> length (sb_buf s) < 2 ^ 63"

text \<open>The buffered bytes.\<close>

definition sb_abs :: "SlideBuf \<Rightarrow> bytes" where
  "sb_abs s = take (sb_wp s - sb_rp s) (drop (sb_rp s) (sb_buf s))"

lemma sb_invD:
  assumes "sb_inv s"
  shows "sb_wp s \<le> length (sb_buf s)" "sb_rp s \<le> sb_wp s" "length (sb_buf s) < 2 ^ 63"
  using assms by (simp_all add: sb_inv_def)

lemma length_sb_abs: "sb_inv s \<Longrightarrow> length (sb_abs s) = sb_wp s - sb_rp s"
  by (frule sb_invD(1)) (simp add: sb_abs_def min_def, linarith)

lemma sb_data_inv: "sb_inv s \<Longrightarrow> sb_data s = Some (sb_abs s)"
  by (simp add: sb_inv_def sb_data_def sb_abs_def)

lemma sb_len_inv: "sb_inv s \<Longrightarrow> sb_len s = length (sb_abs s)"
  by (simp add: length_sb_abs sb_invD(2) sb_len_def)

lemma sb_wcap_inv: "sb_inv s \<Longrightarrow> sb_wcap s = length (sb_buf s) - sb_wp s"
  by (simp add: sb_inv_def sb_wcap_def)

lemma sb_abs_le_cap: "sb_inv s \<Longrightarrow> length (sb_abs s) \<le> sb_cap s"
  by (simp add: sb_inv_def sb_abs_def sb_cap_def)

text \<open>Compaction: same bytes, read position zero.\<close>

lemma sb_rewind_inv:
  assumes "sb_inv s"
  shows "\<exists>s'. sb_rewind s = Some s' \<and> sb_inv s' \<and> sb_abs s' = sb_abs s \<and> sb_cap s' = sb_cap s \<and>
    sb_rp s' = 0 \<and> sb_wp s' = length (sb_abs s)"
  using assms by (auto simp: sb_inv_def sb_rewind_def sb_abs_def sb_cap_def min_absorb1)

lemma sb_rewind_if_needed_inv:
  assumes "sb_inv s"
  shows "\<exists>s'. sb_rewind_if_needed n s = Some s' \<and> sb_inv s' \<and> sb_abs s' = sb_abs s \<and>
    sb_cap s' = sb_cap s"
proof (cases "sb_rp s \<noteq> 0 \<and> sb_rp s = sb_wp s")
  case True
  with assms show ?thesis by (simp add: sb_rewind_if_needed_def sb_inv_def sb_abs_def sb_cap_def)
next
  case False
  with sb_rewind_inv [OF assms] assms show ?thesis
    by (cases "sb_cap s < usize_add (sb_rp s) n") (auto simp: sb_rewind_if_needed_def)
qed

lemma sb_make_space_inv:
  assumes "sb_inv s"
  shows "\<exists>s'. sb_make_space n s = Some s' \<and> sb_inv s' \<and> sb_abs s' = sb_abs s \<and>
    sb_cap s' = sb_cap s \<and> (sb_wcap s' < n \<longleftrightarrow> sb_cap s < length (sb_abs s) + n)"
proof -
  obtain s1 where s1: "sb_rewind_if_needed n s = Some s1" "sb_inv s1" "sb_abs s1 = sb_abs s"
    "sb_cap s1 = sb_cap s"
    using sb_rewind_if_needed_inv [OF assms] by blast
  show ?thesis
  proof (cases "sb_wcap s1 < n")
    case True
    obtain s2 where s2: "sb_rewind s1 = Some s2" "sb_inv s2" "sb_abs s2 = sb_abs s1"
      "sb_cap s2 = sb_cap s1" "sb_rp s2 = 0" "sb_wp s2 = length (sb_abs s1)"
      using sb_rewind_inv [OF s1(2)] by blast
    then have "sb_wcap s2 = sb_cap s - length (sb_abs s)"
      using s1 by (simp add: sb_wcap_inv sb_cap_def)
    moreover have "length (sb_abs s) \<le> sb_cap s" by (rule sb_abs_le_cap [OF assms])
    ultimately show ?thesis
      using s1 s2 True by (auto simp: sb_make_space_def)
  next
    case False
    have "length (sb_abs s1) + sb_wcap s1 \<le> sb_cap s1"
      using sb_invD [OF s1(2)] by (simp add: sb_wcap_inv [OF s1(2)] length_sb_abs [OF s1(2)] sb_cap_def)
    with False s1 show ?thesis by (auto simp: sb_make_space_def)
  qed
qed

lemma sb_put_bytes_inv:
  assumes "sb_inv s"
  shows "\<exists>r s'. sb_put_bytes bs s = Some (r, s') \<and> sb_inv s' \<and> sb_cap s' = sb_cap s \<and>
    (if length (sb_abs s) + length bs \<le> sb_cap s
     then r = Inr () \<and> sb_abs s' = sb_abs s @ bs
     else (\<exists>w. r = Inl (NotEnoughSpace (sb_cap s) w (length bs))) \<and> sb_abs s' = sb_abs s)"
proof -
  obtain s1 where s1: "sb_make_space (length bs) s = Some s1" "sb_inv s1" "sb_abs s1 = sb_abs s"
    "sb_cap s1 = sb_cap s" "sb_wcap s1 < length bs \<longleftrightarrow> sb_cap s < length (sb_abs s) + length bs"
    using sb_make_space_inv [OF assms] by blast
  show ?thesis
  proof (cases "sb_wcap s1 < length bs")
    case True
    with s1 show ?thesis by (simp add: sb_put_bytes_def)
  next
    case False
    then have fit: "sb_wp s1 + length bs \<le> length (sb_buf s1)"
      using sb_invD [OF s1(2)] sb_wcap_inv [OF s1(2)] by linarith
    with sb_invD(3) [OF s1(2)] have "sb_wp s1 + length bs < 2 ^ 64" by simp
    then have add: "usize_add (sb_wp s1) (length bs) = sb_wp s1 + length bs"
      by (rule usize_add_small)
    let ?b = "take (sb_wp s1) (sb_buf s1) @ bs @ drop (sb_wp s1 + length bs) (sb_buf s1)"
    let ?s = "s1\<lparr>sb_buf := ?b, sb_wp := sb_wp s1 + length bs\<rparr>"
    have "sb_put_bytes bs s = Some (Inr (), ?s)"
      using s1(1) False fit add by (simp add: sb_put_bytes_def)
    moreover have "sb_inv ?s" "sb_cap ?s = sb_cap s"
      using s1 fit by (auto simp: sb_inv_def sb_cap_def)
    moreover have "sb_abs ?s = sb_abs s1 @ bs"
      using s1(2) fit by (simp add: sb_inv_def sb_abs_def min_absorb2 drop_take)
    ultimately show ?thesis using s1 False by auto
  qed
qed

lemma sb_read_fixed_inv:
  assumes "sb_inv s"
  shows "n \<le> length (sb_abs s) \<Longrightarrow> \<exists>s'. sb_read_fixed n s = Some (Inr (take n (sb_abs s)), s') \<and>
      sb_inv s' \<and> sb_abs s' = drop n (sb_abs s) \<and> sb_cap s' = sb_cap s"
    and "length (sb_abs s) < n \<Longrightarrow> sb_read_fixed n s = Some (Inl NotEnoughBytes, s)"
proof -
  assume n: "n \<le> length (sb_abs s)"
  then have n': "sb_rp s + n \<le> sb_wp s"
    using sb_invD(2) [OF assms] length_sb_abs [OF assms] by linarith
  with sb_invD [OF assms] have add: "usize_add (sb_rp s) n = sb_rp s + n"
    by (intro usize_add_small) simp
  let ?s = "s\<lparr>sb_rp := sb_rp s + n\<rparr>"
  have "take n (drop (sb_rp s) (sb_buf s)) = take n (sb_abs s)"
    using n' by (simp add: sb_abs_def min_absorb1)
  then have "sb_read_fixed n s = Some (Inr (take n (sb_abs s)), ?s)"
    using n n' add sb_invD [OF assms] sb_len_inv [OF assms] by (simp add: sb_read_fixed_def)
  moreover have "sb_inv ?s" "sb_cap ?s = sb_cap s"
    using n' sb_invD [OF assms] by (simp_all add: sb_inv_def sb_cap_def)
  moreover have "sb_abs ?s = drop n (sb_abs s)"
    by (simp add: sb_abs_def drop_take add.commute)
  ultimately show "\<exists>s'. sb_read_fixed n s = Some (Inr (take n (sb_abs s)), s') \<and>
      sb_inv s' \<and> sb_abs s' = drop n (sb_abs s) \<and> sb_cap s' = sb_cap s"
    by blast
next
  assume "length (sb_abs s) < n"
  with sb_len_inv [OF assms] show "sb_read_fixed n s = Some (Inl NotEnoughBytes, s)"
    by (simp add: sb_read_fixed_def)
qed

interpretation sb: byte_fifo_full sb_inv sb_abs sb_cap sb_put_slice sb_read_bytes
proof (unfold_locales, goal_cases)
  case (1 s bs)
  then show ?case using sb_put_bytes_inv [of s bs] by (auto simp: sb_put_slice_def)
next
  case (2 s bs u s')
  then show ?case
    using sb_put_bytes_inv [of s bs] by (auto simp: sb_put_slice_def split: if_splits)
next
  case (3 s bs e s')
  then show ?case
    using sb_put_bytes_inv [of s bs] by (auto simp: sb_put_slice_def split: if_splits)
next
  case (4 s n)
  then show ?case using sb_read_fixed_inv(1) by (simp add: sb_read_bytes_def)
next
  case (5 s n)
  then show ?case using sb_read_fixed_inv(2) by (simp add: sb_read_bytes_def)
next
  case (6 s bs)
  then show ?case
    using sb_put_bytes_inv [of s bs] by (auto simp: sb_put_slice_def split: if_splits)
next
  case (7 s)
  then show ?case by (rule sb_abs_le_cap)
qed

section \<open>All operations together\<close>

datatype sb_cmd =
    SbReset | SbAdv nat | SbWadv nat | SbSetRp nat | SbRewindRp nat
  | SbReadU8 | SbReadBytes nat | SbPut bytes | SbWriteBuf nat | SbWritableArea nat

definition sb_forget :: "((sb_error, 'a) result \<times> SlideBuf) panics \<Rightarrow> SlideBuf panics" where
  "sb_forget = map_option snd"

fun sb_exec :: "sb_cmd \<Rightarrow> SlideBuf \<Rightarrow> SlideBuf panics" where
  "sb_exec SbReset s = Some (sb_reset s)"
| "sb_exec (SbAdv n) s = sb_forget (sb_adv n s)"
| "sb_exec (SbWadv n) s = sb_forget (sb_wadv n s)"
| "sb_exec (SbSetRp n) s = sb_forget (sb_set_rp n s)"
| "sb_exec (SbRewindRp n) s = sb_forget (sb_rewind_rp n s)"
| "sb_exec SbReadU8 s = sb_forget (sb_read_u8 s)"
| "sb_exec (SbReadBytes n) s = sb_forget (sb_read_bytes n s)"
| "sb_exec (SbPut bs) s = sb_forget (sb_put_slice bs s)"
| "sb_exec (SbWriteBuf n) s = sb_forget (sb_write_buf n s)"
| "sb_exec (SbWritableArea n) s = sb_forget (sb_available_writable_area n s)"

fun sb_exec_all :: "sb_cmd list \<Rightarrow> SlideBuf \<Rightarrow> SlideBuf panics" where
  "sb_exec_all [] s = Some s"
| "sb_exec_all (c # cs) s = do { s' \<leftarrow> sb_exec c s; sb_exec_all cs s' }"

lemma usize_add_below: "a + b \<le> length (sb_buf s) \<Longrightarrow> sb_inv s \<Longrightarrow> usize_add a b = a + b"
  using sb_invD(3) [of s] by (intro usize_add_small) simp

lemma sb_adv_exec:
  assumes "sb_inv s"
  shows "\<exists>s'. sb_forget (sb_adv n s) = Some s' \<and> sb_inv s' \<and> sb_cap s' = sb_cap s"
proof (cases "sb_len s < n")
  case True
  with assms show ?thesis by (simp add: sb_forget_def sb_adv_def)
next
  case False
  then have n: "sb_rp s + n \<le> sb_wp s"
    using length_sb_abs [OF assms] sb_len_inv [OF assms] sb_invD(2) [OF assms] by linarith
  then have "usize_add (sb_rp s) n = sb_rp s + n"
    using sb_invD(1) [OF assms] by (intro usize_add_below [OF _ assms]) linarith
  with False n sb_invD [OF assms] show ?thesis
    by (simp add: sb_forget_def sb_adv_def sb_inv_def sb_cap_def)
qed

lemma sb_read_u8_exec:
  assumes "sb_inv s"
  shows "\<exists>s'. sb_forget (sb_read_u8 s) = Some s' \<and> sb_inv s' \<and> sb_cap s' = sb_cap s"
proof (cases "sb_len s < 1")
  case True
  with assms show ?thesis by (simp add: sb_forget_def sb_read_u8_def)
next
  case False
  then have "sb_rp s < sb_wp s"
    using length_sb_abs [OF assms] sb_len_inv [OF assms] by linarith
  moreover have "usize_add (sb_rp s) 1 = sb_rp s + 1"
    using calculation sb_invD(1) [OF assms] by (intro usize_add_below [OF _ assms]) linarith
  ultimately show ?thesis
    using False sb_invD [OF assms] by (simp add: sb_forget_def sb_read_u8_def sb_inv_def sb_cap_def)
qed

lemma sb_advance_write:
  assumes "sb_inv s" "\<not> sb_wcap s < n"
  shows "usize_add (sb_wp s) n = sb_wp s + n" "sb_wp s + n \<le> length (sb_buf s)"
    "sb_inv (s\<lparr>sb_wp := sb_wp s + n\<rparr>)"
proof -
  show 1: "sb_wp s + n \<le> length (sb_buf s)"
    using assms(2) sb_wcap_inv [OF assms(1)] sb_invD(1) [OF assms(1)] by linarith
  then show "usize_add (sb_wp s) n = sb_wp s + n" by (rule usize_add_below [OF _ assms(1)])
  show "sb_inv (s\<lparr>sb_wp := sb_wp s + n\<rparr>)"
    using 1 sb_invD [OF assms(1)] by (simp add: sb_inv_def)
qed

lemma sb_wadv_exec:
  assumes "sb_inv s"
  shows "\<exists>s'. sb_forget (sb_wadv n s) = Some s' \<and> sb_inv s' \<and> sb_cap s' = sb_cap s"
proof -
  obtain s1 where s1: "(if sb_wcap s < n then sb_rewind s else Some s) = Some s1" "sb_inv s1"
    "sb_cap s1 = sb_cap s"
    using sb_rewind_inv [OF assms] assms by (cases "sb_wcap s < n") auto
  show ?thesis
    using s1 sb_advance_write [OF s1(2), of n]
    by (cases "sb_wcap s1 < n") (auto simp: sb_forget_def sb_wadv_def sb_cap_def)
qed

lemma sb_write_buf_exec:
  assumes "sb_inv s"
  shows "\<exists>s'. sb_forget (sb_write_buf n s) = Some s' \<and> sb_inv s' \<and> sb_cap s' = sb_cap s"
proof -
  obtain s1 where s1: "sb_make_space n s = Some s1" "sb_inv s1" "sb_cap s1 = sb_cap s"
    using sb_make_space_inv [OF assms] by blast
  then show ?thesis
    using sb_advance_write [OF s1(2), of n]
    by (cases "sb_wcap s1 < n") (auto simp: sb_forget_def sb_write_buf_def sb_cap_def)
qed

lemma sb_area_exec:
  assumes "sb_inv s"
  shows "\<exists>s'. sb_forget (sb_available_writable_area n s) = Some s' \<and> sb_inv s' \<and> sb_cap s' = sb_cap s"
proof -
  obtain s1 where s1: "sb_make_space n s = Some s1" "sb_inv s1" "sb_cap s1 = sb_cap s"
    using sb_make_space_inv [OF assms] by blast
  then show ?thesis
    using sb_invD(1) [OF s1(2)]
    by (cases "sb_wcap s1 < n") (auto simp: sb_forget_def sb_available_writable_area_def)
qed

lemma sb_exec_safe:
  assumes "sb_inv s"
  shows "\<exists>s'. sb_exec c s = Some s' \<and> sb_inv s' \<and> sb_cap s' = sb_cap s"
proof (cases c)
  case SbReset
  then show ?thesis
    using sb_invD [OF assms] by (simp add: sb_reset_def sb_inv_def sb_cap_def)
next
  case (SbSetRp n)
  then show ?thesis
    using sb_invD [OF assms] by (simp add: sb_forget_def sb_set_rp_def sb_inv_def sb_cap_def)
next
  case (SbRewindRp n)
  then show ?thesis
    using sb_invD [OF assms] by (auto simp: sb_forget_def sb_rewind_rp_def sb_inv_def sb_cap_def)
next
  case (SbReadBytes n)
  then show ?thesis
    using sb_read_fixed_inv [OF assms, of n] assms
    by (cases "n \<le> length (sb_abs s)") (auto simp: sb_forget_def sb_read_bytes_def not_le)
next
  case (SbPut bs)
  then show ?thesis
    using sb_put_bytes_inv [OF assms, of bs] by (auto simp: sb_forget_def sb_put_slice_def)
qed (simp_all add: assms sb_adv_exec sb_wadv_exec sb_read_u8_exec sb_write_buf_exec sb_area_exec)

lemma sb_exec_all_safe:
  "sb_inv s \<Longrightarrow> \<exists>s'. sb_exec_all cs s = Some s' \<and> sb_inv s' \<and> sb_cap s' = sb_cap s"
proof (induction cs arbitrary: s)
  case Nil
  then show ?case by simp
next
  case (Cons c cs)
  obtain s1 where "sb_exec c s = Some s1" "sb_inv s1" "sb_cap s1 = sb_cap s"
    using sb_exec_safe [OF Cons.prems] by blast
  with Cons.IH [of s1] show ?case by simp
qed

lemma sb_inv_new: "c < 2 ^ 63 \<Longrightarrow> sb_inv (sb_new c)"
  by (simp add: sb_inv_def sb_new_def)

lemma sb_new_simps [simp]: "sb_cap (sb_new c) = c" "sb_abs (sb_new c) = []"
  by (simp_all add: sb_cap_def sb_new_def sb_abs_def)

text \<open>Reserving space, filling it and advancing the write position, as the clients of the buffer do.\<close>

definition sb_fill :: "bytes \<Rightarrow> SlideBuf \<Rightarrow> SlideBuf panics" where
  "sb_fill bs s = do { b \<leftarrow> copy_from_slice (sb_buf s) (sb_wp s) bs; Some (s\<lparr>sb_buf := b\<rparr>) }"

lemma sb_adv_ok:
  assumes "sb_inv s" and "n \<le> length (sb_abs s)"
  shows "\<exists>s'. sb_adv n s = Some (Inr (), s') \<and> sb_inv s' \<and> sb_abs s' = drop n (sb_abs s) \<and> sb_cap s' = sb_cap s"
proof -
  have n: "sb_rp s + n \<le> sb_wp s" using assms sb_invD(2) [OF assms(1)] length_sb_abs [OF assms(1)] by linarith
  then have "usize_add (sb_rp s) n = sb_rp s + n" using sb_invD [OF assms(1)] by (intro usize_add_small) simp
  then have "sb_adv n s = Some (Inr (), s\<lparr>sb_rp := sb_rp s + n\<rparr>)"
    using assms sb_len_inv [OF assms(1)] by (simp add: sb_adv_def)
  moreover have "sb_inv (s\<lparr>sb_rp := sb_rp s + n\<rparr>)" using n sb_invD [OF assms(1)] by (simp add: sb_inv_def)
  moreover have "sb_abs (s\<lparr>sb_rp := sb_rp s + n\<rparr>) = drop n (sb_abs s)" by (simp add: sb_abs_def drop_take add.commute)
  ultimately show ?thesis by (simp add: sb_cap_def)
qed

lemma sb_fill_wadv:
  assumes "sb_inv s" and "length bs \<le> sb_wcap s"
  shows "\<exists>s1 s2. sb_fill bs s = Some s1 \<and> sb_wadv (length bs) s1 = Some (Inr (), s2) \<and>
    sb_inv s2 \<and> sb_abs s2 = sb_abs s @ bs \<and> sb_cap s2 = sb_cap s"
proof -
  have fit: "sb_wp s + length bs \<le> length (sb_buf s)"
    using assms sb_invD [OF assms(1)] sb_wcap_inv [OF assms(1)] by linarith
  let ?b = "take (sb_wp s) (sb_buf s) @ bs @ drop (sb_wp s + length bs) (sb_buf s)"
  let ?s = "s\<lparr>sb_buf := ?b\<rparr>"
  have l: "length ?b = length (sb_buf s)" using fit by simp
  have inv: "sb_inv ?s" using assms(1) l by (simp add: sb_inv_def del: length_append)
  have w: "sb_wcap ?s = sb_wcap s" using l by (simp add: sb_wcap_def del: length_append)
  have "sb_wp s + length bs < 2 ^ 64" using fit sb_invD(3) [OF assms(1)] by simp
  then have add: "usize_add (sb_wp s) (length bs) = sb_wp s + length bs" by (rule usize_add_small)
  have "sb_fill bs s = Some ?s" using fit by (simp add: sb_fill_def)
  moreover have "sb_wadv (length bs) ?s = Some (Inr (), ?s\<lparr>sb_wp := sb_wp s + length bs\<rparr>)"
    using assms(2) w add by (simp add: sb_wadv_def)
  moreover have "sb_inv (?s\<lparr>sb_wp := sb_wp s + length bs\<rparr>)" "sb_cap (?s\<lparr>sb_wp := sb_wp s + length bs\<rparr>) = sb_cap s"
    using inv fit l by (simp_all add: sb_inv_def sb_cap_def del: length_append)
  moreover have "sb_abs (?s\<lparr>sb_wp := sb_wp s + length bs\<rparr>) = sb_abs s @ bs"
    using assms(1) fit by (simp add: sb_inv_def sb_abs_def min_absorb2 drop_take)
  ultimately show ?thesis by blast
qed

lemma sb_area_ok:
  assumes "sb_inv s"
  shows "\<exists>r s'. sb_available_writable_area n s = Some (r, s') \<and> sb_inv s' \<and> sb_abs s' = sb_abs s \<and> sb_cap s' = sb_cap s \<and>
    (case r of Inr a \<Rightarrow> n \<le> length a \<and> length a = sb_wcap s' | Inl _ \<Rightarrow> sb_cap s < length (sb_abs s) + n)"
proof -
  obtain s1 where s1: "sb_make_space n s = Some s1" "sb_inv s1" "sb_abs s1 = sb_abs s" "sb_cap s1 = sb_cap s"
    "sb_wcap s1 < n \<longleftrightarrow> sb_cap s < length (sb_abs s) + n"
    using sb_make_space_inv [OF assms] by blast
  show ?thesis
  proof (cases "sb_wcap s1 < n")
    case True
    then show ?thesis using s1 by (simp add: sb_available_writable_area_def)
  next
    case False
    have "slice (sb_buf s1) (sb_wp s1) (length (sb_buf s1)) = Some (drop (sb_wp s1) (sb_buf s1))"
      using sb_invD(1) [OF s1(2)] by simp
    then show ?thesis
      using s1 False sb_wcap_inv [OF s1(2)] by (simp add: sb_available_writable_area_def)
  qed
qed

text \<open>A refused reservation tells the capacity and the free space.\<close>

lemma sb_area_err:
  assumes "sb_inv s" and "sb_available_writable_area n s = Some (Inl e, s')"
  shows "e = NotEnoughSpace (sb_cap s) (sb_cap s - length (sb_abs s)) n"
proof -
  obtain s1 where s1: "sb_rewind_if_needed n s = Some s1" "sb_inv s1" "sb_abs s1 = sb_abs s" "sb_cap s1 = sb_cap s"
    using sb_rewind_if_needed_inv [OF assms(1)] by blast
  obtain s2 where s2: "sb_rewind s1 = Some s2" "sb_inv s2" "sb_cap s2 = sb_cap s1" "sb_wp s2 = length (sb_abs s1)"
    using sb_rewind_inv [OF s1(2)] by blast
  show ?thesis
    using assms(2) s1 s2 sb_wcap_inv [OF s2(2)]
    by (auto simp: sb_available_writable_area_def sb_make_space_def sb_cap_def split: bind_splits if_splits)
qed

section \<open>Properties\<close>

text \<open>
  C24. \<^verbatim>\<open>SlideBuf\<close> is a bounded byte queue: on every sequence of \<^verbatim>\<open>put_slice\<close> and
  \<^verbatim>\<open>read_bytes\<close> calls it returns what the abstract queue \<open>fifo_spec\<close> returns, in particular a write
  succeeds exactly when the bytes fit into the capacity next to the bytes still buffered, wherever
  the read and write positions are, and it never panics.
\<close>

theorem slidebuf_refines_queue:
  assumes "sb_inv s"
  shows "\<exists>s'. fifo_run sb_put_slice sb_read_bytes ops s
      = Some (fst (fifo_spec (sb_cap s) ops (sb_abs s)), s') \<and>
    sb_inv s' \<and> sb_abs s' = snd (fifo_spec (sb_cap s) ops (sb_abs s)) \<and> sb_cap s' = sb_cap s"
  using assms by (rule sb.run_spec)

theorem slidebuf_refines_queue_witness:
  "\<exists>s'. fifo_run sb_put_slice sb_read_bytes
      [FPut [1, 2, 3], FGet 2, FPut [4, 5], FPut [6, 7], FGet 3] (sb_new 4)
    = Some ([RPut True, RGet (Some [1, 2]), RPut True, RPut False, RGet (Some [3, 4, 5])], s')"
  using slidebuf_refines_queue [OF sb_inv_new [of 4],
      of "[FPut [1, 2, 3], FGet 2, FPut [4, 5], FPut [6, 7], FGet 3]"]
  by (auto simp: Let_def)

text \<open>
  No operation of \<^verbatim>\<open>SlideBuf\<close> breaks the invariant \<open>rp \<le> wp \<le> capacity\<close>, changes the
  capacity or panics on a slice out of range, in any order of calls from a fresh buffer.
\<close>

theorem slidebuf_ops_safe:
  assumes "c < 2 ^ 63"
  shows "\<exists>s. sb_exec_all cs (sb_new c) = Some s \<and> sb_rp s \<le> sb_wp s \<and> sb_wp s \<le> c \<and>
    length (sb_buf s) = c"
proof -
  obtain s where s: "sb_exec_all cs (sb_new c) = Some s" "sb_inv s" "sb_cap s = sb_cap (sb_new c)"
    using sb_exec_all_safe [OF sb_inv_new [OF assms]] by blast
  then have "length (sb_buf s) = c" by (simp add: sb_cap_def [of s])
  with s sb_invD(1,2) [OF s(2)] show ?thesis by blast
qed

theorem slidebuf_ops_safe_witness:
  "\<exists>s. sb_exec_all [SbPut [7, 8], SbReadU8, SbWadv 3, SbRewindRp 9, SbAdv 1] (sb_new 4) = Some s \<and>
     sb_rp s \<le> sb_wp s"
  using slidebuf_ops_safe [of 4 "[SbPut [7, 8], SbReadU8, SbWadv 3, SbRewindRp 9, SbAdv 1]"] by auto

lemma sb_put_read_be:
  fixes w :: "'a::len word"
  assumes "sb_inv s" "sb_abs s = []" "n \<le> sb_cap s" "LENGTH('a) \<le> 8 * n"
  shows "\<exists>s1 s2. sb_put_bytes (to_be n w) s = Some (Inr (), s1) \<and>
    sb_map_res from_be (sb_read_fixed n) s1 = Some (Inr w, s2) \<and> sb_abs s2 = []"
proof -
  obtain s1 where s1: "sb_put_bytes (to_be n w) s = Some (Inr (), s1)" "sb_inv s1"
    "sb_abs s1 = to_be n w"
    using sb_put_bytes_inv [OF assms(1), of "to_be n w"] assms(2,3) by auto
  moreover obtain s2 where "sb_read_fixed n s1 = Some (Inr (to_be n w), s2)" "sb_abs s2 = []"
    using sb_read_fixed_inv(1) [OF s1(2), of n] s1(3) by auto
  ultimately show ?thesis
    using assms(4) by (auto simp: sb_map_res_def from_to_be)
qed

text \<open>
  The typed accessors round trip: a value written with \<^verbatim>\<open>put_u16_be\<close>, \<^verbatim>\<open>put_u32_be\<close> or
  \<^verbatim>\<open>put_u64_be\<close> into a drained buffer is what the matching read returns, and nothing is left over.
\<close>

theorem slidebuf_typed_roundtrip:
  assumes "sb_inv s" and "sb_abs s = []" and "8 \<le> sb_cap s"
  shows "(\<exists>s1 s2. sb_put_u16_be a s = Some (Inr (), s1) \<and> sb_read_u16_be s1 = Some (Inr a, s2) \<and>
      sb_abs s2 = []) \<and>
    (\<exists>s1 s2. sb_put_u32_be b s = Some (Inr (), s1) \<and> sb_read_u32_be s1 = Some (Inr b, s2) \<and>
      sb_abs s2 = []) \<and>
    (\<exists>s1 s2. sb_put_u64_be c s = Some (Inr (), s1) \<and> sb_read_u64_be s1 = Some (Inr c, s2) \<and>
      sb_abs s2 = [])"
  using sb_put_read_be [OF assms(1,2), of 2 a] sb_put_read_be [OF assms(1,2), of 4 b]
    sb_put_read_be [OF assms(1,2), of 8 c] assms(3)
  by (simp add: sb_put_u16_be_def sb_read_u16_be_def sb_put_u32_be_def sb_read_u32_be_def
      sb_put_u64_be_def sb_read_u64_be_def)

theorem slidebuf_typed_roundtrip_witness:
  "\<exists>s1 s2. sb_put_u32_be 3735928559 (sb_new 16) = Some (Inr (), s1) \<and>
     sb_read_u32_be s1 = Some (Inr 3735928559, s2)"
proof -
  have "sb_inv (sb_new 16)" by (simp add: sb_inv_new)
  then show ?thesis
    using slidebuf_typed_roundtrip [of "sb_new 16" 0 3735928559 0] by simp blast
qed

end
