(* ===== verification/NetBuf.thy ===== *)
theory NetBuf
  imports ByteFifo
begin

text \<open>
  \<^verbatim>\<open>daqbuf-netfetch/src/netbuf.rs\<close>: the buffer of the ingest connections. It has the layout of
  \<^verbatim>\<open>SlideBuf\<close> but compacts only when \<^verbatim>\<open>cap - rp < need_min\<close>, and never before \<^verbatim>\<open>wadv\<close>. Lemmas:
  it is a byte queue (interpretation of \<open>byte_fifo\<close>), and a write can be refused although the
  bytes fit, so it is not an interpretation of \<open>byte_fifo_full\<close>.
\<close>

datatype nb_error = AdvanceOver nat nat | WriteAdvanceOver nat nat | SliceErr

record NetBuf =
  nb_buf :: bytes
  nb_wp :: nat
  nb_rp :: nat

type_synonym 'a nb_op = "NetBuf \<Rightarrow> ((nb_error, 'a) result \<times> NetBuf) panics"

definition nb_new :: "nat \<Rightarrow> NetBuf" where
  "nb_new c = \<lparr>nb_buf = replicate c 0, nb_wp = 0, nb_rp = 0\<rparr>"

definition nb_state :: "NetBuf \<Rightarrow> nat \<times> nat" where
  "nb_state s = (nb_rp s, nb_wp s)"

definition nb_len :: "NetBuf \<Rightarrow> nat" where
  "nb_len s = usize_sub (nb_wp s) (nb_rp s)"

definition nb_cap :: "NetBuf \<Rightarrow> nat" where
  "nb_cap s = length (nb_buf s)"

definition nb_wcap :: "NetBuf \<Rightarrow> nat" where
  "nb_wcap s = usize_sub (length (nb_buf s)) (nb_wp s)"

definition nb_data :: "NetBuf \<Rightarrow> bytes panics" where
  "nb_data s = slice (nb_buf s) (nb_rp s) (nb_wp s)"

definition nb_adv :: "nat \<Rightarrow> unit nb_op" where
  "nb_adv x s =
     Some (if nb_len s < x then (Inl (AdvanceOver x (nb_len s)), s)
           else (Inr (), s\<lparr>nb_rp := usize_add (nb_rp s) x\<rparr>))"

definition nb_wadv :: "nat \<Rightarrow> unit nb_op" where
  "nb_wadv x s =
     Some (if nb_wcap s < x then (Inl (WriteAdvanceOver x (nb_wcap s)), s)
           else (Inr (), s\<lparr>nb_wp := usize_add (nb_wp s) x\<rparr>))"

definition nb_read_u8 :: "u8 nb_op" where
  "nb_read_u8 s =
     (if nb_len s < 1 then Some (Inl (AdvanceOver 1 (nb_len s)), s)
      else do { v \<leftarrow> index (nb_buf s) (nb_rp s);
                Some (Inr v, s\<lparr>nb_rp := usize_add (nb_rp s) 1\<rparr>) })"

definition nb_read_bytes :: "nat \<Rightarrow> bytes nb_op" where
  "nb_read_bytes n s =
     (if nb_len s < n then Some (Inl (AdvanceOver n (nb_len s)), s)
      else do { v \<leftarrow> slice (nb_buf s) (nb_rp s) (usize_add (nb_rp s) n);
                Some (Inr v, s\<lparr>nb_rp := usize_add (nb_rp s) n\<rparr>) })"

definition nb_map_res :: "('a \<Rightarrow> 'b) \<Rightarrow> 'a nb_op \<Rightarrow> 'b nb_op" where
  "nb_map_res f m s = map_option (map_prod (map_sum id f) id) (m s)"

definition nb_read_u16_be :: "u16 nb_op" where
  "nb_read_u16_be = nb_map_res from_be (nb_read_bytes 2)"

definition nb_read_u32_be :: "u32 nb_op" where
  "nb_read_u32_be = nb_map_res from_be (nb_read_bytes 4)"

definition nb_read_u64 :: "u64 nb_op" where
  "nb_read_u64 = nb_map_res from_be (nb_read_bytes 8)"

definition nb_rewind_if_needed :: "nat \<Rightarrow> NetBuf \<Rightarrow> NetBuf panics" where
  "nb_rewind_if_needed need_min s =
     (if nb_rp s \<noteq> 0 \<and> nb_rp s = nb_wp s then Some (s\<lparr>nb_rp := 0, nb_wp := 0\<rparr>)
      else if usize_sub (nb_cap s) (nb_rp s) < need_min then
        do { b \<leftarrow> copy_within0 (nb_buf s) (nb_rp s) (nb_wp s);
             Some (s\<lparr>nb_buf := b, nb_wp := usize_sub (nb_wp s) (nb_rp s), nb_rp := 0\<rparr>) }
      else Some s)"

text \<open>\<^verbatim>\<open>read_buf_for_fill\<close> hands out the area behind the write position for the socket to fill.\<close>

definition nb_read_buf_for_fill :: "nat \<Rightarrow> NetBuf \<Rightarrow> (bytes \<times> NetBuf) panics" where
  "nb_read_buf_for_fill need_min s0 =
     do { s \<leftarrow> nb_rewind_if_needed need_min s0;
          r \<leftarrow> slice (nb_buf s) (nb_wp s) (length (nb_buf s));
          Some (r, s) }"

definition nb_write_buf :: "nat \<Rightarrow> bytes nb_op" where
  "nb_write_buf n s0 =
     do { s \<leftarrow> nb_rewind_if_needed n s0;
          if nb_wcap s < n then Some (Inl (WriteAdvanceOver n (nb_wcap s)), s)
          else do { r \<leftarrow> slice (nb_buf s) (nb_wp s) (usize_add (nb_wp s) n);
                    Some (Inr r, s\<lparr>nb_wp := usize_add (nb_wp s) n\<rparr>) } }"

definition nb_put_slice :: "bytes \<Rightarrow> unit nb_op" where
  "nb_put_slice bs s0 =
     do { s \<leftarrow> nb_rewind_if_needed (length bs) s0;
          if nb_wcap s < length bs then Some (Inl (WriteAdvanceOver (length bs) (nb_wcap s)), s)
          else do { b \<leftarrow> copy_from_slice (nb_buf s) (nb_wp s) bs;
                    Some (Inr (), s\<lparr>nb_buf := b, nb_wp := usize_add (nb_wp s) (length bs)\<rparr>) } }"

definition nb_put_u8 :: "u8 \<Rightarrow> unit nb_op" where
  "nb_put_u8 v = nb_put_slice (to_be 1 v)"

definition nb_put_u64 :: "u64 \<Rightarrow> unit nb_op" where
  "nb_put_u64 v = nb_put_slice (to_be 8 v)"

section \<open>Invariant\<close>

definition nb_inv :: "NetBuf \<Rightarrow> bool" where
  "nb_inv s \<longleftrightarrow> nb_wp s \<le> length (nb_buf s) \<and> nb_rp s \<le> nb_wp s \<and> length (nb_buf s) < 2 ^ 63"

definition nb_abs :: "NetBuf \<Rightarrow> bytes" where
  "nb_abs s = take (nb_wp s - nb_rp s) (drop (nb_rp s) (nb_buf s))"

lemma nb_invD:
  assumes "nb_inv s"
  shows "nb_wp s \<le> length (nb_buf s)" "nb_rp s \<le> nb_wp s" "length (nb_buf s) < 2 ^ 63"
  using assms by (simp_all add: nb_inv_def)

lemma length_nb_abs: "nb_inv s \<Longrightarrow> length (nb_abs s) = nb_wp s - nb_rp s"
  by (frule nb_invD(1)) (simp add: nb_abs_def min_def, linarith)

lemma nb_len_inv: "nb_inv s \<Longrightarrow> nb_len s = length (nb_abs s)"
  by (simp add: length_nb_abs nb_invD(2) nb_len_def)

lemma nb_wcap_inv: "nb_inv s \<Longrightarrow> nb_wcap s = length (nb_buf s) - nb_wp s"
  by (simp add: nb_inv_def nb_wcap_def)

lemma nb_rewind_if_needed_inv:
  assumes "nb_inv s"
  shows "\<exists>s'. nb_rewind_if_needed n s = Some s' \<and> nb_inv s' \<and> nb_abs s' = nb_abs s \<and>
    nb_cap s' = nb_cap s"
proof (cases "nb_rp s \<noteq> 0 \<and> nb_rp s = nb_wp s")
  case True
  with assms show ?thesis by (simp add: nb_rewind_if_needed_def nb_inv_def nb_abs_def nb_cap_def)
next
  case False
  with assms show ?thesis
    by (cases "usize_sub (nb_cap s) (nb_rp s) < n")
      (auto simp: nb_rewind_if_needed_def nb_inv_def nb_abs_def nb_cap_def min_absorb1)
qed

lemma nb_put_slice_inv:
  assumes "nb_inv s"
  shows "\<exists>r s'. nb_put_slice bs s = Some (r, s') \<and> nb_inv s' \<and> nb_cap s' = nb_cap s \<and>
    (if r = Inr () then nb_abs s' = nb_abs s @ bs else nb_abs s' = nb_abs s)"
proof -
  obtain s1 where s1: "nb_rewind_if_needed (length bs) s = Some s1" "nb_inv s1"
    "nb_abs s1 = nb_abs s" "nb_cap s1 = nb_cap s"
    using nb_rewind_if_needed_inv [OF assms] by blast
  show ?thesis
  proof (cases "nb_wcap s1 < length bs")
    case True
    with s1 show ?thesis by (simp add: nb_put_slice_def)
  next
    case False
    then have fit: "nb_wp s1 + length bs \<le> length (nb_buf s1)"
      using nb_invD [OF s1(2)] nb_wcap_inv [OF s1(2)] by linarith
    with nb_invD(3) [OF s1(2)] have add: "usize_add (nb_wp s1) (length bs) = nb_wp s1 + length bs"
      by (intro usize_add_small) simp
    let ?b = "take (nb_wp s1) (nb_buf s1) @ bs @ drop (nb_wp s1 + length bs) (nb_buf s1)"
    let ?s = "s1\<lparr>nb_buf := ?b, nb_wp := nb_wp s1 + length bs\<rparr>"
    have "nb_put_slice bs s = Some (Inr (), ?s)"
      using s1(1) False fit add by (simp add: nb_put_slice_def)
    moreover have "nb_inv ?s" "nb_cap ?s = nb_cap s"
      using s1 fit by (auto simp: nb_inv_def nb_cap_def)
    moreover have "nb_abs ?s = nb_abs s1 @ bs"
      using s1(2) fit by (simp add: nb_inv_def nb_abs_def min_absorb2 drop_take)
    ultimately show ?thesis using s1 by auto
  qed
qed

lemma nb_read_bytes_inv:
  assumes "nb_inv s" "n \<le> length (nb_abs s)"
  shows "\<exists>s'. nb_read_bytes n s = Some (Inr (take n (nb_abs s)), s') \<and>
      nb_inv s' \<and> nb_abs s' = drop n (nb_abs s) \<and> nb_cap s' = nb_cap s"
proof -
  have n': "nb_rp s + n \<le> nb_wp s"
    using nb_invD(2) [OF assms(1)] length_nb_abs [OF assms(1)] assms(2) by linarith
  with nb_invD [OF assms(1)] have add: "usize_add (nb_rp s) n = nb_rp s + n"
    by (intro usize_add_small) simp
  let ?s = "s\<lparr>nb_rp := nb_rp s + n\<rparr>"
  have "take n (drop (nb_rp s) (nb_buf s)) = take n (nb_abs s)"
    using n' by (simp add: nb_abs_def min_absorb1)
  then have "nb_read_bytes n s = Some (Inr (take n (nb_abs s)), ?s)"
    using assms(2) n' add nb_invD [OF assms(1)] nb_len_inv [OF assms(1)]
    by (simp add: nb_read_bytes_def)
  moreover have "nb_inv ?s" "nb_cap ?s = nb_cap s"
    using n' nb_invD [OF assms(1)] by (simp_all add: nb_inv_def nb_cap_def)
  moreover have "nb_abs ?s = drop n (nb_abs s)"
    by (simp add: nb_abs_def drop_take add.commute)
  ultimately show ?thesis by blast
qed

interpretation nb: byte_fifo nb_inv nb_abs nb_cap nb_put_slice nb_read_bytes
proof (unfold_locales, goal_cases)
  case (1 s bs)
  then show ?case using nb_put_slice_inv [of s bs] by auto
next
  case (2 s bs u s')
  then show ?case using nb_put_slice_inv [of s bs] by auto
next
  case (3 s bs e s')
  then show ?case using nb_put_slice_inv [of s bs] by auto
next
  case (4 s n)
  then show ?case by (rule nb_read_bytes_inv)
next
  case (5 s n)
  then show ?case using nb_len_inv [of s] by (simp add: nb_read_bytes_def)
qed

lemma nb_inv_new: "c < 2 ^ 63 \<Longrightarrow> nb_inv (nb_new c)"
  by (simp add: nb_inv_def nb_new_def)

section \<open>Properties\<close>

text \<open>
  C25. \<^verbatim>\<open>NetBuf\<close> delivers exactly the bytes it accepted, in order, whatever sequence of
  \<^verbatim>\<open>put_slice\<close> and \<^verbatim>\<open>read_bytes\<close> calls is made from a fresh buffer; nothing panics, and what was
  accepted and not yet delivered is still buffered.
\<close>

theorem netbuf_fifo_order:
  assumes "c < 2 ^ 63"
  shows "\<exists>rs s'. fifo_run nb_put_slice nb_read_bytes ops (nb_new c) = Some (rs, s') \<and>
    accepted ops rs = delivered rs @ nb_abs s'"
proof -
  have "nb_abs (nb_new c) = []" by (simp add: nb_abs_def nb_new_def)
  then show ?thesis by (rule nb.run_order [OF nb_inv_new [OF assms]])
qed

theorem netbuf_fifo_order_witness:
  "\<exists>rs s'. fifo_run nb_put_slice nb_read_bytes [FPut [1, 2, 3], FGet 1, FPut [4]] (nb_new 4)
      = Some (rs, s') \<and> accepted [FPut [1, 2, 3], FGet 1, FPut [4]] rs = delivered rs @ nb_abs s'"
  using netbuf_fifo_order [of 4 "[FPut [1, 2, 3], FGet 1, FPut [4]]"] by simp

text \<open>
  \<^verbatim>\<open>NetBuf::put_slice\<close> refuses bytes that would fit: \<^verbatim>\<open>rewind_if_needed\<close> compares the request
  with the room behind the read position instead of the room behind the write position, so with
  unread bytes in the buffer it does not compact. For every request that is larger than the room
  behind the write position and not larger than the room behind the read position the write fails
  and nothing changes.
\<close>

theorem netbuf_spurious_refusal:
  assumes "nb_inv s" and "nb_rp s < nb_wp s"
    and "nb_cap s - nb_wp s < length bs" and "length bs \<le> nb_cap s - nb_rp s"
  shows "nb_put_slice bs s = Some (Inl (WriteAdvanceOver (length bs) (nb_cap s - nb_wp s)), s)"
  using assms nb_invD [OF assms(1)]
  by (simp add: nb_put_slice_def nb_rewind_if_needed_def nb_cap_def nb_wcap_inv)

theorem netbuf_spurious_refusal_witness:
  "\<exists>s. nb_inv s \<and> length (nb_abs s) + 6 \<le> nb_cap s \<and>
     nb_put_slice [1, 2, 3, 4, 5, 6] s = Some (Inl (WriteAdvanceOver 6 4), s)"
proof -
  let ?s = "\<lparr>nb_buf = replicate 16 0, nb_wp = 12, nb_rp = 4\<rparr>"
  have "nb_inv ?s" by (simp add: nb_inv_def)
  moreover have "length (nb_abs ?s) + 6 \<le> nb_cap ?s" by (simp add: nb_abs_def nb_cap_def)
  moreover have "nb_put_slice [1, 2, 3, 4, 5, 6] ?s = Some (Inl (WriteAdvanceOver 6 4), ?s)"
    using netbuf_spurious_refusal [of ?s "[1, 2, 3, 4, 5, 6]"] calculation(1)
    by (simp add: nb_cap_def)
  ultimately show ?thesis by blast
qed

end
