(* ===== verification/Msp.thy ===== *)
theory Msp
  imports TimeTypes
begin

text \<open>
  \<^verbatim>\<open>daqbuf-series/src/msp.rs\<close>: the partitioning of pre-binned data. A bin is addressed by the
  number of its patch (\<^verbatim>\<open>MspU32\<close>) and its number within the patch (\<^verbatim>\<open>LspU32\<close>). Lemmas: the
  split of a timestamp and the way back, the successor \<^verbatim>\<open>lsp_inc\<close> as the next bin in time, and
  the codes of a partitioning (interpretations of \<open>codec\<close>).
\<close>

type_synonym MspU32 = u32
type_synonym LspU32 = u32
type_synonym BinlenU32 = u32

datatype msp_error =
  PrebinnedPartitioningInvalid | BadDv1 u32 | BadPbp u32 | BadBinLen DtMs

text \<open>\<^verbatim>\<open>to_db_i32\<close> and \<^verbatim>\<open>from_db_i32\<close> of the three newtypes: the same bits read as signed.\<close>

definition to_db_i32 :: "u32 \<Rightarrow> int" where
  "to_db_i32 m = sint m"

definition from_db_i32 :: "int \<Rightarrow> u32" where
  "from_db_i32 x = word_of_int x"

datatype PrebinnedPartitioning = Sec1 | Sec10 | Min1 | Min10 | Hour1 | Day1

definition from_dv1_abs :: "u32 \<Rightarrow> (msp_error, PrebinnedPartitioning) result" where
  "from_dv1_abs dv1 =
     (if dv1 = 0x104 then Inr Sec1 else if dv1 = 0xa04 then Inr Sec10
      else if dv1 = 0x105 then Inr Min1 else if dv1 = 0xa05 then Inr Min10
      else if dv1 = 0x106 then Inr Hour1 else if dv1 = 0x107 then Inr Day1
      else Inl (BadDv1 dv1))"

definition from_binlen :: "DtMs \<Rightarrow> (msp_error, PrebinnedPartitioning) result" where
  "from_binlen binlen =
     (let ret = (if binlen = 1000 * 1 then Some Sec1
                 else if binlen = 1000 * 10 then Some Sec10
                 else if binlen = 1000 * 60 * 1 then Some Min1
                 else if binlen = 1000 * 60 * 10 then Some Min10
                 else if binlen = 1000 * 60 * 60 * 1 then Some Hour1
                 else if binlen = 1000 * 60 * 60 * 24 then Some Day1
                 else None)
      in case ret of Some p \<Rightarrow> Inr p | None \<Rightarrow> Inl (BadBinLen binlen))"

fun bin_len :: "PrebinnedPartitioning \<Rightarrow> DtMs" where
  "bin_len Sec1 = 1000 * 1"
| "bin_len Sec10 = 1000 * 10"
| "bin_len Min1 = 1000 * 60 * 1"
| "bin_len Min10 = 1000 * 60 * 10"
| "bin_len Hour1 = 1000 * 60 * 60 * 1"
| "bin_len Day1 = 1000 * 60 * 60 * 24"

unbundle bit_operations_syntax

fun bin_len_dv1_abs :: "PrebinnedPartitioning \<Rightarrow> u32" where
  "bin_len_dv1_abs Sec1 = 0x100 OR 0x04"
| "bin_len_dv1_abs Sec10 = 0xa00 OR 0x04"
| "bin_len_dv1_abs Min1 = 0x100 OR 0x05"
| "bin_len_dv1_abs Min10 = 0xa00 OR 0x05"
| "bin_len_dv1_abs Hour1 = 0x100 OR 0x06"
| "bin_len_dv1_abs Day1 = 0x100 OR 0x07"

fun patch_len :: "PrebinnedPartitioning \<Rightarrow> u32" where
  "patch_len Sec1 = 1200"
| "patch_len Sec10 = 720"
| "patch_len Min1 = 720"
| "patch_len Min10 = 1008"
| "patch_len Hour1 = 960"
| "patch_len Day1 = 800"

definition patch_dt :: "PrebinnedPartitioning \<Rightarrow> DtMs" where
  "patch_dt p = DtMs_mul (bin_len p) (ucast (patch_len p))"

definition msp_lsp :: "PrebinnedPartitioning \<Rightarrow> TsMs \<Rightarrow> (MspU32 \<times> LspU32) panics" where
  "msp_lsp p val =
     do { let div1ms = patch_dt p;
          let div2ms = bin_len p;
          qu1 \<leftarrow> u64_div val div1ms;
          let re1 = val mod div1ms;
          qu2 \<leftarrow> u64_div re1 div2ms;
          Some (ucast qu1, ucast qu2) }"

fun uses_index_min10 :: "PrebinnedPartitioning \<Rightarrow> bool" where
  "uses_index_min10 Sec1 = True"
| "uses_index_min10 Sec10 = True"
| "uses_index_min10 Min1 = True"
| "uses_index_min10 Min10 = False"
| "uses_index_min10 Hour1 = False"
| "uses_index_min10 Day1 = False"

fun db_ix :: "PrebinnedPartitioning \<Rightarrow> u32" where
  "db_ix Sec1 = 1"
| "db_ix Sec10 = 2"
| "db_ix Min1 = 3"
| "db_ix Min10 = 4"
| "db_ix Hour1 = 5"
| "db_ix Day1 = 6"

definition from_db_ix :: "u32 \<Rightarrow> (msp_error, PrebinnedPartitioning) result" where
  "from_db_ix x =
     (if x = 1 then Inr Sec1 else if x = 2 then Inr Sec10 else if x = 3 then Inr Min1
      else if x = 4 then Inr Min10 else if x = 5 then Inr Hour1 else if x = 6 then Inr Day1
      else Inl (BadPbp x))"

definition msp_lsp_to_ts :: "PrebinnedPartitioning \<Rightarrow> MspU32 \<Rightarrow> LspU32 \<Rightarrow> TsMs" where
  "msp_lsp_to_ts p msp lsp =
     (let n = ucast (patch_len p) * ucast msp + ucast lsp in DtMs_mul (bin_len p) n)"

definition lsp_inc :: "PrebinnedPartitioning \<Rightarrow> MspU32 \<times> LspU32 \<Rightarrow> MspU32 \<times> LspU32" where
  "lsp_inc p ml =
     (case ml of (m2, l) \<Rightarrow>
       let l2 = l + 1 in
       if l2 \<ge> patch_len p then (m2 + 1, 0) else (m2, l2))"

definition pbp_from_str :: "string \<Rightarrow> (msp_error, PrebinnedPartitioning) result" where
  "pbp_from_str s =
     (if s = ''Sec1'' then Inr Sec1 else if s = ''Sec10'' then Inr Sec10
      else if s = ''Min1'' then Inr Min1 else if s = ''Min10'' then Inr Min10
      else if s = ''Hour1'' then Inr Hour1 else if s = ''Day1'' then Inr Day1
      else Inl PrebinnedPartitioningInvalid)"

fun pbp_to_str :: "PrebinnedPartitioning \<Rightarrow> string" where
  "pbp_to_str Sec1 = ''Sec1''"
| "pbp_to_str Sec10 = ''Sec10''"
| "pbp_to_str Min1 = ''Min1''"
| "pbp_to_str Min10 = ''Min10''"
| "pbp_to_str Hour1 = ''Hour1''"
| "pbp_to_str Day1 = ''Day1''"

definition pbp_try_from :: "DtMs \<Rightarrow> (msp_error, PrebinnedPartitioning) result" where
  "pbp_try_from v =
     (if v = 1000 then Inr Sec1 else if v = 1000 * 10 then Inr Sec10
      else if v = 1000 * 60 then Inr Min1 else if v = 1000 * 60 * 10 then Inr Min10
      else if v = 1000 * 60 * 60 then Inr Hour1 else if v = 1000 * 60 * 60 * 24 then Inr Day1
      else Inl PrebinnedPartitioningInvalid)"

section \<open>Codes\<close>

interpretation pbp_dv1: codec bin_len_dv1_abs from_dv1_abs
proof
  show "from_dv1_abs (bin_len_dv1_abs x) = Inr x" for x
    by (cases x) (simp_all add: from_dv1_abs_def)
  show "from_dv1_abs y = Inr x \<Longrightarrow> bin_len_dv1_abs x = y" for x y
    by (auto simp: from_dv1_abs_def split: if_splits)
qed

interpretation pbp_ix: codec db_ix from_db_ix
proof
  show "from_db_ix (db_ix x) = Inr x" for x
    by (cases x) (simp_all add: from_db_ix_def)
  show "from_db_ix y = Inr x \<Longrightarrow> db_ix x = y" for x y
    by (auto simp: from_db_ix_def split: if_splits)
qed

interpretation pbp_str: codec pbp_to_str pbp_from_str
proof
  show "pbp_from_str (pbp_to_str x) = Inr x" for x
    by (cases x) (simp_all add: pbp_from_str_def)
  show "pbp_from_str y = Inr x \<Longrightarrow> pbp_to_str x = y" for x y
    by (auto simp: pbp_from_str_def split: if_splits)
qed

interpretation pbp_binlen: codec bin_len from_binlen
proof
  show "from_binlen (bin_len x) = Inr x" for x
    by (cases x) (simp_all add: from_binlen_def)
  show "from_binlen y = Inr x \<Longrightarrow> bin_len x = y" for x y
    by (auto simp: from_binlen_def split: if_splits)
qed

interpretation pbp_try: codec bin_len pbp_try_from
proof
  show "pbp_try_from (bin_len x) = Inr x" for x
    by (cases x) (simp_all add: pbp_try_from_def)
  show "pbp_try_from y = Inr x \<Longrightarrow> bin_len x = y" for x y
    by (auto simp: pbp_try_from_def split: if_splits)
qed

lemma db_i32_roundtrip: "from_db_i32 (to_db_i32 m) = m"
  by (simp add: to_db_i32_def from_db_i32_def)

section \<open>Bin numbers\<close>

text \<open>The bin length in milliseconds, the bins per patch, and the number of a bin since the epoch.\<close>

abbreviation blen :: "PrebinnedPartitioning \<Rightarrow> nat" where
  "blen p \<equiv> unat (bin_len p)"

abbreviation plen :: "PrebinnedPartitioning \<Rightarrow> nat" where
  "plen p \<equiv> unat (patch_len p)"

definition bin_no :: "PrebinnedPartitioning \<Rightarrow> MspU32 \<Rightarrow> LspU32 \<Rightarrow> nat" where
  "bin_no p m l = plen p * unat m + unat l"

lemma blen_pos [simp]: "0 < blen p" "bin_len p \<noteq> 0"
  by (cases p; simp)+

lemma plen_pos [simp]: "0 < plen p" "patch_len p \<noteq> 0"
  by (cases p; simp)+

lemma plen_le: "plen p \<le> 1200"
  by (cases p) simp_all

lemma unat_patch_dt: "unat (patch_dt p) = blen p * plen p"
  by (cases p) (simp_all add: patch_dt_def DtMs_mul_def)

lemma patch_dt_nonzero [simp]: "patch_dt p \<noteq> 0"
proof -
  have "0 < unat (patch_dt p)" by (simp add: unat_patch_dt)
  then show ?thesis by (simp add: unat_gt_0)
qed

lemma unat_ucast_u64_u32: "unat (ucast (a :: u64) :: u32) = unat a mod 2 ^ 32"
  by (simp add: unsigned_ucast_eq take_bit_eq_mod)

lemma msp_lsp_numbers:
  obtains m l where "msp_lsp p v = Some (m, l)"
    "unat m = unat v div blen p div plen p mod 2 ^ 32"
    "unat l = unat v div blen p mod plen p"
proof
  let ?m = "ucast (v div patch_dt p) :: u32"
  let ?l = "ucast (v mod patch_dt p div bin_len p) :: u32"
  show "msp_lsp p v = Some (?m, ?l)"
    by (simp add: msp_lsp_def Let_def)
  show "unat ?m = unat v div blen p div plen p mod 2 ^ 32"
    by (simp only: unat_ucast_u64_u32 unat_div_u64 unat_patch_dt div_mult2_eq)
  have "unat (v mod patch_dt p div bin_len p) = unat v div blen p mod plen p"
    by (simp only: unat_div_u64 unat_mod_u64 unat_patch_dt mod_mult2_eq) simp
  moreover have "unat v div blen p mod plen p < 2 ^ 32"
    using less_le_trans [OF mod_less_divisor [OF plen_pos(1)] plen_le, of "unat v div blen p" p]
    by simp
  ultimately show "unat ?l = unat v div blen p mod plen p"
    by (simp add: unat_ucast_u64_u32)
qed

lemma unat_msp_lsp_to_ts:
  assumes "blen p * bin_no p m l < 2 ^ 64"
  shows "unat (msp_lsp_to_ts p m l) = blen p * bin_no p m l"
proof -
  have mb: "unat m < 4294967296" and lb: "unat l < 4294967296" by simp_all
  have "plen p * unat m \<le> 1200 * 4294967296"
    using plen_le [of p] less_imp_le [OF mb] by (intro mult_le_mono)
  then have "unat (ucast (patch_len p) * ucast m :: u64) = plen p * unat m"
    by (subst unat_mult_u64) (simp_all add: unat_ucast_u32)
  moreover have "plen p * unat m + unat l < 2 ^ 64"
    using lb \<open>plen p * unat m \<le> 1200 * 4294967296\<close> by (simp del: unat_u32_lt)
  ultimately have "unat (ucast (patch_len p) * ucast m + ucast l :: u64) = bin_no p m l"
    by (subst unat_add_u64) (simp_all add: unat_ucast_u32 bin_no_def)
  with assms show ?thesis
    by (simp add: msp_lsp_to_ts_def Let_def DtMs_mul_def unat_mult_u64)
qed

lemma bin_no_divmod:
  assumes "unat l < plen p"
  shows "bin_no p m l div plen p = unat m" "bin_no p m l mod plen p = unat l"
  using assms by (simp_all add: bin_no_def)

lemma lsp_inc_bin_no:
  assumes "unat l < plen p" and "unat m < 2 ^ 32 - 1"
  shows "case lsp_inc p (m, l) of (m', l') \<Rightarrow>
    unat l' < plen p \<and> bin_no p m' l' = bin_no p m l + 1 \<and> unat m' \<le> unat m + 1"
proof -
  have l1: "unat (l + 1) = unat l + 1"
    using assms(1) plen_le [of p] unat_add_lem [of l 1] by simp
  have m1: "unat (m + 1) = unat m + 1"
    using assms(2) unat_add_lem [of m 1] by simp
  show ?thesis
  proof (cases "patch_len p \<le> l + 1")
    case True
    then have "plen p \<le> unat l + 1"
      using l1 by (simp add: word_le_nat_alt)
    with assms(1) have "unat l + 1 = plen p" by simp
    then show ?thesis
      using True m1 by (simp add: lsp_inc_def bin_no_def algebra_simps)
  next
    case False
    then have "unat l + 1 < plen p"
      using l1 by (simp add: word_le_nat_alt not_le)
    then show ?thesis
      using False l1 by (simp add: lsp_inc_def bin_no_def)
  qed
qed

text \<open>The successors of a bin number the bins one by one as long as the patch number fits.\<close>

lemma lsp_inc_iterate:
  assumes "unat l < plen p" and "unat m + n < 2 ^ 32"
  shows "case (lsp_inc p ^^ n) (m, l) of (m', l') \<Rightarrow>
    unat l' < plen p \<and> bin_no p m' l' = bin_no p m l + n \<and> unat m' \<le> unat m + n"
  using assms(2)
proof (induction n)
  case 0
  then show ?case using assms(1) by simp
next
  case (Suc n)
  obtain m1 l1 where ml: "(lsp_inc p ^^ n) (m, l) = (m1, l1)" by fastforce
  with Suc have IH: "unat l1 < plen p" "bin_no p m1 l1 = bin_no p m l + n" "unat m1 \<le> unat m + n"
    by simp_all
  have "unat m1 < 2 ^ 32 - 1" using IH(3) Suc.prems by simp
  from lsp_inc_bin_no [OF IH(1) this] IH(2,3) ml show ?case by auto
qed

section \<open>Properties\<close>

text \<open>
  Splitting a timestamp and going back rounds it down to the bin edge: \<^verbatim>\<open>msp_lsp\<close> does not
  panic, the \<^verbatim>\<open>lsp\<close> is inside the patch, and \<^verbatim>\<open>msp_lsp_to_ts\<close> of the pair is the largest
  multiple of the bin length that is not after the timestamp. The hypothesis says that the patch
  number fits into the 32 bits it is stored in.
\<close>

theorem msp_lsp_floor:
  assumes "unat v div unat (patch_dt p) < 2 ^ 32"
  shows "\<exists>m l. msp_lsp p v = Some (m, l) \<and> l < patch_len p \<and>
    unat (msp_lsp_to_ts p m l) = unat v div unat (bin_len p) * unat (bin_len p)"
proof -
  obtain m l where ml: "msp_lsp p v = Some (m, l)"
    "unat m = unat v div blen p div plen p mod 2 ^ 32"
    "unat l = unat v div blen p mod plen p"
    by (rule msp_lsp_numbers)
  have "unat m = unat v div blen p div plen p"
    using assms ml(2) by (simp add: unat_patch_dt div_mult2_eq)
  then have no: "bin_no p m l = unat v div blen p"
    by (simp add: bin_no_def ml(3))
  have "blen p * bin_no p m l \<le> unat v"
    by (simp add: no)
  then have "blen p * bin_no p m l < 2 ^ 64"
    using unat_u64_lt [of v] by (simp del: unat_u64_lt)
  with no have "unat (msp_lsp_to_ts p m l) = unat v div blen p * blen p"
    by (simp add: unat_msp_lsp_to_ts mult.commute)
  moreover have "l < patch_len p"
    using ml(3) by (simp add: word_less_nat_alt)
  ultimately show ?thesis using ml(1) by blast
qed

theorem msp_lsp_floor_witness:
  "\<exists>m l. msp_lsp Min10 1700000123456 = Some (m, l) \<and> l < patch_len Min10 \<and>
     unat (msp_lsp_to_ts Min10 m l) = 1700000123456 div 600000 * 600000"
  using msp_lsp_floor [of 1700000123456 Min10] by (simp add: unat_patch_dt)

text \<open>
  C32. A bin address survives the way through its timestamp, and timestamps order the bins: for
  addresses inside their patch whose edge fits into 64 bits, \<^verbatim>\<open>msp_lsp\<close> inverts
  \<^verbatim>\<open>msp_lsp_to_ts\<close>, and the edge of the successor \<^verbatim>\<open>lsp_inc\<close>, taken any number of times, is that
  number of bin lengths later.
\<close>

theorem msp_lsp_roundtrip_and_succ:
  assumes "l < patch_len p" and "unat m + n < 2 ^ 32"
    and "unat (bin_len p) * (bin_no p m l + n) < 2 ^ 64"
  shows "msp_lsp p (msp_lsp_to_ts p m l) = Some (m, l) \<and>
    (case (lsp_inc p ^^ n) (m, l) of (m', l') \<Rightarrow>
      l' < patch_len p \<and>
      unat (msp_lsp_to_ts p m' l') = unat (msp_lsp_to_ts p m l) + n * unat (bin_len p))"
proof -
  have l: "unat l < plen p" using assms(1) by (simp add: word_less_nat_alt)
  have "blen p * bin_no p m l \<le> blen p * (bin_no p m l + n)" by simp
  with assms(3) have ts: "unat (msp_lsp_to_ts p m l) = blen p * bin_no p m l"
    by (intro unat_msp_lsp_to_ts) linarith
  obtain m1 l1 where ml: "msp_lsp p (msp_lsp_to_ts p m l) = Some (m1, l1)"
    "unat m1 = bin_no p m l div plen p mod 2 ^ 32" "unat l1 = bin_no p m l mod plen p"
    using msp_lsp_numbers [of p "msp_lsp_to_ts p m l"] ts by auto
  have "unat m1 = unat m" "unat l1 = unat l"
    using ml(2,3) bin_no_divmod [OF l, of m] by simp_all
  then have rt: "msp_lsp p (msp_lsp_to_ts p m l) = Some (m, l)"
    using ml(1) by (simp add: unsigned_word_eqI)
  obtain m2 l2 where it: "(lsp_inc p ^^ n) (m, l) = (m2, l2)" by fastforce
  with lsp_inc_iterate [OF l assms(2)]
  have i: "unat l2 < plen p" "bin_no p m2 l2 = bin_no p m l + n" by simp_all
  have "unat (msp_lsp_to_ts p m2 l2) = blen p * (bin_no p m l + n)"
    using assms(3) i(2) by (simp add: unat_msp_lsp_to_ts)
  with rt show ?thesis
    using i(1) ts by (simp add: it word_less_nat_alt algebra_simps)
qed

theorem msp_lsp_roundtrip_and_succ_witness:
  "msp_lsp Sec1 (msp_lsp_to_ts Sec1 1416666 1199) = Some (1416666, 1199) \<and>
   lsp_inc Sec1 (1416666, 1199) = (1416667, 0) \<and>
   unat (msp_lsp_to_ts Sec1 1416667 0) = unat (msp_lsp_to_ts Sec1 1416666 1199) + 1000"
  using msp_lsp_roundtrip_and_succ [of 1199 Sec1 1416666 1]
  by (simp add: bin_no_def lsp_inc_def)

text \<open>
  All external codes of a partitioning identify it: the database index, the absolute div-1 code,
  the name and the bin length (through either of the two conversions) decode to the partitioning
  that was encoded, and a code decodes to a partitioning only if it is the code of it.
\<close>

theorem partitioning_codes:
  "(from_db_ix i = Inr p \<longleftrightarrow> i = db_ix p) \<and>
   (from_dv1_abs d = Inr p \<longleftrightarrow> d = bin_len_dv1_abs p) \<and>
   (pbp_from_str s = Inr p \<longleftrightarrow> s = pbp_to_str p) \<and>
   (from_binlen b = Inr p \<longleftrightarrow> b = bin_len p) \<and>
   (pbp_try_from b = Inr p \<longleftrightarrow> b = bin_len p)"
  by (intro conjI pbp_ix.dec_iff pbp_dv1.dec_iff pbp_str.dec_iff pbp_binlen.dec_iff pbp_try.dec_iff)

end
