(* ===== verification/ScalarTypes.thy ===== *)
theory ScalarTypes
  imports Prelude
begin

text \<open>
  The element types and shapes of \<^verbatim>\<open>daqbuf-netpod/src/netpod.rs\<close>: \<^verbatim>\<open>SeriesKind\<close>,
  \<^verbatim>\<open>ScalarType\<close>, \<^verbatim>\<open>ByteOrder\<close> and \<^verbatim>\<open>Shape\<close> with their many external codes (database
  integers, names, channel access ids, serde forms). Lemmas: interpretations of \<open>code_left\<close> and
  \<open>codec\<close> for every pair, and the pairs that are partial in both directions.
\<close>

datatype st_error =
  UnknownSeriesKind int | UnsupportedDtype u8 | BadScalarTypeVariant string
| BadScalarTypeCaId u16 | ScalarTypeNotInCa | BadScalarTypeIndex int
| ShapeBad | InputBad | SerdeCustom

section \<open>SeriesKind\<close>

datatype SeriesKind = ChannelStatus | ChannelData | CaStatus

fun sk_to_db_i16 :: "SeriesKind \<Rightarrow> int" where
  "sk_to_db_i16 ChannelStatus = 1"
| "sk_to_db_i16 ChannelData = 2"
| "sk_to_db_i16 CaStatus = 3"

definition sk_from_db_i16 :: "int \<Rightarrow> (st_error, SeriesKind) result" where
  "sk_from_db_i16 x =
     (if x = 1 then Inr ChannelStatus else if x = 2 then Inr ChannelData
      else if x = 3 then Inr CaStatus else Inl (UnknownSeriesKind x))"

definition sk_default :: SeriesKind where
  "sk_default = ChannelData"

text \<open>The query pairs of a URL are an association list with the last binding of a key in force.\<close>

definition sk_from_pairs :: "(string \<rightharpoonup> string) \<Rightarrow> SeriesKind" where
  "sk_from_pairs pairs =
     (case Option.bind (pairs ''seriesKind'') (\<lambda>x.
        if x = ''channelStatus'' then Some ChannelStatus
        else if x = ''channelData'' then Some ChannelData
        else if x = ''caStatus'' then Some CaStatus else None)
      of Some k \<Rightarrow> k | None \<Rightarrow> sk_default)"

definition sk_append_to_url :: "SeriesKind \<Rightarrow> (string \<times> string) list \<Rightarrow> (string \<times> string) list" where
  "sk_append_to_url k url =
     (let s = (case k of ChannelStatus \<Rightarrow> Some ''channelStatus'' | ChannelData \<Rightarrow> None
               | CaStatus \<Rightarrow> Some ''caStatus'')
      in case s of Some s \<Rightarrow> url @ [(''seriesKind'', s)] | None \<Rightarrow> url)"

section \<open>ScalarType\<close>

datatype ScalarType =
  U8 | U16 | U32 | U64 | I8 | I16 | I32 | I64 | F32 | F64 | BOOL | STRING | StEnum

definition from_dtype_index :: "u8 \<Rightarrow> (st_error, ScalarType) result" where
  "from_dtype_index ix =
     (if ix = 0 then Inr BOOL else if ix = 1 then Inr BOOL
      else if ix = 3 then Inr U8 else if ix = 5 then Inr U16
      else if ix = 8 then Inr U32 else if ix = 10 then Inr U64
      else if ix = 2 then Inr I8 else if ix = 4 then Inr I16
      else if ix = 7 then Inr I32 else if ix = 9 then Inr I64
      else if ix = 11 then Inr F32 else if ix = 12 then Inr F64
      else if ix = 13 then Inr STRING else if ix = 15 then Inr StEnum
      else Inl (UnsupportedDtype ix))"

fun to_variant_str :: "ScalarType \<Rightarrow> string" where
  "to_variant_str U8 = ''u8''"
| "to_variant_str U16 = ''u16''"
| "to_variant_str U32 = ''u32''"
| "to_variant_str U64 = ''u64''"
| "to_variant_str I8 = ''i8''"
| "to_variant_str I16 = ''i16''"
| "to_variant_str I32 = ''i32''"
| "to_variant_str I64 = ''i64''"
| "to_variant_str F32 = ''f32''"
| "to_variant_str F64 = ''f64''"
| "to_variant_str BOOL = ''bool''"
| "to_variant_str STRING = ''string''"
| "to_variant_str StEnum = ''enum''"

definition from_variant_str :: "string \<Rightarrow> (st_error, ScalarType) result" where
  "from_variant_str s =
     (if s = ''u8'' then Inr U8 else if s = ''u16'' then Inr U16
      else if s = ''u32'' then Inr U32 else if s = ''u64'' then Inr U64
      else if s = ''i8'' then Inr I8 else if s = ''i16'' then Inr I16
      else if s = ''i32'' then Inr I32 else if s = ''i64'' then Inr I64
      else if s = ''f32'' then Inr F32 else if s = ''f64'' then Inr F64
      else if s = ''bool'' then Inr BOOL else if s = ''string'' then Inr STRING
      else if s = ''enum'' then Inr StEnum else Inl (BadScalarTypeVariant s))"

text \<open>
  The serde form: the serializer writes the variant name, the visitor lower-cases its input first.
  Lower-casing is written out for the ASCII letters; the only other characters with an ASCII lower
  case do not occur in any variant name.
\<close>

definition char_lower :: "char \<Rightarrow> char" where
  "char_lower c = (if of_char c \<in> {65 .. (90 :: nat)} then char_of (of_char c + (32 :: nat)) else c)"

fun st_serialize :: "ScalarType \<Rightarrow> string" where
  "st_serialize U8 = ''u8''"
| "st_serialize U16 = ''u16''"
| "st_serialize U32 = ''u32''"
| "st_serialize U64 = ''u64''"
| "st_serialize I8 = ''i8''"
| "st_serialize I16 = ''i16''"
| "st_serialize I32 = ''i32''"
| "st_serialize I64 = ''i64''"
| "st_serialize F32 = ''f32''"
| "st_serialize F64 = ''f64''"
| "st_serialize BOOL = ''bool''"
| "st_serialize STRING = ''string''"
| "st_serialize StEnum = ''enum''"

definition st_visit_str :: "string \<Rightarrow> (st_error, ScalarType) result" where
  "st_visit_str value =
     (let s = map char_lower value in
      (if s = ''u8'' then Inr U8 else if s = ''u16'' then Inr U16
      else if s = ''u32'' then Inr U32 else if s = ''u64'' then Inr U64
      else if s = ''i8'' then Inr I8 else if s = ''i16'' then Inr I16
      else if s = ''i32'' then Inr I32 else if s = ''i64'' then Inr I64
      else if s = ''f32'' then Inr F32 else if s = ''f64'' then Inr F64
      else if s = ''bool'' then Inr BOOL else if s = ''string'' then Inr STRING
      else if s = ''enum'' then Inr StEnum else Inl SerdeCustom))"

fun to_bsread_str :: "ScalarType \<Rightarrow> string" where
  "to_bsread_str U8 = ''uint8''"
| "to_bsread_str U16 = ''uint16''"
| "to_bsread_str U32 = ''uint32''"
| "to_bsread_str U64 = ''uint64''"
| "to_bsread_str I8 = ''int8''"
| "to_bsread_str I16 = ''int16''"
| "to_bsread_str I32 = ''int32''"
| "to_bsread_str I64 = ''int64''"
| "to_bsread_str F32 = ''float32''"
| "to_bsread_str F64 = ''float64''"
| "to_bsread_str BOOL = ''bool''"
| "to_bsread_str STRING = ''string''"
| "to_bsread_str StEnum = ''enum''"

definition from_bsread_str :: "string \<Rightarrow> (st_error, ScalarType) result" where
  "from_bsread_str s =
     (if s = ''uint8'' then Inr U8 else if s = ''uint16'' then Inr U16
      else if s = ''uint32'' then Inr U32 else if s = ''uint64'' then Inr U64
      else if s = ''int8'' then Inr I8 else if s = ''int16'' then Inr I16
      else if s = ''int32'' then Inr I32 else if s = ''int64'' then Inr I64
      else if s = ''float'' then Inr F32 else if s = ''double'' then Inr F64
      else if s = ''float32'' then Inr F32 else if s = ''float64'' then Inr F64
      else if s = ''bool'' then Inr BOOL else if s = ''string'' then Inr STRING
      else if s = ''enum'' then Inr StEnum else Inl (BadScalarTypeVariant s))"

definition from_ca_id :: "u16 \<Rightarrow> (st_error, ScalarType) result" where
  "from_ca_id k =
     (if k = 0 then Inr STRING else if k = 1 then Inr I16
      else if k = 2 then Inr F32 else if k = 3 then Inr StEnum
      else if k = 4 then Inr I8 else if k = 5 then Inr I32
      else if k = 6 then Inr F64 else Inl (BadScalarTypeCaId k))"

definition to_ca_id :: "ScalarType \<Rightarrow> (st_error, u16) result" where
  "to_ca_id t =
     (case t of I8 \<Rightarrow> Inr 4 | I16 \<Rightarrow> Inr 1 | I32 \<Rightarrow> Inr 5 | F32 \<Rightarrow> Inr 2 | F64 \<Rightarrow> Inr 6 | STRING \<Rightarrow> Inr 0 | StEnum \<Rightarrow> Inr 3
      | _ \<Rightarrow> Inl ScalarTypeNotInCa)"

definition from_archeng_db_str :: "string \<Rightarrow> (st_error, ScalarType) result" where
  "from_archeng_db_str s =
     (if s = ''I8'' then Inr I8 else if s = ''I16'' then Inr I16
      else if s = ''I32'' then Inr I32 else if s = ''I64'' then Inr I64
      else if s = ''F32'' then Inr F32 else if s = ''F64'' then Inr F64
      else Inl (BadScalarTypeVariant s))"

definition from_scylla_i32 :: "int \<Rightarrow> (st_error, ScalarType) result" where
  "from_scylla_i32 k =
     (if k < 0 \<or> k > 255 then Inl (BadScalarTypeIndex k) else from_dtype_index (word_of_int k))"

fun st_bytes :: "ScalarType \<Rightarrow> u8" where
  "st_bytes U8 = 1"
| "st_bytes U16 = 2"
| "st_bytes U32 = 4"
| "st_bytes U64 = 8"
| "st_bytes I8 = 1"
| "st_bytes I16 = 2"
| "st_bytes I32 = 4"
| "st_bytes I64 = 8"
| "st_bytes F32 = 4"
| "st_bytes F64 = 8"
| "st_bytes BOOL = 1"
| "st_bytes STRING = 1"
| "st_bytes StEnum = 2"

fun st_index :: "ScalarType \<Rightarrow> u8" where
  "st_index U8 = 3"
| "st_index U16 = 5"
| "st_index U32 = 8"
| "st_index U64 = 10"
| "st_index I8 = 2"
| "st_index I16 = 4"
| "st_index I32 = 7"
| "st_index I64 = 9"
| "st_index F32 = 11"
| "st_index F64 = 12"
| "st_index BOOL = 0"
| "st_index STRING = 13"
| "st_index StEnum = 15"

definition to_scylla_table_name_id :: "ScalarType \<Rightarrow> string" where
  "to_scylla_table_name_id t = to_variant_str t"

definition to_scylla_i32 :: "ScalarType \<Rightarrow> int" where
  "to_scylla_i32 t = sint (ucast (st_index t) :: 32 word)"

record EnumVariant =
  ev_ix :: "16 word"
  ev_name :: string

definition ev_default :: EnumVariant where
  "ev_default = \<lparr>ev_ix = - 32768, ev_name = []\<rparr>"

section \<open>ByteOrder\<close>

datatype ByteOrder = Little | Big

unbundle bit_operations_syntax

definition from_dtype_flags :: "u8 \<Rightarrow> ByteOrder" where
  "from_dtype_flags flags = (if flags AND 0x20 = 0 then Little else Big)"

definition bo_from_bsread_str :: "string \<Rightarrow> (st_error, ByteOrder) result" where
  "bo_from_bsread_str s =
     (if s = ''little'' then Inr Little else if s = ''big'' then Inr Big else Inl InputBad)"

definition is_le :: "ByteOrder \<Rightarrow> bool" where
  "is_le b = (case b of Little \<Rightarrow> True | _ \<Rightarrow> False)"

definition is_be :: "ByteOrder \<Rightarrow> bool" where
  "is_be b = (case b of Big \<Rightarrow> True | _ \<Rightarrow> False)"

section \<open>Shape\<close>

datatype Shape = ShScalar | ShWave u32 | ShImage u32 u32

definition shape_serialize :: "Shape \<Rightarrow> u32 list" where
  "shape_serialize s = (case s of ShScalar \<Rightarrow> [] | ShWave a \<Rightarrow> [a] | ShImage a b \<Rightarrow> [a, b])"

definition shape_visit_seq :: "u32 list \<Rightarrow> (st_error, Shape) result" where
  "shape_visit_seq a =
     (if length a = 0 then Inr ShScalar
      else if length a = 1 then Inr (ShWave (a ! 0))
      else if length a = 2 then Inr (ShImage (a ! 0) (a ! 1))
      else Inl SerdeCustom)"

definition from_sf_databuffer_raw :: "u32 list option \<Rightarrow> (st_error, Shape) result" where
  "from_sf_databuffer_raw v =
     (case v of
        Some a \<Rightarrow> if length a = 0 then Inr ShScalar
                  else if length a = 1 then Inr (ShWave (a ! 0))
                  else if length a = 2 then Inr (ShImage (a ! 0) (a ! 1))
                  else Inl InputBad
      | None \<Rightarrow> Inr ShScalar)"

text \<open>An \<^verbatim>\<open>i32\<close> of the database is a 32 bit word read as signed.\<close>

definition from_scylla_shape_dims :: "int list \<Rightarrow> (st_error, Shape) result" where
  "from_scylla_shape_dims v =
     (if length v = 0 then Inr ShScalar
      else if length v = 1 then Inr (ShWave (word_of_int (v ! 0)))
      else if length v = 2 then Inr (ShImage (word_of_int (v ! 0)) (word_of_int (v ! 1)))
      else Inl ShapeBad)"

definition from_ca_count :: "u32 \<Rightarrow> (st_error, Shape) result" where
  "from_ca_count k =
     (if k = 0 then Inl InputBad
      else if k = 1 then Inr ShScalar
      else if k \<le> 1024 * 3000 then Inr (ShWave k)
      else Inl InputBad)"

definition to_ca_count :: "Shape \<Rightarrow> (st_error, u32) result" where
  "to_ca_count s =
     (case s of ShScalar \<Rightarrow> Inr 1 | ShWave n \<Rightarrow> Inr n | _ \<Rightarrow> Inl InputBad)"

definition to_scylla_vec :: "Shape \<Rightarrow> int list" where
  "to_scylla_vec s =
     (case s of ShScalar \<Rightarrow> [] | ShWave n \<Rightarrow> [sint n] | ShImage n m \<Rightarrow> [sint n, sint m])"

definition to_u32_vec :: "Shape \<Rightarrow> u32 list" where
  "to_u32_vec s = (case s of ShScalar \<Rightarrow> [] | ShWave n \<Rightarrow> [n] | ShImage n m \<Rightarrow> [n, m])"

definition ele_count :: "Shape \<Rightarrow> u64" where
  "ele_count s =
     (case s of ShScalar \<Rightarrow> 1 | ShWave n \<Rightarrow> ucast n | ShImage n m \<Rightarrow> ucast n * ucast m)"

section \<open>Codes\<close>

interpretation sk_db: codec sk_to_db_i16 sk_from_db_i16
proof
  show "sk_from_db_i16 (sk_to_db_i16 x) = Inr x" for x
    by (cases x) (simp_all add: sk_from_db_i16_def)
  show "sk_from_db_i16 y = Inr x \<Longrightarrow> sk_to_db_i16 x = y" for x y
    by (auto simp: sk_from_db_i16_def split: if_splits)
qed

interpretation st_variant: codec to_variant_str from_variant_str
proof
  show "from_variant_str (to_variant_str x) = Inr x" for x
    by (cases x) (simp_all add: from_variant_str_def)
  show "from_variant_str y = Inr x \<Longrightarrow> to_variant_str x = y" for x y
    by (simp add: from_variant_str_def split: if_splits)
qed

lemma st_visit_str_eq:
  "st_visit_str s = Inr t \<longleftrightarrow> from_variant_str (map char_lower s) = Inr t"
  by (simp add: st_visit_str_def from_variant_str_def Let_def)

lemma map_char_lower_variant [simp]: "map char_lower (to_variant_str t) = to_variant_str t"
  by (cases t) (simp_all add: char_lower_def)

lemma st_serialize_eq: "st_serialize t = to_variant_str t"
  by (cases t) simp_all

interpretation st_serde: code_left st_serialize st_visit_str
  by unfold_locales (simp add: st_visit_str_eq st_serialize_eq st_variant.dec_enc)

interpretation st_bsread: code_left to_bsread_str from_bsread_str
proof
  show "from_bsread_str (to_bsread_str x) = Inr x" for x
    by (cases x) (simp_all add: from_bsread_str_def)
qed

interpretation st_dtype: code_left st_index from_dtype_index
proof
  show "from_dtype_index (st_index x) = Inr x" for x
    by (cases x) (simp_all add: from_dtype_index_def)
qed

interpretation st_scylla: code_left to_scylla_i32 from_scylla_i32
proof
  show "from_scylla_i32 (to_scylla_i32 x) = Inr x" for x
    by (cases x) (simp_all add: from_scylla_i32_def to_scylla_i32_def from_dtype_index_def)
qed

interpretation shape_serde: codec shape_serialize shape_visit_seq
proof
  show "shape_visit_seq (shape_serialize x) = Inr x" for x
    by (cases x) (simp_all add: shape_visit_seq_def shape_serialize_def)
  show "shape_visit_seq y = Inr x \<Longrightarrow> shape_serialize x = y" for x y
    by (auto simp: shape_visit_seq_def shape_serialize_def length_Suc_conv numeral_2_eq_2
        split: if_splits)
qed

interpretation shape_scylla: code_left to_scylla_vec from_scylla_shape_dims
proof
  show "from_scylla_shape_dims (to_scylla_vec x) = Inr x" for x
    by (cases x) (simp_all add: from_scylla_shape_dims_def to_scylla_vec_def)
qed

lemma sk_url_roundtrip:
  assumes "''seriesKind'' \<notin> fst ` set url"
  shows "sk_from_pairs (map_of (rev (sk_append_to_url k url))) = k"
proof -
  have "map_of (rev url) ''seriesKind'' = None"
    using assms by (simp add: map_of_eq_None_iff)
  then show ?thesis
    by (cases k) (simp_all add: sk_from_pairs_def sk_append_to_url_def sk_default_def)
qed

lemma ca_id_iff: "from_ca_id k = Inr t \<longleftrightarrow> to_ca_id t = Inr k"
  by (cases t) (auto simp: from_ca_id_def to_ca_id_def split: if_splits)

section \<open>Properties\<close>

text \<open>
  The stored and transmitted forms of an element type identify it: the variant name decodes to
  a type exactly if it is its name; the serde form, the bsread name and the database integer decode
  to the type they were made from; a channel access id belongs to a type in one direction exactly
  if it does in the other; and a shape is recovered from its dimension list as stored in the
  database and as serialized.
\<close>

theorem scalar_type_shape_codes:
  "(from_variant_str s = Inr t \<longleftrightarrow> s = to_variant_str t) \<and>
   st_visit_str (st_serialize t) = Inr t \<and>
   from_bsread_str (to_bsread_str t) = Inr t \<and>
   from_scylla_i32 (to_scylla_i32 t) = Inr t \<and>
   (from_ca_id k = Inr t \<longleftrightarrow> to_ca_id t = Inr k) \<and>
   from_scylla_shape_dims (to_scylla_vec sh) = Inr sh \<and>
   (shape_visit_seq d = Inr sh \<longleftrightarrow> d = shape_serialize sh)"
  by (intro conjI st_variant.dec_iff st_serde.dec_enc st_bsread.dec_enc st_scylla.dec_enc ca_id_iff
      shape_scylla.dec_enc shape_serde.dec_iff)

end
