(* ===== verification/InsertQueue.thy ===== *)
theory InsertQueue
  imports TimeTypes ScalarTypes
begin

text \<open>
  \<^verbatim>\<open>daqbuf-scywr/src/iteminsertqueue.rs\<close> and \<^verbatim>\<open>insertqueues.rs\<close>: the values that are written to
  the database, the items of the insert queues, and the queues of one connection; and the reader of
  array values, \<^verbatim>\<open>from_valueblob\<close> of
  \<^verbatim>\<open>daqbuf-scyllaconn/src/worker/read_events_03/datatypes.rs\<close>. Signed and floating point values
  are carried as their bit patterns, strings as the list of their bytes. Lemmas: what the reader
  makes of a blob is what the writer put into it.
\<close>

section \<open>Values\<close>

datatype ScalarValue =
  SvU8 "8 word"
| SvU16 "16 word"
| SvU32 "32 word"
| SvU64 "64 word"
| SvI8 "8 word"
| SvI16 "16 word"
| SvI32 "32 word"
| SvI64 "64 word"
| SvF32 "32 word"
| SvF64 "64 word"
| SvEnum "16 word" string
| SvString string
| SvBool bool

fun ScalarValue_byte_size :: "ScalarValue \<Rightarrow> u32" where
  "ScalarValue_byte_size (SvU8 _) = 1"
| "ScalarValue_byte_size (SvU16 _) = 1"
| "ScalarValue_byte_size (SvU32 _) = 1"
| "ScalarValue_byte_size (SvU64 _) = 1"
| "ScalarValue_byte_size (SvI8 _) = 1"
| "ScalarValue_byte_size (SvI16 _) = 2"
| "ScalarValue_byte_size (SvI32 _) = 4"
| "ScalarValue_byte_size (SvI64 _) = 8"
| "ScalarValue_byte_size (SvF32 _) = 4"
| "ScalarValue_byte_size (SvF64 _) = 8"
| "ScalarValue_byte_size (SvEnum _ y) = 2 + of_nat (length y)"
| "ScalarValue_byte_size (SvString x) = of_nat (length x)"
| "ScalarValue_byte_size (SvBool _) = 1"

datatype ArrayValue =
  AvU8 "8 word list"
| AvU16 "16 word list"
| AvU32 "32 word list"
| AvU64 "64 word list"
| AvI8 "8 word list"
| AvI16 "16 word list"
| AvI32 "32 word list"
| AvI64 "64 word list"
| AvF32 "32 word list"
| AvF64 "64 word list"
| AvBool "bool list"

fun ArrayValue_len :: "ArrayValue \<Rightarrow> nat" where
  "ArrayValue_len (AvU8 a) = length a"
| "ArrayValue_len (AvU16 a) = length a"
| "ArrayValue_len (AvU32 a) = length a"
| "ArrayValue_len (AvU64 a) = length a"
| "ArrayValue_len (AvI8 a) = length a"
| "ArrayValue_len (AvI16 a) = length a"
| "ArrayValue_len (AvI32 a) = length a"
| "ArrayValue_len (AvI64 a) = length a"
| "ArrayValue_len (AvF32 a) = length a"
| "ArrayValue_len (AvF64 a) = length a"
| "ArrayValue_len (AvBool a) = length a"

fun ArrayValue_byte_size :: "ArrayValue \<Rightarrow> u32" where
  "ArrayValue_byte_size (AvU8 a) = 1 * of_nat (length a)"
| "ArrayValue_byte_size (AvU16 a) = 2 * of_nat (length a)"
| "ArrayValue_byte_size (AvU32 a) = 4 * of_nat (length a)"
| "ArrayValue_byte_size (AvU64 a) = 8 * of_nat (length a)"
| "ArrayValue_byte_size (AvI8 a) = 1 * of_nat (length a)"
| "ArrayValue_byte_size (AvI16 a) = 2 * of_nat (length a)"
| "ArrayValue_byte_size (AvI32 a) = 4 * of_nat (length a)"
| "ArrayValue_byte_size (AvI64 a) = 8 * of_nat (length a)"
| "ArrayValue_byte_size (AvF32 a) = 4 * of_nat (length a)"
| "ArrayValue_byte_size (AvF64 a) = 8 * of_nat (length a)"
| "ArrayValue_byte_size (AvBool a) = 1 * of_nat (length a)"

text \<open>
  The blob of an array value: four zero \<^verbatim>\<open>u64\<close> words, then the elements in little-endian order.
\<close>

definition blob_header :: bytes where
  "blob_header = concat (replicate 4 (to_le 8 (0 :: u64)))"

fun to_binary_blob :: "ArrayValue \<Rightarrow> bytes" where
  "to_binary_blob (AvU8 a) = blob_header @ concat (map (to_le 1) a)"
| "to_binary_blob (AvU16 a) = blob_header @ concat (map (to_le 2) a)"
| "to_binary_blob (AvU32 a) = blob_header @ concat (map (to_le 4) a)"
| "to_binary_blob (AvU64 a) = blob_header @ concat (map (to_le 8) a)"
| "to_binary_blob (AvI8 a) = blob_header @ concat (map (to_le 1) a)"
| "to_binary_blob (AvI16 a) = blob_header @ concat (map (to_le 2) a)"
| "to_binary_blob (AvI32 a) = blob_header @ concat (map (to_le 4) a)"
| "to_binary_blob (AvI64 a) = blob_header @ concat (map (to_le 8) a)"
| "to_binary_blob (AvF32 a) = blob_header @ concat (map (to_le 4) a)"
| "to_binary_blob (AvF64 a) = blob_header @ concat (map (to_le 8) a)"
| "to_binary_blob (AvBool a) = blob_header @ concat (map (\<lambda>x. to_le 1 (if x then 1 else 0 :: u8)) a)"

datatype DataValue = DvScalar ScalarValue | DvArray ArrayValue

fun DataValue_byte_size :: "DataValue \<Rightarrow> u32" where
  "DataValue_byte_size (DvScalar x) = ScalarValue_byte_size x"
| "DataValue_byte_size (DvArray x) = ArrayValue_byte_size x"

fun DataValue_shape :: "DataValue \<Rightarrow> Shape" where
  "DataValue_shape (DvScalar _) = ShScalar"
| "DataValue_shape (DvArray a) = ShWave (of_nat (ArrayValue_len a))"

section \<open>Reading a blob\<close>

text \<open>
  \<^verbatim>\<open>from_valueblob\<close> of \<^verbatim>\<open>impl_scaty_array!\<close>: the element type gives the width and how an
  unaligned read interprets the bytes (on a little-endian machine). A \<^verbatim>\<open>bool\<close> may only be read
  from a byte 0 or 1.
\<close>

definition from_valueblob :: "nat \<Rightarrow> (bytes \<Rightarrow> 'a panics) \<Rightarrow> bytes \<Rightarrow> 'a list panics" where
  "from_valueblob en read_unaligned inp =
     (if length inp < 32 then Some []
      else let n = (max (length inp) 32 - 32) div en in
        those (map (\<lambda>i. do { r1 \<leftarrow> slice inp (32 + en * (0 + i)) (32 + en * (1 + i));
                             read_unaligned r1 }) [0..<n]))"

definition read_word :: "bytes \<Rightarrow> 'a::len word panics" where
  "read_word bs = Some (from_le bs)"

definition read_bool :: "bytes \<Rightarrow> bool panics" where
  "read_bool bs = (if bs = [0] then Some False else if bs = [1] then Some True else None)"

text \<open>
  \<^verbatim>\<open>val_ty_dyn_from_type\<close> for waveforms: the reader that belongs to an element type. Arrays of
  strings and of enums are not supported by the code: they read as empty.
\<close>

datatype WaveValue = WvArray ArrayValue | WvStrings "string list" | WvEnums "EnumVariant list"

fun wave_from_valueblob :: "ScalarType \<Rightarrow> bytes \<Rightarrow> WaveValue panics" where
  "wave_from_valueblob U8 inp = map_option (\<lambda>a. WvArray (AvU8 a)) (from_valueblob 1 read_word inp)"
| "wave_from_valueblob U16 inp = map_option (\<lambda>a. WvArray (AvU16 a)) (from_valueblob 2 read_word inp)"
| "wave_from_valueblob U32 inp = map_option (\<lambda>a. WvArray (AvU32 a)) (from_valueblob 4 read_word inp)"
| "wave_from_valueblob U64 inp = map_option (\<lambda>a. WvArray (AvU64 a)) (from_valueblob 8 read_word inp)"
| "wave_from_valueblob I8 inp = map_option (\<lambda>a. WvArray (AvI8 a)) (from_valueblob 1 read_word inp)"
| "wave_from_valueblob I16 inp = map_option (\<lambda>a. WvArray (AvI16 a)) (from_valueblob 2 read_word inp)"
| "wave_from_valueblob I32 inp = map_option (\<lambda>a. WvArray (AvI32 a)) (from_valueblob 4 read_word inp)"
| "wave_from_valueblob I64 inp = map_option (\<lambda>a. WvArray (AvI64 a)) (from_valueblob 8 read_word inp)"
| "wave_from_valueblob F32 inp = map_option (\<lambda>a. WvArray (AvF32 a)) (from_valueblob 4 read_word inp)"
| "wave_from_valueblob F64 inp = map_option (\<lambda>a. WvArray (AvF64 a)) (from_valueblob 8 read_word inp)"
| "wave_from_valueblob BOOL inp = map_option (\<lambda>a. WvArray (AvBool a)) (from_valueblob 1 read_bool inp)"
| "wave_from_valueblob STRING inp = Some (WvStrings [])"
| "wave_from_valueblob StEnum inp = Some (WvEnums [])"

fun ArrayValue_scalar_type :: "ArrayValue \<Rightarrow> ScalarType" where
  "ArrayValue_scalar_type (AvU8 _) = U8"
| "ArrayValue_scalar_type (AvU16 _) = U16"
| "ArrayValue_scalar_type (AvU32 _) = U32"
| "ArrayValue_scalar_type (AvU64 _) = U64"
| "ArrayValue_scalar_type (AvI8 _) = I8"
| "ArrayValue_scalar_type (AvI16 _) = I16"
| "ArrayValue_scalar_type (AvI32 _) = I32"
| "ArrayValue_scalar_type (AvI64 _) = I64"
| "ArrayValue_scalar_type (AvF32 _) = F32"
| "ArrayValue_scalar_type (AvF64 _) = F64"
| "ArrayValue_scalar_type (AvBool _) = BOOL"

text \<open>\<^verbatim>\<open>scy_row_to_ts_val\<close>: the timestamp of a row from the \<^verbatim>\<open>msp\<close> and the \<^verbatim>\<open>lsp\<close> column.\<close>

definition row_to_ts :: "TsMs \<Rightarrow> int \<Rightarrow> TsNano" where
  "row_to_ts msp lsp = TsMs_ns_u64 msp + word_of_int lsp"

section \<open>Items and queues\<close>

datatype ConnectionStatus =
  ConnectError | ConnectTimeout | Established | Closing | ClosedUnexpected | ConnectionHandlerDone

datatype iq_error = UnknownConnectionStatus

fun cs_to_kind :: "ConnectionStatus \<Rightarrow> u32" where
  "cs_to_kind ConnectError = 1"
| "cs_to_kind ConnectTimeout = 2"
| "cs_to_kind Established = 3"
| "cs_to_kind Closing = 4"
| "cs_to_kind ClosedUnexpected = 5"
| "cs_to_kind ConnectionHandlerDone = 6"

definition cs_from_kind :: "u32 \<Rightarrow> (iq_error, ConnectionStatus) result" where
  "cs_from_kind kind =
     (if kind = 1 then Inr ConnectError else if kind = 2 then Inr ConnectTimeout
      else if kind = 3 then Inr Established else if kind = 4 then Inr Closing
      else if kind = 5 then Inr ClosedUnexpected else if kind = 6 then Inr ConnectionHandlerDone
      else Inl UnknownConnectionStatus)"

type_synonym SeriesId = u64

text \<open>An \<^verbatim>\<open>Instant\<close> is a number of nanoseconds of the monotonic clock.\<close>

type_synonym Instant = nat

record MspItem =
  mi_series :: SeriesId
  mi_ts_msp :: TsMs
  mi_ts_net :: Instant

record InsertItem =
  ii_series :: SeriesId
  ii_ts_msp :: TsMs
  ii_ts_lsp :: DtNano
  ii_val :: DataValue
  ii_ts_net :: Instant

record Accounting =
  ac_part :: int
  ac_ts :: TsMs
  ac_series :: SeriesId
  ac_count :: int
  ac_bytes :: int

record BinWriteIndexV04 =
  bw_series :: int
  bw_pbp :: int
  bw_msp :: int
  bw_lsp :: int
  bw_binlen :: int

text \<open>The floating point statistics of a written bin are carried as bit patterns.\<close>

record TimeBinSimpleF32V02 =
  tb_series :: SeriesId
  tb_binlen :: int
  tb_msp :: int
  tb_off :: int
  tb_cnt :: int
  tb_min :: u32
  tb_max :: u32
  tb_avg :: u32
  tb_dev :: u32
  tb_lst :: u32

datatype QueryItem =
  QInsert InsertItem | QMsp MspItem | QTimeBin TimeBinSimpleF32V02 | QBinWriteIndex BinWriteIndexV04
| QAccounting Accounting | QAccountingRecv Accounting

type_synonym deque = "QueryItem list"

record InsertDeques =
  st_rf1_qu :: deque
  st_rf3_qu :: deque
  mt_rf3_qu :: deque
  lt_rf3_qu :: deque
  lt_rf3_lat5_qu :: deque

definition iqdqs_new :: InsertDeques where
  "iqdqs_new = \<lparr>st_rf1_qu = [], st_rf3_qu = [], mt_rf3_qu = [], lt_rf3_qu = [], lt_rf3_lat5_qu = []\<rparr>"

definition iqdqs_len :: "InsertDeques \<Rightarrow> nat" where
  "iqdqs_len d = length (st_rf1_qu d) + length (st_rf3_qu d) + length (mt_rf3_qu d)
     + length (lt_rf3_qu d) + length (lt_rf3_lat5_qu d)"

definition iqdqs_clear :: "InsertDeques \<Rightarrow> InsertDeques" where
  "iqdqs_clear d =
     d\<lparr>st_rf1_qu := [], st_rf3_qu := [], mt_rf3_qu := [], lt_rf3_qu := [], lt_rf3_lat5_qu := []\<rparr>"

text \<open>\<^verbatim>\<open>deque(rt)\<close> hands out a mutable reference; here it is the update through it.\<close>

fun iqdqs_on_deque :: "RetentionTime \<Rightarrow> (deque \<Rightarrow> deque) \<Rightarrow> InsertDeques \<Rightarrow> InsertDeques" where
  "iqdqs_on_deque Short f d = d\<lparr>st_rf3_qu := f (st_rf3_qu d)\<rparr>"
| "iqdqs_on_deque Medium f d = d\<lparr>mt_rf3_qu := f (mt_rf3_qu d)\<rparr>"
| "iqdqs_on_deque Long f d = d\<lparr>lt_rf3_qu := f (lt_rf3_qu d)\<rparr>"

definition emit_accounting_item :: "RetentionTime \<Rightarrow> Accounting \<Rightarrow> InsertDeques \<Rightarrow> InsertDeques" where
  "emit_accounting_item rt item d = iqdqs_on_deque rt (\<lambda>q. q @ [QAccounting item]) d"

definition emit_accounting_recv :: "Accounting \<Rightarrow> InsertDeques \<Rightarrow> InsertDeques" where
  "emit_accounting_recv item d = iqdqs_on_deque Short (\<lambda>q. q @ [QAccountingRecv item]) d"

text \<open>
  \<^verbatim>\<open>housekeeping\<close>: the capacity of a \<^verbatim>\<open>VecDeque\<close> is chosen by the standard library, so the
  capacities are arguments.
\<close>

definition deque_housekeeping :: "nat \<Rightarrow> deque \<Rightarrow> deque" where
  "deque_housekeeping cap q = (if length q * 2 < cap then take (cap * 3 div 4) q else q)"

definition iqdqs_housekeeping :: "(nat \<times> nat \<times> nat \<times> nat \<times> nat) \<Rightarrow> InsertDeques \<Rightarrow> InsertDeques" where
  "iqdqs_housekeeping caps d =
     (case caps of (c1, c2, c3, c4, c5) \<Rightarrow>
       d\<lparr>st_rf1_qu := deque_housekeeping c1 (st_rf1_qu d),
         st_rf3_qu := deque_housekeeping c2 (st_rf3_qu d),
         mt_rf3_qu := deque_housekeeping c3 (mt_rf3_qu d),
         lt_rf3_qu := deque_housekeeping c4 (lt_rf3_qu d),
         lt_rf3_lat5_qu := deque_housekeeping c5 (lt_rf3_lat5_qu d)\<rparr>)"

text \<open>
  \<^verbatim>\<open>InsertQueuesTx::send_all\<close>: the batches taken from the queues, each with the channel it is sent
  to, in the order of sending. The last one goes to \<^verbatim>\<open>lt_rf3_tx\<close>, as in the code. Sending itself
  is the business of the channel.
\<close>

datatype queue_tx = TxStRf1 | TxStRf3 | TxMtRf3 | TxLtRf3 | TxLtRf3Lat5

definition send_nonempty :: "deque \<Rightarrow> queue_tx \<Rightarrow> (queue_tx \<times> deque) list" where
  "send_nonempty qu tx = (if length qu \<noteq> 0 then [(tx, qu)] else [])"

definition send_all :: "InsertDeques \<Rightarrow> (queue_tx \<times> deque) list \<times> InsertDeques" where
  "send_all d =
     (send_nonempty (st_rf1_qu d) TxStRf1 @ send_nonempty (st_rf3_qu d) TxStRf3 @
      send_nonempty (mt_rf3_qu d) TxMtRf3 @ send_nonempty (lt_rf3_qu d) TxLtRf3 @
      send_nonempty (lt_rf3_lat5_qu d) TxLtRf3,
      d\<lparr>st_rf1_qu := [], st_rf3_qu := [], mt_rf3_qu := [], lt_rf3_qu := [], lt_rf3_lat5_qu := []\<rparr>)"

interpretation cs_kind: codec cs_to_kind cs_from_kind
proof
  show "cs_from_kind (cs_to_kind x) = Inr x" for x
    by (cases x) (simp_all add: cs_from_kind_def)
  show "cs_from_kind y = Inr x \<Longrightarrow> cs_to_kind x = y" for x y
    by (auto simp: cs_from_kind_def split: if_splits)
qed

section \<open>Blobs\<close>

lemma blob_header_length [simp]: "length blob_header = 32"
  by (simp add: blob_header_def numeral_eq_Suc)

text \<open>A blob written element by element is read element by element.\<close>

lemma from_valueblob_concat:
  assumes "0 < k" and "\<forall>a \<in> set as. length (wr a) = k \<and> rd (wr a) = Some a"
  shows "from_valueblob k rd (blob_header @ concat (map wr as)) = Some as"
proof -
  let ?inp = "blob_header @ concat (map wr as)"
  have len: "length (concat (map wr as)) = k * length as"
    using length_concat_const [of "map wr as" k] assms(2) by auto
  have el: "do { r1 \<leftarrow> slice ?inp (32 + k * (0 + i)) (32 + k * (1 + i)); rd r1 } = Some (as ! i)"
    if "i < length as" for i
  proof -
    have "k * (1 + i) \<le> k * length as" using that by (intro mult_le_mono2) simp
    then have "slice ?inp (32 + k * (0 + i)) (32 + k * (1 + i))
        = Some (take k (drop (k * i) (concat (map wr as))))"
      using len by (simp add: slice_def)
    also have "take k (drop (k * i) (concat (map wr as))) = wr (as ! i)"
      using take_drop_concat [of "map wr as" k i] assms(2) that by simp
    finally show ?thesis using assms(2) that by simp
  qed
  have "those (map (\<lambda>i. do { r1 \<leftarrow> slice ?inp (32 + k * (0 + i)) (32 + k * (1 + i)); rd r1 })
      [0..<length as]) = Some (map ((!) as) [0..<length as])"
    using el by (intro those_map_Some) simp
  then show ?thesis
    using len assms(1) by (simp add: from_valueblob_def Let_def map_nth)
qed

lemma from_valueblob_words:
  assumes "0 < k" and "LENGTH('a::len) \<le> 8 * k"
  shows "from_valueblob k read_word (blob_header @ concat (map (to_le k) as)) = Some (as :: 'a word list)"
  using assms by (intro from_valueblob_concat) (simp_all add: read_word_def from_to_le)

lemma from_valueblob_bools:
  "from_valueblob 1 read_bool (blob_header @ concat (map (\<lambda>x. to_le 1 (if x then 1 else 0 :: u8)) as))
    = Some as"
  by (intro from_valueblob_concat) (auto simp: read_bool_def to_le_def to_be_def)

lemma to_binary_blob_length:
  "length (to_binary_blob v) = 32 + unat (st_bytes (ArrayValue_scalar_type v)) * ArrayValue_len v"
  by (cases v) (simp_all add: length_concat_const comp_def length_concat sum_list_triv)

text \<open>
  \<^verbatim>\<open>ScalarValue::byte_size\<close> gives one byte for the unsigned integers of every width, whereas
  the element size of the same type is the width: the accounting of unsigned scalars, which also
  drives the rollover of the time partitions, is too low.
\<close>

lemma scalar_byte_size_unsigned:
  "ScalarValue_byte_size (SvU16 a) = 1 \<and> st_bytes U16 = 2 \<and>
   ScalarValue_byte_size (SvU32 b) = 1 \<and> st_bytes U32 = 4 \<and>
   ScalarValue_byte_size (SvU64 c) = 1 \<and> st_bytes U64 = 8"
  by simp

section \<open>Properties\<close>

text \<open>
  The reader of array values recovers exactly what the writer stored: for every array value the
  blob decodes, with the reader selected by the element type, to the value itself. The blob has 32
  header bytes and the element width times the number of elements behind it.
\<close>

theorem array_blob_roundtrip:
  "wave_from_valueblob (ArrayValue_scalar_type v) (to_binary_blob v) = Some (WvArray v) \<and>
   length (to_binary_blob v) = 32 + unat (st_bytes (ArrayValue_scalar_type v)) * ArrayValue_len v"
  using to_binary_blob_length [of v]
  by (cases v) (simp_all add: from_valueblob_words from_valueblob_bools del: One_nat_def)

text \<open>
  Housekeeping of the queues never drops an item, whatever capacities the queues have: the
  truncation length is above the number of items whenever it is applied.
\<close>

theorem iqdqs_housekeeping_keeps: "iqdqs_housekeeping caps d = d"
  by (cases caps) (simp add: iqdqs_housekeeping_def deque_housekeeping_def)

end
