(* ===== verification/SeriesWriter.thy ===== *)
theory SeriesWriter
  imports InsertQueue
begin

text \<open>
  \<^verbatim>\<open>daqbuf-serieswriter/src\<close>: the splitters that choose the partition (\<^verbatim>\<open>ts_msp\<close>) of an event
  (\<^verbatim>\<open>msptool\<close>), the \<^verbatim>\<open>SeriesWriter\<close> that emits the items for one series and retention time
  (\<^verbatim>\<open>writer.rs\<close>), the value type of the channel status series (\<^verbatim>\<open>fixgridwriter.rs\<close>) and the
  \<^verbatim>\<open>RateLimitWriter\<close> (\<^verbatim>\<open>ratelimitwriter.rs\<close>). The traits \<^verbatim>\<open>MspSplit\<close> and
  \<^verbatim>\<open>EmittableType\<close> are records of operations that are passed to the functions which are generic
  over them; the contract of a splitter is the locale \<open>msp_split\<close>, interpreted for both splitters.
  \<^verbatim>\<open>Instant::now()\<close> is an argument. No path of these functions returns an \<^verbatim>\<open>Err\<close>, so the results
  are plain values; logging fields are left out.

  Lemmas: every inserted row is preceded by the index entry of its partition, a row gives back the
  timestamp of its event, offsets inside a partition stay bounded, accepted events are apart.
\<close>

section \<open>MspSplit\<close>

record 's MspSplit =
  ms_split :: "'s \<Rightarrow> TsNano \<Rightarrow> u32 \<Rightarrow> ((TsNano \<times> DtNano \<times> bool \<times> TsNano option) \<times> 's) panics"
  ms_ts_msp_current :: "'s \<Rightarrow> TsNano option panics"
  ms_rt :: "'s \<Rightarrow> RetentionTime panics"

subsection \<open>dyngrid.rs\<close>

record MspSplitDyn =
  dy_last :: "TsNano option"
  dy_count :: u32
  dy_bytes :: u32
  dy_count_max :: u32
  dy_bytes_max :: u32
  dy_rt :: RetentionTime
  dy_rollover_at :: TsNano

definition MspSplitDyn_new :: "u32 \<Rightarrow> u32 \<Rightarrow> RetentionTime \<Rightarrow> MspSplitDyn" where
  "MspSplitDyn_new count_max bytes_max rt =
     \<lparr>dy_last = None, dy_count = 0, dy_bytes = 0, dy_count_max = count_max,
      dy_bytes_max = bytes_max, dy_rt = rt, dy_rollover_at = 0\<rparr>"

definition dy_next_rollover :: "MspSplitDyn \<Rightarrow> TsNano \<Rightarrow> TsNano" where
  "dy_next_rollover s ts_inp =
     TsNano_add_dt_nano ts_inp
       (DtNano_from_ms (1000 * of_nat (Duration_as_secs (msp_rollover_ivl (dy_rt s)))))"

definition MspSplitDyn_split ::
    "MspSplitDyn \<Rightarrow> TsNano \<Rightarrow> u32 \<Rightarrow> ((TsNano \<times> DtNano \<times> bool \<times> TsNano option) \<times> MspSplitDyn) panics" where
  "MspSplitDyn_split s ts_inp item_bytes =
     do { let msp_res_max = SEC * 2;
          (r, s') \<leftarrow> (case dy_last s of
            Some ts_msp_last \<Rightarrow>
              if dy_count s \<ge> dy_count_max s \<or> dy_bytes s \<ge> dy_bytes_max s \<or> dy_rollover_at s \<le> ts_inp
              then do { q \<leftarrow> TsNano_div ts_inp msp_res_max;
                        let ts_msp = TsNano_mul q msp_res_max;
                        Some (if ts_msp = ts_msp_last then ((ts_msp, False, None), s)
                              else ((ts_msp, True, Some ts_msp_last),
                                    s\<lparr>dy_last := Some ts_msp, dy_count := 1, dy_bytes := item_bytes,
                                      dy_rollover_at := dy_next_rollover s ts_inp\<rparr>)) }
              else Some ((ts_msp_last, False, None),
                         s\<lparr>dy_count := dy_count s + 1, dy_bytes := dy_bytes s + item_bytes\<rparr>)
          | None \<Rightarrow>
              do { q \<leftarrow> TsNano_div ts_inp msp_res_max;
                   let ts_msp = TsNano_mul q msp_res_max;
                   Some ((ts_msp, True, None),
                         s\<lparr>dy_last := Some ts_msp, dy_count := 1, dy_bytes := item_bytes,
                           dy_rollover_at := dy_next_rollover s ts_inp\<rparr>) });
          let (ts_msp, changed, ts_msp_retired) = r;
          let ts_lsp = TsNano_delta ts_inp ts_msp;
          Some ((ts_msp, ts_lsp, changed, ts_msp_retired), s') }"

definition MspSplitDyn_impl :: "MspSplitDyn MspSplit" where
  "MspSplitDyn_impl =
     \<lparr>ms_split = MspSplitDyn_split, ms_ts_msp_current = (\<lambda>s. Some (dy_last s)),
      ms_rt = (\<lambda>s. Some (dy_rt s))\<rparr>"

subsection \<open>fixgrid.rs\<close>

record MspSplitFixGrid =
  fg_grid_dt :: DtMs
  fg_last :: "TsNano option"

definition MspSplitFixGrid_new :: "DtMs \<Rightarrow> MspSplitFixGrid" where
  "MspSplitFixGrid_new grid_dt = \<lparr>fg_grid_dt = grid_dt, fg_last = None\<rparr>"

definition CHANNEL_STATUS_GRID :: DtMs where
  "CHANNEL_STATUS_GRID = 1000 * 60 * 60"

definition for_channel_status :: MspSplitFixGrid where
  "for_channel_status = MspSplitFixGrid_new CHANNEL_STATUS_GRID"

definition MspSplitFixGrid_split ::
    "MspSplitFixGrid \<Rightarrow> TsNano \<Rightarrow> u32 \<Rightarrow>
      ((TsNano \<times> DtNano \<times> bool \<times> TsNano option) \<times> MspSplitFixGrid) panics" where
  "MspSplitFixGrid_split s ts item_bytes =
     do { (msp, _) \<leftarrow> TsMs_to_grid_02 (TsNano_to_ts_ms ts) (fg_grid_dt s);
          let ((changed, ts_msp_retired), s') =
            (case fg_last s of
               Some ts_msp_last \<Rightarrow>
                 if TsMs_ns msp \<noteq> ts_msp_last
                 then ((True, Some ts_msp_last), s\<lparr>fg_last := Some (TsMs_ns msp)\<rparr>)
                 else ((False, None), s)
             | None \<Rightarrow> ((True, None), s));
          let msp = TsMs_ns msp;
          let lsp = TsNano_delta ts msp;
          Some ((msp, lsp, changed, ts_msp_retired), s') }"

text \<open>\<^verbatim>\<open>ts_msp_current\<close> and \<^verbatim>\<open>rt\<close> of the fixed grid are \<^verbatim>\<open>todo!()\<close>.\<close>

definition MspSplitFixGrid_impl :: "MspSplitFixGrid MspSplit" where
  "MspSplitFixGrid_impl =
     \<lparr>ms_split = MspSplitFixGrid_split, ms_ts_msp_current = (\<lambda>s. None), ms_rt = (\<lambda>s. None)\<rparr>"

section \<open>SeriesWriter (writer.rs)\<close>

record EmitRes =
  er_data_item :: DataValue
  er_bytes :: u32

record ('et, 'st) EmittableType =
  em_ts :: "'et \<Rightarrow> TsNano"
  em_has_change :: "'et \<Rightarrow> 'et \<Rightarrow> bool"
  em_byte_size :: "'et \<Rightarrow> u32"
  em_into_query_item :: "'et \<Rightarrow> Instant \<Rightarrow> TsNano \<Rightarrow> 'st \<Rightarrow> EmitRes \<times> 'st"

record WriterWriteRes =
  wr_bytes :: u32
  wr_msp_rewrite :: u8

record 's SeriesWriter =
  sw_series :: SeriesId
  sw_msp_split :: 's
  sw_evts_on_msp_write :: TsNano
  sw_evts_latest :: TsNano
  sw_ts_check_ts_msp_reput_last :: Instant
  sw_ts_ts_msp_put_last :: "Instant option"

definition SeriesWriter_new :: "SeriesId \<Rightarrow> 's \<Rightarrow> Instant \<Rightarrow> 's SeriesWriter" where
  "SeriesWriter_new series spl now =
     \<lparr>sw_series = series, sw_msp_split = spl, sw_evts_on_msp_write = 0, sw_evts_latest = 0,
      sw_ts_check_ts_msp_reput_last = now, sw_ts_ts_msp_put_last = None\<rparr>"

definition SeriesWriter_rt :: "'s MspSplit \<Rightarrow> 's SeriesWriter \<Rightarrow> RetentionTime panics" where
  "SeriesWriter_rt spl sw = ms_rt spl (sw_msp_split sw)"

definition MspItem_new :: "SeriesId \<Rightarrow> TsMs \<Rightarrow> Instant \<Rightarrow> MspItem" where
  "MspItem_new series ts_msp ts_net = \<lparr>mi_series = series, mi_ts_msp = ts_msp, mi_ts_net = ts_net\<rparr>"

definition SeriesWriter_write ::
    "('et, 'st) EmittableType \<Rightarrow> 's MspSplit \<Rightarrow> Instant \<Rightarrow> 'et \<Rightarrow> 'st \<Rightarrow> Instant \<Rightarrow> TsNano \<Rightarrow> deque \<Rightarrow>
      's SeriesWriter \<Rightarrow> (WriterWriteRes \<times> 'st \<times> deque \<times> 's SeriesWriter) panics" where
  "SeriesWriter_write em spl now item state ts_net tsev dq sw =
     do { let (res, state) = em_into_query_item em item ts_net tsev state;
          ((ts_msp, ts_lsp, ts_msp_chg, ts_msp_retired), s') \<leftarrow>
            ms_split spl (sw_msp_split sw) tsev (er_bytes res);
          let sw = sw\<lparr>sw_msp_split := s'\<rparr>;
          let (dq, msp_rewrite) =
            (case ts_msp_retired of
               Some msp \<Rightarrow> (dq @ [QMsp (MspItem_new (sw_series sw) (TsNano_to_ts_ms msp) ts_net)], 1)
             | None \<Rightarrow> (dq, 0));
          let (dq, sw) =
            (if ts_msp_chg
             then (dq @ [QMsp (MspItem_new (sw_series sw) (TsNano_to_ts_ms ts_msp) ts_net)],
                   sw\<lparr>sw_evts_on_msp_write := tsev, sw_ts_ts_msp_put_last := Some now\<rparr>)
             else (dq, sw));
          let ins = \<lparr>ii_series = sw_series sw, ii_ts_msp = TsNano_to_ts_ms ts_msp,
                     ii_ts_lsp = ts_lsp, ii_val = er_data_item res, ii_ts_net = ts_net\<rparr>;
          let dq = dq @ [QInsert ins];
          let sw = sw\<lparr>sw_evts_latest := tsev\<rparr>;
          Some (\<lparr>wr_bytes = er_bytes res, wr_msp_rewrite = msp_rewrite\<rparr>, state, dq, sw) }"

definition SeriesWriter_tick :: "deque \<Rightarrow> deque" where
  "SeriesWriter_tick dq = dq"

definition SeriesWriter_on_close ::
    "'s MspSplit \<Rightarrow> Instant \<Rightarrow> deque \<Rightarrow> 's SeriesWriter \<Rightarrow> (u8 \<times> deque) panics" where
  "SeriesWriter_on_close spl now dq sw =
     do { cur \<leftarrow> ms_ts_msp_current spl (sw_msp_split sw);
          let dq = (case cur of
            Some msp \<Rightarrow> dq @ [QMsp (MspItem_new (sw_series sw) (TsNano_to_ts_ms msp) now)]
          | None \<Rightarrow> dq);
          Some (1, dq) }"

text \<open>The two waiting times of \<^verbatim>\<open>housekeeping\<close> in nanoseconds: one minute and one hour.\<close>

definition SeriesWriter_housekeeping ::
    "'s MspSplit \<Rightarrow> Instant \<Rightarrow> deque \<Rightarrow> 's SeriesWriter \<Rightarrow> (u8 \<times> deque \<times> 's SeriesWriter) panics" where
  "SeriesWriter_housekeeping spl tsnow dq sw =
     (if sw_ts_check_ts_msp_reput_last sw + 1000 * 60 * 1000000 \<le> tsnow
      then let sw = sw\<lparr>sw_ts_check_ts_msp_reput_last := tsnow\<rparr> in
        case sw_ts_ts_msp_put_last sw of
          Some put_last \<Rightarrow>
            if put_last + 1000 * 60 * 60 * 1000000 \<le> tsnow
            then if sw_evts_latest sw \<noteq> sw_evts_on_msp_write sw
              then do { cur \<leftarrow> ms_ts_msp_current spl (sw_msp_split sw);
                        case cur of
                          Some msp \<Rightarrow>
                            Some (1, dq @ [QMsp (MspItem_new (sw_series sw) (TsNano_to_ts_ms msp) tsnow)],
                              sw\<lparr>sw_ts_ts_msp_put_last := Some tsnow,
                                 sw_evts_on_msp_write := sw_evts_latest sw\<rparr>)
                        | None \<Rightarrow> Some (0, dq, sw) }
              else Some (0, dq, sw)
            else Some (0, dq, sw)
        | None \<Rightarrow> Some (0, dq, sw)
      else Some (0, dq, sw))"

subsection \<open>fixgridwriter.rs\<close>

datatype ChannelStatusWriteValue = ChannelStatusWriteValue TsNano u64

definition ChannelStatusWriteValue_impl :: "(ChannelStatusWriteValue, unit) EmittableType" where
  "ChannelStatusWriteValue_impl =
     \<lparr>em_ts = (\<lambda>v. case v of ChannelStatusWriteValue ts _ \<Rightarrow> ts),
      em_has_change = (\<lambda>v k. True),
      em_byte_size = (\<lambda>v. 8),
      em_into_query_item = (\<lambda>v ts_net tsev st. case v of ChannelStatusWriteValue _ x \<Rightarrow>
        (\<lparr>er_data_item = DvScalar (SvU64 x), er_bytes = 8\<rparr>, st))\<rparr>"

section \<open>RateLimitWriter (ratelimitwriter.rs)\<close>

record RlWriteRes =
  rl_accept :: bool
  rl_bytes :: u32
  rl_msp_rewrite :: u8
  rl_ignore_monitor_not_min_quiet :: u8
  rl_ignore_poll_not_min_quiet :: u8
  rl_ignore_rate_cap :: u8

record ('et, 'st, 's) RateLimitWriter =
  rl_series :: SeriesId
  rl_min_quiet :: Duration
  rl_is_polled :: bool
  rl_emit_state :: 'st
  rl_last_insert_ts :: TsNano
  rl_last_insert_val :: "'et option"
  rl_writer :: "'s SeriesWriter"

definition RateLimitWriter_new ::
    "SeriesId \<Rightarrow> Duration \<Rightarrow> bool \<Rightarrow> 'st \<Rightarrow> 's \<Rightarrow> Instant \<Rightarrow> ('et, 'st, 's) RateLimitWriter" where
  "RateLimitWriter_new series min_quiet is_polled emit_state spl now =
     \<lparr>rl_series = series, rl_min_quiet = min_quiet, rl_is_polled = is_polled,
      rl_emit_state = emit_state, rl_last_insert_ts = 0, rl_last_insert_val = None,
      rl_writer = SeriesWriter_new series spl now\<rparr>"

definition RateLimitWriter_write_force ::
    "('et, 'st) EmittableType \<Rightarrow> 's MspSplit \<Rightarrow> Instant \<Rightarrow> 'et \<Rightarrow> Instant \<Rightarrow> TsNano \<Rightarrow> deque \<Rightarrow>
      ('et, 'st, 's) RateLimitWriter \<Rightarrow> (RlWriteRes \<times> deque \<times> ('et, 'st, 's) RateLimitWriter) panics" where
  "RateLimitWriter_write_force em spl now item ts_net tsev dq w =
     do { let w = w\<lparr>rl_last_insert_ts := tsev, rl_last_insert_val := Some item\<rparr>;
          (res, st, dq, sw) \<leftarrow>
            SeriesWriter_write em spl now item (rl_emit_state w) ts_net tsev dq (rl_writer w);
          Some (\<lparr>rl_accept = True, rl_bytes = wr_bytes res, rl_msp_rewrite = wr_msp_rewrite res,
                 rl_ignore_monitor_not_min_quiet = 0, rl_ignore_poll_not_min_quiet = 0,
                 rl_ignore_rate_cap = 0\<rparr>,
                dq, w\<lparr>rl_emit_state := st, rl_writer := sw\<rparr>) }"

definition min_quiet_ms :: "Duration \<Rightarrow> u64" where
  "min_quiet_ms d = 1000 * of_nat (d div 1000000000) + of_nat (d mod 1000000000 div 1000000)"

datatype rl_decision = MonitorNotMinQuiet | PollNotMinQuiet | RateCap | Accept

definition rl_decide :: "('et, 'st, 's) RateLimitWriter \<Rightarrow> TsNano \<Rightarrow> rl_decision" where
  "rl_decide w ts =
     (let min_quiet = min_quiet_ms (rl_min_quiet w);
          tsl = rl_last_insert_ts w in
      if \<not> rl_is_polled w \<and> TsNano_ms ts < TsNano_ms tsl + min_quiet then MonitorNotMinQuiet
      else if rl_is_polled w \<and> TsNano_ms ts + 800 < TsNano_ms tsl + min_quiet then PollNotMinQuiet
      else if ts < TsNano_add_dt_nano tsl (DtNano_from_ms 1) then RateCap
      else Accept)"

definition RateLimitWriter_write ::
    "('et, 'st) EmittableType \<Rightarrow> 's MspSplit \<Rightarrow> Instant \<Rightarrow> 'et \<Rightarrow> Instant \<Rightarrow> TsNano \<Rightarrow> deque \<Rightarrow>
      ('et, 'st, 's) RateLimitWriter \<Rightarrow> (RlWriteRes \<times> deque \<times> ('et, 'st, 's) RateLimitWriter) panics" where
  "RateLimitWriter_write em spl now item ts_net ts dq w =
     (let d = rl_decide w ts;
          ign_mon = (if d = MonitorNotMinQuiet then 1 else 0);
          ign_poll = (if d = PollNotMinQuiet then 1 else 0);
          ign_cap = (if d = RateCap then 1 else 0) in
      if d = Accept
      then do { let w = w\<lparr>rl_last_insert_ts := ts, rl_last_insert_val := Some item\<rparr>;
                (res, st, dq, sw) \<leftarrow>
                  SeriesWriter_write em spl now item (rl_emit_state w) ts_net ts dq (rl_writer w);
                Some (\<lparr>rl_accept = True, rl_bytes = wr_bytes res, rl_msp_rewrite = wr_msp_rewrite res,
                       rl_ignore_monitor_not_min_quiet = ign_mon,
                       rl_ignore_poll_not_min_quiet = ign_poll, rl_ignore_rate_cap = ign_cap\<rparr>,
                      dq, w\<lparr>rl_emit_state := st, rl_writer := sw\<rparr>) }
      else Some (\<lparr>rl_accept = False, rl_bytes = 0, rl_msp_rewrite = 0,
                  rl_ignore_monitor_not_min_quiet = ign_mon,
                  rl_ignore_poll_not_min_quiet = ign_poll, rl_ignore_rate_cap = ign_cap\<rparr>,
                 dq, w))"

definition RateLimitWriter_tick :: "deque \<Rightarrow> deque" where
  "RateLimitWriter_tick dq = SeriesWriter_tick dq"

definition RateLimitWriter_on_close ::
    "'s MspSplit \<Rightarrow> Instant \<Rightarrow> deque \<Rightarrow> ('et, 'st, 's) RateLimitWriter \<Rightarrow> deque panics" where
  "RateLimitWriter_on_close spl now dq w =
     do { (_, dq) \<leftarrow> SeriesWriter_on_close spl now dq (rl_writer w); Some dq }"

definition RateLimitWriter_housekeeping ::
    "'s MspSplit \<Rightarrow> Instant \<Rightarrow> deque \<Rightarrow> ('et, 'st, 's) RateLimitWriter \<Rightarrow>
      (u8 \<times> deque \<times> ('et, 'st, 's) RateLimitWriter) panics" where
  "RateLimitWriter_housekeeping spl now dq w =
     do { (n, dq, sw) \<leftarrow> SeriesWriter_housekeeping spl now dq (rl_writer w);
          Some (n, dq, w\<lparr>rl_writer := sw\<rparr>) }"

section \<open>Sequences of writes\<close>

text \<open>Each event with the clock, the arrival time and the timestamp of its write.\<close>

type_synonym 'et write_ev = "Instant \<times> 'et \<times> Instant \<times> TsNano"

abbreviation ev_ts :: "'et write_ev \<Rightarrow> TsNano" where
  "ev_ts e \<equiv> snd (snd (snd e))"

fun sw_write_all ::
    "('et, 'st) EmittableType \<Rightarrow> 's MspSplit \<Rightarrow> 'et write_ev list \<Rightarrow> 'st \<Rightarrow> deque \<Rightarrow>
      's SeriesWriter \<Rightarrow> ('st \<times> deque \<times> 's SeriesWriter) panics" where
  "sw_write_all em spl [] st dq sw = Some (st, dq, sw)"
| "sw_write_all em spl ((now, item, ts_net, tsev) # evs) st dq sw =
     do { (_, st, dq, sw) \<leftarrow> SeriesWriter_write em spl now item st ts_net tsev dq sw;
          sw_write_all em spl evs st dq sw }"

fun rl_write_all ::
    "('et, 'st) EmittableType \<Rightarrow> 's MspSplit \<Rightarrow> 'et write_ev list \<Rightarrow> deque \<Rightarrow>
      ('et, 'st, 's) RateLimitWriter \<Rightarrow> (TsNano list \<times> deque \<times> ('et, 'st, 's) RateLimitWriter) panics" where
  "rl_write_all em spl [] dq w = Some ([], dq, w)"
| "rl_write_all em spl ((now, item, ts_net, tsev) # evs) dq w =
     do { (res, dq, w) \<leftarrow> RateLimitWriter_write em spl now item ts_net tsev dq w;
          (acc, dq, w) \<leftarrow> rl_write_all em spl evs dq w;
          Some (if rl_accept res then tsev # acc else acc, dq, w) }"

section \<open>Index entries\<close>

text \<open>
  The partitions announced by a sequence of items, and that every inserted row of the sequence
  belongs to a partition announced before it.
\<close>

fun announced :: "(SeriesId \<times> TsMs) set \<Rightarrow> deque \<Rightarrow> (SeriesId \<times> TsMs) set" where
  "announced A [] = A"
| "announced A (QMsp m # q) = announced (insert (mi_series m, mi_ts_msp m) A) q"
| "announced A (_ # q) = announced A q"

fun indexed :: "(SeriesId \<times> TsMs) set \<Rightarrow> deque \<Rightarrow> bool" where
  "indexed A [] \<longleftrightarrow> True"
| "indexed A (QMsp m # q) \<longleftrightarrow> indexed (insert (mi_series m, mi_ts_msp m) A) q"
| "indexed A (QInsert i # q) \<longleftrightarrow> (ii_series i, ii_ts_msp i) \<in> A \<and> indexed A q"
| "indexed A (_ # q) \<longleftrightarrow> indexed A q"

lemma announced_append [simp]: "announced A (p @ q) = announced (announced A p) q"
  by (induction A p rule: announced.induct) simp_all

lemma indexed_append [simp]: "indexed A (p @ q) \<longleftrightarrow> indexed A p \<and> indexed (announced A p) q"
  by (induction A p rule: indexed.induct) simp_all

lemma announced_mono: "A \<subseteq> announced A q"
  by (induction A q rule: announced.induct) auto

text \<open>The rows of a sequence of items, with the timestamp a reader reconstructs.\<close>

fun rows :: "deque \<Rightarrow> (TsNano \<times> DataValue) list" where
  "rows [] = []"
| "rows (QInsert i # q) = (row_to_ts (ii_ts_msp i) (DtNano_to_i64 (ii_ts_lsp i)), ii_val i) # rows q"
| "rows (_ # q) = rows q"

lemma rows_append [simp]: "rows (p @ q) = rows p @ rows q"
  by (induction p rule: rows.induct) simp_all

lemma row_to_ts_split:
  assumes "unat msp mod 1000000 = 0"
  shows "row_to_ts (TsNano_to_ts_ms msp) (DtNano_to_i64 (ts - msp)) = ts"
proof -
  have "unat (1000000 * (msp div 1000000)) = unat msp"
  proof -
    have "unat msp div 1000000 * 1000000 = unat msp" using assms by auto
    then show ?thesis
      using unat_u64_lt [of msp]
      by (subst unat_mult_u64) (simp_all add: unat_div_u64 mult.commute del: unat_u64_lt)
  qed
  then have "1000000 * (msp div 1000000) = msp" by (rule unsigned_word_eqI)
  then show ?thesis
    by (simp add: row_to_ts_def TsNano_to_ts_ms_def TsNano_ms_def TsMs_ns_u64_def DtNano_to_i64_def)
qed

section \<open>The contract of a splitter\<close>

text \<open>
  \<open>cur\<close> is the partition the splitter is in, if any. A split names a partition that lies on the
  millisecond grid and the offset in it; without a change the partition is the current one; a
  retired partition was the current one.
\<close>

locale msp_split =
  fixes spl :: "'s MspSplit"
    and inv :: "'s \<Rightarrow> bool"
    and cur :: "'s \<Rightarrow> TsNano option"
  assumes split_total: "inv s \<Longrightarrow> \<exists>r s'. ms_split spl s ts n = Some (r, s')"
    and split_inv: "inv s \<Longrightarrow> ms_split spl s ts n = Some (r, s') \<Longrightarrow> inv s'"
    and split_cur: "inv s \<Longrightarrow> ms_split spl s ts n = Some ((msp, lsp, chg, ret), s') \<Longrightarrow>
      cur s' = None \<or> cur s' = Some msp"
    and split_unchanged: "inv s \<Longrightarrow> ms_split spl s ts n = Some ((msp, lsp, False, ret), s') \<Longrightarrow>
      cur s = Some msp"
    and split_retired: "inv s \<Longrightarrow> ms_split spl s ts n = Some ((msp, lsp, chg, Some m), s') \<Longrightarrow>
      cur s = Some m"
    and split_lsp: "inv s \<Longrightarrow> ms_split spl s ts n = Some ((msp, lsp, chg, ret), s') \<Longrightarrow>
      lsp = ts - msp \<and> unat msp mod 1000000 = 0"
begin

text \<open>A writer is good if the partition its splitter is in has been announced.\<close>

definition writer_ok :: "(SeriesId \<times> TsMs) set \<Rightarrow> 's SeriesWriter \<Rightarrow> bool" where
  "writer_ok A sw \<longleftrightarrow> inv (sw_msp_split sw) \<and>
     (\<forall>m. cur (sw_msp_split sw) = Some m \<longrightarrow> (sw_series sw, TsNano_to_ts_ms m) \<in> A)"

lemma writer_ok_new: "inv s \<Longrightarrow> cur s = None \<Longrightarrow> writer_ok A (SeriesWriter_new series s now)"
  by (simp add: writer_ok_def SeriesWriter_new_def)

lemma writer_ok_mono: "writer_ok A sw \<Longrightarrow> A \<subseteq> B \<Longrightarrow> writer_ok B sw"
  by (auto simp: writer_ok_def)

lemma write_ok:
  assumes "writer_ok A sw"
  obtains res st' new sw' where
    "SeriesWriter_write em spl now item st ts_net tsev dq sw = Some (res, st', dq @ new, sw')"
    "writer_ok (announced A new) sw'" "indexed A new" "sw_series sw' = sw_series sw"
    "rows new = [(tsev, er_data_item (fst (em_into_query_item em item ts_net tsev st)))]"
    "st' = snd (em_into_query_item em item ts_net tsev st)"
proof -
  obtain er st' where er: "em_into_query_item em item ts_net tsev st = (er, st')" by fastforce
  have inv: "inv (sw_msp_split sw)" using assms by (simp add: writer_ok_def)
  obtain msp lsp chg ret s' where
    sp: "ms_split spl (sw_msp_split sw) tsev (er_bytes er) = Some ((msp, lsp, chg, ret), s')"
    using split_total [OF inv] by (metis prod.exhaust)
  let ?msp = "\<lambda>m. QMsp (MspItem_new (sw_series sw) (TsNano_to_ts_ms m) ts_net)"
  let ?ins = "\<lparr>ii_series = sw_series sw, ii_ts_msp = TsNano_to_ts_ms msp, ii_ts_lsp = lsp,
    ii_val = er_data_item er, ii_ts_net = ts_net\<rparr>"
  let ?new = "(case ret of Some r \<Rightarrow> [?msp r] | None \<Rightarrow> []) @ (if chg then [?msp msp] else []) @ [QInsert ?ins]"
  let ?sw = "(if chg then sw\<lparr>sw_msp_split := s', sw_evts_on_msp_write := tsev,
      sw_ts_ts_msp_put_last := Some now, sw_evts_latest := tsev\<rparr>
    else sw\<lparr>sw_msp_split := s', sw_evts_latest := tsev\<rparr>)"
  have 1: "SeriesWriter_write em spl now item st ts_net tsev dq sw
      = Some (\<lparr>wr_bytes = er_bytes er, wr_msp_rewrite = (if ret = None then 0 else 1)\<rparr>, st',
          dq @ ?new, ?sw)"
    by (cases ret; cases chg) (simp_all add: SeriesWriter_write_def er sp)
  have mem: "chg \<or> (sw_series sw, TsNano_to_ts_ms msp) \<in> A"
    using split_unchanged [OF inv, of tsev "er_bytes er" msp lsp ret s'] sp assms
    by (cases chg) (auto simp: writer_ok_def)
  have 2: "indexed A ?new"
    using mem by (cases ret; cases chg) (auto simp: MspItem_new_def)
  have "(sw_series sw, TsNano_to_ts_ms msp) \<in> announced A ?new"
    using mem by (cases ret; cases chg) (auto simp: MspItem_new_def)
  then have 3: "writer_ok (announced A ?new) ?sw"
    using split_inv [OF inv sp] split_cur [OF inv sp] by (cases chg) (auto simp: writer_ok_def)
  have "lsp = tsev - msp" "unat msp mod 1000000 = 0" using split_lsp [OF inv sp] by simp_all
  then have 4: "rows ?new = [(tsev, er_data_item er)]"
    by (cases ret; cases chg) (simp_all add: row_to_ts_split)
  show ?thesis
    by (rule that [OF 1 3 2 _ _]) (use 4 er in simp_all)
qed

text \<open>The re-announcements of \<^verbatim>\<open>housekeeping\<close> keep the writer good and insert nothing.\<close>

lemma housekeeping_ok:
  assumes "writer_ok A sw" and "SeriesWriter_housekeeping spl now dq sw = Some (n, dq', sw')"
  shows "\<exists>new. dq' = dq @ new \<and> indexed B new \<and> rows new = [] \<and> writer_ok A sw'"
proof -
  have "\<exists>new. dq' = dq @ new \<and> indexed B new \<and> rows new = []"
    using assms(2)
    by (auto simp: SeriesWriter_housekeeping_def Let_def bind_eq_Some_conv
        split: if_splits option.splits)
  moreover have "sw_msp_split sw' = sw_msp_split sw \<and> sw_series sw' = sw_series sw"
    using assms(2)
    by (auto simp: SeriesWriter_housekeeping_def Let_def bind_eq_Some_conv
        split: if_splits option.splits)
  then have "writer_ok A sw'" using assms(1) by (simp add: writer_ok_def)
  ultimately show ?thesis by blast
qed

lemma write_all_ok:
  assumes "writer_ok A sw"
  shows "\<exists>st' new sw'. sw_write_all em spl evs st dq sw = Some (st', dq @ new, sw') \<and>
    writer_ok (announced A new) sw' \<and> indexed A new \<and> map fst (rows new) = map ev_ts evs"
  using assms
proof (induction evs arbitrary: A st dq sw)
  case Nil
  then show ?case by (auto intro!: exI [of _ "[]"])
next
  case (Cons e evs)
  obtain now item ts_net tsev where e: "e = (now, item, ts_net, tsev)" by (cases e)
  obtain res st1 new1 sw1 where w:
    "SeriesWriter_write em spl now item st ts_net tsev dq sw = Some (res, st1, dq @ new1, sw1)"
    "writer_ok (announced A new1) sw1" "indexed A new1" "map fst (rows new1) = [tsev]"
    by (rule write_ok [OF Cons.prems, of em now item st ts_net tsev dq]) auto
  obtain st2 new2 sw2 where r: "sw_write_all em spl evs st1 (dq @ new1) sw1 = Some (st2, (dq @ new1) @ new2, sw2)"
    "writer_ok (announced (announced A new1) new2) sw2" "indexed (announced A new1) new2"
    "map fst (rows new2) = map ev_ts evs"
    using Cons.IH [OF w(2)] by blast
  show ?case
    using w r by (intro exI [of _ st2] exI [of _ "new1 @ new2"] exI [of _ sw2]) (simp add: e)
qed

text \<open>The rate limiter passes a write on to its writer or leaves everything as it is.\<close>

lemma rl_write_ok:
  assumes "writer_ok A (rl_writer w)"
  obtains res new w' where
    "RateLimitWriter_write em spl now item ts_net ts dq w = Some (res, dq @ new, w')"
    "writer_ok (announced A new) (rl_writer w')" "indexed A new"
    "rl_min_quiet w' = rl_min_quiet w" "rl_is_polled w' = rl_is_polled w"
    "rl_accept res \<longleftrightarrow> rl_decide w ts = Accept"
    "rl_accept res \<longrightarrow> map fst (rows new) = [ts] \<and> rl_last_insert_ts w' = ts \<and> rl_last_insert_val w' = Some item"
    "\<not> rl_accept res \<longrightarrow> new = [] \<and> w' = w"
proof (cases "rl_decide w ts = Accept")
  case True
  obtain res st1 new sw1 where "SeriesWriter_write em spl now item (rl_emit_state w) ts_net ts dq (rl_writer w)
      = Some (res, st1, dq @ new, sw1)"
    "writer_ok (announced A new) sw1" "indexed A new" "map fst (rows new) = [ts]"
    by (rule write_ok [OF assms, of em now item "rl_emit_state w" ts_net ts dq]) auto
  then show ?thesis
    using True
    by (intro that [of "\<lparr>rl_accept = True, rl_bytes = wr_bytes res, rl_msp_rewrite = wr_msp_rewrite res,
        rl_ignore_monitor_not_min_quiet = 0, rl_ignore_poll_not_min_quiet = 0, rl_ignore_rate_cap = 0\<rparr>"
        new "w\<lparr>rl_last_insert_ts := ts, rl_last_insert_val := Some item, rl_emit_state := st1,
          rl_writer := sw1\<rparr>"])
      (simp_all add: RateLimitWriter_write_def)
next
  case False
  let ?flag = "\<lambda>d. if rl_decide w ts = d then 1 else 0"
  have "RateLimitWriter_write em spl now item ts_net ts dq w =
      Some (\<lparr>rl_accept = False, rl_bytes = 0, rl_msp_rewrite = 0,
        rl_ignore_monitor_not_min_quiet = ?flag MonitorNotMinQuiet,
        rl_ignore_poll_not_min_quiet = ?flag PollNotMinQuiet,
        rl_ignore_rate_cap = ?flag RateCap\<rparr>, dq @ [], w)"
    using False by (simp add: RateLimitWriter_write_def Let_def)
  then show ?thesis
    by (rule that) (use assms False in simp_all)
qed

end

section \<open>The dynamic splitter\<close>

definition dy_grid :: "TsNano \<Rightarrow> TsNano" where
  "dy_grid ts = ts div (SEC * 2) * (SEC * 2)"

lemma unat_SEC2: "unat (SEC * 2) = 2000000000"
  by (simp add: timeunits)

lemma unat_dy_grid: "unat (dy_grid ts) = unat ts div 2000000000 * 2000000000"
proof -
  have "unat ts div 2000000000 * 2000000000 \<le> unat ts" by simp
  then have "unat ts div 2000000000 * 2000000000 < 2 ^ 64"
    using unat_u64_lt [of ts] by (simp del: unat_u64_lt)
  then show ?thesis
    unfolding dy_grid_def by (subst unat_mult_u64) (simp_all only: unat_div_u64 unat_SEC2)
qed

lemma dy_grid_ms: "unat (dy_grid ts) mod 1000000 = 0"
proof -
  have "unat (dy_grid ts) = 1000000 * (unat ts div 2000000000 * 2000)" by (simp add: unat_dy_grid)
  then show ?thesis by simp
qed

lemma dy_grid_le: "dy_grid ts \<le> ts" "unat ts < unat (dy_grid ts) + 2000000000"
  using floor_to_grid [of 2000000000 "unat ts"] by (simp_all add: word_le_nat_alt unat_dy_grid)

lemma MspSplitDyn_split_eq:
  "MspSplitDyn_split s ts n =
     (let rolled = s\<lparr>dy_last := Some (dy_grid ts), dy_count := 1, dy_bytes := n,
                     dy_rollover_at := dy_next_rollover s ts\<rparr> in
      Some (case dy_last s of
        Some l \<Rightarrow>
          if dy_count s \<ge> dy_count_max s \<or> dy_bytes s \<ge> dy_bytes_max s \<or> dy_rollover_at s \<le> ts
          then if dy_grid ts = l then ((l, ts - l, False, None), s)
               else ((dy_grid ts, ts - dy_grid ts, True, Some l), rolled)
          else ((l, ts - l, False, None), s\<lparr>dy_count := dy_count s + 1, dy_bytes := dy_bytes s + n\<rparr>)
      | None \<Rightarrow> ((dy_grid ts, ts - dy_grid ts, True, None), rolled)))"
proof -
  have nz: "SEC * 2 \<noteq> 0" by (simp add: timeunits)
  show ?thesis
    by (simp add: MspSplitDyn_split_def TsNano_div_def TsNano_mul_def TsNano_delta_def nz Let_def
        dy_grid_def [symmetric] split: option.split)
qed

definition dy_inv :: "MspSplitDyn \<Rightarrow> bool" where
  "dy_inv s \<longleftrightarrow> (case dy_last s of Some m \<Rightarrow> unat m mod 1000000 = 0 | None \<Rightarrow> True)"

interpretation dyn: msp_split MspSplitDyn_impl dy_inv dy_last
  by unfold_locales
    (auto simp: MspSplitDyn_impl_def MspSplitDyn_split_eq Let_def dy_inv_def dy_grid_ms
      split: option.splits if_splits)

section \<open>The fixed grid splitter\<close>

definition fg_inv :: "MspSplitFixGrid \<Rightarrow> bool" where
  "fg_inv s \<longleftrightarrow> fg_grid_dt s \<noteq> 0"

definition fg_msp :: "MspSplitFixGrid \<Rightarrow> TsNano \<Rightarrow> TsNano" where
  "fg_msp s ts = TsMs_ns (TsNano_to_ts_ms ts div fg_grid_dt s * fg_grid_dt s)"

lemma fg_msp_ms: "unat (fg_msp s ts) mod 1000000 = 0"
proof -
  let ?g = "unat (fg_grid_dt s)" and ?t = "unat ts div 1000000"
  have le: "?t div ?g * ?g \<le> ?t" by simp
  also have "?t \<le> unat ts" by simp
  finally have "?t div ?g * ?g < 2 ^ 64"
    using unat_u64_lt [of ts] by (simp del: unat_u64_lt)
  then have "unat (TsNano_to_ts_ms ts div fg_grid_dt s * fg_grid_dt s) = ?t div ?g * ?g"
    by (subst unat_mult_u64)
      (simp_all add: TsNano_to_ts_ms_def TsNano_ms_def unat_div_u64)
  moreover have "1000000 * (?t div ?g * ?g) \<le> 1000000 * ?t"
    using le by (rule mult_le_mono2)
  then have "1000000 * (?t div ?g * ?g) \<le> unat ts"
    by (rule order_trans) simp
  then have "1000000 * (?t div ?g * ?g) < 2 ^ 64"
    using unat_u64_lt [of ts] by (rule le_less_trans [THEN less_le_trans]) simp
  ultimately have "unat (fg_msp s ts) = 1000000 * (?t div ?g * ?g)"
    unfolding fg_msp_def TsMs_ns_def TsNano_from_ms_def by (subst unat_mult_u64) simp_all
  then show ?thesis by simp
qed

lemma MspSplitFixGrid_split_eq:
  assumes "fg_inv s"
  shows "MspSplitFixGrid_split s ts n =
     Some (case fg_last s of
       Some l \<Rightarrow> if fg_msp s ts \<noteq> l
         then ((fg_msp s ts, ts - fg_msp s ts, True, Some l), s\<lparr>fg_last := Some (fg_msp s ts)\<rparr>)
         else ((fg_msp s ts, ts - fg_msp s ts, False, None), s)
     | None \<Rightarrow> ((fg_msp s ts, ts - fg_msp s ts, True, None), s))"
  using assms
  by (simp add: MspSplitFixGrid_split_def fg_inv_def to_grid_02_Some fg_msp_def TsNano_delta_def Let_def
      split: option.split)

interpretation fixg: msp_split MspSplitFixGrid_impl fg_inv fg_last
  by unfold_locales
    (auto simp: MspSplitFixGrid_impl_def MspSplitFixGrid_split_eq fg_msp_ms fg_inv_def
      split: option.splits if_splits)

section \<open>Bounds of the dynamic splitter\<close>

text \<open>The rollover time of a partition is at most one rollover interval behind its first event.\<close>

definition dy_wf :: "MspSplitDyn \<Rightarrow> bool" where
  "dy_wf s \<longleftrightarrow> (case dy_last s of
     Some m \<Rightarrow> unat (dy_rollover_at s) < unat m + 2000000000 + msp_rollover_ivl (dy_rt s)
   | None \<Rightarrow> True)"

lemma unat_next_rollover:
  assumes "unat ts + msp_rollover_ivl (dy_rt s) < 2 ^ 64"
  shows "unat (dy_next_rollover s ts) = unat ts + msp_rollover_ivl (dy_rt s)"
proof -
  have "unat (DtNano_from_ms (1000 * of_nat (Duration_as_secs (msp_rollover_ivl (dy_rt s)))))
      = msp_rollover_ivl (dy_rt s)"
    by (cases "dy_rt s") (simp_all add: DtNano_from_ms_def Duration_as_secs_def Duration_from_secs_def)
  then show ?thesis
    using assms by (simp add: dy_next_rollover_def TsNano_add_dt_nano_def unat_add_u64)
qed

lemma dy_split_bound:
  assumes "dy_wf s" and "\<forall>m. dy_last s = Some m \<longrightarrow> m \<le> ts"
    and "unat ts + msp_rollover_ivl (dy_rt s) < 2 ^ 64"
    and "MspSplitDyn_split s ts n = Some ((msp, lsp, chg, ret), s')"
  shows "dy_wf s' \<and> dy_rt s' = dy_rt s \<and> dy_last s' = Some msp \<and> msp \<le> ts \<and>
    unat lsp < msp_rollover_ivl (dy_rt s) + 2000000000"
proof -
  have grid: "unat (ts - dy_grid ts) < 2000000000"
    using dy_grid_le [of ts] by (simp add: unat_sub_u64)
  have roll: "unat (dy_next_rollover s ts) < unat (dy_grid ts) + 2000000000 + msp_rollover_ivl (dy_rt s)"
    using unat_next_rollover [OF assms(3)] dy_grid_le(2) [of ts] by simp
  consider "dy_last s = None"
    | "dy_last s = Some (dy_grid ts)"
    | l where "dy_last s = Some l" "l \<noteq> dy_grid ts"
        "dy_count s \<ge> dy_count_max s \<or> dy_bytes s \<ge> dy_bytes_max s \<or> dy_rollover_at s \<le> ts"
    | l where "dy_last s = Some l" "l \<noteq> dy_grid ts" "dy_count s < dy_count_max s"
        "dy_bytes s < dy_bytes_max s" "ts < dy_rollover_at s"
    by (metis not_le option.exhaust)
  then show ?thesis
  proof cases
    case 1
    then show ?thesis
      using assms(4) grid roll dy_grid_le(1) [of ts]
      by (auto simp: MspSplitDyn_split_eq Let_def dy_wf_def)
  next
    case 2
    then show ?thesis
      using assms(1,4) grid dy_grid_le(1) [of ts]
      by (auto simp: MspSplitDyn_split_eq Let_def dy_wf_def split: if_splits)
  next
    case 3
    then show ?thesis
      using assms(4) grid roll dy_grid_le(1) [of ts]
      by (auto simp: MspSplitDyn_split_eq Let_def dy_wf_def)
  next
    case (4 l)
    have "l \<le> ts" using assms(2) 4(1) by blast
    moreover have "unat ts < unat l + 2000000000 + msp_rollover_ivl (dy_rt s)"
      using assms(1) 4(1,5) by (simp add: dy_wf_def word_less_nat_alt)
    ultimately have "unat (ts - l) < msp_rollover_ivl (dy_rt s) + 2000000000"
      by (simp add: unat_sub_u64)
    moreover have "\<not> (dy_count s \<ge> dy_count_max s \<or> dy_bytes s \<ge> dy_bytes_max s \<or> dy_rollover_at s \<le> ts)"
      using 4(3,4,5) by (simp add: not_le)
    ultimately show ?thesis
      using assms(1,4) 4(1) \<open>l \<le> ts\<close>
      by (auto simp: MspSplitDyn_split_eq Let_def dy_wf_def)
  qed
qed

fun dy_split_all :: "(TsNano \<times> u32) list \<Rightarrow> MspSplitDyn \<Rightarrow> ((TsNano \<times> TsNano \<times> DtNano) list \<times> MspSplitDyn) panics" where
  "dy_split_all [] s = Some ([], s)"
| "dy_split_all ((ts, n) # evs) s =
     do { ((msp, lsp, _, _), s) \<leftarrow> MspSplitDyn_split s ts n;
          (rs, s) \<leftarrow> dy_split_all evs s;
          Some ((ts, msp, lsp) # rs, s) }"

lemma dy_split_all_bound:
  assumes "dy_wf s" and "\<forall>m e. dy_last s = Some m \<longrightarrow> e \<in> set evs \<longrightarrow> m \<le> fst e"
    and "sorted (map fst evs)" and "\<forall>e \<in> set evs. unat (fst e) + msp_rollover_ivl (dy_rt s) < 2 ^ 64"
  shows "\<exists>rs s'. dy_split_all evs s = Some (rs, s') \<and> length rs = length evs \<and>
    (\<forall>(ts, msp, lsp) \<in> set rs. msp \<le> ts \<and> unat lsp < msp_rollover_ivl (dy_rt s) + 2000000000)"
  using assms
proof (induction evs arbitrary: s)
  case Nil
  then show ?case by simp
next
  case (Cons e evs)
  obtain ts n where e: "e = (ts, n)" by (cases e)
  obtain x where x: "MspSplitDyn_split s ts n = Some x"
    by (simp add: MspSplitDyn_split_eq Let_def)
  obtain msp lsp chg ret s1 where "x = ((msp, lsp, chg, ret), s1)"
    by (metis prod.exhaust)
  with x have sp: "MspSplitDyn_split s ts n = Some ((msp, lsp, chg, ret), s1)" by simp
  have b: "dy_wf s1" "dy_rt s1 = dy_rt s" "dy_last s1 = Some msp" "msp \<le> ts"
    "unat lsp < msp_rollover_ivl (dy_rt s) + 2000000000"
    using dy_split_bound [OF Cons.prems(1) _ _ sp] Cons.prems(2,4) by (auto simp: e)
  have "\<exists>rs s'. dy_split_all evs s1 = Some (rs, s') \<and> length rs = length evs \<and>
    (\<forall>(ts, msp, lsp) \<in> set rs. msp \<le> ts \<and> unat lsp < msp_rollover_ivl (dy_rt s1) + 2000000000)"
  proof (rule Cons.IH)
    show "dy_wf s1" by (rule b(1))
    have "ts \<le> fst e" if "e \<in> set evs" for e
      using Cons.prems(3) that by (simp add: e)
    then show "\<forall>m e. dy_last s1 = Some m \<longrightarrow> e \<in> set evs \<longrightarrow> m \<le> fst e"
      using b(3,4) order_trans by fastforce
    show "sorted (map fst evs)" using Cons.prems(3) by simp
    show "\<forall>e \<in> set evs. unat (fst e) + msp_rollover_ivl (dy_rt s1) < 2 ^ 64"
      using Cons.prems(4) b(2) by simp
  qed
  then show ?case using sp b by (auto simp: e)
qed

section \<open>Distance of accepted events\<close>

lemma unat_min_quiet_ms:
  assumes "d < 2 ^ 63"
  shows "unat (min_quiet_ms d) = d div 1000000"
proof -
  have q: "d div 1000000000 < 2 ^ 34" using assms by simp
  have eq: "1000 * (d div 1000000000) + d mod 1000000000 div 1000000 = d div 1000000"
  proof -
    have "d = d mod 1000000000 + (1000 * (d div 1000000000)) * 1000000" by simp
    moreover have "(d mod 1000000000 + (1000 * (d div 1000000000)) * 1000000) div 1000000
        = 1000 * (d div 1000000000) + d mod 1000000000 div 1000000"
      by (rule div_mult_self1) simp
    ultimately show ?thesis by metis
  qed
  have "min_quiet_ms d = of_nat (1000 * (d div 1000000000) + d mod 1000000000 div 1000000)"
    by (simp add: min_quiet_ms_def)
  moreover have "d div 1000000 < 2 ^ 64" using assms by simp
  ultimately show ?thesis
    by (simp only: eq) (simp add: unat_of_nat)
qed

definition rl_gap :: "bool \<Rightarrow> Duration \<Rightarrow> TsNano \<Rightarrow> TsNano \<Rightarrow> bool" where
  "rl_gap polled quiet a b \<longleftrightarrow> unat a + 1000000 \<le> unat b \<and>
     unat a div 1000000 + quiet div 1000000 \<le> unat b div 1000000 + (if polled then 800 else 0)"

text \<open>What a limiter accepts that compares every event with the last accepted one.\<close>

fun rl_select :: "(TsNano \<Rightarrow> TsNano \<Rightarrow> bool) \<Rightarrow> TsNano \<Rightarrow> TsNano list \<Rightarrow> TsNano list" where
  "rl_select gap a [] = []"
| "rl_select gap a (b # bs) = (if gap a b then b # rl_select gap b bs else rl_select gap a bs)"

lemma rl_decide_gap:
  assumes "rl_min_quiet w < 2 ^ 63"
    and "unat (rl_last_insert_ts w) < 2 ^ 63" and "unat ts < 2 ^ 63"
  shows "rl_decide w ts = Accept \<longleftrightarrow> rl_gap (rl_is_polled w) (rl_min_quiet w) (rl_last_insert_ts w) ts"
proof -
  let ?l = "rl_last_insert_ts w"
  have cap: "unat (TsNano_add_dt_nano ?l (DtNano_from_ms 1)) = unat ?l + 1000000"
    using assms(2) unfolding TsNano_add_dt_nano_def DtNano_from_ms_def
    by (subst unat_add_u64) simp_all
  have quiet: "unat (TsNano_ms ?l + min_quiet_ms (rl_min_quiet w))
      = unat ?l div 1000000 + rl_min_quiet w div 1000000"
    using assms(1,2) by (subst unat_add_u64) (simp_all add: TsNano_ms_def unat_div_u64 unat_min_quiet_ms)
  have slack: "unat (TsNano_ms ts + 800) = unat ts div 1000000 + 800"
    using assms(3) by (subst unat_add_u64) (simp_all add: TsNano_ms_def unat_div_u64)
  have ms: "unat (TsNano_ms ts) = unat ts div 1000000"
    by (simp add: TsNano_ms_def unat_div_u64)
  have "rl_decide w ts = Accept \<longleftrightarrow> \<not> ts < TsNano_add_dt_nano ?l (DtNano_from_ms 1) \<and>
      (if rl_is_polled w then \<not> TsNano_ms ts + 800 < TsNano_ms ?l + min_quiet_ms (rl_min_quiet w)
       else \<not> TsNano_ms ts < TsNano_ms ?l + min_quiet_ms (rl_min_quiet w))"
    by (simp add: rl_decide_def Let_def)
  then show ?thesis
    by (cases "rl_is_polled w")
      (simp_all add: rl_gap_def word_less_nat_alt cap quiet slack ms not_less)
qed

context msp_split
begin

lemma rl_write_all_ok:
  assumes "writer_ok A (rl_writer w)" and "rl_min_quiet w < 2 ^ 63"
    and "unat (rl_last_insert_ts w) < 2 ^ 63" and "\<forall>e \<in> set evs. unat (ev_ts e) < 2 ^ 63"
  shows "\<exists>acc new w'. rl_write_all em spl evs dq w = Some (acc, dq @ new, w') \<and>
    acc = rl_select (rl_gap (rl_is_polled w) (rl_min_quiet w)) (rl_last_insert_ts w) (map ev_ts evs) \<and>
    successively (rl_gap (rl_is_polled w) (rl_min_quiet w)) (rl_last_insert_ts w # acc) \<and>
    map fst (rows new) = acc \<and> indexed A new"
  using assms
proof (induction evs arbitrary: A dq w)
  case Nil
  then show ?case by (auto intro!: exI [of _ "[]"])
next
  case (Cons e evs)
  obtain now item ts_net ts where e: "e = (now, item, ts_net, ts)" by (cases e)
  obtain res new1 w1 where w:
    "RateLimitWriter_write em spl now item ts_net ts dq w = Some (res, dq @ new1, w1)"
    "writer_ok (announced A new1) (rl_writer w1)" "indexed A new1"
    "rl_min_quiet w1 = rl_min_quiet w" "rl_is_polled w1 = rl_is_polled w"
    "rl_accept res \<longleftrightarrow> rl_decide w ts = Accept"
    "rl_accept res \<longrightarrow> map fst (rows new1) = [ts] \<and> rl_last_insert_ts w1 = ts \<and> rl_last_insert_val w1 = Some item"
    "\<not> rl_accept res \<longrightarrow> new1 = [] \<and> w1 = w"
    by (rule rl_write_ok [OF Cons.prems(1), of em now item ts_net ts dq])
  have ts: "unat ts < 2 ^ 63" using Cons.prems(4) by (simp add: e)
  have "unat (rl_last_insert_ts w1) < 2 ^ 63"
    using w(7,8) ts Cons.prems(3) by (cases "rl_accept res") auto
  then obtain acc new2 w2 where r: "rl_write_all em spl evs (dq @ new1) w1 = Some (acc, (dq @ new1) @ new2, w2)"
    "acc = rl_select (rl_gap (rl_is_polled w) (rl_min_quiet w)) (rl_last_insert_ts w1) (map ev_ts evs)"
    "successively (rl_gap (rl_is_polled w) (rl_min_quiet w)) (rl_last_insert_ts w1 # acc)"
    "map fst (rows new2) = acc" "indexed (announced A new1) new2"
    using Cons.IH [OF w(2), of "dq @ new1"] w(4,5) Cons.prems(2,4) by (auto simp: e)
  have gap: "rl_accept res \<longleftrightarrow> rl_gap (rl_is_polled w) (rl_min_quiet w) (rl_last_insert_ts w) ts"
    using rl_decide_gap [OF Cons.prems(2,3) ts] w(6) by blast
  have ev: "ev_ts (now, item, ts_net, ts) = ts" by simp
  show ?case
  proof (cases "rl_accept res")
    case True
    then have "rl_gap (rl_is_polled w) (rl_min_quiet w) (rl_last_insert_ts w) ts" using gap by blast
    then show ?thesis
      using True w r by (intro exI [of _ "ts # acc"] exI [of _ "new1 @ new2"] exI [of _ w2]) (simp add: e ev)
  next
    case False
    then show ?thesis
      using w r gap by (intro exI [of _ acc] exI [of _ "new1 @ new2"] exI [of _ w2]) (simp add: e ev)
  qed
qed

end

section \<open>Properties\<close>

text \<open>
  C26. Whatever is written through a \<^verbatim>\<open>SeriesWriter\<close>, the stored rows can be found and give the
  events back. For any sequence of writes of any value type, from a fresh writer with the dynamic
  splitter or with the one of the channel status: no write panics, every inserted row comes after
  the index entry of its partition, and the timestamps a reader reconstructs from the rows are
  those of the events, in order.
\<close>

theorem series_writer_rows_indexed:
  "(\<exists>st' dq sw'. sw_write_all em MspSplitDyn_impl evs st []
      (SeriesWriter_new series (MspSplitDyn_new cmax bmax rt) now) = Some (st', dq, sw') \<and>
    indexed {} dq \<and> map fst (rows dq) = map ev_ts evs) \<and>
   (\<exists>st' dq sw'. sw_write_all em MspSplitFixGrid_impl evs st []
      (SeriesWriter_new series for_channel_status now) = Some (st', dq, sw') \<and>
    indexed {} dq \<and> map fst (rows dq) = map ev_ts evs)"
proof -
  have "dyn.writer_ok {} (SeriesWriter_new series (MspSplitDyn_new cmax bmax rt) now)"
    by (rule dyn.writer_ok_new) (simp_all add: dy_inv_def MspSplitDyn_new_def)
  moreover have "fixg.writer_ok {} (SeriesWriter_new series for_channel_status now)"
    by (rule fixg.writer_ok_new)
      (simp_all add: fg_inv_def for_channel_status_def MspSplitFixGrid_new_def CHANNEL_STATUS_GRID_def)
  ultimately show ?thesis
    using dyn.write_all_ok [of "{}" _ em evs st "[]"] fixg.write_all_ok [of "{}" _ em evs st "[]"]
    by (metis append_Nil)
qed

text \<open>
  C27. The offset of an event in its partition stays below the rollover interval plus the two
  seconds of the partition grid, and thereby below the distance a reader looks back for the
  partition, for events in time order that are a rollover interval away from the end of time.
\<close>

theorem dyn_split_offset_bound:
  assumes "sorted (map fst evs)"
    and "\<forall>e \<in> set evs. unat (fst e) + msp_rollover_ivl rt < 2 ^ 64"
  shows "\<exists>rs s'. dy_split_all evs (MspSplitDyn_new cmax bmax rt) = Some (rs, s') \<and>
    length rs = length evs \<and>
    (\<forall>(ts, msp, lsp) \<in> set rs. msp \<le> ts \<and> unat lsp < msp_rollover_ivl rt + 2000000000 \<and>
      unat lsp < msp_rollover_ivl_on_read rt)"
proof -
  have le: "msp_rollover_ivl rt + 2000000000 \<le> msp_rollover_ivl_on_read rt"
    by (cases rt) (simp_all add: msp_rollover_ivl_on_read_def Duration_from_secs_def)
  obtain rs s' where rs: "dy_split_all evs (MspSplitDyn_new cmax bmax rt) = Some (rs, s')"
    "length rs = length evs"
    "\<forall>(ts, msp, lsp) \<in> set rs. msp \<le> ts \<and> unat lsp < msp_rollover_ivl rt + 2000000000"
    using dy_split_all_bound [of "MspSplitDyn_new cmax bmax rt" evs] assms
    by (auto simp: dy_wf_def MspSplitDyn_new_def)
  show ?thesis
    using rs le by (intro exI [of _ rs] exI [of _ s']) fastforce
qed

theorem dyn_split_offset_bound_witness:
  "\<exists>rs s'. dy_split_all [(1700000000000000000, 8), (1700000011000000000, 8)]
      (MspSplitDyn_new 2 100 Short) = Some (rs, s') \<and> length rs = Suc (Suc 0) \<and>
    (\<forall>(ts, msp, lsp) \<in> set rs. msp \<le> ts \<and> unat lsp < msp_rollover_ivl Short + 2000000000 \<and>
      unat lsp < msp_rollover_ivl_on_read Short)"
  using dyn_split_offset_bound [of "[(1700000000000000000, 8), (1700000011000000000, 8)]" Short 2 100]
  by (simp add: Duration_from_secs_def)

text \<open>
  C28. What the rate limiter accepts: from a fresh writer, whatever sequence of writes is attempted, an
  event is accepted exactly if it is at least one millisecond after the last accepted one (the epoch at
  first) and its time in whole milliseconds is not before that of the last accepted one plus the quiet
  time in whole milliseconds; a polled channel may be 800 milliseconds early, so that for a quiet time of
  up to 800 milliseconds only the one millisecond is left. What is accepted is exactly what is inserted,
  and every row is indexed.
\<close>

theorem rate_limit_spacing:
  fixes em :: "('et, 'st) EmittableType"
  assumes "quiet < 2 ^ 63" and "\<forall>e \<in> set evs. unat (ev_ts e) < 2 ^ 63"
  shows "\<exists>acc dq w'. rl_write_all em MspSplitDyn_impl evs []
      (RateLimitWriter_new series quiet polled st (MspSplitDyn_new cmax bmax rt) now) = Some (acc, dq, w') \<and>
    acc = rl_select (rl_gap polled quiet) 0 (map ev_ts evs) \<and>
    successively (rl_gap polled quiet) (0 # acc) \<and> map fst (rows dq) = acc \<and> indexed {} dq"
proof -
  define w :: "('et, 'st, MspSplitDyn) RateLimitWriter"
    where "w = RateLimitWriter_new series quiet polled st (MspSplitDyn_new cmax bmax rt) now"
  have ok: "dyn.writer_ok {} (SeriesWriter_new series (MspSplitDyn_new cmax bmax rt) now)"
    by (rule dyn.writer_ok_new) (simp_all add: dy_inv_def MspSplitDyn_new_def)
  have "\<exists>acc new w'. rl_write_all em MspSplitDyn_impl evs [] w = Some (acc, [] @ new, w') \<and>
    acc = rl_select (rl_gap (rl_is_polled w) (rl_min_quiet w)) (rl_last_insert_ts w) (map ev_ts evs) \<and>
    successively (rl_gap (rl_is_polled w) (rl_min_quiet w)) (rl_last_insert_ts w # acc) \<and>
    map fst (rows new) = acc \<and> indexed {} new"
    by (rule dyn.rl_write_all_ok) (use assms ok in \<open>simp_all add: w_def RateLimitWriter_new_def\<close>)
  then show ?thesis
    by (simp add: w_def RateLimitWriter_new_def)
qed

theorem rate_limit_spacing_witness:
  "\<exists>dq w'. rl_write_all ChannelStatusWriteValue_impl MspSplitDyn_impl
      [(0, ChannelStatusWriteValue 5 7, 0, 2000000000), (0, ChannelStatusWriteValue 5 8, 0, 2000000001),
       (0, ChannelStatusWriteValue 5 9, 0, 3000000000)] []
      (RateLimitWriter_new 1 1000000000 False () (MspSplitDyn_new 2 100 Short) 0) = Some ([2000000000, 3000000000], dq, w') \<and>
    map fst (rows dq) = [2000000000, 3000000000] \<and> indexed {} dq"
  using rate_limit_spacing [of 1000000000 "[(0, ChannelStatusWriteValue 5 7, 0, 2000000000),
      (0, ChannelStatusWriteValue 5 8, 0, 2000000001), (0, ChannelStatusWriteValue 5 9, 0, 3000000000)]"
      ChannelStatusWriteValue_impl 1 False "()" 2 100 Short 0]
  by (auto simp: rl_gap_def)

text \<open>
  The fixed grid splitter of the channel status never remembers its partition: starting fresh,
  every single write is taken for a change of partition, so an index entry is queued with each row
  and no partition is ever retired; and closing the writer panics, because the current partition
  is not implemented for this splitter.
\<close>

theorem fixgrid_never_remembers:
  "\<exists>st' dq sw'. sw_write_all em MspSplitFixGrid_impl evs st []
      (SeriesWriter_new series for_channel_status now) = Some (st', dq, sw') \<and>
    length dq = 2 * length evs \<and> sw_msp_split sw' = for_channel_status \<and>
    SeriesWriter_on_close MspSplitFixGrid_impl now' dq' sw' = None"
proof -
  have step: "\<exists>st' dq' sw'. sw_write_all em MspSplitFixGrid_impl evs st dq sw = Some (st', dq', sw') \<and>
      length dq' = length dq + 2 * length evs \<and> sw_msp_split sw' = for_channel_status"
    if "sw_msp_split sw = for_channel_status" for st dq sw
    using that
  proof (induction evs arbitrary: st dq sw)
    case (Cons e evs)
    obtain tnow item ts_net ts where e: "e = (tnow, item, ts_net, ts)" by (cases e)
    obtain er st1 where er: "em_into_query_item em item ts_net ts st = (er, st1)" by fastforce
    have "fg_inv for_channel_status" "fg_last for_channel_status = None"
      by (simp_all add: fg_inv_def for_channel_status_def MspSplitFixGrid_new_def CHANNEL_STATUS_GRID_def)
    then obtain res dq1 sw1 where "SeriesWriter_write em MspSplitFixGrid_impl tnow item st ts_net ts dq sw
        = Some (res, st1, dq1, sw1)" "length dq1 = length dq + 2" "sw_msp_split sw1 = for_channel_status"
      using Cons.prems
      by (simp add: SeriesWriter_write_def er MspSplitFixGrid_impl_def MspSplitFixGrid_split_eq)
    then show ?case using Cons.IH [of sw1 st1 dq1] by (auto simp: e)
  qed simp
  show ?thesis
    using step [of "SeriesWriter_new series for_channel_status now" st "[]"]
    by (auto simp: SeriesWriter_new_def SeriesWriter_on_close_def MspSplitFixGrid_impl_def)
qed

end
