(* ===== verification/RtWriter.thy ===== *)
theory RtWriter
  imports SeriesWriter
begin

text \<open>
  \<^verbatim>\<open>daqbuf-serieswriter/src/rtwriter.rs\<close>: one series written to the three retention times, each
  through a \<^verbatim>\<open>RateLimitWriter\<close> with a dynamic splitter, into the queues of \<^verbatim>\<open>InsertDeques\<close>.
  The clock readings of a call are its arguments. Lemmas: the three queues stay indexed and in
  strict time order under every sequence of calls, and a value that has been quiet for long enough
  is copied to the long term store.
\<close>

record MinQuiets =
  mq_st :: Duration
  mq_mt :: Duration
  mq_lt :: Duration

definition Duration_from_millis :: "nat \<Rightarrow> Duration" where
  "Duration_from_millis ms = ms * 1000000"

definition test_mon_1_10 :: MinQuiets where
  "test_mon_1_10 = \<lparr>mq_st = Duration_from_millis 0, mq_mt = Duration_from_millis (1000 * 1),
     mq_lt = Duration_from_millis (1000 * 10)\<rparr>"

definition test_1_10_60 :: MinQuiets where
  "test_1_10_60 = \<lparr>mq_st = Duration_from_millis (1000 * 1), mq_mt = Duration_from_millis (1000 * 10),
     mq_lt = Duration_from_millis (1000 * 60)\<rparr>"

definition http_ingest_default :: MinQuiets where
  "http_ingest_default = \<lparr>mq_st = Duration_from_millis 0, mq_mt = Duration_from_millis 0,
     mq_lt = Duration_from_millis (1000 * 60 * 60)\<rparr>"

record WriteRtRes =
  rr_accept :: bool
  rr_bytes :: u32
  rr_msp_rewrite :: u8
  rr_ignore_rewind_time :: u8
  rr_ignore_same_time :: u8
  rr_ignore_same_value :: u8
  rr_ignore_monitor_not_min_quiet :: u8
  rr_ignore_poll_not_min_quiet :: u8
  rr_ignore_rate_cap :: u8

definition WriteRtRes_default :: WriteRtRes where
  "WriteRtRes_default =
     \<lparr>rr_accept = False, rr_bytes = 0, rr_msp_rewrite = 0, rr_ignore_rewind_time = 0,
      rr_ignore_same_time = 0, rr_ignore_same_value = 0, rr_ignore_monitor_not_min_quiet = 0,
      rr_ignore_poll_not_min_quiet = 0, rr_ignore_rate_cap = 0\<rparr>"

definition res_ignore_rewind_time :: WriteRtRes where
  "res_ignore_rewind_time = WriteRtRes_default\<lparr>rr_ignore_rewind_time := 1\<rparr>"

definition res_ignore_same_time :: WriteRtRes where
  "res_ignore_same_time = WriteRtRes_default\<lparr>rr_ignore_same_time := 1\<rparr>"

definition res_ignore_same_value :: WriteRtRes where
  "res_ignore_same_value = WriteRtRes_default\<lparr>rr_ignore_same_value := 1\<rparr>"

record RtWriteRes =
  res_st :: WriteRtRes
  res_mt :: WriteRtRes
  res_lt :: WriteRtRes

definition accept_any :: "RtWriteRes \<Rightarrow> bool" where
  "accept_any r = (rr_accept (res_lt r) \<or> rr_accept (res_mt r) \<or> rr_accept (res_st r))"

text \<open>The counters of the three stores are added up as \<^verbatim>\<open>u8\<close>.\<close>

definition sum_res :: "(WriteRtRes \<Rightarrow> u8) \<Rightarrow> RtWriteRes \<Rightarrow> u8" where
  "sum_res f r = f (res_st r) + f (res_mt r) + f (res_lt r)"

type_synonym ('et, 'st) rt_state = "('et, 'st, MspSplitDyn) RateLimitWriter"

record ('et, 'st) RtWriter =
  rw_series :: SeriesId
  rw_scalar_type :: ScalarType
  rw_shape :: Shape
  rw_state_st :: "('et, 'st) rt_state"
  rw_state_mt :: "('et, 'st) rt_state"
  rw_state_lt :: "('et, 'st) rt_state"
  rw_min_quiets :: MinQuiets
  rw_do_st_rf1 :: bool
  rw_last_insert_ts :: TsNano
  rw_last_insert_val :: "'et option"

definition RtWriter_new ::
    "SeriesId \<Rightarrow> ScalarType \<Rightarrow> Shape \<Rightarrow> MinQuiets \<Rightarrow> bool \<Rightarrow> bool \<Rightarrow> 'st \<Rightarrow> Instant \<Rightarrow> ('et, 'st) RtWriter" where
  "RtWriter_new series scalar_type shape min_quiets is_polled do_st_rf1 emit_state_new now =
     (let mk = (\<lambda>quiet rt. RateLimitWriter_new series quiet is_polled emit_state_new
                  (MspSplitDyn_new (1024 * 64) (1024 * 1024 * 10) rt) now) in
      \<lparr>rw_series = series, rw_scalar_type = scalar_type, rw_shape = shape,
       rw_state_st = mk (mq_st min_quiets) Short,
       rw_state_mt = mk (mq_mt min_quiets) Medium,
       rw_state_lt = mk (mq_lt min_quiets) Long,
       rw_min_quiets = min_quiets, rw_do_st_rf1 = do_st_rf1,
       rw_last_insert_ts = 0, rw_last_insert_val = None\<rparr>)"

definition to_rt_res :: "RlWriteRes \<Rightarrow> WriteRtRes" where
  "to_rt_res x =
     \<lparr>rr_accept = rl_accept x, rr_bytes = rl_bytes x, rr_msp_rewrite = rl_msp_rewrite x,
      rr_ignore_rewind_time = 0, rr_ignore_same_time = 0, rr_ignore_same_value = 0,
      rr_ignore_monitor_not_min_quiet = rl_ignore_monitor_not_min_quiet x,
      rr_ignore_poll_not_min_quiet = rl_ignore_poll_not_min_quiet x,
      rr_ignore_rate_cap = rl_ignore_rate_cap x\<rparr>"

definition write_inner_force ::
    "('et, 'st) EmittableType \<Rightarrow> Instant \<Rightarrow> 'et \<Rightarrow> Instant \<Rightarrow> TsNano \<Rightarrow> deque \<Rightarrow> ('et, 'st) rt_state \<Rightarrow>
      (WriteRtRes \<times> deque \<times> ('et, 'st) rt_state) panics" where
  "write_inner_force em now item ts_net tsev dq w =
     do { (x, dq, w) \<leftarrow> RateLimitWriter_write_force em MspSplitDyn_impl now item ts_net tsev dq w;
          Some (to_rt_res x, dq, w) }"

definition write_inner ::
    "('et, 'st) EmittableType \<Rightarrow> Instant \<Rightarrow> 'et \<Rightarrow> Instant \<Rightarrow> TsNano \<Rightarrow> deque \<Rightarrow> ('et, 'st) rt_state \<Rightarrow>
      (WriteRtRes \<times> deque \<times> ('et, 'st) rt_state) panics" where
  "write_inner em now item ts_net tsev dq w =
     do { (x, dq, w) \<leftarrow> RateLimitWriter_write em MspSplitDyn_impl now item ts_net tsev dq w;
          Some (to_rt_res x, dq, w) }"

text \<open>
  \<^verbatim>\<open>write\<close>. Both branches of \<^verbatim>\<open>do_st_rf1\<close> write the short term store into \<^verbatim>\<open>st_rf3_qu\<close>.
\<close>

definition RtWriter_write ::
    "('et, 'st) EmittableType \<Rightarrow> Instant \<times> Instant \<times> Instant \<Rightarrow> 'et \<Rightarrow> Instant \<Rightarrow> TsNano \<Rightarrow> InsertDeques \<Rightarrow>
      ('et, 'st) RtWriter \<Rightarrow> (RtWriteRes \<times> InsertDeques \<times> ('et, 'st) RtWriter) panics" where
  "RtWriter_write em nows item ts_net tsev q rw =
     (case nows of (now1, now2, now3) \<Rightarrow>
      do { let tsl = rw_last_insert_ts rw;
           (ret, q, rw) \<leftarrow>
             (if tsev < tsl
              then Some (\<lparr>res_st = res_ignore_rewind_time, res_mt = res_ignore_rewind_time,
                          res_lt = res_ignore_rewind_time\<rparr>, q, rw)
              else if tsev = tsl
              then Some (\<lparr>res_st = res_ignore_same_time, res_mt = res_ignore_same_time,
                          res_lt = res_ignore_same_time\<rparr>, q, rw)
              else if (case rw_last_insert_val rw of Some k \<Rightarrow> em_has_change em item k | None \<Rightarrow> True) = False
              then Some (\<lparr>res_st = res_ignore_same_value, res_mt = res_ignore_same_value,
                          res_lt = res_ignore_same_value\<rparr>, q, rw)
              else do {
                (r_lt, d, w) \<leftarrow> write_inner em now1 item ts_net tsev (lt_rf3_qu q) (rw_state_lt rw);
                let q = q\<lparr>lt_rf3_qu := d\<rparr>;
                let rw = rw\<lparr>rw_state_lt := w\<rparr>;
                (r_mt, d, w) \<leftarrow> write_inner em now2 item ts_net tsev (mt_rf3_qu q) (rw_state_mt rw);
                let q = q\<lparr>mt_rf3_qu := d\<rparr>;
                let rw = rw\<lparr>rw_state_mt := w\<rparr>;
                (r_st, d, w) \<leftarrow>
                  (if rw_do_st_rf1 rw
                   then write_inner em now3 item ts_net tsev (st_rf3_qu q) (rw_state_st rw)
                   else write_inner em now3 item ts_net tsev (st_rf3_qu q) (rw_state_st rw));
                let q = q\<lparr>st_rf3_qu := d\<rparr>;
                let rw = rw\<lparr>rw_state_st := w\<rparr>;
                Some (\<lparr>res_st = r_st, res_mt = r_mt, res_lt = r_lt\<rparr>, q, rw) });
           let rw = (if accept_any ret
                     then rw\<lparr>rw_last_insert_ts := tsev, rw_last_insert_val := Some item\<rparr> else rw);
           Some (ret, q, rw) })"

text \<open>The latest write of a store, if it had one.\<close>

definition last_of :: "('et, 'st) rt_state \<Rightarrow> (TsNano \<times> 'et) option" where
  "last_of w = map_option (\<lambda>x. (rl_last_insert_ts w, x)) (rl_last_insert_val w)"

definition max_step ::
    "(TsNano \<times> 'et) option \<Rightarrow> RetentionTime \<Rightarrow> ((TsNano \<times> 'et) \<times> RetentionTime) option \<Rightarrow>
      ((TsNano \<times> 'et) \<times> RetentionTime) option" where
  "max_step tsl rt mx =
     (case tsl of
        Some (ts, v) \<Rightarrow>
          if (case mx of Some x \<Rightarrow> ts > fst (fst x) | None \<Rightarrow> True) then Some ((ts, v), rt) else mx
      | None \<Rightarrow> mx)"

definition max_tsl :: "('et, 'st) RtWriter \<Rightarrow> ((TsNano \<times> 'et) \<times> RetentionTime) option" where
  "max_tsl rw = max_step (last_of (rw_state_st rw)) Short
     (max_step (last_of (rw_state_mt rw)) Medium
       (max_step (last_of (rw_state_lt rw)) Long None))"

definition quiet_elapsed :: "TsNano \<Rightarrow> Duration \<Rightarrow> TsNano \<Rightarrow> bool" where
  "quiet_elapsed tsl quiet tsnow =
     (let q = of_nat quiet :: u64;
          tt = (if unat tsl + unat q < 2 ^ 64 then tsl + q else - 1) in tt \<le> tsnow)"

definition check_quiet_reput ::
    "('et, 'st) EmittableType \<Rightarrow> Instant \<Rightarrow> Instant \<Rightarrow> TsNano \<Rightarrow> InsertDeques \<Rightarrow> ('et, 'st) RtWriter \<Rightarrow>
      (InsertDeques \<times> ('et, 'st) RtWriter) panics" where
  "check_quiet_reput em ts_net now tsnow q rw =
     (case max_tsl rw of
        Some ((tsl, vall), Short) \<Rightarrow>
          if quiet_elapsed tsl (mq_lt (rw_min_quiets rw)) tsnow
          then do { (_, d, w) \<leftarrow> write_inner_force em now vall ts_net tsl (lt_rf3_qu q) (rw_state_lt rw);
                    Some (q\<lparr>lt_rf3_qu := d\<rparr>, rw\<lparr>rw_state_lt := w\<rparr>) }
          else if quiet_elapsed tsl (mq_mt (rw_min_quiets rw)) tsnow
          then do { (_, d, w) \<leftarrow> write_inner_force em now vall ts_net tsl (mt_rf3_qu q) (rw_state_mt rw);
                    Some (q\<lparr>mt_rf3_qu := d\<rparr>, rw\<lparr>rw_state_mt := w\<rparr>) }
          else Some (q, rw)
      | Some ((tsl, vall), Medium) \<Rightarrow>
          if quiet_elapsed tsl (mq_lt (rw_min_quiets rw)) tsnow
          then do { (_, d, w) \<leftarrow> write_inner_force em now vall ts_net tsl (lt_rf3_qu q) (rw_state_lt rw);
                    Some (q\<lparr>lt_rf3_qu := d\<rparr>, rw\<lparr>rw_state_lt := w\<rparr>) }
          else Some (q, rw)
      | _ \<Rightarrow> Some (q, rw))"

definition RtWriter_tick ::
    "('et, 'st) EmittableType \<Rightarrow> Instant \<Rightarrow> Instant \<Rightarrow> TsNano \<Rightarrow> InsertDeques \<Rightarrow> ('et, 'st) RtWriter \<Rightarrow>
      (InsertDeques \<times> ('et, 'st) RtWriter) panics" where
  "RtWriter_tick em ts_net now tsnow q rw =
     do { (q, rw) \<leftarrow> check_quiet_reput em ts_net now tsnow q rw;
          let q = (if rw_do_st_rf1 rw then q\<lparr>st_rf1_qu := RateLimitWriter_tick (st_rf1_qu q)\<rparr>
                   else q\<lparr>st_rf3_qu := RateLimitWriter_tick (st_rf3_qu q)\<rparr>);
          let q = q\<lparr>mt_rf3_qu := RateLimitWriter_tick (mt_rf3_qu q)\<rparr>;
          let q = q\<lparr>lt_rf3_qu := RateLimitWriter_tick (lt_rf3_qu q)\<rparr>;
          Some (q, rw) }"

definition RtWriter_on_close ::
    "Instant \<times> Instant \<times> Instant \<Rightarrow> InsertDeques \<Rightarrow> ('et, 'st) RtWriter \<Rightarrow> InsertDeques panics" where
  "RtWriter_on_close nows q rw =
     (case nows of (now1, now2, now3) \<Rightarrow>
      do { q \<leftarrow> (if rw_do_st_rf1 rw
                then do { d \<leftarrow> RateLimitWriter_on_close MspSplitDyn_impl now1 (st_rf1_qu q) (rw_state_st rw);
                          Some (q\<lparr>st_rf1_qu := d\<rparr>) }
                else do { d \<leftarrow> RateLimitWriter_on_close MspSplitDyn_impl now1 (st_rf3_qu q) (rw_state_st rw);
                          Some (q\<lparr>st_rf3_qu := d\<rparr>) });
           d \<leftarrow> RateLimitWriter_on_close MspSplitDyn_impl now2 (mt_rf3_qu q) (rw_state_mt rw);
           let q = q\<lparr>mt_rf3_qu := d\<rparr>;
           d \<leftarrow> RateLimitWriter_on_close MspSplitDyn_impl now3 (lt_rf3_qu q) (rw_state_lt rw);
           Some (q\<lparr>lt_rf3_qu := d\<rparr>) })"

definition RtWriter_housekeeping ::
    "Instant \<times> Instant \<times> Instant \<Rightarrow> InsertDeques \<Rightarrow> ('et, 'st) RtWriter \<Rightarrow>
      (u8 \<times> InsertDeques \<times> ('et, 'st) RtWriter) panics" where
  "RtWriter_housekeeping nows q rw =
     (case nows of (now1, now2, now3) \<Rightarrow>
      do { (n1, q, w) \<leftarrow> (if rw_do_st_rf1 rw
             then do { (n, d, w) \<leftarrow> RateLimitWriter_housekeeping MspSplitDyn_impl now1 (st_rf1_qu q) (rw_state_st rw);
                       Some (n, q\<lparr>st_rf1_qu := d\<rparr>, w) }
             else do { (n, d, w) \<leftarrow> RateLimitWriter_housekeeping MspSplitDyn_impl now1 (st_rf3_qu q) (rw_state_st rw);
                       Some (n, q\<lparr>st_rf3_qu := d\<rparr>, w) });
           let rw = rw\<lparr>rw_state_st := w\<rparr>;
           (n2, d, w) \<leftarrow> RateLimitWriter_housekeeping MspSplitDyn_impl now2 (mt_rf3_qu q) (rw_state_mt rw);
           let q = q\<lparr>mt_rf3_qu := d\<rparr>;
           let rw = rw\<lparr>rw_state_mt := w\<rparr>;
           (n3, d, w) \<leftarrow> RateLimitWriter_housekeeping MspSplitDyn_impl now3 (lt_rf3_qu q) (rw_state_lt rw);
           Some (n1 + n2 + n3, q\<lparr>lt_rf3_qu := d\<rparr>, rw\<lparr>rw_state_lt := w\<rparr>) })"

section \<open>Sequences of calls\<close>

datatype 'et rt_call =
  RtWrite "Instant \<times> Instant \<times> Instant" 'et Instant TsNano
| RtTick Instant Instant TsNano
| RtHousekeeping "Instant \<times> Instant \<times> Instant"
| RtOnClose "Instant \<times> Instant \<times> Instant"

fun rt_exec ::
    "('et, 'st) EmittableType \<Rightarrow> 'et rt_call \<Rightarrow> InsertDeques \<times> ('et, 'st) RtWriter \<Rightarrow>
      (InsertDeques \<times> ('et, 'st) RtWriter) panics" where
  "rt_exec em (RtWrite nows item ts_net tsev) (q, rw) =
     do { (_, q, rw) \<leftarrow> RtWriter_write em nows item ts_net tsev q rw; Some (q, rw) }"
| "rt_exec em (RtTick ts_net now tsnow) (q, rw) = RtWriter_tick em ts_net now tsnow q rw"
| "rt_exec em (RtHousekeeping nows) (q, rw) =
     do { (_, q, rw) \<leftarrow> RtWriter_housekeeping nows q rw; Some (q, rw) }"
| "rt_exec em (RtOnClose nows) (q, rw) = do { q \<leftarrow> RtWriter_on_close nows q rw; Some (q, rw) }"

fun rt_exec_all ::
    "('et, 'st) EmittableType \<Rightarrow> 'et rt_call list \<Rightarrow> InsertDeques \<times> ('et, 'st) RtWriter \<Rightarrow>
      (InsertDeques \<times> ('et, 'st) RtWriter) panics" where
  "rt_exec_all em [] x = Some x"
| "rt_exec_all em (c # cs) x = do { x \<leftarrow> rt_exec em c x; rt_exec_all em cs x }"

section \<open>Invariant\<close>

text \<open>
  A store and its queue: the queue is indexed, its rows are in strict time order and none is later
  than the last write of the store, which is not later than the bound given by the whole writer.
\<close>

definition store_ok :: "TsNano \<Rightarrow> ('et, 'st) rt_state \<Rightarrow> deque \<Rightarrow> bool" where
  "store_ok b w q \<longleftrightarrow> dyn.writer_ok (announced {} q) (rl_writer w) \<and> indexed {} q \<and>
     sorted_wrt (<) (map fst (rows q)) \<and> (\<forall>t \<in> fst ` set (rows q). t \<le> rl_last_insert_ts w) \<and>
     (rl_last_insert_val w = None \<longrightarrow> rows q = []) \<and> rl_last_insert_ts w \<le> b"

definition rt_inv :: "InsertDeques \<times> ('et, 'st) RtWriter \<Rightarrow> bool" where
  "rt_inv x \<longleftrightarrow> (case x of (q, rw) \<Rightarrow>
     store_ok (rw_last_insert_ts rw) (rw_state_st rw) (st_rf3_qu q) \<and>
     store_ok (rw_last_insert_ts rw) (rw_state_mt rw) (mt_rf3_qu q) \<and>
     store_ok (rw_last_insert_ts rw) (rw_state_lt rw) (lt_rf3_qu q) \<and>
     rows (st_rf1_qu q) = [])"

lemma store_ok_mono: "store_ok b w q \<Longrightarrow> b \<le> c \<Longrightarrow> store_ok c w q"
  by (auto simp: store_ok_def)

lemma store_ok_quiet:
  assumes "store_ok b w q" and "rows new = []" and "indexed (announced {} q) new"
    and "dyn.writer_ok (announced {} q) (rl_writer w')"
    and "rl_last_insert_ts w' = rl_last_insert_ts w" "rl_last_insert_val w' = rl_last_insert_val w"
  shows "store_ok b w' (q @ new)"
  using assms dyn.writer_ok_mono [OF assms(4) announced_mono, of new]
  by (simp add: store_ok_def)

lemma store_ok_row:
  assumes "store_ok b w q" and "ts \<le> c"
    and "rl_last_insert_val w = None \<or> rl_last_insert_ts w < ts"
    and "map fst (rows new) = [ts]" and "indexed (announced {} q) new"
    and "dyn.writer_ok (announced (announced {} q) new) (rl_writer w')"
    and "rl_last_insert_ts w' = ts" "rl_last_insert_val w' = Some v"
  shows "store_ok c w' (q @ new)"
proof -
  have "\<forall>t \<in> fst ` set (rows q). t < ts"
    using assms(1,3) by (auto simp: store_ok_def)
  moreover obtain d where "rows new = [(ts, d)]" using assms(4) by auto
  ultimately show ?thesis
    using assms by (auto simp: store_ok_def sorted_wrt_append)
qed

lemma write_inner_ok:
  assumes "store_ok b w q" and "b < ts"
  shows "\<exists>r q' w'. write_inner em now item ts_net ts q w = Some (r, q', w') \<and>
    (if rr_accept r then store_ok ts w' q' \<and> last_of w' = Some (ts, item) else q' = q \<and> w' = w)"
proof -
  have ok: "dyn.writer_ok (announced {} q) (rl_writer w)" using assms(1) by (simp add: store_ok_def)
  obtain res new w' where w:
    "RateLimitWriter_write em MspSplitDyn_impl now item ts_net ts q w = Some (res, q @ new, w')"
    "dyn.writer_ok (announced (announced {} q) new) (rl_writer w')" "indexed (announced {} q) new"
    "rl_accept res \<longrightarrow> map fst (rows new) = [ts] \<and> rl_last_insert_ts w' = ts \<and> rl_last_insert_val w' = Some item"
    "\<not> rl_accept res \<longrightarrow> new = [] \<and> w' = w"
    by (rule dyn.rl_write_ok [OF ok, of em now item ts_net ts q])
  have "rl_last_insert_ts w \<le> b" using assms(1) by (simp add: store_ok_def)
  then have "rl_last_insert_ts w < ts" using assms(2) by (rule order.strict_trans1)
  then have "store_ok ts w' (q @ new) \<and> last_of w' = Some (ts, item)" if "rl_accept res"
    using store_ok_row [OF assms(1) order_refl _ _ w(3,2)] w(4) that by (simp add: last_of_def)
  then show ?thesis
    using w by (simp add: write_inner_def to_rt_res_def)
qed

lemma write_inner_force_ok:
  assumes "store_ok b w q" and "ts \<le> b" and "rl_last_insert_val w = None \<or> rl_last_insert_ts w < ts"
  shows "\<exists>r q' w'. write_inner_force em now item ts_net ts q w = Some (r, q', w') \<and>
    store_ok b w' q' \<and> last_of w' = Some (ts, item) \<and> map fst (rows q') = map fst (rows q) @ [ts]"
proof -
  have ok: "dyn.writer_ok (announced {} q) (rl_writer w)" using assms(1) by (simp add: store_ok_def)
  obtain res st1 new sw1 where w:
    "SeriesWriter_write em MspSplitDyn_impl now item (rl_emit_state w) ts_net ts q (rl_writer w)
      = Some (res, st1, q @ new, sw1)"
    "dyn.writer_ok (announced (announced {} q) new) sw1" "indexed (announced {} q) new"
    "map fst (rows new) = [ts]"
    by (rule dyn.write_ok [OF ok, of em now item "rl_emit_state w" ts_net ts q]) auto
  let ?w = "w\<lparr>rl_last_insert_ts := ts, rl_last_insert_val := Some item, rl_emit_state := st1,
    rl_writer := sw1\<rparr>"
  have "store_ok b ?w (q @ new)"
    by (rule store_ok_row [OF assms w(4,3)]) (use w(2) in simp_all)
  then show ?thesis
    using w by (simp add: write_inner_force_def RateLimitWriter_write_force_def last_of_def)
qed

lemma dyn_housekeeping_total:
  "\<exists>n q' sw'. SeriesWriter_housekeeping MspSplitDyn_impl now q sw = Some (n, q', sw')"
  by (simp add: SeriesWriter_housekeeping_def Let_def MspSplitDyn_impl_def split: option.split)

text \<open>Housekeeping and closing may announce into any queue; they never add rows.\<close>

lemma rl_housekeeping_ok:
  assumes "store_ok b w q"
  shows "\<exists>n new w'. RateLimitWriter_housekeeping MspSplitDyn_impl now d w = Some (n, d @ new, w') \<and>
    rows new = [] \<and> store_ok b w' q \<and> store_ok b w' (q @ new)"
proof -
  obtain n d' sw' where h: "SeriesWriter_housekeeping MspSplitDyn_impl now d (rl_writer w) = Some (n, d', sw')"
    using dyn_housekeeping_total by blast
  have ok: "dyn.writer_ok (announced {} q) (rl_writer w)" using assms by (simp add: store_ok_def)
  obtain new where new: "d' = d @ new" "indexed (announced {} q) new" "rows new = []"
    "dyn.writer_ok (announced {} q) sw'"
    using dyn.housekeeping_ok [OF ok h, of "announced {} q"] by blast
  let ?w = "w\<lparr>rl_writer := sw'\<rparr>"
  have "store_ok b ?w (q @ new)" "store_ok b ?w (q @ [])"
    by (rule store_ok_quiet [OF assms]; use new in simp)+
  then show ?thesis
    using h new by (simp add: RateLimitWriter_housekeeping_def)
qed

lemma rl_on_close_ok:
  assumes "store_ok b w q"
  shows "\<exists>new. RateLimitWriter_on_close MspSplitDyn_impl now d w = Some (d @ new) \<and>
    rows new = [] \<and> store_ok b w (q @ new)"
proof -
  have ok: "dyn.writer_ok (announced {} q) (rl_writer w)" using assms by (simp add: store_ok_def)
  have "\<exists>new. RateLimitWriter_on_close MspSplitDyn_impl now d w = Some (d @ new) \<and>
      rows new = [] \<and> indexed (announced {} q) new"
    by (simp add: RateLimitWriter_on_close_def SeriesWriter_on_close_def MspSplitDyn_impl_def
        split: option.split)
  then show ?thesis
    using store_ok_quiet [OF assms _ _ ok] by blast
qed

lemma rt_write_ok:
  assumes "rt_inv (q, rw)"
  shows "\<exists>r q' rw'. RtWriter_write em nows item ts_net ts q rw = Some (r, q', rw') \<and>
    rt_inv (q', rw') \<and>
    (if accept_any r then rw_last_insert_ts rw < ts \<and> rw_last_insert_ts rw' = ts
     else q' = q \<and> rw' = rw)"
proof -
  obtain n1 n2 n3 where n: "nows = (n1, n2, n3)" by (cases nows)
  let ?b = "rw_last_insert_ts rw"
  show ?thesis
  proof (cases "ts < ?b \<or> ts = ?b \<or>
      (case rw_last_insert_val rw of Some k \<Rightarrow> em_has_change em item k | None \<Rightarrow> True) = False")
    case True
    note ignored = res_ignore_rewind_time_def res_ignore_same_time_def res_ignore_same_value_def
      WriteRtRes_default_def accept_any_def
    let ?r = "\<lambda>x. \<lparr>res_st = x, res_mt = x, res_lt = x\<rparr>"
    have "\<exists>x. RtWriter_write em nows item ts_net ts q rw = Some (?r x, q, rw) \<and> \<not> accept_any (?r x)"
      using True
      by (cases "ts < ?b"; cases "ts = ?b") (simp_all add: RtWriter_write_def n ignored)
    then show ?thesis using assms by metis
  next
    case False
    then have lt: "?b < ts" by auto
    from assms have s: "store_ok ?b (rw_state_st rw) (st_rf3_qu q)"
      "store_ok ?b (rw_state_mt rw) (mt_rf3_qu q)" "store_ok ?b (rw_state_lt rw) (lt_rf3_qu q)"
      "rows (st_rf1_qu q) = []" by (simp_all add: rt_inv_def)
    obtain r1 q1 w1 where w1: "write_inner em n1 item ts_net ts (lt_rf3_qu q) (rw_state_lt rw) = Some (r1, q1, w1)"
      "if rr_accept r1 then store_ok ts w1 q1 \<and> last_of w1 = Some (ts, item)
        else q1 = lt_rf3_qu q \<and> w1 = rw_state_lt rw"
      using write_inner_ok [OF s(3) lt] by blast
    obtain r2 q2 w2 where w2: "write_inner em n2 item ts_net ts (mt_rf3_qu q) (rw_state_mt rw) = Some (r2, q2, w2)"
      "if rr_accept r2 then store_ok ts w2 q2 \<and> last_of w2 = Some (ts, item)
        else q2 = mt_rf3_qu q \<and> w2 = rw_state_mt rw"
      using write_inner_ok [OF s(2) lt] by blast
    obtain r3 q3 w3 where w3: "write_inner em n3 item ts_net ts (st_rf3_qu q) (rw_state_st rw) = Some (r3, q3, w3)"
      "if rr_accept r3 then store_ok ts w3 q3 \<and> last_of w3 = Some (ts, item)
        else q3 = st_rf3_qu q \<and> w3 = rw_state_st rw"
      using write_inner_ok [OF s(1) lt] by blast
    let ?r = "\<lparr>res_st = r3, res_mt = r2, res_lt = r1\<rparr>"
    let ?q = "q\<lparr>lt_rf3_qu := q1, mt_rf3_qu := q2, st_rf3_qu := q3\<rparr>"
    let ?rw = "rw\<lparr>rw_state_lt := w1, rw_state_mt := w2, rw_state_st := w3\<rparr>"
    have eq: "RtWriter_write em nows item ts_net ts q rw = Some (?r, ?q,
        if accept_any ?r then ?rw\<lparr>rw_last_insert_ts := ts, rw_last_insert_val := Some item\<rparr> else ?rw)"
      using False w1(1) w2(1) w3(1) by (simp add: RtWriter_write_def n)
    have st: "store_ok ts w1 q1" "store_ok ts w2 q2" "store_ok ts w3 q3"
      using w1(2) w2(2) w3(2) s store_ok_mono [OF _ less_imp_le [OF lt]] by (auto split: if_splits)
    show ?thesis
    proof (cases "accept_any ?r")
      case True
      then show ?thesis using eq st s(4) lt by (simp add: rt_inv_def)
    next
      case False
      then have "q1 = lt_rf3_qu q \<and> w1 = rw_state_lt rw" "q2 = mt_rf3_qu q \<and> w2 = rw_state_mt rw"
        "q3 = st_rf3_qu q \<and> w3 = rw_state_st rw"
        using w1(2) w2(2) w3(2) by (simp_all add: accept_any_def)
      then show ?thesis using eq False assms by simp
    qed
  qed
qed

lemma last_of_None: "last_of w = None \<longleftrightarrow> rl_last_insert_val w = None"
  by (simp add: last_of_def)

lemma last_of_ts: "last_of w = Some (ts, v) \<Longrightarrow> rl_last_insert_ts w = ts \<and> rl_last_insert_val w = Some v"
  by (auto simp: last_of_def)

lemma max_tsl_Short:
  assumes "max_tsl rw = Some ((ts, v), Short)"
  shows "last_of (rw_state_st rw) = Some (ts, v) \<and>
    (rl_last_insert_val (rw_state_lt rw) = None \<or> rl_last_insert_ts (rw_state_lt rw) < ts) \<and>
    (rl_last_insert_val (rw_state_mt rw) = None \<or> rl_last_insert_ts (rw_state_mt rw) < ts)"
  using assms
  by (auto simp: max_tsl_def max_step_def last_of_def split: option.splits if_splits)

lemma max_tsl_Medium:
  assumes "max_tsl rw = Some ((ts, v), Medium)"
  shows "last_of (rw_state_mt rw) = Some (ts, v) \<and>
    (rl_last_insert_val (rw_state_lt rw) = None \<or> rl_last_insert_ts (rw_state_lt rw) < ts)"
  using assms
  by (auto simp: max_tsl_def max_step_def last_of_def split: option.splits if_splits)

lemma reput_ok:
  assumes "rt_inv (q, rw)"
  shows "\<exists>q' rw'. check_quiet_reput em ts_net now tsnow q rw = Some (q', rw') \<and> rt_inv (q', rw')"
proof -
  from assms have s: "store_ok (rw_last_insert_ts rw) (rw_state_st rw) (st_rf3_qu q)"
    "store_ok (rw_last_insert_ts rw) (rw_state_mt rw) (mt_rf3_qu q)"
    "store_ok (rw_last_insert_ts rw) (rw_state_lt rw) (lt_rf3_qu q)" by (simp_all add: rt_inv_def)
  consider "max_tsl rw = None" | ts v where "max_tsl rw = Some ((ts, v), Long)"
    | ts v where "max_tsl rw = Some ((ts, v), Short)" | ts v where "max_tsl rw = Some ((ts, v), Medium)"
  proof (cases "max_tsl rw")
    case (Some x)
    obtain ts v r where "x = ((ts, v), r)" by (cases x) force
    with Some that show ?thesis by (cases r) auto
  qed
  then show ?thesis
  proof cases
    case (3 ts v)
    note m = max_tsl_Short [OF 3]
    have "ts \<le> rw_last_insert_ts rw"
      using s(1) last_of_ts [OF conjunct1 [OF m]] by (simp add: store_ok_def)
    then obtain r1 q1 w1 r2 q2 w2 where
      f1: "write_inner_force em now v ts_net ts (lt_rf3_qu q) (rw_state_lt rw) = Some (r1, q1, w1)"
        "store_ok (rw_last_insert_ts rw) w1 q1" and
      f2: "write_inner_force em now v ts_net ts (mt_rf3_qu q) (rw_state_mt rw) = Some (r2, q2, w2)"
        "store_ok (rw_last_insert_ts rw) w2 q2"
      using write_inner_force_ok [OF s(3) _ conjunct1 [OF conjunct2 [OF m]], of em now v ts_net]
        write_inner_force_ok [OF s(2) _ conjunct2 [OF conjunct2 [OF m]], of em now v ts_net] by blast
    then show ?thesis
      using assms by (simp add: check_quiet_reput_def rt_inv_def 3)
  next
    case (4 ts v)
    note m = max_tsl_Medium [OF 4]
    have "ts \<le> rw_last_insert_ts rw"
      using s(2) last_of_ts [OF conjunct1 [OF m]] by (simp add: store_ok_def)
    then obtain r1 q1 w1 where
      "write_inner_force em now v ts_net ts (lt_rf3_qu q) (rw_state_lt rw) = Some (r1, q1, w1)"
      "store_ok (rw_last_insert_ts rw) w1 q1"
      using write_inner_force_ok [OF s(3) _ conjunct2 [OF m], of em now v ts_net] by blast
    then show ?thesis
      using assms by (simp add: check_quiet_reput_def rt_inv_def 4)
  qed (use assms in \<open>simp_all add: check_quiet_reput_def\<close>)
qed

lemma tick_eq: "RtWriter_tick em ts_net now tsnow q rw = check_quiet_reput em ts_net now tsnow q rw"
  by (cases "check_quiet_reput em ts_net now tsnow q rw")
    (auto simp: RtWriter_tick_def RateLimitWriter_tick_def SeriesWriter_tick_def)

lemma housekeeping_rt_ok:
  assumes "rt_inv (q, rw)"
  shows "\<exists>n q' rw'. RtWriter_housekeeping nows q rw = Some (n, q', rw') \<and> rt_inv (q', rw')"
proof -
  obtain n1 n2 n3 where n: "nows = (n1, n2, n3)" by (cases nows)
  from assms have s: "store_ok (rw_last_insert_ts rw) (rw_state_st rw) (st_rf3_qu q)"
    "store_ok (rw_last_insert_ts rw) (rw_state_mt rw) (mt_rf3_qu q)"
    "store_ok (rw_last_insert_ts rw) (rw_state_lt rw) (lt_rf3_qu q)"
    "rows (st_rf1_qu q) = []" by (simp_all add: rt_inv_def)
  let ?d = "if rw_do_st_rf1 rw then st_rf1_qu q else st_rf3_qu q"
  obtain m1 d1 w1 where h1:
    "RateLimitWriter_housekeeping MspSplitDyn_impl n1 ?d (rw_state_st rw) = Some (m1, ?d @ d1, w1)"
    "rows d1 = []" "store_ok (rw_last_insert_ts rw) w1 (st_rf3_qu q)"
    "store_ok (rw_last_insert_ts rw) w1 (st_rf3_qu q @ d1)"
    using rl_housekeeping_ok [OF s(1)] by blast
  obtain m2 d2 w2 where h2:
    "RateLimitWriter_housekeeping MspSplitDyn_impl n2 (mt_rf3_qu q) (rw_state_mt rw) = Some (m2, mt_rf3_qu q @ d2, w2)"
    "store_ok (rw_last_insert_ts rw) w2 (mt_rf3_qu q @ d2)"
    using rl_housekeeping_ok [OF s(2)] by blast
  obtain m3 d3 w3 where h3:
    "RateLimitWriter_housekeeping MspSplitDyn_impl n3 (lt_rf3_qu q) (rw_state_lt rw) = Some (m3, lt_rf3_qu q @ d3, w3)"
    "store_ok (rw_last_insert_ts rw) w3 (lt_rf3_qu q @ d3)"
    using rl_housekeeping_ok [OF s(3)] by blast
  show ?thesis
    using h1 h2 h3 s(4)
    by (cases "rw_do_st_rf1 rw") (simp_all add: RtWriter_housekeeping_def n rt_inv_def)
qed

lemma on_close_rt_ok:
  assumes "rt_inv (q, rw)"
  shows "\<exists>q'. RtWriter_on_close nows q rw = Some q' \<and> rt_inv (q', rw)"
proof -
  obtain n1 n2 n3 where n: "nows = (n1, n2, n3)" by (cases nows)
  from assms have s: "store_ok (rw_last_insert_ts rw) (rw_state_st rw) (st_rf3_qu q)"
    "store_ok (rw_last_insert_ts rw) (rw_state_mt rw) (mt_rf3_qu q)"
    "store_ok (rw_last_insert_ts rw) (rw_state_lt rw) (lt_rf3_qu q)"
    "rows (st_rf1_qu q) = []" by (simp_all add: rt_inv_def)
  let ?d = "if rw_do_st_rf1 rw then st_rf1_qu q else st_rf3_qu q"
  obtain d1 where h1: "RateLimitWriter_on_close MspSplitDyn_impl n1 ?d (rw_state_st rw) = Some (?d @ d1)"
    "rows d1 = []" "store_ok (rw_last_insert_ts rw) (rw_state_st rw) (st_rf3_qu q @ d1)"
    using rl_on_close_ok [OF s(1)] by blast
  obtain d2 where h2:
    "RateLimitWriter_on_close MspSplitDyn_impl n2 (mt_rf3_qu q) (rw_state_mt rw) = Some (mt_rf3_qu q @ d2)"
    "store_ok (rw_last_insert_ts rw) (rw_state_mt rw) (mt_rf3_qu q @ d2)"
    using rl_on_close_ok [OF s(2)] by blast
  obtain d3 where h3:
    "RateLimitWriter_on_close MspSplitDyn_impl n3 (lt_rf3_qu q) (rw_state_lt rw) = Some (lt_rf3_qu q @ d3)"
    "store_ok (rw_last_insert_ts rw) (rw_state_lt rw) (lt_rf3_qu q @ d3)"
    using rl_on_close_ok [OF s(3)] by blast
  show ?thesis
    using h1 h2 h3 s
    by (cases "rw_do_st_rf1 rw") (simp_all add: RtWriter_on_close_def n rt_inv_def)
qed

lemma rt_exec_ok:
  assumes "rt_inv x"
  shows "\<exists>y. rt_exec em c x = Some y \<and> rt_inv y"
proof -
  obtain q rw where x: "x = (q, rw)" by (cases x)
  show ?thesis
  proof (cases c)
    case (RtWrite nows item ts_net ts)
    obtain r q' rw' where "RtWriter_write em nows item ts_net ts q rw = Some (r, q', rw')" "rt_inv (q', rw')"
      using rt_write_ok [OF assms [unfolded x]] by blast
    then show ?thesis by (simp add: x RtWrite)
  next
    case (RtTick ts_net now tsnow)
    then show ?thesis using reput_ok [OF assms [unfolded x]] by (auto simp: x tick_eq)
  next
    case (RtHousekeeping nows)
    obtain n q' rw' where "RtWriter_housekeeping nows q rw = Some (n, q', rw')" "rt_inv (q', rw')"
      using housekeeping_rt_ok [OF assms [unfolded x]] by blast
    then show ?thesis by (simp add: x RtHousekeeping)
  next
    case (RtOnClose nows)
    then show ?thesis using on_close_rt_ok [OF assms [unfolded x], of nows] by (auto simp: x)
  qed
qed

lemma rt_exec_all_ok: "rt_inv x \<Longrightarrow> \<exists>y. rt_exec_all em cs x = Some y \<and> rt_inv y"
proof (induction cs arbitrary: x)
  case (Cons c cs)
  obtain y where "rt_exec em c x = Some y" "rt_inv y" using rt_exec_ok [OF Cons.prems] by blast
  then show ?case using Cons.IH by auto
qed simp

lemma rt_inv_new:
  "rt_inv (iqdqs_new, RtWriter_new series ty shape quiets polled rf1 st now)"
proof -
  have "dyn.writer_ok {} (SeriesWriter_new series (MspSplitDyn_new cmax bmax rt) now)" for cmax bmax rt
    by (rule dyn.writer_ok_new) (simp_all add: dy_inv_def MspSplitDyn_new_def)
  then show ?thesis
    by (simp add: rt_inv_def iqdqs_new_def RtWriter_new_def store_ok_def RateLimitWriter_new_def Let_def)
qed

lemma rt_reachable_inv:
  assumes "rt_exec_all em cs (iqdqs_new, RtWriter_new series ty shape quiets polled rf1 st now) = Some x"
  shows "rt_inv x"
proof -
  have "\<exists>y. rt_exec_all em cs (iqdqs_new, RtWriter_new series ty shape quiets polled rf1 st now) = Some y \<and>
      rt_inv y"
    by (rule rt_exec_all_ok [OF rt_inv_new])
  with assms show ?thesis by simp
qed

text \<open>After the copy to the long term store, that store is the latest one.\<close>

lemma max_tsl_Long:
  assumes "last_of (rw_state_lt rw) = Some (ts, v)"
    and "rl_last_insert_val (rw_state_st rw) = None \<or> rl_last_insert_ts (rw_state_st rw) \<le> ts"
    and "rl_last_insert_val (rw_state_mt rw) = None \<or> rl_last_insert_ts (rw_state_mt rw) \<le> ts"
  shows "max_tsl rw = Some ((ts, v), Long)"
  using assms by (auto simp: max_tsl_def max_step_def last_of_def not_le split: option.splits)

section \<open>Properties\<close>

text \<open>
  C29. Whatever sequence of \<^verbatim>\<open>write\<close>, \<^verbatim>\<open>tick\<close>, \<^verbatim>\<open>housekeeping\<close> and \<^verbatim>\<open>on_close\<close> calls is made on
  a fresh \<^verbatim>\<open>RtWriter\<close>, nothing panics, and in the queue of each retention time every row comes
  after the index entry of its partition and the rows are in strict time order, without
  duplicates. The queue \<^verbatim>\<open>st_rf1_qu\<close>, to which \<^verbatim>\<open>do_st_rf1\<close> is meant to direct the short term
  store, never receives a row.
\<close>

theorem rtwriter_queues_ordered:
  "\<exists>q rw. rt_exec_all em cs (iqdqs_new, RtWriter_new series ty shape quiets polled rf1 st now) = Some (q, rw) \<and>
    (\<forall>d \<in> {st_rf3_qu q, mt_rf3_qu q, lt_rf3_qu q}. indexed {} d \<and> sorted_wrt (<) (map fst (rows d))) \<and>
    rows (st_rf1_qu q) = []"
proof -
  obtain q rw where "rt_exec_all em cs (iqdqs_new, RtWriter_new series ty shape quiets polled rf1 st now)
      = Some (q, rw)" "rt_inv (q, rw)"
    using rt_exec_all_ok [OF rt_inv_new] by (metis prod.exhaust)
  then show ?thesis by (auto simp: rt_inv_def store_ok_def)
qed

theorem rtwriter_queues_ordered_witness:
  "\<exists>q rw. rt_exec_all ChannelStatusWriteValue_impl
      [RtWrite (0, 0, 0) (ChannelStatusWriteValue 1 2) 0 20000000000, RtTick 0 0 100000000000]
      (iqdqs_new, RtWriter_new 7 U64 ShScalar test_mon_1_10 False True () 0) = Some (q, rw) \<and>
    rows (st_rf1_qu q) = []"
  using rtwriter_queues_ordered [of ChannelStatusWriteValue_impl
      "[RtWrite (0, 0, 0) (ChannelStatusWriteValue 1 2) 0 20000000000, RtTick 0 0 100000000000]"
      7 U64 ShScalar test_mon_1_10 False True "()" 0]
  by blast

text \<open>
  C30. In any state that calls can reach, a \<^verbatim>\<open>write\<close> is accepted by some store only if the event is
  strictly later than every event accepted before; a write that no store accepts changes neither
  the queues nor the writer.
\<close>

theorem rtwriter_accepts_only_newer:
  assumes "rt_exec_all em cs (iqdqs_new, RtWriter_new series ty shape quiets polled rf1 st now) = Some (q, rw)"
  shows "\<exists>r q' rw'. RtWriter_write em nows item ts_net ts q rw = Some (r, q', rw') \<and>
    (if accept_any r
     then rw_last_insert_ts rw' = ts \<and>
       (\<forall>d \<in> {st_rf3_qu q, mt_rf3_qu q, lt_rf3_qu q}. \<forall>t \<in> fst ` set (rows d). t < ts)
     else q' = q \<and> rw' = rw)"
proof -
  have inv: "rt_inv (q, rw)" by (rule rt_reachable_inv [OF assms])
  then have le: "\<forall>d \<in> {st_rf3_qu q, mt_rf3_qu q, lt_rf3_qu q}. \<forall>t \<in> fst ` set (rows d). t \<le> rw_last_insert_ts rw"
    by (fastforce simp: rt_inv_def store_ok_def)
  obtain r q' rw' where w: "RtWriter_write em nows item ts_net ts q rw = Some (r, q', rw')"
    "if accept_any r then rw_last_insert_ts rw < ts \<and> rw_last_insert_ts rw' = ts else q' = q \<and> rw' = rw"
    using rt_write_ok [OF inv] by blast
  then show ?thesis
    using le by (intro exI [of _ r] exI [of _ q'] exI [of _ rw']) (auto split: if_splits)
qed

theorem rtwriter_accepts_only_newer_witness:
  "\<exists>q rw. rt_exec_all ChannelStatusWriteValue_impl
      [RtWrite (0, 0, 0) (ChannelStatusWriteValue 1 2) 0 20000000000]
      (iqdqs_new, RtWriter_new 7 U64 ShScalar test_mon_1_10 False True () 0) = Some (q, rw) \<and>
    (\<exists>r q' rw'. RtWriter_write ChannelStatusWriteValue_impl (0, 0, 0) (ChannelStatusWriteValue 1 3) 0
        20500000000 q rw = Some (r, q', rw') \<and>
      (if accept_any r
       then rw_last_insert_ts rw' = 20500000000 \<and>
         (\<forall>d \<in> {st_rf3_qu q, mt_rf3_qu q, lt_rf3_qu q}. \<forall>t \<in> fst ` set (rows d). t < 20500000000)
       else q' = q \<and> rw' = rw))"
proof -
  obtain q rw where x: "rt_exec_all ChannelStatusWriteValue_impl
      [RtWrite (0, 0, 0) (ChannelStatusWriteValue 1 2) 0 20000000000]
      (iqdqs_new, RtWriter_new 7 U64 ShScalar test_mon_1_10 False True () 0) = Some (q, rw)"
    using rt_exec_all_ok [OF rt_inv_new] by (metis prod.exhaust)
  show ?thesis
    using x rtwriter_accepts_only_newer [OF x] by blast
qed

text \<open>
  C31. A value that only the short term store took is copied to the long term store once it has been
  quiet for the long term quiet time: the tick appends a row with the event's timestamp to the long
  term queue and leaves the other two stores alone. The medium term store then never gets that
  value, because after this tick the long term store counts as the latest one and further ticks do
  nothing.
\<close>

theorem rtwriter_reput_long:
  assumes "rt_exec_all em cs (iqdqs_new, RtWriter_new series ty shape quiets polled rf1 st now) = Some (q, rw)"
    and "max_tsl rw = Some ((tsl, v), Short)"
    and "quiet_elapsed tsl (mq_lt (rw_min_quiets rw)) tsnow"
  shows "\<exists>q' rw'. RtWriter_tick em ts_net now' tsnow q rw = Some (q', rw') \<and>
    map fst (rows (lt_rf3_qu q')) = map fst (rows (lt_rf3_qu q)) @ [tsl] \<and>
    last_of (rw_state_lt rw') = Some (tsl, v) \<and>
    mt_rf3_qu q' = mt_rf3_qu q \<and> st_rf3_qu q' = st_rf3_qu q \<and>
    RtWriter_tick em ts_net2 now2 tsnow2 q' rw' = Some (q', rw')"
proof -
  have "rt_inv (q, rw)" by (rule rt_reachable_inv [OF assms(1)])
  then have s: "store_ok (rw_last_insert_ts rw) (rw_state_st rw) (st_rf3_qu q)"
    "store_ok (rw_last_insert_ts rw) (rw_state_lt rw) (lt_rf3_qu q)" by (simp_all add: rt_inv_def)
  note m = max_tsl_Short [OF assms(2)]
  have "tsl \<le> rw_last_insert_ts rw"
    using s(1) last_of_ts [OF conjunct1 [OF m]] by (simp add: store_ok_def)
  then obtain r q1 w1 where
    f: "write_inner_force em now' v ts_net tsl (lt_rf3_qu q) (rw_state_lt rw) = Some (r, q1, w1)"
      "last_of w1 = Some (tsl, v)" "map fst (rows q1) = map fst (rows (lt_rf3_qu q)) @ [tsl]"
    using write_inner_force_ok [OF s(2) _ conjunct1 [OF conjunct2 [OF m]], of em now' v ts_net] by blast
  let ?q = "q\<lparr>lt_rf3_qu := q1\<rparr>" and ?rw = "rw\<lparr>rw_state_lt := w1\<rparr>"
  have "max_tsl ?rw = Some ((tsl, v), Long)"
    by (rule max_tsl_Long) (use f(2) m last_of_ts [OF conjunct1 [OF m]] in \<open>auto simp: less_imp_le\<close>)
  then show ?thesis
    using f assms(2,3) by (simp add: tick_eq check_quiet_reput_def)
qed

lemma reput_example_decisions:
  "rl_decide (RateLimitWriter_new s (Duration_from_millis 0) False st spl now) 500000000 = Accept"
  "rl_decide (RateLimitWriter_new s (Duration_from_millis 1000) False st spl now) 500000000 = MonitorNotMinQuiet"
  "rl_decide (RateLimitWriter_new s (Duration_from_millis 10000) False st spl now) 500000000 = MonitorNotMinQuiet"
  by (simp_all add: rl_decide_def RateLimitWriter_new_def min_quiet_ms_def Duration_from_millis_def
      TsNano_ms_def TsNano_add_dt_nano_def DtNano_from_ms_def)

lemma reput_example:
  "\<exists>q rw. rt_exec_all ChannelStatusWriteValue_impl
      [RtWrite (0, 0, 0) (ChannelStatusWriteValue 1 2) 0 500000000]
      (iqdqs_new, RtWriter_new 7 U64 ShScalar test_mon_1_10 False False () 0) = Some (q, rw) \<and>
    max_tsl rw = Some ((500000000, ChannelStatusWriteValue 1 2), Short) \<and> rw_min_quiets rw = test_mon_1_10"
  by (simp add: RtWriter_write_def RtWriter_new_def Let_def write_inner_def RateLimitWriter_write_def
      test_mon_1_10_def reput_example_decisions)
    (simp add: RateLimitWriter_new_def SeriesWriter_write_def ChannelStatusWriteValue_impl_def
      MspSplitDyn_impl_def MspSplitDyn_split_eq SeriesWriter_new_def MspSplitDyn_new_def to_rt_res_def
      accept_any_def max_tsl_def max_step_def last_of_def)

theorem rtwriter_reput_long_witness:
  "\<exists>q rw. rt_exec_all ChannelStatusWriteValue_impl
      [RtWrite (0, 0, 0) (ChannelStatusWriteValue 1 2) 0 500000000]
      (iqdqs_new, RtWriter_new 7 U64 ShScalar test_mon_1_10 False False () 0) = Some (q, rw) \<and>
    (\<exists>q' rw'. RtWriter_tick ChannelStatusWriteValue_impl 0 0 20000000000 q rw = Some (q', rw') \<and>
      map fst (rows (lt_rf3_qu q')) = map fst (rows (lt_rf3_qu q)) @ [500000000] \<and>
      RtWriter_tick ChannelStatusWriteValue_impl 0 0 30000000000 q' rw' = Some (q', rw'))"
proof -
  obtain q rw where x: "rt_exec_all ChannelStatusWriteValue_impl
      [RtWrite (0, 0, 0) (ChannelStatusWriteValue 1 2) 0 500000000]
      (iqdqs_new, RtWriter_new 7 U64 ShScalar test_mon_1_10 False False () 0) = Some (q, rw)"
    "max_tsl rw = Some ((500000000, ChannelStatusWriteValue 1 2), Short)" "rw_min_quiets rw = test_mon_1_10"
    using reput_example by blast
  have "quiet_elapsed 500000000 (mq_lt (rw_min_quiets rw)) 20000000000"
    by (simp add: x(3) quiet_elapsed_def test_mon_1_10_def Duration_from_millis_def)
  from rtwriter_reput_long [OF x(1,2) this, of 0 0 0 0 30000000000] x(1) show ?thesis by blast
qed

end
