(* ===== verification/Streams.thy ===== *)
theory Streams
  imports TimeTypes
begin

text \<open>
  The item types of streams (\<^verbatim>\<open>daqbuf-items-0/src/streamitem.rs\<close>) and the results of polling. A
  stream that is input to a component is the sequence of its poll results: it is pending, or it
  yields an item, and at the end of the sequence it is finished.
\<close>

datatype 'a poll = Pending | Ready 'a

datatype Level = ERROR | WARN | INFO | DEBUG | TRACE

record LogItem =
  li_ts :: nat
  li_origin :: string
  li_level :: Level
  li_msg :: string

record RangeFilterStats =
  recv_empty :: u64
  items_no_prune_high :: u64
  items_all_prune_high :: u64
  items_part_prune_high :: u64
  items_prune_low :: u64

definition RangeFilterStats_new :: RangeFilterStats where
  "RangeFilterStats_new =
     \<lparr>recv_empty = 0, items_no_prune_high = 0, items_all_prune_high = 0, items_part_prune_high = 0,
      items_prune_low = 0\<rparr>"

text \<open>Durations are counted in nanoseconds.\<close>

datatype DiskStats = OpenStats nat | SeekStats nat | ReadStats nat | ReadExactStats nat

datatype StatsItem =
  SiEventDataReadStats u64 | SiRangeFilterStats RangeFilterStats | SiDiskStats DiskStats
| SiWarnings | SiBinning

datatype 't RangeCompletableItem = RangeComplete | Data 't

datatype 't StreamItem = DataItem 't | Log LogItem | Stats StatsItem

type_synonym ('e, 't) Sitemty = "('e, 't RangeCompletableItem StreamItem) result"

definition sitem_data :: "'t \<Rightarrow> ('e, 't) Sitemty" where
  "sitem_data x = Inr (DataItem (Data x))"

definition into_data :: "'t StreamItem \<Rightarrow> ('t StreamItem, 't) result" where
  "into_data x = (case x of DataItem d \<Rightarrow> Inr d | _ \<Rightarrow> Inl x)"

text \<open>\<^verbatim>\<open>on_sitemty_data!\<close>: apply a function to the data of an item, pass everything else on.\<close>

definition on_sitemty_data :: "('e, 't) Sitemty \<Rightarrow> ('t \<Rightarrow> ('e, 't) Sitemty) \<Rightarrow> ('e, 't) Sitemty" where
  "on_sitemty_data item ex =
     (case item of
        Inr (DataItem (Data x)) \<Rightarrow> ex x
      | Inr (DataItem RangeComplete) \<Rightarrow> Inr (DataItem RangeComplete)
      | Inr (Log x) \<Rightarrow> Inr (Log x)
      | Inr (Stats x) \<Rightarrow> Inr (Stats x)
      | Inl x \<Rightarrow> Inl x)"

type_synonym ('e, 't) stream = "('e, 't) Sitemty poll list"

text \<open>The data of a sequence of items, and of the items a stream will yield.\<close>

fun item_data :: "('e, 't) Sitemty list \<Rightarrow> 't list" where
  "item_data [] = []"
| "item_data (Inr (DataItem (Data x)) # xs) = x # item_data xs"
| "item_data (_ # xs) = item_data xs"

fun stream_items :: "('e, 't) stream \<Rightarrow> ('e, 't) Sitemty list" where
  "stream_items [] = []"
| "stream_items (Pending # xs) = stream_items xs"
| "stream_items (Ready x # xs) = x # stream_items xs"

definition stream_data :: "('e, 't) stream \<Rightarrow> 't list" where
  "stream_data xs = item_data (stream_items xs)"

lemma item_data_append [simp]: "item_data (xs @ ys) = item_data xs @ item_data ys"
  by (induction xs rule: item_data.induct) simp_all

lemma item_data_sitem [simp]: "item_data (sitem_data x # xs) = x # item_data xs"
  by (simp add: sitem_data_def)

lemma stream_data_simps [simp]:
  "stream_data [] = []"
  "stream_data (Pending # xs) = stream_data xs"
  "stream_data (Ready (Inr (DataItem (Data x))) # xs) = x # stream_data xs"
  "stream_data (Ready (Inr (DataItem RangeComplete)) # xs) = stream_data xs"
  "stream_data (Ready (Inr (Log l)) # xs) = stream_data xs"
  "stream_data (Ready (Inr (Stats st)) # xs) = stream_data xs"
  "stream_data (Ready (Inl e) # xs) = stream_data xs"
  by (simp_all add: stream_data_def)

lemma on_sitemty_data_same [simp]: "on_sitemty_data x (\<lambda>k. sitem_data k) = x"
  by (simp add: on_sitemty_data_def sitem_data_def split: sum.split StreamItem.split RangeCompletableItem.split)

text \<open>Polling a stream to its end; the items it yields.\<close>

partial_function (option) stream_run :: "('s \<Rightarrow> ('i option poll \<times> 's) option) \<Rightarrow> 's \<Rightarrow> 'i list option" where
  "stream_run poll s = do {
     (r, s) \<leftarrow> poll s;
     case r of
       Pending \<Rightarrow> stream_run poll s
     | Ready None \<Rightarrow> Some []
     | Ready (Some x) \<Rightarrow> do { xs \<leftarrow> stream_run poll s; Some (x # xs) } }"

lemma stream_run_cong: "poll s = poll s' \<Longrightarrow> stream_run poll s = stream_run poll s'"
  by (subst (1 2) stream_run.simps) simp

lemma stream_run_step:
  "poll s = Some (Pending, s') \<Longrightarrow> stream_run poll s = stream_run poll s'"
  "poll s = Some (Ready (Some x), s') \<Longrightarrow> stream_run poll s = map_option ((#) x) (stream_run poll s')"
  "poll s = Some (Ready None, s') \<Longrightarrow> stream_run poll s = Some []"
  by (subst stream_run.simps, simp add: map_conv_bind_option comp_def)+

end
