(* ===== verification/Mergeable.thy ===== *)
theory Mergeable
  imports Streams "HOL-Library.Sublist"
begin

text \<open>
  The trait \<^verbatim>\<open>MergeableTy\<close> of \<^verbatim>\<open>daqbuf-items-0/src/merge.rs\<close> as a record of operations, its
  contract as the locale \<open>mergeable\<close>, and the container \<^verbatim>\<open>ContainerEvents\<close> of
  \<^verbatim>\<open>daqbuf-items-2/src/binning/container_events.rs\<close> that implements it.
  The cached byte estimate of the container is part of its state, so the estimate is an operation
  that returns the container, too.
\<close>

datatype DrainIntoDstResult = DstDone | DstPartial | DstNotCompatible

datatype 't DrainIntoNewResult = NewDone 't | NewPartial 't | NewNotCompatible

record 't MergeableTy =
  m_len :: "'t \<Rightarrow> nat"
  m_byte_estimate :: "'t \<Rightarrow> u32 \<times> 't"
  m_ts_min :: "'t \<Rightarrow> TsNano option"
  m_ts_max :: "'t \<Rightarrow> TsNano option"
  m_find_lowest_index_gt :: "'t \<Rightarrow> TsNano \<Rightarrow> nat option"
  m_find_lowest_index_ge :: "'t \<Rightarrow> TsNano \<Rightarrow> nat option"
  m_find_highest_index_lt :: "'t \<Rightarrow> TsNano \<Rightarrow> nat option"
  m_find_pp_le :: "'t \<Rightarrow> TsNano \<Rightarrow> nat"
  m_tss :: "'t \<Rightarrow> TsNano list"
  m_drain_into :: "'t \<Rightarrow> 't \<Rightarrow> nat \<times> nat \<Rightarrow> (DrainIntoDstResult \<times> 't \<times> 't) panics"
  m_drain_into_new :: "'t \<Rightarrow> nat \<times> nat \<Rightarrow> ('t DrainIntoNewResult \<times> 't) panics"
  m_is_monotonic :: "'t \<Rightarrow> bool"
  m_is_consistent :: "'t \<Rightarrow> bool"
  m_retain_unique_ts :: "'t \<Rightarrow> TsNano \<Rightarrow> 't"

section \<open>The contract\<close>

text \<open>
  A container holds a sequence of events, a timestamp and a value each. Searching is specified for
  containers in time order. Draining a range moves it to the end of the destination, or is refused
  as a whole; draining into a fresh container is never refused.
\<close>

type_synonym 'v event = "TsNano \<times> 'v"

abbreviation in_order :: "'v event list \<Rightarrow> bool" where
  "in_order es \<equiv> sorted (map fst es)"

definition pp :: "(TsNano \<Rightarrow> bool) \<Rightarrow> 'v event list \<Rightarrow> nat" where
  "pp p es = length (takeWhile (\<lambda>e. p (fst e)) es)"

locale mergeable =
  fixes ops :: "'t MergeableTy"
    and inv :: "'t \<Rightarrow> bool"
    and evs :: "'t \<Rightarrow> 'v event list"
  assumes len: "inv x \<Longrightarrow> m_len ops x = length (evs x)"
    and byte_estimate: "inv x \<Longrightarrow> inv (snd (m_byte_estimate ops x)) \<and> evs (snd (m_byte_estimate ops x)) = evs x"
    and ts_min: "inv x \<Longrightarrow> m_ts_min ops x = (if evs x = [] then None else Some (fst (hd (evs x))))"
    and ts_max: "inv x \<Longrightarrow> m_ts_max ops x = (if evs x = [] then None else Some (fst (last (evs x))))"
    and find_gt: "inv x \<Longrightarrow> in_order (evs x) \<Longrightarrow> m_find_lowest_index_gt ops x ts =
      (if pp (\<lambda>t. t \<le> ts) (evs x) \<ge> length (evs x) then None else Some (pp (\<lambda>t. t \<le> ts) (evs x)))"
    and find_ge: "inv x \<Longrightarrow> in_order (evs x) \<Longrightarrow> m_find_lowest_index_ge ops x ts =
      (if pp (\<lambda>t. t < ts) (evs x) \<ge> length (evs x) then None else Some (pp (\<lambda>t. t < ts) (evs x)))"
    and find_lt: "inv x \<Longrightarrow> in_order (evs x) \<Longrightarrow> m_find_highest_index_lt ops x ts =
      (if pp (\<lambda>t. t < ts) (evs x) = 0 then None else Some (pp (\<lambda>t. t < ts) (evs x) - 1))"
    and monotonic: "inv x \<Longrightarrow> m_is_monotonic ops x \<longleftrightarrow> in_order (evs x)"
    and drain_into: "inv s \<Longrightarrow> inv d \<Longrightarrow> a \<le> b \<Longrightarrow> b \<le> length (evs s) \<Longrightarrow>
      \<exists>r s' d'. m_drain_into ops s d (a, b) = Some (r, s', d') \<and> inv s' \<and> inv d' \<and>
        (r = DstDone \<and> evs d' = evs d @ take (b - a) (drop a (evs s)) \<and> evs s' = take a (evs s) @ drop b (evs s)
         \<or> r = DstNotCompatible \<and> s' = s \<and> d' = d)"
    and drain_into_new: "inv s \<Longrightarrow> a \<le> b \<Longrightarrow> b \<le> length (evs s) \<Longrightarrow>
      \<exists>s' d. m_drain_into_new ops s (a, b) = Some (NewDone d, s') \<and> inv s' \<and> inv d \<and>
        evs d = take (b - a) (drop a (evs s)) \<and> evs s' = take a (evs s) @ drop b (evs s)"

section \<open>ContainerEvents\<close>

text \<open>
  The values of the container are a \<^verbatim>\<open>VecDeque\<close>. The size of a value, \<^verbatim>\<open>byte_estimate\<close> of the
  value type, is a parameter.
\<close>

record 'v ContainerEvents =
  ce_tss :: "TsNano list"
  ce_vals :: "'v list"
  ce_byte_estimate :: "u32 option"

definition ce_from_constituents :: "TsNano list \<Rightarrow> 'v list \<Rightarrow> 'v ContainerEvents" where
  "ce_from_constituents tss vals = \<lparr>ce_tss = tss, ce_vals = vals, ce_byte_estimate = None\<rparr>"

definition ce_new :: "'v ContainerEvents" where
  "ce_new = \<lparr>ce_tss = [], ce_vals = [], ce_byte_estimate = None\<rparr>"

definition ce_len :: "'v ContainerEvents \<Rightarrow> nat" where
  "ce_len c = length (ce_tss c)"

datatype ce_error = Unordered

definition ce_verify :: "'v ContainerEvents \<Rightarrow> (ce_error, unit) result" where
  "ce_verify c =
     (if \<exists>(a, b) \<in> set (zip (ce_tss c) (drop 1 (ce_tss c))). a > b then Inl Unordered else Inr ())"

definition ce_push_back :: "TsNano \<Rightarrow> 'v \<Rightarrow> 'v ContainerEvents \<Rightarrow> 'v ContainerEvents" where
  "ce_push_back ts val c =
     c\<lparr>ce_tss := ce_tss c @ [ts], ce_vals := ce_vals c @ [val], ce_byte_estimate := None\<rparr>"

definition ce_iter_zip :: "'v ContainerEvents \<Rightarrow> (TsNano \<times> 'v) list" where
  "ce_iter_zip c = zip (ce_tss c) (ce_vals c)"

definition ce_clear :: "'v ContainerEvents \<Rightarrow> 'v ContainerEvents" where
  "ce_clear c = c\<lparr>ce_tss := [], ce_vals := [], ce_byte_estimate := Some 0\<rparr>"

definition vals_truncate_front :: "nat \<Rightarrow> 'v list \<Rightarrow> 'v list" where
  "vals_truncate_front len vs = (if length vs > len then drop (length vs - len) vs else vs)"

definition ce_truncate_front :: "nat \<Rightarrow> 'v ContainerEvents \<Rightarrow> 'v ContainerEvents" where
  "ce_truncate_front len c =
     (if ce_len c > len
      then let n = ce_len c - len in
        c\<lparr>ce_tss := drop n (ce_tss c), ce_vals := vals_truncate_front len (ce_vals c)\<rparr>
      else c)"

definition vals_byte_estimate :: "('v \<Rightarrow> u32) \<Rightarrow> 'v list \<Rightarrow> u32" where
  "vals_byte_estimate bv vs = fold (\<lambda>x a. a + bv x) vs 0"

definition ce_byte_estimate_mut :: "('v \<Rightarrow> u32) \<Rightarrow> 'v ContainerEvents \<Rightarrow> u32 \<times> 'v ContainerEvents" where
  "ce_byte_estimate_mut bv c =
     (case ce_byte_estimate c of
        Some x \<Rightarrow> (x, c)
      | None \<Rightarrow> let byte_est = 8 * of_nat (ce_len c) + vals_byte_estimate bv (ce_vals c) in
          (byte_est, c\<lparr>ce_byte_estimate := Some byte_est\<rparr>))"

subsection \<open>ContainerEventsTakeUpTo\<close>

record 'v ContainerEventsTakeUpTo =
  tu_evs :: "'v ContainerEvents"
  tu_end :: nat
  tu_pos :: nat

definition tu_new :: "'v ContainerEvents \<Rightarrow> 'v ContainerEventsTakeUpTo" where
  "tu_new c = \<lparr>tu_evs = c, tu_end = ce_len c, tu_pos = 0\<rparr>"

definition constrain_up_to_ts :: "TsNano \<Rightarrow> 'v ContainerEventsTakeUpTo \<Rightarrow> 'v ContainerEventsTakeUpTo panics" where
  "constrain_up_to_ts tend t =
     (let tss = ce_tss (tu_evs t);
          p = partition_point (\<lambda>x. x < tend) tss;
          p = max p (tu_pos t) in
      if p \<le> length tss \<and> p \<ge> tu_pos t \<and> (p \<noteq> 0 \<longrightarrow> tss ! (p - 1) < tend)
      then Some (t\<lparr>tu_end := p\<rparr>) else None)"

definition extend_to_all :: "'v ContainerEventsTakeUpTo \<Rightarrow> 'v ContainerEventsTakeUpTo" where
  "extend_to_all t = t\<lparr>tu_end := ce_len (tu_evs t)\<rparr>"

definition tu_len :: "'v ContainerEventsTakeUpTo \<Rightarrow> nat" where
  "tu_len t = usize_sub (tu_end t) (tu_pos t)"

definition tu_ts_first :: "'v ContainerEventsTakeUpTo \<Rightarrow> TsNano option" where
  "tu_ts_first t =
     (if tu_pos t < tu_end t
      then (if tu_pos t < length (ce_tss (tu_evs t)) then Some (ce_tss (tu_evs t) ! tu_pos t) else None)
      else None)"

definition tu_next :: "'v ContainerEventsTakeUpTo \<Rightarrow> (TsNano \<times> 'v) option \<times> 'v ContainerEventsTakeUpTo" where
  "tu_next t =
     (let c = tu_evs t in
      if tu_pos t < tu_end t
      then if tu_pos t < length (ce_tss c) \<and> tu_pos t < length (ce_vals c)
           then (Some (ce_tss c ! tu_pos t, ce_vals c ! tu_pos t), t\<lparr>tu_pos := tu_pos t + 1\<rparr>)
           else (None, t)
      else (None, t))"

subsection \<open>MergeableTy for ContainerEvents\<close>

definition ce_ts_min :: "'v ContainerEvents \<Rightarrow> TsNano option" where
  "ce_ts_min c = (case ce_tss c of [] \<Rightarrow> None | t # _ \<Rightarrow> Some t)"

definition ce_ts_max :: "'v ContainerEvents \<Rightarrow> TsNano option" where
  "ce_ts_max c = (if ce_tss c = [] then None else Some (last (ce_tss c)))"

definition ce_find_lowest_index_gt :: "'v ContainerEvents \<Rightarrow> TsNano \<Rightarrow> nat option" where
  "ce_find_lowest_index_gt c ts =
     (let x = partition_point (\<lambda>x. x \<le> ts) (ce_tss c) in if x \<ge> length (ce_tss c) then None else Some x)"

definition ce_find_lowest_index_ge :: "'v ContainerEvents \<Rightarrow> TsNano \<Rightarrow> nat option" where
  "ce_find_lowest_index_ge c ts =
     (let x = partition_point (\<lambda>x. x < ts) (ce_tss c) in if x \<ge> length (ce_tss c) then None else Some x)"

definition ce_find_highest_index_lt :: "'v ContainerEvents \<Rightarrow> TsNano \<Rightarrow> nat option" where
  "ce_find_highest_index_lt c ts =
     (let x = partition_point (\<lambda>x. x < ts) (ce_tss c) in if x = 0 then None else Some (x - 1))"

definition ce_find_pp_le :: "'v ContainerEvents \<Rightarrow> TsNano \<Rightarrow> nat" where
  "ce_find_pp_le c ts = partition_point (\<lambda>x. x \<le> ts) (ce_tss c)"

text \<open>\<^verbatim>\<open>VecDeque::drain\<close> of a range panics out of bounds.\<close>

definition drain :: "'a list \<Rightarrow> nat \<times> nat \<Rightarrow> ('a list \<times> 'a list) panics" where
  "drain xs r =
     (case r of (a, b) \<Rightarrow> do { d \<leftarrow> slice xs a b; Some (d, take a xs @ drop b xs) })"

definition ce_drain_into ::
    "'v ContainerEvents \<Rightarrow> 'v ContainerEvents \<Rightarrow> nat \<times> nat \<Rightarrow>
      (DrainIntoDstResult \<times> 'v ContainerEvents \<times> 'v ContainerEvents) panics" where
  "ce_drain_into src dst r =
     do { (ts, ts_left) \<leftarrow> drain (ce_tss src) r;
          (vs, vs_left) \<leftarrow> drain (ce_vals src) r;
          Some (DstDone, src\<lparr>ce_tss := ts_left, ce_vals := vs_left\<rparr>,
                dst\<lparr>ce_tss := ce_tss dst @ ts, ce_vals := ce_vals dst @ vs\<rparr>) }"

definition ce_drain_into_new ::
    "'v ContainerEvents \<Rightarrow> nat \<times> nat \<Rightarrow> ('v ContainerEvents DrainIntoNewResult \<times> 'v ContainerEvents) panics" where
  "ce_drain_into_new src r =
     do { (_, src, dst) \<leftarrow> ce_drain_into src ce_new r; Some (NewDone dst, src) }"

fun mono_from :: "TsNano list \<Rightarrow> bool" where
  "mono_from (a # b # xs) = (if a > b then False else mono_from (b # xs))"
| "mono_from _ = True"

definition ce_is_monotonic :: "'v ContainerEvents \<Rightarrow> bool" where
  "ce_is_monotonic c = mono_from (ce_tss c)"

text \<open>The mask of \<^verbatim>\<open>retain_unique_ts\<close>: an event is kept if it is later than the last kept one.\<close>

fun unique_mask :: "TsNano \<Rightarrow> TsNano list \<Rightarrow> bool list" where
  "unique_mask tsmin [] = []"
| "unique_mask tsmin (x # xs) =
     (if x > tsmin then True # unique_mask x xs else False # unique_mask tsmin xs)"

definition keep_masked :: "'a list \<Rightarrow> bool list \<Rightarrow> 'a list" where
  "keep_masked xs msk = List.map_filter (\<lambda>(a, b). if b then Some a else None) (zip xs msk)"

definition ce_retain_unique_ts :: "'v ContainerEvents \<Rightarrow> TsNano \<Rightarrow> 'v ContainerEvents" where
  "ce_retain_unique_ts c tsmin =
     (let msk = unique_mask tsmin (ce_tss c) in
      c\<lparr>ce_tss := keep_masked (ce_tss c) msk, ce_vals := keep_masked (ce_vals c) msk\<rparr>)"

definition ContainerEvents_impl :: "('v \<Rightarrow> u32) \<Rightarrow> 'v ContainerEvents MergeableTy" where
  "ContainerEvents_impl bv =
     \<lparr>m_len = ce_len, m_byte_estimate = ce_byte_estimate_mut bv,
      m_ts_min = ce_ts_min, m_ts_max = ce_ts_max,
      m_find_lowest_index_gt = ce_find_lowest_index_gt,
      m_find_lowest_index_ge = ce_find_lowest_index_ge,
      m_find_highest_index_lt = ce_find_highest_index_lt,
      m_find_pp_le = ce_find_pp_le, m_tss = ce_tss,
      m_drain_into = ce_drain_into, m_drain_into_new = ce_drain_into_new,
      m_is_monotonic = ce_is_monotonic, m_is_consistent = ce_is_monotonic,
      m_retain_unique_ts = ce_retain_unique_ts\<rparr>"

section \<open>ContainerEvents keeps the contract\<close>

definition ce_inv :: "'v ContainerEvents \<Rightarrow> bool" where
  "ce_inv c \<longleftrightarrow> length (ce_vals c) = length (ce_tss c)"

lemma length_iter_zip [simp]: "ce_inv c \<Longrightarrow> length (ce_iter_zip c) = length (ce_tss c)"
  by (simp add: ce_inv_def ce_iter_zip_def)

lemma map_fst_iter_zip [simp]: "ce_inv c \<Longrightarrow> map fst (ce_iter_zip c) = ce_tss c"
  by (simp add: ce_inv_def ce_iter_zip_def)

lemma iter_zip_Nil [simp]: "ce_inv c \<Longrightarrow> ce_iter_zip c = [] \<longleftrightarrow> ce_tss c = []"
  using length_iter_zip [of c] by (metis length_0_conv)

lemma pp_map: "pp p es = partition_point p (map fst es)"
  by (simp add: pp_def partition_point_def takeWhile_map comp_def)

lemma mono_from_sorted: "mono_from xs \<longleftrightarrow> sorted xs"
  by (induction xs rule: mono_from.induct) (auto simp: not_less)

lemma drain_iter_zip:
  assumes "ce_inv c" and "a \<le> b" and "b \<le> length (ce_tss c)"
  shows "drain (ce_tss c) (a, b) = Some (take (b - a) (drop a (ce_tss c)), take a (ce_tss c) @ drop b (ce_tss c))"
    "drain (ce_vals c) (a, b) = Some (take (b - a) (drop a (ce_vals c)), take a (ce_vals c) @ drop b (ce_vals c))"
  using assms by (simp_all add: drain_def ce_inv_def)

lemma ce_drain_into_ok:
  assumes "ce_inv s" and "ce_inv d" and "a \<le> b" and "b \<le> length (ce_iter_zip s)"
  obtains s' d' where "ce_drain_into s d (a, b) = Some (DstDone, s', d')" "ce_inv s'" "ce_inv d'"
    "ce_iter_zip d' = ce_iter_zip d @ take (b - a) (drop a (ce_iter_zip s))"
    "ce_iter_zip s' = take a (ce_iter_zip s) @ drop b (ce_iter_zip s)"
    "ce_byte_estimate d' = ce_byte_estimate d"
proof -
  let ?s = "s\<lparr>ce_tss := take a (ce_tss s) @ drop b (ce_tss s), ce_vals := take a (ce_vals s) @ drop b (ce_vals s)\<rparr>"
  let ?d = "d\<lparr>ce_tss := ce_tss d @ take (b - a) (drop a (ce_tss s)),
    ce_vals := ce_vals d @ take (b - a) (drop a (ce_vals s))\<rparr>"
  have b: "b \<le> length (ce_tss s)" using assms(1,4) by simp
  have "ce_drain_into s d (a, b) = Some (DstDone, ?s, ?d)"
    by (simp add: ce_drain_into_def drain_iter_zip [OF assms(1,3) b])
  moreover have "ce_inv ?s" "ce_inv ?d" using assms(1,2) by (simp_all add: ce_inv_def)
  moreover have "ce_iter_zip ?d = ce_iter_zip d @ take (b - a) (drop a (ce_iter_zip s))"
    "ce_iter_zip ?s = take a (ce_iter_zip s) @ drop b (ce_iter_zip s)"
    using assms(1,2) by (simp_all add: ce_inv_def ce_iter_zip_def take_zip drop_zip)
  ultimately show ?thesis by (intro that [of ?s ?d]) simp_all
qed

interpretation ce: mergeable "ContainerEvents_impl bv" ce_inv ce_iter_zip for bv :: "'v \<Rightarrow> u32"
proof
  fix x :: "'v ContainerEvents" and ts
  assume x: "ce_inv x"
  show "m_len (ContainerEvents_impl bv) x = length (ce_iter_zip x)"
    using x by (simp add: ContainerEvents_impl_def ce_len_def)
  show "ce_inv (snd (m_byte_estimate (ContainerEvents_impl bv) x)) \<and>
      ce_iter_zip (snd (m_byte_estimate (ContainerEvents_impl bv) x)) = ce_iter_zip x"
    using x by (simp add: ContainerEvents_impl_def ce_byte_estimate_mut_def ce_inv_def ce_iter_zip_def
        Let_def split: option.split)
  show "m_ts_min (ContainerEvents_impl bv) x =
      (if ce_iter_zip x = [] then None else Some (fst (hd (ce_iter_zip x))))"
    using x by (cases "ce_tss x"; cases "ce_vals x")
      (simp_all add: ContainerEvents_impl_def ce_ts_min_def ce_inv_def ce_iter_zip_def)
  show "m_ts_max (ContainerEvents_impl bv) x =
      (if ce_iter_zip x = [] then None else Some (fst (last (ce_iter_zip x))))"
    using x last_map [of "ce_iter_zip x" fst] by (simp add: ContainerEvents_impl_def ce_ts_max_def)
  show "m_is_monotonic (ContainerEvents_impl bv) x \<longleftrightarrow> in_order (ce_iter_zip x)"
    using x by (simp add: ContainerEvents_impl_def ce_is_monotonic_def mono_from_sorted)
  show "m_find_lowest_index_gt (ContainerEvents_impl bv) x ts =
      (if pp (\<lambda>t. t \<le> ts) (ce_iter_zip x) \<ge> length (ce_iter_zip x) then None
       else Some (pp (\<lambda>t. t \<le> ts) (ce_iter_zip x)))"
    using x by (simp add: ContainerEvents_impl_def ce_find_lowest_index_gt_def pp_map Let_def)
  show "m_find_lowest_index_ge (ContainerEvents_impl bv) x ts =
      (if pp (\<lambda>t. t < ts) (ce_iter_zip x) \<ge> length (ce_iter_zip x) then None
       else Some (pp (\<lambda>t. t < ts) (ce_iter_zip x)))"
    using x by (simp add: ContainerEvents_impl_def ce_find_lowest_index_ge_def pp_map Let_def)
  show "m_find_highest_index_lt (ContainerEvents_impl bv) x ts =
      (if pp (\<lambda>t. t < ts) (ce_iter_zip x) = 0 then None else Some (pp (\<lambda>t. t < ts) (ce_iter_zip x) - 1))"
    using x by (simp add: ContainerEvents_impl_def ce_find_highest_index_lt_def pp_map Let_def)
next
  fix s d :: "'v ContainerEvents" and a b
  assume "ce_inv s" "ce_inv d" "a \<le> b" "b \<le> length (ce_iter_zip s)"
  then show "\<exists>r s' d'. m_drain_into (ContainerEvents_impl bv) s d (a, b) = Some (r, s', d') \<and> ce_inv s' \<and> ce_inv d' \<and>
      (r = DstDone \<and> ce_iter_zip d' = ce_iter_zip d @ take (b - a) (drop a (ce_iter_zip s)) \<and>
         ce_iter_zip s' = take a (ce_iter_zip s) @ drop b (ce_iter_zip s)
       \<or> r = DstNotCompatible \<and> s' = s \<and> d' = d)"
    by (rule ce_drain_into_ok) (simp add: ContainerEvents_impl_def)
next
  fix s :: "'v ContainerEvents" and a b
  assume s: "ce_inv s" "a \<le> b" "b \<le> length (ce_iter_zip s)"
  have new: "ce_inv (ce_new :: 'v ContainerEvents)" "ce_iter_zip (ce_new :: 'v ContainerEvents) = []"
    by (simp_all add: ce_inv_def ce_new_def ce_iter_zip_def)
  obtain s' d' where "ce_drain_into s ce_new (a, b) = Some (DstDone, s', d')" "ce_inv s'" "ce_inv d'"
    "ce_iter_zip d' = take (b - a) (drop a (ce_iter_zip s))"
    "ce_iter_zip s' = take a (ce_iter_zip s) @ drop b (ce_iter_zip s)"
    by (rule ce_drain_into_ok [OF s(1) new(1) s(2,3)]) (auto simp: new(2))
  then show "\<exists>s' d. m_drain_into_new (ContainerEvents_impl bv) s (a, b) = Some (NewDone d, s') \<and> ce_inv s' \<and> ce_inv d \<and>
      ce_iter_zip d = take (b - a) (drop a (ce_iter_zip s)) \<and>
      ce_iter_zip s' = take a (ce_iter_zip s) @ drop b (ce_iter_zip s)"
    by (simp add: ContainerEvents_impl_def ce_drain_into_new_def)
qed

section \<open>Keeping one event per timestamp, and the size estimate\<close>

lemma keep_masked_Cons [simp]:
  "keep_masked (x # xs) (b # msk) = (if b then x # keep_masked xs msk else keep_masked xs msk)"
  "keep_masked [] msk = []"
  by (simp_all add: keep_masked_def List.map_filter_simps)

lemma keep_masked_zip:
  "length xs = length ys \<Longrightarrow> length msk = length xs \<Longrightarrow>
    zip (keep_masked xs msk) (keep_masked ys msk) = keep_masked (zip xs ys) msk"
proof (induction xs ys arbitrary: msk rule: list_induct2)
  case (Cons x xs y ys)
  then show ?case by (cases msk) simp_all
qed simp

lemma length_unique_mask [simp]: "length (unique_mask t xs) = length xs"
  by (induction xs arbitrary: t) simp_all

lemma keep_masked_unique:
  defines "kept t es \<equiv> keep_masked es (unique_mask t (map fst es))"
  shows "subseq (kept t es) es \<and> sorted_wrt (<) (map fst (kept t es)) \<and> (\<forall>e \<in> set (kept t es). t < fst e) \<and>
    (in_order es \<longrightarrow> fst ` set (kept t es) = {x \<in> fst ` set es. t < x})"
proof (induction es arbitrary: t)
  case Nil
  then show ?case by (simp add: kept_def)
next
  case (Cons e es)
  show ?case
  proof (cases "t < fst e")
    case True
    then have k: "kept t (e # es) = e # kept (fst e) es" by (simp add: kept_def)
    have "t < fst x" if "x \<in> set (kept (fst e) es)" for x using Cons.IH [of "fst e"] that True by fastforce
    moreover have "fst ` set (kept t (e # es)) = {x \<in> fst ` set (e # es). t < x}" if ord: "in_order (e # es)"
    proof -
      have "fst ` set (kept (fst e) es) = {x \<in> fst ` set es. fst e < x}" using Cons.IH [of "fst e"] ord by simp
      moreover have "{x \<in> fst ` set (e # es). t < x} = insert (fst e) {x \<in> fst ` set es. fst e < x}"
        using True ord by force
      ultimately show ?thesis by (simp add: k)
    qed
    ultimately show ?thesis using Cons.IH [of "fst e"] True unfolding k by auto
  next
    case False
    then have k: "kept t (e # es) = kept t es" by (simp add: kept_def)
    have "{x \<in> fst ` set (e # es). t < x} = {x \<in> fst ` set es. t < x}" using False by auto
    then show ?thesis using Cons.IH [of t] unfolding k by auto
  qed
qed

lemma iter_zip_retain:
  assumes "ce_inv c"
  shows "ce_inv (ce_retain_unique_ts c t)"
    "ce_iter_zip (ce_retain_unique_ts c t) = keep_masked (ce_iter_zip c) (unique_mask t (map fst (ce_iter_zip c)))"
proof -
  let ?m = "unique_mask t (ce_tss c)"
  have len: "length (keep_masked xs msk) = length (keep_masked ys msk)" if "length xs = length ys" "length msk = length xs"
    for xs :: "'x list" and ys :: "'y list" and msk
    using that
  proof (induction xs ys arbitrary: msk rule: list_induct2)
    case (Cons x xs y ys)
    then show ?case by (cases msk) simp_all
  qed simp
  show "ce_inv (ce_retain_unique_ts c t)"
    using assms len [of "ce_vals c" "ce_tss c" ?m] by (simp add: ce_inv_def ce_retain_unique_ts_def Let_def)
  show "ce_iter_zip (ce_retain_unique_ts c t) = keep_masked (ce_iter_zip c) (unique_mask t (map fst (ce_iter_zip c)))"
    unfolding map_fst_iter_zip [OF assms]
    using keep_masked_zip [of "ce_tss c" "ce_vals c" ?m] assms
    by (simp add: ce_inv_def ce_retain_unique_ts_def Let_def ce_iter_zip_def)
qed

text \<open>
  \<^verbatim>\<open>retain_unique_ts\<close> keeps a container well-formed and keeps some of its events in their order, with
  strictly increasing timestamps, all later than the given one. Of a container in time order it keeps
  every timestamp later than the given one.
\<close>

theorem retain_unique_ts_keeps:
  assumes "ce_inv c"
  shows "ce_inv (ce_retain_unique_ts c tsmin) \<and>
    subseq (ce_iter_zip (ce_retain_unique_ts c tsmin)) (ce_iter_zip c) \<and>
    sorted_wrt (<) (ce_tss (ce_retain_unique_ts c tsmin)) \<and>
    (\<forall>t \<in> set (ce_tss (ce_retain_unique_ts c tsmin)). tsmin < t) \<and>
    (ce_is_monotonic c \<longrightarrow> set (ce_tss (ce_retain_unique_ts c tsmin)) = {t \<in> set (ce_tss c). tsmin < t})"
proof -
  let ?r = "ce_retain_unique_ts c tsmin"
  note K = keep_masked_unique [of "ce_iter_zip c" tsmin]
  have inv: "ce_inv ?r" by (rule iter_zip_retain(1) [OF assms])
  have z: "keep_masked (ce_iter_zip c) (unique_mask tsmin (map fst (ce_iter_zip c))) = ce_iter_zip ?r"
    by (rule iter_zip_retain(2) [OF assms, symmetric])
  have ts: "set (ce_tss ?r) = fst ` set (ce_iter_zip ?r)" "set (ce_tss c) = fst ` set (ce_iter_zip c)"
    using map_fst_iter_zip [OF inv] map_fst_iter_zip [OF assms] by (metis list.set_map)+
  have "ce_is_monotonic c \<longleftrightarrow> in_order (ce_iter_zip c)"
    using assms by (simp add: ce_is_monotonic_def mono_from_sorted)
  then show ?thesis
    using K inv unfolding z ts map_fst_iter_zip [OF inv] by simp
qed

theorem retain_unique_ts_keeps_witness:
  "set (ce_tss (ce_retain_unique_ts (ce_from_constituents [2, 3, 3, 4 :: TsNano] ''abcd'') 2)) = {3, 4}"
proof -
  define c where "c = ce_from_constituents [2, 3, 3, 4 :: TsNano] ''abcd''"
  have c: "ce_inv c" "ce_is_monotonic c" and tss: "ce_tss c = [2, 3, 3, 4]"
    by (simp_all add: c_def ce_inv_def ce_from_constituents_def ce_is_monotonic_def)
  have "set (ce_tss (ce_retain_unique_ts c 2)) = {t \<in> set (ce_tss c). 2 < t}"
    using retain_unique_ts_keeps [OF c(1), of 2] c(2) by blast
  also have "\<dots> = set (filter (\<lambda>t. 2 < t) [2, 3, 3, 4 :: TsNano])" by (simp only: set_filter tss)
  also have "\<dots> = {3, 4}" by simp
  finally show ?thesis by (simp only: c_def)
qed

text \<open>
  Once the size of a container has been estimated, the estimate does not follow what is drained
  into it: it stays the size of the first events, whatever is added.
\<close>

theorem byte_estimate_stale_after_drain:
  assumes "ce_inv s" and "ce_inv d" and "a \<le> b" and "b \<le> length (ce_tss s)" and "ce_byte_estimate d = Some n"
  shows "\<exists>s' d'. ce_drain_into s d (a, b) = Some (DstDone, s', d') \<and> ce_len d' = ce_len d + (b - a) \<and>
    fst (ce_byte_estimate_mut bv d') = n"
proof -
  have b: "b \<le> length (ce_iter_zip s)" using assms(1,4) by simp
  obtain s' d' where d': "ce_drain_into s d (a, b) = Some (DstDone, s', d')" "ce_inv s'" "ce_inv d'"
    "ce_iter_zip d' = ce_iter_zip d @ take (b - a) (drop a (ce_iter_zip s))"
    "ce_byte_estimate d' = ce_byte_estimate d"
    by (rule ce_drain_into_ok [OF assms(1,2,3) b])
  have "ce_len d' = ce_len d + (b - a)"
    using arg_cong [OF d'(4), of length] assms d'(3) by (simp add: ce_len_def)
  with d'(1,5) assms(5) show ?thesis by (simp add: ce_byte_estimate_mut_def)
qed

theorem byte_estimate_stale_after_drain_witness:
  "let s = ce_from_constituents [2, 3 :: TsNano] ''ab'';
       d = snd (ce_byte_estimate_mut (\<lambda>_. 1) (ce_from_constituents [1 :: TsNano] ''x'')) in
   \<exists>s' d'. ce_drain_into s d (0, 2) = Some (DstDone, s', d') \<and> ce_len d' = 3 \<and>
     fst (ce_byte_estimate_mut (\<lambda>_. 1) d') = 9"
proof -
  let ?s = "ce_from_constituents [2, 3 :: TsNano] ''ab''"
  let ?d = "snd (ce_byte_estimate_mut (\<lambda>_. 1) (ce_from_constituents [1 :: TsNano] ''x''))"
  have d: "ce_inv ?s" "ce_inv ?d" "(0 :: nat) \<le> 2" "2 \<le> length (ce_tss ?s)" "ce_byte_estimate ?d = Some 9" "ce_len ?d = 1"
    by (simp_all add: ce_inv_def ce_from_constituents_def ce_byte_estimate_mut_def ce_len_def
        vals_byte_estimate_def Let_def)
  from byte_estimate_stale_after_drain [OF d(1-5), of "\<lambda>_. 1"] d(6) show ?thesis
    by (simp add: Let_def numeral_3_eq_3)
qed

end
