(* ===== verification/Merger.thy ===== *)
theory Merger
  imports Mergeable "HOL-Library.Multiset"
begin

text \<open>
  \<^verbatim>\<open>daqbuf-items-2/src/merger.rs\<close>: merging of several streams of event containers into one, in
  time order, dropping events whose timestamp was already taken from another input. The inputs are
  sequences of poll results; the container operations are those of a \<^verbatim>\<open>MergeableTy\<close>; the
  conversion of the merger's errors into stream errors is the parameter \<open>cv\<close>. Statistics counters
  and log messages that are built but never queued are left out. The loops that the code does not
  bound are partial functions, which have the value \<open>None\<close> when they do not return.

  The abstract specification \<open>merge_step\<close> either moves the first events of one input to the output
  or drops events with the timestamp of the last output; the lemmas show that the code refines it.
\<close>

datatype 'e merger_error =
  NoPendingButMissing | Input 'e | ShouldFindTsMin | ItemShouldHaveTsMax
| PartialPathDrainedAllItems | InputNotMonotonic | Logic

definition OUT_MAX_BYTES :: u32 where
  "OUT_MAX_BYTES = 1024 * 1024 * 20"

record ('e, 't) Merger =
  mg_inps :: "('e, 't) stream option list"
  mg_items :: "'t option list"
  mg_out :: "'t option"
  mg_do_clear_out :: bool
  mg_out_max_len :: nat
  mg_range_complete :: "bool list"
  mg_outbuf :: "('e, 't) Sitemty list"
  mg_log_queue :: "LogItem list"
  mg_dim0ix_max :: TsNano
  mg_done_inp :: bool
  mg_done_range_complete :: bool
  mg_complete :: bool

definition Merger_new :: "('e, 't) stream list \<Rightarrow> u32 option \<Rightarrow> ('e, 't) Merger" where
  "Merger_new inps out_max_len =
     (let n = length inps in
      \<lparr>mg_inps = map Some inps, mg_items = replicate n None, mg_out = None, mg_do_clear_out = False,
       mg_out_max_len = (case out_max_len of Some k \<Rightarrow> unat k | None \<Rightarrow> 1000),
       mg_range_complete = replicate n False, mg_outbuf = [], mg_log_queue = [],
       mg_dim0ix_max = 0, mg_done_inp = False, mg_done_range_complete = False, mg_complete = False\<rparr>)"

definition drain_into_dst_upto ::
    "'t MergeableTy \<Rightarrow> 't \<Rightarrow> 't \<Rightarrow> TsNano \<Rightarrow> (DrainIntoDstResult \<times> 't \<times> 't) panics" where
  "drain_into_dst_upto ops src dst upto_ts =
     (case m_find_lowest_index_gt ops src upto_ts of
        Some ilgt \<Rightarrow> m_drain_into ops src dst (0, ilgt)
      | None \<Rightarrow> m_drain_into ops src dst (0, m_len ops src))"

definition drain_into_new_upto ::
    "'t MergeableTy \<Rightarrow> 't \<Rightarrow> TsNano \<Rightarrow> ('t DrainIntoNewResult \<times> 't) panics" where
  "drain_into_new_upto ops src upto_ts =
     (case m_find_lowest_index_gt ops src upto_ts of
        Some ilgt \<Rightarrow> m_drain_into_new ops src (0, ilgt)
      | None \<Rightarrow> m_drain_into_new ops src (0, m_len ops src))"

definition take_into_output_upto ::
    "'t MergeableTy \<Rightarrow> 't \<Rightarrow> TsNano \<Rightarrow> ('e, 't) Merger \<Rightarrow> (DrainIntoDstResult \<times> 't \<times> ('e, 't) Merger) panics" where
  "take_into_output_upto ops src upto_ts m =
     (case mg_out m of
        Some out \<Rightarrow>
          do { (r, src, out) \<leftarrow> drain_into_dst_upto ops src out upto_ts;
               Some (r, src, m\<lparr>mg_out := Some out\<rparr>) }
      | None \<Rightarrow>
          do { (r, src) \<leftarrow> drain_into_new_upto ops src upto_ts;
               case r of
                 NewDone x \<Rightarrow> Some (DstDone, src, m\<lparr>mg_out := Some x\<rparr>)
               | NewPartial x \<Rightarrow> Some (DstPartial, src, m\<lparr>mg_out := Some x\<rparr>)
               | NewNotCompatible \<Rightarrow> Some (DstNotCompatible, src, m) })"

definition take_into_output_all ::
    "'t MergeableTy \<Rightarrow> 't \<Rightarrow> ('e, 't) Merger \<Rightarrow> (DrainIntoDstResult \<times> 't \<times> ('e, 't) Merger) panics" where
  "take_into_output_all ops src m = take_into_output_upto ops src (- 1) m"

definition take_outbuf_filtered :: "('e, 't) Merger \<Rightarrow> 't option \<times> ('e, 't) Merger" where
  "take_outbuf_filtered m = (mg_out m, m\<lparr>mg_out := None\<rparr>)"

section \<open>process\<close>

text \<open>
  The two inputs with the lowest timestamps. An empty item ends the search: its position is
  returned on the left and the item is dropped by the caller.
\<close>

type_synonym tslow = "(nat \<times> TsNano) option"

definition tslows_insert :: "nat \<Rightarrow> TsNano \<Rightarrow> tslow \<times> tslow \<Rightarrow> tslow \<times> tslow" where
  "tslows_insert i1 t1 lows =
     (case lows of
        (Some (i0, a), l1) \<Rightarrow>
          if t1 < a then (Some (i1, t1), Some (i0, a))
          else (case l1 of
                  Some (_, b) \<Rightarrow> if t1 < b then (Some (i0, a), Some (i1, t1)) else (Some (i0, a), l1)
                | None \<Rightarrow> (Some (i0, a), Some (i1, t1)))
      | (None, l1) \<Rightarrow> (Some (i1, t1), l1))"

fun find_tslows :: "'t MergeableTy \<Rightarrow> nat \<Rightarrow> 't option list \<Rightarrow> tslow \<times> tslow \<Rightarrow> nat + tslow \<times> tslow" where
  "find_tslows ops i [] lows = Inr lows"
| "find_tslows ops i (None # xs) lows = find_tslows ops (Suc i) xs lows"
| "find_tslows ops i (Some item # xs) lows =
     (case m_ts_min ops item of
        Some t1 \<Rightarrow> find_tslows ops (Suc i) xs (tslows_insert i t1 lows)
      | None \<Rightarrow> Inl i)"

definition update_dim0ix_max :: "'t MergeableTy \<Rightarrow> ('e, 't) Merger \<Rightarrow> ('e, 't) Merger panics" where
  "update_dim0ix_max ops m =
     do { out \<leftarrow> mg_out m; t \<leftarrow> m_ts_max ops out; Some (m\<lparr>mg_dim0ix_max := t\<rparr>) }"

definition take_item :: "nat \<Rightarrow> ('e, 't) Merger \<Rightarrow> ('t \<times> ('e, 't) Merger) panics" where
  "take_item i m = do { x \<leftarrow> index (mg_items m) i; item \<leftarrow> x; Some (item, m\<lparr>mg_items := (mg_items m)[i := None]\<rparr>) }"

definition put_back :: "nat \<Rightarrow> 't \<Rightarrow> ('e, 't) Merger \<Rightarrow> ('e, 't) Merger" where
  "put_back i item m = m\<lparr>mg_items := (mg_items m)[i := Some item]\<rparr>"

definition process_take_all ::
    "'t MergeableTy \<Rightarrow> nat \<Rightarrow> ('e, 't) Merger \<Rightarrow> (('e merger_error, unit) result \<times> ('e, 't) Merger) panics" where
  "process_take_all ops il0 m =
     do { (item, m) \<leftarrow> take_item il0 m;
          (r, item, m) \<leftarrow> take_into_output_all ops item m;
          case r of
            DstDone \<Rightarrow> do { m \<leftarrow> update_dim0ix_max ops m; Some (Inr (), m) }
          | DstPartial \<Rightarrow>
              do { m \<leftarrow> update_dim0ix_max ops ((put_back il0 item m)\<lparr>mg_do_clear_out := True\<rparr>);
                   Some (Inr (), m) }
          | DstNotCompatible \<Rightarrow> Some (Inr (), (put_back il0 item m)\<lparr>mg_do_clear_out := True\<rparr>) }"

definition process_take_upto ::
    "'t MergeableTy \<Rightarrow> nat \<Rightarrow> TsNano \<Rightarrow> ('e, 't) Merger \<Rightarrow>
      (('e merger_error, unit) result \<times> ('e, 't) Merger) panics" where
  "process_take_upto ops il0 tl1 m =
     do { (item, m) \<leftarrow> take_item il0 m;
          (r, item, m) \<leftarrow> take_into_output_upto ops item tl1 m;
          case r of
            DstDone \<Rightarrow>
              if m_len ops item = 0 then Some (Inl PartialPathDrainedAllItems, m)
              else do { m \<leftarrow> update_dim0ix_max ops (put_back il0 item m); Some (Inr (), m) }
          | DstPartial \<Rightarrow>
              do { m \<leftarrow> update_dim0ix_max ops ((put_back il0 item m)\<lparr>mg_do_clear_out := True\<rparr>);
                   Some (Inr (), m) }
          | DstNotCompatible \<Rightarrow> Some (Inr (), (put_back il0 item m)\<lparr>mg_do_clear_out := True\<rparr>) }"

definition process_take ::
    "'t MergeableTy \<Rightarrow> tslow \<times> tslow \<Rightarrow> ('e, 't) Merger \<Rightarrow>
      (('e merger_error, unit) result \<times> ('e, 't) Merger) panics" where
  "process_take ops lows m =
     (case lows of
        (Some (il0, _), Some (_, tl1)) \<Rightarrow>
          do { x \<leftarrow> index (mg_items m) il0; item \<leftarrow> x;
               case m_ts_max ops item of
                 Some th0 \<Rightarrow> if th0 \<le> tl1 then process_take_all ops il0 m
                             else process_take_upto ops il0 tl1 m
               | None \<Rightarrow> Some (Inl ItemShouldHaveTsMax, m) }
      | (Some (il0, _), None) \<Rightarrow> process_take_all ops il0 m
      | (None, _) \<Rightarrow> Some (Inl ShouldFindTsMin, m))"

text \<open>Discarding what is not later than the output: the inner loop repeats after a partial drain.\<close>

partial_function (option) discard_item ::
    "'t MergeableTy \<Rightarrow> TsNano \<Rightarrow> 't \<Rightarrow> (('e merger_error, unit) result \<times> 't) option" where
  "discard_item ops dim0ix_max item =
     (case m_ts_min ops item of
        Some ts_min \<Rightarrow>
          if ts_min \<le> dim0ix_max
          then do { (r, item) \<leftarrow> drain_into_new_upto ops item dim0ix_max;
                    case r of
                      NewDone _ \<Rightarrow> Some (Inr (), item)
                    | NewPartial _ \<Rightarrow> discard_item ops dim0ix_max item
                    | NewNotCompatible \<Rightarrow> Some (Inl Logic, item) }
          else Some (Inr (), item)
      | None \<Rightarrow> Some (Inr (), item))"

fun discard_items ::
    "'t MergeableTy \<Rightarrow> TsNano \<Rightarrow> 't option list \<Rightarrow> (('e merger_error, unit) result \<times> 't option list) panics" where
  "discard_items ops mx [] = Some (Inr (), [])"
| "discard_items ops mx (None # xs) =
     do { (r, xs) \<leftarrow> discard_items ops mx xs; Some (r, None # xs) }"
| "discard_items ops mx (Some item # xs) =
     do { (r, item) \<leftarrow> discard_item ops mx item;
          case r of
            Inl e \<Rightarrow> Some (Inl e, Some item # xs)
          | Inr _ \<Rightarrow> do { (r, xs) \<leftarrow> discard_items ops mx xs; Some (r, Some item # xs) } }"

definition process ::
    "'t MergeableTy \<Rightarrow> ('e, 't) Merger \<Rightarrow> (('e merger_error, unit) result \<times> ('e, 't) Merger) panics" where
  "process ops m =
     (case find_tslows ops 0 (mg_items m) (None, None) of
        Inl i \<Rightarrow> Some (Inr (), m\<lparr>mg_items := (mg_items m)[i := None]\<rparr>)
      | Inr lows \<Rightarrow>
          do { let m = (case fst lows of
                 Some (_, t1) \<Rightarrow> if t1 \<le> mg_dim0ix_max m then m\<lparr>mg_dim0ix_max := t1\<rparr> else m
               | None \<Rightarrow> m);
               (ret, m) \<leftarrow> process_take ops lows m;
               case snd lows of
                 Some (_, tl1) \<Rightarrow>
                   if tl1 \<le> mg_dim0ix_max m
                   then do { (r, items) \<leftarrow> discard_items ops (mg_dim0ix_max m) (mg_items m);
                             let m = m\<lparr>mg_items := items\<rparr>;
                             case r of Inl e \<Rightarrow> Some (Inl e, m) | Inr _ \<Rightarrow> Some (ret, m) }
                   else Some (ret, m)
               | None \<Rightarrow> Some (ret, m) })"

section \<open>refill and poll\<close>

text \<open>Polling one input until it gives data, is pending, or ends.\<close>

fun refill_inp ::
    "'t MergeableTy \<Rightarrow> nat \<Rightarrow> ('e, 't) stream \<Rightarrow> ('e, 't) Merger \<Rightarrow>
      ('e merger_error, bool) result \<times> ('e, 't) Merger" where
  "refill_inp ops i [] m = (Inr False, m\<lparr>mg_inps := (mg_inps m)[i := None]\<rparr>)"
| "refill_inp ops i (Pending # xs) m = (Inr True, m\<lparr>mg_inps := (mg_inps m)[i := Some xs]\<rparr>)"
| "refill_inp ops i (Ready (Inr (DataItem (Data k))) # xs) m =
     (if m_is_monotonic ops k = False
      then (Inl InputNotMonotonic, m\<lparr>mg_inps := (mg_inps m)[i := Some xs]\<rparr>)
      else (Inr False, m\<lparr>mg_inps := (mg_inps m)[i := Some xs], mg_items := (mg_items m)[i := Some k]\<rparr>))"
| "refill_inp ops i (Ready (Inr (DataItem RangeComplete)) # xs) m =
     refill_inp ops i xs (m\<lparr>mg_range_complete := (mg_range_complete m)[i := True]\<rparr>)"
| "refill_inp ops i (Ready (Inr (Log item)) # xs) m =
     refill_inp ops i xs (m\<lparr>mg_outbuf := mg_outbuf m @ [Inr (Log item)]\<rparr>)"
| "refill_inp ops i (Ready (Inr (Stats item)) # xs) m =
     refill_inp ops i xs (m\<lparr>mg_outbuf := mg_outbuf m @ [Inr (Stats item)]\<rparr>)"
| "refill_inp ops i (Ready (Inl e) # xs) m =
     (Inl (Input e), m\<lparr>mg_inps := (mg_inps m)[i := None]\<rparr>)"

definition refill_at ::
    "'t MergeableTy \<Rightarrow> nat \<Rightarrow> ('e, 't) Merger \<Rightarrow> ('e merger_error, bool) result \<times> ('e, 't) Merger" where
  "refill_at ops i m =
     (if mg_items m ! i = None
      then (case mg_inps m ! i of Some inp \<Rightarrow> refill_inp ops i inp m | None \<Rightarrow> (Inr False, m))
      else (Inr False, m))"

text \<open>The loop over the inputs; the boolean says whether one of them is pending.\<close>

fun refill_from ::
    "'t MergeableTy \<Rightarrow> nat list \<Rightarrow> bool \<Rightarrow> ('e, 't) Merger \<Rightarrow> ('e merger_error, bool) result \<times> ('e, 't) Merger" where
  "refill_from ops [] has_pending m = (Inr has_pending, m)"
| "refill_from ops (i # is) has_pending m =
     (case refill_at ops i m of
        (Inl e, m) \<Rightarrow> (Inl e, m)
      | (Inr p, m) \<Rightarrow> refill_from ops is (has_pending \<or> p) m)"

definition refill ::
    "'t MergeableTy \<Rightarrow> ('e, 't) Merger \<Rightarrow> ('e merger_error, unit poll) result \<times> ('e, 't) Merger" where
  "refill ops m =
     (case refill_from ops [0..<length (mg_inps m)] False m of
        (Inl e, m) \<Rightarrow> (Inl e, m)
      | (Inr has_pending, m) \<Rightarrow> (Inr (if has_pending then Pending else Ready ()), m))"

datatype ('b, 'c) ControlFlow = Continue 'c | Break 'b

type_synonym 'e flow = "('e merger_error option poll, unit) ControlFlow"

text \<open>The second half of \<^verbatim>\<open>poll3\<close>: emit the output if it is large enough, or cleared, or the last.\<close>

definition poll3_emit :: "'t MergeableTy \<Rightarrow> bool \<Rightarrow> ('e, 't) Merger \<Rightarrow> 'e flow \<times> ('e, 't) Merger" where
  "poll3_emit ops last_emit m =
     (case mg_out m of
        Some out \<Rightarrow>
          let long = m_len ops out \<ge> mg_out_max_len m;
              (heavy, out) = (if long then (False, out)
                else let (b, out) = m_byte_estimate ops out in (b \<ge> OUT_MAX_BYTES, out));
              m = m\<lparr>mg_out := Some out\<rparr> in
          if long \<or> heavy \<or> mg_do_clear_out m \<or> last_emit
          then let (_, out) = m_byte_estimate ops out;
                   m = m\<lparr>mg_out := Some out, mg_do_clear_out := False\<rparr>;
                   (o1, m) = take_outbuf_filtered m in
            (case o1 of
               Some out \<Rightarrow> (Continue (), m\<lparr>mg_outbuf := mg_outbuf m @ [sitem_data out]\<rparr>)
             | None \<Rightarrow> (Continue (), m))
          else (Continue (), m)
      | None \<Rightarrow> if last_emit then (Break (Ready None), m) else (Continue (), m))"

definition poll3 :: "'t MergeableTy \<Rightarrow> ('e, 't) Merger \<Rightarrow> ('e flow \<times> ('e, 't) Merger) panics" where
  "poll3 ops m =
     (let nitems = length (filter (\<lambda>a. a \<noteq> None) (mg_items m));
          nitemsmissing = length (filter (\<lambda>(a, b). a \<noteq> None \<and> b = None) (zip (mg_inps m) (mg_items m))) in
      if nitemsmissing \<noteq> 0 then Some (Break (Ready (Some NoPendingButMissing)), m)
      else
        let last_emit = (nitems = 0) in
        do { (r, m) \<leftarrow> (if nitems \<noteq> 0 then process ops m else Some (Inr (), m));
             case r of
               Inl e \<Rightarrow> Some (Break (Ready (Some e)), m)
             | Inr _ \<Rightarrow> Some (poll3_emit ops last_emit m) })"

definition poll2 :: "'t MergeableTy \<Rightarrow> ('e, 't) Merger \<Rightarrow> ('e flow \<times> ('e, 't) Merger) panics" where
  "poll2 ops m =
     (case refill ops m of
        (Inr (Ready _), m) \<Rightarrow> poll3 ops m
      | (Inr Pending, m) \<Rightarrow> Some (Break Pending, m)
      | (Inl e, m) \<Rightarrow> Some (Break (Ready (Some e)), m))"

text \<open>
  One round of the loop of \<^verbatim>\<open>poll_next\<close>: it continues or breaks with a poll result. Polling after
  completion panics.
\<close>

definition poll_round ::
    "'t MergeableTy \<Rightarrow> ('e merger_error \<Rightarrow> 'e) \<Rightarrow> ('e, 't) Merger \<Rightarrow>
      ((('e, 't) Sitemty option poll, unit) ControlFlow \<times> ('e, 't) Merger) panics" where
  "poll_round ops cv m =
     (if mg_complete m then None
      else if mg_done_range_complete m then Some (Break (Ready None), m\<lparr>mg_complete := True\<rparr>)
      else case mg_log_queue m of
        item # q \<Rightarrow> Some (Break (Ready (Some (Inr (Log item)))), m\<lparr>mg_log_queue := q\<rparr>)
      | [] \<Rightarrow>
        (case mg_outbuf m of
           item # q \<Rightarrow>
             Some (Break (Ready (Some (on_sitemty_data item (\<lambda>k. sitem_data k)))), m\<lparr>mg_outbuf := q\<rparr>)
         | [] \<Rightarrow>
           if mg_done_inp m = False
           then do { (f, m) \<leftarrow> poll2 ops m;
                     case f of
                       Continue _ \<Rightarrow> Some (Continue (), m)
                     | Break (Ready (Some e)) \<Rightarrow>
                         Some (Break (Ready (Some (Inl (cv e)))), m\<lparr>mg_done_inp := True\<rparr>)
                     | Break (Ready None) \<Rightarrow>
                         let m = m\<lparr>mg_done_inp := True\<rparr>;
                             (o1, m) = take_outbuf_filtered m in
                         (case o1 of
                            Some out \<Rightarrow> Some (Continue (), m\<lparr>mg_outbuf := mg_outbuf m @ [sitem_data out]\<rparr>)
                          | None \<Rightarrow> Some (Continue (), m))
                     | Break Pending \<Rightarrow> Some (Break Pending, m) }
           else let m = m\<lparr>mg_done_range_complete := True\<rparr> in
             if \<forall>x \<in> set (mg_range_complete m). x
             then Some (Continue (), m\<lparr>mg_outbuf := mg_outbuf m @ [Inr (DataItem RangeComplete)]\<rparr>)
             else Some (Continue (), m)))"

partial_function (option) merger_poll_next ::
    "'t MergeableTy \<Rightarrow> ('e merger_error \<Rightarrow> 'e) \<Rightarrow> ('e, 't) Merger \<Rightarrow>
      (('e, 't) Sitemty option poll \<times> ('e, 't) Merger) option" where
  "merger_poll_next ops cv m =
     do { (f, m) \<leftarrow> poll_round ops cv m;
          case f of Break r \<Rightarrow> Some (r, m) | Continue _ \<Rightarrow> merger_poll_next ops cv m }"

text \<open>Polling a merger to its end: the items it yields.\<close>

partial_function (option) merger_run ::
    "'t MergeableTy \<Rightarrow> ('e merger_error \<Rightarrow> 'e) \<Rightarrow> ('e, 't) Merger \<Rightarrow> ('e, 't) Sitemty list option" where
  "merger_run ops cv m =
     do { (r, m) \<leftarrow> merger_poll_next ops cv m;
          case r of
            Pending \<Rightarrow> merger_run ops cv m
          | Ready (Some x) \<Rightarrow> do { xs \<leftarrow> merger_run ops cv m; Some (x # xs) }
          | Ready None \<Rightarrow> Some [] }"

section \<open>The abstract specification\<close>

text \<open>
  The state is the output so far and what is left of each input. A step takes the first events
  \<open>p\<close> of an input \<open>i\<close>, none later than what is left anywhere, and drops the events of the other
  inputs that have the last timestamp taken, which removes it from an input that holds it only once;
  or it only drops events that have the last timestamp of the output.
\<close>

type_synonym 'v merge_state = "'v event list \<times> 'v event list list"

definition dropped :: "TsNano \<Rightarrow> 'v event list list \<Rightarrow> 'v event list list \<Rightarrow> bool" where
  "dropped t rs rs' \<longleftrightarrow> list_all2 (\<lambda>r r'. \<exists>d. r = d @ r' \<and> (\<forall>x \<in> set d. fst x = t)) rs rs'"

definition strictly_ordered :: "'v event list \<Rightarrow> bool" where
  "strictly_ordered es \<longleftrightarrow> sorted_wrt (<) (map fst es)"

inductive merge_step :: "'v merge_state \<Rightarrow> 'v merge_state \<Rightarrow> bool" where
  take: "i < length rs \<Longrightarrow> rs ! i = p @ q \<Longrightarrow> p \<noteq> [] \<Longrightarrow> dropped (fst (last p)) (rs[i := q]) rs' \<Longrightarrow>
    \<forall>e \<in> set q. fst (last p) \<le> fst e \<Longrightarrow>
    \<forall>k < length rs. k \<noteq> i \<longrightarrow> (\<forall>e \<in> set (rs' ! k). fst (last p) \<le> fst e \<and>
      (strictly_ordered (rs ! k) \<longrightarrow> fst (last p) < fst e)) \<Longrightarrow>
    merge_step (out, rs) (out @ p, rs')"
| drop: "out \<noteq> [] \<Longrightarrow> dropped (fst (last out)) rs rs' \<Longrightarrow> merge_step (out, rs) (out, rs')"

inductive_cases merge_stepE: "merge_step (out, rs) s'"

lemma dropped_refl [simp]: "dropped t rs rs"
  by (auto simp: dropped_def intro: list_all2_refl)

lemma dropped_length: "dropped t rs rs' \<Longrightarrow> length rs' = length rs"
  by (simp add: dropped_def list_all2_lengthD)

lemma dropped_nth: "dropped t rs rs' \<Longrightarrow> k < length rs \<Longrightarrow>
    \<exists>d. rs ! k = d @ rs' ! k \<and> (\<forall>x \<in> set d. fst x = t)"
  unfolding dropped_def by (drule (1) list_all2_nthD)

lemma dropped_Cons:
  "dropped t (r # rs) (r' # rs') \<longleftrightarrow> (\<exists>d. r = d @ r' \<and> (\<forall>x \<in> set d. fst x = t)) \<and> dropped t rs rs'"
  by (simp add: dropped_def)

lemma dropped_mset: "dropped t rs rs' \<Longrightarrow> mset (concat rs') \<subseteq># mset (concat rs)"
proof (induction rs arbitrary: rs')
  case Nil
  then show ?case by (simp add: dropped_def)
next
  case (Cons r rs)
  then obtain r' rs'' where rs': "rs' = r' # rs''" by (cases rs') (auto simp: dropped_def)
  with Cons show ?case by (auto simp: dropped_Cons intro!: subset_mset.add_mono)
qed

lemma dropped_ts: "dropped t rs rs' \<Longrightarrow>
    fst ` set (concat rs) \<subseteq> insert t (fst ` set (concat rs')) \<and> set (concat rs') \<subseteq> set (concat rs)"
proof (induction rs arbitrary: rs')
  case Nil
  then show ?case by (simp add: dropped_def)
next
  case (Cons r rs)
  then obtain r' rs'' where rs': "rs' = r' # rs''" by (cases rs') (auto simp: dropped_def)
  with Cons have IH: "fst ` set (concat rs) \<subseteq> insert t (fst ` set (concat rs''))"
    "set (concat rs'') \<subseteq> set (concat rs)" by (auto simp: dropped_Cons)
  from Cons.prems rs' obtain d where d: "r = d @ r'" "\<forall>x \<in> set d. fst x = t" by (auto simp: dropped_Cons)
  then have "fst ` set d \<subseteq> {t}" by auto
  with IH have "fst ` set d \<union> fst ` set r' \<union> fst ` set (concat rs)
      \<subseteq> insert t (fst ` set r' \<union> fst ` set (concat rs''))" by blast
  then have "fst ` set (concat (r # rs)) \<subseteq> insert t (fst ` set (concat rs'))"
    by (simp add: rs' d(1) image_Un)
  moreover have "set (concat rs') \<subseteq> set (concat (r # rs))" using IH(2) by (auto simp: rs' d(1))
  ultimately show ?case by blast
qed

lemma mset_concat_update:
  "i < length rs \<Longrightarrow> rs ! i = p @ q \<Longrightarrow> mset (concat (rs[i := q])) + mset p = mset (concat rs)"
proof (induction rs arbitrary: i)
  case Nil
  then show ?case by simp
next
  case (Cons r rs)
  then show ?case by (cases i) (simp_all add: ac_simps)
qed

lemma set_concat_update:
  assumes "i < length rs" "rs ! i = p @ q"
  shows "set (concat (rs[i := q])) \<union> set p = set (concat rs)"
  using arg_cong [OF mset_concat_update [OF assms], of set_mset] by simp

lemma Un_eq_insert: "l \<in> A \<Longrightarrow> Y \<subseteq> insert l X \<Longrightarrow> X \<subseteq> Y \<Longrightarrow> A \<union> X = A \<union> Y"
  by blast

text \<open>Nothing is invented, no timestamp is lost.\<close>

lemma merge_step_events:
  assumes "merge_step (out, rs) (out', rs')"
  shows "mset out' + mset (concat rs') \<subseteq># mset out + mset (concat rs) \<and>
    fst ` set out' \<union> fst ` set (concat rs') = fst ` set out \<union> fst ` set (concat rs)"
  using assms
proof (cases rule: merge_step.cases)
  case (take i p q)
  have m: "mset (concat (rs[i := q])) + mset p = mset (concat rs)"
    by (rule mset_concat_update [OF take(2,3)])
  have s: "set (concat (rs[i := q])) \<union> set p = set (concat rs)"
    by (rule set_concat_update [OF take(2,3)])
  have d: "mset (concat rs') \<subseteq># mset (concat (rs[i := q]))"
    "fst ` set (concat (rs[i := q])) \<subseteq> insert (fst (last p)) (fst ` set (concat rs'))"
    "set (concat rs') \<subseteq> set (concat (rs[i := q]))"
    by (rule dropped_mset [OF take(5)], rule conjunct1 [OF dropped_ts [OF take(5)]],
        rule conjunct2 [OF dropped_ts [OF take(5)]])
  have "mset (concat rs') + mset p \<subseteq># mset (concat rs)"
    unfolding m [symmetric] by (rule subset_mset.add_right_mono [OF d(1)])
  then have "mset out + (mset (concat rs') + mset p) \<subseteq># mset out + mset (concat rs)"
    by (rule subset_mset.add_left_mono)
  then have 1: "mset out' + mset (concat rs') \<subseteq># mset out + mset (concat rs)"
    by (simp only: take(1) mset_append add.assoc add.commute [of "mset p"])
  have "fst (last p) \<in> fst ` set p" using take(4) by simp
  from Un_eq_insert [OF this d(2) image_mono [OF d(3)]]
  have "fst ` set p \<union> fst ` set (concat rs') = fst ` set p \<union> fst ` set (concat (rs[i := q]))" .
  also have "\<dots> = fst ` (set (concat (rs[i := q])) \<union> set p)" unfolding image_Un by (rule Un_commute)
  also have "\<dots> = fst ` set (concat rs)" by (simp only: s)
  finally have "fst ` set p \<union> fst ` set (concat rs') = fst ` set (concat rs)" .
  moreover have "fst ` set out' = fst ` set out \<union> fst ` set p"
    using take(1) by (simp add: image_Un)
  ultimately have "fst ` set out' \<union> fst ` set (concat rs') = fst ` set out \<union> fst ` set (concat rs)"
    by (simp only: Un_assoc)
  with 1 show ?thesis by (rule conjI)
next
  case drop
  have "fst (last out) \<in> fst ` set out" using drop(2) by simp
  from Un_eq_insert [OF this conjunct1 [OF dropped_ts [OF drop(3)]]
      image_mono [OF conjunct2 [OF dropped_ts [OF drop(3)]]]]
  have "fst ` set out \<union> fst ` set (concat rs') = fst ` set out \<union> fst ` set (concat rs)" .
  moreover have "mset out + mset (concat rs') \<subseteq># mset out + mset (concat rs)"
    by (rule subset_mset.add_left_mono [OF dropped_mset [OF drop(3)]])
  ultimately show ?thesis unfolding drop(1) by (intro conjI)
qed

text \<open>The output and the inputs are in order, and nothing left is earlier than the output.\<close>

definition merge_inv :: "'v merge_state \<Rightarrow> bool" where
  "merge_inv s \<longleftrightarrow> (case s of (out, rs) \<Rightarrow> in_order out \<and> (\<forall>r \<in> set rs. in_order r) \<and>
     (\<forall>e \<in> set (concat rs). \<forall>x \<in> set out. fst x \<le> fst e))"

definition merge_strict :: "'v merge_state \<Rightarrow> bool" where
  "merge_strict s \<longleftrightarrow> (case s of (out, rs) \<Rightarrow> strictly_ordered out \<and> (\<forall>r \<in> set rs. strictly_ordered r) \<and>
     (\<forall>e \<in> set (concat rs). \<forall>x \<in> set out. fst x < fst e))"

lemma in_order_append: "in_order (xs @ ys) \<longleftrightarrow> in_order xs \<and> in_order ys \<and> (\<forall>x \<in> set xs. \<forall>y \<in> set ys. fst x \<le> fst y)"
  by (auto simp: sorted_append)

lemma strict_append: "strictly_ordered (xs @ ys) \<longleftrightarrow>
    strictly_ordered xs \<and> strictly_ordered ys \<and> (\<forall>x \<in> set xs. \<forall>y \<in> set ys. fst x < fst y)"
  by (auto simp: strictly_ordered_def sorted_wrt_append)

lemma in_order_last: "in_order xs \<Longrightarrow> x \<in> set xs \<Longrightarrow> fst x \<le> fst (last xs)"
  by (induction xs rule: rev_induct) (auto simp: sorted_append)

lemma in_order_prefix_last: "in_order (p @ q) \<Longrightarrow> x \<in> set p \<Longrightarrow> fst x \<le> fst (last p)"
  by (rule in_order_last) (simp_all add: sorted_append)

lemma in_order_hd: "in_order xs \<Longrightarrow> x \<in> set xs \<Longrightarrow> fst (hd xs) \<le> fst x"
  by (induction xs) auto

lemma strict_in_order: "strictly_ordered xs \<Longrightarrow> in_order xs"
  by (simp add: strictly_ordered_def strict_sorted_imp_sorted)

lemma merge_invD:
  assumes "merge_inv (out, rs)"
  shows "in_order out" "r \<in> set rs \<Longrightarrow> in_order r"
    "e \<in> set (concat rs) \<Longrightarrow> x \<in> set out \<Longrightarrow> fst x \<le> fst e"
  using assms by (auto simp: merge_inv_def)

lemma merge_invI:
  assumes "in_order out" "\<And>r. r \<in> set rs \<Longrightarrow> in_order r"
    "\<And>e x. e \<in> set (concat rs) \<Longrightarrow> x \<in> set out \<Longrightarrow> fst x \<le> fst e"
  shows "merge_inv (out, rs)"
  using assms unfolding merge_inv_def by blast

lemma merge_strictD:
  assumes "merge_strict (out, rs)"
  shows "strictly_ordered out" "r \<in> set rs \<Longrightarrow> strictly_ordered r"
    "e \<in> set (concat rs) \<Longrightarrow> x \<in> set out \<Longrightarrow> fst x < fst e"
  using assms by (auto simp: merge_strict_def)

lemma merge_strictI:
  assumes "strictly_ordered out" "\<And>r. r \<in> set rs \<Longrightarrow> strictly_ordered r"
    "\<And>e x. e \<in> set (concat rs) \<Longrightarrow> x \<in> set out \<Longrightarrow> fst x < fst e"
  shows "merge_strict (out, rs)"
  using assms unfolding merge_strict_def by blast

lemma dropped_suffix: "dropped t rs rs' \<Longrightarrow> r' \<in> set rs' \<Longrightarrow> \<exists>d. d @ r' \<in> set rs"
  by (fastforce simp: in_set_conv_nth dropped_def list_all2_conv_all_nth)

lemma set_update_cases: "r \<in> set (rs[i := q]) \<Longrightarrow> r = q \<or> r \<in> set rs"
  using set_update_subset_insert by fastforce

lemma merge_step_inv:
  assumes "merge_step (out, rs) (out', rs')" and "merge_inv (out, rs)"
  shows "merge_inv (out', rs')"
  using assms(1)
proof (cases rule: merge_step.cases)
  case (take i p q)
  have "rs ! i \<in> set rs" using take(2) by simp
  from merge_invD(2) [OF assms(2) this] have pq: "in_order (p @ q)" by (simp only: take(3))
  have mem: "set (concat rs') \<subseteq> set (concat (rs[i := q]))" "set (concat (rs[i := q])) \<subseteq> set (concat rs)"
    "set p \<subseteq> set (concat rs)"
    using dropped_ts [OF take(5)] set_concat_update [OF take(2,3)] by blast+
  have "in_order (out @ p)"
  proof -
    have "in_order p" "in_order out" using pq merge_invD(1) [OF assms(2)] by (simp_all only: in_order_append)
    moreover have "fst x \<le> fst y" if "x \<in> set out" "y \<in> set p" for x y
    proof -
      have "y \<in> set (concat rs)" using that(2) mem(3) by blast
      then show ?thesis using that(1) by (rule merge_invD(3) [OF assms(2)])
    qed
    ultimately show ?thesis unfolding in_order_append by blast
  qed
  moreover have "in_order r" if r: "r \<in> set rs'" for r
  proof -
    obtain d where "d @ r \<in> set (rs[i := q])" using dropped_suffix [OF take(5) r] by blast
    then have "in_order (d @ r)"
      using set_update_cases [of "d @ r"] merge_invD(2) [OF assms(2), of "d @ r"] pq in_order_append by blast
    then show ?thesis unfolding in_order_append by blast
  qed
  moreover have "fst x \<le> fst e" if e: "e \<in> set (concat rs')" and x: "x \<in> set (out @ p)" for e x
  proof (cases "x \<in> set out")
    case True
    moreover have "e \<in> set (concat rs)" using mem e by blast
    ultimately show ?thesis using merge_invD(3) [OF assms(2)] by blast
  next
    case False
    then have xp: "fst x \<le> fst (last p)" using x pq in_order_prefix_last by fastforce
    obtain r where "r \<in> set rs'" "e \<in> set r" using e by auto
    then obtain k where k: "k < length rs'" "e \<in> set (rs' ! k)" by (metis in_set_conv_nth)
    have len: "length rs' = length rs" using dropped_length [OF take(5)] by simp
    have "fst (last p) \<le> fst e"
    proof (cases "k = i")
      case True
      then have "e \<in> set q" using dropped_nth [OF take(5), of k] k len take(2) by auto
      then show ?thesis using take(6) by blast
    next
      case False
      then show ?thesis using take(7) k len by auto
    qed
    with xp show ?thesis by simp
  qed
  ultimately show ?thesis unfolding take(1) by (rule merge_invI)
next
  case drop
  show ?thesis unfolding drop(1)
  proof (rule merge_invI)
    show "in_order out" by (rule merge_invD(1) [OF assms(2)])
  next
    fix r assume "r \<in> set rs'"
    then obtain d where "d @ r \<in> set rs" using dropped_suffix [OF drop(3)] by blast
    from merge_invD(2) [OF assms(2) this] show "in_order r" unfolding in_order_append by blast
  next
    fix e x assume "e \<in> set (concat rs')" "x \<in> set out"
    then show "fst x \<le> fst e" using dropped_ts [OF drop(3)] merge_invD(3) [OF assms(2)] by blast
  qed
qed

lemma merge_step_strict:
  assumes "merge_step (out, rs) (out', rs')" and "merge_strict (out, rs)"
  shows "merge_strict (out', rs')"
  using assms(1)
proof (cases rule: merge_step.cases)
  case (take i p q)
  have "rs ! i \<in> set rs" using take(2) by simp
  from merge_strictD(2) [OF assms(2) this] have pq: "strictly_ordered (p @ q)" by (simp only: take(3))
  have mem: "set (concat rs') \<subseteq> set (concat (rs[i := q]))" "set (concat (rs[i := q])) \<subseteq> set (concat rs)"
    "set p \<subseteq> set (concat rs)"
    using dropped_ts [OF take(5)] set_concat_update [OF take(2,3)] by blast+
  have "strictly_ordered (out @ p)"
  proof -
    have "strictly_ordered p" "strictly_ordered out" using pq merge_strictD(1) [OF assms(2)] by (simp_all only: strict_append)
    moreover have "fst x < fst y" if "x \<in> set out" "y \<in> set p" for x y
    proof -
      have "y \<in> set (concat rs)" using that(2) mem(3) by blast
      then show ?thesis using that(1) by (rule merge_strictD(3) [OF assms(2)])
    qed
    ultimately show ?thesis unfolding strict_append by blast
  qed
  moreover have "strictly_ordered r" if r: "r \<in> set rs'" for r
  proof -
    obtain d where "d @ r \<in> set (rs[i := q])" using dropped_suffix [OF take(5) r] by blast
    then have "strictly_ordered (d @ r)"
      using set_update_cases [of "d @ r"] merge_strictD(2) [OF assms(2), of "d @ r"] pq strict_append by blast
    then show ?thesis unfolding strict_append by blast
  qed
  moreover have "fst x < fst e" if e: "e \<in> set (concat rs')" and x: "x \<in> set (out @ p)" for e x
  proof (cases "x \<in> set out")
    case True
    moreover have "e \<in> set (concat rs)" using mem e by blast
    ultimately show ?thesis using merge_strictD(3) [OF assms(2)] by blast
  next
    case False
    then have xs: "x \<in> set p" using x by simp
    then have xp: "fst x \<le> fst (last p)" by (rule in_order_prefix_last [OF strict_in_order [OF pq]])
    obtain r where "r \<in> set rs'" "e \<in> set r" using e by auto
    then obtain k where k: "k < length rs'" "e \<in> set (rs' ! k)" by (metis in_set_conv_nth)
    have len: "length rs' = length rs" using dropped_length [OF take(5)] by simp
    show ?thesis
    proof (cases "k = i")
      case True
      then have "e \<in> set q" using dropped_nth [OF take(5), of k] k len take(2) by auto
      then show ?thesis using pq xs by (simp add: strict_append)
    next
      case False
      have "rs ! k \<in> set rs" using k len by simp
      then have "strictly_ordered (rs ! k)" by (rule merge_strictD(2) [OF assms(2)])
      then have "fst (last p) < fst e" using take(7) False k len by auto
      with xp show ?thesis by simp
    qed
  qed
  ultimately show ?thesis unfolding take(1) by (rule merge_strictI)
next
  case drop
  show ?thesis unfolding drop(1)
  proof (rule merge_strictI)
    show "strictly_ordered out" by (rule merge_strictD(1) [OF assms(2)])
  next
    fix r assume "r \<in> set rs'"
    then obtain d where "d @ r \<in> set rs" using dropped_suffix [OF drop(3)] by blast
    from merge_strictD(2) [OF assms(2) this] show "strictly_ordered r" unfolding strict_append by blast
  next
    fix e x assume "e \<in> set (concat rs')" "x \<in> set out"
    then show "fst x < fst e" using dropped_ts [OF drop(3)] merge_strictD(3) [OF assms(2)] by blast
  qed
qed

lemma merge_steps:
  assumes "merge_step\<^sup>*\<^sup>* s s'"
  shows "(merge_inv s \<longrightarrow> merge_inv s') \<and> (merge_strict s \<longrightarrow> merge_strict s') \<and>
    mset (fst s') + mset (concat (snd s')) \<subseteq># mset (fst s) + mset (concat (snd s)) \<and>
    fst ` set (fst s') \<union> fst ` set (concat (snd s')) = fst ` set (fst s) \<union> fst ` set (concat (snd s))"
  using assms
proof (induction rule: rtranclp_induct)
  case base
  then show ?case by simp
next
  case (step y z)
  obtain o1 r1 o2 r2 where yz: "y = (o1, r1)" "z = (o2, r2)" by (cases y; cases z)
  have st: "merge_step (o1, r1) (o2, r2)" using step(2) yz by simp
  from step(3) merge_step_inv [OF st] merge_step_strict [OF st] merge_step_events [OF st]
  show ?case by (auto simp: yz simp del: set_concat intro: subset_mset.order_trans)
qed

end
