(* ===== verification/MergerCorrect.thy ===== *)
theory MergerCorrect
  imports Merger
begin

text \<open>
  The merger refines the abstract specification of \<open>Merger\<close>. The client lemmas are proved in the
  locale \<open>mergeable\<close>, for every container that keeps the contract; the properties follow for
  \<^verbatim>\<open>ContainerEvents\<close> through its interpretation.
\<close>

section \<open>The two lowest timestamps\<close>

definition lows_ok :: "(nat \<times> TsNano) set \<Rightarrow> tslow \<times> tslow \<Rightarrow> bool" where
  "lows_ok P lows \<longleftrightarrow> (case lows of
     (None, l1) \<Rightarrow> P = {} \<and> l1 = None
   | (Some (i0, a), None) \<Rightarrow> P = {(i0, a)}
   | (Some (i0, a), Some (i1, b)) \<Rightarrow>
       (i0, a) \<in> P \<and> (i1, b) \<in> P \<and> i1 \<noteq> i0 \<and> (\<forall>(i, t) \<in> P. a \<le> t) \<and> (\<forall>(i, t) \<in> P. i \<noteq> i0 \<longrightarrow> b \<le> t))"

lemma lows_ok_insert:
  assumes "lows_ok P lows" and "i1 \<notin> fst ` P"
  shows "lows_ok (insert (i1, t1) P) (tslows_insert i1 t1 lows)"
proof -
  obtain l0 l1 where l: "lows = (l0, l1)" by (cases lows)
  show ?thesis
  proof (cases l0)
    case None
    then show ?thesis using assms by (auto simp: l lows_ok_def tslows_insert_def)
  next
    case (Some x)
    obtain i0 a where x: "x = (i0, a)" by (cases x)
    show ?thesis
    proof (cases l1)
      case None
      then show ?thesis
        using assms Some x by (auto simp: l lows_ok_def tslows_insert_def not_less)
    next
      case (Some y)
      obtain ib b where y: "y = (ib, b)" by (cases y)
      have P: "(i0, a) \<in> P" "(ib, b) \<in> P" "ib \<noteq> i0" "\<And>i t. (i, t) \<in> P \<Longrightarrow> a \<le> t"
        "\<And>i t. (i, t) \<in> P \<Longrightarrow> i \<noteq> i0 \<Longrightarrow> b \<le> t"
        using assms(1) \<open>l0 = Some x\<close> Some x y by (auto simp: l lows_ok_def)
      have ne: "i1 \<noteq> i0" "i1 \<noteq> ib" using P(1,2) assms(2) by force+
      have "a \<le> b" using P(2,4) by blast
      consider "t1 < a" | "a \<le> t1" "t1 < b" | "a \<le> t1" "b \<le> t1" by fastforce
      then show ?thesis
        by cases (use P ne \<open>l0 = Some x\<close> Some x y \<open>a \<le> b\<close> in
          \<open>auto simp: l lows_ok_def tslows_insert_def not_less intro: order_trans less_imp_le\<close>)
    qed
  qed
qed

section \<open>Steps of the specification\<close>

text \<open>
  What is left of an input is the item at hand followed by what its stream still holds. Discarding
  shortens the items only.
\<close>

abbreviation later :: "TsNano \<Rightarrow> 'v event list \<Rightarrow> 'v event list" where
  "later t es \<equiv> dropWhile (\<lambda>e. fst e \<le> t) es"

lemma later_gt: "in_order es \<Longrightarrow> e \<in> set (later t es) \<Longrightarrow> t < fst e"
proof (induction es)
  case (Cons x es)
  show ?case
  proof (cases "fst x \<le> t")
    case True
    then show ?thesis using Cons by simp
  next
    case False
    then have "fst x \<le> fst e" using Cons.prems by auto
    with False show ?thesis by simp
  qed
qed simp

lemma dropped_later:
  assumes "length as = length bs" and "\<forall>e \<in> set (concat (map2 (@) as bs)). t \<le> fst e"
  shows "dropped t (map2 (@) as bs) (map2 (\<lambda>a b. later t a @ b) as bs)"
  unfolding dropped_def
proof (rule list_all2_all_nthI)
  show "length (map2 (@) as bs) = length (map2 (\<lambda>a b. later t a @ b) as bs)" using assms(1) by simp
next
  fix k assume "k < length (map2 (@) as bs)"
  then have k: "k < length as" "k < length bs" by simp_all
  let ?d = "takeWhile (\<lambda>e. fst e \<le> t) (as ! k)"
  have nth: "map2 (@) as bs ! k = as ! k @ bs ! k" using k by simp
  have "map2 (@) as bs ! k \<in> set (map2 (@) as bs)" using k by (intro nth_mem) simp
  then have "set (as ! k) \<subseteq> set (concat (map2 (@) as bs))" unfolding nth set_concat by (rule SUP_upper2) simp
  then have ge: "\<forall>e \<in> set (as ! k). t \<le> fst e" using assms(2) by blast
  have "\<forall>x \<in> set ?d. fst x = t"
    using ge by (auto dest!: set_takeWhileD)
  then show "\<exists>d. map2 (@) as bs ! k = d @ map2 (\<lambda>a b. later t a @ b) as bs ! k \<and> (\<forall>x \<in> set d. fst x = t)"
    using k by (intro exI [of _ ?d]) simp
qed

lemma step_take:
  assumes "i < length rs" and "rs ! i = p @ q" and "p \<noteq> []" and "in_order (rs ! i)"
    and "\<forall>k < length rs. k \<noteq> i \<longrightarrow> (\<forall>e \<in> set (rs ! k). fst (last p) < fst e)"
  shows "merge_step (out, rs) (out @ p, rs[i := q])"
proof (rule merge_step.take [OF assms(1,2,3) dropped_refl])
  show "\<forall>e \<in> set q. fst (last p) \<le> fst e"
    using assms(2,3,4) by (simp add: sorted_append)
  show "\<forall>k < length rs. k \<noteq> i \<longrightarrow> (\<forall>e \<in> set (rs[i := q] ! k). fst (last p) \<le> fst e \<and>
      (strictly_ordered (rs ! k) \<longrightarrow> fst (last p) < fst e))"
    using assms(5) by (simp add: less_imp_le)
qed

lemma step_take_drop:
  assumes "i < length rs" and "rs ! i = p @ q" and "p \<noteq> []" and "in_order (rs ! i)"
    and "length as = length bs" and "rs[i := q] = map2 (@) as bs" and "t = fst (last p)"
    and "\<forall>k < length rs. k \<noteq> i \<longrightarrow> in_order (as ! k) \<and> (as ! k \<noteq> [] \<or> bs ! k = [])"
    and "\<forall>k < length rs. k \<noteq> i \<longrightarrow> (\<forall>e \<in> set (rs ! k). t \<le> fst e)"
  shows "merge_step (out, rs) (out @ p, map2 (\<lambda>a b. later t a @ b) as bs)"
proof (rule merge_step.take [OF assms(1,2,3)])
  have len: "length as = length rs" "length bs = length rs"
    using assms(5) arg_cong [OF assms(6), of length] by simp_all
  show q: "\<forall>e \<in> set q. fst (last p) \<le> fst e"
    using assms(2,3,4) by (simp add: sorted_append)
  have "t \<le> fst e" if "k < length rs" "e \<in> set (rs[i := q] ! k)" for k e
    using that q assms(1,7,9) by (cases "k = i") auto
  moreover have "\<exists>k < length rs. e \<in> set (rs[i := q] ! k)" if "e \<in> set (concat (rs[i := q]))" for e
    using that by (metis UN_E in_set_conv_nth length_list_update set_concat)
  ultimately have "\<forall>e \<in> set (concat (rs[i := q])). t \<le> fst e" by blast
  then show "dropped (fst (last p)) (rs[i := q]) (map2 (\<lambda>a b. later t a @ b) as bs)"
    using dropped_later [OF assms(5), of t] assms(6,7) by simp
  show "\<forall>k < length rs. k \<noteq> i \<longrightarrow> (\<forall>e \<in> set (map2 (\<lambda>a b. later t a @ b) as bs ! k). fst (last p) \<le> fst e \<and>
      (strictly_ordered (rs ! k) \<longrightarrow> fst (last p) < fst e))"
  proof (intro allI impI ballI)
    fix k e assume k: "k < length rs" "k \<noteq> i" and e: "e \<in> set (map2 (\<lambda>a b. later t a @ b) as bs ! k)"
    have rk: "rs ! k = as ! k @ bs ! k"
      using arg_cong [OF assms(6), of "\<lambda>xs. xs ! k"] k len by simp
    have e': "e \<in> set (later t (as ! k)) \<or> e \<in> set (bs ! k)" using e k len by simp
    then have "e \<in> set (rs ! k)" using rk by (auto dest: set_dropWhileD)
    then have ge: "t \<le> fst e" using assms(9) k by blast
    have "t < fst e" if st: "strictly_ordered (rs ! k)"
    proof (cases "e \<in> set (later t (as ! k))")
      case True
      then show ?thesis using later_gt assms(8) k by blast
    next
      case False
      then have eb: "e \<in> set (bs ! k)" using e' by blast
      then have "as ! k \<noteq> []" using assms(8) k by fastforce
      then have l: "last (as ! k) \<in> set (as ! k)" by simp
      then have "fst (last (as ! k)) < fst e" using st eb by (auto simp: rk strict_append)
      moreover have "t \<le> fst (last (as ! k))" using assms(9) k l rk by simp
      ultimately show ?thesis by simp
    qed
    with ge show "fst (last p) \<le> fst e \<and> (strictly_ordered (rs ! k) \<longrightarrow> fst (last p) < fst e)"
      by (simp add: assms(7))
  qed
qed

context mergeable
begin

text \<open>The positions and first timestamps of the items from position \<open>k\<close> on.\<close>

definition heads :: "nat \<Rightarrow> 't option list \<Rightarrow> (nat \<times> TsNano) set" where
  "heads k xs = {(k + j, fst (hd (evs x))) | j x. j < length xs \<and> xs ! j = Some x}"

lemma heads_Nil [simp]: "heads k [] = {}"
  by (simp add: heads_def)

lemma heads_Cons:
  "heads k (y # xs) = (case y of None \<Rightarrow> {} | Some x \<Rightarrow> {(k, fst (hd (evs x)))}) \<union> heads (Suc k) xs"
proof (intro equalityI subsetI)
  fix z assume "z \<in> heads k (y # xs)"
  then obtain j x where z: "z = (k + j, fst (hd (evs x)))" "j < Suc (length xs)" "(y # xs) ! j = Some x"
    by (auto simp: heads_def)
  then show "z \<in> (case y of None \<Rightarrow> {} | Some x \<Rightarrow> {(k, fst (hd (evs x)))}) \<union> heads (Suc k) xs"
    by (cases j) (auto simp: heads_def)
next
  fix z assume z: "z \<in> (case y of None \<Rightarrow> {} | Some x \<Rightarrow> {(k, fst (hd (evs x)))}) \<union> heads (Suc k) xs"
  show "z \<in> heads k (y # xs)"
  proof (cases "z \<in> heads (Suc k) xs")
    case True
    then obtain j x where "z = (Suc k + j, fst (hd (evs x)))" "j < length xs" "xs ! j = Some x"
      by (auto simp: heads_def)
    then show ?thesis by (auto simp: heads_def intro!: exI [of _ "Suc j"])
  next
    case False
    with z obtain x where "y = Some x" "z = (k, fst (hd (evs x)))" by (cases y) auto
    then show ?thesis by (auto simp: heads_def intro!: exI [of _ 0])
  qed
qed

lemma find_tslows_ok:
  assumes "\<forall>x. Some x \<in> set xs \<longrightarrow> inv x" and "lows_ok P lows" and "\<forall>i \<in> fst ` P. i < k"
  shows "case find_tslows ops k xs lows of
      Inl i \<Rightarrow> k \<le> i \<and> i < k + length xs \<and> (\<exists>x. xs ! (i - k) = Some x \<and> evs x = [])
    | Inr lows' \<Rightarrow> lows_ok (P \<union> heads k xs) lows' \<and> (\<forall>x. Some x \<in> set xs \<longrightarrow> evs x \<noteq> [])"
  using assms
proof (induction xs arbitrary: k P lows)
  case Nil
  then show ?case by simp
next
  case (Cons y xs)
  show ?case
  proof (cases y)
    case None
    have "case find_tslows ops (Suc k) xs lows of
        Inl i \<Rightarrow> Suc k \<le> i \<and> i < Suc k + length xs \<and> (\<exists>x. xs ! (i - Suc k) = Some x \<and> evs x = [])
      | Inr lows' \<Rightarrow> lows_ok (P \<union> heads (Suc k) xs) lows' \<and> (\<forall>x. Some x \<in> set xs \<longrightarrow> evs x \<noteq> [])"
      by (rule Cons.IH) (use Cons.prems in \<open>auto simp: less_SucI\<close>)
    then show ?thesis
      using None by (auto simp: heads_Cons nth_Cons' split: sum.splits)
  next
    case (Some x)
    have inv: "inv x" using Cons.prems(1) Some by simp
    show ?thesis
    proof (cases "evs x = []")
      case True
      then show ?thesis using Some ts_min [OF inv] by auto
    next
      case False
      let ?t = "fst (hd (evs x))"
      have "lows_ok (insert (k, ?t) P) (tslows_insert k ?t lows)"
        using Cons.prems(2,3) by (intro lows_ok_insert) auto
      then have "case find_tslows ops (Suc k) xs (tslows_insert k ?t lows) of
          Inl i \<Rightarrow> Suc k \<le> i \<and> i < Suc k + length xs \<and> (\<exists>x. xs ! (i - Suc k) = Some x \<and> evs x = [])
        | Inr lows' \<Rightarrow> lows_ok (insert (k, ?t) P \<union> heads (Suc k) xs) lows' \<and>
            (\<forall>x. Some x \<in> set xs \<longrightarrow> evs x \<noteq> [])"
        by (rule Cons.IH [rotated]) (use Cons.prems(1,3) in \<open>auto simp: less_SucI\<close>)
      then show ?thesis
        using Some False ts_min [OF inv] by (auto simp: heads_Cons nth_Cons' split: sum.splits)
    qed
  qed
qed

section \<open>Draining\<close>

lemma pp_take: "take (pp p es) es = takeWhile (\<lambda>e. p (fst e)) es" "drop (pp p es) es = dropWhile (\<lambda>e. p (fst e)) es"
  by (simp_all add: pp_def takeWhile_eq_take [symmetric] dropWhile_eq_drop [symmetric])

lemma pp_le: "pp p es \<le> length es"
  by (simp add: pp_def length_takeWhile_le)

lemma drain_new_upto:
  assumes "inv s" and "in_order (evs s)"
  shows "\<exists>d s'. drain_into_new_upto ops s ts = Some (NewDone d, s') \<and> inv d \<and> inv s' \<and>
    evs d = takeWhile (\<lambda>e. fst e \<le> ts) (evs s) \<and> evs s' = dropWhile (\<lambda>e. fst e \<le> ts) (evs s)"
proof -
  let ?n = "pp (\<lambda>t. t \<le> ts) (evs s)"
  have "drain_into_new_upto ops s ts = m_drain_into_new ops s (0, ?n)"
    using find_gt [OF assms] len [OF assms(1)] pp_le [of "\<lambda>t. t \<le> ts" "evs s"]
    by (auto simp: drain_into_new_upto_def)
  then show ?thesis
    using drain_into_new [OF assms(1) le0 pp_le, of "\<lambda>t. t \<le> ts"] by (auto simp: pp_take)
qed

lemma drain_dst_upto:
  assumes "inv s" and "in_order (evs s)" and "inv d"
  shows "(\<exists>d' s'. drain_into_dst_upto ops s d ts = Some (DstDone, s', d') \<and> inv d' \<and> inv s' \<and>
    evs d' = evs d @ takeWhile (\<lambda>e. fst e \<le> ts) (evs s) \<and> evs s' = dropWhile (\<lambda>e. fst e \<le> ts) (evs s))
    \<or> drain_into_dst_upto ops s d ts = Some (DstNotCompatible, s, d)"
proof -
  let ?n = "pp (\<lambda>t. t \<le> ts) (evs s)"
  have "drain_into_dst_upto ops s d ts = m_drain_into ops s d (0, ?n)"
    using find_gt [OF assms(1,2)] len [OF assms(1)] pp_le [of "\<lambda>t. t \<le> ts" "evs s"]
    by (auto simp: drain_into_dst_upto_def)
  then show ?thesis
    using drain_into [OF assms(1,3) le0 pp_le, of "\<lambda>t. t \<le> ts"] by (auto simp: pp_take)
qed

definition item_evs :: "'t option \<Rightarrow> 'v event list" where
  "item_evs x = (case x of Some k \<Rightarrow> evs k | None \<Rightarrow> [])"

lemma item_evs_simps [simp]: "item_evs None = []" "item_evs (Some k) = evs k"
  by (simp_all add: item_evs_def)

lemma take_out_upto:
  assumes "inv s" and "in_order (evs s)" and "\<forall>k. mg_out m = Some k \<longrightarrow> inv k"
  shows "(\<exists>k s'. take_into_output_upto ops s ts m = Some (DstDone, s', m\<lparr>mg_out := Some k\<rparr>) \<and> inv k \<and> inv s' \<and>
    evs k = item_evs (mg_out m) @ takeWhile (\<lambda>e. fst e \<le> ts) (evs s) \<and>
    evs s' = dropWhile (\<lambda>e. fst e \<le> ts) (evs s))
    \<or> take_into_output_upto ops s ts m = Some (DstNotCompatible, s, m) \<and> mg_out m \<noteq> None"
proof (cases "mg_out m")
  case None
  then show ?thesis
    using drain_new_upto [OF assms(1,2), of ts] by (auto simp: take_into_output_upto_def)
next
  case (Some k)
  then have "inv k" using assms(3) by blast
  have same: "m\<lparr>mg_out := Some k\<rparr> = m" using Some by simp
  show ?thesis
    using drain_dst_upto [OF assms(1,2) \<open>inv k\<close>, of ts] Some
    by (auto simp: take_into_output_upto_def same)
qed

lemma dropWhile_hd: "es \<noteq> [] \<Longrightarrow> \<not> P (hd es) \<Longrightarrow> dropWhile P es = es"
  by (cases es) auto

lemma discard_item_ok:
  assumes "inv x" and "in_order (evs x)"
  shows "\<exists>y. discard_item ops mx x = Some (Inr (), y) \<and> inv y \<and> evs y = dropWhile (\<lambda>e. fst e \<le> mx) (evs x)"
proof -
  obtain d y where d: "drain_into_new_upto ops x mx = Some (NewDone d, y)" "inv y"
    "evs y = dropWhile (\<lambda>e. fst e \<le> mx) (evs x)"
    using drain_new_upto [OF assms] by blast
  show ?thesis
  proof (cases "evs x = [] \<or> mx < fst (hd (evs x))")
    case True
    then show ?thesis
      using ts_min [OF assms(1)] assms(1)
      by (subst discard_item.simps) (auto simp: dropWhile_hd not_le)
  next
    case False
    then show ?thesis
      using ts_min [OF assms(1)] d by (subst discard_item.simps) (auto simp: not_less)
  qed
qed

definition discarded :: "TsNano \<Rightarrow> 't option \<Rightarrow> 't option \<Rightarrow> bool" where
  "discarded mx a b \<longleftrightarrow> (case a of None \<Rightarrow> b = None
     | Some x \<Rightarrow> \<exists>y. b = Some y \<and> inv y \<and> evs y = dropWhile (\<lambda>e. fst e \<le> mx) (evs x))"

lemma discarded_simps [simp]:
  "discarded mx None b \<longleftrightarrow> b = None"
  "discarded mx (Some x) b \<longleftrightarrow> (\<exists>y. b = Some y \<and> inv y \<and> evs y = dropWhile (\<lambda>e. fst e \<le> mx) (evs x))"
  by (simp_all add: discarded_def)

lemma discard_items_ok:
  assumes "\<forall>x. Some x \<in> set xs \<longrightarrow> inv x \<and> in_order (evs x)"
  shows "\<exists>ys. discard_items ops mx xs = Some ((Inr () :: ('e merger_error, unit) result), ys) \<and> list_all2 (discarded mx) xs ys"
  using assms
proof (induction xs)
  case Nil
  then show ?case by simp
next
  case (Cons a xs)
  then obtain ys where ys: "discard_items ops mx xs = Some ((Inr () :: ('e merger_error, unit) result), ys)" "list_all2 (discarded mx) xs ys"
    by auto
  show ?case
  proof (cases a)
    case None
    then show ?thesis using ys by simp
  next
    case (Some x)
    then obtain y where "discard_item ops mx x = Some ((Inr () :: ('e merger_error, unit) result), y)" "inv y"
      "evs y = dropWhile (\<lambda>e. fst e \<le> mx) (evs x)"
      using discard_item_ok [of x mx] Cons.prems by auto
    then show ?thesis using ys Some by simp
  qed
qed

section \<open>The abstraction\<close>

definition inp_evs :: "('e, 't) stream option \<Rightarrow> 'v event list" where
  "inp_evs s = (case s of Some xs \<Rightarrow> concat (map evs (stream_data xs)) | None \<Rightarrow> [])"

definition rests :: "('e, 't) Merger \<Rightarrow> 'v event list list" where
  "rests m = map2 (@) (map item_evs (mg_items m)) (map inp_evs (mg_inps m))"

definition mg_wf :: "('e, 't) Merger \<Rightarrow> bool" where
  "mg_wf m \<longleftrightarrow> length (mg_inps m) = length (mg_items m) \<and> (\<forall>x. Some x \<in> set (mg_items m) \<longrightarrow> inv x) \<and>
     (\<forall>k. mg_out m = Some k \<longrightarrow> inv k \<and> evs k \<noteq> [])"

definition dim0_ok :: "'v event list \<Rightarrow> ('e, 't) Merger \<Rightarrow> bool" where
  "dim0_ok out m \<longleftrightarrow> mg_dim0ix_max m = (if out = [] then 0 else fst (last out))"

definition item_w :: "'t option \<Rightarrow> nat" where
  "item_w x = (case x of None \<Rightarrow> 0 | Some k \<Rightarrow> 4 * length (evs k) + 3)"

definition core_w :: "('e, 't) Merger \<Rightarrow> nat" where
  "core_w m = sum_list (map item_w (mg_items m)) + (if mg_out m = None then 0 else 2)"

lemma rests_length: "mg_wf m \<Longrightarrow> length (rests m) = length (mg_items m)"
  by (simp add: rests_def mg_wf_def)

lemma rests_nth: "mg_wf m \<Longrightarrow> k < length (mg_items m) \<Longrightarrow>
    rests m ! k = item_evs (mg_items m ! k) @ inp_evs (mg_inps m ! k)"
  by (simp add: rests_def mg_wf_def)

lemma rests_set_item:
  assumes "mg_wf m" and "i < length (mg_items m)"
  shows "rests (m\<lparr>mg_items := (mg_items m)[i := z]\<rparr>) = (rests m)[i := item_evs z @ inp_evs (mg_inps m ! i)]"
  by (rule nth_equalityI) (use assms in \<open>simp_all add: rests_def mg_wf_def nth_list_update\<close>)

lemma item_order:
  assumes "mg_wf m" and "merge_inv (out, rests m)" and "k < length (mg_items m)"
  shows "in_order (item_evs (mg_items m ! k))"
proof -
  have "rests m ! k \<in> set (rests m)" using assms by (intro nth_mem) (simp add: rests_length)
  from merge_invD(2) [OF assms(2) this] show ?thesis
    using assms by (simp add: rests_nth sorted_append)
qed

lemma sum_list_item_update:
  "i < length xs \<Longrightarrow> sum_list (map item_w (xs[i := z])) + item_w (xs ! i) = sum_list (map item_w xs) + item_w z"
proof (induction xs arbitrary: i)
  case (Cons x xs)
  then show ?case by (cases i) (simp_all add: algebra_simps)
qed simp

section \<open>Taking from one input\<close>

lemma takeWhile_max: "takeWhile (\<lambda>e. fst e \<le> (- 1 :: TsNano)) es = es" "later (- 1) es = []"
  by (simp_all add: takeWhile_eq_all_conv dropWhile_eq_Nil_conv)

lemma update_dim0ix_max_ok:
  assumes "mg_out m = Some k" and "inv k" and "evs k \<noteq> []"
  shows "update_dim0ix_max ops m = Some (m\<lparr>mg_dim0ix_max := fst (last (evs k))\<rparr>)"
  using assms ts_max [OF assms(2)] by (simp add: update_dim0ix_max_def)

definition refused :: "('e, 't) Merger \<Rightarrow> ('e, 't) Merger \<Rightarrow> bool" where
  "refused m m' \<longleftrightarrow> m' = m\<lparr>mg_do_clear_out := True\<rparr> \<and> mg_out m \<noteq> None"

text \<open>The events of item \<open>x\<close> at position \<open>i\<close> up to time \<open>u\<close> were moved to the output.\<close>

definition taken :: "nat \<Rightarrow> 't \<Rightarrow> TsNano \<Rightarrow> ('e, 't) Merger \<Rightarrow> ('e, 't) Merger \<Rightarrow> bool" where
  "taken i x u m m' \<longleftrightarrow> (\<exists>z k. m' = m\<lparr>mg_items := (mg_items m)[i := z], mg_out := Some k,
       mg_dim0ix_max := fst (last (takeWhile (\<lambda>e. fst e \<le> u) (evs x)))\<rparr> \<and>
     inv k \<and> evs k = item_evs (mg_out m) @ takeWhile (\<lambda>e. fst e \<le> u) (evs x) \<and>
     (\<forall>y. z = Some y \<longrightarrow> inv y) \<and> item_evs z = later u (evs x))"

lemma process_take_all_ok:
  assumes "mg_wf m" and "i < length (mg_items m)" and "mg_items m ! i = Some x"
    and "evs x \<noteq> []" and "in_order (evs x)"
  shows "\<exists>m'. process_take_all ops i m = Some (Inr (), m') \<and> (taken i x (- 1) m m' \<or> refused m m')"
proof -
  let ?m = "m\<lparr>mg_items := (mg_items m)[i := None]\<rparr>"
  have x: "inv x" using assms(1,2,3) nth_mem by (fastforce simp: mg_wf_def)
  have out: "\<forall>k. mg_out ?m = Some k \<longrightarrow> inv k" using assms(1) by (simp add: mg_wf_def)
  have t: "take_item i m = Some (x, ?m)" using assms(2,3) by (simp add: take_item_def)
  show ?thesis
  proof (cases "take_into_output_upto ops x (- 1) ?m = Some (DstNotCompatible, x, ?m)")
    case True
    then have r: "mg_out m \<noteq> None" using take_out_upto [OF x assms(5) out, of "- 1"] by auto
    have "(mg_items m)[i := Some x] = mg_items m" using assms(3) by (metis list_update_id)
    then have "put_back i x ?m = m" by (simp add: put_back_def)
    then show ?thesis using True t r by (simp add: process_take_all_def take_into_output_all_def refused_def)
  next
    case False
    then obtain k s' where k: "take_into_output_upto ops x (- 1) ?m = Some (DstDone, s', ?m\<lparr>mg_out := Some k\<rparr>)"
      "inv k" "evs k = item_evs (mg_out m) @ evs x"
      using take_out_upto [OF x assms(5) out, of "- 1"] by (auto simp: takeWhile_max)
    have "update_dim0ix_max ops (?m\<lparr>mg_out := Some k\<rparr>)
        = Some (?m\<lparr>mg_out := Some k, mg_dim0ix_max := fst (last (evs x))\<rparr>)"
      using update_dim0ix_max_ok [of "?m\<lparr>mg_out := Some k\<rparr>" k] k(2,3) assms(4) by simp
    then have "process_take_all ops i m
        = Some (Inr (), ?m\<lparr>mg_out := Some k, mg_dim0ix_max := fst (last (evs x))\<rparr>)"
      using k t by (simp add: process_take_all_def take_into_output_all_def)
    moreover have "taken i x (- 1) m (?m\<lparr>mg_out := Some k, mg_dim0ix_max := fst (last (evs x))\<rparr>)"
      unfolding taken_def takeWhile_max
      by (rule exI [of _ None], rule exI [of _ k]) (use k in simp)
    ultimately show ?thesis by blast
  qed
qed

lemma process_take_upto_ok:
  assumes "mg_wf m" and "i < length (mg_items m)" and "mg_items m ! i = Some x"
    and "evs x \<noteq> []" and "in_order (evs x)" and "fst (hd (evs x)) \<le> u" and "u < fst (last (evs x))"
  shows "\<exists>m'. process_take_upto ops i u m = Some (Inr (), m') \<and> (taken i x u m m' \<or> refused m m')"
proof -
  let ?m = "m\<lparr>mg_items := (mg_items m)[i := None]\<rparr>"
  let ?p = "takeWhile (\<lambda>e. fst e \<le> u) (evs x)"
  have x: "inv x" using assms(1,2,3) nth_mem by (fastforce simp: mg_wf_def)
  have out: "\<forall>k. mg_out ?m = Some k \<longrightarrow> inv k" using assms(1) by (simp add: mg_wf_def)
  have t: "take_item i m = Some (x, ?m)" using assms(2,3) by (simp add: take_item_def)
  have p: "?p \<noteq> []" using assms(4,6) by (cases "evs x") auto
  have rest: "later u (evs x) \<noteq> []"
    using assms(4,7) last_in_set [OF assms(4)] by (auto simp: dropWhile_eq_Nil_conv not_le)
  show ?thesis
  proof (cases "take_into_output_upto ops x u ?m = Some (DstNotCompatible, x, ?m)")
    case True
    then have r: "mg_out m \<noteq> None" using take_out_upto [OF x assms(5) out, of u] by auto
    have "(mg_items m)[i := Some x] = mg_items m" using assms(3) by (metis list_update_id)
    then have "put_back i x ?m = m" by (simp add: put_back_def)
    then show ?thesis using True t r by (simp add: process_take_upto_def refused_def)
  next
    case False
    then obtain k y where k: "take_into_output_upto ops x u ?m = Some (DstDone, y, ?m\<lparr>mg_out := Some k\<rparr>)"
      "inv k" "inv y" "evs k = item_evs (mg_out m) @ ?p" "evs y = later u (evs x)"
      using take_out_upto [OF x assms(5) out, of u] by auto
    have "m_len ops y \<noteq> 0" using len [OF k(3)] k(5) rest by simp
    moreover have "update_dim0ix_max ops (put_back i y (?m\<lparr>mg_out := Some k\<rparr>))
        = Some ((put_back i y (?m\<lparr>mg_out := Some k\<rparr>))\<lparr>mg_dim0ix_max := fst (last ?p)\<rparr>)"
      using update_dim0ix_max_ok [of "put_back i y (?m\<lparr>mg_out := Some k\<rparr>)" k] k(2,4) p
      by (simp add: put_back_def)
    ultimately have "process_take_upto ops i u m
        = Some (Inr (), (put_back i y (?m\<lparr>mg_out := Some k\<rparr>))\<lparr>mg_dim0ix_max := fst (last ?p)\<rparr>)"
      using k(1) t by (simp add: process_take_upto_def)
    moreover have "taken i x u m ((put_back i y (?m\<lparr>mg_out := Some k\<rparr>))\<lparr>mg_dim0ix_max := fst (last ?p)\<rparr>)"
      unfolding taken_def
      by (rule exI [of _ "Some y"], rule exI [of _ k]) (use k in \<open>simp add: put_back_def\<close>)
    ultimately show ?thesis by blast
  qed
qed

section \<open>One round of process\<close>

lemma taken_ok:
  assumes "mg_wf m" and "i < length (mg_items m)" and "mg_items m ! i = Some x" and "taken i x u m m'"
  defines "p \<equiv> takeWhile (\<lambda>e. fst e \<le> u) (evs x)"
  assumes "p \<noteq> []"
  shows "mg_wf m' \<and> rests m ! i = p @ later u (evs x) @ inp_evs (mg_inps m ! i) \<and>
    rests m' = (rests m)[i := later u (evs x) @ inp_evs (mg_inps m ! i)] \<and>
    item_evs (mg_out m') = item_evs (mg_out m) @ p \<and> mg_dim0ix_max m' = fst (last p) \<and>
    mg_out m' \<noteq> None \<and> core_w m' + 2 \<le> core_w m"
proof -
  obtain z k where m': "m' = m\<lparr>mg_items := (mg_items m)[i := z], mg_out := Some k, mg_dim0ix_max := fst (last p)\<rparr>"
    and k: "inv k" "evs k = item_evs (mg_out m) @ p"
    and z: "\<forall>y. z = Some y \<longrightarrow> inv y" "item_evs z = later u (evs x)"
    using assms(4) unfolding taken_def p_def by blast
  have x: "evs x = p @ later u (evs x)" by (simp add: p_def)
  have "item_w z \<le> 4 * length (later u (evs x)) + 3" using z(2) by (cases z) (auto simp: item_w_def)
  moreover have "item_w (Some x) = 4 * length p + 4 * length (later u (evs x)) + 3"
    by (subst item_w_def) (simp add: arg_cong [OF x, of length])
  moreover have "1 \<le> length p" using assms(6) by (cases p) auto
  moreover have "sum_list (map item_w ((mg_items m)[i := z])) + item_w (Some x)
      = sum_list (map item_w (mg_items m)) + item_w z"
    using sum_list_item_update [OF assms(2), of z] assms(3) by simp
  ultimately have w: "core_w m' + 2 \<le> core_w m" by (simp add: core_w_def m')
  have "rests m' = rests (m\<lparr>mg_items := (mg_items m)[i := z]\<rparr>)" by (simp add: rests_def m')
  moreover have "mg_wf m'"
    using assms(1) k z(1) assms(6) by (auto simp: mg_wf_def m' dest!: set_update_cases)
  ultimately show ?thesis
    using w k(2) rests_set_item [OF assms(1,2), of z] rests_nth [OF assms(1,2)] z(2) assms(3) x
    by (simp add: m')
qed

lemma item_w_discarded: "discarded t a b \<Longrightarrow> item_w b \<le> item_w a"
  by (cases a) (auto simp: item_w_def length_dropWhile_le)

lemma discard_rests:
  assumes "mg_wf m" and "list_all2 (discarded t) (mg_items m) ys"
  shows "rests (m\<lparr>mg_items := ys\<rparr>)
      = map2 (\<lambda>a b. later t a @ b) (map item_evs (mg_items m)) (map inp_evs (mg_inps m))"
    and "mg_wf (m\<lparr>mg_items := ys\<rparr>)" and "core_w (m\<lparr>mg_items := ys\<rparr>) \<le> core_w m"
proof -
  have l: "length ys = length (mg_items m)" using assms(2) by (simp add: list_all2_lengthD)
  have d: "discarded t (mg_items m ! k) (ys ! k)" if "k < length ys" for k
    using assms(2) that l by (simp add: list_all2_nthD)
  have e: "item_evs (ys ! k) = later t (item_evs (mg_items m ! k))" if "k < length ys" for k
    using d [OF that] by (cases "mg_items m ! k") auto
  show "rests (m\<lparr>mg_items := ys\<rparr>)
      = map2 (\<lambda>a b. later t a @ b) (map item_evs (mg_items m)) (map inp_evs (mg_inps m))"
    by (rule nth_equalityI) (use assms(1) l e in \<open>simp_all add: rests_def mg_wf_def\<close>)
  have "inv x" if x: "Some x \<in> set ys" for x
  proof -
    obtain k where "k < length ys" "ys ! k = Some x" using x by (auto simp: in_set_conv_nth)
    then show ?thesis using d [of k] by (cases "mg_items m ! k") auto
  qed
  then show "mg_wf (m\<lparr>mg_items := ys\<rparr>)" using assms(1) l by (simp add: mg_wf_def)
  have "sum_list (map item_w ys) \<le> sum_list (map item_w (mg_items m))"
    using assms(2) by induction (simp_all add: add_mono item_w_discarded)
  then show "core_w (m\<lparr>mg_items := ys\<rparr>) \<le> core_w m" by (simp add: core_w_def)
qed

lemma heads_mem: "k < length xs \<Longrightarrow> xs ! k = Some x \<Longrightarrow> (k, fst (hd (evs x))) \<in> heads 0 xs"
  by (auto simp: heads_def)

lemma lows_cases:
  assumes "lows_ok (heads 0 xs) lows" and "Some y \<in> set xs"
  obtains (one) i x where "lows = (Some (i, fst (hd (evs x))), None)" "i < length xs" "xs ! i = Some x"
      "\<forall>k < length xs. k \<noteq> i \<longrightarrow> xs ! k = None"
  | (two) i x j b where "lows = (Some (i, fst (hd (evs x))), Some (j, b))" "i < length xs" "xs ! i = Some x"
      "fst (hd (evs x)) \<le> b" "\<forall>k < length xs. k \<noteq> i \<longrightarrow> (\<forall>z. xs ! k = Some z \<longrightarrow> b \<le> fst (hd (evs z)))"
proof -
  obtain k where "k < length xs" "xs ! k = Some y" using assms(2) by (auto simp: in_set_conv_nth)
  then have ne: "heads 0 xs \<noteq> {}" using heads_mem by blast
  obtain l0 l1 where l: "lows = (l0, l1)" by (cases lows)
  then obtain i a where l0: "l0 = Some (i, a)" using assms(1) ne by (cases l0) (auto simp: lows_ok_def)
  show thesis
  proof (cases l1)
    case None
    then have h: "heads 0 xs = {(i, a)}" using assms(1) by (simp add: l l0 lows_ok_def)
    then have "(i, a) \<in> heads 0 xs" by simp
    then obtain x where x: "i < length xs" "xs ! i = Some x" "a = fst (hd (evs x))" by (auto simp: heads_def)
    have "xs ! k = None" if "k < length xs" "k \<noteq> i" for k
    proof (cases "xs ! k")
      case (Some z)
      then show ?thesis using heads_mem [OF that(1) Some] h that(2) by simp
    qed
    with x show ?thesis by (intro one [of i x]) (simp_all add: l l0 None)
  next
    case (Some w)
    obtain j b where w: "w = (j, b)" by (cases w)
    have h: "(i, a) \<in> heads 0 xs" "(j, b) \<in> heads 0 xs" "\<forall>(k, t) \<in> heads 0 xs. a \<le> t"
      "\<forall>(k, t) \<in> heads 0 xs. k \<noteq> i \<longrightarrow> b \<le> t"
      using assms(1) by (simp_all add: l l0 Some w lows_ok_def)
    from h(1) obtain x where x: "i < length xs" "xs ! i = Some x" "a = fst (hd (evs x))" by (auto simp: heads_def)
    have "b \<le> fst (hd (evs z))" if "k < length xs" "k \<noteq> i" "xs ! k = Some z" for k z
      using bspec [OF h(4) heads_mem [OF that(1,3)]] that(2) by simp
    moreover have "a \<le> b" using bspec [OF h(3,2)] by simp
    ultimately show ?thesis using x by (intro two [of i x j b]) (simp_all add: l l0 Some w)
  qed
qed

lemma takeWhile_last_le: "takeWhile (\<lambda>e. fst e \<le> u) es \<noteq> [] \<Longrightarrow> fst (last (takeWhile (\<lambda>e. fst e \<le> u) es)) \<le> u"
  by (drule last_in_set) (drule set_takeWhileD, simp)

lemma takeWhile_nonempty: "es \<noteq> [] \<Longrightarrow> fst (hd es) \<le> u \<Longrightarrow> takeWhile (\<lambda>e. fst e \<le> u) es \<noteq> []"
  by (cases es) auto

lemma process_take_two:
  assumes "mg_wf m" and "i < length (mg_items m)" and "mg_items m ! i = Some x"
    and "evs x \<noteq> []" and "in_order (evs x)" and "fst (hd (evs x)) \<le> b"
  shows "\<exists>m' u. process_take ops (Some (i, t), Some (j, b)) m = Some (Inr (), m') \<and>
    (taken i x u m m' \<and> takeWhile (\<lambda>e. fst e \<le> u) (evs x) \<noteq> [] \<and>
       fst (last (takeWhile (\<lambda>e. fst e \<le> u) (evs x))) \<le> b \<or> refused m m')"
proof -
  have x: "inv x" using assms(1,2,3) nth_mem by (fastforce simp: mg_wf_def)
  have ix: "index (mg_items m) i = Some (Some x)" using assms(2,3) by simp
  show ?thesis
  proof (cases "fst (last (evs x)) \<le> b")
    case True
    then have "process_take ops (Some (i, t), Some (j, b)) m = process_take_all ops i m"
      using ts_max [OF x] assms(4) ix by (simp add: process_take_def)
    moreover obtain m' where "process_take_all ops i m = Some (Inr (), m')" "taken i x (- 1) m m' \<or> refused m m'"
      using process_take_all_ok [OF assms(1-5)] by blast
    ultimately show ?thesis
      using True assms(4) by (intro exI [of _ m'] exI [of _ "- 1"]) (auto simp only: takeWhile_max)
  next
    case False
    then have "process_take ops (Some (i, t), Some (j, b)) m = process_take_upto ops i b m"
      using ts_max [OF x] assms(4) ix by (simp add: process_take_def)
    moreover obtain m' where "process_take_upto ops i b m = Some (Inr (), m')" "taken i x b m m' \<or> refused m m'"
      using process_take_upto_ok [OF assms(1-6)] False not_le by blast
    moreover note takeWhile_nonempty [OF assms(4,6)] takeWhile_last_le [OF takeWhile_nonempty [OF assms(4,6)]]
    ultimately show ?thesis by auto
  qed
qed

text \<open>Every input without an item at hand has ended.\<close>

definition full :: "('e, 't) Merger \<Rightarrow> bool" where
  "full m \<longleftrightarrow> (\<forall>k < length (mg_items m). mg_items m ! k = None \<longrightarrow> mg_inps m ! k = None)"

lemma full_rests_None:
  "mg_wf m \<Longrightarrow> full m \<Longrightarrow> k < length (mg_items m) \<Longrightarrow> mg_items m ! k = None \<Longrightarrow> rests m ! k = []"
  by (simp add: rests_nth full_def inp_evs_def)

lemma rests_ge_hd:
  assumes "mg_wf m" and "merge_inv (out, rests m)" and "k < length (mg_items m)" and "mg_items m ! k = Some y"
    and "evs y \<noteq> []" and "e \<in> set (rests m ! k)"
  shows "fst (hd (evs y)) \<le> fst e"
proof -
  have "rests m ! k \<in> set (rests m)" using assms(1,3) by (intro nth_mem) (simp add: rests_length)
  from merge_invD(2) [OF assms(2) this] have "in_order (rests m ! k)" .
  from in_order_hd [OF this assms(6)] show ?thesis using assms by (simp add: rests_nth)
qed

lemma rests_ge:
  assumes "mg_wf m" and "merge_inv (out, rests m)" and "full m" and "\<forall>x. Some x \<in> set (mg_items m) \<longrightarrow> evs x \<noteq> []"
    and "\<forall>k < length (mg_items m). k \<noteq> i \<longrightarrow> (\<forall>z. mg_items m ! k = Some z \<longrightarrow> b \<le> fst (hd (evs z)))"
    and "k < length (rests m)" and "k \<noteq> i" and "e \<in> set (rests m ! k)"
  shows "b \<le> fst e"
proof (cases "mg_items m ! k")
  case None
  then show ?thesis using full_rests_None [OF assms(1,3), of k] assms(1,6,8) by (simp add: rests_length)
next
  case (Some y)
  have k: "k < length (mg_items m)" using assms(1,6) by (simp add: rests_length)
  then have "evs y \<noteq> []" using assms(4) Some nth_mem by fastforce
  from rests_ge_hd [OF assms(1,2) k Some this assms(8)] show ?thesis using assms(5,7) k Some by fastforce
qed

text \<open>The discarding step, after the events \<open>p\<close> of input \<open>i\<close> have been taken.\<close>

lemma discard_step:
  assumes "mg_wf m" and "merge_inv (out, rests m)" and "full m" and "\<forall>x. Some x \<in> set (mg_items m) \<longrightarrow> evs x \<noteq> []"
    and "i < length (mg_items m)" and "mg_items m ! i = Some x"
    and "taken i x u m m'" and "takeWhile (\<lambda>e. fst e \<le> u) (evs x) \<noteq> []"
    and "t = fst (last (takeWhile (\<lambda>e. fst e \<le> u) (evs x)))"
    and "\<forall>k < length (mg_items m). k \<noteq> i \<longrightarrow> (\<forall>z. mg_items m ! k = Some z \<longrightarrow> t \<le> fst (hd (evs z)))"
    and "list_all2 (discarded t) (mg_items m') ys"
  shows "merge_step (out, rests m) (out @ takeWhile (\<lambda>e. fst e \<le> u) (evs x), rests (m'\<lparr>mg_items := ys\<rparr>))"
proof -
  let ?as = "map item_evs (mg_items m')" and ?bs = "map inp_evs (mg_inps m')"
  note T = taken_ok [OF assms(1,5,6,7,8)]
  obtain z where same: "mg_inps m' = mg_inps m" "mg_items m' = (mg_items m)[i := z]"
    using assms(7) by (auto simp: taken_def)
  have wf': "mg_wf m'" using T by blast
  have len: "length ?as = length ?bs" using wf' by (simp add: mg_wf_def)
  have i: "i < length (rests m)" using assms(1,5) by (simp add: rests_length)
  have "merge_step (out, rests m) (out @ takeWhile (\<lambda>e. fst e \<le> u) (evs x), map2 (\<lambda>a b. later t a @ b) ?as ?bs)"
  proof (rule step_take_drop [OF i _ assms(8) _ len _ assms(9)])
    show "rests m ! i = takeWhile (\<lambda>e. fst e \<le> u) (evs x) @ later u (evs x) @ inp_evs (mg_inps m ! i)"
      using T by blast
    show "in_order (rests m ! i)" using merge_invD(2) [OF assms(2)] i nth_mem by blast
    show "(rests m)[i := later u (evs x) @ inp_evs (mg_inps m ! i)] = map2 (@) ?as ?bs"
      using T by (simp add: rests_def)
    show "\<forall>k < length (rests m). k \<noteq> i \<longrightarrow> (\<forall>e \<in> set (rests m ! k). t \<le> fst e)"
      using rests_ge [OF assms(1,2,3,4,10)] by blast
    show "\<forall>k < length (rests m). k \<noteq> i \<longrightarrow> in_order (?as ! k) \<and> (?as ! k \<noteq> [] \<or> ?bs ! k = [])"
    proof (intro allI impI)
      fix k assume "k < length (rests m)" "k \<noteq> i"
      then have k: "k < length (mg_items m)" "mg_items m' ! k = mg_items m ! k" "k < length (mg_inps m)"
        using assms(1) same by (simp_all add: rests_length mg_wf_def)
      have "in_order (item_evs (mg_items m ! k))" by (rule item_order [OF assms(1,2) k(1)])
      moreover have "item_evs (mg_items m ! k) \<noteq> [] \<or> inp_evs (mg_inps m ! k) = []"
      proof (cases "mg_items m ! k")
        case None
        then show ?thesis using assms(3) k(1) by (simp add: full_def inp_evs_def)
      next
        case (Some y)
        then show ?thesis using assms(4) k(1) nth_mem by fastforce
      qed
      ultimately show "in_order (?as ! k) \<and> (?as ! k \<noteq> [] \<or> ?bs ! k = [])"
        using k same by simp
    qed
  qed
  then show ?thesis using discard_rests(1) [OF wf' assms(11)] by simp
qed

definition core_ok :: "'v event list \<Rightarrow> ('e, 't) Merger \<Rightarrow> bool" where
  "core_ok out m \<longleftrightarrow> mg_wf m \<and> merge_inv (out @ item_evs (mg_out m), rests m) \<and>
     dim0_ok (out @ item_evs (mg_out m)) m"

definition only_core :: "('e, 't) Merger \<Rightarrow> ('e, 't) Merger \<Rightarrow> bool" where
  "only_core m m' \<longleftrightarrow> m' = m\<lparr>mg_items := mg_items m', mg_out := mg_out m', mg_do_clear_out := mg_do_clear_out m',
     mg_dim0ix_max := mg_dim0ix_max m'\<rparr> \<and> length (mg_items m') = length (mg_items m)"

text \<open>The effect of \<open>process\<close>: steps of the specification, and progress.\<close>

definition processed :: "'v event list \<Rightarrow> ('e, 't) Merger \<Rightarrow> ('e, 't) Merger \<Rightarrow> bool" where
  "processed out m m' \<longleftrightarrow> core_ok out m' \<and> only_core m m' \<and>
     merge_step\<^sup>*\<^sup>* (out @ item_evs (mg_out m), rests m) (out @ item_evs (mg_out m'), rests m') \<and>
     (core_w m' < core_w m \<or> mg_do_clear_out m' \<and> mg_out m' \<noteq> None \<and> core_w m' \<le> core_w m)"

lemma processedI:
  assumes "core_ok out m" and "merge_step\<^sup>*\<^sup>* (out @ item_evs (mg_out m), rests m) (out @ item_evs (mg_out m'), rests m')"
    and "mg_wf m'" and "dim0_ok (out @ item_evs (mg_out m')) m'" and "only_core m m'"
    and "core_w m' < core_w m \<or> mg_do_clear_out m' \<and> mg_out m' \<noteq> None \<and> core_w m' \<le> core_w m"
  shows "processed out m m'"
  using assms merge_steps [OF assms(2)] unfolding processed_def core_ok_def by blast

lemma dim0_le:
  assumes "core_ok out m" and "i < length (mg_items m)" and "mg_items m ! i = Some x" and "evs x \<noteq> []"
  shows "mg_dim0ix_max m \<le> fst (hd (evs x))"
proof (cases "out @ item_evs (mg_out m) = []")
  case True
  then show ?thesis using assms(1) by (simp add: core_ok_def dim0_ok_def)
next
  case False
  have wf: "mg_wf m" and mi: "merge_inv (out @ item_evs (mg_out m), rests m)" using assms(1) by (simp_all add: core_ok_def)
  have "hd (evs x) \<in> set (rests m ! i)" using assms(2,3,4) wf by (simp add: rests_nth)
  moreover have "rests m ! i \<in> set (rests m)" using wf assms(2) by (intro nth_mem) (simp add: rests_length)
  ultimately have "hd (evs x) \<in> set (concat (rests m))" unfolding set_concat by blast
  then have "fst (last (out @ item_evs (mg_out m))) \<le> fst (hd (evs x))"
    by (rule merge_invD(3) [OF mi]) (use False in \<open>rule last_in_set\<close>)
  then show ?thesis using False assms(1) by (simp add: core_ok_def dim0_ok_def)
qed

lemma process_unfold:
  assumes "find_tslows ops 0 (mg_items m) (None, None) = Inr lows" and "fst lows = Some (i, t)"
    and "mg_dim0ix_max m \<le> t" and "process_take ops lows m = Some (Inr (), m')"
  shows "process ops m = (case snd lows of
      Some (_, b) \<Rightarrow>
        if b \<le> mg_dim0ix_max m'
        then do { (r, items) \<leftarrow> discard_items ops (mg_dim0ix_max m') (mg_items m');
                  case r of Inl e \<Rightarrow> Some (Inl e, m'\<lparr>mg_items := items\<rparr>)
                  | Inr _ \<Rightarrow> Some (Inr (), m'\<lparr>mg_items := items\<rparr>) }
        else Some (Inr (), m')
    | None \<Rightarrow> Some (Inr (), m'))"
proof -
  have "(if t \<le> mg_dim0ix_max m then m\<lparr>mg_dim0ix_max := t\<rparr> else m) = m" using assms(3) by auto
  then show ?thesis
    unfolding process_def Let_def using assms(1,2,4) by simp
qed

lemma taken_processed:
  assumes "core_ok out m" and "i < length (mg_items m)" and "mg_items m ! i = Some x" and "taken i x u m m'"
    and "takeWhile (\<lambda>e. fst e \<le> u) (evs x) \<noteq> []"
    and "\<forall>k < length (rests m). k \<noteq> i \<longrightarrow>
      (\<forall>e \<in> set (rests m ! k). fst (last (takeWhile (\<lambda>e. fst e \<le> u) (evs x))) < fst e)"
  shows "processed out m m'"
proof -
  have wf: "mg_wf m" and mi: "merge_inv (out @ item_evs (mg_out m), rests m)"
    using assms(1) by (simp_all add: core_ok_def)
  note T = taken_ok [OF wf assms(2,3,4,5)]
  let ?p = "takeWhile (\<lambda>e. fst e \<le> u) (evs x)"
  have i: "i < length (rests m)" using wf assms(2) by (simp add: rests_length)
  have "in_order (rests m ! i)" using merge_invD(2) [OF mi] i nth_mem by blast
  moreover have "rests m ! i = ?p @ later u (evs x) @ inp_evs (mg_inps m ! i)" using T by blast
  ultimately have "merge_step (out @ item_evs (mg_out m), rests m) ((out @ item_evs (mg_out m)) @ ?p, rests m')"
    using step_take [OF i _ assms(5) _ assms(6)] T by metis
  then have st: "merge_step (out @ item_evs (mg_out m), rests m) (out @ item_evs (mg_out m'), rests m')"
    using T by (simp del: takeWhile_eq_Nil_iff)
  show ?thesis
  proof (rule processedI [OF assms(1) r_into_rtranclp [of merge_step, OF st]])
    show "mg_wf m'" using T by blast
    show "dim0_ok (out @ item_evs (mg_out m')) m'"
      using T assms(5) by (simp add: dim0_ok_def)
    show "only_core m m'" using assms(4) by (auto simp: taken_def only_core_def)
    show "core_w m' < core_w m \<or> mg_do_clear_out m' \<and> mg_out m' \<noteq> None \<and> core_w m' \<le> core_w m"
      using T by linarith
  qed
qed

lemma taken_discarded:
  assumes "core_ok out m" and "full m" and "\<forall>x. Some x \<in> set (mg_items m) \<longrightarrow> evs x \<noteq> []"
    and "i < length (mg_items m)" and "mg_items m ! i = Some x" and "taken i x u m m'"
    and "takeWhile (\<lambda>e. fst e \<le> u) (evs x) \<noteq> []"
    and "t = fst (last (takeWhile (\<lambda>e. fst e \<le> u) (evs x)))"
    and "\<forall>k < length (mg_items m). k \<noteq> i \<longrightarrow> (\<forall>z. mg_items m ! k = Some z \<longrightarrow> t \<le> fst (hd (evs z)))"
    and "list_all2 (discarded t) (mg_items m') ys"
  shows "processed out m (m'\<lparr>mg_items := ys\<rparr>)"
proof -
  have wf: "mg_wf m" and mi: "merge_inv (out @ item_evs (mg_out m), rests m)"
    using assms(1) by (simp_all add: core_ok_def)
  note T = taken_ok [OF wf assms(4,5,6,7)]
  have wf': "mg_wf m'" using T by blast
  have "merge_step (out @ item_evs (mg_out m), rests m)
      ((out @ item_evs (mg_out m)) @ takeWhile (\<lambda>e. fst e \<le> u) (evs x), rests (m'\<lparr>mg_items := ys\<rparr>))"
    by (rule discard_step [OF wf mi assms(2-10)])
  then have st: "merge_step (out @ item_evs (mg_out m), rests m)
      (out @ item_evs (mg_out (m'\<lparr>mg_items := ys\<rparr>)), rests (m'\<lparr>mg_items := ys\<rparr>))"
    using T by (simp del: takeWhile_eq_Nil_iff)
  show ?thesis
  proof (rule processedI [OF assms(1) r_into_rtranclp [of merge_step, OF st]])
    show "mg_wf (m'\<lparr>mg_items := ys\<rparr>)" by (rule discard_rests(2) [OF wf' assms(10)])
    show "dim0_ok (out @ item_evs (mg_out (m'\<lparr>mg_items := ys\<rparr>))) (m'\<lparr>mg_items := ys\<rparr>)"
      using T assms(7) by (simp add: dim0_ok_def)
    show "only_core m (m'\<lparr>mg_items := ys\<rparr>)"
      using assms(6) list_all2_lengthD [OF assms(10)] by (auto simp: taken_def only_core_def)
    show "core_w (m'\<lparr>mg_items := ys\<rparr>) < core_w m \<or> mg_do_clear_out (m'\<lparr>mg_items := ys\<rparr>) \<and>
        mg_out (m'\<lparr>mg_items := ys\<rparr>) \<noteq> None \<and> core_w (m'\<lparr>mg_items := ys\<rparr>) \<le> core_w m"
      using T discard_rests(3) [OF wf' assms(10)] by linarith
  qed
qed

lemma refused_processed:
  assumes "core_ok out m" and "refused m m'"
    and "ys = mg_items m \<or> list_all2 (discarded (mg_dim0ix_max m)) (mg_items m) ys"
  shows "processed out m (m'\<lparr>mg_items := ys\<rparr>)"
proof -
  have wf: "mg_wf m" and mi: "merge_inv (out @ item_evs (mg_out m), rests m)"
    and d0: "dim0_ok (out @ item_evs (mg_out m)) m"
    using assms(1) by (simp_all add: core_ok_def)
  let ?O = "out @ item_evs (mg_out m)" and ?t = "mg_dim0ix_max m"
  have m': "m' = m\<lparr>mg_do_clear_out := True\<rparr>" "mg_out m \<noteq> None" using assms(2) by (simp_all add: refused_def)
  have eq: "rests (m'\<lparr>mg_items := ys\<rparr>) = rests (m\<lparr>mg_items := ys\<rparr>)"
    "core_w (m'\<lparr>mg_items := ys\<rparr>) = core_w (m\<lparr>mg_items := ys\<rparr>)"
    "mg_wf (m'\<lparr>mg_items := ys\<rparr>) = mg_wf (m\<lparr>mg_items := ys\<rparr>)"
    by (simp_all add: m' rests_def core_w_def mg_wf_def)
  have ne: "?O \<noteq> []" using m'(2) wf by (auto simp: mg_wf_def)
  then have t: "?t = fst (last ?O)" using d0 unfolding dim0_ok_def by presburger
  have H: "mg_wf (m\<lparr>mg_items := ys\<rparr>) \<and> core_w (m\<lparr>mg_items := ys\<rparr>) \<le> core_w m \<and> length ys = length (mg_items m) \<and>
      dropped (fst (last ?O)) (rests m) (rests (m\<lparr>mg_items := ys\<rparr>))"
  proof (cases "ys = mg_items m")
    case True
    then show ?thesis using wf by simp
  next
    case False
    then have ys: "list_all2 (discarded ?t) (mg_items m) ys" using assms(3) by blast
    have "\<forall>e \<in> set (concat (rests m)). ?t \<le> fst e"
      unfolding t using merge_invD(3) [OF mi _ last_in_set [OF ne]] by blast
    then have "dropped ?t (rests m) (rests (m\<lparr>mg_items := ys\<rparr>))"
      unfolding discard_rests(1) [OF wf ys] unfolding rests_def using wf
      by (intro dropped_later) (simp_all only: length_map mg_wf_def)
    then show ?thesis
      using discard_rests(2,3) [OF wf ys] list_all2_lengthD [OF ys] t by simp
  qed
  then have st: "merge_step (?O, rests m)
      (out @ item_evs (mg_out (m'\<lparr>mg_items := ys\<rparr>)), rests (m'\<lparr>mg_items := ys\<rparr>))"
    using merge_step.drop [OF ne] by (simp add: eq) (simp add: m')
  show ?thesis
  proof (rule processedI [OF assms(1) r_into_rtranclp [of merge_step, OF st]])
    show "mg_wf (m'\<lparr>mg_items := ys\<rparr>)" using H eq by blast
    show "dim0_ok (out @ item_evs (mg_out (m'\<lparr>mg_items := ys\<rparr>))) (m'\<lparr>mg_items := ys\<rparr>)"
      using d0 by (simp add: dim0_ok_def m')
    show "only_core m (m'\<lparr>mg_items := ys\<rparr>)" using H by (simp add: only_core_def m')
    show "core_w (m'\<lparr>mg_items := ys\<rparr>) < core_w m \<or> mg_do_clear_out (m'\<lparr>mg_items := ys\<rparr>) \<and>
        mg_out (m'\<lparr>mg_items := ys\<rparr>) \<noteq> None \<and> core_w (m'\<lparr>mg_items := ys\<rparr>) \<le> core_w m"
      using H m' eq by simp
  qed
qed

lemma process_one:
  assumes "core_ok out m" and "full m"
    and "find_tslows ops 0 (mg_items m) (None, None) = Inr (Some (i, fst (hd (evs x))), None)"
    and "i < length (mg_items m)" and "mg_items m ! i = Some x" and "evs x \<noteq> []" and "in_order (evs x)"
    and "\<forall>k < length (mg_items m). k \<noteq> i \<longrightarrow> mg_items m ! k = None"
  shows "\<exists>m'. process ops m = Some (Inr (), m') \<and> processed out m m'"
proof -
  have wf: "mg_wf m" using assms(1) by (simp add: core_ok_def)
  let ?lows = "(Some (i, fst (hd (evs x))), None) :: tslow \<times> tslow"
  have pt: "process_take ops ?lows m = process_take_all ops i m" by (simp add: process_take_def)
  obtain m' where m': "process_take ops ?lows m = Some (Inr (), m')" "taken i x (- 1) m m' \<or> refused m m'"
    unfolding pt using process_take_all_ok [OF wf assms(4-7)] by blast
  have "process ops m = Some (Inr (), m')"
    using process_unfold [OF assms(3) _ dim0_le [OF assms(1,4,5,6)] m'(1)] by simp
  moreover have "processed out m m'"
    using m'(2)
  proof
    assume t: "taken i x (- 1) m m'"
    show "processed out m m'"
    proof (rule taken_processed [OF assms(1,4,5) t])
      show "takeWhile (\<lambda>e. fst e \<le> (- 1 :: TsNano)) (evs x) \<noteq> []" unfolding takeWhile_max by (rule assms(6))
      have "rests m ! k = []" if "k < length (rests m)" "k \<noteq> i" for k
        using full_rests_None [OF wf assms(2), of k] assms(8) that wf by (simp add: rests_length)
      then show "\<forall>k < length (rests m). k \<noteq> i \<longrightarrow>
          (\<forall>e \<in> set (rests m ! k). fst (last (takeWhile (\<lambda>e. fst e \<le> - 1) (evs x))) < fst e)" by simp
    qed
  next
    assume r: "refused m m'"
    then have "m'\<lparr>mg_items := mg_items m\<rparr> = m'" by (simp add: refused_def)
    then show "processed out m m'" using refused_processed [OF assms(1) r, of "mg_items m"] by simp
  qed
  ultimately show ?thesis by blast
qed

lemma taken_items_order:
  assumes "\<forall>x. Some x \<in> set (mg_items m) \<longrightarrow> inv x \<and> in_order (evs x)" and "taken i x u m m'" and "in_order (evs x)"
    and "Some y \<in> set (mg_items m')"
  shows "inv y \<and> in_order (evs y)"
proof -
  obtain z where z: "mg_items m' = (mg_items m)[i := z]" "\<forall>y. z = Some y \<longrightarrow> inv y" "item_evs z = later u (evs x)"
    using assms(2) by (auto simp: taken_def)
  have "in_order (later u (evs x))"
    using assms(3) by (metis in_order_append takeWhile_dropWhile_id)
  then show ?thesis
    using set_update_cases [OF assms(4) [unfolded z(1)]] assms(1) z(2,3) by fastforce
qed

lemma process_two:
  fixes m :: "('e, 't) Merger"
  assumes "core_ok out m" and "full m" and "\<forall>x. Some x \<in> set (mg_items m) \<longrightarrow> evs x \<noteq> []"
    and "\<forall>x. Some x \<in> set (mg_items m) \<longrightarrow> inv x \<and> in_order (evs x)"
    and "find_tslows ops 0 (mg_items m) (None, None) = Inr (Some (i, fst (hd (evs x))), Some (j, b))"
    and "i < length (mg_items m)" and "mg_items m ! i = Some x" and "evs x \<noteq> []" and "in_order (evs x)"
    and "fst (hd (evs x)) \<le> b"
    and "\<forall>k < length (mg_items m). k \<noteq> i \<longrightarrow> (\<forall>z. mg_items m ! k = Some z \<longrightarrow> b \<le> fst (hd (evs z)))"
  shows "\<exists>m'. process ops m = Some (Inr (), m') \<and> processed out m m'"
proof -
  have wf: "mg_wf m" and mi: "merge_inv (out @ item_evs (mg_out m), rests m)"
    using assms(1) by (simp_all add: core_ok_def)
  obtain m' u where m': "process_take ops (Some (i, fst (hd (evs x))), Some (j, b)) m = Some (Inr (), m')"
    "taken i x u m m' \<and> takeWhile (\<lambda>e. fst e \<le> u) (evs x) \<noteq> [] \<and>
       fst (last (takeWhile (\<lambda>e. fst e \<le> u) (evs x))) \<le> b \<or> refused m m'"
    using process_take_two [OF wf assms(6-10)] by blast
  note pu = process_unfold [OF assms(5) fst_conv dim0_le [OF assms(1,6,7,8)] m'(1)]
  let ?t = "mg_dim0ix_max m'"
  have items': "\<forall>y. Some y \<in> set (mg_items m') \<longrightarrow> inv y \<and> in_order (evs y)"
    using m'(2) taken_items_order [OF assms(4) _ assms(9)] assms(4) by (auto simp: refused_def)
  then obtain ys where "discard_items ops ?t (mg_items m') = Some (Inr () :: ('e merger_error, unit) result, ys)"
    and ys: "list_all2 (discarded ?t) (mg_items m') ys"
    using discard_items_ok by blast
  with pu have pr: "process ops m = Some (Inr (), if b \<le> ?t then m'\<lparr>mg_items := ys\<rparr> else m')" by simp
  have "processed out m (if b \<le> ?t then m'\<lparr>mg_items := ys\<rparr> else m')"
    using m'(2)
  proof (elim disjE conjE)
    assume t: "taken i x u m m'" and p: "takeWhile (\<lambda>e. fst e \<le> u) (evs x) \<noteq> []"
      and le: "fst (last (takeWhile (\<lambda>e. fst e \<le> u) (evs x))) \<le> b"
    have t0: "?t = fst (last (takeWhile (\<lambda>e. fst e \<le> u) (evs x)))" using t by (auto simp: taken_def)
    show ?thesis
    proof (cases "b \<le> ?t")
      case True
      then have "b = ?t" using le t0 by simp
      then show ?thesis
        using taken_discarded [OF assms(1,2,3,6,7) t p t0 _ ys] assms(11) by simp
    next
      case False
      have "processed out m m'"
        using rests_ge [OF wf mi assms(2,3,11)] False t0
        by (intro taken_processed [OF assms(1,6,7) t p]) fastforce
      then show ?thesis using False by simp
    qed
  next
    assume r: "refused m m'"
    then have eq: "m'\<lparr>mg_items := mg_items m\<rparr> = m'" "?t = mg_dim0ix_max m" "mg_items m' = mg_items m"
      by (simp_all add: refused_def)
    then have "processed out m m'" using refused_processed [OF assms(1) r, of "mg_items m"] by metis
    then show ?thesis using refused_processed [OF assms(1) r, of ys] ys eq by simp
  qed
  with pr show ?thesis by blast
qed

lemma process_ok:
  assumes "core_ok out m" and "full m" and "Some y \<in> set (mg_items m)"
  shows "\<exists>m'. process ops m = Some (Inr (), m') \<and> processed out m m'"
proof -
  have wf: "mg_wf m" and mi: "merge_inv (out @ item_evs (mg_out m), rests m)"
    using assms(1) by (simp_all add: core_ok_def)
  have ord: "\<forall>x. Some x \<in> set (mg_items m) \<longrightarrow> inv x \<and> in_order (evs x)"
    using wf item_order [OF wf mi] by (fastforce simp: in_set_conv_nth mg_wf_def)
  have find: "case find_tslows ops 0 (mg_items m) (None, None) of
      Inl i \<Rightarrow> 0 \<le> i \<and> i < 0 + length (mg_items m) \<and> (\<exists>x. mg_items m ! (i - 0) = Some x \<and> evs x = [])
    | Inr lows' \<Rightarrow> lows_ok ({} \<union> heads 0 (mg_items m)) lows' \<and> (\<forall>x. Some x \<in> set (mg_items m) \<longrightarrow> evs x \<noteq> [])"
    by (rule find_tslows_ok) (use ord in \<open>auto simp: lows_ok_def\<close>)
  show ?thesis
  proof (cases "find_tslows ops 0 (mg_items m) (None, None)")
    case (Inl i)
    then obtain x where x: "i < length (mg_items m)" "mg_items m ! i = Some x" "evs x = []" using find by auto
    let ?m = "m\<lparr>mg_items := (mg_items m)[i := None]\<rparr>"
    have "rests ?m = rests m"
      using rests_set_item [OF wf x(1), of None] rests_nth [OF wf x(1)] x by simp (metis list_update_id)
    moreover have "core_w ?m < core_w m"
      using sum_list_item_update [OF x(1), of None] x by (simp add: core_w_def item_w_def)
    moreover have "mg_wf ?m" using wf by (auto simp: mg_wf_def dest!: set_update_cases)
    ultimately have "processed out m ?m"
      using assms(1) by (intro processedI) (simp_all add: only_core_def core_ok_def dim0_ok_def)
    then show ?thesis using Inl by (simp add: process_def)
  next
    case (Inr lows)
    then have lows: "lows_ok (heads 0 (mg_items m)) lows" and ne: "\<forall>x. Some x \<in> set (mg_items m) \<longrightarrow> evs x \<noteq> []"
      using find by auto
    have x: "evs x \<noteq> []" "in_order (evs x)" if "i < length (mg_items m)" "mg_items m ! i = Some x" for i x
      using ne ord that nth_mem by fastforce+
    from lows assms(3) show ?thesis
    proof (cases rule: lows_cases)
      case (one i x)
      show ?thesis
        by (rule process_one [OF assms(1,2) Inr [unfolded one(1)] one(2,3) x [OF one(2,3)] one(4)])
    next
      case (two i x j b)
      show ?thesis
        by (rule process_two [OF assms(1,2) ne ord Inr [unfolded two(1)] two(2,3) x [OF two(2,3)] two(4,5)])
    qed
  qed
qed

end

end
