(* ===== verification/MergerRun.thy ===== *)
theory MergerRun
  imports MergerCorrect
begin

text \<open>
  Polling a merger to its end. Refilling keeps what is left of every input, every round of
  \<^verbatim>\<open>poll_next\<close> makes the weight of the state smaller, so that a merger over finite inputs
  that yield no errors always comes to its end, and the data it yields are the output of a run of the
  specification that leaves nothing.
\<close>

definition is_note :: "('e, 't) Sitemty \<Rightarrow> bool" where
  "is_note x \<longleftrightarrow> (case x of Inr (Log _) \<Rightarrow> True | Inr (Stats _) \<Rightarrow> True | _ \<Rightarrow> False)"

lemma item_data_notes: "\<forall>x \<in> set xs. is_note x \<Longrightarrow> item_data xs = []"
  by (induction xs rule: item_data.induct) (simp_all add: is_note_def)

lemma sitem_cases [case_names data range_complete log stats err]:
  obtains k where "x = Inr (DataItem (Data k))" | "x = Inr (DataItem RangeComplete)"
  | l where "x = Inr (Log l)" | st where "x = Inr (Stats st)" | e where "x = Inl e"
proof (cases x)
  case (Inr y)
  then show ?thesis
  proof (cases y)
    case (DataItem d)
    then show ?thesis using that Inr by (cases d) auto
  qed (use that Inr in auto)
qed (use that in auto)

context mergeable
begin

section \<open>Refilling\<close>

fun poll_w :: "('e, 't) Sitemty poll \<Rightarrow> nat" where
  "poll_w (Ready (Inr (DataItem (Data k)))) = 4 * length (evs k) + 5"
| "poll_w (Ready _) = 3"
| "poll_w Pending = 1"

definition inp_w :: "('e, 't) stream option \<Rightarrow> nat" where
  "inp_w s = (case s of None \<Rightarrow> 0 | Some xs \<Rightarrow> 1 + sum_list (map poll_w xs))"

definition clean :: "('e, 't) stream \<Rightarrow> bool" where
  "clean xs \<longleftrightarrow> (\<forall>e. Ready (Inl e) \<notin> set xs) \<and> (\<forall>k \<in> set (stream_data xs). inv k)"

definition data_evs :: "('e, 't) Sitemty list \<Rightarrow> 'v event list" where
  "data_evs xs = concat (map evs (item_data xs))"

lemma data_evs_simps [simp]:
  "data_evs [] = []" "data_evs (xs @ ys) = data_evs xs @ data_evs ys" "data_evs [sitem_data k] = evs k"
  "data_evs (sitem_data k # xs) = evs k @ data_evs xs"
  by (simp_all add: data_evs_def)

lemma data_evs_notes: "\<forall>x \<in> set xs. is_note x \<Longrightarrow> data_evs xs = []"
  by (simp add: data_evs_def item_data_notes)

lemma inp_evs_simps [simp]: "inp_evs None = []" "inp_evs (Some xs) = concat (map evs (stream_data xs))"
  by (simp_all add: inp_evs_def)

text \<open>Input \<open>i\<close> was polled from \<open>xs\<close> on.\<close>

definition polled :: "nat \<Rightarrow> ('e, 't) stream \<Rightarrow> bool \<Rightarrow> ('e, 't) Merger \<Rightarrow> ('e, 't) Merger \<Rightarrow> bool" where
  "polled i xs p m m' \<longleftrightarrow> (\<exists>inp' item' rc lg.
     m' = m\<lparr>mg_inps := (mg_inps m)[i := inp'], mg_items := (mg_items m)[i := item'],
       mg_range_complete := rc, mg_outbuf := mg_outbuf m @ lg\<rparr> \<and>
     (\<forall>x \<in> set lg. is_note x) \<and> item_evs item' @ inp_evs inp' = inp_evs (Some xs) \<and>
     (\<forall>ys. inp' = Some ys \<longrightarrow> clean ys) \<and> (\<forall>k. item' = Some k \<longrightarrow> inv k) \<and>
     inp_w inp' + item_w item' + length lg < inp_w (Some xs) \<and> (\<not> p \<longrightarrow> item' \<noteq> None \<or> inp' = None))"

lemma polledI:
  assumes "m' = m\<lparr>mg_inps := (mg_inps m)[i := inp'], mg_items := (mg_items m)[i := item'],
       mg_range_complete := rc, mg_outbuf := mg_outbuf m @ lg\<rparr>"
    and "\<forall>x \<in> set lg. is_note x" and "item_evs item' @ inp_evs inp' = inp_evs (Some xs)"
    and "\<forall>ys. inp' = Some ys \<longrightarrow> clean ys" and "\<forall>k. item' = Some k \<longrightarrow> inv k"
    and "inp_w inp' + item_w item' + length lg < inp_w (Some xs)" and "\<not> p \<longrightarrow> item' \<noteq> None \<or> inp' = None"
  shows "polled i xs p m m'"
  using assms unfolding polled_def by blast

lemma polled_skip:
  assumes "polled i xs p (m\<lparr>mg_range_complete := rc, mg_outbuf := mg_outbuf m @ lg\<rparr>) m'" and "\<forall>x \<in> set lg. is_note x"
    and "inp_evs (Some ys) = inp_evs (Some xs)" and "inp_w (Some xs) + length lg \<le> inp_w (Some ys)"
  shows "polled i ys p m m'"
proof -
  obtain inp' item' rc' lg' where *: "m' = m\<lparr>mg_range_complete := rc, mg_outbuf := mg_outbuf m @ lg,
      mg_inps := (mg_inps m)[i := inp'], mg_items := (mg_items m)[i := item'],
      mg_range_complete := rc', mg_outbuf := (mg_outbuf m @ lg) @ lg'\<rparr>"
    "\<forall>x \<in> set lg'. is_note x" "item_evs item' @ inp_evs inp' = inp_evs (Some xs)"
    "\<forall>ys. inp' = Some ys \<longrightarrow> clean ys" "\<forall>k. item' = Some k \<longrightarrow> inv k"
    "inp_w inp' + item_w item' + length lg' < inp_w (Some xs)" "\<not> p \<longrightarrow> item' \<noteq> None \<or> inp' = None"
    using assms(1) unfolding polled_def by auto
  show ?thesis
    by (rule polledI [where inp' = inp' and item' = item' and rc = rc' and lg = "lg @ lg'"])
      (use * assms(2-4) in \<open>auto simp del: inp_evs_simps\<close>)
qed

lemma clean_Cons: "clean (a # xs) \<Longrightarrow> clean xs"
proof (cases a)
  case (Ready x)
  then show "clean (a # xs) \<Longrightarrow> clean xs" by (cases x rule: sitem_cases) (auto simp: clean_def)
qed (simp add: clean_def)

lemma refill_inp_ok:
  assumes "clean xs" and "in_order (inp_evs (Some xs))" and "i < length (mg_items m)" and "mg_items m ! i = None"
  shows "\<exists>p m'. refill_inp ops i xs m = (Inr p, m') \<and> polled i xs p m m'"
  using assms
proof (induction xs arbitrary: m)
  case Nil
  have "(mg_items m)[i := None] = mg_items m" using Nil by (metis list_update_id)
  then have "polled i [] False m (m\<lparr>mg_inps := (mg_inps m)[i := None]\<rparr>)"
    by (intro polledI [where inp' = None and item' = None and rc = "mg_range_complete m" and lg = "[]"])
      (simp_all add: inp_w_def item_w_def)
  then show ?case by auto
next
  case (Cons a xs)
  have xs: "clean xs" by (rule clean_Cons [OF Cons.prems(1)])
  have keep: "(mg_items m)[i := None] = mg_items m" using Cons.prems(4) by (metis list_update_id)
  show ?case
  proof (cases a)
    case Pending
    have "polled i (a # xs) True m (m\<lparr>mg_inps := (mg_inps m)[i := Some xs]\<rparr>)"
      using Pending keep xs
      by (intro polledI [where inp' = "Some xs" and item' = None and rc = "mg_range_complete m" and lg = "[]"])
        (simp_all add: inp_w_def item_w_def)
    then show ?thesis using Pending by auto
  next
    case (Ready x)
    show ?thesis
    proof (cases x rule: sitem_cases)
      case (data k)
      have k: "inv k" "in_order (evs k)"
        using Cons.prems(1,2) Ready data by (simp_all add: clean_def sorted_append)
      have "polled i (a # xs) False m (m\<lparr>mg_inps := (mg_inps m)[i := Some xs], mg_items := (mg_items m)[i := Some k]\<rparr>)"
        using Ready data xs k
        by (intro polledI [where inp' = "Some xs" and item' = "Some k" and rc = "mg_range_complete m" and lg = "[]"])
          (simp_all add: inp_w_def item_w_def)
      then show ?thesis using Ready data monotonic [OF k(1)] k(2) by auto
    next
      case range_complete
      let ?m = "m\<lparr>mg_range_complete := (mg_range_complete m)[i := True]\<rparr>"
      obtain p m' where "refill_inp ops i xs ?m = (Inr p, m')" "polled i xs p ?m m'"
        using Cons.IH [OF xs, of ?m] Cons.prems(2-4) Ready range_complete by auto
      then show ?thesis
        using Ready range_complete polled_skip [where m = m and rc = "(mg_range_complete m)[i := True]" and lg = "[]" and ys = "a # xs"]
        by (simp add: inp_w_def)
    next
      case (log l)
      let ?m = "m\<lparr>mg_outbuf := mg_outbuf m @ [Inr (Log l)]\<rparr>"
      obtain p m' where "refill_inp ops i xs ?m = (Inr p, m')" "polled i xs p ?m m'"
        using Cons.IH [OF xs, of ?m] Cons.prems(2-4) Ready log by auto
      then show ?thesis
        using Ready log polled_skip [where m = m and rc = "mg_range_complete m" and lg = "[Inr (Log l)]" and ys = "a # xs"]
        by (simp add: inp_w_def is_note_def)
    next
      case (stats st)
      let ?m = "m\<lparr>mg_outbuf := mg_outbuf m @ [Inr (Stats st)]\<rparr>"
      obtain p m' where "refill_inp ops i xs ?m = (Inr p, m')" "polled i xs p ?m m'"
        using Cons.IH [OF xs, of ?m] Cons.prems(2-4) Ready stats by auto
      then show ?thesis
        using Ready stats polled_skip [where m = m and rc = "mg_range_complete m" and lg = "[Inr (Stats st)]" and ys = "a # xs"]
        by (simp add: inp_w_def is_note_def)
    next
      case (err e)
      then show ?thesis using Cons.prems(1) Ready by (auto simp: clean_def)
    qed
  qed
qed

definition mg_clean :: "('e, 't) Merger \<Rightarrow> bool" where
  "mg_clean m \<longleftrightarrow> (\<forall>xs. Some xs \<in> set (mg_inps m) \<longrightarrow> clean xs)"

definition filled :: "nat \<Rightarrow> ('e, 't) Merger \<Rightarrow> bool" where
  "filled k m \<longleftrightarrow> mg_items m ! k \<noteq> None \<or> mg_inps m ! k = None"

definition tot_w :: "('e, 't) Merger \<Rightarrow> nat" where
  "tot_w m = core_w m + sum_list (map inp_w (mg_inps m)) + length (mg_outbuf m) + length (mg_log_queue m) +
     (if mg_done_inp m then 0 else 1) + (if mg_done_range_complete m then 0 else 2)"

definition refilled :: "('e, 't) Merger \<Rightarrow> ('e, 't) Merger \<Rightarrow> bool" where
  "refilled m m' \<longleftrightarrow> (\<exists>lg. m' = m\<lparr>mg_inps := mg_inps m', mg_items := mg_items m',
       mg_range_complete := mg_range_complete m', mg_outbuf := mg_outbuf m @ lg\<rparr> \<and> (\<forall>x \<in> set lg. is_note x)) \<and>
     mg_wf m' \<and> mg_clean m' \<and> rests m' = rests m \<and> length (mg_items m') = length (mg_items m) \<and>
     (\<forall>k < length (mg_items m). filled k m \<longrightarrow> filled k m')"

lemma refilled_refl: "mg_wf m \<Longrightarrow> mg_clean m \<Longrightarrow> refilled m m"
  unfolding refilled_def by (auto intro!: exI [of _ "[]"])

lemma refilled_trans:
  assumes "refilled a b" and "refilled b c"
  shows "refilled a c"
proof -
  obtain l1 where l1: "b = a\<lparr>mg_inps := mg_inps b, mg_items := mg_items b,
      mg_range_complete := mg_range_complete b, mg_outbuf := mg_outbuf a @ l1\<rparr>" "\<forall>x \<in> set l1. is_note x"
    using assms(1) unfolding refilled_def by blast
  obtain l2 where l2: "c = b\<lparr>mg_inps := mg_inps c, mg_items := mg_items c,
      mg_range_complete := mg_range_complete c, mg_outbuf := mg_outbuf b @ l2\<rparr>" "\<forall>x \<in> set l2. is_note x"
    using assms(2) unfolding refilled_def by blast
  have ob: "mg_outbuf b = mg_outbuf a @ l1" by (subst l1(1)) simp
  have "c = a\<lparr>mg_inps := mg_inps c, mg_items := mg_items c,
      mg_range_complete := mg_range_complete c, mg_outbuf := mg_outbuf a @ l1 @ l2\<rparr>"
    by (subst l2(1), subst l1(1)) (simp add: ob)
  moreover have "\<forall>x \<in> set (l1 @ l2). is_note x" using l1(2) l2(2) by auto
  ultimately have "\<exists>lg. c = a\<lparr>mg_inps := mg_inps c, mg_items := mg_items c,
      mg_range_complete := mg_range_complete c, mg_outbuf := mg_outbuf a @ lg\<rparr> \<and> (\<forall>x \<in> set lg. is_note x)"
    by blast
  then show ?thesis using assms unfolding refilled_def by auto
qed

lemma sum_list_update_w:
  "i < length xs \<Longrightarrow> sum_list (map f (xs[i := z])) + f (xs ! i) = sum_list (map f xs) + (f z :: nat)"
proof (induction xs arbitrary: i)
  case (Cons x xs)
  then show ?case by (cases i) (simp_all add: algebra_simps)
qed simp

lemma polled_refilled:
  assumes "mg_wf m" and "mg_clean m" and "i < length (mg_items m)" and "mg_items m ! i = None"
    and "mg_inps m ! i = Some xs" and "polled i xs p m m'"
  shows "refilled m m' \<and> tot_w m' < tot_w m \<and> (\<not> p \<longrightarrow> filled i m')"
proof -
  obtain inp' item' rc lg where m': "m' = m\<lparr>mg_inps := (mg_inps m)[i := inp'], mg_items := (mg_items m)[i := item'],
       mg_range_complete := rc, mg_outbuf := mg_outbuf m @ lg\<rparr>"
    and lg: "\<forall>x \<in> set lg. is_note x" and ev: "item_evs item' @ inp_evs inp' = inp_evs (Some xs)"
    and cl: "\<forall>ys. inp' = Some ys \<longrightarrow> clean ys" and iv: "\<forall>k. item' = Some k \<longrightarrow> inv k"
    and w: "inp_w inp' + item_w item' + length lg < inp_w (Some xs)" and p: "\<not> p \<longrightarrow> item' \<noteq> None \<or> inp' = None"
    using assms(6) unfolding polled_def by blast
  have i: "i < length (mg_inps m)" using assms(1,3) by (simp add: mg_wf_def)
  have "tot_w m' < tot_w m"
    using sum_list_update_w [OF i, of inp_w inp'] sum_list_item_update [OF assms(3), of item'] w assms(4,5)
    by (simp add: tot_w_def core_w_def m' item_w_def)
  moreover have "rests m' = rests m"
    by (rule nth_equalityI)
      (use assms(1,3,4,5) ev i in \<open>auto simp: rests_def m' mg_wf_def nth_list_update simp del: inp_evs_simps(2)\<close>)
  moreover have "mg_wf m'" "mg_clean m'"
    using assms(1,2) iv cl by (auto simp: mg_wf_def mg_clean_def m' dest!: set_update_cases)
  moreover have "\<forall>k < length (mg_items m). filled k m \<longrightarrow> filled k m'"
    using assms(4,5) i by (auto simp: filled_def m' nth_list_update)
  moreover have "\<not> p \<longrightarrow> filled i m'" using p assms(3) i by (simp add: filled_def m')
  ultimately show ?thesis using lg m' unfolding refilled_def by auto
qed

lemma refill_at_ok:
  assumes "mg_wf m" and "mg_clean m" and "\<forall>r \<in> set (rests m). in_order r" and "i < length (mg_items m)"
  shows "\<exists>p m'. refill_at ops i m = (Inr p, m') \<and> refilled m m' \<and> tot_w m' \<le> tot_w m \<and>
    (p \<longrightarrow> tot_w m' < tot_w m) \<and> (\<not> p \<longrightarrow> filled i m')"
proof (cases "mg_items m ! i = None \<and> mg_inps m ! i \<noteq> None")
  case True
  then obtain xs where xs: "mg_items m ! i = None" "mg_inps m ! i = Some xs" by auto
  have "mg_inps m ! i \<in> set (mg_inps m)" using assms(1,4) by (intro nth_mem) (simp add: mg_wf_def)
  then have cl: "clean xs" using assms(2) xs by (simp add: mg_clean_def)
  have "rests m ! i \<in> set (rests m)" using assms(1,4) by (intro nth_mem) (simp add: rests_length)
  then have "in_order (rests m ! i)" using assms(3) by blast
  then have "in_order (inp_evs (Some xs))" using assms(1,4) xs by (simp add: rests_nth)
  then obtain p m' where "refill_inp ops i xs m = (Inr p, m')" "polled i xs p m m'"
    using refill_inp_ok [OF cl _ assms(4) xs(1)] by blast
  with polled_refilled [OF assms(1,2,4) xs] show ?thesis
    by (fastforce simp: refill_at_def xs)
next
  case False
  then have "refill_at ops i m = (Inr False, m)" "filled i m"
    by (auto simp: refill_at_def filled_def split: option.split)
  then show ?thesis using refilled_refl [OF assms(1,2)] by auto
qed

lemma refill_from_ok:
  assumes "mg_wf m" and "mg_clean m" and "\<forall>r \<in> set (rests m). in_order r" and "\<forall>i \<in> set is. i < length (mg_items m)"
  shows "\<exists>p m'. refill_from ops is hp m = (Inr p, m') \<and> refilled m m' \<and> tot_w m' \<le> tot_w m \<and>
    (p \<and> \<not> hp \<longrightarrow> tot_w m' < tot_w m) \<and> (\<not> p \<longrightarrow> (\<forall>i \<in> set is. filled i m') \<and> \<not> hp)"
  using assms
proof (induction "is" arbitrary: m hp)
  case Nil
  then show ?case using refilled_refl [of m] by auto
next
  case (Cons i "is")
  obtain p1 m1 where 1: "refill_at ops i m = (Inr p1, m1)" "refilled m m1" "tot_w m1 \<le> tot_w m"
    "p1 \<longrightarrow> tot_w m1 < tot_w m" "\<not> p1 \<longrightarrow> filled i m1"
    using refill_at_ok [OF Cons.prems(1-3), of i] Cons.prems(4) by auto
  have m1: "mg_wf m1" "mg_clean m1" "rests m1 = rests m" "length (mg_items m1) = length (mg_items m)"
    using 1(2) by (simp_all add: refilled_def)
  obtain p m' where 2: "refill_from ops is (hp \<or> p1) m1 = (Inr p, m')" "refilled m1 m'" "tot_w m' \<le> tot_w m1"
    "p \<and> \<not> (hp \<or> p1) \<longrightarrow> tot_w m' < tot_w m1" "\<not> p \<longrightarrow> (\<forall>i \<in> set is. filled i m') \<and> \<not> (hp \<or> p1)"
    using Cons.IH [OF m1(1,2), of "hp \<or> p1"] Cons.prems(3,4) m1(3,4) by auto
  have "filled i m'" if "filled i m1" using 2(2) that Cons.prems(4) m1(4) by (simp add: refilled_def)
  then show ?case
    using 1 2 refilled_trans [OF 1(2) 2(2)] by (intro exI [of _ p] exI [of _ m']) auto
qed

lemma refill_ok:
  assumes "mg_wf m" and "mg_clean m" and "\<forall>r \<in> set (rests m). in_order r"
  shows "\<exists>r m'. refill ops m = (Inr r, m') \<and> refilled m m' \<and> tot_w m' \<le> tot_w m \<and>
    (r = Pending \<longrightarrow> tot_w m' < tot_w m) \<and> (r \<noteq> Pending \<longrightarrow> r = Ready () \<and> full m')"
proof -
  obtain p m' where r: "refill_from ops [0..<length (mg_inps m)] False m = (Inr p, m')" "refilled m m'"
    "tot_w m' \<le> tot_w m" "p \<longrightarrow> tot_w m' < tot_w m" "\<not> p \<longrightarrow> (\<forall>i \<in> set [0..<length (mg_inps m)]. filled i m')"
    using refill_from_ok [OF assms, of "[0..<length (mg_inps m)]" False] assms(1) by (auto simp: mg_wf_def)
  have len: "length (mg_items m') = length (mg_inps m)" using r(2) assms(1) by (simp add: refilled_def mg_wf_def)
  have "full m'" if "\<not> p"
    unfolding full_def
  proof (intro allI impI)
    fix k assume "k < length (mg_items m')" and none: "mg_items m' ! k = None"
    then have "filled k m'" using r(5) that len by simp
    then show "mg_inps m' ! k = None" using none by (simp add: filled_def)
  qed
  with r show ?thesis by (auto simp: refill_def)
qed

section \<open>Emitting\<close>

definition emitted :: "'v event list \<Rightarrow> ('e, 't) Sitemty list \<Rightarrow> ('e, 't) Merger \<Rightarrow> ('e, 't) Merger \<Rightarrow> bool" where
  "emitted out d m m' \<longleftrightarrow> (d = [] \<or> (\<exists>k. d = [sitem_data k] \<and> inv k)) \<and>
     m' = m\<lparr>mg_items := mg_items m', mg_out := mg_out m', mg_do_clear_out := mg_do_clear_out m',
       mg_dim0ix_max := mg_dim0ix_max m', mg_outbuf := mg_outbuf m @ d\<rparr> \<and>
     core_ok (out @ data_evs d) m' \<and>
     merge_step\<^sup>*\<^sup>* (out @ item_evs (mg_out m), rests m) (out @ data_evs d @ item_evs (mg_out m'), rests m')"

lemma poll3_emit_None: "mg_out m = None \<Longrightarrow>
    poll3_emit ops le m = (if le then (Break (Ready None), m) else (Continue (), m))"
  by (simp add: poll3_emit_def)

text \<open>With an output, \<open>poll3_emit\<close> either keeps it or moves it to the queue of finished items.\<close>

lemma poll3_emit_Some:
  assumes "core_ok out m" and "mg_out m = Some k"
  shows "\<exists>d m'. poll3_emit ops le m = (Continue (), m') \<and> emitted out d m m' \<and> tot_w m' \<le> tot_w m \<and>
    (mg_do_clear_out m \<or> le \<longrightarrow> tot_w m' < tot_w m)"
proof -
  have wf: "mg_wf m" using assms(1) by (simp add: core_ok_def)
  have k: "inv k" "evs k \<noteq> []" using wf assms(2) by (simp_all add: mg_wf_def)
  let ?long = "m_len ops k \<ge> mg_out_max_len m"
  define k1 where "k1 = (if ?long then k else snd (m_byte_estimate ops k))"
  define heavy where "heavy = (if ?long then False else fst (m_byte_estimate ops k) \<ge> OUT_MAX_BYTES)"
  define k2 where "k2 = snd (m_byte_estimate ops k1)"
  have k1: "inv k1" "evs k1 = evs k" using byte_estimate [OF k(1)] k(1) by (simp_all add: k1_def)
  have k2: "inv k2" "evs k2 = evs k" using byte_estimate [OF k1(1)] k1(2) by (simp_all add: k2_def)
  define c where "c = (?long \<or> heavy \<or> mg_do_clear_out m \<or> le)"
  define d where "d = (if c then [sitem_data k2 :: ('a, 't) Sitemty] else [])"
  define m' where "m' = m\<lparr>mg_out := (if c then None else Some k1), mg_do_clear_out := (if c then False else mg_do_clear_out m),
    mg_outbuf := mg_outbuf m @ d\<rparr>"
  have "poll3_emit ops le m = (Continue (), m')"
    by (simp add: poll3_emit_def assms(2) Let_def split_beta take_outbuf_filtered_def m'_def c_def d_def
        k1_def k2_def heavy_def)
  moreover have "emitted out d m m'"
  proof -
    have ev: "data_evs d @ item_evs (mg_out m') = item_evs (mg_out m)"
      using k1(2) k2(2) assms(2) by (simp add: d_def m'_def)
    have r: "rests m' = rests m" by (simp add: rests_def m'_def)
    have "mg_wf m'" using wf k1 k(2) by (simp add: mg_wf_def m'_def)
    then have "core_ok (out @ data_evs d) m'"
      using assms(1) ev r by (simp add: core_ok_def dim0_ok_def) (simp add: m'_def)
    moreover have "d = [] \<or> (\<exists>k. d = [sitem_data k] \<and> inv k)" using k2(1) by (auto simp: d_def)
    ultimately show ?thesis unfolding emitted_def using ev r by (simp add: m'_def)
  qed
  moreover have "tot_w m' \<le> tot_w m" "mg_do_clear_out m \<or> le \<longrightarrow> tot_w m' < tot_w m"
    using assms(2) by (simp_all add: tot_w_def core_w_def m'_def d_def c_def)
  ultimately show ?thesis by blast
qed

lemma only_coreD:
  assumes "only_core m m'"
  shows "mg_inps m' = mg_inps m" "mg_outbuf m' = mg_outbuf m" "mg_log_queue m' = mg_log_queue m"
    "mg_done_inp m' = mg_done_inp m" "mg_done_range_complete m' = mg_done_range_complete m"
    "mg_range_complete m' = mg_range_complete m" "mg_complete m' = mg_complete m"
    "mg_out_max_len m' = mg_out_max_len m"
proof -
  have eq: "m' = m\<lparr>mg_items := mg_items m', mg_out := mg_out m', mg_do_clear_out := mg_do_clear_out m',
     mg_dim0ix_max := mg_dim0ix_max m'\<rparr>" using assms by (simp add: only_core_def)
  show "mg_inps m' = mg_inps m" "mg_outbuf m' = mg_outbuf m" "mg_log_queue m' = mg_log_queue m"
    "mg_done_inp m' = mg_done_inp m" "mg_done_range_complete m' = mg_done_range_complete m"
    "mg_range_complete m' = mg_range_complete m" "mg_complete m' = mg_complete m"
    "mg_out_max_len m' = mg_out_max_len m"
    by (subst eq, simp)+
qed

lemma only_core_tot_w: "only_core m m' \<Longrightarrow> tot_w m' + core_w m = tot_w m + core_w m'"
  by (simp add: tot_w_def only_coreD)

lemma only_core_emitted:
  assumes "only_core m m1" and "emitted out d m1 m'"
    and "merge_step\<^sup>*\<^sup>* (out @ item_evs (mg_out m), rests m) (out @ item_evs (mg_out m1), rests m1)"
  shows "emitted out d m m'"
proof -
  have eq: "m1 = m\<lparr>mg_items := mg_items m1, mg_out := mg_out m1, mg_do_clear_out := mg_do_clear_out m1,
     mg_dim0ix_max := mg_dim0ix_max m1\<rparr>" using assms(1) by (simp add: only_core_def)
  have "m' = m1\<lparr>mg_items := mg_items m', mg_out := mg_out m', mg_do_clear_out := mg_do_clear_out m',
       mg_dim0ix_max := mg_dim0ix_max m', mg_outbuf := mg_outbuf m1 @ d\<rparr>"
    using assms(2) by (simp add: emitted_def)
  also have "\<dots> = m\<lparr>mg_items := mg_items m', mg_out := mg_out m', mg_do_clear_out := mg_do_clear_out m',
       mg_dim0ix_max := mg_dim0ix_max m', mg_outbuf := mg_outbuf m @ d\<rparr>"
    by (subst (1 2) eq) simp
  finally show ?thesis
    using assms(2,3) unfolding emitted_def by (blast intro: rtranclp_trans)
qed

lemma nitems_zero: "length (filter (\<lambda>a. a \<noteq> None) xs) = 0 \<longleftrightarrow> (\<forall>x. Some x \<notin> set xs)"
  by (induction xs) auto

lemma full_no_missing:
  assumes "mg_wf m" and "full m"
  shows "length (filter (\<lambda>(a, b). a \<noteq> None \<and> b = None) (zip (mg_inps m) (mg_items m))) = 0"
  using assms by (auto simp: filter_empty_conv in_set_zip full_def mg_wf_def)

lemma full_nothing_left:
  assumes "mg_wf m" and "full m" and "\<forall>x. Some x \<notin> set (mg_items m)"
  shows "concat (rests m) = []"
proof -
  have "rests m ! k = []" if "k < length (mg_items m)" for k
  proof (rule full_rests_None [OF assms(1,2) that])
    show "mg_items m ! k = None" using assms(3) nth_mem [OF that] by (cases "mg_items m ! k") auto
  qed
  then show ?thesis using assms(1) by (auto simp: in_set_conv_nth rests_length)
qed

lemma poll3_ok:
  assumes "core_ok out m" and "full m"
  shows "\<exists>f m'. poll3 ops m = Some (f, m') \<and>
    (f = Continue () \<and> (\<exists>d. emitted out d m m') \<and> tot_w m' < tot_w m \<or>
     f = Break (Ready None) \<and> m' = m \<and> mg_out m = None \<and> concat (rests m) = [])"
proof -
  have wf: "mg_wf m" using assms(1) by (simp add: core_ok_def)
  note miss = full_no_missing [OF wf assms(2)]
  show ?thesis
  proof (cases "\<forall>x. Some x \<notin> set (mg_items m)")
    case True
    then have eq: "poll3 ops m = Some (poll3_emit ops True m)"
      using miss nitems_zero [of "mg_items m"] by (simp add: poll3_def)
    show ?thesis
    proof (cases "mg_out m")
      case None
      then show ?thesis using eq full_nothing_left [OF wf assms(2) True] by (simp add: poll3_emit_None)
    next
      case (Some k)
      then show ?thesis using eq poll3_emit_Some [OF assms(1) Some, of True] by auto
    qed
  next
    case False
    then obtain y where y: "Some y \<in> set (mg_items m)" by blast
    obtain m1 where m1: "process ops m = Some (Inr (), m1)" "processed out m m1"
      using process_ok [OF assms y] by blast
    have nz: "(length (filter (\<lambda>a. a \<noteq> None) (mg_items m)) = 0) = False"
      unfolding nitems_zero using False by (rule eq_False [THEN iffD2])
    have eq: "poll3 ops m = Some (poll3_emit ops False m1)"
      unfolding poll3_def Let_def miss nz m1(1) by simp
    have p: "core_ok out m1" "only_core m m1"
      "merge_step\<^sup>*\<^sup>* (out @ item_evs (mg_out m), rests m) (out @ item_evs (mg_out m1), rests m1)"
      "core_w m1 < core_w m \<or> mg_do_clear_out m1 \<and> mg_out m1 \<noteq> None \<and> core_w m1 \<le> core_w m"
      using m1(2) by (simp_all add: processed_def)
    note w = only_core_tot_w [OF p(2)]
    show ?thesis
    proof (cases "mg_out m1")
      case None
      have "emitted out [] m1 m1" using p(1) by (simp add: emitted_def)
      from only_core_emitted [OF p(2) this p(3)] show ?thesis
        using eq None p(4) w by (auto simp: poll3_emit_None)
    next
      case (Some k)
      obtain d m' where d: "poll3_emit ops False m1 = (Continue (), m')" "emitted out d m1 m'"
        "tot_w m' \<le> tot_w m1" "mg_do_clear_out m1 \<longrightarrow> tot_w m' < tot_w m1"
        using poll3_emit_Some [OF p(1) Some, of False] by blast
      have "tot_w m' < tot_w m" using d(3,4) p(4) w by linarith
      with only_core_emitted [OF p(2) d(2) p(3)] show ?thesis using eq d(1) by auto
    qed
  qed
qed

section \<open>One round of the poll loop\<close>

definition abs_state :: "'v event list \<Rightarrow> ('e, 't) Merger \<Rightarrow> 'v merge_state" where
  "abs_state em m = (em @ data_evs (mg_outbuf m) @ item_evs (mg_out m), rests m)"

text \<open>The invariant of polling, where \<open>em\<close> are the events that have been yielded.\<close>

definition run_ok :: "'v event list \<Rightarrow> ('e, 't) Merger \<Rightarrow> bool" where
  "run_ok em m \<longleftrightarrow> core_ok (em @ data_evs (mg_outbuf m)) m \<and> mg_clean m \<and> \<not> mg_complete m \<and>
     (\<forall>e. Inl e \<notin> set (mg_outbuf m)) \<and> (\<forall>k \<in> set (item_data (mg_outbuf m)). inv k) \<and>
     (mg_done_inp m \<longrightarrow> mg_out m = None \<and> concat (rests m) = []) \<and>
     (mg_done_range_complete m \<longrightarrow> mg_done_inp m \<and> data_evs (mg_outbuf m) = []) \<and>
     (\<not> mg_done_range_complete m \<longrightarrow> Inr (DataItem RangeComplete) \<notin> set (mg_outbuf m))"

text \<open>What a merger may yield: data or a note, never an error, never the end of the range.\<close>

definition good_item :: "('e, 't) Sitemty \<Rightarrow> bool" where
  "good_item x \<longleftrightarrow> is_note x \<or> (\<exists>k. x = sitem_data k \<and> inv k)"

definition round_post :: "'v event list \<Rightarrow> ('e, 't) Merger \<Rightarrow> ('e, 't) Sitemty list \<Rightarrow> ('e, 't) Merger \<Rightarrow> bool" where
  "round_post em m xs m' \<longleftrightarrow> run_ok (em @ data_evs xs) m' \<and> (\<forall>x \<in> set xs. good_item x) \<and> tot_w m' < tot_w m \<and>
     merge_step\<^sup>*\<^sup>* (abs_state em m) (abs_state (em @ data_evs xs) m')"

lemma refilledD:
  assumes "refilled m m'"
  shows "\<exists>lg. mg_outbuf m' = mg_outbuf m @ lg \<and> (\<forall>x \<in> set lg. is_note x)"
    "mg_out m' = mg_out m" "mg_dim0ix_max m' = mg_dim0ix_max m" "mg_log_queue m' = mg_log_queue m"
    "mg_done_inp m' = mg_done_inp m" "mg_done_range_complete m' = mg_done_range_complete m"
    "mg_complete m' = mg_complete m" "rests m' = rests m" "mg_wf m'" "mg_clean m'"
proof -
  obtain lg where eq: "m' = m\<lparr>mg_inps := mg_inps m', mg_items := mg_items m',
       mg_range_complete := mg_range_complete m', mg_outbuf := mg_outbuf m @ lg\<rparr>" "\<forall>x \<in> set lg. is_note x"
    using assms unfolding refilled_def by blast
  have "mg_outbuf m' = mg_outbuf m @ lg" by (subst eq(1)) simp
  with eq(2) show "\<exists>lg. mg_outbuf m' = mg_outbuf m @ lg \<and> (\<forall>x \<in> set lg. is_note x)" by blast
  show "mg_out m' = mg_out m" "mg_dim0ix_max m' = mg_dim0ix_max m" "mg_log_queue m' = mg_log_queue m"
    "mg_done_inp m' = mg_done_inp m" "mg_done_range_complete m' = mg_done_range_complete m"
    "mg_complete m' = mg_complete m" by (subst eq(1), simp)+
  show "rests m' = rests m" "mg_wf m'" "mg_clean m'" using assms by (simp_all add: refilled_def)
qed

lemma notes_harmless:
  assumes "\<forall>x \<in> set lg. is_note x"
  shows "Inl e \<notin> set lg" "Inr (DataItem RangeComplete) \<notin> set lg"
  using assms by (auto simp: is_note_def)

lemma refilled_run_ok:
  assumes "run_ok em m" and "refilled m m'"
  shows "run_ok em m'" "abs_state em m' = abs_state em m"
proof -
  note R = refilledD [OF assms(2)]
  obtain lg where lg: "mg_outbuf m' = mg_outbuf m @ lg" "\<forall>x \<in> set lg. is_note x" using R(1) by blast
  have d: "data_evs (mg_outbuf m') = data_evs (mg_outbuf m)" "item_data (mg_outbuf m') = item_data (mg_outbuf m)"
    using lg by (simp_all add: data_evs_notes item_data_notes)
  show "abs_state em m' = abs_state em m" by (simp add: abs_state_def d R)
  have n: "Inl e \<in> set (mg_outbuf m') \<longleftrightarrow> Inl e \<in> set (mg_outbuf m)"
    "Inr (DataItem RangeComplete) \<in> set (mg_outbuf m') \<longleftrightarrow> Inr (DataItem RangeComplete) \<in> set (mg_outbuf m)" for e
    using notes_harmless [OF lg(2)] by (auto simp: lg(1))
  show "run_ok em m'"
    using assms(1) by (simp add: run_ok_def core_ok_def dim0_ok_def d n R)
qed

lemma emitted_round:
  assumes "run_ok em m" and "\<not> mg_done_inp m" and "emitted (em @ data_evs (mg_outbuf m)) d m m'" and "tot_w m' < tot_w m"
  shows "round_post em m [] m'"
proof -
  have eq: "m' = m\<lparr>mg_items := mg_items m', mg_out := mg_out m', mg_do_clear_out := mg_do_clear_out m',
       mg_dim0ix_max := mg_dim0ix_max m', mg_outbuf := mg_outbuf m @ d\<rparr>"
    using assms(3) by (simp add: emitted_def)
  have f: "mg_outbuf m' = mg_outbuf m @ d" "mg_inps m' = mg_inps m" "mg_complete m' = mg_complete m"
    "mg_done_inp m' = mg_done_inp m" "mg_done_range_complete m' = mg_done_range_complete m"
    by (subst eq, simp)+
  have d: "d = [] \<or> (\<exists>k. d = [sitem_data k] \<and> inv k)" using assms(3) by (simp add: emitted_def)
  then have "Inl e \<notin> set d" "Inr (DataItem RangeComplete) \<notin> set d" "\<forall>k \<in> set (item_data d). inv k" for e
    by (auto simp: sitem_data_def)
  then have "run_ok em m'"
    using assms f by (auto simp: run_ok_def emitted_def mg_clean_def)
  moreover have "merge_step\<^sup>*\<^sup>* (abs_state em m) (abs_state em m')"
    using assms(3) by (simp add: emitted_def abs_state_def f)
  ultimately show ?thesis using assms(4) by (simp add: round_post_def)
qed

lemma round_polling:
  assumes "run_ok em m" and "\<not> mg_done_range_complete m" and "mg_log_queue m = []" and "mg_outbuf m = []"
    and "\<not> mg_done_inp m"
  shows "\<exists>f m'. poll_round ops cv m = Some (f, m') \<and> (f = Continue () \<or> f = Break Pending) \<and> round_post em m [] m'"
proof -
  have ok: "mg_wf m" "mg_clean m" "\<forall>r \<in> set (rests m). in_order r"
    using assms(1) by (auto simp: run_ok_def core_ok_def merge_inv_def)
  have nc: "\<not> mg_complete m" using assms(1) by (simp add: run_ok_def)
  obtain r m1 where r: "refill ops m = (Inr r, m1)" "refilled m m1" "tot_w m1 \<le> tot_w m"
    "r = Pending \<longrightarrow> tot_w m1 < tot_w m" "r \<noteq> Pending \<longrightarrow> r = Ready () \<and> full m1"
    using refill_ok [OF ok] by blast
  have m1: "run_ok em m1" "abs_state em m1 = abs_state em m" "\<not> mg_done_inp m1"
    using refilled_run_ok [OF assms(1) r(2)] refilledD(5) [OF r(2)] assms(5) by simp_all
  show ?thesis
  proof (cases r)
    case Pending
    have "round_post em m [] m1" using m1 r(4) Pending by (simp add: round_post_def)
    then show ?thesis using assms nc r(1) Pending by (auto simp: poll_round_def poll2_def)
  next
    case (Ready u)
    then have full: "full m1" "r = Ready ()" using r(5) by auto
    have core: "core_ok (em @ data_evs (mg_outbuf m1)) m1" using m1(1) by (simp add: run_ok_def)
    obtain f m2 where p3: "poll3 ops m1 = Some (f, m2)" and f:
      "f = Continue () \<and> (\<exists>d. emitted (em @ data_evs (mg_outbuf m1)) d m1 m2) \<and> tot_w m2 < tot_w m1 \<or>
       f = Break (Ready None) \<and> m2 = m1 \<and> mg_out m1 = None \<and> concat (rests m1) = []"
      using poll3_ok [OF core full(1)] by blast
    consider (emit) d where "f = Continue ()" "emitted (em @ data_evs (mg_outbuf m1)) d m1 m2" "tot_w m2 < tot_w m1"
      | (final) "f = Break (Ready None)" "m2 = m1" "mg_out m1 = None" "concat (rests m1) = []"
      using f by (elim disjE conjE exE) auto
    then show ?thesis
    proof cases
      case emit
      have "round_post em m1 [] m2" by (rule emitted_round [OF m1(1,3) emit(2,3)])
      then have "round_post em m [] m2" using m1(2) r(3) by (simp add: round_post_def)
      then show ?thesis
        using assms nc r(1) full(2) p3 emit(1) by (auto simp: poll_round_def poll2_def)
    next
      case final
      let ?m = "m1\<lparr>mg_done_inp := True\<rparr>"
      have keep: "m1\<lparr>mg_done_inp := True, mg_out := None\<rparr> = ?m" using final(3) by simp
      have "run_ok em ?m" "abs_state em ?m = abs_state em m1"
        using m1(1) final(3,4)
        by (simp_all add: run_ok_def core_ok_def dim0_ok_def mg_wf_def rests_def mg_clean_def abs_state_def)
      moreover have "tot_w ?m < tot_w m1" using m1(3) by (simp add: tot_w_def core_w_def)
      ultimately have "round_post em m [] ?m" using m1(2) r(3) by (simp add: round_post_def)
      then have "round_post em m [] (m1\<lparr>mg_done_inp := True, mg_out := None\<rparr>)" unfolding keep .
      then show ?thesis
        using assms nc r(1) full(2) p3 final
        by (auto simp: poll_round_def poll2_def take_outbuf_filtered_def)
    qed
  qed
qed

lemma round_ok:
  assumes "run_ok em m"
  shows "(mg_done_range_complete m \<and> poll_round ops cv m = Some (Break (Ready None), m\<lparr>mg_complete := True\<rparr>)) \<or>
    (\<exists>f m'. poll_round ops cv m = Some (f, m') \<and>
      ((f = Continue () \<or> f = Break Pending) \<and> round_post em m [] m' \<or>
       (\<exists>x. f = Break (Ready (Some x)) \<and> round_post em m [x] m')))"
proof (cases "mg_done_range_complete m")
  case True
  then show ?thesis using assms by (simp add: poll_round_def run_ok_def)
next
  case False
  note drc = False
  have nc: "\<not> mg_complete m" using assms by (simp add: run_ok_def)
  show ?thesis
  proof (cases "mg_log_queue m")
    case (Cons l q)
    let ?m = "m\<lparr>mg_log_queue := q\<rparr>" and ?x = "Inr (Log l) :: ('a, 't) Sitemty"
    have d: "data_evs [?x] = []" by (rule data_evs_notes) (simp add: is_note_def)
    have "run_ok em ?m" "abs_state em ?m = abs_state em m"
      using assms by (simp_all add: run_ok_def core_ok_def dim0_ok_def mg_wf_def rests_def mg_clean_def abs_state_def)
    moreover have "tot_w ?m < tot_w m" using Cons by (simp add: tot_w_def core_w_def)
    ultimately have "round_post em m [?x] ?m" by (simp add: round_post_def d good_item_def is_note_def)
    then show ?thesis using Cons drc nc by (simp add: poll_round_def)
  next
    case Nil
    note lq = Nil
    show ?thesis
    proof (cases "mg_outbuf m")
      case (Cons x q)
      let ?m = "m\<lparr>mg_outbuf := q\<rparr>"
      have ev: "data_evs (mg_outbuf m) = data_evs [x] @ data_evs q"
        unfolding Cons using data_evs_simps(2) [of "[x]" q] by simp
      have "item_data (mg_outbuf m) = item_data [x] @ item_data q"
        unfolding Cons using item_data_append [of "[x]" q] by simp
      then have "run_ok (em @ data_evs [x]) ?m"
        using assms Cons drc ev
        by (simp add: run_ok_def core_ok_def dim0_ok_def mg_wf_def rests_def mg_clean_def)
      moreover have "abs_state (em @ data_evs [x]) ?m = abs_state em m"
        using ev by (simp add: abs_state_def rests_def)
      moreover have "tot_w ?m < tot_w m" using Cons by (simp add: tot_w_def core_w_def)
      moreover have "good_item x"
        using assms Cons drc
        by (cases x rule: sitem_cases) (auto simp: good_item_def is_note_def run_ok_def sitem_data_def)
      ultimately have "round_post em m [x] ?m" by (simp add: round_post_def)
      then show ?thesis using Cons lq drc nc by (simp add: poll_round_def)
    next
      case Nil
      show ?thesis
      proof (cases "mg_done_inp m")
        case False
        then show ?thesis using round_polling [OF assms drc lq Nil False, of cv] by blast
      next
        case True
        define d :: "('a, 't) Sitemty list" where
          "d = (if \<forall>x \<in> set (mg_range_complete m). x then [Inr (DataItem RangeComplete)] else [])"
        let ?m = "m\<lparr>mg_done_range_complete := True, mg_outbuf := d\<rparr>"
        have d: "data_evs d = []" "item_data d = []" "\<forall>e. Inl e \<notin> set d" by (simp_all add: d_def data_evs_def)
        have "mg_out m = None" using assms True by (simp add: run_ok_def)
        then have "run_ok em ?m" "abs_state em ?m = abs_state em m"
          using assms True Nil d
          by (simp_all add: run_ok_def core_ok_def dim0_ok_def mg_wf_def rests_def mg_clean_def abs_state_def)
        moreover have "tot_w ?m < tot_w m" using Nil drc by (simp add: tot_w_def core_w_def d_def)
        ultimately have "round_post em m [] ?m" by (simp add: round_post_def)
        moreover have "poll_round ops cv m = Some (Continue (), ?m)"
          using True Nil lq drc nc by (simp add: poll_round_def d_def Let_def)
        ultimately show ?thesis by blast
      qed
    qed
  qed
qed

section \<open>Polling to the end\<close>

lemma run_continue:
  assumes "poll_round ops cv m = Some (Continue (), m')"
  shows "merger_run ops cv m = merger_run ops cv m'"
proof -
  have "merger_poll_next ops cv m = merger_poll_next ops cv m'"
    by (subst merger_poll_next.simps) (simp add: assms)
  then show ?thesis by (subst (1 2) merger_run.simps) simp
qed

lemma run_break:
  assumes "poll_round ops cv m = Some (Break r, m')"
  shows "merger_run ops cv m = (case r of Pending \<Rightarrow> merger_run ops cv m'
    | Ready (Some x) \<Rightarrow> map_option ((#) x) (merger_run ops cv m') | Ready None \<Rightarrow> Some [])"
proof -
  have "merger_poll_next ops cv m = Some (r, m')" by (subst merger_poll_next.simps) (simp add: assms)
  then show ?thesis
    by (subst merger_run.simps) (simp add: map_conv_bind_option comp_def split: poll.split option.split)
qed

lemma run_total:
  assumes "run_ok em m"
  shows "\<exists>xs rs'. merger_run ops cv m = Some xs \<and> (\<forall>x \<in> set xs. good_item x) \<and>
    merge_step\<^sup>*\<^sup>* (abs_state em m) (em @ data_evs xs, rs') \<and> concat rs' = []"
  using assms
proof (induction "tot_w m" arbitrary: em m rule: less_induct)
  case less
  have quiet: ?case if eq: "merger_run ops cv m = merger_run ops cv m'" and post: "round_post em m [] m'" for m'
  proof -
    have p: "run_ok em m'" "tot_w m' < tot_w m" "merge_step\<^sup>*\<^sup>* (abs_state em m) (abs_state em m')"
      using post by (simp_all add: round_post_def)
    obtain xs rs' where xs: "merger_run ops cv m' = Some xs" "\<forall>x \<in> set xs. good_item x"
      "merge_step\<^sup>*\<^sup>* (abs_state em m') (em @ data_evs xs, rs')" "concat rs' = []"
      using less.hyps [OF p(2,1)] by blast
    show ?thesis
      by (intro exI [of _ xs] exI [of _ rs'] conjI rtranclp_trans [OF p(3) xs(3)] xs(2,4)) (simp add: eq xs(1))
  qed
  from round_ok [OF less.prems, of cv] show ?case
  proof (elim disjE conjE exE)
    assume drc: "mg_done_range_complete m" and eq: "poll_round ops cv m = Some (Break (Ready None), m\<lparr>mg_complete := True\<rparr>)"
    have "abs_state em m = (em, rests m)" "concat (rests m) = []"
      using less.prems drc by (simp_all add: run_ok_def abs_state_def)
    then show ?thesis using run_break [OF eq] by (intro exI [of _ "[]"] exI [of _ "rests m"]) simp
  next
    fix f m' assume eq: "poll_round ops cv m = Some (f, m')" and f: "f = Continue ()" and post: "round_post em m [] m'"
    show ?thesis by (rule quiet [OF run_continue [OF eq [unfolded f]] post])
  next
    fix f m' assume eq: "poll_round ops cv m = Some (f, m')" and f: "f = Break Pending" and post: "round_post em m [] m'"
    show ?thesis by (rule quiet [OF _ post]) (simp add: run_break [OF eq [unfolded f]])
  next
    fix f m' x assume eq: "poll_round ops cv m = Some (f, m')" and f: "f = Break (Ready (Some x))"
      and post: "round_post em m [x] m'"
    have p: "run_ok (em @ data_evs [x]) m'" "tot_w m' < tot_w m" "good_item x"
      "merge_step\<^sup>*\<^sup>* (abs_state em m) (abs_state (em @ data_evs [x]) m')"
      using post by (simp_all add: round_post_def)
    obtain xs rs' where xs: "merger_run ops cv m' = Some xs" "\<forall>x \<in> set xs. good_item x"
      "merge_step\<^sup>*\<^sup>* (abs_state (em @ data_evs [x]) m') ((em @ data_evs [x]) @ data_evs xs, rs')" "concat rs' = []"
      using less.hyps [OF p(2,1)] by blast
    have ev: "data_evs (x # xs) = data_evs [x] @ data_evs xs" using data_evs_simps(2) [of "[x]" xs] by simp
    have "merge_step\<^sup>*\<^sup>* (abs_state em m) (em @ data_evs (x # xs), rs')"
      unfolding ev using rtranclp_trans [OF p(4) xs(3)] by simp
    moreover have "merger_run ops cv m = Some (x # xs)" using run_break [OF eq [unfolded f]] xs(1) by simp
    ultimately show ?thesis
      using xs(2,4) p(3) by (intro exI [of _ "x # xs"] exI [of _ rs']) simp
  qed
qed

text \<open>The inputs of a fresh merger.\<close>

definition inputs_evs :: "('e, 't) stream list \<Rightarrow> 'v event list list" where
  "inputs_evs inps = map (\<lambda>xs. concat (map evs (stream_data xs))) inps"

lemma new_run_ok:
  assumes "\<forall>xs \<in> set inps. clean xs" and "\<forall>es \<in> set (inputs_evs inps). in_order es"
  shows "run_ok [] (Merger_new inps mx)" "abs_state [] (Merger_new inps mx) = ([], inputs_evs inps)"
proof -
  have r: "rests (Merger_new inps mx) = inputs_evs inps"
    by (rule nth_equalityI) (simp_all add: rests_def Merger_new_def Let_def inputs_evs_def)
  show "abs_state [] (Merger_new inps mx) = ([], inputs_evs inps)"
    using r by (simp add: abs_state_def) (simp add: Merger_new_def Let_def)
  have "merge_inv ([], inputs_evs inps)" using assms(2) by (simp add: merge_inv_def)
  then show "run_ok [] (Merger_new inps mx)"
    using assms(1) r
    by (simp add: run_ok_def core_ok_def) (auto simp: dim0_ok_def mg_wf_def mg_clean_def Merger_new_def Let_def)
qed

theorem run_refines:
  assumes "\<forall>xs \<in> set inps. clean xs" and "\<forall>es \<in> set (inputs_evs inps). in_order es"
  shows "\<exists>xs rs'. merger_run ops cv (Merger_new inps mx) = Some xs \<and> (\<forall>x \<in> set xs. good_item x) \<and>
    merge_step\<^sup>*\<^sup>* ([], inputs_evs inps) (data_evs xs, rs') \<and> concat rs' = []"
  using run_total [OF new_run_ok(1) [OF assms], of cv mx] new_run_ok(2) [OF assms] by simp

text \<open>Hence the timestamps are those of the inputs, in order, and every event is one of an input.\<close>

theorem run_merges:
  assumes "\<forall>xs \<in> set inps. clean xs" and "\<forall>es \<in> set (inputs_evs inps). in_order es"
  shows "\<exists>xs. merger_run ops cv (Merger_new inps mx) = Some xs \<and> (\<forall>x \<in> set xs. good_item x) \<and>
    in_order (data_evs xs) \<and> mset (data_evs xs) \<subseteq># mset (concat (inputs_evs inps)) \<and>
    fst ` set (data_evs xs) = fst ` set (concat (inputs_evs inps)) \<and>
    ((\<forall>es \<in> set (inputs_evs inps). strictly_ordered es) \<longrightarrow> strictly_ordered (data_evs xs))"
proof -
  obtain xs rs' where xs: "merger_run ops cv (Merger_new inps mx) = Some xs" "\<forall>x \<in> set xs. good_item x"
    "merge_step\<^sup>*\<^sup>* ([], inputs_evs inps) (data_evs xs, rs')" "concat rs' = []"
    using run_refines [OF assms] by blast
  note M = merge_steps [OF xs(3), simplified fst_conv snd_conv]
  have "merge_inv ([], inputs_evs inps)" using assms(2) by (simp add: merge_inv_def)
  then have ord: "in_order (data_evs xs)" using merge_invD(1) [of "data_evs xs" rs'] M by simp
  have strict: "(\<forall>es \<in> set (inputs_evs inps). strictly_ordered es) \<longrightarrow> strictly_ordered (data_evs xs)"
  proof
    assume "\<forall>es \<in> set (inputs_evs inps). strictly_ordered es"
    then have "merge_strict ([], inputs_evs inps)" by (simp add: merge_strict_def strictly_ordered_def)
    then show "strictly_ordered (data_evs xs)" using merge_strictD(1) [of "data_evs xs" rs'] M by simp
  qed
  have sub: "mset (data_evs xs) \<subseteq># mset (concat (inputs_evs inps))"
    and ts: "fst ` set (data_evs xs) = fst ` set (concat (inputs_evs inps))"
    using M unfolding xs(4) by (simp_all del: set_concat mset_concat)
  show ?thesis by (intro exI [of _ xs] conjI xs(1,2) ord sub ts strict)
qed

end

section \<open>Mergers of ContainerEvents\<close>

definition ce_evs :: "('e, 'v ContainerEvents) Sitemty list \<Rightarrow> 'v event list" where
  "ce_evs xs = concat (map ce_iter_zip (item_data xs))"

definition ce_stream_evs :: "('e, 'v ContainerEvents) stream \<Rightarrow> 'v event list" where
  "ce_stream_evs xs = ce_evs (stream_items xs)"

text \<open>A stream that yields well-formed containers in time order and no error.\<close>

definition ce_stream_ok :: "('e, 'v ContainerEvents) stream \<Rightarrow> bool" where
  "ce_stream_ok xs \<longleftrightarrow> (\<forall>x \<in> set (stream_items xs). \<not> isl x) \<and> (\<forall>k \<in> set (stream_data xs). ce_inv k) \<and>
     in_order (ce_stream_evs xs)"

lemma stream_items_Inl: "Ready (Inl e) \<in> set xs \<longleftrightarrow> Inl e \<in> set (stream_items xs)"
  by (induction xs rule: stream_items.induct) auto

lemma ce_stream_ok_clean: "ce_stream_ok xs \<Longrightarrow> ce.clean xs"
  by (auto simp: ce_stream_ok_def ce.clean_def stream_items_Inl)

lemma ce_inputs_evs: "ce.inputs_evs inps = map ce_stream_evs inps"
  by (simp add: ce.inputs_evs_def ce_stream_evs_def ce_evs_def stream_data_def)

lemma ce_data_evs: "ce.data_evs xs = ce_evs xs"
  by (simp add: ce.data_evs_def ce_evs_def)

lemmas ce_run_merges = ce.run_merges [unfolded ce_inputs_evs ce_data_evs]
lemmas ce_run_refines = ce.run_refines [unfolded ce_inputs_evs ce_data_evs]

lemma ce_inputs_ok:
  assumes "\<forall>s \<in> set inps. ce_stream_ok s"
  shows "\<forall>s \<in> set inps. ce.clean s" "\<forall>es \<in> set (map ce_stream_evs inps). in_order es"
proof -
  show "\<forall>s \<in> set inps. ce.clean s" by (intro ballI ce_stream_ok_clean) (use assms in blast)
  show "\<forall>es \<in> set (map ce_stream_evs inps). in_order es" using assms by (simp add: ce_stream_ok_def)
qed

lemma strict_ts_unique: "strictly_ordered es \<Longrightarrow> map fst es = sorted_list_of_set (fst ` set es)"
  by (metis strictly_ordered_def list.set_map sorted_list_of_set.idem_if_sorted_distinct strict_sorted_iff)

text \<open>
  C2. A merger over streams that yield containers in time order and no errors, polled to its end,
  always comes to an end, and what it yields is the output of a run of the specification that
  consumes all inputs.
\<close>

theorem merger_refines_spec:
  fixes inps :: "('e, 'v ContainerEvents) stream list"
  assumes "\<forall>s \<in> set inps. ce_stream_ok s"
  shows "\<exists>xs rs. merger_run (ContainerEvents_impl bv) cv (Merger_new inps out_max_len) = Some xs \<and>
    merge_step\<^sup>*\<^sup>* ([], map ce_stream_evs inps) (ce_evs xs, rs) \<and> concat rs = []"
proof -
  from ce_run_refines [OF ce_inputs_ok [OF assms], of bv cv out_max_len] show ?thesis by blast
qed

definition sample_a :: "(unit, nat ContainerEvents) stream" where
  "sample_a = [Pending, Ready (sitem_data (ce_from_constituents [1, 5] [10, 50])), Ready (Inr (DataItem RangeComplete))]"

definition sample_b :: "(unit, nat ContainerEvents) stream" where
  "sample_b = [Ready (sitem_data (ce_from_constituents [5, 7] [51, 70])), Ready (Inr (DataItem RangeComplete))]"

lemma sample_ok: "ce_stream_ok sample_a" "ce_stream_ok sample_b"
  "ce_stream_evs sample_a = [(1, 10), (5, 50)]" "ce_stream_evs sample_b = [(5, 51), (7, 70)]"
  by (simp_all add: ce_stream_ok_def ce_stream_evs_def ce_evs_def stream_data_def sample_a_def sample_b_def
      sitem_data_def ce_from_constituents_def ce_inv_def ce_iter_zip_def)

theorem merger_refines_spec_witness:
  "\<exists>xs rs. merger_run (ContainerEvents_impl (\<lambda>_. 8)) (\<lambda>_. ()) (Merger_new [sample_a, sample_b] (Some 10)) = Some xs \<and>
    merge_step\<^sup>*\<^sup>* ([], [[(1, 10), (5, 50)], [(5, 51), (7, 70)]]) (ce_evs xs, rs) \<and> concat rs = []"
  using merger_refines_spec [of "[sample_a, sample_b]" "\<lambda>_. 8" "\<lambda>_. ()" "Some 10"] by (simp add: sample_ok)

text \<open>
  C3. What a merger yields is in time order, has every timestamp of the inputs, and no event that is
  not in an input. From inputs whose timestamps strictly increase it yields every timestamp once.
\<close>

theorem merger_yields_union:
  fixes inps :: "('e, 'v ContainerEvents) stream list"
  assumes "\<forall>s \<in> set inps. ce_stream_ok s"
  shows "\<exists>xs. merger_run (ContainerEvents_impl bv) cv (Merger_new inps out_max_len) = Some xs \<and>
    in_order (ce_evs xs) \<and> mset (ce_evs xs) \<subseteq># mset (concat (map ce_stream_evs inps)) \<and>
    fst ` set (ce_evs xs) = fst ` set (concat (map ce_stream_evs inps)) \<and>
    ((\<forall>s \<in> set inps. strictly_ordered (ce_stream_evs s)) \<longrightarrow>
       map fst (ce_evs xs) = sorted_list_of_set (fst ` set (concat (map ce_stream_evs inps))))"
proof -
  obtain xs where xs: "merger_run (ContainerEvents_impl bv) cv (Merger_new inps out_max_len) = Some xs"
    "in_order (ce_evs xs)" "mset (ce_evs xs) \<subseteq># mset (concat (map ce_stream_evs inps))"
    "fst ` set (ce_evs xs) = fst ` set (concat (map ce_stream_evs inps))"
    "(\<forall>es \<in> set (map ce_stream_evs inps). strictly_ordered es) \<longrightarrow> strictly_ordered (ce_evs xs)"
    using ce_run_merges [OF ce_inputs_ok [OF assms], of bv cv out_max_len] by blast
  have "(\<forall>s \<in> set inps. strictly_ordered (ce_stream_evs s)) \<longrightarrow>
      map fst (ce_evs xs) = sorted_list_of_set (fst ` set (concat (map ce_stream_evs inps)))"
    unfolding xs(4) [symmetric] using xs(5) strict_ts_unique [of "ce_evs xs"] by simp
  with xs show ?thesis by blast
qed

theorem merger_yields_union_witness:
  "\<exists>xs. merger_run (ContainerEvents_impl (\<lambda>_. 8)) (\<lambda>_. ()) (Merger_new [sample_a, sample_b] (Some 10)) = Some xs \<and>
    map fst (ce_evs xs) = [1, 5, 7]"
proof -
  have "fst ` set (concat (map ce_stream_evs [sample_a, sample_b])) = set [1, 5, 7]" by (simp add: sample_ok)
  moreover have "strictly_ordered (ce_stream_evs sample_a)" "strictly_ordered (ce_stream_evs sample_b)"
    by (simp_all add: sample_ok strictly_ordered_def)
  moreover have "sorted_list_of_set (set [1, 5, 7 :: TsNano]) = [1, 5, 7]"
    by (rule sorted_list_of_set.idem_if_sorted_distinct) simp_all
  ultimately show ?thesis
    using merger_yields_union [of "[sample_a, sample_b]" "\<lambda>_. 8" "\<lambda>_. ()" "Some 10"] by (simp add: sample_ok(1,2)) metis
qed

text \<open>
  C33. A merger over such streams yields no error, and it never yields \<^verbatim>\<open>RangeComplete\<close>, although the code
  queues it when all inputs have completed their range: the end of the stream is checked first.
\<close>

theorem merger_never_range_complete:
  fixes inps :: "('e, 'v ContainerEvents) stream list"
  assumes "\<forall>s \<in> set inps. ce_stream_ok s"
  shows "\<exists>xs. merger_run (ContainerEvents_impl bv) cv (Merger_new inps out_max_len) = Some xs \<and>
    Inr (DataItem RangeComplete) \<notin> set xs \<and> (\<forall>e. Inl e \<notin> set xs) \<and> (\<forall>k \<in> set (item_data xs). ce_inv k)"
proof -
  obtain xs where xs: "merger_run (ContainerEvents_impl bv) cv (Merger_new inps out_max_len) = Some xs"
    "\<forall>x \<in> set xs. ce.good_item x"
    using ce_run_refines [OF ce_inputs_ok [OF assms], of bv cv out_max_len] by blast
  have "\<forall>k \<in> set (item_data xs). ce_inv k"
    using xs(2)
    by (induction xs rule: item_data.induct) (auto simp: ce.good_item_def is_note_def sitem_data_def)
  moreover have "Inr (DataItem RangeComplete) \<notin> set xs" "\<forall>e. Inl e \<notin> set xs"
    using xs(2) by (auto simp: ce.good_item_def is_note_def sitem_data_def)
  ultimately show ?thesis using xs(1) by blast
qed

theorem merger_never_range_complete_witness:
  "\<exists>xs. merger_run (ContainerEvents_impl (\<lambda>_. 8)) (\<lambda>_. ()) (Merger_new [sample_a, sample_b] None) = Some xs \<and>
    Ready (Inr (DataItem RangeComplete)) \<in> set sample_a \<inter> set sample_b \<and> Inr (DataItem RangeComplete) \<notin> set xs"
  using merger_never_range_complete [of "[sample_a, sample_b]" "\<lambda>_. 8" "\<lambda>_. ()" None]
  by (auto simp: sample_ok) (simp_all add: sample_a_def sample_b_def)

end
