(* ===== verification/Utf8.thy ===== *)
theory Utf8
  imports Prelude
begin

text \<open>
  Strings of the program as their UTF-8 bytes, and the three conversions of the standard library that
  the protocol code applies to received bytes: \<^verbatim>\<open>String::from_utf8_lossy\<close>, the validity check of
  \<^verbatim>\<open>CStr::to_str\<close> and \<^verbatim>\<open>CString::into_string\<close>, and the split at the first zero byte of
  \<^verbatim>\<open>CStr::from_bytes_until_nul\<close>. Ill-formed input is cut into maximal ill-formed pieces, each of
  which becomes one replacement character.
\<close>

type_synonym rstring = bytes

definition str :: "string \<Rightarrow> rstring" where
  "str s = map (\<lambda>c. of_nat (of_char c)) s"

definition continuation :: "bytes \<Rightarrow> nat \<Rightarrow> bool" where
  "continuation bs i \<longleftrightarrow> i < length bs \<and> 0x80 \<le> bs ! i \<and> bs ! i \<le> 0xbf"

definition byte_in :: "bytes \<Rightarrow> nat \<Rightarrow> u8 \<Rightarrow> u8 \<Rightarrow> bool" where
  "byte_in bs i a b \<longleftrightarrow> i < length bs \<and> a \<le> bs ! i \<and> bs ! i \<le> b"

text \<open>
  The first piece of a non-empty byte string: whether it is a well-formed character, and its length.
\<close>

definition utf8_piece :: "bytes \<Rightarrow> bool \<times> nat" where
  "utf8_piece bs =
     (let c = hd bs in
      if c < 0x80 then (True, 1)
      else if 0xc2 \<le> c \<and> c \<le> 0xdf then if continuation bs 1 then (True, 2) else (False, 1)
      else if 0xe0 \<le> c \<and> c \<le> 0xef then
        if (if c = 0xe0 then byte_in bs 1 0xa0 0xbf else if c = 0xed then byte_in bs 1 0x80 0x9f
            else continuation bs 1)
        then if continuation bs 2 then (True, 3) else (False, 2)
        else (False, 1)
      else if 0xf0 \<le> c \<and> c \<le> 0xf4 then
        if (if c = 0xf0 then byte_in bs 1 0x90 0xbf else if c = 0xf4 then byte_in bs 1 0x80 0x8f
            else continuation bs 1)
        then if continuation bs 2 then if continuation bs 3 then (True, 4) else (False, 3) else (False, 2)
        else (False, 1)
      else (False, 1))"

lemma utf8_piece_pos: "0 < snd (utf8_piece bs)"
  by (simp add: utf8_piece_def Let_def)

function from_utf8_lossy :: "bytes \<Rightarrow> rstring" where
  "from_utf8_lossy bs =
     (if bs = [] then []
      else let (ok, n) = utf8_piece bs in
        (if ok then take n bs else [0xef, 0xbf, 0xbd]) @ from_utf8_lossy (drop n bs))"
  by auto
termination
proof (relation "measure length", goal_cases)
  case (2 bs x ok n)
  then have "0 < n" using utf8_piece_pos [of bs] by (metis snd_conv)
  then show ?case using 2(1) by simp
qed simp

function utf8_valid :: "bytes \<Rightarrow> bool" where
  "utf8_valid bs =
     (if bs = [] then True
      else let (ok, n) = utf8_piece bs in if ok then utf8_valid (drop n bs) else False)"
  by auto
termination
proof (relation "measure length", goal_cases)
  case (2 bs x ok n)
  then have "0 < n" using utf8_piece_pos [of bs] by (metis snd_conv)
  then show ?case using 2(1) by simp
qed simp

declare from_utf8_lossy.simps [simp del] utf8_valid.simps [simp del]

definition until_nul :: "bytes \<Rightarrow> bytes option" where
  "until_nul bs = (if 0 \<in> set bs then Some (takeWhile (\<lambda>b. b \<noteq> 0) bs) else None)"

text \<open>Well-formed strings are decoded unchanged, and decoding always gives a well-formed string.\<close>

lemma lossy_valid: "utf8_valid bs \<Longrightarrow> from_utf8_lossy bs = bs"
proof (induction bs rule: length_induct)
  case (1 bs)
  show ?case
  proof (cases "bs = []")
    case True
    then show ?thesis by (simp add: from_utf8_lossy.simps)
  next
    case False
    obtain ok n where p: "utf8_piece bs = (ok, n)" by (cases "utf8_piece bs")
    have "ok \<and> utf8_valid (drop n bs)"
      using 1(2) False p by (subst (asm) utf8_valid.simps) (simp split: if_splits)
    then have v: "ok" "utf8_valid (drop n bs)" by simp_all
    have "0 < n" using utf8_piece_pos [of bs] p by simp
    then have "length (drop n bs) < length bs" using False by simp
    then have "from_utf8_lossy (drop n bs) = drop n bs" using 1(1) v(2) by blast
    then show ?thesis using False p v(1) by (subst from_utf8_lossy.simps) simp
  qed
qed

lemma lossy_ascii: "\<forall>b \<in> set bs. b < 0x80 \<Longrightarrow> from_utf8_lossy bs = bs"
proof (induction bs)
  case (Cons b bs)
  then show ?case by (subst from_utf8_lossy.simps) (simp add: utf8_piece_def Let_def)
qed (simp add: from_utf8_lossy.simps)

end
