(* ===== verification/CaMsg.thy ===== *)
theory CaMsg
  imports TimeTypes ScalarTypes Utf8
begin

text \<open>
  The messages of the channel access protocol, \<^verbatim>\<open>daqbuf-ca-proto/src/ca/proto.rs\<close>: their wire header,
  the encoding of the messages the client sends (\<^verbatim>\<open>place_into\<close>) and the decoding of received messages
  (\<^verbatim>\<open>from_proto_infos\<close>, \<^verbatim>\<open>extract_ca_data_value\<close>). Signed and floating point values are carried as
  their bit patterns, strings as UTF-8 bytes, instants as numbers. The text that \<^verbatim>\<open>Debug\<close>
  formatting produces for byte slices and errors is not specified by the language; it is the
  parameter \<open>dbg\<close> of the decoder.
\<close>

datatype ('b, 'io) CaError =
  SlideBufError 'b | BufferTooSmallForNeedMin nat nat | IO 'io | BadSlice | BadCaDbrTypeId u16
| BadCaScalarTypeId u16 | GetValHelpInnerTypeMismatch | GetValHelpTodoWaveform | NotEnoughPayload
| TodoConversionArray | CaProtoVersionMissing | NotEnoughPayloadTimeMetadata nat | MismatchDbrTimeType
| BadCaCount | CaCommandNotSupported u16 | ParseAttemptInDoneState | UnexpectedHeader
| ExtendedHeaderBadCount | NoReadBufferSpace | NeitherPendingNorProgress | OutputBufferTooSmall
| LogicError | BadPayload | CaImageUnsupported | Socket

definition CA_PROTO_VERSION :: u32 where "CA_PROTO_VERSION = 13"
definition EPICS_EPOCH_OFFSET :: u64 where "EPICS_EPOCH_OFFSET = 631152000"
definition PAYLOAD_LEN_MAX :: u32 where "PAYLOAD_LEN_MAX = 1024 * 1024 * 32"
definition PROTO_INPUT_BUF_CAP :: u32 where "PROTO_INPUT_BUF_CAP = 1024 * 1024 * 40"

section \<open>Values\<close>

datatype CaScalarType = CsI8 | CsI16 | CsI32 | CsF32 | CsF64 | CsEnum | CsString

datatype CaDbrMetaType = DbrPlain | DbrStatus | DbrTime | DbrCtrl

record CaDbrType =
  dbr_meta :: CaDbrMetaType
  dbr_scalar_type :: CaScalarType

definition CaDbrType_from_ca_u16 :: "u16 \<Rightarrow> (('b, 'io) CaError, CaDbrType) result" where
  "CaDbrType_from_ca_u16 k0 =
     (if k0 = 31 then Inr \<lparr>dbr_meta = DbrCtrl, dbr_scalar_type = CsEnum\<rparr>
      else if k0 > 20 then Inl (BadCaDbrTypeId k0)
      else let (meta, k) = (if k0 \<ge> 14 then (DbrTime, k0 - 14)
                            else if k0 \<ge> 7 then (DbrStatus, k0 - 7) else (DbrPlain, k0)) in
        if k = 4 then Inr \<lparr>dbr_meta = meta, dbr_scalar_type = CsI8\<rparr>
        else if k = 1 then Inr \<lparr>dbr_meta = meta, dbr_scalar_type = CsI16\<rparr>
        else if k = 5 then Inr \<lparr>dbr_meta = meta, dbr_scalar_type = CsI32\<rparr>
        else if k = 2 then Inr \<lparr>dbr_meta = meta, dbr_scalar_type = CsF32\<rparr>
        else if k = 6 then Inr \<lparr>dbr_meta = meta, dbr_scalar_type = CsF64\<rparr>
        else if k = 3 then Inr \<lparr>dbr_meta = meta, dbr_scalar_type = CsEnum\<rparr>
        else if k = 0 then Inr \<lparr>dbr_meta = meta, dbr_scalar_type = CsString\<rparr>
        else Inl (BadCaScalarTypeId k))"

datatype CaDataScalarValue =
  CvI8 u8 | CvI16 u16 | CvI32 u32 | CvF32 u32 | CvF64 u64 | CvEnum u16 | CvString rstring | CvBool bool

fun scalar_value_byte_size :: "CaDataScalarValue \<Rightarrow> u32" where
  "scalar_value_byte_size (CvI8 _) = 1"
| "scalar_value_byte_size (CvI16 _) = 2"
| "scalar_value_byte_size (CvI32 _) = 4"
| "scalar_value_byte_size (CvF32 _) = 4"
| "scalar_value_byte_size (CvF64 _) = 8"
| "scalar_value_byte_size (CvEnum _) = 2"
| "scalar_value_byte_size (CvString v) = of_nat (length v)"
| "scalar_value_byte_size (CvBool _) = 1"

datatype CaDataArrayValue =
  CaI8 "u8 list" | CaI16 "u16 list" | CaI32 "u32 list" | CaF32 "u32 list" | CaF64 "u64 list" | CaBool "bool list"

fun array_value_byte_size :: "CaDataArrayValue \<Rightarrow> u32" where
  "array_value_byte_size (CaI8 x) = 1 * of_nat (length x)"
| "array_value_byte_size (CaI16 x) = 2 * of_nat (length x)"
| "array_value_byte_size (CaI32 x) = 4 * of_nat (length x)"
| "array_value_byte_size (CaF32 x) = 4 * of_nat (length x)"
| "array_value_byte_size (CaF64 x) = 8 * of_nat (length x)"
| "array_value_byte_size (CaBool x) = 1 * of_nat (length x)"

datatype CaDataValue = CaScalar CaDataScalarValue | CaArray CaDataArrayValue

fun data_value_byte_size :: "CaDataValue \<Rightarrow> u32" where
  "data_value_byte_size (CaScalar x) = scalar_value_byte_size x"
| "data_value_byte_size (CaArray x) = array_value_byte_size x"

record CaMetaTime =
  mt_status :: u16
  mt_severity :: u16
  mt_ca_secs :: u32
  mt_ca_nanos :: u32

record CaMetaVariants =
  mv_status :: u16
  mv_severity :: u16
  mv_variants :: "rstring list"

datatype CaMetaValue = MetaTime CaMetaTime | MetaVariants CaMetaVariants

record CaEventValue =
  ev_data :: CaDataValue
  ev_meta :: CaMetaValue

text \<open>Nanoseconds since the unix epoch.\<close>

definition CaEventValue_ts :: "CaEventValue \<Rightarrow> u64 option" where
  "CaEventValue_ts v =
     (case ev_meta v of
        MetaTime x \<Rightarrow> Some (SEC * (ucast (mt_ca_secs x) + EPICS_EPOCH_OFFSET) + ucast (mt_ca_nanos x))
      | MetaVariants _ \<Rightarrow> None)"

section \<open>Messages\<close>

record Search =
  se_id :: u32
  se_channel :: rstring

record SearchRes =
  sr_addr :: u32
  sr_tcp_port :: u16
  sr_id :: u32
  sr_proto_version :: u16

record ErrorCmd =
  er_cid :: u32
  er_eid :: u32
  er_msg :: rstring

record CreateChan =
  cc_cid :: u32
  cc_channel :: rstring

record CreateChanRes =
  ccr_data_type :: u16
  ccr_data_count :: u32
  ccr_cid :: u32
  ccr_sid :: u32

record AccessRightsRes =
  ar_cid :: u32
  ar_rights :: u32

record EventAdd =
  ea_data_type :: u16
  ea_data_count :: u32
  ea_sid :: u32
  ea_subid :: u32

record EventCancel =
  ec_data_type :: u16
  ec_data_count :: u32
  ec_sid :: u32
  ec_subid :: u32

text \<open>\<^verbatim>\<open>EventCancelRes\<close> and \<^verbatim>\<open>EventAddResEmpty\<close> have the same fields.\<close>

record EventAddResEmpty =
  ee_data_type :: u16
  ee_sid :: u32
  ee_subid :: u32

record EventAddRes =
  eq_data_type :: u16
  eq_data_count :: u32
  eq_status :: u32
  eq_subid :: u32
  eq_payload_len :: u32
  eq_value :: CaEventValue

record ReadNotify =
  rn_data_type :: u16
  rn_data_count :: u32
  rn_sid :: u32
  rn_ioid :: u32

record ReadNotifyRes =
  rr_data_type :: u16
  rr_data_count :: u32
  rr_sid :: u32
  rr_ioid :: u32
  rr_payload_len :: u32
  rr_value :: CaEventValue

text \<open>\<^verbatim>\<open>ChannelClose\<close> and \<^verbatim>\<open>ChannelCloseRes\<close> have the same fields.\<close>

record ChannelClose =
  cl_sid :: u32
  cl_cid :: u32

datatype CaMsgTy =
  Version | VersionRes u16 | ErrorMsg ErrorCmd | ClientName | ClientNameRes rstring | HostName rstring
| SearchMsg Search | SearchResMsg SearchRes | CreateChanMsg CreateChan | CreateChanResMsg CreateChanRes
| CreateChanFail u32 | AccessRightsResMsg AccessRightsRes | EventAddMsg EventAdd | EventAddResMsg EventAddRes
| EventAddResEmptyMsg EventAddResEmpty | EventCancelMsg EventCancel | EventCancelRes EventAddResEmpty
| ReadNotifyMsg ReadNotify | ReadNotifyResMsg ReadNotifyRes | ChannelCloseMsg ChannelClose
| ChannelCloseRes ChannelClose | ChannelDisconnect u32 | Echo

fun cmdid :: "CaMsgTy \<Rightarrow> u16" where
  "cmdid Version = 0"
| "cmdid (VersionRes _) = 0"
| "cmdid (ErrorMsg _) = 0x0b"
| "cmdid ClientName = 0x14"
| "cmdid (ClientNameRes _) = 0x14"
| "cmdid (HostName _) = 0x15"
| "cmdid (SearchMsg _) = 0x06"
| "cmdid (SearchResMsg _) = 0x06"
| "cmdid (CreateChanMsg _) = 0x12"
| "cmdid (CreateChanResMsg _) = 0x12"
| "cmdid (CreateChanFail _) = 0x1a"
| "cmdid (AccessRightsResMsg _) = 0x16"
| "cmdid (EventAddMsg _) = 0x01"
| "cmdid (EventAddResMsg _) = 0x01"
| "cmdid (EventAddResEmptyMsg _) = 0x01"
| "cmdid (EventCancelMsg _) = 0x02"
| "cmdid (EventCancelRes _) = 0x01"
| "cmdid (ReadNotifyMsg _) = 0x0f"
| "cmdid (ReadNotifyResMsg _) = 0x0f"
| "cmdid (ChannelCloseMsg _) = 0x0c"
| "cmdid (ChannelCloseRes _) = 0x0c"
| "cmdid (ChannelDisconnect _) = 0x1b"
| "cmdid Echo = 0x17"

definition padded :: "nat \<Rightarrow> nat" where
  "padded n = (n + 1 + 7) div 8 * 8"

fun payload_len :: "CaMsgTy \<Rightarrow> nat panics" where
  "payload_len (ErrorMsg x) = Some (padded (16 + length (er_msg x)))"
| "payload_len ClientName = Some 0x10"
| "payload_len (ClientNameRes x) = Some (padded (length x))"
| "payload_len (HostName x) = Some (padded (length x))"
| "payload_len (SearchMsg x) = Some (padded (length (se_channel x)))"
| "payload_len (SearchResMsg _) = Some 8"
| "payload_len (CreateChanMsg x) = Some (padded (length (cc_channel x)))"
| "payload_len (EventAddMsg _) = Some 16"
| "payload_len (EventAddResMsg _) = None"
| "payload_len (ReadNotifyResMsg _) = None"
| "payload_len _ = Some 0"

fun data_type :: "CaMsgTy \<Rightarrow> u16" where
  "data_type (VersionRes n) = n"
| "data_type (SearchMsg _) = 1"
| "data_type (SearchResMsg x) = sr_tcp_port x"
| "data_type (CreateChanResMsg x) = ccr_data_type x"
| "data_type (EventAddMsg x) = ea_data_type x"
| "data_type (EventAddResMsg x) = eq_data_type x"
| "data_type (EventAddResEmptyMsg x) = ee_data_type x"
| "data_type (EventCancelMsg x) = ec_data_type x"
| "data_type (EventCancelRes x) = ee_data_type x"
| "data_type (ReadNotifyMsg x) = rn_data_type x"
| "data_type (ReadNotifyResMsg x) = rr_data_type x"
| "data_type _ = 0"

fun data_count :: "CaMsgTy \<Rightarrow> u32 panics" where
  "data_count Version = Some CA_PROTO_VERSION"
| "data_count (SearchMsg _) = Some CA_PROTO_VERSION"
| "data_count (CreateChanResMsg _) = None"
| "data_count (EventAddMsg x) = Some (ea_data_count x)"
| "data_count (EventAddResMsg _) = None"
| "data_count (EventCancelMsg x) = Some (ec_data_count x)"
| "data_count (ReadNotifyMsg x) = Some (rn_data_count x)"
| "data_count (ReadNotifyResMsg _) = None"
| "data_count _ = Some 0"

fun param1 :: "CaMsgTy \<Rightarrow> u32" where
  "param1 (SearchMsg e) = se_id e"
| "param1 (SearchResMsg x) = sr_addr x"
| "param1 (CreateChanMsg x) = cc_cid x"
| "param1 (CreateChanResMsg x) = ccr_cid x"
| "param1 (CreateChanFail cid) = cid"
| "param1 (AccessRightsResMsg x) = ar_cid x"
| "param1 (EventAddMsg x) = ea_sid x"
| "param1 (EventAddResMsg x) = eq_status x"
| "param1 (EventAddResEmptyMsg x) = ee_sid x"
| "param1 (EventCancelMsg x) = ec_sid x"
| "param1 (EventCancelRes x) = ee_sid x"
| "param1 (ReadNotifyMsg x) = rn_sid x"
| "param1 (ReadNotifyResMsg x) = rr_sid x"
| "param1 (ChannelCloseMsg x) = cl_sid x"
| "param1 (ChannelCloseRes x) = cl_sid x"
| "param1 (ChannelDisconnect cid) = cid"
| "param1 _ = 0"

fun param2 :: "CaMsgTy \<Rightarrow> u32" where
  "param2 (SearchMsg e) = se_id e"
| "param2 (SearchResMsg x) = sr_id x"
| "param2 (CreateChanMsg _) = CA_PROTO_VERSION"
| "param2 (CreateChanResMsg x) = ccr_sid x"
| "param2 (AccessRightsResMsg x) = ar_rights x"
| "param2 (EventAddMsg x) = ea_subid x"
| "param2 (EventAddResMsg x) = eq_subid x"
| "param2 (EventAddResEmptyMsg x) = ee_subid x"
| "param2 (EventCancelMsg x) = ec_subid x"
| "param2 (EventCancelRes x) = ee_subid x"
| "param2 (ReadNotifyMsg x) = rn_ioid x"
| "param2 (ReadNotifyResMsg x) = rr_ioid x"
| "param2 (ChannelCloseMsg x) = cl_cid x"
| "param2 (ChannelCloseRes x) = cl_cid x"
| "param2 _ = 0"

definition is_std :: "nat \<Rightarrow> u32 \<Rightarrow> bool" where
  "is_std pl cnt \<longleftrightarrow> pl \<le> 0x3ff0 \<and> cnt \<le> 0xffff"

definition msg_len :: "CaMsgTy \<Rightarrow> nat panics" where
  "msg_len ty =
     do { pl \<leftarrow> payload_len ty;
          if pl \<le> 0x3ff0
          then do { cnt \<leftarrow> data_count ty; Some (if cnt \<le> 0xffff then 16 + pl else 24 + pl) }
          else Some (24 + pl) }"

text \<open>A zero-filled payload that starts with a string; the copy panics if the string does not fit.\<close>

definition place_str :: "rstring \<Rightarrow> bytes \<Rightarrow> bytes panics" where
  "place_str s buf = copy_from_slice (replicate (length buf) 0) 0 s"

fun place_payload_into :: "CaMsgTy \<Rightarrow> bytes \<Rightarrow> bytes panics" where
  "place_payload_into (ErrorMsg _) buf = None"
| "place_payload_into ClientName buf = place_str (str ''daqingest'') buf"
| "place_payload_into (ClientNameRes _) buf = None"
| "place_payload_into (HostName name) buf = place_str name buf"
| "place_payload_into (SearchMsg e) buf =
     (if length buf < length (se_channel e) + 1 then None else place_str (se_channel e) buf)"
| "place_payload_into (SearchResMsg _) buf = None"
| "place_payload_into (CreateChanMsg x) buf =
     (if length buf < length (cc_channel x) + 1 then None else place_str (cc_channel x) buf)"
| "place_payload_into (EventAddMsg _) buf =
     (if length buf = 16 then Some [0, 0, 0, 0, 0, 0, 0, 0, 0, 0, 0, 0, 0, or 0x02 0x04, 0, 0] else None)"
| "place_payload_into _ buf = Some buf"

definition place_into :: "CaMsgTy \<Rightarrow> bytes \<Rightarrow> bytes panics" where
  "place_into ty buf =
     do { pl \<leftarrow> payload_len ty;
          cnt \<leftarrow> data_count ty;
          if is_std pl cnt
          then do { b \<leftarrow> copy_from_slice buf 0
                      (to_be 2 (cmdid ty) @ to_be 2 (of_nat pl :: u16) @ to_be 2 (data_type ty) @
                       to_be 2 (ucast cnt :: u16) @ to_be 4 (param1 ty) @ to_be 4 (param2 ty));
                    p \<leftarrow> place_payload_into ty (drop 16 b);
                    Some (take 16 b @ p) }
          else do { b \<leftarrow> copy_from_slice buf 0
                      (to_be 2 (cmdid ty) @ [0xff, 0xff] @ to_be 2 (data_type ty) @ [0x00, 0x00] @
                       to_be 4 (param1 ty) @ to_be 4 (param2 ty) @ to_be 4 (of_nat pl :: u32) @ to_be 4 cnt);
                    p \<leftarrow> place_payload_into ty (drop 24 b);
                    Some (take 24 b @ p) } }"

record CaMsg =
  cm_ty :: CaMsgTy
  cm_ts :: nat

definition CaMsg_from_ty_ts :: "CaMsgTy \<Rightarrow> nat \<Rightarrow> CaMsg" where
  "CaMsg_from_ty_ts ty ts = \<lparr>cm_ty = ty, cm_ts = ts\<rparr>"

definition overwrite_ioid :: "u32 \<Rightarrow> CaMsg \<Rightarrow> CaMsg" where
  "overwrite_ioid ioid m =
     (case cm_ty m of ReadNotifyMsg v \<Rightarrow> m\<lparr>cm_ty := ReadNotifyMsg (v\<lparr>rn_ioid := ioid\<rparr>)\<rparr> | _ \<Rightarrow> m)"

definition overwrite_subid :: "u32 \<Rightarrow> CaMsg \<Rightarrow> CaMsg" where
  "overwrite_subid subid m =
     (case cm_ty m of
        EventAddMsg v \<Rightarrow> m\<lparr>cm_ty := EventAddMsg (v\<lparr>ea_subid := subid\<rparr>)\<rparr>
      | EventCancelMsg v \<Rightarrow> m\<lparr>cm_ty := EventCancelMsg (v\<lparr>ec_subid := subid\<rparr>)\<rparr>
      | _ \<Rightarrow> m)"

fun msg_cid :: "CaMsgTy \<Rightarrow> u32 option" where
  "msg_cid (ErrorMsg x) = Some (er_cid x)"
| "msg_cid (CreateChanMsg x) = Some (cc_cid x)"
| "msg_cid (CreateChanResMsg x) = Some (ccr_cid x)"
| "msg_cid (CreateChanFail cid) = Some cid"
| "msg_cid (AccessRightsResMsg x) = Some (ar_cid x)"
| "msg_cid (ChannelDisconnect cid) = Some cid"
| "msg_cid (ChannelCloseMsg x) = Some (cl_cid x)"
| "msg_cid (ChannelCloseRes x) = Some (cl_cid x)"
| "msg_cid _ = None"

fun msg_sid :: "CaMsgTy \<Rightarrow> u32 option" where
  "msg_sid (CreateChanResMsg x) = Some (ccr_sid x)"
| "msg_sid (ChannelCloseMsg x) = Some (cl_sid x)"
| "msg_sid (ChannelCloseRes x) = Some (cl_sid x)"
| "msg_sid (ReadNotifyMsg x) = Some (rn_sid x)"
| "msg_sid (ReadNotifyResMsg x) = Some (rr_sid x)"
| "msg_sid _ = None"

fun msg_subid :: "CaMsgTy \<Rightarrow> u32 option" where
  "msg_subid (EventAddMsg x) = Some (ea_subid x)"
| "msg_subid (EventAddResMsg x) = Some (eq_subid x)"
| "msg_subid (EventAddResEmptyMsg x) = Some (ee_subid x)"
| "msg_subid (EventCancelMsg x) = Some (ec_subid x)"
| "msg_subid (EventCancelRes x) = Some (ee_subid x)"
| "msg_subid _ = None"

fun msg_ioid :: "CaMsgTy \<Rightarrow> u32 option" where
  "msg_ioid (ReadNotifyMsg x) = Some (rn_ioid x)"
| "msg_ioid (ReadNotifyResMsg x) = Some (rr_ioid x)"
| "msg_ioid _ = None"

section \<open>Decoding of values\<close>

record HeadInfo =
  hi_cmdid :: u16
  hi_payload_size :: u32
  hi_data_type :: u16
  hi_data_count :: u32
  hi_param1 :: u32
  hi_param2 :: u32
  hi_is_ext :: bool

definition with_ext :: "u32 \<Rightarrow> u32 \<Rightarrow> HeadInfo \<Rightarrow> HeadInfo" where
  "with_ext payload datacount hi =
     hi\<lparr>hi_is_ext := True, hi_payload_size := payload, hi_data_count := datacount\<rparr>"

text \<open>The macros \<^verbatim>\<open>convert_scalar_value!\<close> and \<^verbatim>\<open>convert_wave_value!\<close>, for values of \<open>n\<close> bytes.\<close>

definition convert_scalar :: "nat \<Rightarrow> ('w::len word \<Rightarrow> CaDataScalarValue) \<Rightarrow> bytes \<Rightarrow> (('b, 'io) CaError, CaDataValue) result" where
  "convert_scalar n var buf =
     (if length buf < n then Inl NotEnoughPayload else Inr (CaScalar (var (from_be (take n buf)))))"

primrec read_wave :: "nat \<Rightarrow> nat \<Rightarrow> bytes \<Rightarrow> 'w::len word list" where
  "read_wave n 0 bb = []"
| "read_wave n (Suc k) bb = from_be (take n bb) # read_wave n k (drop n bb)"

definition convert_wave :: "nat \<Rightarrow> ('w::len word list \<Rightarrow> CaDataArrayValue) \<Rightarrow> nat \<Rightarrow> bytes \<Rightarrow> CaDataValue" where
  "convert_wave stl var n buf = CaArray (var (read_wave stl (min n (length buf div stl)) buf))"

definition ca_scalar_value :: "CaScalarType \<Rightarrow> bytes \<Rightarrow> (('b, 'io) CaError, CaDataValue) result" where
  "ca_scalar_value st buf =
     (case st of
        CsI8 \<Rightarrow> convert_scalar 1 CvI8 buf
      | CsI16 \<Rightarrow> convert_scalar 2 CvI16 buf
      | CsI32 \<Rightarrow> convert_scalar 4 CvI32 buf
      | CsF32 \<Rightarrow> convert_scalar 4 CvF32 buf
      | CsF64 \<Rightarrow> convert_scalar 8 CvF64 buf
      | CsEnum \<Rightarrow> convert_scalar 2 CvEnum buf
      | CsString \<Rightarrow> Inr (CaScalar (CvString (from_utf8_lossy (takeWhile (\<lambda>c. c \<noteq> 0) buf)))))"

definition ca_wave_value :: "CaScalarType \<Rightarrow> nat \<Rightarrow> bytes \<Rightarrow> (('b, 'io) CaError, CaDataValue) result" where
  "ca_wave_value st n buf =
     (case st of
        CsI8 \<Rightarrow> Inr (convert_wave 1 CaI8 n buf)
      | CsI16 \<Rightarrow> Inr (convert_wave 2 CaI16 n buf)
      | CsI32 \<Rightarrow> Inr (convert_wave 4 CaI32 n buf)
      | CsF32 \<Rightarrow> Inr (convert_wave 4 CaF32 n buf)
      | CsF64 \<Rightarrow> Inr (convert_wave 8 CaF64 n buf)
      | CsString \<Rightarrow> Inr (CaScalar (CvString (str ''todo-array-string'')))
      | CsEnum \<Rightarrow> Inl TodoConversionArray)"

definition read_variant :: "bytes \<Rightarrow> nat \<Rightarrow> rstring panics" where
  "read_variant payload i =
     do { b \<leftarrow> slice payload (6 + 26 * i) (6 + 26 * i + 26);
          let s1 = (case until_nul b of
                      None \<Rightarrow> str ''encodingerror''
                    | Some x \<Rightarrow> if utf8_valid x then x else str ''encodingerror'');
          Some (if length s1 \<ge> 26 then str ''toolongerror'' else s1) }"

fun read_variants :: "bytes \<Rightarrow> nat list \<Rightarrow> rstring list panics" where
  "read_variants payload [] = Some []"
| "read_variants payload (i # is) =
     do { v \<leftarrow> read_variant payload i; vs \<leftarrow> read_variants payload is; Some (v # vs) }"

definition extract_meta :: "CaDbrMetaType \<Rightarrow> bytes \<Rightarrow> (('b, 'io) CaError, CaMetaValue \<times> nat) result panics" where
  "extract_meta meta payload =
     (case meta of
        DbrPlain \<Rightarrow> Some (Inl MismatchDbrTimeType)
      | DbrStatus \<Rightarrow> Some (Inl MismatchDbrTimeType)
      | DbrTime \<Rightarrow>
          do { status \<leftarrow> slice payload 0 2; severity \<leftarrow> slice payload 2 4;
               ca_secs \<leftarrow> slice payload 4 8; ca_nanos \<leftarrow> slice payload 8 12;
               Some (Inr (MetaTime \<lparr>mt_status = from_be status, mt_severity = from_be severity,
                                    mt_ca_secs = from_be ca_secs, mt_ca_nanos = from_be ca_nanos\<rparr>, 12)) }
      | DbrCtrl \<Rightarrow>
          do { status \<leftarrow> slice payload 0 2; severity \<leftarrow> slice payload 2 4; cnt \<leftarrow> slice payload 4 6;
               let varcnt = (from_be cnt :: u16);
               if varcnt > 16 then Some (Inl BadCaCount)
               else do { variants \<leftarrow> read_variants payload [0..<unat varcnt];
                         Some (Inr (MetaVariants \<lparr>mv_status = from_be status, mv_severity = from_be severity,
                                                  mv_variants = variants\<rparr>, 2 + 2 + 2 + 26 * 16)) } })"

fun meta_padding :: "CaDbrMetaType \<Rightarrow> CaScalarType \<Rightarrow> nat" where
  "meta_padding DbrStatus CsI8 = 1"
| "meta_padding DbrStatus CsF64 = 4"
| "meta_padding DbrTime CsI8 = 3"
| "meta_padding DbrTime CsI16 = 2"
| "meta_padding DbrTime CsF64 = 4"
| "meta_padding DbrTime CsEnum = 2"
| "meta_padding DbrCtrl CsI8 = 1"
| "meta_padding _ _ = 0"

definition extract_ca_data_value ::
    "HeadInfo \<Rightarrow> bytes \<Rightarrow> nat \<Rightarrow> (('b, 'io) CaError, CaEventValue) result panics" where
  "extract_ca_data_value hi payload array_truncate =
     rbind (Some (CaDbrType_from_ca_u16 (hi_data_type hi))) (\<lambda>ty.
     rbind (Some (case from_ca_count (hi_data_count hi) of Inl _ \<Rightarrow> Inl BadCaCount | Inr sh \<Rightarrow> Inr sh)) (\<lambda>ca_sh.
     rbind (extract_meta (dbr_meta ty) payload) (\<lambda>(meta, data_offset).
     do { valbuf \<leftarrow> slice payload (data_offset + meta_padding (dbr_meta ty) (dbr_scalar_type ty)) (length payload);
          rbind (Some (case ca_sh of
                         ShScalar \<Rightarrow> ca_scalar_value (dbr_scalar_type ty) valbuf
                       | ShWave n \<Rightarrow> ca_wave_value (dbr_scalar_type ty) (min (unat n) array_truncate) valbuf
                       | ShImage _ _ \<Rightarrow> Inl CaImageUnsupported)) (\<lambda>value.
          Some (Inr \<lparr>ev_data = value, ev_meta = meta\<rparr>)) })))"

section \<open>Decoding of messages\<close>

record DebugText =
  dbg_bytes :: "bytes \<Rightarrow> rstring"
  dbg_nul_error :: "bytes \<Rightarrow> rstring"
  dbg_into_string_error :: "bytes \<Rightarrow> rstring"

definition error_cmd_msg :: "DebugText \<Rightarrow> bytes \<Rightarrow> rstring panics" where
  "error_cmd_msg dbg payload =
     (let s = dbg_bytes dbg (take 16 payload) in
      if length payload \<ge> 17
      then do { d \<leftarrow> slice payload 17 (length payload - 1); Some (s @ str ''  msg: '' @ from_utf8_lossy d) }
      else Some s)"

definition client_name :: "DebugText \<Rightarrow> bytes \<Rightarrow> rstring" where
  "client_name dbg payload =
     (if 0 \<in> set payload then dbg_nul_error dbg payload
      else if utf8_valid payload then payload else dbg_into_string_error dbg payload)"

definition from_proto_infos ::
    "DebugText \<Rightarrow> HeadInfo \<Rightarrow> bytes \<Rightarrow> nat \<Rightarrow> (('b, 'io) CaError, CaMsgTy) result panics" where
  "from_proto_infos dbg hi payload array_truncate =
     (let c = hi_cmdid hi in
      if c = 0x00 then Some (Inr (VersionRes (ucast (hi_data_count hi))))
      else if c = 0x0b then
        do { msg \<leftarrow> error_cmd_msg dbg payload;
             Some (Inr (ErrorMsg \<lparr>er_cid = hi_param1 hi, er_eid = hi_param2 hi, er_msg = msg\<rparr>)) }
      else if c = 0x06 then
        if length payload < 2 then Some (Inl CaProtoVersionMissing)
        else Some (Inr (SearchResMsg \<lparr>sr_addr = hi_param1 hi, sr_tcp_port = hi_data_type hi, sr_id = hi_param2 hi,
                                      sr_proto_version = from_be (take 2 payload)\<rparr>))
      else if c = 0x01 then
        if length payload < 12
        then if length payload = 0
             then Some (Inr (EventAddResEmptyMsg
                    \<lparr>ee_data_type = hi_data_type hi, ee_sid = hi_param1 hi, ee_subid = hi_param2 hi\<rparr>))
             else Some (Inl (NotEnoughPayloadTimeMetadata (length payload)))
        else rbind (extract_ca_data_value hi payload array_truncate) (\<lambda>value.
             Some (Inr (EventAddResMsg \<lparr>eq_data_type = hi_data_type hi, eq_data_count = hi_data_count hi,
               eq_status = hi_param1 hi, eq_subid = hi_param2 hi, eq_payload_len = hi_payload_size hi,
               eq_value = value\<rparr>)))
      else if c = 0x0c then
        if length payload \<noteq> 0 then Some (Inl BadPayload)
        else Some (Inr (ChannelCloseRes \<lparr>cl_sid = hi_param1 hi, cl_cid = hi_param2 hi\<rparr>))
      else if c = 0x0f then
        rbind (extract_ca_data_value hi payload array_truncate) (\<lambda>value.
        Some (Inr (ReadNotifyResMsg \<lparr>rr_data_type = hi_data_type hi, rr_data_count = hi_data_count hi,
          rr_sid = hi_param1 hi, rr_ioid = hi_param2 hi, rr_payload_len = hi_payload_size hi, rr_value = value\<rparr>)))
      else if c = 0x12 then
        Some (Inr (CreateChanResMsg \<lparr>ccr_data_type = hi_data_type hi, ccr_data_count = hi_data_count hi,
          ccr_cid = hi_param1 hi, ccr_sid = hi_param2 hi\<rparr>))
      else if c = 0x16 then Some (Inr (AccessRightsResMsg \<lparr>ar_cid = hi_param1 hi, ar_rights = hi_param2 hi\<rparr>))
      else if c = 0x17 then Some (Inr Echo)
      else if c = 0x1a then Some (Inr (CreateChanFail (hi_param1 hi)))
      else if c = 0x14 then Some (Inr (ClientNameRes (client_name dbg payload)))
      else if c = 0x15 then Some (Inr (HostName (str ''TODOx5288'')))
      else Some (Inl (CaCommandNotSupported c)))"

end
