(* ===== verification/CaConn.thy ===== *)
theory CaConn
  imports CaMsg SlideBuf Streams
begin

text \<open>
  The protocol stream \<^verbatim>\<open>CaProto\<close> of \<^verbatim>\<open>daqbuf-ca-proto/src/ca/proto.rs\<close>: bytes from the socket go
  to the input buffer, the state machine \<^verbatim>\<open>CaState\<close> cuts them into messages, and queued messages
  are encoded into the output buffer and written to the socket.

  The buffer is the \<^verbatim>\<open>slidebuf\<close> crate, which is not part of the repository: it is the parameter
  \<open>bb\<close>, a record of the operations the code calls, whose documented behaviour is the locale
  \<open>slide_buf\<close>. The buffer of \<^verbatim>\<open>daqbuf-streams/src/slidebuf.rs\<close> has the same operations and
  keeps that contract. The socket is a sequence of poll results for reading and one for writing; a
  read of no bytes is the end of the connection. The metrics are left out.
\<close>

section \<open>The buffer\<close>

record ('s, 'b) ByteBuf =
  bb_new :: "nat \<Rightarrow> 's"
  bb_len :: "'s \<Rightarrow> nat"
  bb_cap :: "'s \<Rightarrow> nat"
  bb_data :: "'s \<Rightarrow> bytes panics"
  bb_adv :: "nat \<Rightarrow> 's \<Rightarrow> (('b, unit) result \<times> 's) panics"
  bb_read_u16_be :: "'s \<Rightarrow> (('b, u16) result \<times> 's) panics"
  bb_read_u32_be :: "'s \<Rightarrow> (('b, u32) result \<times> 's) panics"
  bb_read_bytes :: "nat \<Rightarrow> 's \<Rightarrow> (('b, bytes) result \<times> 's) panics"
  bb_area :: "nat \<Rightarrow> 's \<Rightarrow> (('b, bytes) result \<times> 's) panics"
  bb_fill :: "bytes \<Rightarrow> 's \<Rightarrow> 's panics"
  bb_wadv :: "nat \<Rightarrow> 's \<Rightarrow> (('b, unit) result \<times> 's) panics"

text \<open>
  \<open>bb_area\<close> is \<^verbatim>\<open>available_writable_area\<close>; writing to the beginning of the slice it returns is
  \<open>bb_fill\<close>, and \<open>bb_wadv\<close> makes the written bytes part of the buffered data.
\<close>

locale slide_buf =
  fixes bb :: "('s, 'b) ByteBuf"
    and inv :: "'s \<Rightarrow> bool"
    and dat :: "'s \<Rightarrow> bytes"
  assumes new: "c < 2 ^ 63 \<Longrightarrow> inv (bb_new bb c) \<and> dat (bb_new bb c) = [] \<and> bb_cap bb (bb_new bb c) = c"
    and len: "inv s \<Longrightarrow> bb_len bb s = length (dat s)"
    and data: "inv s \<Longrightarrow> bb_data bb s = Some (dat s)"
    and adv: "inv s \<Longrightarrow> n \<le> length (dat s) \<Longrightarrow>
      \<exists>s'. bb_adv bb n s = Some (Inr (), s') \<and> inv s' \<and> dat s' = drop n (dat s) \<and> bb_cap bb s' = bb_cap bb s"
    and read_bytes: "inv s \<Longrightarrow> n \<le> length (dat s) \<Longrightarrow> \<exists>s'. bb_read_bytes bb n s = Some (Inr (take n (dat s)), s') \<and>
      inv s' \<and> dat s' = drop n (dat s) \<and> bb_cap bb s' = bb_cap bb s"
    and read_u16: "inv s \<Longrightarrow> 2 \<le> length (dat s) \<Longrightarrow> \<exists>s'. bb_read_u16_be bb s = Some (Inr (from_be (take 2 (dat s))), s') \<and>
      inv s' \<and> dat s' = drop 2 (dat s) \<and> bb_cap bb s' = bb_cap bb s"
    and read_u32: "inv s \<Longrightarrow> 4 \<le> length (dat s) \<Longrightarrow> \<exists>s'. bb_read_u32_be bb s = Some (Inr (from_be (take 4 (dat s))), s') \<and>
      inv s' \<and> dat s' = drop 4 (dat s) \<and> bb_cap bb s' = bb_cap bb s"
    and area: "inv s \<Longrightarrow> \<exists>r s'. bb_area bb n s = Some (r, s') \<and> inv s' \<and> dat s' = dat s \<and> bb_cap bb s' = bb_cap bb s \<and>
      (case r of
         Inr a \<Rightarrow> n \<le> length a \<and> (\<forall>bs. length bs \<le> length a \<longrightarrow>
           (\<exists>s1 s2. bb_fill bb bs s' = Some s1 \<and> bb_wadv bb (length bs) s1 = Some (Inr (), s2) \<and>
             inv s2 \<and> dat s2 = dat s @ bs \<and> bb_cap bb s2 = bb_cap bb s))
       | Inl _ \<Rightarrow> bb_cap bb s < length (dat s) + n)"

definition SlideBuf_impl :: "(SlideBuf, sb_error) ByteBuf" where
  "SlideBuf_impl =
     \<lparr>bb_new = sb_new, bb_len = sb_len, bb_cap = sb_cap, bb_data = sb_data, bb_adv = sb_adv,
      bb_read_u16_be = sb_read_u16_be, bb_read_u32_be = sb_read_u32_be, bb_read_bytes = sb_read_bytes,
      bb_area = sb_available_writable_area, bb_fill = sb_fill, bb_wadv = sb_wadv\<rparr>"

interpretation sbb: slide_buf SlideBuf_impl sb_inv sb_abs
proof
  fix c :: nat assume "c < 2 ^ 63"
  then show "sb_inv (bb_new SlideBuf_impl c) \<and> sb_abs (bb_new SlideBuf_impl c) = [] \<and>
      bb_cap SlideBuf_impl (bb_new SlideBuf_impl c) = c"
    by (simp add: SlideBuf_impl_def sb_new_def sb_inv_def sb_abs_def sb_cap_def)
next
  fix s assume s: "sb_inv s"
  show "bb_len SlideBuf_impl s = length (sb_abs s)" by (simp add: SlideBuf_impl_def sb_len_inv [OF s])
  show "bb_data SlideBuf_impl s = Some (sb_abs s)" by (simp add: SlideBuf_impl_def sb_data_inv [OF s])
next
  fix s n assume s: "sb_inv s" "n \<le> length (sb_abs s)"
  show "\<exists>s'. bb_adv SlideBuf_impl n s = Some (Inr (), s') \<and> sb_inv s' \<and> sb_abs s' = drop n (sb_abs s) \<and>
      bb_cap SlideBuf_impl s' = bb_cap SlideBuf_impl s"
    using sb_adv_ok [OF s] by (simp add: SlideBuf_impl_def)
  show "\<exists>s'. bb_read_bytes SlideBuf_impl n s = Some (Inr (take n (sb_abs s)), s') \<and> sb_inv s' \<and>
      sb_abs s' = drop n (sb_abs s) \<and> bb_cap SlideBuf_impl s' = bb_cap SlideBuf_impl s"
    using sb_read_fixed_inv(1) [OF s] by (simp add: SlideBuf_impl_def sb_read_bytes_def)
next
  fix s assume s: "sb_inv s" "2 \<le> length (sb_abs s)"
  show "\<exists>s'. bb_read_u16_be SlideBuf_impl s = Some (Inr (from_be (take 2 (sb_abs s))), s') \<and> sb_inv s' \<and>
      sb_abs s' = drop 2 (sb_abs s) \<and> bb_cap SlideBuf_impl s' = bb_cap SlideBuf_impl s"
    using sb_read_fixed_inv(1) [OF s] by (auto simp: SlideBuf_impl_def sb_read_u16_be_def sb_map_res_def)
next
  fix s assume s: "sb_inv s" "4 \<le> length (sb_abs s)"
  show "\<exists>s'. bb_read_u32_be SlideBuf_impl s = Some (Inr (from_be (take 4 (sb_abs s))), s') \<and> sb_inv s' \<and>
      sb_abs s' = drop 4 (sb_abs s) \<and> bb_cap SlideBuf_impl s' = bb_cap SlideBuf_impl s"
    using sb_read_fixed_inv(1) [OF s] by (auto simp: SlideBuf_impl_def sb_read_u32_be_def sb_map_res_def)
next
  fix s n assume s: "sb_inv s"
  obtain r s' where r: "sb_available_writable_area n s = Some (r, s')" "sb_inv s'" "sb_abs s' = sb_abs s" "sb_cap s' = sb_cap s"
    "case r of Inr a \<Rightarrow> n \<le> length a \<and> length a = sb_wcap s' | Inl _ \<Rightarrow> sb_cap s < length (sb_abs s) + n"
    using sb_area_ok [OF s] by blast
  show "\<exists>r s'. bb_area SlideBuf_impl n s = Some (r, s') \<and> sb_inv s' \<and> sb_abs s' = sb_abs s \<and>
      bb_cap SlideBuf_impl s' = bb_cap SlideBuf_impl s \<and>
      (case r of
         Inr a \<Rightarrow> n \<le> length a \<and> (\<forall>bs. length bs \<le> length a \<longrightarrow>
           (\<exists>s1 s2. bb_fill SlideBuf_impl bs s' = Some s1 \<and> bb_wadv SlideBuf_impl (length bs) s1 = Some (Inr (), s2) \<and>
             sb_inv s2 \<and> sb_abs s2 = sb_abs s @ bs \<and> bb_cap SlideBuf_impl s2 = bb_cap SlideBuf_impl s))
       | Inl _ \<Rightarrow> bb_cap SlideBuf_impl s < length (sb_abs s) + n)"
    using r sb_fill_wadv [OF r(2)] by (cases r) (auto simp: SlideBuf_impl_def)
qed

section \<open>The socket\<close>

datatype 'io tcp_read = RdPending | RdData bytes | RdErr 'io
datatype 'io tcp_write = WrPending | WrAccept nat | WrErr 'io

record 'io Tcp =
  t_in :: "'io tcp_read list"
  t_out :: "'io tcp_write list"
  t_rcvd :: bytes
  t_sent :: bytes

text \<open>
  A read fills at most \<open>k\<close> bytes, what does not fit is read next; a write takes at most the number of
  bytes the socket accepts. \<open>t_rcvd\<close> and \<open>t_sent\<close> are the bytes that went either way so far.
\<close>

definition poll_read :: "nat \<Rightarrow> 'io Tcp \<Rightarrow> ('io, bytes) result poll \<times> 'io Tcp" where
  "poll_read k t =
     (case t_in t of
        [] \<Rightarrow> (Pending, t)
      | RdPending # xs \<Rightarrow> (Pending, t\<lparr>t_in := xs\<rparr>)
      | RdErr e # xs \<Rightarrow> (Ready (Inl e), t\<lparr>t_in := xs\<rparr>)
      | RdData d # xs \<Rightarrow>
          (Ready (Inr (take k d)),
           t\<lparr>t_in := (if length d \<le> k then xs else RdData (drop k d) # xs), t_rcvd := t_rcvd t @ take k d\<rparr>))"

definition poll_write :: "bytes \<Rightarrow> 'io Tcp \<Rightarrow> ('io, nat) result poll \<times> 'io Tcp" where
  "poll_write b t =
     (case t_out t of
        [] \<Rightarrow> (Pending, t)
      | WrPending # xs \<Rightarrow> (Pending, t\<lparr>t_out := xs\<rparr>)
      | WrErr e # xs \<Rightarrow> (Ready (Inl e), t\<lparr>t_out := xs\<rparr>)
      | WrAccept n # xs \<Rightarrow>
          (Ready (Inr (min n (length b))), t\<lparr>t_out := xs, t_sent := t_sent t @ take n b\<rparr>))"

section \<open>The protocol stream\<close>

datatype CaState = StdHead | ExtHead HeadInfo | Payload HeadInfo | Done

fun need_min :: "CaState \<Rightarrow> nat" where
  "need_min StdHead = 16"
| "need_min (ExtHead _) = 8"
| "need_min (Payload k) = unat (hi_payload_size k)"
| "need_min Done = 123"

record ('s, 'io) CaProto =
  cp_tcp :: "'io Tcp"
  cp_tcp_eof :: bool
  cp_state :: CaState
  cp_buf :: 's
  cp_outbuf :: 's
  cp_out :: "CaMsgTy list"
  cp_array_truncate :: nat
  cp_resqu :: "CaMsgTy list"
  cp_resqu_cap :: nat
  cp_event_add_res_cnt :: u32
  cp_tcp_read_bytes :: u64

text \<open>The capacity of the result queue is what the allocation of at least 256 places gave.\<close>

definition CaProto_new :: "('s, 'b) ByteBuf \<Rightarrow> 'io Tcp \<Rightarrow> nat \<Rightarrow> nat \<Rightarrow> ('s, 'io) CaProto" where
  "CaProto_new bb tcp array_truncate qcap =
     \<lparr>cp_tcp = tcp, cp_tcp_eof = False, cp_state = StdHead,
      cp_buf = bb_new bb (unat PROTO_INPUT_BUF_CAP), cp_outbuf = bb_new bb (1024 * 256), cp_out = [],
      cp_array_truncate = array_truncate, cp_resqu = [], cp_resqu_cap = qcap,
      cp_event_add_res_cnt = 0, cp_tcp_read_bytes = 0\<rparr>"

definition proto_out_space :: "('s, 'io) CaProto \<Rightarrow> bool" where
  "proto_out_space p \<longleftrightarrow> length (cp_out p) < 20"

definition push_out :: "CaMsgTy \<Rightarrow> ('s, 'io) CaProto \<Rightarrow> ('s, 'io) CaProto" where
  "push_out item p = p\<lparr>cp_out := cp_out p @ [item]\<rparr>"

text \<open>State passing: a step of the stream returns an error or a value, and the state, or panics.\<close>

type_synonym ('s, 'b, 'io, 'a) ca_op =
  "('s, 'io) CaProto \<Rightarrow> ((('b, 'io) CaError, 'a) result \<times> ('s, 'io) CaProto) panics"

definition on_buf :: "('s \<Rightarrow> (('b, 'a) result \<times> 's) panics) \<Rightarrow> ('s, 'b, 'io, 'a) ca_op" where
  "on_buf f p =
     do { (r, s) \<leftarrow> f (cp_buf p); Some (map_sum SlideBufError id r, p\<lparr>cp_buf := s\<rparr>) }"

definition ca_bind :: "('s, 'b, 'io, 'a) ca_op \<Rightarrow> ('a \<Rightarrow> ('s, 'b, 'io, 'c) ca_op) \<Rightarrow> ('s, 'b, 'io, 'c) ca_op" where
  "ca_bind m f p = do { (r, p) \<leftarrow> m p; case r of Inl e \<Rightarrow> Some (Inl e, p) | Inr x \<Rightarrow> f x p }"

definition HeadInfo_from_netbuf :: "('s, 'b) ByteBuf \<Rightarrow> ('s, 'b, 'io, HeadInfo) ca_op" where
  "HeadInfo_from_netbuf bb =
     ca_bind (on_buf (bb_read_u16_be bb)) (\<lambda>command.
     ca_bind (on_buf (bb_read_u16_be bb)) (\<lambda>payload_size.
     ca_bind (on_buf (bb_read_u16_be bb)) (\<lambda>data_type.
     ca_bind (on_buf (bb_read_u16_be bb)) (\<lambda>data_count.
     ca_bind (on_buf (bb_read_u32_be bb)) (\<lambda>param1.
     ca_bind (on_buf (bb_read_u32_be bb)) (\<lambda>param2 p.
       Some (Inr \<lparr>hi_cmdid = command, hi_payload_size = ucast payload_size, hi_data_type = data_type,
                  hi_data_count = ucast data_count, hi_param1 = param1, hi_param2 = param2,
                  hi_is_ext = False\<rparr>, p)))))))"

definition decode :: "DebugText \<Rightarrow> HeadInfo \<Rightarrow> bytes \<Rightarrow> ('s, 'b, 'io, CaMsgTy) ca_op" where
  "decode dbg hi g p = do { r \<leftarrow> from_proto_infos dbg hi g (cp_array_truncate p); Some (r, p) }"

definition parse_item :: "('s, 'b) ByteBuf \<Rightarrow> DebugText \<Rightarrow> ('s, 'b, 'io, CaMsgTy option) ca_op" where
  "parse_item bb dbg p0 =
     (case cp_state p0 of
        StdHead \<Rightarrow>
          ca_bind (HeadInfo_from_netbuf bb) (\<lambda>hi p.
            if hi_payload_size hi = 0xffff then Some (Inr None, p\<lparr>cp_state := ExtHead hi\<rparr>)
            else if hi_payload_size hi = 0
            then ca_bind (decode dbg hi []) (\<lambda>msg p. Some (Inr (Some msg), p)) (p\<lparr>cp_state := StdHead\<rparr>)
            else Some (Inr None, p\<lparr>cp_state := Payload hi\<rparr>)) p0
      | ExtHead hi \<Rightarrow>
          ca_bind (on_buf (bb_read_u32_be bb)) (\<lambda>payload_size.
          ca_bind (on_buf (bb_read_u32_be bb)) (\<lambda>data_count p.
            Some (Inr None, p\<lparr>cp_state := Payload (with_ext payload_size data_count hi)\<rparr>))) p0
      | Payload hi \<Rightarrow>
          ca_bind (on_buf (bb_read_bytes bb (unat (hi_payload_size hi)))) (\<lambda>g.
          ca_bind (decode dbg hi g) (\<lambda>msg p.
            let p = (case msg of
                       EventAddResMsg _ \<Rightarrow> p\<lparr>cp_event_add_res_cnt := cp_event_add_res_cnt p + 1\<rparr>
                     | _ \<Rightarrow> p) in
            Some (Inr (Some msg), p\<lparr>cp_state := StdHead\<rparr>))) p0
      | Done \<Rightarrow> Some (Inl ParseAttemptInDoneState, p0))"

subsection \<open>Output\<close>

definition out_msg_buf :: "('s, 'b) ByteBuf \<Rightarrow> ('s, 'io) CaProto \<Rightarrow> ((CaMsgTy \<times> bytes) option \<times> ('s, 'io) CaProto) panics" where
  "out_msg_buf bb p =
     (case cp_out p of
        [] \<Rightarrow> Some (None, p)
      | item # _ \<Rightarrow>
          do { n \<leftarrow> msg_len item;
               (r, s) \<leftarrow> bb_area bb n (cp_outbuf p);
               Some (case r of Inr buf \<Rightarrow> Some (item, buf) | Inl _ \<Rightarrow> None, p\<lparr>cp_outbuf := s\<rparr>) })"

definition attempt_output :: "('s, 'b) ByteBuf \<Rightarrow> ('s, 'io) CaProto \<Rightarrow>
    ((('b, 'io) CaError, nat) result poll \<times> ('s, 'io) CaProto) panics" where
  "attempt_output bb p =
     do { b \<leftarrow> bb_data bb (cp_outbuf p);
          let (r, t) = poll_write b (cp_tcp p);
          let p = p\<lparr>cp_tcp := t\<rparr>;
          case r of
            Pending \<Rightarrow> Some (Pending, p)
          | Ready (Inl e) \<Rightarrow> Some (Ready (Inl (IO e)), p)
          | Ready (Inr k) \<Rightarrow>
              do { (a, s) \<leftarrow> bb_adv bb k (cp_outbuf p);
                   let p = p\<lparr>cp_outbuf := s\<rparr>;
                   Some (Ready (case a of Inr _ \<Rightarrow> Inr k | Inl e \<Rightarrow> Inl (SlideBufError e)), p) } }"

text \<open>Placing queued messages into the output buffer, as far as they fit.\<close>

partial_function (option) place_msgs :: "('s, 'b) ByteBuf \<Rightarrow> ('s, 'io) CaProto \<Rightarrow>
    ((('b, 'io) CaError, unit) result \<times> ('s, 'io) CaProto) option" where
  "place_msgs bb p =
     do { (r, p) \<leftarrow> out_msg_buf bb p;
          case r of
            None \<Rightarrow> Some (Inr (), p)
          | Some (msg, buf) \<Rightarrow>
              do { msglen \<leftarrow> msg_len msg;
                   if msglen > length buf then Some (Inr (), p)
                   else do { b \<leftarrow> place_into msg (take msglen buf);
                             s \<leftarrow> bb_fill bb b (cp_outbuf p);
                             (w, s) \<leftarrow> bb_wadv bb msglen s;
                             let p = p\<lparr>cp_outbuf := s\<rparr>;
                             case w of
                               Inl e \<Rightarrow> Some (Inl (SlideBufError e), p)
                             | Inr _ \<Rightarrow> place_msgs bb (p\<lparr>cp_out := tl (cp_out p)\<rparr>) } } }"

text \<open>Writing the output buffer; the result says whether there was progress and whether the socket is pending.\<close>

partial_function (option) write_out :: "('s, 'b) ByteBuf \<Rightarrow> bool \<Rightarrow> ('s, 'io) CaProto \<Rightarrow>
    ((('b, 'io) CaError, bool \<times> bool) result \<times> ('s, 'io) CaProto) option" where
  "write_out bb have_progress p =
     (if bb_len bb (cp_outbuf p) \<noteq> 0
      then do { (r, p) \<leftarrow> attempt_output bb p;
                case r of
                  Ready (Inr n) \<Rightarrow> if n = 0 then Some (Inl LogicError, p) else write_out bb True p
                | Ready (Inl e) \<Rightarrow> Some (Inl e, p)
                | Pending \<Rightarrow> Some (Inr (have_progress, True), p) }
      else Some (Inr (have_progress, False), p))"

datatype outbound = OutProgress | OutPending | OutIdle

definition poll_outbound :: "('s, 'b) ByteBuf \<Rightarrow> ('s, 'b, 'io, outbound) ca_op" where
  "poll_outbound bb =
     ca_bind (place_msgs bb) (\<lambda>_.
     ca_bind (write_out bb False) (\<lambda>(have_progress, have_pending) p.
       if have_progress then Some (Inr OutProgress, p)
       else if have_pending then Some (Inr OutPending, p)
       else Some (Inr OutIdle, if cp_tcp_eof p then p\<lparr>cp_state := Done\<rparr> else p)))"

subsection \<open>Input\<close>

datatype read_end = ReadStop | ReadPending

text \<open>The read loop; the flag says whether bytes were read.\<close>

partial_function (option) read_loop :: "('s, 'b) ByteBuf \<Rightarrow> nat \<Rightarrow> bool \<Rightarrow> ('s, 'io) CaProto \<Rightarrow>
    ((('b, 'io) CaError, bool \<times> read_end) result \<times> ('s, 'io) CaProto) option" where
  "read_loop bb need have_progress p =
     (if cp_tcp_eof p then Some (Inr (have_progress, ReadStop), p)
      else do { (a, s) \<leftarrow> bb_area bb need (cp_buf p);
                let p = p\<lparr>cp_buf := s\<rparr>;
                case a of
                  Inl e \<Rightarrow> Some (Inl (SlideBufError e), p)
                | Inr buf \<Rightarrow>
                    if length buf = 0 then Some (Inl NoReadBufferSpace, p)
                    else let (r, t) = poll_read (length buf) (cp_tcp p); p = p\<lparr>cp_tcp := t\<rparr> in
                      (case r of
                         Pending \<Rightarrow> Some (Inr (have_progress, ReadPending), p)
                       | Ready (Inl e) \<Rightarrow> Some (Inl (IO e), p)
                       | Ready (Inr bs) \<Rightarrow>
                           if length bs = 0 then Some (Inr (have_progress, ReadStop), p\<lparr>cp_tcp_eof := True\<rparr>)
                           else do { s \<leftarrow> bb_fill bb bs (cp_buf p);
                                     (w, s) \<leftarrow> bb_wadv bb (length bs) s;
                                     let p = p\<lparr>cp_buf := s\<rparr>;
                                     case w of
                                       Inl e \<Rightarrow> Some (Inl (SlideBufError e), p)
                                     | Inr _ \<Rightarrow> read_loop bb need True
                                         (p\<lparr>cp_tcp_read_bytes := cp_tcp_read_bytes p + of_nat (length bs)\<rparr>) }) })"

partial_function (option) parse_loop :: "('s, 'b) ByteBuf \<Rightarrow> DebugText \<Rightarrow> bool \<Rightarrow> ('s, 'io) CaProto \<Rightarrow>
    ((('b, 'io) CaError, bool) result \<times> ('s, 'io) CaProto) option" where
  "parse_loop bb dbg have_progress p =
     (if length (cp_resqu p) < cp_resqu_cap p
      then if need_min (cp_state p) \<le> bb_len bb (cp_buf p)
           then do { (r, p) \<leftarrow> parse_item bb dbg p;
                     case r of
                       Inl e \<Rightarrow> Some (Inl e, p)
                     | Inr None \<Rightarrow> parse_loop bb dbg True p
                     | Inr (Some item) \<Rightarrow> parse_loop bb dbg True (p\<lparr>cp_resqu := cp_resqu p @ [item]\<rparr>) }
           else Some (Inr have_progress, p)
      else Some (Inr have_progress, p))"

definition loop_body :: "('s, 'b) ByteBuf \<Rightarrow> DebugText \<Rightarrow> ('s, 'b, 'io, unit poll) ca_op" where
  "loop_body bb dbg =
     ca_bind (poll_outbound bb) (\<lambda>o1 p0.
       let need = need_min (cp_state p0) in
       if bb_cap bb (cp_buf p0) < need
       then Some (Inl (BufferTooSmallForNeedMin (bb_cap bb (cp_buf p0)) need), p0)
       else ca_bind (read_loop bb need (o1 = OutProgress)) (\<lambda>(have_progress, e).
            ca_bind (parse_loop bb dbg have_progress) (\<lambda>have_progress p.
              if have_progress then Some (Inr (Ready ()), p)
              else if o1 = OutPending \<or> e = ReadPending then Some (Inr Pending, p)
              else if cp_tcp_eof p then Some (Inr (Ready ()), p\<lparr>cp_state := Done\<rparr>)
              else Some (Inl NeitherPendingNorProgress, p))) p0)"

partial_function (option) ca_poll_next :: "('s, 'b) ByteBuf \<Rightarrow> DebugText \<Rightarrow> ('s, 'io) CaProto \<Rightarrow>
    ((('b, 'io) CaError, CaMsgTy) result option poll \<times> ('s, 'io) CaProto) option" where
  "ca_poll_next bb dbg p =
     (case cp_resqu p of
        item # q \<Rightarrow> Some (Ready (Some (Inr item)), p\<lparr>cp_resqu := q\<rparr>)
      | [] \<Rightarrow>
        if cp_state p = Done then Some (Ready None, p)
        else do { (k, p) \<leftarrow> loop_body bb dbg p;
                  case k of
                    Inr (Ready _) \<Rightarrow> ca_poll_next bb dbg p
                  | Inr Pending \<Rightarrow> Some (Pending, p)
                  | Inl e \<Rightarrow> Some (Ready (Some (Inl e)), p\<lparr>cp_state := Done\<rparr>) })"

subsection \<open>Read statistics\<close>

text \<open>
  \<open>fionread\<close> is what the \<^verbatim>\<open>ioctl\<close> on the socket stored, \<open>None\<close> if there is no descriptor or the
  call failed.
\<close>

definition get_socket_buffer_len :: "int option \<Rightarrow> (('b, 'io) CaError, u64) result" where
  "get_socket_buffer_len fionread =
     (case fionread of
        Some v \<Rightarrow> if v < 0 \<or> v > 1024 * 1024 * 800 then Inl Socket else Inr (of_int v)
      | None \<Rightarrow> Inl Socket)"

definition get_read_stats_v1 :: "('s, 'b) ByteBuf \<Rightarrow> int option \<Rightarrow> ('s, 'io) CaProto \<Rightarrow>
    (('b, 'io) CaError, u64 \<times> u64 \<times> u64) result \<times> ('s, 'io) CaProto" where
  "get_read_stats_v1 bb fionread p =
     (case get_socket_buffer_len fionread of
        Inl e \<Rightarrow> (Inl e, p)
      | Inr socket_len \<Rightarrow>
          (Inr (socket_len, cp_tcp_read_bytes p, of_nat (bb_len bb (cp_buf p))), p\<lparr>cp_tcp_read_bytes := 0\<rparr>))"

definition dbg_buf_rlen :: "('s, 'b) ByteBuf \<Rightarrow> ('s, 'io) CaProto \<Rightarrow> u64" where
  "dbg_buf_rlen bb p = of_nat (bb_len bb (cp_buf p))"

end
