(* ===== verification/CaConnCorrect.thy ===== *)
theory CaConnCorrect
  imports CaConn
begin

text \<open>
  The protocol stream against a parser of byte strings. The specification \<open>ca_run\<close> cuts a byte
  string into messages and knows nothing of buffers, chunks, queues or polling. The lemmas show that
  the stream yields exactly the messages of the bytes received, however they arrive, that polling
  returns, and that the bytes sent are the encodings of the queued messages, in order.
\<close>

section \<open>The specification\<close>

definition head_of :: "bytes \<Rightarrow> HeadInfo" where
  "head_of bs =
     \<lparr>hi_cmdid = from_be (take 2 bs), hi_payload_size = ucast (from_be (take 2 (drop 2 bs)) :: u16),
      hi_data_type = from_be (take 2 (drop 4 bs)), hi_data_count = ucast (from_be (take 2 (drop 6 bs)) :: u16),
      hi_param1 = from_be (take 4 (drop 8 bs)), hi_param2 = from_be (take 4 (drop 12 bs)), hi_is_ext = False\<rparr>"

type_synonym ('b, 'io) parsed = "(('b, 'io) CaError, CaMsgTy option) result panics"

definition spec_parse :: "DebugText \<Rightarrow> nat \<Rightarrow> CaState \<Rightarrow> bytes \<Rightarrow> ('b, 'io) parsed \<times> CaState \<times> bytes" where
  "spec_parse dbg tr st bs =
     (case st of
        StdHead \<Rightarrow>
          let hi = head_of bs in
          if hi_payload_size hi = 0xffff then (Some (Inr None), ExtHead hi, drop 16 bs)
          else if hi_payload_size hi = 0
          then (map_option (map_sum id Some) (from_proto_infos dbg hi [] tr), StdHead, drop 16 bs)
          else (Some (Inr None), Payload hi, drop 16 bs)
      | ExtHead hi \<Rightarrow>
          (Some (Inr None), Payload (with_ext (from_be (take 4 bs)) (from_be (take 4 (drop 4 bs))) hi), drop 8 bs)
      | Payload hi \<Rightarrow>
          let n = unat (hi_payload_size hi) in
          (map_option (map_sum id Some) (from_proto_infos dbg hi (take n bs) tr), StdHead, drop n bs)
      | Done \<Rightarrow> (Some (Inl ParseAttemptInDoneState), Done, bs))"

text \<open>Running the parser on a byte string: the messages, and the state and bytes it is left with.\<close>

inductive ca_run :: "DebugText \<Rightarrow> nat \<Rightarrow> CaState \<times> bytes \<Rightarrow> CaMsgTy list \<Rightarrow> CaState \<times> bytes \<Rightarrow> bool"
  for dbg tr where
  start: "ca_run dbg tr s [] s"
| silent: "ca_run dbg tr s xs (st, bs) \<Longrightarrow> st \<noteq> Done \<Longrightarrow> need_min st \<le> length bs \<Longrightarrow>
    spec_parse dbg tr st bs = (Some (Inr None) :: (unit, unit) parsed, st', bs') \<Longrightarrow> ca_run dbg tr s xs (st', bs')"
| item: "ca_run dbg tr s xs (st, bs) \<Longrightarrow> st \<noteq> Done \<Longrightarrow> need_min st \<le> length bs \<Longrightarrow>
    spec_parse dbg tr st bs = (Some (Inr (Some m)) :: (unit, unit) parsed, st', bs') \<Longrightarrow>
    ca_run dbg tr s (xs @ [m]) (st', bs')"

text \<open>Decoding does not depend on the types of the errors of buffer and socket.\<close>

abbreviation conv :: "(('b, 'io) CaError, 'a) result panics \<Rightarrow> (('c, 'jo) CaError, 'a) result panics" where
  "conv \<equiv> map_option (map_sum (map_CaError (\<lambda>_. undefined) (\<lambda>_. undefined)) id)"

lemma conv_rbind: "conv (rbind m h) = rbind (conv m) (\<lambda>x. conv (h x))"
  by (cases m) (auto simp: rbind_def split: sum.split)

lemma conv_dbr: "map_sum (map_CaError f g) id (CaDbrType_from_ca_u16 k) = CaDbrType_from_ca_u16 k"
  by (simp add: CaDbrType_from_ca_u16_def Let_def split: if_splits)

lemma conv_scalar: "map_sum (map_CaError f g) id (ca_scalar_value st b) = ca_scalar_value st b"
  by (cases st) (simp_all add: ca_scalar_value_def convert_scalar_def)

lemma conv_wave: "map_sum (map_CaError f g) id (ca_wave_value st n b) = ca_wave_value st n b"
  by (cases st) (simp_all add: ca_wave_value_def)

lemma conv_bind: "conv (Option.bind m h) = Option.bind m (\<lambda>x. conv (h x))"
  by (cases m) simp_all

lemma conv_meta: "conv (extract_meta mt b) = extract_meta mt b"
  by (cases mt) (simp_all add: extract_meta_def Let_def conv_bind if_distrib [of conv] cong: if_cong)

lemma conv_shape:
  "map_sum (map_CaError f g) id (case from_ca_count n of Inl _ \<Rightarrow> Inl BadCaCount | Inr sh \<Rightarrow> Inr sh)
    = (case from_ca_count n of Inl _ \<Rightarrow> Inl BadCaCount | Inr sh \<Rightarrow> Inr sh)"
  by (simp split: sum.split)

lemma conv_value:
  "map_sum (map_CaError f g) id (case sh of ShScalar \<Rightarrow> ca_scalar_value st b | ShWave n \<Rightarrow> ca_wave_value st (min (unat n) tr) b
      | ShImage _ _ \<Rightarrow> Inl CaImageUnsupported)
    = (case sh of ShScalar \<Rightarrow> ca_scalar_value st b | ShWave n \<Rightarrow> ca_wave_value st (min (unat n) tr) b
      | ShImage _ _ \<Rightarrow> Inl CaImageUnsupported)"
  by (simp add: conv_scalar conv_wave split: Shape.split)

lemma conv_extract: "conv (extract_ca_data_value hi pl tr) = extract_ca_data_value hi pl tr"
  unfolding extract_ca_data_value_def split_beta
  by (simp add: conv_rbind conv_bind conv_dbr conv_meta conv_shape conv_value)

lemma conv_from_proto: "conv (from_proto_infos dbg hi pl tr) = from_proto_infos dbg hi pl tr"
  unfolding from_proto_infos_def Let_def
  by (simp add: conv_rbind conv_bind conv_extract if_distrib [of conv] cong: if_cong)

lemma from_proto_ok_iff:
  "(from_proto_infos dbg hi pl tr :: (('b, 'io) CaError, CaMsgTy) result panics) = Some (Inr m) \<longleftrightarrow>
   (from_proto_infos dbg hi pl tr :: (('c, 'jo) CaError, CaMsgTy) result panics) = Some (Inr m)"
proof -
  have *: "(from_proto_infos dbg hi pl tr :: (('c, 'jo) CaError, CaMsgTy) result panics)
      = conv (from_proto_infos dbg hi pl tr :: (('b, 'io) CaError, CaMsgTy) result panics)"
    by (rule conv_from_proto [symmetric])
  show ?thesis
  proof (cases "from_proto_infos dbg hi pl tr :: (('b, 'io) CaError, CaMsgTy) result panics")
    case None
    then show ?thesis by (simp add: *)
  next
    case (Some r)
    then show ?thesis by (cases r) (simp_all add: *)
  qed
qed

lemma spec_parse_types:
  assumes "spec_parse dbg tr st bs = (Some (Inr x) :: ('b, 'io) parsed, st', bs')"
  shows "spec_parse dbg tr st bs = (Some (Inr x) :: ('c, 'jo) parsed, st', bs')"
proof -
  have *: "map_option (map_sum id Some) (from_proto_infos dbg hi pl tr :: (('b, 'io) CaError, CaMsgTy) result panics) = Some (Inr x)
      \<Longrightarrow> map_option (map_sum id Some) (from_proto_infos dbg hi pl tr :: (('c, 'jo) CaError, CaMsgTy) result panics) = Some (Inr x)"
    for hi pl
  proof -
    assume "map_option (map_sum id Some) (from_proto_infos dbg hi pl tr :: (('b, 'io) CaError, CaMsgTy) result panics) = Some (Inr x)"
    then have "\<exists>m. x = Some m \<and>
        (from_proto_infos dbg hi pl tr :: (('b, 'io) CaError, CaMsgTy) result panics) = Some (Inr m)"
      by (cases "from_proto_infos dbg hi pl tr :: (('b, 'io) CaError, CaMsgTy) result panics")
        (auto simp: map_sum_def split: sum.splits)
    then obtain m where "x = Some m"
      "(from_proto_infos dbg hi pl tr :: (('b, 'io) CaError, CaMsgTy) result panics) = Some (Inr m)" by blast
    then show ?thesis using from_proto_ok_iff [where ?'b = 'b and ?'io = 'io and ?'c = 'c and ?'jo = 'jo] by simp
  qed
  show ?thesis
    using assms
    by (cases st) (auto simp: spec_parse_def Let_def * iff del: map_option_eq_Some split: if_splits)
qed

lemma spec_parse_none:
  assumes "spec_parse dbg tr st bs = (r :: ('b, 'io) parsed, st', bs')"
  shows "r = None \<longleftrightarrow> fst (spec_parse dbg tr st bs :: ('c, 'jo) parsed \<times> _) = None"
proof -
  have *: "(from_proto_infos dbg hi pl tr :: (('c, 'jo) CaError, CaMsgTy) result panics) = None \<longleftrightarrow>
      (from_proto_infos dbg hi pl tr :: (('b, 'io) CaError, CaMsgTy) result panics) = None" for hi pl
  proof -
    have "(from_proto_infos dbg hi pl tr :: (('c, 'jo) CaError, CaMsgTy) result panics)
        = conv (from_proto_infos dbg hi pl tr :: (('b, 'io) CaError, CaMsgTy) result panics)"
      by (rule conv_from_proto [symmetric])
    then show ?thesis by simp
  qed
  show ?thesis
    using assms by (cases st) (auto simp: spec_parse_def Let_def * split: if_splits)
qed

lemma head_of_append: "16 \<le> length bs \<Longrightarrow> head_of (bs @ zs) = head_of bs"
  by (simp add: head_of_def)

lemma spec_parse_append:
  assumes "st \<noteq> Done" and "need_min st \<le> length bs" and "spec_parse dbg tr st bs = (r, st', bs')"
  shows "spec_parse dbg tr st (bs @ zs) = (r, st', bs' @ zs)"
  using assms by (cases st) (auto simp: spec_parse_def Let_def head_of_append split: if_splits)

lemma ca_run_append:
  "ca_run dbg tr s xs t \<Longrightarrow> ca_run dbg tr (fst s, snd s @ zs) xs (fst t, snd t @ zs)"
proof (induction rule: ca_run.induct)
  case (start s)
  then show ?case by (rule ca_run.start)
next
  case (silent s xs st bs st' bs')
  show ?case
    using silent.IH silent.hyps(2,3) spec_parse_append [OF silent.hyps(2-4), of zs]
    by (auto intro: ca_run.silent [of _ _ _ _ st "bs @ zs"])
next
  case (item s xs st bs m st' bs')
  show ?case
    using item.IH item.hyps(2,3) spec_parse_append [OF item.hyps(2-4), of zs]
    by (auto intro: ca_run.item [of _ _ _ _ st "bs @ zs"])
qed

section \<open>Reading\<close>

text \<open>The weight of what the socket may still deliver, and of what is parsed.\<close>

definition in_w :: "'io tcp_read list \<Rightarrow> nat" where
  "in_w xs = (\<Sum>x\<leftarrow>xs. case x of RdData d \<Rightarrow> 4 * length d + 1 | _ \<Rightarrow> 1)"

fun st_w :: "CaState \<Rightarrow> nat" where
  "st_w (ExtHead _) = 2"
| "st_w (Payload _) = 1"
| "st_w _ = 0"

text \<open>All bytes received by the time the socket has delivered everything.\<close>

definition all_bytes :: "'io Tcp \<Rightarrow> bytes" where
  "all_bytes t = t_rcvd t @ concat (map (\<lambda>x. case x of RdData d \<Rightarrow> d | _ \<Rightarrow> []) (t_in t))"

lemma poll_read_ok:
  assumes "poll_read k t = (r, t')" and "0 < k"
  shows "all_bytes t' = all_bytes t \<and> t_out t' = t_out t \<and> t_sent t' = t_sent t \<and>
    (case r of Ready (Inr bs) \<Rightarrow> length bs \<le> k \<and> t_rcvd t' = t_rcvd t @ bs \<and> in_w (t_in t') + 4 * length bs \<le> in_w (t_in t)
     | _ \<Rightarrow> t_rcvd t' = t_rcvd t \<and> in_w (t_in t') \<le> in_w (t_in t))"
  using assms
  by (auto simp: poll_read_def all_bytes_def in_w_def split: list.splits tcp_read.splits)

section \<open>A parser of byte strings\<close>

datatype spec_end = Stuck CaState bytes | Failed "(unit, unit) CaError" | Panicked

lemma spec_parse_weight:
  assumes "st \<noteq> Done" and "need_min st \<le> length bs"
    and "spec_parse dbg tr st bs = (Some (Inr x) :: ('b, 'io) parsed, st', bs')"
  shows "3 * length bs' + st_w st' < 3 * length bs + st_w st"
  using assms by (cases st) (auto simp: spec_parse_def Let_def split: if_splits)

function ca_spec :: "DebugText \<Rightarrow> nat \<Rightarrow> CaState \<Rightarrow> bytes \<Rightarrow> CaMsgTy list \<times> spec_end" where
  "ca_spec dbg tr st bs =
     (if st = Done \<or> length bs < need_min st then ([], Stuck st bs)
      else case spec_parse dbg tr st bs of
             (None, _) \<Rightarrow> ([], Panicked)
           | (Some (Inl e), _) \<Rightarrow> ([], Failed e)
           | (Some (Inr None), st', bs') \<Rightarrow> ca_spec dbg tr st' bs'
           | (Some (Inr (Some m)), st', bs') \<Rightarrow> apfst (Cons m) (ca_spec dbg tr st' bs'))"
  by pat_completeness auto
termination
proof (relation "measure (\<lambda>(dbg, tr, st, bs). 3 * length bs + st_w st)", goal_cases)
  case 1
  then show ?case by simp
next
  case (2 dbg tr st bs r y r' x st' bs')
  from 2(2,6) have "spec_parse dbg tr st bs = (r, st', bs')" by simp
  with 2 show ?case using spec_parse_weight [where ?'b = unit and ?'io = unit, of st bs dbg tr None st' bs'] by auto
next
  case (3 dbg tr st bs r y r' x m st' bs')
  from 3(2,6) have "spec_parse dbg tr st bs = (r, st', bs')" by simp
  with 3 show ?case using spec_parse_weight [where ?'b = unit and ?'io = unit, of st bs dbg tr "Some m" st' bs'] by auto
qed
declare ca_spec.simps [simp del]

lemma ca_spec_run:
  "ca_run dbg tr s xs t \<Longrightarrow> ca_spec dbg tr (fst s) (snd s) = apfst (append xs) (ca_spec dbg tr (fst t) (snd t))"
proof (induction rule: ca_run.induct)
  case (start s)
  then show ?case by (simp add: apfst_def map_prod_def split: prod.split)
next
  case (silent s xs st bs st' bs')
  then have "ca_spec dbg tr st bs = ca_spec dbg tr st' bs'" by (subst ca_spec.simps) simp
  then show ?case using silent.IH by simp
next
  case (item s xs st bs m st' bs')
  then have "ca_spec dbg tr st bs = apfst (Cons m) (ca_spec dbg tr st' bs')" by (subst ca_spec.simps) simp
  then show ?case using item.IH by (cases "ca_spec dbg tr st' bs'") simp
qed

lemma ca_run_cons:
  assumes "ca_run dbg tr s xs t" and "s = (st', bs')" and "st \<noteq> Done" and "need_min st \<le> length bs"
    and "spec_parse dbg tr st bs = (Some (Inr x) :: (unit, unit) parsed, st', bs')"
  shows "ca_run dbg tr (st, bs) ((case x of None \<Rightarrow> [] | Some m \<Rightarrow> [m]) @ xs) t"
  using assms
proof (induction rule: ca_run.induct)
  case (start s)
  have "ca_run dbg tr (st, bs) [] (st, bs)" by (rule ca_run.start)
  with start show ?case
    using ca_run.silent [of dbg tr "(st, bs)" "[]" st bs st' bs'] ca_run.item [of dbg tr "(st, bs)" "[]" st bs _ st' bs']
    by (cases x) simp_all
next
  case (silent s xs st1 bs1 st2 bs2)
  then show ?case by (auto intro: ca_run.silent)
next
  case (item s xs st1 bs1 m st2 bs2)
  then show ?case using ca_run.item [of dbg tr "(st, bs)" "(case x of None \<Rightarrow> [] | Some m \<Rightarrow> [m]) @ xs" st1 bs1 m st2 bs2] by simp
qed

text \<open>A parser that panics does so after a run, at a state with enough bytes for the next item.\<close>

lemma ca_spec_panicked:
  "snd (ca_spec dbg tr st bs) = Panicked \<Longrightarrow> \<exists>xs st' bs'. ca_run dbg tr (st, bs) xs (st', bs') \<and> st' \<noteq> Done \<and>
     need_min st' \<le> length bs' \<and> fst (spec_parse dbg tr st' bs' :: (unit, unit) parsed \<times> _) = None"
proof (induction dbg tr st bs rule: ca_spec.induct)
  case (1 dbg tr st bs)
  obtain r st' bs' where r: "spec_parse dbg tr st bs = (r :: (unit, unit) parsed, st', bs')" by (cases "spec_parse dbg tr st bs :: (unit, unit) parsed \<times> _")
  have "\<not> (st = Done \<or> length bs < need_min st)" using 1(3) by (subst (asm) ca_spec.simps) (auto split: if_splits)
  then have nd: "st \<noteq> Done" "need_min st \<le> length bs" by simp_all
  show ?case
  proof (cases "\<exists>x. r = Some (Inr x)")
    case True
    then obtain x where x: "r = Some (Inr x)" by blast
    have "snd (ca_spec dbg tr st' bs') = Panicked"
      using 1(3) nd r x by (subst (asm) ca_spec.simps) (simp split: option.splits)
    then have "\<exists>xs st'' bs''. ca_run dbg tr (st', bs') xs (st'', bs'') \<and> st'' \<noteq> Done \<and> need_min st'' \<le> length bs'' \<and>
        fst (spec_parse dbg tr st'' bs'' :: (unit, unit) parsed \<times> _) = None"
      using 1(1) [OF _ r [symmetric] x refl _ refl] 1(2) [OF _ r [symmetric] x refl _ refl] nd by (cases x) auto
    then show ?thesis using ca_run_cons [OF _ refl nd r [unfolded x]] by blast
  next
    case False
    then have "r = None" using 1(3) nd r by (subst (asm) ca_spec.simps) (auto split: option.splits sum.splits)
    then show ?thesis using nd r by (intro exI [of _ "[]"] exI [of _ st] exI [of _ bs]) (simp add: ca_run.start)
  qed
qed

lemma no_panic_prefix:
  assumes "snd (ca_spec dbg tr st (bs @ zs)) \<noteq> Panicked"
  shows "snd (ca_spec dbg tr st bs) \<noteq> Panicked"
proof
  assume "snd (ca_spec dbg tr st bs) = Panicked"
  then obtain xs st' bs' where *: "ca_run dbg tr (st, bs) xs (st', bs')" "st' \<noteq> Done" "need_min st' \<le> length bs'"
    "fst (spec_parse dbg tr st' bs' :: (unit, unit) parsed \<times> _) = None"
    using ca_spec_panicked by blast
  have r: "ca_run dbg tr (st, bs @ zs) xs (st', bs' @ zs)" using ca_run_append [OF *(1), of zs] by simp
  obtain st'' bs'' where sp: "spec_parse dbg tr st' bs' = (None :: (unit, unit) parsed, st'', bs'')"
    using *(4) by (cases "spec_parse dbg tr st' bs' :: (unit, unit) parsed \<times> _") auto
  have "snd (ca_spec dbg tr st' (bs' @ zs)) = Panicked"
    using *(2,3) spec_parse_append [OF *(2,3) sp, of zs] by (subst ca_spec.simps) simp
  then show False using assms ca_spec_run [OF r] by simp
qed

section \<open>A client of the stream\<close>

text \<open>The client queues messages and polls; the results of the polls are collected.\<close>

datatype client_op = PushOut CaMsgTy | PollNext

fun ca_client :: "('s, 'b) ByteBuf \<Rightarrow> DebugText \<Rightarrow> client_op list \<Rightarrow> ('s, 'io) CaProto \<Rightarrow>
    ((('b, 'io) CaError, CaMsgTy) result option poll list \<times> ('s, 'io) CaProto) option" where
  "ca_client bb dbg [] p = Some ([], p)"
| "ca_client bb dbg (PushOut m # ops) p = ca_client bb dbg ops (push_out m p)"
| "ca_client bb dbg (PollNext # ops) p =
     do { (r, p) \<leftarrow> ca_poll_next bb dbg p; (rs, p) \<leftarrow> ca_client bb dbg ops p; Some (r # rs, p) }"

definition yielded :: "('e, CaMsgTy) result option poll \<Rightarrow> CaMsgTy list" where
  "yielded r = (case r of Ready (Some (Inr m)) \<Rightarrow> [m] | _ \<Rightarrow> [])"

fun pushes :: "client_op list \<Rightarrow> CaMsgTy list" where
  "pushes [] = []"
| "pushes (PushOut m # ops) = m # pushes ops"
| "pushes (PollNext # ops) = pushes ops"

section \<open>Encoding\<close>

text \<open>The messages that can be encoded; for the others the code panics.\<close>

fun sendable :: "CaMsgTy \<Rightarrow> bool" where
  "sendable (ErrorMsg _) = False"
| "sendable (ClientNameRes _) = False"
| "sendable (SearchResMsg _) = False"
| "sendable (CreateChanResMsg _) = False"
| "sendable (EventAddResMsg _) = False"
| "sendable (ReadNotifyResMsg _) = False"
| "sendable _ = True"

lemma padded_gt: "n < padded n"
  unfolding padded_def by presburger

lemma place_str_ok: "length s \<le> length buf \<Longrightarrow> place_str s buf = Some (s @ replicate (length buf - length s) 0)"
  by (simp add: place_str_def)

definition payload_of :: "CaMsgTy \<Rightarrow> bytes" where
  "payload_of m = the (place_payload_into m (replicate (the (payload_len m)) 0))"

lemma payload_ok:
  assumes "sendable m"
  shows "\<exists>pl cnt. payload_len m = Some pl \<and> data_count m = Some cnt \<and> length (payload_of m) = pl \<and>
    (\<forall>buf. length buf = pl \<longrightarrow> place_payload_into m buf = Some (payload_of m))"
proof (cases m)
  case ClientName
  have "length (str ''daqingest'') = 9" by (simp add: str_def)
  then show ?thesis using ClientName by (simp add: payload_of_def place_str_ok)
next
  case (HostName x)
  then show ?thesis using padded_gt [of "length x"] by (simp add: payload_of_def place_str_ok)
next
  case (SearchMsg x)
  then show ?thesis using padded_gt [of "length (se_channel x)"] by (simp add: payload_of_def place_str_ok)
next
  case (CreateChanMsg x)
  then show ?thesis using padded_gt [of "length (cc_channel x)"] by (simp add: payload_of_def place_str_ok)
qed (use assms in \<open>simp_all add: payload_of_def\<close>)

text \<open>The bytes of a message on the wire.\<close>

definition encode :: "CaMsgTy \<Rightarrow> bytes" where
  "encode m =
     (let pl = length (payload_of m); cnt = the (data_count m) in
      if is_std pl cnt
      then to_be 2 (cmdid m) @ to_be 2 (of_nat pl :: u16) @ to_be 2 (data_type m) @ to_be 2 (ucast cnt :: u16) @
        to_be 4 (param1 m) @ to_be 4 (param2 m) @ payload_of m
      else to_be 2 (cmdid m) @ [0xff, 0xff] @ to_be 2 (data_type m) @ [0x00, 0x00] @
        to_be 4 (param1 m) @ to_be 4 (param2 m) @ to_be 4 (of_nat pl :: u32) @ to_be 4 cnt @ payload_of m)"

lemma place_into_ok:
  assumes "sendable m"
  shows "msg_len m = Some (length (encode m)) \<and>
    (\<forall>buf. length buf = length (encode m) \<longrightarrow> place_into m buf = Some (encode m))"
proof -
  obtain pl cnt where p: "payload_len m = Some pl" "data_count m = Some cnt" "length (payload_of m) = pl"
    "\<forall>buf. length buf = pl \<longrightarrow> place_payload_into m buf = Some (payload_of m)"
    using payload_ok [OF assms] by blast
  show ?thesis
  proof (cases "is_std pl cnt")
    case True
    then show ?thesis
      using p by (auto simp: msg_len_def place_into_def encode_def Let_def is_std_def)
  next
    case False
    then show ?thesis
      using p by (auto simp: msg_len_def place_into_def encode_def Let_def is_std_def)
  qed
qed

context slide_buf
begin

lemma on_buf_ok: "f (cp_buf p) = Some (Inr x, s) \<Longrightarrow> on_buf f p = Some (Inr x, p\<lparr>cp_buf := s\<rparr>)"
  by (simp add: on_buf_def)

lemma read_u16_at:
  assumes "inv s" and "dat s = drop k d" and "k + 2 \<le> length d"
  shows "\<exists>s'. bb_read_u16_be bb s = Some (Inr (from_be (take 2 (drop k d))), s') \<and> inv s' \<and>
    dat s' = drop (k + 2) d \<and> bb_cap bb s' = bb_cap bb s"
proof -
  have "2 \<le> length (dat s)" using assms(2,3) by simp
  from read_u16 [OF assms(1) this] show ?thesis by (simp add: assms(2) add.commute)
qed

lemma read_u32_at:
  assumes "inv s" and "dat s = drop k d" and "k + 4 \<le> length d"
  shows "\<exists>s'. bb_read_u32_be bb s = Some (Inr (from_be (take 4 (drop k d))), s') \<and> inv s' \<and>
    dat s' = drop (k + 4) d \<and> bb_cap bb s' = bb_cap bb s"
proof -
  have "4 \<le> length (dat s)" using assms(2,3) by simp
  from read_u32 [OF assms(1) this] show ?thesis by (simp add: assms(2) add.commute)
qed

lemma read_head:
  assumes "inv (cp_buf p)" and "16 \<le> length (dat (cp_buf p))"
  shows "\<exists>s'. HeadInfo_from_netbuf bb p = Some (Inr (head_of (dat (cp_buf p))), p\<lparr>cp_buf := s'\<rparr>) \<and> inv s' \<and>
    dat s' = drop 16 (dat (cp_buf p)) \<and> bb_cap bb s' = bb_cap bb (cp_buf p)"
proof -
  define d where "d = dat (cp_buf p)"
  have l: "2 + 2 \<le> length d" "4 + 2 \<le> length d" "6 + 2 \<le> length d" "8 + 4 \<le> length d"
    "12 + 4 \<le> length d" using assms(2) by (simp_all add: d_def)
  obtain s1 where s1: "bb_read_u16_be bb (cp_buf p) = Some (Inr (from_be (take 2 d)), s1)" "inv s1"
    "dat s1 = drop 2 d" "bb_cap bb s1 = bb_cap bb (cp_buf p)"
    using read_u16 [OF assms(1)] assms(2) by (auto simp: d_def)
  obtain s2 where s2: "bb_read_u16_be bb s1 = Some (Inr (from_be (take 2 (drop 2 d))), s2)" "inv s2"
    "dat s2 = drop 4 d" "bb_cap bb s2 = bb_cap bb s1" using read_u16_at [OF s1(2,3) l(1)] by auto
  obtain s3 where s3: "bb_read_u16_be bb s2 = Some (Inr (from_be (take 2 (drop 4 d))), s3)" "inv s3"
    "dat s3 = drop 6 d" "bb_cap bb s3 = bb_cap bb s2" using read_u16_at [OF s2(2,3) l(2)] by auto
  obtain s4 where s4: "bb_read_u16_be bb s3 = Some (Inr (from_be (take 2 (drop 6 d))), s4)" "inv s4"
    "dat s4 = drop 8 d" "bb_cap bb s4 = bb_cap bb s3" using read_u16_at [OF s3(2,3) l(3)] by auto
  obtain s5 where s5: "bb_read_u32_be bb s4 = Some (Inr (from_be (take 4 (drop 8 d))), s5)" "inv s5"
    "dat s5 = drop 12 d" "bb_cap bb s5 = bb_cap bb s4" using read_u32_at [OF s4(2,3) l(4)] by auto
  obtain s6 where s6: "bb_read_u32_be bb s5 = Some (Inr (from_be (take 4 (drop 12 d))), s6)" "inv s6"
    "dat s6 = drop 16 d" "bb_cap bb s6 = bb_cap bb s5" using read_u32_at [OF s5(2,3) l(5)] by auto
  have "HeadInfo_from_netbuf bb p = Some (Inr (head_of d), p\<lparr>cp_buf := s6\<rparr>)"
    using s1(1) s2(1) s3(1) s4(1) s5(1) s6(1)
    by (simp add: HeadInfo_from_netbuf_def ca_bind_def on_buf_def head_of_def)
  with s6 s5(4) s4(4) s3(4) s2(4) s1(4) show ?thesis by (intro exI [of _ s6]) (simp add: d_def)
qed

text \<open>Only the input side changed.\<close>

definition parse_frame :: "('s, 'io) CaProto \<Rightarrow> ('s, 'io) CaProto \<Rightarrow> bool" where
  "parse_frame p p' \<longleftrightarrow> p' = p\<lparr>cp_buf := cp_buf p', cp_state := cp_state p',
     cp_event_add_res_cnt := cp_event_add_res_cnt p'\<rparr>"

text \<open>Parsing an item of the buffer is a step of the specification on the bytes it holds.\<close>

lemma parse_item_ok:
  assumes "inv (cp_buf p)" and "cp_state p \<noteq> Done" and "need_min (cp_state p) \<le> length (dat (cp_buf p))"
    and "spec_parse dbg (cp_array_truncate p) (cp_state p) (dat (cp_buf p)) = (r, st', bs')"
  shows "case r of None \<Rightarrow> parse_item bb dbg p = None
    | Some r' \<Rightarrow> \<exists>p'. parse_item bb dbg p = Some (r', p') \<and> parse_frame p p' \<and> inv (cp_buf p') \<and>
        dat (cp_buf p') = bs' \<and> bb_cap bb (cp_buf p') = bb_cap bb (cp_buf p) \<and> (\<not> isl r' \<longrightarrow> cp_state p' = st')"
proof (cases "cp_state p")
  case StdHead
  obtain s' where s': "HeadInfo_from_netbuf bb p = Some (Inr (head_of (dat (cp_buf p))), p\<lparr>cp_buf := s'\<rparr>)"
    "inv s'" "dat s' = drop 16 (dat (cp_buf p))" "bb_cap bb s' = bb_cap bb (cp_buf p)"
    using read_head [OF assms(1)] assms(3) StdHead by auto
  show ?thesis
    using assms(4) s' StdHead
    by (auto simp: parse_item_def spec_parse_def Let_def ca_bind_def decode_def parse_frame_def
        split: option.splits sum.splits if_splits)
next
  case (ExtHead hi)
  define d where "d = dat (cp_buf p)"
  have l: "4 + 4 \<le> length d" using assms(3) ExtHead by (simp_all add: d_def)
  obtain s1 where s1: "bb_read_u32_be bb (cp_buf p) = Some (Inr (from_be (take 4 d)), s1)" "inv s1"
    "dat s1 = drop 4 d" "bb_cap bb s1 = bb_cap bb (cp_buf p)"
    using read_u32 [OF assms(1)] assms(3) ExtHead by (auto simp: d_def)
  obtain s2 where s2: "bb_read_u32_be bb s1 = Some (Inr (from_be (take 4 (drop 4 d))), s2)" "inv s2"
    "dat s2 = drop 8 d" "bb_cap bb s2 = bb_cap bb s1" using read_u32_at [OF s1(2,3) l] by auto
  show ?thesis
    using assms(4) s1 s2 ExtHead
    by (auto simp: parse_item_def spec_parse_def Let_def ca_bind_def on_buf_def parse_frame_def d_def)
next
  case (Payload hi)
  define n where "n = unat (hi_payload_size hi)"
  obtain s' where s': "bb_read_bytes bb n (cp_buf p) = Some (Inr (take n (dat (cp_buf p))), s')"
    "inv s'" "dat s' = drop n (dat (cp_buf p))" "bb_cap bb s' = bb_cap bb (cp_buf p)"
    using read_bytes [OF assms(1), of n] assms(3) Payload by (auto simp: n_def)
  show ?thesis
    using assms(4) s' Payload
    by (auto simp: parse_item_def spec_parse_def Let_def ca_bind_def on_buf_def decode_def parse_frame_def n_def [symmetric]
        split: option.splits sum.splits CaMsgTy.splits)
next
  case Done
  then show ?thesis using assms(2) by simp
qed

section \<open>Writing\<close>

text \<open>Only the output side changed, or the state became final at the end of the connection.\<close>

definition out_frame :: "('s, 'io) CaProto \<Rightarrow> ('s, 'io) CaProto \<Rightarrow> bool" where
  "out_frame p p' \<longleftrightarrow> p' = p\<lparr>cp_tcp := cp_tcp p', cp_outbuf := cp_outbuf p', cp_out := cp_out p', cp_state := cp_state p'\<rparr> \<and>
     t_in (cp_tcp p') = t_in (cp_tcp p) \<and> t_rcvd (cp_tcp p') = t_rcvd (cp_tcp p) \<and>
     (cp_state p' = cp_state p \<or> cp_tcp_eof p \<and> cp_state p' = Done)"

text \<open>All bytes of the messages to send: what was sent, what is in the buffer, what is queued.\<close>

definition wire :: "('s, 'io) CaProto \<Rightarrow> bytes" where
  "wire p = t_sent (cp_tcp p) @ dat (cp_outbuf p) @ concat (map encode (cp_out p))"

definition out_ok :: "('s, 'io) CaProto \<Rightarrow> bool" where
  "out_ok p \<longleftrightarrow> inv (cp_outbuf p) \<and> (\<forall>m \<in> set (cp_out p). sendable m)"

lemma place_msgs_ok:
  assumes "out_ok p"
  shows "\<exists>p'. place_msgs bb p = Some (Inr (), p') \<and> out_frame p p' \<and> out_ok p' \<and> wire p' = wire p \<and>
    cp_state p' = cp_state p \<and> cp_tcp p' = cp_tcp p"
  using assms
proof (induction "cp_out p" arbitrary: p)
  case Nil
  then show ?case by (subst place_msgs.simps) (simp add: out_msg_buf_def out_frame_def)
next
  case (Cons m ms)
  let ?n = "length (encode m)"
  have m: "sendable m" "inv (cp_outbuf p)" using Cons.prems by (simp_all add: out_ok_def Cons.hyps(2) [symmetric])
  have ml: "msg_len m = Some ?n" using place_into_ok [OF m(1)] by blast
  obtain r s where r: "bb_area bb ?n (cp_outbuf p) = Some (r, s)" "inv s" "dat s = dat (cp_outbuf p)"
    "bb_cap bb s = bb_cap bb (cp_outbuf p)"
    "case r of Inr a \<Rightarrow> ?n \<le> length a \<and> (\<forall>bs. length bs \<le> length a \<longrightarrow>
       (\<exists>s1 s2. bb_fill bb bs s = Some s1 \<and> bb_wadv bb (length bs) s1 = Some (Inr (), s2) \<and>
         inv s2 \<and> dat s2 = dat (cp_outbuf p) @ bs \<and> bb_cap bb s2 = bb_cap bb (cp_outbuf p)))
     | Inl _ \<Rightarrow> bb_cap bb (cp_outbuf p) < length (dat (cp_outbuf p)) + ?n"
    using area [OF m(2), of ?n] by blast
  show ?case
  proof (cases r)
    case (Inl e)
    have "place_msgs bb p = Some (Inr (), p\<lparr>cp_outbuf := s\<rparr>)"
      using Cons.hyps(2) [symmetric] ml r(1) Inl by (subst place_msgs.simps) (simp add: out_msg_buf_def)
    then show ?thesis
      using r(2,3) Cons.prems by (auto simp: out_frame_def out_ok_def wire_def)
  next
    case (Inr a)
    then have fit: "?n \<le> length a" using r(5) by simp
    then have pl: "place_into m (take ?n a) = Some (encode m)" using place_into_ok [OF m(1)] by simp
    obtain s1 s2 where s2: "bb_fill bb (encode m) s = Some s1" "bb_wadv bb ?n s1 = Some (Inr (), s2)" "inv s2"
      "dat s2 = dat (cp_outbuf p) @ encode m"
      using r(5) Inr fit by auto
    let ?p = "p\<lparr>cp_outbuf := s2, cp_out := ms\<rparr>"
    have eq: "place_msgs bb p = place_msgs bb ?p"
      using Cons.hyps(2) [symmetric] ml r(1) Inr fit pl s2(1,2)
      by (subst place_msgs.simps) (simp add: out_msg_buf_def)
    have ok: "out_ok ?p" using Cons.prems s2(3) by (simp add: out_ok_def Cons.hyps(2) [symmetric])
    have w: "wire ?p = wire p" using s2(4) by (simp add: wire_def Cons.hyps(2) [symmetric])
    obtain p' where p': "place_msgs bb ?p = Some (Inr (), p')" "out_frame ?p p'" "out_ok p'" "wire p' = wire ?p"
      "cp_state p' = cp_state ?p" "cp_tcp p' = cp_tcp ?p"
      using Cons.hyps(1) [of ?p] ok by auto
    have "out_frame p p'" using p'(2,5,6) by (simp add: out_frame_def)
    then show ?thesis using eq p' w by simp
  qed
qed

lemma attempt_output_ok:
  assumes "out_ok p"
  shows "\<exists>r p'. attempt_output bb p = Some (r, p') \<and> out_frame p p' \<and> out_ok p' \<and> wire p' = wire p \<and>
    cp_state p' = cp_state p \<and> length (t_out (cp_tcp p')) \<le> length (t_out (cp_tcp p)) \<and>
    (\<forall>n. r = Ready (Inr n) \<longrightarrow> length (t_out (cp_tcp p')) < length (t_out (cp_tcp p)))"
proof -
  have i: "inv (cp_outbuf p)" using assms by (simp add: out_ok_def)
  let ?b = "dat (cp_outbuf p)"
  show ?thesis
  proof (cases "t_out (cp_tcp p)")
    case Nil
    then show ?thesis
      using assms data [OF i] by (simp add: attempt_output_def poll_write_def out_frame_def)
  next
    case (Cons w ws)
    show ?thesis
    proof (cases w)
      case WrPending
      then show ?thesis
        using assms data [OF i] Cons
        by (auto simp: attempt_output_def poll_write_def out_frame_def out_ok_def wire_def)
    next
      case (WrErr e)
      then show ?thesis
        using assms data [OF i] Cons
        by (auto simp: attempt_output_def poll_write_def out_frame_def out_ok_def wire_def)
    next
      case (WrAccept n)
      let ?k = "min n (length ?b)"
      obtain s where s: "bb_adv bb ?k (cp_outbuf p) = Some (Inr (), s)" "inv s" "dat s = drop ?k ?b"
        using adv [OF i, of ?k] by auto
      let ?p = "p\<lparr>cp_tcp := (cp_tcp p)\<lparr>t_out := ws, t_sent := t_sent (cp_tcp p) @ take n ?b\<rparr>, cp_outbuf := s\<rparr>"
      have "attempt_output bb p = Some (Ready (Inr ?k), ?p)"
        using data [OF i] Cons WrAccept s(1) by (simp add: attempt_output_def poll_write_def)
      moreover have "take n ?b @ drop ?k ?b = ?b" by (simp add: min_def)
      then have "wire ?p = wire p" using s(3) by (simp add: wire_def)
      moreover have "out_frame p ?p" "out_ok ?p" using assms s(2) by (simp_all add: out_frame_def out_ok_def)
      ultimately show ?thesis using Cons by (intro exI [of _ "Ready (Inr ?k)"] exI [of _ ?p]) simp
    qed
  qed
qed

lemma out_frame_trans:
  assumes "out_frame p q" and "out_frame q r" and "cp_state q = cp_state p"
  shows "out_frame p r"
proof -
  have q: "q = p\<lparr>cp_tcp := cp_tcp q, cp_outbuf := cp_outbuf q, cp_out := cp_out q, cp_state := cp_state q\<rparr>"
    using assms(1) by (simp add: out_frame_def)
  have "r = q\<lparr>cp_tcp := cp_tcp r, cp_outbuf := cp_outbuf r, cp_out := cp_out r, cp_state := cp_state r\<rparr>"
    using assms(2) by (simp add: out_frame_def)
  also have "\<dots> = p\<lparr>cp_tcp := cp_tcp r, cp_outbuf := cp_outbuf r, cp_out := cp_out r, cp_state := cp_state r\<rparr>"
    by (subst q) simp
  finally have r: "r = p\<lparr>cp_tcp := cp_tcp r, cp_outbuf := cp_outbuf r, cp_out := cp_out r, cp_state := cp_state r\<rparr>" .
  have "cp_tcp_eof q = cp_tcp_eof p" by (subst q) simp
  then show ?thesis using assms r by (simp add: out_frame_def)
qed

lemma write_out_ok:
  assumes "out_ok p"
  shows "\<exists>r p'. write_out bb hp p = Some (r, p') \<and> out_frame p p' \<and> out_ok p' \<and> wire p' = wire p \<and>
    cp_state p' = cp_state p \<and> length (t_out (cp_tcp p')) \<le> length (t_out (cp_tcp p)) \<and>
    (\<forall>pend. r = Inr (True, pend) \<and> \<not> hp \<longrightarrow> length (t_out (cp_tcp p')) < length (t_out (cp_tcp p)))"
  using assms
proof (induction "length (t_out (cp_tcp p))" arbitrary: p hp rule: less_induct)
  case less
  obtain r1 p1 where r1: "attempt_output bb p = Some (r1, p1)" "out_frame p p1" "out_ok p1" "wire p1 = wire p"
    "cp_state p1 = cp_state p" "length (t_out (cp_tcp p1)) \<le> length (t_out (cp_tcp p))"
    "\<forall>n. r1 = Ready (Inr n) \<longrightarrow> length (t_out (cp_tcp p1)) < length (t_out (cp_tcp p))"
    using attempt_output_ok [OF less.prems] by blast
  show ?case
  proof (cases "bb_len bb (cp_outbuf p) = 0")
    case True
    then show ?thesis using less.prems by (subst write_out.simps) (simp add: out_frame_def)
  next
    case False
    show ?thesis
    proof (cases "\<exists>n. r1 = Ready (Inr n) \<and> n \<noteq> 0")
      case True
      then obtain n where n: "r1 = Ready (Inr n)" "n \<noteq> 0" by blast
      have eq: "write_out bb hp p = write_out bb True p1"
        using False r1(1) n by (subst write_out.simps) simp
      have lt: "length (t_out (cp_tcp p1)) < length (t_out (cp_tcp p))" using r1(7) n by blast
      obtain r p' where *: "write_out bb True p1 = Some (r, p')" "out_frame p1 p'" "out_ok p'" "wire p' = wire p1"
        "cp_state p' = cp_state p1" "length (t_out (cp_tcp p')) \<le> length (t_out (cp_tcp p1))"
        using less.hyps [OF lt r1(3), of True] by blast
      have "out_frame p p'" by (rule out_frame_trans [OF r1(2) *(2) r1(5)])
      then show ?thesis using eq * r1(4,5) lt by (intro exI [of _ r] exI [of _ p']) simp
    next
      case nz: False
      have "\<exists>r. write_out bb hp p = Some (r, p1) \<and> (\<forall>pend. r = Inr (True, pend) \<longrightarrow> hp)"
      proof (cases r1)
        case Pending
        then have "write_out bb hp p = Some (Inr (hp, True), p1)"
          using False r1(1) by (subst write_out.simps) simp
        then show ?thesis by simp
      next
        case (Ready x)
        then have "write_out bb hp p = Some (case x of Inl e \<Rightarrow> Inl e | Inr _ \<Rightarrow> Inl LogicError, p1)"
          using False r1(1) nz by (subst write_out.simps) (simp split: sum.splits)
        then show ?thesis by (simp split: sum.splits)
      qed
      then show ?thesis using r1(2-6) by auto
    qed
  qed
qed

lemma poll_outbound_ok:
  assumes "out_ok p"
  shows "\<exists>r p'. poll_outbound bb p = Some (r, p') \<and> out_frame p p' \<and> out_ok p' \<and> wire p' = wire p \<and>
    length (t_out (cp_tcp p')) \<le> length (t_out (cp_tcp p)) \<and>
    (r = Inr OutProgress \<longrightarrow> length (t_out (cp_tcp p')) < length (t_out (cp_tcp p))) \<and>
    cp_state p' = (if r = Inr OutIdle \<and> cp_tcp_eof p then Done else cp_state p)"
proof -
  obtain p1 where p1: "place_msgs bb p = Some (Inr (), p1)" "out_frame p p1" "out_ok p1" "wire p1 = wire p"
    "cp_state p1 = cp_state p" "cp_tcp p1 = cp_tcp p"
    using place_msgs_ok [OF assms] by blast
  obtain r2 p2 where r2: "write_out bb False p1 = Some (r2, p2)" "out_frame p1 p2" "out_ok p2" "wire p2 = wire p1"
    "cp_state p2 = cp_state p1" "length (t_out (cp_tcp p2)) \<le> length (t_out (cp_tcp p1))"
    "\<forall>pend. r2 = Inr (True, pend) \<and> \<not> False \<longrightarrow> length (t_out (cp_tcp p2)) < length (t_out (cp_tcp p1))"
    using write_out_ok [OF p1(3), of False] by blast
  have f: "out_frame p p2" by (rule out_frame_trans [OF p1(2) r2(2) p1(5)])
  have e: "cp_tcp_eof p2 = cp_tcp_eof p"
    by (subst f [unfolded out_frame_def, THEN conjunct1]) simp
  have po: "poll_outbound bb p =
    (case r2 of Inl x \<Rightarrow> Some (Inl x, p2) | Inr (hp, pend) \<Rightarrow>
       if hp then Some (Inr OutProgress, p2) else if pend then Some (Inr OutPending, p2)
       else Some (Inr OutIdle, if cp_tcp_eof p2 then p2\<lparr>cp_state := Done\<rparr> else p2))"
    by (simp add: poll_outbound_def ca_bind_def p1(1) r2(1) split: sum.splits)
  have "p2\<lparr>cp_state := Done\<rparr> =
      p\<lparr>cp_tcp := cp_tcp p2, cp_outbuf := cp_outbuf p2, cp_out := cp_out p2, cp_state := Done\<rparr>"
    by (subst f [unfolded out_frame_def, THEN conjunct1]) simp
  then have d: "out_frame p (p2\<lparr>cp_state := Done\<rparr>)" if "cp_tcp_eof p2"
    using f that by (simp add: out_frame_def e)
  show ?thesis
    using po d f e r2 p1 by (auto simp: out_ok_def wire_def split: sum.splits prod.splits if_splits)
qed

section \<open>Reading and parsing\<close>

definition read_frame :: "('s, 'io) CaProto \<Rightarrow> ('s, 'io) CaProto \<Rightarrow> bool" where
  "read_frame p p' \<longleftrightarrow> p' = p\<lparr>cp_tcp := cp_tcp p', cp_tcp_eof := cp_tcp_eof p', cp_buf := cp_buf p',
      cp_tcp_read_bytes := cp_tcp_read_bytes p'\<rparr> \<and>
     t_out (cp_tcp p') = t_out (cp_tcp p) \<and> t_sent (cp_tcp p') = t_sent (cp_tcp p) \<and>
     all_bytes (cp_tcp p') = all_bytes (cp_tcp p)"

lemma read_frame_trans:
  assumes "read_frame p q" and "read_frame q r"
  shows "read_frame p r"
proof -
  have q: "q = p\<lparr>cp_tcp := cp_tcp q, cp_tcp_eof := cp_tcp_eof q, cp_buf := cp_buf q, cp_tcp_read_bytes := cp_tcp_read_bytes q\<rparr>"
    using assms(1) by (simp add: read_frame_def)
  have "r = q\<lparr>cp_tcp := cp_tcp r, cp_tcp_eof := cp_tcp_eof r, cp_buf := cp_buf r, cp_tcp_read_bytes := cp_tcp_read_bytes r\<rparr>"
    using assms(2) by (simp add: read_frame_def)
  also have "\<dots> = p\<lparr>cp_tcp := cp_tcp r, cp_tcp_eof := cp_tcp_eof r, cp_buf := cp_buf r, cp_tcp_read_bytes := cp_tcp_read_bytes r\<rparr>"
    by (subst q) simp
  finally show ?thesis using assms by (simp add: read_frame_def)
qed

text \<open>What reading gives: the bytes received are the bytes appended to the buffer.\<close>

definition read_post :: "('s, 'io) CaProto \<Rightarrow> ('s, 'io) CaProto \<Rightarrow> bytes \<Rightarrow> bool" where
  "read_post p p' bs \<longleftrightarrow> read_frame p p' \<and> inv (cp_buf p') \<and> dat (cp_buf p') = dat (cp_buf p) @ bs \<and>
     t_rcvd (cp_tcp p') = t_rcvd (cp_tcp p) @ bs \<and> in_w (t_in (cp_tcp p')) + 4 * length bs \<le> in_w (t_in (cp_tcp p))"

lemma read_post_trans:
  assumes "read_post p q bs" and "read_post q r cs"
  shows "read_post p r (bs @ cs)"
  using assms read_frame_trans [of p q r] by (auto simp: read_post_def)

lemma read_loop_ok:
  assumes "inv (cp_buf p)"
  shows "\<exists>r p' bs. read_loop bb need hp p = Some (r, p') \<and> read_post p p' bs \<and>
    (\<forall>hp' e. r = Inr (hp', e) \<longrightarrow> hp' = (hp \<or> bs \<noteq> []) \<and> (e = ReadPending \<longrightarrow> \<not> cp_tcp_eof p))"
  using assms
proof (induction "in_w (t_in (cp_tcp p))" arbitrary: p hp rule: less_induct)
  case less
  show ?case
  proof (cases "cp_tcp_eof p")
    case True
    then show ?thesis
      using less.prems by (subst read_loop.simps) (simp add: read_post_def read_frame_def)
  next
    case eof: False
    obtain a s where a: "bb_area bb need (cp_buf p) = Some (a, s)" "inv s" "dat s = dat (cp_buf p)"
      "case a of Inr x \<Rightarrow> need \<le> length x \<and> (\<forall>bs. length bs \<le> length x \<longrightarrow>
         (\<exists>s1 s2. bb_fill bb bs s = Some s1 \<and> bb_wadv bb (length bs) s1 = Some (Inr (), s2) \<and>
           inv s2 \<and> dat s2 = dat (cp_buf p) @ bs \<and> bb_cap bb s2 = bb_cap bb (cp_buf p)))
       | Inl _ \<Rightarrow> bb_cap bb (cp_buf p) < length (dat (cp_buf p)) + need"
      using area [OF less.prems, of need] by blast
    let ?p1 = "p\<lparr>cp_buf := s\<rparr>"
    have p1: "read_post p ?p1 []" using a by (simp add: read_post_def read_frame_def)
    show ?thesis
    proof (cases "\<exists>x. a = Inr x \<and> x \<noteq> []")
      case False
      then have "read_loop bb need hp p = Some (Inl (case a of Inl e \<Rightarrow> SlideBufError e | Inr _ \<Rightarrow> NoReadBufferSpace), ?p1)"
        using eof a(1) by (subst read_loop.simps) (auto split: sum.splits)
      then show ?thesis using p1 by blast
    next
      case True
      then obtain x where x: "a = Inr x" "0 < length x" by auto
      obtain r t where r: "poll_read (length x) (cp_tcp p) = (r, t)" by (cases "poll_read (length x) (cp_tcp p)")
      note pr = poll_read_ok [OF r x(2)]
      let ?p2 = "?p1\<lparr>cp_tcp := t\<rparr>"
      consider (stop) "\<not> (\<exists>bs. r = Ready (Inr bs) \<and> bs \<noteq> [])" | (data) bs where "r = Ready (Inr bs)" "bs \<noteq> []" by blast
      then show ?thesis
      proof cases
        case stop
        let ?p3 = "if r = Ready (Inr []) then ?p2\<lparr>cp_tcp_eof := True\<rparr> else ?p2"
        have "read_loop bb need hp p =
            Some (case r of Pending \<Rightarrow> Inr (hp, ReadPending) | Ready (Inl e) \<Rightarrow> Inl (IO e) | Ready (Inr _) \<Rightarrow> Inr (hp, ReadStop), ?p3)"
          using eof a(1) x r stop by (subst read_loop.simps) (auto split: poll.splits sum.splits)
        moreover have "read_post p ?p3 []"
          using pr a(2,3) stop by (auto simp: read_post_def read_frame_def split: poll.splits sum.splits)
        ultimately show ?thesis
          using eof by (intro exI conjI) (auto split: poll.splits sum.splits)
      next
        case data
        obtain s1 s2 where s2: "bb_fill bb bs s = Some s1" "bb_wadv bb (length bs) s1 = Some (Inr (), s2)" "inv s2"
          "dat s2 = dat (cp_buf p) @ bs"
          using a(4) x pr data by auto
        let ?p3 = "?p2\<lparr>cp_buf := s2, cp_tcp_read_bytes := cp_tcp_read_bytes p + of_nat (length bs)\<rparr>"
        have eq: "read_loop bb need hp p = read_loop bb need True ?p3"
          using eof a(1) x r data s2(1,2) by (subst read_loop.simps) simp
        have p3: "read_post p ?p3 bs" using pr data s2(3,4) by (simp add: read_post_def read_frame_def)
        then have "in_w (t_in (cp_tcp ?p3)) < in_w (t_in (cp_tcp p))" using data by (cases bs) (simp_all add: read_post_def)
        from less.hyps [OF this, of True] s2(3)
        obtain r' p' cs where r': "read_loop bb need True ?p3 = Some (r', p')" "read_post ?p3 p' cs"
          "\<forall>hp' e. r' = Inr (hp', e) \<longrightarrow> hp' = (True \<or> cs \<noteq> []) \<and> (e = ReadPending \<longrightarrow> \<not> cp_tcp_eof ?p3)"
          by auto
        then show ?thesis
          using eq eof data read_post_trans [OF p3 r'(2)] by (intro exI [of _ r'] exI [of _ p'] exI [of _ "bs @ cs"]) auto
      qed
    qed
  qed
qed

text \<open>
  The items yielded so far and those in the result queue are the messages of a run of the parser on
  the bytes received, and, unless the stream is done, the run stopped where the buffer is.
\<close>

definition in_ok :: "DebugText \<Rightarrow> CaMsgTy list \<Rightarrow> ('s, 'io) CaProto \<Rightarrow> bool" where
  "in_ok dbg Y p \<longleftrightarrow> inv (cp_buf p) \<and>
     (\<exists>st bs. ca_run dbg (cp_array_truncate p) (StdHead, t_rcvd (cp_tcp p)) (Y @ cp_resqu p) (st, bs) \<and>
        (cp_state p \<noteq> Done \<longrightarrow> st = cp_state p \<and> bs = dat (cp_buf p)))"

definition loop_frame :: "('s, 'io) CaProto \<Rightarrow> ('s, 'io) CaProto \<Rightarrow> bool" where
  "loop_frame p p' \<longleftrightarrow> p' = p\<lparr>cp_buf := cp_buf p', cp_state := cp_state p',
     cp_event_add_res_cnt := cp_event_add_res_cnt p', cp_resqu := cp_resqu p'\<rparr>"

lemma loop_frame_trans:
  assumes "loop_frame p q" and "loop_frame q r"
  shows "loop_frame p r"
proof -
  have q: "q = p\<lparr>cp_buf := cp_buf q, cp_state := cp_state q, cp_event_add_res_cnt := cp_event_add_res_cnt q, cp_resqu := cp_resqu q\<rparr>"
    using assms(1) by (simp add: loop_frame_def)
  have "r = q\<lparr>cp_buf := cp_buf r, cp_state := cp_state r, cp_event_add_res_cnt := cp_event_add_res_cnt r, cp_resqu := cp_resqu r\<rparr>"
    using assms(2) by (simp add: loop_frame_def)
  also have "\<dots> = p\<lparr>cp_buf := cp_buf r, cp_state := cp_state r, cp_event_add_res_cnt := cp_event_add_res_cnt r, cp_resqu := cp_resqu r\<rparr>"
    by (subst q) simp
  finally show ?thesis by (simp add: loop_frame_def)
qed

lemma loop_frameD:
  assumes "loop_frame p p'"
  shows "cp_tcp p' = cp_tcp p" "cp_array_truncate p' = cp_array_truncate p" "cp_resqu_cap p' = cp_resqu_cap p"
    "cp_outbuf p' = cp_outbuf p" "cp_out p' = cp_out p" "cp_tcp_eof p' = cp_tcp_eof p"
  by (subst assms [unfolded loop_frame_def], simp)+

definition pw :: "('s, 'io) CaProto \<Rightarrow> nat" where
  "pw p = 3 * length (dat (cp_buf p)) + st_w (cp_state p)"

abbreviation no_panic :: "DebugText \<Rightarrow> nat \<Rightarrow> bytes \<Rightarrow> bool" where
  "no_panic dbg tr bs \<equiv> snd (ca_spec dbg tr StdHead bs) \<noteq> Panicked"

text \<open>A step of the parser inside the loop.\<close>

lemma parse_step:
  fixes p :: "('s, 'io) CaProto"
  assumes "in_ok dbg Y p" and "cp_state p \<noteq> Done" and "need_min (cp_state p) \<le> length (dat (cp_buf p))"
    and "no_panic dbg (cp_array_truncate p) (t_rcvd (cp_tcp p))"
  shows "\<exists>r p'. parse_item bb dbg p = Some (r :: (('b, 'io) CaError, CaMsgTy option) result, p') \<and> loop_frame p p' \<and>
    cp_resqu p' = cp_resqu p \<and> in_ok dbg Y (p'\<lparr>cp_state := Done\<rparr>) \<and>
    (\<forall>x. r = Inr x \<longrightarrow> pw p' < pw p \<and>
       in_ok dbg Y (p'\<lparr>cp_resqu := cp_resqu p @ (case x of None \<Rightarrow> [] | Some m \<Rightarrow> [m])\<rparr>))"
proof -
  let ?tr = "cp_array_truncate p" and ?st = "cp_state p" and ?bs = "dat (cp_buf p)"
  have i: "inv (cp_buf p)" and run: "ca_run dbg ?tr (StdHead, t_rcvd (cp_tcp p)) (Y @ cp_resqu p) (?st, ?bs)"
    using assms(1,2) by (auto simp: in_ok_def)
  obtain r st' bs' where r: "spec_parse dbg ?tr ?st ?bs = (r :: ('b, 'io) parsed, st', bs')"
    by (cases "spec_parse dbg ?tr ?st ?bs :: ('b, 'io) parsed \<times> _")
  have "snd (ca_spec dbg ?tr ?st ?bs) \<noteq> Panicked" using assms(4) ca_spec_run [OF run] by simp
  then have "fst (spec_parse dbg ?tr ?st ?bs :: (unit, unit) parsed \<times> _) \<noteq> None"
    using assms(2,3) by (subst (asm) ca_spec.simps) (auto split: prod.splits option.splits)
  then have "r \<noteq> None" using spec_parse_none [OF r, where ?'c = unit and ?'jo = unit] by simp
  then obtain r' where r': "r = Some r'" by blast
  obtain p' where p': "parse_item bb dbg p = Some (r', p')" "parse_frame p p'" "inv (cp_buf p')"
    "dat (cp_buf p') = bs'" "\<not> isl r' \<longrightarrow> cp_state p' = st'"
    using parse_item_ok [OF i assms(2,3) r] r' by auto
  have f: "p' = p\<lparr>cp_buf := cp_buf p', cp_state := cp_state p', cp_event_add_res_cnt := cp_event_add_res_cnt p'\<rparr>"
    using p'(2) by (simp add: parse_frame_def)
  have g: "cp_tcp p' = cp_tcp p" "cp_array_truncate p' = ?tr" "cp_resqu p' = cp_resqu p" by (subst f, simp)+
  have lf: "loop_frame p p'" unfolding loop_frame_def by (subst f) (simp add: g)
  have d: "in_ok dbg Y (p'\<lparr>cp_state := Done\<rparr>)" using p'(3) run by (auto simp: in_ok_def g)
  have "pw p' < pw p \<and> in_ok dbg Y (p'\<lparr>cp_resqu := cp_resqu p @ (case x of None \<Rightarrow> [] | Some m \<Rightarrow> [m])\<rparr>)"
    if x: "r' = Inr x" for x
  proof -
    note sp = r [unfolded r' x]
    have "pw p' < pw p" using spec_parse_weight [OF assms(2,3) sp] p'(4,5) x by (simp add: pw_def)
    moreover have "ca_run dbg ?tr (StdHead, t_rcvd (cp_tcp p)) ((Y @ cp_resqu p) @ (case x of None \<Rightarrow> [] | Some m \<Rightarrow> [m])) (st', bs')"
      using ca_run.silent [OF run assms(2,3)] ca_run.item [OF run assms(2,3)] spec_parse_types [OF sp]
      by (cases x) simp_all
    ultimately show ?thesis using p'(3-5) x by (auto simp: in_ok_def g)
  qed
  then show ?thesis using p'(1) lf d g(3) by blast
qed

lemma parse_loop_ok:
  fixes p :: "('s, 'io) CaProto"
  assumes "in_ok dbg Y p" and "no_panic dbg (cp_array_truncate p) (t_rcvd (cp_tcp p))"
  shows "\<exists>r p'. parse_loop bb dbg hp p = Some (r, p') \<and> loop_frame p p' \<and> in_ok dbg Y (p'\<lparr>cp_state := Done\<rparr>) \<and>
    (\<forall>hp'. r = Inr hp' \<longrightarrow> in_ok dbg Y p' \<and> pw p' \<le> pw p \<and> (hp \<longrightarrow> hp') \<and> (hp' \<and> \<not> hp \<longrightarrow> pw p' < pw p) \<and>
       (\<not> hp' \<longrightarrow> p' = p \<and> (length (cp_resqu p) < cp_resqu_cap p \<longrightarrow> length (dat (cp_buf p)) < need_min (cp_state p))))"
  using assms
proof (induction "pw p" arbitrary: p hp rule: less_induct)
  case less
  have i: "inv (cp_buf p)" using less.prems(1) by (simp add: in_ok_def)
  have d: "in_ok dbg Y (p\<lparr>cp_state := Done\<rparr>)" using less.prems(1) by (auto simp: in_ok_def)
  show ?case
  proof (cases "length (cp_resqu p) < cp_resqu_cap p \<and> need_min (cp_state p) \<le> length (dat (cp_buf p))")
    case False
    then have "parse_loop bb dbg hp p = Some (Inr hp, p)" by (subst parse_loop.simps) (simp add: len [OF i])
    then show ?thesis using less.prems(1) d False by (auto simp: loop_frame_def)
  next
    case go: True
    show ?thesis
    proof (cases "cp_state p = Done")
      case True
      then have "parse_loop bb dbg hp p = Some (Inl ParseAttemptInDoneState, p)"
        using go by (subst parse_loop.simps) (simp add: len [OF i] parse_item_def)
      then show ?thesis using d by (auto simp: loop_frame_def)
    next
      case nd: False
      obtain r q where q: "parse_item bb dbg p = Some (r :: (('b, 'io) CaError, CaMsgTy option) result, q)" "loop_frame p q"
        "in_ok dbg Y (q\<lparr>cp_state := Done\<rparr>)"
        "\<forall>x. r = Inr x \<longrightarrow> pw q < pw p \<and>
           in_ok dbg Y (q\<lparr>cp_resqu := cp_resqu p @ (case x of None \<Rightarrow> [] | Some m \<Rightarrow> [m])\<rparr>)"
        "cp_resqu q = cp_resqu p"
        using parse_step [OF less.prems(1) nd _ less.prems(2)] go by blast
      show ?thesis
      proof (cases r)
        case (Inl e)
        then have "parse_loop bb dbg hp p = Some (Inl e, q)"
          using go q(1) by (subst parse_loop.simps) (simp add: len [OF i])
        then show ?thesis using q(2,3) by auto
      next
        case (Inr x)
        let ?q = "q\<lparr>cp_resqu := cp_resqu p @ (case x of None \<Rightarrow> [] | Some m \<Rightarrow> [m])\<rparr>"
        have eq: "parse_loop bb dbg hp p = parse_loop bb dbg True ?q"
          using go q(1) Inr by (subst parse_loop.simps) (simp add: len [OF i] flip: q(5) split: option.splits)
        have "loop_frame q ?q" by (simp add: loop_frame_def)
        then have lf: "loop_frame p ?q" by (rule loop_frame_trans [OF q(2)])
        have lt: "pw ?q < pw p" "in_ok dbg Y ?q" using q(4) Inr by (simp_all add: pw_def)
        have np: "no_panic dbg (cp_array_truncate ?q) (t_rcvd (cp_tcp ?q))"
          using less.prems(2) loop_frameD [OF q(2)] by simp
        obtain r' p' where r': "parse_loop bb dbg True ?q = Some (r', p')" "loop_frame ?q p'" "in_ok dbg Y (p'\<lparr>cp_state := Done\<rparr>)"
          "\<forall>hp'. r' = Inr hp' \<longrightarrow> in_ok dbg Y p' \<and> pw p' \<le> pw ?q \<and> hp'"
          using less.hyps [OF lt np, of True] by blast
        then show ?thesis using eq loop_frame_trans [OF lf r'(2)] lt(1) by fastforce
      qed
    qed
  qed
qed

section \<open>Polling\<close>

lemma in_ok_out:
  assumes "in_ok dbg Y p" and "out_frame p p'"
  shows "in_ok dbg Y p'"
proof -
  have f: "p' = p\<lparr>cp_tcp := cp_tcp p', cp_outbuf := cp_outbuf p', cp_out := cp_out p', cp_state := cp_state p'\<rparr>"
    using assms(2) by (simp add: out_frame_def)
  have e: "cp_buf p' = cp_buf p" "cp_array_truncate p' = cp_array_truncate p" "cp_resqu p' = cp_resqu p" by (subst f, simp)+
  have "t_rcvd (cp_tcp p') = t_rcvd (cp_tcp p)" "cp_state p' \<noteq> Done \<longrightarrow> cp_state p' = cp_state p"
    using assms(2) by (auto simp: out_frame_def)
  then show ?thesis using assms(1) unfolding in_ok_def e by metis
qed

lemma in_ok_read:
  assumes "in_ok dbg Y p" and "read_post p p' zs"
  shows "in_ok dbg Y p'"
proof -
  have f: "p' = p\<lparr>cp_tcp := cp_tcp p', cp_tcp_eof := cp_tcp_eof p', cp_buf := cp_buf p', cp_tcp_read_bytes := cp_tcp_read_bytes p'\<rparr>"
    using assms(2) by (simp add: read_post_def read_frame_def)
  have e: "cp_state p' = cp_state p" "cp_array_truncate p' = cp_array_truncate p" "cp_resqu p' = cp_resqu p" by (subst f, simp)+
  obtain st bs where "ca_run dbg (cp_array_truncate p) (StdHead, t_rcvd (cp_tcp p)) (Y @ cp_resqu p) (st, bs)"
    and st: "cp_state p \<noteq> Done \<longrightarrow> st = cp_state p \<and> bs = dat (cp_buf p)"
    using assms(1) by (auto simp: in_ok_def)
  then have "ca_run dbg (cp_array_truncate p) (StdHead, t_rcvd (cp_tcp p) @ zs) (Y @ cp_resqu p) (st, bs @ zs)"
    using ca_run_append [of dbg _ "(StdHead, t_rcvd (cp_tcp p))" _ "(st, bs)" zs] by simp
  then show ?thesis using assms(2) st by (auto simp: in_ok_def e read_post_def)
qed

text \<open>What every step keeps: the configuration, the bytes the socket delivers, the bytes to send.\<close>

definition kept :: "('s, 'io) CaProto \<Rightarrow> ('s, 'io) CaProto \<Rightarrow> bool" where
  "kept p p' \<longleftrightarrow> cp_array_truncate p' = cp_array_truncate p \<and> cp_resqu_cap p' = cp_resqu_cap p \<and>
     all_bytes (cp_tcp p') = all_bytes (cp_tcp p) \<and> wire p' = wire p"

lemma kept_out:
  assumes "out_frame p p'" and "wire p' = wire p"
  shows "kept p p'" "cp_resqu p' = cp_resqu p" "cp_tcp_eof p' = cp_tcp_eof p" "in_w (t_in (cp_tcp p')) = in_w (t_in (cp_tcp p))"
    "cp_buf p' = cp_buf p"
proof -
  have f: "p' = p\<lparr>cp_tcp := cp_tcp p', cp_outbuf := cp_outbuf p', cp_out := cp_out p', cp_state := cp_state p'\<rparr>"
    using assms(1) by (simp add: out_frame_def)
  show "cp_resqu p' = cp_resqu p" "cp_tcp_eof p' = cp_tcp_eof p" "cp_buf p' = cp_buf p" by (subst f, simp)+
  show "in_w (t_in (cp_tcp p')) = in_w (t_in (cp_tcp p))" using assms(1) by (simp add: out_frame_def)
  have "cp_array_truncate p' = cp_array_truncate p" "cp_resqu_cap p' = cp_resqu_cap p" by (subst f, simp)+
  then show "kept p p'" using assms by (auto simp: kept_def out_frame_def all_bytes_def)
qed

lemma kept_read:
  assumes "read_post p p' zs"
  shows "kept p p'" "cp_resqu p' = cp_resqu p" "cp_state p' = cp_state p" "out_ok p' = out_ok p"
    "length (t_out (cp_tcp p')) = length (t_out (cp_tcp p))"
proof -
  have f: "p' = p\<lparr>cp_tcp := cp_tcp p', cp_tcp_eof := cp_tcp_eof p', cp_buf := cp_buf p', cp_tcp_read_bytes := cp_tcp_read_bytes p'\<rparr>"
    using assms by (simp add: read_post_def read_frame_def)
  show "cp_resqu p' = cp_resqu p" "cp_state p' = cp_state p" by (subst f, simp)+
  have *: "cp_array_truncate p' = cp_array_truncate p" "cp_resqu_cap p' = cp_resqu_cap p" "cp_outbuf p' = cp_outbuf p"
    "cp_out p' = cp_out p" by (subst f, simp)+
  then show "kept p p'" using assms by (auto simp: kept_def read_post_def read_frame_def wire_def)
  show "out_ok p' = out_ok p" by (simp add: out_ok_def *)
  show "length (t_out (cp_tcp p')) = length (t_out (cp_tcp p))" using assms by (simp add: read_post_def read_frame_def)
qed

lemma kept_loop:
  assumes "loop_frame p p'"
  shows "kept p p'" "out_ok p' = out_ok p"
  using loop_frameD [OF assms] by (simp_all add: kept_def wire_def out_ok_def)

lemma kept_trans: "kept p q \<Longrightarrow> kept q r \<Longrightarrow> kept p r"
  by (simp add: kept_def)

definition total_w :: "('s, 'io) CaProto \<Rightarrow> nat" where
  "total_w p = length (t_out (cp_tcp p)) + in_w (t_in (cp_tcp p)) + pw p"

definition ca_ok :: "DebugText \<Rightarrow> CaMsgTy list \<Rightarrow> ('s, 'io) CaProto \<Rightarrow> bool" where
  "ca_ok dbg Y p \<longleftrightarrow> in_ok dbg Y p \<and> out_ok p"

lemma ca_ok_Done: "ca_ok dbg Y p \<Longrightarrow> ca_ok dbg Y (p\<lparr>cp_state := Done\<rparr>)"
  by (auto simp: ca_ok_def in_ok_def out_ok_def)

lemma kept_Done: "kept p p' \<Longrightarrow> kept p (p'\<lparr>cp_state := s\<rparr>)"
  by (simp add: kept_def wire_def)

definition body_post :: "DebugText \<Rightarrow> CaMsgTy list \<Rightarrow> ('s, 'io) CaProto \<Rightarrow> (('b, 'io) CaError, unit poll) result \<Rightarrow> ('s, 'io) CaProto \<Rightarrow> bool" where
  "body_post dbg Y p r p' \<longleftrightarrow> kept p p' \<and> ca_ok dbg Y (p'\<lparr>cp_state := Done\<rparr>) \<and>
     (case r of Inl _ \<Rightarrow> True
      | Inr x \<Rightarrow> ca_ok dbg Y p' \<and>
         (case x of Ready _ \<Rightarrow> cp_state p' = Done \<or> total_w p' < total_w p
          | Pending \<Rightarrow> cp_resqu p' = [] \<and> cp_state p' \<noteq> Done \<and> length (dat (cp_buf p')) < need_min (cp_state p')))"

lemma body_postI_error:
  "ca_ok dbg Y q \<Longrightarrow> kept p q \<Longrightarrow> body_post dbg Y p (Inl e) q"
  by (simp add: body_post_def ca_ok_Done)

lemma loop_body_ok:
  fixes p :: "('s, 'io) CaProto"
  assumes "ca_ok dbg Y p" and "cp_state p \<noteq> Done" and "cp_resqu p = []" and "0 < cp_resqu_cap p"
    and "no_panic dbg (cp_array_truncate p) (all_bytes (cp_tcp p))"
  shows "\<exists>r p'. loop_body bb dbg p = Some (r, p') \<and> body_post dbg Y p r p'"
proof -
  have ok: "in_ok dbg Y p" "out_ok p" using assms(1) by (simp_all add: ca_ok_def)
  obtain o1 p0 where o1: "poll_outbound bb p = Some (o1 :: (('b, 'io) CaError, outbound) result, p0)" "out_frame p p0" "out_ok p0" "wire p0 = wire p"
    "length (t_out (cp_tcp p0)) \<le> length (t_out (cp_tcp p))"
    "o1 = Inr OutProgress \<longrightarrow> length (t_out (cp_tcp p0)) < length (t_out (cp_tcp p))"
    "cp_state p0 = (if o1 = Inr OutIdle \<and> cp_tcp_eof p then Done else cp_state p)"
    using poll_outbound_ok [OF ok(2)] by blast
  note k0 = kept_out [OF o1(2,4)]
  have ok0: "in_ok dbg Y p0" by (rule in_ok_out [OF ok(1) o1(2)])
  then have c0: "ca_ok dbg Y p0" using o1(3) by (simp add: ca_ok_def)
  let ?need = "need_min (cp_state p0)"
  show ?thesis
  proof (cases "\<exists>o2. o1 = Inr o2 \<and> ?need \<le> bb_cap bb (cp_buf p0)")
    case False
    then have "loop_body bb dbg p = Some (case o1 of Inl e \<Rightarrow> Inl e
        | Inr _ \<Rightarrow> Inl (BufferTooSmallForNeedMin (bb_cap bb (cp_buf p0)) ?need), p0)"
      using o1(1) by (auto simp: loop_body_def ca_bind_def split: sum.splits)
    moreover have "body_post dbg Y p (Inl e) p0" for e :: "('b, 'io) CaError" by (rule body_postI_error [OF c0 k0(1)])
    ultimately show ?thesis by (cases o1) auto
  next
    case True
    then obtain o2 where o2: "o1 = Inr o2" "?need \<le> bb_cap bb (cp_buf p0)" by blast
    obtain rr p1 bs where rr: "read_loop bb ?need (o2 = OutProgress) p0 = Some (rr :: (('b, 'io) CaError, bool \<times> read_end) result, p1)" "read_post p0 p1 bs"
      "\<forall>hp' e. rr = Inr (hp', e) \<longrightarrow> hp' = (o2 = OutProgress \<or> bs \<noteq> []) \<and> (e = ReadPending \<longrightarrow> \<not> cp_tcp_eof p0)"
      using read_loop_ok [of p0 ?need "o2 = OutProgress"] ok0 by (auto simp: in_ok_def)
    note k1 = kept_read [OF rr(2)]
    have kk: "kept p p1" by (rule kept_trans [OF k0(1) k1(1)])
    have ok1: "in_ok dbg Y p1" by (rule in_ok_read [OF ok0 rr(2)])
    then have c1: "ca_ok dbg Y p1" using k1(4) o1(3) by (simp add: ca_ok_def)
    show ?thesis
    proof (cases rr)
      case (Inl e)
      then have "loop_body bb dbg p = Some (Inl e, p1)"
        using o1(1) o2 rr(1) by (simp add: loop_body_def ca_bind_def Let_def)
      then show ?thesis using body_postI_error [OF c1 kk] by blast
    next
      case (Inr y)
      then obtain hp e where e: "rr = Inr (hp, e)" by (cases y) simp
      have hp: "hp = (o2 = OutProgress \<or> bs \<noteq> [])" "e = ReadPending \<longrightarrow> \<not> cp_tcp_eof p0" using rr(3) e by auto
      have "st_w (cp_state p1) \<le> st_w (cp_state p)" using o1(7) k1(3) by simp
      moreover have "length (dat (cp_buf p1)) = length (dat (cp_buf p)) + length bs"
        "in_w (t_in (cp_tcp p1)) + 4 * length bs \<le> in_w (t_in (cp_tcp p))"
        using rr(2) k0(4,5) by (simp_all add: read_post_def)
      moreover have "length (t_out (cp_tcp p1)) \<le> length (t_out (cp_tcp p))"
        "o2 = OutProgress \<longrightarrow> length (t_out (cp_tcp p1)) < length (t_out (cp_tcp p))"
        using k1(5) o1(5,6) o2 by simp_all
      moreover have "hp \<longrightarrow> o2 = OutProgress \<or> 0 < length bs" using hp by simp
      ultimately have w1: "total_w p1 \<le> total_w p \<and> (hp \<longrightarrow> total_w p1 < total_w p)"
        unfolding total_w_def pw_def by (cases "o2 = OutProgress"; cases hp) (simp_all del: length_greater_0_conv)
      have "no_panic dbg (cp_array_truncate p1) (all_bytes (cp_tcp p1))" using kk assms(5) by (simp add: kept_def)
      then have np: "no_panic dbg (cp_array_truncate p1) (t_rcvd (cp_tcp p1))"
        unfolding all_bytes_def by (rule no_panic_prefix)
      obtain r p' where r: "parse_loop bb dbg hp p1 = Some (r :: (('b, 'io) CaError, bool) result, p')" "loop_frame p1 p'" "in_ok dbg Y (p'\<lparr>cp_state := Done\<rparr>)"
        "\<forall>hp'. r = Inr hp' \<longrightarrow> in_ok dbg Y p' \<and> pw p' \<le> pw p1 \<and> (hp \<longrightarrow> hp') \<and> (hp' \<and> \<not> hp \<longrightarrow> pw p' < pw p1) \<and>
           (\<not> hp' \<longrightarrow> p' = p1 \<and> (length (cp_resqu p1) < cp_resqu_cap p1 \<longrightarrow> length (dat (cp_buf p1)) < need_min (cp_state p1)))"
        using parse_loop_ok [OF ok1 np, of hp] by blast
      note k2 = kept_loop [OF r(2)]
      have kk': "kept p p'" by (rule kept_trans [OF kk k2(1)])
      have od: "out_ok p'" using k2(2) k1(4) o1(3) by simp
      then have dn: "ca_ok dbg Y (p'\<lparr>cp_state := Done\<rparr>)" using r(3) by (simp add: ca_ok_def out_ok_def)
      have b: "loop_body bb dbg p = (case r of Inl e \<Rightarrow> Some (Inl e, p') | Inr hp' \<Rightarrow>
          if hp' then Some (Inr (Ready ()), p')
          else if o2 = OutPending \<or> e = ReadPending then Some (Inr Pending, p')
          else if cp_tcp_eof p' then Some (Inr (Ready ()), p'\<lparr>cp_state := Done\<rparr>)
          else Some (Inl NeitherPendingNorProgress, p'))"
        using o1(1) o2 rr(1) e r(1) by (simp add: loop_body_def ca_bind_def Let_def split: sum.splits)
      show ?thesis
      proof (cases r)
        case (Inl e')
        then show ?thesis using b dn kk' by (simp add: body_post_def)
      next
        case (Inr hp')
        have c': "ca_ok dbg Y p'" using r(4) Inr od by (simp add: ca_ok_def)
        have w2: "total_w p' + pw p1 = total_w p1 + pw p'"
          using loop_frameD [OF r(2)] by (simp add: total_w_def)
        show ?thesis
        proof (cases hp')
          case True
          then have "pw p' \<le> pw p1" "\<not> hp \<longrightarrow> pw p' < pw p1" using r(4) Inr by auto
          then have "total_w p' < total_w p" using w1 w2 by (cases hp) linarith+
          then show ?thesis using b Inr True c' dn kk' by (simp add: body_post_def)
        next
          case False
          then have p': "p' = p1" "\<not> hp" "length (cp_resqu p1) < cp_resqu_cap p1 \<longrightarrow> length (dat (cp_buf p1)) < need_min (cp_state p1)"
            using r(4) Inr by auto
          have rq: "cp_resqu p1 = []" "0 < cp_resqu_cap p1" using k1(2) k0(2) assms(3,4) kk by (simp_all add: kept_def)
          show ?thesis
          proof (cases "o2 = OutPending \<or> e = ReadPending")
            case True
            then have "cp_state p1 \<noteq> Done" using o1(7) o2 k1(3) hp(2) k0(3) assms(2) by auto
            then show ?thesis using b Inr False True p' rq c' dn kk' by (simp add: body_post_def)
          next
            case f: False
            then show ?thesis
              using b Inr False p' c' dn kk' kept_Done [OF kk', of Done] ca_ok_Done [OF dn] by (auto simp: body_post_def)
          qed
        qed
      qed
    qed
  qed
qed

text \<open>Polling returns, and what it returns continues the parse of the bytes received.\<close>

lemma poll_ready:
  assumes "ca_ok dbg Y p" and "cp_resqu p \<noteq> [] \<or> cp_state p = Done"
  shows "\<exists>r p'. ca_poll_next bb dbg p = Some (r, p') \<and> kept p p' \<and> ca_ok dbg (Y @ yielded r) p' \<and>
    (r = Pending \<longrightarrow> cp_resqu p' = [] \<and> cp_state p' \<noteq> Done \<and> length (dat (cp_buf p')) < need_min (cp_state p'))"
proof (cases "cp_resqu p")
  case (Cons m q)
  then have "ca_poll_next bb dbg p = Some (Ready (Some (Inr m)), p\<lparr>cp_resqu := q\<rparr>)" by (subst ca_poll_next.simps) simp
  moreover have "ca_ok dbg (Y @ [m]) (p\<lparr>cp_resqu := q\<rparr>)"
    using assms(1) Cons by (auto simp: ca_ok_def in_ok_def out_ok_def)
  ultimately show ?thesis by (simp add: yielded_def kept_def wire_def)
next
  case Nil
  then have "ca_poll_next bb dbg p = Some (Ready None, p)" using assms(2) by (subst ca_poll_next.simps) simp
  then show ?thesis using assms(1) by (simp add: yielded_def kept_def)
qed

lemma ca_poll_next_ok:
  fixes p :: "('s, 'io) CaProto"
  assumes "ca_ok dbg Y p" and "0 < cp_resqu_cap p" and "no_panic dbg (cp_array_truncate p) (all_bytes (cp_tcp p))"
  shows "\<exists>r p'. ca_poll_next bb dbg p = Some (r, p') \<and> kept p p' \<and> ca_ok dbg (Y @ yielded r) p' \<and>
    (r = Pending \<longrightarrow> cp_resqu p' = [] \<and> cp_state p' \<noteq> Done \<and> length (dat (cp_buf p')) < need_min (cp_state p'))"
  using assms
proof (induction "total_w p" arbitrary: p rule: less_induct)
  case less
  show ?case
  proof (cases "cp_resqu p \<noteq> [] \<or> cp_state p = Done")
    case True
    then show ?thesis by (rule poll_ready [OF less.prems(1)])
  next
    case False
    then have nd: "cp_state p \<noteq> Done" and Nil: "cp_resqu p = []" by simp_all
    show ?thesis
    proof -
      obtain k q where k: "loop_body bb dbg p = Some (k :: (('b, 'io) CaError, unit poll) result, q)" "body_post dbg Y p k q"
        using loop_body_ok [OF less.prems(1) nd Nil less.prems(2,3)] by blast
      have kq: "kept p q" using k(2) by (simp add: body_post_def)
      have step: "ca_poll_next bb dbg p = (case k of Inr (Ready _) \<Rightarrow> ca_poll_next bb dbg q
          | Inr Pending \<Rightarrow> Some (Pending, q) | Inl e \<Rightarrow> Some (Ready (Some (Inl e)), q\<lparr>cp_state := Done\<rparr>))"
        using Nil nd k(1) by (subst ca_poll_next.simps) (simp split: sum.splits poll.splits)
      consider (err) e where "k = Inl e" | (pend) "k = Inr Pending" | (ready) "k = Inr (Ready ())"
        by (cases k; cases "projr k") auto
      then show ?thesis
      proof cases
        case err
        then show ?thesis using step k(2) kept_Done [OF kq] by (auto simp: yielded_def body_post_def)
      next
        case pend
        then show ?thesis using step k(2) by (auto simp: yielded_def body_post_def)
      next
        case ready
        have c: "ca_ok dbg Y q" "cp_state q = Done \<or> total_w q < total_w p" using ready k(2) by (auto simp: body_post_def)
        have pre: "0 < cp_resqu_cap q" "no_panic dbg (cp_array_truncate q) (all_bytes (cp_tcp q))"
          using kq less.prems(2,3) by (simp_all add: kept_def)
        have "\<exists>r p'. ca_poll_next bb dbg q = Some (r :: (('b, 'io) CaError, CaMsgTy) result option poll, p') \<and> kept q p' \<and> ca_ok dbg (Y @ yielded r) p' \<and>
            (r = Pending \<longrightarrow> cp_resqu p' = [] \<and> cp_state p' \<noteq> Done \<and> length (dat (cp_buf p')) < need_min (cp_state p'))"
        proof (cases "total_w q < total_w p")
          case True
          then show ?thesis using less.hyps [OF True c(1) pre] by blast
        next
          case False
          then have "cp_state q = Done" using c(2) by simp
          then show ?thesis using poll_ready [OF c(1)] by blast
        qed
        then show ?thesis using step ready kept_trans [OF kq] by auto
      qed
    qed
  qed
qed

text \<open>A pending poll has parsed all it can: the yielded messages are those of the bytes received.\<close>

lemma pending_complete:
  assumes "ca_ok dbg Y p" and "cp_resqu p = []" and "cp_state p \<noteq> Done"
    and "length (dat (cp_buf p)) < need_min (cp_state p)"
  shows "ca_spec dbg (cp_array_truncate p) StdHead (t_rcvd (cp_tcp p)) = (Y, Stuck (cp_state p) (dat (cp_buf p)))"
proof -
  have "ca_run dbg (cp_array_truncate p) (StdHead, t_rcvd (cp_tcp p)) Y (cp_state p, dat (cp_buf p))"
    using assms(1-3) by (auto simp: ca_ok_def in_ok_def)
  moreover have "ca_spec dbg (cp_array_truncate p) (cp_state p) (dat (cp_buf p)) = ([], Stuck (cp_state p) (dat (cp_buf p)))"
    using assms(4) by (subst ca_spec.simps) simp
  ultimately show ?thesis using ca_spec_run by fastforce
qed

text \<open>Before the end of the parse, the yielded messages are a prefix of the messages of the bytes received.\<close>

lemma yielded_prefix:
  assumes "ca_ok dbg Y p"
  shows "\<exists>zs. fst (ca_spec dbg (cp_array_truncate p) StdHead (t_rcvd (cp_tcp p))) = Y @ cp_resqu p @ zs"
proof -
  obtain st bs where "ca_run dbg (cp_array_truncate p) (StdHead, t_rcvd (cp_tcp p)) (Y @ cp_resqu p) (st, bs)"
    using assms by (auto simp: ca_ok_def in_ok_def)
  from ca_spec_run [OF this] show ?thesis by simp
qed

definition settled :: "DebugText \<Rightarrow> CaMsgTy list \<Rightarrow> ('s, 'io) CaProto \<Rightarrow> bool" where
  "settled dbg Y p \<longleftrightarrow>
     ca_spec dbg (cp_array_truncate p) StdHead (t_rcvd (cp_tcp p)) = (Y, Stuck (cp_state p) (dat (cp_buf p)))"

lemma ca_client_ok:
  fixes p :: "('s, 'io) CaProto"
  assumes "ca_ok dbg Y p" and "0 < cp_resqu_cap p" and "no_panic dbg (cp_array_truncate p) (all_bytes (cp_tcp p))"
    and "\<forall>m \<in> set (pushes ops). sendable m"
  shows "\<exists>rs p'. ca_client bb dbg ops p = Some (rs, p') \<and> ca_ok dbg (Y @ concat (map yielded rs)) p' \<and>
    wire p' = wire p @ concat (map encode (pushes ops)) \<and> cp_array_truncate p' = cp_array_truncate p \<and>
    (if rs = [] then settled dbg Y p' = settled dbg Y p
     else last rs = Pending \<longrightarrow> settled dbg (Y @ concat (map yielded rs)) p')"
  using assms
proof (induction ops arbitrary: Y p)
  case Nil
  then show ?case by simp
next
  case (Cons o' ops)
  show ?case
  proof (cases o')
    case (PushOut m)
    have "ca_ok dbg Y (push_out m p)" using Cons.prems(1,4) PushOut by (auto simp: ca_ok_def in_ok_def out_ok_def push_out_def)
    moreover have "wire (push_out m p) = wire p @ encode m" by (simp add: wire_def push_out_def)
    moreover have "settled dbg Y (push_out m p) = settled dbg Y p" by (simp add: settled_def push_out_def)
    moreover have "0 < cp_resqu_cap (push_out m p)" "cp_array_truncate (push_out m p) = cp_array_truncate p"
      "no_panic dbg (cp_array_truncate (push_out m p)) (all_bytes (cp_tcp (push_out m p)))" "\<forall>m \<in> set (pushes ops). sendable m"
      using Cons.prems(2-4) PushOut by (simp_all add: push_out_def)
    ultimately obtain rs p' where
      "ca_client bb dbg ops (push_out m p) = Some (rs :: (('b, 'io) CaError, CaMsgTy) result option poll list, p')"
      "ca_ok dbg (Y @ concat (map yielded rs)) p'" "wire p' = (wire p @ encode m) @ concat (map encode (pushes ops))"
      "cp_array_truncate p' = cp_array_truncate p"
      "if rs = [] then settled dbg Y p' = settled dbg Y p
       else last rs = Pending \<longrightarrow> settled dbg (Y @ concat (map yielded rs)) p'"
      using Cons.IH [of Y "push_out m p"] by metis
    then show ?thesis using PushOut by (intro exI [of _ rs] exI [of _ p']) simp
  next
    case PollNext
    obtain r q where r: "ca_poll_next bb dbg p = Some (r :: (('b, 'io) CaError, CaMsgTy) result option poll, q)" "kept p q"
      "ca_ok dbg (Y @ yielded r) q"
      "r = Pending \<longrightarrow> cp_resqu q = [] \<and> cp_state q \<noteq> Done \<and> length (dat (cp_buf q)) < need_min (cp_state q)"
      using ca_poll_next_ok [OF Cons.prems(1-3)] by blast
    obtain rs p' where rs: "ca_client bb dbg ops q = Some (rs :: (('b, 'io) CaError, CaMsgTy) result option poll list, p')"
      "ca_ok dbg ((Y @ yielded r) @ concat (map yielded rs)) p'"
      "wire p' = wire q @ concat (map encode (pushes ops))" "cp_array_truncate p' = cp_array_truncate q"
      "if rs = [] then settled dbg (Y @ yielded r) p' = settled dbg (Y @ yielded r) q
       else last rs = Pending \<longrightarrow> settled dbg ((Y @ yielded r) @ concat (map yielded rs)) p'"
      using Cons.IH [OF r(3)] r(2) Cons.prems(2-4) PollNext by (auto simp: kept_def)
    have "settled dbg (Y @ concat (map yielded (r # rs))) p'" if l: "last (r # rs) = Pending"
    proof (cases "rs = []")
      case True
      then have "settled dbg (Y @ yielded r) q" using l r(4) pending_complete [OF r(3)] by (simp add: settled_def)
      then show ?thesis using rs(5) True by simp
    next
      case False
      then show ?thesis using rs(5) l by simp
    qed
    then show ?thesis using r rs PollNext by (simp add: kept_def)
  qed
qed

end

end
