(* ===== verification/CaConnLive.thy ===== *)
theory CaConnLive
  imports CaConnCorrect
begin

text \<open>
  The protocol stream on an open connection: as long as the socket reports no error and no end, the
  bytes decode and the input buffer has room for them, no poll fails, and after finitely many polls
  every message of the bytes that the socket delivers has been yielded.
\<close>

section \<open>The parser on a prefix\<close>

definition decodes :: "DebugText \<Rightarrow> nat \<Rightarrow> CaState \<Rightarrow> bytes \<Rightarrow> bool" where
  "decodes dbg tr st bs \<longleftrightarrow> (case snd (ca_spec dbg tr st bs) of Stuck _ _ \<Rightarrow> True | _ \<Rightarrow> False)"

lemma ca_spec_end_append:
  "\<not> decodes dbg tr st bs \<Longrightarrow> snd (ca_spec dbg tr st (bs @ zs)) = snd (ca_spec dbg tr st bs)"
proof (induction dbg tr st bs rule: ca_spec.induct)
  case (1 dbg tr st bs)
  obtain r st' bs' where r: "spec_parse dbg tr st bs = (r :: (unit, unit) parsed, st', bs')"
    by (cases "spec_parse dbg tr st bs :: (unit, unit) parsed \<times> _")
  have "ca_spec dbg tr st bs = ([], Stuck st bs)" if "st = Done \<or> length bs < need_min st"
    using that by (subst ca_spec.simps) simp
  then have "\<not> (st = Done \<or> length bs < need_min st)" using 1(3) by (auto simp: decodes_def)
  then have go: "st \<noteq> Done" "need_min st \<le> length bs" by simp_all
  have r': "spec_parse dbg tr st (bs @ zs) = (r, st', bs' @ zs)" using spec_parse_append [OF go r] .
  have eq: "ca_spec dbg tr st bs = (case r of None \<Rightarrow> ([], Panicked) | Some (Inl e) \<Rightarrow> ([], Failed e)
      | Some (Inr None) \<Rightarrow> ca_spec dbg tr st' bs' | Some (Inr (Some m)) \<Rightarrow> apfst (Cons m) (ca_spec dbg tr st' bs'))"
    "ca_spec dbg tr st (bs @ zs) = (case r of None \<Rightarrow> ([], Panicked) | Some (Inl e) \<Rightarrow> ([], Failed e)
      | Some (Inr None) \<Rightarrow> ca_spec dbg tr st' (bs' @ zs) | Some (Inr (Some m)) \<Rightarrow> apfst (Cons m) (ca_spec dbg tr st' (bs' @ zs)))"
    using go r r' by (subst ca_spec.simps; simp split: option.splits sum.splits)+
  show ?case
  proof (cases "\<exists>x. r = Some (Inr x)")
    case True
    then obtain x where x: "r = Some (Inr x)" by blast
    have "\<not> decodes dbg tr st' bs'" using 1(3) eq(1) x by (cases x) (simp_all add: decodes_def)
    then have "snd (ca_spec dbg tr st' (bs' @ zs)) = snd (ca_spec dbg tr st' bs')"
      using 1(1) [OF _ r [symmetric] x refl] 1(2) [OF _ r [symmetric] x refl] go by (cases x) auto
    then show ?thesis using eq x by (cases x) simp_all
  next
    case False
    then show ?thesis using eq by (cases r; cases "the r") simp_all
  qed
qed

lemma decodes_prefix:
  assumes "decodes dbg tr st (bs @ zs)"
  shows "decodes dbg tr st bs"
proof (rule ccontr)
  assume n: "\<not> decodes dbg tr st bs"
  from ca_spec_end_append [OF n, of zs] n assms show False by (simp add: decodes_def)
qed

lemma decodes_run:
  assumes "ca_run dbg tr s xs t"
  shows "decodes dbg tr (fst t) (snd t) = decodes dbg tr (fst s) (snd s)"
  by (simp add: decodes_def ca_spec_run [OF assms])

lemma decodes_no_panic: "decodes dbg tr st bs \<Longrightarrow> snd (ca_spec dbg tr st bs) \<noteq> Panicked"
  by (auto simp: decodes_def)

text \<open>The most bytes that the parser waits for at once.\<close>

function ca_need :: "DebugText \<Rightarrow> nat \<Rightarrow> CaState \<Rightarrow> bytes \<Rightarrow> nat" where
  "ca_need dbg tr st bs =
     (if st = Done \<or> length bs < need_min st then need_min st
      else case spec_parse dbg tr st bs :: (unit, unit) parsed \<times> CaState \<times> bytes of
             (Some (Inr _), st', bs') \<Rightarrow> max (need_min st) (ca_need dbg tr st' bs')
           | _ \<Rightarrow> need_min st)"
  by pat_completeness auto
termination
proof (relation "measure (\<lambda>(dbg, tr, st, bs). 3 * length bs + st_w st)", goal_cases)
  case 1
  then show ?case by simp
next
  case (2 dbg tr st bs r y r' c st' bs')
  then have "spec_parse dbg tr st bs = (Some (Inr c) :: (unit, unit) parsed, st', bs')" by simp
  with 2 show ?case using spec_parse_weight [where ?'b = unit and ?'io = unit, of st bs dbg tr c st' bs'] by auto
qed
declare ca_need.simps [simp del]

lemma need_le: "need_min st \<le> ca_need dbg tr st bs"
  by (subst ca_need.simps) (auto split: prod.split option.split sum.split)

lemma ca_need_run: "ca_run dbg tr s xs t \<Longrightarrow> ca_need dbg tr (fst t) (snd t) \<le> ca_need dbg tr (fst s) (snd s)"
proof (induction rule: ca_run.induct)
  case (start s)
  then show ?case by simp
next
  case (silent s xs st bs st' bs')
  then have "ca_need dbg tr st' bs' \<le> ca_need dbg tr st bs" by (subst (2) ca_need.simps) simp
  then show ?case using silent.IH by simp
next
  case (item s xs st bs m st' bs')
  then have "ca_need dbg tr st' bs' \<le> ca_need dbg tr st bs" by (subst (2) ca_need.simps) simp
  then show ?case using item.IH by simp
qed

section \<open>The socket\<close>

text \<open>The bytes that the socket still has to deliver.\<close>

definition undelivered :: "'io Tcp \<Rightarrow> nat" where
  "undelivered t = length (all_bytes t) - length (t_rcvd t)"

text \<open>A connection that stays open: no error either way, no end of the input, no write of no bytes.\<close>

definition open_conn :: "'io Tcp \<Rightarrow> bool" where
  "open_conn t \<longleftrightarrow> (\<forall>x \<in> set (t_in t). case x of RdPending \<Rightarrow> True | RdData d \<Rightarrow> d \<noteq> [] | RdErr _ \<Rightarrow> False) \<and>
     (\<forall>x \<in> set (t_out t). case x of WrPending \<Rightarrow> True | WrAccept n \<Rightarrow> 0 < n | WrErr _ \<Rightarrow> False)"

definition pendings :: "'io tcp_read list \<Rightarrow> nat" where
  "pendings xs = length (filter (\<lambda>x. case x of RdPending \<Rightarrow> True | _ \<Rightarrow> False) xs)"

lemma pendings_simps [simp]: "pendings [] = 0" "pendings (RdPending # xs) = Suc (pendings xs)"
    "pendings (RdData d # xs) = pendings xs" "pendings (RdErr e # xs) = pendings xs"
  by (simp_all add: pendings_def)

fun polls :: "client_op list \<Rightarrow> nat" where
  "polls [] = 0"
| "polls (PushOut m # ops) = polls ops"
| "polls (PollNext # ops) = Suc (polls ops)"

lemma ca_client_polls: "ca_client bb dbg ops p = Some (rs, p') \<Longrightarrow> length rs = polls ops"
  by (induction ops arbitrary: p rs p' rule: polls.induct) (auto simp: bind_eq_Some_conv)

text \<open>A poll that gives a message or nothing yet.\<close>

definition calm_poll :: "(('b, 'io) CaError, CaMsgTy) result option poll \<Rightarrow> bool" where
  "calm_poll r \<longleftrightarrow> r = Pending \<or> (\<exists>m. r = Ready (Some (Inr m)))"

lemma poll_read_open:
  assumes "open_conn t" and "poll_read k t = (r, t')" and "0 < k"
  shows "open_conn t' \<and> t_out t' = t_out t \<and>
    (case r of Pending \<Rightarrow> t_in t' = [] \<and> pendings (t_in t) = 0 \<or> pendings (t_in t') < pendings (t_in t)
     | Ready (Inr bs) \<Rightarrow> bs \<noteq> [] \<and> pendings (t_in t') = pendings (t_in t)
     | Ready (Inl _) \<Rightarrow> False)"
  using assms by (auto simp: poll_read_def open_conn_def split: list.splits tcp_read.splits if_splits)

context slide_buf
begin

section \<open>Parsing without errors\<close>

lemma spec_parse_state:
  assumes "spec_parse dbg tr st bs = (Some (Inr x) :: ('x, 'y) parsed, st', bs')" and "st \<noteq> Done"
  shows "st' \<noteq> Done \<and> (x \<noteq> None \<longrightarrow> st' = StdHead)"
  using assms by (cases st) (auto simp: spec_parse_def Let_def split: if_splits)

lemma parse_step_clean:
  fixes p :: "('s, 'io) CaProto"
  assumes "in_ok dbg Y p" and "cp_state p \<noteq> Done" and "need_min (cp_state p) \<le> length (dat (cp_buf p))"
    and "decodes dbg (cp_array_truncate p) StdHead (t_rcvd (cp_tcp p))"
  shows "\<exists>x p'. parse_item bb dbg p = Some (Inr x :: (('b, 'io) CaError, CaMsgTy option) result, p') \<and>
    bb_cap bb (cp_buf p') = bb_cap bb (cp_buf p) \<and> cp_state p' \<noteq> Done \<and> (x \<noteq> None \<longrightarrow> cp_state p' = StdHead)"
proof -
  let ?tr = "cp_array_truncate p" and ?st = "cp_state p" and ?bs = "dat (cp_buf p)"
  have i: "inv (cp_buf p)" and run: "ca_run dbg ?tr (StdHead, t_rcvd (cp_tcp p)) (Y @ cp_resqu p) (?st, ?bs)"
    using assms(1,2) by (auto simp: in_ok_def)
  have d: "decodes dbg ?tr ?st ?bs" using decodes_run [OF run] assms(4) by simp
  obtain r st' bs' where r: "spec_parse dbg ?tr ?st ?bs = (r :: (unit, unit) parsed, st', bs')"
    by (cases "spec_parse dbg ?tr ?st ?bs :: (unit, unit) parsed \<times> _")
  have "\<exists>x. r = Some (Inr x)"
  proof (rule ccontr)
    assume "\<nexists>x. r = Some (Inr x)"
    then have "\<not> decodes dbg ?tr ?st ?bs"
      using assms(2,3) r by (cases r; cases "the r") (simp_all add: decodes_def ca_spec.simps [of dbg ?tr ?st ?bs])
    then show False using d by simp
  qed
  then obtain x where x: "spec_parse dbg ?tr ?st ?bs = (Some (Inr x) :: (unit, unit) parsed, st', bs')" using r by blast
  have x': "spec_parse dbg ?tr ?st ?bs = (Some (Inr x) :: ('b, 'io) parsed, st', bs')" by (rule spec_parse_types [OF x])
  show ?thesis using parse_item_ok [OF i assms(2,3) x'] spec_parse_state [OF x' assms(2)] by auto
qed

lemma parse_loop_clean:
  fixes p :: "('s, 'io) CaProto"
  assumes "in_ok dbg Y p" and "cp_state p \<noteq> Done" and "decodes dbg (cp_array_truncate p) StdHead (t_rcvd (cp_tcp p))"
    and "0 < need_min (cp_state p) \<or> length (cp_resqu p) < cp_resqu_cap p"
  shows "\<exists>hp' p'. parse_loop bb dbg hp p = Some (Inr hp' :: (('b, 'io) CaError, bool) result, p') \<and>
    bb_cap bb (cp_buf p') = bb_cap bb (cp_buf p) \<and> cp_state p' \<noteq> Done \<and> 0 < need_min (cp_state p')"
  using assms
proof (induction "pw p" arbitrary: p hp rule: less_induct)
  case less
  have i: "inv (cp_buf p)" using less.prems(1) by (simp add: in_ok_def)
  show ?case
  proof (cases "length (cp_resqu p) < cp_resqu_cap p \<and> need_min (cp_state p) \<le> length (dat (cp_buf p))")
    case False
    then have "parse_loop bb dbg hp p = Some (Inr hp, p)" by (subst parse_loop.simps) (simp add: len [OF i])
    then show ?thesis using less.prems(2,4) False by auto
  next
    case go: True
    obtain x q where q: "parse_item bb dbg p = Some (Inr x :: (('b, 'io) CaError, CaMsgTy option) result, q)"
      "bb_cap bb (cp_buf q) = bb_cap bb (cp_buf p)" "cp_state q \<noteq> Done" "x \<noteq> None \<longrightarrow> cp_state q = StdHead"
      using parse_step_clean [OF less.prems(1,2) _ less.prems(3)] go by blast
    obtain lf: "loop_frame p q" and rq: "cp_resqu q = cp_resqu p" and lt: "pw q < pw p"
      and ok: "in_ok dbg Y (q\<lparr>cp_resqu := cp_resqu p @ (case x of None \<Rightarrow> [] | Some m \<Rightarrow> [m])\<rparr>)"
      using parse_step [OF less.prems(1,2) _ decodes_no_panic [OF less.prems(3)]] go q(1) by auto
    let ?q = "q\<lparr>cp_resqu := cp_resqu p @ (case x of None \<Rightarrow> [] | Some m \<Rightarrow> [m])\<rparr>"
    note f = loop_frameD [OF lf]
    have eq: "parse_loop bb dbg hp p = parse_loop bb dbg True ?q"
      using go q(1) by (subst parse_loop.simps) (simp add: len [OF i] flip: rq split: option.splits)
    have "0 < need_min (cp_state ?q) \<or> length (cp_resqu ?q) < cp_resqu_cap ?q"
      using q(4) go f(3) by (cases x) simp_all
    then obtain hp' p' where "parse_loop bb dbg True ?q = Some (Inr hp' :: (('b, 'io) CaError, bool) result, p')"
      "bb_cap bb (cp_buf p') = bb_cap bb (cp_buf ?q)" "cp_state p' \<noteq> Done" "0 < need_min (cp_state p')"
      using less.hyps [of ?q True] lt ok q(3) less.prems(3) f(1,2) by (auto simp: pw_def)
    then show ?thesis using eq q(2) by simp
  qed
qed

end

context slide_buf
begin

section \<open>Writing and reading without errors\<close>

lemma write_out_clean:
  fixes p :: "('s, 'io) CaProto"
  assumes "out_ok p" and "open_conn (cp_tcp p)"
  shows "\<exists>x p'. write_out bb hp p = Some (Inr x :: (('b, 'io) CaError, bool \<times> bool) result, p') \<and> open_conn (cp_tcp p')"
  using assms
proof (induction "length (t_out (cp_tcp p))" arbitrary: p hp rule: less_induct)
  case less
  have i: "inv (cp_outbuf p)" using less.prems(1) by (simp add: out_ok_def)
  let ?b = "dat (cp_outbuf p)"
  show ?case
  proof (cases "?b = []")
    case True
    then have "write_out bb hp p = Some (Inr (hp, False), p)" by (subst write_out.simps) (simp add: len [OF i])
    then show ?thesis using less.prems(2) by blast
  next
    case False
    have lenb: "bb_len bb (cp_outbuf p) \<noteq> 0" using False by (simp add: len [OF i])
    consider (none) "t_out (cp_tcp p) = []" | (pend) ws where "t_out (cp_tcp p) = WrPending # ws"
      | (acc) n ws where "t_out (cp_tcp p) = WrAccept n # ws" "0 < n"
      using less.prems(2) by (cases "t_out (cp_tcp p)"; cases "hd (t_out (cp_tcp p))") (auto simp: open_conn_def)
    then show ?thesis
    proof cases
      case none
      then have "write_out bb hp p = Some (Inr (hp, True), p\<lparr>cp_tcp := cp_tcp p\<rparr>)"
        using lenb by (subst write_out.simps) (simp add: attempt_output_def data [OF i] poll_write_def)
      then show ?thesis using less.prems(2) by auto
    next
      case pend
      then have "write_out bb hp p = Some (Inr (hp, True), p\<lparr>cp_tcp := (cp_tcp p)\<lparr>t_out := ws\<rparr>\<rparr>)"
        using lenb by (subst write_out.simps) (simp add: attempt_output_def data [OF i] poll_write_def)
      moreover have "open_conn (cp_tcp (p\<lparr>cp_tcp := (cp_tcp p)\<lparr>t_out := ws\<rparr>\<rparr>))"
        using less.prems(2) pend by (simp add: open_conn_def)
      ultimately show ?thesis by blast
    next
      case acc
      define k where "k = min n (length ?b)"
      have k: "k \<noteq> 0" "k \<le> length ?b" using False acc(2) by (simp_all add: k_def)
      obtain s where s: "bb_adv bb k (cp_outbuf p) = Some (Inr (), s)" "inv s"
        using adv [OF i k(2)] by auto
      let ?p = "p\<lparr>cp_tcp := (cp_tcp p)\<lparr>t_out := ws, t_sent := t_sent (cp_tcp p) @ take n ?b\<rparr>, cp_outbuf := s\<rparr>"
      have eq: "write_out bb hp p = write_out bb True ?p"
        using lenb acc(1) s(1) k(1) by (subst write_out.simps) (simp add: attempt_output_def data [OF i] poll_write_def flip: k_def)
      have "length (t_out (cp_tcp ?p)) < length (t_out (cp_tcp p))" "out_ok ?p" "open_conn (cp_tcp ?p)"
        using acc s(2) less.prems by (simp_all add: out_ok_def open_conn_def)
      from less.hyps [OF this, of True] show ?thesis using eq by simp
    qed
  qed
qed

lemma poll_outbound_clean:
  fixes p :: "('s, 'io) CaProto"
  assumes "out_ok p" and "open_conn (cp_tcp p)" and "\<not> cp_tcp_eof p"
  shows "\<exists>o2 p'. poll_outbound bb p = Some (Inr o2 :: (('b, 'io) CaError, outbound) result, p') \<and> open_conn (cp_tcp p') \<and>
    cp_state p' = cp_state p"
proof -
  obtain p1 where p1: "place_msgs bb p = Some (Inr () :: (('b, 'io) CaError, unit) result, p1)" "out_frame p p1" "out_ok p1"
    "cp_tcp p1 = cp_tcp p"
    using place_msgs_ok [OF assms(1)] by blast
  obtain x p2 where p2: "write_out bb False p1 = Some (Inr x :: (('b, 'io) CaError, bool \<times> bool) result, p2)" "open_conn (cp_tcp p2)"
    using write_out_clean [OF p1(3)] p1(4) assms(2) by metis
  let ?p' = "if fst x \<or> snd x \<or> \<not> cp_tcp_eof p2 then p2 else p2\<lparr>cp_state := Done\<rparr>"
  have po: "poll_outbound bb p = Some (Inr (if fst x then OutProgress else if snd x then OutPending else OutIdle), ?p')"
    using p1(1) p2(1) by (cases x) (simp add: poll_outbound_def ca_bind_def)
  have "cp_state ?p' = cp_state p"
    using poll_outbound_ok [OF assms(1)] po assms(3) by (simp split del: if_split)
  moreover have "open_conn (cp_tcp ?p')" using p2(2) by simp
  ultimately show ?thesis using po by blast
qed


lemma read_loop_clean:
  fixes p :: "('s, 'io) CaProto"
  assumes "inv (cp_buf p)" and "\<not> cp_tcp_eof p" and "open_conn (cp_tcp p)" and "0 < need"
    and "length (dat (cp_buf p)) + undelivered (cp_tcp p) + need \<le> bb_cap bb (cp_buf p)"
  shows "\<exists>hp' p'. read_loop bb need hp p = Some (Inr (hp', ReadPending) :: (('b, 'io) CaError, bool \<times> read_end) result, p') \<and>
    \<not> cp_tcp_eof p' \<and> open_conn (cp_tcp p') \<and> bb_cap bb (cp_buf p') = bb_cap bb (cp_buf p) \<and>
    (t_in (cp_tcp p') = [] \<or> pendings (t_in (cp_tcp p')) < pendings (t_in (cp_tcp p))) \<and>
    pendings (t_in (cp_tcp p')) \<le> pendings (t_in (cp_tcp p))"
  using assms
proof (induction "in_w (t_in (cp_tcp p))" arbitrary: p hp rule: less_induct)
  case less
  obtain a s where a: "bb_area bb need (cp_buf p) = Some (a, s)" "inv s" "dat s = dat (cp_buf p)"
    "bb_cap bb s = bb_cap bb (cp_buf p)"
    "case a of Inr x \<Rightarrow> need \<le> length x \<and> (\<forall>bs. length bs \<le> length x \<longrightarrow>
       (\<exists>s1 s2. bb_fill bb bs s = Some s1 \<and> bb_wadv bb (length bs) s1 = Some (Inr (), s2) \<and>
         inv s2 \<and> dat s2 = dat (cp_buf p) @ bs \<and> bb_cap bb s2 = bb_cap bb (cp_buf p)))
     | Inl _ \<Rightarrow> bb_cap bb (cp_buf p) < length (dat (cp_buf p)) + need"
    using area [OF less.prems(1), of need] by blast
  have "\<exists>x. a = Inr x \<and> 0 < length x" using a(5) less.prems(4,5) by (cases a) (auto simp del: length_greater_0_conv)
  then obtain x where x: "a = Inr x" "0 < length x" by blast
  obtain r t where r: "poll_read (length x) (cp_tcp p) = (r, t)" by (cases "poll_read (length x) (cp_tcp p)")
  note pr = poll_read_ok [OF r x(2)] and po = poll_read_open [OF less.prems(3) r x(2)]
  show ?case
  proof (cases r)
    case Pending
    then have "read_loop bb need hp p = Some (Inr (hp, ReadPending), p\<lparr>cp_buf := s, cp_tcp := t\<rparr>)"
      using less.prems(2) a(1) x r by (subst read_loop.simps) simp
    then show ?thesis using less.prems(2) a(4) po Pending
      by (intro exI [of _ hp] exI [of _ "p\<lparr>cp_buf := s, cp_tcp := t\<rparr>"]) auto
  next
    case (Ready y)
    then obtain bs where bs: "r = Ready (Inr bs)" "bs \<noteq> []" using po by (cases y) auto
    obtain s1 s2 where s2: "bb_fill bb bs s = Some s1" "bb_wadv bb (length bs) s1 = Some (Inr (), s2)" "inv s2"
      "dat s2 = dat (cp_buf p) @ bs" "bb_cap bb s2 = bb_cap bb (cp_buf p)"
      using a(5) x pr bs by auto
    let ?p = "p\<lparr>cp_tcp := t, cp_buf := s2, cp_tcp_read_bytes := cp_tcp_read_bytes p + of_nat (length bs)\<rparr>"
    have eq: "read_loop bb need hp p = read_loop bb need True ?p"
      using less.prems(2) a(1) x r bs s2(1,2) by (subst read_loop.simps) simp
    have "all_bytes (cp_tcp p) = t_rcvd (cp_tcp p) @ bs @ concat (map (\<lambda>x. case x of RdData d \<Rightarrow> d | _ \<Rightarrow> []) (t_in t))"
      using pr bs by (auto simp: all_bytes_def)
    then have u: "undelivered (cp_tcp p) = length bs + undelivered t"
      using pr bs by (simp add: undelivered_def all_bytes_def)
    have "in_w (t_in (cp_tcp ?p)) < in_w (t_in (cp_tcp p))" using pr bs by (cases bs) auto
    moreover have "length (dat (cp_buf ?p)) + undelivered (cp_tcp ?p) + need \<le> bb_cap bb (cp_buf ?p)"
      using less.prems(5) s2(4,5) u by simp
    ultimately obtain hp' p' where
      "read_loop bb need True ?p = Some (Inr (hp', ReadPending) :: (('b, 'io) CaError, bool \<times> read_end) result, p')"
      "\<not> cp_tcp_eof p'" "open_conn (cp_tcp p')" "bb_cap bb (cp_buf p') = bb_cap bb (cp_buf ?p)"
      "t_in (cp_tcp p') = [] \<or> pendings (t_in (cp_tcp p')) < pendings (t_in (cp_tcp ?p))"
      "pendings (t_in (cp_tcp p')) \<le> pendings (t_in (cp_tcp ?p))"
      using less.hyps [of ?p True] s2(3) less.prems(2,4) po by auto
    then show ?thesis using eq po bs s2(5) by (intro exI [of _ hp'] exI [of _ p']) auto
  qed
qed

end

lemma spec_parse_length:
  "spec_parse dbg tr st bs = (r, st', bs') \<Longrightarrow> length bs' \<le> length bs"
  by (cases st) (auto simp: spec_parse_def Let_def split: if_splits)

lemma ca_run_length: "ca_run dbg tr s xs t \<Longrightarrow> length (snd t) \<le> length (snd s)"
  by (induction rule: ca_run.induct) (auto dest: spec_parse_length)

context slide_buf
begin

section \<open>Polling an open connection\<close>

definition live :: "DebugText \<Rightarrow> CaMsgTy list \<Rightarrow> ('s, 'io) CaProto \<Rightarrow> bool" where
  "live dbg Y p \<longleftrightarrow> ca_ok dbg Y p \<and> cp_state p \<noteq> Done \<and> 0 < need_min (cp_state p) \<and> \<not> cp_tcp_eof p \<and>
     open_conn (cp_tcp p) \<and> 0 < cp_resqu_cap p \<and>
     decodes dbg (cp_array_truncate p) StdHead (all_bytes (cp_tcp p)) \<and>
     length (all_bytes (cp_tcp p)) + ca_need dbg (cp_array_truncate p) StdHead (all_bytes (cp_tcp p)) \<le> bb_cap bb (cp_buf p)"

lemma live_fits:
  assumes "live dbg Y p"
  shows "length (dat (cp_buf p)) + undelivered (cp_tcp p) + need_min (cp_state p) \<le> bb_cap bb (cp_buf p)"
proof -
  let ?zs = "concat (map (\<lambda>x. case x of RdData d \<Rightarrow> d | _ \<Rightarrow> []) (t_in (cp_tcp p)))"
  have run: "ca_run dbg (cp_array_truncate p) (StdHead, t_rcvd (cp_tcp p)) (Y @ cp_resqu p) (cp_state p, dat (cp_buf p))"
    using assms by (auto simp: live_def ca_ok_def in_ok_def)
  have "length (dat (cp_buf p)) \<le> length (t_rcvd (cp_tcp p))" using ca_run_length [OF run] by simp
  moreover have r: "ca_run dbg (cp_array_truncate p) (StdHead, all_bytes (cp_tcp p)) (Y @ cp_resqu p) (cp_state p, dat (cp_buf p) @ ?zs)"
    using ca_run_append [OF run, of ?zs] by (simp add: all_bytes_def)
  have "need_min (cp_state p) \<le> ca_need dbg (cp_array_truncate p) StdHead (all_bytes (cp_tcp p))"
    using order_trans [OF need_le ca_need_run [OF r]] by simp
  moreover have "length (t_rcvd (cp_tcp p)) \<le> length (all_bytes (cp_tcp p))" by (simp add: all_bytes_def)
  moreover have "length (all_bytes (cp_tcp p)) + ca_need dbg (cp_array_truncate p) StdHead (all_bytes (cp_tcp p)) \<le> bb_cap bb (cp_buf p)"
    using assms by (simp add: live_def)
  ultimately show ?thesis unfolding undelivered_def by linarith
qed

definition consumed :: "('s, 'io) CaProto \<Rightarrow> ('s, 'io) CaProto \<Rightarrow> bool" where
  "consumed p p' \<longleftrightarrow> t_in (cp_tcp p') = [] \<or> pendings (t_in (cp_tcp p')) < pendings (t_in (cp_tcp p))"

lemma loop_body_clean:
  fixes p :: "('s, 'io) CaProto"
  assumes "live dbg Y p" and "cp_resqu p = []"
  shows "\<exists>x p'. loop_body bb dbg p = Some (Inr x :: (('b, 'io) CaError, unit poll) result, p') \<and> live dbg Y p' \<and> kept p p' \<and>
    consumed p p' \<and> pendings (t_in (cp_tcp p')) \<le> pendings (t_in (cp_tcp p)) \<and>
    (case x of Ready _ \<Rightarrow> total_w p' < total_w p
     | Pending \<Rightarrow> cp_resqu p' = [] \<and> length (dat (cp_buf p')) < need_min (cp_state p'))"
proof -
  note l = assms(1) [unfolded live_def]
  have ok: "in_ok dbg Y p" "out_ok p" using l by (simp_all add: ca_ok_def)
  obtain o2 p0 where o2: "poll_outbound bb p = Some (Inr o2 :: (('b, 'io) CaError, outbound) result, p0)" "open_conn (cp_tcp p0)"
    "cp_state p0 = cp_state p"
    using poll_outbound_clean [OF ok(2)] l by blast
  have f0: "out_frame p p0" "out_ok p0" "wire p0 = wire p" using poll_outbound_ok [OF ok(2)] o2(1) by simp_all
  note k0 = kept_out [OF f0(1,3)]
  have t0: "t_in (cp_tcp p0) = t_in (cp_tcp p)" "all_bytes (cp_tcp p0) = all_bytes (cp_tcp p)" "t_rcvd (cp_tcp p0) = t_rcvd (cp_tcp p)"
    using f0(1) by (auto simp: out_frame_def all_bytes_def)
  have ok0: "in_ok dbg Y p0" by (rule in_ok_out [OF ok(1) f0(1)])
  then have i0: "inv (cp_buf p0)" by (simp add: in_ok_def)
  let ?need = "need_min (cp_state p0)"
  have fit: "length (dat (cp_buf p0)) + undelivered (cp_tcp p0) + ?need \<le> bb_cap bb (cp_buf p0)" "0 < ?need" "\<not> cp_tcp_eof p0"
    using live_fits [OF assms(1)] l k0(3,5) o2(3) t0 by (simp_all add: undelivered_def)
  obtain hp p1 where r1: "read_loop bb ?need (o2 = OutProgress) p0 = Some (Inr (hp, ReadPending) :: (('b, 'io) CaError, bool \<times> read_end) result, p1)"
    "\<not> cp_tcp_eof p1" "open_conn (cp_tcp p1)" "bb_cap bb (cp_buf p1) = bb_cap bb (cp_buf p0)"
    "t_in (cp_tcp p1) = [] \<or> pendings (t_in (cp_tcp p1)) < pendings (t_in (cp_tcp p0))"
    "pendings (t_in (cp_tcp p1)) \<le> pendings (t_in (cp_tcp p0))"
    using read_loop_clean [OF i0 fit(3) o2(2) fit(2,1)] by blast
  obtain bs where bs: "read_post p0 p1 bs" using read_loop_ok [OF i0, of ?need "o2 = OutProgress"] r1(1) by (metis option.inject prod.inject)
  note k1 = kept_read [OF bs]
  have kk: "kept p p1" by (rule kept_trans [OF k0(1) k1(1)])
  have ok1: "in_ok dbg Y p1" by (rule in_ok_read [OF ok0 bs])
  have "decodes dbg (cp_array_truncate p1) StdHead (all_bytes (cp_tcp p1))" using l kk by (simp add: kept_def)
  then have d1: "decodes dbg (cp_array_truncate p1) StdHead (t_rcvd (cp_tcp p1))"
    unfolding all_bytes_def by (rule decodes_prefix)
  have s1: "cp_state p1 \<noteq> Done" "0 < need_min (cp_state p1)" using l k1(3) o2(3) by simp_all
  obtain hp' p2 where r2: "parse_loop bb dbg hp p1 = Some (Inr hp' :: (('b, 'io) CaError, bool) result, p2)"
    "bb_cap bb (cp_buf p2) = bb_cap bb (cp_buf p1)" "cp_state p2 \<noteq> Done" "0 < need_min (cp_state p2)"
    using parse_loop_clean [OF ok1 s1(1) d1, of hp] s1(2) by blast
  have lf: "loop_frame p1 p2" using parse_loop_ok [OF ok1 decodes_no_panic [OF d1], of hp] r2(1) by (metis option.inject prod.inject)
  note f2 = loop_frameD [OF lf] and k2 = kept_loop [OF lf]
  have kk2: "kept p p2" by (rule kept_trans [OF kk k2(1)])
  have body: "loop_body bb dbg p = Some (Inr (if hp' then Ready () else Pending), p2)"
    using o2(1) fit(1) r1(1) r2(1) by (simp add: loop_body_def ca_bind_def Let_def)
  have np: "no_panic dbg (cp_array_truncate p) (all_bytes (cp_tcp p))" using l decodes_no_panic by blast
  have post: "body_post dbg Y p (Inr (if hp' then Ready () else Pending) :: (('b, 'io) CaError, unit poll) result) p2"
    using loop_body_ok [OF conjunct1 [OF l] _ assms(2) _ np] l body by simp
  have "ca_ok dbg Y p2" using post by (simp add: body_post_def)
  moreover have "\<not> cp_tcp_eof p2" "open_conn (cp_tcp p2)" "bb_cap bb (cp_buf p2) = bb_cap bb (cp_buf p)"
    using r1(2-4) r2(2) f2(1,6) k0(5) by simp_all
  ultimately have "live dbg Y p2" using l r2(3,4) kk2 by (simp add: live_def kept_def)
  moreover have "consumed p p2" "pendings (t_in (cp_tcp p2)) \<le> pendings (t_in (cp_tcp p))"
    using r1(5,6) t0(1) f2(1) by (simp_all add: consumed_def)
  moreover have "case if hp' then Ready () else Pending of Ready _ \<Rightarrow> total_w p2 < total_w p
      | Pending \<Rightarrow> cp_resqu p2 = [] \<and> length (dat (cp_buf p2)) < need_min (cp_state p2)"
    using post r2(3) by (cases hp') (simp_all add: body_post_def)
  ultimately show ?thesis using body kk2 by blast
qed

end

context slide_buf
begin

lemma ca_poll_next_clean:
  fixes p :: "('s, 'io) CaProto"
  assumes "live dbg Y p"
  shows "\<exists>r p'. ca_poll_next bb dbg p = Some (r :: (('b, 'io) CaError, CaMsgTy) result option poll, p') \<and> calm_poll r \<and>
    live dbg (Y @ yielded r) p' \<and> kept p p' \<and> pendings (t_in (cp_tcp p')) \<le> pendings (t_in (cp_tcp p)) \<and>
    (r = Pending \<longrightarrow> consumed p p' \<and> cp_resqu p' = [] \<and> length (dat (cp_buf p')) < need_min (cp_state p'))"
  using assms
proof (induction "total_w p" arbitrary: p rule: less_induct)
  case less
  show ?case
  proof (cases "cp_resqu p")
    case (Cons m q)
    then have "ca_poll_next bb dbg p = Some (Ready (Some (Inr m)), p\<lparr>cp_resqu := q\<rparr>)" by (subst ca_poll_next.simps) simp
    moreover have "live dbg (Y @ [m]) (p\<lparr>cp_resqu := q\<rparr>)"
      using less.prems Cons by (auto simp: live_def ca_ok_def in_ok_def out_ok_def)
    ultimately show ?thesis
      by (intro exI [of _ "Ready (Some (Inr m))"] exI [of _ "p\<lparr>cp_resqu := q\<rparr>"]) (simp add: yielded_def kept_def wire_def calm_poll_def)
  next
    case Nil
    have nd: "cp_state p \<noteq> Done" using less.prems by (simp add: live_def)
    obtain x q where q: "loop_body bb dbg p = Some (Inr x :: (('b, 'io) CaError, unit poll) result, q)" "live dbg Y q" "kept p q"
      "consumed p q" "pendings (t_in (cp_tcp q)) \<le> pendings (t_in (cp_tcp p))"
      "case x of Ready _ \<Rightarrow> total_w q < total_w p
       | Pending \<Rightarrow> cp_resqu q = [] \<and> length (dat (cp_buf q)) < need_min (cp_state q)"
      using loop_body_clean [OF less.prems Nil] by blast
    show ?thesis
    proof (cases x)
      case Pending
      then have "ca_poll_next bb dbg p = Some (Pending, q)" using Nil nd q(1) by (subst ca_poll_next.simps) simp
      then show ?thesis using q Pending
        by (intro exI [of _ Pending] exI [of _ q]) (simp add: yielded_def calm_poll_def)
    next
      case (Ready u)
      then have step: "ca_poll_next bb dbg p = ca_poll_next bb dbg q" using Nil nd q(1) by (subst ca_poll_next.simps) simp
      obtain r p' where r: "ca_poll_next bb dbg q = Some (r :: (('b, 'io) CaError, CaMsgTy) result option poll, p')" "calm_poll r"
        "live dbg (Y @ yielded r) p'" "kept q p'" "pendings (t_in (cp_tcp p')) \<le> pendings (t_in (cp_tcp q))"
        "r = Pending \<longrightarrow> consumed q p' \<and> cp_resqu p' = [] \<and> length (dat (cp_buf p')) < need_min (cp_state p')"
        using less.hyps [OF _ q(2)] q(6) Ready by auto
      have "consumed p p'" if "consumed q p'" using that q(5) by (auto simp: consumed_def)
      then show ?thesis using step r kept_trans [OF q(3) r(4)] q(5) by (intro exI [of _ r] exI [of _ p']) simp
    qed
  qed
qed

lemma live_prefix:
  assumes "live dbg Y p"
  shows "\<exists>zs. fst (ca_spec dbg (cp_array_truncate p) StdHead (all_bytes (cp_tcp p))) = Y @ zs"
proof -
  let ?zs = "concat (map (\<lambda>x. case x of RdData d \<Rightarrow> d | _ \<Rightarrow> []) (t_in (cp_tcp p)))"
  have "ca_run dbg (cp_array_truncate p) (StdHead, t_rcvd (cp_tcp p)) (Y @ cp_resqu p) (cp_state p, dat (cp_buf p))"
    using assms by (auto simp: live_def ca_ok_def in_ok_def)
  from ca_spec_run [OF ca_run_append [OF this, of ?zs]] show ?thesis by (simp add: all_bytes_def)
qed

lemma live_drained:
  assumes "live dbg Y p" and "t_in (cp_tcp p) = []" and "cp_resqu p = []" and "length (dat (cp_buf p)) < need_min (cp_state p)"
  shows "fst (ca_spec dbg (cp_array_truncate p) StdHead (all_bytes (cp_tcp p))) = Y"
  using pending_complete [OF _ assms(3) _ assms(4), of dbg Y] assms(1,2) by (simp add: live_def all_bytes_def)

definition the_msgs :: "DebugText \<Rightarrow> ('s, 'io) CaProto \<Rightarrow> CaMsgTy list" where
  "the_msgs dbg p = fst (ca_spec dbg (cp_array_truncate p) StdHead (all_bytes (cp_tcp p)))"

lemma ca_client_live:
  fixes p :: "('s, 'io) CaProto"
  assumes "live dbg Y p" and "\<forall>m \<in> set (pushes ops). sendable m"
  shows "\<exists>rs p'. ca_client bb dbg ops p = Some (rs, p') \<and> (\<forall>r \<in> set rs. calm_poll r) \<and>
    live dbg (Y @ concat (map yielded rs)) p' \<and> the_msgs dbg p' = the_msgs dbg p \<and>
    (length (the_msgs dbg p) + pendings (t_in (cp_tcp p)) < length Y + length rs \<longrightarrow> Y @ concat (map yielded rs) = the_msgs dbg p)"
  using assms
proof (induction ops arbitrary: Y p)
  case Nil
  obtain zs where "the_msgs dbg p = Y @ zs" using live_prefix [OF Nil.prems(1)] by (auto simp: the_msgs_def)
  then show ?case using Nil.prems(1) by simp
next
  case (Cons o' ops)
  show ?case
  proof (cases o')
    case (PushOut m)
    have l: "live dbg Y (push_out m p)"
      using Cons.prems PushOut by (simp add: live_def ca_ok_def in_ok_def out_ok_def push_out_def) blast
    have e: "the_msgs dbg (push_out m p) = the_msgs dbg p" "t_in (cp_tcp (push_out m p)) = t_in (cp_tcp p)"
      by (simp_all add: the_msgs_def push_out_def)
    from Cons.IH [OF l] Cons.prems(2) PushOut show ?thesis by (simp add: e)
  next
    case PollNext
    obtain r q where r: "ca_poll_next bb dbg p = Some (r :: (('b, 'io) CaError, CaMsgTy) result option poll, q)" "calm_poll r"
      "live dbg (Y @ yielded r) q" "kept p q" "pendings (t_in (cp_tcp q)) \<le> pendings (t_in (cp_tcp p))"
      "r = Pending \<longrightarrow> consumed p q \<and> cp_resqu q = [] \<and> length (dat (cp_buf q)) < need_min (cp_state q)"
      using ca_poll_next_clean [OF Cons.prems(1)] by blast
    have e: "the_msgs dbg q = the_msgs dbg p" using r(4) by (simp add: the_msgs_def kept_def)
    obtain rs p' where rs: "ca_client bb dbg ops q = Some (rs :: (('b, 'io) CaError, CaMsgTy) result option poll list, p')"
      "\<forall>r \<in> set rs. calm_poll r" "live dbg ((Y @ yielded r) @ concat (map yielded rs)) p'" "the_msgs dbg p' = the_msgs dbg q"
      "length (the_msgs dbg q) + pendings (t_in (cp_tcp q)) < length (Y @ yielded r) + length rs \<longrightarrow>
        (Y @ yielded r) @ concat (map yielded rs) = the_msgs dbg q"
      using Cons.IH [OF r(3)] Cons.prems(2) PollNext by auto
    have "Y @ concat (map yielded (r # rs)) = the_msgs dbg p"
      if h: "length (the_msgs dbg p) + pendings (t_in (cp_tcp p)) < length Y + length (r # rs)"
    proof (cases "r = Pending \<and> t_in (cp_tcp q) = []")
      case True
      then have y: "the_msgs dbg q = Y @ yielded r" using live_drained [OF r(3)] r(6) by (simp add: the_msgs_def)
      obtain zs where "the_msgs dbg p' = ((Y @ yielded r) @ concat (map yielded rs)) @ zs"
        using live_prefix [OF rs(3)] by (auto simp: the_msgs_def)
      then show ?thesis using y rs(4) e by simp
    next
      case False
      then have "pendings (t_in (cp_tcp q)) < length (yielded r) + pendings (t_in (cp_tcp p)) \<and> length (yielded r) \<le> 1 \<and>
          (yielded r = [] \<or> pendings (t_in (cp_tcp q)) \<le> pendings (t_in (cp_tcp p)))"
        using r(2,5,6) by (auto simp: calm_poll_def yielded_def consumed_def)
      then have "length (the_msgs dbg q) + pendings (t_in (cp_tcp q)) < length (Y @ yielded r) + length rs"
        using h e by (cases "yielded r") auto
      then show ?thesis using rs(5) e by simp
    qed
    then show ?thesis using PollNext r(1,2) rs e by (intro exI [of _ "r # rs"] exI [of _ p']) simp
  qed
qed

end

end
