(* ===== verification/CaProps.thy ===== *)
theory CaProps
  imports CaConnLive
begin

text \<open>
  The properties of the Channel Access protocol code, over the definitions of \<open>CaMsg\<close> and \<open>CaConn\<close>:
  the stream yields the messages of the bytes received, the bytes sent are the messages queued,
  encoded headers are read back, and the inputs on which decoding panics or drops messages.
\<close>

section \<open>The whole stream\<close>

context slide_buf
begin

lemma new_ok:
  assumes "t_rcvd t = []"
  shows "ca_ok dbg [] (CaProto_new bb t tr qcap)"
proof -
  have "inv (bb_new bb (unat PROTO_INPUT_BUF_CAP)) \<and> dat (bb_new bb (unat PROTO_INPUT_BUF_CAP)) = []"
    "inv (bb_new bb (1024 * 256))"
    using new [of "unat PROTO_INPUT_BUF_CAP"] new [of "1024 * 256"] by (simp_all add: PROTO_INPUT_BUF_CAP_def)
  then show ?thesis
    using assms by (auto simp: ca_ok_def in_ok_def out_ok_def CaProto_new_def intro: ca_run.start)
qed

lemma new_wire: "t_sent t = [] \<Longrightarrow> wire (CaProto_new bb t tr qcap) = []"
  using new [of "1024 * 256"] by (simp add: wire_def CaProto_new_def)

lemma client_from_new:
  assumes "t_rcvd t = []" and "t_sent t = []" and "0 < qcap"
    and "snd (ca_spec dbg tr StdHead (all_bytes t)) \<noteq> Panicked" and "\<forall>m \<in> set (pushes ops). sendable m"
  shows "\<exists>rs p'. ca_client bb dbg ops (CaProto_new bb t tr qcap) = Some (rs, p') \<and>
    ca_ok dbg (concat (map yielded rs)) p' \<and> wire p' = concat (map encode (pushes ops)) \<and>
    cp_array_truncate p' = tr \<and> (rs \<noteq> [] \<and> last rs = Pending \<longrightarrow> settled dbg (concat (map yielded rs)) p')"
proof -
  let ?p = "CaProto_new bb t tr qcap"
  have f: "0 < cp_resqu_cap ?p" "cp_array_truncate ?p = tr" "cp_tcp ?p = t" using assms(3) by (simp_all add: CaProto_new_def)
  have "snd (ca_spec dbg (cp_array_truncate ?p) StdHead (all_bytes (cp_tcp ?p))) \<noteq> Panicked" using assms(4) f by simp
  from ca_client_ok [OF new_ok [OF assms(1)] f(1) this assms(5)] show ?thesis
    by (auto simp: f new_wire [OF assms(2)] split: if_splits)
qed

end

context slide_buf
begin

lemma live_new:
  assumes "t_rcvd t = []" and "0 < qcap" and "open_conn t" and "decodes dbg tr StdHead (all_bytes t)"
    and "length (all_bytes t) + ca_need dbg tr StdHead (all_bytes t) \<le> unat PROTO_INPUT_BUF_CAP"
  shows "live dbg [] (CaProto_new bb t tr qcap)"
proof -
  have "bb_cap bb (bb_new bb (unat PROTO_INPUT_BUF_CAP)) = unat PROTO_INPUT_BUF_CAP"
    using new [of "unat PROTO_INPUT_BUF_CAP"] by (simp add: PROTO_INPUT_BUF_CAP_def)
  then show ?thesis using assms new_ok [OF assms(1)] by (simp add: live_def CaProto_new_def)
qed

lemma client_from_live:
  assumes "t_rcvd t = []" and "0 < qcap" and "open_conn t" and "decodes dbg tr StdHead (all_bytes t)"
    and "length (all_bytes t) + ca_need dbg tr StdHead (all_bytes t) \<le> unat PROTO_INPUT_BUF_CAP"
    and "\<forall>m \<in> set (pushes ops). sendable m" and "ca_client bb dbg ops (CaProto_new bb t tr qcap) = Some (rs, p')"
  shows "(\<forall>r \<in> set rs. calm_poll r) \<and>
    (length (fst (ca_spec dbg tr StdHead (all_bytes t))) + pendings (t_in t) < length rs \<longrightarrow>
       concat (map yielded rs) = fst (ca_spec dbg tr StdHead (all_bytes t)))"
proof -
  have m: "the_msgs dbg (CaProto_new bb t tr qcap) = fst (ca_spec dbg tr StdHead (all_bytes t))" "cp_tcp (CaProto_new bb t tr qcap) = t"
    by (simp_all add: the_msgs_def CaProto_new_def)
  show ?thesis using ca_client_live [OF live_new [OF assms(1-5)] assms(6)] assms(7) m by auto
qed

end

text \<open>
  C4. For every buffer that keeps the documented contract, every way the socket delivers its bytes,
  every way it accepts bytes and every order of queueing messages and polling: if decoding the bytes
  the socket delivers does not panic, every poll returns, the messages yielded are a prefix of the
  messages of the bytes received, and once a poll is pending they are all of them, and the bytes left
  in the buffer are those of an incomplete message.

  If besides the socket reports neither an error nor an end and never accepts a write of no bytes, the
  bytes decode without an error and they fit the input buffer beside the largest part the parser waits
  for, then no poll gives an error or the end of the stream, and as soon as the stream was polled more
  often than there are messages and pending results of the socket together, all messages of all bytes
  have been yielded, each once and in order.
\<close>

theorem ca_stream_refines_parser:
  assumes "slide_buf bb binv dat" and "t_rcvd t = []" and "t_sent t = []" and "0 < qcap"
    and "snd (ca_spec dbg tr StdHead (all_bytes t)) \<noteq> Panicked" and "\<forall>m \<in> set (pushes ops). sendable m"
  shows "\<exists>rs p'. ca_client bb dbg ops (CaProto_new bb t tr qcap) = Some (rs, p') \<and> length rs = polls ops \<and>
    (\<exists>zs. fst (ca_spec dbg tr StdHead (t_rcvd (cp_tcp p'))) = concat (map yielded rs) @ zs) \<and>
    (rs \<noteq> [] \<and> last rs = Pending \<longrightarrow>
       ca_spec dbg tr StdHead (t_rcvd (cp_tcp p')) = (concat (map yielded rs), Stuck (cp_state p') (dat (cp_buf p')))) \<and>
    (open_conn t \<and> decodes dbg tr StdHead (all_bytes t) \<and>
       length (all_bytes t) + ca_need dbg tr StdHead (all_bytes t) \<le> unat PROTO_INPUT_BUF_CAP \<longrightarrow>
     (\<forall>r \<in> set rs. r = Pending \<or> (\<exists>m. r = Ready (Some (Inr m)))) \<and>
     (length (fst (ca_spec dbg tr StdHead (all_bytes t))) + pendings (t_in t) < polls ops \<longrightarrow>
        concat (map yielded rs) = fst (ca_spec dbg tr StdHead (all_bytes t))))"
proof -
  obtain rs p' where r: "ca_client bb dbg ops (CaProto_new bb t tr qcap) = Some (rs, p')"
    "slide_buf.ca_ok binv dat dbg (concat (map yielded rs)) p'" "cp_array_truncate p' = tr"
    "rs \<noteq> [] \<and> last rs = Pending \<longrightarrow> slide_buf.settled dat dbg (concat (map yielded rs)) p'"
    using slide_buf.client_from_new [OF assms] by blast
  moreover have "\<exists>zs. fst (ca_spec dbg tr StdHead (t_rcvd (cp_tcp p'))) = concat (map yielded rs) @ zs"
    using slide_buf.yielded_prefix [OF assms(1) r(2)] r(3) by auto
  moreover note slide_buf.client_from_live [OF assms(1,2,4) _ _ _ assms(6) r(1)]
  ultimately show ?thesis
    by (intro exI [of _ rs] exI [of _ p']) (simp add: slide_buf.settled_def [OF assms(1)] calm_poll_def ca_client_polls)
qed

lemma slide_buf_impl: "slide_buf SlideBuf_impl sb_inv sb_abs" by (rule sbb.slide_buf_axioms)

definition plain_dbg :: DebugText where
  "plain_dbg = \<lparr>dbg_bytes = id, dbg_nul_error = (\<lambda>_. []), dbg_into_string_error = (\<lambda>_. [])\<rparr>"

text \<open>A connection that delivers an echo message in two parts and accepts twenty bytes.\<close>

definition demo_tcp :: "unit Tcp" where
  "demo_tcp = \<lparr>t_in = [RdData [0, 0x17, 0, 0, 0], RdPending, RdData [0, 0, 0, 0, 0, 0, 0, 0, 0, 0, 0]],
     t_out = [WrAccept 20], t_rcvd = [], t_sent = []\<rparr>"

lemma demo_spec: "ca_spec plain_dbg 10 StdHead (all_bytes demo_tcp) = ([Echo], Stuck StdHead [])"
  by (simp add: ca_spec.simps spec_parse_def head_of_def all_bytes_def demo_tcp_def from_proto_infos_def from_be_def
      nat_from_be_def Let_def)

lemma demo_live: "open_conn demo_tcp" "decodes plain_dbg 10 StdHead (all_bytes demo_tcp)" "pendings (t_in demo_tcp) = 1"
    "length (all_bytes demo_tcp) + ca_need plain_dbg 10 StdHead (all_bytes demo_tcp) \<le> unat PROTO_INPUT_BUF_CAP"
proof -
  show "open_conn demo_tcp" "pendings (t_in demo_tcp) = 1" by (simp_all add: open_conn_def demo_tcp_def)
  show "decodes plain_dbg 10 StdHead (all_bytes demo_tcp)" by (simp add: decodes_def demo_spec)
  have "ca_need plain_dbg 10 StdHead [] = 16" by (subst ca_need.simps) simp
  then have "ca_need plain_dbg 10 StdHead (all_bytes demo_tcp) = 16"
    by (subst ca_need.simps) (simp add: spec_parse_def head_of_def all_bytes_def demo_tcp_def from_proto_infos_def from_be_def
        nat_from_be_def Let_def)
  then show "length (all_bytes demo_tcp) + ca_need plain_dbg 10 StdHead (all_bytes demo_tcp) \<le> unat PROTO_INPUT_BUF_CAP"
    by (simp add: all_bytes_def demo_tcp_def PROTO_INPUT_BUF_CAP_def)
qed

theorem ca_stream_refines_parser_witness:
  "\<exists>rs p'. ca_client SlideBuf_impl plain_dbg [PushOut Version, PollNext, PollNext, PollNext] (CaProto_new SlideBuf_impl demo_tcp 10 256) = Some (rs, p') \<and>
    length rs = 3 \<and> concat (map yielded rs) = [Echo]"
proof -
  let ?ops = "[PushOut Version, PollNext, PollNext, PollNext]"
  have "t_rcvd demo_tcp = []" "t_sent demo_tcp = []" "polls ?ops = 3" "\<forall>m \<in> set (pushes ?ops). sendable m"
    by (simp_all add: demo_tcp_def)
  moreover have "snd (ca_spec plain_dbg 10 StdHead (all_bytes demo_tcp)) \<noteq> Panicked"
    "length (fst (ca_spec plain_dbg 10 StdHead (all_bytes demo_tcp))) + pendings (t_in demo_tcp) < 3"
    by (simp_all add: demo_spec demo_live(3))
  ultimately obtain rs p' where "ca_client SlideBuf_impl plain_dbg ?ops (CaProto_new SlideBuf_impl demo_tcp 10 256) = Some (rs, p')"
    "length rs = 3" "concat (map yielded rs) = fst (ca_spec plain_dbg 10 StdHead (all_bytes demo_tcp))"
    using ca_stream_refines_parser [OF slide_buf_impl, of demo_tcp 256 plain_dbg 10 ?ops] demo_live(1,2,4) by force
  then show ?thesis unfolding demo_spec fst_conv by blast
qed

text \<open>
  C5. The bytes written to the socket, the bytes waiting in the output buffer and the encodings of the
  messages still queued are together the encodings of all messages the client queued, in that order:
  nothing is lost, duplicated or reordered by partial writes.
\<close>

theorem ca_stream_sends_in_order:
  assumes "slide_buf bb binv dat" and "t_rcvd t = []" and "t_sent t = []" and "0 < qcap"
    and "snd (ca_spec dbg tr StdHead (all_bytes t)) \<noteq> Panicked" and "\<forall>m \<in> set (pushes ops). sendable m"
  shows "\<exists>rs p'. ca_client bb dbg ops (CaProto_new bb t tr qcap) = Some (rs, p') \<and>
    t_sent (cp_tcp p') @ dat (cp_outbuf p') @ concat (map encode (cp_out p')) = concat (map encode (pushes ops))"
  using slide_buf.client_from_new [OF assms] by (auto simp: slide_buf.wire_def [OF assms(1)])

theorem ca_stream_sends_in_order_witness:
  "\<exists>rs p'. ca_client SlideBuf_impl plain_dbg [PushOut Version, PushOut Echo, PollNext] (CaProto_new SlideBuf_impl demo_tcp 10 256) = Some (rs, p') \<and>
    t_sent (cp_tcp p') @ sb_abs (cp_outbuf p') @ concat (map encode (cp_out p')) = encode Version @ encode Echo"
  using ca_stream_sends_in_order [OF slide_buf_impl, of demo_tcp 256 plain_dbg 10 "[PushOut Version, PushOut Echo, PollNext]"]
  by (simp add: demo_spec) (simp add: demo_tcp_def)

section \<open>Headers\<close>

definition head_info :: "CaMsgTy \<Rightarrow> HeadInfo" where
  "head_info m =
     \<lparr>hi_cmdid = cmdid m, hi_payload_size = of_nat (length (payload_of m)), hi_data_type = data_type m,
      hi_data_count = the (data_count m), hi_param1 = param1 m, hi_param2 = param2 m,
      hi_is_ext = (\<not> is_std (length (payload_of m)) (the (data_count m)))\<rparr>"

lemma from_to_be16 [simp]: "from_be (to_be 2 (w :: u16)) = w" and from_to_be32 [simp]: "from_be (to_be 4 (v :: u32)) = v"
  by (simp_all add: from_to_be)

lemma ucast_small: "cnt \<le> 0xffff \<Longrightarrow> ucast (ucast (cnt :: u32) :: u16) = cnt"
  by (simp add: word_unat_eq_iff unsigned_ucast_eq unsigned_take_bit_eq word_le_nat_alt take_bit_nat_eq_self)

lemma ucast_of_nat_small: "pl \<le> 0x3ff0 \<Longrightarrow> ucast (of_nat pl :: u16) = (of_nat pl :: u32)"
  by (simp add: word_unat_eq_iff unsigned_ucast_eq unsigned_of_nat take_bit_nat_eq_self)

lemma of_nat_u32: "n < 2 ^ 32 \<Longrightarrow> unat (of_nat n :: u32) = n"
  by (simp add: unsigned_of_nat take_bit_nat_eq_self)

lemma head_std:
  assumes "is_std pl cnt"
  shows "head_of (to_be 2 c @ to_be 2 (of_nat pl :: u16) @ to_be 2 ty @ to_be 2 (ucast cnt :: u16) @ to_be 4 a @ to_be 4 b @ zs) =
    \<lparr>hi_cmdid = c, hi_payload_size = of_nat pl, hi_data_type = ty, hi_data_count = cnt, hi_param1 = a, hi_param2 = b, hi_is_ext = False\<rparr>"
  using assms by (simp add: head_of_def is_std_def ucast_small ucast_of_nat_small)

lemma head_ext:
  "head_of (to_be 2 c @ [0xff, 0xff] @ to_be 2 ty @ [0, 0] @ to_be 4 a @ to_be 4 b @ zs) =
    \<lparr>hi_cmdid = c, hi_payload_size = 0xffff, hi_data_type = ty, hi_data_count = 0, hi_param1 = a, hi_param2 = b, hi_is_ext = False\<rparr>"
proof -
  have "from_be [0xff, 0xff] = (0xffff :: u16)" "from_be [0, 0] = (0 :: u16)" by (simp_all add: from_be_def nat_from_be_def)
  then show ?thesis by (simp add: head_of_def)
qed

text \<open>The parser at a header whose payload it has not read yet.\<close>

lemma ca_spec_std:
  assumes "16 \<le> length bs" and "hi_payload_size (head_of bs) \<noteq> 0xffff"
  shows "ca_spec dbg tr StdHead bs = ca_spec dbg tr (Payload (head_of bs)) (drop 16 bs)"
proof (cases "hi_payload_size (head_of bs) = 0")
  case True
  then show ?thesis
    using assms by (subst (1 2) ca_spec.simps) (simp add: spec_parse_def Let_def)
next
  case False
  then show ?thesis
    using assms by (subst ca_spec.simps) (simp add: spec_parse_def Let_def)
qed

lemma ca_spec_ext:
  assumes "24 \<le> length bs" and "hi_payload_size (head_of bs) = 0xffff"
  shows "ca_spec dbg tr StdHead bs =
    ca_spec dbg tr (Payload (with_ext (from_be (take 4 (drop 16 bs))) (from_be (take 4 (drop 20 bs))) (head_of bs))) (drop 24 bs)"
proof -
  have "\<not> length bs - 16 < 8" using assms(1) by simp
  then have "ca_spec dbg tr (ExtHead (head_of bs)) (drop 16 bs) =
      ca_spec dbg tr (Payload (with_ext (from_be (take 4 (drop 16 bs))) (from_be (take 4 (drop 20 bs))) (head_of bs))) (drop 24 bs)"
    by (subst ca_spec.simps) (simp add: spec_parse_def)
  then show ?thesis using assms by (subst ca_spec.simps) (simp add: spec_parse_def Let_def)
qed

lemma header_std:
  assumes "is_std (length (payload_of m)) (the (data_count m))" and "length (payload_of m) < 2 ^ 32"
  shows "head_of (encode m @ zs) = head_info m" "hi_payload_size (head_info m) \<noteq> 0xffff"
    "hi_payload_size (head_info m) = 0 \<longleftrightarrow> payload_of m = []"
    "16 \<le> length (encode m @ zs)" "drop 16 (encode m @ zs) = payload_of m @ zs"
proof -
  have u: "unat (hi_payload_size (head_info m)) = length (payload_of m)" using assms(2) by (simp add: head_info_def of_nat_u32)
  moreover have "unat (0xffff :: u32) = 0xffff" by simp
  ultimately show "hi_payload_size (head_info m) \<noteq> 0xffff" using assms(1) unfolding is_std_def by auto
  show "hi_payload_size (head_info m) = 0 \<longleftrightarrow> payload_of m = []" using u by (metis length_0_conv unat_eq_zero)
qed (use assms(1) in \<open>simp_all add: encode_def Let_def head_std head_info_def\<close>)

lemma header_ext:
  assumes "\<not> is_std (length (payload_of m)) (the (data_count m))"
  shows "hi_payload_size (head_of (encode m @ zs)) = 0xffff" "24 \<le> length (encode m @ zs)"
    "with_ext (from_be (take 4 (drop 16 (encode m @ zs)))) (from_be (take 4 (drop 20 (encode m @ zs)))) (head_of (encode m @ zs)) = head_info m"
    "drop 24 (encode m @ zs) = payload_of m @ zs"
  using assms by (simp_all add: encode_def Let_def head_ext [simplified] with_ext_def head_info_def)

lemma ca_spec_encoded:
  assumes "length (payload_of m) < 2 ^ 32"
  shows "ca_spec dbg tr StdHead (encode m @ zs) = ca_spec dbg tr (Payload (head_info m)) (payload_of m @ zs)"
proof (cases "is_std (length (payload_of m)) (the (data_count m))")
  case True
  note h = header_std [OF True assms]
  show ?thesis using ca_spec_std [of "encode m @ zs"] h by (simp only: h)
next
  case False
  note h = header_ext [OF False, of zs]
  show ?thesis using ca_spec_ext [OF h(2,1)] by (simp only: h)
qed

lemma bind_wrap_some:
  "x \<bind> case_sum (\<lambda>e. Some (Inl e, q)) (\<lambda>m. Some (Inr (Some m), q)) = map_option (\<lambda>r. (map_sum id Some r, q)) x"
  by (cases x) (auto simp: map_sum_def split: sum.split)

context slide_buf
begin

text \<open>The parser at the start of an encoded message, with the short header and with the extended one.\<close>

lemma parse_std_header:
  assumes "is_std (length (payload_of m)) (the (data_count m))" and "length (payload_of m) < 2 ^ 32"
    and "inv (cp_buf p)" and "dat (cp_buf p) = encode m @ zs" and "cp_state p = StdHead"
  shows "\<exists>q. HeadInfo_from_netbuf bb p = Some (Inr (head_info m), q) \<and> dat (cp_buf q) = payload_of m @ zs \<and>
    parse_item bb dbg p =
      (if payload_of m = []
       then map_option (\<lambda>r. (map_sum id Some r, q)) (from_proto_infos dbg (head_info m) [] (cp_array_truncate p))
       else Some (Inr None, q\<lparr>cp_state := Payload (head_info m)\<rparr>))"
proof -
  note h = header_std [OF assms(1,2)]
  obtain s where s: "HeadInfo_from_netbuf bb p = Some (Inr (head_info m), p\<lparr>cp_buf := s\<rparr>)" "dat s = payload_of m @ zs"
    using read_head [OF assms(3)] h(4) [of zs] unfolding assms(4) h(1,5) by blast
  have q: "p\<lparr>cp_buf := s, cp_state := StdHead\<rparr> = p\<lparr>cp_buf := s\<rparr>" using assms(5) by simp
  show ?thesis
    using s assms(5) h(2,3)
    by (intro exI [of _ "p\<lparr>cp_buf := s\<rparr>"])
      (auto simp: parse_item_def ca_bind_def decode_def q bind_wrap_some)
qed

lemma parse_ext_header:
  fixes p :: "('s, 'io) CaProto"
  assumes "\<not> is_std (length (payload_of m)) (the (data_count m))"
    and "inv (cp_buf p)" and "dat (cp_buf p) = encode m @ zs" and "cp_state p = StdHead"
  shows "\<exists>p1 p2. parse_item bb dbg p = Some (Inr None :: (('b, 'io) CaError, CaMsgTy option) result, p1) \<and>
    parse_item bb dbg p1 = Some (Inr None :: (('b, 'io) CaError, CaMsgTy option) result, p2) \<and>
    cp_state p2 = Payload (head_info m) \<and> dat (cp_buf p2) = payload_of m @ zs"
proof -
  note h = header_ext [OF assms(1), of zs]
  let ?hi = "head_of (encode m @ zs)"
  have 1: "spec_parse dbg (cp_array_truncate p) (cp_state p) (dat (cp_buf p)) =
      (Some (Inr None) :: ('b, 'io) parsed, ExtHead ?hi, drop 16 (encode m @ zs))"
    using h(1) assms(3,4) by (simp add: spec_parse_def)
  have "cp_state p \<noteq> Done" "need_min (cp_state p) \<le> length (dat (cp_buf p))" using h(2) assms(3,4) by simp_all
  from parse_item_ok [OF assms(2) this 1]
  obtain p1 where p1: "parse_item bb dbg p = Some (Inr None :: (('b, 'io) CaError, CaMsgTy option) result, p1)" "inv (cp_buf p1)"
    "dat (cp_buf p1) = drop 16 (encode m @ zs)" "cp_state p1 = ExtHead ?hi"
    by auto
  have 2: "spec_parse dbg (cp_array_truncate p1) (cp_state p1) (dat (cp_buf p1)) =
      (Some (Inr None) :: ('b, 'io) parsed, Payload (head_info m), payload_of m @ zs)"
    using h(3,4) unfolding p1(3,4) by (simp add: spec_parse_def del: take_append drop_append)
  have "cp_state p1 \<noteq> Done" "need_min (cp_state p1) \<le> length (dat (cp_buf p1))" using h(2) unfolding p1(3,4) by simp_all
  from parse_item_ok [OF p1(2) this 2] p1(1) show ?thesis by auto
qed

end

text \<open>
  C34. A message that is placed into the output buffer starts with a header that the parser of the stream
  reads back. With such bytes in the input buffer and the stream at the start of a message,
  \<^verbatim>\<open>HeadInfo::from_netbuf\<close> gives the short header with the same command, payload size, data type, data
  count and parameters, and \<^verbatim>\<open>parse_item\<close> decodes the empty payload under this header or waits for the
  payload; with the extended header, two calls of \<^verbatim>\<open>parse_item\<close> leave the stream waiting for the payload
  under the same header with the full size and count. In both cases exactly the header is consumed.
\<close>

theorem encoded_header_is_read_back:
  fixes p :: "('s, 'io) CaProto"
  assumes "slide_buf bb binv dat" and "sendable m" and "length (payload_of m) < 2 ^ 32"
    and "binv (cp_buf p)" and "dat (cp_buf p) = encode m @ zs" and "cp_state p = StdHead"
  shows "place_into m (replicate (length (encode m)) 0) = Some (encode m) \<and>
    ca_spec dbg tr StdHead (encode m @ zs) = ca_spec dbg tr (Payload (head_info m)) (payload_of m @ zs) \<and>
    (if is_std (length (payload_of m)) (the (data_count m))
     then \<exists>q. HeadInfo_from_netbuf bb p = Some (Inr (head_info m), q) \<and> dat (cp_buf q) = payload_of m @ zs \<and>
       parse_item bb dbg p =
         (if payload_of m = []
          then map_option (\<lambda>r. (map_sum id Some r, q)) (from_proto_infos dbg (head_info m) [] (cp_array_truncate p))
          else Some (Inr None, q\<lparr>cp_state := Payload (head_info m)\<rparr>))
     else \<exists>p1 p2. parse_item bb dbg p = Some (Inr None :: (('b, 'io) CaError, CaMsgTy option) result, p1) \<and>
       parse_item bb dbg p1 = Some (Inr None :: (('b, 'io) CaError, CaMsgTy option) result, p2) \<and>
       cp_state p2 = Payload (head_info m) \<and> dat (cp_buf p2) = payload_of m @ zs)"
  using place_into_ok [OF assms(2)] ca_spec_encoded [OF assms(3), of dbg tr zs]
    slide_buf.parse_std_header [OF assms(1) _ assms(3-6)] slide_buf.parse_ext_header [OF assms(1) _ assms(4-6)]
  by simp

text \<open>A host name is in the buffer, followed by two bytes.\<close>

definition demo_host :: CaMsgTy where
  "demo_host = HostName (str ''host'')"

definition demo_named :: "(SlideBuf, unit) CaProto" where
  "demo_named = (CaProto_new SlideBuf_impl demo_tcp 10 256)\<lparr>cp_buf := \<lparr>sb_buf = encode demo_host @ [1, 2] @ replicate 100 0, sb_wp = 26, sb_rp = 0\<rparr>\<rparr>"

theorem encoded_header_is_read_back_witness:
  "\<exists>q. parse_item SlideBuf_impl plain_dbg demo_named = Some (Inr None, q\<lparr>cp_state := Payload (head_info demo_host)\<rparr>) \<and>
    sb_abs (cp_buf q) = payload_of demo_host @ [1, 2]"
proof -
  have pl: "payload_of demo_host = str ''host'' @ replicate 4 0" by (simp add: demo_host_def payload_of_def str_def padded_def place_str_def)
  then have l: "length (payload_of demo_host) = 8" "payload_of demo_host \<noteq> []" by (simp_all add: str_def)
  have std: "is_std (length (payload_of demo_host)) (the (data_count demo_host))" using l(1) by (simp add: is_std_def demo_host_def)
  then have e: "length (encode demo_host) = 24" using l(1) by (simp add: encode_def Let_def)
  have "sb_inv (cp_buf demo_named)" "sb_abs (cp_buf demo_named) = encode demo_host @ [1, 2]" "cp_state demo_named = StdHead"
    using e by (simp_all add: demo_named_def sb_inv_def sb_abs_def CaProto_new_def)
  with encoded_header_is_read_back [OF slide_buf_impl, of demo_host demo_named "[1, 2]" plain_dbg 10] std l show ?thesis
    by (auto simp: demo_host_def)
qed

section \<open>Panics\<close>

text \<open>
  Decoding the payload of an error message panics exactly if the payload has 17 bytes: the slice of
  the message text then starts after its end.
\<close>

theorem error_message_panics_iff:
  assumes "hi_cmdid hi = 0x0b"
  shows "from_proto_infos dbg hi payload tr = None \<longleftrightarrow> length payload = 17"
  using assms by (auto simp: from_proto_infos_def error_cmd_msg_def slice_def Let_def)

theorem error_message_panics_iff_witness:
  "from_proto_infos plain_dbg \<lparr>hi_cmdid = 0x0b, hi_payload_size = 17, hi_data_type = 0, hi_data_count = 0,
     hi_param1 = 1, hi_param2 = 2, hi_is_ext = False\<rparr> (replicate 17 0) 10 = None"
  by (rule error_message_panics_iff [THEN iffD2]) simp_all

lemma rbind_ret_None: "rbind x (\<lambda>v. Some (Inr (g v))) = None \<longleftrightarrow> x = None"
  by (cases x; cases "the x") auto

text \<open>
  Decoding a value with time metadata in a reply to a read panics exactly if the payload is shorter
  than the metadata and its padding, and for a subscription update exactly if it has the metadata but
  not the padding; a shorter update gives an error.
\<close>

theorem time_value_panics_iff:
  assumes "hi_cmdid hi = c" and "c = 0x01 \<or> c = 0x0f"
    and "(CaDbrType_from_ca_u16 (hi_data_type hi) :: (('b, 'io) CaError, CaDbrType) result) = Inr ty"
    and "dbr_meta ty = DbrTime" and "from_ca_count (hi_data_count hi) = Inr sh"
  shows "(from_proto_infos dbg hi payload tr :: (('b, 'io) CaError, CaMsgTy) result panics) = None \<longleftrightarrow>
    length payload < 12 + meta_padding DbrTime (dbr_scalar_type ty) \<and> (c = 0x01 \<longrightarrow> 12 \<le> length payload)"
proof -
  have "(extract_ca_data_value hi payload tr :: (('b, 'io) CaError, CaEventValue) result panics) = None \<longleftrightarrow>
      length payload < 12 + meta_padding DbrTime (dbr_scalar_type ty)"
    using assms(3-5) by (auto simp: extract_ca_data_value_def extract_meta_def slice_def rbind_ret_None)
  then show ?thesis using assms(1,2) by (auto simp: from_proto_infos_def rbind_ret_None)
qed

theorem time_value_panics_iff_witness:
  "(from_proto_infos plain_dbg \<lparr>hi_cmdid = 0x01, hi_payload_size = 14, hi_data_type = 20, hi_data_count = 1,
     hi_param1 = 1, hi_param2 = 2, hi_is_ext = False\<rparr> (replicate 14 0) 10 :: ((unit, unit) CaError, CaMsgTy) result panics) = None"
  by (rule time_value_panics_iff [where c = 1 and ty = "\<lparr>dbr_meta = DbrTime, dbr_scalar_type = CsF64\<rparr>" and sh = ShScalar, THEN iffD2])
    (simp_all add: CaDbrType_from_ca_u16_def from_ca_count_def)

section \<open>The end of the connection\<close>

text \<open>
  Once the connection has ended and the output is written, a poll with an empty result queue does not
  parse what is in the input buffer: complete messages that did not fit the result queue are lost, and
  with at least 123 bytes of them the stream ends with an error.
\<close>

theorem eof_drops_buffered_messages:
  assumes "slide_buf bb binv dat" and "binv (cp_buf p)" and "binv (cp_outbuf p)" and "dat (cp_outbuf p) = []"
    and "cp_tcp_eof p" and "cp_out p = []" and "cp_resqu p = []" and "cp_state p = StdHead" and "123 \<le> bb_cap bb (cp_buf p)"
    and "0 < cp_resqu_cap p"
  shows "ca_poll_next bb dbg p =
    Some (if length (dat (cp_buf p)) < 123 then Ready None else Ready (Some (Inl ParseAttemptInDoneState)), p\<lparr>cp_state := Done\<rparr>)"
proof -
  let ?q = "p\<lparr>cp_state := Done\<rparr>"
  have l: "bb_len bb (cp_outbuf p) = 0" "bb_len bb (cp_buf p) = length (dat (cp_buf p))"
    using slide_buf.len [OF assms(1)] assms(2-4) by simp_all
  have "place_msgs bb p = Some (Inr (), p)" using assms(6) by (subst place_msgs.simps) (simp add: out_msg_buf_def)
  moreover have "write_out bb False p = Some (Inr (False, False), p)" using l by (subst write_out.simps) simp
  ultimately have o: "poll_outbound bb p = Some (Inr OutIdle, ?q)" using assms(5) by (simp add: poll_outbound_def ca_bind_def)
  have r: "read_loop bb n hp ?q = Some (Inr (hp, ReadStop), ?q)" for n hp using assms(5) by (subst read_loop.simps) simp
  have "parse_loop bb dbg False ?q = Some (if length (dat (cp_buf p)) < 123 then Inr False else Inl ParseAttemptInDoneState, ?q)"
    using l assms(7,10) by (subst parse_loop.simps) (simp add: parse_item_def)
  then have "loop_body bb dbg p = Some (if length (dat (cp_buf p)) < 123 then Inr (Ready ()) else Inl ParseAttemptInDoneState, ?q)"
    using o r assms(5,9) by (simp add: loop_body_def ca_bind_def Let_def)
  moreover have "ca_poll_next bb dbg ?q = Some (Ready None, ?q)" using assms(7) by (subst ca_poll_next.simps) simp
  ultimately show ?thesis using assms(7,8) by (subst ca_poll_next.simps) simp
qed

text \<open>
  Reading comes before parsing: when the buffered bytes leave less room than the parser waits for, the
  read fails and with it the stream, also if the buffer holds complete messages.
\<close>

lemma full_input_buffer_fails:
  assumes "sb_inv (cp_buf p)" and "\<not> cp_tcp_eof p" and "sb_cap (cp_buf p) < length (sb_abs (cp_buf p)) + need"
  shows "\<exists>e p'. read_loop SlideBuf_impl need hp p = Some (Inl (SlideBufError e), p')"
proof -
  obtain s where s: "sb_make_space need (cp_buf p) = Some s" "sb_wcap s < need"
    using sb_make_space_inv [OF assms(1), of need] assms(3) by blast
  then have "\<exists>e. bb_area SlideBuf_impl need (cp_buf p) = Some (Inl e, s)"
    by (simp add: SlideBuf_impl_def sb_available_writable_area_def)
  then show ?thesis using assms(2) by (subst read_loop.simps) auto
qed

text \<open>An echo message is in the buffer; the stream ends without it.\<close>

definition demo_rest :: "(SlideBuf, unit) CaProto" where
  "demo_rest =
     (CaProto_new SlideBuf_impl demo_tcp 10 256)\<lparr>cp_tcp_eof := True,
        cp_buf := \<lparr>sb_buf = [0, 0x17, 0, 0, 0, 0, 0, 0, 0, 0, 0, 0, 0, 0, 0, 0] @ replicate 184 0, sb_wp = 16, sb_rp = 0\<rparr>\<rparr>"

theorem eof_drops_buffered_messages_witness:
  "ca_poll_next SlideBuf_impl plain_dbg demo_rest = Some (Ready None, demo_rest\<lparr>cp_state := Done\<rparr>) \<and>
   ca_spec plain_dbg 10 StdHead (sb_abs (cp_buf demo_rest)) = ([Echo], Stuck StdHead [])"
proof -
  have b: "sb_inv (cp_buf demo_rest)" "length (sb_abs (cp_buf demo_rest)) = 16" "bb_cap SlideBuf_impl (cp_buf demo_rest) = 200"
    "sb_abs (cp_buf demo_rest) = all_bytes demo_tcp"
    by (simp_all add: demo_rest_def sb_inv_def sb_abs_def SlideBuf_impl_def sb_cap_def all_bytes_def demo_tcp_def)
  have o: "sb_inv (cp_outbuf demo_rest)" "sb_abs (cp_outbuf demo_rest) = []"
    using sbb.new [of "1024 * 256"] by (simp_all add: demo_rest_def CaProto_new_def)
  show ?thesis
    using eof_drops_buffered_messages [OF slide_buf_impl b(1) o, of plain_dbg] b(2,3) demo_spec
    by (simp add: b(4)) (simp add: demo_rest_def CaProto_new_def)
qed

end
