(* ===== verification/RangeFilter.thy ===== *)
theory RangeFilter
  imports MergerCorrect BinRange
begin

text \<open>
  The range filter \<^verbatim>\<open>RangeFilter2\<close> of \<^verbatim>\<open>daqbuf-streams/src/rangefilter2.rs\<close>: it passes the events of a
  stream of containers that are in a range of time, and, if asked for, the last event before the range.
  The containers are those of the merge trait; trace messages and the span are left out.
\<close>

section \<open>The filter\<close>

datatype rf_error = DrainUnclean | Unordered | RfLogic

text \<open>\<^verbatim>\<open>sitem_err_from_string\<close> turns an error of the filter or a text into an error item.\<close>

datatype 'e rf_item_error = RfInput 'e | RfErr rf_error | PollNextOnComplete

record ('e, 't) RangeFilter2 =
  rf_inp :: "('e, 't) stream"
  rf_range :: NanoRange
  rf_one_before :: bool
  rf_one_before_done :: bool
  rf_stats :: RangeFilterStats
  rf_slot1 :: "'t option"
  rf_slot2 :: "'t option"
  rf_have_range_complete :: bool
  rf_inp_done :: bool
  rf_raco_done :: bool
  rf_done :: bool
  rf_complete :: bool
  rf_tsmax :: TsNano

definition RangeFilter2_new :: "('e, 't) stream \<Rightarrow> NanoRange \<Rightarrow> bool \<Rightarrow> ('e, 't) RangeFilter2" where
  "RangeFilter2_new inp rng one_before =
     \<lparr>rf_inp = inp, rf_range = rng, rf_one_before = one_before, rf_one_before_done = False,
      rf_stats = RangeFilterStats_new, rf_slot1 = None, rf_slot2 = None, rf_have_range_complete = False,
      rf_inp_done = False, rf_raco_done = False, rf_done = False, rf_complete = False, rf_tsmax = 0\<rparr>"

definition saturating_inc :: "u64 \<Rightarrow> u64" where
  "saturating_inc x = (if x = - 1 then x else x + 1)"

definition on_stats :: "(RangeFilterStats \<Rightarrow> RangeFilterStats) \<Rightarrow> ('e, 't) RangeFilter2 \<Rightarrow> ('e, 't) RangeFilter2" where
  "on_stats h f = f\<lparr>rf_stats := h (rf_stats f)\<rparr>"

definition prune_high :: "'t MergeableTy \<Rightarrow> 't \<Rightarrow> TsNano \<Rightarrow> ('e, 't) RangeFilter2 \<Rightarrow> ('t \<times> ('e, 't) RangeFilter2) panics" where
  "prune_high ops item ts f =
     (let n = m_len ops item in
      case m_find_highest_index_lt ops item ts of
        Some ihlt \<Rightarrow>
          if ihlt + 1 = n
          then Some (item, on_stats (\<lambda>s. s\<lparr>items_no_prune_high := items_no_prune_high s + 1\<rparr>) f)
          else do { (_, item) \<leftarrow> m_drain_into_new ops item (ihlt + 1, n);
                    Some (item, on_stats (\<lambda>s. s\<lparr>items_part_prune_high := items_part_prune_high s + 1\<rparr>) f) }
      | None \<Rightarrow>
          do { (_, item) \<leftarrow> m_drain_into_new ops item (0, n);
               Some (item, on_stats (\<lambda>s. s\<lparr>items_all_prune_high := items_all_prune_high s + 1\<rparr>) f) })"

type_synonym ('e, 't) rf_res = "((rf_error, 't option) result \<times> ('e, 't) RangeFilter2) panics"

text \<open>The item holds no event of the range before the first one was seen: its last event is kept.\<close>

definition keep_one_before :: "'t MergeableTy \<Rightarrow> 't \<Rightarrow> ('e, 't) RangeFilter2 \<Rightarrow> ('e, 't) rf_res" where
  "keep_one_before ops item f =
     (let n = m_len ops item in
      if n = 0 then Some (Inl RfLogic, f)
      else do { (r, _) \<leftarrow> m_drain_into_new ops item (n - 1, n);
                case r of
                  NewDone keep \<Rightarrow> Some (Inr None, f\<lparr>rf_slot1 := Some keep\<rparr>)
                | _ \<Rightarrow> Some (Inl DrainUnclean, f) })"

definition handle_before :: "'t MergeableTy \<Rightarrow> 't \<Rightarrow> ('e, 't) RangeFilter2 \<Rightarrow> ('e, 't) rf_res" where
  "handle_before ops item f =
     (case m_find_lowest_index_ge ops item (nr_beg (rf_range f)) of
        Some ilge \<Rightarrow>
          let f = f\<lparr>rf_one_before_done := True\<rparr> in
          if ilge = 0
          then (case rf_slot1 f of
                  Some sl1 \<Rightarrow> Some (Inr (Some sl1), f\<lparr>rf_slot1 := None, rf_slot2 := Some item\<rparr>)
                | None \<Rightarrow> Some (Inr (Some item), f))
          else do { (r, item) \<leftarrow> m_drain_into_new ops item (0, ilge - 1);
                    case r of
                      NewDone _ \<Rightarrow> Some (Inr (Some item), f\<lparr>rf_slot1 := None\<rparr>)
                    | _ \<Rightarrow> Some (Inl DrainUnclean, f) }
      | None \<Rightarrow> keep_one_before ops item f)"

definition handle_within :: "'t MergeableTy \<Rightarrow> 't \<Rightarrow> ('e, 't) RangeFilter2 \<Rightarrow> ('e, 't) rf_res" where
  "handle_within ops item f =
     (case m_find_lowest_index_ge ops item (nr_beg (rf_range f)) of
        Some ilge \<Rightarrow>
          if ilge = 0 then Some (Inr (Some item), f)
          else let f = on_stats (\<lambda>s. s\<lparr>items_prune_low := saturating_inc (items_prune_low s)\<rparr>) f in
            do { (r, item) \<leftarrow> m_drain_into_new ops item (0, ilge);
                 case r of
                   NewDone _ \<Rightarrow> Some (Inr (if m_len ops item = 0 then None else Some item), f)
                 | _ \<Rightarrow> Some (Inl DrainUnclean, f) }
      | None \<Rightarrow> Some (Inr None, f))"

definition handle_item :: "'t MergeableTy \<Rightarrow> 't \<Rightarrow> ('e, 't) RangeFilter2 \<Rightarrow> ('e, 't) rf_res" where
  "handle_item ops item f =
     (case (m_ts_min ops item, m_ts_max ops item) of
        (Some mn, Some mx) \<Rightarrow>
          if mn < rf_tsmax f then Some (Inl Unordered, f)
          else do { (item, f) \<leftarrow> prune_high ops item (nr_end (rf_range f)) (f\<lparr>rf_tsmax := mx\<rparr>);
                    if rf_one_before f \<and> \<not> rf_one_before_done f then handle_before ops item f
                    else handle_within ops item f }
      | _ \<Rightarrow> Some (Inr None, on_stats (\<lambda>s. s\<lparr>recv_empty := saturating_inc (recv_empty s)\<rparr>) f))"

partial_function (option) rf_poll_next ::
    "'t MergeableTy \<Rightarrow> ('e, 't) RangeFilter2 \<Rightarrow>
      (('e rf_item_error, 't) Sitemty option poll \<times> ('e, 't) RangeFilter2) option" where
  "rf_poll_next ops f =
     (if rf_complete f then Some (Ready (Some (Inl PollNextOnComplete)), f)
      else if rf_done f then Some (Ready None, f\<lparr>rf_complete := True\<rparr>)
      else if rf_raco_done f
      then Some (Ready (Some (Inr (Stats (SiRangeFilterStats (rf_stats f))))),
                 f\<lparr>rf_done := True, rf_stats := RangeFilterStats_new\<rparr>)
      else if rf_inp_done f
      then let f = f\<lparr>rf_raco_done := True\<rparr> in
           if rf_have_range_complete f then Some (Ready (Some (Inr (DataItem RangeComplete))), f)
           else rf_poll_next ops f
      else case rf_slot2 f of
             Some item \<Rightarrow> Some (Ready (Some (sitem_data item)), f\<lparr>rf_slot2 := None\<rparr>)
           | None \<Rightarrow>
             (case rf_inp f of
                Ready x # xs \<Rightarrow>
                  let f = f\<lparr>rf_inp := xs\<rparr> in
                  (case x of
                     Inr (DataItem (Data item)) \<Rightarrow>
                       do { (r, f) \<leftarrow> handle_item ops item f;
                            case r of
                              Inr (Some item) \<Rightarrow> Some (Ready (Some (sitem_data item)), f)
                            | Inr None \<Rightarrow> rf_poll_next ops f
                            | Inl e \<Rightarrow> Some (Ready (Some (Inl (RfErr e))), f\<lparr>rf_inp_done := True\<rparr>) }
                   | Inr (DataItem RangeComplete) \<Rightarrow> rf_poll_next ops (f\<lparr>rf_have_range_complete := True\<rparr>)
                   | Inr (Log l) \<Rightarrow> Some (Ready (Some (Inr (Log l))), f)
                   | Inr (Stats s) \<Rightarrow> Some (Ready (Some (Inr (Stats s))), f)
                   | Inl e \<Rightarrow> Some (Ready (Some (Inl (RfInput e))), f))
              | [] \<Rightarrow>
                  let f = f\<lparr>rf_inp_done := True\<rparr> in
                  (case rf_slot1 f of
                     Some sl1 \<Rightarrow> Some (Ready (Some (sitem_data sl1)), f\<lparr>rf_slot1 := None\<rparr>)
                   | None \<Rightarrow> rf_poll_next ops f)
              | Pending # xs \<Rightarrow> Some (Pending, f\<lparr>rf_inp := xs\<rparr>)))"

text \<open>A client that polls to the end and collects the items.\<close>

partial_function (option) rf_run :: "'t MergeableTy \<Rightarrow> ('e, 't) RangeFilter2 \<Rightarrow> ('e rf_item_error, 't) Sitemty list option" where
  "rf_run ops f =
     do { (r, f) \<leftarrow> rf_poll_next ops f;
          case r of
            Pending \<Rightarrow> rf_run ops f
          | Ready None \<Rightarrow> Some []
          | Ready (Some x) \<Rightarrow> do { xs \<leftarrow> rf_run ops f; Some (x # xs) } }"

section \<open>The specification\<close>

definition rf_within :: "NanoRange \<Rightarrow> 'v event list \<Rightarrow> 'v event list" where
  "rf_within r es = filter (\<lambda>x. nr_beg r \<le> fst x \<and> fst x < nr_end r) es"

definition rf_below :: "NanoRange \<Rightarrow> 'v event list \<Rightarrow> 'v event list" where
  "rf_below r es = filter (\<lambda>x. fst x < nr_beg r \<and> fst x < nr_end r) es"

definition last_one :: "'v list \<Rightarrow> 'v list" where
  "last_one xs = (if xs = [] then [] else [last xs])"

definition rf_spec :: "NanoRange \<Rightarrow> bool \<Rightarrow> 'v event list \<Rightarrow> 'v event list" where
  "rf_spec r one_before es = (if one_before then last_one (rf_below r es) else []) @ rf_within r es"

section \<open>Correctness\<close>

lemma pp_filter:
  assumes "in_order es"
  shows "take (pp (\<lambda>t. t < ts) es) es = filter (\<lambda>x. fst x < ts) es" "drop (pp (\<lambda>t. t < ts) es) es = filter (\<lambda>x. ts \<le> fst x) es"
proof -
  have "takeWhile (\<lambda>x. fst x < ts) es = filter (\<lambda>x. fst x < ts) es \<and> dropWhile (\<lambda>x. fst x < ts) es = filter (\<lambda>x. ts \<le> fst x) es"
    using assms
  proof (induction es)
    case (Cons e es)
    have "filter (\<lambda>x. fst x < ts) es = [] \<and> filter (\<lambda>x. ts \<le> fst x) es = es" if "ts \<le> fst e"
      using Cons.prems that by (fastforce simp: filter_empty_conv filter_id_conv)
    then show ?case using Cons by (auto simp: not_less)
  qed simp
  moreover have "take (pp (\<lambda>t. t < ts) es) es = takeWhile (\<lambda>x. fst x < ts) es"
    "drop (pp (\<lambda>t. t < ts) es) es = dropWhile (\<lambda>x. fst x < ts) es"
    by (simp_all add: pp_def flip: takeWhile_eq_take dropWhile_eq_drop)
  ultimately show "take (pp (\<lambda>t. t < ts) es) es = filter (\<lambda>x. fst x < ts) es" "drop (pp (\<lambda>t. t < ts) es) es = filter (\<lambda>x. ts \<le> fst x) es"
    by simp_all
qed

lemma pp_bound: "pp P es \<le> length es"
  by (simp add: pp_def length_takeWhile_le)

lemma pp_eq_0: "in_order es \<Longrightarrow> pp (\<lambda>t. t < ts) es = 0 \<longleftrightarrow> filter (\<lambda>x. fst x < ts) es = []"
  using pp_filter(1) [of es ts] by (auto simp: pp_def)

lemma pp_eq_len: "in_order es \<Longrightarrow> length es \<le> pp (\<lambda>t. t < ts) es \<longleftrightarrow> filter (\<lambda>x. ts \<le> fst x) es = []"
  using pp_filter(2) [of es ts] by (metis drop_eq_Nil)

lemma in_order_filter: "in_order es \<Longrightarrow> in_order (filter P es)"
  by (rule sorted_filter)

lemma last_one_simps [simp]: "last_one [] = []" "xs \<noteq> [] \<Longrightarrow> last_one xs = [last xs]"
  by (simp_all add: last_one_def)

lemma last_one_append: "last_one (xs @ ys) = (if ys = [] then last_one xs else last_one ys)"
  by (simp add: last_one_def)

lemma rf_append: "rf_within r (xs @ ys) = rf_within r xs @ rf_within r ys" "rf_below r (xs @ ys) = rf_below r xs @ rf_below r ys"
  by (simp_all add: rf_within_def rf_below_def)

text \<open>After an event of the range no event before the range follows.\<close>

lemma below_after_within:
  assumes "in_order (xs @ ys)" and "rf_within r xs \<noteq> []"
  shows "rf_below r ys = []"
proof -
  obtain x where x: "x \<in> set xs" "nr_beg r \<le> fst x" using assms(2) by (auto simp: rf_within_def filter_empty_conv)
  have "fst x \<le> fst y" if "y \<in> set ys" for y using assms(1) x(1) that by (auto simp: sorted_append)
  then show ?thesis using x(2) by (fastforce simp: rf_below_def filter_empty_conv)
qed

lemma rf_spec_append:
  assumes "in_order (xs @ ys)" and "ob \<longrightarrow> rf_within r xs \<noteq> []"
  shows "rf_spec r ob (xs @ ys) = rf_spec r ob xs @ rf_within r ys"
  using assms below_after_within [OF assms(1), of r] by (auto simp: rf_spec_def rf_append)

text \<open>The items that are passed on as they are.\<close>

definition is_pass :: "('e, 't) Sitemty \<Rightarrow> bool" where
  "is_pass x = (case x of Inr (DataItem _) \<Rightarrow> False | _ \<Rightarrow> True)"

definition pass_on :: "('e, 't) Sitemty \<Rightarrow> ('e rf_item_error, 't) Sitemty" where
  "pass_on x = map_sum RfInput id x"

lemma item_cases:
  fixes y :: "('e, 't) Sitemty"
  obtains "is_pass y" | "y = Inr (DataItem RangeComplete)" | item where "y = Inr (DataItem (Data item))"
proof (cases y)
  case (Inl e)
  then show ?thesis using that(1) by (simp add: is_pass_def)
next
  case (Inr z)
  show ?thesis
  proof (cases z)
    case (DataItem d)
    then show ?thesis using that(2,3) Inr by (cases d) simp_all
  qed (use that(1) Inr in \<open>simp_all add: is_pass_def\<close>)
qed

lemma pass_cases:
  assumes "is_pass y"
  obtains e where "y = Inl e" | l where "y = Inr (Log l)" | st where "y = Inr (Stats st)"
proof (cases y)
  case (Inr z)
  then show ?thesis using that assms by (cases z) (simp_all add: is_pass_def)
qed (use that in simp)

lemma pass_data: "is_pass y \<Longrightarrow> stream_data (Ready y # xs) = stream_data xs"
  by (erule pass_cases) simp_all

lemma poll_pass:
  assumes "is_pass y" and "rf_inp f = Ready y # xs" and "\<not> rf_complete f" and "\<not> rf_done f" and "\<not> rf_raco_done f"
    and "\<not> rf_inp_done f" and "rf_slot2 f = None"
  shows "rf_poll_next ops f = Some (Ready (Some (pass_on y)), f\<lparr>rf_inp := xs\<rparr>)"
  using assms(1) by (rule pass_cases) (use assms(2-) in \<open>subst rf_poll_next.simps, simp add: pass_on_def\<close>)+

context mergeable
begin

lemma prune_high_ok:
  assumes "inv item" and "in_order (evs item)"
  shows "\<exists>item' s. prune_high ops item ts f = Some (item', f\<lparr>rf_stats := s\<rparr>) \<and> inv item' \<and>
    evs item' = filter (\<lambda>x. fst x < ts) (evs item)"
proof -
  let ?k = "pp (\<lambda>t. t < ts) (evs item)"
  have k: "?k \<le> length (evs item)" by (rule pp_bound)
  show ?thesis
  proof (cases "?k = 0")
    case True
    obtain s' d where d: "m_drain_into_new ops item (0, length (evs item)) = Some (NewDone d, s')" "inv s'" "evs s' = []"
      using drain_into_new [OF assms(1), of 0 "length (evs item)"] by auto
    then show ?thesis
      using True pp_eq_0 [OF assms(2)] by (auto simp: prune_high_def Let_def find_lt [OF assms] len [OF assms(1)] on_stats_def)
  next
    case False
    show ?thesis
    proof (cases "?k = length (evs item)")
      case True
      then have "filter (\<lambda>x. fst x < ts) (evs item) = evs item" using pp_filter(1) [OF assms(2), of ts] by simp
      then show ?thesis
        using True False assms(1) by (auto simp: prune_high_def Let_def find_lt [OF assms] len [OF assms(1)] on_stats_def)
    next
      case part: False
      obtain s' d where d: "m_drain_into_new ops item (?k, length (evs item)) = Some (NewDone d, s')" "inv s'" "evs s' = take ?k (evs item)"
        using drain_into_new [OF assms(1) k] by auto
      then show ?thesis
        using part False pp_filter(1) [OF assms(2), of ts]
        by (auto simp: prune_high_def Let_def find_lt [OF assms] len [OF assms(1)] on_stats_def)
    qed
  qed
qed

definition sl :: "'t option \<Rightarrow> 'v event list" where
  "sl x = (case x of None \<Rightarrow> [] | Some y \<Rightarrow> evs y)"

lemma sl_simps [simp]: "sl None = []" "sl (Some x) = evs x"
  by (simp_all add: sl_def)

definition slots_ok :: "('e, 't) RangeFilter2 \<Rightarrow> bool" where
  "slots_ok f \<longleftrightarrow> (\<forall>x. rf_slot1 f = Some x \<or> rf_slot2 f = Some x \<longrightarrow> inv x \<and> evs x \<noteq> [])"

lemma handle_before_ok:
  assumes "inv item" and "in_order (evs item)" and "slots_ok f" and "rf_slot2 f = None" and "evs item \<noteq> []"
  defines "lo \<equiv> filter (\<lambda>x. fst x < nr_beg (rf_range f)) (evs item)"
    and "ge \<equiv> filter (\<lambda>x. nr_beg (rf_range f) \<le> fst x) (evs item)"
  shows "\<exists>x a b. handle_before ops item f =
      Some (Inr x, f\<lparr>rf_one_before_done := rf_one_before_done f \<or> ge \<noteq> [], rf_slot1 := a, rf_slot2 := b\<rparr>) \<and>
    (\<forall>y. x = Some y \<or> a = Some y \<or> b = Some y \<longrightarrow> inv y \<and> evs y \<noteq> []) \<and>
    (if ge = [] then x = None \<and> b = None \<and> sl a = last_one lo
     else a = None \<and> sl x @ sl b = (if lo = [] then sl (rf_slot1 f) else last_one lo) @ ge)"
proof -
  let ?k = "pp (\<lambda>t. t < nr_beg (rf_range f)) (evs item)"
  have k: "?k \<le> length (evs item)" by (rule pp_bound)
  have lo: "lo = take ?k (evs item)" and ge: "ge = drop ?k (evs item)" using pp_filter [OF assms(2)] by (simp_all add: lo_def ge_def)
  have same: "f\<lparr>rf_one_before_done := d\<rparr> = f\<lparr>rf_one_before_done := d, rf_slot1 := None, rf_slot2 := None\<rparr>"
    if "rf_slot1 f = None" for d using that assms(4) by (cases f) simp
  have i: "inv x" "evs x \<noteq> []" if "rf_slot1 f = Some x" for x using assms(3) that by (simp_all add: slots_ok_def)
  show ?thesis
  proof (cases "ge = []")
    case True
    then have l: "length (evs item) \<le> ?k" "lo = evs item" using lo ge by simp_all
    have n: "length (evs item) - 1 \<le> length (evs item)" by simp
    obtain s' d where d: "m_drain_into_new ops item (length (evs item) - 1, length (evs item)) = Some (NewDone d, s')" "inv d"
      "evs d = take 1 (drop (length (evs item) - 1) (evs item))"
      using drain_into_new [OF assms(1) n le_refl] assms(5) by (auto simp: Suc_le_eq)
    have "drop (length (evs item) - 1) (evs item) = [last (evs item)]"
      using assms(5) by (metis One_nat_def append_butlast_last_id append_eq_conv_conj length_butlast)
    then have "evs d = last_one lo" using d(3) l(2) assms(5) by simp
    moreover have "lo \<noteq> []" using l(2) assms(5) by simp
    moreover have "f\<lparr>rf_slot1 := Some d\<rparr> = f\<lparr>rf_slot1 := Some d, rf_slot2 := None\<rparr>" using assms(4) by (cases f) simp
    ultimately show ?thesis
      using True l(1) d(1,2) assms(5)
      by - (rule exI [of _ None], rule exI [of _ "Some d"], rule exI [of _ None],
        simp add: handle_before_def keep_one_before_def find_ge [OF assms(1,2)] len [OF assms(1)])
  next
    case False
    then have l: "\<not> length (evs item) \<le> ?k" using ge by simp
    show ?thesis
    proof (cases "?k = 0")
      case True
      then have "lo = []" "ge = evs item" using lo ge by simp_all
      note eqs = this
      show ?thesis
      proof (cases "rf_slot1 f")
        case None
        have "handle_before ops item f = Some (Inr (Some item), f\<lparr>rf_one_before_done := True, rf_slot1 := None, rf_slot2 := None\<rparr>)"
          using True l None by (subst same [OF None, symmetric]) (simp add: handle_before_def find_ge [OF assms(1,2)])
        then show ?thesis using eqs False None assms(1) by (intro exI [of _ "Some item"] exI [of _ None]) simp
      next
        case (Some a)
        have "handle_before ops item f = Some (Inr (Some a), f\<lparr>rf_one_before_done := True, rf_slot1 := None, rf_slot2 := Some item\<rparr>)"
          using True l Some by (simp add: handle_before_def find_ge [OF assms(1,2)])
        then show ?thesis using eqs False Some assms(1) i
          by - (rule exI [of _ "Some a"], rule exI [of _ None], rule exI [of _ "Some item"], auto)
      qed
    next
      case pos: False
      have k1: "?k - 1 \<le> length (evs item)" using k by simp
      obtain s' d where d: "m_drain_into_new ops item (0, ?k - 1) = Some (NewDone d, s')" "inv s'" "evs s' = drop (?k - 1) (evs item)"
        using drain_into_new [OF assms(1) le0 k1] by auto
      have "lo \<noteq> []" using lo pos assms(5) by simp
      moreover have "drop (?k - 1) (evs item) = [last lo] @ ge"
      proof -
        have "drop (?k - 1) (lo @ ge) = drop (?k - 1) lo @ ge" "length lo = ?k" using lo k by simp_all
        moreover have "drop (length lo - 1) lo = [last lo]"
          using \<open>lo \<noteq> []\<close> by (metis One_nat_def append_butlast_last_id append_eq_conv_conj length_butlast)
        moreover have "lo @ ge = evs item" using lo ge by simp
        ultimately show ?thesis by metis
      qed
      ultimately show ?thesis
        using l False pos d assms(4) by (intro exI [of _ "Some s'"] exI [of _ None])
          (simp add: handle_before_def find_ge [OF assms(1,2)])
    qed
  qed
qed

lemma handle_within_ok:
  assumes "inv item" and "in_order (evs item)"
  shows "\<exists>x s. handle_within ops item f = Some (Inr x, f\<lparr>rf_stats := s\<rparr>) \<and> (\<forall>y. x = Some y \<longrightarrow> inv y \<and> evs y \<noteq> []) \<and>
    sl x = filter (\<lambda>x. nr_beg (rf_range f) \<le> fst x) (evs item)"
proof -
  let ?k = "pp (\<lambda>t. t < nr_beg (rf_range f)) (evs item)"
  have k: "?k \<le> length (evs item)" by (rule pp_bound)
  have ge: "filter (\<lambda>x. nr_beg (rf_range f) \<le> fst x) (evs item) = drop ?k (evs item)" using pp_filter [OF assms(2)] by simp
  obtain s' d where d: "m_drain_into_new ops item (0, ?k) = Some (NewDone d, s')" "inv s'" "evs s' = drop ?k (evs item)"
    using drain_into_new [OF assms(1) le0 k] by auto
  have same: "f = f\<lparr>rf_stats := rf_stats f\<rparr>" by simp
  consider (none) "length (evs item) \<le> ?k" | (all) "?k = 0" "\<not> length (evs item) \<le> ?k" | (some) "0 < ?k" "\<not> length (evs item) \<le> ?k" by blast
  then show ?thesis
  proof cases
    case none
    then have "handle_within ops item f = Some (Inr None, f\<lparr>rf_stats := rf_stats f\<rparr>)" by (simp add: handle_within_def find_ge [OF assms])
    then show ?thesis using none by (intro exI [of _ None] exI [of _ "rf_stats f"]) (simp add: ge)
  next
    case all
    then have "handle_within ops item f = Some (Inr (Some item), f\<lparr>rf_stats := rf_stats f\<rparr>)" by (simp add: handle_within_def find_ge [OF assms])
    then show ?thesis using all assms(1) by (intro exI [of _ "Some item"] exI [of _ "rf_stats f"]) (simp add: ge)
  next
    case some
    let ?s = "(rf_stats f)\<lparr>items_prune_low := saturating_inc (items_prune_low (rf_stats f))\<rparr>"
    have "handle_within ops item f = Some (Inr (Some s'), f\<lparr>rf_stats := ?s\<rparr>)"
      using some d by (simp add: handle_within_def find_ge [OF assms] len on_stats_def)
    then show ?thesis using d some(2) by (intro exI [of _ "Some s'"] exI [of _ ?s]) (simp add: ge)
  qed
qed

text \<open>What holds between polls: the events seen and those given out.\<close>

definition rf_inv :: "NanoRange \<Rightarrow> bool \<Rightarrow> 'v event list \<Rightarrow> 'v event list \<Rightarrow> ('e, 't) RangeFilter2 \<Rightarrow> bool" where
  "rf_inv r ob seen out f \<longleftrightarrow> rf_range f = r \<and> rf_one_before f = ob \<and> slots_ok f \<and>
     \<not> rf_complete f \<and> \<not> rf_done f \<and> \<not> rf_raco_done f \<and> \<not> rf_inp_done f \<and>
     rf_tsmax f = (if seen = [] then 0 else fst (last seen)) \<and>
     (if ob \<and> \<not> rf_one_before_done f
      then out = [] \<and> rf_slot2 f = None \<and> rf_within r seen = [] \<and> sl (rf_slot1 f) = last_one (rf_below r seen)
      else rf_slot1 f = None \<and> out @ sl (rf_slot2 f) = rf_spec r ob seen \<and> (ob \<longrightarrow> rf_within r seen \<noteq> []))"

lemma rf_parts:
  assumes "es' = filter (\<lambda>x. fst x < nr_end r) es"
  shows "filter (\<lambda>x. fst x < nr_beg r) es' = rf_below r es" "filter (\<lambda>x. nr_beg r \<le> fst x) es' = rf_within r es"
  by (simp_all add: assms rf_below_def rf_within_def conj_commute)

lemma handle_item_ok:
  assumes "rf_inv r ob seen out f" and "rf_slot2 f = None" and "inv item" and "in_order (seen @ evs item)"
    and "ob \<and> \<not> rf_one_before_done f \<and> evs item \<noteq> [] \<longrightarrow> fst (hd (evs item)) < nr_end r"
  shows "\<exists>x f'. handle_item ops item f = Some (Inr x, f') \<and> rf_inv r ob (seen @ evs item) (out @ sl x) f' \<and>
    (\<forall>y. x = Some y \<longrightarrow> inv y \<and> evs y \<noteq> []) \<and> rf_inp f' = rf_inp f \<and> rf_have_range_complete f' = rf_have_range_complete f"
proof (cases "evs item = []")
  case True
  then have "m_ts_min ops item = None" using ts_min [OF assms(3)] by simp
  then show ?thesis
    using assms(1) True by (intro exI [of _ None]) (auto simp: handle_item_def on_stats_def rf_inv_def slots_ok_def)
next
  case False
  let ?mx = "fst (last (evs item))"
  have o: "in_order (evs item)" using assms(4) by (simp add: sorted_append)
  have "\<not> fst (hd (evs item)) < rf_tsmax f"
  proof (cases "seen = []")
    case True
    then show ?thesis using assms(1) by (simp add: rf_inv_def)
  next
    case ne: False
    then have "last seen \<in> set seen" "hd (evs item) \<in> set (evs item)" using False by simp_all
    then have "fst (last seen) \<le> fst (hd (evs item))" using assms(4) by (auto simp: sorted_append)
    then show ?thesis using assms(1) ne by (simp add: rf_inv_def not_less)
  qed
  obtain item' s where p: "prune_high ops item (nr_end r) (f\<lparr>rf_tsmax := ?mx\<rparr>) = Some (item', f\<lparr>rf_tsmax := ?mx, rf_stats := s\<rparr>)"
    "inv item'" "evs item' = filter (\<lambda>x. fst x < nr_end r) (evs item)"
    using prune_high_ok [OF assms(3) o, of "nr_end r" "f\<lparr>rf_tsmax := ?mx\<rparr>"] by auto
  let ?g = "f\<lparr>rf_tsmax := ?mx, rf_stats := s\<rparr>" and ?new = "evs item"
  note fi = assms(1) [unfolded rf_inv_def]
  have o': "in_order (evs item')" using o by (simp add: p(3) in_order_filter)
  have g: "rf_range ?g = r" "rf_one_before ?g = ob" "slots_ok ?g" "rf_slot2 ?g = None"
    using fi assms(2) by (simp_all add: slots_ok_def)
  note parts = rf_parts [OF p(3)]
  have h: "handle_item ops item f =
      (if ob \<and> \<not> rf_one_before_done f then handle_before ops item' ?g else handle_within ops item' ?g)"
    using False p(1) fi \<open>\<not> fst (hd (evs item)) < rf_tsmax f\<close>
    by (simp add: handle_item_def ts_min [OF assms(3)] ts_max [OF assms(3)])
  show ?thesis
  proof (cases "ob \<and> \<not> rf_one_before_done f")
    case True
    have ne: "evs item' \<noteq> []" using assms(5) True False by (cases ?new) (simp_all add: p(3))
    obtain x a b where x: "handle_before ops item' ?g =
        Some (Inr x, ?g\<lparr>rf_one_before_done := rf_within r ?new \<noteq> [], rf_slot1 := a, rf_slot2 := b\<rparr>)"
      "\<forall>y. x = Some y \<or> a = Some y \<or> b = Some y \<longrightarrow> inv y \<and> evs y \<noteq> []"
      "if rf_within r ?new = [] then x = None \<and> b = None \<and> sl a = last_one (rf_below r ?new)
       else a = None \<and> sl x @ sl b = (if rf_below r ?new = [] then sl (rf_slot1 f) else last_one (rf_below r ?new)) @ rf_within r ?new"
      using handle_before_ok [OF p(2) o' g(3,4) ne] True unfolding g(1) parts by (auto simp del: if_split) 
    have "rf_within r ?new = [] \<longrightarrow> rf_below r ?new \<noteq> []"
      using ne by (auto simp: p(3) rf_within_def rf_below_def filter_empty_conv not_le)
    then have "rf_inv r ob (seen @ ?new) (out @ sl x)
        (?g\<lparr>rf_one_before_done := rf_within r ?new \<noteq> [], rf_slot1 := a, rf_slot2 := b\<rparr>)"
      using x(2,3) fi True False
      by (cases "rf_within r ?new = []") (auto simp: rf_inv_def slots_ok_def rf_append last_one_append rf_spec_def)
    then show ?thesis using h True x(1,2) by auto
  next
    case wi: False
    obtain x s' where x: "handle_within ops item' ?g = Some (Inr x, ?g\<lparr>rf_stats := s'\<rparr>)" "\<forall>y. x = Some y \<longrightarrow> inv y \<and> evs y \<noteq> []"
      "sl x = rf_within r ?new"
      using handle_within_ok [OF p(2) o', of ?g] by (auto simp: g(1) parts)
    have "rf_spec r ob (seen @ ?new) = rf_spec r ob seen @ rf_within r ?new"
      using rf_spec_append [OF assms(4)] fi wi by auto
    then have "rf_inv r ob (seen @ ?new) (out @ sl x) (?g\<lparr>rf_stats := s'\<rparr>)"
      using x(3) fi wi False assms(2) by (auto simp: rf_inv_def slots_ok_def rf_append)
    then show ?thesis using h wi x(1,2) by auto
  qed
qed

text \<open>Running to the end.\<close>

lemma rf_run_step:
  assumes "rf_poll_next ops f = Some (x, f')"
  shows "rf_run ops f = (case x of Pending \<Rightarrow> rf_run ops f' | Ready None \<Rightarrow> Some []
    | Ready (Some y) \<Rightarrow> map_option (Cons y) (rf_run ops f'))"
  using assms by (subst rf_run.simps) (simp add: map_conv_bind_option comp_def split: poll.split option.split)

lemma rf_run_cong:
  assumes "rf_poll_next ops f = rf_poll_next ops f'"
  shows "rf_run ops f = rf_run ops f'"
  using assms by (subst (1 2) rf_run.simps) simp

definition rf_tail :: "bool \<Rightarrow> RangeFilterStats \<Rightarrow> ('e rf_item_error, 't) Sitemty list" where
  "rf_tail rc st = (if rc then [Inr (DataItem RangeComplete)] else []) @ [Inr (Stats (SiRangeFilterStats st))]"

lemma rf_run_raco:
  assumes "\<not> rf_complete f" and "\<not> rf_done f" and "rf_raco_done f"
  shows "rf_run ops f = Some [Inr (Stats (SiRangeFilterStats (rf_stats f)))]"
proof -
  let ?f = "f\<lparr>rf_done := True, rf_stats := RangeFilterStats_new\<rparr>"
  have "rf_poll_next ops ?f = Some (Ready None, ?f\<lparr>rf_complete := True\<rparr>)"
    using assms by (subst rf_poll_next.simps) simp
  then have "rf_run ops ?f = Some []" by (simp add: rf_run_step)
  moreover have "rf_poll_next ops f = Some (Ready (Some (Inr (Stats (SiRangeFilterStats (rf_stats f))))), ?f)"
    using assms by (subst rf_poll_next.simps) simp
  ultimately show ?thesis by (simp add: rf_run_step)
qed

lemma rf_run_inp_done:
  assumes "\<not> rf_complete f" and "\<not> rf_done f" and "\<not> rf_raco_done f" and "rf_inp_done f"
  shows "rf_run ops f = Some (rf_tail (rf_have_range_complete f) (rf_stats f))"
proof -
  let ?f = "f\<lparr>rf_raco_done := True\<rparr>"
  have r: "rf_run ops ?f = Some [Inr (Stats (SiRangeFilterStats (rf_stats f)))]"
    using assms rf_run_raco [of ?f] by simp
  show ?thesis
  proof (cases "rf_have_range_complete f")
    case True
    then have "rf_poll_next ops f = Some (Ready (Some (Inr (DataItem RangeComplete))), ?f)"
      using assms by (subst rf_poll_next.simps) simp
    then show ?thesis using r True by (simp add: rf_run_step rf_tail_def)
  next
    case False
    then have "rf_poll_next ops f = rf_poll_next ops ?f" using assms by (subst rf_poll_next.simps) simp
    then show ?thesis using r False rf_run_cong [of f ?f] by (simp add: rf_tail_def)
  qed
qed

text \<open>
  An item that starts after the range is an error while no event of the range was seen but the event
  before the range is asked for.
\<close>

definition rf_fits :: "NanoRange \<Rightarrow> bool \<Rightarrow> 'v event list \<Rightarrow> 't list \<Rightarrow> bool" where
  "rf_fits r ob es items \<longleftrightarrow> (ob \<longrightarrow> rf_within r es \<noteq> [] \<or> (\<forall>x \<in> set items. evs x \<noteq> [] \<longrightarrow> fst (hd (evs x)) < nr_end r))"

definition rf_result :: "NanoRange \<Rightarrow> bool \<Rightarrow> 'v event list \<Rightarrow> 'v event list \<Rightarrow> ('e, 't) RangeFilter2 \<Rightarrow> bool" where
  "rf_result r ob seen out f \<longleftrightarrow> (\<exists>outs st.
     rf_run ops f = Some (outs @ rf_tail (rf_have_range_complete f \<or> Inr (DataItem RangeComplete) \<in> set (stream_items (rf_inp f))) st) \<and>
     out @ concat (map evs (item_data outs)) = rf_spec r ob (seen @ concat (map evs (stream_data (rf_inp f)))) \<and>
     filter is_pass outs = map pass_on (filter is_pass (stream_items (rf_inp f))) \<and>
     Inr (DataItem RangeComplete) \<notin> set outs \<and> (\<forall>x \<in> set (item_data outs). inv x))"

text \<open>Steps of a run: an emitted container, an item passed on, and a step without an item.\<close>

lemma result_data:
  assumes "rf_poll_next ops f = Some (Ready (Some (sitem_data item)), f')" and "rf_result r ob seen' (out @ evs item) f'" and "inv item"
    and "seen @ concat (map evs (stream_data (rf_inp f))) = seen' @ concat (map evs (stream_data (rf_inp f')))"
    and "filter is_pass (stream_items (rf_inp f')) = filter is_pass (stream_items (rf_inp f))"
    and "rf_have_range_complete f' \<or> Inr (DataItem RangeComplete) \<in> set (stream_items (rf_inp f')) \<longleftrightarrow>
      rf_have_range_complete f \<or> Inr (DataItem RangeComplete) \<in> set (stream_items (rf_inp f))"
  shows "rf_result r ob seen out f"
proof -
  obtain outs st where *: "rf_run ops f' = Some (outs @ rf_tail (rf_have_range_complete f' \<or> Inr (DataItem RangeComplete) \<in> set (stream_items (rf_inp f'))) st)"
    "(out @ evs item) @ concat (map evs (item_data outs)) = rf_spec r ob (seen' @ concat (map evs (stream_data (rf_inp f'))))"
    "filter is_pass outs = map pass_on (filter is_pass (stream_items (rf_inp f')))"
    "Inr (DataItem RangeComplete) \<notin> set outs" "\<forall>x \<in> set (item_data outs). inv x"
    using assms(2) unfolding rf_result_def by blast
  show ?thesis
    unfolding rf_result_def
    using * assms(3,5) by (intro exI [of _ "sitem_data item # outs"] exI [of _ st])
      (simp add: rf_run_step [OF assms(1)] assms(4,6), simp add: sitem_data_def is_pass_def)
qed

lemma result_pass:
  assumes "rf_poll_next ops f = Some (Ready (Some (pass_on x)), f')" and "rf_result r ob seen out f'" and "is_pass x"
    and "stream_items (rf_inp f) = x # stream_items (rf_inp f')" and "rf_have_range_complete f' = rf_have_range_complete f"
  shows "rf_result r ob seen out f"
proof -
  obtain outs st where *: "rf_run ops f' = Some (outs @ rf_tail (rf_have_range_complete f' \<or> Inr (DataItem RangeComplete) \<in> set (stream_items (rf_inp f'))) st)"
    "out @ concat (map evs (item_data outs)) = rf_spec r ob (seen @ concat (map evs (stream_data (rf_inp f'))))"
    "filter is_pass outs = map pass_on (filter is_pass (stream_items (rf_inp f')))"
    "Inr (DataItem RangeComplete) \<notin> set outs" "\<forall>x \<in> set (item_data outs). inv x"
    using assms(2) unfolding rf_result_def by blast
  have x: "stream_data (rf_inp f) = stream_data (rf_inp f')" "x \<noteq> Inr (DataItem RangeComplete)" "is_pass (pass_on x)"
    "item_data (pass_on x # outs) = item_data outs" "pass_on x \<noteq> Inr (DataItem RangeComplete)"
    using assms(3,4) by (auto simp: is_pass_def pass_on_def stream_data_def split: sum.splits StreamItem.splits)
  show ?thesis
    unfolding rf_result_def
    using * assms(3,5) x by (intro exI [of _ "pass_on x # outs"] exI [of _ st]) (simp add: rf_run_step [OF assms(1)] assms(4))
qed

lemma result_silent:
  assumes "rf_run ops f = rf_run ops f'" and "rf_result r ob seen' out f'"
    and "seen @ concat (map evs (stream_data (rf_inp f))) = seen' @ concat (map evs (stream_data (rf_inp f')))"
    and "filter is_pass (stream_items (rf_inp f')) = filter is_pass (stream_items (rf_inp f))"
    and "rf_have_range_complete f' \<or> Inr (DataItem RangeComplete) \<in> set (stream_items (rf_inp f')) \<longleftrightarrow>
      rf_have_range_complete f \<or> Inr (DataItem RangeComplete) \<in> set (stream_items (rf_inp f))"
  shows "rf_result r ob seen out f"
  using assms(2) unfolding rf_result_def assms(1,3,4,5) .

lemma fits_item:
  assumes "rf_inv r ob seen out f" and "rf_fits r ob (seen @ evs item @ rest) (item # items)" and "in_order (seen @ evs item @ rest)"
  shows "ob \<and> \<not> rf_one_before_done f \<and> evs item \<noteq> [] \<longrightarrow> fst (hd (evs item)) < nr_end r"
proof (rule impI, rule ccontr)
  assume a: "ob \<and> \<not> rf_one_before_done f \<and> evs item \<noteq> []" and n: "\<not> fst (hd (evs item)) < nr_end r"
  have "fst (hd (evs item)) \<le> fst y" if "y \<in> set (evs item @ rest)" for y
    using assms(3) a that by (cases "evs item") (auto simp: sorted_append)
  then have "nr_end r \<le> fst y" if "y \<in> set (evs item @ rest)" for y using n that by (fastforce simp: not_less)
  then have "rf_within r (evs item @ rest) = []" by (auto simp: rf_within_def filter_empty_conv not_less)
  moreover have "rf_within r seen = []" using assms(1) a by (simp add: rf_inv_def)
  ultimately have "rf_within r (seen @ evs item @ rest) = []" by (simp add: rf_append)
  then show False using assms(2) a n by (simp add: rf_fits_def)
qed

lemma rf_run_ok:
  assumes "rf_inv r ob seen out f" and "\<forall>x \<in> set (stream_data (rf_inp f)). inv x"
    and "in_order (seen @ concat (map evs (stream_data (rf_inp f))))"
    and "rf_fits r ob (seen @ concat (map evs (stream_data (rf_inp f)))) (stream_data (rf_inp f))"
  shows "rf_result r ob seen out f"
  using assms
proof (induction "2 * length (rf_inp f) + (if rf_slot2 f = None then 0 else 1)" arbitrary: f seen out rule: less_induct)
  case less
  note fi = less.prems(1) [unfolded rf_inv_def]
  show ?case
  proof (cases "rf_slot2 f")
    case (Some item)
    let ?f = "f\<lparr>rf_slot2 := None\<rparr>"
    have p: "rf_poll_next ops f = Some (Ready (Some (sitem_data item)), ?f)"
      using fi Some by (subst rf_poll_next.simps) simp
    have i: "rf_inv r ob seen (out @ evs item) ?f" "inv item"
      using fi Some unfolding rf_inv_def slots_ok_def by (cases "ob \<and> \<not> rf_one_before_done f"; simp)+
    have "rf_result r ob seen (out @ evs item) ?f" using less.hyps [OF _ i(1)] less.prems Some by simp
    from result_data [OF p this i(2)] show ?thesis by simp
  next
    case s2: None
    show ?thesis
    proof (cases "rf_inp f")
      case Nil
      let ?f = "f\<lparr>rf_inp_done := True\<rparr>"
      have sp: "rf_spec r ob seen = out @ sl (rf_slot1 f)"
        using fi s2 by (cases "ob \<and> \<not> rf_one_before_done f") (simp_all add: rf_spec_def)
      show ?thesis
      proof (cases "rf_slot1 f")
        case None
        have "rf_poll_next ops f = rf_poll_next ops ?f" using fi s2 Nil None by (subst rf_poll_next.simps) simp
        then have "rf_run ops f = rf_run ops ?f" by (rule rf_run_cong)
        moreover have "rf_run ops ?f = Some (rf_tail (rf_have_range_complete f) (rf_stats f))"
          using rf_run_inp_done [of ?f] fi by simp
        ultimately show ?thesis
          unfolding rf_result_def using sp None Nil by (intro exI [of _ "[]"] exI [of _ "rf_stats f"]) simp
      next
        case (Some sl1)
        let ?g = "?f\<lparr>rf_slot1 := None\<rparr>"
        have p: "rf_poll_next ops f = Some (Ready (Some (sitem_data sl1)), ?g)"
          using fi s2 Nil Some by (subst rf_poll_next.simps) simp
        have "rf_run ops ?g = Some (rf_tail (rf_have_range_complete f) (rf_stats f))"
          using rf_run_inp_done [of ?g] fi by simp
        then have "rf_result r ob seen (out @ evs sl1) ?g"
          unfolding rf_result_def using sp Some Nil by (intro exI [of _ "[]"] exI [of _ "rf_stats f"]) simp
        then show ?thesis using result_data [OF p] fi Some by (simp add: slots_ok_def)
      qed
    next
      case (Cons x xs)
      let ?f = "f\<lparr>rf_inp := xs\<rparr>"
      have f1: "rf_inv r ob seen out ?f" using less.prems(1) by (simp add: rf_inv_def slots_ok_def)
      show ?thesis
      proof (cases x)
        case Pending
        have "rf_poll_next ops f = Some (Pending, ?f)" using fi s2 Cons Pending by (subst rf_poll_next.simps) simp
        then have "rf_run ops f = rf_run ops ?f" by (simp add: rf_run_step)
        moreover have "rf_result r ob seen out ?f" using less.hyps [OF _ f1] less.prems Cons Pending s2 by simp
        ultimately show ?thesis by (rule result_silent) (use Cons Pending in simp_all)
      next
        case (Ready y)
        consider (pass) "is_pass y" | (complete) "y = Inr (DataItem RangeComplete)" | (data) item where "y = Inr (DataItem (Data item))"
          by (rule item_cases)
        then show ?thesis
        proof cases
          case pass
          have d: "stream_data (rf_inp f) = stream_data xs" using pass by (simp add: Cons Ready pass_data)
          have p: "rf_poll_next ops f = Some (Ready (Some (pass_on y)), ?f)"
            by (rule poll_pass) (use fi s2 Cons Ready pass in simp_all)
          have "rf_result r ob seen out ?f" using less.hyps [OF _ f1] less.prems Cons d s2 by simp
          then show ?thesis using result_pass [OF p _ pass] Cons Ready by simp
        next
          case complete
          let ?g = "?f\<lparr>rf_have_range_complete := True\<rparr>"
          have "rf_poll_next ops f = rf_poll_next ops ?g" using fi s2 Cons Ready complete by (subst rf_poll_next.simps) simp
          then have e: "rf_run ops f = rf_run ops ?g" by (rule rf_run_cong)
          have "rf_inv r ob seen out ?g" using less.prems(1) by (simp add: rf_inv_def slots_ok_def)
          then have "rf_result r ob seen out ?g" using less.hyps [of ?g] less.prems Cons Ready complete s2 by simp
          then show ?thesis by (rule result_silent [OF e]) (use Cons Ready complete in \<open>simp_all add: is_pass_def\<close>)
        next
          case data
          let ?rest = "concat (map evs (stream_data xs))"
          have sd: "stream_data (rf_inp f) = item # stream_data xs" using Cons Ready data by simp
          have it: "inv item" "in_order (seen @ evs item @ ?rest)" "in_order (seen @ evs item)"
            using less.prems(2,3) sd by (simp_all add: sorted_append)
          have fits: "rf_fits r ob (seen @ evs item @ ?rest) (item # stream_data xs)" using less.prems(4) sd by simp
          have "rf_slot2 ?f = None" "ob \<and> \<not> rf_one_before_done ?f \<and> evs item \<noteq> [] \<longrightarrow> fst (hd (evs item)) < nr_end r"
            using s2 fits_item [OF less.prems(1) fits it(2)] by simp_all
          then obtain x' f' where h: "handle_item ops item ?f = Some (Inr x', f')" "rf_inv r ob (seen @ evs item) (out @ sl x') f'"
            "\<forall>y. x' = Some y \<longrightarrow> inv y \<and> evs y \<noteq> []" "rf_inp f' = xs" "rf_have_range_complete f' = rf_have_range_complete f"
            using handle_item_ok [OF f1 _ it(1,3)] by auto
          have "rf_fits r ob ((seen @ evs item) @ ?rest) (stream_data xs)" using fits by (auto simp: rf_fits_def)
          then have res: "rf_result r ob (seen @ evs item) (out @ sl x') f'"
            using less.hyps [OF _ h(2)] less.prems(2) it(2) sd Cons s2 h(4) by simp
          show ?thesis
          proof (cases x')
            case None
            have "rf_poll_next ops f = rf_poll_next ops f'" using fi s2 Cons Ready data h(1) None by (subst rf_poll_next.simps) simp
            then have e: "rf_run ops f = rf_run ops f'" by (rule rf_run_cong)
            have "rf_result r ob (seen @ evs item) out f'" using res None by simp
            then show ?thesis by (rule result_silent [OF e]) (use Cons Ready data h(4,5) in \<open>simp_all add: is_pass_def\<close>)
          next
            case (Some z)
            have p: "rf_poll_next ops f = Some (Ready (Some (sitem_data z)), f')"
              using fi s2 Cons Ready data h(1) Some by (subst rf_poll_next.simps) simp
            have "rf_result r ob (seen @ evs item) (out @ evs z) f'" using res Some by simp
            then show ?thesis
              by (rule result_data [OF p]) (use Cons Ready data h(3,4,5) Some in \<open>simp_all add: is_pass_def\<close>)
          qed
        qed
      qed
    qed
  qed
qed

lemma rf_new_ok: "rf_inv r ob [] [] (RangeFilter2_new inp r ob)"
  by (simp add: rf_inv_def RangeFilter2_new_def slots_ok_def rf_spec_def rf_within_def rf_below_def)

lemma rf_total:
  assumes "\<forall>x \<in> set (stream_data inp). inv x" and "in_order (concat (map evs (stream_data inp)))"
    and "rf_fits r ob (concat (map evs (stream_data inp))) (stream_data inp)"
  shows "rf_result r ob [] [] (RangeFilter2_new inp r ob)"
  by (rule rf_run_ok [OF rf_new_ok]) (use assms in \<open>simp_all add: RangeFilter2_new_def\<close>)

text \<open>An item that starts after the range, when the event before the range is still waited for.\<close>

lemma handle_item_after:
  assumes "slots_ok f" and "rf_one_before f" and "\<not> rf_one_before_done f" and "inv item" and "in_order (evs item)"
    and "evs item \<noteq> []" and "\<forall>x \<in> set (evs item). nr_end (rf_range f) \<le> fst x" and "rf_tsmax f \<le> fst (hd (evs item))"
  shows "\<exists>f'. handle_item ops item f = Some (Inl RfLogic, f') \<and> rf_have_range_complete f' = rf_have_range_complete f \<and>
    \<not> rf_raco_done f' = (\<not> rf_raco_done f) \<and> rf_done f' = rf_done f \<and> rf_complete f' = rf_complete f"
proof -
  let ?mx = "fst (last (evs item))"
  obtain item' s where p: "prune_high ops item (nr_end (rf_range f)) (f\<lparr>rf_tsmax := ?mx\<rparr>) = Some (item', f\<lparr>rf_tsmax := ?mx, rf_stats := s\<rparr>)"
    "inv item'" "evs item' = filter (\<lambda>x. fst x < nr_end (rf_range f)) (evs item)"
    using prune_high_ok [OF assms(4,5), of "nr_end (rf_range f)" "f\<lparr>rf_tsmax := ?mx\<rparr>"] by auto
  have e: "evs item' = []" using p(3) assms(7) by (auto simp: filter_empty_conv not_less)
  then have "handle_before ops item' (f\<lparr>rf_tsmax := ?mx, rf_stats := s\<rparr>) = Some (Inl RfLogic, f\<lparr>rf_tsmax := ?mx, rf_stats := s\<rparr>)"
    by (simp add: handle_before_def keep_one_before_def find_ge [OF p(2)] len [OF p(2)])
  then show ?thesis
    using p(1) assms by (simp add: handle_item_def ts_min ts_max not_less)
qed

lemma rf_logic_error:
  assumes "inv a" and "inv b" and "in_order (evs a @ evs b)" and "evs a \<noteq> []" and "evs b \<noteq> []"
    and "\<forall>x \<in> set (evs a). fst x < nr_beg r \<and> fst x < nr_end r" and "\<forall>x \<in> set (evs b). nr_end r \<le> fst x"
  shows "\<exists>st. rf_run ops (RangeFilter2_new [Ready (sitem_data a), Ready (sitem_data b)] r True :: ('e, 't) RangeFilter2) =
    Some [Inl (RfErr RfLogic), Inr (Stats (SiRangeFilterStats st))]"
proof -
  let ?f = "RangeFilter2_new [Ready (sitem_data b)] r True :: ('e, 't) RangeFilter2"
  have "fst (hd (evs a)) < nr_end r" using assms(4,6) by (cases "evs a") auto
  then obtain x f1 where h1: "handle_item ops a ?f = Some (Inr x, f1)" "rf_inv r True (evs a) (sl x) f1"
    "rf_inp f1 = [Ready (sitem_data b)]" "rf_have_range_complete f1 = False" "\<forall>y. x = Some y \<longrightarrow> inv y \<and> evs y \<noteq> []"
    using handle_item_ok [OF rf_new_ok [of r True "[Ready (sitem_data b)]"], of a] assms(1,3)
    by (auto simp: RangeFilter2_new_def sorted_append)
  have no: "rf_within r (evs a) = []" using assms(6) by (auto simp: rf_within_def filter_empty_conv)
  note fi = h1(2) [unfolded rf_inv_def]
  have nd: "\<not> rf_one_before_done f1" using fi no by auto
  then have x: "sl x = []" "rf_slot2 f1 = None" using fi by auto
  then have xn: "x = None" using h1(5) by (cases x) auto
  have tm: "rf_tsmax f1 \<le> fst (hd (evs b))"
  proof -
    have "last (evs a) \<in> set (evs a)" "hd (evs b) \<in> set (evs b)" using assms(4,5) by simp_all
    then have "fst (last (evs a)) \<le> fst (hd (evs b))" using assms(3) by (auto simp: sorted_append)
    then show ?thesis using fi assms(4) by simp
  qed
  let ?f1 = "f1\<lparr>rf_inp := []\<rparr>"
  have "slots_ok ?f1" "rf_one_before ?f1" "\<not> rf_one_before_done ?f1" "\<forall>x \<in> set (evs b). nr_end (rf_range ?f1) \<le> fst x"
    using fi nd assms(7) by (simp_all add: slots_ok_def)
  then obtain f2 where f2: "handle_item ops b ?f1 = Some (Inl RfLogic, f2)" "rf_have_range_complete f2 = False"
    "\<not> rf_raco_done f2" "\<not> rf_done f2" "\<not> rf_complete f2"
    using handle_item_after [of ?f1 b] assms(2,3,5) tm h1(4) fi by (auto simp: sorted_append)
  define S :: "('e, 't) RangeFilter2" where "S = RangeFilter2_new [Ready (sitem_data a), Ready (sitem_data b)] r True"
  have f0: "S\<lparr>rf_inp := [Ready (sitem_data b)]\<rparr> = ?f" by (simp add: RangeFilter2_new_def S_def)
  have "rf_poll_next ops S = rf_poll_next ops f1"
  proof -
    have "rf_complete S = False" "rf_done S = False" "rf_raco_done S = False" "rf_inp_done S = False" "rf_slot2 S = None"
      "rf_inp S = [Ready (sitem_data a), Ready (sitem_data b)]" by (simp_all add: RangeFilter2_new_def S_def)
    then show ?thesis by (subst rf_poll_next.simps) (simp add: f0 h1(1) xn sitem_data_def [of a])
  qed
  moreover have "rf_poll_next ops f1 = Some (Ready (Some (Inl (RfErr RfLogic))), f2\<lparr>rf_inp_done := True\<rparr>)"
    using fi h1(3) x(2) f2(1) by (subst rf_poll_next.simps) (simp add: sitem_data_def)
  moreover have "rf_run ops (f2\<lparr>rf_inp_done := True\<rparr>) = Some (rf_tail False (rf_stats f2))"
    using rf_run_inp_done [of "f2\<lparr>rf_inp_done := True\<rparr>"] f2 by simp
  ultimately show ?thesis unfolding S_def [symmetric] by (simp add: rf_run_step rf_tail_def)
qed

end

section \<open>Properties\<close>

text \<open>The events of the data items of a stream of containers, and of a list of items.\<close>

definition cont_evs :: "'v ContainerEvents list \<Rightarrow> 'v event list" where
  "cont_evs cs = concat (map ce_iter_zip cs)"

text \<open>
  C6. Polled to its end, the range filter over a stream of containers in time order ends, and the events of
  the containers it yields are exactly the events in the range, in order, preceded by the last event
  before the range if that is asked for. Errors, log and statistics items pass unchanged and in order,
  the completion marker comes once, after the data, if the input had it, and the statistics come last.
  If the event before the range is asked for, this needs an event in the range, or no container that
  starts after the range.
\<close>

theorem rangefilter_yields_range:
  fixes inp :: "('e, 'v ContainerEvents) stream"
  assumes "\<forall>c \<in> set (stream_data inp). ce_inv c" and "in_order (cont_evs (stream_data inp))"
    and "one_before \<longrightarrow> rf_within r (cont_evs (stream_data inp)) \<noteq> [] \<or>
      (\<forall>c \<in> set (stream_data inp). ce_iter_zip c \<noteq> [] \<longrightarrow> fst (hd (ce_iter_zip c)) < nr_end r)"
  shows "\<exists>outs st. rf_run (ContainerEvents_impl bv) (RangeFilter2_new inp r one_before) =
      Some (outs @ (if Inr (DataItem RangeComplete) \<in> set (stream_items inp) then [Inr (DataItem RangeComplete)] else []) @
        [Inr (Stats (SiRangeFilterStats st))]) \<and>
    cont_evs (item_data outs) = rf_spec r one_before (cont_evs (stream_data inp)) \<and>
    filter is_pass outs = map pass_on (filter is_pass (stream_items inp)) \<and>
    Inr (DataItem RangeComplete) \<notin> set outs"
proof -
  have "ce.rf_fits r one_before (concat (map ce_iter_zip (stream_data inp))) (stream_data inp)"
    using assms(3) by (simp add: ce.rf_fits_def cont_evs_def)
  from ce.rf_total [OF assms(1) assms(2) [unfolded cont_evs_def] this, of bv]
  show ?thesis unfolding ce.rf_result_def ce.rf_tail_def cont_evs_def by (auto simp: RangeFilter2_new_def)
qed

definition sample_range :: NanoRange where
  "sample_range = \<lparr>nr_beg = 4, nr_end = 8\<rparr>"

definition sample_inp :: "(unit, nat ContainerEvents) stream" where
  "sample_inp = [Ready (sitem_data (ce_from_constituents [1, 2, 5] [10, 20, 50])), Pending, Ready (Inl ()),
     Ready (Inr (DataItem RangeComplete)), Ready (sitem_data (ce_from_constituents [7, 9] [70, 90]))]"

lemma sample_inp_ok:
  "stream_data sample_inp = [ce_from_constituents [1, 2, 5] [10, 20, 50], ce_from_constituents [7, 9] [70, 90]]"
  "cont_evs (stream_data sample_inp) = [(1, 10), (2, 20), (5, 50), (7, 70), (9, 90)]"
  "Inr (DataItem RangeComplete) \<in> set (stream_items sample_inp)"
  "filter is_pass (stream_items sample_inp) = [Inl ()]"
  by (simp_all add: sample_inp_def stream_data_def cont_evs_def sitem_data_def ce_iter_zip_def ce_from_constituents_def is_pass_def)

theorem rangefilter_yields_range_witness:
  "\<exists>outs st. rf_run (ContainerEvents_impl (\<lambda>_. 8)) (RangeFilter2_new sample_inp sample_range True) =
      Some (outs @ [Inr (DataItem RangeComplete)] @ [Inr (Stats (SiRangeFilterStats st))]) \<and>
    cont_evs (item_data outs) = [(2, 20), (5, 50), (7, 70)] \<and> filter is_pass outs = [Inl (RfInput ())] \<and>
    Inr (DataItem RangeComplete) \<notin> set outs"
proof -
  have "rf_spec sample_range True (cont_evs (stream_data sample_inp)) = [(2, 20), (5, 50), (7, 70)]"
    by (simp add: sample_inp_ok(2) rf_spec_def rf_below_def rf_within_def sample_range_def last_one_def
      word_le_nat_alt word_less_nat_alt)
  moreover have "rf_within sample_range (cont_evs (stream_data sample_inp)) \<noteq> []"
    by (simp add: sample_inp_ok(2) rf_within_def sample_range_def word_le_nat_alt word_less_nat_alt)
  moreover have "\<forall>c \<in> set (stream_data sample_inp). ce_inv c" "in_order (cont_evs (stream_data sample_inp))"
    by (simp_all add: sample_inp_ok(1) ce_inv_def ce_from_constituents_def) (simp add: cont_evs_def ce_iter_zip_def)
  ultimately show ?thesis
    using rangefilter_yields_range [of sample_inp True sample_range "\<lambda>_. 8"]
    by (simp add: sample_inp_ok(3,4) pass_on_def)
qed

text \<open>
  If the event before the range is asked for, a container before the range followed by a container
  after it ends the stream with the error \<^verbatim>\<open>Logic\<close>, which the code takes for impossible, and the event
  before the range is lost.
\<close>

theorem rangefilter_empty_range_error:
  fixes a b :: "'v ContainerEvents"
  assumes "ce_inv a" and "ce_inv b" and "in_order (ce_iter_zip a @ ce_iter_zip b)" and "ce_iter_zip a \<noteq> []" and "ce_iter_zip b \<noteq> []"
    and "\<forall>x \<in> set (ce_iter_zip a). fst x < nr_beg r \<and> fst x < nr_end r" and "\<forall>x \<in> set (ce_iter_zip b). nr_end r \<le> fst x"
  shows "\<exists>st. rf_run (ContainerEvents_impl bv) (RangeFilter2_new [Ready (sitem_data a), Ready (sitem_data b)] r True) =
    Some [Inl (RfErr RfLogic), Inr (Stats (SiRangeFilterStats st))]"
  by (rule ce.rf_logic_error [OF assms])

theorem rangefilter_empty_range_error_witness:
  "\<exists>st. rf_run (ContainerEvents_impl (\<lambda>_. 8))
      (RangeFilter2_new [Ready (sitem_data (ce_from_constituents [1] [10 :: nat])), Ready (sitem_data (ce_from_constituents [9] [90]))]
        sample_range True) =
    Some [Inl (RfErr RfLogic :: unit rf_item_error), Inr (Stats (SiRangeFilterStats st))]"
  by (rule rangefilter_empty_range_error)
    (simp_all add: ce_inv_def ce_iter_zip_def ce_from_constituents_def sample_range_def)

end
