(* ===== verification/Timeweight.thy ===== *)
theory Timeweight
  imports Mergeable BinRange
begin

text \<open>
  Time weighted binning of events: \<^verbatim>\<open>BinnedEventsTimeweight\<close> of
  \<^verbatim>\<open>daqbuf-items-2/src/binning/timeweight/timeweight_events.rs\<close>, the container of bins
  (\<^verbatim>\<open>container_bins.rs\<close>) and the aggregators (\<^verbatim>\<open>aggregator.rs\<close>).

  The code is generic in the value type: what it uses of it, the partial comparison \<^verbatim>\<open>cmp_a\<close> and the
  aggregator, is the record \<open>ValueOps\<close>. The arithmetic of floating point numbers, which the aggregators
  use, is the record \<open>FloatOps\<close>. Trace and log messages and the text of the errors are left out, and
  so is \<^verbatim>\<open>dbg_tsl\<close>, which only the disabled check of the input uses.
\<close>

section \<open>Aggregators\<close>

datatype Ordering = OLess | OEqual | OGreater

record ('v, 'a, 'f, 'o) AggregatorTimeWeight =
  ag_new :: 'a
  ag_ingest :: "DtNano \<Rightarrow> DtNano \<Rightarrow> 'v \<Rightarrow> 'a \<Rightarrow> 'a panics"
  ag_reset :: "'a \<Rightarrow> 'a"
  ag_result :: "'f \<Rightarrow> 'a \<Rightarrow> 'o \<times> 'a"

record ('v, 'a, 'f, 'o) ValueOps =
  vo_cmp :: "'v \<Rightarrow> 'v \<Rightarrow> Ordering option"
  vo_agg :: "('v, 'a, 'f, 'o) AggregatorTimeWeight"
  vo_fraction :: "DtNano \<Rightarrow> DtNano \<Rightarrow> 'f"

text \<open>\<open>vo_fraction\<close> is \<^verbatim>\<open>DtNano::fraction_f32_of\<close>.\<close>

record ('d, 'f) FloatOps =
  d_zero :: 'd
  d_add :: "'d \<Rightarrow> 'd \<Rightarrow> 'd"
  d_mul :: "'d \<Rightarrow> 'd \<Rightarrow> 'd"
  d_div :: "'d \<Rightarrow> 'd \<Rightarrow> 'd"
  d_of_u64 :: "u64 \<Rightarrow> 'd"
  d_of_f :: "'f \<Rightarrow> 'd"
  f_of_d :: "'d \<Rightarrow> 'f"
  f_of_u64 :: "u64 \<Rightarrow> 'f"
  f_div :: "'f \<Rightarrow> 'f \<Rightarrow> 'f"

record 'd AggregatorNumeric =
  an_sum :: 'd

definition fraction_f32_of :: "('d, 'f) FloatOps \<Rightarrow> DtNano \<Rightarrow> DtNano \<Rightarrow> 'f" where
  "fraction_f32_of fl a b = f_div fl (f_of_u64 fl a) (f_of_u64 fl b)"

definition numeric_ingest ::
    "('d, 'f) FloatOps \<Rightarrow> ('v \<Rightarrow> 'd) \<Rightarrow> DtNano \<Rightarrow> DtNano \<Rightarrow> 'v \<Rightarrow> 'd AggregatorNumeric \<Rightarrow> 'd AggregatorNumeric panics" where
  "numeric_ingest fl val dt bl v a =
     (let f = d_div fl (d_of_u64 fl dt) (d_of_u64 fl bl) in
      Some (a\<lparr>an_sum := d_add fl (an_sum a) (d_mul fl f (val v))\<rparr>))"

definition numeric_reset :: "('d, 'f) FloatOps \<Rightarrow> 'd AggregatorNumeric \<Rightarrow> 'd AggregatorNumeric" where
  "numeric_reset fl a = a\<lparr>an_sum := d_zero fl\<rparr>"

text \<open>The result as a double, for all value types but \<^verbatim>\<open>f32\<close>, and as a float.\<close>

definition numeric_result_f64 :: "('d, 'f) FloatOps \<Rightarrow> 'f \<Rightarrow> 'd AggregatorNumeric \<Rightarrow> 'd \<times> 'd AggregatorNumeric" where
  "numeric_result_f64 fl fraction a = (d_div fl (an_sum a) (d_of_f fl fraction), numeric_reset fl a)"

definition numeric_result_f32 :: "('d, 'f) FloatOps \<Rightarrow> 'f \<Rightarrow> 'd AggregatorNumeric \<Rightarrow> 'f \<times> 'd AggregatorNumeric" where
  "numeric_result_f32 fl fraction a = (f_div fl (f_of_d fl (an_sum a)) fraction, numeric_reset fl a)"

definition agg_f64 :: "('d, 'f) FloatOps \<Rightarrow> ('d, 'd AggregatorNumeric, 'f, 'd) AggregatorTimeWeight" where
  "agg_f64 fl =
     \<lparr>ag_new = \<lparr>an_sum = d_zero fl\<rparr>, ag_ingest = numeric_ingest fl id, ag_reset = numeric_reset fl,
      ag_result = numeric_result_f64 fl\<rparr>"

definition agg_f32 :: "('d, 'f) FloatOps \<Rightarrow> ('f, 'd AggregatorNumeric, 'f, 'f) AggregatorTimeWeight" where
  "agg_f32 fl =
     \<lparr>ag_new = \<lparr>an_sum = d_zero fl\<rparr>, ag_ingest = numeric_ingest fl (d_of_f fl), ag_reset = numeric_reset fl,
      ag_result = numeric_result_f32 fl\<rparr>"

definition agg_u64 :: "('d, 'f) FloatOps \<Rightarrow> (u64, 'd AggregatorNumeric, 'f, 'd) AggregatorTimeWeight" where
  "agg_u64 fl =
     \<lparr>ag_new = \<lparr>an_sum = d_zero fl\<rparr>, ag_ingest = numeric_ingest fl (d_of_u64 fl), ag_reset = numeric_reset fl,
      ag_result = numeric_result_f64 fl\<rparr>"

definition agg_bool :: "('d, 'f) FloatOps \<Rightarrow> (bool, 'd AggregatorNumeric, 'f, 'd) AggregatorTimeWeight" where
  "agg_bool fl =
     \<lparr>ag_new = \<lparr>an_sum = d_zero fl\<rparr>, ag_ingest = numeric_ingest fl (\<lambda>b. d_of_u64 fl (if b then 1 else 0)),
      ag_reset = numeric_reset fl, ag_result = numeric_result_f64 fl\<rparr>"

definition agg_string :: "('d, 'f) FloatOps \<Rightarrow> (bytes, 'd AggregatorNumeric, 'f, 'd) AggregatorTimeWeight" where
  "agg_string fl =
     \<lparr>ag_new = \<lparr>an_sum = d_zero fl\<rparr>, ag_ingest = numeric_ingest fl (\<lambda>s. d_of_u64 fl (of_nat (length s))),
      ag_reset = numeric_reset fl, ag_result = numeric_result_f64 fl\<rparr>"

text \<open>The macro \<^verbatim>\<open>impl_agg_tw_for_agg_num\<close>, for \<^verbatim>\<open>u8\<close>, \<^verbatim>\<open>u16\<close>, \<^verbatim>\<open>u32\<close> and the signed integers, panics.\<close>

definition agg_integer :: "('d, 'f) FloatOps \<Rightarrow> (int, 'd AggregatorNumeric, 'f, 'd) AggregatorTimeWeight" where
  "agg_integer fl =
     \<lparr>ag_new = \<lparr>an_sum = d_zero fl\<rparr>, ag_ingest = (\<lambda>_ _ _ _. None), ag_reset = numeric_reset fl,
      ag_result = numeric_result_f64 fl\<rparr>"

text \<open>The value types: \<^verbatim>\<open>cmp_a\<close> is the partial comparison of the type, given for floats.\<close>

definition total_cmp :: "'v::linorder \<Rightarrow> 'v \<Rightarrow> Ordering option" where
  "total_cmp a b = Some (if a < b then OLess else if a = b then OEqual else OGreater)"

definition f64_value ::
    "('d, 'f) FloatOps \<Rightarrow> ('d \<Rightarrow> 'd \<Rightarrow> Ordering option) \<Rightarrow> ('d, 'd AggregatorNumeric, 'f, 'd) ValueOps" where
  "f64_value fl cmp = \<lparr>vo_cmp = cmp, vo_agg = agg_f64 fl, vo_fraction = fraction_f32_of fl\<rparr>"

definition f32_value ::
    "('d, 'f) FloatOps \<Rightarrow> ('f \<Rightarrow> 'f \<Rightarrow> Ordering option) \<Rightarrow> ('f, 'd AggregatorNumeric, 'f, 'f) ValueOps" where
  "f32_value fl cmp = \<lparr>vo_cmp = cmp, vo_agg = agg_f32 fl, vo_fraction = fraction_f32_of fl\<rparr>"

definition u64_value :: "('d, 'f) FloatOps \<Rightarrow> (u64, 'd AggregatorNumeric, 'f, 'd) ValueOps" where
  "u64_value fl = \<lparr>vo_cmp = total_cmp, vo_agg = agg_u64 fl, vo_fraction = fraction_f32_of fl\<rparr>"

definition bool_value :: "('d, 'f) FloatOps \<Rightarrow> (bool, 'd AggregatorNumeric, 'f, 'd) ValueOps" where
  "bool_value fl = \<lparr>vo_cmp = total_cmp, vo_agg = agg_bool fl, vo_fraction = fraction_f32_of fl\<rparr>"

text \<open>Arrays: \<^verbatim>\<open>AggregatorVecNumeric\<close> sums the weighted elements, or the weighted length.\<close>

definition vec_ingest ::
    "('d, 'f) FloatOps \<Rightarrow> ('v \<Rightarrow> 'd) \<Rightarrow> DtNano \<Rightarrow> DtNano \<Rightarrow> 'v list \<Rightarrow> 'd AggregatorNumeric \<Rightarrow> 'd AggregatorNumeric panics" where
  "vec_ingest fl val dt bl vs a =
     (let f = d_div fl (d_of_u64 fl dt) (d_of_u64 fl bl) in
      Some (a\<lparr>an_sum := fold (\<lambda>e sum. d_add fl sum (d_mul fl f (val e))) vs (an_sum a)\<rparr>))"

definition agg_vec :: "('d, 'f) FloatOps \<Rightarrow> ('v \<Rightarrow> 'd) \<Rightarrow> ('v list, 'd AggregatorNumeric, 'f, 'f) AggregatorTimeWeight" where
  "agg_vec fl val =
     \<lparr>ag_new = \<lparr>an_sum = d_zero fl\<rparr>, ag_ingest = vec_ingest fl val, ag_reset = numeric_reset fl,
      ag_result = numeric_result_f32 fl\<rparr>"

definition agg_vec_len :: "('d, 'f) FloatOps \<Rightarrow> ('v list, 'd AggregatorNumeric, 'f, 'f) AggregatorTimeWeight" where
  "agg_vec_len fl =
     \<lparr>ag_new = \<lparr>an_sum = d_zero fl\<rparr>, ag_ingest = numeric_ingest fl (\<lambda>vs. d_of_u64 fl (of_nat (length vs))),
      ag_reset = numeric_reset fl, ag_result = numeric_result_f32 fl\<rparr>"

text \<open>\<^verbatim>\<open>AggregatorPulsedNumeric\<close> aggregates the values of pairs of a pulse and a value.\<close>

definition agg_pulsed :: "('v, 'a, 'f, 'o) AggregatorTimeWeight \<Rightarrow> ('p \<times> 'v, 'a, 'f, 'o) AggregatorTimeWeight" where
  "agg_pulsed ag =
     \<lparr>ag_new = ag_new ag, ag_ingest = (\<lambda>dt bl v. ag_ingest ag dt bl (snd v)), ag_reset = ag_reset ag,
      ag_result = ag_result ag\<rparr>"

section \<open>Bins\<close>

record ('v, 'o) ContainerBins =
  cb_ts1s :: "TsNano list"
  cb_ts2s :: "TsNano list"
  cb_cnts :: "u64 list"
  cb_mins :: "'v list"
  cb_maxs :: "'v list"
  cb_aggs :: "'o list"
  cb_lsts :: "'v list"
  cb_fnls :: "bool list"

definition cb_new :: "('v, 'o) ContainerBins" where
  "cb_new =
     \<lparr>cb_ts1s = [], cb_ts2s = [], cb_cnts = [], cb_mins = [], cb_maxs = [], cb_aggs = [], cb_lsts = [], cb_fnls = []\<rparr>"

definition cb_len :: "('v, 'o) ContainerBins \<Rightarrow> nat" where
  "cb_len c = length (cb_ts1s c)"

definition cb_push_back ::
    "TsNano \<Rightarrow> TsNano \<Rightarrow> u64 \<Rightarrow> 'v \<Rightarrow> 'v \<Rightarrow> 'o \<Rightarrow> 'v \<Rightarrow> bool \<Rightarrow> ('v, 'o) ContainerBins \<Rightarrow> ('v, 'o) ContainerBins" where
  "cb_push_back ts1 ts2 cnt mn mx agg lst fnl c =
     \<lparr>cb_ts1s = cb_ts1s c @ [ts1], cb_ts2s = cb_ts2s c @ [ts2], cb_cnts = cb_cnts c @ [cnt],
      cb_mins = cb_mins c @ [mn], cb_maxs = cb_maxs c @ [mx], cb_aggs = cb_aggs c @ [agg],
      cb_lsts = cb_lsts c @ [lst], cb_fnls = cb_fnls c @ [fnl]\<rparr>"

definition cb_verify :: "('v, 'o) ContainerBins \<Rightarrow> (ce_error, unit) result" where
  "cb_verify c =
     (if \<exists>(a, b) \<in> set (zip (cb_ts1s c) (drop 1 (cb_ts1s c))). a > b then Inl Unordered
      else if \<exists>(a, b) \<in> set (zip (cb_ts2s c) (drop 1 (cb_ts2s c))). a > b then Inl Unordered
      else Inr ())"

definition cb_ts1_first :: "('v, 'o) ContainerBins \<Rightarrow> TsNano option" where
  "cb_ts1_first c = (case cb_ts1s c of [] \<Rightarrow> None | t # _ \<Rightarrow> Some t)"

definition cb_ts2_last :: "('v, 'o) ContainerBins \<Rightarrow> TsNano option" where
  "cb_ts2_last c = (if cb_ts2s c = [] then None else Some (last (cb_ts2s c)))"

definition cb_len_before :: "TsNano \<Rightarrow> ('v, 'o) ContainerBins \<Rightarrow> nat panics" where
  "cb_len_before tend c =
     (let pp = partition_point (\<lambda>x. x \<le> tend) (cb_ts2s c) in if pp \<le> cb_len c then Some pp else None)"

type_synonym ('v, 'o) bin = "TsNano \<times> TsNano \<times> u64 \<times> 'v \<times> 'v \<times> 'o \<times> 'v \<times> bool"

definition cb_bins :: "('v, 'o) ContainerBins \<Rightarrow> ('v, 'o) bin list" where
  "cb_bins c = zip (cb_ts1s c) (zip (cb_ts2s c) (zip (cb_cnts c) (zip (cb_mins c) (zip (cb_maxs c)
     (zip (cb_aggs c) (zip (cb_lsts c) (cb_fnls c)))))))"

section \<open>The binner\<close>

definition OUT_LEN_MAX :: nat where "OUT_LEN_MAX = 10000"

datatype tw_error =
  TwUnordered | EventAfterRange | NoLstAfterFirst | NoLstButMinMax | NoMinMaxAfterInit
| IngestNoProgress nat nat | EventActiveRangeBefore | EventActiveRangeAfter | EventActiveRangeLE

text \<open>\<^verbatim>\<open>EventSingle\<close> is a pair of a timestamp and a value.\<close>

type_synonym 'v minmax = "'v event \<times> 'v event"

record 'a InnerB =
  ib_cnt :: u64
  ib_active_beg :: TsNano
  ib_active_end :: TsNano
  ib_active_len :: DtNano
  ib_filled_until :: TsNano
  ib_filled_width :: DtNano
  ib_agg :: 'a

record ('v, 'a) InnerA =
  ia_inner_b :: "'a InnerB"
  ia_minmax :: "'v minmax option"

text \<open>
  What the methods of \<^verbatim>\<open>InnerB\<close> change: \<^verbatim>\<open>self\<close>, and through references the events, the last value and
  the extremes.
\<close>

record ('v, 'a) TwCtx =
  cx_b :: "'a InnerB"
  cx_evs :: "'v ContainerEventsTakeUpTo"
  cx_lst :: "'v event"
  cx_mm :: "'v minmax"

definition apply_min_max :: "('v, 'a, 'f, 'o) ValueOps \<Rightarrow> 'v event \<Rightarrow> 'v minmax \<Rightarrow> 'v minmax" where
  "apply_min_max vo ev mm =
     (let mm = (if vo_cmp vo (snd ev) (snd (fst mm)) = Some OLess then (ev, snd mm) else mm) in
      if vo_cmp vo (snd ev) (snd (snd mm)) = Some OGreater then (fst mm, ev) else mm)"

definition apply_min_max_range_beg :: "'v event \<Rightarrow> 'v minmax" where
  "apply_min_max_range_beg ev = (ev, ev)"

definition ingest_event_with_lst_gt_range_beg_agg ::
    "('v, 'a, 'f, 'o) ValueOps \<Rightarrow> 'v event \<Rightarrow> 'v event \<Rightarrow> 'a InnerB \<Rightarrow> 'a InnerB panics" where
  "ingest_event_with_lst_gt_range_beg_agg vo ev lst b =
     (if fst ev \<le> ib_active_beg b then None
      else if fst ev \<ge> ib_active_end b then None
      else do { let dt = TsNano_delta (fst ev) (ib_filled_until b);
                a \<leftarrow> ag_ingest (vo_agg vo) dt (ib_active_len b) (snd lst) (ib_agg b);
                Some (b\<lparr>ib_agg := a, ib_filled_width := DtNano_add (ib_filled_width b) dt, ib_filled_until := fst ev\<rparr>) })"

definition ingest_event_with_lst_gt_range_beg_2 ::
    "('v, 'a, 'f, 'o) ValueOps \<Rightarrow> 'v event \<Rightarrow> 'v event \<Rightarrow> 'a InnerB \<Rightarrow> ('a InnerB \<times> 'v event) panics" where
  "ingest_event_with_lst_gt_range_beg_2 vo ev lst b =
     do { b \<leftarrow> ingest_event_with_lst_gt_range_beg_agg vo ev lst b; Some (b, ev) }"

definition ingest_event_with_lst_gt_range_beg ::
    "('v, 'a, 'f, 'o) ValueOps \<Rightarrow> 'v event \<Rightarrow> ('v, 'a) TwCtx \<Rightarrow> ('v, 'a) TwCtx panics" where
  "ingest_event_with_lst_gt_range_beg vo ev c =
     do { let c = c\<lparr>cx_mm := apply_min_max vo ev (cx_mm c)\<rparr>;
          (b, lst) \<leftarrow> ingest_event_with_lst_gt_range_beg_2 vo ev (cx_lst c) (cx_b c);
          Some (c\<lparr>cx_b := b, cx_lst := lst\<rparr>) }"

definition ingest_event_with_lst_eq_range_beg :: "'v event \<Rightarrow> ('v, 'a) TwCtx \<Rightarrow> ('v, 'a) TwCtx" where
  "ingest_event_with_lst_eq_range_beg ev c = c\<lparr>cx_mm := apply_min_max_range_beg ev, cx_lst := ev\<rparr>"

definition count_event :: "('v, 'a) TwCtx \<Rightarrow> ('v, 'a) TwCtx" where
  "count_event c = c\<lparr>cx_b := (cx_b c)\<lparr>ib_cnt := ib_cnt (cx_b c) + 1\<rparr>\<rparr>"

type_synonym 's tw_res = "((tw_error, unit) result \<times> 's) panics"

partial_function (option) ingest_with_lst_gt_range_beg ::
    "('v, 'a, 'f, 'o) ValueOps \<Rightarrow> ('v, 'a) TwCtx \<Rightarrow> ((tw_error, unit) result \<times> ('v, 'a) TwCtx) option" where
  "ingest_with_lst_gt_range_beg vo c =
     (case tu_next (cx_evs c) of
        (None, evs) \<Rightarrow> Some (Inr (), c\<lparr>cx_evs := evs\<rparr>)
      | (Some ev, evs) \<Rightarrow>
          let c = c\<lparr>cx_evs := evs\<rparr> in
          if fst ev \<le> ib_active_beg (cx_b c) then Some (Inl EventActiveRangeLE, c)
          else if fst ev \<ge> ib_active_end (cx_b c) then Some (Inl EventActiveRangeAfter, c)
          else do { c \<leftarrow> ingest_event_with_lst_gt_range_beg vo ev c;
                    ingest_with_lst_gt_range_beg vo (count_event c) })"

partial_function (option) ingest_with_lst_ge_range_beg ::
    "('v, 'a, 'f, 'o) ValueOps \<Rightarrow> ('v, 'a) TwCtx \<Rightarrow> ((tw_error, unit) result \<times> ('v, 'a) TwCtx) option" where
  "ingest_with_lst_ge_range_beg vo c =
     (case tu_next (cx_evs c) of
        (None, evs) \<Rightarrow> ingest_with_lst_gt_range_beg vo (c\<lparr>cx_evs := evs\<rparr>)
      | (Some ev, evs) \<Rightarrow>
          let c = c\<lparr>cx_evs := evs\<rparr> in
          if \<not> (fst ev \<ge> ib_active_beg (cx_b c) \<and> fst ev < ib_active_end (cx_b c)) then None
          else if fst ev = ib_active_beg (cx_b c)
          then ingest_with_lst_ge_range_beg vo (count_event (ingest_event_with_lst_eq_range_beg ev c))
          else do { c \<leftarrow> ingest_event_with_lst_gt_range_beg vo ev c;
                    ingest_with_lst_gt_range_beg vo (count_event c) })"

definition ingest_with_lst_minmax :: "('v, 'a, 'f, 'o) ValueOps \<Rightarrow> ('v, 'a) TwCtx \<Rightarrow> ('v, 'a) TwCtx tw_res" where
  "ingest_with_lst_minmax vo c =
     (case tu_ts_first (cx_evs c) of
        Some ts0 \<Rightarrow>
          if ts0 < ib_active_beg (cx_b c) then Some (Inl EventActiveRangeBefore, c)
          else if ts0 \<ge> ib_active_end (cx_b c) then Some (Inl EventActiveRangeAfter, c)
          else ingest_with_lst_ge_range_beg vo c
      | None \<Rightarrow> Some (Inr (), c))"

definition fill_until :: "('v, 'a, 'f, 'o) ValueOps \<Rightarrow> TsNano \<Rightarrow> 'v event \<Rightarrow> 'a InnerB \<Rightarrow> 'a InnerB panics" where
  "fill_until vo ts lst b =
     (if ib_filled_until b < ts \<and> ts \<le> ib_active_end b
      then do { let dt = TsNano_delta ts (ib_filled_until b);
                a \<leftarrow> ag_ingest (vo_agg vo) dt (ib_active_len b) (snd lst) (ib_agg b);
                Some (b\<lparr>ib_agg := a, ib_filled_width := DtNano_add (ib_filled_width b) dt, ib_filled_until := ts\<rparr>) }
      else None)"

subsection \<open>InnerA\<close>

definition init_minmax :: "'v event \<Rightarrow> ('v, 'a) InnerA \<Rightarrow> ('v, 'a) InnerA" where
  "init_minmax ev a = a\<lparr>ia_minmax := Some (ev, ev)\<rparr>"

definition init_minmax_with_lst :: "('v, 'a, 'f, 'o) ValueOps \<Rightarrow> 'v event \<Rightarrow> 'v event \<Rightarrow> ('v, 'a) InnerA \<Rightarrow> ('v, 'a) InnerA" where
  "init_minmax_with_lst vo ev lst a = a\<lparr>ia_minmax := Some (apply_min_max vo ev (lst, lst))\<rparr>"

type_synonym ('v, 'a) tw_lst = "('v, 'a) InnerA \<times> 'v ContainerEventsTakeUpTo \<times> 'v event"

text \<open>Calling the method of \<^verbatim>\<open>InnerB\<close> with the extremes of \<^verbatim>\<open>InnerA\<close>.\<close>

definition with_minmax ::
    "('v, 'a, 'f, 'o) ValueOps \<Rightarrow> 'v minmax \<Rightarrow> ('v, 'a) tw_lst \<Rightarrow> ('v, 'a) tw_lst tw_res" where
  "with_minmax vo mm st =
     (case st of (a, evs, lst) \<Rightarrow>
        do { (r, c) \<leftarrow> ingest_with_lst_minmax vo \<lparr>cx_b = ia_inner_b a, cx_evs = evs, cx_lst = lst, cx_mm = mm\<rparr>;
             Some (r, a\<lparr>ia_inner_b := cx_b c, ia_minmax := Some (cx_mm c)\<rparr>, cx_evs c, cx_lst c) })"

definition inc_cnt :: "'a InnerB \<Rightarrow> 'a InnerB" where
  "inc_cnt b = b\<lparr>ib_cnt := ib_cnt b + 1\<rparr>"

definition ingest_with_lst :: "('v, 'a, 'f, 'o) ValueOps \<Rightarrow> ('v, 'a) tw_lst \<Rightarrow> ('v, 'a) tw_lst tw_res" where
  "ingest_with_lst vo st =
     (case st of (a, evs, lst) \<Rightarrow>
        case ia_minmax a of
          Some mm \<Rightarrow> with_minmax vo mm st
        | None \<Rightarrow>
            (case tu_next evs of
               (None, evs) \<Rightarrow> Some (Inr (), a, evs, lst)
             | (Some ev, evs) \<Rightarrow>
                 let b = ia_inner_b a in
                 if fst ev < ib_active_beg b then Some (Inl EventActiveRangeBefore, a, evs, lst)
                 else if fst ev \<ge> ib_active_end b then Some (Inl EventActiveRangeAfter, a, evs, lst)
                 else if fst ev = ib_active_beg b
                 then Some (Inr (), (init_minmax ev a)\<lparr>ia_inner_b := inc_cnt b\<rparr>, evs, ev)
                 else do { let a = init_minmax_with_lst vo ev lst a;
                           (b, lst) \<leftarrow> ingest_event_with_lst_gt_range_beg_2 vo ev lst b;
                           let a = a\<lparr>ia_inner_b := inc_cnt b\<rparr>;
                           case ia_minmax a of
                             Some mm \<Rightarrow> with_minmax vo mm (a, evs, lst)
                           | None \<Rightarrow> Some (Inl NoMinMaxAfterInit, a, evs, lst) }))"

definition reset_01 :: "'v event \<Rightarrow> ('v, 'a) InnerA \<Rightarrow> ('v, 'a) InnerA panics" where
  "reset_01 lst a =
     do { let b = ia_inner_b a;
          q \<leftarrow> u64_div (ib_active_end b) (ib_active_len b);
          let ts1 = q * ib_active_len b;
          if ts1 = ib_active_end b
          then Some (a\<lparr>ia_inner_b := b\<lparr>ib_active_beg := ts1, ib_active_end := TsNano_add_dt_nano ts1 (ib_active_len b),
                         ib_filled_until := ts1, ib_filled_width := 0, ib_cnt := 0\<rparr>,
                       ia_minmax := Some (lst, lst)\<rparr>)
          else None }"

definition push_out_and_reset ::
    "('v, 'a, 'f, 'o) ValueOps \<Rightarrow> 'v event \<Rightarrow> bool \<Rightarrow> ('v, 'a) InnerA \<times> ('v, 'o) ContainerBins \<Rightarrow>
      (('v, 'a) InnerA \<times> ('v, 'o) ContainerBins) panics" where
  "push_out_and_reset vo lst range_final ao =
     (case ao of (a, out) \<Rightarrow>
        do { let b = ia_inner_b a;
             let mm = (case ia_minmax a of Some mm \<Rightarrow> mm | None \<Rightarrow> (lst, lst));
             let (res, agg) = ag_result (vo_agg vo) (vo_fraction vo (ib_filled_width b) (ib_active_len b)) (ib_agg b);
             let out = cb_push_back (ib_active_beg b) (ib_active_end b) (ib_cnt b) (snd (fst mm)) (snd (snd mm)) res
                         (snd lst) range_final out;
             a \<leftarrow> reset_01 lst (a\<lparr>ia_inner_b := b\<lparr>ib_agg := agg\<rparr>, ia_minmax := Some mm\<rparr>);
             Some (a, out) })"

subsection \<open>BinnedEventsTimeweight\<close>

record ('v, 'a, 'o) BinnedEventsTimeweight =
  tw_range :: BinnedRange
  tw_produce_cnt_zero :: bool
  tw_lst :: "'v event option"
  tw_inner_a :: "('v, 'a) InnerA"
  tw_out :: "('v, 'o) ContainerBins"
  tw_continue_output :: bool

definition BinnedEventsTimeweight_new :: "('v, 'a, 'f, 'o) ValueOps \<Rightarrow> BinnedRange \<Rightarrow> ('v, 'a, 'o) BinnedEventsTimeweight" where
  "BinnedEventsTimeweight_new vo rng =
     (let active_beg = nano_beg rng;
          active_end = TsNano_add_dt_nano active_beg (bin_len rng);
          active_len = TsNano_delta active_end active_beg in
      \<lparr>tw_range = rng, tw_produce_cnt_zero = False, tw_lst = None,
       tw_inner_a =
         \<lparr>ia_inner_b =
            \<lparr>ib_cnt = 0, ib_active_beg = active_beg, ib_active_end = active_end, ib_active_len = active_len,
             ib_filled_until = active_beg, ib_filled_width = 0, ib_agg = ag_new (vo_agg vo)\<rparr>,
          ia_minmax = None\<rparr>,
       tw_out = cb_new, tw_continue_output = False\<rparr>)"

definition cnt_zero_enable :: "('v, 'a, 'o) BinnedEventsTimeweight \<Rightarrow> ('v, 'a, 'o) BinnedEventsTimeweight" where
  "cnt_zero_enable s = s\<lparr>tw_produce_cnt_zero := True\<rparr>"

definition on_b :: "('a InnerB \<Rightarrow> 'a InnerB) \<Rightarrow> ('v, 'a) InnerA \<Rightarrow> ('v, 'a) InnerA" where
  "on_b f a = a\<lparr>ia_inner_b := f (ia_inner_b a)\<rparr>"

definition ingest_event_without_lst ::
    "'v event \<Rightarrow> ('v, 'a, 'o) BinnedEventsTimeweight \<Rightarrow> (tw_error, unit) result \<times> ('v, 'a, 'o) BinnedEventsTimeweight" where
  "ingest_event_without_lst ev s =
     (let b = ia_inner_b (tw_inner_a s) in
      if fst ev < ib_active_beg b
      then (Inr (), s\<lparr>tw_lst := Some ev, tw_inner_a := init_minmax ev (tw_inner_a s)\<rparr>)
      else if fst ev \<ge> ib_active_end b then (Inl EventActiveRangeAfter, s)
      else (Inr (), s\<lparr>tw_lst := Some ev,
              tw_inner_a := on_b (\<lambda>b. b\<lparr>ib_cnt := ib_cnt b + 1, ib_filled_until := fst ev\<rparr>) (init_minmax ev (tw_inner_a s))\<rparr>))"

type_synonym ('v, 'a, 'o) tw_in = "('v, 'a, 'o) BinnedEventsTimeweight \<times> 'v ContainerEventsTakeUpTo"

definition inner_ingest ::
    "('v, 'a, 'f, 'o) ValueOps \<Rightarrow> 'v event \<Rightarrow> ('v, 'a, 'o) tw_in \<Rightarrow> ('v, 'a, 'o) tw_in tw_res" where
  "inner_ingest vo lst si =
     (case si of (s, evs) \<Rightarrow>
        do { (r, a, evs, lst) \<leftarrow> ingest_with_lst vo (tw_inner_a s, evs, lst);
             Some (r, s\<lparr>tw_inner_a := a, tw_lst := Some lst\<rparr>, evs) })"

definition ingest_without_lst :: "('v, 'a, 'f, 'o) ValueOps \<Rightarrow> ('v, 'a, 'o) tw_in \<Rightarrow> ('v, 'a, 'o) tw_in tw_res" where
  "ingest_without_lst vo si =
     (case si of (s, evs) \<Rightarrow>
        case tu_next evs of
          (None, evs) \<Rightarrow> Some (Inr (), s, evs)
        | (Some ev, evs) \<Rightarrow>
            if \<not> fst ev < ib_active_end (ia_inner_b (tw_inner_a s)) then None
            else (case ingest_event_without_lst ev s of
                    (Inl e, s) \<Rightarrow> Some (Inl e, s, evs)
                  | (Inr _, s) \<Rightarrow>
                      (case tw_lst s of
                         Some lst \<Rightarrow> inner_ingest vo lst (s, evs)
                       | None \<Rightarrow> Some (Inl NoLstAfterFirst, s, evs))))"

definition ingest_ordered :: "('v, 'a, 'f, 'o) ValueOps \<Rightarrow> ('v, 'a, 'o) tw_in \<Rightarrow> ('v, 'a, 'o) tw_in tw_res" where
  "ingest_ordered vo si =
     (case si of (s, evs) \<Rightarrow>
        case tw_lst s of
          Some lst \<Rightarrow> inner_ingest vo lst (s, evs)
        | None \<Rightarrow> if ia_minmax (tw_inner_a s) \<noteq> None then Some (Inl NoLstButMinMax, s, evs)
                  else ingest_without_lst vo (s, evs))"

text \<open>Jumping to the bin that holds \<open>ts\<close>.\<close>

definition jump_to :: "('v, 'a, 'f, 'o) ValueOps \<Rightarrow> TsNano \<Rightarrow> ('v, 'a) InnerA \<Rightarrow> ('v, 'a) InnerA panics" where
  "jump_to vo ts a =
     do { let b = ia_inner_b a;
          q \<leftarrow> u64_div ts (ib_active_len b);
          let ts1 = q * ib_active_len b;
          Some (a\<lparr>ia_inner_b := b\<lparr>ib_active_beg := ts1, ib_active_end := TsNano_add_dt_nano ts1 (ib_active_len b),
                    ib_filled_until := ts1, ib_filled_width := 0, ib_cnt := 0,
                    ib_agg := ag_reset (vo_agg vo) (ib_agg b)\<rparr>\<rparr>) }"

text \<open>One round towards \<open>ts\<close>, which is later than what is filled.\<close>

definition cycle_step ::
    "('v, 'a, 'f, 'o) ValueOps \<Rightarrow> TsNano \<Rightarrow> 'v event \<Rightarrow> ('v, 'a) InnerA \<times> ('v, 'o) ContainerBins \<Rightarrow>
      (('v, 'a) InnerA \<times> ('v, 'o) ContainerBins) panics" where
  "cycle_step vo ts lst ao =
     (case ao of (a, out) \<Rightarrow>
        let b = ia_inner_b a in
        if ts \<ge> ib_active_end b
        then do { b \<leftarrow> (if ib_filled_until b < ib_active_end b then fill_until vo (ib_active_end b) lst b else Some b);
                  push_out_and_reset vo lst True (a\<lparr>ia_inner_b := b\<rparr>, out) }
        else do { b \<leftarrow> fill_until vo ts lst b; Some (a\<lparr>ia_inner_b := b\<rparr>, out) })"

partial_function (option) cycle_zero ::
    "('v, 'a, 'f, 'o) ValueOps \<Rightarrow> TsNano \<Rightarrow> 'v event \<Rightarrow> nat \<Rightarrow> ('v, 'a) InnerA \<times> ('v, 'o) ContainerBins \<Rightarrow>
      (('v, 'a) InnerA \<times> ('v, 'o) ContainerBins) option" where
  "cycle_zero vo ts lst i ao =
     (let i = i + 1 in
      if \<not> i < 3 * OUT_LEN_MAX then None
      else if cb_len (snd ao) > OUT_LEN_MAX then Some ao
      else if ts > ib_filled_until (ia_inner_b (fst ao))
      then do { ao \<leftarrow> cycle_step vo ts lst ao; cycle_zero vo ts lst i ao }
      else Some ao)"

definition cycle_01 ::
    "('v, 'a, 'f, 'o) ValueOps \<Rightarrow> TsNano \<Rightarrow> ('v, 'a, 'o) BinnedEventsTimeweight \<Rightarrow> ('v, 'a, 'o) BinnedEventsTimeweight panics" where
  "cycle_01 vo ts s =
     (let b = ia_inner_b (tw_inner_a s) in
      if \<not> (ib_active_beg b < ts \<and> ib_active_beg b \<le> ib_filled_until b \<and> ib_filled_until b < ts \<and>
            ib_filled_until b \<le> ib_active_end b) then None
      else case tw_lst s of
             Some lst \<Rightarrow>
               if tw_produce_cnt_zero s
               then do { (a, out) \<leftarrow> cycle_zero vo ts lst 0 (tw_inner_a s, tw_out s);
                         Some (s\<lparr>tw_inner_a := a, tw_out := out\<rparr>) }
               else do { (a, out) \<leftarrow> (if ts > ib_filled_until b then cycle_step vo ts lst (tw_inner_a s, tw_out s)
                                     else Some (tw_inner_a s, tw_out s));
                         a \<leftarrow> jump_to vo ts a;
                         Some (s\<lparr>tw_inner_a := a, tw_out := out\<rparr>) }
           | None \<Rightarrow>
               if ia_minmax (tw_inner_a s) \<noteq> None then None
               else do { a \<leftarrow> jump_to vo ts (tw_inner_a s); Some (s\<lparr>tw_inner_a := a\<rparr>) })"

definition cycle_02 ::
    "('v, 'a, 'f, 'o) ValueOps \<Rightarrow> ('v, 'a, 'o) BinnedEventsTimeweight \<Rightarrow> ('v, 'a, 'o) BinnedEventsTimeweight panics" where
  "cycle_02 vo s =
     (case tw_lst s of
        Some lst \<Rightarrow>
          do { (a, out) \<leftarrow> push_out_and_reset vo lst False (tw_inner_a s, tw_out s);
               Some (s\<lparr>tw_inner_a := a, tw_out := out\<rparr>) }
      | None \<Rightarrow> Some s)"

datatype IngestReport = ConsumedAll | ConsumedPart nat

partial_function (option) ingest_loop ::
    "('v, 'a, 'f, 'o) ValueOps \<Rightarrow> nat \<Rightarrow> ('v, 'a, 'o) tw_in \<Rightarrow>
      ((tw_error, IngestReport) result \<times> ('v, 'a, 'o) BinnedEventsTimeweight) option" where
  "ingest_loop vo nconsumed si =
     (case si of (s, evs) \<Rightarrow>
        case tu_ts_first evs of
          None \<Rightarrow> Some (Inr ConsumedAll, s)
        | Some ts \<Rightarrow>
            if ts \<ge> nano_end (tw_range s) then Some (Inl EventAfterRange, s)
            else do {
              let b = ia_inner_b (tw_inner_a s);
              s \<leftarrow> (if ts \<ge> ib_active_end b
                   then if ib_filled_until b < ib_active_end b then cycle_01 vo ts s else None
                   else Some s);
              if ts \<ge> ib_active_end b \<and> cb_len (tw_out s) > OUT_LEN_MAX
              then Some (Inr (ConsumedPart nconsumed), s)
              else do {
                let n1 = tu_len evs;
                evs \<leftarrow> constrain_up_to_ts (ib_active_end (ia_inner_b (tw_inner_a s))) evs;
                if (case tw_lst s of Some lst \<Rightarrow> ts < fst lst | None \<Rightarrow> False) then Some (Inl TwUnordered, s)
                else do {
                  (r, s, evs) \<leftarrow> ingest_ordered vo (s, evs);
                  case r of
                    Inl e \<Rightarrow> Some (Inl e, s)
                  | Inr _ \<Rightarrow>
                      let evs = extend_to_all evs; n2 = tu_len evs in
                      if n2 = 0 then Some (Inr ConsumedAll, s)
                      else if n2 \<ge> n1 then Some (Inl (IngestNoProgress n1 n2), s)
                      else ingest_loop vo (nconsumed + (n1 - n2)) (s, evs) } } })"

definition tw_ingest ::
    "('v, 'a, 'f, 'o) ValueOps \<Rightarrow> 'v ContainerEvents \<Rightarrow> ('v, 'a, 'o) BinnedEventsTimeweight \<Rightarrow>
      ((tw_error, IngestReport) result \<times> ('v, 'a, 'o) BinnedEventsTimeweight) panics" where
  "tw_ingest vo evs s = ingest_loop vo 0 (s, tu_new evs)"

definition input_done_range_final ::
    "('v, 'a, 'f, 'o) ValueOps \<Rightarrow> ('v, 'a, 'o) BinnedEventsTimeweight \<Rightarrow> ('v, 'a, 'o) BinnedEventsTimeweight panics" where
  "input_done_range_final vo s =
     do { s \<leftarrow> cycle_01 vo (nano_end (tw_range s)) s;
          Some (if cb_len (tw_out s) > OUT_LEN_MAX then s\<lparr>tw_continue_output := True\<rparr> else s) }"

definition input_done_range_open ::
    "('v, 'a, 'f, 'o) ValueOps \<Rightarrow> ('v, 'a, 'o) BinnedEventsTimeweight \<Rightarrow> ('v, 'a, 'o) BinnedEventsTimeweight panics" where
  "input_done_range_open vo s = cycle_02 vo s"

definition output_len :: "('v, 'a, 'o) BinnedEventsTimeweight \<Rightarrow> nat" where
  "output_len s = cb_len (tw_out s)"

definition tw_output ::
    "('v, 'a, 'f, 'o) ValueOps \<Rightarrow> ('v, 'a, 'o) BinnedEventsTimeweight \<Rightarrow>
      (('v, 'o) ContainerBins \<times> ('v, 'a, 'o) BinnedEventsTimeweight) panics" where
  "tw_output vo s =
     do { let ret = tw_out s;
          let s = s\<lparr>tw_out := cb_new\<rparr>;
          s \<leftarrow> (if tw_continue_output s then cycle_01 vo (nano_end (tw_range s)) (s\<lparr>tw_continue_output := False\<rparr>)
               else Some s);
          Some (ret, s) }"

end
