(* ===== verification/TimeweightCorrect.thy ===== *)
theory TimeweightCorrect
  imports Timeweight
begin

text \<open>
  The time weighted binner against a specification of a bin by the list of all events: how long each
  value was in force inside the bin, and the count, extremes and last value of its events.
\<close>

section \<open>The specification of a bin\<close>

definition before_ts :: "TsNano \<Rightarrow> 'v event list \<Rightarrow> 'v event list" where
  "before_ts b es = filter (\<lambda>x. fst x < b) es"

definition from_ts :: "TsNano \<Rightarrow> 'v event list \<Rightarrow> 'v event list" where
  "from_ts b es = filter (\<lambda>x. b \<le> fst x) es"

text \<open>The value in force at the beginning of the bin, or else the first event, and the events that follow.\<close>

definition bin_start :: "TsNano \<Rightarrow> 'v event list \<Rightarrow> 'v event" where
  "bin_start b es = (if before_ts b es = [] then hd es else (b, snd (last (before_ts b es))))"

definition bin_rest :: "TsNano \<Rightarrow> 'v event list \<Rightarrow> 'v event list" where
  "bin_rest b es = (if before_ts b es = [] then tl es else from_ts b es)"

text \<open>The time each value was in force, between the events; an event at the beginning of the bin has no predecessor.\<close>

fun segs :: "TsNano \<Rightarrow> 'v event \<Rightarrow> 'v event list \<Rightarrow> (DtNano \<times> 'v) list" where
  "segs b p [] = []"
| "segs b p (x # xs) = (if fst x = b then segs b x xs else (fst x - fst p, snd p) # segs b x xs)"

definition seg_end :: "'v event \<Rightarrow> 'v event list \<Rightarrow> 'v event" where
  "seg_end p xs = (if xs = [] then p else last xs)"

lemma segs_snoc: "segs b p (xs @ [x]) =
    segs b p xs @ (if fst x = b then [] else [(fst x - fst (seg_end p xs), snd (seg_end p xs))])"
  by (induction xs arbitrary: p) (auto simp: seg_end_def)

text \<open>The extremes: an event at the beginning of the bin replaces them.\<close>

definition mm_step :: "('v, 'a, 'f, 'o) ValueOps \<Rightarrow> TsNano \<Rightarrow> 'v minmax \<Rightarrow> 'v event \<Rightarrow> 'v minmax" where
  "mm_step vo b mm x = (if fst x = b then (x, x) else apply_min_max vo x mm)"

definition bin_mm :: "('v, 'a, 'f, 'o) ValueOps \<Rightarrow> TsNano \<Rightarrow> 'v event list \<Rightarrow> 'v minmax" where
  "bin_mm vo b es =
     (let p = (if before_ts b es = [] then hd es else last (before_ts b es)) in
      foldl (mm_step vo b) (p, p) (bin_rest b es))"

definition bin_segs :: "TsNano \<Rightarrow> 'v event list \<Rightarrow> (DtNano \<times> 'v) list" where
  "bin_segs b es = segs b (bin_start b es) (bin_rest b es)"

text \<open>Where the bin is filled to: the last event of the bin, or its beginning.\<close>

definition bin_fu :: "TsNano \<Rightarrow> 'v event list \<Rightarrow> TsNano" where
  "bin_fu b es = (if from_ts b es = [] then b else fst (last es))"

definition agg_segs :: "(DtNano \<Rightarrow> DtNano \<Rightarrow> 'v \<Rightarrow> 'a \<Rightarrow> 'a) \<Rightarrow> DtNano \<Rightarrow> (DtNano \<times> 'v) list \<Rightarrow> 'a \<Rightarrow> 'a" where
  "agg_segs ing bl ss a = foldl (\<lambda>a (d, v). ing d bl v a) a ss"

definition seg_width :: "(DtNano \<times> 'v) list \<Rightarrow> DtNano" where
  "seg_width ss = sum_list (map fst ss)"

lemma agg_segs_append [simp]: "agg_segs ing bl (xs @ ys) a = agg_segs ing bl ys (agg_segs ing bl xs a)"
  by (simp add: agg_segs_def)

lemma agg_segs_simps [simp]: "agg_segs ing bl [] a = a" "agg_segs ing bl [(d, v)] a = ing d bl v a"
  by (simp_all add: agg_segs_def)

lemma seg_width_append [simp]: "seg_width (xs @ ys) = seg_width xs + seg_width ys" "seg_width [] = 0" "seg_width [(d, v)] = d"
  by (simp_all add: seg_width_def)

text \<open>The events of a bin up to its end, all segments of the bin, and the bin.\<close>

definition bin_all_segs :: "TsNano \<Rightarrow> DtNano \<Rightarrow> 'v event list \<Rightarrow> (DtNano \<times> 'v) list" where
  "bin_all_segs b bl es = (let us = before_ts (b + bl) es in bin_segs b us @ [(b + bl - bin_fu b us, snd (last us))])"

definition bin_of ::
    "('v, 'a, 'f, 'o) ValueOps \<Rightarrow> (DtNano \<Rightarrow> DtNano \<Rightarrow> 'v \<Rightarrow> 'a \<Rightarrow> 'a) \<Rightarrow> DtNano \<Rightarrow> 'v event list \<Rightarrow> TsNano \<Rightarrow> ('v, 'o) bin" where
  "bin_of vo ing bl es b =
     (let us = before_ts (b + bl) es; ss = bin_all_segs b bl es in
      (b, b + bl, of_nat (length (from_ts b us)), snd (fst (bin_mm vo b us)), snd (snd (bin_mm vo b us)),
       fst (ag_result (vo_agg vo) (vo_fraction vo (seg_width ss) bl) (agg_segs ing bl ss (ag_new (vo_agg vo)))),
       snd (last us), True))"

section \<open>Appending an event\<close>

lemma before_append [simp]: "before_ts b (xs @ ys) = before_ts b xs @ before_ts b ys"
  by (simp add: before_ts_def)

lemma from_append [simp]: "from_ts b (xs @ ys) = from_ts b xs @ from_ts b ys"
  by (simp add: from_ts_def)

lemma single_ts [simp]: "b \<le> fst x \<Longrightarrow> before_ts b [x] = []" "b \<le> fst x \<Longrightarrow> from_ts b [x] = [x]"
  by (simp_all add: before_ts_def from_ts_def not_less)

lemma rest_snoc: "es \<noteq> [] \<Longrightarrow> b \<le> fst x \<Longrightarrow> bin_rest b (es @ [x]) = bin_rest b es @ [x]"
  "es \<noteq> [] \<Longrightarrow> b \<le> fst x \<Longrightarrow> bin_start b (es @ [x]) = bin_start b es"
  by (simp_all add: bin_rest_def bin_start_def)

lemma mm_snoc: "es \<noteq> [] \<Longrightarrow> b \<le> fst x \<Longrightarrow> bin_mm vo b (es @ [x]) = mm_step vo b (bin_mm vo b es) x"
  by (simp add: bin_mm_def rest_snoc Let_def)

lemma last_in_bin:
  assumes "in_order es" and "from_ts b es \<noteq> []"
  shows "b \<le> fst (last es)"
proof -
  obtain y where "y \<in> set es" "b \<le> fst y" using assms(2) by (auto simp: from_ts_def filter_empty_conv)
  then show ?thesis using assms(1) by (cases es rule: rev_cases) (auto simp: sorted_append)
qed

lemma bin_fu_ge: "in_order es \<Longrightarrow> b \<le> bin_fu b es"
  by (simp add: bin_fu_def last_in_bin)

text \<open>The last event is what the bin is filled to, with its value in force.\<close>

lemma seg_end_last:
  assumes "in_order es" and "es \<noteq> []"
  shows "seg_end (bin_start b es) (bin_rest b es) = (bin_fu b es, snd (last es))"
proof (cases "before_ts b es = []")
  case True
  then have "from_ts b es = es" by (auto simp: before_ts_def from_ts_def filter_empty_conv filter_id_conv)
  then have "bin_fu b es = fst (last es)" using assms(2) by (simp add: bin_fu_def)
  moreover have "seg_end (hd es) (tl es) = last es" using assms(2) by (cases es) (simp_all add: seg_end_def)
  ultimately show ?thesis using True by (simp add: bin_start_def bin_rest_def)
next
  case False
  show ?thesis
  proof (cases "from_ts b es = []")
    case True
    then have "before_ts b es = es" by (auto simp: before_ts_def from_ts_def filter_empty_conv filter_id_conv)
    then show ?thesis using True False by (simp add: bin_start_def bin_rest_def seg_end_def bin_fu_def)
  next
    case ne: False
    have "b \<le> fst (last es)" by (rule last_in_bin [OF assms(1) ne])
    then have "last (from_ts b es) = last es" using assms(2) by (cases es rule: rev_cases) (simp_all add: from_ts_def)
    then show ?thesis using ne False by (simp add: bin_start_def bin_rest_def seg_end_def bin_fu_def)
  qed
qed

lemma segs_of_snoc:
  assumes "in_order es" and "es \<noteq> []" and "b \<le> fst x"
  shows "bin_segs b (es @ [x]) = bin_segs b es @ (if fst x = b then [] else [(fst x - bin_fu b es, snd (last es))])"
  using assms by (simp add: bin_segs_def rest_snoc segs_snoc seg_end_last)

lemma fu_snoc: "b \<le> fst x \<Longrightarrow> bin_fu b (es @ [x]) = fst x"
  by (simp add: bin_fu_def)

lemma first_event:
  "b \<le> fst x \<Longrightarrow> bin_segs b [x] = [] \<and> bin_mm vo b [x] = (x, x) \<and> bin_fu b [x] = fst x"
  by (simp add: bin_segs_def bin_mm_def bin_fu_def bin_start_def bin_rest_def Let_def)

text \<open>A bin without events of its own.\<close>

lemma fresh_bin:
  assumes "es \<noteq> []" and "\<forall>x \<in> set es. fst x < b"
  shows "bin_segs b es = []" "bin_mm vo b es = (last es, last es)" "bin_fu b es = b" "from_ts b es = []"
proof -
  have "before_ts b es = es" "from_ts b es = []"
    using assms(2) by (auto simp: before_ts_def from_ts_def filter_id_conv filter_empty_conv not_le)
  then show "bin_segs b es = []" "bin_mm vo b es = (last es, last es)" "bin_fu b es = b" "from_ts b es = []"
    using assms(1) by (simp_all add: bin_segs_def bin_mm_def bin_fu_def bin_start_def bin_rest_def Let_def)
qed

section \<open>The events to take\<close>

definition tu_rest :: "'v ContainerEventsTakeUpTo \<Rightarrow> 'v event list" where
  "tu_rest t = take (tu_end t - tu_pos t) (drop (tu_pos t) (ce_iter_zip (tu_evs t)))"

definition tu_ok :: "'v ContainerEventsTakeUpTo \<Rightarrow> bool" where
  "tu_ok t \<longleftrightarrow> ce_inv (tu_evs t) \<and> tu_pos t \<le> tu_end t \<and> tu_end t \<le> length (ce_tss (tu_evs t))"

lemma tu_next_ok:
  assumes "tu_ok t"
  shows "tu_rest t = [] \<Longrightarrow> tu_next t = (None, t)"
    and "tu_rest t = x # xs \<Longrightarrow> tu_next t = (Some x, t\<lparr>tu_pos := tu_pos t + 1\<rparr>) \<and> tu_ok (t\<lparr>tu_pos := tu_pos t + 1\<rparr>) \<and>
      tu_rest (t\<lparr>tu_pos := tu_pos t + 1\<rparr>) = xs"
proof -
  let ?z = "ce_iter_zip (tu_evs t)"
  have l: "length ?z = length (ce_tss (tu_evs t))" "length (ce_vals (tu_evs t)) = length (ce_tss (tu_evs t))"
    using assms by (simp_all add: tu_ok_def ce_inv_def ce_iter_zip_def)
  show "tu_next t = (None, t)" if "tu_rest t = []"
  proof -
    have "tu_end t \<le> tu_pos t" using that assms l by (auto simp: tu_rest_def tu_ok_def)
    then show ?thesis by (simp add: tu_next_def)
  qed
  show "tu_next t = (Some x, t\<lparr>tu_pos := tu_pos t + 1\<rparr>) \<and> tu_ok (t\<lparr>tu_pos := tu_pos t + 1\<rparr>) \<and>
      tu_rest (t\<lparr>tu_pos := tu_pos t + 1\<rparr>) = xs" if r: "tu_rest t = x # xs"
  proof -
    have p: "tu_pos t < tu_end t" using r by (cases "tu_pos t < tu_end t") (simp_all add: tu_rest_def)
    then have pz: "tu_pos t < length ?z" using assms l by (simp add: tu_ok_def)
    have "tu_rest t = ?z ! tu_pos t # take (tu_end t - tu_pos t - 1) (drop (tu_pos t + 1) ?z)"
      using p pz by (simp add: tu_rest_def Cons_nth_drop_Suc [symmetric] take_Cons')
    then have "x = ?z ! tu_pos t" "xs = take (tu_end t - tu_pos t - 1) (drop (tu_pos t + 1) ?z)" using r by simp_all
    then show ?thesis using p pz assms l by (simp add: tu_next_def tu_rest_def tu_ok_def ce_iter_zip_def Let_def)
  qed
qed

lemma tu_first_ok: "tu_ok t \<Longrightarrow> tu_ts_first t = (case tu_rest t of [] \<Rightarrow> None | x # _ \<Rightarrow> Some (fst x))"
  using tu_next_ok [of t]
  by (cases "tu_rest t") (auto simp: tu_ts_first_def tu_next_def tu_ok_def ce_inv_def Let_def split: if_splits)

lemma tu_len_ok: "tu_ok t \<Longrightarrow> tu_len t = length (tu_rest t)"
  by (auto simp: tu_len_def tu_rest_def tu_ok_def min_def)

lemma tu_new_ok: "ce_inv c \<Longrightarrow> tu_ok (tu_new c) \<and> tu_rest (tu_new c) = ce_iter_zip c \<and> tu_end (tu_new c) = length (ce_tss c)"
  by (simp add: tu_ok_def tu_rest_def tu_new_def ce_len_def)

text \<open>Constraining to the events before \<open>tend\<close>, and what is left after they are taken.\<close>

lemma takeWhile_filter_sorted: "in_order xs \<Longrightarrow> takeWhile (\<lambda>x. fst x < e) xs = filter (\<lambda>x. fst x < e) xs"
proof (induction xs)
  case (Cons x xs)
  show ?case
  proof (cases "fst x < e")
    case False
    then have "filter (\<lambda>y. fst y < e) (x # xs) = []" using Cons.prems by (auto simp: filter_empty_conv)
    then show ?thesis using False by simp
  qed (use Cons in simp)
qed simp

lemma split_sorted: "in_order xs \<Longrightarrow> xs = filter (\<lambda>x. fst x < e) xs @ filter (\<lambda>x. e \<le> fst x) xs"
proof (induction xs)
  case (Cons x xs)
  show ?case
  proof (cases "fst x < e")
    case False
    then have "filter (\<lambda>y. fst y < e) (x # xs) = []" "filter (\<lambda>y. e \<le> fst y) (x # xs) = x # xs"
      using Cons.prems by (auto simp: filter_empty_conv filter_id_conv)
    then show ?thesis by simp
  next
    case True
    then show ?thesis using Cons by (simp add: leD)
  qed
qed simp

lemma take_app: "xs = a @ b \<Longrightarrow> take (length a) xs = a"
  and drop_app: "xs = a @ b \<Longrightarrow> drop (length a) xs = b"
  by simp_all

lemma constrain_ok:
  assumes "tu_ok t" and "in_order (ce_iter_zip (tu_evs t))" and "tu_end t = length (ce_tss (tu_evs t))"
    and "tu_rest t = x # xs" and "fst x < e"
  obtains t' where "constrain_up_to_ts e t = Some t'" "tu_ok t'" "tu_evs t' = tu_evs t"
    "tu_rest t' = filter (\<lambda>x. fst x < e) (x # xs)"
    "drop (tu_end t') (ce_iter_zip (tu_evs t)) = filter (\<lambda>x. e \<le> fst x) (x # xs)"
proof -
  define z where "z = ce_iter_zip (tu_evs t)"
  define tss where "tss = ce_tss (tu_evs t)"
  define pos where "pos = tu_pos t"
  have z: "map fst z = tss" "length z = length tss" using assms(1) by (simp_all add: z_def tss_def tu_ok_def)
  have r: "drop pos z = x # xs" using assms(1,3,4) z by (simp add: tu_rest_def z_def tss_def pos_def)
  have split: "z = take pos z @ x # xs" using r by (metis append_take_drop_id)
  have pz: "pos < length z" using r by (metis drop_all leI list.discI)
  have ord: "in_order (take pos z @ x # xs)" using assms(2) split by (simp add: z_def)
  have low: "\<forall>y \<in> set (take pos z). fst y < e"
  proof
    fix y assume "y \<in> set (take pos z)"
    then have "fst y \<le> fst x" using ord by (auto simp: sorted_append)
    then show "fst y < e" using assms(5) by simp
  qed
  define p where "p = partition_point (\<lambda>x. x < e) tss"
  have "tss = map fst (take pos z @ x # xs)" using z split by metis
  then have "p = length (takeWhile (\<lambda>x. fst x < e) (take pos z @ x # xs))"
    unfolding p_def partition_point_def by (simp only: takeWhile_map length_map comp_def)
  also have "takeWhile (\<lambda>x. fst x < e) (take pos z @ x # xs) = take pos z @ takeWhile (\<lambda>x. fst x < e) (x # xs)"
    using low by (subst takeWhile_append2) auto
  also have "takeWhile (\<lambda>x. fst x < e) (x # xs) = filter (\<lambda>x. fst x < e) (x # xs)"
    using ord by (intro takeWhile_filter_sorted) (simp add: sorted_append)
  finally have p: "p = pos + length (filter (\<lambda>x. fst x < e) (x # xs))" using pz by simp
  have pp: "pos < p" using p assms(5) by simp
  have le: "p \<le> length tss" by (simp add: p_def partition_point_le)
  have "tss ! (p - 1) < e"
    using partition_point_before [of "p - 1" "\<lambda>x. x < e" tss] pp by (simp add: p_def)
  then have c: "constrain_up_to_ts e t = Some (t\<lparr>tu_end := p\<rparr>)"
    using pp le unfolding constrain_up_to_ts_def Let_def
    by (simp only: p_def [symmetric] tss_def [symmetric] pos_def [symmetric] max.absorb1 less_imp_le if_True simp_thms)
  have sf: "x # xs = filter (\<lambda>x. fst x < e) (x # xs) @ filter (\<lambda>x. e \<le> fst x) (x # xs)"
    using ord by (intro split_sorted) (simp add: sorted_append)
  show thesis
  proof (rule that [OF c])
    show "tu_ok (t\<lparr>tu_end := p\<rparr>)" using assms(1) pp le by (simp add: tu_ok_def pos_def tss_def)
    show "tu_evs (t\<lparr>tu_end := p\<rparr>) = tu_evs t" by simp
    have "tu_rest (t\<lparr>tu_end := p\<rparr>) = take (length (filter (\<lambda>x. fst x < e) (x # xs))) (x # xs)"
      unfolding r [symmetric] by (simp add: tu_rest_def z_def [symmetric] pos_def [symmetric] p r)
    also have "\<dots> = filter (\<lambda>x. fst x < e) (x # xs)" by (rule take_app [OF sf])
    finally show "tu_rest (t\<lparr>tu_end := p\<rparr>) = filter (\<lambda>x. fst x < e) (x # xs)" .
    have "drop p z = drop (length (filter (\<lambda>x. fst x < e) (x # xs))) (x # xs)"
      unfolding p r [symmetric] drop_drop by (simp only: add.commute)
    also have "\<dots> = filter (\<lambda>x. e \<le> fst x) (x # xs)" by (rule drop_app [OF sf])
    finally show "drop (tu_end (t\<lparr>tu_end := p\<rparr>)) (ce_iter_zip (tu_evs t)) = filter (\<lambda>x. e \<le> fst x) (x # xs)"
      by (simp add: z_def)
  qed
qed

section \<open>The grid of bins\<close>

text \<open>Bins are numbered from the start of time: bin \<open>q\<close> starts at \<open>q\<close> times the bin length.\<close>

definition bin_edge :: "DtNano \<Rightarrow> nat \<Rightarrow> TsNano" where
  "bin_edge L q = of_nat q * L"

definition bin_no_of :: "DtNano \<Rightarrow> TsNano \<Rightarrow> nat" where
  "bin_no_of L t = unat t div unat L"

definition grid_fits :: "DtNano \<Rightarrow> nat \<Rightarrow> bool" where
  "grid_fits L q \<longleftrightarrow> 0 < L \<and> Suc q * unat L < 2 ^ 64"

lemma grid_fits_mono: "grid_fits L q \<Longrightarrow> k \<le> q \<Longrightarrow> grid_fits L k"
  unfolding grid_fits_def by (meson Suc_le_mono le_less_trans mult_le_mono1)

lemma edge_Suc: "bin_edge L q + L = bin_edge L (Suc q)"
  by (simp add: bin_edge_def algebra_simps)

lemma unat_edge:
  assumes "q * unat L < 2 ^ 64"
  shows "unat (bin_edge L q) = q * unat L"
proof -
  have "bin_edge L q = of_nat (q * unat L)" by (simp add: bin_edge_def)
  then show ?thesis using assms by (simp only: unat_of_nat take_bit_eq_mod) simp
qed

lemma fits_edge:
  assumes "grid_fits L q"
  shows "unat (bin_edge L q) = q * unat L" "unat (bin_edge L (Suc q)) = Suc q * unat L" "0 < unat L"
proof -
  show "unat (bin_edge L (Suc q)) = Suc q * unat L" "0 < unat L"
    using assms by (simp_all add: grid_fits_def unat_edge del: mult_Suc) (simp add: word_less_nat_alt)
  show "unat (bin_edge L q) = q * unat L"
    using assms by (intro unat_edge) (simp add: grid_fits_def)
qed

lemma edge_le_iff:
  assumes "grid_fits L q"
  shows "bin_edge L q \<le> t \<longleftrightarrow> q \<le> bin_no_of L t" "bin_edge L (Suc q) \<le> t \<longleftrightarrow> Suc q \<le> bin_no_of L t"
  using fits_edge [OF assms] unfolding word_le_nat_alt bin_no_of_def
  by (simp_all only: less_eq_div_iff_mult_less_eq)

lemma less_edge_iff:
  assumes "grid_fits L q"
  shows "t < bin_edge L q \<longleftrightarrow> bin_no_of L t < q" "t < bin_edge L (Suc q) \<longleftrightarrow> bin_no_of L t \<le> q"
  using edge_le_iff [OF assms, of t] by (auto simp flip: not_le)

lemma edge_mono: "grid_fits L q \<Longrightarrow> k \<le> q \<Longrightarrow> bin_edge L k \<le> bin_edge L q"
  using fits_edge [of L q] fits_edge [OF grid_fits_mono, of L q k] by (simp add: word_le_nat_alt)

lemma edge_less: "grid_fits L q \<Longrightarrow> bin_edge L q < bin_edge L (Suc q)"
  using fits_edge [of L q] by (simp add: word_less_nat_alt)

lemma no_of_edge: "grid_fits L q \<Longrightarrow> bin_no_of L (bin_edge L q) = q" "grid_fits L q \<Longrightarrow> bin_no_of L (bin_edge L (Suc q)) = Suc q"
  using fits_edge [of L q] by (simp_all add: bin_no_of_def del: mult_Suc)

lemma floor_edge:
  assumes "0 < L"
  shows "u64_div t L = Some (t div L)" "t div L * L = bin_edge L (bin_no_of L t)"
proof -
  show "u64_div t L = Some (t div L)" using assms by (intro u64_div_nonzero) auto
  have "t div L = of_nat (bin_no_of L t)" by (simp add: bin_no_of_def word_arith_nat_div)
  then show "t div L * L = bin_edge L (bin_no_of L t)" by (simp add: bin_edge_def)
qed

section \<open>The output\<close>

definition cb_of :: "('v, 'o) bin list \<Rightarrow> ('v, 'o) ContainerBins" where
  "cb_of bs = \<lparr>cb_ts1s = map (\<lambda>(a, b, c, d, e, f, g, h). a) bs, cb_ts2s = map (\<lambda>(a, b, c, d, e, f, g, h). b) bs,
     cb_cnts = map (\<lambda>(a, b, c, d, e, f, g, h). c) bs, cb_mins = map (\<lambda>(a, b, c, d, e, f, g, h). d) bs,
     cb_maxs = map (\<lambda>(a, b, c, d, e, f, g, h). e) bs, cb_aggs = map (\<lambda>(a, b, c, d, e, f, g, h). f) bs,
     cb_lsts = map (\<lambda>(a, b, c, d, e, f, g, h). g) bs, cb_fnls = map (\<lambda>(a, b, c, d, e, f, g, h). h) bs\<rparr>"

lemma cb_of [simp]: "cb_of [] = cb_new" "cb_len (cb_of bs) = length bs"
  "cb_push_back a b c d e f g h (cb_of bs) = cb_of (bs @ [(a, b, c, d, e, f, g, h)])"
  by (simp_all add: cb_of_def cb_new_def cb_len_def cb_push_back_def)

lemma bins_of_cb [simp]: "cb_bins (cb_of bs) = bs"
  by (induction bs) (auto simp: cb_of_def cb_bins_def)

section \<open>Which bins are put out\<close>

text \<open>
  The bins put out start with that of the first event, or the first of the range, and are those with
  events, or all if empty ones are asked for.
\<close>

definition first_bin :: "nat \<Rightarrow> DtNano \<Rightarrow> 'v event list \<Rightarrow> nat" where
  "first_bin off L es = max off (bin_no_of L (fst (hd es)))"

definition cur_bin :: "nat \<Rightarrow> DtNano \<Rightarrow> 'v event list \<Rightarrow> nat" where
  "cur_bin off L es = (if es = [] then off else max off (bin_no_of L (fst (last es))))"

definition out_bins :: "bool \<Rightarrow> nat \<Rightarrow> DtNano \<Rightarrow> 'v event list \<Rightarrow> nat \<Rightarrow> nat list" where
  "out_bins cz off L es q =
     (if es = [] then []
      else filter (\<lambda>k. cz \<or> k = first_bin off L es \<or> k \<in> bin_no_of L ` fst ` set es) [first_bin off L es..<q])"

definition next_bins :: "bool \<Rightarrow> nat \<Rightarrow> nat \<Rightarrow> nat list" where
  "next_bins cz q q' = (if cz then [q..<q'] else [q])"

lemma bin_no_mono: "t \<le> t' \<Longrightarrow> bin_no_of L t \<le> bin_no_of L t'"
  by (simp add: bin_no_of_def word_le_nat_alt div_le_mono)

lemma bin_no_last: "in_order es \<Longrightarrow> x \<in> set es \<Longrightarrow> bin_no_of L (fst x) \<le> bin_no_of L (fst (last es))"
  by (intro bin_no_mono) (cases es rule: rev_cases; auto simp: sorted_append)

lemma bin_no_hd: "in_order es \<Longrightarrow> x \<in> set es \<Longrightarrow> bin_no_of L (fst (hd es)) \<le> bin_no_of L (fst x)"
  by (intro bin_no_mono) (cases es; auto)

lemma first_le_cur: "in_order es \<Longrightarrow> es \<noteq> [] \<Longrightarrow> first_bin off L es \<le> cur_bin off L es"
  using bin_no_last [of es "hd es" L] by (simp add: first_bin_def cur_bin_def max.coboundedI2)

lemma length_out_bins: "length (out_bins cz off L es q) \<le> q - off"
  unfolding out_bins_def by (auto intro: le_trans [OF length_filter_le] simp: first_bin_def)

lemma out_bins_append:
  assumes "es \<noteq> []" and "\<forall>x \<in> set xs. q \<le> bin_no_of L (fst x)"
  shows "out_bins cz off L (es @ xs) q = out_bins cz off L es q"
  using assms by (auto simp: out_bins_def first_bin_def intro!: filter_cong)

lemma out_bins_start:
  assumes "q \<le> max off (bin_no_of L (fst x))"
  shows "out_bins cz off L (x # xs) q = []"
  using assms by (simp add: out_bins_def first_bin_def)

lemma out_bins_next:
  assumes "in_order es" and "es \<noteq> []" and "cur_bin off L es < q'"
  shows "out_bins cz off L es q' = out_bins cz off L es (cur_bin off L es) @ next_bins cz (cur_bin off L es) q'"
proof -
  let ?q = "cur_bin off L es" and ?P = "\<lambda>k. cz \<or> k = first_bin off L es \<or> k \<in> bin_no_of L ` fst ` set es"
  have split: "[first_bin off L es..<q'] = [first_bin off L es..<?q] @ [?q..<q']"
    using first_le_cur [OF assms(1,2)] assms(3) by (metis less_imp_le upt_add_eq_append le_Suc_ex)
  have q: "?P ?q"
  proof (cases "off \<le> bin_no_of L (fst (last es))")
    case True
    then show ?thesis using assms(2) by (auto simp: cur_bin_def max_def intro!: image_eqI [of _ _ "last es"] image_eqI)
  next
    case False
    then have "bin_no_of L (fst (hd es)) \<le> off" using bin_no_last [OF assms(1) hd_in_set [OF assms(2)], of L] by simp
    then show ?thesis using False assms(2) by (simp add: cur_bin_def first_bin_def)
  qed
  have "filter ?P [?q..<q'] = next_bins cz ?q q'"
  proof (cases cz)
    case False
    have "\<not> ?P k" if "k \<in> set [Suc ?q..<q']" for k
    proof -
      have k: "?q < k" using that by simp
      have "bin_no_of L (fst x) < k" if "x \<in> set es" for x
        using bin_no_last [OF assms(1) that, of L] k assms(2) by (simp add: cur_bin_def)
      then show ?thesis using False k first_le_cur [OF assms(1,2), of off L] by fastforce
    qed
    then have "filter ?P [Suc ?q..<q'] = []" by (simp only: filter_empty_conv) blast
    moreover have "[?q..<q'] = ?q # [Suc ?q..<q']" using assms(3) by (rule upt_conv_Cons)
    ultimately show ?thesis using q False by (simp add: next_bins_def)
  qed (simp add: next_bins_def)
  then show ?thesis using assms(2) unfolding out_bins_def split by simp
qed

section \<open>Ingesting events into a bin\<close>

locale tw_agg =
  fixes vo :: "('v, 'a, 'f, 'o) ValueOps"
    and ing :: "DtNano \<Rightarrow> DtNano \<Rightarrow> 'v \<Rightarrow> 'a \<Rightarrow> 'a"
  assumes ingest: "ag_ingest (vo_agg vo) dt bl v a = Some (ing dt bl v a)"
    and reset: "ag_reset (vo_agg vo) a = ag_new (vo_agg vo)"
    and result: "snd (ag_result (vo_agg vo) f a) = ag_new (vo_agg vo)"
begin

text \<open>
  The bin \<open>[b, b + bl)\<close> after the events \<open>es\<close>, filled with the last value up to \<open>fu\<close>.
\<close>

definition b_rep :: "TsNano \<Rightarrow> DtNano \<Rightarrow> TsNano \<Rightarrow> 'v event list \<Rightarrow> 'a InnerB" where
  "b_rep b bl fu es =
     \<lparr>ib_cnt = of_nat (length (from_ts b es)), ib_active_beg = b, ib_active_end = b + bl, ib_active_len = bl,
      ib_filled_until = fu,
      ib_filled_width = seg_width (bin_segs b es) + (fu - bin_fu b es),
      ib_agg = (let a = agg_segs ing bl (bin_segs b es) (ag_new (vo_agg vo)) in
        if fu = bin_fu b es then a else ing (fu - bin_fu b es) bl (snd (last es)) a)\<rparr>"

definition c_rep :: "TsNano \<Rightarrow> DtNano \<Rightarrow> TsNano \<Rightarrow> 'v event list \<Rightarrow> 'v ContainerEventsTakeUpTo \<Rightarrow> ('v, 'a) TwCtx" where
  "c_rep b bl fu es evs = \<lparr>cx_b = b_rep b bl fu es, cx_evs = evs, cx_lst = last es, cx_mm = bin_mm vo b es\<rparr>"

text \<open>
  What is filled ends at the last event, or at the next one, if a value in force for no time adds nothing.
\<close>

definition fu_ok :: "TsNano \<Rightarrow> DtNano \<Rightarrow> TsNano \<Rightarrow> 'v event list \<Rightarrow> 'v event list \<Rightarrow> bool" where
  "fu_ok b bl fu es xs \<longleftrightarrow> fu = bin_fu b es \<or> xs \<noteq> [] \<and> fu = fst (hd xs) \<and> (\<forall>v a. ing 0 bl v a = a)"

text \<open>An event after the beginning of the bin, and one at it.\<close>

lemma agg_gt:
  assumes "in_order es" and "es \<noteq> []" and "b < fst x" and "fst x < b + bl" and "fu_ok b bl fu es (x # xs)"
  shows "ingest_event_with_lst_gt_range_beg_agg vo x (last es) (b_rep b bl fu es) =
    Some ((b_rep b bl (fst x) (es @ [x]))\<lparr>ib_cnt := of_nat (length (from_ts b es))\<rparr>)"
  using assms(3-5)
  by (auto simp: ingest_event_with_lst_gt_range_beg_agg_def b_rep_def ingest segs_of_snoc [OF assms(1,2)] fu_snoc
      fu_ok_def TsNano_delta_def DtNano_add_def Let_def algebra_simps)

lemma event_gt:
  assumes "in_order es" and "es \<noteq> []" and "b < fst x" and "fst x < b + bl" and "fu_ok b bl fu es (x # xs)"
  obtains c where "ingest_event_with_lst_gt_range_beg vo x (c_rep b bl fu es evs) = Some c"
    "count_event c = c_rep b bl (fst x) (es @ [x]) evs"
proof
  let ?c = "\<lparr>cx_b = (b_rep b bl (fst x) (es @ [x]))\<lparr>ib_cnt := of_nat (length (from_ts b es))\<rparr>, cx_evs = evs, cx_lst = x,
    cx_mm = apply_min_max vo x (bin_mm vo b es)\<rparr>"
  show "ingest_event_with_lst_gt_range_beg vo x (c_rep b bl fu es evs) = Some ?c"
    by (simp add: ingest_event_with_lst_gt_range_beg_def ingest_event_with_lst_gt_range_beg_2_def c_rep_def
        agg_gt [OF assms] Let_def)
  show "count_event ?c = c_rep b bl (fst x) (es @ [x]) evs"
    using assms(2,3) by (auto simp: count_event_def c_rep_def b_rep_def mm_snoc mm_step_def add.commute)
qed

lemma event_eq:
  assumes "in_order es" and "es \<noteq> []" and "fst x = b" and "fu_ok b bl fu es (x # xs)" and "fst (last es) \<le> b"
  shows "count_event (ingest_event_with_lst_eq_range_beg x (c_rep b bl fu es evs)) = c_rep b bl (fst x) (es @ [x]) evs"
proof -
  have fu: "bin_fu b es = b"
  proof (cases "from_ts b es = []")
    case False
    then show ?thesis using last_in_bin [OF assms(1) False] assms(5) by (simp add: bin_fu_def)
  qed (simp add: bin_fu_def)
  then have "fu = b" using assms(3,4) by (auto simp: fu_ok_def)
  then show ?thesis using fu assms(1,2,3)
    by (simp add: count_event_def ingest_event_with_lst_eq_range_beg_def apply_min_max_range_beg_def c_rep_def b_rep_def
        mm_snoc mm_step_def fu_snoc segs_of_snoc add.commute)
qed

text \<open>The loops take all events.\<close>

definition tu_done :: "'v ContainerEventsTakeUpTo \<Rightarrow> 'v ContainerEventsTakeUpTo \<Rightarrow> bool" where
  "tu_done t t' \<longleftrightarrow> tu_ok t' \<and> tu_evs t' = tu_evs t \<and> tu_end t' = tu_end t \<and> tu_rest t' = []"

definition fu_end :: "TsNano \<Rightarrow> 'v event list \<Rightarrow> TsNano" where
  "fu_end fu xs = (if xs = [] then fu else fst (last xs))"

lemma tu_done_step: "tu_done (t\<lparr>tu_pos := n\<rparr>) t' \<longleftrightarrow> tu_done t t'"
  by (simp add: tu_done_def)

lemma fu_ok_snoc: "b \<le> fst x \<Longrightarrow> fu_ok b bl (fst x) (es @ [x]) xs"
  by (simp add: fu_ok_def fu_snoc)

lemma c_rep_sel [simp]:
  "cx_evs (c_rep b bl fu es evs) = evs" "ib_active_beg (cx_b (c_rep b bl fu es evs)) = b"
  "ib_active_end (cx_b (c_rep b bl fu es evs)) = b + bl" "c_rep b bl fu es evs\<lparr>cx_evs := evs'\<rparr> = c_rep b bl fu es evs'"
  by (simp_all add: c_rep_def b_rep_def)

lemma gt_loop:
  assumes "tu_ok evs" and "tu_rest evs = xs" and "in_order (es @ xs)" and "es \<noteq> []"
    and "\<forall>x \<in> set xs. b < fst x \<and> fst x < b + bl" and "fu_ok b bl fu es xs"
  shows "\<exists>evs'. ingest_with_lst_gt_range_beg vo (c_rep b bl fu es evs) =
    Some (Inr (), c_rep b bl (fu_end fu xs) (es @ xs) evs') \<and> tu_done evs evs'"
  using assms
proof (induction xs arbitrary: es fu evs)
  case Nil
  then show ?case
    by (subst ingest_with_lst_gt_range_beg.simps) (auto simp: tu_next_ok(1) fu_end_def tu_done_def)
next
  case (Cons x xs)
  let ?evs = "evs\<lparr>tu_pos := Suc (tu_pos evs)\<rparr>"
  note n = tu_next_ok(2) [OF Cons.prems(1,2), unfolded Suc_eq_plus1 [symmetric]]
  have x: "b < fst x" "fst x < b + bl" "in_order es" using Cons.prems(3,5) by (simp_all add: sorted_append)
  obtain c where c: "ingest_event_with_lst_gt_range_beg vo x (c_rep b bl fu es ?evs) = Some c"
    "count_event c = c_rep b bl (fst x) (es @ [x]) ?evs"
    using event_gt [OF x(3) Cons.prems(4) x(1,2) Cons.prems(6)] .
  have nle: "\<not> fst x \<le> b" "\<not> b + bl \<le> fst x" using x by simp_all
  have "ingest_with_lst_gt_range_beg vo (c_rep b bl fu es evs) =
      ingest_with_lst_gt_range_beg vo (c_rep b bl (fst x) (es @ [x]) ?evs)"
    using n by (subst ingest_with_lst_gt_range_beg.simps) (simp add: c Let_def nle)
  moreover obtain evs' where "ingest_with_lst_gt_range_beg vo (c_rep b bl (fst x) (es @ [x]) ?evs) =
      Some (Inr (), c_rep b bl (fu_end (fst x) xs) ((es @ [x]) @ xs) evs')" "tu_done ?evs evs'"
    using Cons.IH [of ?evs "es @ [x]" "fst x"] n Cons.prems(3,5) x(1) by (auto simp: fu_ok_snoc less_imp_le)
  ultimately show ?case by (auto simp: tu_done_step fu_end_def)
qed

lemma ge_loop:
  assumes "tu_ok evs" and "tu_rest evs = xs" and "in_order (es @ xs)" and "es \<noteq> []"
    and "\<forall>x \<in> set xs. b \<le> fst x \<and> fst x < b + bl" and "fu_ok b bl fu es xs"
  shows "\<exists>evs'. ingest_with_lst_ge_range_beg vo (c_rep b bl fu es evs) =
    Some (Inr (), c_rep b bl (fu_end fu xs) (es @ xs) evs') \<and> tu_done evs evs'"
  using assms
proof (induction xs arbitrary: es fu evs)
  case Nil
  then show ?case using gt_loop [OF Nil.prems(1-4)]
    by (subst ingest_with_lst_ge_range_beg.simps) (simp add: tu_next_ok(1))
next
  case (Cons x xs)
  let ?evs = "evs\<lparr>tu_pos := Suc (tu_pos evs)\<rparr>"
  note n = tu_next_ok(2) [OF Cons.prems(1,2), unfolded Suc_eq_plus1 [symmetric]]
  have x: "b \<le> fst x" "fst x < b + bl" "in_order es" "fst (last es) \<le> fst x"
    using Cons.prems(3-5) by (cases es rule: rev_cases; simp add: sorted_append)+
  show ?case
  proof (cases "fst x = b")
    case True
    note e = event_eq [OF x(3) Cons.prems(4) True Cons.prems(6)]
    have "ingest_with_lst_ge_range_beg vo (c_rep b bl fu es evs) =
        ingest_with_lst_ge_range_beg vo (c_rep b bl (fst x) (es @ [x]) ?evs)"
      using n x True by (subst ingest_with_lst_ge_range_beg.simps) (simp add: e Let_def leD)
    moreover obtain evs' where "ingest_with_lst_ge_range_beg vo (c_rep b bl (fst x) (es @ [x]) ?evs) =
        Some (Inr (), c_rep b bl (fu_end (fst x) xs) ((es @ [x]) @ xs) evs')" "tu_done ?evs evs'"
      using Cons.IH [of ?evs "es @ [x]" "fst x"] n Cons.prems(3,5) x(1) by (auto simp: fu_ok_snoc)
    ultimately show ?thesis by (auto simp: tu_done_step fu_end_def)
  next
    case False
    then have gt: "b < fst x" using x(1) by simp
    obtain c where c: "ingest_event_with_lst_gt_range_beg vo x (c_rep b bl fu es ?evs) = Some c"
      "count_event c = c_rep b bl (fst x) (es @ [x]) ?evs"
      using event_gt [OF x(3) Cons.prems(4) gt x(2) Cons.prems(6)] .
    have "ingest_with_lst_ge_range_beg vo (c_rep b bl fu es evs) =
        ingest_with_lst_gt_range_beg vo (c_rep b bl (fst x) (es @ [x]) ?evs)"
      using n x False by (subst ingest_with_lst_ge_range_beg.simps) (simp add: c Let_def leD)
    moreover have "\<forall>y \<in> set xs. b < fst y \<and> fst y < b + bl"
      using Cons.prems(3,5) gt by (auto simp: sorted_append)
    then obtain evs' where "ingest_with_lst_gt_range_beg vo (c_rep b bl (fst x) (es @ [x]) ?evs) =
        Some (Inr (), c_rep b bl (fu_end (fst x) xs) ((es @ [x]) @ xs) evs')" "tu_done ?evs evs'"
      using gt_loop [of ?evs xs "es @ [x]" b bl "fst x"] n Cons.prems(3) x(1) by (auto simp: fu_ok_snoc)
    ultimately show ?thesis by (auto simp: tu_done_step fu_end_def)
  qed
qed

lemma minmax_all:
  assumes "tu_ok evs" and "tu_rest evs = xs" and "in_order (es @ xs)" and "es \<noteq> []"
    and "\<forall>x \<in> set xs. b \<le> fst x \<and> fst x < b + bl" and "fu_ok b bl fu es xs"
  shows "\<exists>evs'. ingest_with_lst_minmax vo (c_rep b bl fu es evs) =
    Some (Inr (), c_rep b bl (fu_end fu xs) (es @ xs) evs') \<and> tu_done evs evs'"
proof (cases xs)
  case Nil
  then show ?thesis using assms
    by (auto simp: ingest_with_lst_minmax_def tu_first_ok tu_done_def fu_end_def)
next
  case (Cons x ys)
  then have "ingest_with_lst_minmax vo (c_rep b bl fu es evs) = ingest_with_lst_ge_range_beg vo (c_rep b bl fu es evs)"
    using assms by (auto simp: ingest_with_lst_minmax_def tu_first_ok leD)
  then show ?thesis using ge_loop [OF assms] by simp
qed

section \<open>From bin to bin\<close>

definition a_rep :: "DtNano \<Rightarrow> nat \<Rightarrow> TsNano \<Rightarrow> 'v event list \<Rightarrow> ('v, 'a) InnerA" where
  "a_rep L q fu es = \<lparr>ia_inner_b = b_rep (bin_edge L q) L fu es, ia_minmax = Some (bin_mm vo (bin_edge L q) es)\<rparr>"

lemma bin_fu_less:
  assumes "es \<noteq> []" and "\<forall>x \<in> set es. fst x < bin_edge L (Suc q)" and "grid_fits L q"
  shows "bin_fu (bin_edge L q) es < bin_edge L (Suc q)"
  using assms edge_less by (simp add: bin_fu_def)

lemma before_all: "\<forall>x \<in> set es. fst x < b \<Longrightarrow> before_ts b es = es"
  by (simp add: before_ts_def)

lemma fill_rep:
  assumes "bin_fu b es < t" and "t \<le> b + L"
  shows "fill_until vo t (last es) (b_rep b L (bin_fu b es) es) = Some (b_rep b L t es)"
  using assms by (auto simp: fill_until_def b_rep_def ingest TsNano_delta_def DtNano_add_def Let_def)

lemma push_rep:
  assumes "es \<noteq> []" and "\<forall>x \<in> set es. fst x < bin_edge L (Suc q)" and "grid_fits L (Suc q)"
  shows "push_out_and_reset vo (last es) True (a_rep L q (bin_edge L (Suc q)) es, cb_of bs) =
    Some (a_rep L (Suc q) (bin_edge L (Suc q)) es, cb_of (bs @ [bin_of vo ing L es (bin_edge L q)]))"
proof -
  have f: "grid_fits L q" using grid_fits_mono [OF assms(3)] by simp
  have L: "0 < L" using f by (simp add: grid_fits_def)
  note fl = floor_edge [OF L, of "bin_edge L (Suc q)", unfolded no_of_edge [OF assms(3)]]
  have lt: "bin_fu (bin_edge L q) es < bin_edge L (Suc q)" by (rule bin_fu_less [OF assms(1,2) f])
  note fresh = fresh_bin [OF assms(1,2)]
  show ?thesis
    using lt fl no_of_edge(1) [OF assms(3)]
    by (simp add: push_out_and_reset_def a_rep_def b_rep_def reset_01_def Let_def fresh result edge_Suc
        TsNano_add_dt_nano_def bin_of_def bin_all_segs_def before_all [OF assms(2)] case_prod_beta)
qed

lemma a_rep_sel [simp]:
  "ia_inner_b (a_rep L q fu es) = b_rep (bin_edge L q) L fu es"
  "(a_rep L q fu es)\<lparr>ia_inner_b := b_rep (bin_edge L q) L fu' es\<rparr> = a_rep L q fu' es"
  by (simp_all add: a_rep_def)

lemma b_rep_sel [simp]:
  "ib_active_beg (b_rep b L fu es) = b" "ib_active_end (b_rep b L fu es) = b + L" "ib_active_len (b_rep b L fu es) = L"
  "ib_filled_until (b_rep b L fu es) = fu"
  by (simp_all add: b_rep_def)

lemma step_push:
  assumes "es \<noteq> []" and "\<forall>x \<in> set es. fst x < bin_edge L (Suc q)" and "grid_fits L (Suc q)" and "bin_edge L (Suc q) \<le> t"
  shows "cycle_step vo t (last es) (a_rep L q (bin_fu (bin_edge L q) es) es, cb_of bs) =
    Some (a_rep L (Suc q) (bin_edge L (Suc q)) es, cb_of (bs @ [bin_of vo ing L es (bin_edge L q)]))"
proof -
  have "bin_fu (bin_edge L q) es < bin_edge L (Suc q)"
    using bin_fu_less [OF assms(1,2)] grid_fits_mono [OF assms(3)] by simp
  then show ?thesis
    using assms(4) by (simp add: cycle_step_def Let_def fill_rep edge_Suc push_rep [OF assms(1-3)])
qed

lemma step_fill:
  assumes "t < bin_edge L (Suc q)" and "bin_fu (bin_edge L q) es < t"
  shows "cycle_step vo t (last es) (a_rep L q (bin_fu (bin_edge L q) es) es, out) = Some (a_rep L q t es, out)"
  using assms by (auto simp: cycle_step_def Let_def fill_rep edge_Suc)

text \<open>With empty bins asked for, every bin up to the one of \<open>t\<close> is put out, and that one filled to \<open>t\<close>.\<close>

definition out_fits :: "DtNano \<Rightarrow> TsNano \<Rightarrow> nat \<Rightarrow> bool" where
  "out_fits L t n \<longleftrightarrow> n \<le> OUT_LEN_MAX \<or> n = OUT_LEN_MAX + 1 \<and> t = bin_edge L (bin_no_of L t)"

lemma cycle_zero_rep:
  assumes "es \<noteq> []" and "\<forall>x \<in> set es. fst x < bin_edge L (Suc q)" and "grid_fits L (bin_no_of L t)"
    and "q < bin_no_of L t" and "out_fits L t (length bs + (bin_no_of L t - q))" and "i + (bin_no_of L t - q) + 2 < 3 * OUT_LEN_MAX"
  shows "cycle_zero vo t (last es) i (a_rep L q (bin_fu (bin_edge L q) es) es, cb_of bs) =
    Some (a_rep L (bin_no_of L t) t es, cb_of (bs @ map (\<lambda>k. bin_of vo ing L es (bin_edge L k)) [q..<bin_no_of L t]))"
  using assms(2,4-6)
proof (induction "bin_no_of L t - q" arbitrary: q bs i)
  case (Suc m)
  have f: "grid_fits L (Suc q)" using Suc.prems(2) by (intro grid_fits_mono [OF assms(3)]) simp
  then have f0: "grid_fits L q" by (rule grid_fits_mono) simp
  have le: "bin_edge L (Suc q) \<le> t" using Suc.prems(2) by (simp add: edge_le_iff [OF f0])
  have fu: "bin_fu (bin_edge L q) es < t" using bin_fu_less [OF assms(1) Suc.prems(1) f0] le by simp
  let ?s = "(a_rep L (Suc q) (bin_edge L (Suc q)) es, cb_of (bs @ [bin_of vo ing L es (bin_edge L q)]))"
  have one: "cycle_zero vo t (last es) i (a_rep L q (bin_fu (bin_edge L q) es) es, cb_of bs) =
      cycle_zero vo t (last es) (i + 1) ?s"
    using Suc.prems(2-4) fu unfolding out_fits_def
    by (subst cycle_zero.simps) (auto simp: step_push [OF assms(1) Suc.prems(1) f le] Let_def)
  have lt: "\<forall>x \<in> set es. fst x < bin_edge L (Suc (Suc q))" and all: "\<forall>x \<in> set es. fst x < bin_edge L (Suc q)"
    using Suc.prems(1) edge_less [OF f] by (auto intro: less_trans)
  note fresh = fresh_bin [OF assms(1) all]
  have e: "[q..<bin_no_of L t] = q # [Suc q..<bin_no_of L t]" using Suc.prems(2) by (rule upt_conv_Cons)
  show ?case
  proof (cases "Suc q < bin_no_of L t")
    case True
    have "length (bs @ [bin_of vo ing L es (bin_edge L q)]) + (bin_no_of L t - Suc q) = length bs + (bin_no_of L t - q)"
      using True by simp
    then have fits: "out_fits L t (length (bs @ [bin_of vo ing L es (bin_edge L q)]) + (bin_no_of L t - Suc q))"
      using Suc.prems(3) by (simp only:)
    have "cycle_zero vo t (last es) (i + 1) ?s =
        Some (a_rep L (bin_no_of L t) t es,
          cb_of ((bs @ [bin_of vo ing L es (bin_edge L q)]) @ map (\<lambda>k. bin_of vo ing L es (bin_edge L k)) [Suc q..<bin_no_of L t]))"
      using Suc.hyps(1) [of "Suc q" "bs @ [bin_of vo ing L es (bin_edge L q)]" "i + 1"] Suc.hyps(2) Suc.prems(4) lt True fits
      by (simp add: fresh(3))
    then show ?thesis using one e by simp
  next
    case False
    then have q: "bin_no_of L t = Suc q" using Suc.prems(2) by simp
    show ?thesis
    proof (cases "t = bin_edge L (Suc q)")
      case True
      have "cycle_zero vo t (last es) (i + 1) ?s = Some ?s"
        using Suc.prems(3,4) q True by (subst cycle_zero.simps) simp
      then show ?thesis using one e q True by simp
    next
      case ne: False
      then have gt: "bin_edge L (Suc q) < t" using le by simp
      have lt': "t < bin_edge L (Suc (Suc q))" using q by (simp add: less_edge_iff [OF f])
      have s2: "cycle_step vo t (last es) ?s = Some (a_rep L (Suc q) t es, snd ?s)"
        using step_fill [OF lt', of es] gt by (simp add: fresh(3))
      have len: "length bs + 1 \<le> OUT_LEN_MAX" using Suc.prems(3) q gt by (auto simp: out_fits_def)
      have "cycle_zero vo t (last es) (i + 1) ?s = cycle_zero vo t (last es) (i + 2) (a_rep L (Suc q) t es, snd ?s)"
        using len Suc.prems(4) q gt by (subst cycle_zero.simps) (simp add: s2 Let_def)
      also have "\<dots> = Some (a_rep L (Suc q) t es, snd ?s)"
        using len Suc.prems(4) q by (subst cycle_zero.simps) simp
      finally show ?thesis using one e q by simp
    qed
  qed
qed simp

text \<open>The binner after the events \<open>es\<close>, at bin \<open>q\<close>, with the bins \<open>bs\<close> put out.\<close>

definition tw_rep ::
    "BinnedRange \<Rightarrow> bool \<Rightarrow> nat \<Rightarrow> TsNano \<Rightarrow> 'v event list \<Rightarrow> ('v, 'o) bin list \<Rightarrow> ('v, 'a, 'o) BinnedEventsTimeweight" where
  "tw_rep rng cz q fu es bs =
     \<lparr>tw_range = rng, tw_produce_cnt_zero = cz, tw_lst = (if es = [] then None else Some (last es)),
      tw_inner_a =
        (if es = []
         then \<lparr>ia_inner_b = \<lparr>ib_cnt = 0, ib_active_beg = bin_edge (bin_len rng) q, ib_active_end = bin_edge (bin_len rng) (Suc q),
                 ib_active_len = bin_len rng, ib_filled_until = bin_edge (bin_len rng) q, ib_filled_width = 0,
                 ib_agg = ag_new (vo_agg vo)\<rparr>, ia_minmax = None\<rparr>
         else a_rep (bin_len rng) q fu es),
      tw_out = cb_of bs, tw_continue_output = False\<rparr>"

lemma tw_rep_sel [simp]:
  "tw_range (tw_rep rng cz q fu es bs) = rng" "tw_out (tw_rep rng cz q fu es bs) = cb_of bs"
  "tw_produce_cnt_zero (tw_rep rng cz q fu es bs) = cz"
  "tw_lst (tw_rep rng cz q fu es bs) = (if es = [] then None else Some (last es))"
  "tw_continue_output (tw_rep rng cz q fu es bs) = False"
  "ib_active_beg (ia_inner_b (tw_inner_a (tw_rep rng cz q fu es bs))) = bin_edge (bin_len rng) q"
  "ib_active_end (ia_inner_b (tw_inner_a (tw_rep rng cz q fu es bs))) = bin_edge (bin_len rng) (Suc q)"
  "es \<noteq> [] \<Longrightarrow> ib_filled_until (ia_inner_b (tw_inner_a (tw_rep rng cz q fu es bs))) = fu"
  by (simp_all add: tw_rep_def edge_Suc)

text \<open>Going on to the bin of \<open>t\<close>.\<close>

lemma jump_rep:
  assumes "es \<noteq> []" and "\<forall>x \<in> set es. fst x < bin_edge L (Suc q)" and "grid_fits L (Suc q)" and "Suc q \<le> bin_no_of L t"
    and "grid_fits L (bin_no_of L t)"
  shows "jump_to vo t (a_rep L (Suc q) fu es) = Some (a_rep L (bin_no_of L t) (bin_edge L (bin_no_of L t)) es)"
proof -
  have L: "0 < L" using assms(3) by (simp add: grid_fits_def)
  have all: "\<forall>x \<in> set es. fst x < bin_edge L (bin_no_of L t)"
    using assms(2) edge_mono [OF assms(5,4)] by (auto intro: less_le_trans)
  show ?thesis
    using floor_edge [OF L, of t]
    by (simp add: jump_to_def a_rep_def b_rep_def reset Let_def TsNano_add_dt_nano_def
        fresh_bin [OF assms(1,2)] fresh_bin [OF assms(1) all])
qed

lemma cycle_rep:
  assumes "L = bin_len rng" and "\<forall>x \<in> set es. fst x < bin_edge L (Suc q)" and "grid_fits L (bin_no_of L t)"
    and "q < bin_no_of L t" and "in_order es" and "out_fits L t (length bs + (bin_no_of L t - q))"
  shows "\<exists>fu. cycle_01 vo t (tw_rep rng cz q (bin_fu (bin_edge L q) es) es bs) =
      Some (tw_rep rng cz (bin_no_of L t) fu es
        (bs @ (if es = [] then [] else map (\<lambda>k. bin_of vo ing L es (bin_edge L k)) (next_bins cz q (bin_no_of L t))))) \<and>
    (fu = (if cz then t else bin_edge L (bin_no_of L t)))"
proof -
  let ?q = "bin_no_of L t" and ?s = "tw_rep rng cz q (bin_fu (bin_edge L q) es) es bs"
  have f: "grid_fits L (Suc q)" using assms(4) by (intro grid_fits_mono [OF assms(3)]) simp
  then have f0: "grid_fits L q" by (rule grid_fits_mono) simp
  have L: "0 < L" using f by (simp add: grid_fits_def)
  have le: "bin_edge L (Suc q) \<le> t" using assms(4) by (simp add: edge_le_iff [OF f0])
  have beg: "bin_edge L q < t" using edge_less [OF f0] le by simp
  show ?thesis
  proof (cases "es = []")
    case True
    then show ?thesis
      using beg le edge_less [OF f0] floor_edge [OF L, of t] assms(1)
      by (simp add: cycle_01_def tw_rep_def jump_to_def reset Let_def TsNano_add_dt_nano_def edge_Suc)
  next
    case False
    have fu: "bin_fu (bin_edge L q) es < bin_edge L (Suc q)" by (rule bin_fu_less [OF False assms(2) f0])
    have ge: "bin_edge L q \<le> bin_fu (bin_edge L q) es" by (rule bin_fu_ge [OF assms(5)])
    have inn: "tw_inner_a ?s = a_rep L q (bin_fu (bin_edge L q) es) es" using False assms(1) by (simp add: tw_rep_def)
    have pre: "bin_edge L q < t \<and> bin_edge L q \<le> bin_fu (bin_edge L q) es \<and> bin_fu (bin_edge L q) es < t \<and>
        bin_fu (bin_edge L q) es \<le> bin_edge L (Suc q)"
      using beg ge less_le_trans [OF fu le] less_imp_le [OF fu] by blast
    have "0 + (?q - q) + 2 < 3 * OUT_LEN_MAX" using assms(6) by (auto simp: OUT_LEN_MAX_def out_fits_def)
    note z = cycle_zero_rep [OF False assms(2-4) assms(6) this]
    note n = step_push [OF False assms(2) f le, of bs] jump_rep [OF False assms(2) f _ assms(3), of "bin_edge L (Suc q)"]
    show ?thesis
      using pre False assms(4)
      by (cases cz)
        (simp_all add: cycle_01_def inn z n edge_Suc next_bins_def Let_def assms(1) [symmetric],
         simp_all add: tw_rep_def z n assms(1) [symmetric])
  qed
qed

text \<open>Ingesting the events of one bin.\<close>

lemma inner_rep:
  assumes "tw_inner_a s = a_rep L q fu es" and "tu_ok evs" and "tu_rest evs = xs" and "in_order (es @ xs)" and "es \<noteq> []"
    and "\<forall>x \<in> set xs. bin_edge L q \<le> fst x \<and> fst x < bin_edge L (Suc q)" and "fu_ok (bin_edge L q) L fu es xs"
  shows "\<exists>evs'. inner_ingest vo (last es) (s, evs) =
    Some (Inr (), s\<lparr>tw_inner_a := a_rep L q (fu_end fu xs) (es @ xs), tw_lst := Some (last (es @ xs))\<rparr>, evs') \<and> tu_done evs evs'"
proof -
  have xs: "\<forall>x \<in> set xs. bin_edge L q \<le> fst x \<and> fst x < bin_edge L q + L" using assms(6) by (simp add: edge_Suc)
  have c: "\<lparr>cx_b = b_rep b L fu es, cx_evs = evs, cx_lst = last es, cx_mm = bin_mm vo b es\<rparr> = c_rep b L fu es evs" for b
    by (simp add: c_rep_def)
  show ?thesis
    using minmax_all [OF assms(2-5) xs assms(7)] assms(1)
    by (auto simp: inner_ingest_def ingest_with_lst_def with_minmax_def a_rep_def c) (auto simp: c_rep_def)
qed

lemma fu_end_bin_fu:
  assumes "\<forall>x \<in> set xs. b \<le> fst x"
  shows "fu_end (bin_fu b es) xs = bin_fu b (es @ xs)"
  using assms by (cases xs rule: rev_cases) (simp_all add: fu_end_def bin_fu_def)

lemma first_rep:
  assumes "L = bin_len rng" and "fst x < bin_edge L (Suc q)"
  shows "ingest_event_without_lst x (tw_rep rng cz q fu [] bs) = (Inr (), tw_rep rng cz q (bin_fu (bin_edge L q) [x]) [x] bs)"
proof (cases "fst x < bin_edge L q")
  case True
  then have "\<forall>y \<in> set [x]. fst y < bin_edge L q" by simp
  note fresh = fresh_bin [OF _ this, simplified]
  show ?thesis using True
    by (simp add: ingest_event_without_lst_def tw_rep_def init_minmax_def a_rep_def b_rep_def fresh edge_Suc
        assms(1) [symmetric])
next
  case False
  then have ge: "bin_edge L q \<le> fst x" by simp
  show ?thesis using False assms(2) first_event [OF ge, of vo] ge
    by (simp add: ingest_event_without_lst_def tw_rep_def init_minmax_def on_b_def a_rep_def b_rep_def edge_Suc Let_def
        not_le [symmetric] assms(1) [symmetric])
qed

lemma ordered_rep:
  assumes L: "L = bin_len rng" and evs: "tu_ok evs" "tu_rest evs = x # xs" and ord: "in_order (es @ x # xs)"
    and x: "fst x < bin_edge L (Suc q)" "es \<noteq> [] \<Longrightarrow> bin_edge L q \<le> fst x"
    and xs: "\<forall>y \<in> set xs. bin_edge L q \<le> fst y \<and> fst y < bin_edge L (Suc q)"
    and fu: "es \<noteq> [] \<Longrightarrow> fu_ok (bin_edge L q) L fu es (x # xs)"
  shows "\<exists>evs'. ingest_ordered vo (tw_rep rng cz q fu es bs, evs) =
    Some (Inr (), tw_rep rng cz q (bin_fu (bin_edge L q) (es @ x # xs)) (es @ x # xs) bs, evs') \<and> tu_done evs evs'"
proof (cases "es = []")
  case False
  have inn: "tw_inner_a (tw_rep rng cz q fu es bs) = a_rep L q fu es" using False L by (simp add: tw_rep_def)
  have all: "\<forall>y \<in> set (x # xs). bin_edge L q \<le> fst y \<and> fst y < bin_edge L (Suc q)" using x xs False by simp
  have "fu_end fu (x # xs) = bin_fu (bin_edge L q) (es @ x # xs)"
    using fu_end_bin_fu [of "x # xs" "bin_edge L q" es] all by (simp add: fu_end_def)
  then show ?thesis
    using inner_rep [OF inn evs ord False all fu [OF False]] False L by (auto simp: ingest_ordered_def) (auto simp: tw_rep_def)
next
  case True
  let ?evs = "evs\<lparr>tu_pos := Suc (tu_pos evs)\<rparr>"
  note n = tu_next_ok(2) [OF evs, unfolded Suc_eq_plus1 [symmetric]]
  let ?s = "tw_rep rng cz q (bin_fu (bin_edge L q) [x]) [x] bs"
  have inn: "tw_inner_a ?s = a_rep L q (bin_fu (bin_edge L q) [x]) [x]" using L by (simp add: tw_rep_def)
  have "\<exists>evs'. inner_ingest vo (last [x]) (?s, ?evs) =
      Some (Inr (), ?s\<lparr>tw_inner_a := a_rep L q (fu_end (bin_fu (bin_edge L q) [x]) xs) ([x] @ xs), tw_lst := Some (last ([x] @ xs))\<rparr>, evs') \<and>
      tu_done ?evs evs'"
    using n ord True xs by (intro inner_rep [OF inn]) (auto simp: fu_ok_def)
  then obtain evs' where i: "inner_ingest vo x (?s, ?evs) =
      Some (Inr (), ?s\<lparr>tw_inner_a := a_rep L q (fu_end (bin_fu (bin_edge L q) [x]) xs) ([x] @ xs), tw_lst := Some (last ([x] @ xs))\<rparr>, evs')"
    "tu_done ?evs evs'" by auto
  have f: "fu_end (bin_fu (bin_edge L q) [x]) xs = bin_fu (bin_edge L q) (x # xs)"
    using fu_end_bin_fu [of xs "bin_edge L q" "[x]"] xs by simp
  have "ingest_ordered vo (tw_rep rng cz q fu es bs, evs) = inner_ingest vo x (?s, ?evs)"
    using True x(1) n L
    by (simp add: ingest_ordered_def ingest_without_lst_def first_rep [OF L x(1)]) (simp add: tw_rep_def)
  also have "\<dots> = Some (Inr (), tw_rep rng cz q (bin_fu (bin_edge L q) (x # xs)) (x # xs) bs, evs')"
    unfolding i(1) f using L by (simp add: tw_rep_def)
  finally show ?thesis using i(2) True by (auto simp: tu_done_step)
qed

section \<open>The whole input\<close>

lemma bin_of_append:
  assumes "\<forall>x \<in> set xs. b + L \<le> fst x"
  shows "bin_of vo ing L (es @ xs) b = bin_of vo ing L es b"
proof -
  have "before_ts (b + L) xs = []" using assms by (auto simp: before_ts_def filter_empty_conv)
  then show ?thesis by (simp add: bin_of_def bin_all_segs_def)
qed

definition bins_to :: "bool \<Rightarrow> nat \<Rightarrow> DtNano \<Rightarrow> 'v event list \<Rightarrow> nat \<Rightarrow> ('v, 'o) bin list" where
  "bins_to cz off L es q = map (\<lambda>k. bin_of vo ing L es (bin_edge L k)) (out_bins cz off L es q)"

text \<open>The binner between two events.\<close>

definition tw_at :: "BinnedRange \<Rightarrow> bool \<Rightarrow> 'v event list \<Rightarrow> ('v, 'a, 'o) BinnedEventsTimeweight" where
  "tw_at rng cz es =
     (let L = bin_len rng; off = unat (bin_off rng); q = cur_bin off L es in
      tw_rep rng cz q (bin_fu (bin_edge L q) es) es (bins_to cz off L es q))"

lemma tw_at_range: "tw_range (tw_at rng cz es) = rng"
  by (simp add: tw_at_def Let_def)

lemma bins_to_append:
  assumes "grid_fits L q" and "es \<noteq> []" and "\<forall>x \<in> set xs. q \<le> bin_no_of L (fst x)"
  shows "bins_to cz off L (es @ xs) q = bins_to cz off L es q"
proof -
  have "bin_of vo ing L (es @ xs) (bin_edge L k) = bin_of vo ing L es (bin_edge L k)" if "k \<in> set (out_bins cz off L es q)" for k
  proof (rule bin_of_append)
    have "k < q" using that by (simp add: out_bins_def split: if_splits)
    then have k: "Suc k \<le> q" by simp
    then have "grid_fits L k" by (intro grid_fits_mono [OF assms(1)]) simp
    then show "\<forall>x \<in> set xs. bin_edge L k + L \<le> fst x"
      using assms(3) k by (auto simp: edge_Suc edge_le_iff)
  qed
  then show ?thesis by (simp add: bins_to_def out_bins_append [OF assms(2,3)])
qed

text \<open>Before the events of the next bin, the binner goes on to it.\<close>

definition to_bin_of ::
    "TsNano \<Rightarrow> ('v, 'a, 'o) BinnedEventsTimeweight \<Rightarrow> ('v, 'a, 'o) BinnedEventsTimeweight panics" where
  "to_bin_of t s =
     (let b = ia_inner_b (tw_inner_a s) in
      if t \<ge> ib_active_end b
      then if ib_filled_until b < ib_active_end b then cycle_01 vo t s else None
      else Some s)"

lemma all_before_next:
  assumes "in_order es" and "grid_fits L (cur_bin off L es)"
  shows "\<forall>x \<in> set es. fst x < bin_edge L (Suc (cur_bin off L es))"
proof
  fix x assume x: "x \<in> set es"
  then have "bin_no_of L (fst x) \<le> cur_bin off L es"
    using bin_no_last [OF assms(1) x, of L] by (auto simp: cur_bin_def)
  then show "fst x < bin_edge L (Suc (cur_bin off L es))" by (simp add: less_edge_iff(2) [OF assms(2)])
qed

lemma cur_mono:
  assumes "in_order (es @ x # xs)"
  shows "cur_bin off L es \<le> cur_bin off L (es @ [x])"
proof (cases "es = []")
  case False
  then have "fst (last es) \<le> fst x" using assms by (simp add: sorted_append)
  then show ?thesis using False by (simp add: cur_bin_def max.coboundedI2 bin_no_mono)
qed (simp add: cur_bin_def)

lemma to_bin_rep:
  assumes ord: "in_order (es @ x # xs)" and cur: "off = unat (bin_off rng)" "L = bin_len rng" "q' = cur_bin off L (es @ [x])"
    and fits: "grid_fits L q'" and len: "q' - off \<le> OUT_LEN_MAX" and zero: "cz \<Longrightarrow> \<forall>v a. ing 0 L v a = a"
  obtains fu where "to_bin_of (fst x) (tw_at rng cz es) = Some (tw_rep rng cz q' fu es (bins_to cz off L es q'))"
    "es \<noteq> [] \<longrightarrow> fu_ok (bin_edge L q') L fu es (x # xs)"
proof -
  let ?q = "cur_bin off L es"
  have oes: "in_order es" using ord by (simp add: sorted_append)
  have le: "?q \<le> q'" unfolding cur(3) by (rule cur_mono [OF ord])
  have f: "grid_fits L ?q" by (rule grid_fits_mono [OF fits le])
  have off: "off \<le> ?q" by (simp add: cur_bin_def)
  note all = all_before_next [OF oes f]
  have at: "tw_at rng cz es = tw_rep rng cz ?q (bin_fu (bin_edge L ?q) es) es (bins_to cz off L es ?q)"
    by (simp add: tw_at_def Let_def cur(1,2))
  have sel: "ib_active_end (ia_inner_b (tw_inner_a (tw_at rng cz es))) = bin_edge L (Suc ?q)"
    by (simp add: at cur(2))
  have filled: "ib_filled_until (ia_inner_b (tw_inner_a (tw_at rng cz es))) < bin_edge L (Suc ?q)"
  proof (cases "es = []")
    case True
    then show ?thesis using edge_less [OF f] unfolding at by (simp add: tw_rep_def cur(2) [symmetric])
  next
    case False
    then show ?thesis using bin_fu_less [OF False all f] by (simp add: at)
  qed
  show thesis
  proof (cases "?q < q'")
    case False
    then have q: "q' = ?q" using le by simp
    have "bin_no_of L (fst x) \<le> ?q" using q cur(3) by (simp add: cur_bin_def)
    then have "\<not> bin_edge L (Suc ?q) \<le> fst x" by (simp add: edge_le_iff [OF f])
    then have "to_bin_of (fst x) (tw_at rng cz es) = Some (tw_at rng cz es)" by (simp add: to_bin_of_def sel Let_def)
    then have "to_bin_of (fst x) (tw_at rng cz es) = Some (tw_rep rng cz q' (bin_fu (bin_edge L ?q) es) es (bins_to cz off L es q'))"
      unfolding q by (simp only: at [symmetric])
    then show thesis unfolding q by (rule that [unfolded q]) (simp add: fu_ok_def)
  next
    case True
    then have q': "q' = bin_no_of L (fst x)" using off cur(3) by (auto simp: cur_bin_def max_def split: if_splits)
    have "bin_edge L (Suc ?q) \<le> fst x" using True q' by (simp add: edge_le_iff [OF f])
    then have cyc: "to_bin_of (fst x) (tw_at rng cz es) = cycle_01 vo (fst x) (tw_at rng cz es)"
      using filled by (simp add: to_bin_of_def sel Let_def)
    have "length (bins_to cz off L es ?q) + (bin_no_of L (fst x) - ?q) \<le> OUT_LEN_MAX"
      using length_out_bins [of cz off L es ?q] len off True q' by (simp add: bins_to_def)
    then have "out_fits L (fst x) (length (bins_to cz off L es ?q) + (bin_no_of L (fst x) - ?q))"
      by (simp add: out_fits_def)
    from cycle_rep [OF cur(2) all _ _ oes this] fits True q' obtain fu where
      c: "cycle_01 vo (fst x) (tw_at rng cz es) = Some (tw_rep rng cz q' fu es
        (bins_to cz off L es ?q @ (if es = [] then [] else map (\<lambda>k. bin_of vo ing L es (bin_edge L k)) (next_bins cz ?q q'))))"
      and fu: "fu = (if cz then fst x else bin_edge L q')"
      unfolding at by auto
    have "bins_to cz off L es ?q @ (if es = [] then [] else map (\<lambda>k. bin_of vo ing L es (bin_edge L k)) (next_bins cz ?q q')) =
        bins_to cz off L es q'"
      using out_bins_next [OF oes _ True, of cz] by (auto simp: bins_to_def out_bins_def)
    then have "to_bin_of (fst x) (tw_at rng cz es) = Some (tw_rep rng cz q' fu es (bins_to cz off L es q'))"
      using cyc c by simp
    moreover have "fu_ok (bin_edge L q') L fu es (x # xs)" if "es \<noteq> []"
    proof -
      have "\<forall>y \<in> set es. fst y < bin_edge L q'"
        using all edge_mono [OF fits, of "Suc ?q"] True by (auto intro: less_le_trans)
      then show ?thesis using fresh_bin(3) [OF that] fu zero by (simp add: fu_ok_def)
    qed
    ultimately show thesis by (intro that impI)
  qed
qed

text \<open>The events of a bin are taken, and the loop ends with all of them taken.\<close>

lemma take_rep:
  assumes ord: "in_order (es @ x # ys)" and cur: "off = unat (bin_off rng)" "L = bin_len rng" "q = cur_bin off L (es @ [x])"
    and fits: "grid_fits L q" and evs: "tu_ok evs" "tu_rest evs = x # ys"
    and ys: "\<forall>y \<in> set ys. off \<le> bin_no_of L (fst y) \<and> bin_no_of L (fst y) \<le> q"
    and x: "es \<noteq> [] \<Longrightarrow> off \<le> bin_no_of L (fst x)"
    and fu: "es \<noteq> [] \<Longrightarrow> fu_ok (bin_edge L q) L fu es (x # ys)"
  shows "\<exists>evs'. ingest_ordered vo (tw_rep rng cz q fu es (bins_to cz off L es q), evs) = Some (Inr (), tw_at rng cz (es @ x # ys), evs') \<and>
    tu_done evs evs'"
proof -
  have ge: "q \<le> bin_no_of L (fst y)" if "y \<in> set ys" for y
  proof -
    have "bin_no_of L (fst x) \<le> bin_no_of L (fst y)" using ord that by (intro bin_no_mono) (simp add: sorted_append)
    then show ?thesis using ys that cur(3) by (simp add: cur_bin_def)
  qed
  have eq: "bin_no_of L (fst y) = q" if "y \<in> set ys" for y using ge [OF that] ys that by (simp add: antisym)
  have xq: "bin_no_of L (fst x) \<le> q" "es \<noteq> [] \<Longrightarrow> q = bin_no_of L (fst x)"
    using cur(3) x by (simp_all add: cur_bin_def)
  have xl: "fst x < bin_edge L (Suc q)" using xq(1) by (simp add: less_edge_iff(2) [OF fits])
  have xg: "bin_edge L q \<le> fst x" if "es \<noteq> []" using xq(2) [OF that] edge_le_iff(1) [OF fits, of "fst x"] by simp
  have yl: "\<forall>y \<in> set ys. bin_edge L q \<le> fst y \<and> fst y < bin_edge L (Suc q)"
    using eq by (simp add: edge_le_iff(1) [OF fits] less_edge_iff(2) [OF fits])
  have curq: "cur_bin off L (es @ x # ys) = q"
    using cur(3) eq ys by (cases ys rule: rev_cases) (auto simp: cur_bin_def max_def)
  have "bins_to cz off L (es @ x # ys) q = bins_to cz off L es q"
  proof (cases "es = []")
    case True
    then have "q \<le> max off (bin_no_of L (fst x))" using cur(3) by (simp add: cur_bin_def)
    then show ?thesis using True by (simp add: bins_to_def out_bins_start) (simp add: out_bins_def)
  next
    case False
    then show ?thesis using eq xq(2) by (intro bins_to_append [OF fits]) auto
  qed
  then show ?thesis
    using ordered_rep [OF cur(2) evs ord xl xg yl fu, of cz "bins_to cz off L es q"] curq
    by (simp add: tw_at_def Let_def cur(1,2))
qed

lemma extend_done:
  assumes "tu_done t1 t2"
  shows "tu_ok (extend_to_all t2) \<and> tu_evs (extend_to_all t2) = tu_evs t1 \<and>
    tu_end (extend_to_all t2) = length (ce_tss (tu_evs t1)) \<and>
    tu_rest (extend_to_all t2) = drop (tu_end t1) (ce_iter_zip (tu_evs t1))"
proof -
  have t2: "tu_ok t2" "tu_evs t2 = tu_evs t1" "tu_end t2 = tu_end t1" "tu_rest t2 = []"
    using assms by (simp_all add: tu_done_def)
  then have inv: "ce_inv (tu_evs t1)" and le: "tu_pos t2 \<le> tu_end t1" "tu_end t1 \<le> length (ce_tss (tu_evs t1))"
    by (simp_all add: tu_ok_def)
  have "length (tu_rest t2) = tu_end t1 - tu_pos t2" using t2 le inv by (simp add: tu_rest_def)
  then have "tu_pos t2 = tu_end t1" using le t2(4) by simp
  then show ?thesis using t2 inv le by (simp add: tu_ok_def tu_rest_def extend_to_all_def ce_len_def)
qed

lemma loop_rep:
  assumes cur: "off = unat (bin_off rng)" "L = bin_len rng" and fits: "grid_fits L Q" "nano_end rng = bin_edge L Q"
    and len: "Q - off \<le> OUT_LEN_MAX + 1" "off < Q" and zero: "cz \<Longrightarrow> \<forall>v a. ing 0 L v a = a"
  assumes evs: "tu_ok evs" "tu_end evs = length (ce_tss (tu_evs evs))" "in_order (ce_iter_zip (tu_evs evs))"
    and ord: "in_order (es @ tu_rest evs)" and range: "\<forall>x \<in> set (tu_rest evs). fst x < nano_end rng"
    and one: "\<forall>x \<in> set (tl (es @ tu_rest evs)). off \<le> bin_no_of L (fst x)"
  shows "ingest_loop vo n (tw_at rng cz es, evs) = Some (Inr ConsumedAll, tw_at rng cz (es @ tu_rest evs))"
  using evs ord range one
proof (induction "length (tu_rest evs)" arbitrary: es evs n rule: less_induct)
  case less
  note evs = less.prems(1-3) and ord = less.prems(4) and range = less.prems(5) and one = less.prems(6)
  show ?case
  proof (cases "tu_rest evs")
    case Nil
    then show ?thesis by (subst ingest_loop.simps) (simp add: tu_first_ok [OF evs(1)])
  next
    case (Cons x xs)
    let ?q = "cur_bin off L (es @ [x])" and ?e = "\<lambda>q. bin_edge L q"
    have x: "fst x < nano_end rng" using range Cons by simp
    then have "bin_no_of L (fst x) < Q" by (simp add: fits(2) less_edge_iff(1) [OF fits(1)])
    then have qQ: "?q < Q" using len(2) by (simp add: cur_bin_def)
    have fq: "grid_fits L ?q" by (rule grid_fits_mono [OF fits(1) less_imp_le [OF qQ]])
    have lq: "?q - off \<le> OUT_LEN_MAX" using qQ len(1) by simp
    obtain fu where to: "to_bin_of (fst x) (tw_at rng cz es) = Some (tw_rep rng cz ?q fu es (bins_to cz off L es ?q))"
      and fu: "es \<noteq> [] \<longrightarrow> fu_ok (?e ?q) L fu es (x # xs)"
      using to_bin_rep [OF ord [unfolded Cons] cur refl fq lq zero] .
    let ?s = "tw_rep rng cz ?q fu es (bins_to cz off L es ?q)"
    have end_q: "ib_active_end (ia_inner_b (tw_inner_a ?s)) = ?e (Suc ?q)" by (simp add: cur(2))
    have short: "(OUT_LEN_MAX < cb_len (tw_out ?s)) = False"
      using length_out_bins [of cz off L es ?q] lq by (simp add: bins_to_def)
    have "bin_no_of L (fst x) \<le> ?q" by (simp add: cur_bin_def)
    then have xe: "fst x < ?e (Suc ?q)" by (simp add: less_edge_iff(2) [OF fq])
    define ys where "ys = filter (\<lambda>y. fst y < ?e (Suc ?q)) xs"
    define zs where "zs = filter (\<lambda>y. ?e (Suc ?q) \<le> fst y) xs"
    have f: "filter (\<lambda>y. fst y < ?e (Suc ?q)) (x # xs) = x # ys" "filter (\<lambda>y. ?e (Suc ?q) \<le> fst y) (x # xs) = zs"
      using xe by (simp_all add: ys_def zs_def not_le [symmetric])
    obtain evs1 where c: "constrain_up_to_ts (?e (Suc ?q)) evs = Some evs1" "tu_ok evs1" "tu_evs evs1 = tu_evs evs"
      "tu_rest evs1 = x # ys" "drop (tu_end evs1) (ce_iter_zip (tu_evs evs)) = zs"
      using constrain_ok [OF evs(1,3,2) Cons xe] unfolding f .
    have oxs: "in_order (x # xs)" using ord Cons by (simp add: sorted_append)
    have sp: "xs = ys @ zs" using oxs unfolding ys_def zs_def by (intro split_sorted) simp
    have app: "tu_rest evs = x # ys @ zs" using Cons sp by simp
    have app2: "es @ tu_rest evs = (es @ x # ys) @ zs" using app by simp
    have o1: "in_order (es @ x # ys)" using ord unfolding app2 map_append [of fst "es @ x # ys"] sorted_append by blast
    have ys: "\<forall>y \<in> set ys. off \<le> bin_no_of L (fst y) \<and> bin_no_of L (fst y) \<le> ?q"
    proof -
      have "\<forall>y \<in> set xs. off \<le> bin_no_of L (fst y)" using one Cons by (cases es) simp_all
      then show ?thesis by (simp add: ys_def less_edge_iff(2) [OF fq])
    qed
    have xo: "off \<le> bin_no_of L (fst x)" if "es \<noteq> []" using one that Cons by (cases es) auto
    have fu': "fu_ok (?e ?q) L fu es (x # ys)" if "es \<noteq> []" using fu that by (simp add: fu_ok_def)
    obtain evs2 where t: "ingest_ordered vo (?s, evs1) = Some (Inr (), tw_at rng cz (es @ x # ys), evs2)" "tu_done evs1 evs2"
      using take_rep [OF o1 cur refl fq c(2,4) ys xo fu'] by blast
    let ?ext = "extend_to_all evs2"
    have ext: "tu_ok ?ext" "tu_evs ?ext = tu_evs evs" "tu_end ?ext = length (ce_tss (tu_evs evs))" "tu_rest ?ext = zs"
      using extend_done [OF t(2)] unfolding c(3,5) by simp_all
    have n: "tu_len evs = length (x # xs)" "tu_len ?ext = length zs" by (simp_all add: tu_len_ok evs(1) ext(1) Cons ext(4))
    have to': "(if ib_active_end (ia_inner_b (tw_inner_a (tw_at rng cz es))) \<le> fst x
        then if ib_filled_until (ia_inner_b (tw_inner_a (tw_at rng cz es))) < ib_active_end (ia_inner_b (tw_inner_a (tw_at rng cz es)))
          then cycle_01 vo (fst x) (tw_at rng cz es) else None else Some (tw_at rng cz es)) = Some ?s"
      using to by (simp only: to_bin_of_def Let_def)
    have lst: "(case tw_lst ?s of Some lst \<Rightarrow> fst x < fst lst | None \<Rightarrow> False) = False"
      using ord Cons by (auto simp: sorted_append leD)
    have lz: "length zs < length (x # xs)" using length_filter_le [of _ xs] by (simp add: zs_def le_imp_less_Suc)
    have nx: "(nano_end rng \<le> fst x) = False" using x by simp
    have step: "ingest_loop vo n (tw_at rng cz es, evs) =
        (if zs = [] then Some (Inr ConsumedAll, tw_at rng cz (es @ x # ys))
         else ingest_loop vo (n + (length (x # xs) - length zs)) (tw_at rng cz (es @ x # ys), ?ext))"
      using lz nx
      by (subst ingest_loop.simps)
        (simp add: tu_first_ok evs(1) Cons tw_at_range Let_def to' short lst end_q c(1) t(1) n del: tw_rep_sel)
    show ?thesis
    proof (cases "zs = []")
      case True
      then show ?thesis unfolding step app using sp by simp
    next
      case False
      have "ingest_loop vo m (tw_at rng cz (es @ x # ys), ?ext) =
          Some (Inr ConsumedAll, tw_at rng cz ((es @ x # ys) @ tu_rest ?ext))" for m
      proof (rule less.hyps)
        show "length (tu_rest ?ext) < length (tu_rest evs)"
          using lz by (simp add: ext(4) Cons)
        show "tu_ok ?ext" "tu_end ?ext = length (ce_tss (tu_evs ?ext))" "in_order (ce_iter_zip (tu_evs ?ext))"
          using ext evs(3) by simp_all
        show "in_order ((es @ x # ys) @ tu_rest ?ext)" using ord unfolding ext(4) app2 .
        show "\<forall>x \<in> set (tu_rest ?ext). fst x < nano_end rng" using range by (simp add: ext(4) Cons zs_def)
        show "\<forall>y \<in> set (tl ((es @ x # ys) @ tu_rest ?ext)). off \<le> bin_no_of L (fst y)"
          using one unfolding ext(4) app2 .
      qed
      then show ?thesis unfolding step app2 ext(4) using False by simp
    qed
  qed
qed

lemma new_rep:
  assumes "0 < bin_len rng"
  shows "BinnedEventsTimeweight_new vo rng = tw_at rng False []"
  using assms
  by (simp add: BinnedEventsTimeweight_new_def tw_at_def tw_rep_def Let_def nano_beg_def TsNano_add_dt_nano_def
      TsNano_delta_def bin_edge_def cur_bin_def bins_to_def out_bins_def algebra_simps)

lemma enable_rep: "cnt_zero_enable (tw_at rng False []) = tw_at rng True []"
  by (simp add: cnt_zero_enable_def tw_at_def tw_rep_def Let_def bins_to_def out_bins_def)

end

text \<open>Ingesting containers one after the other, all of each.\<close>

fun ingest_all ::
    "('v, 'a, 'f, 'o) ValueOps \<Rightarrow> 'v ContainerEvents list \<Rightarrow> ('v, 'a, 'o) BinnedEventsTimeweight \<Rightarrow>
      ('v, 'a, 'o) BinnedEventsTimeweight panics" where
  "ingest_all vo [] s = Some s"
| "ingest_all vo (c # cs) s =
     do { (r, s) \<leftarrow> tw_ingest vo c s; if r = Inr ConsumedAll then ingest_all vo cs s else None }"

text \<open>A range that fits into the timestamps, with one bin to spare, and the events it is given.\<close>

definition range_fits :: "BinnedRange \<Rightarrow> bool" where
  "range_fits rng \<longleftrightarrow> 0 < bin_len rng \<and> 0 < bin_cnt rng \<and>
     (unat (bin_off rng) + unat (bin_cnt rng) + 1) * unat (bin_len rng) < 2 ^ 64"

definition range_events :: "BinnedRange \<Rightarrow> 'v event list \<Rightarrow> bool" where
  "range_events rng es \<longleftrightarrow> in_order es \<and> (\<forall>x \<in> set es. fst x < nano_end rng) \<and> (\<forall>x \<in> set (tl es). nano_beg rng \<le> fst x)"

definition tw_start :: "('v, 'a, 'f, 'o) ValueOps \<Rightarrow> bool \<Rightarrow> BinnedRange \<Rightarrow> ('v, 'a, 'o) BinnedEventsTimeweight" where
  "tw_start vo cz rng = (if cz then cnt_zero_enable (BinnedEventsTimeweight_new vo rng) else BinnedEventsTimeweight_new vo rng)"

definition end_bin :: "BinnedRange \<Rightarrow> nat" where
  "end_bin rng = unat (bin_off rng) + unat (bin_cnt rng)"

lemma range_fitsD:
  assumes "range_fits rng"
  shows "grid_fits (bin_len rng) (end_bin rng)" "nano_end rng = bin_edge (bin_len rng) (end_bin rng)"
    "unat (bin_off rng) < end_bin rng" "nano_beg rng = bin_edge (bin_len rng) (unat (bin_off rng))"
  using assms
  by (simp_all add: range_fits_def grid_fits_def end_bin_def nano_end_def nano_beg_def bin_edge_def algebra_simps
      word_less_nat_alt)

context tw_agg
begin

lemma ingest_all_rep:
  assumes "range_fits rng" and "unat (bin_cnt rng) \<le> OUT_LEN_MAX + 1" and "\<forall>c \<in> set cs. ce_inv c"
    and "range_events rng (es @ concat (map ce_iter_zip cs))" and "cz \<Longrightarrow> \<forall>v a. ing 0 (bin_len rng) v a = a"
  shows "ingest_all vo cs (tw_at rng cz es) = Some (tw_at rng cz (es @ concat (map ce_iter_zip cs)))"
  using assms(3,4)
proof (induction cs arbitrary: es)
  case (Cons c cs)
  let ?z = "ce_iter_zip c"
  note fits = range_fitsD [OF assms(1)]
  have off: "grid_fits (bin_len rng) (unat (bin_off rng))" using fits(3) by (intro grid_fits_mono [OF fits(1)]) simp
  have ev: "in_order ((es @ ?z) @ concat (map ce_iter_zip cs))"
    "\<forall>x \<in> set (tl ((es @ ?z) @ concat (map ce_iter_zip cs))). nano_beg rng \<le> fst x"
    "\<forall>x \<in> set ?z. fst x < nano_end rng"
    using Cons.prems(2) by (simp_all add: range_events_def)
  have new: "tu_ok (tu_new c)" "tu_rest (tu_new c) = ?z" "tu_end (tu_new c) = length (ce_tss c)" "tu_evs (tu_new c) = c"
    using tu_new_ok [of c] Cons.prems(1) by simp_all (simp add: tu_new_def)
  have o: "in_order (es @ ?z)" using ev(1) unfolding map_append [of fst "es @ ?z"] sorted_append by blast
  have one: "\<forall>x \<in> set (tl (es @ ?z)). unat (bin_off rng) \<le> bin_no_of (bin_len rng) (fst x)"
  proof (cases "es @ ?z = []")
    case False
    then have "set (tl (es @ ?z)) \<subseteq> set (tl ((es @ ?z) @ concat (map ce_iter_zip cs)))" by (simp add: tl_append2 del: append_assoc)
    then show ?thesis using ev(2) unfolding fits(4) edge_le_iff(1) [OF off] by blast
  qed simp
  have "ingest_loop vo 0 (tw_at rng cz es, tu_new c) = Some (Inr ConsumedAll, tw_at rng cz (es @ tu_rest (tu_new c)))"
    using Cons.prems(1) o ev(3) one assms(2,5) fits(3)
    by (intro loop_rep [OF refl refl fits(1,2)]) (simp_all add: end_bin_def sorted_append new)
  then have "tw_ingest vo c (tw_at rng cz es) = Some (Inr ConsumedAll, tw_at rng cz (es @ ?z))"
    by (simp add: tw_ingest_def new(2))
  then show ?case using Cons.IH [of "es @ ?z"] Cons.prems by simp
qed simp

text \<open>The end of the input.\<close>

lemma final_rep:
  assumes "range_fits rng" and "range_events rng es" and "unat (bin_cnt rng) \<le> OUT_LEN_MAX + 1"
  defines "L \<equiv> bin_len rng" and "off \<equiv> unat (bin_off rng)"
  shows "\<exists>fu. cycle_01 vo (nano_end rng) (tw_at rng cz es) = Some (tw_rep rng cz (end_bin rng) fu es (bins_to cz off L es (end_bin rng)))"
proof -
  let ?q = "cur_bin off L es" and ?Q = "end_bin rng" and ?t = "nano_end rng"
  have fits: "grid_fits L ?Q" "?t = bin_edge L ?Q" "off < ?Q"
    using range_fitsD [OF assms(1)] by (simp_all add: L_def off_def)
  have Q: "bin_no_of L ?t = ?Q" by (simp add: fits(2) no_of_edge(1) [OF fits(1)])
  have ev: "in_order es" "\<forall>x \<in> set es. fst x < ?t" using assms(2) by (simp_all add: range_events_def)
  have qQ: "?q < ?Q" using ev(2) fits(3) by (auto simp: cur_bin_def fits(2) less_edge_iff(1) [OF fits(1)])
  have f: "grid_fits L ?q" by (rule grid_fits_mono [OF fits(1) less_imp_le [OF qQ]])
  have oq: "off \<le> ?q" by (simp add: cur_bin_def)
  have "length (bins_to cz off L es ?q) + (?Q - ?q) \<le> OUT_LEN_MAX + 1"
    using length_out_bins [of cz off L es ?q] qQ assms(3) oq by (simp add: bins_to_def end_bin_def off_def)
  then have "out_fits L ?t (length (bins_to cz off L es ?q) + (bin_no_of L ?t - ?q))"
    unfolding Q out_fits_def using fits(2) by auto
  from cycle_rep [OF L_def [THEN meta_eq_to_obj_eq] all_before_next [OF ev(1) f] _ _ ev(1) this] fits(1) qQ
  obtain fu where "cycle_01 vo ?t (tw_rep rng cz ?q (bin_fu (bin_edge L ?q) es) es (bins_to cz off L es ?q)) =
      Some (tw_rep rng cz ?Q fu es (bins_to cz off L es ?q @
        (if es = [] then [] else map (\<lambda>k. bin_of vo ing L es (bin_edge L k)) (next_bins cz ?q ?Q))))"
    unfolding Q by auto
  moreover have "bins_to cz off L es ?q @ (if es = [] then [] else map (\<lambda>k. bin_of vo ing L es (bin_edge L k)) (next_bins cz ?q ?Q)) =
      bins_to cz off L es ?Q"
    using out_bins_next [OF ev(1) _ qQ, of cz] by (auto simp: bins_to_def out_bins_def)
  ultimately show ?thesis by (auto simp: tw_at_def Let_def L_def off_def)
qed

lemma start_rep: "range_fits rng \<Longrightarrow> tw_start vo cz rng = tw_at rng cz []"
  by (simp add: tw_start_def new_rep enable_rep range_fits_def)

end

text \<open>
  C1. The time weighted binner, given the events of a range of at most 10000 bins in time order (in any
  number of containers, at most one event before the range), takes them all, and after the end of the
  input it puts out exactly the bins of the specification, in order: those with events from the bin of
  the first event on, or all of them if empty bins are asked for, each with the edges, the count,
  the extremes and the last value of its events and the average of the values weighted with the time
  they were in force. (With empty bins, a value in force for no time must not change the sum.)
\<close>

theorem timeweight_bins:
  fixes vo :: "('v, 'a, 'f, 'o) ValueOps" and cs :: "'v ContainerEvents list"
  defines "es \<equiv> concat (map ce_iter_zip cs)"
  assumes "tw_agg vo ing" and "range_fits rng" and "unat (bin_cnt rng) \<le> OUT_LEN_MAX"
    and "\<forall>c \<in> set cs. ce_inv c" and "range_events rng es"
    and "cz \<Longrightarrow> \<forall>v a. ing 0 (bin_len rng) v a = a"
  shows "\<exists>s s' s'' out. ingest_all vo cs (tw_start vo cz rng) = Some s \<and> input_done_range_final vo s = Some s' \<and>
    tw_output vo s' = Some (out, s'') \<and> cb_len (tw_out s'') = 0 \<and>
    cb_bins out = map (\<lambda>k. bin_of vo ing (bin_len rng) es (bin_edge (bin_len rng) k))
      (out_bins cz (unat (bin_off rng)) (bin_len rng) es (end_bin rng))"
proof -
  note fits = assms(3) and at = tw_agg.start_rep [OF assms(2) assms(3), of cz]
  let ?s = "tw_agg.tw_at vo ing rng cz es"
  let ?bins = "tw_agg.bins_to vo ing cz (unat (bin_off rng)) (bin_len rng) es (end_bin rng)"
  have run: "ingest_all vo cs (tw_start vo cz rng) = Some ?s"
    using tw_agg.ingest_all_rep [OF assms(2,3) _ assms(5), of "[]" cz] assms(4,6,7) by (simp add: at es_def)
  obtain fu where fin: "cycle_01 vo (nano_end rng) ?s = Some (tw_agg.tw_rep vo ing rng cz (end_bin rng) fu es ?bins)"
    using tw_agg.final_rep [OF assms(2,3,6), of cz] assms(4) by auto
  let ?s' = "tw_agg.tw_rep vo ing rng cz (end_bin rng) fu es ?bins"
  have "length ?bins \<le> OUT_LEN_MAX"
    using length_out_bins [of cz "unat (bin_off rng)" "bin_len rng" es "end_bin rng"] assms(4)
    by (simp add: tw_agg.bins_to_def [OF assms(2)] end_bin_def)
  then have "input_done_range_final vo ?s = Some ?s'"
    by (simp add: input_done_range_final_def tw_agg.tw_at_range [OF assms(2)] fin tw_agg.tw_rep_sel [OF assms(2)])
  moreover have "tw_output vo ?s' = Some (cb_of ?bins, ?s'\<lparr>tw_out := cb_new\<rparr>)"
    by (simp add: tw_output_def tw_agg.tw_rep_sel [OF assms(2)])
  ultimately show ?thesis using run by (auto simp: tw_agg.bins_to_def [OF assms(2)] cb_len_def cb_new_def)
qed

text \<open>
  C36. With empty bins asked for and a range of 10001 bins the binner stops after the last bin at the end of
  the input and marks that it has more to put out; taking the output then fails the first assertion of
  \<^verbatim>\<open>cycle_01\<close>, because nothing is left of the range.
\<close>

theorem timeweight_output_panics:
  fixes vo :: "('v, 'a, 'f, 'o) ValueOps" and cs :: "'v ContainerEvents list"
  defines "es \<equiv> concat (map ce_iter_zip cs)"
  assumes "tw_agg vo ing" and "range_fits rng" and "unat (bin_cnt rng) = OUT_LEN_MAX + 1"
    and "\<forall>c \<in> set cs. ce_inv c" and "range_events rng es" and "es \<noteq> []" and "fst (hd es) < nano_beg rng + bin_len rng"
    and "\<forall>v a. ing 0 (bin_len rng) v a = a"
  shows "\<exists>s s'. ingest_all vo cs (tw_start vo True rng) = Some s \<and> input_done_range_final vo s = Some s' \<and>
    output_len s' = OUT_LEN_MAX + 1 \<and> tw_output vo s' = None"
proof -
  let ?off = "unat (bin_off rng)" and ?L = "bin_len rng"
  note at = tw_agg.start_rep [OF assms(2,3), of True] and sel = tw_agg.tw_rep_sel [OF assms(2)]
  note fits = range_fitsD [OF assms(3)]
  have off: "grid_fits ?L ?off" using fits(3) by (intro grid_fits_mono [OF fits(1)]) simp
  let ?s = "tw_agg.tw_at vo ing rng True es" and ?bins = "tw_agg.bins_to vo ing True ?off ?L es (end_bin rng)"
  have run: "ingest_all vo cs (tw_start vo True rng) = Some ?s"
    using tw_agg.ingest_all_rep [OF assms(2,3) _ assms(5), of "[]" True] assms(4,6,9) by (simp add: at es_def)
  obtain fu where fin: "cycle_01 vo (nano_end rng) ?s = Some (tw_agg.tw_rep vo ing rng True (end_bin rng) fu es ?bins)"
    using tw_agg.final_rep [OF assms(2,3,6), of True] assms(4) by auto
  let ?s' = "tw_agg.tw_rep vo ing rng True (end_bin rng) fu es ?bins"
  have "bin_no_of ?L (fst (hd es)) \<le> ?off"
    using assms(8) less_edge_iff(2) [OF off] by (simp add: fits(4) edge_Suc)
  then have len: "length ?bins = OUT_LEN_MAX + 1"
    using assms(4,7) by (simp add: tw_agg.bins_to_def [OF assms(2)] out_bins_def first_bin_def end_bin_def)
  have fin2: "input_done_range_final vo ?s = Some (?s'\<lparr>tw_continue_output := True\<rparr>)"
    by (simp add: input_done_range_final_def tw_agg.tw_at_range [OF assms(2)] fin sel len)
  have "\<not> ib_active_beg (ia_inner_b (tw_inner_a ?s')) < nano_end rng" by (simp add: sel fits(2))
  then have "tw_output vo (?s'\<lparr>tw_continue_output := True\<rparr>) = None"
    by (simp add: tw_output_def cycle_01_def sel Let_def)
  then show ?thesis using run fin2 len by (simp add: output_len_def sel)
qed

section \<open>The value types\<close>

text \<open>Every aggregator but that of the integers keeps the laws, whatever the floating point arithmetic.\<close>

definition weigh :: "('d, 'f) FloatOps \<Rightarrow> ('v \<Rightarrow> 'd) \<Rightarrow> DtNano \<Rightarrow> DtNano \<Rightarrow> 'v \<Rightarrow> 'd AggregatorNumeric \<Rightarrow> 'd AggregatorNumeric" where
  "weigh fl val dt bl v a = the (numeric_ingest fl val dt bl v a)"

lemma numeric_laws:
  "numeric_ingest fl val dt bl v a = Some (weigh fl val dt bl v a)"
  "numeric_reset fl a = \<lparr>an_sum = d_zero fl\<rparr>" "snd (numeric_result_f64 fl x a) = \<lparr>an_sum = d_zero fl\<rparr>"
  "snd (numeric_result_f32 fl x a) = \<lparr>an_sum = d_zero fl\<rparr>"
  by (simp_all add: weigh_def numeric_ingest_def numeric_reset_def numeric_result_f64_def numeric_result_f32_def Let_def)

interpretation f64_binner: tw_agg "f64_value fl cmp" "weigh fl id" for fl cmp
  by unfold_locales (simp_all add: f64_value_def agg_f64_def numeric_laws)

interpretation f32_binner: tw_agg "f32_value fl cmp" "weigh fl (d_of_f fl)" for fl cmp
  by unfold_locales (simp_all add: f32_value_def agg_f32_def numeric_laws)

interpretation u64_binner: tw_agg "u64_value fl" "weigh fl (d_of_u64 fl)" for fl
  by unfold_locales (simp_all add: u64_value_def agg_u64_def numeric_laws)

interpretation bool_binner: tw_agg "bool_value fl" "weigh fl (\<lambda>b. d_of_u64 fl (if b then 1 else 0))" for fl
  by unfold_locales (simp_all add: bool_value_def agg_bool_def numeric_laws)

section \<open>Examples\<close>

text \<open>Numbers for the floating point values, and a range with three bins of length 10 from 10 on.\<close>

definition int_floats :: "(int, int) FloatOps" where
  "int_floats = \<lparr>d_zero = 0, d_add = (+), d_mul = (*), d_div = (\<lambda>a b. a * 1000 div b), d_of_u64 = uint, d_of_f = id,
     f_of_d = id, f_of_u64 = uint, f_div = (\<lambda>a b. a * 1000 div b)\<rparr>"

definition demo_range :: BinnedRange where
  "demo_range = \<lparr>bin_len = 10, bin_off = 1, bin_cnt = 3\<rparr>"

definition demo_events :: "u64 ContainerEvents list" where
  "demo_events = [\<lparr>ce_tss = [5, 12], ce_vals = [1, 4], ce_byte_estimate = None\<rparr>,
     \<lparr>ce_tss = [31], ce_vals = [2], ce_byte_estimate = None\<rparr>]"

lemma demo_ok:
  "range_fits demo_range" "unat (bin_cnt demo_range) \<le> OUT_LEN_MAX" "\<forall>c \<in> set demo_events. ce_inv c"
  "concat (map ce_iter_zip demo_events) = [(5, 1), (12, 4), (31, 2)]" "end_bin demo_range = 4"
  "range_events demo_range [(5, 1), (12, 4), (31, 2)]" "bin_len demo_range = 10" "unat (bin_off demo_range) = 1"
  by (simp_all add: range_fits_def demo_range_def demo_events_def ce_inv_def ce_iter_zip_def end_bin_def range_events_def
      nano_beg_def nano_end_def OUT_LEN_MAX_def)

lemmas eval_bin = bin_of_def Let_def bin_edge_def before_ts_def from_ts_def bin_all_segs_def bin_segs_def bin_start_def
  bin_rest_def bin_fu_def bin_mm_def mm_step_def apply_min_max_def total_cmp_def u64_value_def agg_u64_def int_floats_def
  weigh_def numeric_ingest_def numeric_result_f64_def numeric_reset_def fraction_f32_of_def agg_segs_def seg_width_def

theorem timeweight_bins_witness:
  "\<exists>s s' s'' out. ingest_all (u64_value int_floats) demo_events (tw_start (u64_value int_floats) False demo_range) = Some s \<and>
    input_done_range_final (u64_value int_floats) s = Some s' \<and>
    tw_output (u64_value int_floats) s' = Some (out, s'') \<and> cb_len (tw_out s'') = 0 \<and>
    cb_bins out = [(10, 20, 1, 1, 4, 3400, 4, True), (30, 40, 1, 2, 4, 2200, 2, True)]"
proof -
  have "out_bins False 1 10 [(5, 1::u64), (12, 4), (31, 2)] 4 = [1, 3]"
    by (simp add: out_bins_def first_bin_def bin_no_of_def upt_rec)
  moreover have "bin_of (u64_value int_floats) (weigh int_floats (d_of_u64 int_floats)) 10 [(5, 1), (12, 4), (31, 2)] (bin_edge 10 1) =
      (10, 20, 1, 1, 4, 3400, 4, True)"
    "bin_of (u64_value int_floats) (weigh int_floats (d_of_u64 int_floats)) 10 [(5, 1), (12, 4), (31, 2)] (bin_edge 10 3) =
      (30, 40, 1, 2, 4, 2200, 2, True)"
    by (simp_all add: eval_bin)
  ultimately show ?thesis
    using timeweight_bins [OF u64_binner.tw_agg_axioms [of int_floats] demo_ok(1-3), where cz = False] by (simp add: demo_ok(4-))
qed

theorem timeweight_output_panics_witness:
  "\<exists>s s'. ingest_all (u64_value int_floats) demo_events
      (tw_start (u64_value int_floats) True (demo_range\<lparr>bin_cnt := 10001\<rparr>)) = Some s \<and>
    input_done_range_final (u64_value int_floats) s = Some s' \<and> output_len s' = 10001 \<and> tw_output (u64_value int_floats) s' = None"
  using timeweight_output_panics [OF u64_binner.tw_agg_axioms [of int_floats], where rng = "demo_range\<lparr>bin_cnt := 10001\<rparr>" and cs = demo_events] demo_ok(3,4)
  by (simp add: range_fits_def range_events_def demo_range_def nano_beg_def nano_end_def OUT_LEN_MAX_def weigh_def
      numeric_ingest_def int_floats_def Let_def)

end
