(* ===== verification/DiskIndex.thy ===== *)
theory DiskIndex
  imports BinRange
begin

text \<open>
  Finding the first event of a range in the files of the data buffer:
  \<^verbatim>\<open>daqbuf-disk/src/index.rs\<close> (the search in an index file, and in a data file whose events all have
  the same length) and \<^verbatim>\<open>position_file\<close> of \<^verbatim>\<open>daqbuf-disk/src/dataopen.rs\<close>, which chooses
  between them.

  A file is its content and the read position. Reading fills the buffer or ends at the end of the file, as
  the loop of the function \<^verbatim>\<open>read\<close> does; input and output errors of the system are left out, except that a
  file may not exist. Log messages and the text of the errors are left out.
\<close>

section \<open>Errors and files\<close>

datatype disk_error =
  IndexBadLen nat | SearchUnordered u64 u64
| HeaderBufLen nat | FileVersion u16 | HeaderLen u32 | HeaderNotContained u32 nat
| EventBufLen nat | EventLen u32 | EventNotContained u32 nat | LenMismatch u32 u32
| InconsistentEventLen u32 u64 | IndexTooLarge nat | BadMetaLen nat

record File =
  fl_data :: bytes
  fl_pos :: u64

definition seek_start :: "u64 \<Rightarrow> File \<Rightarrow> File" where
  "seek_start pos f = f\<lparr>fl_pos := pos\<rparr>"

definition seek_end :: "File \<Rightarrow> u64 \<times> File" where
  "seek_end f = (let n = of_nat (length (fl_data f)) in (n, f\<lparr>fl_pos := n\<rparr>))"

text \<open>Reading into a fresh buffer of \<open>n\<close> zero bytes.\<close>

definition read_into :: "nat \<Rightarrow> File \<Rightarrow> bytes \<times> File" where
  "read_into n f =
     (let d = take n (drop (unat (fl_pos f)) (fl_data f)) in
      (d @ replicate (n - length d) 0, f\<lparr>fl_pos := fl_pos f + of_nat (length d)\<rparr>))"

section \<open>The index\<close>

text \<open>An index is a sequence of pairs of a timestamp and a position in the data file, big-endian.\<close>

definition index_entry :: "bytes \<Rightarrow> nat \<Rightarrow> (u64 \<times> u64) panics" where
  "index_entry buf i =
     do { a \<leftarrow> slice buf (16 * i) (16 * i + 8); b \<leftarrow> slice buf (16 * i + 8) (16 * i + 16);
          Some (from_be a, from_be b) }"

type_synonym found_entry = "(disk_error, (u64 \<times> u64) option) result panics"

function find_ge_loop :: "NanoRange \<Rightarrow> bool \<Rightarrow> bytes \<Rightarrow> nat \<Rightarrow> nat \<Rightarrow> u64 \<Rightarrow> u64 \<Rightarrow> found_entry" where
  "find_ge_loop rng expand_right buf j k x y =
     (if x \<ge> y then Some (Inl (SearchUnordered x y))
      else if k - j < 2
      then (if y < nr_end rng \<or> expand_right
            then do { (_, v) \<leftarrow> index_entry buf k; Some (Inr (Some (y, v))) }
            else Some (Inr None))
      else (let m = (k + j) div 2 in
            do { (e, _) \<leftarrow> index_entry buf m;
                 if e < nr_beg rng then find_ge_loop rng expand_right buf m k e y
                 else find_ge_loop rng expand_right buf j m x e }))"
  by pat_completeness auto
termination by (relation "measure (\<lambda>(rng, ex, buf, j, k, x, y). k - j)") auto

definition find_ge :: "NanoRange \<Rightarrow> bool \<Rightarrow> bytes \<Rightarrow> found_entry" where
  "find_ge rng expand_right buf =
     (if length buf mod 16 \<noteq> 0 then Some (Inl (IndexBadLen (length buf)))
      else if length buf = 0 then Some (Inr None)
      else (let j = 0; k = length buf div 16 - 1 in
        do { (x, xv) \<leftarrow> index_entry buf j;
             (y, _) \<leftarrow> index_entry buf k;
             if y < nr_beg rng then Some (Inr None)
             else if x \<ge> nr_beg rng
             then (if x < nr_end rng \<or> expand_right then Some (Inr (Some (x, xv))) else Some (Inr None))
             else if x \<ge> y then Some (Inl (SearchUnordered x y))
             else find_ge_loop rng expand_right buf j k x y }))"

function find_smaller_loop :: "NanoRange \<Rightarrow> bytes \<Rightarrow> nat \<Rightarrow> nat \<Rightarrow> u64 \<Rightarrow> u64 \<Rightarrow> found_entry" where
  "find_smaller_loop rng buf j k x y =
     (if x \<ge> y then Some (Inl (SearchUnordered x y))
      else if k - j < 2 then do { (_, v) \<leftarrow> index_entry buf j; Some (Inr (Some (x, v))) }
      else (let m = (k + j) div 2 in
            do { (e, _) \<leftarrow> index_entry buf m;
                 if e < nr_beg rng then find_smaller_loop rng buf m k e y else find_smaller_loop rng buf j m x e }))"
  by pat_completeness auto
termination by (relation "measure (\<lambda>(rng, buf, j, k, x, y). k - j)") auto

definition find_largest_smaller_than :: "NanoRange \<Rightarrow> bool \<Rightarrow> bytes \<Rightarrow> found_entry" where
  "find_largest_smaller_than rng expand_right buf =
     (if length buf mod 16 \<noteq> 0 then Some (Inl (IndexBadLen (length buf)))
      else if length buf = 0 then Some (Inr None)
      else (let j = 0; k = length buf div 16 - 1 in
        do { (x, _) \<leftarrow> index_entry buf j;
             (y, yv) \<leftarrow> index_entry buf k;
             if x \<ge> nr_beg rng then Some (Inr None)
             else if y < nr_beg rng then Some (Inr (Some (y, yv)))
             else if x \<ge> y then Some (Inl (SearchUnordered x y))
             else find_smaller_loop rng buf j k x y }))"

section \<open>The data file\<close>

definition parse_channel_header :: "bytes \<Rightarrow> (disk_error, u32) result panics" where
  "parse_channel_header buf =
     (if length buf < 6 then Some (Inl (HeaderBufLen (length buf)))
      else do {
        ver \<leftarrow> slice buf 0 2;
        if (from_be ver :: u16) \<noteq> 0 then Some (Inl (FileVersion (from_be ver)))
        else do {
          b \<leftarrow> slice buf 2 6;
          let len1 = (from_be b :: u32);
          if len1 < 9 \<or> len1 > 256 then Some (Inl (HeaderLen len1))
          else if length buf < 2 + unat len1 then Some (Inl (HeaderNotContained len1 (length buf)))
          else do {
            b \<leftarrow> slice buf (2 + unat len1 - 4) (2 + unat len1);
            let len2 = (from_be b :: u32);
            if len1 \<noteq> len2 then Some (Inl (LenMismatch len1 len2)) else Some (Inr len1) } } })"

definition parse_event :: "bytes \<Rightarrow> (disk_error, u32 \<times> TsNano) result panics" where
  "parse_event buf =
     (if length buf < 4 then Some (Inl (EventBufLen (length buf)))
      else do {
        b \<leftarrow> slice buf 0 4;
        let len1 = (from_be b :: u32);
        if len1 < 9 \<or> len1 > 512 then Some (Inl (EventLen len1))
        else if length buf < unat len1 then Some (Inl (EventNotContained len1 (length buf)))
        else do {
          b \<leftarrow> slice buf (unat len1 - 4) (unat len1);
          let len2 = (from_be b :: u32);
          if len1 \<noteq> len2 then Some (Inl (LenMismatch len1 len2))
          else do { ts \<leftarrow> slice buf 12 20; Some (Inr (len1, from_be ts)) } } })"

definition read_event_at :: "u64 \<Rightarrow> File \<Rightarrow> (disk_error, (u32 \<times> TsNano) \<times> File) result panics" where
  "read_event_at pos f =
     (let (buf, f) = read_into 1024 (seek_start pos f) in
      rbind (parse_event buf) (\<lambda>ev. Some (Inr (ev, f))))"

text \<open>The file, whether an event was found, the number of reads and the position.\<close>

type_synonym located = "File \<times> bool \<times> u32 \<times> u64"

definition located_at :: "File \<Rightarrow> bool \<Rightarrow> u32 \<Rightarrow> u64 \<Rightarrow> (disk_error, located) result panics" where
  "located_at f found nreads pos = Some (Inr (seek_start pos f, found, nreads, pos))"

text \<open>The header and the first and last events of the file.\<close>

definition read_ends ::
    "File \<Rightarrow> (disk_error, File \<times> u64 \<times> u64 \<times> u64 \<times> TsNano \<times> TsNano) result panics" where
  "read_ends f =
     (let (flen, f) = seek_end f;
          (buf, f) = read_into 1024 (seek_start 0 f) in
      rbind (parse_channel_header buf) (\<lambda>hres.
        let headoff = 2 + ucast hres in
        do { rest \<leftarrow> slice buf (unat headoff) (length buf);
             rbind (parse_event rest) (\<lambda>ev.
               let evlen = ucast (fst ev); j = headoff in
               do { q \<leftarrow> u64_div (flen - headoff) evlen;
                    let k = (q - 1) * evlen + headoff;
                    rbind (read_event_at k f) (\<lambda>(t, f).
                      if fst t \<noteq> ucast evlen then Some (Inl (InconsistentEventLen (fst t) evlen))
                      else Some (Inr (f, evlen, j, k, snd ev, snd t))) }) }))"

definition midpoint :: "u64 \<Rightarrow> u64 \<Rightarrow> u64 \<Rightarrow> u64 panics" where
  "midpoint evlen j k = do { q \<leftarrow> u64_div ((k - j) div 2) evlen; Some (j + q * evlen) }"

definition read_event_of_len :: "u64 \<Rightarrow> u64 \<Rightarrow> File \<Rightarrow> (disk_error, TsNano \<times> File) result panics" where
  "read_event_of_len evlen m f =
     rbind (read_event_at m f) (\<lambda>(t, f).
       if fst t \<noteq> ucast evlen then Some (Inl (InconsistentEventLen (fst t) evlen)) else Some (Inr (snd t, f)))"

partial_function (option) position_loop ::
    "NanoRange \<Rightarrow> bool \<Rightarrow> u64 \<Rightarrow> File \<Rightarrow> u32 \<Rightarrow> u64 \<Rightarrow> u64 \<Rightarrow> TsNano \<Rightarrow> TsNano \<Rightarrow> (disk_error, located) result option" where
  "position_loop rng expand_right evlen f nreads j k x y =
     (if \<not> x < y \<or> evlen = 0 \<or> (k - j) mod evlen \<noteq> 0 then None
      else if k - j < 2 * evlen
      then (if y < nr_end rng \<or> expand_right then located_at f True nreads k else located_at f False nreads 0)
      else do {
        m \<leftarrow> midpoint evlen j k;
        r \<leftarrow> read_event_of_len evlen m f;
        case r of
          Inl e \<Rightarrow> Some (Inl e)
        | Inr (e, f) \<Rightarrow>
            if e < nr_beg rng then position_loop rng expand_right evlen f (nreads + 1) m k e y
            else position_loop rng expand_right evlen f (nreads + 1) j m x e })"

definition position_static_len_datafile :: "File \<Rightarrow> NanoRange \<Rightarrow> bool \<Rightarrow> (disk_error, located) result panics" where
  "position_static_len_datafile f rng expand_right =
     rbind (read_ends f) (\<lambda>(f, evlen, j, k, x, y).
       if x \<ge> nr_end rng then (if expand_right then located_at f True 2 j else located_at f False 2 0)
       else if y < nr_beg rng then located_at f False 2 j
       else if x \<ge> nr_beg rng
       then (if x < nr_end rng \<or> expand_right then located_at f True 2 j else located_at f False 2 0)
       else position_loop rng expand_right evlen f 2 j k x y)"

partial_function (option) position_smaller_loop ::
    "NanoRange \<Rightarrow> u64 \<Rightarrow> File \<Rightarrow> u32 \<Rightarrow> u64 \<Rightarrow> u64 \<Rightarrow> (disk_error, located) result option" where
  "position_smaller_loop rng evlen f nreads j k =
     (if k - j < 2 * evlen then located_at f True nreads j
      else do {
        m \<leftarrow> midpoint evlen j k;
        r \<leftarrow> read_event_of_len evlen m f;
        case r of
          Inl e \<Rightarrow> Some (Inl e)
        | Inr (x, f) \<Rightarrow>
            if x < nr_beg rng then position_smaller_loop rng evlen f (nreads + 1) m k
            else position_smaller_loop rng evlen f (nreads + 1) j m })"

definition position_static_len_datafile_at_largest_smaller_than ::
    "File \<Rightarrow> NanoRange \<Rightarrow> bool \<Rightarrow> (disk_error, located) result panics" where
  "position_static_len_datafile_at_largest_smaller_than f rng expand_right =
     rbind (read_ends f) (\<lambda>(f, evlen, j, k, x, y).
       if x \<ge> nr_beg rng then located_at f False 2 j
       else if y < nr_beg rng then located_at f True 2 k
       else position_smaller_loop rng evlen f 2 j k)"

section \<open>Opening a data file\<close>

record OpenedFile =
  of_pos :: u64
  of_file :: "File option"
  of_positioned :: bool
  of_index :: bool
  of_nreads :: u32

record Positioned =
  po_file :: OpenedFile
  po_found :: bool

definition opened :: "File option \<Rightarrow> bool \<Rightarrow> bool \<Rightarrow> u32 \<Rightarrow> u64 \<Rightarrow> Positioned" where
  "opened f found ix nreads pos =
     \<lparr>po_file = \<lparr>of_pos = pos, of_file = f, of_positioned = found, of_index = ix, of_nreads = nreads\<rparr>, po_found = found\<rparr>"

text \<open>The contents of the data file and of the index file, if there are such files.\<close>

definition position_file ::
    "bytes option \<Rightarrow> bytes option \<Rightarrow> NanoRange \<Rightarrow> bool \<Rightarrow> bool \<Rightarrow> (disk_error, Positioned) result panics" where
  "position_file data ixfile rng expand_left expand_right =
     (if expand_left \<and> expand_right then None
      else case data of
        None \<Rightarrow> Some (Inr (opened None False True 0 0))
      | Some d \<Rightarrow>
          let f = \<lparr>fl_data = d, fl_pos = 0\<rparr> in
          case ixfile of
            Some buf \<Rightarrow>
              if length buf > 1024 * 1024 * 500 then Some (Inl (IndexTooLarge (length buf)))
              else if length buf < 2 then Some (Inl (BadMetaLen (length buf)))
              else if length buf mod 16 \<noteq> 2 then Some (Inl (BadMetaLen (length buf)))
              else rbind (if expand_left then find_largest_smaller_than rng expand_right (drop 2 buf)
                          else find_ge rng expand_right (drop 2 buf)) (\<lambda>gg.
                Some (Inr (case gg of
                             Some (_, o1) \<Rightarrow> opened (Some (seek_start o1 f)) True True 0 o1
                           | None \<Rightarrow> opened (Some f) False True 0 0)))
          | None \<Rightarrow>
              rbind (if expand_left then position_static_len_datafile_at_largest_smaller_than f rng expand_right
                     else position_static_len_datafile f rng expand_right) (\<lambda>(f, found, nreads, pos).
                Some (Inr (if found then opened (Some f) True False nreads pos else opened (Some f) False False nreads 0))))"

end
