(* ===== verification/DiskIndexCorrect.thy ===== *)
theory DiskIndexCorrect
  imports DiskIndex
begin

text \<open>
  The searches against a linear one: each of the four loops is the bisection of the entries, and on
  sorted timestamps that is \<^verbatim>\<open>partition_point\<close>. So the position of an event does not depend on
  whether the data file comes with an index.
\<close>

section \<open>Bisection\<close>

function bisect :: "(nat \<Rightarrow> bool) \<Rightarrow> nat \<Rightarrow> nat \<Rightarrow> nat" where
  "bisect P j k =
     (if k - j < 2 then k else let m = (k + j) div 2 in if P m then bisect P m k else bisect P j m)"
  by pat_completeness auto
termination by (relation "measure (\<lambda>(P, j, k). k - j)") auto

declare bisect.simps [simp del] and find_ge_loop.simps [simp del] and find_smaller_loop.simps [simp del]

lemma bisect_end: "k - j < 2 \<Longrightarrow> bisect P j k = k"
  by (simp add: bisect.simps)

lemma bisect_step:
  assumes "\<not> k - j < 2"
  shows "bisect P j k = (if P ((k + j) div 2) then bisect P ((k + j) div 2) k else bisect P j ((k + j) div 2))"
    "j < (k + j) div 2" "(k + j) div 2 < k"
  using assms by (simp_all add: bisect.simps [of P j k] Let_def)

lemma bisect_between:
  assumes "j < k" and "P j" and "\<not> P k"
  shows "j < bisect P j k \<and> bisect P j k \<le> k \<and> P (bisect P j k - 1) \<and> \<not> P (bisect P j k)"
  using assms
proof (induction P j k rule: bisect.induct)
  case (1 P j k)
  show ?case
  proof (cases "k - j < 2")
    case True
    then have "j = k - 1" using 1 by simp
    then show ?thesis using 1 True by (simp add: bisect_end)
  next
    case False
    note m = bisect_step(1) [OF False, of P] bisect_step(2,3) [OF False]
    show ?thesis
    proof (cases "P ((k + j) div 2)")
      case True
      then show ?thesis using "1.IH"(1) [OF False refl True] m 1(5) by simp
    next
      case ge: False
      then show ?thesis using "1.IH"(2) [OF False refl ge] m 1(4) by simp
    qed
  qed
qed

lemma bisect_cong: "(\<And>i. i < k \<Longrightarrow> P i = Q i) \<Longrightarrow> bisect P j k = bisect Q j k"
proof (induction P j k rule: bisect.induct)
  case (1 P j k)
  show ?case
  proof (cases "k - j < 2")
    case False
    note m = bisect_step(1) [OF False] bisect_step(2,3) [OF False]
    show ?thesis
      using "1.IH"(1) [OF False refl] "1.IH"(2) [OF False refl] "1.prems" m(2,3) by (simp add: m(1))
  qed (simp add: bisect_end)
qed

lemma bisect_partition_point:
  fixes ts :: "u64 list"
  assumes "sorted ts" and "j < k" and "k < length ts" and "ts ! j < b" and "\<not> ts ! k < b"
  shows "bisect (\<lambda>i. ts ! i < b) j k = partition_point (\<lambda>t. t < b) ts"
proof -
  let ?P = "\<lambda>i. ts ! i < b" and ?i = "bisect (\<lambda>i. ts ! i < b) j k" and ?p = "partition_point (\<lambda>t. t < b) ts"
  note i = bisect_between [of j k ?P, OF assms(2,4,5)]
  show ?thesis
  proof (rule antisym)
    show "?p \<le> ?i" using partition_point_before [of ?i "\<lambda>t. t < b" ts] i by (metis not_le)
    show "?i \<le> ?p"
    proof (rule leI, rule notI)
      assume less: "?p < ?i"
      then have p: "?p < length ts" "?p \<le> ?i - 1" using i assms(3) by simp_all
      then have "\<not> ts ! ?p < b" using partition_point_at [of "\<lambda>t. t < b" ts] by simp
      moreover have "ts ! ?p \<le> ts ! (?i - 1)" using p i assms(3) by (intro sorted_nth_mono [OF assms(1)]) linarith+
      ultimately show False using i by (meson le_less_trans)
    qed
  qed
qed

section \<open>The searches in an index\<close>

definition index_bytes :: "(u64 \<times> u64) list \<Rightarrow> bytes" where
  "index_bytes es = concat (map (\<lambda>(t, p). to_be 8 t @ to_be 8 p) es)"

lemma length_index_bytes: "length (index_bytes es) = 16 * length es"
  unfolding index_bytes_def by (subst length_concat_const [of _ 16]) auto

lemma index_entry_bytes:
  assumes "i < length es"
  shows "index_entry (index_bytes es) i = Some (es ! i)"
proof -
  obtain t p where e: "es ! i = (t, p)" by (cases "es ! i")
  have el: "take 16 (drop (16 * i) (index_bytes es)) = to_be 8 t @ to_be 8 p"
    unfolding index_bytes_def using take_drop_concat [of "map (\<lambda>(t, p). to_be 8 t @ to_be 8 p) es" 16 i] assms e by (auto split: prod.splits)
  have "16 * i + 16 \<le> length (index_bytes es)" using assms by (simp add: length_index_bytes)
  then have "slice (index_bytes es) (16 * i) (16 * i + 8) = Some (take 8 (take 16 (drop (16 * i) (index_bytes es))))"
    "slice (index_bytes es) (16 * i + 8) (16 * i + 16) = Some (drop 8 (take 16 (drop (16 * i) (index_bytes es))))"
    by (simp_all add: min_def drop_take add.commute)
  then show ?thesis unfolding el by (simp add: index_entry_def e from_to_be)
qed

lemma find_ge_loop_eq:
  assumes "P = (\<lambda>i. map fst es ! i < nr_beg rng)" and "j < k" and "P j" and "\<not> P k" and "k < length es"
  shows "find_ge_loop rng ex (index_bytes es) j k (fst (es ! j)) (fst (es ! k)) =
    Some (Inr (let e = es ! bisect P j k in if fst e < nr_end rng \<or> ex then Some e else None))"
  using assms
proof (induction P j k rule: bisect.induct)
  case (1 P j k)
  have P: "P i \<longleftrightarrow> fst (es ! i) < nr_beg rng" if "i < length es" for i using that by (simp add: 1(3))
  have lt: "\<not> fst (es ! k) \<le> fst (es ! j)" using 1(4-7) by (simp add: P)
  show ?case
  proof (cases "k - j < 2")
    case True
    then show ?thesis using lt 1(7)
      by (subst find_ge_loop.simps) (simp add: bisect_end index_entry_bytes Let_def case_prod_beta)
  next
    case False
    note m = bisect_step(1) [OF False, of P] bisect_step(2,3) [OF False]
    have ml: "(k + j) div 2 < length es" using m(3) 1(7) by simp
    have "find_ge_loop rng ex (index_bytes es) j k (fst (es ! j)) (fst (es ! k)) =
        (if P ((k + j) div 2) then find_ge_loop rng ex (index_bytes es) ((k + j) div 2) k (fst (es ! ((k + j) div 2))) (fst (es ! k))
         else find_ge_loop rng ex (index_bytes es) j ((k + j) div 2) (fst (es ! j)) (fst (es ! ((k + j) div 2))))"
      using lt False ml by (subst find_ge_loop.simps) (simp add: index_entry_bytes Let_def case_prod_beta P [OF ml])
    then show ?thesis
      using "1.IH"(1) [OF False refl _ 1(3)] "1.IH"(2) [OF False refl _ 1(3)] m 1(5-7) ml by simp
  qed
qed

lemma find_smaller_loop_eq:
  assumes "P = (\<lambda>i. map fst es ! i < nr_beg rng)" and "j < k" and "P j" and "\<not> P k" and "k < length es"
  shows "find_smaller_loop rng (index_bytes es) j k (fst (es ! j)) (fst (es ! k)) = Some (Inr (Some (es ! (bisect P j k - 1))))"
  using assms
proof (induction P j k rule: bisect.induct)
  case (1 P j k)
  have P: "P i \<longleftrightarrow> fst (es ! i) < nr_beg rng" if "i < length es" for i using that by (simp add: 1(3))
  have lt: "\<not> fst (es ! k) \<le> fst (es ! j)" using 1(4-7) by (simp add: P)
  show ?case
  proof (cases "k - j < 2")
    case True
    then have "k - 1 = j" using 1(4) by simp
    then show ?thesis using lt 1(4,7) True
      by (subst find_smaller_loop.simps) (simp add: bisect_end index_entry_bytes Let_def case_prod_beta)
  next
    case False
    note m = bisect_step(1) [OF False, of P] bisect_step(2,3) [OF False]
    have ml: "(k + j) div 2 < length es" using m(3) 1(7) by simp
    have "find_smaller_loop rng (index_bytes es) j k (fst (es ! j)) (fst (es ! k)) =
        (if P ((k + j) div 2) then find_smaller_loop rng (index_bytes es) ((k + j) div 2) k (fst (es ! ((k + j) div 2))) (fst (es ! k))
         else find_smaller_loop rng (index_bytes es) j ((k + j) div 2) (fst (es ! j)) (fst (es ! ((k + j) div 2))))"
      using lt False ml by (subst find_smaller_loop.simps) (simp add: index_entry_bytes Let_def case_prod_beta P [OF ml])
    then show ?thesis
      using "1.IH"(1) [OF False refl _ 1(3)] "1.IH"(2) [OF False refl _ 1(3)] m 1(5-7) ml by simp
  qed
qed

text \<open>The linear search: which of the events is looked for.\<close>

definition wanted :: "NanoRange \<Rightarrow> bool \<Rightarrow> bool \<Rightarrow> TsNano list \<Rightarrow> nat option" where
  "wanted rng expand_left expand_right ts =
     (let i = partition_point (\<lambda>t. t < nr_beg rng) ts in
      if expand_left then (if i = 0 then None else Some (i - 1))
      else if i < length ts \<and> (ts ! i < nr_end rng \<or> expand_right) then Some i else None)"

lemma pp_ends:
  fixes ts :: "u64 list"
  shows "ts = [] \<or> \<not> hd ts < b \<Longrightarrow> partition_point (\<lambda>t. t < b) ts = 0"
    and "sorted ts \<Longrightarrow> ts \<noteq> [] \<Longrightarrow> last ts < b \<Longrightarrow> partition_point (\<lambda>t. t < b) ts = length ts"
proof -
  show "partition_point (\<lambda>t. t < b) ts = 0" if "ts = [] \<or> \<not> hd ts < b"
    using that by (cases ts) (auto simp: partition_point_def)
  show "partition_point (\<lambda>t. t < b) ts = length ts" if "sorted ts" "ts \<noteq> []" "last ts < b"
  proof -
    have "\<forall>t \<in> set ts. t < b" using that by (cases ts rule: rev_cases) (auto simp: sorted_append)
    then show ?thesis by (simp add: partition_point_def takeWhile_eq_all_conv [THEN iffD2])
  qed
qed

lemma wanted_ends:
  assumes "sorted ts" and "ts \<noteq> []"
  shows "last ts < nr_beg rng \<Longrightarrow> wanted rng False ex ts = None \<and> wanted rng True ex ts = Some (length ts - 1)"
    and "\<not> hd ts < nr_beg rng \<Longrightarrow>
      wanted rng False ex ts = (if hd ts < nr_end rng \<or> ex then Some 0 else None) \<and> wanted rng True ex ts = None"
  using pp_ends [of ts "nr_beg rng"] assms by (auto simp: wanted_def hd_conv_nth)

lemma wanted_between:
  assumes "sorted ts" and "ts \<noteq> []" and "hd ts < nr_beg rng" and "\<not> last ts < nr_beg rng"
  defines "i \<equiv> bisect (\<lambda>i. ts ! i < nr_beg rng) 0 (length ts - 1)"
  shows "wanted rng False ex ts = (if ts ! i < nr_end rng \<or> ex then Some i else None)" "wanted rng True ex ts = Some (i - 1)"
    "i < length ts" "0 < length ts - 1"
proof -
  have l: "0 < length ts - 1"
  proof (cases ts rule: rev_cases)
    case (snoc ys y)
    then show ?thesis using assms(3,4) by (cases ys) simp_all
  qed (use assms(2) in simp)
  have e: "ts ! 0 < nr_beg rng" "\<not> ts ! (length ts - 1) < nr_beg rng"
    using assms(2-4) by (simp_all add: hd_conv_nth last_conv_nth)
  note i = bisect_between [OF l, of "\<lambda>i. ts ! i < nr_beg rng", OF e, folded i_def]
  have p: "partition_point (\<lambda>t. t < nr_beg rng) ts = i"
    unfolding i_def using l by (intro bisect_partition_point [OF assms(1) _ _ e, symmetric]) simp_all
  show "i < length ts" "0 < length ts - 1" using i l by linarith+
  then show "wanted rng False ex ts = (if ts ! i < nr_end rng \<or> ex then Some i else None)" "wanted rng True ex ts = Some (i - 1)"
    using i by (auto simp: wanted_def p)
qed

lemma find_eq:
  assumes "sorted (map fst es)"
  shows "find_ge rng ex (index_bytes es) = Some (Inr (map_option ((!) es) (wanted rng False ex (map fst es))))"
    and "find_largest_smaller_than rng ex (index_bytes es) = Some (Inr (map_option ((!) es) (wanted rng True ex (map fst es))))"
proof -
  let ?ts = "map fst es"
  have "find_ge rng ex (index_bytes es) = Some (Inr (map_option ((!) es) (wanted rng False ex ?ts))) \<and>
    find_largest_smaller_than rng ex (index_bytes es) = Some (Inr (map_option ((!) es) (wanted rng True ex ?ts)))"
  proof (cases "es = []")
    case True
    then show ?thesis
      by (simp add: find_ge_def find_largest_smaller_than_def length_index_bytes wanted_def partition_point_def)
  next
    case False
    let ?n = "length es - Suc 0"
    have n: "length (index_bytes es) mod 16 = 0" "length (index_bytes es) \<noteq> 0" "length (index_bytes es) div 16 - 1 = ?n"
      using False by (simp_all add: length_index_bytes)
    have ix: "index_entry (index_bytes es) 0 = Some (es ! 0)" "index_entry (index_bytes es) ?n = Some (es ! ?n)"
      using False by (simp_all add: index_entry_bytes)
    have e: "hd ?ts = fst (es ! 0)" "last ?ts = fst (es ! ?n)"
      using False by (simp_all add: hd_conv_nth last_conv_nth hd_map last_map)
    have ne: "?ts \<noteq> []" using False by simp
    show ?thesis
    proof (cases "last ?ts < nr_beg rng")
      case last: True
      have "hd ?ts \<le> last ?ts" using assms ne by (cases ?ts rule: rev_cases) (auto simp: sorted_append hd_append)
      then have "hd ?ts < nr_beg rng" using last by simp
      then show ?thesis using last wanted_ends(1) [OF assms ne last, of ex] n ix e
        by (simp add: find_ge_def find_largest_smaller_than_def Let_def case_prod_beta not_le)
    next
      case last: False
      show ?thesis
      proof (cases "hd ?ts < nr_beg rng")
        case False
        then show ?thesis using last wanted_ends(2) [OF assms ne False, of ex] n ix e
          by (simp add: find_ge_def find_largest_smaller_than_def Let_def case_prod_beta not_le)
      next
        case hd: True
        note w = wanted_between [OF assms ne hd last]
        have l: "0 < ?n" using w(4) by simp
        then have lt: "?n < length es" "0 < length es" by linarith+
        have P: "?ts ! 0 < nr_beg rng" "\<not> ?ts ! ?n < nr_beg rng" using hd last e lt by simp_all
        note loops = find_ge_loop_eq [OF refl l P lt(1), of ex] find_smaller_loop_eq [OF refl l P lt(1)]
        have "\<not> fst (es ! ?n) \<le> fst (es ! 0)" "\<not> nr_beg rng \<le> fst (es ! 0)" using hd last e by simp_all
        then show ?thesis using hd last e n ix w l
          by (simp add: find_ge_def find_largest_smaller_than_def Let_def case_prod_beta loops)
      qed
    qed
  qed
  then show "find_ge rng ex (index_bytes es) = Some (Inr (map_option ((!) es) (wanted rng False ex ?ts)))"
    "find_largest_smaller_than rng ex (index_bytes es) = Some (Inr (map_option ((!) es) (wanted rng True ex ?ts)))"
    by blast+
qed

section \<open>The searches in a data file\<close>

definition header_ok :: "bytes \<Rightarrow> bool" where
  "header_ok hdr \<longleftrightarrow> (let n = length hdr - 2 in 9 \<le> n \<and> n \<le> 256 \<and> take 2 hdr = [0, 0] \<and>
     take 4 (drop 2 hdr) = to_be 4 (of_nat n :: u32) \<and> drop (2 + n - 4) hdr = to_be 4 (of_nat n :: u32))"

definition event_ok :: "u32 \<Rightarrow> bytes \<Rightarrow> bool" where
  "event_ok L ev \<longleftrightarrow> length ev = unat L \<and> take 4 ev = to_be 4 L \<and> drop (unat L - 4) ev = to_be 4 L"

definition event_ts :: "bytes \<Rightarrow> TsNano" where
  "event_ts ev = from_be (take 8 (drop 12 ev))"

definition static_file :: "bytes \<Rightarrow> u32 \<Rightarrow> bytes list \<Rightarrow> bool" where
  "static_file hdr L evs \<longleftrightarrow> header_ok hdr \<and> 20 \<le> unat L \<and> unat L \<le> 512 \<and> evs \<noteq> [] \<and> (\<forall>ev \<in> set evs. event_ok L ev) \<and>
     sorted (map event_ts evs) \<and> length hdr + unat L * length evs < 2 ^ 63"

definition event_pos :: "bytes \<Rightarrow> u32 \<Rightarrow> nat \<Rightarrow> u64" where
  "event_pos hdr L i = of_nat (length hdr + unat L * i)"

lemma u32_bounds: "9 \<le> unat (L :: u32) \<Longrightarrow> unat L \<le> 512 \<Longrightarrow> \<not> (L < 9 \<or> L > 512)"
  "9 \<le> unat L \<Longrightarrow> unat L \<le> 256 \<Longrightarrow> \<not> (L < 9 \<or> L > 256)"
  by (simp_all add: word_less_nat_alt word_le_nat_alt)

lemma parse_event_ok:
  assumes "event_ok L ev" and "20 \<le> unat L" and "unat L \<le> 512"
  shows "parse_event (ev @ rest) = Some (Inr (L, event_ts ev))"
proof -
  have l: "length ev = unat L" and f: "take 4 ev = to_be 4 L" "drop (unat L - 4) ev = to_be 4 L"
    using assms(1) by (simp_all add: event_ok_def)
  have b: "slice (ev @ rest) 0 4 = Some (to_be 4 L)" "slice (ev @ rest) (unat L - 4) (unat L) = Some (to_be 4 L)"
    "slice (ev @ rest) 12 20 = Some (take 8 (drop 12 ev))"
    using l f assms(2) by (simp_all add: slice_def)
  show ?thesis
    using b l assms(2,3) u32_bounds(1) [of L] by (simp add: parse_event_def Let_def from_to_be event_ts_def)
qed

lemma parse_header_ok:
  assumes "header_ok hdr"
  shows "parse_channel_header (hdr @ rest) = Some (Inr (of_nat (length hdr - 2)))"
    "unat (of_nat (length hdr - 2) :: u32) = length hdr - 2" "11 \<le> length hdr" "length hdr \<le> 258"
proof -
  define n where "n = length hdr - 2"
  have h: "9 \<le> n" "n \<le> 256" "take 2 hdr = [0, 0]" "take 4 (drop 2 hdr) = to_be 4 (of_nat n :: u32)"
    "drop (2 + n - 4) hdr = to_be 4 (of_nat n :: u32)"
    using assms by (simp_all add: header_ok_def Let_def n_def)
  then have l: "length hdr = 2 + n" by (simp add: n_def)
  have u: "unat (of_nat n :: u32) = n" using h(2) by (simp add: unsigned_of_nat take_bit_eq_mod)
  have b: "slice (hdr @ rest) 0 2 = Some [0, 0]" "slice (hdr @ rest) 2 6 = Some (to_be 4 (of_nat n :: u32))"
    "slice (hdr @ rest) (2 + n - 4) (2 + n) = Some (to_be 4 (of_nat n :: u32))"
    using l h by (simp_all add: slice_def)
  have z: "from_be [0, 0] = (0 :: u16)" by (simp add: from_be_def nat_from_be_def)
  show "parse_channel_header (hdr @ rest) = Some (Inr (of_nat (length hdr - 2)))"
  proof -
    have rng: "\<not> (of_nat n < (9 :: u32) \<or> 256 < (of_nat n :: u32))" 
      by (rule u32_bounds(2)) (simp_all only: u h(1,2))
    have ft: "from_be (to_be 4 w) = w" for w :: u32 by (simp add: from_to_be)
    have len: "\<not> length (hdr @ rest) < 6" "\<not> length (hdr @ rest) < 2 + n" using l h(1) by simp_all
    show ?thesis
      unfolding parse_channel_header_def Let_def n_def [symmetric] using rng len
      by (simp only: if_False if_True b bind.bind_lunit z ft u simp_thms)
  qed
  show "unat (of_nat (length hdr - 2) :: u32) = length hdr - 2" unfolding n_def [symmetric] by (rule u)
  show "11 \<le> length hdr" "length hdr \<le> 258" using l h(1,2) by linarith+
qed

lemma unat_small: "n < 2 ^ 64 \<Longrightarrow> unat (of_nat n :: u64) = n"
  by (simp only: unat_of_nat take_bit_eq_mod) simp

lemma unat_eqI: "unat a = unat b \<Longrightarrow> a = b"
  by (rule unsigned_word_eqI)

lemma drop_concat_nth:
  assumes "\<forall>x \<in> set xs. length x = k" and "i < length xs"
  shows "drop (k * i) (concat xs) = xs ! i @ concat (drop (Suc i) xs)"
  using assms
proof (induction xs arbitrary: i)
  case (Cons x xs)
  then show ?case by (cases i) (simp_all add: algebra_simps)
qed simp

lemma static_facts:
  assumes "static_file hdr L evs"
  shows "header_ok hdr" "20 \<le> unat L" "unat L \<le> 512" "evs \<noteq> []" "\<forall>ev \<in> set evs. event_ok L ev" "sorted (map event_ts evs)"
    "length hdr + unat L * length evs < 2 ^ 63" "\<forall>ev \<in> set evs. length ev = unat L"
    "length (hdr @ concat evs) = length hdr + unat L * length evs"
proof -
  show s: "header_ok hdr" "20 \<le> unat L" "unat L \<le> 512" "evs \<noteq> []" "\<forall>ev \<in> set evs. event_ok L ev" "sorted (map event_ts evs)"
    "length hdr + unat L * length evs < 2 ^ 63"
    using assms by (simp_all add: static_file_def)
  show l: "\<forall>ev \<in> set evs. length ev = unat L" using s(5) by (simp add: event_ok_def)
  show "length (hdr @ concat evs) = length hdr + unat L * length evs" using length_concat_const [OF l] by simp
qed

lemma unat_pos:
  assumes "static_file hdr L evs" and "i \<le> length evs"
  shows "unat (event_pos hdr L i) = length hdr + unat L * i" "length hdr + unat L * i < 2 ^ 63"
proof -
  show b: "length hdr + unat L * i < 2 ^ 63"
    using static_facts(7) [OF assms(1)] mult_le_mono2 [OF assms(2), of "unat L"] by linarith
  show "unat (event_pos hdr L i) = length hdr + unat L * i"
    unfolding event_pos_def by (rule unat_small) (use b in simp)
qed

lemma read_event_pos:
  assumes "static_file hdr L evs" and "i < length evs" and "fl_data f = hdr @ concat evs"
  shows "\<exists>p. read_event_at (event_pos hdr L i) f = Some (Inr ((L, event_ts (evs ! i)), f\<lparr>fl_pos := p\<rparr>))"
proof -
  note st = static_facts [OF assms(1)]
  let ?ev = "evs ! i" and ?rest = "concat (drop (Suc i) evs)"
  have ev: "event_ok L ?ev" "length ?ev = unat L" using st(5,8) assms(2) by simp_all
  have "drop (unat (event_pos hdr L i)) (fl_data f) = ?ev @ ?rest"
    using drop_concat_nth [OF st(8) assms(2)] assms(2,3) by (simp add: unat_pos [OF assms(1)])
  then obtain r p where "read_into 1024 (seek_start (event_pos hdr L i) f) = (?ev @ r, f\<lparr>fl_pos := p\<rparr>)"
    using ev(2) st(3) by (simp add: read_into_def seek_start_def Let_def)
  then show ?thesis
    using parse_event_ok [OF ev(1) st(2,3)] by (auto simp: read_event_at_def)
qed

lemma pos_arith:
  assumes "static_file hdr L evs" and "j < k" and "k < length evs"
  shows "event_pos hdr L k - event_pos hdr L j = of_nat (unat L * (k - j))"
    "(event_pos hdr L k - event_pos hdr L j) mod ucast L = 0"
    "event_pos hdr L k - event_pos hdr L j < 2 * ucast L \<longleftrightarrow> k - j < 2"
    "midpoint (ucast L) (event_pos hdr L j) (event_pos hdr L k) = Some (event_pos hdr L ((k + j) div 2))"
    "(ucast L :: u64) \<noteq> 0"
proof -
  note st = static_facts [OF assms(1)]
  define d where "d = k - j"
  have k: "k = j + d" using assms(2) by (simp add: d_def)
  have L: "unat (ucast L :: u64) = unat L" by (rule unat_ucast_u32)
  show L0: "(ucast L :: u64) \<noteq> 0" using L st(2) by auto
  have b: "unat L * d < 2 ^ 63"
    using unat_pos(2) [OF assms(1), of k] assms(3) mult_le_mono2 [of d k "unat L"] k by linarith
  show dd: "event_pos hdr L k - event_pos hdr L j = of_nat (unat L * (k - j))"
    unfolding d_def [symmetric] by (simp add: event_pos_def k algebra_simps)
  have u: "unat (event_pos hdr L k - event_pos hdr L j) = unat L * d"
    unfolding dd d_def [symmetric] by (rule unat_small) (use b in simp)
  show "(event_pos hdr L k - event_pos hdr L j) mod ucast L = 0"
    by (rule unat_eqI) (simp add: unat_mod_u64 u L)
  have "unat (2 * ucast L :: u64) = 2 * unat L" using st(3) by (subst unat_mult_u64) (simp_all add: L)
  then have "event_pos hdr L k - event_pos hdr L j < 2 * ucast L \<longleftrightarrow> unat L * d < unat L * 2"
    by (simp add: word_less_nat_alt u)
  then show "event_pos hdr L k - event_pos hdr L j < 2 * ucast L \<longleftrightarrow> k - j < 2"
    using st(2) by (simp add: d_def)
  have "((event_pos hdr L k - event_pos hdr L j) div 2) div ucast L = of_nat (d div 2)"
  proof (rule unat_eqI)
    have "d \<le> unat L * d" using st(2) by simp
    then have "d div 2 \<le> unat L * d" using div_le_dividend [of d 2] by (rule order_trans [rotated])
    then have "d div 2 < 2 ^ 63" using b by (rule le_less_trans)
    then have "unat (of_nat (d div 2) :: u64) = d div 2" by (intro unat_small) simp
    moreover have "unat L * d div 2 div unat L = d div 2"
      using st(2) by (simp add: div_mult2_eq [symmetric] mult.commute)
    ultimately show "unat (((event_pos hdr L k - event_pos hdr L j) div 2) div ucast L) = unat (of_nat (d div 2) :: u64)"
      by (simp add: unat_div_u64 u L)
  qed
  then have "midpoint (ucast L) (event_pos hdr L j) (event_pos hdr L k) = Some (event_pos hdr L j + of_nat (d div 2) * ucast L)"
    using L0 by (simp add: midpoint_def)
  also have "event_pos hdr L j + of_nat (d div 2) * ucast L = event_pos hdr L (j + d div 2)"
    by (simp add: event_pos_def algebra_simps)
  also have "j + d div 2 = (k + j) div 2" by (simp add: k)
  finally show "midpoint (ucast L) (event_pos hdr L j) (event_pos hdr L k) = Some (event_pos hdr L ((k + j) div 2))" .
qed

lemma located_pos [simp]: "located_at (f\<lparr>fl_pos := p\<rparr>) found n pos = located_at f found n pos"
  by (simp add: located_at_def seek_start_def)

lemma read_event_len:
  assumes "static_file hdr L evs" and "i < length evs" and "fl_data f = hdr @ concat evs"
  obtains p where "read_event_of_len (ucast L) (event_pos hdr L i) f = Some (Inr (event_ts (evs ! i), f\<lparr>fl_pos := p\<rparr>))"
proof -
  have "(ucast (ucast L :: u64) :: u32) = L" by (simp add: ucast_down_ucast_id is_down)
  then show thesis using read_event_pos [OF assms] that by (auto simp: read_event_of_len_def)
qed

definition found_at :: "NanoRange \<Rightarrow> bool \<Rightarrow> bytes \<Rightarrow> u32 \<Rightarrow> bytes list \<Rightarrow> File \<Rightarrow> u32 \<Rightarrow> nat \<Rightarrow> (disk_error, located) result panics" where
  "found_at rng ex hdr L evs f n i =
     (if event_ts (evs ! i) < nr_end rng \<or> ex then located_at f True n (event_pos hdr L i) else located_at f False n 0)"

lemma found_at_pos [simp]: "found_at rng ex hdr L evs (f\<lparr>fl_pos := p\<rparr>) n i = found_at rng ex hdr L evs f n i"
  by (simp add: found_at_def)

lemma position_loop_eq:
  assumes "static_file hdr L evs" and "P = (\<lambda>i. event_ts (evs ! i) < nr_beg rng)" and "j < k" and "P j" and "\<not> P k"
    and "k < length evs" and "fl_data f = hdr @ concat evs"
  shows "\<exists>n'. position_loop rng ex (ucast L) f n (event_pos hdr L j) (event_pos hdr L k) (event_ts (evs ! j)) (event_ts (evs ! k)) =
    found_at rng ex hdr L evs f n' (bisect P j k)"
  using assms(2-)
proof (induction P j k arbitrary: f n rule: bisect.induct)
  case (1 P j k)
  have P: "P i \<longleftrightarrow> event_ts (evs ! i) < nr_beg rng" for i by (simp add: 1(3))
  have lt: "event_ts (evs ! j) < event_ts (evs ! k)" using 1(5,6) by (simp add: P)
  note a = pos_arith [OF assms(1) 1(4,7)]
  show ?case
  proof (cases "k - j < 2")
    case True
    then show ?thesis using lt a
      by (subst position_loop.simps) (auto simp: bisect_end found_at_def)
  next
    case False
    let ?m = "(k + j) div 2"
    note m = bisect_step(1) [OF False, of P] bisect_step(2,3) [OF False]
    have ml: "?m < length evs" using m(3) 1(7) by simp
    obtain p where r: "read_event_of_len (ucast L) (event_pos hdr L ?m) f = Some (Inr (event_ts (evs ! ?m), f\<lparr>fl_pos := p\<rparr>))"
      using read_event_len [OF assms(1) ml 1(8)] .
    have step: "position_loop rng ex (ucast L) f n (event_pos hdr L j) (event_pos hdr L k) (event_ts (evs ! j)) (event_ts (evs ! k)) =
        (if P ?m then position_loop rng ex (ucast L) (f\<lparr>fl_pos := p\<rparr>) (n + 1) (event_pos hdr L ?m) (event_pos hdr L k)
           (event_ts (evs ! ?m)) (event_ts (evs ! k))
         else position_loop rng ex (ucast L) (f\<lparr>fl_pos := p\<rparr>) (n + 1) (event_pos hdr L j) (event_pos hdr L ?m)
           (event_ts (evs ! j)) (event_ts (evs ! ?m)))"
      using lt a False by (subst position_loop.simps) (simp add: r P)
    have d: "fl_data (f\<lparr>fl_pos := p\<rparr>) = hdr @ concat evs" using 1(8) by simp
    show ?thesis
    proof (cases "P ?m")
      case True
      show ?thesis
        using "1.IH"(1) [OF False refl True 1(3) m(3) True 1(6,7) d, of "n + 1"] True m(1) by (simp add: step)
    next
      case ge: False
      show ?thesis
        using "1.IH"(2) [OF False refl ge 1(3) m(2) 1(5) ge ml d, of "n + 1"] ge m(1) by (simp add: step)
    qed
  qed
qed

lemma position_smaller_loop_eq:
  assumes "static_file hdr L evs" and "P = (\<lambda>i. event_ts (evs ! i) < nr_beg rng)" and "j < k" and "P j" and "\<not> P k"
    and "k < length evs" and "fl_data f = hdr @ concat evs"
  shows "\<exists>n'. position_smaller_loop rng (ucast L) f n (event_pos hdr L j) (event_pos hdr L k) =
    located_at f True n' (event_pos hdr L (bisect P j k - 1))"
  using assms(2-)
proof (induction P j k arbitrary: f n rule: bisect.induct)
  case (1 P j k)
  have P: "P i \<longleftrightarrow> event_ts (evs ! i) < nr_beg rng" for i by (simp add: 1(3))
  note a = pos_arith [OF assms(1) 1(4,7)]
  show ?case
  proof (cases "k - j < 2")
    case True
    then have "k - 1 = j" using 1(4) by simp
    then show ?thesis using a True
      by (subst position_smaller_loop.simps) (auto simp: bisect_end)
  next
    case False
    let ?m = "(k + j) div 2"
    note m = bisect_step(1) [OF False, of P] bisect_step(2,3) [OF False]
    have ml: "?m < length evs" using m(3) 1(7) by simp
    obtain p where r: "read_event_of_len (ucast L) (event_pos hdr L ?m) f = Some (Inr (event_ts (evs ! ?m), f\<lparr>fl_pos := p\<rparr>))"
      using read_event_len [OF assms(1) ml 1(8)] .
    have step: "position_smaller_loop rng (ucast L) f n (event_pos hdr L j) (event_pos hdr L k) =
        (if P ?m then position_smaller_loop rng (ucast L) (f\<lparr>fl_pos := p\<rparr>) (n + 1) (event_pos hdr L ?m) (event_pos hdr L k)
         else position_smaller_loop rng (ucast L) (f\<lparr>fl_pos := p\<rparr>) (n + 1) (event_pos hdr L j) (event_pos hdr L ?m))"
      using a False by (subst position_smaller_loop.simps) (simp add: r P)
    have d: "fl_data (f\<lparr>fl_pos := p\<rparr>) = hdr @ concat evs" using 1(8) by simp
    show ?thesis
    proof (cases "P ?m")
      case True
      show ?thesis
        using "1.IH"(1) [OF False refl True 1(3) m(3) True 1(6,7) d, of "n + 1"] True m(1) by (simp add: step)
    next
      case ge: False
      show ?thesis
        using "1.IH"(2) [OF False refl ge 1(3) m(2) 1(5) ge ml d, of "n + 1"] ge m(1) by (simp add: step)
    qed
  qed
qed

lemma read_ends_ok:
  assumes "static_file hdr L evs" and "fl_data f = hdr @ concat evs"
  shows "\<exists>p. read_ends f = Some (Inr (f\<lparr>fl_pos := p\<rparr>, ucast L, event_pos hdr L 0, event_pos hdr L (length evs - 1),
    event_ts (hd evs), event_ts (last evs)))"
proof -
  note st = static_facts [OF assms(1)] and h = parse_header_ok [OF static_facts(1) [OF assms(1)]]
  let ?n = "length evs" and ?L = "ucast L :: u64"
  obtain e es where e: "evs = e # es" using st(4) by (cases evs) auto
  have le: "length e = unat L" "event_ok L e" using st(5,8) e by simp_all
  let ?f0 = "f\<lparr>fl_pos := 0\<rparr>"
  define x where "x = take (1024 - length hdr - unat L) (concat es)"
  have "take 1024 (hdr @ concat evs) = hdr @ e @ x"
    using le st(3) h(4) e by (simp add: x_def)
  then obtain r p where r: "read_into 1024 (seek_start 0 (f\<lparr>fl_pos := of_nat (length (fl_data f))\<rparr>)) = (hdr @ e @ r, f\<lparr>fl_pos := p\<rparr>)"
    using assms(2) by (simp add: read_into_def seek_start_def Let_def del: take_append)
  have L: "unat ?L = unat L" by (rule unat_ucast_u32)
  have L0: "?L \<noteq> 0" using L st(2) by auto
  have off: "2 + ucast (of_nat (length hdr - 2) :: u32) = event_pos hdr L 0"
  proof (rule unat_eqI)
    have "unat (2 + ucast (of_nat (length hdr - 2) :: u32) :: u64) = 2 + (length hdr - 2)"
      using h(2,4) by (subst unat_add_u64) (simp_all add: unat_ucast_u32)
    then show "unat (2 + ucast (of_nat (length hdr - 2) :: u32) :: u64) = unat (event_pos hdr L 0)"
      using unat_pos(1) [OF assms(1), of 0] h(3) by simp
  qed
  have uo: "unat (event_pos hdr L 0) = length hdr" using unat_pos(1) [OF assms(1), of 0] by simp
  have q: "u64_div (of_nat (length (fl_data f)) - event_pos hdr L 0) ?L = Some (of_nat ?n)"
  proof -
    have b: "unat L * ?n < 2 ^ 63" using st(7) by simp
    have "of_nat (length (fl_data f)) - event_pos hdr L 0 = (of_nat (unat L * ?n) :: u64)"
      using st(9) assms(2) by (simp add: event_pos_def)
    moreover have "of_nat (unat L * ?n) div ?L = (of_nat ?n :: u64)"
    proof (rule unat_eqI)
      have "?n \<le> unat L * ?n" using st(2) by simp
      then have "?n < 2 ^ 63" using b by (rule le_less_trans)
      then have "unat (of_nat ?n :: u64) = ?n" by (intro unat_small) simp
      moreover have "unat (of_nat (unat L * ?n) :: u64) = unat L * ?n" by (rule unat_small) (use b in simp)
      ultimately show "unat (of_nat (unat L * ?n) div ?L) = unat (of_nat ?n :: u64)"
        using st(2) by (simp only: unat_div_u64 L) simp
    qed
    ultimately show ?thesis using L0 by simp
  qed
  have k: "(of_nat ?n - 1) * ?L + event_pos hdr L 0 = event_pos hdr L (?n - 1)"
    using e by (simp add: event_pos_def algebra_simps)
  have n1: "?n - 1 < ?n" using st(4) by simp
  obtain p' where last: "read_event_at (event_pos hdr L (?n - 1)) (f\<lparr>fl_pos := p\<rparr>) =
      Some (Inr ((L, event_ts (last evs)), f\<lparr>fl_pos := p'\<rparr>))"
    using read_event_pos [OF assms(1) n1, of "f\<lparr>fl_pos := p\<rparr>"] assms(2) st(4) by (auto simp: last_conv_nth)
  have c: "(ucast ?L :: u32) = L" by (simp add: ucast_down_ucast_id is_down)
  have ev: "parse_event (e @ r) = Some (Inr (L, event_ts e))" by (rule parse_event_ok [OF le(2) st(2,3)])
  show ?thesis
    by (rule exI [of _ p']) (use r q k last h(1) c off uo ev e in \<open>simp add: read_ends_def seek_end_def Let_def\<close>)
qed

lemma datafile_eq:
  assumes "static_file hdr L evs" and "fl_data f = hdr @ concat evs"
  defines "ts \<equiv> map event_ts evs"
  shows "nr_beg rng \<le> nr_end rng \<Longrightarrow> \<exists>n p. position_static_len_datafile f rng ex =
      (case wanted rng False ex ts of Some i \<Rightarrow> located_at f True n (event_pos hdr L i) | None \<Rightarrow> located_at f False n p)"
    and "\<exists>n p. position_static_len_datafile_at_largest_smaller_than f rng ex =
      (case wanted rng True ex ts of Some i \<Rightarrow> located_at f True n (event_pos hdr L i) | None \<Rightarrow> located_at f False n p)"
proof -
  note st = static_facts [OF assms(1)]
  let ?n = "length evs - 1"
  have ts: "sorted ts" "ts \<noteq> []" "hd ts = event_ts (hd evs)" "last ts = event_ts (last evs)" "length ts = length evs"
    using st(4,6) by (simp_all add: ts_def hd_map last_map)
  have hl: "event_ts (hd evs) = event_ts (evs ! 0)" "event_ts (last evs) = event_ts (evs ! ?n)"
    using st(4) by (simp_all add: hd_conv_nth last_conv_nth)
  obtain p where e: "read_ends f = Some (Inr (f\<lparr>fl_pos := p\<rparr>, ucast L, event_pos hdr L 0, event_pos hdr L ?n,
      event_ts (hd evs), event_ts (last evs)))"
    using read_ends_ok [OF assms(1,2)] by auto
  have d: "fl_data (f\<lparr>fl_pos := p\<rparr>) = hdr @ concat evs" using assms(2) by simp
  have hd_last: "hd ts \<le> last ts" using ts(1,2) by (cases ts rule: rev_cases) (auto simp: sorted_append hd_append)
  let ?P = "\<lambda>i. event_ts (evs ! i) < nr_beg rng"
  have nth: "ts ! i = event_ts (evs ! i)" if "i < length evs" for i using that by (simp add: ts_def)
  have loops: "\<exists>n. position_loop rng ex (ucast L) (f\<lparr>fl_pos := p\<rparr>) 2 (event_pos hdr L 0) (event_pos hdr L ?n)
        (event_ts (hd evs)) (event_ts (last evs)) =
        (case wanted rng False ex ts of Some i \<Rightarrow> located_at f True n (event_pos hdr L i) | None \<Rightarrow> located_at f False n 0)"
      "\<exists>n. position_smaller_loop rng (ucast L) (f\<lparr>fl_pos := p\<rparr>) 2 (event_pos hdr L 0) (event_pos hdr L ?n) =
        (case wanted rng True ex ts of Some i \<Rightarrow> located_at f True n (event_pos hdr L i) | None \<Rightarrow> located_at f False n 0)"
    if "hd ts < nr_beg rng" "\<not> last ts < nr_beg rng"
  proof -
    note w = wanted_between [OF ts(1,2) that]
    have l: "0 < ?n" "?n < length evs" using w(4) ts(5) by linarith+
    have P: "?P 0" "\<not> ?P ?n" using that ts(3,4) hl by simp_all
    have eq: "bisect (\<lambda>i. ts ! i < nr_beg rng) 0 (length ts - 1) = bisect ?P 0 ?n"
      unfolding ts(5) by (rule bisect_cong) (simp add: nth)
    note w = w [unfolded eq]
    note lp = position_loop_eq [OF assms(1) refl l(1) P l(2) d, of ex 2] position_smaller_loop_eq [OF assms(1) refl l(1) P l(2) d, of 2]
    have i: "bisect ?P 0 ?n < length evs" using w(3) ts(5) by simp
    show "\<exists>n. position_loop rng ex (ucast L) (f\<lparr>fl_pos := p\<rparr>) 2 (event_pos hdr L 0) (event_pos hdr L ?n)
        (event_ts (hd evs)) (event_ts (last evs)) =
        (case wanted rng False ex ts of Some i \<Rightarrow> located_at f True n (event_pos hdr L i) | None \<Rightarrow> located_at f False n 0)"
      using lp(1) unfolding hl w(1) nth [OF i] found_at_pos by (simp only: found_at_def split: if_split) auto
    show "\<exists>n. position_smaller_loop rng (ucast L) (f\<lparr>fl_pos := p\<rparr>) 2 (event_pos hdr L 0) (event_pos hdr L ?n) =
        (case wanted rng True ex ts of Some i \<Rightarrow> located_at f True n (event_pos hdr L i) | None \<Rightarrow> located_at f False n 0)"
      using lp(2) unfolding w(2) located_pos by simp
  qed
  note ends = wanted_ends [OF ts(1,2), of rng ex]
  show "\<exists>n p. position_static_len_datafile f rng ex =
      (case wanted rng False ex ts of Some i \<Rightarrow> located_at f True n (event_pos hdr L i) | None \<Rightarrow> located_at f False n p)"
    if ord: "nr_beg rng \<le> nr_end rng"
  proof (cases "last ts < nr_beg rng")
    case True
    then have "\<not> nr_end rng \<le> hd ts" using hd_last ord by simp
    then show ?thesis using True ends(1) [OF True] by (auto simp: position_static_len_datafile_def e ts(3,4))
  next
    case last: False
    show ?thesis
    proof (cases "hd ts < nr_beg rng")
      case False
      then show ?thesis using last ends(2) [OF False]
        by (auto simp: position_static_len_datafile_def e ts(3,4) not_le not_less)
    next
      case True
      then have "\<not> nr_end rng \<le> hd ts" "\<not> nr_beg rng \<le> hd ts" using ord by simp_all
      then show ?thesis using last True loops(1) [OF True last] by (auto simp: position_static_len_datafile_def e ts(3,4))
    qed
  qed
  show "\<exists>n p. position_static_len_datafile_at_largest_smaller_than f rng ex =
      (case wanted rng True ex ts of Some i \<Rightarrow> located_at f True n (event_pos hdr L i) | None \<Rightarrow> located_at f False n p)"
  proof (cases "last ts < nr_beg rng")
    case True
    then have "\<not> nr_beg rng \<le> hd ts" using hd_last by simp
    then show ?thesis using True ends(1) [OF True] ts(5)
      by (auto simp: position_static_len_datafile_at_largest_smaller_than_def e ts(3,4))
  next
    case last: False
    show ?thesis
    proof (cases "hd ts < nr_beg rng")
      case False
      then show ?thesis using ends(2) [OF False]
        by (auto simp: position_static_len_datafile_at_largest_smaller_than_def e ts(3,4) not_le not_less)
    next
      case True
      then have "\<not> nr_beg rng \<le> hd ts" by simp
      then show ?thesis using last True loops(2) [OF True last]
        by (auto simp: position_static_len_datafile_at_largest_smaller_than_def e ts(3,4))
    qed
  qed
qed

section \<open>With or without an index\<close>

text \<open>The index of a data file: two bytes, then the timestamp and the position of every event.\<close>

definition index_of :: "bytes \<Rightarrow> u32 \<Rightarrow> bytes list \<Rightarrow> bytes \<Rightarrow> bytes" where
  "index_of hdr L evs pre = pre @ index_bytes (map (\<lambda>i. (event_ts (evs ! i), event_pos hdr L i)) [0..<length evs])"

lemma wanted_bound: "wanted rng xl xr ts = Some i \<Longrightarrow> i < length ts"
proof -
  assume w: "wanted rng xl xr ts = Some i"
  note pp = partition_point_le [of "\<lambda>t. t < nr_beg rng" ts]
  show ?thesis
    using w pp by (auto simp: wanted_def Let_def split: if_splits)
qed

text \<open>
  C20. In a data file of events of equal length in time order, opening a file for a range finds the event
  that a linear search finds, leaves the file positioned at it, and does so alike by bisecting the
  data file and by bisecting its index: the first event at or after the beginning of the range, if it is
  before the end or one more event is asked for on the right, or the last event before
  the range if that is asked for.
\<close>

theorem index_and_scan_agree:
  assumes "static_file hdr L evs" and "nr_beg rng \<le> nr_end rng" and "\<not> (xl \<and> xr)"
    and "length pre = 2" and "16 * length evs + 2 \<le> 1024 * 1024 * 500"
    and "ix = None \<or> ix = Some (index_of hdr L evs pre)"
  defines "w \<equiv> wanted rng xl xr (map event_ts evs)"
  shows "\<exists>po. position_file (Some (hdr @ concat evs)) ix rng xl xr = Some (Inr po) \<and> po_found po = (w \<noteq> None) \<and>
    (\<forall>i. w = Some i \<longrightarrow> of_pos (po_file po) = event_pos hdr L i \<and>
       of_file (po_file po) = Some \<lparr>fl_data = hdr @ concat evs, fl_pos = event_pos hdr L i\<rparr> \<and>
       take (unat L) (drop (unat (event_pos hdr L i)) (hdr @ concat evs)) = evs ! i)"
proof -
  note st = static_facts [OF assms(1)]
  let ?f = "\<lparr>fl_data = hdr @ concat evs, fl_pos = 0\<rparr>"
  let ?es = "map (\<lambda>i. (event_ts (evs ! i), event_pos hdr L i)) [0..<length evs]"
  have at: "take (unat L) (drop (unat (event_pos hdr L i)) (hdr @ concat evs)) = evs ! i" if "w = Some i" for i
  proof -
    have i: "i < length evs" using wanted_bound that by (fastforce simp: w_def)
    then show ?thesis
      using drop_concat_nth [OF st(8) i] st(8) by (simp add: unat_pos(1) [OF assms(1)])
  qed
  from assms(6) show ?thesis
  proof
    assume ix: "ix = None"
    have ends: "xr = False" if xl using assms(3) that by simp
    show ?thesis
    proof (cases xl)
      case True
      then obtain n p where "position_static_len_datafile_at_largest_smaller_than ?f rng xr =
          (case w of Some i \<Rightarrow> located_at ?f True n (event_pos hdr L i) | None \<Rightarrow> located_at ?f False n p)"
        using datafile_eq(2) [OF assms(1), of ?f rng xr] by (auto simp: w_def)
      then show ?thesis using True ix assms(3) at
        by (cases w) (auto simp: position_file_def located_at_def opened_def seek_start_def Let_def)
    next
      case False
      then obtain n p where "position_static_len_datafile ?f rng xr =
          (case w of Some i \<Rightarrow> located_at ?f True n (event_pos hdr L i) | None \<Rightarrow> located_at ?f False n p)"
        using datafile_eq(1) [OF assms(1) _ assms(2), of ?f xr] by (auto simp: w_def)
      then show ?thesis using False ix at
        by (cases w) (auto simp: position_file_def located_at_def opened_def seek_start_def Let_def)
    qed
  next
    assume ix: "ix = Some (index_of hdr L evs pre)"
    have ts: "map fst ?es = map event_ts evs" by (rule nth_equalityI) simp_all
    have srt: "sorted (map fst ?es)" unfolding ts by (rule st(6))
    have len: "length (index_of hdr L evs pre) = 2 + 16 * length evs" "drop 2 (index_of hdr L evs pre) = index_bytes ?es"
      using assms(4) by (simp_all add: index_of_def length_index_bytes)
    have find: "(if xl then find_largest_smaller_than rng xr (drop 2 (index_of hdr L evs pre))
        else find_ge rng xr (drop 2 (index_of hdr L evs pre))) = Some (Inr (map_option ((!) ?es) w))"
      unfolding len(2) using find_eq [OF srt, of rng xr, unfolded ts] by (simp add: w_def)
    have "?es ! i = (event_ts (evs ! i), event_pos hdr L i)" if "w = Some i" for i
      using wanted_bound that by (fastforce simp: w_def)
    moreover have "\<not> length (index_of hdr L evs pre) > 1024 * 1024 * 500" "\<not> length (index_of hdr L evs pre) < 2"
      using assms(5) unfolding len(1) by linarith+
    moreover have "length (index_of hdr L evs pre) mod 16 = 2" unfolding len(1) by presburger
    ultimately show ?thesis using ix assms(3) at find
      by (cases w) (auto simp: position_file_def opened_def seek_start_def Let_def)
  qed
qed

text \<open>A file with three events of 24 bytes.\<close>

definition demo_header :: bytes where
  "demo_header = [0, 0] @ to_be 4 (9 :: u32) @ [7] @ to_be 4 (9 :: u32)"

definition demo_event :: "u64 \<Rightarrow> bytes" where
  "demo_event t = to_be 4 (24 :: u32) @ replicate 8 0 @ to_be 8 t @ to_be 4 (24 :: u32)"

lemma demo_event_ts [simp]: "event_ts (demo_event t) = t"
  by (simp add: event_ts_def demo_event_def from_to_be)

lemma demo_event_ok: "event_ok 24 (demo_event t)"
  by (simp add: event_ok_def demo_event_def)

lemma demo_static: "static_file demo_header 24 (map demo_event [100, 200, 300])"
  by (simp add: static_file_def header_ok_def demo_header_def demo_event_ok Let_def)

theorem index_and_scan_agree_witness:
  "\<exists>po. position_file (Some (demo_header @ concat (map demo_event [100, 200, 300]))) None \<lparr>nr_beg = 150, nr_end = 250\<rparr> False False =
      Some (Inr po) \<and> po_found po \<and> of_pos (po_file po) = 35"
proof -
  have "wanted \<lparr>nr_beg = 150, nr_end = 250\<rparr> False False [100, 200, 300] = Some 1"
    by (simp add: wanted_def partition_point_def)
  then show ?thesis
    using index_and_scan_agree [OF demo_static, of "\<lparr>nr_beg = 150, nr_end = 250\<rparr>" False False "[0, 0]" None]
    by (auto simp: event_pos_def demo_header_def comp_def)
qed

end
