(* ===== verification/Frames.thy ===== *)
theory Frames
  imports SlideBuf Streams
begin

text \<open>
  The framing of item streams between nodes. A frame is a head of 20 bytes (magic, encoder id, type
  id, payload length and payload checksum, little endian), the payload, and a foot with the checksum
  of head and payload. \<^verbatim>\<open>items-2/src/frame.rs\<close> and \<^verbatim>\<open>framable.rs\<close> make the frames of a stream item,
  \<^verbatim>\<open>items-2/src/inmem.rs\<close> parses one frame, \<^verbatim>\<open>streams/src/frames/inmem.rs\<close> cuts a stream of byte
  chunks into frames over a \<^verbatim>\<open>SlideBuf\<close>, and \<^verbatim>\<open>streams/src/frames/eventsfromframes.rs\<close> decodes the
  frames back into stream items.

  The checksum (crate \<^verbatim>\<open>crc32fast\<close>) and the encoders and decoders of payloads (crates
  \<^verbatim>\<open>postcard\<close> and \<^verbatim>\<open>serde_json\<close>) are parameters.
\<close>

section \<open>Frames\<close>

definition INMEM_FRAME_ENCID :: u32 where "INMEM_FRAME_ENCID = 0x12121212"
definition INMEM_FRAME_HEAD :: nat where "INMEM_FRAME_HEAD = 20"
definition INMEM_FRAME_FOOT :: nat where "INMEM_FRAME_FOOT = 4"
definition INMEM_FRAME_MAGIC :: u32 where "INMEM_FRAME_MAGIC = 0xc6c3b73d"

definition TERM_FRAME_TYPE_ID :: u32 where "TERM_FRAME_TYPE_ID = 0xaa0001"
definition ERROR_FRAME_TYPE_ID :: u32 where "ERROR_FRAME_TYPE_ID = 0xaa0002"
definition SITEMTY_NONSPEC_FRAME_TYPE_ID :: u32 where "SITEMTY_NONSPEC_FRAME_TYPE_ID = 0xaa0004"
definition LOG_FRAME_TYPE_ID :: u32 where "LOG_FRAME_TYPE_ID = 0xc0000"
definition STATS_FRAME_TYPE_ID :: u32 where "STATS_FRAME_TYPE_ID = 0xd0000"
definition RANGE_COMPLETE_FRAME_TYPE_ID :: u32 where "RANGE_COMPLETE_FRAME_TYPE_ID = 0xe0000"

lemmas frame_ids = TERM_FRAME_TYPE_ID_def ERROR_FRAME_TYPE_ID_def LOG_FRAME_TYPE_ID_def
  STATS_FRAME_TYPE_ID_def RANGE_COMPLETE_FRAME_TYPE_ID_def SITEMTY_NONSPEC_FRAME_TYPE_ID_def

record InMemoryFrame =
  fr_encid :: u32
  fr_tyid :: u32
  fr_len :: u32
  fr_buf :: bytes

datatype inmem_error = LessThanHeader | BadMagic u32 | HugeFrame u32 | BadCrc

datatype 'a ParseResult = NotEnoughData nat | Parsed nat 'a

definition le_u32_at :: "bytes \<Rightarrow> nat \<Rightarrow> u32 panics" where
  "le_u32_at buf i = do { s \<leftarrow> slice buf i (i + 4); Some (from_le s) }"

definition InMemoryFrame_parse ::
  "(bytes \<Rightarrow> u32) \<Rightarrow> bytes \<Rightarrow> (inmem_error, InMemoryFrame ParseResult) result panics" where
  "InMemoryFrame_parse crc buf =
     (if length buf < INMEM_FRAME_HEAD then Some (Inl LessThanHeader)
      else do {
        magic \<leftarrow> le_u32_at buf 0;
        encid \<leftarrow> le_u32_at buf 4;
        tyid \<leftarrow> le_u32_at buf 8;
        len \<leftarrow> le_u32_at buf 12;
        payload_crc_exp \<leftarrow> le_u32_at buf 16;
        if magic \<noteq> INMEM_FRAME_MAGIC then Some (Inl (BadMagic magic))
        else if len > 1024 * 1024 * 50 then Some (Inl (HugeFrame len))
        else
          let lentot = INMEM_FRAME_HEAD + INMEM_FRAME_FOOT + unat len in
          if length buf < lentot then Some (Inr (NotEnoughData lentot))
          else do {
            let p1 = INMEM_FRAME_HEAD + unat len;
            frame \<leftarrow> slice buf 0 p1;
            payload \<leftarrow> slice buf INMEM_FRAME_HEAD p1;
            frame_crc_ind \<leftarrow> le_u32_at buf p1;
            let payload_crc_match = (payload_crc_exp = crc payload);
            let frame_crc_match = (frame_crc_ind = crc frame);
            if \<not> frame_crc_match \<or> \<not> payload_crc_match then Some (Inl BadCrc)
            else Some (Inr (Parsed lentot \<lparr>fr_encid = encid, fr_tyid = tyid, fr_len = len, fr_buf = payload\<rparr>))
          }
      })"

text \<open>The bytes that every maker of a frame puts into its buffer, around the encoded payload.\<close>

definition frame_bytes :: "(bytes \<Rightarrow> u32) \<Rightarrow> u32 \<Rightarrow> u32 \<Rightarrow> bytes \<Rightarrow> bytes" where
  "frame_bytes crc encid fty enc =
     (let payload_crc = crc enc;
          buf = to_le 4 INMEM_FRAME_MAGIC @ to_le 4 encid @ to_le 4 fty @
            to_le 4 (of_nat (length enc) :: u32) @ to_le 4 payload_crc @ enc;
          frame_crc = crc buf
      in buf @ to_le 4 frame_crc)"

text \<open>
  The errors of \<^verbatim>\<open>frame.rs\<close> that the selected encoders can give; \<open>'e\<close> is the error type of the
  encoding crates. \<open>PostcardDe\<close> carries the first 40 bytes of the payload (the code formats them as
  text) and leaves out the name of the type.
\<close>

datatype 'e frame_error =
  TooLongPayload nat | UnknownEncoder u32 | BufferMismatch u32 nat u32 | TyIdMismatch u32 u32
| PostcardSer 'e | PostcardDe 'e nat bytes | SerdeJson 'e

record ('a, 'e) Serde =
  to_stdvec :: "'a \<Rightarrow> ('e, bytes) result"
  from_bytes :: "bytes \<Rightarrow> ('e, 'a) result"

definition encode_to_vec :: "('a, 'e) Serde \<Rightarrow> 'a \<Rightarrow> ('e frame_error, bytes) result" where
  "encode_to_vec sd item = (case to_stdvec sd item of Inl e \<Rightarrow> Inl (PostcardSer e) | Inr x \<Rightarrow> Inr x)"

definition decode_from_slice :: "('a, 'e) Serde \<Rightarrow> bytes \<Rightarrow> ('e frame_error, 'a) result" where
  "decode_from_slice sd buf =
     (case from_bytes sd buf of
        Inl e \<Rightarrow> Inl (PostcardDe e (length buf) (take (min (length buf) 40) buf)) | Inr x \<Rightarrow> Inr x)"

definition json_to_vec :: "('a, 'e) Serde \<Rightarrow> 'a \<Rightarrow> ('e frame_error, bytes) result" where
  "json_to_vec sd item = (case to_stdvec sd item of Inl e \<Rightarrow> Inl (SerdeJson e) | Inr x \<Rightarrow> Inr x)"

definition json_from_slice :: "('a, 'e) Serde \<Rightarrow> bytes \<Rightarrow> ('e frame_error, 'a) result" where
  "json_from_slice sd buf = (case from_bytes sd buf of Inl e \<Rightarrow> Inl (SerdeJson e) | Inr x \<Rightarrow> Inr x)"

definition make_frame_2 ::
  "(bytes \<Rightarrow> u32) \<Rightarrow> ('a, 'e) Serde \<Rightarrow> 'a \<Rightarrow> u32 \<Rightarrow> ('e frame_error, bytes) result" where
  "make_frame_2 crc sd item fty =
     (case encode_to_vec sd item of Inl e \<Rightarrow> Inl e
      | Inr enc \<Rightarrow>
          if length enc > 4294967295 then Inl (TooLongPayload (length enc))
          else Inr (frame_bytes crc INMEM_FRAME_ENCID fty enc))"

definition make_error_frame :: "(bytes \<Rightarrow> u32) \<Rightarrow> ('a, 'e) Serde \<Rightarrow> 'a \<Rightarrow> ('e frame_error, bytes) result" where
  "make_error_frame crc sd error =
     (case json_to_vec sd error of Inl e \<Rightarrow> Inl e
      | Inr enc \<Rightarrow> Inr (frame_bytes crc INMEM_FRAME_ENCID ERROR_FRAME_TYPE_ID enc))"

definition make_log_frame ::
  "(bytes \<Rightarrow> u32) \<Rightarrow> (LogItem, 'e) Serde \<Rightarrow> LogItem \<Rightarrow> ('e frame_error, bytes) result" where
  "make_log_frame crc sd item =
     (case encode_to_vec sd item of Inl e \<Rightarrow> Inl e
      | Inr enc \<Rightarrow> Inr (frame_bytes crc INMEM_FRAME_ENCID LOG_FRAME_TYPE_ID enc))"

definition make_stats_frame ::
  "(bytes \<Rightarrow> u32) \<Rightarrow> (StatsItem, 'e) Serde \<Rightarrow> StatsItem \<Rightarrow> ('e frame_error, bytes) result" where
  "make_stats_frame crc sd item =
     (case encode_to_vec sd item of Inl e \<Rightarrow> Inl e
      | Inr enc \<Rightarrow> Inr (frame_bytes crc INMEM_FRAME_ENCID STATS_FRAME_TYPE_ID enc))"

definition make_range_complete_frame :: "(bytes \<Rightarrow> u32) \<Rightarrow> ('e frame_error, bytes) result" where
  "make_range_complete_frame crc = Inr (frame_bytes crc INMEM_FRAME_ENCID RANGE_COMPLETE_FRAME_TYPE_ID [])"

definition make_term_frame :: "(bytes \<Rightarrow> u32) \<Rightarrow> ('e frame_error, bytes) result" where
  "make_term_frame crc = Inr (frame_bytes crc INMEM_FRAME_ENCID TERM_FRAME_TYPE_ID [])"

text \<open>
  The encoders that the frames of a \<^verbatim>\<open>Sitemty<T>\<close> use, its static type id and the type id of a
  data value.
\<close>

record ('err, 't, 'e) Codec =
  cd_item :: "(('err, 't) Sitemty, 'e) Serde"
  cd_log :: "(LogItem, 'e) Serde"
  cd_stats :: "(StatsItem, 'e) Serde"
  cd_error :: "('err, 'e) Serde"
  FRAME_TYPE_ID :: u32
  frame_type_id :: "'t \<Rightarrow> u32"

definition make_frame_dyn ::
  "(bytes \<Rightarrow> u32) \<Rightarrow> ('err, 't, 'e) Codec \<Rightarrow> ('err, 't) Sitemty \<Rightarrow> ('e frame_error, bytes) result" where
  "make_frame_dyn crc cd self =
     (case self of
        Inr (DataItem (Data k)) \<Rightarrow> make_frame_2 crc (cd_item cd) self (frame_type_id cd k)
      | Inr (DataItem RangeComplete) \<Rightarrow> make_range_complete_frame crc
      | Inr (Log item) \<Rightarrow> make_log_frame crc (cd_log cd) item
      | Inr (Stats item) \<Rightarrow> make_stats_frame crc (cd_stats cd) item
      | Inl e \<Rightarrow> make_error_frame crc (cd_error cd) e)"

definition sitemty_frame_type_id :: "('err, 't, 'e) Codec \<Rightarrow> ('err, 't) Sitemty \<Rightarrow> u32" where
  "sitemty_frame_type_id cd self =
     (case self of
        Inr item \<Rightarrow> (case item of
            DataItem item \<Rightarrow> (case item of RangeComplete \<Rightarrow> SITEMTY_NONSPEC_FRAME_TYPE_ID | Data item \<Rightarrow> frame_type_id cd item)
          | Log _ \<Rightarrow> SITEMTY_NONSPEC_FRAME_TYPE_ID
          | Stats _ \<Rightarrow> SITEMTY_NONSPEC_FRAME_TYPE_ID)
      | Inl _ \<Rightarrow> ERROR_FRAME_TYPE_ID)"

definition decode_frame ::
  "('err, 't, 'e) Codec \<Rightarrow> InMemoryFrame \<Rightarrow> ('e frame_error, ('err, 't) Sitemty) result" where
  "decode_frame cd frame =
     (if fr_encid frame \<noteq> INMEM_FRAME_ENCID then Inl (UnknownEncoder (fr_encid frame))
      else if unat (fr_len frame) \<noteq> length (fr_buf frame) then
        Inl (BufferMismatch (fr_len frame) (length (fr_buf frame)) (fr_tyid frame))
      else if fr_tyid frame = ERROR_FRAME_TYPE_ID then
        (case json_from_slice (cd_error cd) (fr_buf frame) of Inl e \<Rightarrow> Inl e | Inr k \<Rightarrow> Inr (Inl k))
      else if fr_tyid frame = LOG_FRAME_TYPE_ID then
        (case decode_from_slice (cd_log cd) (fr_buf frame) of Inl e \<Rightarrow> Inl e | Inr k \<Rightarrow> Inr (Inr (Log k)))
      else if fr_tyid frame = STATS_FRAME_TYPE_ID then
        (case decode_from_slice (cd_stats cd) (fr_buf frame) of Inl e \<Rightarrow> Inl e | Inr k \<Rightarrow> Inr (Inr (Stats k)))
      else if fr_tyid frame = RANGE_COMPLETE_FRAME_TYPE_ID then Inr (Inr (DataItem RangeComplete))
      else if fr_tyid frame \<noteq> FRAME_TYPE_ID cd then Inl (TyIdMismatch (FRAME_TYPE_ID cd) (fr_tyid frame))
      else decode_from_slice (cd_item cd) (fr_buf frame))"

section \<open>The stream of frames\<close>

datatype ifs_error = Input | Slidebuf sb_error | LessThanNeedMin | EnoughInputNothingParsed | InMemParse inmem_error

record 'ie InMemoryFrameStream =
  ifs_inp :: "('ie, bytes) result poll list"
  ifs_buf :: SlideBuf
  ifs_need_min :: nat
  ifs_done :: bool
  ifs_complete :: bool
  ifs_bytes_consumed :: u64

definition ifs_new :: "('ie, bytes) result poll list \<Rightarrow> nat \<Rightarrow> 'ie InMemoryFrameStream" where
  "ifs_new inp bufcap =
     \<lparr>ifs_inp = inp, ifs_buf = sb_new bufcap, ifs_need_min = INMEM_FRAME_HEAD, ifs_done = False,
      ifs_complete = False, ifs_bytes_consumed = 0\<rparr>"

definition poll_upstream ::
  "'ie InMemoryFrameStream \<Rightarrow> ((ifs_error, nat) result poll \<times> 'ie InMemoryFrameStream) panics" where
  "poll_upstream s =
     (case ifs_inp s of
        [] \<Rightarrow> Some (Ready (Inr 0), s)
      | Pending # r \<Rightarrow> Some (Pending, s\<lparr>ifs_inp := r\<rparr>)
      | Ready (Inl _) # r \<Rightarrow> Some (Ready (Inl Input), s\<lparr>ifs_inp := r\<rparr>)
      | Ready (Inr x) # r \<Rightarrow> do {
          (dst, b) \<leftarrow> sb_available_writable_area (length x) (ifs_buf s);
          case dst of
            Inl e \<Rightarrow> Some (Ready (Inl (Slidebuf e)), s\<lparr>ifs_inp := r, ifs_buf := b\<rparr>)
          | Inr _ \<Rightarrow> do {
              b \<leftarrow> sb_fill x b;
              (w, b) \<leftarrow> sb_wadv (length x) b;
              Some (Ready (case w of Inl e \<Rightarrow> Inl (Slidebuf e) | Inr _ \<Rightarrow> Inr (length x)),
                s\<lparr>ifs_inp := r, ifs_buf := b\<rparr>)
            }
        })"

definition ifs_parse ::
  "(bytes \<Rightarrow> u32) \<Rightarrow> 'ie InMemoryFrameStream \<Rightarrow>
   ((ifs_error, InMemoryFrame option) result \<times> 'ie InMemoryFrameStream) panics" where
  "ifs_parse crc s = do {
     buf \<leftarrow> sb_data (ifs_buf s);
     if length buf < ifs_need_min s then Some (Inl LessThanNeedMin, s)
     else do {
       x \<leftarrow> InMemoryFrame_parse crc buf;
       case x of
         Inl e \<Rightarrow> Some (Inl (InMemParse e), s)
       | Inr (NotEnoughData n) \<Rightarrow> Some (Inr None, s\<lparr>ifs_need_min := n\<rparr>)
       | Inr (Parsed lentot val) \<Rightarrow> do {
           (a, b) \<leftarrow> sb_adv lentot (ifs_buf s);
           case a of
             Inl e \<Rightarrow> Some (Inl (Slidebuf e), s\<lparr>ifs_buf := b\<rparr>)
           | Inr _ \<Rightarrow> Some (Inr (Some val),
               s\<lparr>ifs_buf := b, ifs_need_min := INMEM_FRAME_HEAD,
                 ifs_bytes_consumed := ifs_bytes_consumed s + of_nat lentot\<rparr>)
         }
     }
   }"

text \<open>The argument \<open>ec\<close> is the conversion of the errors into the error type of the items.\<close>

partial_function (option) ifs_poll_next ::
  "(bytes \<Rightarrow> u32) \<Rightarrow> (ifs_error \<Rightarrow> 'err) \<Rightarrow> 'ie InMemoryFrameStream \<Rightarrow>
   (('err, InMemoryFrame) Sitemty option poll \<times> 'ie InMemoryFrameStream) option" where
  "ifs_poll_next crc ec s =
     (if ifs_complete s then None
      else if ifs_done s then Some (Ready None, s\<lparr>ifs_complete := True\<rparr>)
      else if sb_len (ifs_buf s) \<ge> ifs_need_min s then do {
        (r, s) \<leftarrow> ifs_parse crc s;
        case r of
          Inr None \<Rightarrow>
            if sb_len (ifs_buf s) \<ge> ifs_need_min s then
              Some (Ready (Some (Inl (ec EnoughInputNothingParsed))), s\<lparr>ifs_done := True\<rparr>)
            else ifs_poll_next crc ec s
        | Inr (Some item) \<Rightarrow>
            if fr_tyid item = TERM_FRAME_TYPE_ID then ifs_poll_next crc ec (s\<lparr>ifs_done := True\<rparr>)
            else Some (Ready (Some (Inr (DataItem (Data item)))), s)
        | Inl e \<Rightarrow> Some (Ready (Some (Inl (ec e))), s\<lparr>ifs_done := True\<rparr>)
      }
      else do {
        (r, s) \<leftarrow> poll_upstream s;
        case r of
          Ready (Inr n1) \<Rightarrow>
            if n1 = 0 then ifs_poll_next crc ec (s\<lparr>ifs_done := True\<rparr>) else ifs_poll_next crc ec s
        | Ready (Inl e) \<Rightarrow> Some (Ready (Some (Inl (ec e))), s\<lparr>ifs_done := True\<rparr>)
        | Pending \<Rightarrow> Some (Pending, s)
      })"

section \<open>Decoding the frames\<close>

record 's EventsFromFrames =
  eff_inp :: 's
  eff_errored :: bool
  eff_completed :: bool

definition eff_new :: "'s \<Rightarrow> 's EventsFromFrames" where
  "eff_new inp = \<lparr>eff_inp = inp, eff_errored = False, eff_completed = False\<rparr>"

text \<open>
  \<open>ipoll\<close> polls the input, \<open>es\<close> and \<open>fs\<close> are the conversions of input errors and of errors of a
  frame into the error type of the items.
\<close>

definition eff_poll_next ::
  "('err, 't, 'e) Codec \<Rightarrow> ('err \<Rightarrow> 'err) \<Rightarrow> ('e frame_error \<Rightarrow> 'err) \<Rightarrow>
   ('s \<Rightarrow> (('err, InMemoryFrame) Sitemty option poll \<times> 's) panics) \<Rightarrow> 's EventsFromFrames \<Rightarrow>
   (('err, 't) Sitemty option poll \<times> 's EventsFromFrames) panics" where
  "eff_poll_next cd es fs ipoll s =
     (if eff_completed s then None
      else if eff_errored s then Some (Ready None, s\<lparr>eff_completed := True\<rparr>)
      else do {
        (r, i) \<leftarrow> ipoll (eff_inp s);
        let s = s\<lparr>eff_inp := i\<rparr>;
        case r of
          Ready (Some (Inr (Log item))) \<Rightarrow> Some (Ready (Some (Inr (Log item))), s)
        | Ready (Some (Inr (Stats item))) \<Rightarrow> Some (Ready (Some (Inr (Stats item))), s)
        | Ready (Some (Inr (DataItem (Data frame)))) \<Rightarrow>
            (case decode_frame cd frame of
               Inr (Inr (DataItem (Data item3))) \<Rightarrow> Some (Ready (Some (Inr (DataItem (Data item3)))), s)
             | Inr (Inr (DataItem RangeComplete)) \<Rightarrow> Some (Ready (Some (Inr (DataItem RangeComplete))), s)
             | Inr (Inr (Log k)) \<Rightarrow> Some (Ready (Some (Inr (Log k))), s)
             | Inr (Inr (Stats k)) \<Rightarrow> Some (Ready (Some (Inr (Stats k))), s)
             | Inr (Inl e) \<Rightarrow> Some (Ready (Some (Inl e)), s\<lparr>eff_errored := True\<rparr>)
             | Inl e \<Rightarrow> Some (Ready (Some (Inl (fs e))), s\<lparr>eff_errored := True\<rparr>))
        | Ready (Some (Inr (DataItem RangeComplete))) \<Rightarrow> Some (Ready (Some (Inr (DataItem RangeComplete))), s)
        | Ready (Some (Inl e)) \<Rightarrow> Some (Ready (Some (Inl (es e))), s\<lparr>eff_errored := True\<rparr>)
        | Ready None \<Rightarrow> Some (Ready None, s\<lparr>eff_completed := True\<rparr>)
        | Pending \<Rightarrow> Some (Pending, s)
      })"

section \<open>What the streams should yield\<close>

text \<open>The first frame of a byte string and the bytes behind it, if the frame is complete.\<close>

definition frame_next :: "(bytes \<Rightarrow> u32) \<Rightarrow> bytes \<Rightarrow> (inmem_error, (InMemoryFrame \<times> bytes) option) result" where
  "frame_next crc q =
     (if length q < 20 then Inr None
      else let len = from_le (take 4 (drop 12 q)) :: u32; n = unat len in
        if from_le (take 4 q) \<noteq> INMEM_FRAME_MAGIC then Inl (BadMagic (from_le (take 4 q)))
        else if n > 52428800 then Inl (HugeFrame len)
        else if length q < 24 + n then Inr None
        else if from_le (take 4 (drop (20 + n) q)) \<noteq> crc (take (20 + n) q) \<or>
            from_le (take 4 (drop 16 q)) \<noteq> crc (take n (drop 20 q)) then Inl BadCrc
        else Inr (Some (\<lparr>fr_encid = from_le (take 4 (drop 4 q)), fr_tyid = from_le (take 4 (drop 8 q)),
          fr_len = len, fr_buf = take n (drop 20 q)\<rparr>, drop (24 + n) q)))"

lemma frame_next_shorter: "frame_next crc q = Inr (Some (f, r)) \<Longrightarrow> length r < length q"
  by (auto simp: frame_next_def Let_def split: if_splits)

text \<open>The frames of a byte string, up to the terminating frame or the first error.\<close>

function frames_of :: "(bytes \<Rightarrow> u32) \<Rightarrow> bytes \<Rightarrow> (ifs_error, InMemoryFrame) result list" where
  "frames_of crc q =
     (case frame_next crc q of
        Inl e \<Rightarrow> [Inl (InMemParse e)]
      | Inr None \<Rightarrow> []
      | Inr (Some (f, r)) \<Rightarrow> if fr_tyid f = TERM_FRAME_TYPE_ID then [] else Inr f # frames_of crc r)"
  by pat_completeness auto
termination
  by (relation "measure (\<lambda>(_, q). length q)") (auto dest: frame_next_shorter)

text \<open>
  The receiver with the bytes \<open>q\<close> in its buffer of capacity \<open>c\<close>: it takes frames while the buffer
  has one, and then the next chunk of its input, which has to fit next to the incomplete frame.
\<close>

function recv_spec ::
  "(bytes \<Rightarrow> u32) \<Rightarrow> nat \<Rightarrow> bytes \<Rightarrow> ('ie, bytes) result poll list \<Rightarrow> (ifs_error, InMemoryFrame) result list" where
  "recv_spec crc c q inp =
     (case frame_next crc q of
        Inl e \<Rightarrow> [Inl (InMemParse e)]
      | Inr (Some (f, r)) \<Rightarrow> if fr_tyid f = TERM_FRAME_TYPE_ID then [] else Inr f # recv_spec crc c r inp
      | Inr None \<Rightarrow>
          (case inp of
             [] \<Rightarrow> []
           | Pending # inp \<Rightarrow> recv_spec crc c q inp
           | Ready (Inl _) # inp \<Rightarrow> [Inl Input]
           | Ready (Inr x) # inp \<Rightarrow>
               if x = [] then []
               else if c < length q + length x then [Inl (Slidebuf (NotEnoughSpace c (c - length q) (length x)))]
               else recv_spec crc c (q @ x) inp))"
  by pat_completeness auto
termination
  by (relation "measures [\<lambda>(_, _, _, inp). length inp, \<lambda>(_, _, q, _). length q]") (auto dest: frame_next_shorter)

declare frames_of.simps [simp del] and recv_spec.simps [simp del]

definition frame_item :: "(ifs_error \<Rightarrow> 'err) \<Rightarrow> (ifs_error, InMemoryFrame) result \<Rightarrow> ('err, InMemoryFrame) Sitemty" where
  "frame_item ec r = (case r of Inl e \<Rightarrow> Inl (ec e) | Inr f \<Rightarrow> Inr (DataItem (Data f)))"

end
