(* ===== verification/FramesCorrect.thy ===== *)
theory FramesCorrect
  imports Frames
begin

text \<open>
  The frame stream of \<open>Frames\<close> against its specification: the parser accepts exactly the frames the
  makers build, the stream of frames yields the frames of the received byte string whatever the
  chunks are, and items that were framed, sent and received come out as they went in.
\<close>

section \<open>One frame\<close>

lemma le_u32_at_Some [simp]: "i + 4 \<le> length q \<Longrightarrow> le_u32_at q i = Some (from_le (take 4 (drop i q)))"
  by (simp add: le_u32_at_def)

lemma huge_iff: "52428800 < (len :: u32) \<longleftrightarrow> 52428800 < unat len"
  by (simp add: word_less_nat_alt)

definition head_len :: "bytes \<Rightarrow> nat" where
  "head_len q = unat (from_le (take 4 (drop 12 q)) :: u32)"

lemma parse_eq:
  assumes "20 \<le> length q"
  shows "InMemoryFrame_parse crc q = Some (case frame_next crc q of
      Inl e \<Rightarrow> Inl e
    | Inr None \<Rightarrow> Inr (NotEnoughData (24 + head_len q))
    | Inr (Some (f, r)) \<Rightarrow> Inr (Parsed (24 + head_len q) f))"
proof -
  define len where "len = (from_le (take 4 (drop 12 q)) :: u32)"
  have s: "slice q 0 (20 + unat len) = Some (take (20 + unat len) q)"
    "slice q 20 (20 + unat len) = Some (take (unat len) (drop 20 q))"
    "le_u32_at q (20 + unat len) = Some (from_le (take 4 (drop (20 + unat len) q)))"
    if "24 + unat len \<le> length q" using that by simp_all
  show ?thesis
    using assms s by (simp add: InMemoryFrame_parse_def frame_next_def INMEM_FRAME_HEAD_def INMEM_FRAME_FOOT_def
        huge_iff Let_def head_len_def flip: len_def)
qed

text \<open>The head that a parser has seen does not change when more bytes arrive.\<close>

lemma take_drop_append: "n + k \<le> length q \<Longrightarrow> take k (drop n (q @ x)) = take k (drop n q)"
  by simp

lemma head_len_append: "20 \<le> length q \<Longrightarrow> head_len (q @ x) = head_len q"
  by (simp add: head_len_def)

lemma frame_next_append:
  "frame_next crc q = Inl e \<Longrightarrow> frame_next crc (q @ x) = Inl e"
  "frame_next crc q = Inr (Some (f, r)) \<Longrightarrow> frame_next crc (q @ x) = Inr (Some (f, r @ x))"
  by (auto simp: frame_next_def Let_def split: if_splits)

lemma frame_next_Some:
  assumes "frame_next crc q = Inr (Some (f, r))"
  shows "24 + head_len q \<le> length q" "r = drop (24 + head_len q) q" "20 \<le> length q"
    "unat (fr_len f) = head_len q" "length (fr_buf f) = head_len q"
  using assms by (auto simp: frame_next_def Let_def head_len_def split: if_splits)

text \<open>A number of bytes the receiver may wait for while \<open>q\<close> is in the buffer.\<close>

definition need_ok :: "(bytes \<Rightarrow> u32) \<Rightarrow> nat \<Rightarrow> bytes \<Rightarrow> bool" where
  "need_ok crc n q \<longleftrightarrow> n = 20 \<or>
     20 \<le> length q \<and> from_le (take 4 q) = INMEM_FRAME_MAGIC \<and> head_len q \<le> 52428800 \<and> n = 24 + head_len q"

lemma need_ok_append: "need_ok crc n q \<Longrightarrow> need_ok crc n (q @ x)"
  by (auto simp: need_ok_def head_len_append)

lemma need_ok_short: "need_ok crc n q \<Longrightarrow> length q < n \<Longrightarrow> frame_next crc q = Inr None"
  by (auto simp: need_ok_def frame_next_def head_len_def Let_def)

lemma need_ok_None:
  assumes "frame_next crc q = Inr None" and "need_ok crc n q" and "n \<le> length q"
  shows "n = 20" "need_ok crc (24 + head_len q) q" "length q < 24 + head_len q"
  using assms by (auto simp: need_ok_def frame_next_def head_len_def Let_def split: if_splits)

section \<open>The stream of frames\<close>

text \<open>A receiver in the middle of its work: \<open>q\<close> is what its buffer of capacity \<open>c\<close> holds.\<close>

definition ifs_ok :: "(bytes \<Rightarrow> u32) \<Rightarrow> nat \<Rightarrow> bytes \<Rightarrow> 'ie InMemoryFrameStream \<Rightarrow> bool" where
  "ifs_ok crc c q s \<longleftrightarrow> sb_inv (ifs_buf s) \<and> sb_abs (ifs_buf s) = q \<and> sb_cap (ifs_buf s) = c \<and>
     need_ok crc (ifs_need_min s) q \<and> \<not> ifs_done s \<and> \<not> ifs_complete s"

lemma ifs_okD:
  assumes "ifs_ok crc c q s"
  shows "sb_inv (ifs_buf s)" "sb_abs (ifs_buf s) = q" "sb_cap (ifs_buf s) = c" "need_ok crc (ifs_need_min s) q"
    "\<not> ifs_done s" "\<not> ifs_complete s" "sb_len (ifs_buf s) = length q" "sb_data (ifs_buf s) = Some q"
  using assms by (auto simp: ifs_ok_def sb_len_inv sb_data_inv)

lemma done_ends:
  assumes "ifs_done s" "\<not> ifs_complete s"
  shows "stream_run (ifs_poll_next crc ec) s = Some []"
  by (rule stream_run_step(3)) (subst ifs_poll_next.simps, use assms in simp)

lemma done_run: "stream_run (ifs_poll_next crc ec) (s\<lparr>ifs_done := True\<rparr>) = Some []" if "\<not> ifs_complete s"
  using that by (intro done_ends) simp_all

text \<open>A complete frame, or a corrupt one, at the front of the buffer.\<close>

lemma parse_frame:
  assumes s: "ifs_ok crc c q s" and f: "frame_next crc q = Inr (Some (f, r))"
  shows "\<exists>s'. ifs_parse crc s = Some (Inr (Some f), s') \<and> ifs_ok crc c r s' \<and> ifs_inp s' = ifs_inp s"
proof -
  note d = ifs_okD [OF s] and n = frame_next_Some [OF f]
  obtain b where b: "sb_adv (24 + head_len q) (ifs_buf s) = Some (Inr (), b)" "sb_inv b" "sb_abs b = r" "sb_cap b = c"
    using sb_adv_ok [OF d(1), of "24 + head_len q"] n(1,2) d(2,3) by auto
  have "ifs_need_min s \<le> length q" using need_ok_short [OF d(4)] f by force
  then show ?thesis
    using b d f n parse_eq [of q crc] by (simp add: ifs_parse_def ifs_ok_def need_ok_def INMEM_FRAME_HEAD_def)
qed

lemma poll_frame:
  assumes s: "ifs_ok crc c q s" and f: "frame_next crc q = Inr (Some (f, r))"
  shows "\<exists>s'. ifs_ok crc c r s' \<and> ifs_inp s' = ifs_inp s \<and> stream_run (ifs_poll_next crc ec) s =
    (if fr_tyid f = TERM_FRAME_TYPE_ID then Some []
     else map_option ((#) (Inr (DataItem (Data f)))) (stream_run (ifs_poll_next crc ec) s'))"
proof -
  note d = ifs_okD [OF s]
  obtain s' where s': "ifs_parse crc s = Some (Inr (Some f), s')" "ifs_ok crc c r s'" "ifs_inp s' = ifs_inp s"
    using parse_frame [OF s f] by blast
  have nm: "ifs_need_min s \<le> length q" using need_ok_short [OF d(4)] f by force
  have p: "ifs_poll_next crc ec s =
      (if fr_tyid f = TERM_FRAME_TYPE_ID then ifs_poll_next crc ec (s'\<lparr>ifs_done := True\<rparr>)
       else Some (Ready (Some (Inr (DataItem (Data f)))), s'))"
    by (subst ifs_poll_next.simps) (use d nm s' in simp)
  show ?thesis
  proof (cases "fr_tyid f = TERM_FRAME_TYPE_ID")
    case True
    with p have "stream_run (ifs_poll_next crc ec) s = stream_run (ifs_poll_next crc ec) (s'\<lparr>ifs_done := True\<rparr>)"
      by (intro stream_run_cong) simp
    then show ?thesis using True s' done_run [of s' crc ec] ifs_okD(6) [OF s'(2)] by auto
  next
    case False
    with p have "ifs_poll_next crc ec s = Some (Ready (Some (Inr (DataItem (Data f)))), s')" by simp
    then have "stream_run (ifs_poll_next crc ec) s =
        map_option ((#) (Inr (DataItem (Data f)))) (stream_run (ifs_poll_next crc ec) s')"
      by (rule stream_run_step(2))
    with False s' show ?thesis by auto
  qed
qed

lemma poll_corrupt:
  assumes s: "ifs_ok crc c q s" and e: "frame_next crc q = Inl e"
  shows "stream_run (ifs_poll_next crc ec) s = Some [Inl (ec (InMemParse e))]"
proof -
  note d = ifs_okD [OF s]
  have nm: "ifs_need_min s \<le> length q" using need_ok_short [OF d(4)] e by force
  have q: "20 \<le> length q" using e by (auto simp: frame_next_def split: if_splits)
  have "ifs_parse crc s = Some (Inl (InMemParse e), s)"
    using d nm e parse_eq [OF q, of crc] by (simp add: ifs_parse_def)
  then have "ifs_poll_next crc ec s = Some (Ready (Some (Inl (ec (InMemParse e)))), s\<lparr>ifs_done := True\<rparr>)"
    by (subst ifs_poll_next.simps) (use d nm in simp)
  then have "stream_run (ifs_poll_next crc ec) s =
      map_option ((#) (Inl (ec (InMemParse e)))) (stream_run (ifs_poll_next crc ec) (s\<lparr>ifs_done := True\<rparr>))"
    by (rule stream_run_step(2))
  then show ?thesis by (simp add: done_run d(6))
qed

text \<open>Without a complete frame the receiver asks its input.\<close>

lemma poll_needs:
  assumes s: "ifs_ok crc c q s" and n: "frame_next crc q = Inr None"
  shows "\<exists>s'. ifs_ok crc c q s' \<and> ifs_inp s' = ifs_inp s \<and> length q < ifs_need_min s' \<and>
    ifs_poll_next crc ec s = ifs_poll_next crc ec s'"
proof (cases "length q < ifs_need_min s")
  case True
  with s show ?thesis by blast
next
  case False
  note d = ifs_okD [OF s]
  have k: "ifs_need_min s = 20" "need_ok crc (24 + head_len q) q" "length q < 24 + head_len q"
    using need_ok_None [OF n d(4)] False by simp_all
  let ?s = "s\<lparr>ifs_need_min := 24 + head_len q\<rparr>"
  have "ifs_parse crc s = Some (Inr None, ?s)"
    using d k False n parse_eq [of q crc] by (simp add: ifs_parse_def)
  then have "ifs_poll_next crc ec s = ifs_poll_next crc ec ?s"
    by (subst ifs_poll_next.simps) (use d k False in simp)
  moreover have "ifs_ok crc c q ?s" using d k(2) by (simp add: ifs_ok_def)
  ultimately show ?thesis using k(3) by (intro exI [of _ ?s]) simp
qed

text \<open>The input brings a chunk.\<close>

lemma upstream_chunk:
  assumes s: "ifs_ok crc c q s" and i: "ifs_inp s = Ready (Inr x) # inp" and fit: "length q + length x \<le> c"
  shows "\<exists>s'. poll_upstream s = Some (Ready (Inr (length x)), s') \<and> ifs_ok crc c (q @ x) s' \<and> ifs_inp s' = inp"
proof -
  note d = ifs_okD [OF s]
  obtain a b where a: "sb_available_writable_area (length x) (ifs_buf s) = Some (a, b)" "sb_inv b" "sb_abs b = q"
    "sb_cap b = c" "case a of Inr a \<Rightarrow> length x \<le> length a \<and> length a = sb_wcap b | Inl _ \<Rightarrow> c < length q + length x"
    using sb_area_ok [OF d(1), of "length x"] d(2,3) by auto
  with fit obtain a' where a': "a = Inr a'" "length x \<le> sb_wcap b" by (auto split: sum.splits)
  obtain b1 b2 where "sb_fill x b = Some b1" "sb_wadv (length x) b1 = Some (Inr (), b2)" "sb_inv b2"
    "sb_abs b2 = q @ x" "sb_cap b2 = c"
    using sb_fill_wadv [OF a(2) a'(2)] a(3,4) by auto
  then show ?thesis
    using a(1) a'(1) i d need_ok_append [OF d(4)] by (simp add: poll_upstream_def ifs_ok_def)
qed

lemma upstream_full:
  assumes s: "ifs_ok crc c q s" and i: "ifs_inp s = Ready (Inr x) # inp" and full: "c < length q + length x"
  shows "\<exists>s'. poll_upstream s = Some (Ready (Inl (Slidebuf (NotEnoughSpace c (c - length q) (length x)))), s') \<and>
    \<not> ifs_complete s'"
proof -
  note d = ifs_okD [OF s]
  obtain a b where a: "sb_available_writable_area (length x) (ifs_buf s) = Some (a, b)" "sb_inv b" "sb_abs b = q"
    "sb_cap b = c" "case a of Inr a \<Rightarrow> length x \<le> length a \<and> length a = sb_wcap b | Inl _ \<Rightarrow> c < length q + length x"
    using sb_area_ok [OF d(1), of "length x"] d(2,3) by auto
  have "length q + sb_wcap b \<le> c"
    using sb_wcap_inv [OF a(2)] length_sb_abs [OF a(2)] sb_invD [OF a(2)] a(3,4) by (simp add: sb_cap_def)
  with a(5) full obtain e where e: "a = Inl e" by (cases a) auto
  with a(1) have "e = NotEnoughSpace c (c - length q) (length x)"
    using sb_area_err [OF d(1), of "length x" e b] d(2,3) by simp
  then show ?thesis using a(1) e i d by (simp add: poll_upstream_def)
qed

lemma poll_input:
  assumes s: "ifs_ok crc c q s" and n: "length q < ifs_need_min s"
  shows "poll_upstream s = Some (Pending, s') \<Longrightarrow> ifs_poll_next crc ec s = Some (Pending, s')"
    and "poll_upstream s = Some (Ready (Inl e), s') \<Longrightarrow>
      ifs_poll_next crc ec s = Some (Ready (Some (Inl (ec e))), s'\<lparr>ifs_done := True\<rparr>)"
    and "poll_upstream s = Some (Ready (Inr k), s') \<Longrightarrow> ifs_poll_next crc ec s =
      (if k = 0 then ifs_poll_next crc ec (s'\<lparr>ifs_done := True\<rparr>) else ifs_poll_next crc ec s')"
  using ifs_okD [OF s] n by (subst ifs_poll_next.simps, simp)+

text \<open>One step of the receiver that waits for input, and the rest of its run.\<close>

lemma poll_waits:
  assumes s: "ifs_ok crc c q s" and n: "frame_next crc q = Inr None"
    and pend: "\<And>inp s. ifs_inp s0 = Pending # inp \<Longrightarrow> ifs_ok crc c q s \<Longrightarrow> ifs_inp s = inp \<Longrightarrow>
      stream_run (ifs_poll_next crc ec) s = Some (map (frame_item ec) (recv_spec crc c q inp))"
    and chunk: "\<And>x inp s. ifs_inp s0 = Ready (Inr x) # inp \<Longrightarrow> x \<noteq> [] \<Longrightarrow> \<not> c < length q + length x \<Longrightarrow>
      ifs_ok crc c (q @ x) s \<Longrightarrow> ifs_inp s = inp \<Longrightarrow>
      stream_run (ifs_poll_next crc ec) s = Some (map (frame_item ec) (recv_spec crc c (q @ x) inp))"
    and s0: "ifs_inp s0 = ifs_inp s"
  shows "stream_run (ifs_poll_next crc ec) s = Some (map (frame_item ec) (recv_spec crc c q (ifs_inp s)))"
proof -
  let ?run = "stream_run (ifs_poll_next crc ec)"
  obtain s1 where s1: "ifs_ok crc c q s1" "ifs_inp s1 = ifs_inp s" "length q < ifs_need_min s1"
    "ifs_poll_next crc ec s = ifs_poll_next crc ec s1"
    using poll_needs [OF s n] by metis
  have run1: "?run s = ?run s1" by (rule stream_run_cong) (rule s1(4))
  note d1 = ifs_okD [OF s1(1)] and p1 = poll_input [OF s1(1,3)]
  have eof: "?run s = Some []" if "poll_upstream s1 = Some (Ready (Inr 0), s')" "\<not> ifs_complete s'" for s'
  proof -
    have "ifs_poll_next crc ec s1 = ifs_poll_next crc ec (s'\<lparr>ifs_done := True\<rparr>)"
      using p1(3) [OF that(1), of ec] by simp
    then have "?run s1 = ?run (s'\<lparr>ifs_done := True\<rparr>)" by (rule stream_run_cong)
    then show ?thesis using run1 done_run [OF that(2)] by simp
  qed
  have err: "?run s = Some [Inl (ec e)]" if "poll_upstream s1 = Some (Ready (Inl e), s')" "\<not> ifs_complete s'" for e s'
    using stream_run_step(2) [where poll = "ifs_poll_next crc ec" and s = s1, OF p1(2) [OF that(1)]] run1 done_run [OF that(2)]
    by simp
  consider "ifs_inp s = []" | inp where "ifs_inp s = Pending # inp" | e inp where "ifs_inp s = Ready (Inl e) # inp"
    | inp where "ifs_inp s = Ready (Inr []) # inp" | x inp where "ifs_inp s = Ready (Inr x) # inp" "x \<noteq> []"
    by (metis list.exhaust poll.exhaust sum.exhaust)
  then show ?thesis
  proof cases
    case 1
    then show ?thesis using eof [of s1] s1 d1 n by (simp add: poll_upstream_def recv_spec.simps [of crc c q])
  next
    case (2 inp)
    let ?s = "s1\<lparr>ifs_inp := inp\<rparr>"
    have "?run s1 = ?run ?s"
      using p1(1) [of ?s] 2 s1(2) by (intro stream_run_step(1)) (simp add: poll_upstream_def)
    moreover have "ifs_ok crc c q ?s" using s1(1) by (simp add: ifs_ok_def)
    ultimately show ?thesis using pend [of inp ?s] 2 run1 n s0 by (simp add: recv_spec.simps [of crc c q])
  next
    case (3 e inp)
    then show ?thesis
      using err [of Input "s1\<lparr>ifs_inp := inp\<rparr>"] s1 d1 n
      by (simp add: poll_upstream_def recv_spec.simps [of crc c q] frame_item_def)
  next
    case (4 inp)
    have "length q + length ([] :: bytes) \<le> c" using d1(1,2,3) sb_abs_le_cap [OF d1(1)] by simp
    from upstream_chunk [OF s1(1) _ this] 4 s1(2) obtain s' where
      "poll_upstream s1 = Some (Ready (Inr 0), s')" "\<not> ifs_complete s'" by (auto dest: ifs_okD(6))
    from eof [OF this] 4 n show ?thesis by (simp add: recv_spec.simps [of crc c q])
  next
    case (5 x inp)
    show ?thesis
    proof (cases "c < length q + length x")
      case True
      then obtain s' where "poll_upstream s1 =
          Some (Ready (Inl (Slidebuf (NotEnoughSpace c (c - length q) (length x)))), s')" "\<not> ifs_complete s'"
        using upstream_full [OF s1(1)] s1(2) 5 by metis
      from err [OF this] 5 True n show ?thesis by (simp add: recv_spec.simps [of crc c q] frame_item_def)
    next
      case False
      then obtain s' where s': "poll_upstream s1 = Some (Ready (Inr (length x)), s')" "ifs_ok crc c (q @ x) s'" "ifs_inp s' = inp"
        using upstream_chunk [OF s1(1)] s1(2) 5 by (metis not_less)
      have "?run s1 = ?run s'" using p1(3) [OF s'(1)] 5(2) by (intro stream_run_cong) simp
      then show ?thesis
        using chunk [OF _ 5(2) False s'(2,3)] 5 run1 n s0 False by (simp add: recv_spec.simps [of crc c q])
    qed
  qed
qed

lemma ifs_run_eq:
  "ifs_ok crc c q s \<Longrightarrow> ifs_inp s = inp \<Longrightarrow>
     stream_run (ifs_poll_next crc ec) s = Some (map (frame_item ec) (recv_spec crc c q inp))"
proof (induction crc c q inp arbitrary: s rule: recv_spec.induct)
  case (1 crc c q inp)
  let ?run = "stream_run (ifs_poll_next crc ec)"
  show ?case
  proof (cases "frame_next crc q")
    case (Inl e)
    then show ?thesis
      using poll_corrupt [OF "1.prems"(1) Inl] by (simp add: recv_spec.simps [of crc c q] frame_item_def)
  next
    case Inr: (Inr o1)
    show ?thesis
    proof (cases o1)
      case (Some fr)
      obtain f r where fr: "fr = (f, r)" by (cases fr)
      have f: "frame_next crc q = Inr (Some (f, r))" using Inr Some fr by simp
      obtain s' where s': "ifs_ok crc c r s'" "ifs_inp s' = inp" "?run s =
        (if fr_tyid f = TERM_FRAME_TYPE_ID then Some [] else map_option ((#) (Inr (DataItem (Data f)))) (?run s'))"
        using poll_frame [OF "1.prems"(1) f, of ec] "1.prems"(2) by auto
      show ?thesis
      proof (cases "fr_tyid f = TERM_FRAME_TYPE_ID")
        case True
        then show ?thesis using s'(3) f by (simp add: recv_spec.simps [of crc c q])
      next
        case False
        have "?run s' = Some (map (frame_item ec) (recv_spec crc c r inp))"
          using "1.IH"(3) [OF Inr Some fr [symmetric] False] s'(1,2) by blast
        then show ?thesis using s'(3) f False by (simp add: recv_spec.simps [of crc c q] frame_item_def)
      qed
    next
      case None
      have n: "frame_next crc q = Inr None" using Inr None by simp
      have "?run s = Some (map (frame_item ec) (recv_spec crc c q (ifs_inp s)))"
      proof (rule poll_waits [OF "1.prems"(1) n, of s])
        show "?run s' = Some (map (frame_item ec) (recv_spec crc c q inp'))"
          if "ifs_inp s = Pending # inp'" "ifs_ok crc c q s'" "ifs_inp s' = inp'" for inp' s'
          using "1.IH"(1) [OF Inr None _ refl] that "1.prems"(2) by simp
        show "?run s' = Some (map (frame_item ec) (recv_spec crc c (q @ x) inp'))"
          if "ifs_inp s = Ready (Inr x) # inp'" "x \<noteq> []" "\<not> c < length q + length x" "ifs_ok crc c (q @ x) s'"
            "ifs_inp s' = inp'" for x inp' s'
          using "1.IH"(2) [OF Inr None _ refl refl] that "1.prems"(2) by simp
      qed simp
      then show ?thesis using "1.prems"(2) by simp
    qed
  qed
qed

section \<open>Making and parsing\<close>

lemma to_from_le:
  assumes "length bs = 4"
  shows "to_le 4 (from_le bs :: u32) = bs"
proof -
  have "nat_from_be (rev bs) < 256 ^ length (rev bs)" by (rule nat_from_be_less)
  then have "unat (from_le bs :: u32) = nat_from_be (rev bs)"
    using assms by (simp add: from_le_def from_be_def unsigned_of_nat take_bit_nat_eq_self)
  then show ?thesis using assms nat_to_from_be [of "rev bs" 4] by (simp add: to_le_def to_be_def)
qed

lemma from_to_le4 [simp]: "from_le (to_le 4 w) = (w :: u32)"
  by (simp add: from_to_le)

lemma length_frame_bytes [simp]: "length (frame_bytes crc e t p) = 24 + length p"
  by (simp add: frame_bytes_def Let_def)

lemma five_fields:
  assumes "length a = 4" "length b = 4" "length c = 4" "length d = 4" "length (e :: bytes) = 4"
  shows "take 4 (a @ b @ c @ d @ e @ p) = a" "take 4 (drop 4 (a @ b @ c @ d @ e @ p)) = b"
    "take 4 (drop 8 (a @ b @ c @ d @ e @ p)) = c" "take 4 (drop 12 (a @ b @ c @ d @ e @ p)) = d"
    "take 4 (drop 16 (a @ b @ c @ d @ e @ p)) = e" "drop 20 (a @ b @ c @ d @ e @ p) = p"
    "take (20 + n) (a @ b @ c @ d @ e @ p) = a @ b @ c @ d @ e @ take n p"
    "drop (20 + n) (a @ b @ c @ d @ e @ p) = drop n p"
  using assms by simp_all

lemma split_five:
  assumes "20 + n \<le> length (q :: bytes)"
  shows "take (20 + n) q = take 4 q @ take 4 (drop 4 q) @ take 4 (drop 8 q) @ take 4 (drop 12 q) @ take 4 (drop 16 q) @
    take n (drop 20 q)"
proof -
  have "take (4 + (4 + (4 + (4 + (4 + n))))) q = take 4 q @ take 4 (drop 4 q) @ take 4 (drop 8 q) @ take 4 (drop 12 q) @
      take 4 (drop 16 q) @ take n (drop 20 q)"
    by (simp only: take_add drop_drop) simp
  then show ?thesis by (simp add: add.assoc)
qed

lemma unat_len: "n \<le> 52428800 \<Longrightarrow> unat (of_nat n :: u32) = n"
  by (simp add: unsigned_of_nat take_bit_nat_eq_self)

text \<open>The parser reads a frame off the front of a byte string exactly if it was made by \<open>frame_bytes\<close>.\<close>

lemma frame_next_bytes:
  assumes "length p \<le> 52428800"
  shows "frame_next crc (frame_bytes crc e t p @ r) =
    Inr (Some (\<lparr>fr_encid = e, fr_tyid = t, fr_len = of_nat (length p), fr_buf = p\<rparr>, r))"
proof -
  define h where "h = to_le 4 INMEM_FRAME_MAGIC @ to_le 4 e @ to_le 4 t @ to_le 4 (of_nat (length p) :: u32) @ to_le 4 (crc p) @ p"
  define z where "z = to_le 4 (crc h)"
  have q: "frame_bytes crc e t p @ r = to_le 4 INMEM_FRAME_MAGIC @ to_le 4 e @ to_le 4 t @
      to_le 4 (of_nat (length p) :: u32) @ to_le 4 (crc p) @ (p @ z @ r)"
    by (simp add: frame_bytes_def Let_def z_def h_def)
  have z: "length z = 4" "from_le z = crc h" by (simp_all add: z_def)
  note f = five_fields [where a = "to_le 4 INMEM_FRAME_MAGIC" and b = "to_le 4 e" and c = "to_le 4 t" and
      d = "to_le 4 (of_nat (length p) :: u32)" and e = "to_le 4 (crc p)" and p = "p @ z @ r", OF length_to_le length_to_le length_to_le length_to_le length_to_le]
  have "drop (24 + length p) (frame_bytes crc e t p @ r) = r" by simp
  moreover have "take (20 + length p) (frame_bytes crc e t p @ r) = h" unfolding q f by (simp add: h_def)
  moreover have "take 4 (drop (20 + length p) (frame_bytes crc e t p @ r)) = z" unfolding q f using z by simp
  moreover have "take (length p) (drop 20 (frame_bytes crc e t p @ r)) = p" unfolding q f by simp
  moreover have "24 + length p \<le> length (frame_bytes crc e t p @ r)" by simp
  ultimately show ?thesis
    using assms z f(1-5) [folded q] unfolding frame_next_def by (simp add: unat_len Let_def del: drop_append take_append)
qed

lemma frame_next_iff:
  "frame_next crc q = Inr (Some (f, r)) \<longleftrightarrow> q = frame_bytes crc (fr_encid f) (fr_tyid f) (fr_buf f) @ r \<and>
     fr_len f = of_nat (length (fr_buf f)) \<and> length (fr_buf f) \<le> 52428800"
proof
  assume n: "frame_next crc q = Inr (Some (f, r))"
  define len where "len = (from_le (take 4 (drop 12 q)) :: u32)"
  have l: "20 \<le> length q" "24 + unat len \<le> length q" "unat len \<le> 52428800" "from_le (take 4 q) = INMEM_FRAME_MAGIC"
    "from_le (take 4 (drop (20 + unat len) q)) = crc (take (20 + unat len) q)"
    "from_le (take 4 (drop 16 q)) = crc (take (unat len) (drop 20 q))" "r = drop (24 + unat len) q"
    "fr_encid f = from_le (take 4 (drop 4 q))" "fr_tyid f = from_le (take 4 (drop 8 q))" "fr_len f = len"
    "fr_buf f = take (unat len) (drop 20 q)"
    using n by (auto simp: frame_next_def Let_def len_def split: if_splits)
  have p: "length (fr_buf f) = unat len" using l by simp
  have h: "take (20 + unat len) q = to_le 4 INMEM_FRAME_MAGIC @ to_le 4 (fr_encid f) @ to_le 4 (fr_tyid f) @
      to_le 4 (of_nat (length (fr_buf f)) :: u32) @ to_le 4 (crc (fr_buf f)) @ fr_buf f"
  proof -
    have ol: "of_nat (length (fr_buf f)) = len" by (simp add: p)
    have k1: "to_le 4 INMEM_FRAME_MAGIC = take 4 q" "to_le 4 (fr_encid f) = take 4 (drop 4 q)"
      "to_le 4 (fr_tyid f) = take 4 (drop 8 q)"
      unfolding l(8,9) l(4) [symmetric] using l(1) by (simp_all add: to_from_le)
    have k2: "to_le 4 (of_nat (length (fr_buf f)) :: u32) = take 4 (drop 12 q)"
      unfolding ol len_def using l(1) by (simp add: to_from_le)
    have "crc (fr_buf f) = from_le (take 4 (drop 16 q))" using l(6,11) by simp
    then have k3: "to_le 4 (crc (fr_buf f)) = take 4 (drop 16 q)" using l(1) by (simp add: to_from_le)
    have "20 + unat len \<le> length q" using l(2) by simp
    from split_five [OF this] show ?thesis unfolding k1 k2 k3 l(11) [symmetric] .
  qed
  have "q = take (20 + unat len) q @ take 4 (drop (20 + unat len) q) @ drop (24 + unat len) q"
    using append_take_drop_id [of 4 "drop (20 + unat len) q"] append_take_drop_id [of "20 + unat len" q]
    by (simp add: add.commute [of 4])
  also have "take 4 (drop (20 + unat len) q) = to_le 4 (crc (take (20 + unat len) q))"
    using l(2) by (simp add: to_from_le flip: l(5))
  finally show "q = frame_bytes crc (fr_encid f) (fr_tyid f) (fr_buf f) @ r \<and>
     fr_len f = of_nat (length (fr_buf f)) \<and> length (fr_buf f) \<le> 52428800"
    using l(3,7,10) p unfolding frame_bytes_def Let_def h [symmetric] by simp
next
  assume a: "q = frame_bytes crc (fr_encid f) (fr_tyid f) (fr_buf f) @ r \<and>
     fr_len f = of_nat (length (fr_buf f)) \<and> length (fr_buf f) \<le> 52428800"
  then show "frame_next crc q = Inr (Some (f, r))" using frame_next_bytes [of "fr_buf f" crc] by simp
qed

section \<open>Chunks\<close>

text \<open>What a well behaved input delivers, and that its chunks fit next to a frame of \<open>B\<close> bytes.\<close>

fun inp_bytes :: "('ie, bytes) result poll list \<Rightarrow> bytes" where
  "inp_bytes [] = []"
| "inp_bytes (Ready (Inr x) # inp) = x @ inp_bytes inp"
| "inp_bytes (_ # inp) = inp_bytes inp"

fun chunk_ok :: "nat \<Rightarrow> nat \<Rightarrow> ('ie, bytes) result poll \<Rightarrow> bool" where
  "chunk_ok c B Pending = True"
| "chunk_ok c B (Ready (Inr x)) = (x \<noteq> [] \<and> B + length x \<le> c)"
| "chunk_ok c B (Ready (Inl e)) = False"

text \<open>The number of bytes that decide what stands at the front of \<open>q\<close>, and a bound for all of them.\<close>

definition need :: "bytes \<Rightarrow> nat" where
  "need q = (if 20 \<le> length q \<and> from_le (take 4 q) = INMEM_FRAME_MAGIC \<and> head_len q \<le> 52428800
     then 24 + head_len q else 20)"

function frames_within :: "(bytes \<Rightarrow> u32) \<Rightarrow> nat \<Rightarrow> bytes \<Rightarrow> bool" where
  "frames_within crc B q = (need q \<le> B \<and>
     (case frame_next crc q of
        Inr (Some (f, r)) \<Rightarrow> fr_tyid f = TERM_FRAME_TYPE_ID \<or> frames_within crc B r
      | _ \<Rightarrow> True))"
  by pat_completeness auto
termination
  by (relation "measure (\<lambda>(_, _, q). length q)") (auto dest: frame_next_shorter)

declare frames_within.simps [simp del]

lemma need_20: "20 \<le> need q"
  by (simp add: need_def)

lemma need_append: "20 \<le> length q \<Longrightarrow> need (q @ x) = need q"
  by (simp add: need_def head_len_append)

lemma incomplete_below_need: "frame_next crc q = Inr None \<Longrightarrow> length q < need (q @ x)"
  using need_20 [of "q @ x"]
  by (cases "20 \<le> length q") (auto simp: need_append need_def frame_next_def Let_def head_len_def split: if_splits)

text \<open>Where the chunks are cut makes no difference.\<close>

lemma recv_chunks:
  "list_all (chunk_ok c B) inp \<Longrightarrow> frames_within crc B (q @ inp_bytes inp) \<Longrightarrow>
     recv_spec crc c q inp = frames_of crc (q @ inp_bytes inp)"
proof (induction crc c q inp rule: recv_spec.induct)
  case (1 crc c q inp)
  show ?case
  proof (cases "frame_next crc q")
    case (Inl e)
    then show ?thesis
      using frame_next_append(1) [OF Inl] by (simp add: recv_spec.simps [of crc c q] frames_of.simps)
  next
    case Inr: (Inr o1)
    show ?thesis
    proof (cases o1)
      case (Some fr)
      obtain f r where fr: "fr = (f, r)" by (cases fr)
      have f: "frame_next crc q = Inr (Some (f, r))" using Inr Some fr by simp
      note fa = frame_next_append(2) [OF f]
      have "fr_tyid f \<noteq> TERM_FRAME_TYPE_ID \<Longrightarrow> recv_spec crc c r inp = frames_of crc (r @ inp_bytes inp)"
        using "1.IH"(3) [OF Inr Some fr [symmetric]] "1.prems" fa frames_within.simps [of crc B "q @ inp_bytes inp"] by auto
      then show ?thesis using f fa by (simp add: recv_spec.simps [of crc c q] frames_of.simps [of crc "q @ inp_bytes inp"])
    next
      case None
      have n: "frame_next crc q = Inr None" using Inr None by simp
      show ?thesis
      proof (cases inp)
        case Nil
        then show ?thesis using n by (simp add: recv_spec.simps frames_of.simps)
      next
        case (Cons p inp')
        have "length q < B" 
          using incomplete_below_need [OF n, of "inp_bytes inp"] "1.prems"(2) frames_within.simps [of crc B "q @ inp_bytes inp"]
          by simp
        moreover have "chunk_ok c B p" using Cons "1.prems"(1) by simp
        ultimately consider "p = Pending" | x where "p = Ready (Inr x)" "x \<noteq> []" "\<not> c < length q + length x"
          by (cases rule: chunk_ok.cases [of "(c, B, p)"]) auto
        then show ?thesis
        proof cases
          case 1
          then show ?thesis
            using "1.IH"(1) [OF Inr None Cons] "1.prems" Cons n by (simp add: recv_spec.simps [of crc c q])
        next
          case (2 x)
          then show ?thesis
            using "1.IH"(2) [OF Inr None Cons _ refl] "1.prems" Cons n by (simp add: recv_spec.simps [of crc c q])
        qed
      qed
    qed
  qed
qed

text \<open>Frames one after the other, and what may follow them.\<close>

lemma need_frame:
  assumes "length p \<le> 52428800"
  shows "need (frame_bytes crc e t p @ r) = 24 + length p"
proof -
  note n = frame_next_Some [OF frame_next_bytes [OF assms, of crc e t r]]
  have "from_le (take 4 (frame_bytes crc e t p @ r)) = INMEM_FRAME_MAGIC"
    by (simp add: frame_bytes_def Let_def)
  then show ?thesis using n assms by (simp add: need_def del: length_frame_bytes)
qed

type_synonym frame_parts = "u32 \<times> bytes"

definition sent_frame :: "(bytes \<Rightarrow> u32) \<Rightarrow> frame_parts \<Rightarrow> bytes" where
  "sent_frame crc = (\<lambda>(t, p). frame_bytes crc INMEM_FRAME_ENCID t p)"

definition received_frame :: "frame_parts \<Rightarrow> InMemoryFrame" where
  "received_frame = (\<lambda>(t, p). \<lparr>fr_encid = INMEM_FRAME_ENCID, fr_tyid = t, fr_len = of_nat (length p), fr_buf = p\<rparr>)"

lemma frames_of_sent:
  assumes "\<forall>(t, p) \<in> set ps. length p \<le> 52428800 \<and> t \<noteq> TERM_FRAME_TYPE_ID"
  shows "frames_of crc (concat (map (sent_frame crc) ps) @ r) = map (Inr \<circ> received_frame) ps @ frames_of crc r"
  using assms
proof (induction ps)
  case Nil
  then show ?case by simp
next
  case (Cons a ps)
  obtain t p where a: "a = (t, p)" by (cases a)
  with Cons show ?case
    by (simp add: sent_frame_def received_frame_def frames_of.simps [of crc "frame_bytes crc e t p @ q" for e t p q] frame_next_bytes)
qed

lemma frames_within_sent:
  assumes "\<forall>(t, p) \<in> set ps. length p \<le> 52428800 \<and> 24 + length p \<le> B" and "frames_within crc B r"
  shows "frames_within crc B (concat (map (sent_frame crc) ps) @ r)"
  using assms
proof (induction ps)
  case Nil
  then show ?case by simp
next
  case (Cons a ps)
  obtain t p where a: "a = (t, p)" by (cases a)
  with Cons show ?case
    by (simp add: sent_frame_def frames_within.simps [of crc B "frame_bytes crc e t p @ q" for e t p q] frame_next_bytes need_frame)
qed

section \<open>Items\<close>

text \<open>
  What the encoders are relied on for: a decoder gives back what the encoder took, a data item has
  the type id of its type, and that id is none of the reserved ones.
\<close>

definition serde_ok :: "('a, 'e) Serde \<Rightarrow> bool" where
  "serde_ok sd \<longleftrightarrow> (\<forall>x b. to_stdvec sd x = Inr b \<longrightarrow> from_bytes sd b = Inr x)"

definition codec_ok :: "('err, 't, 'e) Codec \<Rightarrow> bool" where
  "codec_ok cd \<longleftrightarrow> serde_ok (cd_item cd) \<and> serde_ok (cd_log cd) \<and> serde_ok (cd_stats cd) \<and> serde_ok (cd_error cd) \<and>
     (\<forall>k. frame_type_id cd k = FRAME_TYPE_ID cd) \<and>
     FRAME_TYPE_ID cd \<notin> {TERM_FRAME_TYPE_ID, ERROR_FRAME_TYPE_ID, LOG_FRAME_TYPE_ID, STATS_FRAME_TYPE_ID,
       RANGE_COMPLETE_FRAME_TYPE_ID}"

lemma serde_okD:
  assumes "serde_ok sd"
  shows "encode_to_vec sd x = Inr b \<Longrightarrow> decode_from_slice sd b = Inr x"
    and "json_to_vec sd x = Inr b \<Longrightarrow> json_from_slice sd b = Inr x"
  using assms
  by (auto simp: serde_ok_def encode_to_vec_def decode_from_slice_def json_to_vec_def json_from_slice_def split: sum.splits)

lemma codec_okD:
  assumes "codec_ok cd"
  shows "serde_ok (cd_item cd)" "serde_ok (cd_log cd)" "serde_ok (cd_stats cd)" "serde_ok (cd_error cd)"
    "frame_type_id cd k = FRAME_TYPE_ID cd" "FRAME_TYPE_ID cd \<noteq> TERM_FRAME_TYPE_ID"
    "FRAME_TYPE_ID cd \<noteq> ERROR_FRAME_TYPE_ID" "FRAME_TYPE_ID cd \<noteq> LOG_FRAME_TYPE_ID"
    "FRAME_TYPE_ID cd \<noteq> STATS_FRAME_TYPE_ID" "FRAME_TYPE_ID cd \<noteq> RANGE_COMPLETE_FRAME_TYPE_ID"
  using assms by (auto simp: codec_ok_def)

lemma reserved_ids:
  "ERROR_FRAME_TYPE_ID \<noteq> TERM_FRAME_TYPE_ID" "LOG_FRAME_TYPE_ID \<noteq> TERM_FRAME_TYPE_ID"
  "STATS_FRAME_TYPE_ID \<noteq> TERM_FRAME_TYPE_ID" "RANGE_COMPLETE_FRAME_TYPE_ID \<noteq> TERM_FRAME_TYPE_ID"
  "LOG_FRAME_TYPE_ID \<noteq> ERROR_FRAME_TYPE_ID" "STATS_FRAME_TYPE_ID \<noteq> ERROR_FRAME_TYPE_ID"
  "STATS_FRAME_TYPE_ID \<noteq> LOG_FRAME_TYPE_ID" "RANGE_COMPLETE_FRAME_TYPE_ID \<noteq> ERROR_FRAME_TYPE_ID"
  "RANGE_COMPLETE_FRAME_TYPE_ID \<noteq> LOG_FRAME_TYPE_ID" "RANGE_COMPLETE_FRAME_TYPE_ID \<noteq> STATS_FRAME_TYPE_ID"
  by (simp_all add: frame_ids)

lemma decode_received:
  assumes "length p \<le> 52428800"
  shows "decode_frame cd (received_frame (t, p)) =
     (if t = ERROR_FRAME_TYPE_ID then map_sum id Inl (json_from_slice (cd_error cd) p)
      else if t = LOG_FRAME_TYPE_ID then map_sum id (Inr \<circ> Log) (decode_from_slice (cd_log cd) p)
      else if t = STATS_FRAME_TYPE_ID then map_sum id (Inr \<circ> Stats) (decode_from_slice (cd_stats cd) p)
      else if t = RANGE_COMPLETE_FRAME_TYPE_ID then Inr (Inr (DataItem RangeComplete))
      else if t \<noteq> FRAME_TYPE_ID cd then Inl (TyIdMismatch (FRAME_TYPE_ID cd) t)
      else decode_from_slice (cd_item cd) p)"
  using assms by (simp add: decode_frame_def received_frame_def unat_len split: sum.split)

lemma make_decode:
  assumes cd: "codec_ok cd" and m: "make_frame_dyn crc cd it = Inr b"
  shows "\<exists>t p. b = sent_frame crc (t, p) \<and> t \<noteq> TERM_FRAME_TYPE_ID \<and>
    (length p \<le> 52428800 \<longrightarrow> decode_frame cd (received_frame (t, p)) = Inr it)"
proof -
  note c = codec_okD [OF cd] and d = serde_okD
  consider k where "it = Inr (DataItem (Data k))" | "it = Inr (DataItem RangeComplete)" | l where "it = Inr (Log l)"
    | st where "it = Inr (Stats st)" | e where "it = Inl e"
    by (metis RangeCompletableItem.exhaust StreamItem.exhaust sum.exhaust)
  then show ?thesis
  proof cases
    case (1 k)
    with m obtain p where p: "encode_to_vec (cd_item cd) it = Inr p" "b = frame_bytes crc INMEM_FRAME_ENCID (FRAME_TYPE_ID cd) p"
      by (auto simp: make_frame_dyn_def make_frame_2_def c(5) split: sum.splits if_splits)
    then show ?thesis
      using d(1) [OF c(1) p(1)] c by (intro exI [of _ "FRAME_TYPE_ID cd"] exI [of _ p]) (simp add: decode_received sent_frame_def)
  next
    case 2
    with m show ?thesis
      by (intro exI [of _ RANGE_COMPLETE_FRAME_TYPE_ID] exI [of _ "[]"])
        (simp add: make_frame_dyn_def make_range_complete_frame_def decode_received sent_frame_def reserved_ids)
  next
    case (3 l)
    with m obtain p where p: "encode_to_vec (cd_log cd) l = Inr p" "b = frame_bytes crc INMEM_FRAME_ENCID LOG_FRAME_TYPE_ID p"
      by (auto simp: make_frame_dyn_def make_log_frame_def split: sum.splits)
    then show ?thesis
      using d(1) [OF c(2) p(1)] 3
      by (intro exI [of _ LOG_FRAME_TYPE_ID] exI [of _ p]) (simp add: decode_received sent_frame_def reserved_ids)
  next
    case (4 st)
    with m obtain p where p: "encode_to_vec (cd_stats cd) st = Inr p" "b = frame_bytes crc INMEM_FRAME_ENCID STATS_FRAME_TYPE_ID p"
      by (auto simp: make_frame_dyn_def make_stats_frame_def split: sum.splits)
    then show ?thesis
      using d(1) [OF c(3) p(1)] 4
      by (intro exI [of _ STATS_FRAME_TYPE_ID] exI [of _ p]) (simp add: decode_received sent_frame_def reserved_ids)
  next
    case (5 e)
    with m obtain p where p: "json_to_vec (cd_error cd) e = Inr p" "b = frame_bytes crc INMEM_FRAME_ENCID ERROR_FRAME_TYPE_ID p"
      by (auto simp: make_frame_dyn_def make_error_frame_def split: sum.splits)
    then show ?thesis
      using d(2) [OF c(4) p(1)] 5
      by (intro exI [of _ ERROR_FRAME_TYPE_ID] exI [of _ p]) (simp add: decode_received sent_frame_def reserved_ids)
  qed
qed

text \<open>The decoding stream in terms of the items of its input.\<close>

definition eff_item ::
  "('err, 't, 'e) Codec \<Rightarrow> ('err \<Rightarrow> 'err) \<Rightarrow> ('e frame_error \<Rightarrow> 'err) \<Rightarrow> ('err, InMemoryFrame) Sitemty \<Rightarrow> ('err, 't) Sitemty" where
  "eff_item cd es fs x =
     (case x of
        Inl e \<Rightarrow> Inl (es e)
      | Inr (DataItem (Data f)) \<Rightarrow> (case decode_frame cd f of Inl e \<Rightarrow> Inl (fs e) | Inr it \<Rightarrow> it)
      | Inr (DataItem RangeComplete) \<Rightarrow> Inr (DataItem RangeComplete)
      | Inr (Log l) \<Rightarrow> Inr (Log l)
      | Inr (Stats st) \<Rightarrow> Inr (Stats st))"

fun upto_err :: "('e, 'a) result list \<Rightarrow> ('e, 'a) result list" where
  "upto_err [] = []"
| "upto_err (Inl e # xs) = [Inl e]"
| "upto_err (Inr x # xs) = Inr x # upto_err xs"

lemma eff_poll:
  assumes "ipoll i = Some (r, i')"
  shows "eff_poll_next cd es fs ipoll (eff_new i) = Some (case r of
      Pending \<Rightarrow> (Pending, eff_new i')
    | Ready None \<Rightarrow> (Ready None, (eff_new i')\<lparr>eff_completed := True\<rparr>)
    | Ready (Some x) \<Rightarrow> (Ready (Some (eff_item cd es fs x)),
        (eff_new i')\<lparr>eff_errored := (case eff_item cd es fs x of Inl _ \<Rightarrow> True | Inr _ \<Rightarrow> False)\<rparr>))"
  using assms
  by (auto simp: eff_poll_next_def eff_new_def eff_item_def Let_def
      split: poll.split option.split sum.split StreamItem.split RangeCompletableItem.split)

lemma eff_errored_ends:
  "eff_errored s \<Longrightarrow> \<not> eff_completed s \<Longrightarrow> stream_run (eff_poll_next cd es fs ipoll) s = Some []"
  by (rule stream_run_step(3)) (simp add: eff_poll_next_def)

lemma eff_run:
  "stream_run ipoll i = Some xs \<Longrightarrow>
     stream_run (eff_poll_next cd es fs ipoll) (eff_new i) = Some (upto_err (map (eff_item cd es fs) xs))"
proof (induction ipoll i xs rule: stream_run.raw_induct [rotated, consumes 1, case_names step])
  case (step run ipoll i xs)
  let ?poll = "eff_poll_next cd es fs ipoll"
  obtain r i' where r: "ipoll i = Some (r, i')" using step.hyps by (auto split: bind_splits)
  note p = eff_poll [where ipoll = ipoll, OF r, of cd es fs]
  show ?case
  proof (cases r)
    case Pending
    with p have "stream_run ?poll (eff_new i) = stream_run ?poll (eff_new i')" by (intro stream_run_step(1)) simp
    then show ?thesis using step.IH step.hyps r Pending by simp
  next
    case Ready: (Ready o1)
    show ?thesis
    proof (cases o1)
      case None
      with p Ready have "stream_run ?poll (eff_new i) = Some []" by (intro stream_run_step(3)) simp
      then show ?thesis using step.hyps r Ready None by simp
    next
      case (Some x)
      obtain ys where ys: "run ipoll i' = Some ys" "xs = x # ys"
        using step.hyps r Ready Some by (auto split: bind_splits)
      show ?thesis
      proof (cases "eff_item cd es fs x")
        case (Inl e)
        let ?s = "(eff_new i')\<lparr>eff_errored := True\<rparr>"
        have "stream_run ?poll (eff_new i) = map_option ((#) (Inl e)) (stream_run ?poll ?s)"
          using p Ready Some Inl by (intro stream_run_step(2)) simp
        also have "stream_run ?poll ?s = Some []" by (rule eff_errored_ends) (simp_all add: eff_new_def)
        finally show ?thesis using Inl ys by simp
      next
        case (Inr it)
        have "stream_run ?poll (eff_new i) = map_option ((#) (Inr it)) (stream_run ?poll (eff_new i'))"
          using p Ready Some Inr by (intro stream_run_step(2)) (simp add: eff_new_def)
        then show ?thesis using step.IH [OF ys(1)] Inr ys by simp
      qed
    qed
  qed
qed

lemma sent_parts:
  assumes cd: "codec_ok cd" and B: "B \<le> 24 + 52428800"
  shows "list_all2 (\<lambda>it b. make_frame_dyn crc cd it = Inr b \<and> length b \<le> B) its bs \<Longrightarrow>
    \<exists>ps. bs = map (sent_frame crc) ps \<and> map (decode_frame cd \<circ> received_frame) ps = map Inr its \<and>
      (\<forall>(t, p) \<in> set ps. length p \<le> 52428800 \<and> t \<noteq> TERM_FRAME_TYPE_ID) \<and>
      (\<forall>(t, p) \<in> set ps. length p \<le> 52428800 \<and> 24 + length p \<le> B)"
proof (induction rule: list_all2_induct)
  case (Cons it its b bs)
  then obtain ps where ps: "bs = map (sent_frame crc) ps" "map (decode_frame cd \<circ> received_frame) ps = map Inr its"
    "\<forall>(t, p) \<in> set ps. length p \<le> 52428800 \<and> t \<noteq> TERM_FRAME_TYPE_ID"
    "\<forall>(t, p) \<in> set ps. length p \<le> 52428800 \<and> 24 + length p \<le> B" by blast
  obtain t p where "b = sent_frame crc (t, p)" "t \<noteq> TERM_FRAME_TYPE_ID"
    "length p \<le> 52428800 \<longrightarrow> decode_frame cd (received_frame (t, p)) = Inr it"
    using make_decode [OF cd] Cons.hyps(1) by metis
  then show ?case using ps Cons.hyps(1) B by (intro exI [of _ "(t, p) # ps"]) (simp add: sent_frame_def comp_def)
qed simp

lemma ifs_run_new:
  assumes "c < 2 ^ 63"
  shows "stream_run (ifs_poll_next crc ec) (ifs_new inp c) = Some (map (frame_item ec) (recv_spec crc c [] inp))"
proof (rule ifs_run_eq)
  show "ifs_ok crc c [] (ifs_new inp c)"
    using sb_inv_new [OF assms] by (simp add: ifs_ok_def ifs_new_def need_ok_def INMEM_FRAME_HEAD_def)
qed (simp add: ifs_new_def)

section \<open>Properties\<close>

text \<open>
  C9. The parser of frames accepts exactly what the makers of frames write: it takes a frame off
  the front of a buffer if and only if the buffer starts with the bytes a maker produces for that
  encoder id, type id and payload, of at most 50 MiB, and it consumes just these bytes.
\<close>

theorem frame_parse_exact:
  "InMemoryFrame_parse crc buf = Some (Inr (Parsed n f)) \<longleftrightarrow>
     (\<exists>r. buf = frame_bytes crc (fr_encid f) (fr_tyid f) (fr_buf f) @ r \<and> n = 24 + length (fr_buf f) \<and>
        fr_len f = of_nat (length (fr_buf f)) \<and> length (fr_buf f) \<le> 52428800)"
proof (cases "20 \<le> length buf")
  case False
  then show ?thesis by (auto simp: InMemoryFrame_parse_def INMEM_FRAME_HEAD_def)
next
  case True
  have "InMemoryFrame_parse crc buf = Some (Inr (Parsed n f)) \<longleftrightarrow>
      (\<exists>r. frame_next crc buf = Inr (Some (f, r)) \<and> n = 24 + head_len buf)"
    by (auto simp: parse_eq [OF True] split: sum.split option.split)
  also have "\<dots> \<longleftrightarrow> (\<exists>r. frame_next crc buf = Inr (Some (f, r)) \<and> n = 24 + length (fr_buf f))"
    using frame_next_Some(5) by metis
  finally show ?thesis unfolding frame_next_iff by blast
qed

text \<open>
  C8. The stream of frames over its sliding buffer is the receiver \<open>recv_spec\<close>: for every
  sequence of chunks, pauses and errors on its input and every capacity it does not panic, comes to
  its end, and yields the frames in order up to the terminating frame, an error or the end.
\<close>

theorem frame_stream_refines_receiver:
  assumes "c < 2 ^ 63"
  shows "stream_run (ifs_poll_next crc ec) (ifs_new inp c) = Some (map (frame_item ec) (recv_spec crc c [] inp))"
  using assms by (rule ifs_run_new)

theorem frame_stream_refines_receiver_witness:
  "stream_run (ifs_poll_next (\<lambda>_. 7) id) (ifs_new [Pending, Ready (Inr (frame_bytes (\<lambda>_. 7) 1 2 [5])), Ready (Inl ())] 64) =
     Some [Inr (DataItem (Data \<lparr>fr_encid = 1, fr_tyid = 2, fr_len = 1, fr_buf = [5]\<rparr>)), Inl Input]"
proof -
  define b :: bytes where "b = frame_bytes (\<lambda>_. 7) 1 2 [5]"
  have n: "frame_next (\<lambda>_. 7) [] = Inr None" by (simp add: frame_next_def)
  have f: "frame_next (\<lambda>_. 7) b = Inr (Some (\<lparr>fr_encid = 1, fr_tyid = 2, fr_len = 1, fr_buf = [5]\<rparr>, []))"
    using frame_next_bytes [of "[5]" "\<lambda>_. 7" 1 2 "[]"] by (simp add: b_def)
  have l: "b \<noteq> []" "length b = 25" by (auto simp: b_def simp flip: length_greater_0_conv)
  have "recv_spec (\<lambda>_. 7) 64 [] [Pending, Ready (Inr b), Ready (Inl ())] =
      [Inr \<lparr>fr_encid = 1, fr_tyid = 2, fr_len = 1, fr_buf = [5]\<rparr>, Inl Input]"
    by (simp add: n f l recv_spec.simps [of _ _ "[]"] recv_spec.simps [of _ _ b] TERM_FRAME_TYPE_ID_def)
  then show ?thesis
    using frame_stream_refines_receiver [of 64 "\<lambda>_. 7" id "[Pending, Ready (Inr b), Ready (Inl ())]"]
    by (simp add: frame_item_def b_def)
qed

text \<open>
  C7. Items sent as frames arrive as they were sent: when a node frames a sequence of items, with
  or without the terminating frame, and the bytes reach the other node in non-empty chunks of any
  size that fit next to a frame, the stream of frames and the decoding stream together yield just
  these items, up to the first error among them.
\<close>

theorem framed_items_arrive:
  assumes cd: "codec_ok cd"
    and bs: "list_all2 (\<lambda>it b. make_frame_dyn crc cd it = Inr b \<and> length b \<le> B) its bs"
    and B: "24 \<le> B" "B \<le> 24 + 52428800"
    and sent: "inp_bytes inp = concat bs \<or> (\<exists>tf r. make_term_frame crc = (Inr tf :: ('e frame_error, bytes) result) \<and>
      inp_bytes inp = concat bs @ tf @ r)"
    and inp: "list_all (chunk_ok c B) inp" and c: "c < 2 ^ 63"
  shows "stream_run (eff_poll_next cd es fs (ifs_poll_next crc ec)) (eff_new (ifs_new inp c)) = Some (upto_err its)"
proof -
  obtain ps where ps: "bs = map (sent_frame crc) ps" and dec: "map (decode_frame cd \<circ> received_frame) ps = map Inr its"
    and all: "\<forall>(t, p) \<in> set ps. length p \<le> 52428800 \<and> t \<noteq> TERM_FRAME_TYPE_ID"
      "\<forall>(t, p) \<in> set ps. length p \<le> 52428800 \<and> 24 + length p \<le> B"
    using sent_parts [OF cd B(2) bs] by blast
  obtain tl where tl: "inp_bytes inp = concat (map (sent_frame crc) ps) @ tl" "frames_of crc tl = []" "frames_within crc B tl"
  proof -
    have "frames_of crc [] = []" "frames_within crc B []"
      using B(1) by (simp_all add: frames_of.simps frames_within.simps frame_next_def need_def)
    moreover have "frames_of crc (tf @ r) = []" "frames_within crc B (tf @ r)"
      if "make_term_frame crc = (Inr tf :: ('e frame_error, bytes) result)" for tf r
      using that B(1) by (auto simp: make_term_frame_def frames_of.simps [of crc "frame_bytes crc e t p @ q" for e t p q]
          frames_within.simps [of crc B "frame_bytes crc e t p @ q" for e t p q] frame_next_bytes need_frame)
    ultimately show thesis using sent that [of "[]"] that ps by fastforce
  qed
  have "recv_spec crc c [] inp = frames_of crc (inp_bytes inp)"
    using recv_chunks [OF inp, of crc "[]"] frames_within_sent [OF all(2) tl(3)] tl(1) by simp
  also have "\<dots> = map (Inr \<circ> received_frame) ps" using frames_of_sent [OF all(1), of crc tl] tl(1,2) by simp
  finally have "stream_run (ifs_poll_next crc ec) (ifs_new inp c) = Some (map (frame_item ec \<circ> (Inr \<circ> received_frame)) ps)"
    using ifs_run_new [OF c, of crc ec inp] by simp
  from eff_run [OF this, of cd es fs]
  have "stream_run (eff_poll_next cd es fs (ifs_poll_next crc ec)) (eff_new (ifs_new inp c)) =
      Some (upto_err (map (eff_item cd es fs \<circ> (frame_item ec \<circ> (Inr \<circ> received_frame))) ps))" by simp
  also have "map (eff_item cd es fs \<circ> (frame_item ec \<circ> (Inr \<circ> received_frame))) ps =
      map (case_sum (Inl \<circ> fs) id) (map (decode_frame cd \<circ> received_frame) ps)"
    by (simp add: frame_item_def eff_item_def split: sum.split)
  also have "\<dots> = its" unfolding dec by (simp add: comp_def)
  finally show ?thesis .
qed

text \<open>A codec that knows one value of each kind, for the witness.\<close>

definition one_serde :: "'a \<Rightarrow> bytes \<Rightarrow> ('a, unit) Serde" where
  "one_serde x b = \<lparr>to_stdvec = (\<lambda>y. if y = x then Inr b else Inl ()), from_bytes = (\<lambda>c. if c = b then Inr x else Inl ())\<rparr>"

definition demo_codec :: "(string, nat, unit) Codec" where
  "demo_codec =
     \<lparr>cd_item = one_serde (Inr (DataItem (Data 5))) [5, 6, 7],
      cd_log = one_serde \<lparr>li_ts = 0, li_origin = ''n'', li_level = INFO, li_msg = ''m''\<rparr> [1],
      cd_stats = one_serde SiBinning [2], cd_error = one_serde ''broken'' [3], FRAME_TYPE_ID = 0x50000,
      frame_type_id = (\<lambda>_. 0x50000)\<rparr>"

lemma demo_codec_ok: "codec_ok demo_codec"
  by (simp add: codec_ok_def demo_codec_def serde_ok_def one_serde_def frame_ids)

theorem framed_items_arrive_witness:
  "\<exists>bs. stream_run (eff_poll_next demo_codec id (\<lambda>_. ''frame'') (ifs_poll_next (\<lambda>_. 9) (\<lambda>_. ''input'')))
      (eff_new (ifs_new (Pending # map (\<lambda>b. Ready (Inr [b]) :: (unit, bytes) result poll) bs) 100)) =
    Some [Inr (DataItem (Data 5)), Inr (Stats SiBinning), Inr (DataItem RangeComplete), Inl ''broken'']"
proof -
  define its :: "(string, nat) Sitemty list" where
    "its = [Inr (DataItem (Data 5)), Inr (Stats SiBinning), Inr (DataItem RangeComplete), Inl ''broken'']"
  define bs where "bs = [frame_bytes (\<lambda>_. 9) INMEM_FRAME_ENCID 0x50000 [5, 6, 7], frame_bytes (\<lambda>_. 9) INMEM_FRAME_ENCID STATS_FRAME_TYPE_ID [2],
      frame_bytes (\<lambda>_. 9) INMEM_FRAME_ENCID RANGE_COMPLETE_FRAME_TYPE_ID [], frame_bytes (\<lambda>_. 9) INMEM_FRAME_ENCID ERROR_FRAME_TYPE_ID [3]]"
  define inp where "inp = Pending # map (\<lambda>b. Ready (Inr [b]) :: (unit, bytes) result poll) (concat bs)"
  have 1: "inp_bytes (map (\<lambda>b. Ready (Inr [b])) xs) = xs" for xs by (induction xs) simp_all
  have 2: "list_all (chunk_ok 100 30) (map (\<lambda>b. Ready (Inr [b])) xs)" for xs by (simp add: list_all_iff)
  have bs: "list_all2 (\<lambda>it b. make_frame_dyn (\<lambda>_. 9) demo_codec it = Inr b \<and> length b \<le> 30) its bs"
    by (simp add: its_def bs_def make_frame_dyn_def make_frame_2_def make_stats_frame_def make_error_frame_def
        make_range_complete_frame_def encode_to_vec_def json_to_vec_def demo_codec_def one_serde_def)
  have "upto_err its = its" by (simp add: its_def)
  with framed_items_arrive [OF demo_codec_ok bs, of inp 100 id "\<lambda>_. ''frame''" "\<lambda>_. ''input''"]
  have "stream_run (eff_poll_next demo_codec id (\<lambda>_. ''frame'') (ifs_poll_next (\<lambda>_. 9) (\<lambda>_. ''input'')))
      (eff_new (ifs_new inp 100)) = Some its"
    by (simp add: inp_def 1 2)
  then show ?thesis unfolding inp_def its_def by blast
qed

text \<open>
  C37. A connection that breaks off is not reported: when the input ends inside a frame the stream
  of frames ends without an error, and so it does on the first empty chunk, whatever bytes come
  after that chunk.
\<close>

theorem frame_stream_silent_end:
  fixes inp :: "('ie, bytes) result poll list"
  assumes "0 < k" and "k < 24 + length p" and "length p \<le> 52428800" and "k \<le> c" and "c < 2 ^ 63"
  shows "stream_run (ifs_poll_next crc ec) (ifs_new ([Ready (Inr (take k (frame_bytes crc e t p)))] :: ('ie, bytes) result poll list) c) = Some [] \<and>
    stream_run (ifs_poll_next crc ec) (ifs_new (Ready (Inr []) # inp) c) = Some []"
proof -
  let ?f = "frame_bytes crc e t p" and ?q = "take k (frame_bytes crc e t p)"
  have full: "frame_next crc (?q @ drop k ?f) = Inr (Some (\<lparr>fr_encid = e, fr_tyid = t, fr_len = of_nat (length p), fr_buf = p\<rparr>, []))"
    using frame_next_bytes [OF assms(3), of crc e t "[]"] by simp
  have part: "frame_next crc ?q = Inr None"
  proof (cases "frame_next crc ?q")
    case (Inl e)
    from frame_next_append(1) [OF Inl, of "drop k ?f"] full show ?thesis by simp
  next
    case (Inr o1)
    moreover have False if "o1 = Some (f, r)" for f r
    proof -
      have n: "frame_next crc ?q = Inr (Some (f, r))" using Inr that by simp
      then have "fr_buf f = p" using frame_next_append(2) [OF n, of "drop k ?f"] full by simp
      then show False using frame_next_Some(1,5) [OF n] assms(2) by simp
    qed
    ultimately show ?thesis by (cases o1) auto
  qed
  have nil: "frame_next crc [] = Inr None" by (simp add: frame_next_def)
  have "?q \<noteq> []" "length ?q \<le> c" using assms by (simp_all flip: length_greater_0_conv)
  then have "recv_spec crc c [] ([Ready (Inr ?q)] :: ('ie, bytes) result poll list) = []"
    using nil part assms(4) by (simp add: recv_spec.simps [of _ _ "[]"] recv_spec.simps [of _ _ ?q])
  then have "stream_run (ifs_poll_next crc ec) (ifs_new ([Ready (Inr ?q)] :: ('ie, bytes) result poll list) c) = Some []"
    by (simp add: ifs_run_new [OF assms(5)])
  moreover have "recv_spec crc c [] (Ready (Inr []) # inp) = []" by (simp add: recv_spec.simps nil)
  then have "stream_run (ifs_poll_next crc ec) (ifs_new (Ready (Inr []) # inp) c) = Some []"
    by (simp add: ifs_run_new [OF assms(5)])
  ultimately show ?thesis by blast
qed

theorem frame_stream_silent_end_witness:
  "stream_run (ifs_poll_next (\<lambda>_. 9) id) (ifs_new [Ready (Inr (take 10 (frame_bytes (\<lambda>_. 9) 1 2 [5]))) :: (unit, bytes) result poll] 64) = Some []"
  using frame_stream_silent_end [of 10 "[5]" 64 "\<lambda>_. 9" id 1 2 "[] :: (unit, bytes) result poll list"] by simp

text \<open>A payload between the limit of the parser and the limit of the maker is framed and then refused.\<close>

lemma oversized_frame_refused:
  assumes "to_stdvec sd x = Inr p" and "52428800 < length p" and "length p < 2 ^ 32"
  shows "\<exists>b. make_frame_2 crc sd x fty = Inr b \<and>
    InMemoryFrame_parse crc b = Some (Inl (HugeFrame (of_nat (length p))))"
proof -
  have u: "unat (of_nat (length p) :: u32) = length p" using assms(3) by (simp add: unsigned_of_nat take_bit_nat_eq_self)
  let ?b = "frame_bytes crc INMEM_FRAME_ENCID fty p"
  have h: "from_le (take 4 ?b) = INMEM_FRAME_MAGIC" "from_le (take 4 (drop 12 ?b)) = (of_nat (length p) :: u32)"
    by (simp_all add: frame_bytes_def Let_def)
  have "frame_next crc ?b = Inl (HugeFrame (of_nat (length p)))"
    using assms(2) h u by (simp add: frame_next_def Let_def)
  then have "InMemoryFrame_parse crc ?b = Some (Inl (HugeFrame (of_nat (length p))))" by (simp add: parse_eq)
  moreover have "make_frame_2 crc sd x fty = Inr ?b"
    using assms(1,3) by (simp add: make_frame_2_def encode_to_vec_def)
  ultimately show ?thesis by blast
qed

end
