(* ===== verification/BinIter.thy ===== *)
theory BinIter
  imports BinRange Msp
begin

text \<open>
  The iterators over the addresses of precomputed bins (\<^verbatim>\<open>scyllaconn/src/binned2\<close>):
  \<^verbatim>\<open>msplspiter.rs\<close> yields the bins that cover a range one by one, \<^verbatim>\<open>mspchunker.rs\<close> yields the same
  bins as one interval per patch. Lemmas: both end, and both number the same bins.
\<close>

record MspLspIter =
  it_range :: NanoRange
  it_pbp :: PrebinnedPartitioning
  it_mins :: "MspU32 \<times> LspU32"
  it_maxs :: "MspU32 \<times> LspU32"
  it_curs :: "MspU32 \<times> LspU32"

definition MspLspIter_new_covering :: "NanoRange \<Rightarrow> PrebinnedPartitioning \<Rightarrow> MspLspIter panics" where
  "MspLspIter_new_covering rng pbp = do {
     mins \<leftarrow> msp_lsp pbp (TsNano_to_ts_ms (nr_beg rng));
     let end1 = TsNano_to_ts_ms (nr_end rng);
     let g = Msp.bin_len pbp - 1;
     let end2 = TsMs_add_dt_ms end1 g;
     maxs \<leftarrow> msp_lsp pbp end2;
     Some \<lparr>it_range = rng, it_pbp = pbp, it_mins = mins, it_maxs = maxs, it_curs = mins\<rparr>
   }"

definition MspLspIter_next :: "MspLspIter \<Rightarrow> (MspU32 \<times> LspU32) option \<times> MspLspIter" where
  "MspLspIter_next s =
     (if fst (it_curs s) \<ge> fst (it_maxs s) \<and> snd (it_curs s) \<ge> snd (it_maxs s) then (None, s)
      else
        let (msp, lsp) = it_curs s;
            curs = (msp, lsp + 1);
            curs = (if snd curs \<ge> patch_len (it_pbp s) then (fst curs + 1, 0) else curs)
        in (Some (msp, lsp), s\<lparr>it_curs := curs\<rparr>))"

text \<open>Taking all items of an iterator, as a \<^verbatim>\<open>for\<close> loop over it does.\<close>

partial_function (option) collect :: "('s \<Rightarrow> 'a option \<times> 's) \<Rightarrow> 's \<Rightarrow> 'a list option" where
  "collect nxt s =
     (case nxt s of
        (None, _) \<Rightarrow> Some []
      | (Some x, s) \<Rightarrow> do { xs \<leftarrow> collect nxt s; Some (x # xs) })"

record MspChunkerItem =
  ck_msp :: MspU32
  ck_lsp1 :: LspU32
  ck_lsp2 :: LspU32

record MspChunker =
  mc_pbp :: PrebinnedPartitioning
  mc_min :: "MspU32 \<times> LspU32"
  mc_max :: "MspU32 \<times> LspU32"
  mc_cur :: "MspU32 \<times> LspU32"

definition MspChunker_new_covering :: "NanoRange \<Rightarrow> PrebinnedPartitioning \<Rightarrow> MspChunker panics" where
  "MspChunker_new_covering rng pbp = do {
     mins \<leftarrow> msp_lsp pbp (TsNano_to_ts_ms (nr_beg rng));
     let end1 = TsNano_to_ts_ms (nr_end rng);
     let g = Msp.bin_len pbp - 1;
     let end2 = TsMs_add_dt_ms end1 g;
     maxs \<leftarrow> msp_lsp pbp end2;
     Some \<lparr>mc_pbp = pbp, mc_min = mins, mc_max = maxs, mc_cur = mins\<rparr>
   }"

definition MspChunker_from_binned_range :: "BinnedRange \<Rightarrow> PrebinnedPartitioning \<Rightarrow> MspChunker panics" where
  "MspChunker_from_binned_range rng pbp = do {
     mins \<leftarrow> msp_lsp pbp (TsNano_to_ts_ms (nano_beg rng));
     let end1 = TsNano_to_ts_ms (nano_end rng);
     let g = Msp.bin_len pbp - 1;
     let end2 = TsMs_add_dt_ms end1 g;
     maxs \<leftarrow> msp_lsp pbp end2;
     Some \<lparr>mc_pbp = pbp, mc_min = mins, mc_max = maxs, mc_cur = mins\<rparr>
   }"

definition MspChunker_from_min_max ::
  "PrebinnedPartitioning \<Rightarrow> MspU32 \<times> LspU32 \<Rightarrow> MspU32 \<times> LspU32 \<Rightarrow> MspChunker" where
  "MspChunker_from_min_max pbp mn mx = \<lparr>mc_pbp = pbp, mc_min = mn, mc_max = mx, mc_cur = mn\<rparr>"

definition MspChunker_next :: "MspChunker \<Rightarrow> MspChunkerItem option \<times> MspChunker" where
  "MspChunker_next s =
     (if fst (mc_cur s) \<ge> fst (mc_max s) \<and> snd (mc_cur s) \<ge> snd (mc_max s) then (None, s)
      else if fst (mc_cur s) < fst (mc_max s) then
        let item = \<lparr>ck_msp = fst (mc_cur s), ck_lsp1 = snd (mc_cur s), ck_lsp2 = patch_len (mc_pbp s)\<rparr>
        in (Some item, s\<lparr>mc_cur := (fst (mc_cur s) + 1, 0)\<rparr>)
      else if snd (mc_cur s) < snd (mc_max s) then
        let item = \<lparr>ck_msp = fst (mc_cur s), ck_lsp1 = snd (mc_cur s), ck_lsp2 = snd (mc_max s)\<rparr>
        in (Some item, s\<lparr>mc_cur := (fst (mc_cur s), snd (mc_max s))\<rparr>)
      else (None, s))"

section \<open>Bin numbers of the iterators\<close>

text \<open>The address of the bin with number \<open>k\<close>.\<close>

definition bin_addr :: "PrebinnedPartitioning \<Rightarrow> nat \<Rightarrow> MspU32 \<times> LspU32" where
  "bin_addr p k = (of_nat (k div plen p), of_nat (k mod plen p))"

lemma bin_addr_fst_snd:
  assumes "k div plen p < 2 ^ 32"
  shows "unat (fst (bin_addr p k)) = k div plen p" "unat (snd (bin_addr p k)) = k mod plen p"
proof -
  have "k mod plen p < 1200" using less_le_trans [OF mod_less_divisor [OF plen_pos(1)] plen_le] .
  then show "unat (snd (bin_addr p k)) = k mod plen p"
    by (simp add: bin_addr_def unsigned_of_nat take_bit_nat_eq_self)
  show "unat (fst (bin_addr p k)) = k div plen p"
    using assms by (simp add: bin_addr_def unsigned_of_nat take_bit_nat_eq_self)
qed

lemma bin_addr_eqI: "unat m = k div plen p \<Longrightarrow> unat l = k mod plen p \<Longrightarrow> (m, l) = bin_addr p k"
  by (auto simp: bin_addr_def word_unat_eq_iff dest: sym)

lemma bin_addr_order:
  assumes "n \<le> N" and "N div plen p < 2 ^ 32"
  shows "fst (bin_addr p n) \<ge> fst (bin_addr p N) \<and> snd (bin_addr p n) \<ge> snd (bin_addr p N) \<longleftrightarrow> n = N"
    and "fst (bin_addr p n) < fst (bin_addr p N) \<longleftrightarrow> n div plen p < N div plen p"
    and "n div plen p = N div plen p \<Longrightarrow> snd (bin_addr p n) < snd (bin_addr p N) \<longleftrightarrow> n < N"
proof -
  have d: "n div plen p \<le> N div plen p" using assms(1) by (rule div_le_mono)
  have n: "n div plen p < 2 ^ 32" using d assms(2) by simp
  note u = bin_addr_fst_snd [OF n] bin_addr_fst_snd [OF assms(2)]
  have dm: "n = n div plen p * plen p + n mod plen p" "N = N div plen p * plen p + N mod plen p" by simp_all
  show "fst (bin_addr p n) \<ge> fst (bin_addr p N) \<and> snd (bin_addr p n) \<ge> snd (bin_addr p N) \<longleftrightarrow> n = N"
  proof
    assume "fst (bin_addr p n) \<ge> fst (bin_addr p N) \<and> snd (bin_addr p n) \<ge> snd (bin_addr p N)"
    then have "N div plen p \<le> n div plen p" "N mod plen p \<le> n mod plen p" by (simp_all add: word_le_nat_alt u)
    with d have "N div plen p = n div plen p" by simp
    then show "n = N" using dm assms(1) \<open>N mod plen p \<le> n mod plen p\<close> by (metis add_le_cancel_left antisym)
  qed simp
  show "fst (bin_addr p n) < fst (bin_addr p N) \<longleftrightarrow> n div plen p < N div plen p" by (simp add: word_less_nat_alt u)
  show "n div plen p = N div plen p \<Longrightarrow> snd (bin_addr p n) < snd (bin_addr p N) \<longleftrightarrow> n < N"
  proof -
    assume e: "n div plen p = N div plen p"
    have "N = n div plen p * plen p + N mod plen p" unfolding e by simp
    with dm(1) have "n mod plen p < N mod plen p \<longleftrightarrow> n < N" by linarith
    then show ?thesis by (simp add: word_less_nat_alt u)
  qed
qed

lemma bin_addr_Suc:
  assumes "Suc n div plen p < 2 ^ 32"
  shows "lsp_inc p (bin_addr p n) = bin_addr p (Suc n)"
proof -
  have n: "n div plen p < 2 ^ 32" using assms div_le_mono [of n "Suc n" "plen p"] by linarith
  note u = bin_addr_fst_snd [OF n]
  have m: "n mod plen p < plen p" by simp
  obtain m l where ml: "bin_addr p n = (m, l)" by fastforce
  have lt: "unat l < plen p" using u(2) ml m by simp
  have l1: "unat (l + 1) = unat l + 1" using lt plen_le [of p] unat_add_lem [of l 1] by simp
  show ?thesis
  proof (cases "Suc (n mod plen p) = plen p")
    case True
    then have s: "Suc n div plen p = Suc (n div plen p)" "Suc n mod plen p = 0" by (simp_all add: div_Suc mod_Suc)
    have "unat (m + 1) = Suc n div plen p" using u(1) ml assms s(1) unat_add_lem [of m 1] by simp
    moreover have "patch_len p \<le> l + 1" using l1 u(2) ml True by (simp add: word_le_nat_alt)
    ultimately show ?thesis using ml s(2) bin_addr_eqI [of "m + 1" "Suc n" p 0] by (simp add: lsp_inc_def)
  next
    case False
    then have s: "Suc n div plen p = n div plen p" "Suc n mod plen p = Suc (n mod plen p)"
      by (simp_all add: div_Suc mod_Suc)
    have "Suc (n mod plen p) < plen p" using False m by linarith
    then have "\<not> patch_len p \<le> l + 1" using l1 u(2) ml by (simp add: word_le_nat_alt)
    then show ?thesis using ml u l1 s bin_addr_eqI [of m "Suc n" p "l + 1"] by (simp add: lsp_inc_def)
  qed
qed

section \<open>The bins of a range\<close>

definition ts_ms :: "TsNano \<Rightarrow> nat" where
  "ts_ms t = unat t div 1000000"

lemma unat_to_ts_ms: "unat (TsNano_to_ts_ms t) = ts_ms t"
  by (simp add: TsNano_to_ts_ms_def TsNano_ms_def unat_div_u64 ts_ms_def)

lemma ts_ms_le: "ts_ms t \<le> 18446744073709"
  using unat_u64_lt [of t] by (simp add: ts_ms_def del: unat_u64_lt)

lemma patch_bounds: "1200000 \<le> blen p * plen p" "blen p \<le> 86400000" "1000 \<le> blen p"
  by (cases p; simp)+

text \<open>The numbers of the first bin of a range and of the first bin behind it.\<close>

definition first_bin_no :: "PrebinnedPartitioning \<Rightarrow> TsNano \<Rightarrow> nat" where
  "first_bin_no p t = ts_ms t div blen p"

definition end_bin_no :: "PrebinnedPartitioning \<Rightarrow> TsNano \<Rightarrow> nat" where
  "end_bin_no p t = (ts_ms t + (blen p - 1)) div blen p"

lemma patch_no_fits:
  assumes "v \<le> 18446744073709 + 86400000"
  shows "v div blen p div plen p < 2 ^ 32"
proof -
  have "v div blen p div plen p = v div (blen p * plen p)" by (simp add: div_mult2_eq)
  also have "\<dots> \<le> v div 1200000" by (rule div_le_mono2) (use patch_bounds(1) [of p] in simp_all)
  also have "\<dots> \<le> (18446744073709 + 86400000) div 1200000" using assms by (rule div_le_mono)
  finally show ?thesis by simp
qed

lemma msp_lsp_addr:
  assumes "unat v \<le> 18446744073709 + 86400000"
  shows "msp_lsp p v = Some (bin_addr p (unat v div blen p))"
proof -
  obtain m l where ml: "msp_lsp p v = Some (m, l)" "unat m = unat v div blen p div plen p mod 2 ^ 32"
    "unat l = unat v div blen p mod plen p"
    by (rule msp_lsp_numbers)
  have "(m, l) = bin_addr p (unat v div blen p)"
    using ml(2,3) patch_no_fits [OF assms, of p] by (intro bin_addr_eqI) simp_all
  then show ?thesis using ml(1) by simp
qed

lemma end_ms:
  "unat (TsMs_add_dt_ms (TsNano_to_ts_ms t) (Msp.bin_len p - 1)) = ts_ms t + (blen p - 1)"
proof -
  have "unat (Msp.bin_len p - 1) = blen p - 1" by (cases p) simp_all
  moreover have "ts_ms t + (blen p - 1) < 2 ^ 64" using ts_ms_le [of t] patch_bounds(2) [of p] by simp
  ultimately show ?thesis by (simp add: TsMs_add_dt_ms_def unat_add_u64 unat_to_ts_ms)
qed

lemma covering_ends:
  "msp_lsp p (TsNano_to_ts_ms b) = Some (bin_addr p (first_bin_no p b))"
  "msp_lsp p (TsMs_add_dt_ms (TsNano_to_ts_ms e) (Msp.bin_len p - 1)) = Some (bin_addr p (end_bin_no p e))"
  "end_bin_no p e div plen p < 2 ^ 32"
proof -
  have "ts_ms e + (blen p - 1) \<le> 18446744073709 + 86400000" using ts_ms_le [of e] patch_bounds(2) [of p] by simp
  then show "msp_lsp p (TsMs_add_dt_ms (TsNano_to_ts_ms e) (Msp.bin_len p - 1)) = Some (bin_addr p (end_bin_no p e))"
    "end_bin_no p e div plen p < 2 ^ 32"
    using msp_lsp_addr [of "TsMs_add_dt_ms (TsNano_to_ts_ms e) (Msp.bin_len p - 1)" p]
      patch_no_fits [of "ts_ms e + (blen p - 1)" p]
    by (simp_all add: end_ms end_bin_no_def)
  show "msp_lsp p (TsNano_to_ts_ms b) = Some (bin_addr p (first_bin_no p b))"
    using msp_lsp_addr [of "TsNano_to_ts_ms b" p] ts_ms_le [of b] by (simp add: unat_to_ts_ms first_bin_no_def)
qed

lemma first_le_end: "b \<le> e \<Longrightarrow> first_bin_no p b \<le> end_bin_no p e"
proof -
  assume "b \<le> e"
  then have "ts_ms b \<le> ts_ms e" by (simp add: ts_ms_def word_le_nat_alt div_le_mono)
  then show ?thesis unfolding first_bin_no_def end_bin_no_def by (intro div_le_mono) simp
qed

section \<open>The loops\<close>

lemma upt_step: "n < N \<Longrightarrow> map f [n..<N] = f n # map f [Suc n..<N]"
  by (simp add: upt_conv_Cons)

lemma iter_next:
  assumes "it_curs s = bin_addr (it_pbp s) n" and "it_maxs s = bin_addr (it_pbp s) N" and "n \<le> N"
    and "N div plen (it_pbp s) < 2 ^ 32"
  shows "MspLspIter_next s =
    (if n = N then (None, s) else (Some (bin_addr (it_pbp s) n), s\<lparr>it_curs := bin_addr (it_pbp s) (Suc n)\<rparr>))"
proof (cases "n = N")
  case True
  then show ?thesis using assms bin_addr_order(1) [OF assms(3,4)] by (simp add: MspLspIter_next_def)
next
  case False
  then have "Suc n div plen (it_pbp s) < 2 ^ 32"
    using assms(3,4) div_le_mono [of "Suc n" N "plen (it_pbp s)"] by linarith
  then have "lsp_inc (it_pbp s) (bin_addr (it_pbp s) n) = bin_addr (it_pbp s) (Suc n)" by (rule bin_addr_Suc)
  then show ?thesis
    using assms False bin_addr_order(1) [OF assms(3,4)]
    by (cases "bin_addr (it_pbp s) n") (auto simp: MspLspIter_next_def lsp_inc_def Let_def)
qed

lemma iter_collect:
  assumes "it_curs s = bin_addr (it_pbp s) n" and "it_maxs s = bin_addr (it_pbp s) N" and "n \<le> N"
    and "N div plen (it_pbp s) < 2 ^ 32"
  shows "collect MspLspIter_next s = Some (map (bin_addr (it_pbp s)) [n..<N])"
  using assms
proof (induction "N - n" arbitrary: n s)
  case 0
  then show ?case using iter_next [OF 0(2-5)] by (simp add: collect.simps [of _ s])
next
  case (Suc k)
  let ?s = "s\<lparr>it_curs := bin_addr (it_pbp s) (Suc n)\<rparr>"
  have n: "n < N" using Suc.hyps(2) by simp
  have "collect MspLspIter_next ?s = Some (map (bin_addr (it_pbp s)) [Suc n..<N])"
    using Suc.hyps(1) [of "Suc n" ?s] Suc.hyps(2) Suc.prems by simp
  then show ?case
    using iter_next [OF Suc.prems] n by (simp add: collect.simps [of _ s] upt_step [OF n] del: upt_Suc)
qed

text \<open>The bins of a chunk.\<close>

definition chunk_bins :: "MspChunkerItem \<Rightarrow> (MspU32 \<times> LspU32) list" where
  "chunk_bins c = map (\<lambda>l. (ck_msp c, of_nat l)) [unat (ck_lsp1 c)..<unat (ck_lsp2 c)]"

lemma bin_addr_in_patch: "l < plen p \<Longrightarrow> bin_addr p (q * plen p + l) = (of_nat q, of_nat l)"
  by (simp add: bin_addr_def)

lemma patch_bins:
  assumes "b \<le> plen p"
  shows "map (\<lambda>l. (of_nat q, of_nat l)) [a..<b] = map (bin_addr p) [q * plen p + a..<q * plen p + b]"
proof -
  have "map (bin_addr p) [q * plen p + a..<q * plen p + b] = map (\<lambda>l. bin_addr p (q * plen p + l)) [a..<b]"
    by (rule nth_equalityI) (simp_all add: add.assoc)
  also have "\<dots> = map (\<lambda>l. (of_nat q, of_nat l)) [a..<b]"
    using assms by (intro map_cong) (simp_all add: bin_addr_in_patch)
  finally show ?thesis by simp
qed

lemma chunk_next:
  assumes "mc_cur s = bin_addr (mc_pbp s) n" and "mc_max s = bin_addr (mc_pbp s) N" and "n \<le> N"
    and "N div plen (mc_pbp s) < 2 ^ 32"
  shows "n = N \<Longrightarrow> MspChunker_next s = (None, s)"
    and "n < N \<Longrightarrow> \<exists>c n'. MspChunker_next s = (Some c, s\<lparr>mc_cur := bin_addr (mc_pbp s) n'\<rparr>) \<and> n < n' \<and> n' \<le> N \<and>
      ck_lsp1 c < ck_lsp2 c \<and> ck_lsp2 c \<le> patch_len (mc_pbp s) \<and> chunk_bins c = map (bin_addr (mc_pbp s)) [n..<n']"
proof -
  let ?p = "mc_pbp s" and ?q = "n div plen (mc_pbp s)" and ?r = "n mod plen (mc_pbp s)"
  note o = bin_addr_order [OF assms(3,4)]
  show "MspChunker_next s = (None, s)" if "n = N" using that assms o(1) by (simp add: MspChunker_next_def)
  assume lt: "n < N"
  have q: "?q \<le> N div plen ?p" using assms(3) by (rule div_le_mono)
  then have q32: "?q < 2 ^ 32" using assms(4) by linarith
  note u = bin_addr_fst_snd [OF q32] and uN = bin_addr_fst_snd [OF assms(4)]
  have r: "?r < plen ?p" and n: "n = ?q * plen ?p + ?r" by simp_all
  have fst_n: "fst (bin_addr ?p n) = of_nat ?q" by (simp add: bin_addr_def)
  show "\<exists>c n'. MspChunker_next s = (Some c, s\<lparr>mc_cur := bin_addr (mc_pbp s) n'\<rparr>) \<and> n < n' \<and> n' \<le> N \<and>
      ck_lsp1 c < ck_lsp2 c \<and> ck_lsp2 c \<le> patch_len (mc_pbp s) \<and> chunk_bins c = map (bin_addr (mc_pbp s)) [n..<n']"
  proof (cases "?q < N div plen ?p")
    case True
    let ?c = "\<lparr>ck_msp = fst (bin_addr ?p n), ck_lsp1 = snd (bin_addr ?p n), ck_lsp2 = patch_len ?p\<rparr>"
    let ?n = "?q * plen ?p + plen ?p"
    have "?q + 1 < 2 ^ 32" using True assms(4) by linarith
    then have "unat (fst (bin_addr ?p n) + 1) = ?n div plen ?p"
      using u(1) unat_add_lem [of "fst (bin_addr ?p n)" 1] by simp
    then have "(fst (bin_addr ?p n) + 1, 0) = bin_addr ?p ?n" by (rule bin_addr_eqI) simp
    moreover have "n < ?n" using n r by linarith
    moreover have "?n \<le> N"
    proof -
      have "Suc ?q * plen ?p \<le> N div plen ?p * plen ?p" using True by (intro mult_le_mono1) simp
      also have "\<dots> \<le> N" by simp
      finally show ?thesis by simp
    qed
    moreover have "chunk_bins ?c = map (bin_addr ?p) [n..<?n]"
      using patch_bins [of "plen ?p" ?p ?q ?r] u(2) by (simp add: chunk_bins_def fst_n)
    moreover have "snd (bin_addr ?p n) < patch_len ?p" using u(2) r by (simp add: word_less_nat_alt)
    ultimately show ?thesis
      using assms o(1,2) True lt by (intro exI [of _ ?c] exI [of _ ?n]) (simp add: MspChunker_next_def)
  next
    case False
    then have e: "?q = N div plen ?p" using q by simp
    let ?c = "\<lparr>ck_msp = fst (bin_addr ?p n), ck_lsp1 = snd (bin_addr ?p n), ck_lsp2 = snd (bin_addr ?p N)\<rparr>"
    have N: "N = ?q * plen ?p + N mod plen ?p" unfolding e by simp
    have "chunk_bins ?c = map (bin_addr ?p) [?q * plen ?p + ?r..<?q * plen ?p + N mod plen ?p]"
      using patch_bins [of "N mod plen ?p" ?p ?q ?r] u(2) uN(2) by (simp add: chunk_bins_def fst_n)
    then have "chunk_bins ?c = map (bin_addr ?p) [n..<N]" using n N by simp
    moreover have "snd (bin_addr ?p n) < snd (bin_addr ?p N)" using o(3) [OF e] lt by simp
    moreover have "snd (bin_addr ?p N) \<le> patch_len ?p"
      using uN(2) mod_less_divisor [OF plen_pos(1), of N ?p] by (simp add: word_le_nat_alt)
    moreover have "(fst (bin_addr ?p n), snd (bin_addr ?p N)) = bin_addr ?p N"
      by (simp add: fst_n e bin_addr_def)
    ultimately show ?thesis
      using assms o(1,2) e lt by (intro exI [of _ ?c] exI [of _ N]) (simp add: MspChunker_next_def)
  qed
qed

lemma chunk_collect:
  assumes "mc_cur s = bin_addr (mc_pbp s) n" and "mc_max s = bin_addr (mc_pbp s) N" and "n \<le> N"
    and "N div plen (mc_pbp s) < 2 ^ 32"
  shows "\<exists>cs. collect MspChunker_next s = Some cs \<and> concat (map chunk_bins cs) = map (bin_addr (mc_pbp s)) [n..<N] \<and>
    (\<forall>c \<in> set cs. ck_lsp1 c < ck_lsp2 c \<and> ck_lsp2 c \<le> patch_len (mc_pbp s))"
  using assms
proof (induction "N - n" arbitrary: n s rule: less_induct)
  case less
  show ?case
  proof (cases "n = N")
    case True
    then show ?thesis using chunk_next(1) [OF less.prems] by (simp add: collect.simps [of _ s])
  next
    case False
    then have "n < N" using less.prems(3) by simp
    then obtain c n' where c: "MspChunker_next s = (Some c, s\<lparr>mc_cur := bin_addr (mc_pbp s) n'\<rparr>)" "n < n'" "n' \<le> N"
      "ck_lsp1 c < ck_lsp2 c" "ck_lsp2 c \<le> patch_len (mc_pbp s)" "chunk_bins c = map (bin_addr (mc_pbp s)) [n..<n']"
      using chunk_next(2) [OF less.prems] by blast
    let ?s = "s\<lparr>mc_cur := bin_addr (mc_pbp s) n'\<rparr>"
    have "N - n' < N - n" using c(2,3) by linarith
    then obtain cs where cs: "collect MspChunker_next ?s = Some cs"
      "concat (map chunk_bins cs) = map (bin_addr (mc_pbp s)) [n'..<N]"
      "\<forall>c \<in> set cs. ck_lsp1 c < ck_lsp2 c \<and> ck_lsp2 c \<le> patch_len (mc_pbp s)"
      using less.hyps [of n' ?s] c(2,3) less.prems \<open>n < N\<close> by auto
    have "[n..<N] = [n..<n'] @ [n'..<N]" using c(2,3) upt_add_eq_append [of n n' "N - n'"] by simp
    then show ?thesis using c cs by (intro exI [of _ "c # cs"]) (simp add: collect.simps [of _ s])
  qed
qed

text \<open>
  The iterator over the bins that cover a range ends and yields, in order and each once, the
  bins from the one that holds the begin of the range (in milliseconds) to the last one that begins
  before its end.
\<close>

lemma covering_iter_yields_bins:
  assumes "nr_beg rng \<le> nr_end rng"
  shows "\<exists>it. MspLspIter_new_covering rng p = Some it \<and> collect MspLspIter_next it =
    Some (map (bin_addr p) [ts_ms (nr_beg rng) div blen p..<(ts_ms (nr_end rng) + (blen p - 1)) div blen p])"
  using iter_collect [of "\<lparr>it_range = rng, it_pbp = p, it_mins = bin_addr p (first_bin_no p (nr_beg rng)),
      it_maxs = bin_addr p (end_bin_no p (nr_end rng)), it_curs = bin_addr p (first_bin_no p (nr_beg rng))\<rparr>"
      "first_bin_no p (nr_beg rng)" "end_bin_no p (nr_end rng)"] first_le_end [OF assms] covering_ends(3)
  by (simp add: MspLspIter_new_covering_def covering_ends(1,2) Let_def) (simp add: first_bin_no_def end_bin_no_def)

section \<open>Properties\<close>

lemma listed_bins:
  assumes "0 < B"
  shows "n \<in> set [x div 1000000 div B..<(y div 1000000 + (B - 1)) div B] \<longleftrightarrow>
    x < (n + 1) * B * 1000000 \<and> n * B * 1000000 < y div 1000000 * 1000000"
proof -
  have "x div 1000000 div B \<le> n \<longleftrightarrow> x div 1000000 < (n + 1) * B"
    using div_less_iff_less_mult [OF assms, of "x div 1000000" "n + 1"] by linarith
  also have "\<dots> \<longleftrightarrow> x < (n + 1) * B * 1000000" by (simp only: div_less_iff_less_mult zero_less_numeral)
  finally have 1: "x div 1000000 div B \<le> n \<longleftrightarrow> x < (n + 1) * B * 1000000" .
  have "n < (y div 1000000 + (B - 1)) div B \<longleftrightarrow> (n + 1) * B \<le> y div 1000000 + (B - 1)"
    using less_eq_div_iff_mult_less_eq [OF assms, of "n + 1" "y div 1000000 + (B - 1)"] by linarith
  also have "\<dots> \<longleftrightarrow> n * B < y div 1000000" using assms by auto
  also have "\<dots> \<longleftrightarrow> n * B * 1000000 < y div 1000000 * 1000000" by simp
  finally show ?thesis using 1 by simp
qed

text \<open>
  C11. Reading by chunks and reading bin by bin ask for the same bins: for every range and partitioning
  \<^verbatim>\<open>MspLspIter\<close> yields, in order and each once, the bins with the numbers from that of the bin that
  holds the begin to that of the last one that begins before the end rounded down to a millisecond. A bin
  of \<open>blen\<close> milliseconds is among them exactly if it ends after the begin of the range and begins before
  this rounded end, so these are the bins that overlap the range if it ends at a whole millisecond, and a
  range that ends within the first millisecond of a bin does not get that bin. The chunks of
  \<^verbatim>\<open>MspChunker\<close>, each a nonempty interval inside one patch, list exactly the same addresses.
\<close>

theorem chunks_equal_bins:
  assumes "nr_beg rng \<le> nr_end rng"
  shows "\<exists>it mc bs cs ns. MspLspIter_new_covering rng p = Some it \<and> collect MspLspIter_next it = Some bs \<and>
    bs = map (bin_addr p) ns \<and> ns = [ts_ms (nr_beg rng) div blen p..<(ts_ms (nr_end rng) + (blen p - 1)) div blen p] \<and>
    (\<forall>n. n \<in> set ns \<longleftrightarrow> unat (nr_beg rng) < (n + 1) * blen p * 1000000 \<and>
       n * blen p * 1000000 < unat (nr_end rng) div 1000000 * 1000000) \<and>
    MspChunker_new_covering rng p = Some mc \<and> collect MspChunker_next mc = Some cs \<and>
    concat (map chunk_bins cs) = bs \<and> (\<forall>c \<in> set cs. ck_lsp1 c < ck_lsp2 c \<and> ck_lsp2 c \<le> patch_len p)"
proof -
  let ?n = "first_bin_no p (nr_beg rng)" and ?N = "end_bin_no p (nr_end rng)"
  let ?mc = "\<lparr>mc_pbp = p, mc_min = bin_addr p ?n, mc_max = bin_addr p ?N, mc_cur = bin_addr p ?n\<rparr>"
  have "MspChunker_new_covering rng p = Some ?mc"
    by (simp add: MspChunker_new_covering_def covering_ends(1,2) Let_def)
  moreover obtain cs where "collect MspChunker_next ?mc = Some cs"
    "concat (map chunk_bins cs) = map (bin_addr p) [?n..<?N]"
    "\<forall>c \<in> set cs. ck_lsp1 c < ck_lsp2 c \<and> ck_lsp2 c \<le> patch_len p"
    using chunk_collect [of ?mc ?n ?N] first_le_end [OF assms] covering_ends(3) by auto
  moreover have "0 < blen p" using patch_bounds(3) [of p] by linarith
  then have "\<forall>n. n \<in> set [?n..<?N] \<longleftrightarrow> unat (nr_beg rng) < (n + 1) * blen p * 1000000 \<and>
      n * blen p * 1000000 < unat (nr_end rng) div 1000000 * 1000000"
    unfolding first_bin_no_def end_bin_no_def ts_ms_def by (intro allI listed_bins)
  moreover obtain it where "MspLspIter_new_covering rng p = Some it" "collect MspLspIter_next it = Some (map (bin_addr p) [?n..<?N])"
    using covering_iter_yields_bins [OF assms, of p] unfolding first_bin_no_def end_bin_no_def by blast
  ultimately show ?thesis unfolding first_bin_no_def end_bin_no_def by blast
qed

theorem chunks_equal_bins_witness:
  "\<exists>mc cs. MspChunker_new_covering \<lparr>nr_beg = 1717751851100000000, nr_end = 1717752119800000000\<rparr> Sec1 = Some mc \<and>
     collect MspChunker_next mc = Some cs \<and> concat (map chunk_bins cs) = map (bin_addr Sec1) [1717751851..<1717752120]"
  using chunks_equal_bins [of "\<lparr>nr_beg = 1717751851100000000, nr_end = 1717752119800000000\<rparr>" Sec1]
  by (auto simp: ts_ms_def)

text \<open>A range that ends within the first millisecond of a bin does not get that bin.\<close>

lemma covering_misses_last:
  "\<exists>it. MspLspIter_new_covering \<lparr>nr_beg = 0, nr_end = 1000000001\<rparr> Sec1 = Some it \<and>
     collect MspLspIter_next it = Some [bin_addr Sec1 0]"
  using covering_iter_yields_bins [of "\<lparr>nr_beg = 0, nr_end = 1000000001\<rparr>" Sec1]
  by (simp add: ts_ms_def)

end
