(* ===== verification/BinPlan.thy ===== *)
theory BinPlan
  imports BinIter Streams "HOL-Library.Product_Lexorder"
begin

text \<open>
  Reading precomputed bins (\<^verbatim>\<open>scyllaconn/src/binned2/frombinned.rs\<close>): the index of what was written
  is collected per day, for each day of the request the coarsest usable bin length is chosen, and
  the bins of the chosen length that overlap the day and the request are read patch by patch. The
  stream yields the log lines and the bins of the jobs in order.

  The index rows come from a stream that is given as its poll results. The cache provider is a
  parameter: a read is a future that is pending a number of times and then gives its result. Bins
  in a box are a list; \<^verbatim>\<open>drain_into\<close> appends all of them.
\<close>

instantiation RetentionTime :: linorder
begin

fun rt_rank :: "RetentionTime \<Rightarrow> nat" where
  "rt_rank Short = 0"
| "rt_rank Medium = 1"
| "rt_rank Long = 2"

definition less_eq_RetentionTime :: "RetentionTime \<Rightarrow> RetentionTime \<Rightarrow> bool" where
  "less_eq_RetentionTime a b \<longleftrightarrow> rt_rank a \<le> rt_rank b"

definition less_RetentionTime :: "RetentionTime \<Rightarrow> RetentionTime \<Rightarrow> bool" where
  "less_RetentionTime a b \<longleftrightarrow> rt_rank a < rt_rank b"

instance
proof
  show "a \<le> b \<Longrightarrow> b \<le> a \<Longrightarrow> a = b" for a b :: RetentionTime
    by (cases a; cases b) (simp_all add: less_eq_RetentionTime_def)
qed (auto simp: less_eq_RetentionTime_def less_RetentionTime_def)

end

type_synonym IndexRow = "RetentionTime \<times> MspU32 \<times> LspU32 \<times> DtMs"

type_synonym index_map = "MspU32 \<times> LspU32 \<Rightarrow> (DtMs \<times> RetentionTime) list option"

record FetchJob =
  fj_min :: "MspU32 \<times> LspU32"
  fj_max :: "MspU32 \<times> LspU32"
  fj_dbg_ts_1 :: "TsMs \<times> TsMs"
  fj_dbg_ts_2 :: "TsMs \<times> TsMs"
  fj_rt :: RetentionTime
  fj_pbp :: PrebinnedPartitioning

text \<open>The log lines, by what they report; \<open>'e\<close> is the error of a read and \<open>'c\<close> that of the index.\<close>

datatype ('c, 'e) LogLine =
  HandleCoarseIndex | CoarseRow IndexRow | CoarseError 'c | DrainInto nat | JobNone | JobError 'e

definition push_row :: "index_map \<Rightarrow> IndexRow \<Rightarrow> index_map" where
  "push_row h e =
     (case e of (rt, msp, lsp, binlen) \<Rightarrow>
       let k = (msp, lsp) in
       case h k of
         Some v \<Rightarrow> h(k \<mapsto> v @ [(binlen, rt)])
       | None \<Rightarrow> h(k \<mapsto> [(binlen, rt)]))"

definition coarse_map :: "IndexRow list \<Rightarrow> index_map \<Rightarrow> index_map" where
  "coarse_map rows h = (\<lambda>k. map_option sort (foldl push_row h rows k))"

definition handle_coarse_index ::
  "IndexRow list \<Rightarrow> index_map \<Rightarrow> ('c, 'e) LogLine list \<times> index_map" where
  "handle_coarse_index rows h =
     (HandleCoarseIndex # map CoarseRow rows, coarse_map rows h)"

text \<open>The inner loop of \<^verbatim>\<open>build_day1_jobs\<close>: the first usable entry, from the coarsest one on.\<close>

definition find_step ::
  "DtMs \<Rightarrow> (RetentionTime \<times> PrebinnedPartitioning) option \<Rightarrow> DtMs \<times> RetentionTime \<Rightarrow>
   (RetentionTime \<times> PrebinnedPartitioning) option" where
  "find_step bl found ix =
     (if fst ix \<le> bl then
        (case found of
           Some _ \<Rightarrow> found
         | None \<Rightarrow> (case from_binlen (fst ix) of Inr pbp2 \<Rightarrow> Some (snd ix, pbp2) | Inl _ \<Rightarrow> None))
      else found)"

definition found_index :: "DtMs \<Rightarrow> (DtMs \<times> RetentionTime) list \<Rightarrow> (RetentionTime \<times> PrebinnedPartitioning) option" where
  "found_index bl ixs = foldl (find_step bl) None (rev ixs)"

definition day_job ::
  "BinnedRange \<Rightarrow> MspU32 \<times> LspU32 \<Rightarrow> RetentionTime \<times> PrebinnedPartitioning \<Rightarrow> FetchJob panics" where
  "day_job binrange day ix = do {
     let pbp2 = snd ix;
     let rbeg = TsNano_to_ts_ms (nano_beg binrange);
     let rend = TsNano_to_ts_ms (nano_end binrange);
     let gbeg = msp_lsp_to_ts Day1 (fst day) (snd day);
     let gend = TsMs_add_dt_ms gbeg (Msp.bin_len Day1);
     let beg = (if rbeg > gbeg then rbeg else gbeg);
     let en = (if rend < gend then rend else gend);
     it3 \<leftarrow> MspLspIter_new_covering (NanoRange_from_ms_u64 beg en) pbp2;
     Some \<lparr>fj_min = it_mins it3, fj_max = it_maxs it3, fj_dbg_ts_1 = (beg, en), fj_dbg_ts_2 = (beg, en),
           fj_rt = fst ix, fj_pbp = pbp2\<rparr>
   }"

primrec day_jobs ::
  "BinnedRange \<Rightarrow> index_map \<Rightarrow> (MspU32 \<times> LspU32) list \<Rightarrow> FetchJob list panics" where
  "day_jobs binrange h [] = Some []"
| "day_jobs binrange h (day # days) =
     (case h day of
        Some ixs \<Rightarrow>
          (case found_index (bin_len_dt_ms binrange) ixs of
             Some ix \<Rightarrow> do { job \<leftarrow> day_job binrange day ix; js \<leftarrow> day_jobs binrange h days; Some (job # js) }
           | None \<Rightarrow> day_jobs binrange h days)
      | None \<Rightarrow> day_jobs binrange h days)"

definition build_day1_jobs :: "BinnedRange \<Rightarrow> index_map \<Rightarrow> FetchJob list panics" where
  "build_day1_jobs binrange h = do {
     it \<leftarrow> MspLspIter_new_covering (to_nano_range binrange) Day1;
     days \<leftarrow> collect MspLspIter_next it;
     day_jobs binrange h days
   }"

type_synonym ('e, 'b) read_fut = "nat \<times> ('e, 'b list option) result"

text \<open>A request to the cache provider: series, bin length, patch, first and last-exclusive bin.\<close>

type_synonym ('e, 'b) CacheReadProvider = "u64 \<Rightarrow> DtMs \<Rightarrow> u64 \<Rightarrow> u32 \<times> u32 \<Rightarrow> ('e, 'b) read_fut"

record ('c, 'e, 'b) JobFut =
  jf_futs :: "('e, 'b) read_fut list"
  jf_log :: "('c, 'e) LogLine list"
  jf_bins2 :: "'b list option"

definition make_job_fut ::
  "('e, 'b) CacheReadProvider \<Rightarrow> u64 \<Rightarrow> FetchJob \<Rightarrow> ('c, 'e, 'b) JobFut panics" where
  "make_job_fut rd series job = do {
     let binlen = Msp.bin_len (fj_pbp job);
     chunks \<leftarrow> collect MspChunker_next (MspChunker_from_min_max (fj_pbp job) (fj_min job) (fj_max job));
     Some \<lparr>jf_futs = map (\<lambda>c. rd series binlen (ucast (ck_msp c)) (ck_lsp1 c, ck_lsp2 c)) chunks,
           jf_log = [], jf_bins2 = None\<rparr>
   }"

text \<open>The \<^verbatim>\<open>async\<close> block of a job: either it is pending again, or it is ready with log and bins.\<close>

fun job_poll ::
  "('e, 'b) read_fut list \<Rightarrow> ('c, 'e) LogLine list \<Rightarrow> 'b list option \<Rightarrow>
   ('c, 'e, 'b) JobFut + ('c, 'e) LogLine list \<times> 'b list option" where
  "job_poll [] log bins2 = Inr (log, bins2)"
| "job_poll ((Suc n, r) # futs) log bins2 = Inl \<lparr>jf_futs = (n, r) # futs, jf_log = log, jf_bins2 = bins2\<rparr>"
| "job_poll ((0, r) # futs) log bins2 =
     (case r of
        Inr (Some bins) \<Rightarrow>
          (case bins2 of
             Some b2 \<Rightarrow> job_poll futs (log @ [DrainInto (length bins)]) (Some (b2 @ bins))
           | None \<Rightarrow> job_poll futs log (Some bins))
      | Inr None \<Rightarrow> job_poll futs (log @ [JobNone]) bins2
      | Inl e \<Rightarrow> job_poll futs (log @ [JobError e]) bins2)"

datatype 'c StateA =
  ReadAllCoarse "('c, IndexRow StreamItem) result poll list" "IndexRow list" | ExecuteJobs | Done

record ('c, 'e, 'b) FromBinned =
  fb_series :: u64
  fb_binrange :: BinnedRange
  fb_state_a :: "'c StateA"
  fb_index_map :: index_map
  fb_jobs :: "FetchJob list"
  fb_job_fut :: "('c, 'e, 'b) JobFut option"
  fb_logoutbuf :: "('c, 'e) LogLine list"
  fb_binoutbuf :: "'b list list"

definition FromBinned_new ::
  "u64 \<Rightarrow> BinnedRange \<Rightarrow> ('c, IndexRow StreamItem) result poll list \<Rightarrow> ('c, 'e, 'b) FromBinned" where
  "FromBinned_new series binrange coarse =
     \<lparr>fb_series = series, fb_binrange = binrange, fb_state_a = ReadAllCoarse coarse [], fb_index_map = (\<lambda>_. None),
      fb_jobs = [], fb_job_fut = None, fb_logoutbuf = [], fb_binoutbuf = []\<rparr>"

text \<open>The items of the stream: a log line or the bins of a job.\<close>

datatype ('c, 'e, 'b) fb_item = LogInfo "('c, 'e) LogLine" | Bins "'b list"

partial_function (option) fb_poll_next ::
  "('e, 'b) CacheReadProvider \<Rightarrow> ('c, 'e, 'b) FromBinned \<Rightarrow>
   (('c, 'e, 'b) fb_item option poll \<times> ('c, 'e, 'b) FromBinned) option" where
  "fb_poll_next rd s =
     (case fb_logoutbuf s of
        x # log \<Rightarrow> Some (Ready (Some (LogInfo x)), s\<lparr>fb_logoutbuf := log\<rparr>)
      | [] \<Rightarrow>
     (case fb_binoutbuf s of
        x # out \<Rightarrow> Some (Ready (Some (Bins x)), s\<lparr>fb_binoutbuf := out\<rparr>)
      | [] \<Rightarrow>
     (case fb_state_a s of
        ReadAllCoarse coarse rows \<Rightarrow>
          (case coarse of
             Ready (Inr x) # c \<Rightarrow>
               (case into_data x of
                  Inr x \<Rightarrow> fb_poll_next rd (s\<lparr>fb_state_a := ReadAllCoarse c (rows @ [x])\<rparr>)
                | Inl _ \<Rightarrow> fb_poll_next rd (s\<lparr>fb_state_a := ReadAllCoarse c rows\<rparr>))
           | Ready (Inl e) # c \<Rightarrow>
               fb_poll_next rd (s\<lparr>fb_logoutbuf := fb_logoutbuf s @ [CoarseError e], fb_state_a := Done\<rparr>)
           | [] \<Rightarrow> do {
               let (log, h) = handle_coarse_index rows (fb_index_map s);
               jobs \<leftarrow> build_day1_jobs (fb_binrange s) h;
               fb_poll_next rd (s\<lparr>fb_logoutbuf := fb_logoutbuf s @ log, fb_index_map := h, fb_jobs := jobs,
                 fb_state_a := ExecuteJobs\<rparr>)
             }
           | Pending # c \<Rightarrow> Some (Pending, s\<lparr>fb_state_a := ReadAllCoarse c rows\<rparr>))
      | ExecuteJobs \<Rightarrow>
          (case fb_job_fut s of
             Some fut \<Rightarrow>
               (case job_poll (jf_futs fut) (jf_log fut) (jf_bins2 fut) of
                  Inr (log, bins) \<Rightarrow>
                    fb_poll_next rd (s\<lparr>fb_job_fut := None, fb_logoutbuf := fb_logoutbuf s @ log,
                      fb_binoutbuf := fb_binoutbuf s @ (case bins of Some b \<Rightarrow> [b] | None \<Rightarrow> [])\<rparr>)
                | Inl fut \<Rightarrow> Some (Pending, s\<lparr>fb_job_fut := Some fut\<rparr>))
           | None \<Rightarrow>
               (case fb_jobs s of
                  job # jobs \<Rightarrow> do {
                    fut \<leftarrow> make_job_fut rd (fb_series s) job;
                    fb_poll_next rd (s\<lparr>fb_jobs := jobs, fb_job_fut := Some fut\<rparr>)
                  }
                | [] \<Rightarrow> fb_poll_next rd (s\<lparr>fb_state_a := Done\<rparr>)))
      | Done \<Rightarrow> Some (Ready None, s))))"

end
