(* ===== verification/BinPlanCorrect.thy ===== *)
theory BinPlanCorrect
  imports BinPlan
begin

text \<open>
  What \<open>BinPlan\<close> reads: the choice of the bin length per day, the bins of a job, and the whole
  stream against the plan.
\<close>

section \<open>The choice of a bin length\<close>

definition usable :: "DtMs \<Rightarrow> DtMs \<times> RetentionTime \<Rightarrow> bool" where
  "usable bl ix \<longleftrightarrow> fst ix \<le> bl \<and> (\<exists>p. from_binlen (fst ix) = Inr p)"

text \<open>
  The best entry: the coarsest usable bin length, of the longest retention time among equals.
\<close>

definition best :: "DtMs \<Rightarrow> (DtMs \<times> RetentionTime) set \<Rightarrow> RetentionTime \<times> PrebinnedPartitioning \<Rightarrow> bool" where
  "best bl ixs r \<longleftrightarrow> (Msp.bin_len (snd r), fst r) \<in> ixs \<and> usable bl (Msp.bin_len (snd r), fst r) \<and>
     (\<forall>ix \<in> ixs. usable bl ix \<longrightarrow> ix \<le> (Msp.bin_len (snd r), fst r))"

lemma find_step_Some: "foldl (find_step bl) (Some r) ixs = Some r"
  by (induction ixs) (simp_all add: find_step_def)

lemma find_step_None: "find_step bl None ix = None \<longleftrightarrow> \<not> usable bl ix"
  by (auto simp: find_step_def usable_def split: sum.splits)

lemma find_step_eq: "find_step bl None ix = Some (rt, p) \<longleftrightarrow> usable bl ix \<and> ix = (Msp.bin_len p, rt)"
  by (cases ix) (auto simp: find_step_def usable_def pbp_binlen.dec_iff pbp_binlen.dec_enc pbp_binlen.enc_inj split: sum.split sum.split_asm)

lemma foldl_find:
  "sorted_wrt (\<ge>) ixs \<Longrightarrow>
     (foldl (find_step bl) None ixs = None \<longleftrightarrow> (\<forall>ix \<in> set ixs. \<not> usable bl ix)) \<and>
     (\<forall>r. foldl (find_step bl) None ixs = Some r \<longrightarrow> best bl (set ixs) r)"
proof (induction ixs)
  case Nil
  then show ?case by simp
next
  case (Cons ix ixs)
  show ?case
  proof (cases "find_step bl None ix")
    case None
    then have "\<not> usable bl ix" by (simp add: find_step_None)
    then show ?thesis using Cons None by (auto simp: best_def)
  next
    case (Some r)
    obtain rt p where r: "r = (rt, p)" by (cases r)
    with Some have ix: "usable bl ix" "ix = (Msp.bin_len p, rt)" by (auto simp: find_step_eq)
    have "foldl (find_step bl) None (ix # ixs) = Some (rt, p)" using Some r by (simp add: find_step_Some)
    moreover have "best bl (set (ix # ixs)) (rt, p)" using ix Cons.prems by (auto simp: best_def)
    ultimately show ?thesis using ix by auto
  qed
qed

lemma found_index_best:
  assumes "sorted ixs"
  shows "found_index bl ixs = None \<longleftrightarrow> (\<forall>ix \<in> set ixs. \<not> usable bl ix)"
    and "found_index bl ixs = Some r \<Longrightarrow> best bl (set ixs) r"
proof -
  have "sorted_wrt (\<ge>) (rev ixs)" using assms by (simp add: sorted_wrt_rev)
  from foldl_find [OF this, of bl] show "found_index bl ixs = None \<longleftrightarrow> (\<forall>ix \<in> set ixs. \<not> usable bl ix)"
    "found_index bl ixs = Some r \<Longrightarrow> best bl (set ixs) r"
    by (auto simp: found_index_def)
qed

lemma best_unique: "best bl ixs r \<Longrightarrow> best bl ixs r' \<Longrightarrow> r = r'"
proof -
  assume a: "best bl ixs r" "best bl ixs r'"
  then have "(Msp.bin_len (snd r), fst r) = (Msp.bin_len (snd r'), fst r')"
    unfolding best_def by (meson antisym)
  then show "r = r'" using pbp_binlen.enc_inj by (cases r; cases r') auto
qed

text \<open>What the index says of a day.\<close>

definition day_entries :: "IndexRow list \<Rightarrow> MspU32 \<times> LspU32 \<Rightarrow> (DtMs \<times> RetentionTime) set" where
  "day_entries rows k = {(d, rt). (rt, fst k, snd k, d) \<in> set rows}"

lemma foldl_push_row:
  "case foldl push_row h rows k of
     None \<Rightarrow> h k = None \<and> day_entries rows k = {}
   | Some v \<Rightarrow> set v = (case h k of None \<Rightarrow> {} | Some v \<Rightarrow> set v) \<union> day_entries rows k"
proof (induction rows arbitrary: h)
  case Nil
  then show ?case by (simp add: day_entries_def split: option.split)
next
  case (Cons row rows)
  obtain rt m l d where row: "row = (rt, m, l, d)" by (cases row)
  have e: "day_entries (row # rows) k = (if k = (m, l) then {(d, rt)} else {}) \<union> day_entries rows k"
    by (auto simp: day_entries_def row)
  have p: "push_row h row k =
      (if k = (m, l) then Some ((case h k of None \<Rightarrow> [] | Some v \<Rightarrow> v) @ [(d, rt)]) else h k)"
    by (auto simp: push_row_def row Let_def split: option.split)
  have f: "foldl push_row h (row # rows) k = foldl push_row (push_row h row) rows k" by simp
  show ?case
  proof (cases "k = (m, l)")
    case True
    then show ?thesis using Cons [of "push_row h row"] unfolding f e p by (auto split: option.split option.split_asm)
  next
    case False
    then have same: "push_row h row k = h k" "day_entries (row # rows) k = day_entries rows k" by (simp_all add: e p)
    show ?thesis using Cons [of "push_row h row"] unfolding f same .
  qed
qed

lemma coarse_index:
  "case coarse_map rows (\<lambda>_. None) k of
     None \<Rightarrow> day_entries rows k = {}
   | Some v \<Rightarrow> sorted v \<and> set v = day_entries rows k"
  using foldl_push_row [where h = "\<lambda>_. None" and rows = rows and k = k] by (simp add: coarse_map_def split: option.splits)

definition day_choice :: "DtMs \<Rightarrow> IndexRow list \<Rightarrow> MspU32 \<times> LspU32 \<Rightarrow> (RetentionTime \<times> PrebinnedPartitioning) option" where
  "day_choice bl rows k =
     (case coarse_map rows (\<lambda>_. None) k of None \<Rightarrow> None | Some ixs \<Rightarrow> found_index bl ixs)"

lemma day_choice_best:
  "day_choice bl rows k = None \<longleftrightarrow> (\<forall>ix \<in> day_entries rows k. \<not> usable bl ix)"
  "day_choice bl rows k = Some r \<longleftrightarrow> best bl (day_entries rows k) r"
proof -
  show n: "day_choice bl rows k = None \<longleftrightarrow> (\<forall>ix \<in> day_entries rows k. \<not> usable bl ix)"
    using coarse_index [of rows k] found_index_best(1) [where bl = bl] by (auto simp: day_choice_def split: option.splits)
  have s: "best bl (day_entries rows k) r" if "day_choice bl rows k = Some r" for r
  proof -
    obtain v where v: "coarse_map rows (\<lambda>_. None) k = Some v" "found_index bl v = Some r"
      using \<open>day_choice bl rows k = Some r\<close> by (auto simp: day_choice_def split: option.splits)
    then have "sorted v" "set v = day_entries rows k" using coarse_index [of rows k] by simp_all
    with found_index_best(2) [OF _ v(2)] show ?thesis by simp
  qed
  show "day_choice bl rows k = Some r \<longleftrightarrow> best bl (day_entries rows k) r"
  proof
    assume b: "best bl (day_entries rows k) r"
    then have "day_choice bl rows k \<noteq> None" unfolding n by (auto simp: best_def)
    then obtain r' where "day_choice bl rows k = Some r'" by blast
    with s [OF this] b show "day_choice bl rows k = Some r" by (simp add: best_unique)
  qed (rule s)
qed

section \<open>The jobs\<close>

abbreviation day_ms :: nat where
  "day_ms \<equiv> 86400000"

lemma bin_no_addr: "k div plen p < 2 ^ 32 \<Longrightarrow> bin_no p (fst (bin_addr p k)) (snd (bin_addr p k)) = k"
  by (simp add: bin_no_def bin_addr_fst_snd)

lemma day_begins:
  assumes "k < end_bin_no Day1 e"
  shows "k * day_ms < ts_ms e" "k div plen Day1 < 2 ^ 32"
    "unat (msp_lsp_to_ts Day1 (fst (bin_addr Day1 k)) (snd (bin_addr Day1 k))) = k * day_ms"
proof -
  have "Suc k \<le> (ts_ms e + (day_ms - 1)) div day_ms" using assms by (simp add: end_bin_no_def)
  then have "Suc k * day_ms \<le> ts_ms e + (day_ms - 1)"
    by (meson div_times_less_eq_dividend le_trans mult_le_mono1)
  then show k: "k * day_ms < ts_ms e" by simp
  have "k div plen Day1 \<le> end_bin_no Day1 e div plen Day1" using assms by (intro div_le_mono) simp
  then show f: "k div plen Day1 < 2 ^ 32" using covering_ends(3) [of Day1 e] by linarith
  have "day_ms * k < 2 ^ 64" using k ts_ms_le [of e] by simp
  then show "unat (msp_lsp_to_ts Day1 (fst (bin_addr Day1 k)) (snd (bin_addr Day1 k))) = k * day_ms"
    using bin_no_addr [OF f] unat_msp_lsp_to_ts [of Day1 "fst (bin_addr Day1 k)" "snd (bin_addr Day1 k)"] by simp
qed

lemma ts_ms_from_ms:
  assumes "unat t \<le> 18446744073709"
  shows "ts_ms (MS * t) = unat t"
proof -
  have "unat (MS * t) = 1000000 * unat t"
    using assms by (subst unat_mult_u64) (simp_all add: timeunits)
  then show ?thesis by (simp add: ts_ms_def)
qed

text \<open>The part of a day that a request asks for, in milliseconds, and its bins.\<close>

definition day_part :: "BinnedRange \<Rightarrow> nat \<Rightarrow> nat \<times> nat" where
  "day_part br k = (max (ts_ms (nano_beg br)) (k * day_ms), min (ts_ms (nano_end br)) (Suc k * day_ms))"

definition part_bins :: "PrebinnedPartitioning \<Rightarrow> nat \<times> nat \<Rightarrow> nat \<times> nat" where
  "part_bins p be = (fst be div blen p, (snd be + (blen p - 1)) div blen p)"

definition job_for :: "PrebinnedPartitioning \<times> nat \<times> nat \<Rightarrow> FetchJob \<Rightarrow> bool" where
  "job_for pl j \<longleftrightarrow> fj_pbp j = fst pl \<and> fj_min j = bin_addr (fst pl) (fst (snd pl)) \<and>
     fj_max j = bin_addr (fst pl) (snd (snd pl)) \<and> fst (snd pl) \<le> snd (snd pl) \<and>
     snd (snd pl) div plen (fst pl) < 2 ^ 32"

lemma day_job_ok:
  assumes k: "first_bin_no Day1 (nano_beg br) \<le> k" "k < end_bin_no Day1 (nano_end br)"
    and br: "nano_beg br \<le> nano_end br"
  shows "\<exists>j. day_job br (bin_addr Day1 k) (rt, p) = Some j \<and> job_for (p, part_bins p (day_part br k)) j"
proof -
  let ?B = "ts_ms (nano_beg br)" and ?E = "ts_ms (nano_end br)"
  define gbeg where "gbeg = msp_lsp_to_ts Day1 (fst (bin_addr Day1 k)) (snd (bin_addr Day1 k))"
  define rbeg rend gend where "rbeg = TsNano_to_ts_ms (nano_beg br)" and "rend = TsNano_to_ts_ms (nano_end br)"
    and "gend = TsMs_add_dt_ms gbeg (Msp.bin_len Day1)"
  note d = day_begins [OF k(2)]
  have "?B div day_ms < Suc k" using k(1) by (simp add: first_bin_no_def)
  then have B: "?B < Suc k * day_ms" by (metis div_less_iff_less_mult zero_less_numeral)
  have "?B \<le> ?E" using br by (simp add: ts_ms_def word_le_nat_alt div_le_mono)
  have g: "unat gbeg = k * day_ms" using d(3) by (simp add: gbeg_def)
  have g2: "unat gend = Suc k * day_ms"
    using g d(1) ts_ms_le [of "nano_end br"] by (simp add: gend_def TsMs_add_dt_ms_def unat_add_u64)
  have r: "unat rbeg = ?B" "unat rend = ?E" by (simp_all add: rbeg_def rend_def unat_to_ts_ms)
  define beg en where "beg = (if rbeg > gbeg then rbeg else gbeg)" and "en = (if rend < gend then rend else gend)"
  have b: "unat beg = fst (day_part br k)"
    using g r by (simp add: beg_def day_part_def word_less_nat_alt max_def)
  have e: "unat en = snd (day_part br k)"
    using g2 r by (simp add: en_def day_part_def word_less_nat_alt min_def)
  have be: "fst (day_part br k) \<le> snd (day_part br k)" "snd (day_part br k) \<le> ?E"
    using B d(1) \<open>?B \<le> ?E\<close> by (simp_all add: day_part_def)
  have ms: "ts_ms (MS * beg) = fst (day_part br k)" "ts_ms (MS * en) = snd (day_part br k)"
    using ts_ms_from_ms [of beg] ts_ms_from_ms [of en] b e be ts_ms_le [of "nano_end br"] by simp_all
  have "first_bin_no p (MS * beg) = fst (part_bins p (day_part br k))"
    "end_bin_no p (MS * en) = snd (part_bins p (day_part br k))"
    by (simp_all add: first_bin_no_def end_bin_no_def part_bins_def ms)
  moreover have "fst (part_bins p (day_part br k)) \<le> snd (part_bins p (day_part br k))"
    unfolding part_bins_def using be(1) by (simp add: div_le_mono)
  moreover have "day_job br (bin_addr Day1 k) (rt, p) = do {
      it3 \<leftarrow> MspLspIter_new_covering (NanoRange_from_ms_u64 beg en) p;
      Some \<lparr>fj_min = it_mins it3, fj_max = it_maxs it3, fj_dbg_ts_1 = (beg, en), fj_dbg_ts_2 = (beg, en),
            fj_rt = rt, fj_pbp = p\<rparr> }"
    unfolding day_job_def Let_def beg_def en_def gend_def gbeg_def rbeg_def rend_def by (simp del: bin_len.simps)
  ultimately show ?thesis
    using covering_ends(1) [of p "MS * beg"] covering_ends(2,3) [of p "MS * en"]
    by (simp add: job_for_def Let_def MspLspIter_new_covering_def NanoRange_from_ms_u64_def)
qed

text \<open>The plan: what is read of which day.\<close>

definition day_plan :: "BinnedRange \<Rightarrow> IndexRow list \<Rightarrow> nat \<Rightarrow> (PrebinnedPartitioning \<times> nat \<times> nat) list" where
  "day_plan br rows k =
     (case day_choice (bin_len_dt_ms br) rows (bin_addr Day1 k) of
        None \<Rightarrow> [] | Some (rt, p) \<Rightarrow> [(p, part_bins p (day_part br k))])"

definition read_plan :: "BinnedRange \<Rightarrow> IndexRow list \<Rightarrow> (PrebinnedPartitioning \<times> nat \<times> nat) list" where
  "read_plan br rows = concat (map (day_plan br rows) [first_bin_no Day1 (nano_beg br)..<end_bin_no Day1 (nano_end br)])"

lemma day_jobs_ok:
  assumes "\<forall>k \<in> set ks. first_bin_no Day1 (nano_beg br) \<le> k \<and> k < end_bin_no Day1 (nano_end br)"
    and br: "nano_beg br \<le> nano_end br"
  shows "\<exists>js. day_jobs br (coarse_map rows (\<lambda>_. None)) (map (bin_addr Day1) ks) = Some js \<and>
    list_all2 job_for (concat (map (day_plan br rows) ks)) js"
  using assms(1)
proof (induction ks)
  case Nil
  then show ?case by simp
next
  case (Cons k ks)
  then obtain js where js: "day_jobs br (coarse_map rows (\<lambda>_. None)) (map (bin_addr Day1) ks) = Some js"
    "list_all2 job_for (concat (map (day_plan br rows) ks)) js" by auto
  show ?case
  proof (cases "day_choice (bin_len_dt_ms br) rows (bin_addr Day1 k)")
    case None
    then have "day_plan br rows k = []" by (simp add: day_plan_def)
    then show ?thesis using js None by (auto simp: day_choice_def split: option.splits)
  next
    case (Some r)
    obtain rt p where r: "r = (rt, p)" by (cases r)
    obtain j where j: "day_job br (bin_addr Day1 k) (rt, p) = Some j" "job_for (p, part_bins p (day_part br k)) j"
      using day_job_ok [of br k rt p] Cons.prems br by auto
    have "day_plan br rows k = [(p, part_bins p (day_part br k))]" using Some r by (simp add: day_plan_def)
    then show ?thesis using Some r j js by (auto simp: day_choice_def split: option.splits)
  qed
qed

lemma build_jobs_ok:
  assumes br: "nano_beg br \<le> nano_end br"
  shows "\<exists>js. build_day1_jobs br (coarse_map rows (\<lambda>_. None)) = Some js \<and> list_all2 job_for (read_plan br rows) js"
proof -
  let ?n = "first_bin_no Day1 (nano_beg br)" and ?N = "end_bin_no Day1 (nano_end br)"
  let ?it = "\<lparr>it_range = to_nano_range br, it_pbp = Day1, it_mins = bin_addr Day1 ?n, it_maxs = bin_addr Day1 ?N,
    it_curs = bin_addr Day1 ?n\<rparr>"
  have "MspLspIter_new_covering (to_nano_range br) Day1 = Some ?it"
    using covering_ends(1) [of Day1 "nano_beg br"] covering_ends(2) [of Day1 "nano_end br"]
    by (simp add: MspLspIter_new_covering_def Let_def to_nano_range_def nano_beg_def nano_end_def)
  moreover have "collect MspLspIter_next ?it = Some (map (bin_addr Day1) [?n..<?N])"
    using iter_collect [of ?it ?n ?N] first_le_end [OF br, of Day1] covering_ends(3) [of Day1 "nano_end br"] by simp
  ultimately show ?thesis
    using day_jobs_ok [of "[?n..<?N]" br rows] br by (simp add: build_day1_jobs_def read_plan_def)
qed

section \<open>A job\<close>

text \<open>The bins that the results of the reads of a job give.\<close>

definition results_bins :: "('e, 'b list option) result list \<Rightarrow> 'b list list" where
  "results_bins rs = concat (map (\<lambda>r. case r of Inr (Some b) \<Rightarrow> [b] | _ \<Rightarrow> []) rs)"

definition job_bins :: "('e, 'b list option) result list \<Rightarrow> 'b list option" where
  "job_bins rs = (if results_bins rs = [] then None else Some (concat (results_bins rs)))"

definition merge_bins :: "'b list option \<Rightarrow> 'b list list \<Rightarrow> 'b list option" where
  "merge_bins b2 xs = (case b2 of None \<Rightarrow> if xs = [] then None else Some (concat xs) | Some b \<Rightarrow> Some (b @ concat xs))"

text \<open>The outcome of a job is that of its reads without the waiting.\<close>

definition no_wait :: "('e, 'b) read_fut list \<Rightarrow> ('e, 'b) read_fut list" where
  "no_wait fs = map (\<lambda>(n, r). (0, r)) fs"

lemma results_bins_simps [simp]:
  "results_bins [] = []" "results_bins (Inl e # rs) = results_bins rs"
  "results_bins (Inr None # rs) = results_bins rs" "results_bins (Inr (Some b) # rs) = b # results_bins rs"
  by (simp_all add: results_bins_def)

lemma merge_bins_simps [simp]:
  "merge_bins m [] = m" "merge_bins None (b # xs) = merge_bins (Some b) xs"
  "merge_bins (Some b2) (b # xs) = merge_bins (Some (b2 @ b)) xs"
  by (simp_all add: merge_bins_def split: option.split)

lemma job_poll_outcome:
  "\<exists>log'. job_poll (no_wait fs) log b2 = Inr (log', merge_bins b2 (results_bins (map snd fs)))"
proof (induction fs arbitrary: log b2)
  case Nil
  then show ?case by (simp add: no_wait_def)
next
  case (Cons f fs)
  obtain n r where f: "f = (n, r)" by (cases f)
  have e: "no_wait ((n, r) # fs) = (0, r) # no_wait fs" for n r by (simp add: no_wait_def)
  consider e where "r = Inl e" | "r = Inr None" | b where "r = Inr (Some b)"
    by (metis not_None_eq sum.exhaust)
  then show ?case
  proof cases
    case (3 b)
    then show ?thesis using Cons by (cases b2) (simp_all add: e f)
  qed (use Cons in \<open>simp_all add: e f\<close>)
qed

lemma job_poll_waits:
  "job_poll fs log b2 = Inl j \<Longrightarrow> job_poll (no_wait (jf_futs j)) (jf_log j) (jf_bins2 j) = job_poll (no_wait fs) log b2 \<and>
     sum_list (map fst (jf_futs j)) < sum_list (map fst fs)"
  by (induction fs log b2 rule: job_poll.induct) (auto simp: no_wait_def split: sum.splits option.splits)

lemma job_poll_ready: "job_poll fs log b2 = Inr x \<Longrightarrow> job_poll (no_wait fs) log b2 = Inr x"
  by (induction fs log b2 rule: job_poll.induct) (auto simp: no_wait_def split: sum.splits option.splits)

lemma append_fun: "(@) (a @ b) = (\<lambda>x. a @ b @ x)" "(@) (c # b) = (\<lambda>x. c # b @ x)"
  by (rule ext, simp)+

section \<open>The stream\<close>

abbreviation fb_run :: "('e, 'b) CacheReadProvider \<Rightarrow> ('c, 'e, 'b) FromBinned \<Rightarrow> ('c, 'e, 'b) fb_item list option" where
  "fb_run rd \<equiv> stream_run (fb_poll_next rd)"

text \<open>What is buffered comes out first: the log lines, then the bins.\<close>

lemma drain_log: "fb_run rd s = map_option ((@) (map LogInfo (fb_logoutbuf s))) (fb_run rd (s\<lparr>fb_logoutbuf := []\<rparr>))"
proof (induction "fb_logoutbuf s" arbitrary: s)
  case Nil
  then have e: "s\<lparr>fb_logoutbuf := []\<rparr> = s" by simp
  show ?case unfolding e by (simp add: option.map_ident flip: Nil(1))
next
  case (Cons x xs)
  have "fb_poll_next rd s = Some (Ready (Some (LogInfo x)), s\<lparr>fb_logoutbuf := xs\<rparr>)"
    by (subst fb_poll_next.simps) (simp flip: Cons.hyps(2))
  then have "fb_run rd s = map_option ((#) (LogInfo x)) (fb_run rd (s\<lparr>fb_logoutbuf := xs\<rparr>))" by (rule stream_run_step(2))
  then show ?case
    using Cons.hyps(1) [of "s\<lparr>fb_logoutbuf := xs\<rparr>"] by (simp add: option.map_comp comp_def append_fun flip: Cons.hyps(2))
qed

lemma drain_bins:
  "fb_logoutbuf s = [] \<Longrightarrow> fb_run rd s = map_option ((@) (map Bins (fb_binoutbuf s))) (fb_run rd (s\<lparr>fb_binoutbuf := []\<rparr>))"
proof (induction "fb_binoutbuf s" arbitrary: s)
  case Nil
  then have e: "s\<lparr>fb_binoutbuf := []\<rparr> = s" by simp
  show ?case unfolding e by (simp add: option.map_ident flip: Nil(1))
next
  case (Cons x xs)
  have "fb_poll_next rd s = Some (Ready (Some (Bins x)), s\<lparr>fb_binoutbuf := xs\<rparr>)"
    by (subst fb_poll_next.simps) (simp add: Cons.prems flip: Cons.hyps(2))
  then have "fb_run rd s = map_option ((#) (Bins x)) (fb_run rd (s\<lparr>fb_binoutbuf := xs\<rparr>))" by (rule stream_run_step(2))
  then show ?case
    using Cons.hyps(1) [of "s\<lparr>fb_binoutbuf := xs\<rparr>"] Cons.prems by (simp add: option.map_comp comp_def append_fun flip: Cons.hyps(2))
qed

definition fb_quiet :: "('c, 'e, 'b) FromBinned \<Rightarrow> bool" where
  "fb_quiet s \<longleftrightarrow> fb_logoutbuf s = [] \<and> fb_binoutbuf s = []"

text \<open>A running job delivers its outcome.\<close>

lemma run_job:
  assumes "fb_quiet s" and "fb_state_a s = ExecuteJobs" and "fb_job_fut s = Some fut"
  shows "\<exists>log. fb_run rd s = map_option ((@) (map LogInfo log @
      (case merge_bins (jf_bins2 fut) (results_bins (map snd (jf_futs fut))) of None \<Rightarrow> [] | Some b \<Rightarrow> [Bins b])))
    (fb_run rd (s\<lparr>fb_job_fut := None\<rparr>))"
  using assms
proof (induction "sum_list (map fst (jf_futs fut))" arbitrary: s fut rule: less_induct)
  case less
  let ?out = "\<lambda>fut. merge_bins (jf_bins2 fut) (results_bins (map snd (jf_futs fut)))"
  obtain log where o: "job_poll (no_wait (jf_futs fut)) (jf_log fut) (jf_bins2 fut) = Inr (log, ?out fut)"
    using job_poll_outcome by blast
  show ?case
  proof (cases "job_poll (jf_futs fut) (jf_log fut) (jf_bins2 fut)")
    case (Inl fut')
    let ?s = "s\<lparr>fb_job_fut := Some fut'\<rparr>"
    have "fb_poll_next rd s = Some (Pending, ?s)"
      using less.prems Inl by (subst fb_poll_next.simps) (simp add: fb_quiet_def)
    then have run: "fb_run rd s = fb_run rd ?s" by (rule stream_run_step(1))
    obtain log' where o': "job_poll (no_wait (jf_futs fut')) (jf_log fut') (jf_bins2 fut') = Inr (log', ?out fut')"
      using job_poll_outcome by blast
    have w: "?out fut' = ?out fut" "sum_list (map fst (jf_futs fut')) < sum_list (map fst (jf_futs fut))"
      using job_poll_waits [OF Inl] o o' by simp_all
    show ?thesis using less.hyps [OF w(2), of ?s] less.prems run w(1) by (simp add: fb_quiet_def)
  next
    case (Inr x)
    then have x: "x = (log, ?out fut)" using job_poll_ready [OF Inr] o by simp
    let ?s = "s\<lparr>fb_job_fut := None, fb_logoutbuf := log, fb_binoutbuf := case ?out fut of Some b \<Rightarrow> [b] | None \<Rightarrow> []\<rparr>"
    have "fb_poll_next rd s = fb_poll_next rd ?s"
      using less.prems Inr x by (subst fb_poll_next.simps) (simp add: fb_quiet_def)
    then have "fb_run rd s = fb_run rd ?s" by (rule stream_run_cong)
    moreover have "fb_run rd ?s = map_option ((@) (map LogInfo log)) (fb_run rd (?s\<lparr>fb_logoutbuf := []\<rparr>))"
      using drain_log [of rd ?s] by simp
    moreover have "fb_run rd (?s\<lparr>fb_logoutbuf := []\<rparr>) = map_option ((@) (case ?out fut of None \<Rightarrow> [] | Some b \<Rightarrow> [Bins b]))
        (fb_run rd (?s\<lparr>fb_logoutbuf := [], fb_binoutbuf := []\<rparr>))"
      using drain_bins [of "?s\<lparr>fb_logoutbuf := []\<rparr>" rd] by (simp split: option.split)
    moreover have "?s\<lparr>fb_logoutbuf := [], fb_binoutbuf := []\<rparr> = s\<lparr>fb_job_fut := None\<rparr>"
      using less.prems(1) by (simp add: fb_quiet_def)
    ultimately show ?thesis by (intro exI [of _ log]) (simp add: option.map_comp comp_def append_fun)
  qed
qed

text \<open>The reads of a job, and the bins they ask for.\<close>

definition read_of :: "('e, 'b) CacheReadProvider \<Rightarrow> u64 \<Rightarrow> PrebinnedPartitioning \<Rightarrow> MspChunkerItem \<Rightarrow> ('e, 'b) read_fut" where
  "read_of rd series p c = rd series (Msp.bin_len p) (ucast (ck_msp c)) (ck_lsp1 c, ck_lsp2 c)"

definition chunks_of :: "PrebinnedPartitioning \<times> nat \<times> nat \<Rightarrow> MspChunkerItem list \<Rightarrow> bool" where
  "chunks_of pl cs \<longleftrightarrow> concat (map chunk_bins cs) = map (bin_addr (fst pl)) [fst (snd pl)..<snd (snd pl)] \<and>
     (\<forall>c \<in> set cs. ck_lsp1 c < ck_lsp2 c \<and> ck_lsp2 c \<le> patch_len (fst pl))"

definition chunks_bins ::
  "('e, 'b) CacheReadProvider \<Rightarrow> u64 \<Rightarrow> PrebinnedPartitioning \<times> nat \<times> nat \<Rightarrow> MspChunkerItem list \<Rightarrow> 'b list list" where
  "chunks_bins rd series pl cs =
     (case job_bins (map (snd \<circ> read_of rd series (fst pl)) cs) of None \<Rightarrow> [] | Some b \<Rightarrow> [b])"

fun item_bins :: "('c, 'e, 'b) fb_item list \<Rightarrow> 'b list list" where
  "item_bins [] = []"
| "item_bins (Bins b # xs) = b # item_bins xs"
| "item_bins (LogInfo l # xs) = item_bins xs"

lemma item_bins_append [simp]: "item_bins (xs @ ys) = item_bins xs @ item_bins ys"
  by (induction xs rule: item_bins.induct) simp_all

lemma item_bins_log [simp]: "item_bins (map LogInfo log) = []"
  by (induction log) simp_all

lemma make_job:
  assumes "job_for pl j"
  shows "\<exists>cs. make_job_fut rd series j =
      Some \<lparr>jf_futs = map (read_of rd series (fst pl)) cs, jf_log = [], jf_bins2 = None\<rparr> \<and> chunks_of pl cs"
proof -
  let ?mc = "MspChunker_from_min_max (fj_pbp j) (fj_min j) (fj_max j)"
  obtain cs where "collect MspChunker_next ?mc = Some cs"
    "concat (map chunk_bins cs) = map (bin_addr (fst pl)) [fst (snd pl)..<snd (snd pl)]"
    "\<forall>c \<in> set cs. ck_lsp1 c < ck_lsp2 c \<and> ck_lsp2 c \<le> patch_len (fst pl)"
    using chunk_collect [of ?mc "fst (snd pl)" "snd (snd pl)"] assms
    by (auto simp: job_for_def MspChunker_from_min_max_def)
  then show ?thesis
    using assms by (intro exI [of _ cs]) (auto simp: make_job_fut_def chunks_of_def job_for_def read_of_def Let_def)
qed

lemma run_jobs:
  "list_all2 job_for plan js \<Longrightarrow> fb_quiet s \<Longrightarrow> fb_state_a s = ExecuteJobs \<Longrightarrow> fb_job_fut s = None \<Longrightarrow> fb_jobs s = js \<Longrightarrow>
     \<exists>css items. list_all2 chunks_of plan css \<and> fb_run rd s = Some items \<and>
       item_bins items = concat (map2 (chunks_bins rd (fb_series s)) plan css)"
proof (induction plan js arbitrary: s rule: list_all2_induct)
  case Nil
  have "fb_poll_next rd s = fb_poll_next rd (s\<lparr>fb_state_a := Done\<rparr>)"
    using Nil by (subst fb_poll_next.simps) (simp add: fb_quiet_def)
  then have "fb_run rd s = fb_run rd (s\<lparr>fb_state_a := Done\<rparr>)" by (rule stream_run_cong)
  also have "\<dots> = Some []"
    by (rule stream_run_step(3), subst fb_poll_next.simps) (use Nil in \<open>simp add: fb_quiet_def\<close>)
  finally show ?case by (intro exI [of _ "[]"]) simp
next
  case (Cons pl plan j js)
  obtain cs where cs: "make_job_fut rd (fb_series s) j =
      Some (\<lparr>jf_futs = map (read_of rd (fb_series s) (fst pl)) cs, jf_log = [], jf_bins2 = None\<rparr> :: ('a, 'b, 'c) JobFut)"
    "chunks_of pl cs"
    using make_job [OF Cons.hyps(1), of rd "fb_series s"] by blast
  let ?f = "\<lparr>jf_futs = map (read_of rd (fb_series s) (fst pl)) cs, jf_log = [], jf_bins2 = None\<rparr> :: ('a, 'b, 'c) JobFut"
  let ?s = "s\<lparr>fb_jobs := js, fb_job_fut := Some ?f\<rparr>"
  have "fb_poll_next rd s = fb_poll_next rd ?s"
    using Cons.prems cs(1) by (subst fb_poll_next.simps) (simp add: fb_quiet_def)
  then have 1: "fb_run rd s = fb_run rd ?s" by (rule stream_run_cong)
  have q: "fb_quiet ?s" "fb_quiet (?s\<lparr>fb_job_fut := None\<rparr>)" using Cons.prems by (simp_all add: fb_quiet_def)
  obtain log where 2: "fb_run rd ?s = map_option ((@) (map LogInfo log @
      (case merge_bins None (results_bins (map snd (jf_futs ?f))) of None \<Rightarrow> [] | Some b \<Rightarrow> [Bins b])))
    (fb_run rd (?s\<lparr>fb_job_fut := None\<rparr>))"
    using run_job [OF q(1), of ?f rd] Cons.prems by auto
  obtain css items where 3: "list_all2 chunks_of plan css" "fb_run rd (?s\<lparr>fb_job_fut := None\<rparr>) = Some items"
    "item_bins items = concat (map2 (chunks_bins rd (fb_series s)) plan css)"
    using Cons.IH [OF q(2)] Cons.prems by auto
  have "merge_bins None (results_bins (map snd (jf_futs ?f))) = job_bins (map (snd \<circ> read_of rd (fb_series s) (fst pl)) cs)"
    by (simp add: merge_bins_def job_bins_def)
  then show ?case
    using 1 2 3 cs(2) by (intro exI [of _ "cs # css"]) (auto simp: chunks_bins_def split: option.split)
qed

text \<open>The index.\<close>

fun coarse_rows :: "('c, IndexRow StreamItem) result poll list \<Rightarrow> IndexRow list" where
  "coarse_rows [] = []"
| "coarse_rows (Ready (Inr (DataItem x)) # c) = x # coarse_rows c"
| "coarse_rows (_ # c) = coarse_rows c"

fun no_error :: "('c, 'a) result poll \<Rightarrow> bool" where
  "no_error (Ready (Inl e)) = False"
| "no_error _ = True"

lemma run_coarse:
  "fb_quiet s \<Longrightarrow> fb_state_a s = ReadAllCoarse c rows \<Longrightarrow> list_all no_error c \<Longrightarrow>
     fb_run rd s = fb_run rd (s\<lparr>fb_state_a := ReadAllCoarse [] (rows @ coarse_rows c)\<rparr>)"
proof (induction c arbitrary: s rows)
  case Nil
  then have "s\<lparr>fb_state_a := ReadAllCoarse [] rows\<rparr> = s" by simp
  then show ?case by simp
next
  case (Cons x c)
  let ?s = "\<lambda>rows. s\<lparr>fb_state_a := ReadAllCoarse c rows\<rparr>"
  have q: "fb_quiet (?s rows)" for rows using Cons.prems by (simp add: fb_quiet_def)
  have IH: "fb_run rd (?s rows) = fb_run rd (s\<lparr>fb_state_a := ReadAllCoarse [] (rows @ coarse_rows c)\<rparr>)" for rows
    using Cons.IH [OF q] Cons.prems(3) by simp
  consider "x = Pending" | r where "x = Ready (Inr (DataItem r))" | i where "x = Ready (Inr i)" "\<forall>r. i \<noteq> DataItem r"
    using Cons.prems(3) by (cases x; simp) (metis no_error.simps(1) sum.exhaust)
  then show ?case
  proof cases
    case 1
    then have "fb_poll_next rd s = Some (Pending, ?s rows)"
      using Cons.prems by (subst fb_poll_next.simps) (simp add: fb_quiet_def)
    then have "fb_run rd s = fb_run rd (?s rows)" by (rule stream_run_step(1))
    then show ?thesis using 1 IH by simp
  next
    case (2 r)
    then have "fb_poll_next rd s = fb_poll_next rd (?s (rows @ [r]))"
      using Cons.prems by (subst fb_poll_next.simps) (simp add: fb_quiet_def into_data_def)
    then have "fb_run rd s = fb_run rd (?s (rows @ [r]))" by (rule stream_run_cong)
    then show ?thesis using 2 IH [of "rows @ [r]"] by simp
  next
    case (3 i)
    then have "fb_poll_next rd s = fb_poll_next rd (?s rows)"
      using Cons.prems by (subst fb_poll_next.simps) (cases i; simp add: fb_quiet_def into_data_def)
    then have "fb_run rd s = fb_run rd (?s rows)" by (rule stream_run_cong)
    then show ?thesis using 3 IH by (cases i) simp_all
  qed
qed

section \<open>Properties\<close>

text \<open>The plan for a day, in terms of the index rows alone.\<close>

definition best_plan :: "BinnedRange \<Rightarrow> IndexRow list \<Rightarrow> nat \<Rightarrow> (PrebinnedPartitioning \<times> nat \<times> nat) list \<Rightarrow> bool" where
  "best_plan br rows k pl \<longleftrightarrow>
     (if \<exists>ix \<in> day_entries rows (bin_addr Day1 k). usable (bin_len_dt_ms br) ix
      then \<exists>rt p. best (bin_len_dt_ms br) (day_entries rows (bin_addr Day1 k)) (rt, p) \<and>
        pl = [(p, part_bins p (day_part br k))]
      else pl = [])"

lemma day_plan_best: "best_plan br rows k (day_plan br rows k)"
proof (cases "day_choice (bin_len_dt_ms br) rows (bin_addr Day1 k)")
  case None
  moreover from None have "\<forall>ix \<in> day_entries rows (bin_addr Day1 k). \<not> usable (bin_len_dt_ms br) ix"
    by (simp only: day_choice_best(1))
  ultimately show ?thesis by (auto simp: best_plan_def day_plan_def)
next
  case (Some r)
  then have b: "best (bin_len_dt_ms br) (day_entries rows (bin_addr Day1 k)) r" using day_choice_best(2) by blast
  then have "\<exists>ix \<in> day_entries rows (bin_addr Day1 k). usable (bin_len_dt_ms br) ix" by (auto simp: best_def)
  then show ?thesis using b Some by (cases r) (auto simp: best_plan_def day_plan_def)
qed

text \<open>
  C10. Binned data is read from the best precomputed bins: polled to its end, the stream of a
  request reads, for each day the request touches that has a usable index entry, the coarsest
  usable bin length of the longest retention time, and of that length exactly the bins that overlap
  the day and the request, by nonempty intervals inside one patch; it does not panic, and what it
  yields are the bins of these reads, day by day.
\<close>

theorem frombinned_reads_best_bins:
  assumes br: "nano_beg br \<le> nano_end br" and coarse: "list_all no_error coarse"
  shows "\<exists>plan css items. stream_run (fb_poll_next rd) (FromBinned_new series br coarse) = Some items \<and>
    (\<forall>k. best_plan br (coarse_rows coarse) k (plan k)) \<and>
    list_all2 chunks_of (concat (map plan [first_bin_no Day1 (nano_beg br)..<end_bin_no Day1 (nano_end br)])) css \<and>
    item_bins items = concat (map2 (chunks_bins rd series)
      (concat (map plan [first_bin_no Day1 (nano_beg br)..<end_bin_no Day1 (nano_end br)])) css)"
proof -
  let ?rows = "coarse_rows coarse"
  let ?h = "coarse_map ?rows (\<lambda>_. None)"
  let ?log = "HandleCoarseIndex # map CoarseRow ?rows"
  let ?s0 = "FromBinned_new series br coarse"
  let ?s1 = "?s0\<lparr>fb_state_a := ReadAllCoarse [] ?rows\<rparr>"
  obtain js where js: "build_day1_jobs br ?h = Some js" "list_all2 job_for (read_plan br ?rows) js"
    using build_jobs_ok [OF br] by blast
  let ?s2 = "?s1\<lparr>fb_logoutbuf := ?log, fb_index_map := ?h, fb_jobs := js, fb_state_a := ExecuteJobs\<rparr>"
  have "fb_run rd ?s0 = fb_run rd ?s1"
    using run_coarse [OF _ _ coarse, of ?s0 "[]" rd] by (simp add: fb_quiet_def FromBinned_new_def)
  moreover have "fb_poll_next rd ?s1 = fb_poll_next rd ?s2"
    by (subst fb_poll_next.simps) (simp add: FromBinned_new_def handle_coarse_index_def js(1))
  then have "fb_run rd ?s1 = fb_run rd ?s2" by (rule stream_run_cong)
  moreover have "fb_run rd ?s2 = map_option ((@) (map LogInfo ?log)) (fb_run rd (?s2\<lparr>fb_logoutbuf := []\<rparr>))"
    using drain_log [of rd ?s2] by simp
  moreover obtain css items where "list_all2 chunks_of (read_plan br ?rows) css"
    "fb_run rd (?s2\<lparr>fb_logoutbuf := []\<rparr>) = Some items"
    "item_bins items = concat (map2 (chunks_bins rd series) (read_plan br ?rows) css)"
    using run_jobs [OF js(2), of "?s2\<lparr>fb_logoutbuf := []\<rparr>" rd] by (auto simp: fb_quiet_def FromBinned_new_def)
  ultimately show ?thesis
    unfolding read_plan_def
    by (intro exI [of _ "day_plan br ?rows"] exI [of _ css] exI [of _ "map LogInfo ?log @ items"])
      (simp add: day_plan_best del: list.map(2))
qed

theorem frombinned_reads_best_bins_witness:
  "\<exists>items. stream_run (fb_poll_next (\<lambda>s bl msp offs. (2, Inr (Some [msp])))) (FromBinned_new 7
       \<lparr>BinnedRange.bin_len = 60000000000, bin_off = 28800000, bin_cnt = 60\<rparr>
       [Pending, Ready (Inr (DataItem (Medium, 25, 0, 60000)))] :: (unit, unit, u64) FromBinned) = Some items"
  using frombinned_reads_best_bins [of "\<lparr>BinnedRange.bin_len = 60000000000, bin_off = 28800000, bin_cnt = 60\<rparr>"
      "[Pending, Ready (Inr (DataItem (Medium, 25, 0, 60000)))]" "\<lambda>s bl msp offs. (2, Inr (Some [msp]))" 7]
  by (auto simp: nano_beg_def nano_end_def)

end
