(* ===== verification/EventFull.thy ===== *)
theory EventFull
  imports Mergeable ScalarTypes
begin

text \<open>
  Events as they are read from the files of the data buffer, \<^verbatim>\<open>daqbuf-items-2/src/eventfull.rs\<close>: the
  container \<^verbatim>\<open>EventFull\<close>, a struct of parallel sequences, with its implementation of the merge trait; the
  derivation of the shape of an event and the decompression of its value. The decompressor of the library
  \<^verbatim>\<open>bitshuffle\<close> is a parameter. Lemmas: \<open>EventFull\<close> keeps the contract of the merge trait, so what is
  shown of the merger and of the range filter holds for streams of \<open>EventFull\<close>, too.
\<close>

section \<open>The container\<close>

datatype CompressionMethod = BitshuffleLZ4

record EventFull =
  ef_tss :: "u64 list"
  ef_pulses :: "u64 list"
  ef_blobs :: "bytes list"
  ef_scalar_types :: "ScalarType list"
  ef_be :: "bool list"
  ef_shapes :: "Shape list"
  ef_comps :: "CompressionMethod option list"
  ef_entry_payload_max :: u64

text \<open>A function applied to each of the sequences.\<close>

record ef_fun =
  on_u64 :: "u64 list \<Rightarrow> u64 list"
  on_blob :: "bytes list \<Rightarrow> bytes list"
  on_type :: "ScalarType list \<Rightarrow> ScalarType list"
  on_bool :: "bool list \<Rightarrow> bool list"
  on_shape :: "Shape list \<Rightarrow> Shape list"
  on_comp :: "CompressionMethod option list \<Rightarrow> CompressionMethod option list"

definition ef_map :: "ef_fun \<Rightarrow> EventFull \<Rightarrow> EventFull" where
  "ef_map f e =
     e\<lparr>ef_tss := on_u64 f (ef_tss e), ef_pulses := on_u64 f (ef_pulses e), ef_blobs := on_blob f (ef_blobs e),
       ef_scalar_types := on_type f (ef_scalar_types e), ef_be := on_bool f (ef_be e),
       ef_shapes := on_shape f (ef_shapes e), ef_comps := on_comp f (ef_comps e)\<rparr>"

definition ef_empty :: EventFull where
  "ef_empty =
     \<lparr>ef_tss = [], ef_pulses = [], ef_blobs = [], ef_scalar_types = [], ef_be = [], ef_shapes = [],
      ef_comps = [], ef_entry_payload_max = 0\<rparr>"

definition ef_len :: "EventFull \<Rightarrow> nat" where
  "ef_len e = length (ef_tss e)"

definition ef_push ::
    "u64 \<Rightarrow> u64 \<Rightarrow> bytes \<Rightarrow> ScalarType \<Rightarrow> bool \<Rightarrow> Shape \<Rightarrow> CompressionMethod option \<Rightarrow> EventFull \<Rightarrow> EventFull" where
  "ef_push ts pulse blob scalar_type be shape cm e =
     e\<lparr>ef_entry_payload_max := max (ef_entry_payload_max e) (of_nat (length blob)),
       ef_tss := ef_tss e @ [ts], ef_pulses := ef_pulses e @ [pulse], ef_blobs := ef_blobs e @ [blob],
       ef_scalar_types := ef_scalar_types e @ [scalar_type], ef_be := ef_be e @ [be],
       ef_shapes := ef_shapes e @ [shape], ef_comps := ef_comps e @ [cm]\<rparr>"

definition ef_pop_back :: "EventFull \<Rightarrow> EventFull" where
  "ef_pop_back =
     ef_map \<lparr>on_u64 = butlast, on_blob = butlast, on_type = butlast, on_bool = butlast, on_shape = butlast,
             on_comp = butlast\<rparr>"

text \<open>The position of the first, and of the last element with a property.\<close>

fun position :: "('a \<Rightarrow> bool) \<Rightarrow> 'a list \<Rightarrow> nat option" where
  "position p [] = None"
| "position p (x # xs) = (if p x then Some 0 else map_option Suc (position p xs))"

fun rposition :: "('a \<Rightarrow> bool) \<Rightarrow> 'a list \<Rightarrow> nat option" where
  "rposition p [] = None"
| "rposition p (x # xs) =
     (case rposition p xs of Some i \<Rightarrow> Some (Suc i) | None \<Rightarrow> if p x then Some 0 else None)"

text \<open>\<^verbatim>\<open>truncate(usize::MAX)\<close> keeps everything.\<close>

definition ef_truncate_ts :: "u64 \<Rightarrow> EventFull \<Rightarrow> EventFull" where
  "ef_truncate_ts end_ts e =
     (let nkeep = (case position (\<lambda>ts. ts \<ge> end_ts) (ef_tss e) of Some i \<Rightarrow> i | None \<Rightarrow> 2 ^ 64 - 1) in
      ef_map \<lparr>on_u64 = take nkeep, on_blob = take nkeep, on_type = take nkeep, on_bool = take nkeep,
              on_shape = take nkeep, on_comp = take nkeep\<rparr> e)"

definition ef_overwrite_all_shapes :: "Shape \<Rightarrow> EventFull \<Rightarrow> EventFull" where
  "ef_overwrite_all_shapes shape e = e\<lparr>ef_shapes := map (\<lambda>_. shape) (ef_shapes e)\<rparr>"

text \<open>Elements without a flag are not retained.\<close>

fun retain_ixs :: "bool list \<Rightarrow> 'a list \<Rightarrow> 'a list" where
  "retain_ixs ixs [] = []"
| "retain_ixs [] (x # xs) = []"
| "retain_ixs (b # ixs) (x # xs) = (if b then x # retain_ixs ixs xs else retain_ixs ixs xs)"

definition ef_keep_ixs :: "bool list \<Rightarrow> EventFull \<Rightarrow> EventFull" where
  "ef_keep_ixs ixs =
     ef_map \<lparr>on_u64 = retain_ixs ixs, on_blob = retain_ixs ixs, on_type = retain_ixs ixs,
             on_bool = retain_ixs ixs, on_shape = retain_ixs ixs, on_comp = retain_ixs ixs\<rparr>"

definition ef_byte_estimate :: "EventFull \<Rightarrow> u32" where
  "ef_byte_estimate e = of_nat (ef_len e) * (64 + ucast (ef_entry_payload_max e))"

section \<open>The merge trait\<close>

definition ef_ts_min :: "EventFull \<Rightarrow> TsNano option" where
  "ef_ts_min e = (case ef_tss e of [] \<Rightarrow> None | t # _ \<Rightarrow> Some t)"

definition ef_ts_max :: "EventFull \<Rightarrow> TsNano option" where
  "ef_ts_max e = (if ef_tss e = [] then None else Some (last (ef_tss e)))"

definition ef_drain_into ::
    "EventFull \<Rightarrow> EventFull \<Rightarrow> nat \<times> nat \<Rightarrow> (DrainIntoDstResult \<times> EventFull \<times> EventFull) panics" where
  "ef_drain_into src dst r = do {
     let (a, b) = r;
     ls \<leftarrow> those (map (\<lambda>i. map_option length (index (ef_blobs src) i)) [a ..< b]);
     let mx = foldl (\<lambda>m n. max m (of_nat n)) (ef_entry_payload_max dst) ls;
     (tss, tss_left) \<leftarrow> drain (ef_tss src) r;
     (pulses, pulses_left) \<leftarrow> drain (ef_pulses src) r;
     (blobs, blobs_left) \<leftarrow> drain (ef_blobs src) r;
     (sts, sts_left) \<leftarrow> drain (ef_scalar_types src) r;
     (be, be_left) \<leftarrow> drain (ef_be src) r;
     (shapes, shapes_left) \<leftarrow> drain (ef_shapes src) r;
     (comps, comps_left) \<leftarrow> drain (ef_comps src) r;
     Some (DstDone,
       src\<lparr>ef_tss := tss_left, ef_pulses := pulses_left, ef_blobs := blobs_left,
           ef_scalar_types := sts_left, ef_be := be_left, ef_shapes := shapes_left, ef_comps := comps_left\<rparr>,
       dst\<lparr>ef_entry_payload_max := mx, ef_tss := ef_tss dst @ tss, ef_pulses := ef_pulses dst @ pulses,
           ef_blobs := ef_blobs dst @ blobs, ef_scalar_types := ef_scalar_types dst @ sts,
           ef_be := ef_be dst @ be, ef_shapes := ef_shapes dst @ shapes, ef_comps := ef_comps dst @ comps\<rparr>) }"

definition ef_drain_into_new :: "EventFull \<Rightarrow> nat \<times> nat \<Rightarrow> (EventFull DrainIntoNewResult \<times> EventFull) panics" where
  "ef_drain_into_new src r = do {
     (res, src, dst) \<leftarrow> ef_drain_into src ef_empty r;
     Some (case res of DstDone \<Rightarrow> NewDone dst | DstPartial \<Rightarrow> NewPartial dst | DstNotCompatible \<Rightarrow> NewNotCompatible,
           src) }"

definition ef_find_lowest_index_gt :: "EventFull \<Rightarrow> TsNano \<Rightarrow> nat option" where
  "ef_find_lowest_index_gt e ts = position (\<lambda>m. m > ts) (ef_tss e)"

definition ef_find_lowest_index_ge :: "EventFull \<Rightarrow> TsNano \<Rightarrow> nat option" where
  "ef_find_lowest_index_ge e ts = position (\<lambda>m. m \<ge> ts) (ef_tss e)"

definition ef_find_highest_index_lt :: "EventFull \<Rightarrow> TsNano \<Rightarrow> nat option" where
  "ef_find_highest_index_lt e ts = rposition (\<lambda>m. m < ts) (ef_tss e)"

definition ef_find_pp_le :: "EventFull \<Rightarrow> TsNano \<Rightarrow> nat" where
  "ef_find_pp_le e ts = partition_point (\<lambda>x. x \<le> ts) (ef_tss e)"

definition ef_is_monotonic :: "EventFull \<Rightarrow> bool" where
  "ef_is_monotonic e = mono_from (ef_tss e)"

definition ef_is_consistent :: "EventFull \<Rightarrow> bool" where
  "ef_is_consistent e = ef_is_monotonic e"

definition ef_retain_unique_ts :: "EventFull \<Rightarrow> TsNano \<Rightarrow> EventFull" where
  "ef_retain_unique_ts e tsmin =
     (let msk = unique_mask tsmin (ef_tss e) in
      e\<lparr>ef_tss := keep_masked (ef_tss e) msk, ef_pulses := keep_masked (ef_pulses e) msk,
        ef_blobs := keep_masked (ef_blobs e) msk, ef_scalar_types := keep_masked (ef_scalar_types e) msk,
        ef_be := keep_masked (ef_be e) msk, ef_shapes := keep_masked (ef_shapes e) msk,
        ef_comps := keep_masked (ef_comps e) msk\<rparr>)"

definition EventFull_impl :: "EventFull MergeableTy" where
  "EventFull_impl =
     \<lparr>m_len = ef_len, m_byte_estimate = (\<lambda>e. (ef_byte_estimate e, e)),
      m_ts_min = ef_ts_min, m_ts_max = ef_ts_max,
      m_find_lowest_index_gt = ef_find_lowest_index_gt,
      m_find_lowest_index_ge = ef_find_lowest_index_ge,
      m_find_highest_index_lt = ef_find_highest_index_lt,
      m_find_pp_le = ef_find_pp_le, m_tss = ef_tss,
      m_drain_into = ef_drain_into, m_drain_into_new = ef_drain_into_new,
      m_is_monotonic = ef_is_monotonic, m_is_consistent = ef_is_consistent,
      m_retain_unique_ts = ef_retain_unique_ts\<rparr>"

section \<open>Decompression and shapes\<close>

datatype DecompError =
  TooLittleInput | BadCompresionBlockSize | UnusedBytes | BitshuffleError | ShapeMakesNoSense
| UnexpectedCompressedScalarValue

text \<open>
  The decompressor takes the input, the number of elements, their size and the block size, and gives the
  number of bytes it used and its output. \<^verbatim>\<open>Vec::with_capacity\<close> panics above the largest \<^verbatim>\<open>isize\<close>.
\<close>

type_synonym 'e bitshuffle = "bytes \<Rightarrow> u64 \<Rightarrow> u32 \<Rightarrow> nat \<Rightarrow> ('e, nat \<times> bytes) result"

definition decompress :: "'e bitshuffle \<Rightarrow> bytes \<Rightarrow> u32 \<Rightarrow> (DecompError, bytes) result panics" where
  "decompress bitshuffle_decompress databuf type_size =
     (if length databuf < 12 then Some (Inl TooLittleInput)
      else do {
        vb \<leftarrow> slice databuf 0 8;
        bs \<leftarrow> slice databuf 8 12;
        let value_bytes = (from_be vb :: u64);
        let block_size = (from_be bs :: u32);
        if block_size > 1024 * 32 then Some (Inl BadCompresionBlockSize)
        else do {
          ele_count \<leftarrow> u64_div value_bytes (ucast type_size);
          if unat type_size * unat ele_count \<ge> 2 ^ 63 then None
          else case bitshuffle_decompress (drop 12 databuf) ele_count type_size 0 of
            Inr (c1, decomp) \<Rightarrow>
              Some (if 12 + c1 \<noteq> length databuf then Inl UnusedBytes else Inr decomp)
          | Inl _ \<Rightarrow> Some (Inl BitshuffleError) } })"

text \<open>The number of elements of a compressed value.\<close>

definition compressed_count :: "EventFull \<Rightarrow> nat \<Rightarrow> (DecompError, u32) result panics" where
  "compressed_count e i = do {
     st \<leftarrow> index (ef_scalar_types e) i;
     blob \<leftarrow> index (ef_blobs e) i;
     a \<leftarrow> slice blob 0 8;
     let type_size = (ucast (st_bytes st) :: u32);
     let value_bytes = (ucast (from_be a :: u64) :: u32);
     if type_size = 0 then None
     else Some (if value_bytes mod type_size \<noteq> 0 then Inl ShapeMakesNoSense
                else Inr (value_bytes div type_size)) }"

definition ef_shape_derived ::
    "EventFull \<Rightarrow> nat \<Rightarrow> ScalarType \<Rightarrow> Shape \<Rightarrow> (DecompError, Shape) result panics" where
  "ef_shape_derived e i scalar_type_exp shape_exp =
     (case shape_exp of
        ShScalar \<Rightarrow> do {
          cm \<leftarrow> index (ef_comps e) i;
          Some (case cm of
                  Some _ \<Rightarrow> (if scalar_type_exp = STRING then Inr ShScalar else Inl UnexpectedCompressedScalarValue)
                | None \<Rightarrow> Inr ShScalar) }
      | ShWave _ \<Rightarrow> do {
          sh \<leftarrow> index (ef_shapes e) i;
          case sh of
            ShScalar \<Rightarrow> do {
              cm \<leftarrow> index (ef_comps e) i;
              case cm of
                Some BitshuffleLZ4 \<Rightarrow> rbind (compressed_count e i) (\<lambda>n. Some (Inr (ShWave n)))
              | None \<Rightarrow> Some (Inl ShapeMakesNoSense) }
          | ShWave s \<Rightarrow> Some (Inr (ShWave s))
          | ShImage _ _ \<Rightarrow> Some (Inl ShapeMakesNoSense) }
      | ShImage a b \<Rightarrow> do {
          sh \<leftarrow> index (ef_shapes e) i;
          case sh of
            ShScalar \<Rightarrow> do {
              cm \<leftarrow> index (ef_comps e) i;
              case cm of
                Some BitshuffleLZ4 \<Rightarrow> rbind (compressed_count e i)
                  (\<lambda>n. Some (if a * b \<noteq> n then Inl ShapeMakesNoSense else Inr (ShImage a b)))
              | None \<Rightarrow> Some (Inl ShapeMakesNoSense) }
          | ShWave _ \<Rightarrow> Some (Inl ShapeMakesNoSense)
          | ShImage a b \<Rightarrow> Some (Inr (ShImage a b)) })"

definition ef_data_raw :: "EventFull \<Rightarrow> nat \<Rightarrow> bytes panics" where
  "ef_data_raw e i = index (ef_blobs e) i"

definition ef_data_decompressed ::
    "'e bitshuffle \<Rightarrow> EventFull \<Rightarrow> nat \<Rightarrow> (DecompError, bytes) result panics" where
  "ef_data_decompressed bitshuffle_decompress e i = do {
     cm \<leftarrow> index (ef_comps e) i;
     blob \<leftarrow> index (ef_blobs e) i;
     case cm of
       Some BitshuffleLZ4 \<Rightarrow> do {
         st \<leftarrow> index (ef_scalar_types e) i;
         decompress bitshuffle_decompress blob (ucast (st_bytes st)) }
     | None \<Rightarrow> Some (Inr blob) }"

section \<open>EventFull keeps the contract of the merge trait\<close>

type_synonym ef_value = "u64 \<times> bytes \<times> ScalarType \<times> bool \<times> Shape \<times> CompressionMethod option"

definition ef_evs :: "EventFull \<Rightarrow> ef_value event list" where
  "ef_evs e =
     zip (ef_tss e) (zip (ef_pulses e) (zip (ef_blobs e) (zip (ef_scalar_types e) (zip (ef_be e)
       (zip (ef_shapes e) (ef_comps e))))))"

definition ef_inv :: "EventFull \<Rightarrow> bool" where
  "ef_inv e \<longleftrightarrow> length (ef_pulses e) = length (ef_tss e) \<and> length (ef_blobs e) = length (ef_tss e) \<and>
     length (ef_scalar_types e) = length (ef_tss e) \<and> length (ef_be e) = length (ef_tss e) \<and>
     length (ef_shapes e) = length (ef_tss e) \<and> length (ef_comps e) = length (ef_tss e)"

lemma ef_invD:
  assumes "ef_inv e"
  shows "length (ef_pulses e) = length (ef_tss e)" "length (ef_blobs e) = length (ef_tss e)"
    "length (ef_scalar_types e) = length (ef_tss e)" "length (ef_be e) = length (ef_tss e)"
    "length (ef_shapes e) = length (ef_tss e)" "length (ef_comps e) = length (ef_tss e)"
  using assms by (simp_all add: ef_inv_def)

lemma length_ef_evs [simp]: "ef_inv e \<Longrightarrow> length (ef_evs e) = length (ef_tss e)"
  by (simp add: ef_evs_def ef_invD)

lemma map_fst_ef_evs [simp]: "ef_inv e \<Longrightarrow> map fst (ef_evs e) = ef_tss e"
  by (simp add: ef_evs_def ef_invD)

lemma ef_evs_Nil [simp]: "ef_inv e \<Longrightarrow> ef_evs e = [] \<longleftrightarrow> ef_tss e = []"
  using length_ef_evs [of e] by (metis length_0_conv)

lemma ef_evs_empty [simp]: "ef_inv ef_empty" "ef_evs ef_empty = []"
  by (simp_all add: ef_inv_def ef_empty_def ef_evs_def)

lemma ef_push_evs:
  assumes "ef_inv e"
  shows "ef_inv (ef_push ts pulse blob st be sh cm e)"
    "ef_evs (ef_push ts pulse blob st be sh cm e) = ef_evs e @ [(ts, pulse, blob, st, be, sh, cm)]"
  using assms by (simp_all add: ef_inv_def ef_push_def ef_evs_def)

lemma ef_pop_back_push [simp]:
  "ef_pop_back (ef_push ts pulse blob st be sh cm e) = e\<lparr>ef_entry_payload_max := max (ef_entry_payload_max e) (of_nat (length blob))\<rparr>"
  by (simp add: ef_pop_back_def ef_push_def ef_map_def)

lemma ef_payload_max_evs [simp]:
  "ef_inv (e\<lparr>ef_entry_payload_max := m\<rparr>) = ef_inv e" "ef_evs (e\<lparr>ef_entry_payload_max := m\<rparr>) = ef_evs e"
  by (simp_all add: ef_inv_def ef_evs_def)

subsection \<open>Searching\<close>

lemma position_eq:
  "position p xs = (let n = length (takeWhile (\<lambda>x. \<not> p x) xs) in if n \<ge> length xs then None else Some n)"
  by (induction xs) (simp_all add: Let_def)

lemma rposition_None: "\<forall>x \<in> set xs. \<not> p x \<Longrightarrow> rposition p xs = None"
  by (induction xs) simp_all

lemma rposition_eq:
  assumes "sorted xs"
  shows "rposition (\<lambda>m. m < ts) xs =
    (let n = length (takeWhile (\<lambda>x. x < ts) xs) in if n = 0 then None else Some (n - 1))"
  using assms
proof (induction xs)
  case (Cons x xs)
  show ?case
  proof (cases "x < ts")
    case True
    with Cons show ?thesis by (cases "takeWhile (\<lambda>x. x < ts) xs") (simp_all add: Let_def)
  next
    case False
    then have "\<forall>y \<in> set xs. \<not> y < ts" using Cons.prems by auto
    with False rposition_None [OF this] show ?thesis by (simp add: Let_def)
  qed
qed simp

subsection \<open>Draining\<close>

lemma those_blob_lengths:
  "b \<le> length xs \<Longrightarrow> \<exists>ls. those (map (\<lambda>i. map_option length (index xs i)) [a ..< b]) = Some ls"
  by (rule exI [of _ "map (\<lambda>i. length (xs ! i)) [a ..< b]"], rule those_map_Some) simp

lemma ef_drain_into_ok:
  assumes "ef_inv s" and "ef_inv d" and "a \<le> b" and "b \<le> length (ef_evs s)"
  obtains s' d' where "ef_drain_into s d (a, b) = Some (DstDone, s', d')" "ef_inv s'" "ef_inv d'"
    "ef_evs d' = ef_evs d @ take (b - a) (drop a (ef_evs s))"
    "ef_evs s' = take a (ef_evs s) @ drop b (ef_evs s)"
proof -
  note L = ef_invD [OF assms(1)] ef_invD [OF assms(2)]
  have b: "b \<le> length (ef_tss s)" using assms(1,4) by simp
  obtain ls where ls: "those (map (\<lambda>i. map_option length (index (ef_blobs s) i)) [a ..< b]) = Some ls"
    using those_blob_lengths [of b "ef_blobs s" a] b L by auto
  obtain s' d' where r: "ef_drain_into s d (a, b) = Some (DstDone, s', d')"
    and s': "s' = s\<lparr>ef_tss := take a (ef_tss s) @ drop b (ef_tss s), ef_pulses := take a (ef_pulses s) @ drop b (ef_pulses s),
      ef_blobs := take a (ef_blobs s) @ drop b (ef_blobs s),
      ef_scalar_types := take a (ef_scalar_types s) @ drop b (ef_scalar_types s),
      ef_be := take a (ef_be s) @ drop b (ef_be s), ef_shapes := take a (ef_shapes s) @ drop b (ef_shapes s),
      ef_comps := take a (ef_comps s) @ drop b (ef_comps s)\<rparr>"
    and d': "d' = d\<lparr>ef_entry_payload_max := foldl (\<lambda>m n. max m (of_nat n)) (ef_entry_payload_max d) ls,
      ef_tss := ef_tss d @ take (b - a) (drop a (ef_tss s)), ef_pulses := ef_pulses d @ take (b - a) (drop a (ef_pulses s)),
      ef_blobs := ef_blobs d @ take (b - a) (drop a (ef_blobs s)),
      ef_scalar_types := ef_scalar_types d @ take (b - a) (drop a (ef_scalar_types s)),
      ef_be := ef_be d @ take (b - a) (drop a (ef_be s)), ef_shapes := ef_shapes d @ take (b - a) (drop a (ef_shapes s)),
      ef_comps := ef_comps d @ take (b - a) (drop a (ef_comps s))\<rparr>"
    using assms(3) b by (simp add: ef_drain_into_def ls drain_def L)
  have "ef_inv s'" "ef_inv d'" using L by (simp_all add: ef_inv_def s' d')
  moreover have "ef_evs s' = take a (ef_evs s) @ drop b (ef_evs s)"
    by (simp add: ef_evs_def s' L take_zip drop_zip)
  moreover have "ef_evs d' = ef_evs d @ take (b - a) (drop a (ef_evs s))"
    by (simp add: ef_evs_def d' L take_zip drop_zip)
  ultimately show ?thesis using r that by blast
qed

interpretation ef: mergeable EventFull_impl ef_inv ef_evs
proof
  fix x ts
  assume x: "ef_inv x"
  show "m_len EventFull_impl x = length (ef_evs x)"
    using x by (simp add: EventFull_impl_def ef_len_def)
  show "ef_inv (snd (m_byte_estimate EventFull_impl x)) \<and> ef_evs (snd (m_byte_estimate EventFull_impl x)) = ef_evs x"
    using x by (simp add: EventFull_impl_def)
  show "m_ts_min EventFull_impl x = (if ef_evs x = [] then None else Some (fst (hd (ef_evs x))))"
    using x hd_map [of "ef_evs x" fst] by (cases "ef_tss x") (simp_all add: EventFull_impl_def ef_ts_min_def)
  show "m_ts_max EventFull_impl x = (if ef_evs x = [] then None else Some (fst (last (ef_evs x))))"
    using x last_map [of "ef_evs x" fst] by (simp add: EventFull_impl_def ef_ts_max_def)
  show "m_is_monotonic EventFull_impl x \<longleftrightarrow> in_order (ef_evs x)"
    using x by (simp add: EventFull_impl_def ef_is_monotonic_def mono_from_sorted)
  assume ord: "in_order (ef_evs x)"
  show "m_find_lowest_index_gt EventFull_impl x ts =
      (if pp (\<lambda>t. t \<le> ts) (ef_evs x) \<ge> length (ef_evs x) then None else Some (pp (\<lambda>t. t \<le> ts) (ef_evs x)))"
    using x by (simp add: EventFull_impl_def ef_find_lowest_index_gt_def pp_map partition_point_def position_eq Let_def not_less)
  show "m_find_lowest_index_ge EventFull_impl x ts =
      (if pp (\<lambda>t. t < ts) (ef_evs x) \<ge> length (ef_evs x) then None else Some (pp (\<lambda>t. t < ts) (ef_evs x)))"
    using x by (simp add: EventFull_impl_def ef_find_lowest_index_ge_def pp_map partition_point_def position_eq Let_def not_le)
  show "m_find_highest_index_lt EventFull_impl x ts =
      (if pp (\<lambda>t. t < ts) (ef_evs x) = 0 then None else Some (pp (\<lambda>t. t < ts) (ef_evs x) - 1))"
    using x ord by (simp add: EventFull_impl_def ef_find_highest_index_lt_def pp_map partition_point_def rposition_eq Let_def)
next
  fix s d :: EventFull and a b
  assume "ef_inv s" "ef_inv d" "a \<le> b" "b \<le> length (ef_evs s)"
  then show "\<exists>r s' d'. m_drain_into EventFull_impl s d (a, b) = Some (r, s', d') \<and> ef_inv s' \<and> ef_inv d' \<and>
      (r = DstDone \<and> ef_evs d' = ef_evs d @ take (b - a) (drop a (ef_evs s)) \<and>
         ef_evs s' = take a (ef_evs s) @ drop b (ef_evs s)
       \<or> r = DstNotCompatible \<and> s' = s \<and> d' = d)"
    by (rule ef_drain_into_ok) (simp add: EventFull_impl_def)
next
  fix s :: EventFull and a b
  assume s: "ef_inv s" "a \<le> b" "b \<le> length (ef_evs s)"
  obtain s' d where "ef_drain_into s ef_empty (a, b) = Some (DstDone, s', d)" "ef_inv s'" "ef_inv d"
    "ef_evs d = take (b - a) (drop a (ef_evs s))" "ef_evs s' = take a (ef_evs s) @ drop b (ef_evs s)"
    by (rule ef_drain_into_ok [OF s(1) ef_evs_empty(1) s(2,3)]) auto
  then show "\<exists>s' d. m_drain_into_new EventFull_impl s (a, b) = Some (NewDone d, s') \<and> ef_inv s' \<and> ef_inv d \<and>
      ef_evs d = take (b - a) (drop a (ef_evs s)) \<and> ef_evs s' = take a (ef_evs s) @ drop b (ef_evs s)"
    by (simp add: EventFull_impl_def ef_drain_into_new_def)
qed

end
