(* ===== verification/EventChunker.thy ===== *)
theory EventChunker
  imports EventFull BinRange
begin

text \<open>
  Reading the events of a data file that arrives in chunks: \<^verbatim>\<open>daqbuf-streams/src/needminbuffer.rs\<close>, which
  joins chunks until the reader has as many bytes as it asked for, and
  \<^verbatim>\<open>daqbuf-disk/src/eventchunker.rs\<close>, which parses the events and ends the stream when it has seen the
  range. What a file will deliver is a list of poll results. A log item carries the time it was made and a
  formatted text; the function \<open>lg\<close> gives the item for what it reports. Log macros are left out.
\<close>

section \<open>Chunks and the buffer\<close>

record FileChunkRead =
  fc_buf :: bytes
  fc_duration :: nat

definition fc_with_buf :: "bytes \<Rightarrow> FileChunkRead" where
  "fc_with_buf buf = \<lparr>fc_buf = buf, fc_duration = 0\<rparr>"

definition fc_with_buf_dur :: "bytes \<Rightarrow> nat \<Rightarrow> FileChunkRead" where
  "fc_with_buf_dur buf dur = \<lparr>fc_buf = buf, fc_duration = dur\<rparr>"

definition fc_into_buf :: "FileChunkRead \<Rightarrow> bytes" where
  "fc_into_buf f = fc_buf f"

definition fc_buf_take :: "FileChunkRead \<Rightarrow> bytes \<times> FileChunkRead" where
  "fc_buf_take f = (fc_buf f, f\<lparr>fc_buf := []\<rparr>)"

record HistoLog2 =
  hl_histo :: "u64 list"
  hl_sub :: nat

definition HistoLog2_new :: "nat \<Rightarrow> HistoLog2" where
  "HistoLog2_new sub = \<lparr>hl_histo = replicate 16 0, hl_sub = sub\<rparr>"

text \<open>The loop of \<^verbatim>\<open>ingest\<close> shifts at most 15 times.\<close>

function histo_po :: "u32 \<Rightarrow> nat \<Rightarrow> nat" where
  "histo_po v po = (if v \<noteq> 0 \<and> po < 15 then histo_po (drop_bit 1 v) (po + 1) else po)"
  by pat_completeness auto
termination by (relation "measure (\<lambda>(v, po). 15 - po)") auto

declare histo_po.simps [simp del]

definition histo_ingest :: "u32 \<Rightarrow> HistoLog2 \<Rightarrow> HistoLog2 panics" where
  "histo_ingest v h =
     (let po = histo_po v 0;
          po = (if po \<ge> length (hl_histo h) + hl_sub h then length (hl_histo h) - 1
                else if po > hl_sub h then po - hl_sub h else 0)
      in do { x \<leftarrow> index (hl_histo h) po; Some (h\<lparr>hl_histo := (hl_histo h)[po := x + 1]\<rparr>) })"

record 'e NeedMinBuffer =
  nm_inp :: "('e, FileChunkRead) result poll list"
  nm_need_min :: u32
  nm_left :: "FileChunkRead option"
  nm_buf_len_histo :: HistoLog2
  nm_errored :: bool
  nm_completed :: bool

definition NeedMinBuffer_new :: "('e, FileChunkRead) result poll list \<Rightarrow> 'e NeedMinBuffer" where
  "NeedMinBuffer_new inp =
     \<lparr>nm_inp = inp, nm_need_min = 1, nm_left = None, nm_buf_len_histo = HistoLog2_new 8,
      nm_errored = False, nm_completed = False\<rparr>"

definition nm_put_back :: "FileChunkRead \<Rightarrow> 'e NeedMinBuffer \<Rightarrow> 'e NeedMinBuffer panics" where
  "nm_put_back f b = (if nm_left b = None then Some (b\<lparr>nm_left := Some f\<rparr>) else None)"

definition nm_set_need_min :: "u32 \<Rightarrow> 'e NeedMinBuffer \<Rightarrow> 'e NeedMinBuffer" where
  "nm_set_need_min n b = b\<lparr>nm_need_min := n\<rparr>"

text \<open>A chunk is appended to what was left.\<close>

definition nm_join :: "FileChunkRead option \<Rightarrow> FileChunkRead \<Rightarrow> FileChunkRead" where
  "nm_join left f =
     (case left of
        Some l \<Rightarrow> let (b, f) = fc_buf_take f in
          l\<lparr>fc_buf := fc_buf l @ b, fc_duration := fc_duration l + fc_duration f\<rparr>
      | None \<Rightarrow> f)"

type_synonym ('e, 's) chunk_poll = "(('e, FileChunkRead) result option poll \<times> 's) panics"

fun nm_loop :: "('e, FileChunkRead) result poll list \<Rightarrow> 'e NeedMinBuffer \<Rightarrow> ('e, 'e NeedMinBuffer) chunk_poll" where
  "nm_loop [] b = Some (Ready None, b\<lparr>nm_inp := []\<rparr>)"
| "nm_loop (Pending # xs) b = Some (Pending, b\<lparr>nm_inp := xs\<rparr>)"
| "nm_loop (Ready (Inl e) # xs) b = Some (Ready (Some (Inl e)), b\<lparr>nm_inp := xs, nm_errored := True\<rparr>)"
| "nm_loop (Ready (Inr f) # xs) b = do {
     h \<leftarrow> histo_ingest (of_nat (length (fc_buf f))) (nm_buf_len_histo b);
     let f = nm_join (nm_left b) f;
     let b = b\<lparr>nm_buf_len_histo := h\<rparr>;
     if of_nat (length (fc_buf f)) \<ge> nm_need_min b
     then Some (Ready (Some (Inr f)), b\<lparr>nm_inp := xs, nm_left := None\<rparr>)
     else nm_loop xs (b\<lparr>nm_left := Some f\<rparr>) }"

definition nm_poll_next :: "'e NeedMinBuffer \<Rightarrow> ('e, 'e NeedMinBuffer) chunk_poll" where
  "nm_poll_next b =
     (if nm_completed b then None
      else if nm_errored b then Some (Ready None, b\<lparr>nm_completed := True\<rparr>)
      else nm_loop (nm_inp b) b)"

section \<open>The state of the reader\<close>

definition COMPRESSION :: u8 where "COMPRESSION = 0x80"
definition ARRAY :: u8 where "ARRAY = 0x40"
definition BIG_ENDIAN :: u8 where "BIG_ENDIAN = 0x20"
definition SHAPE :: u8 where "SHAPE = 0x10"

text \<open>The channel a file belongs to, \<^verbatim>\<open>netpod.rs\<close>.\<close>

record SfChFetchInfo =
  sf_backend :: string
  sf_name :: string
  sf_ks :: u8
  sf_bs :: DtNano
  sf_scalar_type :: ScalarType
  sf_shape :: Shape
  sf_compression :: bool
  sf_byte_order :: ByteOrder
  sf_array :: bool

definition SfChFetchInfo_new ::
    "string \<Rightarrow> string \<Rightarrow> u8 \<Rightarrow> DtNano \<Rightarrow> ByteOrder \<Rightarrow> ScalarType \<Rightarrow> Shape \<Rightarrow> SfChFetchInfo" where
  "SfChFetchInfo_new backend name ks bs byte_order scalar_type shape =
     \<lparr>sf_backend = backend, sf_name = name, sf_ks = ks, sf_bs = bs, sf_scalar_type = scalar_type,
      sf_shape = shape, sf_compression = False, sf_byte_order = byte_order, sf_array = False\<rparr>"

definition sf_with_compression :: "bool \<Rightarrow> SfChFetchInfo \<Rightarrow> SfChFetchInfo" where
  "sf_with_compression x s = s\<lparr>sf_compression := x\<rparr>"

definition sf_with_array :: "bool \<Rightarrow> SfChFetchInfo \<Rightarrow> SfChFetchInfo" where
  "sf_with_array x s = s\<lparr>sf_array := x\<rparr>"

datatype DataParseError =
  DataFrameLengthMismatch | FileHeaderTooShort | BadVersionTag | HeaderTooLarge | DpUtf8Error
| EventTooShort | EventTooLong Shape u32 | TooManyBeforeRange | EventWithOptional | BadTypeIndex
| WaveShapeWithoutEventArray | ShapedWithoutDims | TooManyDims | UnknownCompression | DpBadCompresionBlockSize

datatype DataFileState = FileHeader | Event

text \<open>What the log items of the reader report.\<close>

datatype ec_log =
  SeenBeforeRange nat u64 u64 | ScalarTypeMismatch ScalarType
| ShapeDerivedMismatch Shape | ShapeDerivedError DecompError

record 'e EventChunker =
  ec_inp :: "'e NeedMinBuffer"
  ec_state :: DataFileState
  ec_need_min :: u32
  ec_fetch_info :: SfChFetchInfo
  ec_need_min_max :: u32
  ec_errored :: bool
  ec_completed :: bool
  ec_range :: NanoRange
  ec_disk_stats_every :: u32
  ec_seen_beyond_range :: bool
  ec_sent_beyond_range :: bool
  ec_data_emit_complete :: bool
  ec_final_stats_sent :: bool
  ec_parsed_bytes :: u64
  ec_last_ts :: u64
  ec_item_len_emit_histo :: HistoLog2
  ec_seen_before_range_count :: nat
  ec_seen_after_range_count :: nat
  ec_seen_events :: nat
  ec_unordered_count :: nat
  ec_repeated_ts_count :: nat
  ec_discard_count_range :: nat
  ec_discard_count_scalar_type :: nat
  ec_discard_count_shape :: nat
  ec_discard_count_shape_derived :: nat
  ec_discard_count_shape_derived_err :: nat
  ec_log_items :: "LogItem list"

definition ec_from_start ::
    "('e, FileChunkRead) result poll list \<Rightarrow> SfChFetchInfo \<Rightarrow> NanoRange \<Rightarrow> u32 \<Rightarrow> 'e EventChunker" where
  "ec_from_start inp fetch_info rng disk_stats_every =
     (let need_min_max =
        (case sf_shape fetch_info of
           ShScalar \<Rightarrow> 1024 * 16 | ShWave _ \<Rightarrow> 1024 * 6000 | ShImage _ _ \<Rightarrow> 1024 * 1024 * 80)
      in \<lparr>ec_inp = nm_set_need_min 6 (NeedMinBuffer_new inp), ec_state = FileHeader, ec_need_min = 6,
          ec_fetch_info = fetch_info, ec_need_min_max = need_min_max, ec_errored = False, ec_completed = False,
          ec_range = rng, ec_disk_stats_every = disk_stats_every, ec_seen_beyond_range = False,
          ec_sent_beyond_range = False, ec_data_emit_complete = False, ec_final_stats_sent = False,
          ec_parsed_bytes = 0, ec_last_ts = 0, ec_item_len_emit_histo = HistoLog2_new 0,
          ec_seen_before_range_count = 0, ec_seen_after_range_count = 0, ec_seen_events = 0,
          ec_unordered_count = 0, ec_repeated_ts_count = 0, ec_discard_count_range = 0,
          ec_discard_count_scalar_type = 0, ec_discard_count_shape = 0,
          ec_discard_count_shape_derived = 0, ec_discard_count_shape_derived_err = 0, ec_log_items = []\<rparr>)"

definition ec_from_event_boundary ::
    "('e, FileChunkRead) result poll list \<Rightarrow> SfChFetchInfo \<Rightarrow> NanoRange \<Rightarrow> u32 \<Rightarrow> 'e EventChunker" where
  "ec_from_event_boundary inp fetch_info rng disk_stats_every =
     (let ec = ec_from_start inp fetch_info rng disk_stats_every in
      ec\<lparr>ec_state := Event, ec_need_min := 4, ec_inp := nm_set_need_min 4 (ec_inp ec)\<rparr>)"

section \<open>Parsing\<close>

text \<open>
  Reads of a cursor over the buffer: the value, big-endian, and the next position. A read past the end is
  an error that the code unwraps.
\<close>

definition read_be :: "nat \<Rightarrow> bytes \<Rightarrow> nat \<Rightarrow> ('a::len word \<times> nat) panics" where
  "read_be n buf sl = do { b \<leftarrow> slice buf sl (sl + n); Some (from_be b, sl + n) }"

definition cursor_advance :: "bytes \<Rightarrow> nat \<Rightarrow> nat \<Rightarrow> nat panics" where
  "cursor_advance buf sl n = (if sl + n < 2 ^ 64 \<and> sl + n \<le> length buf then Some (sl + n) else None)"

text \<open>A step of the parser ends with an error, or asks for more data, or has consumed bytes.\<close>

type_synonym ('e, 'a) ec_res = "((DataParseError, 'a) result \<times> 'e EventChunker) panics"

definition parse_file_header :: "bytes \<Rightarrow> 'e EventChunker \<Rightarrow> ('e, nat option) ec_res" where
  "parse_file_header buf ec =
     (if length buf < 6 then Some (Inl FileHeaderTooShort, ec)
      else do {
        (fver :: u16, sl) \<leftarrow> read_be 2 buf 0;
        if fver \<noteq> 0 then Some (Inl BadVersionTag, ec)
        else do {
          (len :: u32, sl) \<leftarrow> read_be 4 buf sl;
          if sint len \<le> 0 \<or> sint len \<ge> 512 then Some (Inl HeaderTooLarge, ec)
          else let totlen = unat len + 2 in
            if length buf < totlen then Some (Inr None, ec\<lparr>ec_need_min := of_nat totlen\<rparr>)
            else do {
              sl \<leftarrow> cursor_advance buf sl (usize_sub (unat len) 8);
              (len2 :: u32, sl) \<leftarrow> read_be 4 buf sl;
              if len \<noteq> len2 then Some (Inl DataFrameLengthMismatch, ec)
              else do {
                _ \<leftarrow> slice buf 6 (usize_sub (unat len + 6) 8);
                Some (Inr (Some totlen), ec\<lparr>ec_state := Event, ec_need_min := 4\<rparr>) } } } })"

definition event_too_long :: "Shape \<Rightarrow> u32 \<Rightarrow> bool" where
  "event_too_long shape len =
     (case shape of
        ShScalar \<Rightarrow> sint len > 1024 * 64
      | ShWave _ \<Rightarrow> sint len > 1024 * 1024 * 32
      | ShImage _ _ \<Rightarrow> sint len > 1024 * 1024 * 200)"

text \<open>The checks of the order of the timestamps and of the range; whether the event is to be discarded.\<close>

definition check_order :: "u64 \<Rightarrow> 'e EventChunker \<Rightarrow> bool \<times> 'e EventChunker" where
  "check_order ts ec =
     (let ec = (if ts = ec_last_ts ec then ec\<lparr>ec_repeated_ts_count := ec_repeated_ts_count ec + 1\<rparr> else ec);
          discard = (ts < ec_last_ts ec);
          ec = (if discard
                then ec\<lparr>ec_discard_count_range := ec_discard_count_range ec + 1,
                        ec_unordered_count := ec_unordered_count ec + 1\<rparr> else ec)
      in (discard, ec\<lparr>ec_last_ts := ts\<rparr>))"

definition check_after_range :: "u64 \<Rightarrow> bool \<times> 'e EventChunker \<Rightarrow> bool \<times> 'e EventChunker" where
  "check_after_range ts de =
     (case de of (discard, ec) \<Rightarrow>
        if ts \<ge> nr_end (ec_range ec)
        then let n = ec_seen_after_range_count ec + 1 in
          (True, ec\<lparr>ec_discard_count_range := ec_discard_count_range ec + 1, ec_seen_after_range_count := n,
                    ec_seen_beyond_range := True,
                    ec_data_emit_complete := (ec_data_emit_complete ec \<or> n \<ge> 2)\<rparr>)
        else (discard, ec))"

definition check_before_range :: "(ec_log \<Rightarrow> LogItem) \<Rightarrow> u64 \<Rightarrow> u64 \<Rightarrow> 'e EventChunker \<Rightarrow> ('e, unit) ec_res" where
  "check_before_range lg ts pulse ec =
     (if ts < nr_beg (ec_range ec)
      then let n = ec_seen_before_range_count ec + 1;
               ec = ec\<lparr>ec_seen_before_range_count := n\<rparr>;
               ec = (if n < 20 then ec\<lparr>ec_log_items := ec_log_items ec @ [lg (SeenBeforeRange n ts pulse)]\<rparr> else ec)
        in Some (if n > 100 then Inl TooManyBeforeRange else Inr (), ec)
      else Some (Inr (), ec))"

fun read_shape_lens :: "bytes \<Rightarrow> nat \<Rightarrow> nat \<Rightarrow> nat \<Rightarrow> u32 list \<Rightarrow> (u32 list \<times> nat) panics" where
  "read_shape_lens buf 0 i1 sl shape_lens = Some (shape_lens, sl)"
| "read_shape_lens buf (Suc n) i1 sl shape_lens = do {
     (x, sl) \<leftarrow> read_be 4 buf sl;
     if i1 < length shape_lens then read_shape_lens buf n (i1 + 1) sl (shape_lens[i1 := x]) else None }"

text \<open>What the event header says of the value, and where the value starts.\<close>

record ValueInfo =
  vi_scalar_type :: ScalarType
  vi_big_endian :: bool
  vi_shape :: Shape
  vi_comp :: "CompressionMethod option"
  vi_pos :: nat

definition shape_of_dims :: "bool \<Rightarrow> u8 \<Rightarrow> u32 list \<Rightarrow> Shape option" where
  "shape_of_dims is_shaped shape_dim shape_lens =
     (if is_shaped
      then if shape_dim = 1 then Some (ShWave (shape_lens ! 0))
           else if shape_dim = 2 then Some (ShImage (shape_lens ! 0) (shape_lens ! 1))
           else None
      else Some ShScalar)"

definition parse_value_info :: "bytes \<Rightarrow> nat \<Rightarrow> bool \<times> 'e EventChunker \<Rightarrow> ('e, bool \<times> ValueInfo) ec_res" where
  "parse_value_info buf sl de = (let (discard, ec) = de in do {
     (ioc_ts :: u64, sl) \<leftarrow> read_be 8 buf sl;
     (status :: u8, sl) \<leftarrow> read_be 1 buf sl;
     (severity :: u8, sl) \<leftarrow> read_be 1 buf sl;
     (optional :: u32, sl) \<leftarrow> read_be 4 buf sl;
     if optional \<noteq> - 1 then Some (Inl EventWithOptional, ec)
     else do {
       (type_flags :: u8, sl) \<leftarrow> read_be 1 buf sl;
       (type_index :: u8, sl) \<leftarrow> read_be 1 buf sl;
       if type_index > 13 then Some (Inl BadTypeIndex, ec)
       else case from_dtype_index type_index of
         Inl _ \<Rightarrow> Some (Inl BadTypeIndex, ec)
       | Inr scalar_type \<Rightarrow>
         let is_compressed = (type_flags AND COMPRESSION \<noteq> 0);
             is_array = (type_flags AND ARRAY \<noteq> 0);
             is_big_endian = (type_flags AND BIG_ENDIAN \<noteq> 0);
             is_shaped = (type_flags AND SHAPE \<noteq> 0);
             is_wave = (case sf_shape (ec_fetch_info ec) of ShWave _ \<Rightarrow> True | _ \<Rightarrow> False)
         in if is_wave \<and> \<not> is_array then Some (Inl WaveShapeWithoutEventArray, ec)
         else do {
           (compression_method :: u8, sl) \<leftarrow> (if is_compressed then read_be 1 buf sl else Some (0, sl));
           (shape_dim :: u8, sl) \<leftarrow> (if is_shaped then read_be 1 buf sl else Some (0, sl));
           (shape_lens, sl) \<leftarrow> read_shape_lens buf (unat shape_dim) 0 sl [0, 0, 0, 0];
           let shape_this = shape_of_dims is_shaped shape_dim shape_lens;
               discard = (discard \<or> shape_this = None);
               ec = (if shape_this = None then ec\<lparr>ec_discard_count_shape := ec_discard_count_shape ec + 1\<rparr> else ec)
           in if is_compressed \<and> compression_method \<noteq> 0 then Some (Inl UnknownCompression, ec)
           else Some (Inr (discard,
             \<lparr>vi_scalar_type = scalar_type, vi_big_endian = is_big_endian,
              vi_shape = (case shape_this of Some sh \<Rightarrow> sh | None \<Rightarrow> ShScalar),
              vi_comp = (if is_compressed then Some BitshuffleLZ4 else None), vi_pos = sl\<rparr>), ec) } } })"

text \<open>The event is appended, and taken back if its shape is not the one of the channel.\<close>

definition push_event ::
    "(ec_log \<Rightarrow> LogItem) \<Rightarrow> u64 \<Rightarrow> u64 \<Rightarrow> bytes \<Rightarrow> ValueInfo \<Rightarrow> EventFull \<times> LogItem list \<times> 'e EventChunker \<Rightarrow>
      (EventFull \<times> LogItem list \<times> 'e EventChunker) panics" where
  "push_event lg ts pulse databuf vi rle = (let (ret, logs, ec) = rle;
     ret = ef_push ts pulse databuf (vi_scalar_type vi) (vi_big_endian vi) (vi_shape vi) (vi_comp vi) ret in do {
     sh \<leftarrow> ef_shape_derived ret (ef_len ret - 1) (sf_scalar_type (ec_fetch_info ec)) (sf_shape (ec_fetch_info ec));
     Some (case sh of
             Inr sh \<Rightarrow>
               (if sh \<noteq> sf_shape (ec_fetch_info ec)
                then (ef_pop_back ret, logs @ [lg (ShapeDerivedMismatch sh)],
                      ec\<lparr>ec_discard_count_shape_derived := ec_discard_count_shape_derived ec + 1\<rparr>)
                else (ret, logs, ec))
           | Inl e \<Rightarrow>
               (ef_pop_back ret, logs @ [lg (ShapeDerivedError e)],
                ec\<lparr>ec_discard_count_shape_derived_err := ec_discard_count_shape_derived_err ec + 1\<rparr>)) })"

text \<open>The result of an event: the parser stops, or has consumed the event.\<close>

type_synonym 'e event_res = "('e, (nat \<times> EventFull \<times> LogItem list) option) ec_res"

definition store_event ::
    "(ec_log \<Rightarrow> LogItem) \<Rightarrow> bytes \<Rightarrow> u32 \<Rightarrow> u64 \<Rightarrow> u64 \<Rightarrow> EventFull \<times> LogItem list \<Rightarrow>
      bool \<Rightarrow> ValueInfo \<Rightarrow> 'e EventChunker \<Rightarrow> 'e event_res" where
  "store_event lg buf len ts pulse rl discard vi ec = (let
     (ret, logs) = rl;
     mismatch = (sf_scalar_type (ec_fetch_info ec) \<noteq> vi_scalar_type vi);
     discard = (discard \<or> mismatch);
     logs = (if mismatch then logs @ [lg (ScalarTypeMismatch (vi_scalar_type vi))] else logs);
     ec = (if mismatch
           then ec\<lparr>ec_discard_count_scalar_type := ec_discard_count_scalar_type ec + 1\<rparr> else ec);
     p1 = vi_pos vi;
     n2 = usize_sub (usize_sub (unat len) p1) 4
   in do {
     databuf \<leftarrow> slice buf p1 (usize_add p1 n2);
     (ret, logs, ec) \<leftarrow> (if discard then Some (ret, logs, ec)
                       else push_event lg ts pulse databuf vi (ret, logs, ec));
     Some (Inr (Some (unat len, ret, logs)), ec\<lparr>ec_need_min := 4\<rparr>) })"

definition parse_event_body ::
    "(ec_log \<Rightarrow> LogItem) \<Rightarrow> bytes \<Rightarrow> u32 \<Rightarrow> nat \<Rightarrow> u64 \<Rightarrow> u64 \<Rightarrow> EventFull \<times> LogItem list \<Rightarrow>
      bool \<Rightarrow> 'e EventChunker \<Rightarrow> 'e event_res" where
  "parse_event_body lg buf len sl ts pulse rl discard ec = do {
     (r, ec) \<leftarrow> check_before_range lg ts pulse ec;
     case r of
       Inl e \<Rightarrow> Some (Inl e, ec)
     | Inr _ \<Rightarrow> do {
         (r, ec) \<leftarrow> parse_value_info buf sl (discard, ec);
         case r of
           Inl e \<Rightarrow> Some (Inl e, ec)
         | Inr (discard, vi) \<Rightarrow> store_event lg buf len ts pulse rl discard vi ec } }"

definition parse_event_at ::
    "(ec_log \<Rightarrow> LogItem) \<Rightarrow> bytes \<Rightarrow> EventFull \<times> LogItem list \<Rightarrow> 'e EventChunker \<Rightarrow> 'e event_res" where
  "parse_event_at lg buf rl ec = do {
     (len :: u32, sl) \<leftarrow> read_be 4 buf 0;
     let shape = sf_shape (ec_fetch_info ec);
     if sint len < 20 then Some (Inl EventTooShort, ec)
     else if event_too_long shape len then Some (Inl (EventTooLong shape len), ec)
     else if of_nat (length buf) < len then Some (Inr None, ec\<lparr>ec_need_min := len\<rparr>)
     else do {
       let ec = ec\<lparr>ec_seen_events := ec_seen_events ec + 1\<rparr>;
       (ttl :: u64, sl) \<leftarrow> read_be 8 buf sl;
       (ts :: u64, sl) \<leftarrow> read_be 8 buf sl;
       (pulse :: u64, sl) \<leftarrow> read_be 8 buf sl;
       let (discard, ec) = check_after_range ts (check_order ts ec);
       if ts \<ge> nr_end (ec_range ec) \<and> ec_seen_after_range_count ec \<ge> 2 then Some (Inr None, ec)
       else parse_event_body lg buf len sl ts pulse rl discard ec } }"

definition parse_step ::
    "(ec_log \<Rightarrow> LogItem) \<Rightarrow> bytes \<Rightarrow> EventFull \<times> LogItem list \<Rightarrow> 'e EventChunker \<Rightarrow>
      ('e, (nat \<times> EventFull \<times> LogItem list) option) ec_res" where
  "parse_step lg buf rl ec =
     (case ec_state ec of
        FileHeader \<Rightarrow> do {
          (r, ec) \<leftarrow> parse_file_header buf ec;
          Some (case r of Inl e \<Rightarrow> Inl e | Inr None \<Rightarrow> Inr None | Inr (Some n) \<Rightarrow> Inr (Some (n, rl)), ec) }
      | Event \<Rightarrow> parse_event_at lg buf rl ec)"

lemma parse_step_consumes:
  assumes "parse_step lg buf rl ec = Some (Inr (Some (n, rl')), ec')"
  shows "0 < n \<and> n \<le> length buf"
proof (cases "ec_state ec")
  case FileHeader
  with assms show ?thesis
    by (auto simp: parse_step_def parse_file_header_def Let_def
        split: bind_splits if_splits sum.splits option.splits prod.splits)
next
  case Event
  have len: "0 < unat l \<and> unat l \<le> k" if "\<not> sint l < 20" "\<not> of_nat k < l" for l :: u32 and k
  proof -
    have "l \<noteq> 0" using that(1) by auto
    moreover have "unat l \<le> unat (of_nat k :: u32)" using that(2) by (simp add: word_less_nat_alt)
    moreover have "unat (of_nat k :: u32) \<le> k" by (simp add: unsigned_of_nat take_bit_nat_less_eq_self)
    ultimately show ?thesis by (simp add: unat_gt_0)
  qed
  from assms Event show ?thesis
    by (auto simp: parse_step_def parse_event_at_def parse_event_body_def store_event_def Let_def
        split: bind_splits if_splits sum.splits prod.splits dest: len)
qed

text \<open>The loop: the result, and the rest of the buffer.\<close>

record ParseResult =
  pr_events :: EventFull
  pr_parsed_bytes :: u64

function parse_loop ::
    "(ec_log \<Rightarrow> LogItem) \<Rightarrow> bytes \<Rightarrow> EventFull \<times> LogItem list \<Rightarrow> u64 \<Rightarrow> 'e EventChunker \<Rightarrow>
      ((DataParseError, ParseResult \<times> LogItem list) result \<times> bytes \<times> 'e EventChunker) panics" where
  "parse_loop lg buf rl parsed_bytes ec =
     (let ret = (\<lparr>pr_events = fst rl, pr_parsed_bytes = parsed_bytes\<rparr>, snd rl) in
      if of_nat (length buf) < ec_need_min ec then Some (Inr ret, buf, ec)
      else case parse_step lg buf rl ec of
             None \<Rightarrow> None
           | Some (Inl e, ec) \<Rightarrow> Some (Inl e, buf, ec)
           | Some (Inr None, ec) \<Rightarrow> Some (Inr ret, buf, ec)
           | Some (Inr (Some (n, rl)), ec) \<Rightarrow> parse_loop lg (drop n buf) rl (parsed_bytes + of_nat n) ec)"
  by pat_completeness auto
termination
  by (relation "measure (\<lambda>(lg, buf, rl, parsed_bytes, ec). length buf)") (auto dest: parse_step_consumes)

declare parse_loop.simps [simp del]

definition parse_buf ::
    "(ec_log \<Rightarrow> LogItem) \<Rightarrow> bytes \<Rightarrow> 'e EventChunker \<Rightarrow>
      ((DataParseError, ParseResult \<times> LogItem list) result \<times> bytes \<times> 'e EventChunker) panics" where
  "parse_buf lg buf ec = parse_loop lg buf (ef_empty, []) 0 ec"

section \<open>The stream\<close>

datatype 'e ec_error = EcInput 'e | EcParse DataParseError | SpuriousNeedMin u32 u32

type_synonym 'e ec_poll = "((('e ec_error, EventFull) Sitemty) option poll \<times> 'e EventChunker) panics"

definition ec_handle_chunk :: "(ec_log \<Rightarrow> LogItem) \<Rightarrow> FileChunkRead \<Rightarrow> 'e EventChunker \<Rightarrow> 'e ec_poll" where
  "ec_handle_chunk lg f ec = do {
     (r, rest, ec) \<leftarrow> parse_buf lg (fc_buf f) ec;
     case r of
       Inl e \<Rightarrow> Some (Ready (Some (Inl (EcParse e))), ec\<lparr>ec_errored := True\<rparr>)
     | Inr (res, log_items) \<Rightarrow> do {
         let ec = ec\<lparr>ec_log_items := ec_log_items ec @ log_items,
                     ec_parsed_bytes := ec_parsed_bytes ec + pr_parsed_bytes res\<rparr>;
         inp \<leftarrow> (if length rest > 0 then nm_put_back (f\<lparr>fc_buf := rest\<rparr>) (ec_inp ec) else Some (ec_inp ec));
         let ec = ec\<lparr>ec_inp := inp\<rparr>;
         if ec_need_min ec > ec_need_min_max ec
         then Some (Ready (Some (Inl (SpuriousNeedMin (ec_need_min ec) (ec_need_min_max ec)))),
                    ec\<lparr>ec_errored := True\<rparr>)
         else do {
           h \<leftarrow> histo_ingest (of_nat (ef_len (pr_events res))) (ec_item_len_emit_histo ec);
           Some (Ready (Some (sitem_data (pr_events res))),
                 ec\<lparr>ec_inp := nm_set_need_min (ec_need_min ec) (ec_inp ec), ec_item_len_emit_histo := h\<rparr>) } } }"

definition emit_stats :: "'e EventChunker \<Rightarrow> ('e ec_error, EventFull) Sitemty option poll \<times> 'e EventChunker" where
  "emit_stats ec =
     (Ready (Some (Inr (Stats (SiEventDataReadStats (ec_parsed_bytes ec))))), ec\<lparr>ec_parsed_bytes := 0\<rparr>)"

partial_function (option) ec_poll_next :: "(ec_log \<Rightarrow> LogItem) \<Rightarrow> 'e EventChunker \<Rightarrow> 'e ec_poll" where
  "ec_poll_next lg ec =
     (if ec_completed ec then None
      else case ec_log_items ec of
        item # q \<Rightarrow> Some (Ready (Some (Inr (Log item))), ec\<lparr>ec_log_items := q\<rparr>)
      | [] \<Rightarrow>
        if ec_errored ec then Some (Ready None, ec\<lparr>ec_completed := True\<rparr>)
        else if ec_parsed_bytes ec \<ge> ucast (ec_disk_stats_every ec) then Some (emit_stats ec)
        else if ec_sent_beyond_range ec then Some (Ready None, ec\<lparr>ec_completed := True\<rparr>)
        else if ec_final_stats_sent ec
        then let ec = ec\<lparr>ec_sent_beyond_range := True\<rparr> in
          if ec_seen_beyond_range ec then Some (Ready (Some (Inr (DataItem RangeComplete))), ec)
          else ec_poll_next lg ec
        else if ec_data_emit_complete ec
        then Some (emit_stats (ec\<lparr>ec_final_stats_sent := True\<rparr>))
        else do {
          (r, inp) \<leftarrow> nm_poll_next (ec_inp ec);
          let ec = ec\<lparr>ec_inp := inp\<rparr>;
          case r of
            Ready (Some (Inr f)) \<Rightarrow> ec_handle_chunk lg f ec
          | Ready (Some (Inl e)) \<Rightarrow> Some (Ready (Some (Inl (EcInput e))), ec\<lparr>ec_errored := True\<rparr>)
          | Ready None \<Rightarrow> ec_poll_next lg (ec\<lparr>ec_data_emit_complete := True\<rparr>)
          | Pending \<Rightarrow> Some (Pending, ec) })"

end
