(* ===== verification/EventChunkerCorrect.thy ===== *)
theory EventChunkerCorrect
  imports EventChunker
begin

text \<open>
  The reader of \<open>EventChunker\<close> against the file format: events as they lie in a file, the reader over any
  division of a file into chunks, and the ways it fails.
\<close>

section \<open>The file format\<close>

text \<open>
  An event in a file. It has the dimensions of its shape if the flag \<^verbatim>\<open>SHAPE\<close> is set, and the method of
  compression, which is 0, if the flag \<^verbatim>\<open>COMPRESSION\<close> is set. Its length is written before and after it.
\<close>

record disk_event =
  de_ttl :: u64
  de_ts :: u64
  de_pulse :: u64
  de_ioc_ts :: u64
  de_status :: u8
  de_severity :: u8
  de_flags :: u8
  de_type_index :: u8
  de_dims :: "u32 list"
  de_blob :: bytes

abbreviation compressed :: "disk_event \<Rightarrow> bool" where
  "compressed e \<equiv> de_flags e AND COMPRESSION \<noteq> 0"

abbreviation shaped :: "disk_event \<Rightarrow> bool" where
  "shaped e \<equiv> de_flags e AND SHAPE \<noteq> 0"

definition de_times :: "disk_event \<Rightarrow> bytes" where
  "de_times e = to_be 8 (de_ttl e) @ to_be 8 (de_ts e) @ to_be 8 (de_pulse e)"

definition de_info :: "disk_event \<Rightarrow> bytes" where
  "de_info e =
     to_be 8 (de_ioc_ts e) @ to_be 1 (de_status e) @ to_be 1 (de_severity e) @ to_be 4 (- 1 :: u32) @
     to_be 1 (de_flags e) @ to_be 1 (de_type_index e) @
     (if compressed e then to_be 1 (0 :: u8) else []) @
     (if shaped e then to_be 1 (of_nat (length (de_dims e)) :: u8) else []) @
     concat (map (to_be 4) (de_dims e))"

definition de_head :: "disk_event \<Rightarrow> bytes" where
  "de_head e = de_times e @ de_info e"

definition de_len :: "disk_event \<Rightarrow> nat" where
  "de_len e = length (de_head e) + length (de_blob e) + 8"

definition event_bytes :: "disk_event \<Rightarrow> bytes" where
  "event_bytes e =
     (let len = (of_nat (de_len e) :: u32) in to_be 4 len @ de_head e @ de_blob e @ to_be 4 len)"

definition header_bytes :: "bytes \<Rightarrow> bytes" where
  "header_bytes name =
     (let len = (of_nat (length name + 8) :: u32) in to_be 2 (0 :: u16) @ to_be 4 len @ name @ to_be 4 len)"

text \<open>What the reader makes of an event, and whether it is one of the channel.\<close>

definition de_shape :: "disk_event \<Rightarrow> Shape option" where
  "de_shape e =
     (if shaped e
      then case de_dims e of [n] \<Rightarrow> Some (ShWave n) | [a, b] \<Rightarrow> Some (ShImage a b) | _ \<Rightarrow> None
      else Some ShScalar)"

definition de_value :: "disk_event \<Rightarrow> ef_value" where
  "de_value e =
     (de_pulse e, de_blob e, (case from_dtype_index (de_type_index e) of Inr st \<Rightarrow> st | Inl _ \<Rightarrow> StEnum),
      de_flags e AND BIG_ENDIAN \<noteq> 0, (case de_shape e of Some sh \<Rightarrow> sh | None \<Rightarrow> ShScalar),
      if compressed e then Some BitshuffleLZ4 else None)"

definition ef_single :: "u64 \<Rightarrow> ef_value \<Rightarrow> EventFull" where
  "ef_single ts v = (case v of (pulse, blob, st, be, sh, cm) \<Rightarrow> ef_push ts pulse blob st be sh cm ef_empty)"

definition of_channel :: "SfChFetchInfo \<Rightarrow> disk_event \<Rightarrow> bool" where
  "of_channel fi e \<longleftrightarrow>
     from_dtype_index (de_type_index e) = Inr (sf_scalar_type fi) \<and> de_shape e \<noteq> None \<and>
     ef_shape_derived (ef_single (de_ts e) (de_value e)) 0 (sf_scalar_type fi) (sf_shape fi) =
       Some (Inr (sf_shape fi))"

text \<open>
  An event the reader can take: a known type, at most four dimensions, an array if the channel is a
  waveform, the number of bytes of a compressed value, and a length within the limits.
\<close>

definition need_limit :: "Shape \<Rightarrow> nat" where
  "need_limit sh = (case sh of ShScalar \<Rightarrow> 1024 * 16 | ShWave _ \<Rightarrow> 1024 * 6000 | ShImage _ _ \<Rightarrow> 1024 * 1024 * 80)"

definition disk_event_ok :: "SfChFetchInfo \<Rightarrow> disk_event \<Rightarrow> bool" where
  "disk_event_ok fi e \<longleftrightarrow>
     de_type_index e \<le> 13 \<and> \<not> isl (from_dtype_index (de_type_index e)) \<and> length (de_dims e) \<le> 4 \<and> (\<not> shaped e \<longrightarrow> de_dims e = []) \<and>
     ((\<exists>n. sf_shape fi = ShWave n) \<longrightarrow> de_flags e AND ARRAY \<noteq> 0) \<and>
     (compressed e \<longrightarrow> 8 \<le> length (de_blob e)) \<and> de_len e \<le> need_limit (sf_shape fi)"

section \<open>Reading integers\<close>

text \<open>The cursor \<open>sl\<close> stands before the bytes \<open>xs\<close>.\<close>

definition at :: "bytes \<Rightarrow> nat \<Rightarrow> bytes \<Rightarrow> bool" where
  "at buf sl xs \<longleftrightarrow> sl \<le> length buf \<and> drop sl buf = xs"

lemma at_start: "at buf 0 buf"
  by (simp add: at_def)

lemma at_append: "at buf sl (ys @ xs) \<Longrightarrow> at buf (sl + length ys) xs"
  unfolding at_def by (metis add.commute append_eq_conv_conj drop_drop length_append length_drop le_add_diff_inverse nat_add_left_cancel_le le_add1)

lemma at_slice:
  assumes "at buf sl (ys @ xs)"
  shows "slice buf sl (sl + length ys) = Some ys"
proof -
  have "length buf = sl + length (ys @ xs)" using assms unfolding at_def by (metis le_add_diff_inverse length_drop)
  moreover have "take (length ys) (drop sl buf) = ys" using assms by (simp add: at_def)
  ultimately show ?thesis by simp
qed

lemma read_be_at:
  fixes w :: "'a::len word"
  assumes "at buf sl (to_be n w @ xs)" and "LENGTH('a) \<le> 8 * n"
  shows "read_be n buf sl = Some (w, sl + n)" "at buf (sl + n) xs"
  using at_slice [OF assms(1)] at_append [OF assms(1)] from_to_be [OF assms(2), of w] by (simp_all add: read_be_def)

lemma read_shape_lens_at:
  assumes "at buf sl (concat (map (to_be 4) ds) @ xs)" and "i + length ds \<le> length ls"
  shows "read_shape_lens buf (length ds) i sl ls =
      Some (take i ls @ ds @ drop (i + length ds) ls, sl + 4 * length ds)" "at buf (sl + 4 * length ds) xs"
  using assms
proof (induction ds arbitrary: i sl ls)
  case (Cons d ds)
  {
    case 1
    then have a: "at buf sl (to_be 4 d @ (concat (map (to_be 4) ds) @ xs))" by simp
    have "read_be 4 buf sl = Some (d, sl + 4)" "at buf (sl + 4) (concat (map (to_be 4) ds) @ xs)"
      by (rule read_be_at [OF a]; simp)+
    moreover have "take (Suc i) (ls[i := d]) @ ds @ drop (Suc i + length ds) (ls[i := d]) =
        take i ls @ (d # ds) @ drop (i + length (d # ds)) ls"
      using 1(2) by (simp add: take_Suc_conv_app_nth)
    ultimately show ?case
      using Cons.IH(1) [of "sl + 4" "Suc i" "ls[i := d]"] 1(2) by (simp add: algebra_simps)
  next
    case 2
    then have a: "at buf sl (to_be 4 d @ (concat (map (to_be 4) ds) @ xs))" by simp
    have "at buf (sl + 4) (concat (map (to_be 4) ds) @ xs)" by (rule read_be_at [OF a]) simp
    then show ?case
      using Cons.IH(2) [of "sl + 4" "Suc i" "ls[i := d]"] 2(2) by (simp add: algebra_simps)
  }
qed simp_all

lemma shape_of_dims_eq:
  assumes "length (de_dims e) \<le> 4"
  shows "shape_of_dims (shaped e) (of_nat (length (de_dims e))) (de_dims e @ drop (length (de_dims e)) [0, 0, 0, 0]) = de_shape e"
proof -
  consider "de_dims e = []" | a where "de_dims e = [a]" | a b where "de_dims e = [a, b]"
    | a b c ds where "de_dims e = a # b # c # ds" "length ds \<le> 1"
    using assms by (cases "de_dims e"; cases "tl (de_dims e)"; cases "tl (tl (de_dims e))") auto
  then show ?thesis
  proof cases
    case 4
    then have "(of_nat (length (de_dims e)) :: u8) \<in> {3, 4}" by (cases ds) auto
    then show ?thesis using 4 by (auto simp: shape_of_dims_def de_shape_def)
  qed (auto simp: shape_of_dims_def de_shape_def)
qed

definition value_info :: "disk_event \<Rightarrow> nat \<Rightarrow> ValueInfo" where
  "value_info e p =
     (case de_value e of (pulse, blob, st, be, sh, cm) \<Rightarrow>
        \<lparr>vi_scalar_type = st, vi_big_endian = be, vi_shape = sh, vi_comp = cm, vi_pos = p\<rparr>)"

lemma parse_value_info_ok:
  assumes at: "at buf sl (de_info e @ xs)" and ok: "disk_event_ok fi e" and fi: "ec_fetch_info ec = fi"
  shows "parse_value_info buf sl (discard, ec) =
    Some (Inr (discard \<or> de_shape e = None, value_info e (sl + length (de_info e))),
          if de_shape e = None then ec\<lparr>ec_discard_count_shape := ec_discard_count_shape ec + 1\<rparr> else ec)"
proof -
  let ?comp = "if compressed e then to_be 1 (0 :: u8) else []"
  let ?dim = "if shaped e then to_be 1 (of_nat (length (de_dims e)) :: u8) else []"
  let ?dims = "concat (map (to_be 4) (de_dims e))"
  let ?c = "if compressed e then 1 else 0" and ?s = "if shaped e then 1 else (0 :: nat)"
  have dims: "length (de_dims e) \<le> 4" "\<not> shaped e \<longrightarrow> de_dims e = []" using ok by (simp_all add: disk_event_ok_def)
  obtain st where st: "from_dtype_index (de_type_index e) = Inr st"
    using ok by (cases "from_dtype_index (de_type_index e)") (simp_all add: disk_event_ok_def)
  note a = at [unfolded de_info_def append_assoc]
  define p1 p2 p3 p4 p5 p6 where p: "p1 = sl + 8" "p2 = p1 + 1" "p3 = p2 + 1" "p4 = p3 + 4" "p5 = p4 + 1" "p6 = p5 + 1"
  note r1 = read_be_at [OF a, folded p]
  note r2 = read_be_at [OF r1(2), folded p]
  note r3 = read_be_at [OF r2(2), folded p]
  note r4 = read_be_at [OF r3(2), folded p]
  note r5 = read_be_at [OF r4(2), folded p]
  note r6 = read_be_at [OF r5(2), folded p]
  have a6: "at buf p6 (?comp @ ?dim @ ?dims @ xs)" using r6(2) by simp
  have c: "(if compressed e then read_be 1 buf p6 else Some (0 :: u8, p6)) = Some (0, p6 + ?c)"
    "at buf (p6 + ?c) (?dim @ ?dims @ xs)"
    using a6 read_be_at [of buf p6 1 "0 :: u8" "?dim @ ?dims @ xs"] by (simp_all split: if_splits)
  have d: "(if shaped e then read_be 1 buf (p6 + ?c) else Some (0 :: u8, p6 + ?c)) =
      Some (of_nat (length (de_dims e)), p6 + ?c + ?s)"
    "at buf (p6 + ?c + ?s) (?dims @ xs)"
    using c(2) dims read_be_at [of buf "p6 + ?c" 1 "of_nat (length (de_dims e)) :: u8" "?dims @ xs"]
    by (simp_all split: if_splits)
  have n: "unat (of_nat (length (de_dims e)) :: u8) = length (de_dims e)"
    using dims by (simp add: unat_of_nat)
  have l: "read_shape_lens buf (length (de_dims e)) 0 (p6 + ?c + ?s) [0, 0, 0, 0] =
      Some (de_dims e @ drop (length (de_dims e)) [0, 0, 0, 0], p6 + ?c + ?s + 4 * length (de_dims e))"
    using read_shape_lens_at(1) [OF d(2), of 0 "[0, 0, 0, 0]"] dims by simp
  have "length (de_info e) = 16 + ?c + ?s + 4 * length (de_dims e)"
    using length_concat_const [of "map (to_be 4) (de_dims e)" 4] by (simp add: de_info_def)
  then have len: "sl + length (de_info e) = p6 + ?c + ?s + 4 * length (de_dims e)" by (simp add: p)
  have "(case sf_shape fi of ShWave n \<Rightarrow> True | _ \<Rightarrow> False) \<longrightarrow> de_flags e AND ARRAY \<noteq> 0" "\<not> de_type_index e > 13"
    using ok by (auto simp: disk_event_ok_def split: Shape.split)
  then show ?thesis
    using st dims fi
    by (simp add: parse_value_info_def r1(1) r2(1) r3(1) r4(1) r5(1) r6(1) c(1) d(1) l n Let_def shape_of_dims_eq
        value_info_def de_value_def len del: One_nat_def)
qed

section \<open>One event\<close>

lemma len_event_bytes [simp]: "length (event_bytes e) = de_len e"
  by (simp add: event_bytes_def de_len_def Let_def)

lemma de_len_bounds:
  assumes "disk_event_ok fi e"
  shows "48 \<le> de_len e" "de_len e \<le> 83886080" "unat (of_nat (de_len e) :: u32) = de_len e"
    "sint (of_nat (de_len e) :: u32) = int (de_len e)" "\<not> event_too_long (sf_shape fi) (of_nat (de_len e))"
proof -
  show "48 \<le> de_len e" by (simp add: de_len_def de_head_def de_times_def de_info_def)
  have l: "de_len e \<le> need_limit (sf_shape fi)" using assms by (simp add: disk_event_ok_def)
  then show b: "de_len e \<le> 83886080" by (simp add: need_limit_def split: Shape.splits)
  then show "unat (of_nat (de_len e) :: u32) = de_len e" by (simp add: unat_of_nat)
  show s: "sint (of_nat (de_len e) :: u32) = int (de_len e)"
    using b by (simp add: signed_of_nat signed_take_bit_int_eq_self)
  show "\<not> event_too_long (sf_shape fi) (of_nat (de_len e))"
    using l by (simp add: event_too_long_def s need_limit_def split: Shape.splits)
qed

text \<open>The reader without the part of its state that parsing changes.\<close>

definition same_conf :: "'e EventChunker \<Rightarrow> 'e EventChunker \<Rightarrow> bool" where
  "same_conf ec ec' \<longleftrightarrow>
     ec_inp ec' = ec_inp ec \<and> ec_fetch_info ec' = ec_fetch_info ec \<and> ec_need_min_max ec' = ec_need_min_max ec \<and>
     ec_errored ec' = ec_errored ec \<and> ec_completed ec' = ec_completed ec \<and> ec_range ec' = ec_range ec \<and>
     ec_disk_stats_every ec' = ec_disk_stats_every ec \<and> ec_sent_beyond_range ec' = ec_sent_beyond_range ec \<and>
     ec_final_stats_sent ec' = ec_final_stats_sent ec \<and> ec_parsed_bytes ec' = ec_parsed_bytes ec \<and>
     ec_item_len_emit_histo ec' = ec_item_len_emit_histo ec"

lemma same_conf_refl [simp]: "same_conf ec ec"
  by (simp add: same_conf_def)

lemma same_conf_trans: "same_conf a b \<Longrightarrow> same_conf b c \<Longrightarrow> same_conf a c"
  by (simp add: same_conf_def)

definition beyond :: "NanoRange \<Rightarrow> disk_event \<Rightarrow> bool" where
  "beyond rng e \<longleftrightarrow> nr_end rng \<le> de_ts e"

definition ahead :: "NanoRange \<Rightarrow> disk_event \<Rightarrow> bool" where
  "ahead rng e \<longleftrightarrow> de_ts e < nr_beg rng"

definition after_event :: "disk_event \<Rightarrow> 'e EventChunker \<Rightarrow> 'e EventChunker \<Rightarrow> bool" where
  "after_event e ec ec' \<longleftrightarrow>
     same_conf ec ec' \<and> ec_state ec' = ec_state ec \<and> ec_last_ts ec' = de_ts e \<and>
     ec_seen_beyond_range ec' = (ec_seen_beyond_range ec \<or> beyond (ec_range ec) e) \<and>
     ec_seen_after_range_count ec' = ec_seen_after_range_count ec + (if beyond (ec_range ec) e then 1 else 0) \<and>
     ec_seen_before_range_count ec' = ec_seen_before_range_count ec + (if ahead (ec_range ec) e then 1 else 0) \<and>
     ec_data_emit_complete ec' = (ec_data_emit_complete ec \<or> beyond (ec_range ec) e \<and> ec_seen_after_range_count ec > 0)"

definition same_track :: "'e EventChunker \<Rightarrow> 'e EventChunker \<Rightarrow> bool" where
  "same_track ec ec' \<longleftrightarrow>
     same_conf ec ec' \<and> ec_state ec' = ec_state ec \<and> ec_last_ts ec' = ec_last_ts ec \<and>
     ec_seen_beyond_range ec' = ec_seen_beyond_range ec \<and>
     ec_seen_after_range_count ec' = ec_seen_after_range_count ec \<and>
     ec_seen_before_range_count ec' = ec_seen_before_range_count ec \<and>
     ec_data_emit_complete ec' = ec_data_emit_complete ec"

lemma after_event_track: "after_event e ec ec1 \<Longrightarrow> same_track ec1 ec2 \<Longrightarrow> after_event e ec ec2"
  by (simp add: after_event_def same_track_def same_conf_def)

lemma st_bytes_pos: "(ucast (st_bytes st) :: u32) \<noteq> 0"
  by (cases st) simp_all

lemma shape_derived_last:
  assumes "ef_inv r" and r': "r' = ef_push ts pulse blob st be sh cm r"
  shows "ef_shape_derived r' (ef_len r' - 1) a b = ef_shape_derived (ef_push ts pulse blob st be sh cm ef_empty) 0 a b"
proof -
  let ?s = "ef_push ts pulse blob st be sh cm ef_empty"
  have "index (ef_scalar_types r') (ef_len r' - 1) = index (ef_scalar_types ?s) 0"
    "index (ef_blobs r') (ef_len r' - 1) = index (ef_blobs ?s) 0"
    "index (ef_shapes r') (ef_len r' - 1) = index (ef_shapes ?s) 0"
    "index (ef_comps r') (ef_len r' - 1) = index (ef_comps ?s) 0"
    using assms(1) by (simp_all add: r' ef_push_def ef_empty_def ef_len_def index_def ef_invD nth_append)
  then show ?thesis by (simp only: ef_shape_derived_def compressed_count_def)
qed

lemma shape_derived_no_panic:
  assumes "cm \<noteq> None \<longrightarrow> 8 \<le> length blob"
  shows "ef_shape_derived (ef_push ts pulse blob st be sh cm ef_empty) 0 a b \<noteq> None"
proof -
  have "compressed_count (ef_push ts pulse blob st be sh cm ef_empty) 0 \<noteq> None" if "cm \<noteq> None"
    using assms that st_bytes_pos [of st]
    by (simp add: compressed_count_def ef_push_def ef_empty_def index_def Let_def)
  then show ?thesis
    by (auto simp: ef_shape_derived_def ef_push_def ef_empty_def index_def rbind_def
        split: Shape.split option.split CompressionMethod.split sum.split)
qed

lemma push_event_ok:
  assumes "disk_event_ok fi e" and "ec_fetch_info ec = fi" and "ef_inv ret"
    and "de_shape e \<noteq> None" and "from_dtype_index (de_type_index e) = Inr (sf_scalar_type fi)"
  obtains ret' logs' ec' where
    "push_event lg (de_ts e) (de_pulse e) (de_blob e) (value_info e p) (ret, logs, ec) = Some (ret', logs', ec')"
    "ef_inv ret'" "ef_evs ret' = ef_evs ret @ (if of_channel fi e then [(de_ts e, de_value e)] else [])"
    "same_track ec ec'"
proof -
  obtain pulse blob st be sh cm where v: "de_value e = (pulse, blob, st, be, sh, cm)" by (cases "de_value e")
  have pb: "pulse = de_pulse e" "blob = de_blob e" using v by (simp_all add: de_value_def)
  have cm: "cm \<noteq> None \<longrightarrow> 8 \<le> length blob" using v assms(1) by (auto simp: de_value_def disk_event_ok_def)
  let ?r = "ef_push (de_ts e) pulse blob st be sh cm ret"
  let ?d = "ef_shape_derived (ef_push (de_ts e) pulse blob st be sh cm ef_empty) 0 (sf_scalar_type fi) (sf_shape fi)"
  obtain d where d: "?d = Some d" using shape_derived_no_panic [OF cm] by blast
  have dr: "ef_shape_derived ?r (ef_len ?r - 1) (sf_scalar_type fi) (sf_shape fi) = Some d"
    using shape_derived_last [OF assms(3) refl] d by metis
  have ch: "of_channel fi e \<longleftrightarrow> d = Inr (sf_shape fi)"
    using assms(4,5) d by (simp add: of_channel_def ef_single_def v)
  note eval = push_event_def Let_def value_info_def v assms(2) pb [symmetric]
  note inv = ef_push_evs [OF assms(3), of "de_ts e" pulse blob st be sh cm]
  show ?thesis
  proof (cases "of_channel fi e")
    case True
    then show ?thesis using dr inv v ch
      by (intro that [of ?r logs ec]) (simp_all add: eval same_track_def)
  next
    case False
    show ?thesis
    proof (cases d)
      case (Inl err)
      with False dr inv ch show ?thesis
        by (intro that [of "ef_pop_back ?r" "logs @ [lg (ShapeDerivedError err)]"
              "ec\<lparr>ec_discard_count_shape_derived_err := ec_discard_count_shape_derived_err ec + 1\<rparr>"])
          (simp_all add: eval assms(3) same_conf_def same_track_def)
    next
      case (Inr sh')
      with False dr inv ch show ?thesis
        by (intro that [of "ef_pop_back ?r" "logs @ [lg (ShapeDerivedMismatch sh')]"
              "ec\<lparr>ec_discard_count_shape_derived := ec_discard_count_shape_derived ec + 1\<rparr>"])
          (simp_all add: eval assms(3) same_conf_def same_track_def)
    qed
  qed
qed

lemma checks:
  assumes "check_after_range (de_ts e) (check_order (de_ts e) ec) = (d, ec')"
  shows "d \<longleftrightarrow> de_ts e < ec_last_ts ec \<or> beyond (ec_range ec) e"
    "ec_fetch_info ec' = ec_fetch_info ec" "ec_range ec' = ec_range ec"
    "same_conf ec ec'" "ec_state ec' = ec_state ec" "ec_last_ts ec' = de_ts e"
    "ec_seen_beyond_range ec' = (ec_seen_beyond_range ec \<or> beyond (ec_range ec) e)"
    "ec_seen_after_range_count ec' = ec_seen_after_range_count ec + (if beyond (ec_range ec) e then 1 else 0)"
    "ec_seen_before_range_count ec' = ec_seen_before_range_count ec"
    "ec_data_emit_complete ec' = (ec_data_emit_complete ec \<or> beyond (ec_range ec) e \<and> ec_seen_after_range_count ec > 0)"
  using assms by (auto simp: check_after_range_def check_order_def Let_def same_conf_def beyond_def split: if_splits)

lemma check_before_ok:
  assumes "ahead (ec_range ec) e \<longrightarrow> ec_seen_before_range_count ec < 100"
  obtains ec' where "check_before_range lg (de_ts e) pulse ec = Some (Inr (), ec')"
    "same_conf ec ec'" "ec_state ec' = ec_state ec" "ec_last_ts ec' = ec_last_ts ec"
    "ec_seen_beyond_range ec' = ec_seen_beyond_range ec" "ec_seen_after_range_count ec' = ec_seen_after_range_count ec"
    "ec_seen_before_range_count ec' = ec_seen_before_range_count ec + (if ahead (ec_range ec) e then 1 else 0)"
    "ec_data_emit_complete ec' = ec_data_emit_complete ec"
proof (cases "ahead (ec_range ec) e")
  case True
  then show ?thesis using assms that by (simp add: check_before_range_def ahead_def Let_def same_conf_def)
next
  case False
  then show ?thesis using that [of ec] by (simp add: check_before_range_def ahead_def)
qed

text \<open>The length of the next event is complete, and the rest may not be.\<close>

lemma event_len_read:
  assumes "4 \<le> length buf" and "prefix buf (event_bytes e @ rst)"
  shows "read_be 4 buf 0 = Some (of_nat (de_len e) :: u32, 4)"
proof -
  obtain zs where "event_bytes e @ rst = buf @ zs" using assms(2) by (auto simp: prefix_def)
  then have "take 4 buf = take 4 (event_bytes e @ rst)" using assms(1) by simp
  then have "take 4 buf = to_be 4 (of_nat (de_len e) :: u32)" by (simp add: event_bytes_def Let_def)
  then have "buf = to_be 4 (of_nat (de_len e) :: u32) @ drop 4 buf" by (metis append_take_drop_id)
  then have "at buf 0 (to_be 4 (of_nat (de_len e) :: u32) @ drop 4 buf)" using at_start [of buf] by simp
  from read_be_at(1) [OF this] show ?thesis by simp
qed

lemma parse_event_partial:
  assumes ok: "disk_event_ok fi e" and fi: "ec_fetch_info ec = fi" and ev: "ec_state ec = Event"
    and buf: "4 \<le> length buf" "prefix buf (event_bytes e @ rst)" "length buf < de_len e"
  shows "parse_step lg buf rl ec = Some (Inr None, ec\<lparr>ec_need_min := of_nat (de_len e)\<rparr>)"
proof -
  note b = de_len_bounds [OF ok]
  have "unat (of_nat (length buf) :: u32) = length buf" using b(2) buf(3) by (simp add: unat_of_nat)
  then have "(of_nat (length buf) :: u32) < of_nat (de_len e)" using b(3) buf(3) by (simp add: word_less_nat_alt)
  then show ?thesis
    using b ev fi by (simp add: parse_step_def parse_event_at_def event_len_read [OF buf(1,2)])
qed

lemma store_event_ok:
  assumes ok: "disk_event_ok fi e" and fi: "ec_fetch_info ec = fi" and ret: "ef_inv ret"
    and blob: "slice buf p (p + length (de_blob e)) = Some (de_blob e)" and p: "de_len e = p + length (de_blob e) + 4"
  obtains ret' logs' ec' where
    "store_event lg buf (of_nat (de_len e)) (de_ts e) (de_pulse e) (ret, logs) (d \<or> de_shape e = None) (value_info e p) ec =
       Some (Inr (Some (de_len e, ret', logs')), ec')"
    "same_track ec ec'" "ec_need_min ec' = 4" "ef_inv ret'"
    "ef_evs ret' = ef_evs ret @ (if \<not> d \<and> of_channel fi e then [(de_ts e, de_value e)] else [])"
proof -
  note b = de_len_bounds [OF ok]
  obtain st where st: "from_dtype_index (de_type_index e) = Inr st"
    using ok by (cases "from_dtype_index (de_type_index e)") (simp_all add: disk_event_ok_def)
  have vi: "vi_scalar_type (value_info e p) = st" "vi_pos (value_info e p) = p" by (simp_all add: value_info_def de_value_def st)
  have n2: "usize_add p (usize_sub (usize_sub (de_len e) p) 4) = p + length (de_blob e)" using p b(2) by simp
  note eval = store_event_def Let_def vi b(3) n2 blob fi
  let ?ec = "ec\<lparr>ec_discard_count_scalar_type := ec_discard_count_scalar_type ec + 1\<rparr>"
  consider "sf_scalar_type fi \<noteq> st" | "sf_scalar_type fi = st" "d \<or> de_shape e = None"
    | "sf_scalar_type fi = st" "\<not> d" "de_shape e \<noteq> None" by blast
  then show ?thesis
  proof cases
    case 1
    then have "\<not> of_channel fi e" using st by (auto simp: of_channel_def)
    with 1 show ?thesis
      by (intro that [of ret "logs @ [lg (ScalarTypeMismatch st)]" "?ec\<lparr>ec_need_min := 4\<rparr>"])
        (simp_all add: eval ret same_track_def same_conf_def)
  next
    case 2
    then have "\<not> (\<not> d \<and> of_channel fi e)" by (auto simp: of_channel_def)
    with 2 show ?thesis
      by (intro that [of ret logs "ec\<lparr>ec_need_min := 4\<rparr>"]) (simp_all add: eval ret same_track_def same_conf_def)
  next
    case 3
    then obtain ret' logs' ec' where
      "push_event lg (de_ts e) (de_pulse e) (de_blob e) (value_info e p) (ret, logs, ec) = Some (ret', logs', ec')"
      "ef_inv ret'" "ef_evs ret' = ef_evs ret @ (if of_channel fi e then [(de_ts e, de_value e)] else [])"
      "same_track ec ec'"
      using push_event_ok [OF ok fi ret] st by metis
    moreover obtain sh where "de_shape e = Some sh" using 3(3) by blast
    ultimately show ?thesis using 3
      by (intro that [of ret' logs' "ec'\<lparr>ec_need_min := 4\<rparr>"]) (simp_all add: eval same_track_def same_conf_def)
  qed
qed

text \<open>The head of an event with any length \<open>L\<close> that passes the checks.\<close>

lemma parse_event_stored:
  assumes ok: "disk_event_ok fi e" and fi: "ec_fetch_info ec = fi" and ev: "ec_state ec = Event"
    and bef: "ahead (ec_range ec) e \<longrightarrow> ec_seen_before_range_count ec < 100"
    and buf: "buf = to_be 4 L @ de_head e @ ys" "length buf < 2 ^ 32" "unat L \<le> length buf"
    and L: "\<not> sint L < 20" "\<not> event_too_long (sf_shape fi) L"
  shows "if beyond (ec_range ec) e \<and> ec_seen_after_range_count ec > 0
     then \<exists>ec'. parse_step lg buf (ret, logs) ec = Some (Inr None, ec') \<and> ec_need_min ec' = ec_need_min ec \<and>
       same_conf ec ec' \<and> ec_data_emit_complete ec' \<and> ec_seen_beyond_range ec'
     else \<exists>ec'. parse_step lg buf (ret, logs) ec =
         store_event lg buf L (de_ts e) (de_pulse e) (ret, logs)
           ((de_ts e < ec_last_ts ec \<or> beyond (ec_range ec) e) \<or> de_shape e = None)
           (value_info e (4 + length (de_head e))) ec' \<and>
       after_event e ec ec' \<and> ec_fetch_info ec' = fi"
proof -
  have "unat (of_nat (length buf) :: u32) = length buf" using buf(2) by (simp add: unat_of_nat)
  then have len: "\<not> (of_nat (length buf) :: u32) < L" using buf(3) by (simp add: word_less_nat_alt)
  have at: "at buf 0 (to_be 4 L @ to_be 8 (de_ttl e) @ to_be 8 (de_ts e) @ to_be 8 (de_pulse e) @ de_info e @ ys)"
    by (simp add: at_def buf(1) de_head_def de_times_def)
  define p1 p2 p3 p4 where p: "p1 = 0 + (4 :: nat)" "p2 = p1 + 8" "p3 = p2 + 8" "p4 = p3 + 8"
  note r1 = read_be_at [OF at, folded p, simplified]
  note r2 = read_be_at [OF r1(2), folded p, simplified]
  note r3 = read_be_at [OF r2(2), folded p, simplified]
  note r4 = read_be_at [OF r3(2), folded p, simplified]
  obtain d ec1 where c: "check_after_range (de_ts e) (check_order (de_ts e) (ec\<lparr>ec_seen_events := ec_seen_events ec + 1\<rparr>)) = (d, ec1)"
    by (cases "check_after_range (de_ts e) (check_order (de_ts e) (ec\<lparr>ec_seen_events := ec_seen_events ec + 1\<rparr>))")
  note C = checks [OF c, simplified]
  have same1: "same_conf ec ec1" using C by (simp add: same_conf_def)
  have rng: "ec_range ec1 = ec_range ec" and fi1: "ec_fetch_info ec1 = fi" using same1 fi by (simp_all add: same_conf_def)
  have start: "parse_step lg buf (ret, logs) ec =
    (if beyond (ec_range ec) e \<and> ec_seen_after_range_count ec1 \<ge> 2 then Some (Inr None, ec1)
     else parse_event_body lg buf L p4 (de_ts e) (de_pulse e) (ret, logs) d ec1)"
    using L fi ev len
    by (simp add: parse_step_def parse_event_at_def r1(1) r2(1) r3(1) r4(1) c [simplified] beyond_def rng)
  show ?thesis
  proof (cases "beyond (ec_range ec) e \<and> ec_seen_after_range_count ec > 0")
    case True
    then have "parse_step lg buf (ret, logs) ec = Some (Inr None, ec1)" using start C by simp
    moreover have "ec_need_min ec1 = ec_need_min ec" using c by (auto simp: check_after_range_def check_order_def Let_def split: if_splits)
    ultimately show ?thesis using True same1 C by simp
  next
    case False
    have s1: "parse_step lg buf (ret, logs) ec = parse_event_body lg buf L p4 (de_ts e) (de_pulse e) (ret, logs) d ec1"
      using start False C by auto
    have "ahead (ec_range ec1) e \<longrightarrow> ec_seen_before_range_count ec1 < 100" using bef C rng by simp
    then obtain ec2 where cb: "check_before_range lg (de_ts e) (de_pulse e) ec1 = Some (Inr (), ec2)"
      and B: "same_conf ec1 ec2" "ec_state ec2 = ec_state ec1" "ec_last_ts ec2 = ec_last_ts ec1"
      "ec_seen_beyond_range ec2 = ec_seen_beyond_range ec1" "ec_seen_after_range_count ec2 = ec_seen_after_range_count ec1"
      "ec_seen_before_range_count ec2 = ec_seen_before_range_count ec1 + (if ahead (ec_range ec1) e then 1 else 0)"
      "ec_data_emit_complete ec2 = ec_data_emit_complete ec1"
      by (rule check_before_ok)
    have fi2: "ec_fetch_info ec2 = fi" using B(1) fi1 by (simp add: same_conf_def)
    define ec3 where "ec3 = (if de_shape e = None then ec2\<lparr>ec_discard_count_shape := ec_discard_count_shape ec2 + 1\<rparr> else ec2)"
    have "same_conf ec ec2" by (rule same_conf_trans [OF same1 B(1)])
    then have "after_event e ec ec2" using B(2-) C(4-) rng by (simp add: after_event_def)
    moreover have "same_track ec2 ec3" by (simp add: same_track_def same_conf_def ec3_def)
    ultimately have A: "after_event e ec ec3" by (rule after_event_track)
    have fi3: "ec_fetch_info ec3 = fi" using fi2 by (simp add: ec3_def)
    have pos: "p4 + length (de_info e) = 4 + length (de_head e)" by (simp add: p de_head_def de_times_def)
    have "parse_step lg buf (ret, logs) ec =
        store_event lg buf L (de_ts e) (de_pulse e) (ret, logs) (d \<or> de_shape e = None) (value_info e (4 + length (de_head e))) ec3"
      using parse_value_info_ok [OF r4(2) ok fi2, of d]
      by (simp add: s1 parse_event_body_def cb ec3_def pos)
    then show ?thesis unfolding if_not_P [OF False] C(1) [symmetric]
      by (intro exI [of _ ec3] conjI) (simp_all only: A fi3)
  qed
qed

lemma parse_event_complete:
  assumes ok: "disk_event_ok fi e" and fi: "ec_fetch_info ec = fi" and ev: "ec_state ec = Event"
    and bef: "ahead (ec_range ec) e \<longrightarrow> ec_seen_before_range_count ec < 100"
    and ret: "ef_inv ret" and buf: "buf = event_bytes e @ rst" "length buf < 2 ^ 32"
  shows "if beyond (ec_range ec) e \<and> ec_seen_after_range_count ec > 0
     then \<exists>ec'. parse_step lg buf (ret, logs) ec = Some (Inr None, ec') \<and> ec_need_min ec' = ec_need_min ec \<and>
       same_conf ec ec' \<and> ec_data_emit_complete ec' \<and> ec_seen_beyond_range ec'
     else \<exists>ret' logs' ec'. parse_step lg buf (ret, logs) ec = Some (Inr (Some (de_len e, ret', logs')), ec') \<and>
       after_event e ec ec' \<and> ec_need_min ec' = 4 \<and> ef_inv ret' \<and>
       ef_evs ret' = ef_evs ret @
         (if ec_last_ts ec \<le> de_ts e \<and> \<not> beyond (ec_range ec) e \<and> of_channel fi e then [(de_ts e, de_value e)] else [])"
proof -
  note b = de_len_bounds [OF ok]
  let ?L = "of_nat (de_len e) :: u32" and ?p = "4 + length (de_head e)"
  have buf1: "buf = to_be 4 ?L @ de_head e @ (de_blob e @ to_be 4 ?L @ rst)" by (simp add: buf(1) event_bytes_def Let_def)
  have le: "unat ?L \<le> length buf" using b(3) buf(1) by simp
  have s20: "\<not> sint ?L < 20" using b(1,4) by simp
  note S = parse_event_stored [OF ok fi ev bef buf1 buf(2) le s20 b(5), of lg ret logs]
  show ?thesis
  proof (cases "beyond (ec_range ec) e \<and> ec_seen_after_range_count ec > 0")
    case True
    then show ?thesis using S by simp
  next
    case False
    let ?d = "de_ts e < ec_last_ts ec \<or> beyond (ec_range ec) e"
    obtain ec3 where s: "parse_step lg buf (ret, logs) ec =
        store_event lg buf ?L (de_ts e) (de_pulse e) (ret, logs) (?d \<or> de_shape e = None) (value_info e ?p) ec3"
      and A: "after_event e ec ec3" "ec_fetch_info ec3 = fi" using S False by auto
    have "at buf ?p (de_blob e @ to_be 4 ?L @ rst)" by (simp add: at_def buf1)
    from at_slice [OF this] have "slice buf ?p (?p + length (de_blob e)) = Some (de_blob e)" .
    moreover have "de_len e = ?p + length (de_blob e) + 4" by (simp add: de_len_def)
    ultimately obtain ret' logs' ec4 where
      "store_event lg buf ?L (de_ts e) (de_pulse e) (ret, logs) (?d \<or> de_shape e = None) (value_info e ?p) ec3 =
        Some (Inr (Some (de_len e, ret', logs')), ec4)"
      "same_track ec3 ec4" "ec_need_min ec4 = 4" "ef_inv ret'"
      "ef_evs ret' = ef_evs ret @ (if \<not> ?d \<and> of_channel fi e then [(de_ts e, de_value e)] else [])"
      by (rule store_event_ok [OF ok A(2) ret])
    then show ?thesis using False after_event_track [OF A(1)] s by (auto simp: not_less)
  qed
qed

end
