(* ===== verification/EventChunkerRun.thy ===== *)
theory EventChunkerRun
  imports EventChunkerCorrect
begin

text \<open>
  The reader over a whole file that arrives in chunks: the parser's loop takes the events that are
  complete in the buffer, the buffer keeps the rest, and the stream yields the events of the channel
  before the end of the range, wherever the chunks were cut.
\<close>

section \<open>The header\<close>

lemma length_header_bytes [simp]: "length (header_bytes name) = length name + 10"
  by (simp add: header_bytes_def Let_def)

lemma header_len:
  assumes "length name \<le> 503"
  shows "unat (of_nat (length name + 8) :: u32) = length name + 8"
    "sint (of_nat (length name + 8) :: u32) = int (length name + 8)"
  using assms by (simp_all add: unat_of_nat signed_of_nat signed_take_bit_int_eq_self del: of_nat_add)

lemma parse_header_partial:
  assumes name: "length name \<le> 503" and st: "ec_state ec = FileHeader"
    and buf: "6 \<le> length buf" "prefix buf (header_bytes name @ rst)" "length buf < length name + 10"
  shows "parse_step lg buf rl ec = Some (Inr None, ec\<lparr>ec_need_min := of_nat (length name + 10)\<rparr>)"
proof -
  let ?L = "of_nat (length name + 8) :: u32"
  obtain zs where "header_bytes name @ rst = buf @ zs" using buf(2) by (auto simp: prefix_def)
  then have "take 6 buf = take 6 (header_bytes name @ rst)" using buf(1) by simp
  also have "\<dots> = to_be 2 (0 :: u16) @ to_be 4 ?L" by (simp add: header_bytes_def Let_def)
  finally have "buf = to_be 2 (0 :: u16) @ to_be 4 ?L @ drop 6 buf" by (metis append_take_drop_id append_assoc)
  then have at: "at buf 0 (to_be 2 (0 :: u16) @ to_be 4 ?L @ drop 6 buf)" using at_start [of buf] by simp
  define L where "L = ?L"
  note l = header_len [OF name, folded L_def]
  have r1: "read_be 2 buf 0 = Some (0 :: u16, 2)" "at buf 2 (to_be 4 L @ drop 6 buf)"
    using read_be_at [OF at [folded L_def]] by (simp_all add: numeral_2_eq_2)
  have r2: "read_be 4 buf 2 = Some (L, 6)" using read_be_at [OF r1(2)] by simp
  show ?thesis
    using l name st buf r1(1) r2(1) by (simp add: parse_step_def parse_file_header_def Let_def)
qed

lemma parse_header_complete:
  assumes name: "length name \<le> 503" and st: "ec_state ec = FileHeader" and buf: "buf = header_bytes name @ rst"
  shows "parse_step lg buf rl ec =
    Some (Inr (Some (length name + 10, rl)), ec\<lparr>ec_state := Event, ec_need_min := 4\<rparr>)"
proof -
  let ?L = "of_nat (length name + 8) :: u32"
  define L where "L = ?L"
  note l = header_len [OF name, folded L_def]
  have at: "at buf 0 (to_be 2 (0 :: u16) @ to_be 4 L @ name @ to_be 4 L @ rst)"
    by (simp add: at_def buf header_bytes_def Let_def L_def)
  have r1: "read_be 2 buf 0 = Some (0 :: u16, 2)" "at buf 2 (to_be 4 L @ name @ to_be 4 L @ rst)"
    using read_be_at [OF at] by (simp_all add: numeral_2_eq_2)
  have r2: "read_be 4 buf 2 = Some (L, 6)" "at buf 6 (name @ to_be 4 L @ rst)"
    using read_be_at [OF r1(2)] by simp_all
  have r3: "read_be 4 buf (6 + length name) = Some (L, 6 + length name + 4)"
    using read_be_at [OF at_append [OF r2(2)]] by simp
  have "length buf \<ge> length name + 10" by (simp add: buf)
  then show ?thesis
    using l name st r1(1) r2(1) r3
    by (simp add: parse_step_def parse_file_header_def cursor_advance_def Let_def slice_def)
qed

section \<open>The loop\<close>

definition kept :: "SfChFetchInfo \<Rightarrow> NanoRange \<Rightarrow> disk_event list \<Rightarrow> ef_value event list" where
  "kept fi rng es = map (\<lambda>e. (de_ts e, de_value e)) (filter (\<lambda>e. \<not> beyond rng e \<and> of_channel fi e) es)"

lemma kept_simps [simp]:
  "kept fi rng [] = []"
  "kept fi rng (e # es) = (if \<not> beyond rng e \<and> of_channel fi e then [(de_ts e, de_value e)] else []) @ kept fi rng es"
  "kept fi rng (es @ es') = kept fi rng es @ kept fi rng es'"
  by (simp_all add: kept_def)

lemma kept_beyond: "\<forall>e \<in> set es. beyond rng e \<Longrightarrow> kept fi rng es = []"
  by (induction es) simp_all

text \<open>The reader is about to read the events \<open>es\<close>, and after them a part of \<open>e0\<close> at most.\<close>

definition reading :: "SfChFetchInfo \<Rightarrow> NanoRange \<Rightarrow> disk_event list \<Rightarrow> 'e EventChunker \<Rightarrow> bool" where
  "reading fi rng es ec \<longleftrightarrow>
     ec_fetch_info ec = fi \<and> ec_range ec = rng \<and> \<not> ec_data_emit_complete ec \<and>
     sorted (ec_last_ts ec # map de_ts es) \<and>
     ec_seen_after_range_count ec = (if ec_seen_beyond_range ec then 1 else 0) \<and>
     ec_seen_before_range_count ec + length (filter (ahead rng) es) \<le> 100 \<and>
     (\<forall>e \<in> set es. disk_event_ok fi e)"

definition need_in :: "'e EventChunker \<Rightarrow> nat \<Rightarrow> bool" where
  "need_in ec n \<longleftrightarrow> 4 \<le> unat (ec_need_min ec) \<and> unat (ec_need_min ec) \<le> n"

lemma reading_step:
  assumes "reading fi rng (e # es) ec" and "after_event e ec ec'" and "\<not> (beyond rng e \<and> ec_seen_after_range_count ec > 0)"
  shows "reading fi rng es ec'"
  using assms by (auto simp: reading_def after_event_def same_conf_def split: if_splits)

lemma of_nat_less_u32: "n < 2 ^ 32 \<Longrightarrow> (of_nat n :: u32) < w \<longleftrightarrow> n < unat w"
  by (simp add: word_less_nat_alt unat_of_nat)

definition loop_done ::
    "SfChFetchInfo \<Rightarrow> NanoRange \<Rightarrow> disk_event list \<Rightarrow> 'e EventChunker \<Rightarrow> EventFull \<Rightarrow> EventFull \<Rightarrow> 'e EventChunker \<Rightarrow> bool" where
  "loop_done fi rng es ec ret ret' ec' \<longleftrightarrow>
     ec_data_emit_complete ec' \<and> ec_seen_beyond_range ec' \<and> (\<exists>e \<in> set es. beyond rng e) \<and>
     ef_evs ret' = ef_evs ret @ kept fi rng es"

definition loop_waits ::
    "SfChFetchInfo \<Rightarrow> NanoRange \<Rightarrow> disk_event \<Rightarrow> bytes \<Rightarrow> disk_event list \<Rightarrow> 'e EventChunker \<Rightarrow> EventFull \<Rightarrow>
      bytes \<Rightarrow> EventFull \<Rightarrow> 'e EventChunker \<Rightarrow> bool" where
  "loop_waits fi rng e0 tail es ec ret rest ret' ec' \<longleftrightarrow>
     (\<exists>es1 es2. es = es1 @ es2 \<and> reading fi rng es2 ec' \<and> ec_state ec' = Event \<and>
        rest = concat (map event_bytes es2) @ tail \<and> ef_evs ret' = ef_evs ret @ kept fi rng es1 \<and>
        ec_seen_beyond_range ec' = (ec_seen_beyond_range ec \<or> (\<exists>e \<in> set es1. beyond rng e)) \<and>
        need_in ec' (de_len (hd (es2 @ [e0]))))"

lemma loop_waits_here:
  assumes "reading fi rng es ec'" and "ec_state ec' = Event" and "rest = concat (map event_bytes es) @ tail"
    and "ec_seen_beyond_range ec' = ec_seen_beyond_range ec" and "need_in ec' (de_len (hd (es @ [e0])))"
  shows "loop_waits fi rng e0 tail es ec ret rest ret ec'"
  unfolding loop_waits_def using assms by (intro exI [of _ "[]"] exI [of _ es]) simp

lemma loop_waits_now:
  assumes R: "reading fi rng es ec" and ev: "ec_state ec = Event" and ret: "ef_inv ret"
    and cut: "buf @ later = concat (map event_bytes es) @ tail" and small: "length buf < 2 ^ 32"
    and e0: "disk_event_ok fi e0" "strict_prefix tail (event_bytes e0)"
    and need: "need_in ec (de_len (hd (es @ [e0])))" and short: "length buf < de_len (hd (es @ [e0]))"
  shows "\<exists>ec'. parse_loop lg buf (ret, logs) pb ec =
      Some (Inr (\<lparr>pr_events = ret, pr_parsed_bytes = pb\<rparr>, logs), buf, ec') \<and>
    same_conf ec ec' \<and> need_in ec' (need_limit (sf_shape fi)) \<and>
    loop_waits fi rng e0 tail es ec ret (buf @ later) ret ec' \<and> length buf < unat (ec_need_min ec')"
proof -
  let ?e = "hd (es @ [e0])"
  have ok: "disk_event_ok fi ?e" using R e0(1) by (cases es) (simp_all add: reading_def)
  note b = de_len_bounds [OF ok]
  have lim: "de_len ?e \<le> need_limit (sf_shape fi)" using ok by (simp add: disk_event_ok_def)
  show ?thesis
  proof (cases "length buf < unat (ec_need_min ec)")
    case True
    then have "(of_nat (length buf) :: u32) < ec_need_min ec" using of_nat_less_u32 [OF small] by simp
    then have "parse_loop lg buf (ret, logs) pb ec = Some (Inr (\<lparr>pr_events = ret, pr_parsed_bytes = pb\<rparr>, logs), buf, ec)"
      by (subst parse_loop.simps) (simp add: Let_def)
    moreover have "need_in ec (need_limit (sf_shape fi))" using need lim by (simp add: need_in_def)
    moreover note loop_waits_here [OF R ev cut refl need, of ret] same_conf_refl [of ec]
    ultimately show ?thesis using True by blast
  next
    case False
    then have nb: "\<not> (of_nat (length buf) :: u32) < ec_need_min ec" using of_nat_less_u32 [OF small] by simp
    have four: "4 \<le> length buf" using False need by (simp add: need_in_def)
    have "\<exists>rst. prefix buf (event_bytes ?e @ rst)"
    proof (cases es)
      case Nil
      then have "prefix buf tail" using cut by (auto simp: prefix_def)
      then have "prefix buf (event_bytes e0 @ [])" using e0(2) by (auto simp: strict_prefix_def)
      then show ?thesis using Nil by auto
    next
      case (Cons e es')
      then have "event_bytes e @ concat (map event_bytes es') @ tail = buf @ later" using cut by simp
      then have "prefix buf (event_bytes e @ concat (map event_bytes es') @ tail)" unfolding prefix_def ..
      then show ?thesis using Cons by auto
    qed
    then obtain rst where pre: "prefix buf (event_bytes ?e @ rst)" by blast
    have fi: "ec_fetch_info ec = fi" using R by (simp add: reading_def)
    let ?ec = "ec\<lparr>ec_need_min := of_nat (de_len ?e)\<rparr>"
    have "parse_loop lg buf (ret, logs) pb ec = Some (Inr (\<lparr>pr_events = ret, pr_parsed_bytes = pb\<rparr>, logs), buf, ?ec)"
      using nb by (subst parse_loop.simps) (simp add: parse_event_partial [OF ok fi ev four pre short] Let_def)
    moreover have "same_conf ec ?ec" by (simp add: same_conf_def)
    moreover have "need_in ?ec (de_len ?e)" using b by (simp add: need_in_def)
    moreover have "need_in ?ec (need_limit (sf_shape fi))" using b lim by (simp add: need_in_def)
    moreover have "length buf < unat (ec_need_min ?ec)" using b(3) short by simp
    moreover have "loop_waits fi rng e0 tail es ec ret (buf @ later) ret ?ec"
      by (rule loop_waits_here) (use R ev cut b in \<open>simp_all add: reading_def need_in_def\<close>)
    ultimately show ?thesis by blast
  qed
qed

lemma loop_events:
  assumes "reading fi rng es ec" and "ec_state ec = Event" and "ef_inv ret"
    and "buf @ later = concat (map event_bytes es) @ tail" and "length buf < 2 ^ 32"
    and e0: "disk_event_ok fi e0" "strict_prefix tail (event_bytes e0)"
    and "need_in ec (de_len (hd (es @ [e0])))"
  shows "\<exists>ret' logs' pb' rest ec'.
    parse_loop lg buf (ret, logs) pb ec = Some (Inr (\<lparr>pr_events = ret', pr_parsed_bytes = pb'\<rparr>, logs'), rest, ec') \<and>
    same_conf ec ec' \<and> ef_inv ret' \<and> need_in ec' (need_limit (sf_shape fi)) \<and>
    (loop_done fi rng es ec ret ret' ec' \<or>
     loop_waits fi rng e0 tail es ec ret (rest @ later) ret' ec' \<and> length rest < unat (ec_need_min ec'))"
  using assms(1-5,8)
proof (induction es arbitrary: buf ret logs pb ec)
  case Nil
  have "length buf \<le> length tail" using Nil.prems(4) by (metis append_Nil concat.simps(1) length_append le_add1 list.simps(8))
  then have "length buf < de_len (hd ([] @ [e0]))" using prefix_length_less [OF e0(2)] by simp
  from loop_waits_now [OF Nil.prems(1-5) e0 Nil.prems(6) this] Nil.prems(3) show ?case by blast
next
  case (Cons e es)
  show ?case
  proof (cases "length buf < de_len e")
    case True
    then have "length buf < de_len (hd ((e # es) @ [e0]))" by simp
    from loop_waits_now [OF Cons.prems(1-5) e0 Cons.prems(6) this] Cons.prems(3) show ?thesis by blast
  next
    case False
    have R: "ec_fetch_info ec = fi" "ec_range ec = rng" "disk_event_ok fi e" "ec_last_ts ec \<le> de_ts e"
      "ahead (ec_range ec) e \<longrightarrow> ec_seen_before_range_count ec < 100"
      "\<forall>x \<in> set es. de_ts e \<le> de_ts x"
      using Cons.prems(1) by (auto simp: reading_def)
    note b = de_len_bounds [OF R(3)]
    obtain buf' where buf: "buf = event_bytes e @ buf'" and buf': "buf' @ later = concat (map event_bytes es) @ tail"
    proof
      have "take (de_len e) (buf @ later) = event_bytes e" using Cons.prems(4) by simp
      then have "take (de_len e) buf = event_bytes e" using False by simp
      then show "buf = event_bytes e @ drop (de_len e) buf" by (metis append_take_drop_id)
      have "drop (de_len e) (buf @ later) = concat (map event_bytes es) @ tail" using Cons.prems(4) by simp
      then show "drop (de_len e) buf @ later = concat (map event_bytes es) @ tail" using False by simp
    qed
    have nb: "\<not> (of_nat (length buf) :: u32) < ec_need_min ec"
      using Cons.prems(6) False of_nat_less_u32 [OF Cons.prems(5)] by (simp add: need_in_def)
    note step = parse_event_complete [OF R(3,1) Cons.prems(2) R(5) Cons.prems(3) buf Cons.prems(5)]
    show ?thesis
    proof (cases "beyond (ec_range ec) e \<and> ec_seen_after_range_count ec > 0")
      case True
      then obtain ec' where s1: "parse_step lg buf (ret, logs) ec = Some (Inr None, ec')"
        and E: "ec_need_min ec' = ec_need_min ec" "same_conf ec ec'" "ec_data_emit_complete ec'" "ec_seen_beyond_range ec'"
        using step [of lg logs] by auto
      have "\<forall>x \<in> set (e # es). beyond rng x" using True R by (auto simp: beyond_def)
      then have "kept fi rng (e # es) = []" by (rule kept_beyond)
      moreover have "beyond rng e" using True R by simp
      ultimately have "loop_done fi rng (e # es) ec ret ret ec'" unfolding loop_done_def using E by simp
      moreover have "need_in ec' (need_limit (sf_shape fi))"
        using Cons.prems(6) E R(3) by (simp add: need_in_def disk_event_ok_def)
      moreover have "parse_loop lg buf (ret, logs) pb ec = Some (Inr (\<lparr>pr_events = ret, pr_parsed_bytes = pb\<rparr>, logs), buf, ec')"
        using nb by (subst parse_loop.simps) (simp add: s1 Let_def)
      ultimately show ?thesis using E(2) Cons.prems(3) by blast
    next
      case False
      then obtain ret1 logs1 ec1 where s1: "parse_step lg buf (ret, logs) ec = Some (Inr (Some (de_len e, ret1, logs1)), ec1)"
        and E: "after_event e ec ec1" "ec_need_min ec1 = 4" "ef_inv ret1"
        "ef_evs ret1 = ef_evs ret @ (if ec_last_ts ec \<le> de_ts e \<and> \<not> beyond (ec_range ec) e \<and> of_channel fi e then [(de_ts e, de_value e)] else [])"
        using step [of lg logs] by auto
      have "drop (de_len e) buf = buf'" by (simp add: buf)
      then have L: "parse_loop lg buf (ret, logs) pb ec = parse_loop lg buf' (ret1, logs1) (pb + of_nat (de_len e)) ec1"
        using nb by (subst parse_loop.simps) (simp add: s1 Let_def)
      have R1: "reading fi rng es ec1"
        by (rule reading_step [OF Cons.prems(1) E(1)]) (use False R in simp)
      have ev1: "ec_state ec1 = Event" and same: "same_conf ec ec1"
        and seen: "ec_seen_beyond_range ec1 = (ec_seen_beyond_range ec \<or> beyond rng e)"
        using E(1) Cons.prems(2) R(2) by (simp_all add: after_event_def)
      have "disk_event_ok fi (hd (es @ [e0]))" using R1 e0(1) by (cases es) (simp_all add: reading_def)
      then have n1: "need_in ec1 (de_len (hd (es @ [e0])))"
        using de_len_bounds(1) [of fi "hd (es @ [e0])"] by (simp add: need_in_def E(2))
      have "length buf' < 2 ^ 32" using Cons.prems(5) buf by simp
      from Cons.IH [OF R1 ev1 E(3) buf' this n1, of logs1 "pb + of_nat (de_len e)"]
      obtain ret' logs' pb' rest ec' where
        r: "parse_loop lg buf' (ret1, logs1) (pb + of_nat (de_len e)) ec1 =
            Some (Inr (\<lparr>pr_events = ret', pr_parsed_bytes = pb'\<rparr>, logs'), rest, ec')"
        and F: "same_conf ec1 ec'" "ef_inv ret'" "need_in ec' (need_limit (sf_shape fi))"
        "loop_done fi rng es ec1 ret1 ret' ec' \<or>
         loop_waits fi rng e0 tail es ec1 ret1 (rest @ later) ret' ec' \<and> length rest < unat (ec_need_min ec')" by blast
      have K: "ef_evs ret1 = ef_evs ret @ kept fi rng [e]" using E(4) R(2,4) by simp
      have "loop_done fi rng (e # es) ec ret ret' ec'" if "loop_done fi rng es ec1 ret1 ret' ec'"
        using that K by (auto simp: loop_done_def)
      moreover have "loop_waits fi rng e0 tail (e # es) ec ret (rest @ later) ret' ec'"
        if w: "loop_waits fi rng e0 tail es ec1 ret1 (rest @ later) ret' ec'"
      proof -
        obtain es1 es2 where "es = es1 @ es2" "reading fi rng es2 ec'" "ec_state ec' = Event"
          "rest @ later = concat (map event_bytes es2) @ tail" "ef_evs ret' = ef_evs ret1 @ kept fi rng es1"
          "ec_seen_beyond_range ec' = (ec_seen_beyond_range ec1 \<or> (\<exists>e \<in> set es1. beyond rng e))"
          "need_in ec' (de_len (hd (es2 @ [e0])))" using w by (auto simp: loop_waits_def)
        then show ?thesis unfolding loop_waits_def using K seen
          by (intro exI [of _ "e # es1"] exI [of _ es2]) auto
      qed
      ultimately show ?thesis using r L F same_conf_trans [OF same F(1)]
        by (intro exI [of _ ret'] exI [of _ logs'] exI [of _ pb'] exI [of _ rest] exI [of _ ec']) auto
    qed
  qed
qed

section \<open>The file\<close>

text \<open>What is still to be read: the header, if the reader has not seen it, the events, and the part of an event at the end.\<close>

definition to_read :: "bytes \<Rightarrow> disk_event list \<Rightarrow> bytes \<Rightarrow> 'e EventChunker \<Rightarrow> bytes" where
  "to_read name es tail ec =
     (if ec_state ec = FileHeader then header_bytes name else []) @ concat (map event_bytes es) @ tail"

definition need_ok :: "bytes \<Rightarrow> disk_event list \<Rightarrow> disk_event \<Rightarrow> 'e EventChunker \<Rightarrow> bool" where
  "need_ok name es e0 ec \<longleftrightarrow>
     (ec_state ec = FileHeader \<longrightarrow> 6 \<le> unat (ec_need_min ec) \<and> unat (ec_need_min ec) \<le> length name + 10) \<and>
     (ec_state ec \<noteq> FileHeader \<longrightarrow> need_in ec (de_len (hd (es @ [e0]))))"

definition file_waits ::
    "SfChFetchInfo \<Rightarrow> NanoRange \<Rightarrow> bytes \<Rightarrow> disk_event \<Rightarrow> bytes \<Rightarrow> disk_event list \<Rightarrow> 'e EventChunker \<Rightarrow>
      bytes \<Rightarrow> EventFull \<Rightarrow> 'e EventChunker \<Rightarrow> bool" where
  "file_waits fi rng name e0 tail es ec rest ret' ec' \<longleftrightarrow>
     (\<exists>es1 es2. es = es1 @ es2 \<and> reading fi rng es2 ec' \<and> rest = to_read name es2 tail ec' \<and>
        ef_evs ret' = kept fi rng es1 \<and>
        ec_seen_beyond_range ec' = (ec_seen_beyond_range ec \<or> (\<exists>e \<in> set es1. beyond rng e)) \<and>
        need_ok name es2 e0 ec')"

lemma need_limit_ge: "16384 \<le> need_limit sh"
  by (simp add: need_limit_def split: Shape.split)

lemma need_limit_le: "need_limit sh \<le> 83886080"
  by (simp add: need_limit_def split: Shape.split)

lemma waits_file:
  assumes "loop_waits fi rng e0 tail es ec1 ef_empty rest ret' ec'" and "ec_seen_beyond_range ec1 = ec_seen_beyond_range ec"
  shows "file_waits fi rng name e0 tail es ec rest ret' ec'"
  using assms by (auto simp: loop_waits_def file_waits_def to_read_def need_ok_def)

lemma parse_file:
  assumes R: "reading fi rng es ec" and name: "length name \<le> 503"
    and cut: "buf @ later = to_read name es tail ec" and small: "length buf < 2 ^ 32"
    and e0: "disk_event_ok fi e0" "strict_prefix tail (event_bytes e0)"
    and need: "need_ok name es e0 ec"
  shows "\<exists>ret' logs' pb' rest ec'.
    parse_buf lg buf ec = Some (Inr (\<lparr>pr_events = ret', pr_parsed_bytes = pb'\<rparr>, logs'), rest, ec') \<and>
    same_conf ec ec' \<and> ef_inv ret' \<and> unat (ec_need_min ec') \<le> need_limit (sf_shape fi) \<and>
    (loop_done fi rng es ec ef_empty ret' ec' \<or>
     file_waits fi rng name e0 tail es ec (rest @ later) ret' ec' \<and> length rest < unat (ec_need_min ec'))"
proof (cases "ec_state ec")
  case Event
  then have "buf @ later = concat (map event_bytes es) @ tail" "need_in ec (de_len (hd (es @ [e0])))"
    using cut need by (simp_all add: to_read_def need_ok_def)
  from loop_events [OF R Event ef_evs_empty(1) this(1) small e0 this(2), of lg "[]" 0]
  show ?thesis unfolding parse_buf_def by (auto simp: need_in_def dest: waits_file [OF _ refl])
next
  case FileHeader
  have lim: "length name + 10 \<le> need_limit (sf_shape fi)" using name need_limit_ge [of "sf_shape fi"] by linarith
  have cut: "buf @ later = header_bytes name @ concat (map event_bytes es) @ tail"
    and need: "6 \<le> unat (ec_need_min ec)" "unat (ec_need_min ec) \<le> length name + 10"
    using cut need FileHeader by (simp_all add: to_read_def need_ok_def)
  have wait: "file_waits fi rng name e0 tail es ec (buf @ later) ef_empty ec'"
    if "reading fi rng es ec'" "ec_state ec' = FileHeader" "ec_seen_beyond_range ec' = ec_seen_beyond_range ec"
      "6 \<le> unat (ec_need_min ec')" "unat (ec_need_min ec') \<le> length name + 10" for ec' :: "'a EventChunker"
    unfolding file_waits_def using that cut
    by (intro exI [of _ "[]"] exI [of _ es]) (simp add: to_read_def need_ok_def)
  consider "length buf < unat (ec_need_min ec)" | "unat (ec_need_min ec) \<le> length buf" "length buf < length name + 10"
    | "length name + 10 \<le> length buf" by linarith
  then show ?thesis
  proof cases
    case 1
    then have "parse_buf lg buf ec = Some (Inr (\<lparr>pr_events = ef_empty, pr_parsed_bytes = 0\<rparr>, []), buf, ec)"
      using of_nat_less_u32 [OF small] unfolding parse_buf_def by (subst parse_loop.simps) (simp add: Let_def)
    moreover note wait [OF R FileHeader refl need] same_conf_refl [of ec] ef_evs_empty(1)
    ultimately show ?thesis using 1 need lim by (intro exI conjI disjI2) (assumption | simp)+
  next
    case 2
    let ?ec = "ec\<lparr>ec_need_min := of_nat (length name + 10)\<rparr>"
    have n: "unat (ec_need_min ?ec) = length name + 10" using name by (simp add: unat_of_nat del: of_nat_add)
    have "header_bytes name @ concat (map event_bytes es) @ tail = buf @ later" using cut by simp
    then have "prefix buf (header_bytes name @ concat (map event_bytes es) @ tail)" unfolding prefix_def ..
    moreover have "6 \<le> length buf" using 2(1) need(1) by simp
    ultimately have "parse_buf lg buf ec = Some (Inr (\<lparr>pr_events = ef_empty, pr_parsed_bytes = 0\<rparr>, []), buf, ?ec)"
      using 2 of_nat_less_u32 [OF small] unfolding parse_buf_def
      by (subst parse_loop.simps) (simp add: parse_header_partial [OF name FileHeader _ _ 2(2)] Let_def)
    moreover have "file_waits fi rng name e0 tail es ec (buf @ later) ef_empty ?ec"
      by (rule wait) (use R FileHeader n in \<open>simp_all add: reading_def\<close>)
    moreover have "same_conf ec ?ec" by (simp add: same_conf_def)
    ultimately show ?thesis using 2(2) n lim ef_evs_empty(1) by (intro exI conjI disjI2) (assumption | simp)+
  next
    case 3
    let ?ec = "ec\<lparr>ec_state := Event, ec_need_min := 4\<rparr>"
    let ?buf = "drop (length name + 10) buf" and ?pb = "0 + of_nat (length name + 10) :: u64"
    have buf: "buf = header_bytes name @ ?buf"
    proof -
      have "take (length name + 10) (buf @ later) = header_bytes name" by (simp only: cut) simp
      then have "take (length name + 10) buf = header_bytes name" using 3 by simp
      then show ?thesis by (metis append_take_drop_id)
    qed
    have cut': "?buf @ later = concat (map event_bytes es) @ tail"
      using cut by (subst (asm) buf) simp
    have "parse_buf lg buf ec = parse_loop lg ?buf (ef_empty, []) ?pb ?ec"
      using 3 need of_nat_less_u32 [OF small] unfolding parse_buf_def
      by (subst parse_loop.simps) (simp add: parse_header_complete [OF name FileHeader buf] Let_def)
    moreover have R': "reading fi rng es ?ec" "ec_state ?ec = Event" "length ?buf < 2 ^ 32"
      using R small by (simp_all add: reading_def)
    moreover have "need_in ?ec (de_len (hd (es @ [e0])))"
      using R e0(1) de_len_bounds(1) [of fi "hd (es @ [e0])"] by (cases es) (simp_all add: need_in_def reading_def)
    note loop_events [OF R'(1,2) ef_evs_empty(1) cut' R'(3) e0 this, of lg "[]" ?pb]
    moreover have "same_conf ec ec'" if "same_conf ?ec ec'" for ec' using that by (simp add: same_conf_def)
    moreover have "loop_done fi rng es ec ef_empty ret' ec'" if "loop_done fi rng es ?ec ef_empty ret' ec'" for ret' ec'
      using that by (simp add: loop_done_def)
    ultimately show ?thesis by (auto simp: need_in_def dest: waits_file [where ec = ec])
  qed
qed

section \<open>Chunks\<close>

text \<open>The bytes a buffer holds, and those its input will bring.\<close>

definition left_bytes :: "FileChunkRead option \<Rightarrow> bytes" where
  "left_bytes l = (case l of Some f \<Rightarrow> fc_buf f | None \<Rightarrow> [])"

fun chunk_bytes :: "('e, FileChunkRead) result poll list \<Rightarrow> bytes" where
  "chunk_bytes [] = []"
| "chunk_bytes (Ready (Inr f) # xs) = fc_buf f @ chunk_bytes xs"
| "chunk_bytes (_ # xs) = chunk_bytes xs"

text \<open>No error, and no chunk of 2 GiB or more.\<close>

fun chunks_ok :: "('e, FileChunkRead) result poll list \<Rightarrow> bool" where
  "chunks_ok [] = True"
| "chunks_ok (Ready (Inr f) # xs) = (length (fc_buf f) < 2 ^ 31 \<and> chunks_ok xs)"
| "chunks_ok (Ready (Inl e) # xs) = False"
| "chunks_ok (Pending # xs) = chunks_ok xs"

definition histo_ok :: "HistoLog2 \<Rightarrow> bool" where
  "histo_ok h \<longleftrightarrow> length (hl_histo h) = 16"

lemma histo_po_le: "po \<le> 15 \<Longrightarrow> histo_po v po \<le> 15"
proof (induction v po rule: histo_po.induct)
  case (1 v po)
  then show ?case by (subst histo_po.simps) (auto simp: Let_def)
qed

lemma histo_ingest_ok:
  assumes "histo_ok h"
  obtains h' where "histo_ingest v h = Some h'" "histo_ok h'"
proof -
  have "histo_po v 0 \<le> 15" by (rule histo_po_le) simp
  then have "(if hl_sub h < histo_po v 0 then histo_po v 0 - hl_sub h else 0) < 16" by auto
  then show ?thesis
    using assms that \<open>histo_po v 0 \<le> 15\<close>
    by (auto simp: histo_ingest_def histo_ok_def Let_def index_def simp del: if_split)
qed

definition nm_content :: "'e NeedMinBuffer \<Rightarrow> bytes" where
  "nm_content b = left_bytes (nm_left b) @ chunk_bytes (nm_inp b)"

definition nm_ok :: "'e NeedMinBuffer \<Rightarrow> bool" where
  "nm_ok b \<longleftrightarrow> chunks_ok (nm_inp b) \<and> histo_ok (nm_buf_len_histo b) \<and> unat (nm_need_min b) \<le> 83886080 \<and>
     length (left_bytes (nm_left b)) < unat (nm_need_min b) \<and> \<not> nm_errored b \<and> \<not> nm_completed b"

lemma fc_buf_join [simp]: "fc_buf (nm_join left f) = left_bytes left @ fc_buf f"
  by (simp add: nm_join_def left_bytes_def fc_buf_take_def split: option.split)

definition nm_polled :: "'e NeedMinBuffer \<Rightarrow> ('e, FileChunkRead) result option poll \<Rightarrow> 'e NeedMinBuffer \<Rightarrow> bool" where
  "nm_polled b r b' \<longleftrightarrow>
     nm_need_min b' = nm_need_min b \<and>
     (case r of
        Pending \<Rightarrow> nm_ok b' \<and> nm_content b' = nm_content b \<and> length (nm_inp b') < length (nm_inp b)
      | Ready None \<Rightarrow> nm_inp b' = [] \<and> nm_content b' = nm_content b \<and> length (nm_content b) < unat (nm_need_min b)
      | Ready (Some (Inr f)) \<Rightarrow> nm_ok b' \<and> nm_left b' = None \<and> length (nm_inp b') < length (nm_inp b) \<and>
          fc_buf f @ nm_content b' = nm_content b \<and> unat (nm_need_min b) \<le> length (fc_buf f) \<and>
          length (fc_buf f) < 2 ^ 32
      | Ready (Some (Inl _)) \<Rightarrow> False)"

lemma nm_loop_polled:
  assumes "nm_ok (b\<lparr>nm_inp := xs\<rparr>)"
  shows "\<exists>r b'. nm_loop xs b = Some (r, b') \<and> nm_polled (b\<lparr>nm_inp := xs\<rparr>) r b'"
  using assms
proof (induction xs b rule: nm_loop.induct)
  case (1 b)
  then show ?case by (simp add: nm_polled_def nm_ok_def nm_content_def)
next
  case (2 xs b)
  then show ?case by (simp add: nm_polled_def nm_ok_def nm_content_def)
next
  case (3 e xs b)
  then show ?case by (simp add: nm_ok_def)
next
  case (4 f xs b)
  have ok: "histo_ok (nm_buf_len_histo b)" "length (fc_buf f) < 2 ^ 31" "chunks_ok xs"
    "unat (nm_need_min b) \<le> 83886080" "length (left_bytes (nm_left b)) < unat (nm_need_min b)"
    "\<not> nm_errored b" "\<not> nm_completed b"
    using 4(2) by (simp_all add: nm_ok_def)
  obtain h where h: "histo_ingest (of_nat (length (fc_buf f))) (nm_buf_len_histo b) = Some h" "histo_ok h"
    using histo_ingest_ok [OF ok(1)] by metis
  let ?f = "nm_join (nm_left b) f" and ?b = "b\<lparr>nm_buf_len_histo := h\<rparr>"
  have small: "length (fc_buf ?f) < 2 ^ 32" using ok by simp
  have cmp: "nm_need_min b \<le> of_nat (length (fc_buf ?f)) \<longleftrightarrow> unat (nm_need_min b) \<le> length (fc_buf ?f)"
    using of_nat_less_u32 [OF small] by (simp only: not_less [symmetric])
  show ?case
  proof (cases "unat (nm_need_min b) \<le> length (fc_buf ?f)")
    case True
    then have "nm_loop (Ready (Inr f) # xs) b = Some (Ready (Some (Inr ?f)), ?b\<lparr>nm_inp := xs, nm_left := None\<rparr>)"
      using cmp by (simp add: h Let_def)
    moreover have "nm_polled (b\<lparr>nm_inp := Ready (Inr f) # xs\<rparr>) (Ready (Some (Inr ?f))) (?b\<lparr>nm_inp := xs, nm_left := None\<rparr>)"
      using True small ok h(2) by (simp add: nm_polled_def nm_ok_def nm_content_def left_bytes_def)
    ultimately show ?thesis by blast
  next
    case False
    then have "nm_loop (Ready (Inr f) # xs) b = nm_loop xs (?b\<lparr>nm_left := Some ?f\<rparr>)"
      using cmp by (simp add: h Let_def)
    moreover have ok': "nm_ok (?b\<lparr>nm_left := Some ?f, nm_inp := xs\<rparr>)"
      using False ok h(2) by (simp add: nm_ok_def left_bytes_def)
    from 4(1) [OF h(1) refl refl] False cmp ok'
    obtain r b' where "nm_loop xs (?b\<lparr>nm_left := Some ?f\<rparr>) = Some (r, b')"
      "nm_polled (?b\<lparr>nm_left := Some ?f, nm_inp := xs\<rparr>) r b'" by auto
    moreover have "nm_polled (b\<lparr>nm_inp := Ready (Inr f) # xs\<rparr>) r b'"
      if "nm_polled (?b\<lparr>nm_left := Some ?f, nm_inp := xs\<rparr>) r b'"
      using that by (auto simp: nm_polled_def nm_content_def left_bytes_def split: poll.splits option.splits sum.splits)
    ultimately show ?thesis by auto
  qed
qed

lemma nm_poll_ok:
  assumes "nm_ok b"
  obtains r b' where "nm_poll_next b = Some (r, b')" "nm_polled b r b'"
  using assms nm_loop_polled [of "nm_inp b" b] by (auto simp: nm_poll_next_def nm_ok_def)

section \<open>The stream\<close>

text \<open>The items carry the events \<open>evs\<close> in sound containers and no error, and say whether the range is complete.\<close>

definition yields :: "('e, EventFull) Sitemty list \<Rightarrow> ef_value event list \<Rightarrow> bool \<Rightarrow> bool" where
  "yields items evs c \<longleftrightarrow>
     concat (map ef_evs (item_data items)) = evs \<and> (\<forall>x \<in> set items. \<not> isl x) \<and>
     (\<forall>x \<in> set (item_data items). ef_inv x) \<and> (Inr (DataItem RangeComplete) \<in> set items \<longleftrightarrow> c)"

lemma yields_simps:
  "yields [] [] False"
  "yields (Inr (Log l) # items) evs c \<longleftrightarrow> yields items evs c"
  "yields (Inr (Stats s) # items) evs c \<longleftrightarrow> yields items evs c"
  "yields (Inr (DataItem RangeComplete) # items) evs c \<longleftrightarrow> c \<and> (yields items evs True \<or> yields items evs False)"
  "ef_inv x \<Longrightarrow> yields items evs c \<Longrightarrow> yields (sitem_data x # items) (ef_evs x @ evs) c"
  by (auto simp: yields_def sitem_data_def)

definition calm :: "'e EventChunker \<Rightarrow> bool" where
  "calm ec \<longleftrightarrow> \<not> ec_errored ec \<and> \<not> ec_completed ec \<and> \<not> ec_sent_beyond_range ec \<and> \<not> ec_final_stats_sent ec \<and>
     0 < ec_disk_stats_every ec"

lemma run_logs:
  assumes "\<not> ec_completed ec"
  shows "stream_run (ec_poll_next lg) ec =
    map_option ((@) (map (\<lambda>l. Inr (Log l)) (ec_log_items ec))) (stream_run (ec_poll_next lg) (ec\<lparr>ec_log_items := []\<rparr>))"
  using assms
proof (induction "ec_log_items ec" arbitrary: ec)
  case Nil
  have eq: "ec\<lparr>ec_log_items := []\<rparr> = ec" using Nil(1) by (cases ec) simp
  show ?case unfolding eq using Nil(1) [symmetric] by (simp add: option.map_ident)
next
  case (Cons l q)
  have p: "ec_poll_next lg ec = Some (Ready (Some (Inr (Log l))), ec\<lparr>ec_log_items := q\<rparr>)"
    using Cons(2) [symmetric] Cons(3) by (subst ec_poll_next.simps) simp
  have "stream_run (ec_poll_next lg) ec = map_option ((#) (Inr (Log l))) (stream_run (ec_poll_next lg) (ec\<lparr>ec_log_items := q\<rparr>))"
    by (rule stream_run_step(2)) (rule p)
  with Cons(1) [of "ec\<lparr>ec_log_items := q\<rparr>"] Cons(2) [symmetric] Cons(3) show ?case
    by (cases "stream_run (ec_poll_next lg) (ec\<lparr>ec_log_items := []\<rparr>)") simp_all
qed

lemma run_calm:
  assumes "calm ec"
  obtains pb where "pb < ucast (ec_disk_stats_every ec)"
    "\<And>items evs c. stream_run (ec_poll_next lg) (ec\<lparr>ec_log_items := [], ec_parsed_bytes := pb\<rparr>) = Some items \<Longrightarrow>
       yields items evs c \<Longrightarrow> \<exists>items. stream_run (ec_poll_next lg) ec = Some items \<and> yields items evs c"
proof -
  let ?ls = "map (\<lambda>l. Inr (Log l)) (ec_log_items ec)" and ?ec = "ec\<lparr>ec_log_items := []\<rparr>"
  have logs: "yields (map (\<lambda>l. Inr (Log l)) ls @ items) evs c \<longleftrightarrow> yields items evs c"
    for ls items evs c by (induction ls) (simp_all add: yields_simps)
  have run: "stream_run (ec_poll_next lg) ec = map_option ((@) ?ls) (stream_run (ec_poll_next lg) ?ec)"
    using assms by (intro run_logs) (simp add: calm_def)
  show ?thesis
  proof (cases "ec_parsed_bytes ec < ucast (ec_disk_stats_every ec)")
    case True
    show ?thesis
    proof (rule that [OF True])
      fix items evs c
      assume "stream_run (ec_poll_next lg) (ec\<lparr>ec_log_items := [], ec_parsed_bytes := ec_parsed_bytes ec\<rparr>) = Some items"
        "yields items evs c"
      then show "\<exists>items. stream_run (ec_poll_next lg) ec = Some items \<and> yields items evs c"
        by (intro exI [of _ "?ls @ items"]) (simp add: run logs)
    qed
  next
    case False
    let ?st = "Inr (Stats (SiEventDataReadStats (ec_parsed_bytes ec)))"
    have p: "ec_poll_next lg ?ec = Some (Ready (Some ?st), ?ec\<lparr>ec_parsed_bytes := 0\<rparr>)"
      using assms False by (subst ec_poll_next.simps) (simp add: calm_def emit_stats_def not_less)
    have s: "stream_run (ec_poll_next lg) ?ec = map_option ((#) ?st) (stream_run (ec_poll_next lg) (?ec\<lparr>ec_parsed_bytes := 0\<rparr>))"
      by (rule stream_run_step(2)) (rule p)
    have "(0 :: u64) < ucast (ec_disk_stats_every ec)"
      using assms by (simp add: calm_def word_less_nat_alt unat_ucast_u32)
    then show ?thesis
    proof (rule that)
      fix items evs c
      assume "stream_run (ec_poll_next lg) (ec\<lparr>ec_log_items := [], ec_parsed_bytes := 0\<rparr>) = Some items" "yields items evs c"
      then show "\<exists>items. stream_run (ec_poll_next lg) ec = Some items \<and> yields items evs c"
        by (intro exI [of _ "?ls @ ?st # items"]) (simp add: run s logs yields_simps)
    qed
  qed
qed

text \<open>The end of the stream: the statistics, the note that the range is complete, if it is, and the end.\<close>

lemma run_ending:
  assumes "calm ec" and "ec_data_emit_complete ec"
  shows "\<exists>items. stream_run (ec_poll_next lg) ec = Some items \<and> yields items [] (ec_seen_beyond_range ec)"
proof -
  obtain pb where pb: "pb < ucast (ec_disk_stats_every ec)"
    and run: "\<And>items evs c. stream_run (ec_poll_next lg) (ec\<lparr>ec_log_items := [], ec_parsed_bytes := pb\<rparr>) = Some items \<Longrightarrow>
       yields items evs c \<Longrightarrow> \<exists>items. stream_run (ec_poll_next lg) ec = Some items \<and> yields items evs c"
    by (rule run_calm [OF assms(1), of lg]) blast
  have pos: "ucast (ec_disk_stats_every ec) \<noteq> (0 :: u64)" using pb by auto
  let ?e0 = "ec\<lparr>ec_log_items := [], ec_parsed_bytes := pb\<rparr>"
  let ?e1 = "ec\<lparr>ec_log_items := [], ec_parsed_bytes := 0, ec_final_stats_sent := True\<rparr>"
  let ?e2 = "?e1\<lparr>ec_sent_beyond_range := True\<rparr>"
  let ?st = "Inr (Stats (SiEventDataReadStats pb))" and ?rc = "Inr (DataItem RangeComplete)"
  have c: "\<not> ec_errored ec" "\<not> ec_completed ec" "\<not> ec_sent_beyond_range ec" "\<not> ec_final_stats_sent ec"
    using assms(1) by (simp_all add: calm_def)
  have p0: "ec_poll_next lg ?e0 = Some (Ready (Some ?st), ?e1)"
    using c pb assms(2) by (subst ec_poll_next.simps) (simp add: emit_stats_def not_le)
  have p2: "ec_poll_next lg ?e2 = Some (Ready None, ?e2\<lparr>ec_completed := True\<rparr>)"
    using c pos by (subst ec_poll_next.simps) (simp add: not_le)
  have end2: "stream_run (ec_poll_next lg) ?e2 = Some []" by (rule stream_run_step(3)) (rule p2)
  have s0: "stream_run (ec_poll_next lg) ?e0 = map_option ((#) ?st) (stream_run (ec_poll_next lg) ?e1)"
    by (rule stream_run_step(2)) (rule p0)
  show ?thesis
  proof (cases "ec_seen_beyond_range ec")
    case True
    have p1: "ec_poll_next lg ?e1 = Some (Ready (Some ?rc), ?e2)"
      using c pos True by (subst ec_poll_next.simps) (simp add: not_le Let_def)
    have "stream_run (ec_poll_next lg) ?e1 = map_option ((#) ?rc) (stream_run (ec_poll_next lg) ?e2)"
      by (rule stream_run_step(2)) (rule p1)
    then have "stream_run (ec_poll_next lg) ?e0 = Some [?st, ?rc]" by (simp only: s0 end2 option.map)
    then show ?thesis by (rule run) (simp add: True yields_simps)
  next
    case False
    have "ec_poll_next lg ?e1 = ec_poll_next lg ?e2"
      using c pos False by (subst ec_poll_next.simps) (simp add: not_le Let_def)
    then have "stream_run (ec_poll_next lg) ?e1 = stream_run (ec_poll_next lg) ?e2" by (rule stream_run_cong)
    then have "stream_run (ec_poll_next lg) ?e0 = Some [?st]"
      by (simp only: s0 end2 option.map)
    then show ?thesis by (rule run) (simp add: False yields_simps)
  qed
qed

definition live ::
    "SfChFetchInfo \<Rightarrow> NanoRange \<Rightarrow> bytes \<Rightarrow> disk_event \<Rightarrow> bytes \<Rightarrow> disk_event list \<Rightarrow> 'e EventChunker \<Rightarrow> bool" where
  "live fi rng name e0 tail es ec \<longleftrightarrow>
     calm ec \<and> reading fi rng es ec \<and> need_ok name es e0 ec \<and>
     unat (ec_need_min_max ec) = need_limit (sf_shape fi) \<and>
     nm_ok (ec_inp ec) \<and> nm_need_min (ec_inp ec) = ec_need_min ec \<and>
     nm_content (ec_inp ec) = to_read name es tail ec \<and> histo_ok (ec_item_len_emit_histo ec)"

definition any_beyond :: "NanoRange \<Rightarrow> disk_event list \<Rightarrow> 'e EventChunker \<Rightarrow> bool" where
  "any_beyond rng es ec \<longleftrightarrow> ec_seen_beyond_range ec \<or> (\<exists>e \<in> set es. beyond rng e)"

lemma need_in_upd [simp]:
  "need_in (ec\<lparr>ec_log_items := a\<rparr>) n = need_in ec n" "need_in (ec\<lparr>ec_parsed_bytes := b\<rparr>) n = need_in ec n"
  "need_in (ec\<lparr>ec_inp := c\<rparr>) n = need_in ec n" "need_in (ec\<lparr>ec_item_len_emit_histo := d\<rparr>) n = need_in ec n"
  by (simp_all add: need_in_def)

text \<open>The input ends: all events have been read.\<close>

lemma input_ended:
  assumes "live fi rng name e0 tail es ec" and "length (nm_content (ec_inp ec)) < unat (ec_need_min ec)"
  shows "es = []"
proof (rule ccontr)
  assume "es \<noteq> []"
  then obtain e es' where "es = e # es'" by (cases es) simp_all
  then show False
    using assms by (auto simp: live_def need_ok_def to_read_def need_in_def split: if_splits)
qed

text \<open>What a chunk does: it yields events, and the reader waits for more or ends.\<close>

lemma chunk_handled:
  assumes L: "live fi rng name e0 tail es ec" and name: "length name \<le> 503"
    and e0: "disk_event_ok fi e0" "strict_prefix tail (event_bytes e0)"
    and polled: "nm_polled (ec_inp ec) (Ready (Some (Inr f))) inp"
  shows "\<exists>ret ec' es'. ec_handle_chunk lg f (ec\<lparr>ec_inp := inp\<rparr>) = Some (Ready (Some (sitem_data ret)), ec') \<and>
    ef_inv ret \<and> length (nm_inp (ec_inp ec')) < length (nm_inp (ec_inp ec)) \<and>
    (calm ec' \<and> ec_data_emit_complete ec' \<and> ec_seen_beyond_range ec' \<and> (\<exists>e \<in> set es. beyond rng e) \<and>
       ef_evs ret = kept fi rng es \<or>
     live fi rng name e0 tail es' ec' \<and> kept fi rng es = ef_evs ret @ kept fi rng es' \<and>
       any_beyond rng es' ec' = any_beyond rng es ec)"
proof -
  let ?ec = "ec\<lparr>ec_inp := inp\<rparr>"
  have P: "nm_ok inp" "nm_left inp = None" "fc_buf f @ nm_content inp = to_read name es tail ?ec"
    "length (fc_buf f) < 2 ^ 32" "nm_need_min inp = ec_need_min ec" "length (nm_inp inp) < length (nm_inp (ec_inp ec))"
    using polled L by (simp_all add: nm_polled_def live_def to_read_def)
  have R: "reading fi rng es ?ec" "need_ok name es e0 ?ec"
    using L by (simp_all add: live_def reading_def need_ok_def)
  from parse_file [OF R(1) name P(3,4) e0 R(2), of lg]
  obtain ret logs pb rest ec1 where
    p: "parse_buf lg (fc_buf f) ?ec = Some (Inr (\<lparr>pr_events = ret, pr_parsed_bytes = pb\<rparr>, logs), rest, ec1)"
    and C: "same_conf ?ec ec1" "ef_inv ret" "unat (ec_need_min ec1) \<le> need_limit (sf_shape fi)"
    and D: "loop_done fi rng es ?ec ef_empty ret ec1 \<or>
      file_waits fi rng name e0 tail es ?ec (rest @ nm_content inp) ret ec1 \<and> length rest < unat (ec_need_min ec1)"
    by blast
  let ?left = "if rest = [] then None else Some (f\<lparr>fc_buf := rest\<rparr>)"
  have inp1: "ec_inp ec1 = inp" using C(1) by (simp add: same_conf_def)
  have put: "nm_put_back g inp = Some (inp\<lparr>nm_left := Some g\<rparr>)" "inp\<lparr>nm_left := None\<rparr> = inp" for g
    using P(2) by (simp_all add: nm_put_back_def)
  have mx: "\<not> ec_need_min_max ec1 < ec_need_min ec1"
    using L C(1,3) by (simp add: live_def same_conf_def word_less_nat_alt)
  have "histo_ok (ec_item_len_emit_histo ec1)" using L C(1) by (simp add: live_def same_conf_def)
  then obtain h where h: "histo_ingest (of_nat (ef_len ret)) (ec_item_len_emit_histo ec1) = Some h" "histo_ok h"
    by (rule histo_ingest_ok)
  define ec' where "ec' = ec1\<lparr>ec_log_items := ec_log_items ec1 @ logs, ec_parsed_bytes := ec_parsed_bytes ec1 + pb,
    ec_inp := nm_set_need_min (ec_need_min ec1) (inp\<lparr>nm_left := ?left\<rparr>), ec_item_len_emit_histo := h\<rparr>"
  have res: "ec_handle_chunk lg f ?ec = Some (Ready (Some (sitem_data ret)), ec')"
    using mx h(1) by (cases "rest = []") (simp_all add: ec_handle_chunk_def p inp1 ec'_def put Let_def)
  have len: "length (nm_inp (ec_inp ec')) < length (nm_inp (ec_inp ec))"
    using P(6) by (simp add: ec'_def nm_set_need_min_def)
  have calm: "calm ec'" using L C(1) by (simp add: ec'_def calm_def live_def same_conf_def)
  have lb: "left_bytes ?left = rest" by (simp add: left_bytes_def)
  from D show ?thesis
  proof
    assume "loop_done fi rng es ?ec ef_empty ret ec1"
    then have "ec_data_emit_complete ec' \<and> ec_seen_beyond_range ec' \<and> (\<exists>e \<in> set es. beyond rng e) \<and> ef_evs ret = kept fi rng es"
      by (simp add: loop_done_def ec'_def)
    with res C(2) len calm show ?thesis by blast
  next
    assume w: "file_waits fi rng name e0 tail es ?ec (rest @ nm_content inp) ret ec1 \<and> length rest < unat (ec_need_min ec1)"
    then obtain es1 es2 where W: "es = es1 @ es2" "reading fi rng es2 ec1" "rest @ nm_content inp = to_read name es2 tail ec1"
      "ef_evs ret = kept fi rng es1" "ec_seen_beyond_range ec1 = (ec_seen_beyond_range ec \<or> (\<exists>e \<in> set es1. beyond rng e))"
      "need_ok name es2 e0 ec1" by (auto simp: file_waits_def)
    have "nm_content (ec_inp ec') = rest @ nm_content inp"
      using P(2) lb by (simp add: nm_content_def ec'_def nm_set_need_min_def left_bytes_def)
    then have content: "nm_content (ec_inp ec') = to_read name es2 tail ec'" using W(3) by (simp add: to_read_def ec'_def)
    have "unat (ec_need_min ec1) \<le> 83886080" using C(3) need_limit_le [of "sf_shape fi"] by linarith
    then have "nm_ok (ec_inp ec')" using P(1) w lb by (simp add: nm_ok_def ec'_def nm_set_need_min_def)
    moreover have "reading fi rng es2 ec'" "need_ok name es2 e0 ec'"
      using W(2,6) by (simp_all add: reading_def need_ok_def ec'_def)
    moreover have "unat (ec_need_min_max ec') = need_limit (sf_shape fi)"
      using L C(1) by (simp add: live_def same_conf_def ec'_def)
    moreover have "nm_need_min (ec_inp ec') = ec_need_min ec'" "histo_ok (ec_item_len_emit_histo ec')"
      using h(2) by (simp_all add: ec'_def nm_set_need_min_def)
    ultimately have "live fi rng name e0 tail es2 ec'" using calm content by (simp add: live_def)
    moreover have "any_beyond rng es2 ec' = any_beyond rng es ec" using W(1,5) by (auto simp: any_beyond_def ec'_def)
    moreover have "kept fi rng es = ef_evs ret @ kept fi rng es2" using W(1,4) by simp
    ultimately show ?thesis using res C(2) len by blast
  qed
qed

lemma run_live:
  assumes "live fi rng name e0 tail es ec" and "length name \<le> 503"
    and "disk_event_ok fi e0" "strict_prefix tail (event_bytes e0)"
  shows "\<exists>items. stream_run (ec_poll_next lg) ec = Some items \<and> yields items (kept fi rng es) (any_beyond rng es ec)"
  using assms(1)
proof (induction "length (nm_inp (ec_inp ec))" arbitrary: es ec rule: less_induct)
  case less
  have calm: "calm ec" using less.prems by (simp add: live_def)
  obtain pb where pb: "pb < ucast (ec_disk_stats_every ec)"
    and run: "\<And>items evs c. stream_run (ec_poll_next lg) (ec\<lparr>ec_log_items := [], ec_parsed_bytes := pb\<rparr>) = Some items \<Longrightarrow>
       yields items evs c \<Longrightarrow> \<exists>items. stream_run (ec_poll_next lg) ec = Some items \<and> yields items evs c"
    by (rule run_calm [OF calm, of lg]) blast
  let ?ec = "ec\<lparr>ec_log_items := [], ec_parsed_bytes := pb\<rparr>"
  have L: "live fi rng name e0 tail es ?ec"
    using less.prems by (simp add: live_def calm_def reading_def need_ok_def to_read_def)
  have nd: "\<not> ec_data_emit_complete ec" using less.prems by (simp add: live_def reading_def)
  obtain r inp where np: "nm_poll_next (ec_inp ec) = Some (r, inp)" and pol: "nm_polled (ec_inp ec) r inp"
    using less.prems by (auto simp: live_def elim: nm_poll_ok)
  have poll: "ec_poll_next lg ?ec = (let ec = ?ec\<lparr>ec_inp := inp\<rparr> in
      case r of
        Ready (Some (Inr f)) \<Rightarrow> ec_handle_chunk lg f ec
      | Ready (Some (Inl e)) \<Rightarrow> Some (Ready (Some (Inl (EcInput e))), ec\<lparr>ec_errored := True\<rparr>)
      | Ready None \<Rightarrow> ec_poll_next lg (ec\<lparr>ec_data_emit_complete := True\<rparr>)
      | Pending \<Rightarrow> Some (Pending, ec))"
    using calm pb nd np by (subst ec_poll_next.simps) (simp add: calm_def linorder_not_le [THEN iffD2] Let_def)
  have "\<exists>items. stream_run (ec_poll_next lg) ?ec = Some items \<and> yields items (kept fi rng es) (any_beyond rng es ec)"
  proof -
    consider "r = Pending" | "r = Ready None" | f where "r = Ready (Some (Inr f))"
      using pol by (auto simp: nm_polled_def split: poll.splits option.splits sum.splits)
    then show ?thesis
    proof cases
      case 1
      let ?ec' = "?ec\<lparr>ec_inp := inp\<rparr>"
      have p: "ec_poll_next lg ?ec = Some (Pending, ?ec')" by (simp add: poll 1 Let_def)
      have "stream_run (ec_poll_next lg) ?ec = stream_run (ec_poll_next lg) ?ec'" by (rule stream_run_step(1)) (rule p)
      moreover have "live fi rng name e0 tail es ?ec'"
        using L pol 1 by (simp add: live_def calm_def reading_def need_ok_def to_read_def nm_polled_def)
      moreover have "length (nm_inp (ec_inp ?ec')) < length (nm_inp (ec_inp ec))" using pol 1 by (simp add: nm_polled_def)
      ultimately show ?thesis using less.hyps [of ?ec' es] by (simp add: any_beyond_def)
    next
      case 2
      let ?ec' = "?ec\<lparr>ec_inp := inp, ec_data_emit_complete := True\<rparr>"
      have "es = []" using input_ended [OF less.prems] pol 2 less.prems by (simp add: nm_polled_def live_def)
      have "ec_poll_next lg ?ec = ec_poll_next lg ?ec'" by (simp add: poll 2 Let_def)
      then have "stream_run (ec_poll_next lg) ?ec = stream_run (ec_poll_next lg) ?ec'" by (rule stream_run_cong)
      moreover have "calm ?ec'" using calm by (simp add: calm_def)
      ultimately show ?thesis using run_ending [of ?ec' lg] \<open>es = []\<close> by (simp add: any_beyond_def)
    next
      case 3
      have pol3: "nm_polled (ec_inp ?ec) (Ready (Some (Inr f))) inp" using pol 3 by simp
      from chunk_handled [OF L assms(2-4) pol3, of lg]
      obtain ret ec' es' where h: "ec_handle_chunk lg f (?ec\<lparr>ec_inp := inp\<rparr>) = Some (Ready (Some (sitem_data ret)), ec')"
        and ret: "ef_inv ret" and len: "length (nm_inp (ec_inp ec')) < length (nm_inp (ec_inp ec))"
        and D: "calm ec' \<and> ec_data_emit_complete ec' \<and> ec_seen_beyond_range ec' \<and> (\<exists>e \<in> set es. beyond rng e) \<and>
             ef_evs ret = kept fi rng es \<or>
           live fi rng name e0 tail es' ec' \<and> kept fi rng es = ef_evs ret @ kept fi rng es' \<and>
             any_beyond rng es' ec' = any_beyond rng es ?ec" by auto
      have p: "ec_poll_next lg ?ec = Some (Ready (Some (sitem_data ret)), ec')" by (simp add: poll 3 h Let_def)
      have s: "stream_run (ec_poll_next lg) ?ec = map_option ((#) (sitem_data ret)) (stream_run (ec_poll_next lg) ec')"
        by (rule stream_run_step(2)) (rule p)
      obtain items evs where "stream_run (ec_poll_next lg) ec' = Some items" "yields items evs (any_beyond rng es ec)"
        "kept fi rng es = ef_evs ret @ evs"
        using D
      proof
        assume d: "calm ec' \<and> ec_data_emit_complete ec' \<and> ec_seen_beyond_range ec' \<and> (\<exists>e \<in> set es. beyond rng e) \<and>
             ef_evs ret = kept fi rng es"
        then show thesis using run_ending [of ec' lg] that [of _ "[]"] by (auto simp: any_beyond_def)
      next
        assume d: "live fi rng name e0 tail es' ec' \<and> kept fi rng es = ef_evs ret @ kept fi rng es' \<and>
             any_beyond rng es' ec' = any_beyond rng es ?ec"
        then show thesis using less.hyps [OF len, of es'] that [of _ "kept fi rng es'"] by (auto simp: any_beyond_def)
      qed
      then show ?thesis using s yields_simps(5) [OF ret] by auto
    qed
  qed
  then show ?case using run by blast
qed

section \<open>Reading a file\<close>

lemma live_start:
  assumes "chunks_ok inp" and "dse \<noteq> 0" and "sorted (map de_ts es)" and "length (filter (ahead rng) es) \<le> 100"
    and "\<forall>e \<in> set es. disk_event_ok fi e" and "disk_event_ok fi e0"
  shows "chunk_bytes inp = header_bytes name @ concat (map event_bytes es) @ tail \<Longrightarrow>
      live fi rng name e0 tail es (ec_from_start inp fi rng dse)"
    "chunk_bytes inp = concat (map event_bytes es) @ tail \<Longrightarrow>
      live fi rng name e0 tail es (ec_from_event_boundary inp fi rng dse)"
proof -
  have "disk_event_ok fi (hd (es @ [e0]))" using assms(5,6) by (cases es) simp_all
  note b = de_len_bounds(1) [OF this]
  have mx: "unat (case sf_shape fi of ShScalar \<Rightarrow> 1024 * 16 :: u32 | ShWave _ \<Rightarrow> 1024 * 6000
      | ShImage _ _ \<Rightarrow> 1024 * 1024 * 80) = need_limit (sf_shape fi)"
    by (simp add: need_limit_def split: Shape.split)
  note defs = live_def calm_def reading_def need_ok_def nm_ok_def nm_content_def left_bytes_def to_read_def
    ec_from_event_boundary_def ec_from_start_def NeedMinBuffer_new_def nm_set_need_min_def HistoLog2_new_def histo_ok_def
  show "live fi rng name e0 tail es (ec_from_start inp fi rng dse)"
    if "chunk_bytes inp = header_bytes name @ concat (map event_bytes es) @ tail"
    using that assms mx by (simp add: defs Let_def word_gt_0)
  show "live fi rng name e0 tail es (ec_from_event_boundary inp fi rng dse)"
    if "chunk_bytes inp = concat (map event_bytes es) @ tail"
    using that assms mx b by (simp add: defs need_in_def Let_def word_gt_0)
qed

text \<open>
  C19. A data file cut into chunks in any way: the reader ends without an error and yields, in sound
  containers, exactly the events of the channel before the end of the range, in their order and with the
  values in the file. It says that the range is complete exactly if an event at or after the end of the range
  was there. A part of an event at the end of the file is left out. The file has its events in time order, at
  most 100 of them before the range, each within the limits of the reader.
\<close>

theorem chunker_reads_file:
  assumes "chunks_ok inp" and "dse \<noteq> 0" and "length name \<le> 503"
    and "sorted (map de_ts es)" and "length (filter (ahead rng) es) \<le> 100" and "\<forall>e \<in> set es. disk_event_ok fi e"
    and "disk_event_ok fi e0" and "strict_prefix tail (event_bytes e0)"
    and "(ec, head) \<in> {(ec_from_start inp fi rng dse, header_bytes name), (ec_from_event_boundary inp fi rng dse, [])}"
    and "chunk_bytes inp = head @ concat (map event_bytes es) @ tail"
  shows "\<exists>items. stream_run (ec_poll_next lg) ec = Some items \<and>
    yields items (map (\<lambda>e. (de_ts e, de_value e)) (filter (\<lambda>e. de_ts e < nr_end rng \<and> of_channel fi e) es))
      (\<exists>e \<in> set es. nr_end rng \<le> de_ts e)"
proof -
  have L: "live fi rng name e0 tail es ec"
    using assms(9,10) live_start [OF assms(1,2,4,5,6,7)] by auto
  have "\<not> ec_seen_beyond_range ec"
    using assms(9) by (auto simp: ec_from_start_def ec_from_event_boundary_def Let_def)
  then show ?thesis
    using run_live [OF L assms(3,7,8), of lg] by (simp add: kept_def any_beyond_def beyond_def not_le)
qed

text \<open>A channel of 32 bit integers, and three events of it.\<close>

definition demo_fetch :: SfChFetchInfo where
  "demo_fetch = SfChFetchInfo_new ''b'' ''c'' 2 0 Big I32 ShScalar"

definition demo_disk_event :: "u64 \<Rightarrow> disk_event" where
  "demo_disk_event ts =
     \<lparr>de_ttl = 0, de_ts = ts, de_pulse = 7, de_ioc_ts = 0, de_status = 0, de_severity = 0, de_flags = BIG_ENDIAN,
      de_type_index = 7, de_dims = [], de_blob = [0, 0, 0, 42]\<rparr>"

lemma demo_disk_event:
  "de_ts (demo_disk_event t) = t" "disk_event_ok demo_fetch (demo_disk_event t)" "of_channel demo_fetch (demo_disk_event t)"
  "length (de_head (demo_disk_event t)) = 40"
proof -
  have f: "BIG_ENDIAN AND COMPRESSION = 0" "BIG_ENDIAN AND SHAPE = 0"
    by (simp_all add: BIG_ENDIAN_def COMPRESSION_def SHAPE_def)
  show "de_ts (demo_disk_event t) = t" by (simp add: demo_disk_event_def)
  show len: "length (de_head (demo_disk_event t)) = 40"
    by (simp add: de_head_def de_times_def de_info_def demo_disk_event_def f)
  show "disk_event_ok demo_fetch (demo_disk_event t)"
    using len by (simp add: disk_event_ok_def demo_disk_event_def demo_fetch_def SfChFetchInfo_new_def f de_len_def
        need_limit_def from_dtype_index_def)
  show "of_channel demo_fetch (demo_disk_event t)"
    by (simp add: of_channel_def demo_disk_event_def demo_fetch_def SfChFetchInfo_new_def f de_shape_def de_value_def
        ef_single_def ef_shape_derived_def ef_push_def ef_empty_def index_def from_dtype_index_def)
qed

theorem chunker_reads_file_witness:
  "let bs = event_bytes (demo_disk_event 100) @ event_bytes (demo_disk_event 200) @ event_bytes (demo_disk_event 300);
       chunk = (\<lambda>b. Ready (Inr (fc_with_buf b)));
       rng = \<lparr>nr_beg = 150, nr_end = 300\<rparr> in
   \<exists>items. stream_run (ec_poll_next (\<lambda>_. \<lparr>li_ts = 0, li_origin = [], li_level = INFO, li_msg = []\<rparr>))
      (ec_from_event_boundary [chunk (take 30 bs), Pending, chunk (drop 30 bs) :: (unit, FileChunkRead) result poll] demo_fetch rng 1000)
      = Some items \<and>
     yields items (map (\<lambda>e. (de_ts e, de_value e)) [demo_disk_event 100, demo_disk_event 200]) True"
proof -
  let ?es = "map demo_disk_event [100, 200, 300]"
  define bs where "bs = concat (map event_bytes ?es)"
  let ?inp = "[Ready (Inr (fc_with_buf (take 30 bs))), Pending, Ready (Inr (fc_with_buf (drop 30 bs)))]
    :: (unit, FileChunkRead) result poll list"
  let ?rng = "\<lparr>nr_beg = 150, nr_end = 300\<rparr>" and ?ec = "ec_from_event_boundary"
  have len: "length (event_bytes (demo_disk_event t)) = 52" for t
    by (simp add: de_len_def demo_disk_event) (simp add: demo_disk_event_def)
  then have "length bs = 156" unfolding bs_def by simp
  then have inp: "chunks_ok ?inp" "chunk_bytes ?inp = [] @ bs @ []" by (simp_all add: fc_with_buf_def)
  have content: "chunk_bytes ?inp = [] @ concat (map event_bytes ?es) @ []"
    unfolding bs_def [symmetric] by (rule inp(2))
  have tail: "strict_prefix [] (event_bytes (demo_disk_event 0))" using len [of 0]
    by (metis list.size(3) prefix_order.less_le Nil_prefix zero_neq_numeral)
  have "\<exists>items. stream_run (ec_poll_next (\<lambda>_. \<lparr>li_ts = 0, li_origin = [], li_level = INFO, li_msg = []\<rparr>))
      (?ec ?inp demo_fetch ?rng 1000) = Some items \<and>
    yields items (map (\<lambda>e. (de_ts e, de_value e)) (filter (\<lambda>e. de_ts e < nr_end ?rng \<and> of_channel demo_fetch e) ?es))
      (\<exists>e \<in> set ?es. nr_end ?rng \<le> de_ts e)"
    by (rule chunker_reads_file [OF inp(1) _ _ _ _ _ demo_disk_event(2) tail _ content, where name = "[]" and dse = 1000])
      (simp_all add: demo_disk_event ahead_def)
  then show ?thesis by (simp add: Let_def demo_disk_event bs_def)
qed

section \<open>Lengths that are too small\<close>

lemma usize_wrap:
  assumes "4 \<le> l" and "l < 2 ^ 32" and "p < 2 ^ 32"
  shows "usize_add p (usize_sub (usize_sub l p) 4) = l - 4"
proof (cases "p + 4 \<le> l")
  case True
  then show ?thesis using assms by (simp add: usize_add_def)
next
  case False
  have "usize_sub (usize_sub l p) 4 = 2 ^ 64 - (p + 4 - l)"
    using assms False by (auto simp: usize_sub_def)
  then have "p + usize_sub (usize_sub l p) 4 = (l - 4) + 2 ^ 64" using assms False by simp
  moreover have "l - 4 < 2 ^ 64" using assms by simp
  ultimately show ?thesis by (simp only: usize_add_def mod_add_self2 mod_less)
qed

text \<open>
  C38. An event whose length field is at least 20 but ends before its own header and length does makes the reader
  panic: the length of its value wraps around and the slice ends before it starts. The file is corrupt, but the
  process should report the error it has for an event that is too short.
\<close>

theorem short_event_panics:
  fixes L :: u32
  assumes ok: "disk_event_ok (ec_fetch_info ec) e" and ev: "ec_state ec = Event"
    and bef: "ahead (ec_range ec) e \<longrightarrow> ec_seen_before_range_count ec < 100"
    and stop: "\<not> (beyond (ec_range ec) e \<and> ec_seen_after_range_count ec > 0)"
    and buf: "buf = to_be 4 L @ de_head e @ rst" "length buf < 2 ^ 32" "unat (ec_need_min ec) \<le> length buf"
    and L: "20 \<le> unat L" "unat L < length (de_head e) + 8" "unat L \<le> length buf"
  shows "parse_buf lg buf ec = None"
proof -
  have head: "length (de_head e) \<le> 58"
  proof -
    have "length (concat (map (to_be 4) (de_dims e))) = 4 * length (de_dims e)"
      using length_concat_const [of "map (to_be 4) (de_dims e)" 4] by simp
    then show ?thesis using ok by (simp add: de_head_def de_times_def de_info_def disk_event_ok_def)
  qed
  have s32: "sint (of_nat n :: u32) = int n" if "n < 2 ^ 31" for n
    using that by (simp add: signed_of_nat signed_take_bit_int_eq_self)
  have "unat L < 2 ^ 31" and eq: "(of_nat (unat L) :: u32) = L" using L(2) head by simp_all
  from s32 [OF this(1)] have s: "sint L = int (unat L)" unfolding eq .
  have "\<not> sint L < 20" "\<not> event_too_long (sf_shape (ec_fetch_info ec)) L"
    using L head unfolding event_too_long_def s by (auto split: Shape.split simp del: of_nat_unat)
  from parse_event_stored [OF ok refl ev bef buf(1,2) L(3) this, of lg ef_empty "[]"] stop
  obtain d ec' where p: "parse_step lg buf (ef_empty, []) ec =
      store_event lg buf L (de_ts e) (de_pulse e) (ef_empty, []) d (value_info e (4 + length (de_head e))) ec'" by auto
  have pos: "vi_pos (value_info e n) = n" for n by (simp add: value_info_def split: prod.split)
  have "usize_add (4 + length (de_head e)) (usize_sub (usize_sub (unat L) (4 + length (de_head e))) 4) = unat L - 4"
    using L head by (intro usize_wrap) simp_all
  moreover have "\<not> 4 + length (de_head e) \<le> unat L - 4" using L by linarith
  ultimately have "parse_step lg buf (ef_empty, []) ec = None"
    by (simp add: p store_event_def pos Let_def slice_def)
  moreover have "\<not> (of_nat (length buf) :: u32) < ec_need_min ec"
    using buf(3) of_nat_less_u32 [OF buf(2)] by simp
  ultimately show ?thesis unfolding parse_buf_def by (subst parse_loop.simps) (simp add: Let_def)
qed

theorem short_event_panics_witness:
  "parse_buf (\<lambda>_. \<lparr>li_ts = 0, li_origin = [], li_level = INFO, li_msg = []\<rparr>)
     (to_be 4 (20 :: u32) @ de_head (demo_disk_event 100) @ [0, 0, 0, 42, 0, 0, 0, 20])
     (ec_from_event_boundary ([] :: (unit, FileChunkRead) result poll list) demo_fetch \<lparr>nr_beg = 0, nr_end = 300\<rparr> 1000) = None"
proof -
  let ?ec = "ec_from_event_boundary ([] :: (unit, FileChunkRead) result poll list) demo_fetch \<lparr>nr_beg = 0, nr_end = 300\<rparr> 1000"
  have ec: "ec_fetch_info ?ec = demo_fetch" "ec_state ?ec = Event" "ec_range ?ec = \<lparr>nr_beg = 0, nr_end = 300\<rparr>"
    "ec_seen_before_range_count ?ec = 0" "ec_seen_after_range_count ?ec = 0" "ec_need_min ?ec = 4"
    by (simp_all add: ec_from_event_boundary_def ec_from_start_def Let_def)
  show ?thesis
    by (rule short_event_panics [where e = "demo_disk_event 100" and L = 20, OF _ _ _ _ refl])
      (simp_all add: ec demo_disk_event)
qed

section \<open>Events out of order\<close>

text \<open>The events that are not before the one just before them.\<close>

fun not_before_pred :: "u64 \<Rightarrow> disk_event list \<Rightarrow> disk_event list" where
  "not_before_pred l [] = []"
| "not_before_pred l (e # es) = (if l \<le> de_ts e then [e] else []) @ not_before_pred (de_ts e) es"

lemma loop_any_order:
  assumes "ec_fetch_info ec = fi" and "ec_state ec = Event" and "ef_inv ret" and "ec_need_min ec = 4"
    and "\<forall>e \<in> set es. disk_event_ok fi e \<and> of_channel fi e \<and> nr_beg (ec_range ec) \<le> de_ts e \<and> de_ts e < nr_end (ec_range ec)"
    and "length (concat (map event_bytes es)) < 2 ^ 32"
  shows "\<exists>ret' logs' pb' ec'. parse_loop lg (concat (map event_bytes es)) (ret, logs) pb ec =
      Some (Inr (\<lparr>pr_events = ret', pr_parsed_bytes = pb'\<rparr>, logs'), [], ec') \<and>
    ef_evs ret' = ef_evs ret @ map (\<lambda>e. (de_ts e, de_value e)) (not_before_pred (ec_last_ts ec) es)"
  using assms
proof (induction es arbitrary: ret logs pb ec)
  case Nil
  then show ?case by (subst parse_loop.simps) (simp add: Let_def)
next
  case (Cons e es)
  let ?buf = "concat (map event_bytes (e # es))"
  have e: "disk_event_ok fi e" "of_channel fi e" "\<not> beyond (ec_range ec) e" "\<not> ahead (ec_range ec) e"
    using Cons.prems(5) by (simp_all add: beyond_def ahead_def not_le not_less)
  have "ahead (ec_range ec) e \<longrightarrow> ec_seen_before_range_count ec < 100" using e by simp
  from parse_event_complete [OF e(1) Cons.prems(1,2) this Cons.prems(3) _ Cons.prems(6), of "concat (map event_bytes es)" lg logs] e
  obtain ret1 logs1 ec1 where s1: "parse_step lg ?buf (ret, logs) ec = Some (Inr (Some (de_len e, ret1, logs1)), ec1)"
    and A: "after_event e ec ec1" "ec_need_min ec1 = 4" "ef_inv ret1"
    "ef_evs ret1 = ef_evs ret @ (if ec_last_ts ec \<le> de_ts e then [(de_ts e, de_value e)] else [])" by auto
  have "\<not> (of_nat (length ?buf) :: u32) < ec_need_min ec"
    using of_nat_less_u32 [OF Cons.prems(6)] de_len_bounds(1) [OF e(1)] Cons.prems(4) by simp
  moreover have "drop (de_len e) ?buf = concat (map event_bytes es)" by simp
  ultimately have L: "parse_loop lg ?buf (ret, logs) pb ec = parse_loop lg (concat (map event_bytes es)) (ret1, logs1) (pb + of_nat (de_len e)) ec1"
    by (subst parse_loop.simps) (simp only: s1 Let_def if_False option.case sum.case prod.case)
  have "ec_fetch_info ec1 = fi" "ec_state ec1 = Event" "ec_range ec1 = ec_range ec" "ec_last_ts ec1 = de_ts e"
    using A(1) Cons.prems(1,2) by (simp_all add: after_event_def same_conf_def)
  with Cons.IH [of ec1 ret1 logs1 "pb + of_nat (de_len e)"] Cons.prems(5,6) A(2-4) show ?case
    unfolding L by auto
qed

text \<open>
  C39. Events of the channel and the range in any order: the reader drops an event if and only if it is before the
  one just before it in the file. So after an event that is out of order it lets events pass that are before events it
  has already given out, and the container is not in time order.
\<close>

theorem order_checked_pairwise:
  assumes "ec_fetch_info ec = fi" and "ec_state ec = Event" and "ec_need_min ec = 4"
    and "\<forall>e \<in> set es. disk_event_ok fi e \<and> of_channel fi e \<and> nr_beg (ec_range ec) \<le> de_ts e \<and> de_ts e < nr_end (ec_range ec)"
    and "length (concat (map event_bytes es)) < 2 ^ 32"
  shows "\<exists>res logs ec'. parse_buf lg (concat (map event_bytes es)) ec = Some (Inr (res, logs), [], ec') \<and>
    ef_evs (pr_events res) = map (\<lambda>e. (de_ts e, de_value e)) (not_before_pred (ec_last_ts ec) es)"
proof -
  from loop_any_order [OF assms(1,2) ef_evs_empty(1) assms(3,4,5), of lg "[]" 0]
  obtain ret' logs' pb' ec' where "parse_loop lg (concat (map event_bytes es)) (ef_empty, []) 0 ec =
      Some (Inr (\<lparr>pr_events = ret', pr_parsed_bytes = pb'\<rparr>, logs'), [], ec')"
    "ef_evs ret' = map (\<lambda>e. (de_ts e, de_value e)) (not_before_pred (ec_last_ts ec) es)" by auto
  then show ?thesis unfolding parse_buf_def
    by (intro exI [of _ "\<lparr>pr_events = ret', pr_parsed_bytes = pb'\<rparr>"] exI [of _ logs'] exI [of _ ec']) simp
qed

theorem order_checked_pairwise_witness:
  "\<exists>res logs ec'. parse_buf (\<lambda>_. \<lparr>li_ts = 0, li_origin = [], li_level = INFO, li_msg = []\<rparr>)
     (concat (map event_bytes (map demo_disk_event [250, 100, 200])))
     (ec_from_event_boundary ([] :: (unit, FileChunkRead) result poll list) demo_fetch \<lparr>nr_beg = 0, nr_end = 300\<rparr> 1000) =
       Some (Inr (res, logs), [], ec') \<and>
     map fst (ef_evs (pr_events res)) = [250, 200]"
proof -
  let ?ec = "ec_from_event_boundary ([] :: (unit, FileChunkRead) result poll list) demo_fetch \<lparr>nr_beg = 0, nr_end = 300\<rparr> 1000"
  let ?es = "map demo_disk_event [250, 100, 200]"
  have ec: "ec_fetch_info ?ec = demo_fetch" "ec_state ?ec = Event" "ec_need_min ?ec = 4"
    and ec': "ec_range ?ec = \<lparr>nr_beg = 0, nr_end = 300\<rparr>" "ec_last_ts ?ec = 0"
    by (simp_all add: ec_from_event_boundary_def ec_from_start_def Let_def)
  have len: "de_len (demo_disk_event t) = 52" for t
    by (simp add: de_len_def demo_disk_event) (simp add: demo_disk_event_def)
  have ok: "\<forall>e \<in> set ?es. disk_event_ok demo_fetch e \<and> of_channel demo_fetch e \<and>
      nr_beg (ec_range ?ec) \<le> de_ts e \<and> de_ts e < nr_end (ec_range ?ec)"
    by (simp add: ec' demo_disk_event)
  have small: "length (concat (map event_bytes ?es)) < 2 ^ 32" by (simp add: len)
  from order_checked_pairwise [OF ec ok small, of "\<lambda>_. \<lparr>li_ts = 0, li_origin = [], li_level = INFO, li_msg = []\<rparr>"]
  show ?thesis by (auto simp: ec'(2) demo_disk_event(1) comp_def)
qed

end
