(* ===== verification/Zmtp.thy ===== *)
theory Zmtp
  imports CaConn
begin

text \<open>
  The ZeroMQ message transport of \<^verbatim>\<open>daqbuf-ingest-bsread/src/zmtp/zmtpproto.rs\<close>: the stream
  \<^verbatim>\<open>Zmtp\<close> greets the peer, reads frames and joins them to messages, and answers pings.

  Buffers and socket are those of \<open>CaConn\<close>; the record \<open>MoreBuf\<close> has the operations of the buffer that
  this stream calls besides, whose documented behaviour is the locale \<open>slide_buf_more\<close>, again met by the
  buffer of \<^verbatim>\<open>daqbuf-streams\<close>; the locale \<open>slide_buf_room\<close> adds how the room for writing changes. What the channel of outgoing items delivers is a list of poll results;
  the stream keeps a sender of its own, so an exhausted list is pending. The recordings for the log are
  left out, their calls do nothing in the code.
\<close>

section \<open>More operations of the buffer\<close>

record ('s, 'b) MoreBuf =
  mb_wcap :: "'s \<Rightarrow> nat"
  mb_read_u8 :: "'s \<Rightarrow> (('b, u8) result \<times> 's) panics"
  mb_read_u64_be :: "'s \<Rightarrow> (('b, u64) result \<times> 's) panics"
  mb_put_u8 :: "u8 \<Rightarrow> 's \<Rightarrow> (('b, unit) result \<times> 's) panics"
  mb_put_u64_be :: "u64 \<Rightarrow> 's \<Rightarrow> (('b, unit) result \<times> 's) panics"
  mb_put_slice :: "bytes \<Rightarrow> 's \<Rightarrow> (('b, unit) result \<times> 's) panics"

locale slide_buf_more = slide_buf bb inv dat
  for bb :: "('s, 'b) ByteBuf" and inv :: "'s \<Rightarrow> bool" and dat :: "'s \<Rightarrow> bytes" +
  fixes mb :: "('s, 'b) MoreBuf"
  assumes within: "inv s \<Longrightarrow> length (dat s) \<le> bb_cap bb s"
    and wcap: "inv s \<Longrightarrow> length (dat s) + mb_wcap mb s \<le> bb_cap bb s"
    and read_u8: "inv s \<Longrightarrow> 1 \<le> length (dat s) \<Longrightarrow> \<exists>s'. mb_read_u8 mb s = Some (Inr (hd (dat s)), s') \<and>
      inv s' \<and> dat s' = drop 1 (dat s) \<and> bb_cap bb s' = bb_cap bb s"
    and read_u64: "inv s \<Longrightarrow> 8 \<le> length (dat s) \<Longrightarrow> \<exists>s'. mb_read_u64_be mb s = Some (Inr (from_be (take 8 (dat s))), s') \<and>
      inv s' \<and> dat s' = drop 8 (dat s) \<and> bb_cap bb s' = bb_cap bb s"
    and put_slice: "inv s \<Longrightarrow> length (dat s) + length bs \<le> bb_cap bb s \<Longrightarrow>
      \<exists>s'. mb_put_slice mb bs s = Some (Inr (), s') \<and> inv s' \<and> dat s' = dat s @ bs \<and> bb_cap bb s' = bb_cap bb s"
    and put_slice_full: "inv s \<Longrightarrow> bb_cap bb s < length (dat s) + length bs \<Longrightarrow>
      \<exists>e s'. mb_put_slice mb bs s = Some (Inl e, s') \<and> inv s' \<and> dat s' = dat s \<and> bb_cap bb s' = bb_cap bb s"
    and put_u8: "inv s \<Longrightarrow> mb_put_u8 mb v s = mb_put_slice mb (to_be 1 v) s"
    and put_u64: "inv s \<Longrightarrow> mb_put_u64_be mb w s = mb_put_slice mb (to_be 8 w) s"

definition SlideBuf_more :: "(SlideBuf, sb_error) MoreBuf" where
  "SlideBuf_more =
     \<lparr>mb_wcap = sb_wcap, mb_read_u8 = sb_read_u8, mb_read_u64_be = sb_read_u64_be,
      mb_put_u8 = sb_put_u8, mb_put_u64_be = sb_put_u64_be, mb_put_slice = sb_put_slice\<rparr>"

lemma sb_read_u8_inv:
  assumes "sb_inv s" and "1 \<le> length (sb_abs s)"
  shows "\<exists>s'. sb_read_u8 s = Some (Inr (hd (sb_abs s)), s') \<and> sb_inv s' \<and> sb_abs s' = drop 1 (sb_abs s) \<and> sb_cap s' = sb_cap s"
proof -
  obtain s' where s': "sb_read_fixed 1 s = Some (Inr (take 1 (sb_abs s)), s')" "sb_inv s'"
    "sb_abs s' = drop 1 (sb_abs s)" "sb_cap s' = sb_cap s"
    using sb_read_fixed_inv(1) [OF assms] by blast
  have l: "\<not> sb_len s < 1" using assms by (auto simp: sb_len_inv)
  have rp: "sb_rp s < length (sb_buf s)"
    using assms(2) length_sb_abs [OF assms(1)] sb_invD [OF assms(1)] by linarith
  have "hd (sb_abs s) = sb_buf s ! sb_rp s"
    using assms(2) length_sb_abs [OF assms(1)] rp by (cases "sb_wp s - sb_rp s") (auto simp: sb_abs_def hd_drop_conv_nth)
  moreover have "s' = s\<lparr>sb_rp := usize_add (sb_rp s) 1\<rparr>"
    using s'(1) l by (auto simp: sb_read_fixed_def bind_eq_Some_conv)
  ultimately show ?thesis using s' l rp by (simp add: sb_read_u8_def)
qed

interpretation sbm: slide_buf_more SlideBuf_impl sb_inv sb_abs SlideBuf_more
proof
  fix s v w assume s: "sb_inv s"
  show "length (sb_abs s) \<le> bb_cap SlideBuf_impl s" using sb_abs_le_cap [OF s] by (simp add: SlideBuf_impl_def)
  show "length (sb_abs s) + mb_wcap SlideBuf_more s \<le> bb_cap SlideBuf_impl s"
    using sb_wcap_inv [OF s] length_sb_abs [OF s] sb_invD [OF s] by (simp add: SlideBuf_impl_def SlideBuf_more_def sb_cap_def)
  show "mb_put_u8 SlideBuf_more v s = mb_put_slice SlideBuf_more (to_be 1 v) s"
    "mb_put_u64_be SlideBuf_more w s = mb_put_slice SlideBuf_more (to_be 8 w) s"
    by (simp_all add: SlideBuf_more_def sb_put_u8_def sb_put_u64_be_def sb_put_slice_def)
next
  fix s assume s: "sb_inv s" "1 \<le> length (sb_abs s)"
  show "\<exists>s'. mb_read_u8 SlideBuf_more s = Some (Inr (hd (sb_abs s)), s') \<and> sb_inv s' \<and> sb_abs s' = drop 1 (sb_abs s) \<and>
      bb_cap SlideBuf_impl s' = bb_cap SlideBuf_impl s"
    using sb_read_u8_inv [OF s] by (simp add: SlideBuf_more_def SlideBuf_impl_def)
next
  fix s assume s: "sb_inv s" "8 \<le> length (sb_abs s)"
  show "\<exists>s'. mb_read_u64_be SlideBuf_more s = Some (Inr (from_be (take 8 (sb_abs s))), s') \<and> sb_inv s' \<and>
      sb_abs s' = drop 8 (sb_abs s) \<and> bb_cap SlideBuf_impl s' = bb_cap SlideBuf_impl s"
    using sb_read_fixed_inv(1) [OF s] by (auto simp: SlideBuf_more_def SlideBuf_impl_def sb_read_u64_be_def sb_map_res_def)
next
  fix s and bs :: bytes assume s: "sb_inv s" "length (sb_abs s) + length bs \<le> bb_cap SlideBuf_impl s"
  show "\<exists>s'. mb_put_slice SlideBuf_more bs s = Some (Inr (), s') \<and> sb_inv s' \<and> sb_abs s' = sb_abs s @ bs \<and>
      bb_cap SlideBuf_impl s' = bb_cap SlideBuf_impl s"
    using sb_put_bytes_inv [OF s(1), of bs] s(2) by (auto simp: SlideBuf_more_def SlideBuf_impl_def sb_put_slice_def)
next
  fix s and bs :: bytes assume s: "sb_inv s" "bb_cap SlideBuf_impl s < length (sb_abs s) + length bs"
  show "\<exists>e s'. mb_put_slice SlideBuf_more bs s = Some (Inl e, s') \<and> sb_inv s' \<and> sb_abs s' = sb_abs s \<and>
      bb_cap SlideBuf_impl s' = bb_cap SlideBuf_impl s"
    using sb_put_bytes_inv [OF s(1), of bs] s(2) by (auto simp: SlideBuf_more_def SlideBuf_impl_def sb_put_slice_def)
qed

text \<open>
  How the room for writing changes, where the answers to pings depend on it: a new buffer has its whole
  capacity, taking bytes out does not lessen it, and writing lessens it by what is written at most.
\<close>

locale slide_buf_room = slide_buf_more bb inv dat mb
  for bb :: "('s, 'b) ByteBuf" and inv :: "'s \<Rightarrow> bool" and dat :: "'s \<Rightarrow> bytes" and mb :: "('s, 'b) MoreBuf" +
  assumes wcap_new: "c < 2 ^ 63 \<Longrightarrow> mb_wcap mb (bb_new bb c) = c"
    and wcap_adv: "inv s \<Longrightarrow> n \<le> length (dat s) \<Longrightarrow> bb_adv bb n s = Some (Inr (), s') \<Longrightarrow> mb_wcap mb s \<le> mb_wcap mb s'"
    and wcap_put: "inv s \<Longrightarrow> mb_put_slice mb bs s = Some (Inr (), s') \<Longrightarrow> mb_wcap mb s \<le> mb_wcap mb s' + length bs"

lemma sb_wcap_adv:
  assumes "sb_adv n s = Some (Inr (), s')"
  shows "sb_wcap s' = sb_wcap s"
  using assms by (auto simp: sb_adv_def sb_wcap_def split: if_splits)

lemma sb_wcap_rewind: "sb_inv s \<Longrightarrow> sb_rewind s = Some s' \<Longrightarrow> sb_inv s' \<and> sb_wcap s \<le> sb_wcap s'"
  using sb_rewind_inv [of s] by (auto simp: sb_wcap_inv sb_cap_def length_sb_abs dest: sb_invD)

lemma sb_wcap_make_space:
  assumes "sb_inv s" and "sb_make_space n s = Some s'"
  shows "sb_wcap s \<le> sb_wcap s'"
proof -
  obtain s1 where s1: "sb_rewind_if_needed n s = Some s1" "(if sb_wcap s1 < n then sb_rewind s1 else Some s1) = Some s'"
    using assms(2) by (auto simp: sb_make_space_def bind_eq_Some_conv)
  have "sb_wcap (s\<lparr>sb_rp := 0, sb_wp := 0\<rparr>) = length (sb_buf s)" by (simp add: sb_wcap_def usize_sub_def)
  then have "sb_inv s1 \<and> sb_wcap s \<le> sb_wcap s1"
    using s1(1) sb_wcap_rewind [OF assms(1)] sb_rewind_if_needed_inv [OF assms(1), of n] assms(1)
    by (auto simp: sb_rewind_if_needed_def sb_wcap_inv split: if_splits)
  then show ?thesis using s1(2) sb_wcap_rewind [of s1 s'] by (auto split: if_splits)
qed

lemma sb_wcap_put:
  assumes "sb_inv s" and "sb_put_bytes bs s = Some (Inr (), s')"
  shows "sb_wcap s \<le> sb_wcap s' + length bs"
proof -
  obtain s1 where s1: "sb_make_space (length bs) s = Some s1" "sb_inv s1" "sb_cap s1 = sb_cap s"
    using sb_make_space_inv [OF assms(1)] by blast
  have room: "sb_wcap s \<le> sb_wcap s1" by (rule sb_wcap_make_space [OF assms(1) s1(1)])
  have fit: "\<not> sb_wcap s1 < length bs" and wp: "sb_wp s' = usize_add (sb_wp s1) (length bs)"
    using assms(2) s1(1) by (auto simp: sb_put_bytes_def bind_eq_Some_conv split: if_splits)
  have add: "usize_add (sb_wp s1) (length bs) = sb_wp s1 + length bs" by (rule sb_advance_write(1) [OF s1(2) fit])
  have "sb_inv s'" "sb_cap s' = sb_cap s" using sb_put_bytes_inv [OF assms(1), of bs] assms(2) by auto
  then have "sb_wcap s' = sb_wcap s1 - length bs"
    using s1(2,3) wp add by (simp add: sb_wcap_inv sb_cap_def)
  then show ?thesis using room by simp
qed

interpretation sbr: slide_buf_room SlideBuf_impl sb_inv sb_abs SlideBuf_more
proof
  fix c :: nat assume "c < 2 ^ 63"
  then show "mb_wcap SlideBuf_more (bb_new SlideBuf_impl c) = c"
    by (simp add: SlideBuf_more_def SlideBuf_impl_def sb_wcap_def sb_new_def)
next
  fix s s' n assume "bb_adv SlideBuf_impl n s = Some (Inr (), s')"
  then show "mb_wcap SlideBuf_more s \<le> mb_wcap SlideBuf_more s'"
    by (simp add: SlideBuf_more_def SlideBuf_impl_def sb_wcap_adv)
next
  fix s s' and bs :: bytes assume "sb_inv s" "mb_put_slice SlideBuf_more bs s = Some (Inr (), s')"
  then show "mb_wcap SlideBuf_more s \<le> mb_wcap SlideBuf_more s' + length bs"
    using sb_wcap_put [of s bs s'] by (simp add: SlideBuf_more_def sb_put_slice_def)
qed

section \<open>Frames, messages and the state of the connection\<close>

datatype ('b, 'io) ZmtpError =
  ZBad | ZNetBuf 'b | ZmtpInitPeerNot3x | ZmtpInitPeerUnsupportedVersion | BadPeerMechanism
| MsgTooLarge nat | ZBufferTooSmallForNeedMin nat nat | FromUtf8Error bytes | ZIO 'io

datatype ConnState =
  InitSend | InitRecv1 | InitRecv2 | InitRecv3 | InitRecv4 | InitRecv5
| ReadFrameFlags | ReadFrameShort | ReadFrameLong | ReadFrameBody nat | LockScan nat

fun z_need_min :: "ConnState \<Rightarrow> nat" where
  "z_need_min InitSend = 0"
| "z_need_min InitRecv1 = 1"
| "z_need_min InitRecv2 = 9"
| "z_need_min InitRecv3 = 1"
| "z_need_min InitRecv4 = 1"
| "z_need_min InitRecv5 = 52"
| "z_need_min ReadFrameFlags = 1"
| "z_need_min ReadFrameShort = 1"
| "z_need_min ReadFrameLong = 8"
| "z_need_min (ReadFrameBody msglen) = msglen"
| "z_need_min (LockScan n) = n"

datatype SocketType = PUSH | PULL

record ZmtpFrame =
  zf_msglen :: nat
  zf_has_more :: bool
  zf_is_command :: bool
  zf_data :: bytes

record ZmtpMessage =
  zm_frames :: "ZmtpFrame list"

datatype ZmtpEvent = ZmtpCommand ZmtpFrame | ZmtpMsg ZmtpMessage

record ('s, 'io) Zmtp =
  z_done :: bool
  z_complete :: bool
  z_socket_type :: SocketType
  z_conn :: "'io Tcp"
  z_conn_state :: ConnState
  z_buf :: 's
  z_outbuf :: 's
  z_out_enable :: bool
  z_msglen :: nat
  z_has_more :: bool
  z_is_command :: bool
  z_peer_ver :: "u8 \<times> u8"
  z_frames :: "ZmtpFrame list"
  z_inp_eof :: bool
  z_data_rx :: "u32 option poll list"

definition Zmtp_new :: "('s, 'b) ByteBuf \<Rightarrow> u32 option poll list \<Rightarrow> 'io Tcp \<Rightarrow> SocketType \<Rightarrow> ('s, 'io) Zmtp" where
  "Zmtp_new bb rx conn socket_type =
     \<lparr>z_done = False, z_complete = False, z_socket_type = socket_type, z_conn = conn, z_conn_state = InitSend,
      z_buf = bb_new bb (1024 * 128), z_outbuf = bb_new bb (1024 * 128), z_out_enable = False, z_msglen = 0,
      z_has_more = False, z_is_command = False, z_peer_ver = (0, 0), z_frames = [], z_inp_eof = False,
      z_data_rx = rx\<rparr>"

type_synonym ('s, 'b, 'io, 'a) z_op =
  "('s, 'io) Zmtp \<Rightarrow> ((('b, 'io) ZmtpError, 'a) result \<times> ('s, 'io) Zmtp) panics"

definition z_bind :: "('s, 'b, 'io, 'a) z_op \<Rightarrow> ('a \<Rightarrow> ('s, 'b, 'io, 'c) z_op) \<Rightarrow> ('s, 'b, 'io, 'c) z_op" where
  "z_bind m f z = do { (r, z) \<leftarrow> m z; case r of Inl e \<Rightarrow> Some (Inl e, z) | Inr x \<Rightarrow> f x z }"

definition z_inp :: "('s \<Rightarrow> (('b, 'a) result \<times> 's) panics) \<Rightarrow> ('s, 'b, 'io, 'a) z_op" where
  "z_inp f z = do { (r, s) \<leftarrow> f (z_buf z); Some (map_sum ZNetBuf id r, z\<lparr>z_buf := s\<rparr>) }"

definition z_out :: "('s \<Rightarrow> (('b, 'a) result \<times> 's) panics) \<Rightarrow> ('s, 'b, 'io, 'a) z_op" where
  "z_out f z = do { (r, s) \<leftarrow> f (z_outbuf z); Some (map_sum ZNetBuf id r, z\<lparr>z_outbuf := s\<rparr>) }"

definition z_upd :: "(('s, 'io) Zmtp \<Rightarrow> ('s, 'io) Zmtp) \<Rightarrow> 'a \<Rightarrow> ('s, 'b, 'io, 'a) z_op" where
  "z_upd f x z = Some (Inr x, f z)"

definition z_fail :: "('b, 'io) ZmtpError \<Rightarrow> ('s, 'b, 'io, 'a) z_op" where
  "z_fail e z = Some (Inl e, z)"

section \<open>Parsing\<close>

definition z_greeting :: bytes where
  "z_greeting = [0xff, 0, 0, 0, 0, 0, 0, 0, 0, 0x7f, 3, 1]"

definition z_ready :: "SocketType \<Rightarrow> bytes" where
  "z_ready ty =
     [0x04, 0x1a, 0x05] @ str ''READY'' @ [0x0b] @ str ''Socket-Type'' @ [0, 0, 0, 4] @
       (case ty of PUSH \<Rightarrow> str ''PUSH'' | PULL \<Rightarrow> str ''PULL'')"

text \<open>
  Answering a ping: a pong with the context of the peer and a ping with a context of one's own, each
  only if the output buffer has room. The writes are unwrapped.
\<close>

definition z_unwrap :: "('s \<Rightarrow> (('b, unit) result \<times> 's) panics) \<Rightarrow> 's \<Rightarrow> 's panics" where
  "z_unwrap f s = do { (r, s) \<leftarrow> f s; case r of Inl _ \<Rightarrow> None | Inr _ \<Rightarrow> Some s }"

definition z_put_command :: "('s, 'b) MoreBuf \<Rightarrow> bytes \<Rightarrow> bytes \<Rightarrow> 's \<Rightarrow> 's panics" where
  "z_put_command mb name ctx s =
     do { s \<leftarrow> z_unwrap (mb_put_u8 mb 0x04) s;
          s \<leftarrow> z_unwrap (mb_put_u8 mb (5 + of_nat (length ctx))) s;
          s \<leftarrow> z_unwrap (mb_put_slice mb name) s;
          z_unwrap (mb_put_slice mb ctx) s }"

definition z_answer_ping :: "('s, 'b) MoreBuf \<Rightarrow> bytes \<Rightarrow> 's \<Rightarrow> 's panics" where
  "z_answer_ping mb data s =
     (if length data \<ge> 7 \<and> take 5 data = 0x04 # str ''PING'' \<and> length data \<le> 32
      then do { s \<leftarrow> (if mb_wcap mb s < length data then Some s
                       else z_put_command mb (0x04 # str ''PONG'') (drop 7 data) s);
                if mb_wcap mb s < 32 then Some s
                else z_put_command mb (0x04 # str ''PING'') (str ''daqingest'') s }
      else Some s)"

definition z_recv_body :: "('s, 'b) ByteBuf \<Rightarrow> ('s, 'b) MoreBuf \<Rightarrow> nat \<Rightarrow> ('s, 'b, 'io, ZmtpEvent option) z_op" where
  "z_recv_body bb mb msglen =
     z_bind (z_inp (bb_read_bytes bb msglen)) (\<lambda>data z.
       let z = z\<lparr>z_conn_state := ReadFrameFlags, z_msglen := 0\<rparr>;
           g = \<lparr>zf_msglen = msglen, zf_has_more = z_has_more z, zf_is_command = z_is_command z, zf_data = data\<rparr> in
       if z_is_command z
       then do { s \<leftarrow> z_answer_ping mb data (z_outbuf z);
                 Some (Inr (Some (ZmtpCommand g)), z\<lparr>z_outbuf := s\<rparr>) }
       else let z = z\<lparr>z_frames := z_frames z @ [g]\<rparr> in
            if z_has_more z then Some (Inr None, z)
            else Some (Inr (Some (ZmtpMsg \<lparr>zm_frames = z_frames z\<rparr>)), z\<lparr>z_frames := []\<rparr>))"

definition z_set_msglen :: "('s, 'b) ByteBuf \<Rightarrow> nat \<Rightarrow> ('s, 'b, 'io, ZmtpEvent option) z_op" where
  "z_set_msglen bb n z =
     (let z = z\<lparr>z_msglen := n, z_conn_state := ReadFrameBody n\<rparr> in
      if n > bb_cap bb (z_buf z) div 2 then Some (Inl (MsgTooLarge n), z) else Some (Inr None, z))"

text \<open>Looking for the start of a header, with two bytes before it.\<close>

definition z_lock_scan :: "bytes \<Rightarrow> bool" where
  "z_lock_scan data =
     (let needle = str ''{'' @ [0x22] @ str ''dh_compression'' @ [0x22] @ str '':'' in
      case List.find (\<lambda>i. 2 \<le> i \<and> take (length needle) (drop i data) = needle) [0..<length data] of
        None \<Rightarrow> False
      | Some nf \<Rightarrow> data ! (nf - 2) = 0x01 \<and> data ! (nf - 1) > 0x70 \<and> data ! (nf - 1) < 0xd0)"

definition z_parse_item :: "('s, 'b) ByteBuf \<Rightarrow> ('s, 'b) MoreBuf \<Rightarrow> ('s, 'b, 'io, ZmtpEvent option) z_op" where
  "z_parse_item bb mb z0 =
     (case z_conn_state z0 of
        InitSend \<Rightarrow>
          z_bind (z_out (mb_put_slice mb z_greeting)) (\<lambda>_. z_upd (z_conn_state_update (\<lambda>_. InitRecv1)) None) z0
      | InitRecv1 \<Rightarrow>
          z_bind (z_inp (mb_read_u8 mb)) (\<lambda>b.
            if b \<noteq> 0xff then z_fail ZmtpInitPeerNot3x
            else z_upd (z_conn_state_update (\<lambda>_. InitRecv2)) None) z0
      | InitRecv2 \<Rightarrow>
          z_bind (z_inp (bb_adv bb 8)) (\<lambda>_.
          z_bind (z_inp (mb_read_u8 mb)) (\<lambda>b.
            if and b 0x01 \<noteq> 1 then z_fail ZmtpInitPeerNot3x
            else z_upd (z_conn_state_update (\<lambda>_. InitRecv3)) None)) z0
      | InitRecv3 \<Rightarrow>
          z_bind (z_inp (mb_read_u8 mb)) (\<lambda>maj.
            if maj \<noteq> 3 then z_fail ZmtpInitPeerNot3x
            else z_bind (z_upd (\<lambda>z. z\<lparr>z_peer_ver := (maj, snd (z_peer_ver z))\<rparr>) ()) (\<lambda>_.
                 z_bind (z_out (mb_put_slice mb [0x4e, 0x55, 0x4c, 0x4c])) (\<lambda>_.
                 z_bind (z_out (mb_put_slice mb (replicate 48 0))) (\<lambda>_.
                   z_upd (z_conn_state_update (\<lambda>_. InitRecv4)) None)))) z0
      | InitRecv4 \<Rightarrow>
          z_bind (z_inp (mb_read_u8 mb)) (\<lambda>minver.
            if minver > 1 then z_fail ZmtpInitPeerUnsupportedVersion
            else z_upd (\<lambda>z. z\<lparr>z_peer_ver := (fst (z_peer_ver z), minver), z_conn_state := InitRecv5\<rparr>) None) z0
      | InitRecv5 \<Rightarrow>
          z_bind (z_inp (bb_read_bytes bb 20)) (\<lambda>b2.
            let sec = takeWhile (\<lambda>b. b \<noteq> 0) b2 in
            if length sec \<ge> length b2 then z_fail BadPeerMechanism
            else if \<not> utf8_valid sec then z_fail (FromUtf8Error sec)
            else z_bind (z_inp (bb_adv bb 32)) (\<lambda>_.
                 z_bind (z_out (mb_put_slice mb (z_ready (z_socket_type z0)))) (\<lambda>_.
                   z_upd (\<lambda>z. z\<lparr>z_out_enable := True, z_conn_state := ReadFrameFlags\<rparr>) None))) z0
      | ReadFrameFlags \<Rightarrow>
          z_bind (z_inp (mb_read_u8 mb)) (\<lambda>flags z.
            let has_more = (and flags 0x01 \<noteq> 0); long_size = (and flags 0x02 \<noteq> 0); is_command = (and flags 0x04 \<noteq> 0);
                z = (if is_command then z else z\<lparr>z_has_more := has_more\<rparr>) in
            Some (Inr None, z\<lparr>z_is_command := is_command,
                              z_conn_state := (if long_size then ReadFrameLong else ReadFrameShort)\<rparr>)) z0
      | ReadFrameShort \<Rightarrow> z_bind (z_inp (mb_read_u8 mb)) (\<lambda>n. z_set_msglen bb (unat n)) z0
      | ReadFrameLong \<Rightarrow> z_bind (z_inp (mb_read_u64_be mb)) (\<lambda>n. z_set_msglen bb (unat n)) z0
      | ReadFrameBody msglen \<Rightarrow> z_recv_body bb mb msglen z0
      | LockScan n \<Rightarrow>
          do { data \<leftarrow> bb_data bb (z_buf z0);
               Some (Inr None, z0\<lparr>z_conn_state :=
                 (if z_lock_scan data then ReadFrameFlags else LockScan (length data + 1))\<rparr>) })"

section \<open>The stream\<close>

datatype 'a zint = IntNoWork | IntPend | IntEmpty | IntItem 'a | IntDone

fun item_count :: "'a zint \<Rightarrow> nat" where
  "item_count (IntItem _) = 1"
| "item_count _ = 0"

fun int_idle :: "'a zint \<Rightarrow> bool" where
  "int_idle IntNoWork = True"
| "int_idle IntDone = True"
| "int_idle _ = False"

fun int_err :: "('e, 'a) result zint \<Rightarrow> 'e option" where
  "int_err (IntItem (Inl e)) = Some e"
| "int_err _ = None"

text \<open>The four parts of \<^verbatim>\<open>loop_body\<close>: items to send, writing, reading, parsing.\<close>

definition z_serialize :: "('s, 'b) ByteBuf \<Rightarrow> ('s, 'b) MoreBuf \<Rightarrow> ('s, 'io) Zmtp \<Rightarrow>
    (('b, 'io) ZmtpError, unit) result zint \<times> ('s, 'io) Zmtp" where
  "z_serialize bb mb z =
     (if z_out_enable z \<and> mb_wcap mb (z_outbuf z) \<ge> bb_cap bb (z_outbuf z) div 2
      then case z_data_rx z of
             [] \<Rightarrow> (IntPend, z)
           | Pending # rx \<Rightarrow> (IntPend, z\<lparr>z_data_rx := rx\<rparr>)
           | Ready (Some _) # rx \<Rightarrow> (IntEmpty, z\<lparr>z_data_rx := rx\<rparr>)
           | Ready None # rx \<Rightarrow> (IntDone, z\<lparr>z_data_rx := rx\<rparr>)
      else (IntNoWork, z))"

definition z_write :: "('s, 'b) ByteBuf \<Rightarrow> nat \<Rightarrow> ('s, 'io) Zmtp \<Rightarrow>
    ((('b, 'io) ZmtpError, unit) result zint \<times> ('s, 'io) Zmtp) panics" where
  "z_write bb count z =
     (if count > 0 then Some (IntNoWork, z)
      else if bb_len bb (z_outbuf z) > 0
      then do { b \<leftarrow> bb_data bb (z_outbuf z);
                let (r, t) = poll_write b (z_conn z);
                let z = z\<lparr>z_conn := t\<rparr>;
                case r of
                  Pending \<Rightarrow> Some (IntPend, z)
                | Ready (Inl e) \<Rightarrow> Some (IntItem (Inl (ZIO e)), z)
                | Ready (Inr k) \<Rightarrow>
                    do { (a, s) \<leftarrow> bb_adv bb k (z_outbuf z);
                         Some (case a of Inr _ \<Rightarrow> IntEmpty | Inl e \<Rightarrow> IntItem (Inl (ZNetBuf e)), z\<lparr>z_outbuf := s\<rparr>) } }
      else Some (IntNoWork, z))"

text \<open>An error of the writable area is returned at once, before the results are looked at.\<close>

definition z_read :: "('s, 'b) ByteBuf \<Rightarrow> nat \<Rightarrow> ('s, 'io) Zmtp \<Rightarrow>
    ((('b, 'io) ZmtpError, (('b, 'io) ZmtpError, unit) result zint) result \<times> ('s, 'io) Zmtp) panics" where
  "z_read bb count z =
     (if count > 0 \<or> z_inp_eof z then Some (Inr IntNoWork, z)
      else let need = z_need_min (z_conn_state z) in
        if bb_cap bb (z_buf z) < need
        then Some (Inr (IntItem (Inl (ZBufferTooSmallForNeedMin need (bb_cap bb (z_buf z))))), z\<lparr>z_done := True\<rparr>)
        else if bb_len bb (z_buf z) < need
        then do { (a, s) \<leftarrow> bb_area bb need (z_buf z);
                  let z = z\<lparr>z_buf := s\<rparr>;
                  case a of
                    Inl e \<Rightarrow> Some (Inl (ZNetBuf e), z)
                  | Inr area \<Rightarrow>
                      let (r, t) = poll_read (length area) (z_conn z); z = z\<lparr>z_conn := t\<rparr> in
                      (case r of
                         Pending \<Rightarrow> Some (Inr IntPend, z)
                       | Ready (Inl e) \<Rightarrow> Some (Inr (IntItem (Inl (ZIO e))), z)
                       | Ready (Inr filled) \<Rightarrow>
                           if length filled = 0 then Some (Inr IntDone, z\<lparr>z_inp_eof := True\<rparr>)
                           else do { s \<leftarrow> bb_fill bb filled (z_buf z);
                                     (w, s) \<leftarrow> bb_wadv bb (length filled) s;
                                     Some (Inr (case w of Inr _ \<Rightarrow> IntEmpty | Inl e \<Rightarrow> IntItem (Inl (ZNetBuf e))),
                                           z\<lparr>z_buf := s\<rparr>) }) }
        else Some (Inr IntNoWork, z))"

definition z_parse :: "('s, 'b) ByteBuf \<Rightarrow> ('s, 'b) MoreBuf \<Rightarrow> nat \<Rightarrow> ('s, 'io) Zmtp \<Rightarrow>
    ((('b, 'io) ZmtpError, ZmtpEvent) result zint \<times> ('s, 'io) Zmtp) panics" where
  "z_parse bb mb count z =
     (if count > 0 \<or> bb_len bb (z_buf z) < z_need_min (z_conn_state z) then Some (IntNoWork, z)
      else do { (r, z) \<leftarrow> z_parse_item bb mb z;
                Some (case r of
                        Inr (Some k) \<Rightarrow> IntItem (Inr k)
                      | Inr None \<Rightarrow> IntEmpty
                      | Inl e \<Rightarrow> IntItem (Inl e), z) })"

text \<open>
  What the four results mean together; \<open>None\<close> is another round. An item without an error comes from the
  parser only.
\<close>

definition z_result :: "(('b, 'io) ZmtpError, unit) result zint \<Rightarrow> (('b, 'io) ZmtpError, unit) result zint \<Rightarrow>
    (('b, 'io) ZmtpError, unit) result zint \<Rightarrow> (('b, 'io) ZmtpError, ZmtpEvent) result zint \<Rightarrow>
    (('b, 'io) ZmtpError, ZmtpEvent) result poll option" where
  "z_result serialized write read parsed =
     (if int_idle serialized \<and> int_idle write \<and> int_idle read \<and> int_idle parsed then Some Pending
      else case int_err serialized of Some e \<Rightarrow> Some (Ready (Inl e)) | None \<Rightarrow>
           case int_err write of Some e \<Rightarrow> Some (Ready (Inl e)) | None \<Rightarrow>
           case int_err read of Some e \<Rightarrow> Some (Ready (Inl e)) | None \<Rightarrow>
           case int_err parsed of Some e \<Rightarrow> Some (Ready (Inl e)) | None \<Rightarrow>
           if item_count serialized > 0 \<or> item_count write > 0 \<or> item_count read > 0 then None
           else case parsed of IntItem (Inr item) \<Rightarrow> Some (Ready (Inr item)) | _ \<Rightarrow>
           if serialized = IntEmpty \<or> write = IntEmpty \<or> read = IntEmpty \<or> parsed = IntEmpty then None
           else Some Pending)"

definition z_loop_body :: "('s, 'b) ByteBuf \<Rightarrow> ('s, 'b) MoreBuf \<Rightarrow> ('s, 'io) Zmtp \<Rightarrow>
    ((('b, 'io) ZmtpError, ZmtpEvent) result poll option \<times> ('s, 'io) Zmtp) panics" where
  "z_loop_body bb mb z =
     (let (serialized, z) = z_serialize bb mb z; count = item_count serialized in
      do { (write, z) \<leftarrow> z_write bb count z;
           let count = count + item_count write;
           (read, z) \<leftarrow> z_read bb count z;
           case read of
             Inl e \<Rightarrow> Some (Some (Ready (Inl e)), z)
           | Inr read \<Rightarrow>
               do { let count = count + item_count read;
                    (parsed, z) \<leftarrow> z_parse bb mb count z;
                    let r = z_result serialized write read parsed;
                    Some (r, case r of Some (Ready (Inl _)) \<Rightarrow> z\<lparr>z_done := True\<rparr> | _ \<Rightarrow> z) } })"

partial_function (option) z_poll_loop :: "('s, 'b) ByteBuf \<Rightarrow> ('s, 'b) MoreBuf \<Rightarrow> ('s, 'io) Zmtp \<Rightarrow>
    ((('b, 'io) ZmtpError, ZmtpEvent) result poll \<times> ('s, 'io) Zmtp) option" where
  "z_poll_loop bb mb z =
     do { (r, z) \<leftarrow> z_loop_body bb mb z;
          case r of Some k \<Rightarrow> Some (k, z) | None \<Rightarrow> z_poll_loop bb mb z }"

definition z_poll_next :: "('s, 'b) ByteBuf \<Rightarrow> ('s, 'b) MoreBuf \<Rightarrow> ('s, 'io) Zmtp \<Rightarrow>
    ((('b, 'io) ZmtpError, ZmtpEvent) result option poll \<times> ('s, 'io) Zmtp) panics" where
  "z_poll_next bb mb z =
     (if z_complete z then None
      else if z_done z then Some (Ready None, z\<lparr>z_complete := True\<rparr>)
      else do { (r, z) \<leftarrow> z_poll_loop bb mb z;
                Some (case r of Pending \<Rightarrow> Pending | Ready k \<Rightarrow> Ready (Some k), z) })"

section \<open>Writing a message\<close>

text \<open>\<^verbatim>\<open>emit_to_buffer\<close>: every frame with the long size, the last one without the flag of more frames.\<close>

primrec z_emit_frames :: "('s, 'b) MoreBuf \<Rightarrow> bytes list \<Rightarrow> 's \<Rightarrow> (('b, unit) result \<times> 's) panics" where
  "z_emit_frames mb [] out = Some (Inr (), out)"
| "z_emit_frames mb (d # ds) out =
     do { (r, out) \<leftarrow> mb_put_u8 mb (if ds \<noteq> [] then 3 else 2) out;
          case r of Inl e \<Rightarrow> Some (Inl e, out) | Inr _ \<Rightarrow>
     do { (r, out) \<leftarrow> mb_put_u64_be mb (of_nat (length d)) out;
          case r of Inl e \<Rightarrow> Some (Inl e, out) | Inr _ \<Rightarrow>
     do { (r, out) \<leftarrow> mb_put_slice mb d out;
          case r of Inl e \<Rightarrow> Some (Inl e, out) | Inr _ \<Rightarrow> z_emit_frames mb ds out } } }"

definition emit_to_buffer :: "('s, 'b) MoreBuf \<Rightarrow> ZmtpMessage \<Rightarrow> 's \<Rightarrow> (('b, unit) result \<times> 's) panics" where
  "emit_to_buffer mb m out = z_emit_frames mb (map zf_data (zm_frames m)) out"

end
