(* ===== verification/ZmtpCorrect.thy ===== *)
theory ZmtpCorrect
  imports Zmtp CaConnCorrect
begin

text \<open>
  The message transport against the wire format. A peer sends its greeting and then frames; what the
  stream yields is a function of the frames alone, however the bytes are cut into chunks, and what it
  sends is its own greeting and the answers to the pings.
\<close>

section \<open>What a peer sends\<close>

text \<open>
  The greeting of 64 bytes; the flags of the code are checked, and the name of the mechanism has to be
  text that ends with a zero byte.
\<close>

definition z_hello_ok :: "bytes \<Rightarrow> bool" where
  "z_hello_ok h \<longleftrightarrow> length h = 64 \<and> h ! 0 = 0xff \<and> and (h ! 9) 0x01 = 1 \<and> h ! 10 = 3 \<and> h ! 11 \<le> 1 \<and>
     0 \<in> set (take 20 (drop 12 h)) \<and> utf8_valid (takeWhile (\<lambda>b. b \<noteq> 0) (take 20 (drop 12 h)))"

text \<open>A frame: its flags and its data, which has to fit half the buffer, and a short size if the size is short.\<close>

type_synonym wire_frame = "u8 \<times> bytes"

definition wf_more :: "wire_frame \<Rightarrow> bool" where "wf_more f \<longleftrightarrow> and (fst f) 0x01 \<noteq> 0"
definition wf_long :: "wire_frame \<Rightarrow> bool" where "wf_long f \<longleftrightarrow> and (fst f) 0x02 \<noteq> 0"
definition wf_command :: "wire_frame \<Rightarrow> bool" where "wf_command f \<longleftrightarrow> and (fst f) 0x04 \<noteq> 0"

definition wf_ok :: "wire_frame \<Rightarrow> bool" where
  "wf_ok f \<longleftrightarrow> length (snd f) \<le> 65536 \<and> (\<not> wf_long f \<longrightarrow> length (snd f) < 256)"

definition wf_size :: "wire_frame \<Rightarrow> bytes" where
  "wf_size f = (if wf_long f then to_be 8 (of_nat (length (snd f)) :: u64) else [of_nat (length (snd f))])"

definition wf_bytes :: "wire_frame \<Rightarrow> bytes" where
  "wf_bytes f = fst f # wf_size f @ snd f"

definition wires :: "wire_frame list \<Rightarrow> bytes" where
  "wires fs = concat (map wf_bytes fs)"

definition the_frame :: "bool \<Rightarrow> bool \<Rightarrow> bytes \<Rightarrow> ZmtpFrame" where
  "the_frame hm cmd d = \<lparr>zf_msglen = length d, zf_has_more = hm, zf_is_command = cmd, zf_data = d\<rparr>"

text \<open>The events of a sequence of frames; commands may come between the frames of a message.\<close>

fun z_events :: "ZmtpFrame list \<Rightarrow> wire_frame list \<Rightarrow> ZmtpEvent list" where
  "z_events acc [] = []"
| "z_events acc (f # fs) =
     (if wf_command f then ZmtpCommand (the_frame (acc \<noteq> []) True (snd f)) # z_events acc fs
      else if wf_more f then z_events (acc @ [the_frame True False (snd f)]) fs
      else ZmtpMsg \<lparr>zm_frames = acc @ [the_frame False False (snd f)]\<rparr> # z_events [] fs)"

text \<open>What may be sent in answer to an event: for a ping a pong with its context and a ping, each if there is room.\<close>

definition z_command :: "bytes \<Rightarrow> bytes \<Rightarrow> bytes" where
  "z_command name ctx = 0x04 # (5 + of_nat (length ctx)) # name @ ctx"

definition is_ping :: "bytes \<Rightarrow> bool" where
  "is_ping d \<longleftrightarrow> length d \<ge> 7 \<and> take 5 d = 0x04 # str ''PING'' \<and> length d \<le> 32"

fun z_answers :: "ZmtpEvent \<Rightarrow> bytes set" where
  "z_answers (ZmtpCommand g) =
     (if is_ping (zf_data g)
      then {p @ q | p q. p \<in> {[], z_command (0x04 # str ''PONG'') (drop 7 (zf_data g))} \<and>
                         q \<in> {[], z_command (0x04 # str ''PING'') (str ''daqingest'')}}
      else {[]})"
| "z_answers (ZmtpMsg _) = {[]}"

text \<open>With room in the output buffer both are sent, the pong first.\<close>

fun z_answer :: "ZmtpEvent \<Rightarrow> bytes" where
  "z_answer (ZmtpCommand g) =
     (if is_ping (zf_data g)
      then z_command (0x04 # str ''PONG'') (drop 7 (zf_data g)) @ z_command (0x04 # str ''PING'') (str ''daqingest'')
      else [])"
| "z_answer (ZmtpMsg _) = []"

lemma ping_lengths: "length (str ''PING'') = 4" "length (str ''PONG'') = 4" "length (str ''daqingest'') = 9"
  by (simp_all add: str_def)

lemma length_answer: "is_ping (zf_data g) \<Longrightarrow> length (z_answer (ZmtpCommand g)) = length (zf_data g) + 16"
  by (simp add: z_command_def is_ping_def ping_lengths)

section \<open>The invariant\<close>

text \<open>What the bytes still to be parsed are in each state.\<close>

definition hello_at :: "nat \<Rightarrow> ZmtpFrame list \<Rightarrow> bool \<Rightarrow> bytes \<Rightarrow> ZmtpEvent list \<Rightarrow> bool" where
  "hello_at k acc hm bs evs \<longleftrightarrow> acc = [] \<and> \<not> hm \<and>
     (\<exists>h fs. z_hello_ok h \<and> (\<forall>f \<in> set fs. wf_ok f) \<and> bs = drop k h @ wires fs \<and> evs = z_events [] fs)"

definition flags_read :: "wire_frame \<Rightarrow> ZmtpFrame list \<Rightarrow> bool \<Rightarrow> bool \<Rightarrow> bool" where
  "flags_read f acc hm cmd \<longleftrightarrow> wf_ok f \<and> cmd = wf_command f \<and> hm = (if cmd then acc \<noteq> [] else wf_more f)"

fun awaits :: "ConnState \<Rightarrow> ZmtpFrame list \<Rightarrow> bool \<Rightarrow> bool \<Rightarrow> bytes \<Rightarrow> ZmtpEvent list \<Rightarrow> bool" where
  "awaits InitSend acc hm cmd bs evs = hello_at 0 acc hm bs evs"
| "awaits InitRecv1 acc hm cmd bs evs = hello_at 0 acc hm bs evs"
| "awaits InitRecv2 acc hm cmd bs evs = hello_at 1 acc hm bs evs"
| "awaits InitRecv3 acc hm cmd bs evs = hello_at 10 acc hm bs evs"
| "awaits InitRecv4 acc hm cmd bs evs = hello_at 11 acc hm bs evs"
| "awaits InitRecv5 acc hm cmd bs evs = hello_at 12 acc hm bs evs"
| "awaits ReadFrameFlags acc hm cmd bs evs =
     (hm = (acc \<noteq> []) \<and> (\<exists>fs. (\<forall>f \<in> set fs. wf_ok f) \<and> bs = wires fs \<and> evs = z_events acc fs))"
| "awaits ReadFrameShort acc hm cmd bs evs =
     (\<exists>f fs. flags_read f acc hm cmd \<and> \<not> wf_long f \<and> (\<forall>f \<in> set fs. wf_ok f) \<and>
        bs = wf_size f @ snd f @ wires fs \<and> evs = z_events acc (f # fs))"
| "awaits ReadFrameLong acc hm cmd bs evs =
     (\<exists>f fs. flags_read f acc hm cmd \<and> wf_long f \<and> (\<forall>f \<in> set fs. wf_ok f) \<and>
        bs = wf_size f @ snd f @ wires fs \<and> evs = z_events acc (f # fs))"
| "awaits (ReadFrameBody n) acc hm cmd bs evs =
     (\<exists>f fs. flags_read f acc hm cmd \<and> n = length (snd f) \<and> (\<forall>f \<in> set fs. wf_ok f) \<and>
        bs = snd f @ wires fs \<and> evs = z_events acc (f # fs))"
| "awaits (LockScan n) acc hm cmd bs evs = False"

text \<open>What the stream has said of its own accord by then.\<close>

fun z_says :: "ConnState \<Rightarrow> SocketType \<Rightarrow> bytes" where
  "z_says InitSend ty = []"
| "z_says InitRecv1 ty = z_greeting"
| "z_says InitRecv2 ty = z_greeting"
| "z_says InitRecv3 ty = z_greeting"
| "z_says InitRecv4 ty = z_greeting @ [0x4e, 0x55, 0x4c, 0x4c] @ replicate 48 0"
| "z_says InitRecv5 ty = z_greeting @ [0x4e, 0x55, 0x4c, 0x4c] @ replicate 48 0"
| "z_says _ ty = z_greeting @ [0x4e, 0x55, 0x4c, 0x4c] @ replicate 48 0 @ z_ready ty"

fun greeted :: "ConnState \<Rightarrow> bool" where
  "greeted InitSend = False" | "greeted InitRecv1 = False" | "greeted InitRecv2 = False"
| "greeted InitRecv3 = False" | "greeted InitRecv4 = False" | "greeted InitRecv5 = False"
| "greeted _ = True"

definition to_come :: "('s, 'io) Zmtp \<Rightarrow> bytes" where
  "to_come z = concat (map (\<lambda>x. case x of RdData d \<Rightarrow> d | _ \<Rightarrow> []) (t_in (z_conn z)))"

definition clean_conn :: "'io Tcp \<Rightarrow> bool" where
  "clean_conn t \<longleftrightarrow> (\<forall>e. RdErr e \<notin> set (t_in t)) \<and> (\<forall>e. WrErr e \<notin> set (t_out t))"

lemma to_be_1 [simp]: "to_be 1 (v :: u8) = [v]" and to_be_Suc0 [simp]: "to_be (Suc 0) (v :: u8) = [v]"
  by (simp_all add: to_be_def)

lemma wires_simps [simp]: "wires [] = []" "wires (f # fs) = fst f # wf_size f @ snd f @ wires fs"
  by (simp_all add: wires_def wf_bytes_def)

lemma common_prefix:
  assumes "d @ x = y @ w" and "n \<le> length d" and "n \<le> length y"
  shows "take n d = take n y" "drop n d @ x = drop n y @ w"
  using assms by (auto simp: append_eq_append_conv2)

context slide_buf_more
begin

definition z_bufs :: "('s, 'io) Zmtp \<Rightarrow> bool" where
  "z_bufs z \<longleftrightarrow> inv (z_buf z) \<and> bb_cap bb (z_buf z) = 131072 \<and> inv (z_outbuf z) \<and> bb_cap bb (z_outbuf z) = 131072 \<and>
     (slide_buf_room bb inv dat mb \<longrightarrow>
        131072 \<le> mb_wcap mb (z_outbuf z) + length (t_sent (z_conn z)) + length (dat (z_outbuf z)))"

text \<open>The answers are the full ones as long as they fit the buffer all together with the greeting.\<close>

definition answers_fit :: "ZmtpEvent list \<Rightarrow> bool" where
  "answers_fit seen \<longleftrightarrow> length (concat (map z_answer seen)) + 144 \<le> 131072"

definition z_said :: "('s, 'io) Zmtp \<Rightarrow> ZmtpEvent list \<Rightarrow> bool" where
  "z_said z seen \<longleftrightarrow> (\<not> greeted (z_conn_state z) \<longrightarrow> seen = []) \<and>
     (\<exists>rs. list_all2 (\<lambda>r e. r \<in> z_answers e) rs seen \<and>
        (slide_buf_room bb inv dat mb \<and> answers_fit seen \<longrightarrow> rs = map z_answer seen) \<and>
        t_sent (z_conn z) @ dat (z_outbuf z) = z_says (z_conn_state z) (z_socket_type z) @ concat rs)"

definition z_ok :: "('s, 'io) Zmtp \<Rightarrow> bytes \<Rightarrow> ZmtpEvent list \<Rightarrow> ZmtpEvent list \<Rightarrow> bool" where
  "z_ok z missing seen evs \<longleftrightarrow> \<not> z_done z \<and> \<not> z_complete z \<and> clean_conn (z_conn z) \<and> z_bufs z \<and> z_said z seen \<and>
     awaits (z_conn_state z) (z_frames z) (z_has_more z) (z_is_command z) (dat (z_buf z) @ to_come z @ missing) evs"

text \<open>Reading and writing the two buffers.\<close>

lemma z_read_u8:
  assumes "z_bufs z" and "1 \<le> length (dat (z_buf z))"
  shows "\<exists>s. z_inp (mb_read_u8 mb) z = Some (Inr (hd (dat (z_buf z))), z\<lparr>z_buf := s\<rparr>) \<and> z_bufs (z\<lparr>z_buf := s\<rparr>) \<and>
    dat s = drop 1 (dat (z_buf z))"
  using read_u8 [of "z_buf z"] assms by (auto simp: z_bufs_def z_inp_def)

lemma z_read_u64:
  assumes "z_bufs z" and "8 \<le> length (dat (z_buf z))"
  shows "\<exists>s. z_inp (mb_read_u64_be mb) z = Some (Inr (from_be (take 8 (dat (z_buf z)))), z\<lparr>z_buf := s\<rparr>) \<and>
    z_bufs (z\<lparr>z_buf := s\<rparr>) \<and> dat s = drop 8 (dat (z_buf z))"
  using read_u64 [of "z_buf z"] assms by (auto simp: z_bufs_def z_inp_def)

lemma z_read_bytes:
  assumes "z_bufs z" and "n \<le> length (dat (z_buf z))"
  shows "\<exists>s. z_inp (bb_read_bytes bb n) z = Some (Inr (take n (dat (z_buf z))), z\<lparr>z_buf := s\<rparr>) \<and>
    z_bufs (z\<lparr>z_buf := s\<rparr>) \<and> dat s = drop n (dat (z_buf z))"
  using read_bytes [of "z_buf z" n] assms by (auto simp: z_bufs_def z_inp_def)

lemma z_adv:
  assumes "z_bufs z" and "n \<le> length (dat (z_buf z))"
  shows "\<exists>s. z_inp (bb_adv bb n) z = Some (Inr (), z\<lparr>z_buf := s\<rparr>) \<and>
    z_bufs (z\<lparr>z_buf := s\<rparr>) \<and> dat s = drop n (dat (z_buf z))"
  using adv [of "z_buf z" n] assms by (auto simp: z_bufs_def z_inp_def)

lemma z_put:
  assumes "z_bufs z" and "length (dat (z_outbuf z)) + length bs \<le> 131072"
  shows "\<exists>s. z_out (mb_put_slice mb bs) z = Some (Inr (), z\<lparr>z_outbuf := s\<rparr>) \<and>
    z_bufs (z\<lparr>z_outbuf := s\<rparr>) \<and> dat s = dat (z_outbuf z) @ bs"
proof -
  have b: "inv (z_outbuf z)" "bb_cap bb (z_outbuf z) = 131072" using assms(1) by (simp_all add: z_bufs_def)
  obtain s where s: "mb_put_slice mb bs (z_outbuf z) = Some (Inr (), s)" "inv s" "dat s = dat (z_outbuf z) @ bs"
    "bb_cap bb s = bb_cap bb (z_outbuf z)"
    using put_slice [OF b(1)] assms(2) b(2) by auto
  moreover have "mb_wcap mb (z_outbuf z) \<le> mb_wcap mb s + length bs" if "slide_buf_room bb inv dat mb"
    using slide_buf_room.wcap_put [OF that b(1) s(1)] .
  ultimately show ?thesis using assms(1) by (intro exI [of _ s]) (auto simp: z_bufs_def z_out_def)
qed

lemma z_put_command_ok:
  assumes "inv s" and "length (dat s) + length name + length ctx + 2 \<le> bb_cap bb s"
  shows "\<exists>s'. z_put_command mb name ctx s = Some s' \<and> inv s' \<and> bb_cap bb s' = bb_cap bb s \<and>
    dat s' = dat s @ z_command name ctx \<and>
    (slide_buf_room bb inv dat mb \<longrightarrow> mb_wcap mb s \<le> mb_wcap mb s' + length (z_command name ctx))"
proof -
  let ?w = "slide_buf_room bb inv dat mb"
  have put: "\<exists>s'. z_unwrap (mb_put_slice mb bs) t = Some s' \<and> inv s' \<and> dat s' = dat t @ bs \<and> bb_cap bb s' = bb_cap bb t \<and>
      (?w \<longrightarrow> mb_wcap mb t \<le> mb_wcap mb s' + length bs)"
    if "inv t" "length (dat t) + length bs \<le> bb_cap bb t" for t bs
    using put_slice [OF that] slide_buf_room.wcap_put [of bb inv dat mb t bs] that(1) by (auto simp: z_unwrap_def)
  have put8: "\<exists>s'. z_unwrap (mb_put_u8 mb v) t = Some s' \<and> inv s' \<and> dat s' = dat t @ [v] \<and> bb_cap bb s' = bb_cap bb t \<and>
      (?w \<longrightarrow> mb_wcap mb t \<le> mb_wcap mb s' + 1)"
    if "inv t" "length (dat t) + 1 \<le> bb_cap bb t" for t v
    using put [of t "[v]"] that by (simp add: z_unwrap_def put_u8)
  obtain s1 where s1: "z_unwrap (mb_put_u8 mb 0x04) s = Some s1" "inv s1" "dat s1 = dat s @ [0x04]" "bb_cap bb s1 = bb_cap bb s"
    "?w \<longrightarrow> mb_wcap mb s \<le> mb_wcap mb s1 + 1"
    using put8 [of s "0x04"] assms by auto
  obtain s2 where s2: "z_unwrap (mb_put_u8 mb (5 + of_nat (length ctx))) s1 = Some s2" "inv s2"
    "dat s2 = dat s1 @ [5 + of_nat (length ctx)]" "bb_cap bb s2 = bb_cap bb s" "?w \<longrightarrow> mb_wcap mb s1 \<le> mb_wcap mb s2 + 1"
    using put8 [of s1 "5 + of_nat (length ctx)"] assms s1 by auto
  obtain s3 where s3: "z_unwrap (mb_put_slice mb name) s2 = Some s3" "inv s3" "dat s3 = dat s2 @ name" "bb_cap bb s3 = bb_cap bb s"
    "?w \<longrightarrow> mb_wcap mb s2 \<le> mb_wcap mb s3 + length name"
    using put [of s2 name] assms s1 s2 by auto
  obtain s4 where s4: "z_unwrap (mb_put_slice mb ctx) s3 = Some s4" "inv s4" "dat s4 = dat s3 @ ctx" "bb_cap bb s4 = bb_cap bb s"
    "?w \<longrightarrow> mb_wcap mb s3 \<le> mb_wcap mb s4 + length ctx"
    using put [of s3 ctx] assms s1 s2 s3 by auto
  show ?thesis using s1 s2 s3 s4 by (auto simp: z_put_command_def z_command_def)
qed

lemma z_answer_ping_ok:
  assumes "inv s"
  shows "\<exists>s' r. z_answer_ping mb d s = Some s' \<and> inv s' \<and> bb_cap bb s' = bb_cap bb s \<and> dat s' = dat s @ r \<and>
    r \<in> z_answers (ZmtpCommand (the_frame m True d)) \<and>
    (slide_buf_room bb inv dat mb \<longrightarrow> mb_wcap mb s \<le> mb_wcap mb s' + length r \<and>
       (\<not> is_ping d \<or> length d + 32 \<le> mb_wcap mb s \<longrightarrow> r = z_answer (ZmtpCommand (the_frame m True d))))"
proof (cases "is_ping d")
  case False
  then show ?thesis using assms by (auto simp: z_answer_ping_def is_ping_def the_frame_def)
next
  case True
  let ?w = "slide_buf_room bb inv dat mb"
  let ?pong = "z_command (0x04 # str ''PONG'') (drop 7 d)" and ?ping = "z_command (0x04 # str ''PING'') (str ''daqingest'')"
  have lp: "length ?pong = length d" using True by (auto simp: z_command_def is_ping_def ping_lengths)
  have "\<exists>s1. (if mb_wcap mb s < length d then Some s else z_put_command mb (0x04 # str ''PONG'') (drop 7 d) s) = Some s1 \<and>
      inv s1 \<and> bb_cap bb s1 = bb_cap bb s \<and> dat s1 = dat s @ (if mb_wcap mb s < length d then [] else ?pong) \<and>
      (?w \<longrightarrow> mb_wcap mb s \<le> mb_wcap mb s1 + length (if mb_wcap mb s < length d then [] else ?pong))"
    using z_put_command_ok [OF assms, of "0x04 # str ''PONG''" "drop 7 d"] wcap [OF assms] True assms ping_lengths
    by (cases "mb_wcap mb s < length d") (auto simp: is_ping_def)
  then obtain s1 where s1: "(if mb_wcap mb s < length d then Some s else z_put_command mb (0x04 # str ''PONG'') (drop 7 d) s) = Some s1"
    "inv s1" "bb_cap bb s1 = bb_cap bb s" "dat s1 = dat s @ (if mb_wcap mb s < length d then [] else ?pong)"
    "?w \<longrightarrow> mb_wcap mb s \<le> mb_wcap mb s1 + length (if mb_wcap mb s < length d then [] else ?pong)" by blast
  have "\<exists>s2. (if mb_wcap mb s1 < 32 then Some s1 else z_put_command mb (0x04 # str ''PING'') (str ''daqingest'') s1) = Some s2 \<and>
      inv s2 \<and> bb_cap bb s2 = bb_cap bb s \<and> dat s2 = dat s1 @ (if mb_wcap mb s1 < 32 then [] else ?ping) \<and>
      (?w \<longrightarrow> mb_wcap mb s1 \<le> mb_wcap mb s2 + length (if mb_wcap mb s1 < 32 then [] else ?ping))"
    using z_put_command_ok [OF s1(2), of "0x04 # str ''PING''" "str ''daqingest''"] wcap [OF s1(2)] s1(2,3) ping_lengths
    by (cases "mb_wcap mb s1 < 32") auto
  then obtain s2 where s2: "(if mb_wcap mb s1 < 32 then Some s1 else z_put_command mb (0x04 # str ''PING'') (str ''daqingest'') s1) = Some s2"
    "inv s2" "bb_cap bb s2 = bb_cap bb s" "dat s2 = dat s1 @ (if mb_wcap mb s1 < 32 then [] else ?ping)"
    "?w \<longrightarrow> mb_wcap mb s1 \<le> mb_wcap mb s2 + length (if mb_wcap mb s1 < 32 then [] else ?ping)" by blast
  have a: "z_answer_ping mb d s = Some s2" using True s1(1) s2(1) by (simp add: z_answer_ping_def is_ping_def)
  let ?r = "(if mb_wcap mb s < length d then [] else ?pong) @ (if mb_wcap mb s1 < 32 then [] else ?ping)"
  have "?r \<in> z_answers (ZmtpCommand (the_frame m True d))"
    using True unfolding z_answers.simps the_frame_def by auto
  moreover have "?w \<longrightarrow> mb_wcap mb s \<le> mb_wcap mb s2 + length ?r" using s1(5) s2(5) by auto
  moreover have "?r = z_answer (ZmtpCommand (the_frame m True d))" if ?w "length d + 32 \<le> mb_wcap mb s"
  proof -
    have "\<not> mb_wcap mb s < length d" using that(2) by simp
    then have "\<not> mb_wcap mb s1 < 32" using s1(5) that lp by simp
    then show ?thesis using True \<open>\<not> mb_wcap mb s < length d\<close> by (simp add: the_frame_def)
  qed
  ultimately show ?thesis using a True s1(4) s2(2-4) by (intro exI [of _ s2] exI [of _ ?r]) auto
qed

end

section \<open>Parsing\<close>

fun z_weight :: "ConnState \<Rightarrow> nat" where
  "z_weight InitSend = 1"
| "z_weight (ReadFrameBody _) = 1"
| "z_weight _ = 0"

lemma length_says [simp]: "\<not> greeted st \<Longrightarrow> length (z_says st ty) \<le> 64"
  by (cases st) (simp_all add: z_greeting_def)

lemma length_ready: "length (z_ready ty) \<le> 64"
  by (cases ty) (simp_all add: z_ready_def str_def)

lemma length_says_all: "length (z_says st ty) \<le> 128"
  by (cases st; cases ty) (simp_all add: z_greeting_def z_ready_def str_def)

lemma hello_skip: "z_hello_ok h \<Longrightarrow> k \<le> 64 \<Longrightarrow> n \<le> 64 - k \<Longrightarrow> drop n (drop k h @ w) = drop (k + n) h @ w"
  by (simp add: z_hello_ok_def add.commute)

lemma hd_app: "d @ x = y @ w \<Longrightarrow> 1 \<le> length d \<Longrightarrow> 1 \<le> length y \<Longrightarrow> hd d = hd y"
  by (cases d; cases y) auto

context slide_buf_more
begin

definition z_step :: "('s, 'io) Zmtp \<Rightarrow> bytes \<Rightarrow> ZmtpEvent list \<Rightarrow> ZmtpEvent list \<Rightarrow> ZmtpEvent option \<Rightarrow> ('s, 'io) Zmtp \<Rightarrow> bool" where
  "z_step z missing seen evs r z' \<longleftrightarrow>
     (case r of None \<Rightarrow> z_ok z' missing seen evs
      | Some e \<Rightarrow> \<exists>es. evs = e # es \<and> z_ok z' missing (seen @ [e]) es) \<and>
     z_conn z' = z_conn z \<and> z_data_rx z' = z_data_rx z \<and> z_inp_eof z' = z_inp_eof z \<and>
     z_socket_type z' = z_socket_type z \<and>
     3 * length (dat (z_buf z')) + z_weight (z_conn_state z') < 3 * length (dat (z_buf z)) + z_weight (z_conn_state z)"

lemma said_room: "z_said z seen \<Longrightarrow> \<not> greeted (z_conn_state z) \<Longrightarrow> length (dat (z_outbuf z)) \<le> 64"
  using length_says [of "z_conn_state z" "z_socket_type z"]
  by (auto simp: z_said_def simp del: length_says dest!: arg_cong [where f = length])

lemma z_okD:
  assumes "z_ok z missing seen evs"
  shows "z_bufs z" "z_said z seen"
    "awaits (z_conn_state z) (z_frames z) (z_has_more z) (z_is_command z) (dat (z_buf z) @ to_come z @ missing) evs"
  using assms by (simp_all add: z_ok_def)

lemma parse_init_send:
  assumes "z_ok z missing seen evs" and "z_conn_state z = InitSend"
  shows "\<exists>r z'. z_parse_item bb mb z = Some (Inr r, z') \<and> z_step z missing seen evs r z'"
proof -
  have "length (dat (z_outbuf z)) + length z_greeting \<le> 131072"
    using said_room [OF z_okD(2) [OF assms(1)]] assms(2) by (simp add: z_greeting_def)
  then obtain s where s: "z_out (mb_put_slice mb z_greeting) z = Some (Inr (), z\<lparr>z_outbuf := s\<rparr>)"
    "z_bufs (z\<lparr>z_outbuf := s\<rparr>)" "dat s = dat (z_outbuf z) @ z_greeting"
    using z_put [OF z_okD(1) [OF assms(1)]] by blast
  then show ?thesis
    using assms by (auto simp: z_parse_item_def z_bind_def z_upd_def z_step_def z_ok_def z_bufs_def z_said_def to_come_def)
qed

lemma parse_recv1:
  assumes "z_ok z missing seen evs" and "z_conn_state z = InitRecv1" and "1 \<le> length (dat (z_buf z))"
  shows "\<exists>r z'. z_parse_item bb mb z = Some (Inr r, z') \<and> z_step z missing seen evs r z'"
proof -
  obtain s where s: "z_inp (mb_read_u8 mb) z = Some (Inr (hd (dat (z_buf z))), z\<lparr>z_buf := s\<rparr>)"
    "z_bufs (z\<lparr>z_buf := s\<rparr>)" "dat s = drop 1 (dat (z_buf z))"
    using z_read_u8 [OF z_okD(1) [OF assms(1)] assms(3)] by blast
  obtain h fs where h: "z_hello_ok h" "\<forall>f \<in> set fs. wf_ok f" "dat (z_buf z) @ to_come z @ missing = drop 0 h @ wires fs"
    "evs = z_events [] fs" "z_frames z = []" "\<not> z_has_more z"
    using z_okD(3) [OF assms(1)] assms(2) by (auto simp: hello_at_def)
  have "h \<noteq> []" using h(1) by (auto simp: z_hello_ok_def)
  then have b: "hd (dat (z_buf z)) = 0xff"
    using hd_app [OF h(3)] assms(3) h(1) by (cases h) (auto simp: z_hello_ok_def)
  have "drop 1 (dat (z_buf z)) @ to_come z @ missing = drop 1 h @ wires fs"
    using common_prefix(2) [OF h(3), of 1] assms(3) h(1) by (simp add: z_hello_ok_def)
  then show ?thesis
    using assms s h b
    by (auto simp: z_parse_item_def z_bind_def z_upd_def z_step_def z_ok_def z_bufs_def z_said_def to_come_def hello_at_def)
qed

end

context slide_buf_more
begin

lemma hello_obtain:
  assumes "hello_at k acc hm (d @ x) evs" and "n \<le> length d" and "k + n \<le> 64"
  obtains h fs where "z_hello_ok h" "\<forall>f \<in> set fs. wf_ok f" "acc = []" "\<not> hm" "evs = z_events [] fs"
    "take n d = take n (drop k h)" "drop n d @ x = drop (k + n) h @ wires fs"
proof -
  obtain h fs where h: "z_hello_ok h" "\<forall>f \<in> set fs. wf_ok f" "d @ x = drop k h @ wires fs" "acc = []" "\<not> hm"
    "evs = z_events [] fs"
    using assms(1) by (auto simp: hello_at_def)
  have "n \<le> length (drop k h)" using h(1) assms(3) by (simp add: z_hello_ok_def)
  from common_prefix [OF h(3) assms(2) this] h that show ?thesis by (simp add: add.commute)
qed

lemma until_zero: "0 \<in> set b \<Longrightarrow> length (takeWhile (\<lambda>x. x \<noteq> 0) b) < length (b :: bytes)"
  by (induction b) auto

lemma hd_take: "1 \<le> n \<Longrightarrow> hd (take n xs) = hd xs"
  by (cases n; cases xs) auto

lemma parse_recv2:
  assumes "z_ok z missing seen evs" and "z_conn_state z = InitRecv2" and "9 \<le> length (dat (z_buf z))"
  shows "\<exists>r z'. z_parse_item bb mb z = Some (Inr r, z') \<and> z_step z missing seen evs r z'"
proof -
  obtain s where s: "z_inp (bb_adv bb 8) z = Some (Inr (), z\<lparr>z_buf := s\<rparr>)"
    "z_bufs (z\<lparr>z_buf := s\<rparr>)" "dat s = drop 8 (dat (z_buf z))"
    using z_adv [OF z_okD(1) [OF assms(1)], of 8] assms(3) by auto
  then have "1 \<le> length (dat (z_buf (z\<lparr>z_buf := s\<rparr>)))" using assms(3) by simp
  from z_read_u8 [OF s(2) this]
  obtain s2 where s2: "z_inp (mb_read_u8 mb) (z\<lparr>z_buf := s\<rparr>) = Some (Inr (hd (drop 8 (dat (z_buf z)))), z\<lparr>z_buf := s2\<rparr>)"
    "z_bufs (z\<lparr>z_buf := s2\<rparr>)" "dat s2 = drop 9 (dat (z_buf z))"
    using s(3) by auto
  have "hello_at 1 (z_frames z) (z_has_more z) (dat (z_buf z) @ to_come z @ missing) evs"
    using z_okD(3) [OF assms(1)] assms(2) by simp
  then obtain h fs where h: "z_hello_ok h" "\<forall>f \<in> set fs. wf_ok f" "z_frames z = []" "\<not> z_has_more z" "evs = z_events [] fs"
    "take 9 (dat (z_buf z)) = take 9 (drop 1 h)" "drop 9 (dat (z_buf z)) @ to_come z @ missing = drop 10 h @ wires fs"
    by (rule hello_obtain [where n = 9]) (use assms(3) in simp_all)
  have "hd (drop 8 (dat (z_buf z))) = take 9 (dat (z_buf z)) ! 8" using assms(3) by (simp add: hd_drop_conv_nth)
  then have "and (hd (drop 8 (dat (z_buf z)))) 1 = 1" using h(1,6) by (simp add: z_hello_ok_def)
  then show ?thesis
    using assms s s2 h
    by (auto simp: z_parse_item_def z_bind_def z_upd_def z_step_def z_ok_def z_bufs_def z_said_def to_come_def hello_at_def)
qed

lemma parse_recv3:
  assumes "z_ok z missing seen evs" and "z_conn_state z = InitRecv3" and "1 \<le> length (dat (z_buf z))"
  shows "\<exists>r z'. z_parse_item bb mb z = Some (Inr r, z') \<and> z_step z missing seen evs r z'"
proof -
  obtain s where s: "z_inp (mb_read_u8 mb) z = Some (Inr (hd (dat (z_buf z))), z\<lparr>z_buf := s\<rparr>)"
    "z_bufs (z\<lparr>z_buf := s\<rparr>)" "dat s = drop 1 (dat (z_buf z))"
    using z_read_u8 [OF z_okD(1) [OF assms(1)] assms(3)] by blast
  have "hello_at 10 (z_frames z) (z_has_more z) (dat (z_buf z) @ to_come z @ missing) evs"
    using z_okD(3) [OF assms(1)] assms(2) by simp
  then obtain h fs where h: "z_hello_ok h" "\<forall>f \<in> set fs. wf_ok f" "z_frames z = []" "\<not> z_has_more z" "evs = z_events [] fs"
    "take 1 (dat (z_buf z)) = take 1 (drop 10 h)" "drop 1 (dat (z_buf z)) @ to_come z @ missing = drop 11 h @ wires fs"
    by (rule hello_obtain [where n = 1]) (use assms(3) in simp_all)
  have "hd (dat (z_buf z)) = hd (take 1 (drop 10 h))" using h(6) hd_take [of 1 "dat (z_buf z)"] by simp
  then have b: "hd (dat (z_buf z)) = 3" using h(1) by (simp add: z_hello_ok_def hd_take hd_drop_conv_nth)
  let ?z1 = "z\<lparr>z_buf := s, z_peer_ver := (3, snd (z_peer_ver z))\<rparr>"
  have room: "length (dat (z_outbuf z)) \<le> 64" using said_room [OF z_okD(2) [OF assms(1)]] assms(2) by simp
  have b1: "z_bufs ?z1" using s(2) by (simp add: z_bufs_def)
  obtain s1 where s1: "z_out (mb_put_slice mb [0x4e, 0x55, 0x4c, 0x4c]) ?z1 = Some (Inr (), ?z1\<lparr>z_outbuf := s1\<rparr>)"
    "z_bufs (?z1\<lparr>z_outbuf := s1\<rparr>)" "dat s1 = dat (z_outbuf z) @ [0x4e, 0x55, 0x4c, 0x4c]"
    using z_put [OF b1, of "[0x4e, 0x55, 0x4c, 0x4c]"] room by auto
  obtain s2 where s2: "z_out (mb_put_slice mb (replicate 48 0)) (?z1\<lparr>z_outbuf := s1\<rparr>) = Some (Inr (), ?z1\<lparr>z_outbuf := s2\<rparr>)"
    "z_bufs (?z1\<lparr>z_outbuf := s2\<rparr>)" "dat s2 = dat s1 @ replicate 48 0"
    using z_put [OF s1(2), of "replicate 48 0"] room s1(3) by auto
  show ?thesis
    using assms s h b s1 s2
    by (auto simp: z_parse_item_def z_bind_def z_upd_def z_step_def z_ok_def z_bufs_def z_said_def to_come_def hello_at_def)
qed

lemma parse_recv4:
  assumes "z_ok z missing seen evs" and "z_conn_state z = InitRecv4" and "1 \<le> length (dat (z_buf z))"
  shows "\<exists>r z'. z_parse_item bb mb z = Some (Inr r, z') \<and> z_step z missing seen evs r z'"
proof -
  obtain s where s: "z_inp (mb_read_u8 mb) z = Some (Inr (hd (dat (z_buf z))), z\<lparr>z_buf := s\<rparr>)"
    "z_bufs (z\<lparr>z_buf := s\<rparr>)" "dat s = drop 1 (dat (z_buf z))"
    using z_read_u8 [OF z_okD(1) [OF assms(1)] assms(3)] by blast
  have "hello_at 11 (z_frames z) (z_has_more z) (dat (z_buf z) @ to_come z @ missing) evs"
    using z_okD(3) [OF assms(1)] assms(2) by simp
  then obtain h fs where h: "z_hello_ok h" "\<forall>f \<in> set fs. wf_ok f" "z_frames z = []" "\<not> z_has_more z" "evs = z_events [] fs"
    "take 1 (dat (z_buf z)) = take 1 (drop 11 h)" "drop 1 (dat (z_buf z)) @ to_come z @ missing = drop 12 h @ wires fs"
    by (rule hello_obtain [where n = 1]) (use assms(3) in simp_all)
  have "hd (dat (z_buf z)) = hd (take 1 (drop 11 h))" using h(6) hd_take [of 1 "dat (z_buf z)"] by simp
  then have "\<not> hd (dat (z_buf z)) > 1" using h(1) by (simp add: z_hello_ok_def hd_take hd_drop_conv_nth not_less)
  then show ?thesis
    using assms s h
    by (auto simp: z_parse_item_def z_bind_def z_upd_def z_step_def z_ok_def z_bufs_def z_said_def to_come_def hello_at_def)
qed

lemma parse_recv5:
  assumes "z_ok z missing seen evs" and "z_conn_state z = InitRecv5" and "52 \<le> length (dat (z_buf z))"
  shows "\<exists>r z'. z_parse_item bb mb z = Some (Inr r, z') \<and> z_step z missing seen evs r z'"
proof -
  have "hello_at 12 (z_frames z) (z_has_more z) (dat (z_buf z) @ to_come z @ missing) evs"
    using z_okD(3) [OF assms(1)] assms(2) by simp
  then obtain h fs where h: "z_hello_ok h" "\<forall>f \<in> set fs. wf_ok f" "z_frames z = []" "\<not> z_has_more z" "evs = z_events [] fs"
    "take 52 (dat (z_buf z)) = take 52 (drop 12 h)" "drop 52 (dat (z_buf z)) @ to_come z @ missing = drop 64 h @ wires fs"
    by (rule hello_obtain [where n = 52]) (use assms(3) in simp_all)
  let ?b2 = "take 20 (drop 12 h)"
  have b2: "take 20 (dat (z_buf z)) = ?b2"
    using arg_cong [where f = "take 20", OF h(6)] by simp
  obtain s where s: "z_inp (bb_read_bytes bb 20) z = Some (Inr ?b2, z\<lparr>z_buf := s\<rparr>)"
    "z_bufs (z\<lparr>z_buf := s\<rparr>)" "dat s = drop 20 (dat (z_buf z))"
    using z_read_bytes [OF z_okD(1) [OF assms(1)], of 20] assms(3) b2 by auto
  have "32 \<le> length (dat (z_buf (z\<lparr>z_buf := s\<rparr>)))" using assms(3) s(3) by simp
  from z_adv [OF s(2) this]
  obtain s1 where s1: "z_inp (bb_adv bb 32) (z\<lparr>z_buf := s\<rparr>) = Some (Inr (), z\<lparr>z_buf := s1\<rparr>)"
    "z_bufs (z\<lparr>z_buf := s1\<rparr>)" "dat s1 = drop 52 (dat (z_buf z))"
    using s(3) by auto
  have room: "length (dat (z_outbuf z)) \<le> 64" using said_room [OF z_okD(2) [OF assms(1)]] assms(2) by simp
  then obtain s2 where s2: "z_out (mb_put_slice mb (z_ready (z_socket_type z))) (z\<lparr>z_buf := s1\<rparr>) =
      Some (Inr (), z\<lparr>z_buf := s1, z_outbuf := s2\<rparr>)"
    "z_bufs (z\<lparr>z_buf := s1, z_outbuf := s2\<rparr>)" "dat s2 = dat (z_outbuf z) @ z_ready (z_socket_type z)"
    using z_put [OF s1(2), of "z_ready (z_socket_type z)"] length_ready [of "z_socket_type z"] by auto
  have "0 \<in> set ?b2" "utf8_valid (takeWhile (\<lambda>b. b \<noteq> 0) ?b2)" "length h = 64" using h(1) by (simp_all add: z_hello_ok_def)
  moreover from this(1) have "\<not> length (takeWhile (\<lambda>b. b \<noteq> 0) ?b2) \<ge> length ?b2" using until_zero [of ?b2] by (simp only: not_le)
  ultimately have p: "z_parse_item bb mb z =
      Some (Inr None, z\<lparr>z_buf := s1, z_outbuf := s2, z_out_enable := True, z_conn_state := ReadFrameFlags\<rparr>)"
    using assms(2) s(1) s1(1) s2(1) by (simp add: z_parse_item_def z_bind_def z_upd_def Let_def)
  have "t_sent (z_conn z) @ dat (z_outbuf z) = z_says InitRecv5 (z_socket_type z)" "seen = []"
    using z_okD(2) [OF assms(1)] assms(2) by (auto simp: z_said_def)
  moreover have "dat s1 @ to_come z @ missing = wires fs" using h(7) s1(3) \<open>length h = 64\<close> by simp
  ultimately show ?thesis
    using assms(1-3) s1 s2 h(2-5)
    by (auto simp: p z_step_def z_ok_def z_bufs_def z_said_def to_come_def)
qed

end

declare z_events.simps(2) [simp del]

lemma awaits_size:
  assumes "flags_read f acc hm cmd" and "\<forall>f \<in> set fs. wf_ok f"
  shows "awaits (if wf_long f then ReadFrameLong else ReadFrameShort) acc hm cmd (wf_size f @ snd f @ wires fs) (z_events acc (f # fs))"
  using assms by (cases "wf_long f"; simp del: split_paired_Ex; blast)

lemma awaits_body:
  assumes "flags_read f acc hm cmd" and "\<forall>f \<in> set fs. wf_ok f"
  shows "awaits (ReadFrameBody (length (snd f))) acc hm cmd (snd f @ wires fs) (z_events acc (f # fs))"
  using assms by (simp del: split_paired_Ex) blast

context slide_buf_more
begin

lemma parse_flags:
  assumes "z_ok z missing seen evs" and "z_conn_state z = ReadFrameFlags" and "1 \<le> length (dat (z_buf z))"
  shows "\<exists>r z'. z_parse_item bb mb z = Some (Inr r, z') \<and> z_step z missing seen evs r z'"
proof -
  obtain s where s: "z_inp (mb_read_u8 mb) z = Some (Inr (hd (dat (z_buf z))), z\<lparr>z_buf := s\<rparr>)"
    "z_bufs (z\<lparr>z_buf := s\<rparr>)" "dat s = drop 1 (dat (z_buf z))"
    using z_read_u8 [OF z_okD(1) [OF assms(1)] assms(3)] by blast
  obtain fs where fs: "\<forall>f \<in> set fs. wf_ok f" "dat (z_buf z) @ to_come z @ missing = wires fs"
    "evs = z_events (z_frames z) fs" "z_has_more z = (z_frames z \<noteq> [])"
    using z_okD(3) [OF assms(1)] assms(2) by auto
  have "fs \<noteq> []" using fs(2) assms(3) by auto
  then obtain f gs where f: "fs = f # gs" by (cases fs) auto
  have b: "hd (dat (z_buf z)) = fst f" "drop 1 (dat (z_buf z)) @ to_come z @ missing = wf_size f @ snd f @ wires gs"
    using fs(2) assms(3) f by (cases "dat (z_buf z)", auto)+
  have "flags_read f (z_frames z) (if wf_command f then z_has_more z else wf_more f) (wf_command f)"
    using fs(1,4) f by (simp add: flags_read_def)
  then have aw: "awaits (if wf_long f then ReadFrameLong else ReadFrameShort) (z_frames z)
      (if wf_command f then z_has_more z else wf_more f) (wf_command f) (dat s @ to_come z @ missing) evs"
    using awaits_size [of f "z_frames z" "if wf_command f then z_has_more z else wf_more f" "wf_command f" gs] fs(1,3) f b(2) s(3) by simp
  let ?z1 = "(if wf_command f then z\<lparr>z_buf := s\<rparr> else z\<lparr>z_buf := s, z_has_more := wf_more f\<rparr>)
      \<lparr>z_is_command := wf_command f, z_conn_state := if wf_long f then ReadFrameLong else ReadFrameShort\<rparr>"
  have p: "z_parse_item bb mb z = Some (Inr None, ?z1)"
    using assms(2) s(1) b(1) by (simp add: z_parse_item_def z_bind_def Let_def wf_command_def wf_more_def wf_long_def)
  have l: "length (dat s) < length (dat (z_buf z))" using s(3) assms(3) by simp
  show ?thesis
    using assms(1,2) s(2) aw l
    by (auto simp: p z_step_def z_ok_def z_bufs_def z_said_def to_come_def)
qed

lemma set_msglen_ok:
  assumes "z_ok z missing seen evs" and "z_bufs (z\<lparr>z_buf := s\<rparr>)" and "dat s @ to_come z @ missing = snd f @ wires fs"
    and "flags_read f (z_frames z) (z_has_more z) (z_is_command z)" and "\<forall>f \<in> set fs. wf_ok f"
    and "evs = z_events (z_frames z) (f # fs)" and "greeted (z_conn_state z)"
    and "length (dat s) < length (dat (z_buf z))"
  shows "\<exists>r z'. z_set_msglen bb (length (snd f)) (z\<lparr>z_buf := s\<rparr>) = Some (Inr r, z') \<and> z_step z missing seen evs r z'"
proof -
  have "z_set_msglen bb (length (snd f)) (z\<lparr>z_buf := s\<rparr>) =
      Some (Inr None, z\<lparr>z_buf := s, z_msglen := length (snd f), z_conn_state := ReadFrameBody (length (snd f))\<rparr>)"
    using assms(2,4) by (simp add: z_set_msglen_def z_bufs_def flags_read_def wf_ok_def)
  moreover have "z_says (z_conn_state z) ty = z_says (ReadFrameBody n) ty" for n ty
    using assms(7) by (cases "z_conn_state z") simp_all
  ultimately show ?thesis
    using assms awaits_body [OF assms(4,5)] by (auto simp: z_step_def z_ok_def z_bufs_def z_said_def to_come_def simp del: awaits.simps)
qed

lemma parse_short:
  assumes "z_ok z missing seen evs" and "z_conn_state z = ReadFrameShort" and "1 \<le> length (dat (z_buf z))"
  shows "\<exists>r z'. z_parse_item bb mb z = Some (Inr r, z') \<and> z_step z missing seen evs r z'"
proof -
  obtain s where s: "z_inp (mb_read_u8 mb) z = Some (Inr (hd (dat (z_buf z))), z\<lparr>z_buf := s\<rparr>)"
    "z_bufs (z\<lparr>z_buf := s\<rparr>)" "dat s = drop 1 (dat (z_buf z))"
    using z_read_u8 [OF z_okD(1) [OF assms(1)] assms(3)] by blast
  obtain f fs where f: "flags_read f (z_frames z) (z_has_more z) (z_is_command z)" "\<not> wf_long f" "\<forall>f \<in> set fs. wf_ok f"
    "dat (z_buf z) @ to_come z @ missing = wf_size f @ snd f @ wires fs" "evs = z_events (z_frames z) (f # fs)"
    using z_okD(3) [OF assms(1)] assms(2) by auto
  have sz: "wf_size f = [of_nat (length (snd f))]" using f(2) by (simp add: wf_size_def)
  have "hd (dat (z_buf z)) = of_nat (length (snd f))" using hd_app [OF f(4)] assms(3) sz by simp
  moreover have "unat (of_nat (length (snd f)) :: u8) = length (snd f)"
    using f(1,2) by (simp add: flags_read_def wf_ok_def unsigned_of_nat take_bit_nat_eq_self)
  ultimately have p: "z_parse_item bb mb z = z_set_msglen bb (length (snd f)) (z\<lparr>z_buf := s\<rparr>)"
    using assms(2) s(1) by (simp add: z_parse_item_def z_bind_def)
  have "dat s @ to_come z @ missing = snd f @ wires fs"
    using common_prefix(2) [OF f(4), of 1] assms(3) sz s(3) by simp
  from set_msglen_ok [OF assms(1) s(2) this f(1,3,5)] show ?thesis
    using assms(2,3) s(3) by (simp add: p)
qed

lemma parse_long:
  assumes "z_ok z missing seen evs" and "z_conn_state z = ReadFrameLong" and "8 \<le> length (dat (z_buf z))"
  shows "\<exists>r z'. z_parse_item bb mb z = Some (Inr r, z') \<and> z_step z missing seen evs r z'"
proof -
  obtain s where s: "z_inp (mb_read_u64_be mb) z = Some (Inr (from_be (take 8 (dat (z_buf z)))), z\<lparr>z_buf := s\<rparr>)"
    "z_bufs (z\<lparr>z_buf := s\<rparr>)" "dat s = drop 8 (dat (z_buf z))"
    using z_read_u64 [OF z_okD(1) [OF assms(1)] assms(3)] by blast
  obtain f fs where f: "flags_read f (z_frames z) (z_has_more z) (z_is_command z)" "wf_long f" "\<forall>f \<in> set fs. wf_ok f"
    "dat (z_buf z) @ to_come z @ missing = wf_size f @ snd f @ wires fs" "evs = z_events (z_frames z) (f # fs)"
    using z_okD(3) [OF assms(1)] assms(2) by auto
  have sz: "wf_size f = to_be 8 (of_nat (length (snd f)) :: u64)" using f(2) by (simp add: wf_size_def)
  have "take 8 (dat (z_buf z)) = to_be 8 (of_nat (length (snd f)) :: u64)"
    using common_prefix(1) [OF f(4), of 8] assms(3) sz by simp
  then have "from_be (take 8 (dat (z_buf z))) = (of_nat (length (snd f)) :: u64)" by (simp add: from_to_be)
  moreover have "unat (of_nat (length (snd f)) :: u64) = length (snd f)"
    using f(1) by (simp add: flags_read_def wf_ok_def unsigned_of_nat take_bit_nat_eq_self)
  ultimately have p: "z_parse_item bb mb z = z_set_msglen bb (length (snd f)) (z\<lparr>z_buf := s\<rparr>)"
    using assms(2) s(1) by (simp add: z_parse_item_def z_bind_def)
  have "dat s @ to_come z @ missing = snd f @ wires fs"
    using common_prefix(2) [OF f(4), of 8] assms(3) sz s(3) by simp
  from set_msglen_ok [OF assms(1) s(2) this f(1,3,5)] show ?thesis
    using assms(2,3) s(3) by (simp add: p)
qed

lemma said_more:
  assumes "list_all2 (\<lambda>r e. r \<in> z_answers e) rs seen" and "r \<in> z_answers e"
  shows "list_all2 (\<lambda>r e. r \<in> z_answers e) (rs @ [r]) (seen @ [e])"
  using assms by (simp add: list_all2_appendI)

lemma parse_body:
  assumes "z_ok z missing seen evs" and "z_conn_state z = ReadFrameBody n" and "n \<le> length (dat (z_buf z))"
  shows "\<exists>r z'. z_parse_item bb mb z = Some (Inr r, z') \<and> z_step z missing seen evs r z'"
proof -
  obtain f fs where f: "flags_read f (z_frames z) (z_has_more z) (z_is_command z)" "n = length (snd f)" "\<forall>f \<in> set fs. wf_ok f"
    "dat (z_buf z) @ to_come z @ missing = snd f @ wires fs" "evs = z_events (z_frames z) (f # fs)"
    using z_okD(3) [OF assms(1)] assms(2) by auto
  obtain s where s: "z_inp (bb_read_bytes bb n) z = Some (Inr (snd f), z\<lparr>z_buf := s\<rparr>)"
    "z_bufs (z\<lparr>z_buf := s\<rparr>)" "dat s = drop n (dat (z_buf z))"
    using z_read_bytes [OF z_okD(1) [OF assms(1)] assms(3)] common_prefix(1) [OF f(4) assms(3)] f(2) by auto
  have rest: "dat s @ to_come z @ missing = wires fs" using common_prefix(2) [OF f(4) assms(3)] f(2) s(3) by simp
  have b: "inv (z_outbuf z)" "bb_cap bb (z_outbuf z) = 131072" "inv s" "bb_cap bb s = 131072" using s(2) by (simp_all add: z_bufs_def)
  have room0: "slide_buf_room bb inv dat mb \<longrightarrow>
      131072 \<le> mb_wcap mb (z_outbuf z) + length (t_sent (z_conn z)) + length (dat (z_outbuf z))"
    using z_okD(1) [OF assms(1)] by (simp add: z_bufs_def)
  obtain rs where rs: "list_all2 (\<lambda>r e. r \<in> z_answers e) rs seen"
    "t_sent (z_conn z) @ dat (z_outbuf z) = z_says ReadFrameFlags (z_socket_type z) @ concat rs"
    "slide_buf_room bb inv dat mb \<and> answers_fit seen \<longrightarrow> rs = map z_answer seen"
    using z_okD(2) [OF assms(1)] assms(2) by (auto simp: z_said_def)
  have clean: "clean_conn (z_conn z)" "\<not> z_done z" "\<not> z_complete z" using assms(1) by (simp_all add: z_ok_def)
  let ?z1 = "z\<lparr>z_buf := s, z_conn_state := ReadFrameFlags, z_msglen := 0\<rparr>"
  have hm: "z_has_more z = (if wf_command f then z_frames z \<noteq> [] else wf_more f)" "z_is_command z = wf_command f"
    using f(1) by (auto simp: flags_read_def)
  show ?thesis
  proof (cases "wf_command f")
    case True
    let ?g = "the_frame (z_frames z \<noteq> []) True (snd f)"
    obtain s' r where r: "z_answer_ping mb (snd f) (z_outbuf z) = Some s'" "inv s'" "bb_cap bb s' = bb_cap bb (z_outbuf z)"
      "dat s' = dat (z_outbuf z) @ r" "r \<in> z_answers (ZmtpCommand ?g)"
      "slide_buf_room bb inv dat mb \<longrightarrow> mb_wcap mb (z_outbuf z) \<le> mb_wcap mb s' + length r \<and>
         (\<not> is_ping (snd f) \<or> length (snd f) + 32 \<le> mb_wcap mb (z_outbuf z) \<longrightarrow> r = z_answer (ZmtpCommand ?g))"
      using z_answer_ping_ok [OF b(1)] by blast
    have p: "z_parse_item bb mb z = Some (Inr (Some (ZmtpCommand ?g)), ?z1\<lparr>z_outbuf := s'\<rparr>)"
      using assms(2) s(1) r(1) hm True f(2) by (simp add: z_parse_item_def z_recv_body_def z_bind_def Let_def the_frame_def)
    have exact: "rs @ [r] = map z_answer (seen @ [ZmtpCommand ?g])"
      if w: "slide_buf_room bb inv dat mb" and fit: "answers_fit (seen @ [ZmtpCommand ?g])"
    proof -
      have e: "rs = map z_answer seen" using rs(3) w fit by (simp add: answers_fit_def)
      have "131072 \<le> mb_wcap mb (z_outbuf z) + length (t_sent (z_conn z) @ dat (z_outbuf z))"
        using w room0 by simp
      then have "131072 \<le> mb_wcap mb (z_outbuf z) + 128 + length (concat (map z_answer seen))"
        unfolding rs(2) e using length_says_all [of ReadFrameFlags "z_socket_type z"] by simp
      then have "\<not> is_ping (snd f) \<or> length (snd f) + 32 \<le> mb_wcap mb (z_outbuf z)"
        using fit length_answer [of ?g] by (auto simp: answers_fit_def the_frame_def simp del: z_answer.simps)
      then show ?thesis using e r(6) w by (simp del: z_answer.simps)
    qed
    have room: "slide_buf_room bb inv dat mb \<longrightarrow> 131072 \<le> mb_wcap mb s' + length (t_sent (z_conn z)) + length (dat s')"
      using room0 r(4,6) by (auto simp del: z_answer.simps)
    have "t_sent (z_conn z) @ dat s' = z_says ReadFrameFlags (z_socket_type z) @ concat (rs @ [r])" using rs(2) r(4)
      by (metis append.assoc concat.simps concat_append append_Nil2)
    then have "z_said (?z1\<lparr>z_outbuf := s'\<rparr>) (seen @ [ZmtpCommand ?g])"
      using said_more [OF rs(1) r(5)] exact unfolding z_said_def
      by (intro conjI) (simp, rule exI [of _ "rs @ [r]"], simp del: z_answer.simps z_answers.simps map_append)
    then show ?thesis
      using assms(2,3) f(2,3,5) rest b r(2,3) clean hm s(3) True room
      by (auto simp: p z_events.simps z_step_def z_ok_def z_bufs_def to_come_def simp del: z_answers.simps)
  next
    case False
    have said: "z_said (?z1\<lparr>z_frames := fr\<rparr>) seen" for fr
      using rs by (auto simp: z_said_def)
    have said_msg: "z_said (?z1\<lparr>z_frames := fr\<rparr>) (seen @ [ZmtpMsg m])" for fr m
      using said_more [OF rs(1), of "[]" "ZmtpMsg m"] rs(2) rs(3) [unfolded answers_fit_def] unfolding z_said_def answers_fit_def
      by (intro conjI) (simp, rule exI [of _ "rs @ [[]]"], simp)
    show ?thesis
    proof (cases "wf_more f")
      case True
      have p: "z_parse_item bb mb z = Some (Inr None, ?z1\<lparr>z_frames := z_frames z @ [the_frame True False (snd f)]\<rparr>)"
        using assms(2) s(1) hm True False f(2) by (simp add: z_parse_item_def z_recv_body_def z_bind_def Let_def the_frame_def)
      show ?thesis
        using assms(2,3) f(2,3,5) rest b clean hm s(3) True False said room0
        by (auto simp: p z_events.simps z_step_def z_ok_def z_bufs_def to_come_def)
    next
      case nomore: False
      let ?m = "\<lparr>zm_frames = z_frames z @ [the_frame False False (snd f)]\<rparr>"
      have p: "z_parse_item bb mb z = Some (Inr (Some (ZmtpMsg ?m)), ?z1\<lparr>z_frames := []\<rparr>)"
        using assms(2) s(1) hm nomore False f(2) by (simp add: z_parse_item_def z_recv_body_def z_bind_def Let_def the_frame_def)
      show ?thesis
        using assms(2,3) f(2,3,5) rest b clean hm s(3) nomore False said_msg room0
        by (auto simp: p z_events.simps z_step_def z_ok_def z_bufs_def to_come_def)
    qed
  qed
qed

lemma parse_item_ok:
  assumes "z_ok z missing seen evs" and "z_need_min (z_conn_state z) \<le> length (dat (z_buf z))"
  shows "\<exists>r z'. z_parse_item bb mb z = Some (Inr r, z') \<and> z_step z missing seen evs r z'"
proof (cases "z_conn_state z")
  case (LockScan n)
  then show ?thesis using z_okD(3) [OF assms(1)] by simp
next
  case (ReadFrameBody n)
  then show ?thesis using parse_body [OF assms(1)] assms(2) by simp
qed (use assms(2) parse_init_send [OF assms(1)] parse_recv1 [OF assms(1)] parse_recv2 [OF assms(1)] parse_recv3 [OF assms(1)]
    parse_recv4 [OF assms(1)] parse_recv5 [OF assms(1)] parse_flags [OF assms(1)] parse_short [OF assms(1)]
    parse_long [OF assms(1)] in simp_all)

end

section \<open>A round of the loop\<close>

lemma clean_connD:
  "clean_conn t \<Longrightarrow> t_in t = x # xs \<Longrightarrow> x \<noteq> RdErr e" "clean_conn t \<Longrightarrow> t_out t = y # ys \<Longrightarrow> y \<noteq> WrErr e"
  by (auto simp: clean_conn_def)

lemma poll_read_clean:
  assumes "clean_conn t" and "poll_read k t = (r, t')"
  shows "clean_conn t'" "\<nexists>e. r = Ready (Inl e)" "length (t_in t') \<le> length (t_in t)"
    "r = Pending \<Longrightarrow> t_in t = [] \<or> length (t_in t') < length (t_in t)"
    "r = Ready (Inr []) \<Longrightarrow> 0 < k \<Longrightarrow> t_in t = RdData [] # t_in t'"
    "RdData [] \<notin> set (t_in t) \<Longrightarrow> RdData [] \<notin> set (t_in t')"
  using assms by (auto simp: poll_read_def clean_conn_def split: list.splits tcp_read.splits if_splits)

context slide_buf_more
begin

lemma z_need_bound: "awaits st acc hm cmd bs evs \<Longrightarrow> z_need_min st \<le> 65536"
  by (cases st) (auto simp: flags_read_def wf_ok_def)

lemma z_serialize_ok:
  assumes "z_serialize bb mb z = (r, z')"
  shows "z' = z\<lparr>z_data_rx := z_data_rx z'\<rparr> \<and> length (z_data_rx z') \<le> length (z_data_rx z) \<and>
    (r = IntEmpty \<longrightarrow> length (z_data_rx z') < length (z_data_rx z)) \<and> r \<in> {IntNoWork, IntPend, IntEmpty, IntDone}"
  using assms by (auto simp: z_serialize_def split: if_splits list.splits poll.splits option.splits)

lemma z_write_ok:
  assumes "z_ok z missing seen evs"
  shows "\<exists>r z'. z_write bb 0 z = Some (r, z') \<and> z_ok z' missing seen evs \<and> r \<in> {IntNoWork, IntPend, IntEmpty} \<and>
    t_in (z_conn z') = t_in (z_conn z) \<and> z_buf z' = z_buf z \<and> z_conn_state z' = z_conn_state z \<and> z_inp_eof z' = z_inp_eof z \<and>
    z_socket_type z' = z_socket_type z \<and> z_data_rx z' = z_data_rx z \<and> length (t_out (z_conn z')) \<le> length (t_out (z_conn z)) \<and>
    (r = IntEmpty \<longrightarrow> length (t_out (z_conn z')) < length (t_out (z_conn z)))"
proof -
  have b: "inv (z_outbuf z)" using z_okD(1) [OF assms] by (simp add: z_bufs_def)
  note f = z_okD [OF assms]
  obtain r t where t: "poll_write (dat (z_outbuf z)) (z_conn z) = (r, t)" by fastforce
  show ?thesis
  proof (cases "dat (z_outbuf z) = []")
    case True
    then show ?thesis using assms len [OF b] by (simp add: z_write_def)
  next
    case False
    show ?thesis
    proof (cases r)
      case Pending
      then have "t = z_conn z \<or> (\<exists>xs. t_out (z_conn z) = WrPending # xs \<and> t = z_conn z\<lparr>t_out := xs\<rparr>)"
        using t by (auto simp: poll_write_def split: list.splits tcp_write.splits)
      then have "z_ok (z\<lparr>z_conn := t\<rparr>) missing seen evs" "t_in t = t_in (z_conn z)" "length (t_out t) \<le> length (t_out (z_conn z))"
        using assms by (auto simp: z_ok_def clean_conn_def z_bufs_def z_said_def to_come_def)
      moreover have "z_write bb 0 z = Some (IntPend, z\<lparr>z_conn := t\<rparr>)"
        using False t Pending len [OF b] data [OF b] by (simp add: z_write_def)
      ultimately show ?thesis by simp
    next
      case (Ready x)
      have "clean_conn (z_conn z)" using assms by (simp add: z_ok_def)
      then obtain n xs where w: "t_out (z_conn z) = WrAccept n # xs" "x = Inr (min n (length (dat (z_outbuf z))))"
        "t = z_conn z\<lparr>t_out := xs, t_sent := t_sent (z_conn z) @ take n (dat (z_outbuf z))\<rparr>"
        using t Ready by (auto simp: poll_write_def clean_conn_def split: list.splits tcp_write.splits)
      let ?k = "min n (length (dat (z_outbuf z)))"
      obtain s where s: "bb_adv bb ?k (z_outbuf z) = Some (Inr (), s)" "inv s" "dat s = drop ?k (dat (z_outbuf z))"
        "bb_cap bb s = bb_cap bb (z_outbuf z)"
        using adv [OF b, of ?k] by auto
      have wc: "slide_buf_room bb inv dat mb \<Longrightarrow> mb_wcap mb (z_outbuf z) \<le> mb_wcap mb s"
        using slide_buf_room.wcap_adv [of bb inv dat mb "z_outbuf z" ?k s] b s(1) by simp
      have p: "z_write bb 0 z = Some (IntEmpty, z\<lparr>z_conn := t, z_outbuf := s\<rparr>)"
        using False t Ready w(2) s(1) len [OF b] data [OF b] by (simp add: z_write_def)
      have "take n (dat (z_outbuf z)) @ dat s = dat (z_outbuf z)"
        using s(3) by (metis append_take_drop_id min.commute take_all_iff take_take order_refl)
      then have "z_said (z\<lparr>z_conn := t, z_outbuf := s\<rparr>) seen"
        using f(2) w(3) by (simp add: z_said_def)
      then have "z_ok (z\<lparr>z_conn := t, z_outbuf := s\<rparr>) missing seen evs"
        using assms w s wc by (auto simp: z_ok_def clean_conn_def z_bufs_def to_come_def)
      then show ?thesis using p w by simp
    qed
  qed
qed

lemma z_read_ok:
  assumes "z_ok z missing seen evs"
  shows "\<exists>r z'. z_read bb 0 z = Some (Inr r, z') \<and> z_ok z' missing seen evs \<and> r \<in> {IntNoWork, IntPend, IntEmpty, IntDone} \<and>
    t_out (z_conn z') = t_out (z_conn z) \<and> z_conn_state z' = z_conn_state z \<and> z_data_rx z' = z_data_rx z \<and>
    length (t_in (z_conn z')) \<le> length (t_in (z_conn z)) \<and> z_socket_type z' = z_socket_type z \<and>
    (RdData [] \<notin> set (t_in (z_conn z)) \<longrightarrow> RdData [] \<notin> set (t_in (z_conn z'))) \<and>
    in_w (t_in (z_conn z')) + 4 * length (dat (z_buf z')) \<le> in_w (t_in (z_conn z)) + 4 * length (dat (z_buf z)) \<and>
    length (dat (z_buf z)) \<le> length (dat (z_buf z')) \<and> (r = IntEmpty \<longrightarrow> length (dat (z_buf z)) < length (dat (z_buf z'))) \<and>
    (r = IntPend \<longrightarrow> t_in (z_conn z) = [] \<or> length (t_in (z_conn z')) < length (t_in (z_conn z))) \<and>
    (r = IntDone \<longrightarrow> z_inp_eof z' \<and> t_in (z_conn z) = RdData [] # t_in (z_conn z')) \<and>
    (r \<noteq> IntDone \<longrightarrow> z_inp_eof z' = z_inp_eof z) \<and>
    (r = IntNoWork \<longrightarrow> z' = z \<and> (z_inp_eof z \<or> z_need_min (z_conn_state z) \<le> length (dat (z_buf z))))"
proof -
  let ?need = "z_need_min (z_conn_state z)"
  have b: "inv (z_buf z)" "bb_cap bb (z_buf z) = 131072" using z_okD(1) [OF assms] by (simp_all add: z_bufs_def)
  have need: "?need \<le> 65536" using z_need_bound [OF z_okD(3) [OF assms]] .
  show ?thesis
  proof (cases "z_inp_eof z \<or> ?need \<le> length (dat (z_buf z))")
    case True
    then show ?thesis using assms len [OF b(1)] b(2) need by (auto simp: z_read_def)
  next
    case False
    obtain a s where a: "bb_area bb ?need (z_buf z) = Some (a, s)" "inv s" "dat s = dat (z_buf z)" "bb_cap bb s = bb_cap bb (z_buf z)"
      "case a of Inr a \<Rightarrow> ?need \<le> length a \<and> (\<forall>bs. length bs \<le> length a \<longrightarrow>
          (\<exists>s1 s2. bb_fill bb bs s = Some s1 \<and> bb_wadv bb (length bs) s1 = Some (Inr (), s2) \<and>
            inv s2 \<and> dat s2 = dat (z_buf z) @ bs \<and> bb_cap bb s2 = bb_cap bb (z_buf z)))
       | Inl _ \<Rightarrow> bb_cap bb (z_buf z) < length (dat (z_buf z)) + ?need"
      using area [OF b(1), of ?need] by blast
    have "\<not> bb_cap bb (z_buf z) < length (dat (z_buf z)) + ?need" using False b(2) need by simp
    then obtain area where area: "a = Inr area" using a(5) by (cases a) auto
    obtain r t where t: "poll_read (length area) (z_conn z) = (r, t)" by fastforce
    have clean: "clean_conn (z_conn z)" using assms by (simp add: z_ok_def)
    have pos: "0 < length area" using a(5) area False by auto
    note rd = poll_read_ok [OF t pos] and cl = poll_read_clean [OF clean t]
    have need_cond: "\<not> (0 < (0 :: nat) \<or> z_inp_eof z)" "\<not> bb_cap bb (z_buf z) < ?need" "bb_len bb (z_buf z) < ?need"
      using False b need len [OF b(1)] by auto
    have ok: "z_ok (z\<lparr>z_buf := s', z_conn := t\<rparr>) missing seen evs"
      if "inv s'" "bb_cap bb s' = 131072" "dat s' @ to_come (z\<lparr>z_conn := t\<rparr>) = dat (z_buf z) @ to_come z" for s'
    proof -
      have eq: "dat s' @ to_come (z\<lparr>z_conn := t\<rparr>) @ missing = dat (z_buf z) @ to_come z @ missing"
        using arg_cong [OF that(3), of "\<lambda>x. x @ missing"] by simp
      have "awaits (z_conn_state z) (z_frames z) (z_has_more z) (z_is_command z) (dat s' @ to_come (z\<lparr>z_conn := t\<rparr>) @ missing) evs"
        unfolding eq by (rule z_okD(3) [OF assms])
      moreover have "to_come (z\<lparr>z_buf := s', z_conn := t\<rparr>) = to_come (z\<lparr>z_conn := t\<rparr>)" by (simp add: to_come_def)
      ultimately show ?thesis
        using assms that(1,2) cl(1) rd by (simp add: z_ok_def z_bufs_def z_said_def)
    qed
    show ?thesis
    proof (cases r)
      case Pending
      then have "to_come (z\<lparr>z_conn := t\<rparr>) = to_come z" using rd by (auto simp: to_come_def all_bytes_def)
      moreover have "z_read bb 0 z = Some (Inr IntPend, z\<lparr>z_buf := s, z_conn := t\<rparr>)"
        using need_cond a(1) area t Pending by (simp add: z_read_def Let_def)
      ultimately show ?thesis using ok [of s] a b(2) rd cl Pending by simp
    next
      case (Ready x)
      then obtain bs where bs: "x = Inr bs" using cl(2) by (cases x) auto
      have bs2: "length bs \<le> length area" "t_rcvd t = t_rcvd (z_conn z) @ bs" "t_out t = t_out (z_conn z)"
        "in_w (t_in t) + 4 * length bs \<le> in_w (t_in (z_conn z))"
        using rd Ready bs by auto
      have come: "bs @ to_come (z\<lparr>z_conn := t\<rparr>) = to_come z" using rd bs2(2) by (auto simp: to_come_def all_bytes_def)
      show ?thesis
      proof (cases "bs = []")
        case True
        have "z_read bb 0 z = Some (Inr IntDone, z\<lparr>z_buf := s, z_conn := t, z_inp_eof := True\<rparr>)"
          using need_cond a(1) area t Ready bs True by (simp add: z_read_def Let_def)
        moreover have "z_ok (z\<lparr>z_buf := s, z_conn := t, z_inp_eof := True\<rparr>) missing seen evs"
          using ok [of s] a b(2) come True by (simp add: z_ok_def z_bufs_def z_said_def to_come_def)
        ultimately show ?thesis using a bs2 cl(5) pos Ready bs True by simp
      next
        case False
        obtain s1 s2 where s: "bb_fill bb bs s = Some s1" "bb_wadv bb (length bs) s1 = Some (Inr (), s2)" "inv s2"
          "dat s2 = dat (z_buf z) @ bs" "bb_cap bb s2 = bb_cap bb (z_buf z)"
          using a(5) area bs2(1) by auto
        have "z_read bb 0 z = Some (Inr IntEmpty, z\<lparr>z_buf := s2, z_conn := t\<rparr>)"
          using need_cond a(1) area t Ready bs False s(1,2) by (simp add: z_read_def Let_def)
        then show ?thesis using ok [of s2] s b(2) bs2 cl(3,6) come False by simp
      qed
    qed
  qed
qed

end

lemma awaits_short:
  assumes "awaits st acc hm cmd bs evs" and "length bs < z_need_min st"
  shows "evs = []"
proof (cases "st = ReadFrameFlags")
  case True
  then obtain fs where "bs = wires fs" "evs = z_events acc fs" "bs = []" using assms by auto
  then show ?thesis by (cases fs) auto
next
  case False
  then show ?thesis using assms by (cases st) (auto simp: hello_at_def z_hello_ok_def wf_size_def)
qed

context slide_buf_more
begin

definition z_total :: "('s, 'io) Zmtp \<Rightarrow> nat" where
  "z_total z = length (z_data_rx z) + length (t_out (z_conn z)) + in_w (t_in (z_conn z)) + 3 * length (dat (z_buf z)) +
     z_weight (z_conn_state z)"

definition z_open :: "('s, 'io) Zmtp \<Rightarrow> bool" where
  "z_open z \<longleftrightarrow> \<not> z_inp_eof z \<and> RdData [] \<notin> set (t_in (z_conn z))"

text \<open>What a poll does to the invariant; \<open>None\<close> is a further round of the loop.\<close>

definition z_progress :: "('s, 'io) Zmtp \<Rightarrow> bytes \<Rightarrow> ZmtpEvent list \<Rightarrow> ZmtpEvent list \<Rightarrow>
    (('b, 'io) ZmtpError, ZmtpEvent) result poll option \<Rightarrow> ('s, 'io) Zmtp \<Rightarrow> bool" where
  "z_progress z missing seen evs r z' \<longleftrightarrow>
     (case r of
        None \<Rightarrow> z_ok z' missing seen evs
      | Some Pending \<Rightarrow> z_ok z' missing seen evs \<and> length (dat (z_buf z')) < z_need_min (z_conn_state z') \<and>
          (z_open z \<longrightarrow> t_in (z_conn z') = [] \<or> length (t_in (z_conn z')) < length (t_in (z_conn z)))
      | Some (Ready (Inr e)) \<Rightarrow> \<exists>es. evs = e # es \<and> z_ok z' missing (seen @ [e]) es
      | Some (Ready (Inl _)) \<Rightarrow> False) \<and>
     length (t_in (z_conn z')) \<le> length (t_in (z_conn z)) \<and> (z_open z \<longrightarrow> z_open z') \<and> z_socket_type z' = z_socket_type z"

lemma z_round:
  fixes z :: "('s, 'io) Zmtp"
  assumes "z_ok z missing seen evs"
  shows "\<exists>r z'. z_loop_body bb mb z = Some (r, z') \<and> z_progress z missing seen evs r z' \<and>
    (r = None \<longrightarrow> z_total z' < z_total z)"
proof -
  obtain r1 z1 where s1: "(z_serialize bb mb z :: (('b, 'io) ZmtpError, unit) result zint \<times> _) = (r1, z1)" by fastforce
  from z_serialize_ok [OF s1] have z1: "z1 = z\<lparr>z_data_rx := z_data_rx z1\<rparr>" "length (z_data_rx z1) \<le> length (z_data_rx z)"
    "r1 = IntEmpty \<longrightarrow> length (z_data_rx z1) < length (z_data_rx z)" "r1 \<in> {IntNoWork, IntPend, IntEmpty, IntDone}" by blast+
  have f1: "z_conn z1 = z_conn z" "z_buf z1 = z_buf z" "z_conn_state z1 = z_conn_state z" "z_inp_eof z1 = z_inp_eof z"
    "z_socket_type z1 = z_socket_type z"
    by (subst z1(1), simp)+
  have "z_ok (z\<lparr>z_data_rx := rx\<rparr>) missing seen evs" for rx
    using assms by (simp add: z_ok_def z_bufs_def z_said_def to_come_def)
  then have ok1: "z_ok z1 missing seen evs" using z1(1) by metis
  obtain r2 z2 where s2: "z_write bb 0 z1 = Some (r2, z2)" "z_ok z2 missing seen evs" "r2 \<in> {IntNoWork, IntPend, IntEmpty}"
    "t_in (z_conn z2) = t_in (z_conn z1)" "z_buf z2 = z_buf z1" "z_conn_state z2 = z_conn_state z1" "z_inp_eof z2 = z_inp_eof z1"
    "z_socket_type z2 = z_socket_type z1" "z_data_rx z2 = z_data_rx z1" "length (t_out (z_conn z2)) \<le> length (t_out (z_conn z1))"
    "r2 = IntEmpty \<longrightarrow> length (t_out (z_conn z2)) < length (t_out (z_conn z1))"
    using z_write_ok [OF ok1] by blast
  obtain r3 z3 where s3: "z_read bb 0 z2 = Some (Inr r3, z3)" "z_ok z3 missing seen evs" "r3 \<in> {IntNoWork, IntPend, IntEmpty, IntDone}"
    "t_out (z_conn z3) = t_out (z_conn z2)" "z_conn_state z3 = z_conn_state z2" "z_data_rx z3 = z_data_rx z2"
    "length (t_in (z_conn z3)) \<le> length (t_in (z_conn z2))" "z_socket_type z3 = z_socket_type z2"
    "RdData [] \<notin> set (t_in (z_conn z2)) \<longrightarrow> RdData [] \<notin> set (t_in (z_conn z3))"
    "in_w (t_in (z_conn z3)) + 4 * length (dat (z_buf z3)) \<le> in_w (t_in (z_conn z2)) + 4 * length (dat (z_buf z2))"
    "length (dat (z_buf z2)) \<le> length (dat (z_buf z3))" "r3 = IntEmpty \<longrightarrow> length (dat (z_buf z2)) < length (dat (z_buf z3))"
    "r3 = IntPend \<longrightarrow> t_in (z_conn z2) = [] \<or> length (t_in (z_conn z3)) < length (t_in (z_conn z2))"
    "r3 = IntDone \<longrightarrow> z_inp_eof z3 \<and> t_in (z_conn z2) = RdData [] # t_in (z_conn z3)"
    "r3 \<noteq> IntDone \<longrightarrow> z_inp_eof z3 = z_inp_eof z2"
    "r3 = IntNoWork \<longrightarrow> z3 = z2 \<and> (z_inp_eof z2 \<or> z_need_min (z_conn_state z2) \<le> length (dat (z_buf z2)))"
    using z_read_ok [OF s2(2)] by blast
  have cnt: "item_count r1 = 0" "item_count r2 = 0" "item_count r3 = 0" using z1(4) s2(3) s3(3) by auto
  have noerr: "int_err r1 = None" "int_err r2 = None" "int_err r3 = None" using z1(4) s2(3) s3(3) by auto
  have "r3 = IntDone \<longrightarrow> RdData [] \<in> set (t_in (z_conn z2))" using s3(14) by (metis list.set_intros(1))
  then have op: "z_open z \<longrightarrow> z_open z3" using f1 s2(4,7) s3(9,15) by (auto simp: z_open_def)
  have tot: "z_total z3 + length (dat (z_buf z3)) \<le> z_total z + length (dat (z_buf z))"
    "r1 = IntEmpty \<or> r2 = IntEmpty \<Longrightarrow> z_total z3 + length (dat (z_buf z3)) < z_total z + length (dat (z_buf z))"
    "length (dat (z_buf z)) \<le> length (dat (z_buf z3))" "r3 = IntEmpty \<Longrightarrow> length (dat (z_buf z)) < length (dat (z_buf z3))"
    using f1 z1(2,3) s2(4-6,9-11) s3(4-6,10-12) by (auto simp: z_total_def)
  show ?thesis
  proof (cases "length (dat (z_buf z3)) < z_need_min (z_conn_state z3)")
    case True
    have b: "inv (z_buf z3)" using z_okD(1) [OF s3(2)] by (simp add: z_bufs_def)
    define res :: "(('b, 'io) ZmtpError, ZmtpEvent) result poll option" where "res = z_result r1 r2 r3 IntNoWork"
    have res: "res = (if r1 = IntEmpty \<or> r2 = IntEmpty \<or> r3 = IntEmpty then None else Some Pending)"
      using z1(4) s2(3) s3(3) by (auto simp: res_def z_result_def)
    have "z_loop_body bb mb z = Some (res, z3)"
      using s1 s2(1) s3(1) cnt True len [OF b] res by (simp add: z_loop_body_def z_parse_def flip: res_def)
    moreover have "z_progress z missing seen evs res z3"
      using res s3(2,3) True op f1 s2(4-8) s3(5,7,8,13-16)
      by (auto simp: z_progress_def z_open_def)
    moreover have "res = None \<longrightarrow> z_total z3 < z_total z" using res tot by (auto split: if_splits)
    ultimately show ?thesis by blast
  next
    case False
    obtain r z4 where p: "z_parse_item bb mb z3 = Some (Inr r, z4)" "z_step z3 missing seen evs r z4"
      using parse_item_ok [OF s3(2)] False by force
    have b: "inv (z_buf z3)" using z_okD(1) [OF s3(2)] by (simp add: z_bufs_def)
    define res :: "(('b, 'io) ZmtpError, ZmtpEvent) result poll option"
      where "res = z_result r1 r2 r3 (case r of None \<Rightarrow> IntEmpty | Some k \<Rightarrow> IntItem (Inr k))"
    have res: "res = map_option (\<lambda>e. Ready (Inr e)) r"
      using cnt noerr by (cases r) (auto simp: res_def z_result_def)
    have "z_loop_body bb mb z = Some (res, z4)"
      using s1 s2(1) s3(1) cnt False len [OF b] p(1) res
      by (cases r) (simp_all add: z_loop_body_def z_parse_def res_def)
    moreover have "z_progress z missing seen evs res z4"
      using p(2) res op f1 s2(4,8) s3(7,8) by (cases r) (auto simp: z_progress_def z_step_def z_open_def)
    moreover have "z_total z4 < z_total z"
      using p(2) tot(1,3) by (auto simp: z_step_def z_total_def)
    ultimately show ?thesis by blast
  qed
qed

lemma z_poll_loop_ok:
  "z_ok z missing seen evs \<Longrightarrow> \<exists>k z'. z_poll_loop bb mb z = Some (k, z') \<and> z_progress z missing seen evs (Some k) z'"
proof (induction z rule: measure_induct_rule [where f = z_total])
  case (less z)
  obtain r z1 where r: "z_loop_body bb mb z = Some (r, z1)" "z_progress z missing seen evs r z1" "r = None \<longrightarrow> z_total z1 < z_total z"
    using z_round [OF less.prems] by blast
  show ?case
  proof (cases r)
    case None
    then have "z_ok z1 missing seen evs" using r(2) by (simp add: z_progress_def)
    then obtain k z' where k: "z_poll_loop bb mb z1 = Some (k, z')" "z_progress z1 missing seen evs (Some k) z'"
      using less.IH r(3) None by blast
    have "z_poll_loop bb mb z = Some (k, z')" using r(1) None k(1) by (subst z_poll_loop.simps) simp
    moreover have "z_progress z missing seen evs (Some k) z'"
      using k(2) r(2) None by (auto simp: z_progress_def split: poll.splits sum.splits)
    ultimately show ?thesis by blast
  next
    case (Some k)
    then show ?thesis using r(1,2) by (subst z_poll_loop.simps) simp
  qed
qed

end

section \<open>Polling\<close>

primrec z_polls :: "('s, 'b) ByteBuf \<Rightarrow> ('s, 'b) MoreBuf \<Rightarrow> nat \<Rightarrow> ('s, 'io) Zmtp \<Rightarrow>
    ((('b, 'io) ZmtpError, ZmtpEvent) result option poll list \<times> ('s, 'io) Zmtp) panics" where
  "z_polls bb mb 0 z = Some ([], z)"
| "z_polls bb mb (Suc k) z =
     do { (r, z) \<leftarrow> z_poll_next bb mb z; (rs, z) \<leftarrow> z_polls bb mb k z; Some (r # rs, z) }"

definition z_yield :: "('e, ZmtpEvent) result option poll \<Rightarrow> ZmtpEvent list" where
  "z_yield r = (case r of Ready (Some (Inr e)) \<Rightarrow> [e] | _ \<Rightarrow> [])"

definition z_yields :: "('e, ZmtpEvent) result option poll list \<Rightarrow> ZmtpEvent list" where
  "z_yields rs = concat (map z_yield rs)"

lemma z_yields_simps [simp]: "z_yields [] = []" "z_yields (Pending # rs) = z_yields rs"
    "z_yields (Ready (Some (Inr e)) # rs) = e # z_yields rs"
  by (simp_all add: z_yields_def z_yield_def)

definition calm :: "('e, ZmtpEvent) result option poll list \<Rightarrow> bool" where
  "calm rs \<longleftrightarrow> (\<forall>r \<in> set rs. r = Pending \<or> (\<exists>e. r = Ready (Some (Inr e))))"

lemma calm_count: "calm rs \<Longrightarrow> length (filter (\<lambda>r. r \<noteq> Pending) rs) = length (z_yields rs)"
  by (induction rs) (auto simp: calm_def)

context slide_buf_more
begin

lemma z_poll_ok:
  assumes "z_ok z missing seen evs"
  shows "\<exists>k z'. z_poll_next bb mb z = Some (case k of Pending \<Rightarrow> Pending | Ready x \<Rightarrow> Ready (Some x), z') \<and>
    z_progress z missing seen evs (Some k) z'"
  using z_poll_loop_ok [OF assms] assms by (auto simp: z_poll_next_def z_ok_def)

lemma z_polls_ok:
  "z_ok z missing seen evs \<Longrightarrow> \<exists>rs z' es. z_polls bb mb k z = Some (rs, z') \<and> calm rs \<and> length rs = k \<and> evs = z_yields rs @ es \<and>
     z_ok z' missing (seen @ z_yields rs) es \<and> z_socket_type z' = z_socket_type z \<and>
     (z_open z \<and> missing = [] \<and> length (t_in (z_conn z)) + length evs < k \<longrightarrow> es = [])"
proof (induction k arbitrary: z seen evs)
  case 0
  then show ?case by (simp add: calm_def)
next
  case (Suc k)
  obtain x z1 where x: "z_poll_next bb mb z = Some (case x of Pending \<Rightarrow> Pending | Ready x \<Rightarrow> Ready (Some x), z1)"
    "z_progress z missing seen evs (Some x) z1"
    using z_poll_ok [OF Suc.prems] by blast
  show ?case
  proof (cases x)
    case Pending
    have ok: "z_ok z1 missing seen evs" and short: "length (dat (z_buf z1)) < z_need_min (z_conn_state z1)"
      and less: "z_open z \<longrightarrow> t_in (z_conn z1) = [] \<or> length (t_in (z_conn z1)) < length (t_in (z_conn z))"
      using x(2) Pending by (simp_all add: z_progress_def)
    obtain rs z' es where rs: "z_polls bb mb k z1 = Some (rs, z')" "calm rs" "length rs = k" "evs = z_yields rs @ es"
      "z_ok z' missing (seen @ z_yields rs) es" "z_socket_type z' = z_socket_type z1"
      "z_open z1 \<and> missing = [] \<and> length (t_in (z_conn z1)) + length evs < k \<longrightarrow> es = []"
      using Suc.IH [OF ok] by blast
    have "es = []" if h: "z_open z" "missing = []" "length (t_in (z_conn z)) + length evs < Suc k"
    proof (cases "t_in (z_conn z1) = []")
      case True
      then have "length (dat (z_buf z1) @ to_come z1 @ missing) < z_need_min (z_conn_state z1)"
        using short h(2) by (simp add: to_come_def)
      then show ?thesis using awaits_short [OF z_okD(3) [OF ok]] rs(4) by simp
    next
      case False
      then have "length (t_in (z_conn z1)) < length (t_in (z_conn z))" using less h(1) by simp
      moreover have "z_open z1" using x(2) h(1) by (simp add: z_progress_def)
      ultimately show ?thesis using rs(7) h by linarith
    qed
    then show ?thesis
      using rs x Pending by (auto simp: calm_def z_progress_def)
  next
    case (Ready y)
    then obtain e es1 where e: "y = Inr e" "evs = e # es1" "z_ok z1 missing (seen @ [e]) es1"
      using x(2) by (cases y) (auto simp: z_progress_def)
    obtain rs z' es where rs: "z_polls bb mb k z1 = Some (rs, z')" "calm rs" "length rs = k" "es1 = z_yields rs @ es"
      "z_ok z' missing ((seen @ [e]) @ z_yields rs) es" "z_socket_type z' = z_socket_type z1"
      "z_open z1 \<and> missing = [] \<and> length (t_in (z_conn z1)) + length es1 < k \<longrightarrow> es = []"
      using Suc.IH [OF e(3)] by blast
    have "es = []" if h: "z_open z" "missing = []" "length (t_in (z_conn z)) + length evs < Suc k"
      using rs(7) h x(2) e(2) by (auto simp: z_progress_def)
    then show ?thesis
      using rs x Ready e by (auto simp: calm_def z_progress_def)
  qed
qed

end

section \<open>A connection from its start\<close>

definition zmtp_peer :: "'io Tcp \<Rightarrow> bytes \<Rightarrow> wire_frame list \<Rightarrow> bytes \<Rightarrow> bool" where
  "zmtp_peer t h fs missing \<longleftrightarrow> clean_conn t \<and> t_rcvd t = [] \<and> t_sent t = [] \<and> z_hello_ok h \<and> (\<forall>f \<in> set fs. wf_ok f) \<and>
     all_bytes t @ missing = h @ wires fs"

context slide_buf_more
begin

lemma z_new_ok:
  assumes "zmtp_peer t h fs missing"
  shows "z_ok (Zmtp_new bb rx t ty) missing [] (z_events [] fs)"
proof -
  have n: "inv (bb_new bb 131072) \<and> dat (bb_new bb 131072) = [] \<and> bb_cap bb (bb_new bb 131072) = 131072"
    using new [of 131072] by simp
  have "hello_at 0 [] False (all_bytes t @ missing) (z_events [] fs)"
    using assms by (auto simp: hello_at_def zmtp_peer_def)
  moreover have "slide_buf_room bb inv dat mb \<Longrightarrow> mb_wcap mb (bb_new bb 131072) = 131072"
    using slide_buf_room.wcap_new [of bb inv dat mb 131072] by simp
  ultimately show ?thesis
    using assms n by (simp add: z_ok_def Zmtp_new_def z_bufs_def z_said_def to_come_def zmtp_peer_def all_bytes_def)
qed

lemma z_polls_new:
  assumes "zmtp_peer t h fs missing"
  shows "\<exists>rs z' es. z_polls bb mb k (Zmtp_new bb rx t ty) = Some (rs, z') \<and> calm rs \<and> length rs = k \<and>
    z_events [] fs = z_yields rs @ es \<and> z_said z' (z_yields rs) \<and> z_socket_type z' = ty \<and>
    (missing = [] \<and> RdData [] \<notin> set (t_in t) \<and> length (t_in t) + length (z_events [] fs) < k \<longrightarrow> es = [])"
proof -
  obtain rs z' es where rs: "z_polls bb mb k (Zmtp_new bb rx t ty) = Some (rs, z')" "calm rs" "length rs = k"
    "z_events [] fs = z_yields rs @ es" "z_ok z' missing ([] @ z_yields rs) es" "z_socket_type z' = z_socket_type (Zmtp_new bb rx t ty)"
    "z_open (Zmtp_new bb rx t ty) \<and> missing = [] \<and> length (t_in (z_conn (Zmtp_new bb rx t ty))) + length (z_events [] fs) < k \<longrightarrow> es = []"
    using z_polls_ok [OF z_new_ok [OF assms], of k] by blast
  then show ?thesis using z_okD(2) [OF rs(5)]
    by (intro exI [of _ rs] exI [of _ z'] exI [of _ es]) (simp add: Zmtp_new_def z_open_def)
qed

lemma z_hangs:
  assumes "inv (z_buf z)" and "inv (z_outbuf z)" and "dat (z_outbuf z) = []" and "length (dat (z_buf z)) < z_need_min (z_conn_state z)"
    and "z_inp_eof z" and "\<not> z_done z" and "\<not> z_complete z" and "z_data_rx z = []"
  shows "z_poll_next bb mb z = Some (Pending, z)"
proof -
  have "z_loop_body bb mb z = Some (Some Pending, z)"
    using len [OF assms(1)] len [OF assms(2)] assms
    by (simp add: z_loop_body_def z_serialize_def z_write_def z_read_def z_parse_def z_result_def)
  then show ?thesis using assms(6,7) by (subst z_poll_next_def, subst z_poll_loop.simps) simp
qed

lemma z_polls_hang:
  assumes "z_poll_next bb mb z = Some (Pending, z)"
  shows "z_polls bb mb k z = Some (replicate k Pending, z)"
  using assms by (induction k) simp_all

end

section \<open>Messages written by this library\<close>

fun message_frames :: "bytes list \<Rightarrow> wire_frame list" where
  "message_frames [] = []"
| "message_frames (d # ds) = ((if ds \<noteq> [] then 3 else 2), d) # message_frames ds"

lemma flag_bits: "and (3 :: u8) 1 \<noteq> 0" "and (2 :: u8) 1 = 0" "and (3 :: u8) 2 \<noteq> 0" "and (2 :: u8) 2 \<noteq> 0"
    "and (3 :: u8) 4 = 0" "and (2 :: u8) 4 = 0"
  by simp_all

lemma events_of_message:
  "ds \<noteq> [] \<Longrightarrow> \<exists>g. z_events acc (message_frames ds @ fs) = ZmtpMsg \<lparr>zm_frames = acc @ g\<rparr> # z_events [] fs \<and> map zf_data g = ds"
proof (induction ds arbitrary: acc)
  case Nil
  then show ?case by simp
next
  case (Cons d ds)
  show ?case
  proof (cases "ds = []")
    case True
    then show ?thesis
      by (intro exI [of _ "[the_frame False False d]"]) (simp add: z_events.simps wf_command_def wf_more_def the_frame_def)
  next
    case False
    then obtain g where "z_events (acc @ [the_frame True False d]) (message_frames ds @ fs) =
        ZmtpMsg \<lparr>zm_frames = (acc @ [the_frame True False d]) @ g\<rparr> # z_events [] fs" "map zf_data g = ds"
      using Cons.IH by blast
    then show ?thesis
      using False by (intro exI [of _ "the_frame True False d # g"]) (simp add: z_events.simps wf_command_def wf_more_def the_frame_def)
  qed
qed

lemma message_frames_ok: "\<forall>d \<in> set ds. length d \<le> 65536 \<Longrightarrow> \<forall>f \<in> set (message_frames ds). wf_ok f \<and> wf_long f"
  by (induction ds) (auto simp: wf_ok_def wf_long_def)

fun emit_all :: "('s, 'b) MoreBuf \<Rightarrow> ZmtpMessage list \<Rightarrow> 's \<Rightarrow> (('b, unit) result \<times> 's) panics" where
  "emit_all mb [] s = Some (Inr (), s)"
| "emit_all mb (m # ms) s =
     do { (r, s) \<leftarrow> emit_to_buffer mb m s; case r of Inl e \<Rightarrow> Some (Inl e, s) | Inr _ \<Rightarrow> emit_all mb ms s }"

definition messages_frames :: "ZmtpMessage list \<Rightarrow> wire_frame list" where
  "messages_frames ms = concat (map (\<lambda>m. message_frames (map zf_data (zm_frames m))) ms)"

fun payload :: "ZmtpEvent \<Rightarrow> bytes list option" where
  "payload (ZmtpCommand _) = None"
| "payload (ZmtpMsg m) = Some (map zf_data (zm_frames m))"

lemma payload_of_messages:
  "\<forall>m \<in> set ms. zm_frames m \<noteq> [] \<Longrightarrow>
     map payload (z_events [] (messages_frames ms)) = map (\<lambda>m. Some (map zf_data (zm_frames m))) ms"
proof (induction ms)
  case Nil
  then show ?case by (simp add: messages_frames_def)
next
  case (Cons m ms)
  have "\<exists>g. z_events [] (message_frames (map zf_data (zm_frames m)) @ messages_frames ms) =
      ZmtpMsg \<lparr>zm_frames = [] @ g\<rparr> # z_events [] (messages_frames ms) \<and> map zf_data g = map zf_data (zm_frames m)"
    using Cons.prems by (intro events_of_message) simp
  then show ?case using Cons by (auto simp: messages_frames_def)
qed

context slide_buf_more
begin

lemma emit_frames_ok:
  "inv s \<Longrightarrow> length (dat s) + length (wires (message_frames ds)) \<le> bb_cap bb s \<Longrightarrow>
   \<exists>s'. z_emit_frames mb ds s = Some (Inr (), s') \<and> inv s' \<and> dat s' = dat s @ wires (message_frames ds) \<and> bb_cap bb s' = bb_cap bb s"
proof (induction ds arbitrary: s)
  case Nil
  then show ?case by simp
next
  case (Cons d ds)
  let ?fl = "(if ds \<noteq> [] then 3 else 2) :: u8"
  have sz: "wf_size (?fl, d) = to_be 8 (of_nat (length d) :: u64)" by (simp add: wf_size_def wf_long_def)
  have room: "length (dat s) + 9 + length d + length (wires (message_frames ds)) \<le> bb_cap bb s"
    using Cons.prems(2) sz by simp
  obtain s1 where s1: "mb_put_u8 mb ?fl s = Some (Inr (), s1)" "inv s1" "dat s1 = dat s @ [?fl]" "bb_cap bb s1 = bb_cap bb s"
    using put_slice [OF Cons.prems(1), of "to_be 1 ?fl"] put_u8 [OF Cons.prems(1), of ?fl] room by auto
  obtain s2 where s2: "mb_put_u64_be mb (of_nat (length d)) s1 = Some (Inr (), s2)" "inv s2"
    "dat s2 = dat s1 @ to_be 8 (of_nat (length d) :: u64)" "bb_cap bb s2 = bb_cap bb s"
    using put_slice [OF s1(2), of "to_be 8 (of_nat (length d) :: u64)"] put_u64 [OF s1(2)] room s1(3,4) by auto
  obtain s3 where s3: "mb_put_slice mb d s2 = Some (Inr (), s3)" "inv s3" "dat s3 = dat s2 @ d" "bb_cap bb s3 = bb_cap bb s"
    using put_slice [OF s2(2), of d] room s1(3) s2(3,4) by auto
  obtain s' where "z_emit_frames mb ds s3 = Some (Inr (), s')" "inv s'" "dat s' = dat s3 @ wires (message_frames ds)" "bb_cap bb s' = bb_cap bb s3"
    using Cons.IH [OF s3(2)] room s1(3) s2(3) s3(3,4) by auto
  then show ?case using s1 s2 s3 sz by simp
qed

lemma emit_all_ok:
  "inv s \<Longrightarrow> length (dat s) + length (wires (messages_frames ms)) \<le> bb_cap bb s \<Longrightarrow>
   \<exists>s'. emit_all mb ms s = Some (Inr (), s') \<and> inv s' \<and> dat s' = dat s @ wires (messages_frames ms) \<and> bb_cap bb s' = bb_cap bb s"
proof (induction ms arbitrary: s)
  case Nil
  then show ?case by (simp add: messages_frames_def)
next
  case (Cons m ms)
  have w: "wires (messages_frames (m # ms)) = wires (message_frames (map zf_data (zm_frames m))) @ wires (messages_frames ms)"
    by (simp add: messages_frames_def wires_def)
  obtain s1 where s1: "emit_to_buffer mb m s = Some (Inr (), s1)" "inv s1" "bb_cap bb s1 = bb_cap bb s"
    "dat s1 = dat s @ wires (message_frames (map zf_data (zm_frames m)))"
    using emit_frames_ok [OF Cons.prems(1), of "map zf_data (zm_frames m)"] Cons.prems(2) w by (auto simp: emit_to_buffer_def)
  obtain s' where "emit_all mb ms s1 = Some (Inr (), s')" "inv s'" "dat s' = dat s1 @ wires (messages_frames ms)" "bb_cap bb s' = bb_cap bb s1"
    using Cons.IH [OF s1(2)] Cons.prems(2) w s1(3,4) by auto
  then show ?case using s1 w by simp
qed

end

section \<open>Properties\<close>

text \<open>A peer that greets, pings and sends a message of two frames, in two parts.\<close>

definition demo_hello :: bytes where
  "demo_hello = [0xff, 0, 0, 0, 0, 0, 0, 0, 0, 0x7f, 3, 0, 0x4e, 0x55, 0x4c, 0x4c] @ replicate 48 0"

definition demo_wire :: "wire_frame list" where
  "demo_wire = [(4, [4, 80, 73, 78, 71, 0, 10]), (1, [7]), (2, [8, 9])]"

definition demo_conn :: "unit Tcp" where
  "demo_conn = \<lparr>t_in = [RdData (take 30 (demo_hello @ wires demo_wire)), RdPending, RdData (drop 30 (demo_hello @ wires demo_wire))],
     t_out = [WrAccept 5, WrPending, WrAccept 1000], t_rcvd = [], t_sent = []\<rparr>"

definition demo_events :: "ZmtpEvent list" where
  "demo_events = [ZmtpCommand (the_frame False True [4, 80, 73, 78, 71, 0, 10]),
     ZmtpMsg \<lparr>zm_frames = [the_frame True False [7], the_frame False False [8, 9]]\<rparr>]"

lemma slide_buf_more_impl: "slide_buf_more SlideBuf_impl sb_inv sb_abs SlideBuf_more" by (rule sbm.slide_buf_more_axioms)

lemma null_mechanism: "utf8_valid [78, 85, 76, 76]"
  by (subst utf8_valid.simps, simp add: utf8_piece_def)+

lemma demo_hello_ok: "z_hello_ok demo_hello"
  by (simp add: z_hello_ok_def demo_hello_def null_mechanism takeWhile_replicate)

lemma demo_conn_facts: "clean_conn demo_conn" "t_rcvd demo_conn = []" "t_sent demo_conn = []" "length (t_in demo_conn) = 3"
    "all_bytes demo_conn = demo_hello @ wires demo_wire" "RdData [] \<notin> set (t_in demo_conn)"
proof -
  show "clean_conn demo_conn" "t_rcvd demo_conn = []" "t_sent demo_conn = []" "length (t_in demo_conn) = 3"
    by (simp_all add: demo_conn_def clean_conn_def)
  show "all_bytes demo_conn = demo_hello @ wires demo_wire"
    by (simp add: demo_conn_def all_bytes_def del: take_append drop_append)
  show "RdData [] \<notin> set (t_in demo_conn)" by (simp add: demo_conn_def demo_hello_def)
qed

lemma demo_peer: "zmtp_peer demo_conn demo_hello demo_wire []"
  using demo_hello_ok by (auto simp: zmtp_peer_def demo_conn_facts demo_wire_def wf_ok_def wf_long_def)

lemma demo_wire_events: "z_events [] demo_wire = demo_events"
  by (simp add: demo_wire_def demo_events_def z_events.simps wf_command_def wf_more_def)

lemma demo_count: "length demo_events = 2" by (simp add: demo_events_def)

text \<open>
  C12. For a peer that greets with any acceptable greeting and then sends any frames of at most half the
  buffer, with commands anywhere between the frames of a message, however the connection cuts the
  bytes into chunks, delays reads and accepts writes, polling the new stream returns every time, gives
  nothing but pendings and the events of these frames in their order, and has given all of them once it
  was polled more often than there are events and results of the socket.
\<close>

theorem zmtp_delivers_frames:
  assumes "slide_buf_more bb binv dat mb" and "zmtp_peer t h fs missing"
  shows "\<exists>rs z'. z_polls bb mb k (Zmtp_new bb rx t ty) = Some (rs, z') \<and> calm rs \<and> length rs = k \<and>
    (\<exists>zs. z_events [] fs = z_yields rs @ zs) \<and>
    (missing = [] \<and> RdData [] \<notin> set (t_in t) \<and> length (t_in t) + length (z_events [] fs) < k \<longrightarrow> z_yields rs = z_events [] fs)"
  using slide_buf_more.z_polls_new [OF assms, of k rx ty] by force

theorem zmtp_delivers_frames_witness:
  "\<exists>rs z'. z_polls SlideBuf_impl SlideBuf_more 9 (Zmtp_new SlideBuf_impl [] demo_conn PULL) = Some (rs, z') \<and> z_yields rs = demo_events"
  using zmtp_delivers_frames [OF slide_buf_more_impl demo_peer, of 9 "[]" PULL]
    demo_conn_facts(4,6) demo_wire_events demo_count by auto

text \<open>
  C14. What the stream has sent and still has to send is at any time its own part of the greeting, as far
  as the state of the connection has got, followed by one answer for each event that it yielded, in
  order, and nothing else. As long as the answers to the events yielded take no more than 130928 bytes, so
  that they fit the buffer of 131072 bytes with the greeting, every ping is answered by a pong with its
  context and a ping, and other commands and messages by nothing. Without this bound, pong and ping may
  each be missing, because the code leaves them out when it finds too little room at the end of the buffer.
\<close>

theorem zmtp_sends_answers:
  assumes "slide_buf_room bb binv dat mb" and "zmtp_peer t h fs missing"
  shows "\<exists>rs z' as. z_polls bb mb k (Zmtp_new bb rx t ty) = Some (rs, z') \<and>
    t_sent (z_conn z') @ dat (z_outbuf z') = z_says (z_conn_state z') ty @ concat as \<and>
    list_all2 (\<lambda>a e. a \<in> z_answers e) as (z_yields rs) \<and>
    (length (concat (map z_answer (z_yields rs))) \<le> 130928 \<longrightarrow> as = map z_answer (z_yields rs))"
proof -
  have m: "slide_buf_more bb binv dat mb" using assms(1) by (simp add: slide_buf_room_def)
  obtain rs z' where r: "z_polls bb mb k (Zmtp_new bb rx t ty) = Some (rs, z')" "z_socket_type z' = ty"
    "slide_buf_more.z_said bb binv dat mb z' (z_yields rs)"
    using slide_buf_more.z_polls_new [OF m assms(2), of k rx ty] by blast
  then show ?thesis
    using assms(1) slide_buf_more.z_said_def [OF m, of z' "z_yields rs"] slide_buf_more.answers_fit_def [OF m, of "z_yields rs"] by auto
qed

lemma slide_buf_room_impl: "slide_buf_room SlideBuf_impl sb_inv sb_abs SlideBuf_more" by (rule sbr.slide_buf_room_axioms)

lemma demo_answers: "concat (map z_answer demo_events) = [4, 5] @ 4 # str ''PONG'' @ [4, 14] @ 4 # str ''PING'' @ str ''daqingest''"
  by (simp add: demo_events_def the_frame_def is_ping_def z_command_def str_def)

theorem zmtp_sends_answers_witness:
  "\<exists>rs z'. z_polls SlideBuf_impl SlideBuf_more 9 (Zmtp_new SlideBuf_impl [] demo_conn PULL) = Some (rs, z') \<and>
    t_sent (z_conn z') @ sb_abs (z_outbuf z') = z_says (z_conn_state z') PULL @
      [4, 5] @ 4 # str ''PONG'' @ [4, 14] @ 4 # str ''PING'' @ str ''daqingest''"
proof -
  obtain rs z' as where r: "z_polls SlideBuf_impl SlideBuf_more 9 (Zmtp_new SlideBuf_impl [] demo_conn PULL) = Some (rs, z')"
    "t_sent (z_conn z') @ sb_abs (z_outbuf z') = z_says (z_conn_state z') PULL @ concat as"
    "length (concat (map z_answer (z_yields rs))) \<le> 130928 \<longrightarrow> as = map z_answer (z_yields rs)"
    using zmtp_sends_answers [OF slide_buf_room_impl demo_peer, of 9 "[]" PULL] by blast
  have "z_yields rs = demo_events"
    using sbm.z_polls_new [OF demo_peer, of 9 "[]" PULL] r(1) demo_conn_facts(4,6) demo_wire_events demo_count by auto
  moreover have "length (concat (map z_answer demo_events)) \<le> 130928" unfolding demo_answers by (simp add: str_def)
  ultimately have "concat as = concat (map z_answer demo_events)" using r(3) by simp
  then show ?thesis using r(1,2) unfolding demo_answers by auto
qed

text \<open>
  C13. Messages written with \<^verbatim>\<open>emit_to_buffer\<close> one after the other into a buffer with room for them, and
  sent after a greeting, are received as messages with the same frames.
\<close>

theorem zmtp_message_roundtrip:
  assumes "slide_buf_more bb binv dat mb" and "binv s" and "dat s = []" and "length (wires (messages_frames ms)) \<le> bb_cap bb s"
    and "\<forall>m \<in> set ms. zm_frames m \<noteq> [] \<and> (\<forall>f \<in> set (zm_frames m). length (zf_data f) \<le> 65536)"
  shows "\<exists>s'. emit_all mb ms s = Some (Inr (), s') \<and>
    (\<forall>(t :: 'io Tcp) h k rx ty. clean_conn t \<and> t_rcvd t = [] \<and> t_sent t = [] \<and> z_hello_ok h \<and> all_bytes t = h @ dat s' \<and>
        RdData [] \<notin> set (t_in t) \<and> length (t_in t) + length ms < k \<longrightarrow>
      (\<exists>rs z'. z_polls bb mb k (Zmtp_new bb rx t ty) = Some (rs, z') \<and> calm rs \<and>
        map payload (z_yields rs) = map (\<lambda>m. Some (map zf_data (zm_frames m))) ms))"
proof -
  have ok: "\<forall>f \<in> set (messages_frames ms). wf_ok f"
  proof
    fix f assume "f \<in> set (messages_frames ms)"
    then obtain m where "m \<in> set ms" "f \<in> set (message_frames (map zf_data (zm_frames m)))" by (auto simp: messages_frames_def)
    then show "wf_ok f" using message_frames_ok [of "map zf_data (zm_frames m)"] assms(5) by auto
  qed
  have pay: "map payload (z_events [] (messages_frames ms)) = map (\<lambda>m. Some (map zf_data (zm_frames m))) ms"
    using payload_of_messages assms(5) by blast
  then have len: "length (z_events [] (messages_frames ms)) = length ms" using map_eq_imp_length_eq by blast
  obtain s' where s': "emit_all mb ms s = Some (Inr (), s')" "dat s' = wires (messages_frames ms)"
    using slide_buf_more.emit_all_ok [OF assms(1,2), of ms] assms(3,4) by auto
  have "\<exists>rs z'. z_polls bb mb k (Zmtp_new bb rx t ty) = Some (rs, z') \<and> calm rs \<and>
        map payload (z_yields rs) = map (\<lambda>m. Some (map zf_data (zm_frames m))) ms"
    if h: "clean_conn t" "t_rcvd t = []" "t_sent t = []" "z_hello_ok h" "all_bytes t = h @ dat s'"
      "RdData [] \<notin> set (t_in t)" "length (t_in t) + length ms < k" for t :: "'io Tcp" and h k rx ty
  proof -
    have "zmtp_peer t h (messages_frames ms) []" using h ok s'(2) by (simp add: zmtp_peer_def)
    then obtain rs z' es where "z_polls bb mb k (Zmtp_new bb rx t ty) = Some (rs, z')" "calm rs"
      "z_events [] (messages_frames ms) = z_yields rs @ es" "es = []"
      using slide_buf_more.z_polls_new [OF assms(1), of t h "messages_frames ms" "[]" k rx ty] h(6,7) len by auto
    then show ?thesis using pay by auto
  qed
  then show ?thesis using s'(1) by blast
qed

text \<open>
  C40. Once the peer has closed the connection and the output is written, the stream is pending for good:
  it does not end and reports no error, because the round in which all parts are idle returns pending
  without a look at the end of the input.
\<close>

theorem zmtp_end_unnoticed:
  assumes "slide_buf_more bb binv dat mb" and "binv (z_buf z)" and "binv (z_outbuf z)" and "dat (z_outbuf z) = []"
    and "length (dat (z_buf z)) < z_need_min (z_conn_state z)" and "z_inp_eof z" and "\<not> z_done z" and "\<not> z_complete z"
    and "z_data_rx z = []"
  shows "z_polls bb mb k z = Some (replicate k Pending, z)"
  using slide_buf_more.z_polls_hang [OF assms(1) slide_buf_more.z_hangs [OF assms]] .

definition demo_ended :: "(SlideBuf, unit) Zmtp" where
  "demo_ended = (Zmtp_new SlideBuf_impl [] demo_conn PULL)\<lparr>z_conn_state := ReadFrameFlags, z_out_enable := True, z_inp_eof := True\<rparr>"

theorem zmtp_end_unnoticed_witness:
  "z_polls SlideBuf_impl SlideBuf_more 5 demo_ended = Some ([Pending, Pending, Pending, Pending, Pending], demo_ended)"
proof -
  have n: "sb_inv (bb_new SlideBuf_impl 131072)" "sb_abs (bb_new SlideBuf_impl 131072) = []" using sbb.new [of 131072] by simp_all
  have "z_polls SlideBuf_impl SlideBuf_more 5 demo_ended = Some (replicate 5 Pending, demo_ended)"
    by (rule zmtp_end_unnoticed [OF slide_buf_more_impl]) (simp_all add: demo_ended_def Zmtp_new_def n)
  then show ?thesis by (simp add: numeral_eq_Suc)
qed

text \<open>Two messages go through the buffer and come back.\<close>

definition demo_messages :: "ZmtpMessage list" where
  "demo_messages = [\<lparr>zm_frames = [the_frame False False [1, 2], the_frame False False []]\<rparr>,
     \<lparr>zm_frames = [the_frame False False [3]]\<rparr>]"

theorem zmtp_message_roundtrip_witness:
  "\<exists>s'. emit_all SlideBuf_more demo_messages (bb_new SlideBuf_impl 1000) = Some (Inr (), s') \<and>
    (\<exists>rs z'. z_polls SlideBuf_impl SlideBuf_more 9 (Zmtp_new SlideBuf_impl []
        (demo_conn\<lparr>t_in := [RdData demo_hello, RdPending, RdData (sb_abs s')]\<rparr>) PUSH) = Some (rs, z') \<and>
      map payload (z_yields rs) = [Some [[1, 2], []], Some [[3]]])"
proof -
  have n: "sb_inv (bb_new SlideBuf_impl 1000)" "sb_abs (bb_new SlideBuf_impl 1000) = []" "bb_cap SlideBuf_impl (bb_new SlideBuf_impl 1000) = 1000"
    using sbb.new [of 1000] by simp_all
  have w: "length (wires (messages_frames demo_messages)) = 30"
    by (simp add: messages_frames_def demo_messages_def the_frame_def wf_size_def wf_long_def)
  obtain s' where s': "emit_all SlideBuf_more demo_messages (bb_new SlideBuf_impl 1000) = Some (Inr (), s')"
    "\<forall>(t :: unit Tcp) h k rx ty. clean_conn t \<and> t_rcvd t = [] \<and> t_sent t = [] \<and> z_hello_ok h \<and> all_bytes t = h @ sb_abs s' \<and>
        RdData [] \<notin> set (t_in t) \<and> length (t_in t) + length demo_messages < k \<longrightarrow>
      (\<exists>rs z'. z_polls SlideBuf_impl SlideBuf_more k (Zmtp_new SlideBuf_impl rx t ty) = Some (rs, z') \<and> calm rs \<and>
        map payload (z_yields rs) = map (\<lambda>m. Some (map zf_data (zm_frames m))) demo_messages)"
    using zmtp_message_roundtrip [OF slide_buf_more_impl n(1,2), of demo_messages] n(3) w
    by (auto simp: demo_messages_def the_frame_def)
  have "sb_abs s' \<noteq> []"
    using sbm.emit_all_ok [OF n(1), of demo_messages] s'(1) n(2,3) w by auto
  then show ?thesis
    using s'(1) s'(2) [rule_format, of "demo_conn\<lparr>t_in := [RdData demo_hello, RdPending, RdData (sb_abs s')]\<rparr>" demo_hello 9 "[]" PUSH] demo_hello_ok
    by (auto simp: demo_conn_def clean_conn_def all_bytes_def demo_messages_def the_frame_def demo_hello_def)
qed

end
