(* ===== verification/CaWriter.thy ===== *)
theory CaWriter
  imports CaMsg SeriesWriter
begin

text \<open>
  Values of channels on their way from the protocol to the writers: \<^verbatim>\<open>CaWriterValue\<close> of
  \<^verbatim>\<open>daqbuf-netfetch/src/ca/conn2/ca_writer_value.rs\<close>, and what the creation of a channel in
  \<^verbatim>\<open>channelhandler/create.rs\<close> takes as its type. The theorems follow a value from the bytes of a message to
  the item for the database and back through the reader of arrays: it has the type and shape under which the
  channel was registered.

  Strings of messages are byte strings, those of items are \<open>string\<close>; \<open>string_of\<close> maps one to the other. The
  warning for a missing text of an enum is left out.
\<close>

section \<open>Comparison of values\<close>

text \<open>
  Floating point numbers are carried as their bit patterns; equality is the one of IEEE 754, where a NaN
  differs from everything and the two zeros are equal.
\<close>

definition is_nan32 :: "u32 \<Rightarrow> bool" where
  "is_nan32 w \<longleftrightarrow> and w 0x7f800000 = 0x7f800000 \<and> and w 0x007fffff \<noteq> 0"

definition is_nan64 :: "u64 \<Rightarrow> bool" where
  "is_nan64 w \<longleftrightarrow> and w 0x7ff0000000000000 = 0x7ff0000000000000 \<and> and w 0x000fffffffffffff \<noteq> 0"

definition f32_eq :: "u32 \<Rightarrow> u32 \<Rightarrow> bool" where
  "f32_eq a b \<longleftrightarrow> \<not> is_nan32 a \<and> \<not> is_nan32 b \<and> (a = b \<or> and (or a b) 0x7fffffff = 0)"

definition f64_eq :: "u64 \<Rightarrow> u64 \<Rightarrow> bool" where
  "f64_eq a b \<longleftrightarrow> \<not> is_nan64 a \<and> \<not> is_nan64 b \<and> (a = b \<or> and (or a b) 0x7fffffffffffffff = 0)"

fun scalar_value_eq :: "CaDataScalarValue \<Rightarrow> CaDataScalarValue \<Rightarrow> bool" where
  "scalar_value_eq (CvF32 a) (CvF32 b) = f32_eq a b"
| "scalar_value_eq (CvF64 a) (CvF64 b) = f64_eq a b"
| "scalar_value_eq a b = (a = b)"

fun array_value_eq :: "CaDataArrayValue \<Rightarrow> CaDataArrayValue \<Rightarrow> bool" where
  "array_value_eq (CaF32 a) (CaF32 b) = list_all2 f32_eq a b"
| "array_value_eq (CaF64 a) (CaF64 b) = list_all2 f64_eq a b"
| "array_value_eq a b = (a = b)"

fun data_value_eq :: "CaDataValue \<Rightarrow> CaDataValue \<Rightarrow> bool" where
  "data_value_eq (CaScalar a) (CaScalar b) = scalar_value_eq a b"
| "data_value_eq (CaArray a) (CaArray b) = array_value_eq a b"
| "data_value_eq _ _ = False"

section \<open>CaWriterValue\<close>

datatype CaWriterValue = CaWriterValue CaEventValue "rstring option"

record CaWriterValueState =
  cws_series_data :: SeriesId
  cws_series_status :: SeriesId
  cws_last_accepted_ts :: TsNano
  cws_last_accepted_val :: "CaWriterValue option"

definition CaWriterValueState_new :: "SeriesId \<Rightarrow> SeriesId \<Rightarrow> RetentionTime \<Rightarrow> CaWriterValueState" where
  "CaWriterValueState_new series_status series_data rt =
     \<lparr>cws_series_data = series_data, cws_series_status = series_status, cws_last_accepted_ts = 0, cws_last_accepted_val = None\<rparr>"

text \<open>The texts of an enum by its value as a signed 32 bit integer.\<close>

definition CaWriterValue_new :: "CaEventValue \<Rightarrow> (u32 \<rightharpoonup> rstring) \<Rightarrow> CaWriterValue" where
  "CaWriterValue_new val enum_str_table =
     CaWriterValue val
       (case ev_data val of
          CaScalar (CvEnum x) \<Rightarrow> Some (case enum_str_table (scast x) of None \<Rightarrow> str ''undefined'' | Some s \<Rightarrow> s)
        | _ \<Rightarrow> None)"

definition string_of :: "rstring \<Rightarrow> string" where
  "string_of = map (\<lambda>b. char_of (unat b))"

fun data_item_of :: "CaDataValue \<Rightarrow> rstring option \<Rightarrow> DataValue" where
  "data_item_of (CaScalar (CvI8 x)) s = DvScalar (SvI8 x)"
| "data_item_of (CaScalar (CvI16 x)) s = DvScalar (SvI16 x)"
| "data_item_of (CaScalar (CvI32 x)) s = DvScalar (SvI32 x)"
| "data_item_of (CaScalar (CvF32 x)) s = DvScalar (SvF32 x)"
| "data_item_of (CaScalar (CvF64 x)) s = DvScalar (SvF64 x)"
| "data_item_of (CaScalar (CvEnum x)) s =
     DvScalar (SvEnum x (string_of (case s of None \<Rightarrow> str ''NoEnumStr'' | Some t \<Rightarrow> t)))"
| "data_item_of (CaScalar (CvString x)) s = DvScalar (SvString (string_of x))"
| "data_item_of (CaScalar (CvBool x)) s = DvScalar (SvBool x)"
| "data_item_of (CaArray (CaI8 x)) s = DvArray (AvI8 x)"
| "data_item_of (CaArray (CaI16 x)) s = DvArray (AvI16 x)"
| "data_item_of (CaArray (CaI32 x)) s = DvArray (AvI32 x)"
| "data_item_of (CaArray (CaF32 x)) s = DvArray (AvF32 x)"
| "data_item_of (CaArray (CaF64 x)) s = DvArray (AvF64 x)"
| "data_item_of (CaArray (CaBool x)) s = DvArray (AvBool x)"

definition CaWriterValue_impl :: "(CaWriterValue, CaWriterValueState) EmittableType" where
  "CaWriterValue_impl =
     \<lparr>em_ts = (\<lambda>v. case v of CaWriterValue e _ \<Rightarrow> (case CaEventValue_ts e of None \<Rightarrow> 0 | Some t \<Rightarrow> t)),
      em_has_change = (\<lambda>v k. case (v, k) of (CaWriterValue a _, CaWriterValue b _) \<Rightarrow>
        \<not> data_value_eq (ev_data a) (ev_data b) \<or> ev_meta a \<noteq> ev_meta b),
      em_byte_size = (\<lambda>v. case v of CaWriterValue e _ \<Rightarrow> data_value_byte_size (ev_data e)),
      em_into_query_item = (\<lambda>v ts_net tsev st. case v of CaWriterValue e s \<Rightarrow>
        (\<lparr>er_data_item = data_item_of (ev_data e) s, er_bytes = data_value_byte_size (ev_data e)\<rparr>, st))\<rparr>"

section \<open>The type of a channel\<close>

text \<open>
  The answer to the creation of a channel: the request type for values with time metadata, and the element
  type and shape under which the series is registered; another data type is refused.
\<close>

definition channel_types :: "u16 \<Rightarrow> u32 \<Rightarrow> (u16 \<times> ScalarType \<times> Shape) option" where
  "channel_types dty cnt =
     (if dty > 6 then None
      else case from_ca_id dty of
             Inl _ \<Rightarrow> None
           | Inr scalar_type \<Rightarrow>
               (case from_ca_count cnt of
                  Inl _ \<Rightarrow> None
                | Inr shape \<Rightarrow> Some (dty + 14, scalar_type, shape)))"

fun scalar_of_ca :: "CaScalarType \<Rightarrow> ScalarType" where
  "scalar_of_ca CsI8 = I8" | "scalar_of_ca CsI16 = I16" | "scalar_of_ca CsI32 = I32" | "scalar_of_ca CsF32 = F32"
| "scalar_of_ca CsF64 = F64" | "scalar_of_ca CsEnum = StEnum" | "scalar_of_ca CsString = STRING"

fun scalar_value_type :: "ScalarValue \<Rightarrow> ScalarType" where
  "scalar_value_type (SvU8 _) = U8" | "scalar_value_type (SvU16 _) = U16" | "scalar_value_type (SvU32 _) = U32"
| "scalar_value_type (SvU64 _) = U64" | "scalar_value_type (SvI8 _) = I8" | "scalar_value_type (SvI16 _) = I16"
| "scalar_value_type (SvI32 _) = I32" | "scalar_value_type (SvI64 _) = I64" | "scalar_value_type (SvF32 _) = F32"
| "scalar_value_type (SvF64 _) = F64" | "scalar_value_type (SvEnum _ _) = StEnum" | "scalar_value_type (SvString _) = STRING"
| "scalar_value_type (SvBool _) = BOOL"

fun has_type :: "DataValue \<Rightarrow> ScalarType \<Rightarrow> Shape \<Rightarrow> bool" where
  "has_type (DvScalar v) t ShScalar = (scalar_value_type v = t)"
| "has_type (DvArray a) t (ShWave n) = (ArrayValue_scalar_type a = t \<and> ArrayValue_len a \<le> unat n)"
| "has_type _ _ _ = False"

fun unsigned_elements :: "ArrayValue \<Rightarrow> nat list" where
  "unsigned_elements (AvI8 a) = map unat a" | "unsigned_elements (AvI16 a) = map unat a" | "unsigned_elements (AvI32 a) = map unat a"
| "unsigned_elements (AvI64 a) = map unat a" | "unsigned_elements (AvU8 a) = map unat a" | "unsigned_elements (AvU16 a) = map unat a"
| "unsigned_elements (AvU32 a) = map unat a" | "unsigned_elements (AvU64 a) = map unat a" | "unsigned_elements (AvF32 a) = map unat a"
| "unsigned_elements (AvF64 a) = map unat a" | "unsigned_elements (AvBool a) = map of_bool a"

lemma channel_types_dbr:
  assumes "channel_types dt cnt = Some (ca, st, sh)"
  shows "\<exists>t. (CaDbrType_from_ca_u16 ca :: (('b, 'io) CaError, CaDbrType) result) = Inr \<lparr>dbr_meta = DbrTime, dbr_scalar_type = t\<rparr> \<and>
    st = scalar_of_ca t \<and> from_ca_count cnt = Inr sh"
  using assms
  by (auto simp: channel_types_def from_ca_id_def CaDbrType_from_ca_u16_def split: if_splits sum.splits)

lemma read_wave_nth:
  "length (read_wave n k bb :: 'w::len word list) = k"
  "i < k \<Longrightarrow> (read_wave n k bb :: 'w word list) ! i = from_be (take n (drop (n * i) bb))"
proof -
  show "length (read_wave n k bb :: 'w word list) = k" by (induction k arbitrary: bb) simp_all
  show "i < k \<Longrightarrow> (read_wave n k bb :: 'w word list) ! i = from_be (take n (drop (n * i) bb))"
  proof (induction k arbitrary: bb i)
    case (Suc k)
    then show ?case by (cases i) (simp_all add: add.commute)
  qed simp
qed

text \<open>A value with time metadata, decoded: the payload from the offset of the value on.\<close>

definition value_offset :: "CaScalarType \<Rightarrow> nat" where
  "value_offset t = 12 + meta_padding DbrTime t"

lemma extract_ok:
  assumes "(CaDbrType_from_ca_u16 (hi_data_type hi) :: (('b, 'io) CaError, CaDbrType) result) = Inr \<lparr>dbr_meta = DbrTime, dbr_scalar_type = t\<rparr>"
    and "from_ca_count (hi_data_count hi) = Inr sh"
    and "extract_ca_data_value hi payload tr = Some (Inr v :: (('b, 'io) CaError, CaEventValue) result)"
  shows "value_offset t \<le> length payload \<and>
    (case sh of ShScalar \<Rightarrow> ca_scalar_value t (drop (value_offset t) payload)
     | ShWave n \<Rightarrow> ca_wave_value t (min (unat n) tr) (drop (value_offset t) payload)
     | ShImage _ _ \<Rightarrow> Inl CaImageUnsupported) = (Inr (ev_data v) :: (('b, 'io) CaError, CaDataValue) result)"
proof -
  define r :: "(('b, 'io) CaError, CaDataValue) result" where "r = (case sh of ShScalar \<Rightarrow> ca_scalar_value t (drop (value_offset t) payload)
     | ShWave n \<Rightarrow> ca_wave_value t (min (unat n) tr) (drop (value_offset t) payload)
     | ShImage _ _ \<Rightarrow> Inl CaImageUnsupported)"
  have "value_offset t \<le> length payload \<and> (\<exists>m. rbind (Some r) (\<lambda>x. Some (Inr \<lparr>ev_data = x, ev_meta = m\<rparr>)) = Some (Inr v))"
    using assms unfolding extract_ca_data_value_def r_def
    by (cases sh) (auto simp: extract_meta_def value_offset_def slice_def rbind_def bind_eq_Some_conv split: if_splits)
  then show ?thesis unfolding r_def [symmetric] by (cases r) auto
qed

lemma decoded_value:
  assumes "channel_types dty (hi_data_count hi) = Some (hi_data_type hi, st, sh)"
    and "extract_ca_data_value hi payload tr = Some (Inr v :: (('b, 'io) CaError, CaEventValue) result)"
  obtains t where "st = scalar_of_ca t" "value_offset t \<le> length payload"
    "sh = ShScalar \<and> ca_scalar_value t (drop (value_offset t) payload) = (Inr (ev_data v) :: (('b, 'io) CaError, CaDataValue) result) \<or>
     (\<exists>n. sh = ShWave n \<and> ca_wave_value t (min (unat n) tr) (drop (value_offset t) payload) =
        (Inr (ev_data v) :: (('b, 'io) CaError, CaDataValue) result))"
proof -
  obtain t where t: "(CaDbrType_from_ca_u16 (hi_data_type hi) :: (('b, 'io) CaError, CaDbrType) result) =
      Inr \<lparr>dbr_meta = DbrTime, dbr_scalar_type = t\<rparr>" "st = scalar_of_ca t" "from_ca_count (hi_data_count hi) = Inr sh"
    using channel_types_dbr [OF assms(1)] by blast
  from extract_ok [OF t(1,3) assms(2)] show ?thesis using t(2) by (intro that [of t]) (auto split: Shape.splits)
qed

fun ca_width :: "CaScalarType \<Rightarrow> nat" where
  "ca_width CsI8 = 1" | "ca_width CsI16 = 2" | "ca_width CsI32 = 4" | "ca_width CsF32 = 4" | "ca_width CsF64 = 8"
| "ca_width CsEnum = 2" | "ca_width CsString = 40"

lemma ca_width: "t \<noteq> CsString \<Longrightarrow> t \<noteq> CsEnum \<Longrightarrow> unat (st_bytes (scalar_of_ca t)) = ca_width t"
  by (cases t) simp_all

lemma string_of_str [simp]: "string_of (str s) = s"
  by (induction s) (simp_all add: string_of_def str_def unsigned_of_nat take_bit_nat_eq_self)

lemma unat_read_wave:
  assumes "8 * w = LENGTH('w)"
  shows "map unat (read_wave w k bb :: 'w::len word list) = map (\<lambda>i. nat_from_be (take w (drop (w * i) bb))) [0..<k]"
proof (rule nth_equalityI)
  fix i assume "i < length (map unat (read_wave w k bb :: 'w word list))"
  moreover have "(256 :: nat) ^ w = 2 ^ LENGTH('w)" using power_mult [of "2 :: nat" 8 w] assms by simp
  then have "256 ^ length (take w (drop (w * i) bb)) \<le> (2 :: nat) ^ LENGTH('w)"
    using power_increasing [of "length (take w (drop (w * i) bb))" w "256 :: nat"] by simp
  ultimately show "map unat (read_wave w k bb :: 'w word list) ! i = map (\<lambda>i. nat_from_be (take w (drop (w * i) bb))) [0..<k] ! i"
    by (simp add: read_wave_nth unat_from_be)
qed (simp add: read_wave_nth)

section \<open>Properties\<close>

text \<open>
  C18. A value that a channel delivers is stored under the type of its series: if the channel was created with
  a data type and count, and a value requested with the corresponding type and delivered with that count
  is decoded, then the item made from it is a scalar of the registered element type for a scalar channel,
  and an array of the registered element type and at most the registered length for a waveform.
  Waveforms of enums are never decoded. The exception are waveforms of strings: they
  are decoded to one scalar string, a placeholder text.
\<close>

theorem stored_value_has_channel_type:
  assumes "channel_types dty (hi_data_count hi) = Some (hi_data_type hi, st, sh)"
    and "extract_ca_data_value hi payload tr = Some (Inr v :: (('b, 'io) CaError, CaEventValue) result)"
    and "em_into_query_item CaWriterValue_impl (CaWriterValue_new v tab) ts_net tsev state = (res, state')"
  shows "(if sh \<noteq> ShScalar \<and> st = STRING then er_data_item res = DvScalar (SvString ''todo-array-string'')
          else has_type (er_data_item res) st sh) \<and>
    \<not> (sh \<noteq> ShScalar \<and> st = StEnum) \<and> state' = state"
proof -
  have res: "er_data_item res = data_item_of (ev_data v) (case CaWriterValue_new v tab of CaWriterValue e s \<Rightarrow> s)" "state' = state"
    using assms(3) by (auto simp: CaWriterValue_impl_def CaWriterValue_new_def)
  obtain t where t: "st = scalar_of_ca t" "value_offset t \<le> length payload"
    "sh = ShScalar \<and> ca_scalar_value t (drop (value_offset t) payload) = (Inr (ev_data v) :: (('b, 'io) CaError, CaDataValue) result) \<or>
     (\<exists>n. sh = ShWave n \<and> ca_wave_value t (min (unat n) tr) (drop (value_offset t) payload) =
        (Inr (ev_data v) :: (('b, 'io) CaError, CaDataValue) result))"
    using decoded_value [OF assms(1,2)] by blast
  from t(3) show ?thesis
  proof (elim disjE exE conjE)
    assume "sh = ShScalar" "ca_scalar_value t (drop (value_offset t) payload) = (Inr (ev_data v) :: (('b, 'io) CaError, CaDataValue) result)"
    then show ?thesis
      using t(1) res by (cases t) (auto simp: ca_scalar_value_def convert_scalar_def split: if_splits dest!: sym [of _ "ev_data v"])
  next
    fix n assume "sh = ShWave n" "ca_wave_value t (min (unat n) tr) (drop (value_offset t) payload) =
        (Inr (ev_data v) :: (('b, 'io) CaError, CaDataValue) result)"
    then show ?thesis
      using t(1) res by (cases t) (auto simp: ca_wave_value_def convert_wave_def read_wave_nth dest!: sym [of _ "ev_data v"])
  qed
qed

text \<open>
  C17. The elements of a waveform of numbers survive the way from the message to the reader: the reader
  selected by the registered element type decodes the stored blob to an array whose elements are the
  big-endian fields of the payload, as many as the count and the limit of the configuration allow and the
  payload holds.
\<close>

theorem waveform_read_back:
  assumes "channel_types dty (hi_data_count hi) = Some (hi_data_type hi, st, ShWave n)"
    and "st \<noteq> STRING"
    and "extract_ca_data_value hi payload tr = Some (Inr v :: (('b, 'io) CaError, CaEventValue) result)"
    and "em_into_query_item CaWriterValue_impl (CaWriterValue_new v tab) ts_net tsev state = (res, state')"
  shows "\<exists>a t. er_data_item res = DvArray a \<and> wave_from_valueblob st (to_binary_blob a) = Some (WvArray a) \<and>
    st = scalar_of_ca t \<and>
    unsigned_elements a =
      map (\<lambda>i. nat_from_be (take (unat (st_bytes st)) (drop (value_offset t + unat (st_bytes st) * i) payload)))
        [0..<min (min (unat n) tr) ((length payload - value_offset t) div unat (st_bytes st))]"
proof -
  have res: "er_data_item res = data_item_of (ev_data v) (case CaWriterValue_new v tab of CaWriterValue e s \<Rightarrow> s)"
    using assms(4) by (auto simp: CaWriterValue_impl_def CaWriterValue_new_def)
  obtain t where t: "st = scalar_of_ca t" "ca_wave_value t (min (unat n) tr) (drop (value_offset t) payload) =
        (Inr (ev_data v) :: (('b, 'io) CaError, CaDataValue) result)"
    using decoded_value [OF assms(1,3)] by (metis Shape.distinct(1) Shape.inject(1))
  have num: "t \<noteq> CsString" "t \<noteq> CsEnum" using t assms(2) by (auto simp: ca_wave_value_def)
  have "\<exists>a. er_data_item res = DvArray a \<and> ArrayValue_scalar_type a = st \<and>
    unsigned_elements a = map (\<lambda>i. nat_from_be (take (ca_width t) (drop (value_offset t + ca_width t * i) payload)))
        [0..<min (min (unat n) tr) ((length payload - value_offset t) div ca_width t)]"
    using t num res
    by (cases t) (auto simp: ca_wave_value_def convert_wave_def unat_read_wave add.commute dest!: sym [of _ "ev_data v"])
  then show ?thesis using array_blob_roundtrip t(1) unfolding ca_width [OF num, symmetric] by metis
qed

text \<open>A waveform of three 16 bit integers.\<close>

definition demo_head :: HeadInfo where
  "demo_head = \<lparr>hi_cmdid = 1, hi_payload_size = 24, hi_data_type = 15, hi_data_count = 3, hi_param1 = 1, hi_param2 = 2, hi_is_ext = False\<rparr>"

definition demo_payload :: bytes where
  "demo_payload = replicate 14 0 @ [0, 1, 0, 2, 1, 0, 0, 0, 0, 0]"

definition demo_value :: CaEventValue where
  "demo_value = \<lparr>ev_data = CaArray (CaI16 [1, 2, 256]),
     ev_meta = MetaTime \<lparr>mt_status = 0, mt_severity = 0, mt_ca_secs = 0, mt_ca_nanos = 0\<rparr>\<rparr>"

definition demo_writer_state :: CaWriterValueState where
  "demo_writer_state = CaWriterValueState_new 1 2 Short"

lemma demo_channel: "channel_types 1 (hi_data_count demo_head) = Some (hi_data_type demo_head, I16, ShWave 3)"
  by (simp add: channel_types_def demo_head_def from_ca_id_def from_ca_count_def)

lemma demo_extract: "extract_ca_data_value demo_head demo_payload 100 = Some (Inr demo_value :: ((unit, unit) CaError, CaEventValue) result)"
  by code_simp

theorem stored_value_has_channel_type_witness:
  "has_type (er_data_item (fst (em_into_query_item CaWriterValue_impl (CaWriterValue_new demo_value Map.empty) 5 6 demo_writer_state))) I16 (ShWave 3)"
proof -
  obtain res st' where r: "em_into_query_item CaWriterValue_impl (CaWriterValue_new demo_value Map.empty) 5 6 demo_writer_state = (res, st')"
    by fastforce
  then show ?thesis using stored_value_has_channel_type [OF demo_channel demo_extract r] by simp
qed

theorem waveform_read_back_witness:
  "\<exists>a. er_data_item (fst (em_into_query_item CaWriterValue_impl (CaWriterValue_new demo_value Map.empty) 5 6 demo_writer_state)) = DvArray a \<and>
    wave_from_valueblob I16 (to_binary_blob a) = Some (WvArray a) \<and> unsigned_elements a = [1, 2, 256]"
proof -
  obtain res st' where r: "em_into_query_item CaWriterValue_impl (CaWriterValue_new demo_value Map.empty) 5 6 demo_writer_state = (res, st')"
    by fastforce
  have "er_data_item res = DvArray (AvI16 [1, 2, 256])"
    using r by (auto simp: CaWriterValue_impl_def CaWriterValue_new_def demo_value_def)
  then show ?thesis using waveform_read_back [OF demo_channel _ demo_extract r] r by auto
qed

end
