(* ===== verification/ChanStatus.thy ===== *)
theory ChanStatus
  imports Prelude
begin

text \<open>
  The status of a channel and its code in the database, \<^verbatim>\<open>daqbuf-netpod/src/channelstatus.rs\<close>: the codes are
  read back, and no other code is.
\<close>

datatype ChannelStatusClosedReason =
  CrShutdownCommand | CrChannelRemove | CrProtocolError | CrFrequencyQuota | CrBandwidthQuota | CrInternalError
| CrIocTimeout | CrNoProtocol | CrProtocolDone | CrConnectFail | CrIoError

datatype ChannelStatus =
  CsAssignedToAddress | CsOpened | CsClosed ChannelStatusClosedReason | CsPing
| CsPong | CsPongTimeout | CsMonitoringSilenceReadStart | CsMonitoringSilenceReadTimeout
| CsMonitoringSilenceReadUnchanged | CsMonitoringReadResultExpected | CsMonitoringReadResultUnexpected | CsMonitoringReadDiffTime
| CsMonitoringReadDiffValue | CsHaveStatusId | CsHaveAddress | CsPollingReadTimeout

datatype ChannelStatusError = UnknownStatus

fun closed_reason_kind :: "ChannelStatusClosedReason \<Rightarrow> u32" where
  "closed_reason_kind CrShutdownCommand = 2"
| "closed_reason_kind CrChannelRemove = 3"
| "closed_reason_kind CrProtocolError = 4"
| "closed_reason_kind CrFrequencyQuota = 5"
| "closed_reason_kind CrBandwidthQuota = 6"
| "closed_reason_kind CrInternalError = 7"
| "closed_reason_kind CrIocTimeout = 8"
| "closed_reason_kind CrNoProtocol = 9"
| "closed_reason_kind CrProtocolDone = 10"
| "closed_reason_kind CrConnectFail = 11"
| "closed_reason_kind CrIoError = 12"

fun status_to_kind :: "ChannelStatus \<Rightarrow> u32" where
  "status_to_kind (CsClosed r) = closed_reason_kind r"
| "status_to_kind CsAssignedToAddress = 24"
| "status_to_kind CsOpened = 1"
| "status_to_kind CsPing = 36"
| "status_to_kind CsPong = 25"
| "status_to_kind CsPongTimeout = 37"
| "status_to_kind CsMonitoringSilenceReadStart = 26"
| "status_to_kind CsMonitoringSilenceReadTimeout = 27"
| "status_to_kind CsMonitoringSilenceReadUnchanged = 28"
| "status_to_kind CsMonitoringReadResultExpected = 31"
| "status_to_kind CsMonitoringReadResultUnexpected = 32"
| "status_to_kind CsMonitoringReadDiffTime = 33"
| "status_to_kind CsMonitoringReadDiffValue = 34"
| "status_to_kind CsHaveStatusId = 29"
| "status_to_kind CsHaveAddress = 30"
| "status_to_kind CsPollingReadTimeout = 35"

definition status_of_kind :: "(u32 \<times> ChannelStatus) list" where
  "status_of_kind =
     [(1, CsOpened), (2, CsClosed CrShutdownCommand), (3, CsClosed CrChannelRemove),
      (4, CsClosed CrProtocolError), (5, CsClosed CrFrequencyQuota), (6, CsClosed CrBandwidthQuota),
      (7, CsClosed CrInternalError), (8, CsClosed CrIocTimeout), (9, CsClosed CrNoProtocol),
      (10, CsClosed CrProtocolDone), (11, CsClosed CrConnectFail), (12, CsClosed CrIoError),
      (24, CsAssignedToAddress), (25, CsPong), (26, CsMonitoringSilenceReadStart),
      (27, CsMonitoringSilenceReadTimeout), (28, CsMonitoringSilenceReadUnchanged), (29, CsHaveStatusId),
      (30, CsHaveAddress), (31, CsMonitoringReadResultExpected), (32, CsMonitoringReadResultUnexpected),
      (33, CsMonitoringReadDiffTime), (34, CsMonitoringReadDiffValue), (35, CsPollingReadTimeout),
      (36, CsPing), (37, CsPongTimeout)]"

definition status_from_kind :: "u32 \<Rightarrow> (ChannelStatusError, ChannelStatus) result" where
  "status_from_kind k = (case map_of status_of_kind k of Some s \<Rightarrow> Inr s | None \<Rightarrow> Inl UnknownStatus)"

definition status_to_u64 :: "ChannelStatus \<Rightarrow> u64" where
  "status_to_u64 s = ucast (status_to_kind s)"

fun to_user_variant_string :: "ChannelStatus \<Rightarrow> string" where
  "to_user_variant_string CsAssignedToAddress = ''Located''"
| "to_user_variant_string CsOpened = ''Opened''"
| "to_user_variant_string (CsClosed _) = ''Closed''"
| "to_user_variant_string CsPing = ''Pingg''"
| "to_user_variant_string CsPong = ''Pongg''"
| "to_user_variant_string CsPongTimeout = ''PongTimeout''"
| "to_user_variant_string CsMonitoringSilenceReadStart = ''MSRS''"
| "to_user_variant_string CsMonitoringSilenceReadTimeout = ''MSRT''"
| "to_user_variant_string CsMonitoringSilenceReadUnchanged = ''MSRU''"
| "to_user_variant_string CsMonitoringReadResultExpected = ''MRRE''"
| "to_user_variant_string CsMonitoringReadResultUnexpected = ''MRRU''"
| "to_user_variant_string CsMonitoringReadDiffTime = ''MRDT''"
| "to_user_variant_string CsMonitoringReadDiffValue = ''MRDV''"
| "to_user_variant_string CsHaveStatusId = ''HaveStatusId''"
| "to_user_variant_string CsHaveAddress = ''HaveAddress''"
| "to_user_variant_string CsPollingReadTimeout = ''PollingReadTimeout''"

text \<open>Every status is read back from its code, and the codes read are those of the status found.\<close>

lemma status_kind_roundtrip: "status_from_kind (status_to_kind s) = Inr s"
proof (cases s)
  case (CsClosed r)
  then show ?thesis by (cases r) (simp_all add: status_from_kind_def status_of_kind_def)
qed (simp_all add: status_from_kind_def status_of_kind_def)

lemma status_kind_exact: "status_from_kind k = Inr s \<Longrightarrow> k = status_to_kind s"
proof -
  assume "status_from_kind k = Inr s"
  then have "(k, s) \<in> set status_of_kind"
    by (auto simp: status_from_kind_def split: option.splits dest: map_of_SomeD)
  then show ?thesis by (auto simp: status_of_kind_def)
qed

lemma status_kind_iff: "status_from_kind k = Inr s \<longleftrightarrow> k = status_to_kind s"
  using status_kind_roundtrip status_kind_exact by auto

end
