(* ===== verification/ChanFetch.thy ===== *)
theory ChanFetch
  imports CaMsg InsertQueue Streams
begin

text \<open>
  The fetching of values of a channel: \<^verbatim>\<open>fetchmonitoring.rs\<close> (subscription), \<^verbatim>\<open>fetchpolling.rs\<close> (repeated
  reads), \<^verbatim>\<open>fetchmpx.rs\<close> (both together) below \<^verbatim>\<open>daqbuf-netfetch/src/ca/conn2/conn/channelheap/channelhandler\<close>,
  with \<^verbatim>\<open>running.rs\<close> around them, \<^verbatim>\<open>locallog.rs\<close> and \<^verbatim>\<open>netpod/src/hpp.rs\<close>.

  The timers of tokio, the random number generator and the operations on single precision numbers are the
  record \<open>Runtime\<close>, arbitrary in all theorems. A call takes the readings of the clocks at its time; several readings in
  one call are equal. The capacity of an input buffer is at least what \<^verbatim>\<open>with_capacity\<close> asks for, so it is a field.
  Metrics, log messages and the fields only used for them, and the measured times behind \<^verbatim>\<open>if false\<close>, are left out.
\<close>

section \<open>The runtime\<close>

text \<open>Progress of a round of polls: \<^verbatim>\<open>HaveProgressPending\<close>.\<close>

record Hpp =
  have_progress :: bool
  have_pending :: bool

definition hpp_new :: Hpp where
  "hpp_new = \<lparr>have_progress = False, have_pending = False\<rparr>"

definition hpp_progress :: Hpp where
  "hpp_progress = \<lparr>have_progress = True, have_pending = False\<rparr>"

definition hpp_pending :: Hpp where
  "hpp_pending = \<lparr>have_progress = False, have_pending = True\<rparr>"

definition hpp_merge :: "Hpp \<Rightarrow> Hpp \<Rightarrow> Hpp" where
  "hpp_merge h k =
     \<lparr>have_progress = have_progress h \<or> have_progress k, have_pending = have_pending h \<or> have_pending k\<rparr>"

record Clock =
  ck_now :: Instant
  ck_sys :: TsNano
  ck_utc :: nat

text \<open>Conversion of integers and doubles to single precision, and its addition.\<close>

record F32Ops =
  f32_of_int :: "int \<Rightarrow> u32"
  f32_of_f64 :: "u64 \<Rightarrow> u32"
  f32_add :: "u32 \<Rightarrow> u32 \<Rightarrow> u32"

record ('f, 'g) Runtime =
  sy_sleep :: "Instant \<Rightarrow> Duration \<Rightarrow> 'f"
  sy_sleep_until :: "Instant \<Rightarrow> 'f"
  sy_poll :: "Instant \<Rightarrow> 'f \<Rightarrow> bool \<times> 'f"
  sy_rng :: "'g \<Rightarrow> u32 \<times> 'g"
  sy_f32 :: F32Ops

text \<open>
  A waiting future: a sleep that was created already, or an async block around one, which creates it at the
  first poll.
\<close>

datatype 'f Sleep = Sleep 'f | SleepLater Duration | SleepLaterUntil Instant

fun sleep_poll :: "('f, 'g) Runtime \<Rightarrow> Clock \<Rightarrow> 'f Sleep \<Rightarrow> bool \<times> 'f Sleep" where
  "sleep_poll sy ck (Sleep f) = map_prod id Sleep (sy_poll sy (ck_now ck) f)"
| "sleep_poll sy ck (SleepLater d) = map_prod id Sleep (sy_poll sy (ck_now ck) (sy_sleep sy (ck_now ck) d))"
| "sleep_poll sy ck (SleepLaterUntil t) = map_prod id Sleep (sy_poll sy (ck_now ck) (sy_sleep_until sy t))"

definition Duration_from_millis :: "nat \<Rightarrow> Duration" where
  "Duration_from_millis ms = ms * 1000000"

section \<open>The local log\<close>

type_synonym LogEntry = "u32 \<times> nat \<times> string"

record LocalLog =
  ll_enable :: bool
  ll_cnt :: u32
  ll_buf :: "LogEntry list"

definition ll_new :: LocalLog where
  "ll_new = \<lparr>ll_enable = False, ll_cnt = 0, ll_buf = []\<rparr>"

definition ll_do_enable :: "LocalLog \<Rightarrow> LocalLog" where
  "ll_do_enable l = (if \<not> ll_enable l then l\<lparr>ll_enable := True, ll_buf := []\<rparr> else l)"

definition ll_disable :: "LocalLog \<Rightarrow> LocalLog" where
  "ll_disable l = (if ll_enable l then l\<lparr>ll_enable := False, ll_buf := []\<rparr> else l)"

definition ll_check_truncate :: "LocalLog \<Rightarrow> LocalLog" where
  "ll_check_truncate l = (if length (ll_buf l) \<ge> 120 then l\<lparr>ll_buf := drop 20 (ll_buf l)\<rparr> else l)"

definition ll_push :: "nat \<Rightarrow> string \<Rightarrow> LocalLog \<Rightarrow> LocalLog" where
  "ll_push utc s l0 =
     (let l = ll_check_truncate l0 in
      l\<lparr>ll_cnt := ll_cnt l + 1, ll_buf := ll_buf l @ [(ll_cnt l, utc, s)]\<rparr>)"

definition ll_push_entry :: "LogEntry \<Rightarrow> LocalLog \<Rightarrow> LocalLog" where
  "ll_push_entry e l0 = (let l = ll_check_truncate l0 in l\<lparr>ll_buf := ll_buf l @ [e]\<rparr>)"

definition ll_pop :: "LocalLog \<Rightarrow> LogEntry option \<times> LocalLog" where
  "ll_pop l = (case ll_buf l of [] \<Rightarrow> (None, l) | e # b \<Rightarrow> (Some e, l\<lparr>ll_buf := b\<rparr>))"

definition ll_to_vec_string :: "LocalLog \<Rightarrow> LogEntry list" where
  "ll_to_vec_string l = ll_buf l"

section \<open>Values\<close>

record ProtoRxItem =
  pri_msg :: CaMsg
  pri_tscmd :: Instant
  pri_tsreg :: Instant
  pri_tsdisp :: Instant

record ChannelEventValue =
  cev_series :: SeriesId
  cev_ts :: TsNano
  cev_val :: u32

record TestValue =
  tv_val :: u32
  tv_dttrig :: u32
  tv_dtcmd :: u32
  tv_dtreg :: u32
  tv_dtdisp :: u32

fun f32_scalar :: "F32Ops \<Rightarrow> CaDataScalarValue \<Rightarrow> u32" where
  "f32_scalar fl (CvI8 x) = f32_of_int fl (sint x)"
| "f32_scalar fl (CvI16 x) = f32_of_int fl (sint x)"
| "f32_scalar fl (CvI32 x) = f32_of_int fl (sint x)"
| "f32_scalar fl (CvF32 x) = x"
| "f32_scalar fl (CvF64 x) = f32_of_f64 fl x"
| "f32_scalar fl (CvEnum x) = f32_of_int fl (sint x)"
| "f32_scalar fl (CvString x) = f32_of_int fl (int (length x))"
| "f32_scalar fl (CvBool x) = f32_of_int fl (of_bool x)"

fun f32_array :: "F32Ops \<Rightarrow> CaDataArrayValue \<Rightarrow> u32" where
  "f32_array fl (CaI8 x) = foldl (\<lambda>a x. f32_add fl a (f32_of_int fl (sint x))) 0 x"
| "f32_array fl (CaI16 x) = foldl (\<lambda>a x. f32_add fl a (f32_of_int fl (sint x))) 0 x"
| "f32_array fl (CaI32 x) = foldl (\<lambda>a x. f32_add fl a (f32_of_int fl (sint x))) 0 x"
| "f32_array fl (CaF32 x) = foldl (f32_add fl) 0 x"
| "f32_array fl (CaF64 x) = foldl (\<lambda>a x. f32_add fl a (f32_of_f64 fl x)) 0 x"
| "f32_array fl (CaBool x) = foldl (\<lambda>a x. f32_add fl a (f32_of_int fl (of_bool x))) 0 x"

definition f32_for_binning :: "F32Ops \<Rightarrow> CaEventValue \<Rightarrow> u32" where
  "f32_for_binning fl v =
     (case ev_data v of CaScalar x \<Rightarrow> f32_scalar fl x | CaArray x \<Rightarrow> f32_array fl x)"

text \<open>A bounded input buffer hands the item back when it is full.\<close>

definition push_try :: "nat \<Rightarrow> 'x \<Rightarrow> 'x list \<Rightarrow> 'x option \<times> 'x list" where
  "push_try cap x v = (if length v < cap then (None, v @ [x]) else (Some x, v))"

text \<open>A duration times (1024 - off + r) / 1024 for a random byte r.\<close>

definition jittered :: "nat \<Rightarrow> u32 \<Rightarrow> Duration \<Rightarrow> Duration" where
  "jittered off r dur = (1024 - off + unat (and r 0xff)) * dur div 1024"

definition ca_count :: "Shape \<Rightarrow> u32 panics" where
  "ca_count s = (case to_ca_count s of Inl _ \<Rightarrow> None | Inr n \<Rightarrow> Some n)"

datatype FetchError = FetchLogic

section \<open>Subscription\<close>

definition SILENCE_MONITOR_WAKEUP :: Duration where
  "SILENCE_MONITOR_WAKEUP = Duration_from_millis 60000"

definition CREATE_SEND_TIMEOUT :: Duration where
  "CREATE_SEND_TIMEOUT = Duration_from_millis 20000"

datatype StateDirection = DirNone | DirDisable | DirEnable | DirClosing

datatype MonitoringItem =
  MiProtoOutSubid CaMsg Instant
| MiSubidRemove u32
| MiChannelEventValue ChannelEventValue
| MiTestValue TestValue
| MiLocalLog LogEntry

datatype 'f MonState =
  MDoNothing
| MCreateMonitorSend StateDirection
| MCreateMonitorRecv "'f Sleep" StateDirection
| MMonitoring "'f Sleep" StateDirection
| MRemoveMonitorSend StateDirection
| MRemoveMonitorRecv "'f Sleep" StateDirection
| MRemoveSubidSend StateDirection
| MClosing1
| MDone

fun mon_state_name :: "'f MonState \<Rightarrow> string" where
  "mon_state_name MDoNothing = ''DoNothing''"
| "mon_state_name (MCreateMonitorSend _) = ''CreateMonitorSend''"
| "mon_state_name (MCreateMonitorRecv _ _) = ''CreateMonitorRecv''"
| "mon_state_name (MMonitoring _ _) = ''Monitoring''"
| "mon_state_name (MRemoveMonitorSend _) = ''RemoveMonitorSend''"
| "mon_state_name (MRemoveMonitorRecv _ _) = ''RemoveMonitorRecv''"
| "mon_state_name (MRemoveSubidSend _) = ''RemoveSubidSend''"
| "mon_state_name MClosing1 = ''Closing1''"
| "mon_state_name MDone = ''Done''"

record ('f, 'g) FetchMonitoring =
  fm_state :: "'f MonState"
  fm_series :: SeriesId
  fm_cid :: u32
  fm_sid :: u32
  fm_scalar_type :: ScalarType
  fm_shape :: Shape
  fm_dbr_ty :: u16
  fm_inp_buf :: "ProtoRxItem list"
  fm_inp_cap :: nat
  fm_inp_done :: bool
  fm_rng :: 'g
  fm_llog :: LocalLog

definition fm_new :: "nat \<Rightarrow> 'g \<Rightarrow> SeriesId \<Rightarrow> u32 \<Rightarrow> u32 \<Rightarrow> ScalarType \<Rightarrow> Shape \<Rightarrow> u16 \<Rightarrow> ('f, 'g) FetchMonitoring" where
  "fm_new cap rng series cid sid st sh dbr =
     \<lparr>fm_state = MDoNothing, fm_series = series, fm_cid = cid, fm_sid = sid, fm_scalar_type = st, fm_shape = sh,
      fm_dbr_ty = dbr, fm_inp_buf = [], fm_inp_cap = cap, fm_inp_done = False, fm_rng = rng, fm_llog = ll_new\<rparr>"

definition fm_log :: "Clock \<Rightarrow> string \<Rightarrow> ('f, 'g) FetchMonitoring \<Rightarrow> ('f, 'g) FetchMonitoring" where
  "fm_log ck t s = s\<lparr>fm_llog := ll_push (ck_utc ck) t (fm_llog s)\<rparr>"

definition fm_transition :: "Clock \<Rightarrow> 'f MonState \<Rightarrow> ('f, 'g) FetchMonitoring \<Rightarrow> ('f, 'g) FetchMonitoring" where
  "fm_transition ck new s =
     fm_log ck (''transition  '' @ mon_state_name (fm_state s) @ '' -> '' @ mon_state_name new) s\<lparr>fm_state := new\<rparr>"

definition fm_duration_jitter :: "('f, 'g) Runtime \<Rightarrow> Duration \<Rightarrow> ('f, 'g) FetchMonitoring \<Rightarrow> Duration \<times> ('f, 'g) FetchMonitoring" where
  "fm_duration_jitter sy dur s =
     (let (r, g) = sy_rng sy (fm_rng s) in (jittered (1024 div 8) r dur, s\<lparr>fm_rng := g\<rparr>))"

definition fm_transition_to_enable :: "Clock \<Rightarrow> ('f, 'g) FetchMonitoring \<Rightarrow> ('f, 'g) FetchMonitoring" where
  "fm_transition_to_enable ck s0 =
     (let s = fm_log ck (''transition_to_enable  '' @ mon_state_name (fm_state s0)) s0 in
      case fm_state s of
        MDoNothing \<Rightarrow> fm_transition ck (MCreateMonitorSend DirEnable) s
      | MRemoveMonitorSend _ \<Rightarrow> s\<lparr>fm_state := MRemoveMonitorSend DirEnable\<rparr>
      | MRemoveMonitorRecv f _ \<Rightarrow> s\<lparr>fm_state := MRemoveMonitorRecv f DirEnable\<rparr>
      | MRemoveSubidSend _ \<Rightarrow> s\<lparr>fm_state := MRemoveSubidSend DirEnable\<rparr>
      | _ \<Rightarrow> s)"

text \<open>Disabling and closing set the direction where a subscription exists or is being made.\<close>

fun set_dir :: "StateDirection \<Rightarrow> 'f MonState \<Rightarrow> 'f MonState" where
  "set_dir d (MCreateMonitorSend _) = MCreateMonitorSend d"
| "set_dir d (MCreateMonitorRecv f _) = MCreateMonitorRecv f d"
| "set_dir d (MMonitoring f _) = MMonitoring f d"
| "set_dir d st = st"

definition fm_transition_to_disable :: "Clock \<Rightarrow> ('f, 'g) FetchMonitoring \<Rightarrow> ('f, 'g) FetchMonitoring" where
  "fm_transition_to_disable ck s0 =
     (let s = fm_log ck (''transition_to_disable  '' @ mon_state_name (fm_state s0)) s0 in
      s\<lparr>fm_state := set_dir DirDisable (fm_state s)\<rparr>)"

definition fm_transition_to_closing :: "Clock \<Rightarrow> ('f, 'g) FetchMonitoring \<Rightarrow> ('f, 'g) FetchMonitoring" where
  "fm_transition_to_closing ck s0 =
     (let s = fm_log ck (''transition_to_closing  '' @ mon_state_name (fm_state s0)) s0 in
      s\<lparr>fm_state := set_dir DirClosing (fm_state s)\<rparr>)"

definition fm_trigger_closing :: "Clock \<Rightarrow> ('f, 'g) FetchMonitoring \<Rightarrow> ('f, 'g) FetchMonitoring" where
  "fm_trigger_closing ck s = fm_transition_to_closing ck s"

definition fm_inp_push_try :: "ProtoRxItem \<Rightarrow> ('f, 'g) FetchMonitoring \<Rightarrow> ProtoRxItem option \<times> ('f, 'g) FetchMonitoring" where
  "fm_inp_push_try x s = (let (r, v) = push_try (fm_inp_cap s) x (fm_inp_buf s) in (r, s\<lparr>fm_inp_buf := v\<rparr>))"

definition fm_set_inp_done :: "('f, 'g) FetchMonitoring \<Rightarrow> ('f, 'g) FetchMonitoring" where
  "fm_set_inp_done s = s\<lparr>fm_inp_done := True\<rparr>"

type_synonym inp_res = "(FetchError, MonitoringItem) result option option poll"

definition fm_handle_received_item :: "('f, 'g) Runtime \<Rightarrow> Clock \<Rightarrow> ('f, 'g) FetchMonitoring \<Rightarrow> ProtoRxItem \<Rightarrow> inp_res" where
  "fm_handle_received_item sy ck s item =
     (case cm_ty (pri_msg item) of
        EventAddResMsg v \<Rightarrow>
          Ready (Some (Some (Inr (MiChannelEventValue
            \<lparr>cev_series = fm_series s, cev_ts = ck_sys ck, cev_val = f32_for_binning (sy_f32 sy) (eq_value v)\<rparr>))))
      | _ \<Rightarrow> Ready (Some None))"

definition fm_poll_inp :: "('f, 'g) Runtime \<Rightarrow> Clock \<Rightarrow> ('f, 'g) FetchMonitoring \<Rightarrow> inp_res \<times> ('f, 'g) FetchMonitoring" where
  "fm_poll_inp sy ck s0 =
     (case fm_inp_buf s0 of
        [] \<Rightarrow> (if fm_inp_done s0 then Ready None else Pending, s0)
      | item # rest \<Rightarrow>
          let s = s0\<lparr>fm_inp_buf := rest\<rparr> in
          case fm_state s of
            MCreateMonitorRecv _ d \<Rightarrow>
              let ret = fm_handle_received_item sy ck s item;
                  (dur, s) = fm_duration_jitter sy SILENCE_MONITOR_WAKEUP s
              in (ret, fm_transition ck (MMonitoring (Sleep (sy_sleep sy (ck_now ck) dur)) d) s)
          | MMonitoring _ _ \<Rightarrow> (fm_handle_received_item sy ck s item, s)
          | MRemoveMonitorSend _ \<Rightarrow> (fm_handle_received_item sy ck s item, s)
          | MRemoveMonitorRecv _ d \<Rightarrow>
              (Ready (Some None),
               case cm_ty (pri_msg item) of
                 EventAddResEmptyMsg _ \<Rightarrow> fm_transition ck (MRemoveSubidSend d) s
               | EventCancelRes _ \<Rightarrow> fm_transition ck (MRemoveSubidSend d) s
               | _ \<Rightarrow> s)
          | MRemoveSubidSend _ \<Rightarrow> (Ready (Some None), s\<lparr>fm_inp_buf := []\<rparr>)
          | _ \<Rightarrow> (Ready (Some None), s))"

text \<open>What a round has to send for the state: an item to return, or whether there was progress.\<close>

definition fm_step :: "('f, 'g) Runtime \<Rightarrow> Clock \<Rightarrow> ('f, 'g) FetchMonitoring \<Rightarrow>
    (MonitoringItem option \<times> Hpp \<times> ('f, 'g) FetchMonitoring) panics" where
  "fm_step sy ck s =
     (case fm_state s of
        MDoNothing \<Rightarrow> Some (None, hpp_new, s)
      | MCreateMonitorSend d \<Rightarrow>
          do { cnt \<leftarrow> ca_count (fm_shape s);
               let msg = CaMsg_from_ty_ts (EventAddMsg \<lparr>ea_data_type = fm_dbr_ty s, ea_data_count = cnt, ea_sid = fm_sid s, ea_subid = 0\<rparr>) (ck_now ck);
                   s = fm_transition ck (MCreateMonitorRecv (Sleep (sy_sleep sy (ck_now ck) CREATE_SEND_TIMEOUT)) d) s
               in Some (Some (MiProtoOutSubid msg (ck_now ck)), hpp_progress, s) }
      | MCreateMonitorRecv f d \<Rightarrow>
          (case sleep_poll sy ck f of
             (True, _) \<Rightarrow> Some (None, hpp_progress, fm_transition ck MDoNothing s)
           | (False, f) \<Rightarrow> Some (None, hpp_pending, s\<lparr>fm_state := MCreateMonitorRecv f d\<rparr>))
      | MMonitoring f d \<Rightarrow>
          (case d of
             DirNone \<Rightarrow> Some (None, hpp_new, s)
           | DirEnable \<Rightarrow>
               (case sleep_poll sy ck f of
                  (True, _) \<Rightarrow>
                    let s = fm_log ck ''poll_next_unpin  Monitoring  Timeout  7d956c9'' s;
                        (dur, s) = fm_duration_jitter sy SILENCE_MONITOR_WAKEUP s
                    in Some (None, hpp_progress, fm_transition ck (MMonitoring (Sleep (sy_sleep sy (ck_now ck) dur)) d) s)
                | (False, f) \<Rightarrow> Some (None, hpp_pending, s\<lparr>fm_state := MMonitoring f d\<rparr>))
           | _ \<Rightarrow> Some (None, hpp_progress, fm_transition ck (MRemoveMonitorSend d) s))
      | MRemoveMonitorSend d \<Rightarrow>
          do { cnt \<leftarrow> ca_count (fm_shape s);
               let msg = CaMsg_from_ty_ts (EventCancelMsg \<lparr>ec_data_type = fm_dbr_ty s, ec_data_count = cnt, ec_sid = fm_sid s, ec_subid = 0\<rparr>) (ck_now ck);
                   s = fm_transition ck (MRemoveMonitorRecv (Sleep (sy_sleep sy (ck_now ck) CREATE_SEND_TIMEOUT)) d) s
               in Some (Some (MiProtoOutSubid msg (ck_now ck)), hpp_progress, s) }
      | MRemoveMonitorRecv f d \<Rightarrow>
          (case sleep_poll sy ck f of
             (True, _) \<Rightarrow> Some (None, hpp_progress, fm_transition ck MDoNothing s)
           | (False, f) \<Rightarrow> Some (None, hpp_pending, s\<lparr>fm_state := MRemoveMonitorRecv f d\<rparr>))
      | MRemoveSubidSend d \<Rightarrow>
          let s = fm_transition ck
                    (case d of DirEnable \<Rightarrow> MCreateMonitorSend d | DirClosing \<Rightarrow> MClosing1 | _ \<Rightarrow> MDoNothing) s
          in Some (Some (MiSubidRemove (fm_cid s)), hpp_progress, s)
      | MClosing1 \<Rightarrow> Some (None, hpp_progress, (fm_set_inp_done s)\<lparr>fm_state := MDone\<rparr>)
      | MDone \<Rightarrow> Some (None, hpp_new, s))"

definition hpp_of_inp :: "inp_res \<Rightarrow> Hpp" where
  "hpp_of_inp r = (case r of Ready (Some _) \<Rightarrow> hpp_progress | Ready None \<Rightarrow> hpp_new | Pending \<Rightarrow> hpp_pending)"

type_synonym 'i item_poll = "(FetchError, 'i) result option poll"

partial_function (option) fm_poll_next :: "('f, 'g) Runtime \<Rightarrow> Clock \<Rightarrow> ('f, 'g) FetchMonitoring \<Rightarrow>
    (MonitoringItem item_poll \<times> ('f, 'g) FetchMonitoring) panics" where
  "fm_poll_next sy ck s =
     (case ll_pop (fm_llog s) of
        (Some x, l) \<Rightarrow> Some (Ready (Some (Inr (MiLocalLog x))), s\<lparr>fm_llog := l\<rparr>)
      | (None, _) \<Rightarrow>
          (let (p, s) = fm_poll_inp sy ck s in
           case p of
             Ready (Some (Some (Inr x))) \<Rightarrow> Some (Ready (Some (Inr x)), s)
           | _ \<Rightarrow>
               do { (out, h, s) \<leftarrow> fm_step sy ck s;
                    case out of
                      Some x \<Rightarrow> Some (Ready (Some (Inr x)), s)
                    | None \<Rightarrow>
                        let h = hpp_merge (hpp_of_inp p) h in
                        if have_progress h then fm_poll_next sy ck s
                        else if have_pending h then Some (Pending, s)
                        else Some (Ready None, s) }))"

end
