(* ===== verification/ChanFetchCorrect.thy ===== *)
theory ChanFetchCorrect
  imports ChanFetch "HOL-Library.Sublist" "HOL-Library.Code_Target_Nat"
begin

text \<open>
  The subscription of a channel against a protocol of what may be sent and yielded. A run is a sequence of
  calls in any order, at any times and with any timers; its trace holds the calls and what the polls yield.
\<close>

section \<open>Calls and traces\<close>

datatype FetchCall = FcEnable | FcDisable | FcClosing | FcPush ProtoRxItem | FcInpDone | FcPoll

definition yield_of :: "'i item_poll \<Rightarrow> 'i list" where
  "yield_of r = (case r of Ready (Some (Inr x)) \<Rightarrow> [x] | _ \<Rightarrow> [])"

fun fm_call :: "('f, 'g) Runtime \<Rightarrow> Clock \<Rightarrow> FetchCall \<Rightarrow> ('f, 'g) FetchMonitoring \<Rightarrow>
    (MonitoringItem list \<times> ('f, 'g) FetchMonitoring) panics" where
  "fm_call sy ck FcEnable s = Some ([], fm_transition_to_enable ck s)"
| "fm_call sy ck FcDisable s = Some ([], fm_transition_to_disable ck s)"
| "fm_call sy ck FcClosing s = Some ([], fm_trigger_closing ck s)"
| "fm_call sy ck (FcPush x) s = Some ([], snd (fm_inp_push_try x s))"
| "fm_call sy ck FcInpDone s = Some ([], fm_set_inp_done s)"
| "fm_call sy ck FcPoll s = do { (r, s) \<leftarrow> fm_poll_next sy ck s; Some (yield_of r, s) }"

primrec fetch_run :: "(Clock \<Rightarrow> FetchCall \<Rightarrow> 's \<Rightarrow> ('i list \<times> 's) panics) \<Rightarrow> (Clock \<times> FetchCall) list \<Rightarrow> 's \<Rightarrow>
    ((FetchCall + 'i) list \<times> 's) panics" where
  "fetch_run f [] s = Some ([], s)"
| "fetch_run f (c # cs) s =
     do { (out, s) \<leftarrow> f (fst c) (snd c) s;
          (tr, s) \<leftarrow> fetch_run f cs s;
          Some (Inl (snd c) # map Inr out @ tr, s) }"

text \<open>A trace that a protocol allows: its phases are those of a partial function.\<close>

primrec trace_ok :: "('p \<Rightarrow> 'e \<Rightarrow> 'p option) \<Rightarrow> 'p \<Rightarrow> 'e list \<Rightarrow> bool" where
  "trace_ok f p [] = True"
| "trace_ok f p (e # tr) = (case f p e of None \<Rightarrow> False | Some p' \<Rightarrow> trace_ok f p' tr)"

primrec called :: "(FetchCall + 'i) list \<Rightarrow> FetchCall list" where
  "called [] = []"
| "called (e # tr) = (case e of Inl c \<Rightarrow> c # called tr | Inr _ \<Rightarrow> called tr)"

text \<open>The values of the items yielded, and of the messages pushed.\<close>

primrec yields_of :: "('i \<Rightarrow> u32 list) \<Rightarrow> (FetchCall + 'i) list \<Rightarrow> u32 list" where
  "yields_of f [] = []"
| "yields_of f (e # tr) = (case e of Inl _ \<Rightarrow> [] | Inr x \<Rightarrow> f x) @ yields_of f tr"

fun pushed_by :: "(ProtoRxItem \<Rightarrow> u32 list) \<Rightarrow> FetchCall \<Rightarrow> u32 list" where
  "pushed_by f (FcPush x) = f x"
| "pushed_by f _ = []"

definition pushes_of :: "(ProtoRxItem \<Rightarrow> u32 list) \<Rightarrow> (FetchCall + 'i) list \<Rightarrow> u32 list" where
  "pushes_of f tr = concat (map (pushed_by f) (called tr))"

lemma called_append [simp]: "called (tr @ tr') = called tr @ called tr'"
  by (induction tr) (simp_all split: sum.splits)

lemma called_items [simp]: "called (map Inr out) = []"
  by (induction out) simp_all

lemma pushes_of_simps [simp]:
  "pushes_of f [] = []" "pushes_of f (Inl c # tr) = pushed_by f c @ pushes_of f tr"
  "pushes_of f (map Inr out @ tr) = pushes_of f tr"
  by (simp_all add: pushes_of_def)

lemma yields_of_items [simp]: "yields_of f (map Inr out @ tr) = concat (map f out) @ yields_of f tr"
  by (induction out) simp_all

lemma subseq_shift:
  assumes "subseq (a @ b) (c @ d)" and "subseq (e @ f) (b @ g)"
  shows "subseq ((a @ e) @ f) (c @ d @ g)"
  using assms subseq_order.trans [of "a @ e @ f" "a @ b @ g" "(c @ d) @ g"]
  by (simp add: subseq_append') (metis append_assoc subseq_append)

text \<open>
  What the handlers have in common: every call returns and keeps to a protocol, and the values yielded come
  from the messages pushed, through a buffer.
\<close>

locale fetcher =
  fixes call :: "Clock \<Rightarrow> FetchCall \<Rightarrow> 's \<Rightarrow> ('i list \<times> 's) panics"
    and allows :: "'p \<Rightarrow> FetchCall + 'i \<Rightarrow> 'p option"
    and holds :: "'p \<Rightarrow> 's \<Rightarrow> bool"
    and vals :: "'i \<Rightarrow> u32 list"
    and msg_vals :: "ProtoRxItem \<Rightarrow> u32 list"
    and buffered :: "'s \<Rightarrow> u32 list"
  assumes call_ok: "holds p s \<Longrightarrow> \<exists>out p' s'. call ck c s = Some (out, s') \<and> holds p' s' \<and>
    (\<forall>tr. trace_ok allows p (Inl c # map Inr out @ tr) = trace_ok allows p' tr) \<and>
    subseq (concat (map vals out) @ buffered s') (buffered s @ pushed_by msg_vals c)"
begin

lemma run_ok:
  "holds p s \<Longrightarrow> \<exists>tr s'. fetch_run call cs s = Some (tr, s') \<and> called tr = map snd cs \<and> trace_ok allows p tr \<and>
    subseq (yields_of vals tr @ buffered s') (buffered s @ pushes_of msg_vals tr)"
proof (induction cs arbitrary: s p)
  case (Cons c cs)
  obtain out s1 p1 where c: "call (fst c) (snd c) s = Some (out, s1)" "holds p1 s1"
    "\<forall>tr. trace_ok allows p (Inl (snd c) # map Inr out @ tr) = trace_ok allows p1 tr"
    "subseq (concat (map vals out) @ buffered s1) (buffered s @ pushed_by msg_vals (snd c))"
    using call_ok [OF Cons.prems] by blast
  obtain tr s' where r: "fetch_run call cs s1 = Some (tr, s')" "called tr = map snd cs" "trace_ok allows p1 tr"
    "subseq (yields_of vals tr @ buffered s') (buffered s1 @ pushes_of msg_vals tr)"
    using Cons.IH [OF c(2)] by blast
  show ?case
    using c(1,3) r(1,2,3) subseq_shift [OF c(4) r(4)] by (simp del: trace_ok.simps)
qed simp

lemma run_from_start:
  assumes "holds p s" and "buffered s = []"
  shows "\<exists>tr s'. fetch_run call cs s = Some (tr, s') \<and> called tr = map snd cs \<and> trace_ok allows p tr \<and>
    subseq (yields_of vals tr) (pushes_of msg_vals tr)"
proof -
  obtain tr s' where r: "fetch_run call cs s = Some (tr, s')" "called tr = map snd cs" "trace_ok allows p tr"
    "subseq (yields_of vals tr @ buffered s') (pushes_of msg_vals tr)"
    using run_ok [OF assms(1), of cs] assms(2) by auto
  have "subseq (yields_of vals tr) (yields_of vals tr @ buffered s')" by auto
  then show ?thesis using r subseq_order.trans by blast
qed

end

section \<open>The protocol\<close>

record ChanPar =
  pr_series :: SeriesId
  pr_cid :: u32
  pr_sid :: u32
  pr_dbr :: u16
  pr_count :: u32

text \<open>
  No subscription; asked for one, no value yet; values arrive; cancelled, but not yet confirmed. The flag
  tells whether a subscription was asked for since the last request was sent.
\<close>

datatype MonPhase = MpOff | MpAsked | MpOn | MpCancelled

definition add_msg :: "ChanPar \<Rightarrow> Instant \<Rightarrow> CaMsg" where
  "add_msg par t = CaMsg_from_ty_ts (EventAddMsg
     \<lparr>ea_data_type = pr_dbr par, ea_data_count = pr_count par, ea_sid = pr_sid par, ea_subid = 0\<rparr>) t"

definition cancel_msg :: "ChanPar \<Rightarrow> Instant \<Rightarrow> CaMsg" where
  "cancel_msg par t = CaMsg_from_ty_ts (EventCancelMsg
     \<lparr>ec_data_type = pr_dbr par, ec_data_count = pr_count par, ec_sid = pr_sid par, ec_subid = 0\<rparr>) t"

fun mon_next :: "ChanPar \<Rightarrow> MonPhase \<times> bool \<Rightarrow> FetchCall + MonitoringItem \<Rightarrow> (MonPhase \<times> bool) option" where
  "mon_next par (p, w) (Inl c) = Some (p, w \<or> c = FcEnable)"
| "mon_next par (p, w) (Inr (MiLocalLog _)) = Some (p, w)"
| "mon_next par (p, w) (Inr (MiTestValue _)) = None"
| "mon_next par (p, w) (Inr (MiProtoOutSubid m t)) =
     (if m = add_msg par t \<and> w \<and> p \<noteq> MpOn then Some (MpAsked, False)
      else if m = cancel_msg par t \<and> (p = MpAsked \<or> p = MpOn) then Some (MpCancelled, w)
      else None)"
| "mon_next par (p, w) (Inr (MiSubidRemove cid)) =
     (if cid = pr_cid par \<and> p = MpCancelled then Some (MpOff, w) else None)"
| "mon_next par (p, w) (Inr (MiChannelEventValue v)) =
     (if cev_series v = pr_series par \<and> (p = MpAsked \<or> p = MpOn) then Some (MpOn, w) else None)"

text \<open>The values that were pushed and those that were yielded.\<close>

definition update_values :: "('f, 'g) Runtime \<Rightarrow> ProtoRxItem \<Rightarrow> u32 list" where
  "update_values sy x = (case cm_ty (pri_msg x) of EventAddResMsg v \<Rightarrow> [f32_for_binning (sy_f32 sy) (eq_value v)] | _ \<Rightarrow> [])"

fun item_values :: "MonitoringItem \<Rightarrow> u32 list" where
  "item_values (MiChannelEventValue v) = [cev_val v]"
| "item_values _ = []"

section \<open>Refinement\<close>

definition par_of :: "ChanPar \<Rightarrow> ('f, 'g) FetchMonitoring \<Rightarrow> bool" where
  "par_of par s \<longleftrightarrow> fm_series s = pr_series par \<and> fm_cid s = pr_cid par \<and> fm_sid s = pr_sid par \<and>
     fm_dbr_ty s = pr_dbr par \<and> ca_count (fm_shape s) = Some (pr_count par)"

fun phase_ok :: "MonPhase \<times> bool \<Rightarrow> 'f MonState \<Rightarrow> bool" where
  "phase_ok (p, w) (MCreateMonitorSend _) = (w \<and> p \<noteq> MpOn)"
| "phase_ok (p, w) (MCreateMonitorRecv _ _) = (p = MpAsked)"
| "phase_ok (p, w) (MMonitoring _ _) = (p = MpAsked \<or> p = MpOn)"
| "phase_ok (p, w) (MRemoveMonitorSend d) = ((p = MpAsked \<or> p = MpOn) \<and> (d = DirEnable \<longrightarrow> w))"
| "phase_ok (p, w) (MRemoveMonitorRecv _ d) = (p = MpCancelled \<and> (d = DirEnable \<longrightarrow> w))"
| "phase_ok (p, w) (MRemoveSubidSend d) = (p = MpCancelled \<and> (d = DirEnable \<longrightarrow> w))"
| "phase_ok (p, w) _ = (p \<noteq> MpOn)"

definition mon_inv :: "ChanPar \<Rightarrow> MonPhase \<times> bool \<Rightarrow> ('f, 'g) FetchMonitoring \<Rightarrow> bool" where
  "mon_inv par st s \<longleftrightarrow> par_of par s \<and> phase_ok st (fm_state s)"

definition buf_values :: "('f, 'g) Runtime \<Rightarrow> ('f, 'g) FetchMonitoring \<Rightarrow> u32 list" where
  "buf_values sy s = concat (map (update_values sy) (fm_inp_buf s))"

lemma fm_log_simps [simp]:
  "fm_state (fm_log ck t s) = fm_state s" "par_of par (fm_log ck t s) = par_of par s"
  "fm_inp_buf (fm_log ck t s) = fm_inp_buf s" "fm_inp_cap (fm_log ck t s) = fm_inp_cap s"
  "fm_cid (fm_log ck t s) = fm_cid s" "fm_rng (fm_log ck t s) = fm_rng s"
  "ll_buf (fm_llog (fm_log ck t s)) \<noteq> []" "fm_inp_done (fm_log ck t s) = fm_inp_done s"
  by (simp_all add: fm_log_def par_of_def ll_push_def Let_def)

lemma par_of_upd [simp]:
  "par_of par (s\<lparr>fm_state := x\<rparr>) = par_of par s" "par_of par (s\<lparr>fm_inp_buf := b\<rparr>) = par_of par s"
  "par_of par (s\<lparr>fm_rng := g\<rparr>) = par_of par s" "par_of par (s\<lparr>fm_llog := l\<rparr>) = par_of par s"
  "par_of par (s\<lparr>fm_inp_done := d\<rparr>) = par_of par s"
  by (simp_all add: par_of_def)

lemma fm_transition_simps [simp]:
  "fm_state (fm_transition ck st s) = st" "par_of par (fm_transition ck st s) = par_of par s"
  "fm_inp_buf (fm_transition ck st s) = fm_inp_buf s" "ll_buf (fm_llog (fm_transition ck st s)) \<noteq> []"
  "fm_cid (fm_transition ck st s) = fm_cid s"
  by (simp_all add: fm_transition_def)

lemma fm_duration_jitter_simps:
  assumes "fm_duration_jitter sy dur s = (d, s')"
  shows "fm_state s' = fm_state s" "par_of par s' = par_of par s" "fm_inp_buf s' = fm_inp_buf s" "fm_llog s' = fm_llog s"
  using assms by (auto simp: fm_duration_jitter_def split: prod.splits)

text \<open>The input of a round.\<close>

lemma handle_received:
  "fm_handle_received_item sy ck s item =
     Ready (Some (case update_values sy item of [] \<Rightarrow> None
       | v # _ \<Rightarrow> Some (Inr (MiChannelEventValue \<lparr>cev_series = fm_series s, cev_ts = ck_sys ck, cev_val = v\<rparr>))))"
  by (simp add: fm_handle_received_item_def update_values_def split: CaMsgTy.split)

lemma update_values_cases: "update_values sy x = [] \<or> (\<exists>v. update_values sy x = [v])"
  by (simp add: update_values_def split: CaMsgTy.split)

text \<open>What a part of a round may do: yield something the protocol allows, or nothing.\<close>

definition allowed :: "ChanPar \<Rightarrow> MonPhase \<times> bool \<Rightarrow> MonitoringItem list \<Rightarrow> ('f, 'g) FetchMonitoring \<Rightarrow> bool" where
  "allowed par st out s \<longleftrightarrow>
     (case out of [] \<Rightarrow> mon_inv par st s
      | x # _ \<Rightarrow> (case mon_next par st (Inr x) of None \<Rightarrow> False | Some st' \<Rightarrow> mon_inv par st' s))"

definition inp_yield :: "inp_res \<Rightarrow> MonitoringItem list" where
  "inp_yield r = (case r of Ready (Some (Some (Inr x))) \<Rightarrow> [x] | _ \<Rightarrow> [])"

lemma poll_inp_empty:
  "fm_inp_buf s = [] \<Longrightarrow> fm_poll_inp sy ck s = (if fm_inp_done s then Ready None else Pending, s)"
  by (simp add: fm_poll_inp_def)

text \<open>The confirmation of a cancelled subscription.\<close>

lemma removal_input:
  assumes "fm_inp_buf s = x # rest" and "fm_state s = MRemoveMonitorRecv f d" and "fm_poll_inp sy ck s = (r, s')"
  shows "r = Ready (Some None)" "s' = s\<lparr>fm_inp_buf := rest\<rparr> \<or> s' = fm_transition ck (MRemoveSubidSend d) (s\<lparr>fm_inp_buf := rest\<rparr>)"
  using assms by (simp_all add: fm_poll_inp_def Let_def, cases "cm_ty (pri_msg x)") auto

lemma poll_inp_buf:
  assumes "fm_inp_buf s = x # rest" and "fm_poll_inp sy ck s = (r, s')"
  shows "fm_inp_buf s' = rest \<or> fm_inp_buf s' = []"
    and "ll_buf (fm_llog s') \<noteq> [] \<or> fm_state s' = fm_state s"
proof -
  obtain dur s1 where j: "fm_duration_jitter sy SILENCE_MONITOR_WAKEUP (s\<lparr>fm_inp_buf := rest\<rparr>) = (dur, s1)" by fastforce
  show "fm_inp_buf s' = rest \<or> fm_inp_buf s' = []"
    using assms j fm_duration_jitter_simps(3) [OF j] removal_input(2) [OF assms(1) _ assms(2)]
    by (cases "fm_state s") (auto simp: fm_poll_inp_def Let_def)
  show "ll_buf (fm_llog s') \<noteq> [] \<or> fm_state s' = fm_state s"
    using assms j removal_input(2) [OF assms(1) _ assms(2)] by (cases "fm_state s") (auto simp: fm_poll_inp_def Let_def)
qed

lemma poll_inp_item:
  assumes inv: "mon_inv par st s" and buf: "fm_inp_buf s = x # rest" and p: "fm_poll_inp sy ck s = (r, s')"
  shows "r = Ready (Some None) \<and> mon_inv par st s' \<or>
    (\<exists>v. r = Ready (Some (Some (Inr v))) \<and> item_values v = update_values sy x \<and> allowed par st [v] s')"
proof -
  obtain ph w where st: "st = (ph, w)" by fastforce
  from update_values_cases [of sy x] have u: "update_values sy x = [] \<or> (\<exists>v. update_values sy x = [v])" .
  have par: "par_of par s" "fm_series s = pr_series par" using inv by (simp_all add: mon_inv_def par_of_def)
  show ?thesis
  proof (cases "fm_state s")
    case (MCreateMonitorRecv f d)
    obtain dur s1 where j: "fm_duration_jitter sy SILENCE_MONITOR_WAKEUP (s\<lparr>fm_inp_buf := rest\<rparr>) = (dur, s1)" by fastforce
    have "par_of par s1" using fm_duration_jitter_simps(2) [OF j, of par] par by simp
    then show ?thesis
      using MCreateMonitorRecv inv buf p u j par
      by (auto simp: st fm_poll_inp_def handle_received mon_inv_def allowed_def)
  next
    case (MRemoveMonitorRecv f d)
    then show ?thesis using inv removal_input [OF buf MRemoveMonitorRecv p] by (auto simp: st mon_inv_def)
  qed (use inv buf p u par in \<open>auto simp: st fm_poll_inp_def handle_received mon_inv_def allowed_def\<close>)
qed

text \<open>The sending part of a round.\<close>

definition listed :: "'a option \<Rightarrow> 'a list" where
  "listed x = (case x of None \<Rightarrow> [] | Some y \<Rightarrow> [y])"

lemma listed_simps [simp]: "listed None = []" "listed (Some x) = [x]"
  by (simp_all add: listed_def)

definition step_post :: "ChanPar \<Rightarrow> MonPhase \<times> bool \<Rightarrow> ('f, 'g) FetchMonitoring \<Rightarrow>
    MonitoringItem option \<Rightarrow> Hpp \<Rightarrow> ('f, 'g) FetchMonitoring \<Rightarrow> bool" where
  "step_post par st s out h s' \<longleftrightarrow>
     allowed par st (listed out) s' \<and> fm_inp_buf s' = fm_inp_buf s \<and> concat (map item_values (listed out)) = [] \<and>
     (ll_buf (fm_llog s') \<noteq> [] \<or> fm_state s' \<noteq> MClosing1) \<and>
     (have_progress h \<and> out = None \<longrightarrow> ll_buf (fm_llog s') \<noteq> [] \<or> fm_state s = MClosing1)"

lemma fm_step_ok:
  assumes inv: "mon_inv par st s"
  shows "case fm_step sy ck s of None \<Rightarrow> False | Some (out, h, s') \<Rightarrow> step_post par st s out h s'"
proof -
  obtain ph w where st: "st = (ph, w)" by fastforce
  have par: "par_of par s" "phase_ok (ph, w) (fm_state s)" "ca_count (fm_shape s) = Some (pr_count par)"
    "fm_dbr_ty s = pr_dbr par" "fm_sid s = pr_sid par" "fm_cid s = pr_cid par"
    using inv by (simp_all add: mon_inv_def par_of_def st)
  note d = fm_step_def st step_post_def allowed_def mon_inv_def hpp_pending_def hpp_new_def
  show ?thesis
  proof (cases "fm_state s")
    case (MCreateMonitorSend d)
    then show ?thesis using par by (simp add: d add_msg_def)
  next
    case (MCreateMonitorRecv f d)
    then show ?thesis using par by (auto simp: d split: prod.splits bool.splits)
  next
    case (MMonitoring f d)
    obtain dur s1 where j: "fm_duration_jitter sy SILENCE_MONITOR_WAKEUP (fm_log ck ''poll_next_unpin  Monitoring  Timeout  7d956c9'' s) = (dur, s1)"
      by fastforce
    note f1 = fm_duration_jitter_simps [OF j]
    show ?thesis using MMonitoring par f1(1,3) f1(2) [of par] j
      by (cases d) (auto simp: d split: prod.splits bool.splits)
  next
    case (MRemoveMonitorSend d)
    then show ?thesis using par by (auto simp: d add_msg_def cancel_msg_def CaMsg_from_ty_ts_def)
  next
    case (MRemoveMonitorRecv f d)
    then show ?thesis using par by (auto simp: d split: prod.splits bool.splits)
  next
    case (MRemoveSubidSend d)
    then show ?thesis using par by (cases d) (auto simp: d)
  qed (use par in \<open>auto simp: d fm_set_inp_done_def\<close>)
qed

text \<open>
  A poll returns: every further round has less input to look at, or finds an entry in the log.
\<close>

definition fm_weight :: "('f, 'g) FetchMonitoring \<Rightarrow> nat" where
  "fm_weight s = (if ll_buf (fm_llog s) \<noteq> [] then 0
     else Suc (2 * length (fm_inp_buf s) + of_bool (fm_state s = MClosing1)))"

definition poll_post :: "('f, 'g) Runtime \<Rightarrow> ChanPar \<Rightarrow> MonPhase \<times> bool \<Rightarrow> ('f, 'g) FetchMonitoring \<Rightarrow>
    MonitoringItem item_poll \<Rightarrow> ('f, 'g) FetchMonitoring \<Rightarrow> bool" where
  "poll_post sy par st s r s' \<longleftrightarrow>
     allowed par st (yield_of r) s' \<and> (\<forall>e. r \<noteq> Ready (Some (Inl e))) \<and>
     subseq (concat (map item_values (yield_of r)) @ buf_values sy s') (buf_values sy s)"

lemma ll_pop_simps [simp]:
  "ll_buf l = [] \<Longrightarrow> ll_pop l = (None, l)"
  "ll_buf l = e # b \<Longrightarrow> ll_pop l = (Some e, l\<lparr>ll_buf := b\<rparr>)"
  by (simp_all add: ll_pop_def)

lemma yield_of_simps [simp]:
  "yield_of (Ready (Some (Inr x))) = [x]" "yield_of (Ready None) = []" "yield_of Pending = []"
  by (simp_all add: yield_of_def)

lemma fm_poll_input:
  assumes "mon_inv par st s" and "fm_poll_inp sy ck s = (p, s1)"
  shows "(case p of
      Ready (Some (Some (Inr x))) \<Rightarrow> poll_post sy par st s (Ready (Some (Inr x))) s1
    | Ready (Some (Some (Inl _))) \<Rightarrow> False
    | Ready (Some None) \<Rightarrow> mon_inv par st s1 \<and> length (fm_inp_buf s1) < length (fm_inp_buf s)
    | _ \<Rightarrow> s1 = s) \<and> subseq (buf_values sy s1) (buf_values sy s) \<and>
    (ll_buf (fm_llog s1) \<noteq> [] \<or> fm_state s1 = fm_state s)"
proof (cases "fm_inp_buf s")
  case Nil
  then show ?thesis using assms by (auto simp: poll_inp_empty)
next
  case (Cons x rest)
  note b = poll_inp_buf [OF Cons assms(2)]
  have v: "buf_values sy s = update_values sy x @ concat (map (update_values sy) rest)" by (simp add: buf_values_def Cons)
  have sub: "subseq (buf_values sy s1) (concat (map (update_values sy) rest))" using b(1) by (auto simp: buf_values_def)
  then have "subseq (update_values sy x @ buf_values sy s1) (buf_values sy s)" unfolding v by (simp add: subseq_append')
  moreover from this have "subseq (buf_values sy s1) (buf_values sy s)"
    using subseq_order.trans [OF subseq_drop_many [OF subseq_order.refl]] by blast
  moreover have "length (fm_inp_buf s1) < length (fm_inp_buf s)" using b(1) Cons by auto
  ultimately show ?thesis
    using poll_inp_item [OF assms(1) Cons assms(2)] b(2) by (auto simp: poll_post_def)
qed

lemma fm_poll_ok:
  "mon_inv par st s \<Longrightarrow> \<exists>r s'. fm_poll_next sy ck s = Some (r, s') \<and> poll_post sy par st s r s'"
proof (induction "fm_weight s" arbitrary: s rule: less_induct)
  case less
  show ?case
  proof (cases "ll_buf (fm_llog s)")
    case (Cons e b)
    obtain ph w where "st = (ph, w)" by fastforce
    then have "poll_post sy par st s (Ready (Some (Inr (MiLocalLog e)))) (s\<lparr>fm_llog := (fm_llog s)\<lparr>ll_buf := b\<rparr>\<rparr>)"
      using less.prems by (simp add: poll_post_def allowed_def mon_inv_def buf_values_def)
    then show ?thesis using Cons by (simp add: fm_poll_next.simps)
  next
    case Nil
    obtain p s1 where p: "fm_poll_inp sy ck s = (p, s1)" by fastforce
    note inp = fm_poll_input [OF less.prems p]
    show ?thesis
    proof (cases "\<exists>x. p = Ready (Some (Some (Inr x)))")
      case True
      then show ?thesis using inp Nil p by (auto simp: fm_poll_next.simps)
    next
      case False
      have inv: "mon_inv par st s1" using inp False less.prems by (auto split: poll.splits option.splits sum.splits)
      obtain out h s2 where step: "fm_step sy ck s1 = Some (out, h, s2)" "step_post par st s1 out h s2"
        using fm_step_ok [OF inv, of sy ck] by (auto split: option.splits)
      define h' where "h' = hpp_merge (hpp_of_inp p) h"
      have run: "fm_poll_next sy ck s = (case out of Some x \<Rightarrow> Some (Ready (Some (Inr x)), s2)
          | None \<Rightarrow> if have_progress h' then fm_poll_next sy ck s2
                   else if have_pending h' then Some (Pending, s2) else Some (Ready None, s2))"
        using False unfolding fm_poll_next.simps [of sy ck s]
        by (auto simp: Nil p step(1) h'_def split: poll.splits option.splits sum.splits)
      have vals: "subseq (buf_values sy s2) (buf_values sy s)" using inp step(2) by (simp add: step_post_def buf_values_def)
      show ?thesis
      proof (cases out)
        case (Some x)
        then show ?thesis using run step(2) vals by (auto simp: step_post_def poll_post_def)
      next
        case None
        have inv2: "mon_inv par st s2" using step(2) None by (simp add: step_post_def allowed_def)
        show ?thesis
        proof (cases "have_progress h'")
          case True
          have "fm_weight s2 < fm_weight s"
            using True step(2) inp Nil None False
            by (auto simp: h'_def hpp_merge_def hpp_of_inp_def step_post_def fm_weight_def hpp_new_def hpp_pending_def hpp_progress_def
                split: poll.splits option.splits sum.splits)
          then obtain r s' where "fm_poll_next sy ck s2 = Some (r, s')" "poll_post sy par st s2 r s'"
            using less.hyps inv2 by blast
          then show ?thesis using run None True vals subseq_order.trans by (fastforce simp: poll_post_def)
        next
          case False
          then show ?thesis using run None inv2 vals by (auto simp: poll_post_def allowed_def)
        qed
      qed
    qed
  qed
qed

lemma phase_set_dir: "d \<noteq> DirEnable \<Longrightarrow> phase_ok (p, w) (set_dir d st) = phase_ok (p, w) st"
  by (cases st) simp_all

lemma mon_inv_call:
  assumes "mon_inv par (p, w) s"
  shows "mon_inv par (p, True) (fm_transition_to_enable ck s)"
    "mon_inv par (p, w) (fm_transition_to_disable ck s)"
    "mon_inv par (p, w) (fm_trigger_closing ck s)"
    "mon_inv par (p, w) (snd (fm_inp_push_try x s))"
    "mon_inv par (p, w) (fm_set_inp_done s)"
proof -
  show "mon_inv par (p, True) (fm_transition_to_enable ck s)"
    using assms by (cases "fm_state s") (auto simp: mon_inv_def fm_transition_to_enable_def)
qed (use assms in \<open>auto simp: mon_inv_def fm_transition_to_disable_def fm_trigger_closing_def fm_transition_to_closing_def
       phase_set_dir fm_inp_push_try_def push_try_def fm_set_inp_done_def split: prod.splits if_splits\<close>)

lemma buf_values_call:
  "buf_values sy (fm_transition_to_enable ck s) = buf_values sy s"
  "buf_values sy (fm_transition_to_disable ck s) = buf_values sy s"
  "buf_values sy (fm_trigger_closing ck s) = buf_values sy s"
  "subseq (buf_values sy (snd (fm_inp_push_try x s))) (buf_values sy s @ update_values sy x)"
  "buf_values sy (fm_set_inp_done s) = buf_values sy s"
  by (simp add: buf_values_def fm_transition_to_enable_def Let_def split: MonState.split)
     (auto simp: buf_values_def fm_transition_to_disable_def fm_trigger_closing_def fm_transition_to_closing_def
       fm_inp_push_try_def push_try_def fm_set_inp_done_def split: prod.splits if_splits)

lemma fm_call_ok:
  assumes "mon_inv par st s"
  shows "\<exists>out st' s'. fm_call sy ck c s = Some (out, s') \<and> mon_inv par st' s' \<and>
    (\<forall>tr. trace_ok (mon_next par) st (Inl c # map Inr out @ tr) = trace_ok (mon_next par) st' tr) \<and>
    subseq (concat (map item_values out) @ buf_values sy s') (buf_values sy s @ pushed_by (update_values sy) c)"
proof (cases "c = FcPoll")
  case True
  obtain r s' where r: "fm_poll_next sy ck s = Some (r, s')" "poll_post sy par st s r s'"
    using fm_poll_ok [OF assms] by blast
  have "\<exists>st'. mon_inv par st' s' \<and> (\<forall>tr. trace_ok (mon_next par) st (map Inr (yield_of r) @ tr) = trace_ok (mon_next par) st' tr)"
  proof (cases "yield_of r")
    case (Cons x out)
    moreover from this have "out = []" by (auto simp: yield_of_def split: poll.splits option.splits sum.splits)
    ultimately show ?thesis using r(2) by (auto simp: poll_post_def allowed_def split: option.splits)
  next
    case Nil
    then show ?thesis using r(2) by (intro exI [of _ st]) (simp add: poll_post_def allowed_def)
  qed
  then obtain st' where "mon_inv par st' s'" "\<forall>tr. trace_ok (mon_next par) st (map Inr (yield_of r) @ tr) = trace_ok (mon_next par) st' tr" by blast
  moreover have "trace_ok (mon_next par) st (Inl FcPoll # tr) = trace_ok (mon_next par) st tr" for tr by (cases st) simp
  ultimately show ?thesis using True r by (intro exI [of _ "yield_of r"] exI [of _ st'] exI [of _ s']) (simp add: poll_post_def)
next
  case False
  obtain p w where "st = (p, w)" by fastforce
  then show ?thesis
    using False assms mon_inv_call [of par p w s]
    by (cases c; intro exI [of _ "[]"] exI [of _ "(p, w \<or> c = FcEnable)"]) (auto simp: buf_values_call)
qed

interpretation fm: fetcher "fm_call sy" "mon_next par" "mon_inv par" item_values "update_values sy" "buf_values sy" for sy par
  by unfold_locales (rule fm_call_ok)

section \<open>Properties\<close>

text \<open>
  C15. Any sequence of calls to the subscription of a channel, with any timers and clock, returns, and what the
  polls yield follows the protocol: a request is sent only after it was asked for by a call since the last one
  and not while values arrive, a cancellation only after a request, the removal of the id only after a
  cancellation, and values only between a request and its cancellation; the messages are those of the
  channel. The values yielded are values pushed, in their order, each at most once.
\<close>

theorem monitor_keeps_protocol:
  assumes "ca_count sh = Some n"
  shows "\<exists>tr s. fetch_run (fm_call sy) calls (fm_new cap rng series cid sid ty sh dbr) = Some (tr, s) \<and> called tr = map snd calls \<and>
    trace_ok (mon_next \<lparr>pr_series = series, pr_cid = cid, pr_sid = sid, pr_dbr = dbr, pr_count = n\<rparr>) (MpOff, False) tr \<and>
    subseq (yields_of item_values tr) (pushes_of (update_values sy) tr)"
  using assms by (intro fm.run_from_start) (simp_all add: mon_inv_def par_of_def fm_new_def buf_values_def)

text \<open>
  A runtime for examples: timers as times, a generator that repeats one number, and a conversion that keeps
  the low bits.
\<close>

definition demo_runtime :: "(nat, unit) Runtime" where
  "demo_runtime = \<lparr>sy_sleep = (\<lambda>t d. t + d), sy_sleep_until = (\<lambda>t. t), sy_poll = (\<lambda>t f. (f \<le> t, f)), sy_rng = (\<lambda>g. (7, g)),
     sy_f32 = \<lparr>f32_of_int = word_of_int, f32_of_f64 = ucast, f32_add = (+)\<rparr>\<rparr>"

definition demo_clock :: "nat \<Rightarrow> Clock" where
  "demo_clock t = \<lparr>ck_now = t, ck_sys = 5, ck_utc = 0\<rparr>"

definition demo_item :: "CaMsgTy \<Rightarrow> ProtoRxItem" where
  "demo_item ty = \<lparr>pri_msg = CaMsg_from_ty_ts ty 0, pri_tscmd = 0, pri_tsreg = 0, pri_tsdisp = 0\<rparr>"

definition demo_update :: "u32 \<Rightarrow> ProtoRxItem" where
  "demo_update x = demo_item (EventAddResMsg \<lparr>eq_data_type = 19, eq_data_count = 1, eq_status = 1, eq_subid = 0, eq_payload_len = 16,
     eq_value = \<lparr>ev_data = CaScalar (CvI32 x), ev_meta = MetaTime \<lparr>mt_status = 0, mt_severity = 0, mt_ca_secs = 0, mt_ca_nanos = 0\<rparr>\<rparr>\<rparr>)"

definition demo_monitor :: "(nat, unit) FetchMonitoring" where
  "demo_monitor = fm_new 16 () 3 4 5 I32 ShScalar 19"

text \<open>A trace without the entries of the log and the calls of polls.\<close>

definition told :: "(FetchCall + MonitoringItem) list \<Rightarrow> (FetchCall + MonitoringItem) list" where
  "told = filter (\<lambda>e. case e of Inl FcPoll \<Rightarrow> False | Inr (MiLocalLog _) \<Rightarrow> False | _ \<Rightarrow> True)"

definition demo_par :: ChanPar where
  "demo_par = \<lparr>pr_series = 3, pr_cid = 4, pr_sid = 5, pr_dbr = 19, pr_count = 1\<rparr>"

definition demo_add :: MonitoringItem where
  "demo_add = MiProtoOutSubid (add_msg demo_par 0) 0"

definition demo_cancel :: MonitoringItem where
  "demo_cancel = MiProtoOutSubid (cancel_msg demo_par 0) 0"

definition demo_calls :: "(Clock \<times> FetchCall) list" where
  "demo_calls = map (Pair (demo_clock 0))
     ([FcEnable] @ replicate 4 FcPoll @ [FcPush (demo_update 42)] @ replicate 4 FcPoll @ [FcDisable] @ replicate 6 FcPoll)"

text \<open>One round of a poll, so that polls can be evaluated.\<close>

definition fm_round :: "('f, 'g) Runtime \<Rightarrow> Clock \<Rightarrow> ('f, 'g) FetchMonitoring \<Rightarrow>
    ((MonitoringItem item_poll \<times> ('f, 'g) FetchMonitoring) + ('f, 'g) FetchMonitoring) option" where
  "fm_round sy ck s =
     (case ll_pop (fm_llog s) of
        (Some x, l) \<Rightarrow> Some (Inl (Ready (Some (Inr (MiLocalLog x))), s\<lparr>fm_llog := l\<rparr>))
      | (None, _) \<Rightarrow>
          (let (p, s) = fm_poll_inp sy ck s in
           case p of
             Ready (Some (Some (Inr x))) \<Rightarrow> Some (Inl (Ready (Some (Inr x)), s))
           | _ \<Rightarrow>
               do { (out, h, s) \<leftarrow> fm_step sy ck s;
                    case out of
                      Some x \<Rightarrow> Some (Inl (Ready (Some (Inr x)), s))
                    | None \<Rightarrow>
                        let h = hpp_merge (hpp_of_inp p) h in
                        if have_progress h then Some (Inr s)
                        else if have_pending h then Some (Inl (Pending, s))
                        else Some (Inl (Ready None, s)) }))"

lemma fm_poll_next_round [code]:
  "fm_poll_next sy ck s =
     (case fm_round sy ck s of
        None \<Rightarrow> None | Some (Inl r) \<Rightarrow> Some r | Some (Inr s') \<Rightarrow> fm_poll_next sy ck s')"
  unfolding fm_poll_next.simps [of sy ck s] fm_round_def
  by (auto simp: Let_def bind_eq_None_conv split: option.splits prod.splits poll.splits sum.splits bind_splits)

lemma fetch_run_code [code]:
  "fetch_run f [] s = Some ([], s)"
  "fetch_run f (c # cs) s =
     (case f (fst c) (snd c) s of
        None \<Rightarrow> None
      | Some (out, s) \<Rightarrow>
          (case fetch_run f cs s of None \<Rightarrow> None | Some (tr, s) \<Rightarrow> Some (Inl (snd c) # map Inr out @ tr, s)))"
  by (auto split: option.splits bind_splits)

lemma demo_calls_values: "map_option (\<lambda>(tr, s). yields_of item_values tr) (fetch_run (fm_call demo_runtime) demo_calls demo_monitor) = Some [42]"
  by code_simp

theorem monitor_keeps_protocol_witness:
  "\<exists>tr s. fetch_run (fm_call demo_runtime) demo_calls demo_monitor = Some (tr, s) \<and> trace_ok (mon_next demo_par) (MpOff, False) tr \<and> yields_of item_values tr = [42]"
  using monitor_keeps_protocol [of ShScalar 1 demo_runtime demo_calls 16 "()" 3 4 5 I32 19] demo_calls_values
  by (auto simp: ca_count_def to_ca_count_def demo_par_def demo_monitor_def)

text \<open>
  The closing of a channel is ignored while a subscription is being removed, so an earlier request to enable
  it again makes a new subscription after the closing.
\<close>

lemma closing_ignored_in_removal:
  "map_option (\<lambda>(tr, s). told tr) (fetch_run (fm_call demo_runtime)
     (map (Pair (demo_clock 0))
       ([FcEnable, FcClosing, FcPush (demo_item (EventAddResEmptyMsg \<lparr>ee_data_type = 19, ee_sid = 5, ee_subid = 0\<rparr>))] @
        replicate 6 FcPoll)) (demo_monitor\<lparr>fm_state := MRemoveMonitorRecv (Sleep 20000000000) DirDisable\<rparr>)) =
   Some [Inl FcEnable, Inl FcClosing,
     Inl (FcPush (demo_item (EventAddResEmptyMsg \<lparr>ee_data_type = 19, ee_sid = 5, ee_subid = 0\<rparr>))),
     Inr (MiSubidRemove 4), Inr demo_add]"
  by code_simp

text \<open>
  A request that was not answered in time is given up without a cancellation or removal of its id; enabled
  again, the channel is asked for a second time.
\<close>

lemma unanswered_request_leaks:
  "map_option (\<lambda>(tr, s). map (\<lambda>e. case e of Inr (MiProtoOutSubid m _) \<Rightarrow> Some (cmdid (cm_ty m)) | _ \<Rightarrow> None) (told tr)) (fetch_run (fm_call demo_runtime)
     (map (Pair (demo_clock 0)) ([FcEnable] @ replicate 4 FcPoll) @
      map (Pair (demo_clock 20000000000)) ([FcPoll, FcPoll, FcEnable] @ replicate 4 FcPoll)) demo_monitor) =
   Some [None, Some 1, None, Some 1]"
  by code_simp

end
