(* ===== verification/ChanRunning.thy ===== *)
theory ChanRunning
  imports ChanFetch ChanStatus
begin

text \<open>
  Polling of a channel (\<^verbatim>\<open>fetchpolling.rs\<close>), the multiplexer of polling and subscription (\<^verbatim>\<open>fetchmpx.rs\<close>) and
  the handler of a running channel (\<^verbatim>\<open>running.rs\<close>), over \<open>ChanFetch\<close>. A command for the multiplexer comes as the
  text it carries, parsed by serde, or none; the texts of replies that report an error are left out.
\<close>

section \<open>Polling\<close>

datatype PollDirection = PdNone | PdDoNothing

datatype PollingItem =
  PiNone
| PiProtoOut CaMsg
| PiProtoOutIoid CaMsg u32 Instant
| PiChannelEventValue ChannelEventValue
| PiTestValue TestValue
| PiLocalLog LogEntry

datatype 'f PollState =
  PDoNothing
| PIdle "'f Sleep"
| PSendReq PollDirection
| PWaitRes "'f Sleep" PollDirection
| PClosing1
| PDone

fun poll_state_name :: "'f PollState \<Rightarrow> string" where
  "poll_state_name PDoNothing = ''DoNothing''"
| "poll_state_name (PIdle _) = ''Idle''"
| "poll_state_name (PSendReq _) = ''SendReq''"
| "poll_state_name (PWaitRes _ _) = ''WaitRes''"
| "poll_state_name PClosing1 = ''Closing1''"
| "poll_state_name PDone = ''Done''"

record ('f, 'g) FetchPolling =
  fp_state :: "'f PollState"
  fp_series :: SeriesId
  fp_sid :: u32
  fp_scalar_type :: ScalarType
  fp_shape :: Shape
  fp_dbr_ty :: u16
  fp_interval :: Duration
  fp_ts_exact :: Instant
  fp_ts_jitter :: Instant
  fp_inp_buf :: "ProtoRxItem list"
  fp_inp_cap :: nat
  fp_inp_done :: bool
  fp_rng :: 'g
  fp_llog :: LocalLog

definition fp_new :: "Clock \<Rightarrow> nat \<Rightarrow> 'g \<Rightarrow> SeriesId \<Rightarrow> u32 \<Rightarrow> ScalarType \<Rightarrow> Shape \<Rightarrow> u16 \<Rightarrow> ('f, 'g) FetchPolling" where
  "fp_new ck cap rng series sid st sh dbr =
     \<lparr>fp_state = PDoNothing, fp_series = series, fp_sid = sid, fp_scalar_type = st, fp_shape = sh, fp_dbr_ty = dbr,
      fp_interval = Duration_from_millis 3000, fp_ts_exact = ck_now ck, fp_ts_jitter = ck_now ck,
      fp_inp_buf = [], fp_inp_cap = cap, fp_inp_done = False, fp_rng = rng, fp_llog = ll_new\<rparr>"

definition fp_log :: "Clock \<Rightarrow> string \<Rightarrow> ('f, 'g) FetchPolling \<Rightarrow> ('f, 'g) FetchPolling" where
  "fp_log ck t s = s\<lparr>fp_llog := ll_push (ck_utc ck) t (fp_llog s)\<rparr>"

definition fp_transition :: "Clock \<Rightarrow> 'f PollState \<Rightarrow> ('f, 'g) FetchPolling \<Rightarrow> ('f, 'g) FetchPolling" where
  "fp_transition ck new s =
     fp_log ck (''transition  '' @ poll_state_name (fp_state s) @ '' -> '' @ poll_state_name new) s\<lparr>fp_state := new\<rparr>"

text \<open>The next time to read, with two random parts: one when the last time has passed already, one always.\<close>

definition next_poll_instant_jitter :: "('f, 'g) Runtime \<Rightarrow> Clock \<Rightarrow> ('f, 'g) FetchPolling \<Rightarrow> Instant \<times> ('f, 'g) FetchPolling" where
  "next_poll_instant_jitter sy ck s =
     (let tsnow = ck_now ck;
          s = s\<lparr>fp_ts_exact := fp_ts_exact s + fp_interval s\<rparr>;
          s = (if fp_ts_exact s < tsnow
               then let (r, g) = sy_rng sy (fp_rng s) in
                    s\<lparr>fp_rng := g, fp_ts_exact := tsnow + jittered (1024 div 8) r (fp_interval s)\<rparr>
               else s);
          (r, g) = sy_rng sy (fp_rng s);
          s = s\<lparr>fp_rng := g, fp_ts_jitter := fp_ts_exact s + jittered 128 r (fp_interval s)\<rparr>
      in (fp_ts_jitter s, s))"

definition fp_go_idle :: "('f, 'g) Runtime \<Rightarrow> Clock \<Rightarrow> ('f, 'g) FetchPolling \<Rightarrow> ('f, 'g) FetchPolling" where
  "fp_go_idle sy ck s =
     (let (ts, s) = next_poll_instant_jitter sy ck s in fp_transition ck (PIdle (SleepLaterUntil ts)) s)"

definition fp_transition_to_enable :: "('f, 'g) Runtime \<Rightarrow> Clock \<Rightarrow> ('f, 'g) FetchPolling \<Rightarrow> ('f, 'g) FetchPolling" where
  "fp_transition_to_enable sy ck s =
     (let say = (\<lambda>t. fp_log ck (''transition_to_enable  State::'' @ poll_state_name (fp_state s) @ ''  '' @ t) s) in
      case fp_state s of
        PDoNothing \<Rightarrow> fp_go_idle sy ck (say ''enable immediately'')
      | _ \<Rightarrow> say ''no change'')"

definition fp_transition_to_disable :: "Clock \<Rightarrow> ('f, 'g) FetchPolling \<Rightarrow> ('f, 'g) FetchPolling" where
  "fp_transition_to_disable ck s =
     (let say = (\<lambda>st t. fp_log ck (''transition_to_disable  State::'' @ st @ ''  '' @ t) s) in
      case fp_state s of
        PIdle _ \<Rightarrow> fp_transition ck PDoNothing (say ''Idle'' ''goto immediate'')
      | PSendReq _ \<Rightarrow> (say ''Idle'' ''set stdir'')\<lparr>fp_state := PSendReq PdDoNothing\<rparr>
      | PWaitRes f _ \<Rightarrow> (say ''Idle'' ''set stdir'')\<lparr>fp_state := PWaitRes f PdDoNothing\<rparr>
      | st \<Rightarrow> say (poll_state_name st) ''no change'')"

definition fp_transition_to_closing :: "Clock \<Rightarrow> ('f, 'g) FetchPolling \<Rightarrow> ('f, 'g) FetchPolling" where
  "fp_transition_to_closing ck s =
     (let say = (\<lambda>st t. fp_log ck (''transition_to_closing  State::'' @ st @ ''  '' @ t) s) in
      case fp_state s of
        PWaitRes _ _ \<Rightarrow> fp_transition ck PClosing1 (say ''Idle'' ''goto Closing1'')
      | PClosing1 \<Rightarrow> say ''Idle'' ''no change''
      | PDone \<Rightarrow> say ''Done'' ''no change''
      | st \<Rightarrow> fp_transition ck PClosing1 (say (poll_state_name st) ''goto Closing1''))"

definition fp_trigger_closing :: "Clock \<Rightarrow> ('f, 'g) FetchPolling \<Rightarrow> ('f, 'g) FetchPolling" where
  "fp_trigger_closing ck s = fp_transition_to_closing ck s"

definition fp_inp_push_try :: "ProtoRxItem \<Rightarrow> ('f, 'g) FetchPolling \<Rightarrow> ProtoRxItem option \<times> ('f, 'g) FetchPolling" where
  "fp_inp_push_try x s = (let (r, v) = push_try (fp_inp_cap s) x (fp_inp_buf s) in (r, s\<lparr>fp_inp_buf := v\<rparr>))"

definition fp_set_inp_done :: "('f, 'g) FetchPolling \<Rightarrow> ('f, 'g) FetchPolling" where
  "fp_set_inp_done s = s\<lparr>fp_inp_done := True\<rparr>"

text \<open>The input of one poll: a value to return, or whether there was progress.\<close>

definition fp_poll_inp :: "('f, 'g) Runtime \<Rightarrow> Clock \<Rightarrow> ('f, 'g) FetchPolling \<Rightarrow> PollingItem option \<times> Hpp \<times> ('f, 'g) FetchPolling" where
  "fp_poll_inp sy ck s0 =
     (case fp_inp_buf s0 of
        [] \<Rightarrow> (None, if fp_inp_done s0 then hpp_new else hpp_pending, s0)
      | item # rest \<Rightarrow>
          let s = s0\<lparr>fp_inp_buf := rest\<rparr> in
          case fp_state s of
            PWaitRes _ d \<Rightarrow>
              (case cm_ty (pri_msg item) of
                 ReadNotifyResMsg v \<Rightarrow>
                   let s = (case d of PdDoNothing \<Rightarrow> fp_transition ck PDoNothing s | PdNone \<Rightarrow> fp_go_idle sy ck s)
                   in (Some (PiChannelEventValue \<lparr>cev_series = fp_series s, cev_ts = ck_sys ck,
                         cev_val = f32_for_binning (sy_f32 sy) (rr_value v)\<rparr>), hpp_progress, s)
               | _ \<Rightarrow> (None, hpp_progress, s))
          | _ \<Rightarrow> (None, hpp_progress, s))"

definition fp_step :: "('f, 'g) Runtime \<Rightarrow> Clock \<Rightarrow> ('f, 'g) FetchPolling \<Rightarrow>
    (PollingItem option \<times> Hpp \<times> ('f, 'g) FetchPolling) panics" where
  "fp_step sy ck s =
     (case fp_state s of
        PDoNothing \<Rightarrow> Some (None, hpp_new, s)
      | PIdle f \<Rightarrow>
          (case sleep_poll sy ck f of
             (True, _) \<Rightarrow> Some (None, hpp_progress, fp_transition ck (PSendReq PdNone) s)
           | (False, f) \<Rightarrow> Some (None, hpp_pending, s\<lparr>fp_state := PIdle f\<rparr>))
      | PSendReq d \<Rightarrow>
          do { cnt \<leftarrow> ca_count (fp_shape s);
               let msg = CaMsg_from_ty_ts (ReadNotifyMsg \<lparr>rn_data_type = fp_dbr_ty s, rn_data_count = cnt, rn_sid = fp_sid s, rn_ioid = 0\<rparr>) (ck_now ck);
                   s = fp_transition ck (PWaitRes (SleepLater (Duration_from_millis 3000)) d) s
               in Some (Some (PiProtoOutIoid msg (fp_sid s) (ck_now ck)), hpp_progress, s) }
      | PWaitRes f d \<Rightarrow>
          (case sleep_poll sy ck f of
             (True, _) \<Rightarrow> Some (None, hpp_progress,
               case d of
                 PdDoNothing \<Rightarrow> fp_transition ck PDoNothing s
               | PdNone \<Rightarrow> fp_transition ck (PWaitRes (SleepLater (Duration_from_millis 27427)) d) s)
           | (False, f) \<Rightarrow> Some (None, hpp_pending, s\<lparr>fp_state := PWaitRes f d\<rparr>))
      | PClosing1 \<Rightarrow> Some (None, hpp_progress, fp_transition ck PDone (fp_set_inp_done s))
      | PDone \<Rightarrow> Some (None, hpp_new, s))"

definition fp_poll_next :: "('f, 'g) Runtime \<Rightarrow> Clock \<Rightarrow> ('f, 'g) FetchPolling \<Rightarrow>
    (PollingItem item_poll \<times> ('f, 'g) FetchPolling) panics" where
  "fp_poll_next sy ck s =
     (case ll_pop (fp_llog s) of
        (Some x, l) \<Rightarrow> Some (Ready (Some (Inr (PiLocalLog x))), s\<lparr>fp_llog := l\<rparr>)
      | (None, _) \<Rightarrow>
          (case fp_poll_inp sy ck s of
             (Some x, _, s) \<Rightarrow> Some (Ready (Some (Inr x)), s)
           | (None, h0, s) \<Rightarrow>
               do { (out, h, s) \<leftarrow> fp_step sy ck s;
                    case out of
                      Some x \<Rightarrow> Some (Ready (Some (Inr x)), s)
                    | None \<Rightarrow>
                        let h = hpp_merge h0 h in
                        Some (if have_progress h then Ready (Some (Inr PiNone))
                              else if have_pending h then Pending else Ready None, s) }))"

section \<open>Both together\<close>

datatype FetchmpxError =
  FxCreateMonitorUnexpectedMessage | FxRecv | FxFetchPolling FetchError | FxFetchMonitoring FetchError

datatype FetchmpxItem =
  XiCaMsgOut CaMsg
| XiCaMsgOutIoid CaMsg u32 Instant
| XiCaMsgOutSubid CaMsg Instant
| XiSubidRemove u32
| XiTestValue TestValue
| XiLocalLog LogEntry
| XiChannelStatus ChannelStatus
| XiInputDone
| XiChannelEventValue ChannelEventValue

datatype MpxState = FxNormal | FxClosing1 | FxDone | FxDone2

record ('f, 'g) Fetchmpx =
  fx_state :: MpxState
  fx_series :: SeriesId
  fx_cid :: u32
  fx_sid :: u32
  fx_polling :: "('f, 'g) FetchPolling"
  fx_monitoring :: "('f, 'g) FetchMonitoring"
  fx_inp_buf :: "ProtoRxItem list"
  fx_inp_cap :: nat
  fx_inp_done :: bool
  fx_llog :: LocalLog

text \<open>The capacities of the three buffers and the two generators are chosen by the libraries.\<close>

definition fx_new :: "('f, 'g) Runtime \<Rightarrow> Clock \<Rightarrow> nat \<times> nat \<times> nat \<Rightarrow> 'g \<times> 'g \<Rightarrow> bool \<Rightarrow>
    SeriesId \<Rightarrow> u32 \<Rightarrow> u32 \<Rightarrow> ScalarType \<Rightarrow> Shape \<Rightarrow> u16 \<Rightarrow> ('f, 'g) Fetchmpx" where
  "fx_new sy ck caps rngs is_polled series cid sid st sh dbr =
     (let (capx, capp, capm) = caps; (gp, gm) = rngs;
          polling = fp_new ck capp gp series sid st sh dbr;
          monitoring = fm_new capm gm series cid sid st sh dbr in
      \<lparr>fx_state = FxNormal, fx_series = series, fx_cid = cid, fx_sid = sid,
       fx_polling = (if is_polled then fp_transition_to_enable sy ck polling else polling),
       fx_monitoring = (if is_polled then monitoring else fm_transition_to_enable ck monitoring),
       fx_inp_buf = [], fx_inp_cap = capx, fx_inp_done = False, fx_llog = ll_new\<rparr>)"

definition fx_trigger_closing :: "Clock \<Rightarrow> ('f, 'g) Fetchmpx \<Rightarrow> ('f, 'g) Fetchmpx" where
  "fx_trigger_closing ck s =
     (case fx_state s of
        FxNormal \<Rightarrow> s\<lparr>fx_monitoring := fm_trigger_closing ck (fx_monitoring s),
                     fx_polling := fp_trigger_closing ck (fx_polling s), fx_state := FxClosing1\<rparr>
      | _ \<Rightarrow> s)"

definition fx_trigger_remove :: "Clock \<Rightarrow> ('f, 'g) Fetchmpx \<Rightarrow> ('f, 'g) Fetchmpx" where
  "fx_trigger_remove ck s = fx_trigger_closing ck s"

text \<open>The reply to a command: the one that was done, or an error.\<close>

datatype CmdReply = CmdDone string | CmdError

definition fx_handle_cmd :: "('f, 'g) Runtime \<Rightarrow> Clock \<Rightarrow> string option \<Rightarrow> ('f, 'g) Fetchmpx \<Rightarrow> CmdReply \<times> ('f, 'g) Fetchmpx" where
  "fx_handle_cmd sy ck cmd s =
     (case (fx_state s, cmd) of
        (FxNormal, Some x) \<Rightarrow>
          if x = ''polling_disable''
          then (CmdDone x, s\<lparr>fx_polling := fp_transition_to_disable ck (fx_polling s)\<rparr>)
          else if x = ''polling_enable''
          then (CmdDone x, s\<lparr>fx_polling := fp_transition_to_enable sy ck (fx_polling s)\<rparr>)
          else if x = ''monitoring_disable''
          then (CmdDone x, s\<lparr>fx_monitoring := fm_transition_to_disable ck (fx_monitoring s)\<rparr>)
          else if x = ''monitoring_enable''
          then (CmdDone x, s\<lparr>fx_monitoring := fm_transition_to_enable ck (fx_monitoring s)\<rparr>)
          else (CmdError, s)
      | _ \<Rightarrow> (CmdError, s))"

definition fx_inp_push_try :: "ProtoRxItem \<Rightarrow> ('f, 'g) Fetchmpx \<Rightarrow> ProtoRxItem option \<times> ('f, 'g) Fetchmpx" where
  "fx_inp_push_try x s = (let (r, v) = push_try (fx_inp_cap s) x (fx_inp_buf s) in (r, s\<lparr>fx_inp_buf := v\<rparr>))"

definition fx_set_inp_done :: "('f, 'g) Fetchmpx \<Rightarrow> ('f, 'g) Fetchmpx" where
  "fx_set_inp_done s =
     s\<lparr>fx_inp_done := True, fx_polling := fp_set_inp_done (fx_polling s), fx_monitoring := fm_set_inp_done (fx_monitoring s)\<rparr>"

datatype route = ToMonitoring | ToPolling | ToNone

fun mpx_route :: "CaMsgTy \<Rightarrow> route" where
  "mpx_route (EventAddResMsg _) = ToMonitoring"
| "mpx_route (EventAddResEmptyMsg _) = ToMonitoring"
| "mpx_route (EventCancelRes _) = ToMonitoring"
| "mpx_route (ReadNotifyResMsg _) = ToPolling"
| "mpx_route _ = ToNone"

function fx_poll_inp_dispatch :: "Clock \<Rightarrow> ('f, 'g) Fetchmpx \<Rightarrow>
    (FetchmpxError, FetchmpxItem option) result option poll \<times> ('f, 'g) Fetchmpx" where
  "fx_poll_inp_dispatch ck s =
     (if fx_state s = FxDone \<or> fx_state s = FxDone2 then (Ready None, s)
      else case fx_inp_buf s of
             [] \<Rightarrow> if fx_inp_done s then (Ready (Some (Inr (Some XiInputDone))), fx_trigger_closing ck s)
                  else (Pending, s)
           | item # rest \<Rightarrow>
               (case mpx_route (cm_ty (pri_msg item)) of
                  ToMonitoring \<Rightarrow>
                    (case fm_inp_push_try item (fx_monitoring s) of
                       (Some x, m) \<Rightarrow> (Pending, s\<lparr>fx_inp_buf := x # rest, fx_monitoring := m\<rparr>)
                     | (None, m) \<Rightarrow> fx_poll_inp_dispatch ck (s\<lparr>fx_inp_buf := rest, fx_monitoring := m\<rparr>))
                | ToPolling \<Rightarrow>
                    (case fp_inp_push_try item (fx_polling s) of
                       (Some x, m) \<Rightarrow> (Pending, s\<lparr>fx_inp_buf := x # rest, fx_polling := m\<rparr>)
                     | (None, m) \<Rightarrow> fx_poll_inp_dispatch ck (s\<lparr>fx_inp_buf := rest, fx_polling := m\<rparr>))
                | ToNone \<Rightarrow> (Ready (Some (Inl FxCreateMonitorUnexpectedMessage)), s\<lparr>fx_inp_buf := rest\<rparr>)))"
  by pat_completeness auto

termination by (relation "measure (\<lambda>(ck, s). length (fx_inp_buf s))") auto

fun mpx_of_polling :: "PollingItem \<Rightarrow> FetchmpxItem option" where
  "mpx_of_polling PiNone = None"
| "mpx_of_polling (PiProtoOut m) = Some (XiCaMsgOut m)"
| "mpx_of_polling (PiProtoOutIoid m sid ts) = Some (XiCaMsgOutIoid m sid ts)"
| "mpx_of_polling (PiChannelEventValue x) = Some (XiChannelEventValue x)"
| "mpx_of_polling (PiTestValue x) = Some (XiTestValue x)"
| "mpx_of_polling (PiLocalLog x) = Some (XiLocalLog x)"

fun mpx_of_monitoring :: "MonitoringItem \<Rightarrow> FetchmpxItem" where
  "mpx_of_monitoring (MiProtoOutSubid m ts) = XiCaMsgOutSubid m ts"
| "mpx_of_monitoring (MiSubidRemove cid) = XiSubidRemove cid"
| "mpx_of_monitoring (MiTestValue x) = XiTestValue x"
| "mpx_of_monitoring (MiLocalLog x) = XiLocalLog x"
| "mpx_of_monitoring (MiChannelEventValue x) = XiChannelEventValue x"

text \<open>One part of a round: something to return, or whether there was progress.\<close>

type_synonym 'x part = "((FetchmpxError, FetchmpxItem) result option \<times> Hpp \<times> 'x)"

definition fx_part_inp :: "Clock \<Rightarrow> bool \<Rightarrow> ('f, 'g) Fetchmpx \<Rightarrow> ('f, 'g) Fetchmpx part" where
  "fx_part_inp ck waits s =
     (case fx_poll_inp_dispatch ck s of
        (Ready (Some (Inr (Some x))), s) \<Rightarrow> (Some (Inr x), hpp_progress, s)
      | (Ready (Some (Inr None)), s) \<Rightarrow> (None, hpp_progress, s)
      | (Ready (Some (Inl _)), s) \<Rightarrow> (None, hpp_progress, s\<lparr>fx_state := FxDone\<rparr>)
      | (Ready None, s) \<Rightarrow> (None, hpp_new, s)
      | (Pending, s) \<Rightarrow> (None, if waits then hpp_pending else hpp_new, s))"

definition fx_part_polling :: "('f, 'g) Runtime \<Rightarrow> Clock \<Rightarrow> ('f, 'g) Fetchmpx \<Rightarrow> ('f, 'g) Fetchmpx part panics" where
  "fx_part_polling sy ck s =
     do { (r, p) \<leftarrow> fp_poll_next sy ck (fx_polling s);
          let s = s\<lparr>fx_polling := p\<rparr> in
          Some (case r of
            Ready (Some (Inr x)) \<Rightarrow> (map_option Inr (mpx_of_polling x), hpp_progress, s)
          | Ready (Some (Inl e)) \<Rightarrow> (Some (Inl (FxFetchPolling e)), hpp_progress, s\<lparr>fx_state := FxDone\<rparr>)
          | Ready None \<Rightarrow> (None, hpp_new, s)
          | Pending \<Rightarrow> (None, hpp_pending, s)) }"

definition fx_part_monitoring :: "('f, 'g) Runtime \<Rightarrow> Clock \<Rightarrow> ('f, 'g) Fetchmpx \<Rightarrow> ('f, 'g) Fetchmpx part panics" where
  "fx_part_monitoring sy ck s =
     do { (r, m) \<leftarrow> fm_poll_next sy ck (fx_monitoring s);
          let s = s\<lparr>fx_monitoring := m\<rparr> in
          Some (case r of
            Ready (Some (Inr x)) \<Rightarrow> (Some (Inr (mpx_of_monitoring x)), hpp_progress, s)
          | Ready (Some (Inl e)) \<Rightarrow> (Some (Inl (FxFetchMonitoring e)), hpp_progress, s\<lparr>fx_state := FxDone\<rparr>)
          | Ready None \<Rightarrow> (None, hpp_new, s)
          | Pending \<Rightarrow> (None, hpp_pending, s)) }"

text \<open>Running the parts one after the other until one has something to return.\<close>

definition then_part :: "'x part \<Rightarrow> ('x \<Rightarrow> 'x part panics) \<Rightarrow> 'x part panics" where
  "then_part p q =
     (case p of
        (Some x, h, s) \<Rightarrow> Some (Some x, h, s)
      | (None, h, s) \<Rightarrow> do { (out, h', s) \<leftarrow> q s; Some (out, hpp_merge h h', s) })"

definition fx_parts :: "('f, 'g) Runtime \<Rightarrow> Clock \<Rightarrow> bool \<Rightarrow> ('f, 'g) Fetchmpx \<Rightarrow> ('f, 'g) Fetchmpx part panics" where
  "fx_parts sy ck waits s =
     then_part (fx_part_inp ck waits s) (\<lambda>s.
       do { p \<leftarrow> fx_part_polling sy ck s;
            then_part p (fx_part_monitoring sy ck) })"

definition fx_round :: "('f, 'g) Runtime \<Rightarrow> Clock \<Rightarrow> ('f, 'g) Fetchmpx \<Rightarrow> ('f, 'g) Fetchmpx part panics" where
  "fx_round sy ck s =
     (case fx_state s of
        FxNormal \<Rightarrow> fx_parts sy ck True s
      | FxClosing1 \<Rightarrow>
          do { (out, h, s) \<leftarrow> fx_parts sy ck False s;
               Some (out, h, if out = None \<and> \<not> have_progress h \<and> \<not> have_pending h then s\<lparr>fx_state := FxDone\<rparr> else s) }
      | FxDone \<Rightarrow> Some (None, hpp_new, s\<lparr>fx_state := FxDone2\<rparr>)
      | FxDone2 \<Rightarrow> Some (None, hpp_new, s))"

partial_function (option) fx_poll_next :: "('f, 'g) Runtime \<Rightarrow> Clock \<Rightarrow> ('f, 'g) Fetchmpx \<Rightarrow>
    ((FetchmpxError, FetchmpxItem) result option poll \<times> ('f, 'g) Fetchmpx) panics" where
  "fx_poll_next sy ck s =
     (case ll_pop (fx_llog s) of
        (Some x, l) \<Rightarrow> Some (Ready (Some (Inr (XiLocalLog x))), s\<lparr>fx_llog := l\<rparr>)
      | (None, _) \<Rightarrow>
          do { (out, h, s) \<leftarrow> fx_round sy ck s;
               case out of
                 Some x \<Rightarrow> Some (Ready (Some x), s)
               | None \<Rightarrow>
                   if have_progress h then fx_poll_next sy ck s
                   else if have_pending h then Some (Pending, s)
                   else Some (Ready None, s) })"

section \<open>A running channel\<close>

text \<open>
  The error of the registration of a series, which only carries over from the database client, is left out, and
  so are the answer of the registration and \<^verbatim>\<open>outbuf\<close>, which are not used after the creation.
\<close>

datatype RunningError =
  RnProtoTxClosed | RnProtoRxClosed | RnChannelHandlerRxClosed | RnCreateMonitorUnexpectedMessage
| RnRecv | RnTimeout | RnLogic

datatype RunningItem =
  RiCaMsgOut CaMsg
| RiCaMsgOutIoid CaMsg u32 Instant
| RiCaMsgOutSubid CaMsg Instant
| RiSubidRemove u32
| RiTestValue TestValue
| RiLocalLog LogEntry
| RiChannelStatus ChannelStatus
| RiChannelEventValue ChannelEventValue

datatype ('f, 'g) RunState = RsNormal "('f, 'g) Fetchmpx" | RsDone

record ('f, 'g) Running =
  ru_state :: "('f, 'g) RunState"
  ru_cid :: u32
  ru_sid :: u32
  ru_removing :: bool
  ru_chan_close_ack :: bool
  ru_inp_buf :: "ProtoRxItem list"
  ru_inp_cap :: nat
  ru_inp_done :: bool

definition ru_new :: "nat \<Rightarrow> ('f, 'g) Runtime \<Rightarrow> Clock \<Rightarrow> nat \<times> nat \<times> nat \<Rightarrow> 'g \<times> 'g \<Rightarrow> bool \<Rightarrow>
    SeriesId \<Rightarrow> u32 \<Rightarrow> u32 \<Rightarrow> ScalarType \<Rightarrow> Shape \<Rightarrow> u16 \<Rightarrow> ('f, 'g) Running" where
  "ru_new cap sy ck caps rngs is_polled series cid sid st sh dbr =
     \<lparr>ru_state = RsNormal (fx_new sy ck caps rngs is_polled series cid sid st sh dbr), ru_cid = cid, ru_sid = sid,
      ru_removing = False, ru_chan_close_ack = False, ru_inp_buf = [], ru_inp_cap = cap, ru_inp_done = False\<rparr>"

definition ru_trigger_remove :: "Clock \<Rightarrow> ('f, 'g) Running \<Rightarrow> ('f, 'g) Running" where
  "ru_trigger_remove ck s0 =
     (let s = s0\<lparr>ru_removing := True\<rparr> in
      case ru_state s of RsNormal x \<Rightarrow> s\<lparr>ru_state := RsNormal (fx_trigger_remove ck x)\<rparr> | RsDone \<Rightarrow> s)"

definition ru_handle_cmd :: "('f, 'g) Runtime \<Rightarrow> Clock \<Rightarrow> string option \<Rightarrow> ('f, 'g) Running \<Rightarrow> CmdReply \<times> ('f, 'g) Running" where
  "ru_handle_cmd sy ck cmd s =
     (case ru_state s of
        RsNormal x \<Rightarrow> let (r, x) = fx_handle_cmd sy ck cmd x in (r, s\<lparr>ru_state := RsNormal x\<rparr>)
      | RsDone \<Rightarrow> (CmdError, s))"

definition ru_inp_push_try :: "ProtoRxItem \<Rightarrow> ('f, 'g) Running \<Rightarrow> ProtoRxItem option \<times> ('f, 'g) Running" where
  "ru_inp_push_try x s = (let (r, v) = push_try (ru_inp_cap s) x (ru_inp_buf s) in (r, s\<lparr>ru_inp_buf := v\<rparr>))"

definition ru_set_inp_done :: "('f, 'g) Running \<Rightarrow> ('f, 'g) Running" where
  "ru_set_inp_done s0 =
     (let s = s0\<lparr>ru_inp_done := True\<rparr> in
      case ru_state s of RsNormal x \<Rightarrow> s\<lparr>ru_state := RsNormal (fx_set_inp_done x)\<rparr> | RsDone \<Rightarrow> s)"

fun to_mpx :: "CaMsgTy \<Rightarrow> bool" where
  "to_mpx (EventAddResMsg _) = True"
| "to_mpx (EventAddResEmptyMsg _) = True"
| "to_mpx (ReadNotifyResMsg _) = True"
| "to_mpx _ = False"

function ru_poll_inp_dispatch :: "('f, 'g) Running \<Rightarrow> (RunningError, unit) result option poll \<times> ('f, 'g) Running" where
  "ru_poll_inp_dispatch s =
     (case ru_state s of
        RsDone \<Rightarrow> (Ready None, s)
      | RsNormal mpx \<Rightarrow>
          (case ru_inp_buf s of
             [] \<Rightarrow> (if ru_inp_done s then Ready None else Pending, s)
           | item # rest \<Rightarrow>
               if to_mpx (cm_ty (pri_msg item))
               then (case fx_inp_push_try item mpx of
                       (Some x, mpx) \<Rightarrow> (Pending, s\<lparr>ru_inp_buf := x # rest, ru_state := RsNormal mpx\<rparr>)
                     | (None, mpx) \<Rightarrow> ru_poll_inp_dispatch (s\<lparr>ru_inp_buf := rest, ru_state := RsNormal mpx\<rparr>))
               else (case cm_ty (pri_msg item) of
                       ChannelCloseRes _ \<Rightarrow>
                         ru_poll_inp_dispatch (s\<lparr>ru_inp_buf := rest,
                           ru_chan_close_ack := ru_removing s \<or> ru_chan_close_ack s\<rparr>)
                     | _ \<Rightarrow> (Ready (Some (Inl RnCreateMonitorUnexpectedMessage)), s\<lparr>ru_inp_buf := rest\<rparr>))))"
  by pat_completeness auto

termination by (relation "measure (\<lambda>s. length (ru_inp_buf s))") auto

fun running_item :: "FetchmpxItem \<Rightarrow> RunningItem option" where
  "running_item (XiCaMsgOut m) = Some (RiCaMsgOut m)"
| "running_item (XiCaMsgOutIoid m sid ts) = Some (RiCaMsgOutIoid m sid ts)"
| "running_item (XiCaMsgOutSubid m ts) = Some (RiCaMsgOutSubid m ts)"
| "running_item (XiSubidRemove cid) = Some (RiSubidRemove cid)"
| "running_item (XiTestValue x) = Some (RiTestValue x)"
| "running_item (XiLocalLog x) = Some (RiLocalLog x)"
| "running_item (XiChannelStatus x) = Some (RiChannelStatus x)"
| "running_item (XiChannelEventValue x) = Some (RiChannelEventValue x)"
| "running_item XiInputDone = None"

definition ru_part_inp :: "('f, 'g) Running \<Rightarrow> Hpp \<times> ('f, 'g) Running" where
  "ru_part_inp s =
     (case ru_state s of
        RsDone \<Rightarrow> (hpp_new, s)
      | RsNormal _ \<Rightarrow>
          (case ru_poll_inp_dispatch s of
             (Ready (Some (Inr _)), s) \<Rightarrow> (hpp_progress, s)
           | (Ready (Some (Inl _)), s) \<Rightarrow> (hpp_progress, s\<lparr>ru_state := RsDone\<rparr>)
           | (Ready None, s) \<Rightarrow> (hpp_progress, s\<lparr>ru_state := RsDone\<rparr>)
           | (Pending, s) \<Rightarrow> (hpp_pending, s)))"

definition ru_part_mpx :: "('f, 'g) Runtime \<Rightarrow> Clock \<Rightarrow> ('f, 'g) Running \<Rightarrow> (RunningItem option \<times> Hpp \<times> ('f, 'g) Running) panics" where
  "ru_part_mpx sy ck s =
     (case ru_state s of
        RsDone \<Rightarrow> Some (None, hpp_new, s)
      | RsNormal mpx \<Rightarrow>
          do { (r, mpx) \<leftarrow> fx_poll_next sy ck mpx;
               let s = s\<lparr>ru_state := RsNormal mpx\<rparr> in
               Some (case r of
                 Ready (Some (Inr x)) \<Rightarrow> (running_item x, hpp_progress, s)
               | Ready (Some (Inl _)) \<Rightarrow> (None, hpp_progress, s\<lparr>ru_state := RsDone\<rparr>)
               | Ready None \<Rightarrow> (None, hpp_progress, s\<lparr>ru_state := RsDone\<rparr>)
               | Pending \<Rightarrow> (None, hpp_pending, s)) })"

partial_function (option) ru_poll_next :: "('f, 'g) Runtime \<Rightarrow> Clock \<Rightarrow> ('f, 'g) Running \<Rightarrow>
    ((RunningError, RunningItem) result option poll \<times> ('f, 'g) Running) panics" where
  "ru_poll_next sy ck s =
     (let (h0, s) = ru_part_inp s in
      do { (out, h, s) \<leftarrow> ru_part_mpx sy ck s;
           case out of
             Some x \<Rightarrow> Some (Ready (Some (Inr x)), s)
           | None \<Rightarrow>
               let h = hpp_merge h0 h in
               if have_progress h then ru_poll_next sy ck s
               else if have_pending h then Some (Pending, s)
               else Some (Ready None, s) })"

end
