(* ===== verification/ChanRunningCorrect.thy ===== *)
theory ChanRunningCorrect
  imports ChanRunning ChanFetchCorrect
begin

text \<open>
  Polling of a channel against a protocol of requests and answers, for any sequence of calls, times and timers;
  and the removal of a running channel.
\<close>

section \<open>Polling\<close>

fun fp_call :: "('f, 'g) Runtime \<Rightarrow> Clock \<Rightarrow> FetchCall \<Rightarrow> ('f, 'g) FetchPolling \<Rightarrow>
    (PollingItem list \<times> ('f, 'g) FetchPolling) panics" where
  "fp_call sy ck FcEnable s = Some ([], fp_transition_to_enable sy ck s)"
| "fp_call sy ck FcDisable s = Some ([], fp_transition_to_disable ck s)"
| "fp_call sy ck FcClosing s = Some ([], fp_trigger_closing ck s)"
| "fp_call sy ck (FcPush x) s = Some ([], snd (fp_inp_push_try x s))"
| "fp_call sy ck FcInpDone s = Some ([], fp_set_inp_done s)"
| "fp_call sy ck FcPoll s = do { (r, s) \<leftarrow> fp_poll_next sy ck s; Some (yield_of r, s) }"

text \<open>
  A request is outstanding or none is. The flag tells whether polling was disabled since the last answer: then
  an outstanding request may be given up. A third flag tells that the channel is closed.
\<close>

record PollPhase =
  pp_waiting :: bool
  pp_disabled :: bool
  pp_closed :: bool

definition read_msg :: "ChanPar \<Rightarrow> Instant \<Rightarrow> CaMsg" where
  "read_msg par t = CaMsg_from_ty_ts (ReadNotifyMsg
     \<lparr>rn_data_type = pr_dbr par, rn_data_count = pr_count par, rn_sid = pr_sid par, rn_ioid = 0\<rparr>) t"

fun poll_spec :: "ChanPar \<Rightarrow> PollPhase \<Rightarrow> FetchCall + PollingItem \<Rightarrow> PollPhase option" where
  "poll_spec par p (Inl c) =
     Some (p\<lparr>pp_disabled := pp_disabled p \<or> c = FcDisable, pp_closed := pp_closed p \<or> c = FcClosing\<rparr>)"
| "poll_spec par p (Inr PiNone) = Some p"
| "poll_spec par p (Inr (PiLocalLog _)) = Some p"
| "poll_spec par p (Inr (PiProtoOutIoid m sid t)) =
     (if m = read_msg par t \<and> sid = pr_sid par \<and> \<not> pp_closed p \<and> (pp_waiting p \<longrightarrow> pp_disabled p)
      then Some (p\<lparr>pp_waiting := True\<rparr>) else None)"
| "poll_spec par p (Inr (PiChannelEventValue v)) =
     (if cev_series v = pr_series par \<and> pp_waiting p \<and> \<not> pp_closed p
      then Some (p\<lparr>pp_waiting := False, pp_disabled := False\<rparr>) else None)"
| "poll_spec par p (Inr _) = None"

definition reply_values :: "('f, 'g) Runtime \<Rightarrow> ProtoRxItem \<Rightarrow> u32 list" where
  "reply_values sy x = (case cm_ty (pri_msg x) of ReadNotifyResMsg v \<Rightarrow> [f32_for_binning (sy_f32 sy) (rr_value v)] | _ \<Rightarrow> [])"

fun polled_values :: "PollingItem \<Rightarrow> u32 list" where
  "polled_values (PiChannelEventValue v) = [cev_val v]"
| "polled_values _ = []"

definition ppar_of :: "ChanPar \<Rightarrow> ('f, 'g) FetchPolling \<Rightarrow> bool" where
  "ppar_of par s \<longleftrightarrow> fp_series s = pr_series par \<and> fp_sid s = pr_sid par \<and>
     fp_dbr_ty s = pr_dbr par \<and> ca_count (fp_shape s) = Some (pr_count par)"

fun poll_phase_ok :: "PollPhase \<Rightarrow> 'f PollState \<Rightarrow> bool" where
  "poll_phase_ok p PDoNothing = (\<not> pp_closed p \<and> (pp_waiting p \<longrightarrow> pp_disabled p))"
| "poll_phase_ok p (PIdle _) = (\<not> pp_closed p \<and> (pp_waiting p \<longrightarrow> pp_disabled p))"
| "poll_phase_ok p (PSendReq d) = (\<not> pp_closed p \<and> (pp_waiting p \<longrightarrow> pp_disabled p) \<and> (d = PdDoNothing \<longrightarrow> pp_disabled p))"
| "poll_phase_ok p (PWaitRes _ d) = (\<not> pp_closed p \<and> pp_waiting p \<and> (d = PdDoNothing \<longrightarrow> pp_disabled p))"
| "poll_phase_ok p PClosing1 = pp_closed p"
| "poll_phase_ok p PDone = pp_closed p"

definition poll_inv :: "ChanPar \<Rightarrow> PollPhase \<Rightarrow> ('f, 'g) FetchPolling \<Rightarrow> bool" where
  "poll_inv par p s \<longleftrightarrow> ppar_of par s \<and> poll_phase_ok p (fp_state s)"

definition fp_buf_values :: "('f, 'g) Runtime \<Rightarrow> ('f, 'g) FetchPolling \<Rightarrow> u32 list" where
  "fp_buf_values sy s = concat (map (reply_values sy) (fp_inp_buf s))"

lemma fp_log_simps [simp]:
  "fp_state (fp_log ck t s) = fp_state s" "ppar_of par (fp_log ck t s) = ppar_of par s"
  "fp_inp_buf (fp_log ck t s) = fp_inp_buf s" "fp_series (fp_log ck t s) = fp_series s"
  "fp_sid (fp_log ck t s) = fp_sid s" "ll_buf (fp_llog (fp_log ck t s)) \<noteq> []" "fp_inp_done (fp_log ck t s) = fp_inp_done s"
  by (simp_all add: fp_log_def ppar_of_def ll_push_def Let_def)

lemma ppar_of_upd [simp]:
  "ppar_of par (s\<lparr>fp_state := x\<rparr>) = ppar_of par s" "ppar_of par (s\<lparr>fp_inp_buf := b\<rparr>) = ppar_of par s"
  "ppar_of par (s\<lparr>fp_rng := g\<rparr>) = ppar_of par s" "ppar_of par (s\<lparr>fp_llog := l\<rparr>) = ppar_of par s"
  "ppar_of par (s\<lparr>fp_inp_done := d\<rparr>) = ppar_of par s" "ppar_of par (s\<lparr>fp_ts_exact := t\<rparr>) = ppar_of par s"
  "ppar_of par (s\<lparr>fp_ts_jitter := t\<rparr>) = ppar_of par s"
  by (simp_all add: ppar_of_def)

lemma fp_transition_simps [simp]:
  "fp_state (fp_transition ck st s) = st" "ppar_of par (fp_transition ck st s) = ppar_of par s"
  "fp_inp_buf (fp_transition ck st s) = fp_inp_buf s" "ll_buf (fp_llog (fp_transition ck st s)) \<noteq> []"
  "fp_inp_done (fp_transition ck st s) = fp_inp_done s" "fp_series (fp_transition ck st s) = fp_series s"
  "fp_sid (fp_transition ck st s) = fp_sid s"
  by (simp_all add: fp_transition_def)

lemma fp_set_inp_done_simps [simp]:
  "fp_state (fp_set_inp_done s) = fp_state s" "ppar_of par (fp_set_inp_done s) = ppar_of par s"
  "fp_inp_buf (fp_set_inp_done s) = fp_inp_buf s" "fp_inp_done (fp_set_inp_done s)"
  by (simp_all add: fp_set_inp_done_def)

lemma next_poll_simps:
  assumes "next_poll_instant_jitter sy ck s = (t, s')"
  shows "fp_state s' = fp_state s" "ppar_of par s' = ppar_of par s" "fp_inp_buf s' = fp_inp_buf s"
    "fp_llog s' = fp_llog s" "fp_inp_done s' = fp_inp_done s" "fp_series s' = fp_series s"
  using assms by (auto simp: next_poll_instant_jitter_def Let_def split: prod.splits if_splits)

lemma fp_go_idle_simps [simp]:
  "\<exists>f. fp_state (fp_go_idle sy ck s) = PIdle f" "ppar_of par (fp_go_idle sy ck s) = ppar_of par s"
  "fp_inp_buf (fp_go_idle sy ck s) = fp_inp_buf s" "ll_buf (fp_llog (fp_go_idle sy ck s)) \<noteq> []"
  "fp_inp_done (fp_go_idle sy ck s) = fp_inp_done s" "fp_series (fp_go_idle sy ck s) = fp_series s"
  by (auto simp: fp_go_idle_def next_poll_simps split: prod.splits)

lemma poll_phase_go_idle [simp]: "poll_phase_ok p (fp_state (fp_go_idle sy ck s)) = (\<not> pp_closed p \<and> (pp_waiting p \<longrightarrow> pp_disabled p))"
proof -
  obtain f where "fp_state (fp_go_idle sy ck s) = PIdle f" using fp_go_idle_simps(1) by blast
  then show ?thesis by simp
qed

definition poll_allowed :: "ChanPar \<Rightarrow> PollPhase \<Rightarrow> PollingItem list \<Rightarrow> ('f, 'g) FetchPolling \<Rightarrow> bool" where
  "poll_allowed par p out s \<longleftrightarrow>
     (case out of [] \<Rightarrow> poll_inv par p s
      | x # _ \<Rightarrow> (case poll_spec par p (Inr x) of None \<Rightarrow> False | Some p' \<Rightarrow> poll_inv par p' s))"

lemma fp_poll_inp_ok:
  assumes inv: "poll_inv par p s" and i: "fp_poll_inp sy ck s = (out, h, s')"
  shows "poll_allowed par p (listed out) s' \<and>
    subseq (concat (map polled_values (listed out)) @ fp_buf_values sy s') (fp_buf_values sy s)"
proof (cases "fp_inp_buf s")
  case Nil
  then show ?thesis using assms by (auto simp: fp_poll_inp_def poll_allowed_def)
next
  case (Cons x rest)
  have par: "ppar_of par s" "fp_series s = pr_series par" "poll_phase_ok p (fp_state s)"
    using inv by (auto simp: poll_inv_def ppar_of_def)
  show ?thesis
  proof (cases "\<exists>v f d. cm_ty (pri_msg x) = ReadNotifyResMsg v \<and> fp_state s = PWaitRes f d")
    case True
    then obtain v f d where "cm_ty (pri_msg x) = ReadNotifyResMsg v" "fp_state s = PWaitRes f d" by blast
    then show ?thesis
      using Cons par i by (cases d) (auto simp: fp_poll_inp_def Let_def poll_allowed_def poll_inv_def fp_buf_values_def reply_values_def)
  next
    case False
    then have "out = None" "s' = s\<lparr>fp_inp_buf := rest\<rparr>"
      using Cons i by (auto simp: fp_poll_inp_def Let_def split: PollState.splits CaMsgTy.splits)
    then show ?thesis using Cons inv by (auto simp: poll_allowed_def poll_inv_def fp_buf_values_def)
  qed
qed

lemma fp_step_ok:
  assumes inv: "poll_inv par p s"
  shows "case fp_step sy ck s of None \<Rightarrow> False
    | Some (out, h, s') \<Rightarrow> poll_allowed par p (listed out) s' \<and> concat (map polled_values (listed out)) = [] \<and>
        fp_inp_buf s' = fp_inp_buf s"
proof -
  have par: "ppar_of par s" "poll_phase_ok p (fp_state s)" "ca_count (fp_shape s) = Some (pr_count par)"
    "fp_dbr_ty s = pr_dbr par" "fp_sid s = pr_sid par"
    using inv by (simp_all add: poll_inv_def ppar_of_def)
  note d = fp_step_def poll_allowed_def poll_inv_def
  show ?thesis
  proof (cases "fp_state s")
    case (PIdle f)
    then show ?thesis using par by (auto simp: d split: prod.splits bool.splits)
  next
    case (PSendReq e)
    then show ?thesis using par by (auto simp: d Let_def read_msg_def)
  next
    case (PWaitRes f e)
    then show ?thesis using par by (cases e) (auto simp: d split: prod.splits bool.splits)
  qed (use par in \<open>auto simp: d\<close>)
qed

lemma fp_poll_ok:
  assumes inv: "poll_inv par p s"
  shows "\<exists>r s'. fp_poll_next sy ck s = Some (r, s') \<and> poll_allowed par p (yield_of r) s' \<and> (\<forall>e. r \<noteq> Ready (Some (Inl e))) \<and>
    subseq (concat (map polled_values (yield_of r)) @ fp_buf_values sy s') (fp_buf_values sy s)"
proof (cases "ll_buf (fp_llog s)")
  case (Cons e b)
  then show ?thesis using inv by (auto simp: fp_poll_next_def poll_allowed_def poll_inv_def fp_buf_values_def)
next
  case Nil
  obtain out0 h0 s0 where i: "fp_poll_inp sy ck s = (out0, h0, s0)" by (metis prod_cases3)
  note inp = fp_poll_inp_ok [OF inv i]
  show ?thesis
  proof (cases out0)
    case (Some x)
    then show ?thesis using Nil i inp by (auto simp: fp_poll_next_def)
  next
    case None
    then have "poll_inv par p s0" using inp by (simp add: poll_allowed_def)
    from fp_step_ok [OF this, of sy ck] obtain out h s1 where st: "fp_step sy ck s0 = Some (out, h, s1)"
      "poll_allowed par p (listed out) s1" "concat (map polled_values (listed out)) = []" "fp_inp_buf s1 = fp_inp_buf s0"
      by (auto split: option.splits)
    have "subseq (fp_buf_values sy s1) (fp_buf_values sy s)" using inp None st(4) by (simp add: fp_buf_values_def)
    then show ?thesis
      using Nil i None st by (cases out) (auto simp: fp_poll_next_def Let_def poll_allowed_def)
  qed
qed

lemma poll_inv_call:
  assumes "poll_inv par p s"
  shows "poll_inv par p (fp_transition_to_enable sy ck s)"
    "poll_inv par (p\<lparr>pp_disabled := True\<rparr>) (fp_transition_to_disable ck s)"
    "poll_inv par (p\<lparr>pp_closed := True\<rparr>) (fp_trigger_closing ck s)"
    "poll_inv par p (snd (fp_inp_push_try x s))"
    "poll_inv par p (fp_set_inp_done s)"
  using assms
  by (cases "fp_state s"; simp add: poll_inv_def fp_transition_to_enable_def fp_transition_to_disable_def
        fp_trigger_closing_def fp_transition_to_closing_def fp_inp_push_try_def push_try_def)+

lemma fp_buf_values_call:
  "fp_buf_values sy (fp_transition_to_enable sy ck s) = fp_buf_values sy s"
  "fp_buf_values sy (fp_transition_to_disable ck s) = fp_buf_values sy s"
  "fp_buf_values sy (fp_trigger_closing ck s) = fp_buf_values sy s"
  "subseq (fp_buf_values sy (snd (fp_inp_push_try x s))) (fp_buf_values sy s @ reply_values sy x)"
  "fp_buf_values sy (fp_set_inp_done s) = fp_buf_values sy s"
  by (simp_all add: fp_buf_values_def fp_transition_to_enable_def fp_transition_to_disable_def fp_trigger_closing_def
      fp_transition_to_closing_def fp_inp_push_try_def push_try_def Let_def split: PollState.split) auto

lemma fp_call_ok:
  assumes inv: "poll_inv par p s"
  shows "\<exists>out p' s'. fp_call sy ck c s = Some (out, s') \<and> poll_inv par p' s' \<and>
    (\<forall>tr. trace_ok (poll_spec par) p (Inl c # map Inr out @ tr) = trace_ok (poll_spec par) p' tr) \<and>
    subseq (concat (map polled_values out) @ fp_buf_values sy s') (fp_buf_values sy s @ pushed_by (reply_values sy) c)"
proof (cases "c = FcPoll")
  case True
  obtain r s' where r: "fp_poll_next sy ck s = Some (r, s')" "poll_allowed par p (yield_of r) s'"
    "subseq (concat (map polled_values (yield_of r)) @ fp_buf_values sy s') (fp_buf_values sy s)"
    using fp_poll_ok [OF inv] by blast
  have "\<exists>p'. poll_inv par p' s' \<and> (\<forall>tr. trace_ok (poll_spec par) p (map Inr (yield_of r) @ tr) = trace_ok (poll_spec par) p' tr)"
  proof (cases "yield_of r")
    case (Cons x out)
    moreover from this have "out = []" by (auto simp: yield_of_def split: poll.splits option.splits sum.splits)
    ultimately show ?thesis using r(2) by (auto simp: poll_allowed_def split: option.splits)
  next
    case Nil
    then show ?thesis using r(2) by (intro exI [of _ p]) (simp add: poll_allowed_def)
  qed
  moreover have "trace_ok (poll_spec par) p (Inl FcPoll # tr) = trace_ok (poll_spec par) p tr" for tr by simp
  ultimately show ?thesis using True r by auto
next
  case False
  let ?p = "p\<lparr>pp_disabled := pp_disabled p \<or> c = FcDisable, pp_closed := pp_closed p \<or> c = FcClosing\<rparr>"
  show ?thesis
    using False poll_inv_call [OF inv] fp_buf_values_call(4)
    by (cases c; intro exI [of _ "[]"] exI [of _ ?p]) (auto simp: fp_buf_values_call)
qed

interpretation fp: fetcher "fp_call sy" "poll_spec par" "poll_inv par" polled_values "reply_values sy" "fp_buf_values sy" for sy par
  by unfold_locales (rule fp_call_ok)

section \<open>Removal of a channel without a subscription\<close>

lemma fp_set_state_pclosing: "fp_state (fp_trigger_closing ck s) = PClosing1 \<or> fp_state (fp_trigger_closing ck s) = PDone"
  by (cases "fp_state s") (simp_all add: fp_trigger_closing_def fp_transition_to_closing_def)

text \<open>The subscription was never made or is gone, and the connection is still up.\<close>

definition mon_idle :: "('f, 'g) FetchMonitoring \<Rightarrow> bool" where
  "mon_idle m \<longleftrightarrow> fm_state m = MDoNothing \<and> \<not> fm_inp_done m"

definition fx_hung :: "('f, 'g) Fetchmpx \<Rightarrow> bool" where
  "fx_hung x \<longleftrightarrow> fx_state x = FxClosing1 \<and> \<not> fx_inp_done x \<and> mon_idle (fx_monitoring x) \<and>
     (fp_state (fx_polling x) = PClosing1 \<or> fp_state (fx_polling x) = PDone) \<and>
     (\<forall>i\<in>set (fx_inp_buf x). mpx_route (cm_ty (pri_msg i)) \<noteq> ToNone)"

lemma mon_idle_poll:
  "mon_idle m \<Longrightarrow> \<exists>r m'. fm_poll_next sy ck m = Some (r, m') \<and> mon_idle m' \<and>
    (r = Pending \<or> (\<exists>e. r = Ready (Some (Inr (MiLocalLog e)))))"
proof (induction "length (fm_inp_buf m)" arbitrary: m)
  case 0
  then show ?case
    by (cases "ll_buf (fm_llog m)")
       (auto simp: fm_poll_next.simps mon_idle_def poll_inp_empty fm_step_def hpp_of_inp_def hpp_merge_def hpp_new_def hpp_pending_def)
next
  case (Suc n)
  then obtain x rest where b: "fm_inp_buf m = x # rest" by (cases "fm_inp_buf m") auto
  show ?case
  proof (cases "ll_buf (fm_llog m)")
    case (Cons e l)
    then show ?thesis using Suc.prems by (cases e) (auto simp: fm_poll_next.simps mon_idle_def)
  next
    case Nil
    have "fm_poll_next sy ck m = fm_poll_next sy ck (m\<lparr>fm_inp_buf := rest\<rparr>)"
      using Suc.prems b Nil unfolding fm_poll_next.simps [of sy ck m]
      by (simp add: mon_idle_def fm_poll_inp_def fm_step_def hpp_of_inp_def hpp_merge_def hpp_progress_def)
    moreover have "mon_idle (m\<lparr>fm_inp_buf := rest\<rparr>)" using Suc.prems by (simp add: mon_idle_def)
    ultimately show ?thesis using Suc.hyps b by auto
  qed
qed

text \<open>The work a closing polling handler has left.\<close>

definition fx_work :: "('f, 'g) Fetchmpx \<Rightarrow> nat" where
  "fx_work x = 2 * length (fx_inp_buf x) + length (fp_inp_buf (fx_polling x)) + of_bool (fp_state (fx_polling x) = PClosing1)"

declare fx_poll_inp_dispatch.simps [simp del]
declare ru_poll_inp_dispatch.simps [simp del]

lemma fx_dispatch_hung:
  "fx_hung x \<Longrightarrow> \<exists>x'. fx_poll_inp_dispatch ck x = (Pending, x') \<and> fx_hung x' \<and> fx_work x' \<le> fx_work x"
proof (induction "length (fx_inp_buf x)" arbitrary: x)
  case 0
  then show ?case by (auto simp: fx_poll_inp_dispatch.simps [of ck x] fx_hung_def)
next
  case (Suc n)
  then obtain i rest where b: "fx_inp_buf x = i # rest" by (cases "fx_inp_buf x") auto
  have st: "fx_state x = FxClosing1" using Suc.prems by (simp add: fx_hung_def)
  show ?case
  proof (cases "mpx_route (cm_ty (pri_msg i))")
    case ToMonitoring
    obtain r m where m: "fm_inp_push_try i (fx_monitoring x) = (r, m)" by fastforce
    have idle: "mon_idle m" using m Suc.prems by (auto simp: fm_inp_push_try_def fx_hung_def mon_idle_def split: prod.splits)
    show ?thesis
    proof (cases r)
      case None
      let ?x = "x\<lparr>fx_inp_buf := rest, fx_monitoring := m\<rparr>"
      have "fx_hung ?x" "fx_work ?x \<le> fx_work x" using Suc.prems idle b by (auto simp: fx_hung_def fx_work_def)
      then show ?thesis
        using Suc.hyps(1) [of ?x] Suc.hyps(2) b st ToMonitoring m None
        by (auto simp: fx_poll_inp_dispatch.simps [of ck x] intro: order.trans)
    next
      case (Some y)
      then have "y = i" using m by (auto simp: fm_inp_push_try_def push_try_def split: if_splits)
      then show ?thesis
        using Some Suc.prems idle b st ToMonitoring m by (auto simp: fx_poll_inp_dispatch.simps [of ck x] fx_hung_def fx_work_def)
    qed
  next
    case ToPolling
    obtain r m where m: "fp_inp_push_try i (fx_polling x) = (r, m)" by fastforce
    have idle: "fp_state m = fp_state (fx_polling x)" "length (fp_inp_buf m) \<le> Suc (length (fp_inp_buf (fx_polling x)))"
      using m by (auto simp: fp_inp_push_try_def push_try_def split: prod.splits if_splits)
    show ?thesis
    proof (cases r)
      case None
      let ?x = "x\<lparr>fx_inp_buf := rest, fx_polling := m\<rparr>"
      have "fx_hung ?x" "fx_work ?x \<le> fx_work x" using Suc.prems idle b by (auto simp: fx_hung_def fx_work_def)
      then show ?thesis
        using Suc.hyps(1) [of ?x] Suc.hyps(2) b st ToPolling m None
        by (auto simp: fx_poll_inp_dispatch.simps [of ck x] intro: order.trans)
    next
      case (Some y)
      then have "y = i" "m = fx_polling x" using m by (auto simp: fp_inp_push_try_def push_try_def split: if_splits)
      then show ?thesis
        using Some Suc.prems b st ToPolling m by (auto simp: fx_poll_inp_dispatch.simps [of ck x] fx_hung_def fx_work_def)
    qed
  next
    case ToNone
    then show ?thesis using Suc.prems b by (auto simp: fx_hung_def)
  qed
qed

definition fp_work :: "('f, 'g) FetchPolling \<Rightarrow> nat" where
  "fp_work p = length (fp_inp_buf p) + of_bool (fp_state p = PClosing1)"

lemma fp_poll_closed:
  assumes "fp_state p = PClosing1 \<or> fp_state p = PDone"
  shows "case fp_poll_next sy ck p of None \<Rightarrow> False
    | Some (r, p') \<Rightarrow> (fp_state p' = PClosing1 \<or> fp_state p' = PDone) \<and> fp_work p' \<le> fp_work p \<and>
        (r = Pending \<or> r = Ready None \<or> (\<exists>e. r = Ready (Some (Inr (PiLocalLog e)))) \<or>
         r = Ready (Some (Inr PiNone)) \<and> fp_work p' < fp_work p)"
proof (cases "ll_buf (fp_llog p)")
  case (Cons e b)
  then show ?thesis using assms by (cases e) (auto simp: fp_poll_next_def fp_work_def)
next
  case Nil
  then show ?thesis
    using assms
    by (cases "fp_inp_buf p"; cases "fp_inp_done p"; elim disjE)
       (auto simp: fp_work_def fp_poll_next_def fp_poll_inp_def fp_step_def hpp_merge_def hpp_new_def hpp_pending_def hpp_progress_def)
qed

text \<open>A poll of the multiplexer returns nothing but entries of the log.\<close>

lemma fx_poll_hung:
  "fx_hung x \<Longrightarrow> \<exists>r x'. fx_poll_next sy ck x = Some (r, x') \<and> fx_hung x' \<and>
    (r = Pending \<or> (\<exists>e. r = Ready (Some (Inr (XiLocalLog e)))))"
proof (induction "fx_work x" arbitrary: x rule: less_induct)
  case less
  show ?case
  proof (cases "ll_buf (fx_llog x)")
    case (Cons e b)
    then show ?thesis using less.prems by (cases e) (auto simp: fx_poll_next.simps fx_hung_def)
  next
    case Nil
    obtain x1 where x1: "fx_poll_inp_dispatch ck x = (Pending, x1)" "fx_hung x1" "fx_work x1 \<le> fx_work x"
      using fx_dispatch_hung [OF less.prems] by blast
    have closed: "fp_state (fx_polling x1) = PClosing1 \<or> fp_state (fx_polling x1) = PDone" using x1(2) by (simp add: fx_hung_def)
    from fp_poll_closed [OF closed, of sy ck] obtain r p where p: "fp_poll_next sy ck (fx_polling x1) = Some (r, p)"
      "fp_state p = PClosing1 \<or> fp_state p = PDone" "fp_work p \<le> fp_work (fx_polling x1)"
      "r = Pending \<or> r = Ready None \<or> (\<exists>e. r = Ready (Some (Inr (PiLocalLog e)))) \<or> r = Ready (Some (Inr PiNone)) \<and> fp_work p < fp_work (fx_polling x1)"
      by (auto split: option.splits)
    let ?x2 = "x1\<lparr>fx_polling := p\<rparr>"
    have x2: "fx_hung ?x2" using x1(2) p(2) by (simp add: fx_hung_def)
    have "mon_idle (fx_monitoring x1)" using x1(2) by (simp add: fx_hung_def)
    from mon_idle_poll [OF this, of sy ck] obtain q m where m: "fm_poll_next sy ck (fx_monitoring x1) = Some (q, m)" "mon_idle m"
      "q = Pending \<or> (\<exists>e. q = Ready (Some (Inr (MiLocalLog e))))" by blast
    let ?x3 = "?x2\<lparr>fx_monitoring := m\<rparr>"
    have x3: "fx_hung ?x3" using x2 m(2) by (simp add: fx_hung_def)
    have w: "fx_work ?x3 + fp_work (fx_polling x1) = fx_work x1 + fp_work p" by (simp add: fx_work_def fp_work_def)
    have st: "fx_state x = FxClosing1" using less.prems by (simp add: fx_hung_def)
    note round = fx_poll_next.simps [of sy ck x] fx_round_def fx_parts_def fx_part_inp_def fx_part_polling_def fx_part_monitoring_def
      then_part_def hpp_merge_def hpp_new_def hpp_pending_def hpp_progress_def
    show ?thesis
    proof (cases "r = Ready (Some (Inr PiNone)) \<and> q = Pending")
      case True
      then have "fx_poll_next sy ck x = fx_poll_next sy ck ?x3"
        using x1(1) p(1) m(1) st Nil by (simp add: round)
      moreover have "fx_work ?x3 < fx_work x" using True p(4) w x1(3) by auto
      ultimately show ?thesis using less.hyps x3 by auto
    next
      case False
      then show ?thesis using x1(1) p(1,4) m(1,3) st Nil x2 x3 by (auto simp: round)
    qed
  qed
qed

text \<open>The messages a running channel takes: answers for the handlers, and the confirmation of its close.\<close>

definition expected :: "ProtoRxItem \<Rightarrow> bool" where
  "expected i \<longleftrightarrow> to_mpx (cm_ty (pri_msg i)) \<or> (\<exists>c. cm_ty (pri_msg i) = ChannelCloseRes c)"

lemma to_mpx_routed: "to_mpx ty \<Longrightarrow> mpx_route ty \<noteq> ToNone"
  by (cases ty) simp_all

definition ru_hung :: "('f, 'g) Running \<Rightarrow> bool" where
  "ru_hung s \<longleftrightarrow> (\<exists>x. ru_state s = RsNormal x \<and> fx_hung x) \<and> \<not> ru_inp_done s \<and> (\<forall>i\<in>set (ru_inp_buf s). expected i)"

lemma fx_push_hung:
  assumes "fx_inp_push_try i x = (r, x')" and "fx_hung x" and "mpx_route (cm_ty (pri_msg i)) \<noteq> ToNone"
  shows "fx_hung x' \<and> (r = None \<or> r = Some i)"
  using assms by (auto simp: fx_inp_push_try_def push_try_def fx_hung_def split: if_splits)

lemma ru_dispatch_hung:
  "ru_hung s \<Longrightarrow> \<exists>s'. ru_poll_inp_dispatch s = (Pending, s') \<and> ru_hung s'"
proof (induction "length (ru_inp_buf s)" arbitrary: s)
  case 0
  then show ?case by (auto simp: ru_poll_inp_dispatch.simps [of s] ru_hung_def)
next
  case (Suc n)
  then obtain i rest where b: "ru_inp_buf s = i # rest" by (cases "ru_inp_buf s") auto
  obtain x where x: "ru_state s = RsNormal x" "fx_hung x" using Suc.prems by (auto simp: ru_hung_def)
  obtain r x' where p: "fx_inp_push_try i x = (r, x')" by fastforce
  have rest: "\<not> ru_inp_done s" "\<forall>i\<in>set rest. expected i" "expected i" using Suc.prems b by (auto simp: ru_hung_def)
  have n: "n = length rest" using Suc.hyps(2) b by simp
  show ?case
  proof (cases "to_mpx (cm_ty (pri_msg i))")
    case True
    note p' = fx_push_hung [OF p x(2) to_mpx_routed [OF True]]
    show ?thesis
    proof (cases r)
      case None
      let ?s = "s\<lparr>ru_inp_buf := rest, ru_state := RsNormal x'\<rparr>"
      have "ru_hung ?s" using p' rest by (simp add: ru_hung_def)
      then show ?thesis using Suc.hyps(1) [of ?s] n b x p True None by (auto simp: ru_poll_inp_dispatch.simps [of s])
    next
      case (Some y)
      then show ?thesis using p' rest b x p True by (auto simp: ru_poll_inp_dispatch.simps [of s] ru_hung_def)
    qed
  next
    case False
    then obtain c where c: "cm_ty (pri_msg i) = ChannelCloseRes c" using rest(3) by (auto simp: expected_def)
    let ?s = "s\<lparr>ru_inp_buf := rest, ru_chan_close_ack := ru_removing s \<or> ru_chan_close_ack s\<rparr>"
    have "ru_hung ?s" using x rest by (simp add: ru_hung_def)
    then show ?thesis using Suc.hyps(1) [of ?s] n b x c by (auto simp: ru_poll_inp_dispatch.simps [of s])
  qed
qed

lemma ru_poll_hung:
  assumes "ru_hung s"
  shows "\<exists>r s'. ru_poll_next sy ck s = Some (r, s') \<and> ru_hung s' \<and>
    (r = Pending \<or> (\<exists>e. r = Ready (Some (Inr (RiLocalLog e)))))"
proof -
  obtain s1 where d: "ru_poll_inp_dispatch s = (Pending, s1)" "ru_hung s1" using ru_dispatch_hung [OF assms] by blast
  obtain x1 where x1: "ru_state s1 = RsNormal x1" "fx_hung x1" using d(2) by (auto simp: ru_hung_def)
  obtain x0 where x0: "ru_state s = RsNormal x0" using assms by (auto simp: ru_hung_def)
  obtain r x2 where p: "fx_poll_next sy ck x1 = Some (r, x2)" "fx_hung x2"
    "r = Pending \<or> (\<exists>e. r = Ready (Some (Inr (XiLocalLog e))))"
    using fx_poll_hung [OF x1(2), of sy ck] by blast
  have "ru_hung (s1\<lparr>ru_state := RsNormal x2\<rparr>)" using d(2) p(2) by (simp add: ru_hung_def)
  then show ?thesis
    using d(1) x0 x1(1) p(1,3)
    by (auto simp: ru_poll_next.simps [of sy ck s] ru_part_inp_def ru_part_mpx_def hpp_merge_def hpp_pending_def)
qed

text \<open>Calls to a running channel, and what its polls return.\<close>

datatype RunCall = RcPoll | RcPush ProtoRxItem | RcCmd "string option" | RcRemove

fun ru_call :: "('f, 'g) Runtime \<Rightarrow> Clock \<Rightarrow> RunCall \<Rightarrow> ('f, 'g) Running \<Rightarrow>
    ((RunningError, RunningItem) result option poll list \<times> ('f, 'g) Running) panics" where
  "ru_call sy ck RcPoll s = do { (r, s) \<leftarrow> ru_poll_next sy ck s; Some ([r], s) }"
| "ru_call sy ck (RcPush i) s = Some ([], snd (ru_inp_push_try i s))"
| "ru_call sy ck (RcCmd c) s = Some ([], snd (ru_handle_cmd sy ck c s))"
| "ru_call sy ck RcRemove s = Some ([], ru_trigger_remove ck s)"

primrec ru_run :: "('f, 'g) Runtime \<Rightarrow> (Clock \<times> RunCall) list \<Rightarrow> ('f, 'g) Running \<Rightarrow>
    ((RunningError, RunningItem) result option poll list \<times> ('f, 'g) Running) panics" where
  "ru_run sy [] s = Some ([], s)"
| "ru_run sy (c # cs) s =
     do { (out, s) \<leftarrow> ru_call sy (fst c) (snd c) s;
          (outs, s) \<leftarrow> ru_run sy cs s;
          Some (out @ outs, s) }"

definition nothing_said :: "(RunningError, RunningItem) result option poll \<Rightarrow> bool" where
  "nothing_said r \<longleftrightarrow> r = Pending \<or> (\<exists>e. r = Ready (Some (Inr (RiLocalLog e))))"

lemma ru_call_hung:
  assumes "ru_hung s" and "\<forall>i. c = RcPush i \<longrightarrow> expected i"
  shows "\<exists>out s'. ru_call sy ck c s = Some (out, s') \<and> ru_hung s' \<and> list_all nothing_said out \<and> (c = RcPoll \<longrightarrow> length out = 1)"
proof (cases c)
  case RcPoll
  then show ?thesis using ru_poll_hung [OF assms(1), of sy ck] by (auto simp: nothing_said_def)
next
  case (RcPush i)
  then show ?thesis using assms by (auto simp: ru_hung_def ru_inp_push_try_def push_try_def)
next
  case (RcCmd x)
  then show ?thesis using assms by (auto simp: ru_hung_def ru_handle_cmd_def fx_handle_cmd_def fx_hung_def)
next
  case RcRemove
  then show ?thesis
    using assms by (auto simp: ru_hung_def ru_trigger_remove_def fx_trigger_remove_def fx_trigger_closing_def fx_hung_def)
qed

lemma ru_run_hung:
  "ru_hung s \<Longrightarrow> \<forall>i. RcPush i \<in> snd ` set cs \<longrightarrow> expected i \<Longrightarrow>
    \<exists>outs s'. ru_run sy cs s = Some (outs, s') \<and> list_all nothing_said outs \<and>
      length outs \<ge> length (filter (\<lambda>c. snd c = RcPoll) cs)"
proof (induction cs arbitrary: s)
  case (Cons c cs)
  have "\<forall>i. snd c = RcPush i \<longrightarrow> expected i" using Cons.prems(2) by force
  from ru_call_hung [OF Cons.prems(1) this, of sy "fst c"] obtain out s1 where c: "ru_call sy (fst c) (snd c) s = Some (out, s1)"
    "ru_hung s1" "list_all nothing_said out" "snd c = RcPoll \<longrightarrow> length out = 1" by blast
  have "\<forall>i. RcPush i \<in> snd ` set cs \<longrightarrow> expected i" using Cons.prems(2) by auto
  from Cons.IH [OF c(2) this] obtain outs s' where "ru_run sy cs s1 = Some (outs, s')" "list_all nothing_said outs"
    "length outs \<ge> length (filter (\<lambda>c. snd c = RcPoll) cs)" by blast
  then show ?case using c(1,3,4) by auto
qed simp

text \<open>
  A channel without a subscription: it is polled, or its subscription was removed; the connection is up, and
  the messages waiting are expected ones.
\<close>

definition unsubscribed :: "('f, 'g) Running \<Rightarrow> bool" where
  "unsubscribed s \<longleftrightarrow> \<not> ru_inp_done s \<and> (\<forall>i\<in>set (ru_inp_buf s). expected i) \<and>
     (\<exists>x. ru_state s = RsNormal x \<and> fx_state x = FxNormal \<and> \<not> fx_inp_done x \<and> mon_idle (fx_monitoring x) \<and>
       (\<forall>i\<in>set (fx_inp_buf x). mpx_route (cm_ty (pri_msg i)) \<noteq> ToNone))"

lemma remove_hangs:
  assumes "unsubscribed s"
  shows "ru_hung (ru_trigger_remove ck s)"
proof -
  obtain x where x: "ru_state s = RsNormal x" "fx_state x = FxNormal" "\<not> fx_inp_done x" "mon_idle (fx_monitoring x)"
    "\<forall>i\<in>set (fx_inp_buf x). mpx_route (cm_ty (pri_msg i)) \<noteq> ToNone" "\<not> ru_inp_done s" "\<forall>i\<in>set (ru_inp_buf s). expected i"
    using assms by (auto simp: unsubscribed_def)
  have "mon_idle (fm_trigger_closing ck (fx_monitoring x))"
    using x(4) by (simp add: mon_idle_def fm_trigger_closing_def fm_transition_to_closing_def)
  then show ?thesis
    using x fp_set_state_pclosing [of ck "fx_polling x"]
    by (simp add: ru_hung_def ru_trigger_remove_def fx_trigger_remove_def fx_trigger_closing_def fx_hung_def)
qed

section \<open>Properties\<close>

text \<open>
  C16. Any sequence of calls to the polling of a channel, with any timers and clock, returns, and what the polls
  yield follows the protocol: after a request there is no other before its answer, except when polling was
  disabled since the last answer, and nothing is sent or yielded after the channel is closed; the requests are those of the
  channel. The values yielded are those of answers pushed, in their order, each at most once. So a channel whose request
  is not answered is never read again unless polling is disabled and enabled.
\<close>

theorem polling_one_outstanding:
  assumes "ca_count sh = Some n"
  shows "\<exists>tr s. fetch_run (fp_call sy) calls (fp_new ck cap rng series sid ty sh dbr) = Some (tr, s) \<and> called tr = map snd calls \<and>
    trace_ok (poll_spec \<lparr>pr_series = series, pr_cid = cid, pr_sid = sid, pr_dbr = dbr, pr_count = n\<rparr>)
      \<lparr>pp_waiting = False, pp_disabled = False, pp_closed = False\<rparr> tr \<and>
    subseq (yields_of polled_values tr) (pushes_of (reply_values sy) tr)"
  using assms by (intro fp.run_from_start) (simp_all add: poll_inv_def ppar_of_def fp_new_def fp_buf_values_def)

definition demo_polling :: "(nat, unit) FetchPolling" where
  "demo_polling = fp_new (demo_clock 0) 16 () 3 5 I32 ShScalar 19"

definition demo_reply :: "u32 \<Rightarrow> ProtoRxItem" where
  "demo_reply x = demo_item (ReadNotifyResMsg \<lparr>rr_data_type = 19, rr_data_count = 1, rr_sid = 5, rr_ioid = 0, rr_payload_len = 16,
     rr_value = \<lparr>ev_data = CaScalar (CvI32 x), ev_meta = MetaTime \<lparr>mt_status = 0, mt_severity = 0, mt_ca_secs = 0, mt_ca_nanos = 0\<rparr>\<rparr>\<rparr>)"

definition demo_polls :: "(Clock \<times> FetchCall) list" where
  "demo_polls = map (Pair (demo_clock 0)) ([FcEnable] @ replicate 3 FcPoll) @
     map (Pair (demo_clock 9000000000)) ([FcPoll] @ replicate 3 FcPoll @ [FcPush (demo_reply 42)] @ replicate 3 FcPoll)"

lemma demo_polls_values:
  "map_option (\<lambda>(tr, s). yields_of polled_values tr) (fetch_run (fp_call demo_runtime) demo_polls demo_polling) = Some [42]"
  by code_simp

theorem polling_one_outstanding_witness:
  "\<exists>tr s. fetch_run (fp_call demo_runtime) demo_polls demo_polling = Some (tr, s) \<and>
    trace_ok (poll_spec demo_par) \<lparr>pp_waiting = False, pp_disabled = False, pp_closed = False\<rparr> tr \<and>
    yields_of polled_values tr = [42]"
  using polling_one_outstanding [of ShScalar 1 demo_runtime demo_polls "demo_clock 0" 16 "()" 3 5 I32 19 4] demo_polls_values
  by (auto simp: ca_count_def to_ca_count_def demo_par_def demo_polling_def)

text \<open>
  C35. The removal of a channel without a subscription never ends while the connection is up: whatever polls,
  commands and answers of the server follow, every poll returns, but it is pending or yields an entry of the log; the
  stream neither ends nor fails, so the channel is never closed at the server.
\<close>

theorem removal_never_ends:
  assumes "unsubscribed s"
    and "\<forall>i. RcPush i \<in> snd ` set calls \<longrightarrow> expected i"
  shows "\<exists>outs s'. ru_run sy ((ck, RcRemove) # calls) s = Some (outs, s') \<and> list_all nothing_said outs \<and>
    length outs \<ge> length (filter (\<lambda>c. snd c = RcPoll) calls)"
  using ru_run_hung [OF remove_hangs [OF assms(1)] assms(2)] by auto

definition demo_running :: "(nat, unit) Running" where
  "demo_running = ru_new 64 demo_runtime (demo_clock 0) (64, 16, 16) ((), ()) True 3 4 5 I32 ShScalar 19"

lemma demo_running_unsubscribed: "unsubscribed demo_running"
  by (simp add: demo_running_def unsubscribed_def ru_new_def fx_new_def fm_new_def mon_idle_def)

lemma demo_reply_expected: "expected (demo_reply x)"
  by (simp add: expected_def demo_reply_def demo_item_def CaMsg_from_ty_ts_def)

theorem removal_never_ends_witness:
  "\<exists>outs s'. ru_run demo_runtime [(demo_clock 0, RcRemove), (demo_clock 1, RcPush (demo_reply 42)), (demo_clock 2, RcPoll)] demo_running =
    Some (outs, s') \<and> list_all nothing_said outs \<and> length outs \<ge> 1"
proof -
  let ?calls = "[(demo_clock 1, RcPush (demo_reply 42)), (demo_clock 2, RcPoll)]"
  have "\<forall>i. RcPush i \<in> snd ` set ?calls \<longrightarrow> expected i" using demo_reply_expected by simp
  from removal_never_ends [OF demo_running_unsubscribed this, of demo_runtime "demo_clock 0"]
  show ?thesis by (simp del: ru_run.simps)
qed

end
