(* ===== verification/Spec2Isabelle.thy ===== *)
theory Spec2Isabelle
  imports Prelude TimeTypes BinRange ByteFifo SlideBuf NetBuf Msp ScalarTypes InsertQueue SeriesWriter RtWriter
    Streams Mergeable Merger MergerCorrect MergerRun Utf8 CaMsg CaConn CaConnCorrect CaConnLive CaProps RangeFilter Timeweight TimeweightCorrect DiskIndex DiskIndexCorrect Frames FramesCorrect BinIter BinPlan BinPlanCorrect
    EventFull EventChunker EventChunkerCorrect EventChunkerRun Zmtp ZmtpCorrect CaWriter ChanStatus ChanFetch ChanFetchCorrect ChanRunning ChanRunningCorrect
begin

text \<open>
  \<^bold>\<open>Verification of the daqbuf data archiver.\<close>

  The program records time series of control system channels and serves them. On the way in, the
  Channel Access client (\<^verbatim>\<open>daqbuf-ca-proto\<close>, \<^verbatim>\<open>daqbuf-netfetch\<close>) decodes messages of the servers; the
  writers of \<^verbatim>\<open>daqbuf-serieswriter\<close> decide which values go to the short, medium and long term store
  and split timestamps into partition and offset; the resulting items wait in the queues of
  \<^verbatim>\<open>daqbuf-scywr\<close> for the database. On the way out, events are read by partition (\<^verbatim>\<open>daqbuf-scyllaconn\<close>),
  streams of event containers are merged (\<^verbatim>\<open>daqbuf-items-0\<close>, \<^verbatim>\<open>daqbuf-items-2\<close>), and binned on the
  grids of \<^verbatim>\<open>daqbuf-netpod\<close> and \<^verbatim>\<open>daqbuf-series\<close>.

  \<^bold>\<open>Conventions.\<close> A Rust integer is a word of its width, so arithmetic wraps as in a release build,
  except \<^verbatim>\<open>usize\<close>, which is a natural number with the reduction written out where it can overflow. A value of type
  \<open>'a panics\<close> is \<open>None\<close> where the code panics (index out of bounds, division by zero, \<^verbatim>\<open>unwrap\<close> of
  \<^verbatim>\<open>None\<close>, \<^verbatim>\<open>todo!\<close>); \<open>('e, 'a) result\<close> is \<open>'e + 'a\<close>. A method that changes \<^verbatim>\<open>self\<close> returns the new
  state. A loop without a structural bound is a \<open>partial_function (option)\<close>, whose value is \<open>None\<close> if
  the loop does not end, so a theorem that gives \<open>Some\<close> shows that the code returns and does not
  panic. No fuel is used. \<open>Poll\<close> is the datatype \<open>poll\<close>; what a socket or an input stream will deliver is a list of poll results
  fixed at the start, so a statement for every list covers every arrival of data. Clock readings are
  arguments. Floating point numbers are carried as their bit patterns.

  \<^bold>\<open>Theories.\<close>
  \<^item> \<open>Prelude\<close>: results, panics, slices, big and little endian integers, lemmas on words and lists.
  \<^item> \<open>TimeTypes\<close> (\<^verbatim>\<open>netpod.rs\<close>, \<^verbatim>\<open>ttl.rs\<close>): time types and retention times.
  \<^item> \<open>BinRange\<close> (\<^verbatim>\<open>netpod.rs\<close>, \<^verbatim>\<open>range/evrange.rs\<close>): ranges and bin grids. The grid chosen for a
    request covers it; its edges tile it; the division by zero for narrow ranges.
  \<^item> \<open>ByteFifo\<close>: the locale of a bounded byte queue, with its client lemmas. \<open>SlideBuf\<close>
    (\<^verbatim>\<open>streams/src/slidebuf.rs\<close>) and \<open>NetBuf\<close> (\<^verbatim>\<open>netfetch/src/netbuf.rs\<close>) interpret it: they
    implement the queue, never panic and keep their invariants.
  \<^item> \<open>Msp\<close> (\<^verbatim>\<open>series/src/msp.rs\<close>): addresses of precomputed bins; conversions are inverse, successors are the next bins.
  \<^item> \<open>ScalarTypes\<close> (\<^verbatim>\<open>netpod.rs\<close>): codes of element types and shapes.
  \<^item> \<open>InsertQueue\<close> (\<^verbatim>\<open>scywr/src/iteminsertqueue.rs\<close>, \<^verbatim>\<open>insertqueues.rs\<close>, \<^verbatim>\<open>scyllaconn\<close> value types):
    values, items, queues, the array blob read back by the readers.
  \<^item> \<open>SeriesWriter\<close>, \<open>RtWriter\<close> (\<^verbatim>\<open>serieswriter/src\<close>): partition splitters as interpretations of the
    locale of a splitter; every partition is announced before its rows; rate limits; the three
    retention times stay in time order.
  \<^item> \<open>Streams\<close>, \<open>Mergeable\<close> (\<^verbatim>\<open>items-0\<close>, \<^verbatim>\<open>container_events.rs\<close>): stream items, the merge trait as a
    record of operations with its contract as a locale, and \<^verbatim>\<open>ContainerEvents\<close> as its interpretation.
  \<^item> \<open>Merger\<close>, \<open>MergerCorrect\<close>, \<open>MergerRun\<close> (\<^verbatim>\<open>items-2/src/merger.rs\<close>): the stream merger, the
    refinement of its step by an abstract merge relation, and termination and correctness of complete runs.
  \<^item> \<open>Utf8\<close>: strings and the lossy decoding of the standard library. \<open>CaMsg\<close>, \<open>CaConn\<close>
    (\<^verbatim>\<open>ca-proto/src/ca/proto.rs\<close>): messages and the protocol stream over a buffer, whose contract is the
    locale \<open>slide_buf\<close>. \<open>CaConnCorrect\<close>, \<open>CaConnLive\<close>, \<open>CaProps\<close>: the stream against a parser of byte
    strings. What it yields is never more than the parser finds; on an open connection whose bytes decode and fit the
    buffer of 40 MiB it yields all of it and never fails. When the connection ends, or the buffer is too full for the
    next read, complete messages can be lost.

  \<^item> \<open>RangeFilter\<close> (\<^verbatim>\<open>streams/src/rangefilter2.rs\<close>): the filter of a range of time over the merge trait,
    with the specification of the events it yields.
  \<^item> \<open>Timeweight\<close>, \<open>TimeweightCorrect\<close> (\<^verbatim>\<open>items-2/src/binning/timeweight\<close>): the binner of events with
    time weighted averages. The number arithmetic of the element type is a parameter with its laws as a
    locale; a complete run is compared with the segments of the step function of the events. The run stays
    below 10000 bins, where the output of the code panics, and the grid must fit 64 bits.
  \<^item> \<open>DiskIndex\<close>, \<open>DiskIndexCorrect\<close> (\<^verbatim>\<open>disk/src/index.rs\<close>, \<^verbatim>\<open>dataopen.rs\<close>): the search for the first
    event of a range by the index file, or by bisection of a data file with events of one size. Both are
    shown to find the position a linear scan finds. Failures of the disk are not modelled.
  \<^item> \<open>Frames\<close>, \<open>FramesCorrect\<close> (\<^verbatim>\<open>items-2/src/inmem.rs\<close>, \<^verbatim>\<open>frame.rs\<close>, \<^verbatim>\<open>framable.rs\<close>,
    \<^verbatim>\<open>streams/src/frames\<close>): the frames between nodes. The checksum and the encodings of the payloads are
    parameters; encodings are inverted by their decoders. The frame stream works on any buffer that meets the
    contract of \<open>CaConn\<close> and refines a receiver of byte strings, for chunks that fit the buffer beside an
    incomplete frame; frames above 50 MiB are refused.
  \<^item> \<open>BinIter\<close>, \<open>BinPlan\<close>, \<open>BinPlanCorrect\<close> (\<^verbatim>\<open>scyllaconn/src/binned2\<close>): the iterators over the addresses
    of precomputed bins and the choice of the bins read for a request. The cache provider and the stream of the
    index are parameters.

  \<^item> \<open>EventFull\<close> (\<^verbatim>\<open>items-2/src/eventfull.rs\<close>): the container of events as stored on disk, another
    interpretation of the merge trait's contract.
  \<^item> \<open>EventChunker\<close>, \<open>EventChunkerCorrect\<close>, \<open>EventChunkerRun\<close> (\<^verbatim>\<open>streams/src/needminbuffer.rs\<close>,
    \<^verbatim>\<open>disk/src/eventchunker.rs\<close>): the reader of data files arriving in chunks. The format of a file is written
    as an encoder; the reader yields the events of the range from any division of the file into chunks. The
    bitshuffle decompressor and the texts of log items are parameters. The statement holds for events of at most the
    need limit, at most a hundred events before the range (the code gives up there), chunks below 2 GiB and a nonzero
    interval of the statistics; a part of an event at the end of the file is dropped.
  \<^item> \<open>Zmtp\<close>, \<open>ZmtpCorrect\<close> (\<^verbatim>\<open>ingest-bsread/src/zmtp/zmtpproto.rs\<close>): the message transport of ZeroMQ. The
    buffer's contract extends the one of \<open>CaConn\<close>, and for the answers to pings, which depend on the room for
    writing, it is extended once more. The wire format is a list of frames; the stream yields its events, answers
    pings as long as the answers fit its buffer and does not notice the end of a connection. Frames fit half the
    buffer, as the code demands.
  \<^item> \<open>CaWriter\<close> (\<^verbatim>\<open>netfetch/src/ca/conn2/ca_writer_value.rs\<close>): values of channels as items for the
    writers. They keep the registered type, and the elements of a waveform reach the reader of the database.
  \<^item> \<open>ChanStatus\<close> (\<^verbatim>\<open>netpod/src/channelstatus.rs\<close>): the status of a channel and its codes.
  \<^item> \<open>ChanFetch\<close>, \<open>ChanRunning\<close> (\<^verbatim>\<open>netfetch/src/ca/conn2/conn/channelheap/channelhandler\<close>: \<^verbatim>\<open>running.rs\<close>,
    \<^verbatim>\<open>fetchmpx.rs\<close>, \<^verbatim>\<open>fetchmonitoring.rs\<close>, \<^verbatim>\<open>fetchpolling.rs\<close>): the handlers that subscribe to a channel or poll it.
    \<open>ChanFetchCorrect\<close>, \<open>ChanRunningCorrect\<close>: the locale \<open>fetcher\<close> of a handler that keeps a protocol, interpreted on both,
    gives theorems on the traces of all interleavings of calls; timers, random numbers and single precision
    arithmetic are parameters. The removal of a channel without a subscription does not end.

  \<^bold>\<open>Not modelled.\<close> Services and drivers the code only calls (PostgreSQL and ScyllaDB clients, HTTP,
  tokio), logging, metrics and serde implementations; the manifest names each remaining part of the
  repository with the reason.
\<close>

end
